(* ===== verification/Prelude.thy ===== *)
theory Prelude
  imports "HOL-Library.Word" "HOL-Library.List_Lexorder" "HOL-Library.Char_ord"
begin

text \<open>
  Shared vocabulary of the development: the machine integer types of the source, the error
  enum of \<^verbatim>\<open>saci-core/src/error.rs\<close> and its \<^verbatim>\<open>SaciResult\<close> alias, big- and little-endian byte
  layouts (\<^verbatim>\<open>to_be_bytes\<close>, \<^verbatim>\<open>to_le_bytes\<close> and their inverses) with the facts the key
  encodings need, saturating and wrapping arithmetic, and the lemmas on lists, sums and
  options that more than one component uses.
\<close>

section \<open>Collections of facts\<close>

named_theorems res_simps
  \<open>unfolding of the result combinators\<close>
named_theorems bytes_simps
  \<open>lengths, inverses and injectivity of the byte layouts\<close>

section \<open>Integer types and errors\<close>

type_synonym u8 = "8 word"
type_synonym u32 = "32 word"
type_synonym u64 = "64 word"
type_synonym uuid = "128 word"
type_synonym bytes = "u8 list"

text \<open>
  The error enum. \<^verbatim>\<open>RetryExhausted\<close> boxes the error of the last attempt together with the
  number of attempts made.
\<close>

datatype saci_error =
    SystemExecution string
  | ComponentNotFound u32 string
  | EntityNotFound u32
  | ResourceNotFound string
  | Store string
  | Scheduler string
  | Configuration string
  | RetryExhausted saci_error nat
  | Generic string
  | Distributed string
  | LeaseExpired u64

type_synonym 'a saci_result = "saci_error + 'a"

text \<open>\<^verbatim>\<open>SaciError::category\<close>.\<close>

fun category :: "saci_error \<Rightarrow> string" where
  "category (SystemExecution _) = ''system_execution''"
| "category (ComponentNotFound _ _) = ''component_not_found''"
| "category (EntityNotFound _) = ''entity_not_found''"
| "category (ResourceNotFound _) = ''resource_not_found''"
| "category (Store _) = ''store''"
| "category (Scheduler _) = ''scheduler''"
| "category (Configuration _) = ''configuration''"
| "category (RetryExhausted _ _) = ''retry_exhausted''"
| "category (Generic _) = ''generic''"
| "category (Distributed _) = ''distributed''"
| "category (LeaseExpired _) = ''lease_expired''"

text \<open>Decimal texts and quoting.\<close>

fun dec_string :: "nat \<Rightarrow> string" where
  "dec_string n = (if n < 10 then [char_of (48 + n)]
     else dec_string (n div 10) @ [char_of (48 + n mod 10)])"

declare dec_string.simps [simp del]

definition u32_string :: "u32 \<Rightarrow> string" where "u32_string x = dec_string (unat x)"
definition u64_string :: "u64 \<Rightarrow> string" where "u64_string x = dec_string (unat x)"
definition quoted :: "string \<Rightarrow> string" where "quoted s = [CHR 0x27] @ s @ [CHR 0x27]"

text \<open>\<^verbatim>\<open>Display\<close> of an error and \<^verbatim>\<open>SaciError::message\<close>.\<close>

primrec display_error :: "saci_error \<Rightarrow> string" where
  "display_error (SystemExecution msg) = ''System execution error: '' @ msg"
| "display_error (ComponentNotFound entity_id type_name) =
     ''Component not found: entity '' @ u32_string entity_id @ '' missing '' @ type_name"
| "display_error (EntityNotFound i) = ''Entity not found: '' @ u32_string i"
| "display_error (ResourceNotFound name) = ''Resource not found: '' @ name"
| "display_error (Store msg) = ''Store error: '' @ msg"
| "display_error (Scheduler msg) = ''Scheduler error: '' @ msg"
| "display_error (Configuration msg) = ''Configuration error: '' @ msg"
| "display_error (RetryExhausted source attempts) = ''Retry exhausted after '' @
     dec_string attempts @ '' attempt(s): '' @ display_error source"
| "display_error (Generic msg) = ''Error: '' @ msg"
| "display_error (Distributed msg) = ''Distributed error: '' @ msg"
| "display_error (LeaseExpired batch_id) = ''Lease expired for batch '' @ u64_string batch_id"

fun error_message :: "saci_error \<Rightarrow> string" where
  "error_message (SystemExecution msg) = msg"
| "error_message (ComponentNotFound _ type_name) = type_name"
| "error_message (EntityNotFound i) = u32_string i"
| "error_message (ResourceNotFound name) = name"
| "error_message (Store msg) = msg"
| "error_message (Scheduler msg) = msg"
| "error_message (Configuration msg) = msg"
| "error_message (RetryExhausted source attempts) =
     ''after '' @ dec_string attempts @ '' attempt(s): '' @ display_error source"
| "error_message (Generic msg) = msg"
| "error_message (Distributed msg) = msg"
| "error_message (LeaseExpired batch_id) = ''lease expired for batch '' @ u64_string batch_id"

text \<open>The question-mark operator: an error returns early.\<close>

definition res_bind :: "'e + 'a \<Rightarrow> ('a \<Rightarrow> 'e + 'b) \<Rightarrow> 'e + 'b" where
  [res_simps]: "res_bind r f = (case r of Inl e \<Rightarrow> Inl e | Inr x \<Rightarrow> f x)"

lemma res_bind_Inl [simp]: "res_bind (Inl e) f = Inl e"
  by (simp add: res_bind_def)

lemma res_bind_Inr [simp]: "res_bind (Inr x) f = f x"
  by (simp add: res_bind_def)

lemma res_bind_eq_Inr: "res_bind r f = Inr y \<longleftrightarrow> (\<exists>x. r = Inr x \<and> f x = Inr y)"
  by (cases r) auto

section \<open>Arithmetic of the source's integer types\<close>

text \<open>\<^verbatim>\<open>u32::saturating_add(1)\<close>, \<^verbatim>\<open>u64::saturating_sub\<close> and \<^verbatim>\<open>u64::checked_add\<close>.\<close>

definition u32_saturating_inc :: "u32 \<Rightarrow> u32" where
  "u32_saturating_inc x = (if x = - 1 then x else x + 1)"

definition u64_saturating_sub :: "u64 \<Rightarrow> u64 \<Rightarrow> u64" where
  "u64_saturating_sub x y = (if x < y then 0 else x - y)"

definition u64_checked_add :: "u64 \<Rightarrow> u64 \<Rightarrow> u64 option" where
  "u64_checked_add x y = (if unat x + unat y < 2 ^ 64 then Some (x + y) else None)"

lemma unat_max_u32: "unat (- 1 :: u32) = 2 ^ 32 - 1"
  by (simp add: unsigned_minus_1_eq_mask mask_eq_exp_minus_1)

lemma unat_u32_saturating_inc: "unat (u32_saturating_inc x) = min (unat x + 1) (2 ^ 32 - 1)"
proof (cases "x = - 1")
  case True
  then show ?thesis by (simp add: u32_saturating_inc_def unat_max_u32)
next
  case False
  then have "unat x \<noteq> 2 ^ 32 - 1"
    by (metis unat_max_u32 word_unat_eq_iff)
  moreover have "unat x < 2 ^ 32" using unsigned_less [of x] by simp
  ultimately have lt: "unat x + 1 < 2 ^ 32" by simp
  then have "unat (x + 1) = unat x + 1"
    by (simp add: unat_word_ariths)
  with False lt show ?thesis by (simp add: u32_saturating_inc_def)
qed

text \<open>Two's complement wrap-around of a 64-bit signed result.\<close>

definition wrap_i64 :: "int \<Rightarrow> int" where
  "wrap_i64 x = (x + 2 ^ 63) mod 2 ^ 64 - 2 ^ 63"

definition i64_min :: int where "i64_min = - (2 ^ 63)"
definition i64_max :: int where "i64_max = 2 ^ 63 - 1"

definition in_i64 :: "int \<Rightarrow> bool" where
  "in_i64 x \<longleftrightarrow> i64_min \<le> x \<and> x \<le> i64_max"

lemma wrap_i64_id: "in_i64 x \<Longrightarrow> wrap_i64 x = x"
  by (simp add: in_i64_def wrap_i64_def i64_min_def i64_max_def)

lemma wrap_i64_in: "in_i64 (wrap_i64 x)"
proof -
  have "0 \<le> (x + 2 ^ 63) mod 2 ^ 64" "(x + 2 ^ 63) mod 2 ^ 64 < 2 ^ 64" by simp_all
  then show ?thesis
    by (simp add: in_i64_def wrap_i64_def i64_min_def i64_max_def)
qed

section \<open>Byte layouts\<close>

text \<open>
  \<open>be_bytes n x\<close> are the \<open>n\<close> low bytes of \<open>x\<close>, most significant first; \<open>le_bytes\<close> the
  same bytes in the other order.
\<close>

primrec be_bytes :: "nat \<Rightarrow> nat \<Rightarrow> bytes" where
  "be_bytes 0 x = []"
| "be_bytes (Suc n) x = word_of_nat (x div 256 ^ n) # be_bytes n x"

definition le_bytes :: "nat \<Rightarrow> nat \<Rightarrow> bytes" where
  "le_bytes n x = rev (be_bytes n x)"

definition from_be_bytes :: "bytes \<Rightarrow> nat" where
  "from_be_bytes bs = foldl (\<lambda>a b. a * 256 + unat b) 0 bs"

definition from_le_bytes :: "bytes \<Rightarrow> nat" where
  "from_le_bytes bs = from_be_bytes (rev bs)"

lemma length_be_bytes [simp, bytes_simps]: "length (be_bytes n x) = n"
  by (induction n) auto

text \<open>The same bytes by repeated division, which is how the evaluator computes them.\<close>

primrec be_acc :: "nat \<Rightarrow> nat \<Rightarrow> bytes \<Rightarrow> bytes" where
  "be_acc 0 x acc = acc"
| "be_acc (Suc n) x acc = be_acc n (x div 256) (word_of_nat x # acc)"

lemma be_bytes_snoc: "be_bytes (Suc n) x = be_bytes n (x div 256) @ [word_of_nat x]"
  by (induction n) (simp_all add: div_mult2_eq [symmetric] mult.commute)

lemma be_acc_eq: "be_acc n x acc = be_bytes n x @ acc"
proof (induction n arbitrary: x acc)
  case (Suc n)
  then show ?case using be_bytes_snoc [of n x] by simp
qed simp

lemma be_bytes_code [code]: "be_bytes n x = be_acc n x []"
  by (simp add: be_acc_eq)

lemma length_le_bytes [simp, bytes_simps]: "length (le_bytes n x) = n"
  by (simp add: le_bytes_def)

lemma mod_mult_div_eq: "0 < p \<Longrightarrow> x mod (p * q) div p = x div p mod (q :: nat)"
  by (simp add: mod_mult2_eq)

lemma be_bytes_mod_le: "n \<le> m \<Longrightarrow> be_bytes n (x mod 256 ^ m) = be_bytes n x"
proof (induction n)
  case 0
  then show ?case by simp
next
  case (Suc n)
  define d where "d = m - Suc n"
  have m: "m = n + Suc d" using Suc.prems by (simp add: d_def)
  have "x mod 256 ^ m div 256 ^ n = x div 256 ^ n mod 256 ^ Suc d"
    using mod_mult_div_eq [of "256 ^ n" x "256 ^ Suc d"] by (simp only: m power_add) simp
  then have "word_of_nat (x mod 256 ^ m div 256 ^ n) =
      (word_of_nat (x div 256 ^ n mod 256 ^ Suc d) :: u8)" by simp
  also have "\<dots> = word_of_nat (x div 256 ^ n)"
    by (simp add: word_unat_eq_iff unat_of_nat mod_mod_cancel)
  finally show ?case using Suc by simp
qed

lemma foldl_be: "foldl (\<lambda>a b. a * 256 + unat (b :: u8)) z bs
    = z * 256 ^ length bs + from_be_bytes bs"
proof (induction bs arbitrary: z)
  case Nil
  then show ?case by (simp add: from_be_bytes_def)
next
  case (Cons b bs)
  have "foldl (\<lambda>a b. a * 256 + unat (b :: u8)) z (b # bs)
      = (z * 256 + unat b) * 256 ^ length bs + from_be_bytes bs"
    using Cons [of "z * 256 + unat b"] by simp
  moreover have "from_be_bytes (b # bs) = unat b * 256 ^ length bs + from_be_bytes bs"
    using Cons [of "unat b"] by (simp add: from_be_bytes_def)
  ultimately show ?case by (simp add: algebra_simps)
qed

lemma from_be_bytes_Cons:
  "from_be_bytes (b # bs) = unat b * 256 ^ length bs + from_be_bytes bs"
  using foldl_be [of "unat b" bs] by (simp add: from_be_bytes_def)

lemma from_be_bytes_Nil [simp]: "from_be_bytes [] = 0"
  by (simp add: from_be_bytes_def)

lemma from_be_be_bytes [bytes_simps]: "from_be_bytes (be_bytes n x) = x mod 256 ^ n"
proof (induction n)
  case 0
  then show ?case by simp
next
  case (Suc n)
  have "unat (word_of_nat (x div 256 ^ n) :: u8) = x div 256 ^ n mod 256"
    by (simp add: unat_of_nat)
  then have "from_be_bytes (be_bytes (Suc n) x)
      = (x div 256 ^ n mod 256) * 256 ^ n + x mod 256 ^ n"
    by (simp add: from_be_bytes_Cons Suc)
  also have "\<dots> = x mod (256 ^ n * 256)"
    by (simp only: mod_mult2_eq) simp
  finally show ?case by (simp add: mult.commute)
qed

lemma from_le_le_bytes [bytes_simps]: "from_le_bytes (le_bytes n x) = x mod 256 ^ n"
  by (simp add: from_le_bytes_def le_bytes_def from_be_be_bytes)

lemma be_bytes_inj:
  assumes "x < 256 ^ n" "y < 256 ^ n" "be_bytes n x = be_bytes n y"
  shows "x = y"
proof -
  have "from_be_bytes (be_bytes n x) = from_be_bytes (be_bytes n y)" using assms(3) by simp
  then show ?thesis using assms(1,2) by (simp add: from_be_be_bytes)
qed

lemma from_be_bytes_less: "from_be_bytes bs < 256 ^ length bs"
proof (induction bs)
  case Nil
  then show ?case by simp
next
  case (Cons b bs)
  have "unat b * 256 ^ length bs + from_be_bytes bs < (unat b + 1) * 256 ^ length bs"
    using Cons by simp
  also have "\<dots> \<le> 256 * 256 ^ length bs"
    using unsigned_less [of b, where ?'a = nat] by (intro mult_le_mono1) simp
  finally show ?case by (simp add: from_be_bytes_Cons)
qed

lemma be_from_be_bytes [bytes_simps]: "length bs = n \<Longrightarrow> be_bytes n (from_be_bytes bs) = bs"
proof (induction bs arbitrary: n)
  case Nil
  then show ?case by simp
next
  case (Cons b bs)
  have lt: "from_be_bytes bs < 256 ^ length bs" by (rule from_be_bytes_less)
  have "from_be_bytes (b # bs) mod 256 ^ length bs = from_be_bytes bs"
    "from_be_bytes (b # bs) div 256 ^ length bs = unat b"
    using lt by (simp_all add: from_be_bytes_Cons)
  then show ?case
    using Cons be_bytes_mod_le [of "length bs" "length bs" "from_be_bytes (b # bs)"] by auto
qed

lemma le_from_le_bytes [bytes_simps]: "length bs = n \<Longrightarrow> le_bytes n (from_le_bytes bs) = bs"
  by (simp add: le_bytes_def from_le_bytes_def be_from_be_bytes)

lemma div_mod_less_iff:
  "0 < p \<Longrightarrow> x < y \<longleftrightarrow> x div p < y div p \<or> (x div p = y div p \<and> x mod p < y mod (p :: nat))"
proof (cases "x div p = y div p")
  case True
  have "y div p * p + x mod p = x" "y div p * p + y mod p = y"
    using True div_mult_mod_eq [of x p] div_mult_mod_eq [of y p] by simp_all
  then have "x < y \<longleftrightarrow> x mod p < y mod p" by linarith
  with True show ?thesis by simp
next
  case False
  then show ?thesis
    by (meson div_le_mono leD leI nat_less_le order.strict_implies_order)
qed

text \<open>Big-endian layout is monotone: the byte order of keys is the order of the numbers.\<close>

lemma be_bytes_less:
  "x < 256 ^ n \<Longrightarrow> y < 256 ^ n \<Longrightarrow> be_bytes n x < be_bytes n y \<longleftrightarrow> x < y"
proof (induction n arbitrary: x y)
  case 0
  then show ?case by simp
next
  case (Suc n)
  let ?p = "256 ^ n :: nat"
  have hx: "x div ?p < 256" and hy: "y div ?p < 256"
    using Suc.prems by (simp_all add: div_less_iff_less_mult mult.commute)
  have heads: "(word_of_nat (x div ?p) :: u8) < word_of_nat (y div ?p) \<longleftrightarrow> x div ?p < y div ?p"
    using hx hy by (simp add: word_less_nat_alt unat_of_nat)
  have heq: "(word_of_nat (x div ?p) :: u8) = word_of_nat (y div ?p) \<longleftrightarrow> x div ?p = y div ?p"
    using hx hy by (simp add: word_unat_eq_iff unat_of_nat)
  have tails: "be_bytes n x < be_bytes n y \<longleftrightarrow> x mod ?p < y mod ?p"
    using Suc.IH [of "x mod ?p" "y mod ?p"] be_bytes_mod_le [of n n x] be_bytes_mod_le [of n n y]
    by simp
  show ?case
    using div_mod_less_iff [of ?p x y] by (simp add: heads heq tails)
qed

text \<open>Appending keeps or refines the order of equally long prefixes.\<close>

lemma append_less_iff:
  "length xs = length ys \<Longrightarrow>
   (xs @ as) < (ys @ bs) \<longleftrightarrow> xs < ys \<or> (xs = ys \<and> as < (bs :: 'a :: linorder list))"
proof (induction xs arbitrary: ys)
  case Nil
  then show ?case by simp
next
  case (Cons x xs)
  then obtain y ys' where "ys = y # ys'" by (cases ys) auto
  with Cons show ?case by auto
qed

definition u32_be :: "u32 \<Rightarrow> bytes" where "u32_be x = be_bytes 4 (unat x)"
definition u64_be :: "u64 \<Rightarrow> bytes" where "u64_be x = be_bytes 8 (unat x)"
definition u32_le :: "u32 \<Rightarrow> bytes" where "u32_le x = le_bytes 4 (unat x)"
definition uuid_bytes :: "uuid \<Rightarrow> bytes" where "uuid_bytes x = be_bytes 16 (unat x)"
definition u32_from_be :: "bytes \<Rightarrow> u32" where "u32_from_be bs = word_of_nat (from_be_bytes bs)"
definition u32_from_le :: "bytes \<Rightarrow> u32" where "u32_from_le bs = word_of_nat (from_le_bytes bs)"

lemma length_u32_be [simp, bytes_simps]: "length (u32_be x) = 4"
  by (simp add: u32_be_def)
lemma length_u64_be [simp, bytes_simps]: "length (u64_be x) = 8"
  by (simp add: u64_be_def)
lemma length_u32_le [simp, bytes_simps]: "length (u32_le x) = 4"
  by (simp add: u32_le_def)
lemma length_uuid_bytes [simp, bytes_simps]: "length (uuid_bytes x) = 16"
  by (simp add: uuid_bytes_def)

lemma unat_u32_bound: "unat (x :: u32) < 256 ^ 4"
  using unsigned_less [of x] by simp
lemma unat_u64_bound: "unat (x :: u64) < 256 ^ 8"
  using unsigned_less [of x] by simp
lemma unat_uuid_bound: "unat (x :: uuid) < 256 ^ 16"
  using unsigned_less [of x] by simp

lemma u32_from_be_be [simp, bytes_simps]: "u32_from_be (u32_be x) = x"
  using unat_u32_bound [of x] by (simp add: u32_from_be_def u32_be_def from_be_be_bytes)

lemma u32_from_le_le [simp, bytes_simps]: "u32_from_le (u32_le x) = x"
  using unat_u32_bound [of x] by (simp add: u32_from_le_def u32_le_def from_le_le_bytes)

lemma u32_be_from_be: "length bs = 4 \<Longrightarrow> u32_be (u32_from_be bs) = bs"
  using from_be_bytes_less [of bs]
  by (simp add: u32_be_def u32_from_be_def unat_of_nat be_from_be_bytes)

lemma u32_le_from_le: "length bs = 4 \<Longrightarrow> u32_le (u32_from_le bs) = bs"
  using from_be_bytes_less [of "rev bs"]
  by (simp add: u32_le_def u32_from_le_def unat_of_nat from_le_bytes_def
      le_from_le_bytes [unfolded from_le_bytes_def])

lemma u64_be_eq [simp, bytes_simps]: "u64_be x = u64_be y \<longleftrightarrow> x = y"
  using be_bytes_inj [OF unat_u64_bound [of x] unat_u64_bound [of y]]
  by (auto simp: u64_be_def word_unat_eq_iff)

lemma u64_be_less: "u64_be x < u64_be y \<longleftrightarrow> x < y"
  unfolding u64_be_def using be_bytes_less [OF unat_u64_bound [of x] unat_u64_bound [of y]]
  by (simp add: word_less_nat_alt)

lemma u32_be_eq [simp, bytes_simps]: "u32_be x = u32_be y \<longleftrightarrow> x = y"
  using be_bytes_inj [OF unat_u32_bound [of x] unat_u32_bound [of y]]
  by (auto simp: u32_be_def word_unat_eq_iff)

lemma uuid_bytes_eq [simp, bytes_simps]: "uuid_bytes x = uuid_bytes y \<longleftrightarrow> x = y"
  using be_bytes_inj [OF unat_uuid_bound [of x] unat_uuid_bound [of y]]
  by (auto simp: uuid_bytes_def word_unat_eq_iff)

section \<open>Slices\<close>

text \<open>\<^verbatim>\<open>slice::partition_point\<close>; the standard library asks for a slice that the predicate splits.\<close>

definition partition_point :: "('a \<Rightarrow> bool) \<Rightarrow> 'a list \<Rightarrow> nat" where
  "partition_point P xs = length (takeWhile P xs)"

lemma take_partition_point: "take (partition_point P xs) xs = takeWhile P xs"
  by (simp add: partition_point_def takeWhile_eq_take [symmetric])

lemma drop_partition_point: "drop (partition_point P xs) xs = dropWhile P xs"
  by (simp add: partition_point_def dropWhile_eq_drop [symmetric])

lemma nth_partition_point:
  "partition_point P xs < length xs \<Longrightarrow> xs ! partition_point P xs = hd (dropWhile P xs)"
  by (metis drop_partition_point hd_drop_conv_nth)

end
