(* ===== verification/Ordered_Table.thy ===== *)
theory Ordered_Table
  imports Prelude
begin

text \<open>
  The contract of a redb table as the state machine uses it: a finite map whose keys are kept
  in order, so that an iteration and a bounded range scan return the rows in key order.
  The interface is the locale \<open>ordered_table\<close>; its laws are what the documentation of redb
  promises for \<^verbatim>\<open>get\<close>, \<^verbatim>\<open>insert\<close>, \<^verbatim>\<open>remove\<close>, \<^verbatim>\<open>range\<close> and \<^verbatim>\<open>iter\<close>. The interpretation shows
  that the strictly sorted association lists that hold the rows of the model satisfy them.
  A database field is an optional table: \<open>None\<close> is a table that was never opened for writing
  (\<^verbatim>\<open>TableError::TableDoesNotExist\<close>); opening it in a write transaction creates it.
\<close>

section \<open>The interface\<close>

locale ordered_table =
  fixes get :: "'t \<Rightarrow> 'k :: linorder \<Rightarrow> 'v option"
    and insert_row :: "'k \<Rightarrow> 'v \<Rightarrow> 't \<Rightarrow> 't"
    and remove_row :: "'k \<Rightarrow> 't \<Rightarrow> 't"
    and scan :: "'k \<Rightarrow> 'k option \<Rightarrow> 't \<Rightarrow> ('k \<times> 'v) list"
    and rows :: "'t \<Rightarrow> ('k \<times> 'v) list"
    and wf :: "'t \<Rightarrow> bool"
  assumes get_insert: "wf t \<Longrightarrow> get (insert_row k v t) = (get t)(k \<mapsto> v)"
    and get_remove: "wf t \<Longrightarrow> get (remove_row k t) = (get t)(k := None)"
    and wf_insert: "wf t \<Longrightarrow> wf (insert_row k v t)"
    and wf_remove: "wf t \<Longrightarrow> wf (remove_row k t)"
    and rows_get: "wf t \<Longrightarrow> (k, v) \<in> set (rows t) \<longleftrightarrow> get t k = Some v"
    and rows_sorted: "wf t \<Longrightarrow> sorted_wrt (<) (map fst (rows t))"
    and scan_rows: "wf t \<Longrightarrow> scan lo hi t =
          filter (\<lambda>(k, v). lo \<le> k \<and> (case hi of None \<Rightarrow> True | Some h \<Rightarrow> k < h)) (rows t)"
begin

lemma scan_mem:
  "wf t \<Longrightarrow> (k, v) \<in> set (scan lo hi t) \<longleftrightarrow>
     get t k = Some v \<and> lo \<le> k \<and> (case hi of None \<Rightarrow> True | Some h \<Rightarrow> k < h)"
  by (auto simp: scan_rows rows_get)

lemma scan_values:
  "wf t \<Longrightarrow> v \<in> snd ` set (scan lo hi t) \<longleftrightarrow>
     (\<exists>k. get t k = Some v \<and> lo \<le> k \<and> (case hi of None \<Rightarrow> True | Some h \<Rightarrow> k < h))"
  unfolding image_iff Bex_def by (metis prod.exhaust_sel scan_mem snd_conv)

lemma rows_distinct: "wf t \<Longrightarrow> distinct (map fst (rows t))"
  using rows_sorted strict_sorted_iff by blast

lemma rows_unique:
  assumes "wf t" "wf u" "get t = get u"
  shows "rows t = rows u"
proof -
  have "set (rows t) = set (rows u)"
    using assms by (auto simp: rows_get)
  then have "set (map fst (rows t)) = set (map fst (rows u))" by simp
  then have "map fst (rows t) = map fst (rows u)"
    using rows_sorted [OF assms(1)] rows_sorted [OF assms(2)]
    by (intro strict_sorted_equal) auto
  moreover have "map snd (rows t) = map snd (rows u)"
  proof (rule nth_equalityI)
    show len: "length (map snd (rows t)) = length (map snd (rows u))"
      using calculation by (metis length_map)
    fix i assume i: "i < length (map snd (rows t))"
    have fst_eq: "fst (rows t ! i) = fst (rows u ! i)"
      using calculation i len by (metis length_map nth_map)
    have "rows t ! i \<in> set (rows t)" "rows u ! i \<in> set (rows u)" using i len by auto
    then have "get t (fst (rows t ! i)) = Some (snd (rows t ! i))"
      "get u (fst (rows u ! i)) = Some (snd (rows u ! i))"
      using assms(1,2) by (metis prod.collapse rows_get)+
    then show "map snd (rows t) ! i = map snd (rows u) ! i"
      using fst_eq assms(3) i len by simp
  qed
  ultimately show ?thesis by (metis zip_map_fst_snd)
qed

end

section \<open>The rows of the model\<close>

type_synonym ('k, 'v) table = "('k \<times> 'v) list"

definition tbl_wf :: "('k :: linorder, 'v) table \<Rightarrow> bool" where
  "tbl_wf t \<longleftrightarrow> sorted_wrt (<) (map fst t)"

definition tbl_get :: "('k, 'v) table \<Rightarrow> 'k \<Rightarrow> 'v option" where
  "tbl_get t k = map_of t k"

fun tbl_insert :: "'k :: linorder \<Rightarrow> 'v \<Rightarrow> ('k, 'v) table \<Rightarrow> ('k, 'v) table" where
  "tbl_insert k v [] = [(k, v)]"
| "tbl_insert k v (r # rs) =
     (if fst r < k then r # tbl_insert k v rs
      else if k < fst r then (k, v) # r # rs else (k, v) # rs)"

definition tbl_remove :: "'k \<Rightarrow> ('k, 'v) table \<Rightarrow> ('k, 'v) table" where
  "tbl_remove k t = filter (\<lambda>r. fst r \<noteq> k) t"

definition tbl_range :: "'k :: linorder \<Rightarrow> 'k option \<Rightarrow> ('k, 'v) table \<Rightarrow> ('k \<times> 'v) list" where
  "tbl_range lo hi t =
     filter (\<lambda>(k, v). lo \<le> k \<and> (case hi of None \<Rightarrow> True | Some h \<Rightarrow> k < h)) t"

definition tbl_iter :: "('k, 'v) table \<Rightarrow> ('k \<times> 'v) list" where
  "tbl_iter t = t"

lemma set_tbl_insert: "set (map fst (tbl_insert k v t)) = insert k (set (map fst t))"
  by (induction t) auto

lemma tbl_wf_insert: "tbl_wf t \<Longrightarrow> tbl_wf (tbl_insert k v t)"
proof (induction t)
  case Nil
  then show ?case by (simp add: tbl_wf_def)
next
  case (Cons r rs)
  have keys: "fst ` set (tbl_insert k v rs) = insert k (fst ` set rs)"
    using set_tbl_insert [of k v rs] by simp
  have IH: "sorted_wrt (<) (map fst (tbl_insert k v rs))"
    using Cons by (simp add: tbl_wf_def)
  show ?case
    using Cons.prems IH keys
    by (auto simp: tbl_wf_def ball_Un simp flip: image_iff dest: order.strict_trans)
qed

lemma tbl_get_insert_apply:
  "tbl_wf t \<Longrightarrow> tbl_get (tbl_insert k v t) x = (if x = k then Some v else tbl_get t x)"
proof (induction t)
  case Nil
  then show ?case by (auto simp: tbl_get_def)
next
  case (Cons r rs)
  then have "tbl_get (tbl_insert k v rs) x = (if x = k then Some v else tbl_get rs x)"
    by (simp add: tbl_wf_def)
  then show ?case by (cases r) (auto simp: tbl_get_def)
qed

lemma tbl_get_insert: "tbl_wf t \<Longrightarrow> tbl_get (tbl_insert k v t) = (tbl_get t)(k \<mapsto> v)"
  by (rule ext) (simp add: tbl_get_insert_apply)

lemma tbl_rows_get: "tbl_wf t \<Longrightarrow> (k, v) \<in> set t \<longleftrightarrow> tbl_get t k = Some v"
  by (simp add: tbl_wf_def tbl_get_def strict_sorted_iff)

lemma tbl_wf_filter: "tbl_wf t \<Longrightarrow> tbl_wf (filter P t)"
  by (induction t) (auto simp: tbl_wf_def)

interpretation tbl: ordered_table tbl_get tbl_insert tbl_remove tbl_range tbl_iter tbl_wf
proof
  fix t :: "('a :: linorder, 'b) table" and k :: 'a
  assume wf: "tbl_wf t"
  show "tbl_get (tbl_remove k t) = (tbl_get t)(k := None)"
    by (rule ext) (induction t, auto simp: tbl_get_def tbl_remove_def)
qed (simp_all add: tbl_wf_insert, auto simp: tbl_get_insert tbl_wf_insert tbl_rows_get tbl_iter_def tbl_range_def tbl_wf_def
      tbl_remove_def tbl_wf_filter [unfolded tbl_wf_def] split: option.splits)

lemmas tbl_simps = tbl.get_insert tbl.get_remove tbl.wf_insert tbl.wf_remove

lemma tbl_wf_Nil [simp]: "tbl_wf []"
  by (simp add: tbl_wf_def)

lemma tbl_get_Nil [simp]: "tbl_get [] = Map.empty"
  by (simp add: tbl_get_def fun_eq_iff)

lemma tbl_ext: "tbl_wf t \<Longrightarrow> tbl_wf u \<Longrightarrow> tbl_get t = tbl_get u \<Longrightarrow> t = u"
  using tbl.rows_unique [of t u] by (simp add: tbl_iter_def)

section \<open>Opening tables\<close>

text \<open>
  A write transaction creates a missing table; a read of a missing table is a separate branch
  of the source, which the handlers keep. \<open>rd\<close> is the content either way.
\<close>

definition rd :: "('k, 'v) table option \<Rightarrow> ('k, 'v) table" where
  "rd t = (case t of None \<Rightarrow> [] | Some rs \<Rightarrow> rs)"

lemma rd_simps [simp]: "rd None = []" "rd (Some t) = t"
  by (simp_all add: rd_def)

section \<open>Loading rows in bulk\<close>

definition tbl_load :: "('k :: linorder \<times> 'v) list \<Rightarrow> ('k, 'v) table" where
  "tbl_load rs = fold (\<lambda>(k, v). tbl_insert k v) rs []"

lemma tbl_fold_insert:
  "tbl_wf t \<Longrightarrow> tbl_wf (fold (\<lambda>(k, v). tbl_insert k v) rs t) \<and>
     tbl_get (fold (\<lambda>(k, v). tbl_insert k v) rs t) = tbl_get t ++ map_of (rev rs)"
proof (induction rs arbitrary: t)
  case Nil
  then show ?case by simp
next
  case (Cons r rs)
  obtain k v where r: "r = (k, v)" by (cases r)
  have "tbl_wf (tbl_insert k v t)" using Cons.prems by (rule tbl.wf_insert)
  from Cons.IH [OF this] show ?case
    by (auto simp: r tbl_get_insert_apply [OF Cons.prems] fun_eq_iff map_add_def
        split: option.splits)
qed

lemma tbl_wf_load [simp]: "tbl_wf (tbl_load rs)"
  using tbl_fold_insert [of "[]" rs] by (simp add: tbl_load_def)

lemma map_of_rev_eq: "distinct (map fst rs) \<Longrightarrow> map_of (rev rs) = map_of rs"
proof (rule ext)
  fix k
  assume d: "distinct (map fst rs)"
  then have "distinct (map fst (rev rs))" by (simp add: rev_map [symmetric])
  with d show "map_of (rev rs) k = map_of rs k"
    by (metis map_of_eq_None_iff map_of_eq_Some_iff not_None_eq set_map set_rev)
qed

lemma tbl_get_load: "distinct (map fst rs) \<Longrightarrow> tbl_get (tbl_load rs) = map_of rs"
  using tbl_fold_insert [of "[]" rs] by (simp add: tbl_load_def map_of_rev_eq)

lemma tbl_load_rows: "tbl_wf t \<Longrightarrow> tbl_load (tbl_iter t) = t"
proof -
  assume wf: "tbl_wf t"
  have "distinct (map fst t)" using tbl.rows_distinct [OF wf] by (simp add: tbl_iter_def)
  then show ?thesis
    using wf by (intro tbl_ext) (auto simp: tbl_get_load tbl_iter_def tbl_get_def)
qed

end
