(* ===== verification/Texts.thy ===== *)
theory Texts
  imports Prelude
begin

text \<open>
  The string functions of the standard library that the components use, on texts whose characters
  are the code points below 256: trimming, case folding, splitting, decimal and hexadecimal
  digits, \<^verbatim>\<open>str::parse::<u64>\<close>, and the facts that make a printed text parse back.
\<close>

section \<open>Characters and splitting\<close>

text \<open>\<^verbatim>\<open>char::is_whitespace\<close>, \<^verbatim>\<open>str::trim\<close>, \<^verbatim>\<open>eq_ignore_ascii_case\<close> and \<^verbatim>\<open>split_once\<close>.\<close>

definition is_white :: "char \<Rightarrow> bool" where
  "is_white c \<longleftrightarrow> of_char c \<in> {9, 10, 11, 12, 13, 32, 133, 160 :: nat}"

definition trim :: "string \<Rightarrow> string" where
  "trim s = rev (dropWhile is_white (rev (dropWhile is_white s)))"

definition ascii_lower :: "char \<Rightarrow> char" where
  "ascii_lower c = (let n = of_char c in if 65 \<le> n \<and> n \<le> 90 then char_of (n + 32 :: nat) else c)"

definition eq_ignore_case :: "string \<Rightarrow> string \<Rightarrow> bool" where
  "eq_ignore_case a b \<longleftrightarrow> map ascii_lower a = map ascii_lower b"

definition split_once :: "char \<Rightarrow> string \<Rightarrow> (string \<times> string) option" where
  "split_once c s = (case dropWhile (\<lambda>x. x \<noteq> c) s of
      [] \<Rightarrow> None | _ # rest \<Rightarrow> Some (takeWhile (\<lambda>x. x \<noteq> c) s, rest))"

definition is_digit :: "char \<Rightarrow> bool" where
  "is_digit c \<longleftrightarrow> 48 \<le> (of_char c :: nat) \<and> (of_char c :: nat) \<le> 57"

definition digit_value :: "char \<Rightarrow> int" where
  "digit_value c = int (of_char c) - 48"

section \<open>Hexadecimal and decimal texts\<close>

definition hex_digit :: "nat \<Rightarrow> char" where
  "hex_digit n = char_of (if n < 10 then 48 + n else 87 + n)"

definition hex_byte :: "u8 \<Rightarrow> string" where
  "hex_byte b = [hex_digit (unat b div 16), hex_digit (unat b mod 16)]"

lemma dec_string_digits: "c \<in> set (dec_string n) \<Longrightarrow> of_char c \<in> {48..57 :: nat}"
proof (induction n rule: dec_string.induct)
  case (1 n)
  show ?case
  proof (cases "n < 10")
    case True
    then show ?thesis using 1(2) by (subst (asm) dec_string.simps) (auto simp: of_char_of)
  next
    case False
    have "n mod 10 < 10" by simp
    then show ?thesis using 1 False
      by (subst (asm) (2) dec_string.simps) (auto simp: of_char_of)
  qed
qed

lemma hex_digit_code: "n < 16 \<Longrightarrow> of_char (hex_digit n) \<in> {48..57} \<union> {97..102 :: nat}"
  by (auto simp: hex_digit_def of_char_of)

text \<open>\<^verbatim>\<open>str::split\<close> with a character: one more piece than there are separators.\<close>

fun split_on :: "char \<Rightarrow> string \<Rightarrow> string list" where
  "split_on c [] = [[]]"
| "split_on c (x # xs) =
     (if x = c then [] # split_on c xs
      else case split_on c xs of p # ps \<Rightarrow> (x # p) # ps | [] \<Rightarrow> [[x]])"

lemma split_on_nonempty: "split_on c s \<noteq> []"
  by (cases s) (auto split: list.splits)

lemma split_on_none: "c \<notin> set p \<Longrightarrow> split_on c p = [p]"
  by (induction p) auto

lemma split_on_append: "c \<notin> set p \<Longrightarrow> split_on c (p @ c # rest) = p # split_on c rest"
  by (induction p) auto

text \<open>Pieces joined by a separator that none of them holds split into the pieces.\<close>

fun joined :: "char \<Rightarrow> string list \<Rightarrow> string" where
  "joined c [] = []"
| "joined c [p] = p"
| "joined c (p # ps) = p @ c # joined c ps"

lemma split_on_joined:
  "ps \<noteq> [] \<Longrightarrow> \<forall>p\<in>set ps. c \<notin> set p \<Longrightarrow> split_on c (joined c ps) = ps"
  by (induction c ps rule: joined.induct) (simp_all add: split_on_none split_on_append)

lemma joined_snoc: "ps \<noteq> [] \<Longrightarrow> joined c (ps @ [p]) = joined c ps @ c # p"
  by (induction c ps rule: joined.induct) auto

text \<open>\<^verbatim>\<open>str::parse::<u64>\<close>: an optional plus sign, at least one digit, no overflow.\<close>

definition digits_value :: "string \<Rightarrow> nat" where
  "digits_value s = foldl (\<lambda>v c. v * 10 + (of_char c - 48)) 0 s"

definition parse_u64 :: "string \<Rightarrow> u64 option" where
  "parse_u64 s =
     (let ds = (case s of c # cs \<Rightarrow> if c = CHR ''+'' then cs else s | [] \<Rightarrow> [])
      in if ds = [] \<or> \<not> list_all is_digit ds \<or> digits_value ds \<ge> 2 ^ 64 then None
         else Some (word_of_nat (digits_value ds)))"

lemma dec_string_nonempty: "dec_string n \<noteq> []"
  by (subst dec_string.simps) simp

lemma dec_string_is_digit: "c \<in> set (dec_string n) \<Longrightarrow> is_digit c"
  using dec_string_digits [of c n] by (simp add: is_digit_def)

lemma digits_value_dec: "digits_value (dec_string n) = n"
proof (induction n rule: dec_string.induct)
  case (1 n)
  show ?case
  proof (cases "n < 10")
    case True
    then show ?thesis by (subst dec_string.simps) (simp add: digits_value_def of_char_of)
  next
    case False
    have "n mod 10 < 10" by simp
    then show ?thesis using 1 False
      by (subst dec_string.simps) (simp add: digits_value_def of_char_of)
  qed
qed

lemma parse_u64_string [simp]: "parse_u64 (u64_string x) = Some x"
proof -
  let ?s = "dec_string (unat x)"
  have bound: "unat x < 2 ^ 64" using unsigned_less [of x, where ?'a = nat] by simp
  have "hd ?s \<noteq> CHR ''+''"
    using dec_string_is_digit [of "hd ?s" "unat x"] dec_string_nonempty [of "unat x"]
    by (auto simp: is_digit_def)
  then have "(case ?s of c # cs \<Rightarrow> if c = CHR ''+'' then cs else ?s | [] \<Rightarrow> []) = ?s"
    by (auto split: list.splits)
  then show ?thesis using bound dec_string_nonempty [of "unat x"] dec_string_is_digit [of _ "unat x"]
    by (simp add: parse_u64_def u64_string_def digits_value_dec Let_def list_all_iff)
qed

lemma u64_string_chars: "c \<in> set (u64_string x) \<Longrightarrow> is_digit c"
  by (simp add: u64_string_def dec_string_is_digit)

lemma u64_string_nonempty: "u64_string x \<noteq> []"
  by (simp add: u64_string_def dec_string_nonempty)

end
