(* ===== verification/Consensus_Types.thy ===== *)
theory Consensus_Types
  imports Ordered_Table Texts
begin

text \<open>
  Commands, responses and stored records of the consensus layer
  (\<^verbatim>\<open>distributed/consensus/types.rs\<close>, \<^verbatim>\<open>state_machine/records.rs\<close>) and the database they live
  in. A \<^verbatim>\<open>ConsensusResponse::Error\<close> carries one of the fixed message formats of the handlers;
  \<open>sm_message\<close> has one constructor per format string, with the values the source interpolates,
  and \<open>msg_text\<close> is the formatted text.
\<close>

section \<open>Status enums\<close>

datatype claim_status = Pending | Claimed | Completed

datatype batch_status = Active | Poisoned

text \<open>\<^verbatim>\<open>MAX_LOG_ENTRY_BYTES\<close>: 1 MiB.\<close>

definition MAX_LOG_ENTRY_BYTES :: nat where
  "MAX_LOG_ENTRY_BYTES = 1024 * 1024"

section \<open>Stored records\<close>

record master_batch_record =
  mb_batch_id :: u64
  mb_component :: string
  mb_schema_id :: u32
  mb_ipc_bytes :: bytes
  mb_total_rows :: u32
  mb_created_at :: u64
  mb_checkpoint_seq :: u64
  mb_release_attempts :: u32
  mb_status :: batch_status
  mb_poisoned_at :: "u64 option"

record claim_record =
  cl_batch_id :: u64
  cl_row_range_start :: u32
  cl_row_range_end :: u32
  cl_instance_id :: bytes
  cl_lease_expires_at :: u64
  cl_status :: claim_status

record checkpoint_record =
  cp_batch_id :: u64
  cp_stage_idx :: u32
  cp_ipc_bytes :: bytes
  cp_schema_id :: u32
  cp_created_at :: u64
  cp_content_hash :: u64

record instance_record =
  in_last_heartbeat_at :: u64

text \<open>
  The redb tables of the state machine. Rows of the JSON tables are the decoded records; the
  keys and the value of the secondary index \<^verbatim>\<open>arrow_claims_by_batch\<close> are the packed bytes that
  \<^verbatim>\<open>keys.rs\<close> produces, and byte keys are ordered lexicographically, as redb orders them.
\<close>

record database =
  master_batches :: "(u64, master_batch_record) table option"
  claims :: "(bytes, claim_record) table option"
  claims_by_batch :: "(bytes, bytes) table option"
  checkpoints :: "(bytes, checkpoint_record) table option"
  instances :: "(bytes, instance_record) table option"
  pending_batches :: "(u64, unit) table option"
  sm_meta :: "(string, bytes) table option"

definition empty_database :: database where
  "empty_database = \<lparr>master_batches = None, claims = None, claims_by_batch = None,
     checkpoints = None, instances = None, pending_batches = None, sm_meta = None\<rparr>"

section \<open>Commands and responses\<close>

datatype consensus_command =
    RegisterMasterBatch u64 string u32 bytes u32 u64
  | ClaimRowRange u64 u32 u32 uuid uuid u64 u64
  | RenewClaim uuid uuid u64 u64
  | AckClaim uuid uuid
  | ReleaseClaim uuid uuid
  | Checkpoint uuid u32 bytes u32 u64
  | Heartbeat uuid u64
  | ReclaimExpired u64
  | PoisonBatch u64 u64

datatype sm_message =
    MsgRegisterTooLarge nat
  | MsgCheckpointTooLarge nat
  | MsgInvalidRowRange u32 u32
  | MsgBatchNotFoundOnReplay u64
  | MsgBatchNotFound u64
  | MsgRangeExceedsRows u32 u32 u32
  | MsgRangeOverlaps u32 u32
  | MsgClaimNotFound uuid
  | MsgClaimIsNotClaimed uuid
  | MsgClaimNotClaimed uuid
  | MsgHeldByDifferentInstance uuid
  | MsgLeaseAlreadyExpired uuid
  | MsgPoisonNotFound u64
  | MsgCheckpointClaimTableMissing uuid
  | MsgCheckpointClaimNotFound uuid

text \<open>
  The texts, with \<^verbatim>\<open>Display\<close> of the interpolated values: decimal integers and hyphenated lower-case
  UUIDs.
\<close>

definition uuid_string :: "uuid \<Rightarrow> string" where
  "uuid_string u =
     (let hex = (\<lambda>i n. concat (map hex_byte (take n (drop i (uuid_bytes u)))))
      in hex 0 4 @ ''-'' @ hex 4 2 @ ''-'' @ hex 6 2 @ ''-'' @ hex 8 2 @ ''-'' @ hex 10 6)"

primrec msg_text :: "sm_message \<Rightarrow> string" where
  "msg_text (MsgRegisterTooLarge n) = ''RegisterMasterBatch: ipc_bytes ('' @ dec_string n @
     '' bytes) exceeds MAX_LOG_ENTRY_BYTES ('' @ dec_string MAX_LOG_ENTRY_BYTES @ '')''"
| "msg_text (MsgCheckpointTooLarge n) = ''Checkpoint ipc_bytes ('' @ dec_string n @
     '' bytes) exceeds MAX_LOG_ENTRY_BYTES ('' @ dec_string MAX_LOG_ENTRY_BYTES @ '')''"
| "msg_text (MsgInvalidRowRange s e) =
     ''invalid row_range: start '' @ u32_string s @ '' >= end '' @ u32_string e"
| "msg_text (MsgBatchNotFoundOnReplay b) =
     ''batch_id '' @ u64_string b @ '' not found on idempotent replay''"
| "msg_text (MsgBatchNotFound b) = ''batch_id '' @ u64_string b @ '' not found''"
| "msg_text (MsgRangeExceedsRows s e n) = ''row_range ['' @ u32_string s @ '', '' @ u32_string e @
     '') exceeds total_rows '' @ u32_string n"
| "msg_text (MsgRangeOverlaps s e) = ''row_range ['' @ u32_string s @ '', '' @ u32_string e @
     '') overlaps an existing active claim''"
| "msg_text (MsgClaimNotFound c) = ''claim '' @ uuid_string c @ '' not found''"
| "msg_text (MsgClaimIsNotClaimed c) = ''claim '' @ uuid_string c @ '' is not in Claimed state''"
| "msg_text (MsgClaimNotClaimed c) = ''claim '' @ uuid_string c @ '' not in Claimed state''"
| "msg_text (MsgHeldByDifferentInstance c) =
     ''claim '' @ uuid_string c @ '' held by different instance''"
| "msg_text (MsgLeaseAlreadyExpired c) =
     ''claim '' @ uuid_string c @ '' lease has already expired''"
| "msg_text (MsgPoisonNotFound b) = ''PoisonBatch: batch_id '' @ u64_string b @ '' not found''"
| "msg_text (MsgCheckpointClaimTableMissing c) =
     ''claim_id '' @ uuid_string c @ '' not found (table missing)''"
| "msg_text (MsgCheckpointClaimNotFound c) = ''claim_id '' @ uuid_string c @ '' not found''"

datatype consensus_response =
    MasterBatchRegistered u64
  | BatchClaimed u64 string u32 u32 u32 uuid uuid u64
  | ClaimRenewed u64
  | ClaimAcked
  | ClaimReleased
  | CheckpointWritten u64
  | HeartbeatRecorded
  | NoBatchAvailable
  | ExpiredReclaimed u32
  | BatchPoisoned u64 u64
  | Error sm_message

text \<open>\<^verbatim>\<open>ConsensusCommand::ipc_bytes\<close>: the Arrow payload, when the command carries one.\<close>

fun command_ipc_bytes :: "consensus_command \<Rightarrow> bytes option" where
  "command_ipc_bytes (RegisterMasterBatch _ _ _ ipc _ _) = Some ipc"
| "command_ipc_bytes (Checkpoint _ _ ipc _ _) = Some ipc"
| "command_ipc_bytes _ = None"

end
