(* ===== verification/Keys.thy ===== *)
theory Keys
  imports Consensus_Types
begin

text \<open>
  \<^verbatim>\<open>state_machine/keys.rs\<close>: the composite keys, the packed value of the secondary index and
  the checkpoint content hash. The lemmas say that the layouts are injective, that the value
  codec is a bijection between its 9-byte images and the triples, and that the bounded range
  scan of a batch hits exactly the keys of that batch, also for the batch id \<^verbatim>\<open>u64::MAX\<close>.

  The FNV hasher is the crate \<^verbatim>\<open>fnv\<close>; it enters as a parameter with the three operations of
  \<^verbatim>\<open>std::hash::Hasher\<close> that the source calls. A claim id is passed to these functions as its
  bytes (\<^verbatim>\<open>&[u8; 16]\<close>), as in the source.
\<close>

section \<open>Definitions\<close>

record hasher =
  hs_default :: u64
  hs_write :: "u64 \<Rightarrow> bytes \<Rightarrow> u64"
  hs_finish :: "u64 \<Rightarrow> u64"

definition checkpoint_content_hash :: "hasher \<Rightarrow> bytes \<Rightarrow> u32 \<Rightarrow> bytes \<Rightarrow> u64" where
  "checkpoint_content_hash H claim_id stage_idx ipc_bytes =
     (let h0 = hs_default H;
          h1 = hs_write H h0 claim_id;
          h2 = hs_write H h1 (u32_be stage_idx);
          h3 = hs_write H h2 ipc_bytes
      in hs_finish H h3)"

definition checkpoint_key :: "bytes \<Rightarrow> u32 \<Rightarrow> bytes" where
  "checkpoint_key claim_id stage_idx = claim_id @ u32_be stage_idx"

definition claims_by_batch_key :: "u64 \<Rightarrow> bytes \<Rightarrow> bytes" where
  "claims_by_batch_key batch_id claim_id = u64_be batch_id @ claim_id"

definition batch_range_start :: "u64 \<Rightarrow> bytes" where
  "batch_range_start batch_id = u64_be batch_id"

definition batch_range_end :: "u64 \<Rightarrow> bytes option" where
  "batch_range_end batch_id = map_option u64_be (u64_checked_add batch_id 1)"

fun status_byte :: "claim_status \<Rightarrow> u8" where
  "status_byte Pending = 0"
| "status_byte Claimed = 1"
| "status_byte Completed = 2"

definition status_from_byte :: "u8 \<Rightarrow> claim_status option" where
  "status_from_byte b =
     (if b = 0 then Some Pending else if b = 1 then Some Claimed
      else if b = 2 then Some Completed else None)"

definition claims_by_batch_value :: "u32 \<Rightarrow> u32 \<Rightarrow> claim_status \<Rightarrow> bytes" where
  "claims_by_batch_value start end_row status = u32_be start @ u32_be end_row @ [status_byte status]"

definition decode_claims_by_batch_value :: "bytes \<Rightarrow> (u32 \<times> u32 \<times> claim_status) option" where
  "decode_claims_by_batch_value v =
     (if length v \<noteq> 9 then None
      else let start = u32_from_be (take 4 v);
               end_row = u32_from_be (take 4 (drop 4 v))
           in case status_from_byte (v ! 8) of
                None \<Rightarrow> None
              | Some status \<Rightarrow> Some (start, end_row, status))"

section \<open>Layout lemmas\<close>

lemma length_claims_by_batch_key: "length c = 16 \<Longrightarrow> length (claims_by_batch_key b c) = 24"
  by (simp add: claims_by_batch_key_def)

lemma length_checkpoint_key: "length c = 16 \<Longrightarrow> length (checkpoint_key c s) = 20"
  by (simp add: checkpoint_key_def)

lemma length_claims_by_batch_value [simp]: "length (claims_by_batch_value s e st) = 9"
  by (simp add: claims_by_batch_value_def)

lemma claims_by_batch_key_eq [simp]:
  "claims_by_batch_key b c = claims_by_batch_key b' c' \<longleftrightarrow> b = b' \<and> c = c'"
  by (simp add: claims_by_batch_key_def)

lemma checkpoint_key_eq [simp]:
  "checkpoint_key c s = checkpoint_key c' s' \<longleftrightarrow> c = c' \<and> s = s'"
  by (simp add: checkpoint_key_def)

lemma status_from_status_byte [simp]: "status_from_byte (status_byte s) = Some s"
  by (cases s) (simp_all add: status_from_byte_def)

lemma status_byte_from_byte: "status_from_byte b = Some s \<Longrightarrow> status_byte s = b"
  by (auto simp: status_from_byte_def split: if_splits)

lemma decode_encode_value [simp]:
  "decode_claims_by_batch_value (claims_by_batch_value s e st) = Some (s, e, st)"
proof -
  have "claims_by_batch_value s e st ! 8 = status_byte st"
    by (simp add: claims_by_batch_value_def nth_append)
  then show ?thesis
    by (simp add: decode_claims_by_batch_value_def) (simp add: claims_by_batch_value_def)
qed

section \<open>Range scans\<close>

lemma unat_u64_succ: "b \<noteq> - 1 \<Longrightarrow> unat (b + 1 :: u64) = unat b + 1 \<and> unat b + 1 < 2 ^ 64"
proof -
  assume "b \<noteq> - 1"
  then have "unat b \<noteq> unat (- 1 :: u64)" by (simp only: word_unat_eq_iff [symmetric] not_False_eq_True)
  then have "unat b \<noteq> 2 ^ 64 - 1" by (simp add: unsigned_minus_1_eq_mask mask_eq_exp_minus_1)
  moreover have "unat b < 2 ^ 64" using unsigned_less [of b, where ?'a = nat] by simp
  ultimately have lt: "unat b + 1 < 2 ^ 64" by simp
  then show ?thesis by (simp add: unat_word_ariths)
qed

lemma u64_checked_succ:
  "u64_checked_add b 1 = (if b = - 1 then None else Some (b + 1))"
  using unat_u64_succ [of b]
  by (simp add: u64_checked_add_def unsigned_minus_1_eq_mask mask_eq_exp_minus_1)

lemma u64_less_succ: "b \<noteq> - 1 \<Longrightarrow> x < b + 1 \<longleftrightarrow> x \<le> (b :: u64)"
  using unat_u64_succ [of b] by (auto simp: word_less_nat_alt word_le_nat_alt)

text \<open>The half-open range of a batch contains the keys of that batch and no others.\<close>

lemma batch_key_ge_start: "batch_range_start b \<le> claims_by_batch_key b' c \<longleftrightarrow> b \<le> b'"
proof -
  have "u64_be b' @ c < u64_be b @ [] \<longleftrightarrow> b' < b"
    by (subst append_less_iff) (simp_all add: u64_be_less)
  then show ?thesis
    by (simp add: batch_range_start_def claims_by_batch_key_def linorder_not_less [symmetric])
qed

lemma batch_key_less_end: "claims_by_batch_key b' c < u64_be h \<longleftrightarrow> b' < h"
proof -
  have "u64_be b' @ c < u64_be h @ [] \<longleftrightarrow> b' < h"
    by (subst append_less_iff) (simp_all add: u64_be_less)
  then show ?thesis by (simp add: claims_by_batch_key_def)
qed

lemma batch_range_exact:
  "(batch_range_start b \<le> claims_by_batch_key b' c \<and>
    (case batch_range_end b of None \<Rightarrow> True | Some h \<Rightarrow> claims_by_batch_key b' c < h))
   \<longleftrightarrow> b' = b"
proof (cases "b = - 1")
  case True
  then show ?thesis
    by (auto simp: batch_key_ge_start batch_range_end_def u64_checked_succ word_order.extremum_uniqueI)
next
  case False
  then show ?thesis
    by (auto simp: batch_key_ge_start batch_range_end_def u64_checked_succ batch_key_less_end
        u64_less_succ)
qed

end
