(* ===== verification/Sm_Batch.thy ===== *)
theory Sm_Batch
  imports Keys
begin

text \<open>
  \<^verbatim>\<open>state_machine/handlers/batch.rs\<close>: registration and poisoning of master batches and the
  \<^verbatim>\<open>release_attempts\<close> counter. A handler takes the database and returns its response with the
  database its transaction commits. Opening a table in a write transaction creates it, which is
  the update with \<open>rd\<close>; an I/O failure of redb aborts the transaction and is not modelled.
\<close>

section \<open>Handlers\<close>

type_synonym handler_result = "consensus_response saci_result \<times> database"

definition apply_register_master_batch ::
  "database \<Rightarrow> u64 \<Rightarrow> string \<Rightarrow> u32 \<Rightarrow> bytes \<Rightarrow> u32 \<Rightarrow> u64 \<Rightarrow> handler_result" where
  "apply_register_master_batch db batch_id component schema_id ipc_bytes total_rows now_at_propose =
     (if MAX_LOG_ENTRY_BYTES \<le> length ipc_bytes
      then (Inr (Error (MsgRegisterTooLarge (length ipc_bytes))), db)
      else
        let record = \<lparr>mb_batch_id = batch_id, mb_component = component,
              mb_schema_id = schema_id, mb_ipc_bytes = ipc_bytes, mb_total_rows = total_rows,
              mb_created_at = now_at_propose, mb_checkpoint_seq = 0, mb_release_attempts = 0,
              mb_status = Active, mb_poisoned_at = None\<rparr>
        in (Inr (MasterBatchRegistered batch_id),
            db\<lparr>master_batches := Some (tbl_insert batch_id record (rd (master_batches db))),
               pending_batches := Some (tbl_insert batch_id () (rd (pending_batches db)))\<rparr>))"

definition apply_poison_batch :: "database \<Rightarrow> u64 \<Rightarrow> u64 \<Rightarrow> handler_result" where
  "apply_poison_batch db batch_id now_at_propose =
     (let table = rd (master_batches db);
          opened = db\<lparr>master_batches := Some table\<rparr>
      in case tbl_get table batch_id of
           None \<Rightarrow> (Inr (Error (MsgPoisonNotFound batch_id)), opened)
         | Some record \<Rightarrow>
             (if mb_status record = Poisoned
              then (Inr (BatchPoisoned batch_id
                      (case mb_poisoned_at record of None \<Rightarrow> now_at_propose | Some t \<Rightarrow> t)), opened)
              else
                let record' = record\<lparr>mb_status := Poisoned, mb_poisoned_at := Some now_at_propose\<rparr>
                in (Inr (BatchPoisoned batch_id now_at_propose),
                    db\<lparr>master_batches := Some (tbl_insert batch_id record' table),
                       pending_batches := Some (tbl_remove batch_id (rd (pending_batches db)))\<rparr>)))"

definition increment_release_attempts :: "u64 \<Rightarrow> database \<Rightarrow> database" where
  "increment_release_attempts batch_id db =
     (let table = rd (master_batches db)
      in case tbl_get table batch_id of
           None \<Rightarrow> db\<lparr>master_batches := Some table\<rparr>
         | Some record \<Rightarrow>
             let record' = record\<lparr>mb_release_attempts :=
                   u32_saturating_inc (mb_release_attempts record)\<rparr>
             in db\<lparr>master_batches := Some (tbl_insert batch_id record' table)\<rparr>)"

definition reset_release_attempts :: "u64 \<Rightarrow> database \<Rightarrow> database" where
  "reset_release_attempts batch_id db =
     (let table = rd (master_batches db)
      in case tbl_get table batch_id of
           None \<Rightarrow> db\<lparr>master_batches := Some table\<rparr>
         | Some record \<Rightarrow>
             if mb_release_attempts record \<noteq> 0
             then db\<lparr>master_batches :=
                    Some (tbl_insert batch_id (record\<lparr>mb_release_attempts := 0\<rparr>) table)\<rparr>
             else db\<lparr>master_batches := Some table\<rparr>)"

section \<open>Frame and effect lemmas\<close>

text \<open>\<open>batch_of\<close> and \<open>pending\<close> read the two tables these handlers own.\<close>

definition batch_of :: "database \<Rightarrow> u64 \<Rightarrow> master_batch_record option" where
  "batch_of db b = tbl_get (rd (master_batches db)) b"

definition is_pending :: "database \<Rightarrow> u64 \<Rightarrow> bool" where
  "is_pending db b \<longleftrightarrow> tbl_get (rd (pending_batches db)) b \<noteq> None"

lemma increment_release_attempts_frame [simp]:
  "claims (increment_release_attempts b db) = claims db"
  "claims_by_batch (increment_release_attempts b db) = claims_by_batch db"
  "checkpoints (increment_release_attempts b db) = checkpoints db"
  "instances (increment_release_attempts b db) = instances db"
  "pending_batches (increment_release_attempts b db) = pending_batches db"
  "sm_meta (increment_release_attempts b db) = sm_meta db"
  by (simp_all add: increment_release_attempts_def Let_def split: option.splits)

lemma reset_release_attempts_frame [simp]:
  "claims (reset_release_attempts b db) = claims db"
  "claims_by_batch (reset_release_attempts b db) = claims_by_batch db"
  "checkpoints (reset_release_attempts b db) = checkpoints db"
  "instances (reset_release_attempts b db) = instances db"
  "pending_batches (reset_release_attempts b db) = pending_batches db"
  "sm_meta (reset_release_attempts b db) = sm_meta db"
  by (simp_all add: reset_release_attempts_def Let_def split: option.splits)

lemma wf_increment_release_attempts:
  "tbl_wf (rd (master_batches db)) \<Longrightarrow>
   tbl_wf (rd (master_batches (increment_release_attempts b db)))"
  by (simp add: increment_release_attempts_def Let_def tbl_simps split: option.splits)

lemma wf_reset_release_attempts:
  "tbl_wf (rd (master_batches db)) \<Longrightarrow>
   tbl_wf (rd (master_batches (reset_release_attempts b db)))"
  by (simp add: reset_release_attempts_def Let_def tbl_simps split: option.splits)

text \<open>Each helper rewrites the counter of one batch and nothing else.\<close>

lemma batch_of_increment:
  "tbl_wf (rd (master_batches db)) \<Longrightarrow>
   batch_of (increment_release_attempts b db) x =
     (if x = b then map_option (\<lambda>r. r\<lparr>mb_release_attempts := u32_saturating_inc (mb_release_attempts r)\<rparr>)
        (batch_of db b) else batch_of db x)"
  by (auto simp: batch_of_def increment_release_attempts_def Let_def tbl_get_insert_apply
      split: option.splits)

lemma batch_of_reset:
  "tbl_wf (rd (master_batches db)) \<Longrightarrow>
   batch_of (reset_release_attempts b db) x =
     (if x = b then map_option (\<lambda>r. r\<lparr>mb_release_attempts := 0\<rparr>) (batch_of db b)
      else batch_of db x)"
  by (auto simp: batch_of_def reset_release_attempts_def Let_def tbl_get_insert_apply
      split: option.splits)

end
