(* ===== verification/Sm_Claim.thy ===== *)
theory Sm_Claim
  imports Sm_Batch
begin

text \<open>
  \<^verbatim>\<open>state_machine/handlers/claim.rs\<close>: the claim lifecycle (acquire, renew, acknowledge,
  release, sweep of expired leases) and the instance heartbeat. A handler that returns an error
  value of type \<^verbatim>\<open>SaciError\<close>, or that drops its write transaction, leaves the database as it was;
  a handler that commits returns the written tables, including tables it only opened.

  \<^verbatim>\<open>apply_claim_row_range\<close> is split where the source has its three phases: the replay check
  (\<open>claim_replay\<close>), the read precheck (\<open>claim_precheck\<close>) and the write confirmation
  (\<open>apply_claim_row_range\<close> itself). The pair of inserts that keeps \<^verbatim>\<open>arrow_claims\<close> and the
  secondary index in step is \<open>put_claim\<close>.
\<close>

section \<open>Overlap scan\<close>

fun overlap_scan :: "u32 \<Rightarrow> u32 \<Rightarrow> (bytes \<times> bytes) list \<Rightarrow> bool saci_result" where
  "overlap_scan row_range_start row_range_end [] = Inr False"
| "overlap_scan row_range_start row_range_end ((k, v) # items) =
     (case decode_claims_by_batch_value v of
        None \<Rightarrow> Inl (Generic ''claims_by_batch: malformed value (not 9 bytes)'')
      | Some (start, end_row, status) \<Rightarrow>
          if (status = Claimed \<or> status = Completed) \<and>
             row_range_start < end_row \<and> row_range_end > start
          then Inr True
          else overlap_scan row_range_start row_range_end items)"

definition batch_items :: "(bytes, bytes) table \<Rightarrow> u64 \<Rightarrow> (bytes \<times> bytes) list" where
  "batch_items idx batch_id = tbl_range (batch_range_start batch_id) (batch_range_end batch_id) idx"

definition has_batch_overlap :: "(bytes, bytes) table \<Rightarrow> u64 \<Rightarrow> u32 \<Rightarrow> u32 \<Rightarrow> bool saci_result" where
  "has_batch_overlap idx batch_id row_range_start row_range_end =
     overlap_scan row_range_start row_range_end (batch_items idx batch_id)"

section \<open>Acquiring a row range\<close>

text \<open>The paired insert into \<^verbatim>\<open>arrow_claims\<close> and \<^verbatim>\<open>arrow_claims_by_batch\<close>.\<close>

definition put_claim :: "bytes \<Rightarrow> claim_record \<Rightarrow> database \<Rightarrow> database" where
  "put_claim claim_id record db =
     db\<lparr>claims := Some (tbl_insert claim_id record (rd (claims db))),
        claims_by_batch := Some (tbl_insert (claims_by_batch_key (cl_batch_id record) claim_id)
          (claims_by_batch_value (cl_row_range_start record) (cl_row_range_end record)
             (cl_status record)) (rd (claims_by_batch db)))\<rparr>"

text \<open>
  The replay check: \<open>None\<close> falls through; otherwise the early return of the source. A claim row
  without a master-batch table is an \<^verbatim>\<open>Err\<close> of the source.
\<close>

definition claim_replay ::
  "database \<Rightarrow> u64 \<Rightarrow> u32 \<Rightarrow> u32 \<Rightarrow> uuid \<Rightarrow> uuid \<Rightarrow> consensus_response saci_result option" where
  "claim_replay db batch_id row_range_start row_range_end claim_id instance_id =
     (case claims db of
        None \<Rightarrow> None
      | Some claim_table \<Rightarrow>
          (case tbl_get claim_table (uuid_bytes claim_id) of
             None \<Rightarrow> None
           | Some existing \<Rightarrow>
               (if cl_batch_id existing = batch_id \<and>
                   cl_row_range_start existing = row_range_start \<and>
                   cl_row_range_end existing = row_range_end \<and>
                   cl_instance_id existing = uuid_bytes instance_id
                then Some
                  (case master_batches db of
                     None \<Rightarrow> Inl (Generic ''open batches (idempotency)'')
                   | Some t \<Rightarrow>
                       (case tbl_get t batch_id of
                          None \<Rightarrow> Inr (Error (MsgBatchNotFoundOnReplay batch_id))
                        | Some batch \<Rightarrow>
                            Inr (BatchClaimed batch_id (mb_component batch) row_range_start
                              row_range_end (mb_schema_id batch) claim_id instance_id
                              (cl_lease_expires_at existing))))
                else None)))"

definition claim_precheck ::
  "database \<Rightarrow> u64 \<Rightarrow> u32 \<Rightarrow> u32 \<Rightarrow> (consensus_response + master_batch_record) saci_result" where
  "claim_precheck db batch_id row_range_start row_range_end =
     (case master_batches db of
        None \<Rightarrow> Inr (Inl (Error (MsgBatchNotFound batch_id)))
      | Some batch_table \<Rightarrow>
          (case tbl_get batch_table batch_id of
             None \<Rightarrow> Inr (Inl (Error (MsgBatchNotFound batch_id)))
           | Some batch \<Rightarrow>
               (if row_range_end > mb_total_rows batch
                then Inr (Inl (Error
                       (MsgRangeExceedsRows row_range_start row_range_end (mb_total_rows batch))))
                else
                  res_bind
                    (case claims_by_batch db of
                       Some idx_table \<Rightarrow>
                         has_batch_overlap idx_table batch_id row_range_start row_range_end
                     | None \<Rightarrow> Inr False)
                    (\<lambda>overlap. if overlap
                       then Inr (Inl (Error (MsgRangeOverlaps row_range_start row_range_end)))
                       else Inr (Inr batch)))))"

definition apply_claim_row_range ::
  "database \<Rightarrow> u64 \<Rightarrow> u32 \<Rightarrow> u32 \<Rightarrow> uuid \<Rightarrow> uuid \<Rightarrow> u64 \<Rightarrow> u64 \<Rightarrow> handler_result" where
  "apply_claim_row_range db batch_id row_range_start row_range_end claim_id instance_id
       lease_ttl_millis now_at_propose =
     (if row_range_start \<ge> row_range_end
      then (Inr (Error (MsgInvalidRowRange row_range_start row_range_end)), db)
      else case claim_replay db batch_id row_range_start row_range_end claim_id instance_id of
        Some early \<Rightarrow> (early, db)
      | None \<Rightarrow>
          (case claim_precheck db batch_id row_range_start row_range_end of
             Inl e \<Rightarrow> (Inl e, db)
           | Inr (Inl early_response) \<Rightarrow> (Inr early_response, db)
           | Inr (Inr batch) \<Rightarrow>
               (case has_batch_overlap (rd (claims_by_batch db)) batch_id
                       row_range_start row_range_end of
                  Inl e \<Rightarrow> (Inl e, db)
                | Inr True \<Rightarrow>
                    (Inr (Error (MsgRangeOverlaps row_range_start row_range_end)), db)
                | Inr False \<Rightarrow>
                    let lease_expires_at = now_at_propose + lease_ttl_millis;
                        record = \<lparr>cl_batch_id = batch_id, cl_row_range_start = row_range_start,
                          cl_row_range_end = row_range_end,
                          cl_instance_id = uuid_bytes instance_id,
                          cl_lease_expires_at = lease_expires_at, cl_status = Claimed\<rparr>
                    in (Inr (BatchClaimed batch_id (mb_component batch) row_range_start
                              row_range_end (mb_schema_id batch) claim_id instance_id
                              lease_expires_at),
                        put_claim (uuid_bytes claim_id) record db))))"

section \<open>Renewing, acknowledging and releasing\<close>

definition apply_renew_claim :: "database \<Rightarrow> uuid \<Rightarrow> uuid \<Rightarrow> u64 \<Rightarrow> u64 \<Rightarrow> handler_result" where
  "apply_renew_claim db claim_id instance_id lease_ttl_millis now_at_propose =
     (let table = rd (claims db);
          opened = db\<lparr>claims := Some table\<rparr>
      in case tbl_get table (uuid_bytes claim_id) of
           None \<Rightarrow> (Inr (Error (MsgClaimNotFound claim_id)), opened)
         | Some record \<Rightarrow>
             (if cl_status record \<noteq> Claimed
              then (Inr (Error (MsgClaimIsNotClaimed claim_id)), opened)
              else if cl_instance_id record \<noteq> uuid_bytes instance_id
              then (Inr (Error (MsgHeldByDifferentInstance claim_id)), opened)
              else if cl_lease_expires_at record < now_at_propose
              then (Inr (Error (MsgLeaseAlreadyExpired claim_id)), opened)
              else
                let new_expires = now_at_propose + lease_ttl_millis;
                    record' = record\<lparr>cl_lease_expires_at :=
                      max (cl_lease_expires_at record) new_expires\<rparr>
                in (Inr (ClaimRenewed (cl_lease_expires_at record')),
                    db\<lparr>claims := Some (tbl_insert (uuid_bytes claim_id) record' table)\<rparr>)))"

fun all_complete_scan :: "(bytes \<times> bytes) list \<Rightarrow> bool saci_result" where
  "all_complete_scan [] = Inr True"
| "all_complete_scan ((k, v) # items) =
     (case decode_claims_by_batch_value v of
        None \<Rightarrow> Inl (Generic ''claims_by_batch: malformed value (ack)'')
      | Some (_, _, status) \<Rightarrow>
          if status \<noteq> Completed then Inr False else all_complete_scan items)"

definition apply_ack_claim :: "database \<Rightarrow> uuid \<Rightarrow> uuid \<Rightarrow> handler_result" where
  "apply_ack_claim db claim_id instance_id =
     (let table = rd (claims db);
          opened = db\<lparr>claims := Some table\<rparr>
      in case tbl_get table (uuid_bytes claim_id) of
           None \<Rightarrow> (Inr (Error (MsgClaimNotFound claim_id)), opened)
         | Some record \<Rightarrow>
             (if cl_status record \<noteq> Claimed
              then (Inr (Error (MsgClaimNotClaimed claim_id)), opened)
              else if cl_instance_id record \<noteq> uuid_bytes instance_id
              then (Inr (Error (MsgHeldByDifferentInstance claim_id)), opened)
              else
                let batch_id = cl_batch_id record;
                    record' = record\<lparr>cl_status := Completed, cl_lease_expires_at := 0\<rparr>;
                    db1 = put_claim (uuid_bytes claim_id) record' db
                in case all_complete_scan (batch_items (rd (claims_by_batch db1)) batch_id) of
                     Inl e \<Rightarrow> (Inl e, db)
                   | Inr all_complete \<Rightarrow>
                       let db2 = (if all_complete
                             then db1\<lparr>pending_batches :=
                                    Some (tbl_remove batch_id (rd (pending_batches db1)))\<rparr>
                             else db1)
                       in (Inr ClaimAcked, reset_release_attempts batch_id db2)))"

definition apply_release_claim :: "database \<Rightarrow> uuid \<Rightarrow> uuid \<Rightarrow> handler_result" where
  "apply_release_claim db claim_id instance_id =
     (let table = rd (claims db);
          opened = db\<lparr>claims := Some table\<rparr>
      in case tbl_get table (uuid_bytes claim_id) of
           None \<Rightarrow> (Inr (Error (MsgClaimNotFound claim_id)), opened)
         | Some record \<Rightarrow>
             (if cl_status record \<noteq> Claimed
              then (Inr (Error (MsgClaimNotClaimed claim_id)), opened)
              else if cl_instance_id record \<noteq> uuid_bytes instance_id
              then (Inr (Error (MsgHeldByDifferentInstance claim_id)), opened)
              else
                let batch_id = cl_batch_id record;
                    record' = record\<lparr>cl_status := Pending, cl_lease_expires_at := 0,
                      cl_instance_id := replicate 16 0\<rparr>
                in (Inr ClaimReleased,
                    increment_release_attempts batch_id
                      (put_claim (uuid_bytes claim_id) record' db))))"

definition apply_heartbeat :: "database \<Rightarrow> uuid \<Rightarrow> u64 \<Rightarrow> handler_result" where
  "apply_heartbeat db instance_id at =
     (Inr HeartbeatRecorded,
      db\<lparr>instances := Some (tbl_insert (uuid_bytes instance_id)
           \<lparr>in_last_heartbeat_at = at\<rparr> (rd (instances db)))\<rparr>)"

section \<open>Sweeping expired leases\<close>

fun collect_expired ::
  "u64 \<Rightarrow> (bytes \<times> claim_record) list \<Rightarrow> (bytes \<times> claim_record) list saci_result" where
  "collect_expired now_at_propose [] = Inr []"
| "collect_expired now_at_propose ((k, record) # items) =
     (if length k \<noteq> 16 then Inl (Generic ''claim key not 16 bytes'')
      else res_bind (collect_expired now_at_propose items)
        (\<lambda>out. Inr (if cl_status record = Claimed \<and> cl_lease_expires_at record < now_at_propose
                    then (k, record) # out else out)))"

definition reclaim_one :: "bytes \<times> claim_record \<Rightarrow> database \<Rightarrow> database" where
  "reclaim_one e db =
     put_claim (fst e) ((snd e)\<lparr>cl_status := Pending, cl_lease_expires_at := 0\<rparr>) db"

definition apply_reclaim_expired :: "database \<Rightarrow> u64 \<Rightarrow> handler_result" where
  "apply_reclaim_expired db now_at_propose =
     (case claims db of
        None \<Rightarrow> (Inr (ExpiredReclaimed 0), db)
      | Some table \<Rightarrow>
          (case collect_expired now_at_propose (tbl_iter table) of
             Inl e \<Rightarrow> (Inl e, db)
           | Inr expired \<Rightarrow>
               (if expired = [] then (Inr (ExpiredReclaimed 0), db)
                else
                  let db1 = fold reclaim_one expired db;
                      bumped_batch_ids = map (\<lambda>e. cl_batch_id (snd e)) expired
                  in (Inr (ExpiredReclaimed (word_of_nat (length expired))),
                      fold increment_release_attempts bumped_batch_ids db1))))"

end
