(* ===== verification/Sm_Checkpoint.thy ===== *)
theory Sm_Checkpoint
  imports Sm_Claim
begin

text \<open>
  \<^verbatim>\<open>state_machine/handlers/checkpoint.rs\<close>: storing a stage checkpoint and bumping the
  \<^verbatim>\<open>checkpoint_seq\<close> of the owning master batch, with the content hash as the idempotency key.
\<close>

section \<open>Handler\<close>

text \<open>
  The look-up of the owning batch: \<open>Inl\<close> is the early return. Then the write transaction: a
  stored checkpoint with the same hash returns without committing.
\<close>

definition checkpoint_batch_id :: "database \<Rightarrow> uuid \<Rightarrow> consensus_response + u64" where
  "checkpoint_batch_id db claim_id =
     (case claims db of
        None \<Rightarrow> Inl (Error (MsgCheckpointClaimTableMissing claim_id))
      | Some table \<Rightarrow>
          (case tbl_get table (uuid_bytes claim_id) of
             None \<Rightarrow> Inl (Error (MsgCheckpointClaimNotFound claim_id))
           | Some record \<Rightarrow> Inr (cl_batch_id record)))"

definition bump_checkpoint_seq :: "u64 \<Rightarrow> database \<Rightarrow> u64 \<times> database" where
  "bump_checkpoint_seq batch_id db =
     (let batch_table = rd (master_batches db)
      in case tbl_get batch_table batch_id of
           None \<Rightarrow> (0, db\<lparr>master_batches := Some batch_table\<rparr>)
         | Some br \<Rightarrow>
             let br' = br\<lparr>mb_checkpoint_seq := mb_checkpoint_seq br + 1\<rparr>
             in (mb_checkpoint_seq br',
                 db\<lparr>master_batches := Some (tbl_insert batch_id br' batch_table)\<rparr>))"

definition apply_checkpoint ::
  "hasher \<Rightarrow> database \<Rightarrow> uuid \<Rightarrow> u32 \<Rightarrow> bytes \<Rightarrow> u32 \<Rightarrow> u64 \<Rightarrow> handler_result" where
  "apply_checkpoint H db claim_id stage_idx ipc_bytes schema_id now_at_propose =
     (if MAX_LOG_ENTRY_BYTES \<le> length ipc_bytes
      then (Inr (Error (MsgCheckpointTooLarge (length ipc_bytes))), db)
      else case checkpoint_batch_id db claim_id of
        Inl response \<Rightarrow> (Inr response, db)
      | Inr batch_id \<Rightarrow>
          let content_hash = checkpoint_content_hash H (uuid_bytes claim_id) stage_idx ipc_bytes;
              record = \<lparr>cp_batch_id = batch_id, cp_stage_idx = stage_idx,
                cp_ipc_bytes = ipc_bytes, cp_schema_id = schema_id,
                cp_created_at = now_at_propose, cp_content_hash = content_hash\<rparr>;
              key = checkpoint_key (uuid_bytes claim_id) stage_idx;
              already_exists = (case tbl_get (rd (checkpoints db)) key of
                  Some existing \<Rightarrow> cp_content_hash existing = content_hash
                | None \<Rightarrow> False)
          in if already_exists
             then (Inr (CheckpointWritten
                     (case tbl_get (rd (master_batches db)) batch_id of
                        Some b \<Rightarrow> mb_checkpoint_seq b
                      | None \<Rightarrow> 0)), db)
             else
               let (seq, db1) = bump_checkpoint_seq batch_id db
               in (Inr (CheckpointWritten seq),
                   db1\<lparr>checkpoints := Some (tbl_insert key record (rd (checkpoints db1)))\<rparr>))"

section \<open>Frame lemmas\<close>

lemma bump_checkpoint_seq_frame [simp]:
  "claims (snd (bump_checkpoint_seq b db)) = claims db"
  "claims_by_batch (snd (bump_checkpoint_seq b db)) = claims_by_batch db"
  "checkpoints (snd (bump_checkpoint_seq b db)) = checkpoints db"
  "instances (snd (bump_checkpoint_seq b db)) = instances db"
  "pending_batches (snd (bump_checkpoint_seq b db)) = pending_batches db"
  "sm_meta (snd (bump_checkpoint_seq b db)) = sm_meta db"
  by (simp_all add: bump_checkpoint_seq_def Let_def split: option.splits)

lemma wf_bump_checkpoint_seq:
  "tbl_wf (rd (master_batches db)) \<Longrightarrow>
   tbl_wf (rd (master_batches (snd (bump_checkpoint_seq b db))))"
  by (simp add: bump_checkpoint_seq_def Let_def tbl_simps split: option.splits)

lemma batch_of_bump_checkpoint_seq:
  "tbl_wf (rd (master_batches db)) \<Longrightarrow>
   batch_of (snd (bump_checkpoint_seq b db)) x =
     (if x = b then map_option (\<lambda>r. r\<lparr>mb_checkpoint_seq := mb_checkpoint_seq r + 1\<rparr>) (batch_of db b)
      else batch_of db x)"
  by (auto simp: batch_of_def bump_checkpoint_seq_def Let_def tbl_get_insert_apply
      split: option.splits)

lemma apply_checkpoint_frame [simp]:
  "claims (snd (apply_checkpoint H db c s ipc sch now)) = claims db"
  "claims_by_batch (snd (apply_checkpoint H db c s ipc sch now)) = claims_by_batch db"
  "instances (snd (apply_checkpoint H db c s ipc sch now)) = instances db"
  "pending_batches (snd (apply_checkpoint H db c s ipc sch now)) = pending_batches db"
  by (simp_all add: apply_checkpoint_def Let_def split_beta split: option.splits sum.splits)

end
