(* ===== verification/Sm_Queries.thy ===== *)
theory Sm_Queries
  imports Sm_Checkpoint
begin

text \<open>
  \<^verbatim>\<open>state_machine/queries.rs\<close>: point reads and the scans that choose the next claimable range.
  A read of a table that does not exist answers like a read of an empty one, so \<open>rd\<close> covers both
  branches of these functions.
\<close>

section \<open>Point reads\<close>

definition read_master_batch :: "database \<Rightarrow> u64 \<Rightarrow> master_batch_record option" where
  "read_master_batch db batch_id =
     (case master_batches db of None \<Rightarrow> None | Some table \<Rightarrow> tbl_get table batch_id)"

definition read_claim :: "database \<Rightarrow> uuid \<Rightarrow> claim_record option" where
  "read_claim db claim_id =
     (case claims db of None \<Rightarrow> None | Some table \<Rightarrow> tbl_get table (uuid_bytes claim_id))"

definition read_checkpoint :: "database \<Rightarrow> uuid \<Rightarrow> u32 \<Rightarrow> checkpoint_record option" where
  "read_checkpoint db claim_id stage_idx =
     (case checkpoints db of
        None \<Rightarrow> None
      | Some table \<Rightarrow> tbl_get table (checkpoint_key (uuid_bytes claim_id) stage_idx))"

text \<open>\<^verbatim>\<open>PROCESSOR_STATE_STAGE_SENTINEL\<close> is \<^verbatim>\<open>u32::MAX - 1\<close>.\<close>

definition PROCESSOR_STATE_STAGE_SENTINEL :: u32 where
  "PROCESSOR_STATE_STAGE_SENTINEL = - 1 - 1"

fun first_data_schema_id :: "(bytes \<times> checkpoint_record) list \<Rightarrow> u32 option" where
  "first_data_schema_id [] = None"
| "first_data_schema_id ((k, record) # items) =
     (if cp_stage_idx record < PROCESSOR_STATE_STAGE_SENTINEL
      then Some (cp_schema_id record) else first_data_schema_id items)"

definition find_data_checkpoint_schema_id :: "database \<Rightarrow> u32 option" where
  "find_data_checkpoint_schema_id db =
     (case checkpoints db of None \<Rightarrow> None | Some table \<Rightarrow> first_data_schema_id (tbl_iter table))"

section \<open>The next claimable range\<close>

fun occupied_ranges :: "(bytes \<times> bytes) list \<Rightarrow> (u32 \<times> u32) list saci_result" where
  "occupied_ranges [] = Inr []"
| "occupied_ranges ((k, v) # items) =
     (case decode_claims_by_batch_value v of
        None \<Rightarrow> Inl (Generic ''claims_by_batch: malformed value'')
      | Some (start, end_row, status) \<Rightarrow>
          res_bind (occupied_ranges items)
            (\<lambda>rest. Inr (if status = Claimed \<or> status = Completed
                         then (start, end_row) # rest else rest)))"

text \<open>The cursor walk over the occupied ranges, sorted by start row.\<close>

fun first_gap :: "u32 \<Rightarrow> u32 \<Rightarrow> (u32 \<times> u32) list \<Rightarrow> (u32 \<times> u32) option" where
  "first_gap total_rows cursor [] =
     (if cursor < total_rows then Some (cursor, total_rows) else None)"
| "first_gap total_rows cursor ((start, end_row) # rest) =
     (if cursor < start then Some (cursor, start)
      else first_gap total_rows (if end_row > cursor then end_row else cursor) rest)"

definition find_first_pending_claim :: "database \<Rightarrow> u64 \<Rightarrow> (u32 \<times> u32) option saci_result" where
  "find_first_pending_claim db batch_id =
     (case read_master_batch db batch_id of
        None \<Rightarrow> Inr None
      | Some batch \<Rightarrow>
          res_bind
            (case claims_by_batch db of
               Some idx_table \<Rightarrow> occupied_ranges (batch_items idx_table batch_id)
             | None \<Rightarrow> Inr [])
            (\<lambda>claimed.
               if claimed = []
               then Inr (if mb_total_rows batch > 0 then Some (0, mb_total_rows batch) else None)
               else Inr (first_gap (mb_total_rows batch) 0 (sort_key fst claimed))))"

fun first_with_pending ::
  "database \<Rightarrow> u64 list \<Rightarrow> (u64 \<times> u32 \<times> u32) option saci_result" where
  "first_with_pending db [] = Inr None"
| "first_with_pending db (batch_id # candidates) =
     res_bind (find_first_pending_claim db batch_id)
       (\<lambda>range. case range of
          Some r \<Rightarrow> Inr (Some (batch_id, r))
        | None \<Rightarrow> first_with_pending db candidates)"

definition find_first_pending_batch :: "database \<Rightarrow> (u64 \<times> u32 \<times> u32) option saci_result" where
  "find_first_pending_batch db =
     (case pending_batches db of
        None \<Rightarrow> Inr None
      | Some table \<Rightarrow> first_with_pending db (map fst (tbl_iter table)))"

text \<open>\<^verbatim>\<open>count_completed_claims\<close> skips rows it cannot decode.\<close>

definition count_completed_claims :: "database \<Rightarrow> nat" where
  "count_completed_claims db =
     (case claims_by_batch db of
        None \<Rightarrow> 0
      | Some table \<Rightarrow> length (filter (\<lambda>(k, v).
            case decode_claims_by_batch_value v of
              Some (_, _, s) \<Rightarrow> s = Completed | None \<Rightarrow> False) (tbl_iter table)))"

lemma read_master_batch_eq: "read_master_batch db b = batch_of db b"
  by (simp add: read_master_batch_def batch_of_def split: option.splits)

end
