(* ===== verification/Snapshot_IO.thy ===== *)
theory Snapshot_IO
  imports Sm_Queries
begin

text \<open>
  \<^verbatim>\<open>state_machine/snapshot_io.rs\<close>: reading every table into owned records and replacing the
  state with such a dump, with the secondary index rebuilt from the claims.
\<close>

section \<open>Dump and restore\<close>

record dumped_state =
  ds_batches :: "master_batch_record list"
  ds_claims :: "(bytes \<times> claim_record) list"
  ds_checkpoints :: "(bytes \<times> checkpoint_record) list"
  ds_instances :: "(bytes \<times> instance_record) list"

text \<open>The conversion of a key to a fixed-size array, which fails on another length.\<close>

fun sized_rows :: "nat \<Rightarrow> string \<Rightarrow> (bytes \<times> 'v) list \<Rightarrow> (bytes \<times> 'v) list saci_result" where
  "sized_rows n msg [] = Inr []"
| "sized_rows n msg ((k, v) # items) =
     (if length k \<noteq> n then Inl (Generic msg)
      else res_bind (sized_rows n msg items) (\<lambda>rest. Inr ((k, v) # rest)))"

definition dump_state :: "database \<Rightarrow> dumped_state saci_result" where
  "dump_state db =
     (let batches = map snd (tbl_iter (rd (master_batches db)))
      in res_bind (sized_rows 16 ''claim key is not 16 bytes'' (tbl_iter (rd (claims db))))
        (\<lambda>cls. res_bind (sized_rows 20 ''checkpoint key is not 20 bytes''
              (tbl_iter (rd (checkpoints db))))
          (\<lambda>cps. res_bind (sized_rows 16 ''instance key is not 16 bytes''
                (tbl_iter (rd (instances db))))
            (\<lambda>ins. Inr \<lparr>ds_batches = batches, ds_claims = cls, ds_checkpoints = cps,
                        ds_instances = ins\<rparr>))))"

text \<open>
  \<^verbatim>\<open>restore_state\<close>: drop the six application tables, then insert the rows one by one. Every
  restored batch is inserted into the pending index. \<open>meta\<close> are the openraft watermarks
  (\<^verbatim>\<open>sm_last_applied\<close>, \<^verbatim>\<open>sm_last_membership\<close>); their table is not dropped.
\<close>

definition restore_state :: "database \<Rightarrow> dumped_state \<Rightarrow> (bytes \<times> bytes) option \<Rightarrow> database" where
  "restore_state db d meta =
     (let batch_table = fold (\<lambda>r. tbl_insert (mb_batch_id r) r) (ds_batches d) [];
          pending_table = fold (\<lambda>r. tbl_insert (mb_batch_id r) ()) (ds_batches d) [];
          claim_table = fold (\<lambda>(k, r). tbl_insert k r) (ds_claims d) [];
          idx_table = fold (\<lambda>(k, r). tbl_insert (claims_by_batch_key (cl_batch_id r) k)
             (claims_by_batch_value (cl_row_range_start r) (cl_row_range_end r) (cl_status r)))
             (ds_claims d) [];
          cp_table = fold (\<lambda>(k, r). tbl_insert k r) (ds_checkpoints d) [];
          inst_table = fold (\<lambda>(k, r). tbl_insert k r) (ds_instances d) [];
          meta_table = (case meta of
             None \<Rightarrow> sm_meta db
           | Some (applied_bytes, membership_bytes) \<Rightarrow>
               Some (tbl_insert ''sm_last_membership'' membership_bytes
                 (tbl_insert ''sm_last_applied'' applied_bytes (rd (sm_meta db)))))
      in \<lparr>master_batches = Some batch_table, claims = Some claim_table,
          claims_by_batch = Some idx_table, checkpoints = Some cp_table,
          instances = Some inst_table, pending_batches = Some pending_table,
          sm_meta = meta_table\<rparr>)"

end
