(* ===== verification/State_Machine.thy ===== *)
theory State_Machine
  imports Snapshot_IO
begin

text \<open>
  \<^verbatim>\<open>state_machine/mod.rs\<close>: the \<^verbatim>\<open>apply\<close> dispatcher, the states a replica can reach by applying
  committed commands and installing snapshots, and the invariant of those states: tables sorted,
  index rows decodable, every claim indexed with its range and status, and active ranges of one
  batch pairwise disjoint.
\<close>

section \<open>Dispatcher and reachable states\<close>

fun apply_command :: "hasher \<Rightarrow> database \<Rightarrow> consensus_command \<Rightarrow> handler_result" where
  "apply_command H db (RegisterMasterBatch batch_id component schema_id ipc_bytes total_rows now) =
     apply_register_master_batch db batch_id component schema_id ipc_bytes total_rows now"
| "apply_command H db (ClaimRowRange batch_id s e claim_id instance_id ttl now) =
     apply_claim_row_range db batch_id s e claim_id instance_id ttl now"
| "apply_command H db (RenewClaim claim_id instance_id ttl now) =
     apply_renew_claim db claim_id instance_id ttl now"
| "apply_command H db (AckClaim claim_id instance_id) = apply_ack_claim db claim_id instance_id"
| "apply_command H db (ReleaseClaim claim_id instance_id) =
     apply_release_claim db claim_id instance_id"
| "apply_command H db (Checkpoint claim_id stage_idx ipc_bytes schema_id now) =
     apply_checkpoint H db claim_id stage_idx ipc_bytes schema_id now"
| "apply_command H db (Heartbeat instance_id at) = apply_heartbeat db instance_id at"
| "apply_command H db (ReclaimExpired now) = apply_reclaim_expired db now"
| "apply_command H db (PoisonBatch batch_id now) = apply_poison_batch db batch_id now"

inductive reachable :: "hasher \<Rightarrow> database \<Rightarrow> bool" for H where
  init: "reachable H empty_database"
| step: "reachable H db \<Longrightarrow> reachable H (snd (apply_command H db cmd))"
| install: "reachable H db \<Longrightarrow> reachable H src \<Longrightarrow> dump_state src = Inr d \<Longrightarrow>
     reachable H (restore_state db d meta)"

inductive_cases reachable_cases: "reachable H db"

fun run_commands :: "hasher \<Rightarrow> database \<Rightarrow> consensus_command list \<Rightarrow> database" where
  "run_commands H db [] = db"
| "run_commands H db (cmd # cmds) = run_commands H (snd (apply_command H db cmd)) cmds"

lemma reachable_run: "reachable H db \<Longrightarrow> reachable H (run_commands H db cmds)"
  by (induction cmds arbitrary: db) (auto intro: reachable.step)

section \<open>Views of the claim tables\<close>

definition claim_of :: "database \<Rightarrow> bytes \<Rightarrow> claim_record option" where
  "claim_of db c = tbl_get (rd (claims db)) c"

definition idx_entry :: "(bytes, bytes) table \<Rightarrow> u64 \<Rightarrow> bytes \<Rightarrow> (u32 \<times> u32 \<times> claim_status) option" where
  "idx_entry idx b c =
     Option.bind (tbl_get idx (claims_by_batch_key b c)) decode_claims_by_batch_value"

definition entry_of :: "database \<Rightarrow> u64 \<Rightarrow> bytes \<Rightarrow> (u32 \<times> u32 \<times> claim_status) option" where
  "entry_of db b c = idx_entry (rd (claims_by_batch db)) b c"

definition active :: "claim_status \<Rightarrow> bool" where
  "active st \<longleftrightarrow> st = Claimed \<or> st = Completed"

lemma active_simps [simp]: "active Claimed" "active Completed" "\<not> active Pending"
  by (simp_all add: active_def)

definition idx_ok :: "(bytes, bytes) table \<Rightarrow> bool" where
  "idx_ok idx \<longleftrightarrow> tbl_wf idx \<and>
     (\<forall>k v. tbl_get idx k = Some v \<longrightarrow>
        (\<exists>b c. k = claims_by_batch_key b c) \<and> decode_claims_by_batch_value v \<noteq> None)"

lemma idx_ok_Nil [simp]: "idx_ok []"
  by (simp add: idx_ok_def)

lemma idx_ok_insert:
  "idx_ok idx \<Longrightarrow> idx_ok (tbl_insert (claims_by_batch_key b c) (claims_by_batch_value s e st) idx)"
  by (auto simp: idx_ok_def tbl_simps tbl_get_insert_apply split: if_splits)

lemma idx_entry_insert:
  "idx_ok idx \<Longrightarrow>
   idx_entry (tbl_insert (claims_by_batch_key b c) (claims_by_batch_value s e st) idx) b' c' =
     (if b' = b \<and> c' = c then Some (s, e, st) else idx_entry idx b' c')"
  by (auto simp: idx_entry_def idx_ok_def tbl_get_insert_apply)

section \<open>The range scan against the index\<close>

lemma batch_items_mem:
  "idx_ok idx \<Longrightarrow> (k, v) \<in> set (batch_items idx b) \<longleftrightarrow>
     (\<exists>c. k = claims_by_batch_key b c \<and> tbl_get idx k = Some v)"
proof
  assume ok: "idx_ok idx" and mem: "(k, v) \<in> set (batch_items idx b)"
  then have get: "tbl_get idx k = Some v" and
    bounds: "batch_range_start b \<le> k \<and>
      (case batch_range_end b of None \<Rightarrow> True | Some h \<Rightarrow> k < h)"
    by (auto simp: batch_items_def idx_ok_def tbl.scan_mem)
  from ok get obtain b' c where "k = claims_by_batch_key b' c"
    unfolding idx_ok_def by blast
  with bounds get show "\<exists>c. k = claims_by_batch_key b c \<and> tbl_get idx k = Some v"
    using batch_range_exact [of b b' c] by auto
next
  assume ok: "idx_ok idx" and "\<exists>c. k = claims_by_batch_key b c \<and> tbl_get idx k = Some v"
  then show "(k, v) \<in> set (batch_items idx b)"
    using batch_range_exact [of b b] by (auto simp: batch_items_def idx_ok_def tbl.scan_mem)
qed

lemma batch_items_decode:
  "idx_ok idx \<Longrightarrow> (k, v) \<in> set (batch_items idx b) \<Longrightarrow> decode_claims_by_batch_value v \<noteq> None"
  by (auto simp: batch_items_mem idx_ok_def)

lemma batch_items_entries:
  "idx_ok idx \<Longrightarrow> (\<exists>(k, v) \<in> set (batch_items idx b). \<exists>t. decode_claims_by_batch_value v = Some t \<and> P t)
     \<longleftrightarrow> (\<exists>c t. idx_entry idx b c = Some t \<and> P t)"
  by (fastforce simp: batch_items_mem idx_entry_def bind_eq_Some_conv)

lemma overlap_scan_eq:
  "\<forall>(k, v) \<in> set items. decode_claims_by_batch_value v \<noteq> None \<Longrightarrow>
   overlap_scan rs re items =
     Inr (\<exists>(k, v) \<in> set items. \<exists>t. decode_claims_by_batch_value v = Some t \<and>
       (case t of (s, e, st) \<Rightarrow> active st \<and> rs < e \<and> s < re))"
proof (induction items)
  case Nil
  then show ?case by simp
next
  case (Cons item items)
  obtain k v where item: "item = (k, v)" by (cases item)
  obtain s e st where d: "decode_claims_by_batch_value v = Some (s, e, st)"
    using Cons.prems item by auto
  show ?case
    using Cons by (cases "active st \<and> rs < e \<and> s < re") (simp_all add: item d active_def, blast)
qed

lemma has_batch_overlap_eq:
  "idx_ok idx \<Longrightarrow> has_batch_overlap idx b rs re =
     Inr (\<exists>c s e st. idx_entry idx b c = Some (s, e, st) \<and> active st \<and> rs < e \<and> s < re)"
  using batch_items_entries [of idx b "\<lambda>(s, e, st). active st \<and> rs < e \<and> s < re"]
  by (subst has_batch_overlap_def, subst overlap_scan_eq)
    (auto dest: batch_items_decode)

lemma all_complete_scan_eq:
  "\<forall>(k, v) \<in> set items. decode_claims_by_batch_value v \<noteq> None \<Longrightarrow>
   all_complete_scan items =
     Inr (\<not> (\<exists>(k, v) \<in> set items. \<exists>t. decode_claims_by_batch_value v = Some t \<and>
       (case t of (s, e, st) \<Rightarrow> st \<noteq> Completed)))"
proof (induction items)
  case Nil
  then show ?case by simp
next
  case (Cons item items)
  obtain k v where item: "item = (k, v)" by (cases item)
  obtain s e st where d: "decode_claims_by_batch_value v = Some (s, e, st)"
    using Cons.prems item by auto
  show ?case using Cons by (cases "st = Completed") (simp_all add: item d)
qed

lemma all_complete_scan_idx:
  "idx_ok idx \<Longrightarrow> all_complete_scan (batch_items idx b) =
     Inr (\<forall>c s e st. idx_entry idx b c = Some (s, e, st) \<longrightarrow> st = Completed)"
  using batch_items_entries [of idx b "\<lambda>(s, e, st). st \<noteq> Completed"]
  by (subst all_complete_scan_eq) (auto dest: batch_items_decode)

section \<open>The invariant\<close>

definition tables_wf :: "database \<Rightarrow> bool" where
  "tables_wf db \<longleftrightarrow> tbl_wf (rd (master_batches db)) \<and> tbl_wf (rd (claims db)) \<and>
     tbl_wf (rd (checkpoints db)) \<and> tbl_wf (rd (instances db)) \<and> tbl_wf (rd (pending_batches db))"

definition keys_ok :: "database \<Rightarrow> bool" where
  "keys_ok db \<longleftrightarrow>
     (\<forall>k r. claim_of db k = Some r \<longrightarrow> length k = 16) \<and>
     (\<forall>k r. tbl_get (rd (checkpoints db)) k = Some r \<longrightarrow> length k = 20) \<and>
     (\<forall>k r. tbl_get (rd (instances db)) k = Some r \<longrightarrow> length k = 16) \<and>
     (\<forall>b r. batch_of db b = Some r \<longrightarrow> mb_batch_id r = b)"

definition claims_indexed :: "database \<Rightarrow> bool" where
  "claims_indexed db \<longleftrightarrow> (\<forall>c r. claim_of db c = Some r \<longrightarrow>
     entry_of db (cl_batch_id r) c = Some (cl_row_range_start r, cl_row_range_end r, cl_status r))"

definition ranges_ok :: "database \<Rightarrow> bool" where
  "ranges_ok db \<longleftrightarrow> (\<forall>b c s e st. entry_of db b c = Some (s, e, st) \<longrightarrow> s < e)"

definition active_disjoint :: "database \<Rightarrow> bool" where
  "active_disjoint db \<longleftrightarrow> (\<forall>b c c' s e st s' e' st'.
     c \<noteq> c' \<longrightarrow> entry_of db b c = Some (s, e, st) \<longrightarrow> entry_of db b c' = Some (s', e', st') \<longrightarrow>
     active st \<longrightarrow> active st' \<longrightarrow> \<not> (s < e' \<and> s' < e))"

definition sm_inv :: "database \<Rightarrow> bool" where
  "sm_inv db \<longleftrightarrow> tables_wf db \<and> keys_ok db \<and> idx_ok (rd (claims_by_batch db)) \<and>
     claims_indexed db \<and> ranges_ok db \<and> active_disjoint db"

lemma sm_inv_empty: "sm_inv empty_database"
  by (simp add: sm_inv_def tables_wf_def keys_ok_def claims_indexed_def ranges_ok_def
      active_disjoint_def empty_database_def claim_of_def entry_of_def idx_entry_def batch_of_def)

lemma sm_invD:
  assumes "sm_inv db"
  shows "tables_wf db" "keys_ok db" "idx_ok (rd (claims_by_batch db))"
    "claims_indexed db" "ranges_ok db" "active_disjoint db"
  using assms by (simp_all add: sm_inv_def)

lemma tables_wfD:
  assumes "tables_wf db"
  shows "tbl_wf (rd (master_batches db))" "tbl_wf (rd (claims db))"
    "tbl_wf (rd (checkpoints db))" "tbl_wf (rd (instances db))" "tbl_wf (rd (pending_batches db))"
  using assms by (simp_all add: tables_wf_def)

lemma sm_inv_wf: "sm_inv db \<Longrightarrow> tbl_wf (rd (claims db))"
  by (simp add: sm_inv_def tables_wf_def)

text \<open>A claim row and its index row, as one fact.\<close>

lemma claim_entry:
  "sm_inv db \<Longrightarrow> claim_of db c = Some r \<Longrightarrow>
   entry_of db (cl_batch_id r) c = Some (cl_row_range_start r, cl_row_range_end r, cl_status r) \<and>
   cl_row_range_start r < cl_row_range_end r \<and> length c = 16"
  unfolding sm_inv_def claims_indexed_def ranges_ok_def keys_ok_def by blast

section \<open>Effects of the paired insert\<close>

lemma put_claim_frame [simp]:
  "master_batches (put_claim c r db) = master_batches db"
  "checkpoints (put_claim c r db) = checkpoints db"
  "instances (put_claim c r db) = instances db"
  "pending_batches (put_claim c r db) = pending_batches db"
  "sm_meta (put_claim c r db) = sm_meta db"
  by (simp_all add: put_claim_def)

lemma claim_of_put_claim:
  "tbl_wf (rd (claims db)) \<Longrightarrow>
   claim_of (put_claim c r db) x = (if x = c then Some r else claim_of db x)"
  by (simp add: claim_of_def put_claim_def tbl_get_insert_apply)

lemma entry_of_put_claim:
  "idx_ok (rd (claims_by_batch db)) \<Longrightarrow>
   entry_of (put_claim c r db) b x =
     (if b = cl_batch_id r \<and> x = c
      then Some (cl_row_range_start r, cl_row_range_end r, cl_status r) else entry_of db b x)"
  by (simp add: entry_of_def put_claim_def idx_entry_insert)

lemma batch_of_put_claim [simp]: "batch_of (put_claim c r db) = batch_of db"
  by (simp add: batch_of_def fun_eq_iff)

lemma sm_inv_put_claim:
  assumes inv: "sm_inv db" and len: "length c = 16"
    and range: "cl_row_range_start r < cl_row_range_end r"
    and free: "\<And>c' s e st. active (cl_status r) \<Longrightarrow> c' \<noteq> c \<Longrightarrow>
        entry_of db (cl_batch_id r) c' = Some (s, e, st) \<Longrightarrow> active st \<Longrightarrow>
        \<not> (cl_row_range_start r < e \<and> s < cl_row_range_end r)"
  shows "sm_inv (put_claim c r db)"
proof -
  note D = sm_invD [OF inv] tables_wfD [OF sm_invD(1) [OF inv]]
  note C = claim_of_put_claim [OF D(8)] and E = entry_of_put_claim [OF D(3)]
  have "tables_wf (put_claim c r db)"
    using D by (simp add: tables_wf_def) (simp add: put_claim_def tbl_simps)
  moreover have "keys_ok (put_claim c r db)"
    using D(2) len by (simp add: keys_ok_def C)
  moreover have "idx_ok (rd (claims_by_batch (put_claim c r db)))"
    using D(3) by (simp add: put_claim_def idx_ok_insert)
  moreover have "claims_indexed (put_claim c r db)"
    using D(4) by (simp add: claims_indexed_def C E)
  moreover have "ranges_ok (put_claim c r db)"
    using D(5) range by (auto simp: ranges_ok_def E)
  moreover have "active_disjoint (put_claim c r db)"
    unfolding active_disjoint_def
  proof (intro allI impI)
    fix b x x' s e st s' e' st'
    assume A: "x \<noteq> x'" "entry_of (put_claim c r db) b x = Some (s, e, st)"
      "entry_of (put_claim c r db) b x' = Some (s', e', st')" "active st" "active st'"
    show "\<not> (s < e' \<and> s' < e)"
    proof (cases "b = cl_batch_id r \<and> (x = c \<or> x' = c)")
      case True
      then show ?thesis using A free by (fastforce simp: E split: if_splits)
    next
      case False
      then have "entry_of db b x = Some (s, e, st)" "entry_of db b x' = Some (s', e', st')"
        using A(2,3) by (auto simp: E split: if_splits)
      then show ?thesis using D(6) A(1,4,5) unfolding active_disjoint_def by blast
    qed
  qed
  ultimately show ?thesis by (simp add: sm_inv_def)
qed

text \<open>Changing the status of a stored claim keeps the invariant, whatever the new status.\<close>

lemma sm_inv_put_existing:
  assumes inv: "sm_inv db" and r: "claim_of db c = Some r"
    and same: "cl_batch_id r' = cl_batch_id r" "cl_row_range_start r' = cl_row_range_start r"
      "cl_row_range_end r' = cl_row_range_end r"
    and act: "active (cl_status r') \<Longrightarrow> active (cl_status r)"
  shows "sm_inv (put_claim c r' db)"
proof (rule sm_inv_put_claim [OF inv])
  note e = claim_entry [OF inv r]
  show "length c = 16" "cl_row_range_start r' < cl_row_range_end r'" using e same by auto
  fix c' s e' st
  assume "active (cl_status r')" "c' \<noteq> c" "entry_of db (cl_batch_id r') c' = Some (s, e', st)"
    "active st"
  then show "\<not> (cl_row_range_start r' < e' \<and> s < cl_row_range_end r')"
    using e same act sm_invD(6) [OF inv] unfolding active_disjoint_def by metis
qed

text \<open>The invariant reads the tables only through \<open>rd\<close>, so creating an empty table keeps it.\<close>

lemma sm_inv_cong:
  assumes "rd (claims db') = rd (claims db)" "rd (claims_by_batch db') = rd (claims_by_batch db)"
    "rd (checkpoints db') = rd (checkpoints db)" "rd (instances db') = rd (instances db)"
    "tbl_wf (rd (master_batches db'))" "tbl_wf (rd (pending_batches db'))"
    "\<And>b r. batch_of db' b = Some r \<Longrightarrow> mb_batch_id r = b"
    and inv: "sm_inv db"
  shows "sm_inv db'"
proof -
  have "claim_of db' = claim_of db" "entry_of db' = entry_of db"
    using assms by (simp_all add: claim_of_def entry_of_def fun_eq_iff)
  with assms inv show ?thesis
    by (simp add: sm_inv_def tables_wf_def keys_ok_def claims_indexed_def ranges_ok_def
        active_disjoint_def)
qed

lemma sm_inv_batch_id: "sm_inv db \<Longrightarrow> batch_of db b = Some r \<Longrightarrow> mb_batch_id r = b"
  by (auto simp: sm_inv_def keys_ok_def)

end
