(* ===== verification/Sm_Invariant.thy ===== *)
theory Sm_Invariant
  imports State_Machine
begin

text \<open>
  Every command and every snapshot install keeps the invariant \<open>sm_inv\<close>, so every reachable
  replica state satisfies it. The handlers that change claims are reduced to the paired insert
  \<open>put_claim\<close>; the others touch tables of which the invariant only needs the key order.
\<close>

section \<open>Handlers that leave the claims alone\<close>

lemma sm_inv_master:
  assumes inv: "sm_inv db" and wf: "tbl_wf t" and ids: "\<And>b r. tbl_get t b = Some r \<Longrightarrow> mb_batch_id r = b"
  shows "sm_inv (db\<lparr>master_batches := Some t\<rparr>)"
  by (rule sm_inv_cong [OF _ _ _ _ _ _ _ inv])
    (use assms in \<open>auto simp: batch_of_def dest: sm_invD tables_wfD\<close>)

lemma sm_inv_pending:
  assumes inv: "sm_inv db" and wf: "tbl_wf t"
  shows "sm_inv (db\<lparr>pending_batches := Some t\<rparr>)"
  by (rule sm_inv_cong [OF _ _ _ _ _ _ _ inv])
    (use assms sm_inv_batch_id in \<open>auto simp: batch_of_def dest: sm_invD tables_wfD\<close>)

lemma sm_inv_open_claims: "sm_inv db \<Longrightarrow> sm_inv (db\<lparr>claims := Some (rd (claims db))\<rparr>)"
  by (rule sm_inv_cong [where db = db])
    (auto simp: batch_of_def dest: sm_invD tables_wfD intro: sm_inv_batch_id [unfolded batch_of_def])

lemma sm_inv_master_wf: "sm_inv db \<Longrightarrow> tbl_wf (rd (master_batches db))"
  by (simp add: sm_inv_def tables_wf_def)

lemma sm_inv_pending_wf: "sm_inv db \<Longrightarrow> tbl_wf (rd (pending_batches db))"
  by (simp add: sm_inv_def tables_wf_def)

lemma sm_inv_increment: "sm_inv db \<Longrightarrow> sm_inv (increment_release_attempts b db)"
  by (rule sm_inv_cong [where db = db])
    (auto simp: wf_increment_release_attempts sm_inv_master_wf sm_inv_pending_wf
      batch_of_increment dest: sm_inv_batch_id split: if_splits)

lemma sm_inv_reset: "sm_inv db \<Longrightarrow> sm_inv (reset_release_attempts b db)"
  by (rule sm_inv_cong [where db = db])
    (auto simp: wf_reset_release_attempts sm_inv_master_wf sm_inv_pending_wf
      batch_of_reset dest: sm_inv_batch_id split: if_splits)

lemma sm_inv_bump: "sm_inv db \<Longrightarrow> sm_inv (snd (bump_checkpoint_seq b db))"
  by (rule sm_inv_cong [where db = db])
    (auto simp: wf_bump_checkpoint_seq sm_inv_master_wf sm_inv_pending_wf
      batch_of_bump_checkpoint_seq dest: sm_inv_batch_id split: if_splits)

lemma sm_inv_register:
  "sm_inv db \<Longrightarrow> sm_inv (snd (apply_register_master_batch db b cmp sch ipc rows now))"
  by (rule sm_inv_cong [where db = db])
    (auto simp: apply_register_master_batch_def Let_def tbl_simps sm_inv_master_wf
      sm_inv_pending_wf batch_of_def tbl_get_insert_apply
      dest: sm_inv_batch_id [unfolded batch_of_def] split: if_splits)

lemma sm_inv_poison: "sm_inv db \<Longrightarrow> sm_inv (snd (apply_poison_batch db b now))"
  by (rule sm_inv_cong [where db = db])
    (auto simp: apply_poison_batch_def Let_def tbl_simps sm_inv_master_wf
      sm_inv_pending_wf batch_of_def tbl_get_insert_apply
      dest: sm_inv_batch_id [unfolded batch_of_def] split: if_splits option.splits)

lemma sm_inv_instances:
  assumes "sm_inv db"
  shows "sm_inv (db\<lparr>instances := Some (tbl_insert (uuid_bytes i) r (rd (instances db)))\<rparr>)"
  using assms
  by (auto simp: sm_inv_def tables_wf_def keys_ok_def claims_indexed_def ranges_ok_def
      active_disjoint_def claim_of_def entry_of_def batch_of_def tbl_simps
      tbl_get_insert_apply split: if_splits)

lemma sm_inv_checkpoint_insert:
  assumes "sm_inv db" "length k = 20"
  shows "sm_inv (db\<lparr>checkpoints := Some (tbl_insert k r (rd (checkpoints db)))\<rparr>)"
  using assms
  by (auto simp: sm_inv_def tables_wf_def keys_ok_def claims_indexed_def ranges_ok_def
      active_disjoint_def claim_of_def entry_of_def batch_of_def tbl_simps
      tbl_get_insert_apply split: if_splits)

lemma sm_inv_checkpoint: "sm_inv db \<Longrightarrow> sm_inv (snd (apply_checkpoint H db c s ipc sch now))"
  using sm_inv_checkpoint_insert [OF sm_inv_bump]
  by (auto simp: apply_checkpoint_def Let_def split_beta length_checkpoint_key split: sum.splits option.splits)

section \<open>Handlers that change a claim\<close>

lemma sm_inv_claim:
  assumes inv: "sm_inv db"
  shows "sm_inv (snd (apply_claim_row_range db b s e c i ttl now))"
proof -
  let ?r = "\<lparr>cl_batch_id = b, cl_row_range_start = s, cl_row_range_end = e,
    cl_instance_id = uuid_bytes i, cl_lease_expires_at = now + ttl, cl_status = Claimed\<rparr>"
  have "sm_inv (put_claim (uuid_bytes c) ?r db)"
    if "s < e" "has_batch_overlap (rd (claims_by_batch db)) b s e = Inr False"
    using that has_batch_overlap_eq [OF sm_invD(3) [OF inv], of b s e]
    by (intro sm_inv_put_claim [OF inv]) (auto simp: entry_of_def)
  then show ?thesis
    using inv by (auto simp: apply_claim_row_range_def Let_def not_le
        split: option.splits sum.splits bool.splits)
qed

lemma sm_inv_renew:
  assumes inv: "sm_inv db"
  shows "sm_inv (snd (apply_renew_claim db c i ttl now))"
proof -
  have ins: "sm_inv (db\<lparr>claims := Some (tbl_insert k (r\<lparr>cl_lease_expires_at := l\<rparr>) (rd (claims db)))\<rparr>)"
    if r: "tbl_get (rd (claims db)) k = Some r" for k r l
  proof -
    have "sm_inv (put_claim k (r\<lparr>cl_lease_expires_at := l\<rparr>) db)"
      using r by (intro sm_inv_put_existing [OF inv, of k r]) (simp_all add: claim_of_def)
    moreover have "entry_of (put_claim k (r\<lparr>cl_lease_expires_at := l\<rparr>) db) = entry_of db"
      using claim_entry [OF inv, of k r] r sm_invD(3) [OF inv]
      by (auto simp: entry_of_put_claim fun_eq_iff claim_of_def)
    moreover have "entry_of (db\<lparr>claims := x\<rparr>) = entry_of db" for x
      by (simp add: entry_of_def fun_eq_iff)
    ultimately show ?thesis using sm_invD(3) [OF inv]
      by (simp add: sm_inv_def tables_wf_def keys_ok_def claims_indexed_def ranges_ok_def
        active_disjoint_def claim_of_def batch_of_def) (simp add: put_claim_def)
  qed
  then show ?thesis
    using inv by (auto simp: apply_renew_claim_def Let_def sm_inv_open_claims split: option.splits)
qed

lemma sm_inv_release:
  assumes inv: "sm_inv db"
  shows "sm_inv (snd (apply_release_claim db c i))"
proof -
  have "sm_inv (put_claim k (r\<lparr>cl_status := Pending, cl_lease_expires_at := 0,
      cl_instance_id := replicate 16 0\<rparr>) db)"
    if "tbl_get (rd (claims db)) k = Some r" for k r
    using that by (intro sm_inv_put_existing [OF inv, of k r]) (simp_all add: claim_of_def)
  then show ?thesis
    using inv by (auto simp: apply_release_claim_def Let_def sm_inv_open_claims sm_inv_increment
        split: option.splits)
qed

lemma sm_inv_ack:
  assumes inv: "sm_inv db"
  shows "sm_inv (snd (apply_ack_claim db c i))"
proof -
  have put: "sm_inv (put_claim k (r\<lparr>cl_status := Completed, cl_lease_expires_at := 0\<rparr>) db)"
    if "tbl_get (rd (claims db)) k = Some r" "cl_status r = Claimed" for k r
    using that by (intro sm_inv_put_existing [OF inv, of k r]) (simp_all add: claim_of_def)
  have rem: "sm_inv (db'\<lparr>pending_batches := Some (tbl_remove b (rd (pending_batches db)))\<rparr>)"
    if "sm_inv db'" for db' b
    using that inv by (simp add: sm_inv_pending sm_inv_pending_wf tbl_simps)
  show ?thesis
    using inv by (auto simp: apply_ack_claim_def Let_def sm_inv_open_claims put rem
        split: option.splits sum.splits intro!: sm_inv_reset)
qed

lemma collect_expired_eq:
  "\<forall>(k, r) \<in> set items. length k = 16 \<Longrightarrow>
   collect_expired now items =
     Inr (filter (\<lambda>(k, r). cl_status r = Claimed \<and> cl_lease_expires_at r < now) items)"
proof (induction items)
  case Nil
  then show ?case by simp
next
  case (Cons item items)
  then show ?case by (cases item) simp
qed

lemma sm_inv_collect:
  "sm_inv db \<Longrightarrow> collect_expired now (tbl_iter (rd (claims db))) =
     Inr (filter (\<lambda>(k, r). cl_status r = Claimed \<and> cl_lease_expires_at r < now)
       (tbl_iter (rd (claims db))))"
  using claim_entry [of db] tbl.rows_get [of "rd (claims db)"]
  by (intro collect_expired_eq) (auto simp: claim_of_def sm_inv_wf)

lemma sm_inv_fold_reclaim:
  "sm_inv db \<Longrightarrow> distinct (map fst es) \<Longrightarrow> \<forall>(k, r) \<in> set es. claim_of db k = Some r \<Longrightarrow>
   sm_inv (fold reclaim_one es db)"
proof (induction es arbitrary: db)
  case Nil
  then show ?case by simp
next
  case (Cons e es)
  have e: "claim_of db (fst e) = Some (snd e)" using Cons.prems by auto
  have inv: "sm_inv (reclaim_one e db)"
    unfolding reclaim_one_def by (rule sm_inv_put_existing [OF Cons.prems(1) e]) simp_all
  have "\<forall>(k, r) \<in> set es. claim_of (reclaim_one e db) k = Some r"
    using Cons.prems by (force simp: reclaim_one_def claim_of_put_claim sm_inv_wf)
  with Cons inv show ?case by simp
qed

lemma sm_inv_fold_increment: "sm_inv db \<Longrightarrow> sm_inv (fold increment_release_attempts bs db)"
  by (induction bs arbitrary: db) (auto intro: sm_inv_increment)

lemma sm_inv_reclaim:
  assumes inv: "sm_inv db"
  shows "sm_inv (snd (apply_reclaim_expired db now))"
proof (cases "claims db")
  case None
  then show ?thesis using inv by (simp add: apply_reclaim_expired_def)
next
  case (Some table)
  define ex where "ex = filter (\<lambda>(k, r). cl_status r = Claimed \<and> cl_lease_expires_at r < now)
    (tbl_iter table)"
  have wf: "tbl_wf table" using sm_inv_wf [OF inv] Some by simp
  have "distinct (map fst ex)"
    unfolding ex_def using tbl.rows_distinct [OF wf] by (simp add: distinct_map_filter)
  moreover have "\<forall>(k, r) \<in> set ex. claim_of db k = Some r"
    using wf Some by (auto simp: ex_def tbl.rows_get claim_of_def)
  ultimately have "sm_inv (fold reclaim_one ex db)" by (rule sm_inv_fold_reclaim [OF inv])
  then show ?thesis
    using inv sm_inv_collect [OF inv, of now] Some
    by (simp add: apply_reclaim_expired_def Let_def sm_inv_fold_increment flip: ex_def)
qed

lemma sm_inv_apply_command: "sm_inv db \<Longrightarrow> sm_inv (snd (apply_command H db cmd))"
  by (cases cmd) (simp_all add: sm_inv_register sm_inv_claim sm_inv_renew sm_inv_ack sm_inv_release
      sm_inv_checkpoint sm_inv_reclaim sm_inv_poison apply_heartbeat_def sm_inv_instances)

section \<open>Snapshot install\<close>

text \<open>
  \<open>snap_index\<close> is the rebuilt secondary index of \<open>restore_state\<close>. It has an entry for exactly the
  restored claims, so rows of the old index that no claim points to are not carried over.
\<close>

abbreviation snap_index :: "(bytes \<times> claim_record) list \<Rightarrow> (bytes, bytes) table" where
  "snap_index rs \<equiv> fold (\<lambda>(k, r). tbl_insert (claims_by_batch_key (cl_batch_id r) k)
     (claims_by_batch_value (cl_row_range_start r) (cl_row_range_end r) (cl_status r))) rs []"

lemma snap_index_entry:
  "distinct (map fst rs) \<Longrightarrow> idx_ok (snap_index rs) \<and>
   (\<forall>b c. idx_entry (snap_index rs) b c =
     (case map_of rs c of
        Some r \<Rightarrow> if cl_batch_id r = b
          then Some (cl_row_range_start r, cl_row_range_end r, cl_status r) else None
      | None \<Rightarrow> None))"
proof (induction rs rule: rev_induct)
  case Nil
  then show ?case by (simp add: idx_entry_def)
next
  case (snoc x rs)
  obtain k r where x: "x = (k, r)" by (cases x)
  have ok: "idx_ok (snap_index rs)" using snoc by simp
  have fresh: "map_of rs k = None" using snoc.prems x by (simp add: map_of_eq_None_iff)
  show ?case
    using snoc ok fresh by (auto simp: x idx_ok_insert idx_entry_insert map_add_def split: option.splits)
qed

lemma sized_rows_Inr: "sized_rows n msg rs = Inr rs' \<Longrightarrow> rs' = rs \<and> (\<forall>(k, v) \<in> set rs. length k = n)"
  by (induction n msg rs arbitrary: rs' rule: sized_rows.induct)
    (auto simp: res_bind_eq_Inr split: if_splits)

lemma sized_rows_ok: "\<forall>(k, v) \<in> set rs. length k = n \<Longrightarrow> sized_rows n msg rs = Inr rs"
  by (induction n msg rs rule: sized_rows.induct) auto

lemma dump_state_Inr:
  "dump_state db = Inr d \<Longrightarrow>
   d = \<lparr>ds_batches = map snd (rd (master_batches db)), ds_claims = rd (claims db),
        ds_checkpoints = rd (checkpoints db), ds_instances = rd (instances db)\<rparr>"
  by (auto simp: dump_state_def Let_def res_bind_eq_Inr tbl_iter_def dest!: sized_rows_Inr)

lemma load_batches:
  assumes "tbl_wf t" "\<And>b r. tbl_get t b = Some r \<Longrightarrow> mb_batch_id r = b"
  shows "fold (\<lambda>r. tbl_insert (mb_batch_id r) (f r)) (map snd t) [] = tbl_load (map (\<lambda>(k, r). (k, f r)) t)"
proof -
  have "\<forall>(k, r) \<in> set t. mb_batch_id r = k" using assms by (auto simp: tbl_rows_get)
  then have "fold (\<lambda>r. tbl_insert (mb_batch_id r) (f r)) (map snd t) u =
      fold (\<lambda>(k, v). tbl_insert k v) (map (\<lambda>(k, r). (k, f r)) t) u" for u
    by (induction t arbitrary: u) auto
  then show ?thesis by (simp add: tbl_load_def)
qed

lemmas tbl_load_self = tbl_load_rows [unfolded tbl_iter_def]

lemma fold_insert_self: "tbl_wf t \<Longrightarrow> fold (\<lambda>(k, r). tbl_insert k r) t [] = t"
  using tbl_load_self [of t] by (simp add: tbl_load_def)

lemma tbl_wf_map: "tbl_wf t \<Longrightarrow> tbl_wf (map (\<lambda>(k, r). (k, f r)) t)"
  by (simp add: tbl_wf_def o_def split_beta)

lemma restore_state_tables:
  assumes inv: "sm_inv src" and d: "dump_state src = Inr d"
  shows "master_batches (restore_state db d meta) = Some (rd (master_batches src))"
    "claims (restore_state db d meta) = Some (rd (claims src))"
    "claims_by_batch (restore_state db d meta) = Some (snap_index (rd (claims src)))"
    "checkpoints (restore_state db d meta) = Some (rd (checkpoints src))"
    "instances (restore_state db d meta) = Some (rd (instances src))"
    "pending_batches (restore_state db d meta) =
       Some (map (\<lambda>(b, r). (b, ())) (rd (master_batches src)))"
proof -
  note D = dump_state_Inr [OF d] and W = tables_wfD [OF sm_invD(1) [OF inv]]
  note L = load_batches [OF W(1), of "\<lambda>r. r"] load_batches [OF W(1), of "\<lambda>_. ()"]
  have ids: "\<And>b r. tbl_get (rd (master_batches src)) b = Some r \<Longrightarrow> mb_batch_id r = b"
    using sm_inv_batch_id [OF inv] by (simp add: batch_of_def)
  show "master_batches (restore_state db d meta) = Some (rd (master_batches src))"
    using L(1) ids W(1) by (simp add: restore_state_def D tbl_load_self)
  show "pending_batches (restore_state db d meta) =
      Some (map (\<lambda>(b, r). (b, ())) (rd (master_batches src)))"
    using L(2) ids W(1) by (simp add: restore_state_def D tbl_load_self tbl_wf_map)
qed (use dump_state_Inr [OF d] tables_wfD [OF sm_invD(1) [OF inv]] in
      \<open>simp_all add: restore_state_def Let_def fold_insert_self\<close>)

lemma sm_inv_restore:
  assumes inv: "sm_inv src" and d: "dump_state src = Inr d"
  shows "sm_inv (restore_state db d meta)"
proof -
  let ?db = "restore_state db d meta"
  note T = restore_state_tables [OF inv d, of db meta]
  note W = tables_wfD [OF sm_invD(1) [OF inv]]
  have "distinct (map fst (rd (claims src)))"
    using tbl.rows_distinct [OF W(2)] by (simp add: tbl_iter_def)
  note S = snap_index_entry [OF this]
  have E: "entry_of ?db b c = (case claim_of src c of
        Some r \<Rightarrow> if cl_batch_id r = b
          then Some (cl_row_range_start r, cl_row_range_end r, cl_status r) else None
      | None \<Rightarrow> None)" for b c
    using S by (simp add: entry_of_def T claim_of_def tbl_get_def)
  have old: "entry_of ?db b c = Some t \<Longrightarrow> entry_of src b c = Some t" for b c t
    using claim_entry [OF inv, of c] by (auto simp: E split: option.splits if_splits)
  have "claim_of ?db = claim_of src" "batch_of ?db = batch_of src"
    by (simp_all add: claim_of_def batch_of_def T fun_eq_iff)
  moreover have "ranges_ok ?db" using sm_invD(5) [OF inv] old unfolding ranges_ok_def by blast
  moreover have "active_disjoint ?db"
    using sm_invD(6) [OF inv] old unfolding active_disjoint_def by blast
  moreover have "idx_ok (rd (claims_by_batch ?db))" using S by (simp add: T)
  moreover have "claims_indexed ?db" using calculation(1) by (simp add: claims_indexed_def E)
  ultimately show ?thesis
    using sm_invD(1,2) [OF inv] W by (simp add: sm_inv_def tables_wf_def keys_ok_def T tbl_wf_map)
qed

lemma reachable_inv: "reachable H db \<Longrightarrow> sm_inv db"
  by (induction rule: reachable.induct)
    (auto intro: sm_inv_empty sm_inv_apply_command sm_inv_restore)

end
