(* ===== verification/Sm_Lifecycle.thy ===== *)
theory Sm_Lifecycle
  imports Sm_Invariant
begin

text \<open>
  The claim lifecycle as a contract and the refinement of that contract by the handlers:
  which command may change a claim record, from which status, by which instance and at which
  time. \<open>claim_transition\<close> is the abstract step relation on one claim; the handler lemmas give
  the claim rows after every command.
\<close>

section \<open>The abstract lifecycle\<close>

inductive claim_transition ::
  "uuid \<Rightarrow> consensus_command \<Rightarrow> claim_record option \<Rightarrow> claim_record option \<Rightarrow> bool" where
  stutter: "claim_transition c cmd r r"
| acquire: "s < e \<Longrightarrow> claim_transition c (ClaimRowRange b s e c i ttl now) old
     (Some \<lparr>cl_batch_id = b, cl_row_range_start = s, cl_row_range_end = e,
        cl_instance_id = uuid_bytes i, cl_lease_expires_at = now + ttl, cl_status = Claimed\<rparr>)"
| renew: "cl_status r = Claimed \<Longrightarrow> cl_instance_id r = uuid_bytes i \<Longrightarrow>
     now \<le> cl_lease_expires_at r \<Longrightarrow>
     claim_transition c (RenewClaim c i ttl now) (Some r)
       (Some (r\<lparr>cl_lease_expires_at := max (cl_lease_expires_at r) (now + ttl)\<rparr>))"
| ack: "cl_status r = Claimed \<Longrightarrow> cl_instance_id r = uuid_bytes i \<Longrightarrow>
     claim_transition c (AckClaim c i) (Some r)
       (Some (r\<lparr>cl_status := Completed, cl_lease_expires_at := 0\<rparr>))"
| release: "cl_status r = Claimed \<Longrightarrow> cl_instance_id r = uuid_bytes i \<Longrightarrow>
     claim_transition c (ReleaseClaim c i) (Some r)
       (Some (r\<lparr>cl_status := Pending, cl_lease_expires_at := 0,
          cl_instance_id := replicate 16 0\<rparr>))"
| expire: "cl_status r = Claimed \<Longrightarrow> cl_lease_expires_at r < now \<Longrightarrow>
     claim_transition c (ReclaimExpired now) (Some r)
       (Some (r\<lparr>cl_status := Pending, cl_lease_expires_at := 0\<rparr>))"

inductive_cases claim_transition_elim: "claim_transition c cmd old new"
inductive_simps claim_transition_completed:
  "claim_transition c cmd (Some (r\<lparr>cl_status := Completed\<rparr>)) new"

section \<open>Claim rows after each handler\<close>

lemma read_claim_eq: "read_claim db c = claim_of db (uuid_bytes c)"
  by (simp add: read_claim_def claim_of_def split: option.splits)

lemma claim_of_cong: "rd (claims db') = rd (claims db) \<Longrightarrow> claim_of db' = claim_of db"
  by (simp add: claim_of_def fun_eq_iff)

lemma register_claims [simp]:
  "claims (snd (apply_register_master_batch db b cmp sch ipc rows now)) = claims db"
  "claims_by_batch (snd (apply_register_master_batch db b cmp sch ipc rows now)) = claims_by_batch db"
  by (simp_all add: apply_register_master_batch_def Let_def)

lemma poison_claims [simp]:
  "claims (snd (apply_poison_batch db b now)) = claims db"
  "claims_by_batch (snd (apply_poison_batch db b now)) = claims_by_batch db"
  by (simp_all add: apply_poison_batch_def Let_def split: option.splits)

lemma heartbeat_claims [simp]:
  "claims (snd (apply_heartbeat db i at)) = claims db"
  "claims_by_batch (snd (apply_heartbeat db i at)) = claims_by_batch db"
  "master_batches (snd (apply_heartbeat db i at)) = master_batches db"
  "pending_batches (snd (apply_heartbeat db i at)) = pending_batches db"
  by (simp_all add: apply_heartbeat_def)

lemma claim_of_frame [simp]:
  "claim_of (snd (apply_register_master_batch db b cmp sch ipc rows now)) = claim_of db"
  "claim_of (snd (apply_poison_batch db b now)) = claim_of db"
  "claim_of (snd (apply_heartbeat db i at)) = claim_of db"
  "claim_of (snd (apply_checkpoint H db c s ipc sch now)) = claim_of db"
  "claim_of (increment_release_attempts b db) = claim_of db"
  "claim_of (reset_release_attempts b db) = claim_of db"
  by (simp_all add: claim_of_def fun_eq_iff)

lemma claim_of_pending [simp]:
  "claim_of (db\<lparr>pending_batches := p\<rparr>) = claim_of db"
  "claim_of (db\<lparr>claims := Some (rd (claims db))\<rparr>) = claim_of db"
  by (simp_all add: claim_of_def fun_eq_iff)

text \<open>The three handlers that act on one claim: either nothing, or the guarded update.\<close>

lemma claim_of_claim:
  assumes "tbl_wf (rd (claims db))"
  shows "claim_of (snd (apply_claim_row_range db b s e c i ttl now)) = claim_of db \<or>
    s < e \<and> claim_of (snd (apply_claim_row_range db b s e c i ttl now)) =
      (claim_of db)(uuid_bytes c \<mapsto>
        \<lparr>cl_batch_id = b, cl_row_range_start = s, cl_row_range_end = e,
         cl_instance_id = uuid_bytes i, cl_lease_expires_at = now + ttl, cl_status = Claimed\<rparr>)"
  by (auto simp: apply_claim_row_range_def Let_def fun_eq_iff claim_of_put_claim [OF assms]
      split: option.splits sum.splits bool.splits)

lemma claim_of_renew:
  assumes "tbl_wf (rd (claims db))"
  shows "claim_of (snd (apply_renew_claim db c i ttl now)) =
    (case claim_of db (uuid_bytes c) of
       None \<Rightarrow> claim_of db
     | Some r \<Rightarrow> if cl_status r = Claimed \<and> cl_instance_id r = uuid_bytes i \<and>
          now \<le> cl_lease_expires_at r
        then (claim_of db)(uuid_bytes c \<mapsto>
          r\<lparr>cl_lease_expires_at := max (cl_lease_expires_at r) (now + ttl)\<rparr>)
        else claim_of db)"
  by (auto simp: apply_renew_claim_def Let_def fun_eq_iff claim_of_def not_less
      tbl_get_insert_apply [OF assms] split: option.splits)

lemma claim_of_release:
  assumes "tbl_wf (rd (claims db))"
  shows "claim_of (snd (apply_release_claim db c i)) =
    (case claim_of db (uuid_bytes c) of
       None \<Rightarrow> claim_of db
     | Some r \<Rightarrow> if cl_status r = Claimed \<and> cl_instance_id r = uuid_bytes i
        then (claim_of db)(uuid_bytes c \<mapsto> r\<lparr>cl_status := Pending, cl_lease_expires_at := 0,
          cl_instance_id := replicate 16 0\<rparr>)
        else claim_of db)"
  using claim_of_put_claim [OF assms]
  by (auto simp: apply_release_claim_def Let_def fun_eq_iff claim_of_def [of db]
      split: option.splits)

lemma ack_eq:
  assumes inv: "sm_inv db" and r: "claim_of db (uuid_bytes c) = Some r"
    and ok: "cl_status r = Claimed" "cl_instance_id r = uuid_bytes i"
  defines "db1 \<equiv> put_claim (uuid_bytes c) (r\<lparr>cl_status := Completed, cl_lease_expires_at := 0\<rparr>) db"
  shows "apply_ack_claim db c i = (Inr ClaimAcked, reset_release_attempts (cl_batch_id r)
    (if \<forall>c' s e st. entry_of db1 (cl_batch_id r) c' = Some (s, e, st) \<longrightarrow> st = Completed
     then db1\<lparr>pending_batches := Some (tbl_remove (cl_batch_id r) (rd (pending_batches db)))\<rparr>
     else db1))"
proof -
  have "sm_inv db1"
    unfolding db1_def using ok by (intro sm_inv_put_existing [OF inv r]) simp_all
  note scan = all_complete_scan_idx [OF sm_invD(3) [OF this], of "cl_batch_id r", folded entry_of_def]
  have "rd (pending_batches db1) = rd (pending_batches db)" by (simp add: db1_def)
  then show ?thesis
    using r ok scan
    by (auto simp: apply_ack_claim_def Let_def claim_of_def [of db] simp flip: db1_def)
qed

lemma ack_guard:
  "\<not> (\<exists>r. claim_of db (uuid_bytes c) = Some r \<and> cl_status r = Claimed \<and>
      cl_instance_id r = uuid_bytes i) \<Longrightarrow>
   snd (apply_ack_claim db c i) = db\<lparr>claims := Some (rd (claims db))\<rparr>"
  by (auto simp: apply_ack_claim_def Let_def claim_of_def split: option.splits)

lemma claim_of_ack:
  assumes inv: "sm_inv db"
  shows "claim_of (snd (apply_ack_claim db c i)) =
    (case claim_of db (uuid_bytes c) of
       None \<Rightarrow> claim_of db
     | Some r \<Rightarrow> if cl_status r = Claimed \<and> cl_instance_id r = uuid_bytes i
        then (claim_of db)(uuid_bytes c \<mapsto> r\<lparr>cl_status := Completed, cl_lease_expires_at := 0\<rparr>)
        else claim_of db)"
proof (cases "\<exists>r. claim_of db (uuid_bytes c) = Some r \<and> cl_status r = Claimed \<and>
      cl_instance_id r = uuid_bytes i")
  case True
  then obtain r where r: "claim_of db (uuid_bytes c) = Some r" "cl_status r = Claimed"
    "cl_instance_id r = uuid_bytes i" by blast
  show ?thesis
    using r claim_of_put_claim [OF sm_inv_wf [OF inv]]
    by (simp add: ack_eq [OF inv r] fun_eq_iff)
next
  case False
  then show ?thesis using ack_guard [OF False] by (auto split: option.splits)
qed

section \<open>The sweep of expired leases\<close>

definition lease_expired :: "u64 \<Rightarrow> claim_record \<Rightarrow> bool" where
  "lease_expired now r \<longleftrightarrow> cl_status r = Claimed \<and> cl_lease_expires_at r < now"

definition expired_rows :: "database \<Rightarrow> u64 \<Rightarrow> (bytes \<times> claim_record) list" where
  "expired_rows db now = filter (\<lambda>(k, r). lease_expired now r) (tbl_iter (rd (claims db)))"

lemma expired_rows_props:
  assumes "sm_inv db"
  shows "distinct (map fst (expired_rows db now))"
    "(k, r) \<in> set (expired_rows db now) \<longleftrightarrow> claim_of db k = Some r \<and> lease_expired now r"
  using assms tbl.rows_distinct [OF sm_inv_wf [OF assms]]
  by (auto simp: expired_rows_def claim_of_def tbl.rows_get sm_inv_wf distinct_map_filter)

lemma reclaim_eq:
  assumes inv: "sm_inv db"
  shows "fst (apply_reclaim_expired db now) =
      Inr (ExpiredReclaimed (word_of_nat (length (expired_rows db now))))"
    "snd (apply_reclaim_expired db now) =
      fold increment_release_attempts (map (\<lambda>e. cl_batch_id (snd e)) (expired_rows db now))
        (fold reclaim_one (expired_rows db now) db)"
  using sm_inv_collect [OF inv, of now]
  by (cases "claims db"; simp add: apply_reclaim_expired_def Let_def expired_rows_def
      lease_expired_def tbl_iter_def)+

lemma claim_of_fold_increment [simp]:
  "claim_of (fold increment_release_attempts bs db) = claim_of db"
  by (induction bs arbitrary: db) auto

lemma claim_of_fold_reclaim:
  "sm_inv db \<Longrightarrow> distinct (map fst es) \<Longrightarrow> \<forall>(k, r) \<in> set es. claim_of db k = Some r \<Longrightarrow>
   claim_of (fold reclaim_one es db) x =
     (case map_of es x of
        Some r \<Rightarrow> Some (r\<lparr>cl_status := Pending, cl_lease_expires_at := 0\<rparr>)
      | None \<Rightarrow> claim_of db x)"
proof (induction es arbitrary: db)
  case Nil
  then show ?case by simp
next
  case (Cons e es)
  have e: "claim_of db (fst e) = Some (snd e)" using Cons.prems by auto
  have inv: "sm_inv (reclaim_one e db)"
    unfolding reclaim_one_def by (rule sm_inv_put_existing [OF Cons.prems(1) e]) simp_all
  have step: "claim_of (reclaim_one e db) k = (if k = fst e
      then Some (snd e\<lparr>cl_status := Pending, cl_lease_expires_at := 0\<rparr>) else claim_of db k)" for k
    using claim_of_put_claim [OF sm_inv_wf [OF Cons.prems(1)]] by (simp add: reclaim_one_def)
  have "\<forall>(k, r) \<in> set es. claim_of (reclaim_one e db) k = Some r"
    using Cons.prems by (force simp: step)
  moreover have "map_of es (fst e) = None" using Cons.prems(2) by (simp add: map_of_eq_None_iff)
  ultimately show ?case using Cons.IH [OF inv] Cons.prems(2)
    by (auto simp: step split: option.splits)
qed

lemma claim_of_reclaim:
  assumes inv: "sm_inv db"
  shows "claim_of (snd (apply_reclaim_expired db now)) x =
    (case claim_of db x of
       None \<Rightarrow> None
     | Some r \<Rightarrow> Some (if lease_expired now r
         then r\<lparr>cl_status := Pending, cl_lease_expires_at := 0\<rparr> else r))"
proof -
  note E = expired_rows_props [OF inv, where now = now]
  have "map_of (expired_rows db now) x = Some r \<longleftrightarrow> claim_of db x = Some r \<and> lease_expired now r" for r
    by (simp only: map_of_eq_Some_iff [OF E(1)] E(2))
  note iff = this
  have M: "map_of (expired_rows db now) x = (case claim_of db x of None \<Rightarrow> None
      | Some r \<Rightarrow> if lease_expired now r then Some r else None)"
  proof (cases "map_of (expired_rows db now) x")
    case None
    then show ?thesis using iff by (cases "claim_of db x") auto
  next
    case (Some r)
    then show ?thesis using iff [of r] by simp
  qed
  have "\<forall>(k, r) \<in> set (expired_rows db now). claim_of db k = Some r" by (auto simp: E(2))
  from claim_of_fold_reclaim [OF inv E(1) this, of x] show ?thesis
    unfolding reclaim_eq(2) [OF inv] claim_of_fold_increment M
    by (cases "claim_of db x") simp_all
qed

text \<open>Sweeping and releasing count once per claim against the owning batch, up to saturation.\<close>

lemma batch_of_fold_reclaim [simp]: "master_batches (fold reclaim_one es db) = master_batches db"
  by (induction es arbitrary: db) (auto simp: reclaim_one_def)

lemma batch_of_fold_increment:
  "tbl_wf (rd (master_batches db)) \<Longrightarrow> batch_of db b = Some r \<Longrightarrow>
   \<exists>r'. batch_of (fold increment_release_attempts bs db) b = Some r' \<and>
     mb_status r' = mb_status r \<and>
     unat (mb_release_attempts r') =
       min (unat (mb_release_attempts r) + count_list bs b) (2 ^ 32 - 1)"
proof (induction bs arbitrary: db r)
  case Nil
  have "unat (mb_release_attempts r) < 2 ^ 32" using unsigned_less [of "mb_release_attempts r"] by simp
  with Nil show ?case by simp
next
  case (Cons x bs)
  let ?db = "increment_release_attempts x db"
  let ?r = "if x = b then r\<lparr>mb_release_attempts := u32_saturating_inc (mb_release_attempts r)\<rparr> else r"
  have "batch_of ?db b = Some ?r" using Cons.prems by (auto simp: batch_of_increment)
  from Cons.IH [OF wf_increment_release_attempts [OF Cons.prems(1)] this] obtain r' where
    "batch_of (fold increment_release_attempts bs ?db) b = Some r'" "mb_status r' = mb_status ?r"
    "unat (mb_release_attempts r') =
       min (unat (mb_release_attempts ?r) + count_list bs b) (2 ^ 32 - 1)" by blast
  then show ?case by (auto simp: unat_u32_saturating_inc)
qed

section \<open>Refinement of the lifecycle\<close>

lemma lifecycle_refined:
  assumes inv: "sm_inv db"
  shows "claim_transition c cmd (claim_of db (uuid_bytes c))
    (claim_of (snd (apply_command H db cmd)) (uuid_bytes c))"
proof (cases cmd)
  case (ClaimRowRange b s e c' i ttl now)
  then show ?thesis
    using claim_of_claim [OF sm_inv_wf [OF inv], of b s e c' i ttl now]
    by (auto intro: claim_transition.intros)
next
  case (RenewClaim c' i ttl now)
  then show ?thesis by (auto simp: claim_of_renew [OF sm_inv_wf [OF inv]] split: option.splits
      intro: claim_transition.intros)
next
  case (AckClaim c' i)
  then show ?thesis by (auto simp: claim_of_ack [OF inv] split: option.splits
      intro: claim_transition.intros)
next
  case (ReleaseClaim c' i)
  then show ?thesis by (auto simp: claim_of_release [OF sm_inv_wf [OF inv]] split: option.splits
      intro: claim_transition.intros)
next
  case (ReclaimExpired now)
  then show ?thesis by (auto simp: claim_of_reclaim [OF inv] lease_expired_def split: option.splits
      intro: claim_transition.intros)
qed (auto intro: claim_transition.stutter)

end
