(* ===== verification/Sm_Properties.thy ===== *)
theory Sm_Properties
  imports Sm_Lifecycle "HOL-Library.Code_Target_Numeral"
begin

text \<open>
  Properties of acquiring a claim: exclusive ownership of row ranges, exactness of the overlap
  scan, the complete outcome of \<^verbatim>\<open>ClaimRowRange\<close> and its idempotent replay. Each is stated for the
  states a replica can reach; the witnesses run concrete command sequences.
\<close>

section \<open>Concrete instances for the witnesses\<close>

text \<open>The 64-bit FNV-1a hash, as an instance of the hasher parameter.\<close>

unbundle bit_operations_syntax

definition fnv1a :: hasher where
  "fnv1a = \<lparr>hs_default = 14695981039346656037,
     hs_write = foldl (\<lambda>h b. (h XOR ucast b) * 1099511628211), hs_finish = (\<lambda>h. h)\<rparr>"

abbreviation demo_register :: consensus_command where
  "demo_register \<equiv> RegisterMasterBatch 7 ''c'' 1 [1, 2] 10 100"

abbreviation demo_claim :: consensus_command where
  "demo_claim \<equiv> ClaimRowRange 7 0 4 1 9 50 100"

abbreviation demo_claim2 :: consensus_command where
  "demo_claim2 \<equiv> ClaimRowRange 7 4 10 2 9 50 100"

definition demo_db :: database where
  "demo_db = run_commands fnv1a empty_database [demo_register, demo_claim, demo_claim2]"

text \<open>The tables of \<open>demo_db\<close> written out; the witnesses evaluate from here.\<close>

lemma demo_db_code [code]:
  "demo_db = \<lparr>master_batches = Some [(7, \<lparr>mb_batch_id = 7, mb_component = ''c'', mb_schema_id = 1,
       mb_ipc_bytes = [1, 2], mb_total_rows = 10, mb_created_at = 100, mb_checkpoint_seq = 0,
       mb_release_attempts = 0, mb_status = Active, mb_poisoned_at = None\<rparr>)],
     claims = Some
       [(uuid_bytes 1, \<lparr>cl_batch_id = 7, cl_row_range_start = 0, cl_row_range_end = 4,
           cl_instance_id = uuid_bytes 9, cl_lease_expires_at = 150, cl_status = Claimed\<rparr>),
        (uuid_bytes 2, \<lparr>cl_batch_id = 7, cl_row_range_start = 4, cl_row_range_end = 10,
           cl_instance_id = uuid_bytes 9, cl_lease_expires_at = 150, cl_status = Claimed\<rparr>)],
     claims_by_batch = Some
       [(claims_by_batch_key 7 (uuid_bytes 1), claims_by_batch_value 0 4 Claimed),
        (claims_by_batch_key 7 (uuid_bytes 2), claims_by_batch_value 4 10 Claimed)],
     checkpoints = None, instances = None, pending_batches = Some [(7, ())], sm_meta = None\<rparr>"
  by code_simp

lemma demo_reachable: "reachable fnv1a demo_db"
  unfolding demo_db_def by (intro reachable_run reachable.init)

section \<open>Exclusive ownership\<close>

text \<open>
  C1. Two distinct claims of one batch that are both active (claimed or completed) never share
  a row, in any state reached by applying commands and installing snapshots.
\<close>

theorem active_claims_exclusive:
  assumes "reachable H db" "c \<noteq> c'"
    and "read_claim db c = Some r" "read_claim db c' = Some r'"
    and "cl_batch_id r = cl_batch_id r'" "cl_status r \<noteq> Pending" "cl_status r' \<noteq> Pending"
  shows "\<not> (cl_row_range_start r \<le> row \<and> row < cl_row_range_end r \<and>
            cl_row_range_start r' \<le> row \<and> row < cl_row_range_end r')"
proof -
  have inv: "sm_inv db" using assms(1) by (rule reachable_inv)
  have act: "active (cl_status r)" "active (cl_status r')"
    using assms(6,7) by (cases "cl_status r"; cases "cl_status r'"; simp)+
  have "\<not> (cl_row_range_start r < cl_row_range_end r' \<and> cl_row_range_start r' < cl_row_range_end r)"
    using claim_entry [OF inv, of "uuid_bytes c" r] claim_entry [OF inv, of "uuid_bytes c'" r']
      sm_invD(6) [OF inv] assms(2-5) act
    unfolding active_disjoint_def read_claim_eq by (metis uuid_bytes_eq)
  then show ?thesis by (meson le_less_trans)
qed

theorem active_claims_exclusive_witness:
  "\<not> (0 \<le> (3 :: u32) \<and> (3 :: u32) < 4 \<and> 4 \<le> (3 :: u32) \<and> (3 :: u32) < 10) \<and>
   read_claim demo_db 1 \<noteq> None \<and> read_claim demo_db 2 \<noteq> None"
proof -
  define r where "r = \<lparr>cl_batch_id = 7, cl_row_range_start = 0, cl_row_range_end = 4,
    cl_instance_id = uuid_bytes 9, cl_lease_expires_at = 150, cl_status = Claimed\<rparr>"
  define r' where "r' = \<lparr>cl_batch_id = 7, cl_row_range_start = 4, cl_row_range_end = 10,
    cl_instance_id = uuid_bytes 9, cl_lease_expires_at = 150, cl_status = Claimed\<rparr>"
  have "read_claim demo_db 1 = Some r" unfolding r_def by code_simp
  moreover have "read_claim demo_db 2 = Some r'" unfolding r'_def by code_simp
  ultimately show ?thesis
    using active_claims_exclusive [OF demo_reachable, of 1 2 r r' 3]
    by (simp add: r_def r'_def)
qed

text \<open>
  For a non-empty requested range, the overlap scan over the secondary index answers exactly
  whether some active index entry of the batch shares a row with it, and it never fails to decode
  a row.
\<close>

theorem has_batch_overlap_exact:
  assumes "reachable H db" and "rs < re"
  shows "has_batch_overlap (rd (claims_by_batch db)) b rs re =
    Inr (\<exists>c s e st row. entry_of db b c = Some (s, e, st) \<and> st \<noteq> Pending \<and>
      rs \<le> row \<and> row < re \<and> s \<le> row \<and> row < e)"
proof -
  have inv: "sm_inv db" using assms(1) by (rule reachable_inv)
  have act: "st \<noteq> Pending \<longleftrightarrow> active st" for st by (cases st) simp_all
  have shared: "(\<exists>row. rs \<le> row \<and> row < re \<and> s \<le> row \<and> row < e) \<longleftrightarrow> rs < e \<and> s < re"
    if "s < e" for s e :: u32
  proof
    assume "rs < e \<and> s < re"
    then show "\<exists>row. rs \<le> row \<and> row < re \<and> s \<le> row \<and> row < e"
      using assms(2) that by (intro exI [of _ "max rs s"]) (auto simp: max_def)
  qed (meson le_less_trans)
  have ne: "entry_of db b c = Some (s, e, st) \<Longrightarrow> s < e" for c s e st
    using sm_invD(5) [OF inv] unfolding ranges_ok_def by blast
  have "(\<exists>c s e st. entry_of db b c = Some (s, e, st) \<and> active st \<and> rs < e \<and> s < re) \<longleftrightarrow>
      (\<exists>c s e st row. entry_of db b c = Some (s, e, st) \<and> st \<noteq> Pending \<and>
         rs \<le> row \<and> row < re \<and> s \<le> row \<and> row < e)"
    by (metis act ne shared)
  then show ?thesis
    using has_batch_overlap_eq [OF sm_invD(3) [OF inv], of b rs re, folded entry_of_def] by simp
qed

theorem has_batch_overlap_exact_witness:
  "\<exists>c s e st row. entry_of demo_db 7 c = Some (s, e, st) \<and> st \<noteq> Pending \<and>
     3 \<le> row \<and> row < 5 \<and> s \<le> row \<and> row < e"
proof -
  have "has_batch_overlap (rd (claims_by_batch demo_db)) 7 3 5 = Inr True" by code_simp
  then show ?thesis using has_batch_overlap_exact [OF demo_reachable, of 3 5 7] by simp
qed

section \<open>Acquiring a claim\<close>

lemma claim_no_replay:
  assumes inv: "sm_inv db" and no_replay: "claim_replay db b s e c i = None"
  shows "apply_claim_row_range db b s e c i ttl now =
    (if e \<le> s then (Inr (Error (MsgInvalidRowRange s e)), db)
     else case read_master_batch db b of
       None \<Rightarrow> (Inr (Error (MsgBatchNotFound b)), db)
     | Some batch \<Rightarrow>
         if mb_total_rows batch < e
         then (Inr (Error (MsgRangeExceedsRows s e (mb_total_rows batch))), db)
         else if \<exists>c' s' e' st. entry_of db b c' = Some (s', e', st) \<and> st \<noteq> Pending \<and>
                s < e' \<and> s' < e
         then (Inr (Error (MsgRangeOverlaps s e)), db)
         else (Inr (BatchClaimed b (mb_component batch) s e (mb_schema_id batch) c i (now + ttl)),
               put_claim (uuid_bytes c)
                 \<lparr>cl_batch_id = b, cl_row_range_start = s, cl_row_range_end = e,
                  cl_instance_id = uuid_bytes i, cl_lease_expires_at = now + ttl,
                  cl_status = Claimed\<rparr> db))"
proof -
  have act: "active st \<longleftrightarrow> st \<noteq> Pending" for st by (cases st) simp_all
  define P where "P \<longleftrightarrow> (\<exists>c' s' e' st. entry_of db b c' = Some (s', e', st) \<and> st \<noteq> Pending \<and>
    s < e' \<and> s' < e)"
  note ov = has_batch_overlap_eq [OF sm_invD(3) [OF inv], of b s e, folded entry_of_def,
      unfolded act, folded P_def]
  have idx: "(case claims_by_batch db of Some t \<Rightarrow> has_batch_overlap t b s e | None \<Rightarrow> Inr False) =
      has_batch_overlap (rd (claims_by_batch db)) b s e"
    by (cases "claims_by_batch db")
      (simp_all add: has_batch_overlap_def batch_items_def tbl_range_def)
  show ?thesis
    unfolding apply_claim_row_range_def no_replay claim_precheck_def idx ov read_master_batch_def
      P_def [symmetric]
    by (cases P) (auto simp: Let_def split: option.splits)
qed

text \<open>
  C2. The complete outcome of \<^verbatim>\<open>ClaimRowRange\<close> with a claim id that is not stored: an empty range, an
  unknown batch, a range past the end of the batch and a conflict with an active entry are
  refused in this order and leave the database as it was; otherwise the claim is stored as
  \<^verbatim>\<open>Claimed\<close> with the lease \<^verbatim>\<open>now + ttl\<close>, in both tables at once.
\<close>

theorem claim_row_range_outcome:
  assumes "reachable H db" and "read_claim db c = None"
  shows "apply_claim_row_range db b s e c i ttl now =
    (if e \<le> s then (Inr (Error (MsgInvalidRowRange s e)), db)
     else case read_master_batch db b of
       None \<Rightarrow> (Inr (Error (MsgBatchNotFound b)), db)
     | Some batch \<Rightarrow>
         if mb_total_rows batch < e
         then (Inr (Error (MsgRangeExceedsRows s e (mb_total_rows batch))), db)
         else if \<exists>c' s' e' st. entry_of db b c' = Some (s', e', st) \<and> st \<noteq> Pending \<and>
                s < e' \<and> s' < e
         then (Inr (Error (MsgRangeOverlaps s e)), db)
         else (Inr (BatchClaimed b (mb_component batch) s e (mb_schema_id batch) c i (now + ttl)),
               put_claim (uuid_bytes c)
                 \<lparr>cl_batch_id = b, cl_row_range_start = s, cl_row_range_end = e,
                  cl_instance_id = uuid_bytes i, cl_lease_expires_at = now + ttl,
                  cl_status = Claimed\<rparr> db))"
proof (rule claim_no_replay [OF reachable_inv [OF assms(1)]])
  show "claim_replay db b s e c i = None"
    using assms(2) by (cases "claims db") (simp_all add: claim_replay_def read_claim_def)
qed

theorem claim_row_range_outcome_witness:
  "apply_claim_row_range demo_db 8 0 1 3 9 50 100 = (Inr (Error (MsgBatchNotFound 8)), demo_db)"
proof -
  have "read_claim demo_db 3 = None" "read_master_batch demo_db 8 = None" by code_simp+
  then show ?thesis
    using claim_row_range_outcome [OF demo_reachable, of 3 8 0 1 9 50 100] by simp
qed

text \<open>
  Replaying a successful \<^verbatim>\<open>ClaimRowRange\<close>, whatever the time and the lease of the second
  proposal, returns the response of the first and changes nothing.
\<close>

theorem claim_replay_idempotent:
  assumes "reachable H db"
    and "apply_claim_row_range db b s e c i ttl now = (Inr (BatchClaimed b' cmp s' e' sch c' i' lease), db')"
  shows "apply_claim_row_range db' b s e c i ttl' now' =
    (Inr (BatchClaimed b' cmp s' e' sch c' i' lease), db')"
proof -
  have inv: "sm_inv db" using assms(1) by (rule reachable_inv)
  show ?thesis
  proof (cases "claim_replay db b s e c i")
    case (Some early)
    then show ?thesis using assms(2) by (auto simp: apply_claim_row_range_def split: if_splits)
  next
    case None
    note out = claim_no_replay [OF inv None, of ttl now] assms(2)
    obtain batch where batch: "read_master_batch db b = Some batch"
      using out by (cases "read_master_batch db b") (simp_all split: if_splits)
    then obtain t where t: "master_batches db = Some t" "tbl_get t b = Some batch"
      by (auto simp: read_master_batch_def split: option.splits)
    have eqs: "s < e" "b' = b" "cmp = mb_component batch" "s' = s" "e' = e"
      "sch = mb_schema_id batch" "c' = c" "i' = i" "lease = now + ttl"
      and db': "db' = put_claim (uuid_bytes c)
         \<lparr>cl_batch_id = b, cl_row_range_start = s, cl_row_range_end = e,
          cl_instance_id = uuid_bytes i, cl_lease_expires_at = now + ttl, cl_status = Claimed\<rparr> db"
      using out unfolding batch by (auto split: if_splits)
    have "claim_replay db' b s e c i = Some (Inr (BatchClaimed b cmp s e sch c i lease))"
      using t sm_inv_wf [OF inv] unfolding eqs
      by (simp add: db' claim_replay_def put_claim_def tbl_get_insert_apply)
    then show ?thesis using eqs by (simp add: apply_claim_row_range_def)
  qed
qed

theorem claim_replay_idempotent_witness:
  "\<exists>db'. apply_claim_row_range demo_db 7 0 4 1 9 1 999 =
     (Inr (BatchClaimed 7 ''c'' 0 4 1 1 9 150), db')"
proof -
  have "apply_claim_row_range demo_db 7 0 4 1 9 50 100 =
      (Inr (BatchClaimed 7 ''c'' 0 4 1 1 9 150),
       snd (apply_claim_row_range demo_db 7 0 4 1 9 50 100))" by code_simp
  moreover have "snd (apply_claim_row_range demo_db 7 0 4 1 9 50 100) = demo_db" by code_simp
  ultimately have "apply_claim_row_range demo_db 7 0 4 1 9 50 100 =
      (Inr (BatchClaimed 7 ''c'' 0 4 1 1 9 150), demo_db)" by simp
  from claim_replay_idempotent [OF demo_reachable this, of 1 999] show ?thesis by blast
qed

end
