(* ===== verification/Sm_Lease_Properties.thy ===== *)
theory Sm_Lease_Properties
  imports Sm_Properties
begin

text \<open>
  Properties of a held claim: the lifecycle contract, renewal, acknowledgement, release and the
  sweep of expired leases with its effect on the \<^verbatim>\<open>release_attempts\<close> of the owning batch.
\<close>

section \<open>The lifecycle contract\<close>

text \<open>
  C3. Whatever command is applied, the record of a claim changes only as the lifecycle allows: it
  is acquired by \<^verbatim>\<open>ClaimRowRange\<close> with its own id, renewed, completed or released only while
  \<^verbatim>\<open>Claimed\<close> and only by its holder (renewal also before expiry), and swept only after its lease
  has expired.
\<close>

theorem command_refines_lifecycle:
  assumes "reachable H db"
  shows "claim_transition c cmd (read_claim db c) (read_claim (snd (apply_command H db cmd)) c)"
  unfolding read_claim_eq by (rule lifecycle_refined [OF reachable_inv [OF assms]])

theorem command_refines_lifecycle_witness:
  "claim_transition 1 (ReclaimExpired 151) (read_claim demo_db 1)
     (read_claim (snd (apply_command fnv1a demo_db (ReclaimExpired 151))) 1)"
  by (rule command_refines_lifecycle [OF demo_reachable])

definition acquires :: "uuid \<Rightarrow> consensus_command \<Rightarrow> bool" where
  "acquires c cmd = (case cmd of ClaimRowRange b s e c' i ttl now \<Rightarrow> c' = c | _ \<Rightarrow> False)"

text \<open>
  C4. Completion is final: no sequence of commands that does not propose the claim id again
  changes the record of a completed claim.
\<close>

theorem completed_claim_final:
  assumes "reachable H db" and "read_claim db c = Some r" "cl_status r = Completed"
    and "\<forall>cmd \<in> set cmds. \<not> acquires c cmd"
  shows "read_claim (run_commands H db cmds) c = Some r"
  using assms
proof (induction cmds arbitrary: db)
  case Nil
  then show ?case by simp
next
  case (Cons cmd cmds)
  have "claim_transition c cmd (Some r) (read_claim (snd (apply_command H db cmd)) c)"
    using lifecycle_refined [OF reachable_inv [OF Cons.prems(1)], of c cmd H] Cons.prems(2)
    by (simp add: read_claim_eq)
  then have "read_claim (snd (apply_command H db cmd)) c = Some r"
    by (rule claim_transition_elim) (use Cons.prems(3,4) in \<open>auto simp: acquires_def\<close>)
  then show ?case
    using Cons.IH [of "snd (apply_command H db cmd)"] Cons.prems by (simp add: reachable.step)
qed

theorem completed_claim_final_witness:
  "\<exists>r. read_claim (run_commands fnv1a (run_commands fnv1a demo_db [AckClaim 1 9])
     [ReleaseClaim 1 9, ReclaimExpired 999, RenewClaim 1 9 50 100]) 1 = Some r"
proof -
  have "read_claim (run_commands fnv1a demo_db [AckClaim 1 9]) 1 =
      Some \<lparr>cl_batch_id = 7, cl_row_range_start = 0, cl_row_range_end = 4,
        cl_instance_id = uuid_bytes 9, cl_lease_expires_at = 0, cl_status = Completed\<rparr>"
    by code_simp
  from completed_claim_final [OF reachable_run [OF demo_reachable] this, of
      "[ReleaseClaim 1 9, ReclaimExpired 999, RenewClaim 1 9 50 100]"]
  show ?thesis by (auto simp: acquires_def)
qed

section \<open>Renewal\<close>

text \<open>
  \<^verbatim>\<open>RenewClaim\<close> succeeds exactly when the claim is \<^verbatim>\<open>Claimed\<close>, held by the proposing instance and
  not past its lease at the proposed time. It then sets the lease to the later of the old lease
  and \<^verbatim>\<open>now + ttl\<close>, so it never shortens one, and changes no other claim.
\<close>

theorem renew_claim_outcome:
  assumes "reachable H db" "apply_renew_claim db c i ttl now = (res, db')"
  shows "((\<exists>t. res = Inr (ClaimRenewed t)) \<longleftrightarrow>
      (\<exists>r. read_claim db c = Some r \<and> cl_status r = Claimed \<and> cl_instance_id r = uuid_bytes i \<and>
         now \<le> cl_lease_expires_at r)) \<and>
    (\<forall>t. res = Inr (ClaimRenewed t) \<longrightarrow>
      (\<exists>r. read_claim db c = Some r \<and> t = max (cl_lease_expires_at r) (now + ttl) \<and>
         read_claim db' c = Some (r\<lparr>cl_lease_expires_at := t\<rparr>))) \<and>
    (\<forall>c'. c' \<noteq> c \<longrightarrow> read_claim db' c' = read_claim db c')"
proof (intro conjI allI impI)
  note R = claim_of_renew [OF sm_inv_wf [OF reachable_inv [OF assms(1)]], of c i ttl now,
      unfolded assms(2) snd_conv]
  note D = assms(2) [unfolded apply_renew_claim_def Let_def, folded claim_of_def]
  show "(\<exists>t. res = Inr (ClaimRenewed t)) \<longleftrightarrow>
      (\<exists>r. read_claim db c = Some r \<and> cl_status r = Claimed \<and> cl_instance_id r = uuid_bytes i \<and>
         now \<le> cl_lease_expires_at r)"
    using D by (auto simp: read_claim_eq not_less split: option.splits if_splits)
  show "\<exists>r. read_claim db c = Some r \<and> t = max (cl_lease_expires_at r) (now + ttl) \<and>
         read_claim db' c = Some (r\<lparr>cl_lease_expires_at := t\<rparr>)" if "res = Inr (ClaimRenewed t)" for t
    using that D unfolding read_claim_eq R by (auto simp: not_less split: option.splits if_splits)
  show "read_claim db' c' = read_claim db c'" if "c' \<noteq> c" for c'
    using that unfolding read_claim_eq R by (auto split: option.splits)
qed

theorem renew_claim_outcome_witness:
  "read_claim (snd (apply_renew_claim demo_db 1 9 500 120)) 2 = read_claim demo_db 2 \<and>
   (\<exists>t. fst (apply_renew_claim demo_db 1 9 500 120) = Inr (ClaimRenewed t))"
proof -
  have "read_claim demo_db 1 = Some \<lparr>cl_batch_id = 7, cl_row_range_start = 0, cl_row_range_end = 4,
      cl_instance_id = uuid_bytes 9, cl_lease_expires_at = 150, cl_status = Claimed\<rparr>" by code_simp
  then show ?thesis
    using renew_claim_outcome [OF demo_reachable, of 1 9 500 120] by (simp add: prod_eq_iff)
qed

section \<open>Release and sweep\<close>

text \<open>
  After a sweep at time \<^verbatim>\<open>now\<close> no \<^verbatim>\<open>Claimed\<close> claim has a lease before \<^verbatim>\<open>now\<close>: exactly the expired
  claims are returned to \<^verbatim>\<open>Pending\<close>, every other claim is untouched, the response counts them, and
  the \<^verbatim>\<open>release_attempts\<close> of a batch grows by the number of its expired claims, saturating at
  \<^verbatim>\<open>u32::MAX\<close>.
\<close>

theorem reclaim_expired_exact:
  assumes "reachable H db" and "apply_reclaim_expired db now = (res, db')"
  shows "(\<forall>c. read_claim db' c = map_option (\<lambda>r. if lease_expired now r
        then r\<lparr>cl_status := Pending, cl_lease_expires_at := 0\<rparr> else r) (read_claim db c)) \<and>
    res = Inr (ExpiredReclaimed (word_of_nat (length (expired_rows db now)))) \<and>
    (\<forall>b r. read_master_batch db b = Some r \<longrightarrow>
      (\<exists>r'. read_master_batch db' b = Some r' \<and> mb_status r' = mb_status r \<and>
        unat (mb_release_attempts r') =
          min (unat (mb_release_attempts r) +
             length (filter (\<lambda>(k, cl). cl_batch_id cl = b) (expired_rows db now))) (2 ^ 32 - 1)))"
proof (intro conjI allI impI)
  have inv: "sm_inv db" using assms(1) by (rule reachable_inv)
  note E = reclaim_eq [OF inv, of now, unfolded assms(2) fst_conv snd_conv]
  show "read_claim db' c = map_option (\<lambda>r. if lease_expired now r
      then r\<lparr>cl_status := Pending, cl_lease_expires_at := 0\<rparr> else r) (read_claim db c)" for c
    using claim_of_reclaim [OF inv, of now "uuid_bytes c"] assms(2)
    by (simp add: read_claim_eq split: option.split)
  show "res = Inr (ExpiredReclaimed (word_of_nat (length (expired_rows db now))))"
    by (rule E(1))
  have cnt: "count_list (map (\<lambda>e. cl_batch_id (snd e)) es) b =
      length (filter (\<lambda>(k, cl). cl_batch_id cl = b) es)" for es :: "(bytes \<times> claim_record) list" and b
    by (induction es) auto
  fix b r
  let ?db1 = "fold reclaim_one (expired_rows db now) db"
  assume "read_master_batch db b = Some r"
  then have "tbl_wf (rd (master_batches ?db1))" "batch_of ?db1 b = Some r"
    using sm_inv_master_wf [OF inv] by (simp_all add: read_master_batch_eq batch_of_def)
  from batch_of_fold_increment [OF this, of "map (\<lambda>e. cl_batch_id (snd e)) (expired_rows db now)"]
  show "\<exists>r'. read_master_batch db' b = Some r' \<and> mb_status r' = mb_status r \<and>
      unat (mb_release_attempts r') =
        min (unat (mb_release_attempts r) +
             length (filter (\<lambda>(k, cl). cl_batch_id cl = b) (expired_rows db now))) (2 ^ 32 - 1)"
    by (simp add: read_master_batch_eq E(2) cnt)
qed

theorem reclaim_expired_exact_witness:
  "fst (apply_reclaim_expired demo_db 151) = Inr (ExpiredReclaimed 2)"
proof -
  have "length (expired_rows demo_db 151) = 2" by code_simp
  then show ?thesis
    using reclaim_expired_exact [OF demo_reachable, of 151] by (simp add: prod_eq_iff)
qed

text \<open>
  A successful \<^verbatim>\<open>ReleaseClaim\<close> was proposed by the holder of a \<^verbatim>\<open>Claimed\<close> claim; it returns the rows
  to \<^verbatim>\<open>Pending\<close>, clears the holder and the lease, counts one attempt against the batch, and a
  second release of the same claim is refused.
\<close>

theorem release_claim_outcome:
  assumes "reachable H db" and "apply_release_claim db c i = (Inr ClaimReleased, db')"
  shows "(\<exists>r. read_claim db c = Some r \<and> cl_status r = Claimed \<and> cl_instance_id r = uuid_bytes i \<and>
      read_claim db' c = Some (r\<lparr>cl_status := Pending, cl_lease_expires_at := 0,
        cl_instance_id := replicate 16 0\<rparr>) \<and>
      (\<forall>batch. read_master_batch db (cl_batch_id r) = Some batch \<longrightarrow>
         read_master_batch db' (cl_batch_id r) = Some (batch\<lparr>mb_release_attempts :=
           u32_saturating_inc (mb_release_attempts batch)\<rparr>))) \<and>
    fst (apply_release_claim db' c j) = Inr (Error (MsgClaimNotClaimed c))"
proof -
  have inv: "sm_inv db" using assms(1) by (rule reachable_inv)
  obtain r where r: "claim_of db (uuid_bytes c) = Some r" "cl_status r = Claimed"
    "cl_instance_id r = uuid_bytes i"
    and db': "db' = increment_release_attempts (cl_batch_id r) (put_claim (uuid_bytes c)
       (r\<lparr>cl_status := Pending, cl_lease_expires_at := 0, cl_instance_id := replicate 16 0\<rparr>) db)"
    using assms(2) by (auto simp: apply_release_claim_def Let_def claim_of_def
        split: option.splits if_splits)
  have now': "claim_of db' (uuid_bytes c) = Some (r\<lparr>cl_status := Pending, cl_lease_expires_at := 0,
        cl_instance_id := replicate 16 0\<rparr>)"
    using claim_of_put_claim [OF sm_inv_wf [OF inv]] by (simp add: db')
  have "read_master_batch db' (cl_batch_id r) = map_option (\<lambda>b. b\<lparr>mb_release_attempts :=
           u32_saturating_inc (mb_release_attempts b)\<rparr>) (read_master_batch db (cl_batch_id r))"
    using sm_inv_master_wf [OF inv] by (simp add: db' read_master_batch_eq batch_of_increment)
  moreover have "fst (apply_release_claim db' c j) = Inr (Error (MsgClaimNotClaimed c))"
    using now' by (simp add: apply_release_claim_def Let_def flip: claim_of_def)
  ultimately show ?thesis using r now' by (simp add: read_claim_eq)
qed

theorem release_claim_outcome_witness:
  "fst (apply_release_claim (snd (apply_release_claim demo_db 1 9)) 1 9) =
     Inr (Error (MsgClaimNotClaimed 1))"
proof -
  have "fst (apply_release_claim demo_db 1 9) = Inr ClaimReleased" by code_simp
  then show ?thesis
    using release_claim_outcome [OF demo_reachable, of 1 9 "snd (apply_release_claim demo_db 1 9)" 9]
    by (simp add: prod_eq_iff)
qed

section \<open>Acknowledgement and the pending index\<close>

text \<open>
  A successful \<^verbatim>\<open>AckClaim\<close> completes the holder's claim, resets the release counter of the batch
  and takes the batch off the pending index exactly when every index entry of the batch is then
  \<^verbatim>\<open>Completed\<close>; no other batch leaves or enters the pending index.
\<close>

theorem ack_claim_outcome:
  assumes "reachable H db" and "apply_ack_claim db c i = (Inr ClaimAcked, db')"
  shows "\<exists>r. read_claim db c = Some r \<and> cl_status r = Claimed \<and> cl_instance_id r = uuid_bytes i \<and>
    read_claim db' c = Some (r\<lparr>cl_status := Completed, cl_lease_expires_at := 0\<rparr>) \<and>
    (\<forall>x. is_pending db' x \<longleftrightarrow> is_pending db x \<and> \<not> (x = cl_batch_id r \<and>
       (\<forall>c' s e st. c' \<noteq> uuid_bytes c \<longrightarrow> entry_of db x c' = Some (s, e, st) \<longrightarrow> st = Completed))) \<and>
    (\<forall>batch. read_master_batch db (cl_batch_id r) = Some batch \<longrightarrow>
       read_master_batch db' (cl_batch_id r) = Some (batch\<lparr>mb_release_attempts := 0\<rparr>))"
proof -
  have inv: "sm_inv db" using assms(1) by (rule reachable_inv)
  obtain r where r: "claim_of db (uuid_bytes c) = Some r" "cl_status r = Claimed"
    "cl_instance_id r = uuid_bytes i"
    using assms(2) by (auto simp: apply_ack_claim_def Let_def claim_of_def
        split: option.splits if_splits)
  define db1 where "db1 = put_claim (uuid_bytes c) (r\<lparr>cl_status := Completed, cl_lease_expires_at := 0\<rparr>) db"
  define all_done where "all_done \<longleftrightarrow> (\<forall>c' s e st. entry_of db1 (cl_batch_id r) c' = Some (s, e, st) \<longrightarrow> st = Completed)"
  have db': "db' = reset_release_attempts (cl_batch_id r) (if all_done
     then db1\<lparr>pending_batches := Some (tbl_remove (cl_batch_id r) (rd (pending_batches db)))\<rparr>
     else db1)"
    using assms(2) ack_eq [OF inv r, folded db1_def, folded all_done_def] by simp
  have done_iff: "all_done \<longleftrightarrow> (\<forall>c' s e st. c' \<noteq> uuid_bytes c \<longrightarrow>
      entry_of db (cl_batch_id r) c' = Some (s, e, st) \<longrightarrow> st = Completed)"
    using entry_of_put_claim [OF sm_invD(3) [OF inv]] by (auto simp: all_done_def db1_def)
  have pend: "is_pending db' x \<longleftrightarrow> is_pending db x \<and> \<not> (x = cl_batch_id r \<and> all_done)" for x
    using sm_inv_pending_wf [OF inv] by (auto simp: db' is_pending_def db1_def tbl_simps)
  have "read_master_batch db' (cl_batch_id r) = map_option (\<lambda>b. b\<lparr>mb_release_attempts := 0\<rparr>)
      (read_master_batch db (cl_batch_id r))"
    using sm_inv_master_wf [OF inv]
    by (simp add: db' read_master_batch_eq batch_of_reset db1_def) (simp add: batch_of_def)
  moreover have "read_claim db' c = Some (r\<lparr>cl_status := Completed, cl_lease_expires_at := 0\<rparr>)"
    using claim_of_ack [OF inv, of c i] assms(2) r by (simp add: read_claim_eq)
  ultimately show ?thesis
    using r pend done_iff by (intro exI [of _ r]) (auto simp: read_claim_eq)
qed

theorem ack_claim_outcome_witness:
  "is_pending (snd (apply_ack_claim demo_db 1 9)) 7"
proof -
  let ?db' = "snd (apply_ack_claim demo_db 1 9)"
  have "fst (apply_ack_claim demo_db 1 9) = Inr ClaimAcked" by code_simp
  then have ack: "apply_ack_claim demo_db 1 9 = (Inr ClaimAcked, ?db')" by (simp add: prod_eq_iff)
  have "entry_of demo_db 7 (uuid_bytes 2) = Some (4, 10, Claimed)" "is_pending demo_db 7"
    by code_simp+
  moreover have "uuid_bytes 2 \<noteq> uuid_bytes 1" by simp
  ultimately show ?thesis
    using ack_claim_outcome [OF demo_reachable ack] by (metis claim_status.distinct(5))
qed

end
