(* ===== verification/Sm_Scan.thy ===== *)
theory Sm_Scan
  imports Sm_Lease_Properties
begin

text \<open>
  The scan that chooses the next claimable range: the gap walk over the occupied ranges, the scan
  of one batch and the scan over the pending index. The walk returns the first free rows, the
  scan of a reachable state never fails, and the range it returns can be claimed.
\<close>

section \<open>The gap walk\<close>

definition covered :: "(u32 \<times> u32) list \<Rightarrow> u32 \<Rightarrow> bool" where
  "covered rs row \<longleftrightarrow> (\<exists>(s, e) \<in> set rs. s \<le> row \<and> row < e)"

lemma covered_Cons [simp]: "covered ((s, e) # rs) row \<longleftrightarrow> (s \<le> row \<and> row < e) \<or> covered rs row"
  by (auto simp: covered_def)

lemma first_gap_Some:
  "sorted (map fst rs) \<Longrightarrow> first_gap tot cursor rs = Some (a, b) \<Longrightarrow>
   cursor \<le> a \<and> a < b \<and> (\<forall>row. cursor \<le> row \<and> row < a \<longrightarrow> covered rs row) \<and>
   (\<forall>(s, e) \<in> set rs. \<not> (a < e \<and> s < b)) \<and>
   ((\<forall>(s, e) \<in> set rs. s \<le> tot) \<longrightarrow> b \<le> tot)"
proof (induction tot cursor rs rule: first_gap.induct)
  case (1 tot cursor)
  then show ?case by (auto split: if_splits)
next
  case (2 tot cursor s e rest)
  show ?case
  proof (cases "cursor < s")
    case True
    then have ab: "a = cursor" "b = s" using 2(3) by auto
    have "\<forall>(s', e') \<in> set rest. s \<le> s'" using 2(2) by auto
    then show ?thesis using True ab by (auto simp: not_less)
  next
    case False
    let ?c = "if cursor < e then e else cursor"
    have "sorted (map fst rest)" "first_gap tot ?c rest = Some (a, b)"
      using 2(2,3) False by auto
    note IH = 2(1) [OF False this]
    have "cursor \<le> a" "e \<le> a" using IH by (auto split: if_splits)
    moreover have "covered ((s, e) # rest) row" if "cursor \<le> row" "row < a" for row
    proof (cases "?c \<le> row")
      case True
      then show ?thesis using IH that by simp
    next
      case c: False
      then have "row < e" using that by (auto split: if_splits)
      moreover have "s \<le> row" using False that by (meson leI order_trans)
      ultimately show ?thesis by simp
    qed
    ultimately show ?thesis using IH by auto
  qed
qed

lemma first_gap_None:
  "sorted (map fst rs) \<Longrightarrow> first_gap tot cursor rs = None \<Longrightarrow>
   cursor \<le> row \<Longrightarrow> row < tot \<Longrightarrow> covered rs row"
proof (induction tot cursor rs rule: first_gap.induct)
  case (1 tot cursor)
  then show ?case by (auto split: if_splits)
next
  case (2 tot cursor s e rest)
  have c: "\<not> cursor < s" using 2(3) by (auto split: if_splits)
  show ?case
  proof (cases "row < e")
    case True
    moreover have "s \<le> row" using c 2(4) by (meson leI order_trans)
    ultimately show ?thesis by simp
  next
    case False
    have "covered rest row"
      using 2 c False by (intro 2(1) [OF c]) (auto split: if_splits)
    then show ?thesis by simp
  qed
qed

text \<open>Beyond the rows a scan reports nothing: there is no gap before a covered row either.\<close>

lemma first_gap_None_below:
  "sorted (map fst rs) \<Longrightarrow> first_gap tot cursor rs = None \<Longrightarrow> cursor \<le> row \<Longrightarrow> row < row' \<Longrightarrow> covered rs row' \<Longrightarrow> covered rs row"
proof (induction tot cursor rs rule: first_gap.induct)
  case (2 tot cursor s e rest)
  have c: "\<not> cursor < s" using 2(3) by (auto split: if_splits)
  show ?case
  proof (cases "row < e")
    case True
    moreover have "s \<le> row" using c 2(4) by (meson leI order_trans)
    ultimately show ?thesis by simp
  next
    case False
    then have "covered rest row'" using 2(5,6) by auto
    then have "covered rest row" using 2 c False by (intro 2(1) [OF c]) (auto split: if_splits)
    then show ?thesis by simp
  qed
qed (simp add: covered_def)

lemma first_gap_start:
  "first_gap tot cursor rs = Some (a, b) \<Longrightarrow> a < tot \<and> b = tot \<or> (\<exists>e. (b, e) \<in> set rs)"
  by (induction tot cursor rs rule: first_gap.induct) (auto split: if_splits)

lemma first_gap_from_empty: "first_gap tot 0 [] = (if 0 < tot then Some (0, tot) else None)"
  by simp

section \<open>Occupied ranges of a batch\<close>

lemma occupied_ranges_eq:
  "\<forall>(k, v) \<in> set items. decode_claims_by_batch_value v \<noteq> None \<Longrightarrow>
   \<exists>rs. occupied_ranges items = Inr rs \<and>
     (\<forall>s e. (s, e) \<in> set rs \<longleftrightarrow>
        (\<exists>(k, v) \<in> set items. \<exists>t. decode_claims_by_batch_value v = Some t \<and>
           (case t of (s', e', st) \<Rightarrow> s' = s \<and> e' = e \<and> active st)))"
proof (induction items)
  case Nil
  then show ?case by simp
next
  case (Cons item items)
  obtain k v where item: "item = (k, v)" by (cases item)
  obtain s e st where d: "decode_claims_by_batch_value v = Some (s, e, st)"
    using Cons.prems item by auto
  from Cons obtain rs where rs: "occupied_ranges items = Inr rs"
    "\<forall>s e. (s, e) \<in> set rs \<longleftrightarrow>
        (\<exists>(k, v) \<in> set items. \<exists>t. decode_claims_by_batch_value v = Some t \<and>
           (case t of (s', e', st) \<Rightarrow> s' = s \<and> e' = e \<and> active st))" by auto
  show ?case
    by (rule exI [of _ "if active st then (s, e) # rs else rs"])
      (auto simp: item d rs active_def)
qed

lemma occupied_ranges_idx:
  assumes ok: "idx_ok idx"
  shows "\<exists>rs. occupied_ranges (batch_items idx b) = Inr rs \<and>
    (\<forall>s e. (s, e) \<in> set rs \<longleftrightarrow> (\<exists>c st. idx_entry idx b c = Some (s, e, st) \<and> active st))"
proof -
  have "\<forall>(k, v) \<in> set (batch_items idx b). decode_claims_by_batch_value v \<noteq> None"
    using batch_items_decode [OF ok] by auto
  from occupied_ranges_eq [OF this] obtain rs where rs: "occupied_ranges (batch_items idx b) = Inr rs"
    "\<And>s e. (s, e) \<in> set rs \<longleftrightarrow>
        (\<exists>(k, v) \<in> set (batch_items idx b). \<exists>t. decode_claims_by_batch_value v = Some t \<and>
           (case t of (s', e', st) \<Rightarrow> s' = s \<and> e' = e \<and> active st))" by auto
  have "(s, e) \<in> set rs \<longleftrightarrow> (\<exists>c st. idx_entry idx b c = Some (s, e, st) \<and> active st)" for s e
    using batch_items_entries [OF ok, of b "\<lambda>(s', e', st). s' = s \<and> e' = e \<and> active st"]
    unfolding rs(2) by auto
  with rs(1) show ?thesis by blast
qed

text \<open>A row is taken when an active index entry of the batch contains it.\<close>

definition row_taken :: "database \<Rightarrow> u64 \<Rightarrow> u32 \<Rightarrow> bool" where
  "row_taken db b row \<longleftrightarrow>
     (\<exists>c s e st. entry_of db b c = Some (s, e, st) \<and> active st \<and> s \<le> row \<and> row < e)"

lemma find_first_pending_claim_eq:
  assumes inv: "sm_inv db" and batch: "read_master_batch db b = Some r"
  shows "\<exists>rs. find_first_pending_claim db b = Inr (first_gap (mb_total_rows r) 0 (sort_key fst rs)) \<and>
    (\<forall>s e. (s, e) \<in> set rs \<longleftrightarrow> (\<exists>c st. entry_of db b c = Some (s, e, st) \<and> active st))"
proof -
  have idx: "(case claims_by_batch db of Some t \<Rightarrow> occupied_ranges (batch_items t b) | None \<Rightarrow> Inr [])
      = occupied_ranges (batch_items (rd (claims_by_batch db)) b)"
    by (cases "claims_by_batch db") (simp_all add: batch_items_def tbl_range_def)
  from occupied_ranges_idx [OF sm_invD(3) [OF inv], of b] obtain rs where
    rs: "occupied_ranges (batch_items (rd (claims_by_batch db)) b) = Inr rs"
      "\<forall>s e. (s, e) \<in> set rs \<longleftrightarrow> (\<exists>c st. idx_entry (rd (claims_by_batch db)) b c = Some (s, e, st) \<and> active st)"
    by blast
  have "find_first_pending_claim db b = Inr (first_gap (mb_total_rows r) 0 (sort_key fst rs))"
    unfolding find_first_pending_claim_def batch option.case idx rs by (cases rs) auto
  with rs(2) show ?thesis unfolding entry_of_def by blast
qed

lemma covered_taken:
  "\<forall>s e. (s, e) \<in> set rs \<longleftrightarrow> (\<exists>c st. entry_of db b c = Some (s, e, st) \<and> active st) \<Longrightarrow>
   covered (sort_key fst rs) row \<longleftrightarrow> row_taken db b row"
  unfolding covered_def row_taken_def set_sort Bex_def split_paired_Ex case_prod_conv by metis

lemma sorted_sort_fst: "sorted (map fst (sort_key fst (rs :: ('a :: linorder \<times> 'b) list)))"
  by simp

section \<open>The scan over the pending index\<close>

lemma find_first_pending_claim_total: "sm_inv db \<Longrightarrow> \<exists>x. find_first_pending_claim db b = Inr x"
proof (cases "read_master_batch db b")
  case None
  then show ?thesis by (simp add: find_first_pending_claim_def)
next
  case (Some r)
  assume "sm_inv db"
  from find_first_pending_claim_eq [OF this Some] show ?thesis by blast
qed

lemma first_with_pending_spec:
  assumes inv: "sm_inv db"
  shows "(\<exists>b s e. first_with_pending db bs = Inr (Some (b, s, e)) \<and> b \<in> set bs \<and>
      find_first_pending_claim db b = Inr (Some (s, e))) \<or>
    (first_with_pending db bs = Inr None \<and> (\<forall>b \<in> set bs. find_first_pending_claim db b = Inr None))"
proof (induction bs)
  case Nil
  then show ?case by simp
next
  case (Cons b bs)
  obtain x where "find_first_pending_claim db b = Inr x"
    using find_first_pending_claim_total [OF inv] by blast
  with Cons show ?case by (cases x) auto
qed

lemma find_first_pending_batch_spec:
  assumes inv: "sm_inv db"
  shows "(\<exists>b s e. find_first_pending_batch db = Inr (Some (b, s, e)) \<and> is_pending db b \<and>
      find_first_pending_claim db b = Inr (Some (s, e))) \<or>
    (find_first_pending_batch db = Inr None \<and>
      (\<forall>b. is_pending db b \<longrightarrow> find_first_pending_claim db b = Inr None))"
proof (cases "pending_batches db")
  case None
  then show ?thesis by (simp add: find_first_pending_batch_def is_pending_def)
next
  case (Some t)
  have wf: "tbl_wf t" using sm_inv_pending_wf [OF inv] Some by simp
  have "b \<in> set (map fst (tbl_iter t)) \<longleftrightarrow> is_pending db b" for b
    using tbl.rows_get [OF wf, of b] Some by (force simp: is_pending_def)
  then show ?thesis
    using first_with_pending_spec [OF inv, of "map fst (tbl_iter t)"] Some
    unfolding find_first_pending_batch_def by (metis (no_types, lifting) option.case(2))
qed

end
