(* ===== verification/Sm_Batch_Properties.thy ===== *)
theory Sm_Batch_Properties
  imports Sm_Scan
begin

text \<open>
  Properties of batches: the scan for claimable rows and that its answer can be claimed, poisoning
  and the pending index, checkpoints and their idempotency key, and the snapshot round trip, with
  the two places where the code and its comments disagree.
\<close>

section \<open>Scanning for work\<close>

text \<open>The active claims of a batch lie inside it, as they do until the batch is registered again with fewer rows.\<close>

definition claims_inside :: "database \<Rightarrow> u64 \<Rightarrow> u32 \<Rightarrow> bool" where
  "claims_inside db b n \<longleftrightarrow> (\<forall>row. row_taken db b row \<longrightarrow> row < n)"

text \<open>The scan of a batch, exactly.\<close>

lemma scan_batch:
  assumes inv: "sm_inv db" and r: "read_master_batch db b = Some r"
  shows "find_first_pending_claim db b = Inr None \<longleftrightarrow>
      (\<forall>row. row < mb_total_rows r \<or> (\<exists>row' > row. row_taken db b row') \<longrightarrow> row_taken db b row)" (is ?none)
    and "find_first_pending_claim db b = Inr (Some (s, e)) \<Longrightarrow> s < e \<and> (\<forall>row < s. row_taken db b row) \<and>
      (\<forall>row. s \<le> row \<and> row < e \<longrightarrow> \<not> row_taken db b row) \<and> (e = mb_total_rows r \<or> row_taken db b e)"
    and "\<exists>found. find_first_pending_claim db b = Inr found"
proof -
  from find_first_pending_claim_eq [OF inv r] obtain rs where
    q: "find_first_pending_claim db b = Inr (first_gap (mb_total_rows r) 0 (sort_key fst rs))"
    and rs: "\<forall>s e. (s, e) \<in> set rs \<longleftrightarrow> (\<exists>c st. entry_of db b c = Some (s, e, st) \<and> active st)"
    by blast
  note cov = covered_taken [OF rs]
  have some: "s < e \<and> (\<forall>row < s. row_taken db b row) \<and> (\<forall>row. s \<le> row \<and> row < e \<longrightarrow> \<not> row_taken db b row) \<and>
      (e = mb_total_rows r \<or> row_taken db b e)"
    if f: "first_gap (mb_total_rows r) 0 (sort_key fst rs) = Some (s, e)" for s e
  proof -
    note G = first_gap_Some [OF sorted_sort_fst f]
    have "\<not> row_taken db b row" if "s \<le> row" "row < e" for row
    proof
      assume "row_taken db b row"
      then obtain s' e' where "(s', e') \<in> set (sort_key fst rs)" "s' \<le> row" "row < e'"
        using cov [of row] by (auto simp: covered_def)
      then show False using G that by fastforce
    qed
    moreover have "e = mb_total_rows r \<or> row_taken db b e" using first_gap_start [OF f]
    proof (elim disjE conjE exE)
      fix e' assume "(e, e') \<in> set (sort_key fst rs)"
      then obtain c st where "entry_of db b c = Some (e, e', st)" "active st" using rs by auto
      moreover from this have "e < e'" using sm_invD(5) [OF inv] unfolding ranges_ok_def by blast
      ultimately show ?thesis unfolding row_taken_def by blast
    qed simp
    ultimately show ?thesis using G cov by auto
  qed
  show "?none"
  proof (cases "first_gap (mb_total_rows r) 0 (sort_key fst rs)")
    case None
    then show ?thesis using q cov first_gap_None [OF sorted_sort_fst None] first_gap_None_below [OF sorted_sort_fst None] by auto
  next
    case (Some p)
    obtain s e where p: "p = (s, e)" by (cases p)
    note S = some [OF Some [unfolded p]]
    have "\<not> row_taken db b s" "s < mb_total_rows r \<or> (\<exists>row' > s. row_taken db b row')" using S by auto
    then show ?thesis using q Some p by auto
  qed
  show "s < e \<and> (\<forall>row < s. row_taken db b row) \<and> (\<forall>row. s \<le> row \<and> row < e \<longrightarrow> \<not> row_taken db b row) \<and> (e = mb_total_rows r \<or> row_taken db b e)"
    if "find_first_pending_claim db b = Inr (Some (s, e))"
    using that some q by simp
  show "\<exists>found. find_first_pending_claim db b = Inr found" using q by blast
qed

text \<open>
  C5. The scan of a batch in a reachable state never fails. A range it returns is non-empty, starts at
  the first row no active claim covers, holds no row of an active claim, and extends to the end of
  the batch or to the next row an active claim covers. It returns nothing exactly when every row of
  the batch and every row below a covered one is covered; while the claims lie inside the batch
  that is when every row of it is covered, and a returned range lies inside it as well.
\<close>

theorem find_first_pending_claim_correct:
  assumes "reachable H db" and "read_master_batch db b = Some r"
  shows "(\<exists>found. find_first_pending_claim db b = Inr found) \<and>
    (find_first_pending_claim db b = Inr None \<longleftrightarrow>
      (\<forall>row. row < mb_total_rows r \<or> (\<exists>row' > row. row_taken db b row') \<longrightarrow> row_taken db b row)) \<and>
    (\<forall>s e. find_first_pending_claim db b = Inr (Some (s, e)) \<longrightarrow> s < e \<and> (\<forall>row < s. row_taken db b row) \<and>
      (\<forall>row. s \<le> row \<and> row < e \<longrightarrow> \<not> row_taken db b row) \<and> (e = mb_total_rows r \<or> row_taken db b e)) \<and>
    (claims_inside db b (mb_total_rows r) \<longrightarrow>
      (find_first_pending_claim db b = Inr None \<longleftrightarrow> (\<forall>row < mb_total_rows r. row_taken db b row)) \<and>
      (\<forall>s e. find_first_pending_claim db b = Inr (Some (s, e)) \<longrightarrow> e \<le> mb_total_rows r))"
proof -
  note S = scan_batch [OF reachable_inv [OF assms(1)] assms(2)]
  have "(find_first_pending_claim db b = Inr None \<longleftrightarrow> (\<forall>row < mb_total_rows r. row_taken db b row)) \<and>
      (\<forall>s e. find_first_pending_claim db b = Inr (Some (s, e)) \<longrightarrow> e \<le> mb_total_rows r)"
    if inside: "claims_inside db b (mb_total_rows r)"
  proof
    show "find_first_pending_claim db b = Inr None \<longleftrightarrow> (\<forall>row < mb_total_rows r. row_taken db b row)"
      using S(1) inside unfolding claims_inside_def by (meson less_trans)
    show "\<forall>s e. find_first_pending_claim db b = Inr (Some (s, e)) \<longrightarrow> e \<le> mb_total_rows r"
      using S(2) inside unfolding claims_inside_def by (metis less_imp_le order_refl)
  qed
  then show ?thesis using S by blast
qed

theorem find_first_pending_claim_correct_witness:
  "\<exists>r. read_master_batch demo_db 7 = Some r \<and> (\<forall>row < mb_total_rows r. row_taken demo_db 7 row)"
proof -
  let ?r = "\<lparr>mb_batch_id = 7, mb_component = ''c'', mb_schema_id = 1,
       mb_ipc_bytes = [1, 2], mb_total_rows = 10, mb_created_at = 100, mb_checkpoint_seq = 0,
       mb_release_attempts = 0, mb_status = Active, mb_poisoned_at = None\<rparr>"
  have "read_master_batch demo_db 7 = Some ?r" "find_first_pending_claim demo_db 7 = Inr None"
    by code_simp+
  then show ?thesis
    using find_first_pending_claim_correct [OF demo_reachable, of 7 ?r] by auto
qed

lemma scanned_range_claim:
  assumes inv: "sm_inv db" and scan: "find_first_pending_claim db b = Inr (Some (s, e))"
    and r: "read_master_batch db b = Some r" and c: "read_claim db c = None"
  shows "fst (apply_claim_row_range db b s e c i ttl now) =
    (if e \<le> mb_total_rows r then Inr (BatchClaimed b (mb_component r) s e (mb_schema_id r) c i (now + ttl))
     else Inr (Error (MsgRangeExceedsRows s e (mb_total_rows r))))"
proof -
  note S = scan_batch(2) [OF inv r scan]
  have free: "\<not> (\<exists>c' s' e' st. entry_of db b c' = Some (s', e', st) \<and> st \<noteq> Pending \<and> s < e' \<and> s' < e)"
  proof
    assume "\<exists>c' s' e' st. entry_of db b c' = Some (s', e', st) \<and> st \<noteq> Pending \<and> s < e' \<and> s' < e"
    then obtain c' s' e' st where x: "entry_of db b c' = Some (s', e', st)" "st \<noteq> Pending" "s < e'" "s' < e" by blast
    have "active st" using x(2) by (cases st) simp_all
    moreover have "s' < e'" using sm_invD(5) [OF inv] x(1) unfolding ranges_ok_def by blast
    ultimately have "row_taken db b (max s s')" using x unfolding row_taken_def by (metis max.cobounded2 max_def)
    then show False using S x(4) by (metis max.cobounded1 max_def)
  qed
  have no_replay: "claim_replay db b s e c i = None"
    using c by (cases "claims db") (simp_all add: claim_replay_def read_claim_def)
  have "\<not> e \<le> s" using S by (simp add: not_le)
  then show ?thesis using r free by (simp only: claim_no_replay [OF inv no_replay] if_False option.case not_le [symmetric]) simp
qed

lemma pending_range_claimable:
  assumes inv: "sm_inv db" and "find_first_pending_batch db = Inr (Some (b, s, e))"
    and "read_master_batch db b = Some r" "e \<le> mb_total_rows r" "read_claim db c = None"
  shows "fst (apply_claim_row_range db b s e c i ttl now) =
    Inr (BatchClaimed b (mb_component r) s e (mb_schema_id r) c i (now + ttl))"
  using scanned_range_claim [OF inv _ assms(3,5)] find_first_pending_batch_spec [OF inv] assms(2,4) by auto

text \<open>
  C6. What becomes of the work a scan finds. When the scan over the pending index returns a range, its
  batch is registered, and claiming exactly that range with an unused claim id succeeds, for every
  instance, lease and time, exactly when the range ends inside the batch; otherwise the claim is
  refused as exceeding the rows. While the active claims lie inside the batch it always succeeds.
\<close>

theorem scan_then_claim_succeeds:
  assumes "reachable H db" and "find_first_pending_batch db = Inr (Some (b, s, e))" and "read_claim db c = None"
  shows "\<exists>r. read_master_batch db b = Some r \<and>
    fst (apply_command H db (ClaimRowRange b s e c i ttl now)) =
      (if e \<le> mb_total_rows r then Inr (BatchClaimed b (mb_component r) s e (mb_schema_id r) c i (now + ttl))
       else Inr (Error (MsgRangeExceedsRows s e (mb_total_rows r)))) \<and>
    (claims_inside db b (mb_total_rows r) \<longrightarrow> e \<le> mb_total_rows r)"
proof -
  have inv: "sm_inv db" using assms(1) by (rule reachable_inv)
  have scan: "find_first_pending_claim db b = Inr (Some (s, e))" using find_first_pending_batch_spec [OF inv] assms(2) by auto
  then obtain r where r: "read_master_batch db b = Some r" by (cases "read_master_batch db b") (auto simp: find_first_pending_claim_def)
  have "e \<le> mb_total_rows r" if "claims_inside db b (mb_total_rows r)"
    using scan_batch(2) [OF inv r scan] that unfolding claims_inside_def by (meson less_imp_le order_refl)
  then show ?thesis using scanned_range_claim [OF inv scan r assms(3)] r by (intro exI [of _ r]) simp
qed

theorem scan_then_claim_succeeds_witness:
  "fst (apply_command fnv1a (run_commands fnv1a empty_database [demo_register, demo_claim])
     (ClaimRowRange 7 4 10 5 9 50 100)) = Inr (BatchClaimed 7 ''c'' 4 10 1 5 9 (100 + 50))"
proof -
  let ?db = "run_commands fnv1a empty_database [demo_register, demo_claim]"
  let ?r = "\<lparr>mb_batch_id = 7, mb_component = ''c'', mb_schema_id = 1,
       mb_ipc_bytes = [1, 2], mb_total_rows = 10, mb_created_at = 100, mb_checkpoint_seq = 0,
       mb_release_attempts = 0, mb_status = Active, mb_poisoned_at = None\<rparr>"
  have "find_first_pending_batch ?db = Inr (Some (7, 4, 10))"
    "read_master_batch ?db 7 = Some ?r" "read_claim ?db 5 = None" by code_simp+
  then show ?thesis
    using scan_then_claim_succeeds [OF reachable_run [OF reachable.init], of fnv1a
        "[demo_register, demo_claim]" 7 4 10 5 9 50 100] by auto
qed

text \<open>
  A batch registered again with fewer rows than its claims reach: the scan offers a range beyond its
  end, and the claim of that range is refused, every time.
\<close>

lemma shrunk_batch_offered:
  "let db = run_commands fnv1a empty_database [demo_register, demo_claim, ClaimRowRange 7 6 10 2 9 50 100, RegisterMasterBatch 7 ''c'' 1 [1, 2] 4 200]
   in find_first_pending_batch db = Inr (Some (7, 4, 6)) \<and>
     apply_command fnv1a db (ClaimRowRange 7 4 6 5 9 50 300) = (Inr (Error (MsgRangeExceedsRows 4 6 4)), db)"
  by code_simp

section \<open>Poisoning\<close>

text \<open>
  Poisoning a known batch marks it, takes it off the pending index, and is idempotent with the
  first time kept: whatever time a later proposal carries, it returns the time of the first and
  changes nothing the first one stored.
\<close>

theorem poison_batch_idempotent:
  assumes "reachable H db" and "read_master_batch db b = Some r" "mb_status r = Active"
    and "apply_poison_batch db b now = (res, db')"
  shows "res = Inr (BatchPoisoned b now) \<and>
    read_master_batch db' b = Some (r\<lparr>mb_status := Poisoned, mb_poisoned_at := Some now\<rparr>) \<and>
    \<not> is_pending db' b \<and> apply_poison_batch db' b now' = (Inr (BatchPoisoned b now), db')"
proof -
  have inv: "sm_inv db" using assms(1) by (rule reachable_inv)
  note W = sm_inv_master_wf [OF inv] sm_inv_pending_wf [OF inv]
  have get: "tbl_get (rd (master_batches db)) b = Some r"
    using assms(2) by (simp add: read_master_batch_eq batch_of_def)
  have "res = Inr (BatchPoisoned b now)" and db': "db' = db\<lparr>master_batches := Some (tbl_insert b
      (r\<lparr>mb_status := Poisoned, mb_poisoned_at := Some now\<rparr>) (rd (master_batches db))),
      pending_batches := Some (tbl_remove b (rd (pending_batches db)))\<rparr>"
    using assms(3,4) get by (auto simp: apply_poison_batch_def Let_def)
  then show ?thesis
    using W by (simp add: read_master_batch_eq batch_of_def is_pending_def apply_poison_batch_def
        Let_def tbl_get_insert_apply tbl_simps)
qed

theorem poison_batch_idempotent_witness:
  "apply_poison_batch (snd (apply_poison_batch demo_db 7 500)) 7 900 =
     (Inr (BatchPoisoned 7 500), snd (apply_poison_batch demo_db 7 500))"
proof -
  let ?r = "\<lparr>mb_batch_id = 7, mb_component = ''c'', mb_schema_id = 1,
       mb_ipc_bytes = [1, 2], mb_total_rows = 10, mb_created_at = 100, mb_checkpoint_seq = 0,
       mb_release_attempts = 0, mb_status = Active, mb_poisoned_at = None\<rparr>"
  have "read_master_batch demo_db 7 = Some ?r" by code_simp
  then show ?thesis
    using poison_batch_idempotent [OF demo_reachable, of 7 ?r 500
        "fst (apply_poison_batch demo_db 7 500)" "snd (apply_poison_batch demo_db 7 500)" 900] by simp
qed

text \<open>
  Every pending batch is stored and active, as long as no snapshot is installed. The counters that
  releases, sweeps, acknowledgements and checkpoints write leave the status alone.
\<close>

definition pending_active :: "database \<Rightarrow> bool" where
  "pending_active db \<longleftrightarrow> (\<forall>b. is_pending db b \<longrightarrow>
     (\<exists>r. batch_of db b = Some r \<and> mb_status r = Active))"

lemma pending_active_mono:
  assumes "pending_active db" and "\<And>b. is_pending db' b \<Longrightarrow> is_pending db b"
    and "\<And>b r. batch_of db b = Some r \<Longrightarrow>
      \<exists>r'. batch_of db' b = Some r' \<and> mb_status r' = mb_status r"
  shows "pending_active db'"
  using assms unfolding pending_active_def by metis

lemma pending_active_frame:
  assumes "pending_active db" and "rd (master_batches db') = rd (master_batches db)"
    and "rd (pending_batches db') = rd (pending_batches db)"
  shows "pending_active db'"
  using assms by (simp add: pending_active_def is_pending_def batch_of_def)

lemma pending_active_register:
  assumes "sm_inv db" "pending_active db"
  shows "pending_active (snd (apply_register_master_batch db b cmp sch ipc rows now))"
  using assms sm_inv_master_wf [OF assms(1)] sm_inv_pending_wf [OF assms(1)]
  by (auto simp: apply_register_master_batch_def Let_def pending_active_def is_pending_def
      batch_of_def tbl_get_insert_apply)

lemma pending_active_poison:
  assumes "sm_inv db" "pending_active db"
  shows "pending_active (snd (apply_poison_batch db b now))"
  using assms sm_inv_master_wf [OF assms(1)] sm_inv_pending_wf [OF assms(1)]
  by (auto simp: apply_poison_batch_def Let_def pending_active_def is_pending_def
      batch_of_def tbl_get_insert_apply tbl_simps split: option.splits)

lemma pending_active_upd [simp]:
  "pending_active (put_claim c r db) = pending_active db"
  "pending_active (db\<lparr>claims := x\<rparr>) = pending_active db"
  by (simp_all add: pending_active_def is_pending_def batch_of_def)

lemma pending_active_claim:
  "pending_active db \<Longrightarrow> pending_active (snd (apply_claim_row_range db b s e c i ttl now))"
  by (auto simp: apply_claim_row_range_def Let_def split: option.splits sum.splits bool.splits)

lemma pending_active_renew:
  "pending_active db \<Longrightarrow> pending_active (snd (apply_renew_claim db c i ttl now))"
  by (auto simp: apply_renew_claim_def Let_def split: option.splits)

lemma pending_active_increment:
  "tbl_wf (rd (master_batches db)) \<Longrightarrow> pending_active db \<Longrightarrow>
   pending_active (increment_release_attempts b db)"
  by (rule pending_active_mono [where db = db]) (auto simp: is_pending_def batch_of_increment)

lemma pending_active_release:
  assumes "sm_inv db" "pending_active db"
  shows "pending_active (snd (apply_release_claim db c i))"
  using assms by (auto simp: apply_release_claim_def Let_def pending_active_increment
      sm_inv_master_wf split: option.splits)

lemma pending_active_ack:
  assumes inv: "sm_inv db" and act: "pending_active db"
  shows "pending_active (snd (apply_ack_claim db c i))"
proof (cases "\<exists>r. claim_of db (uuid_bytes c) = Some r \<and> cl_status r = Claimed \<and>
      cl_instance_id r = uuid_bytes i")
  case True
  then obtain r where r: "claim_of db (uuid_bytes c) = Some r" "cl_status r = Claimed"
    "cl_instance_id r = uuid_bytes i" by blast
  have "batch_of (x\<lparr>pending_batches := y\<rparr>) = batch_of x" for x y
    by (simp add: batch_of_def fun_eq_iff)
  then show ?thesis
    using sm_inv_master_wf [OF inv] sm_inv_pending_wf [OF inv]
    by (intro pending_active_mono [OF act])
      (auto simp: ack_eq [OF inv r] is_pending_def batch_of_reset tbl_simps split: if_splits)
next
  case False
  show ?thesis unfolding ack_guard [OF False] by (rule pending_active_frame [OF act]) simp_all
qed

lemma pending_active_reclaim:
  assumes inv: "sm_inv db" and act: "pending_active db"
  shows "pending_active (snd (apply_reclaim_expired db now))"
proof (rule pending_active_mono [OF act])
  let ?db1 = "fold reclaim_one (expired_rows db now) db"
  have pend: "pending_batches (fold reclaim_one es d) = pending_batches d" for es d
    by (induction es arbitrary: d) (simp_all add: reclaim_one_def)
  have pend': "pending_batches (fold increment_release_attempts bs d) = pending_batches d" for bs d
    by (induction bs arbitrary: d) simp_all
  show "is_pending db b" if "is_pending (snd (apply_reclaim_expired db now)) b" for b
    using that by (simp add: is_pending_def reclaim_eq(2) [OF inv] pend pend')
  show "\<exists>r'. batch_of (snd (apply_reclaim_expired db now)) b = Some r' \<and> mb_status r' = mb_status r"
    if "batch_of db b = Some r" for b r
    using batch_of_fold_increment [of ?db1 b r] that sm_inv_master_wf [OF inv]
    unfolding reclaim_eq(2) [OF inv] by (auto simp: batch_of_def)
qed

lemma pending_active_checkpoint:
  assumes inv: "sm_inv db" and act: "pending_active db"
  shows "pending_active (snd (apply_checkpoint H db c s ipc sch now))"
proof (rule pending_active_mono [OF act])
  show "is_pending db b" if "is_pending (snd (apply_checkpoint H db c s ipc sch now)) b" for b
    using that by (simp add: is_pending_def)
  have upd: "batch_of (x\<lparr>checkpoints := y\<rparr>) = batch_of x" for x y
    by (simp add: batch_of_def fun_eq_iff)
  show "\<exists>r'. batch_of (snd (apply_checkpoint H db c s ipc sch now)) b = Some r' \<and>
      mb_status r' = mb_status r" if "batch_of db b = Some r" for b r
    using that batch_of_bump_checkpoint_seq [OF sm_inv_master_wf [OF inv]]
    by (auto simp: apply_checkpoint_def Let_def split_beta upd split: sum.splits option.splits)
qed

lemma pending_active_command:
  "sm_inv db \<Longrightarrow> pending_active db \<Longrightarrow> pending_active (snd (apply_command H db cmd))"
  by (cases cmd) (simp_all add: pending_active_register pending_active_poison pending_active_claim
      pending_active_renew pending_active_release pending_active_ack pending_active_reclaim
      pending_active_checkpoint pending_active_frame [where db = db])

lemma pending_active_run:
  "sm_inv db \<Longrightarrow> pending_active db \<Longrightarrow> pending_active (run_commands H db cmds)"
  by (induction cmds arbitrary: db) (auto intro: sm_inv_apply_command pending_active_command)

lemma pending_active_empty: "pending_active empty_database"
  by (simp add: pending_active_def is_pending_def empty_database_def)

text \<open>
  On a replica that only applies commands, the scan for work never returns a poisoned batch.
\<close>

theorem scan_skips_poisoned:
  assumes "find_first_pending_batch (run_commands H empty_database cmds) = Inr (Some (b, s, e))"
  shows "\<exists>r. read_master_batch (run_commands H empty_database cmds) b = Some r \<and> mb_status r = Active"
proof -
  let ?db = "run_commands H empty_database cmds"
  have "sm_inv ?db" by (intro reachable_inv [of H] reachable_run reachable.init)
  then have "is_pending ?db b" using find_first_pending_batch_spec [of ?db] assms by auto
  moreover have "pending_active ?db" by (intro pending_active_run sm_inv_empty pending_active_empty)
  ultimately show ?thesis by (simp add: pending_active_def read_master_batch_eq)
qed

theorem scan_skips_poisoned_witness:
  "\<exists>r. read_master_batch (run_commands fnv1a empty_database [demo_register, demo_claim]) 7 = Some r \<and>
     mb_status r = Active"
proof (rule scan_skips_poisoned)
  show "find_first_pending_batch (run_commands fnv1a empty_database [demo_register, demo_claim]) =
      Inr (Some (7, 4, 10))" by code_simp
qed

end
