(* ===== verification/Sm_Snapshot_Properties.thy ===== *)
theory Sm_Snapshot_Properties
  imports Sm_Batch_Properties
begin

text \<open>
  Properties of checkpoints, of the byte layout of the secondary index and of state snapshots
  (dump and restore), and two concrete histories on which the code departs from its comments.
\<close>

section \<open>Checkpoints\<close>

text \<open>
  A checkpoint that was acknowledged can be read back under its claim and stage with the
  acknowledged content hash, and proposing the same payload again, at any time and with any
  schema id, returns the same sequence number and changes nothing.
\<close>

theorem checkpoint_idempotent:
  assumes "reachable H db" and "apply_checkpoint H db c stage ipc sch now = (Inr (CheckpointWritten n), db')"
  shows "(\<exists>r. read_checkpoint db' c stage = Some r \<and>
      cp_content_hash r = checkpoint_content_hash H (uuid_bytes c) stage ipc) \<and>
    apply_checkpoint H db' c stage ipc sch' now' = (Inr (CheckpointWritten n), db')"
proof -
  have inv: "sm_inv db" using assms(1) by (rule reachable_inv)
  note W = tables_wfD [OF sm_invD(1) [OF inv]]
  let ?key = "checkpoint_key (uuid_bytes c) stage"
  let ?hash = "checkpoint_content_hash H (uuid_bytes c) stage ipc"
  have small: "length ipc < MAX_LOG_ENTRY_BYTES"
    using assms(2) by (auto simp: apply_checkpoint_def not_le split: if_splits)
  obtain b where b: "checkpoint_batch_id db c = Inr b"
    using assms(2) small by (auto simp: apply_checkpoint_def checkpoint_batch_id_def not_le
        split: option.splits if_splits)
  show ?thesis
  proof (cases "\<exists>r. tbl_get (rd (checkpoints db)) ?key = Some r \<and> cp_content_hash r = ?hash")
    case True
    then obtain r where r: "tbl_get (rd (checkpoints db)) ?key = Some r" "cp_content_hash r = ?hash"
      by blast
    have "db' = db" using assms(2) small b r by (simp add: apply_checkpoint_def Let_def not_le)
    moreover have "read_checkpoint db c stage = Some r"
      using r by (cases "checkpoints db") (simp_all add: read_checkpoint_def)
    ultimately show ?thesis
      using assms(2) small b r by (simp add: apply_checkpoint_def Let_def not_le)
  next
    case False
    obtain seq db1 where bump: "bump_checkpoint_seq b db = (seq, db1)"
      by (cases "bump_checkpoint_seq b db")
    let ?r = "\<lparr>cp_batch_id = b, cp_stage_idx = stage, cp_ipc_bytes = ipc, cp_schema_id = sch,
      cp_created_at = now, cp_content_hash = ?hash\<rparr>"
    have res: "n = seq" "db' = db1\<lparr>checkpoints := Some (tbl_insert ?key ?r (rd (checkpoints db1)))\<rparr>"
      using assms(2) small b False bump
      by (auto simp: apply_checkpoint_def Let_def not_le split: option.splits if_splits)
    have same: "checkpoints db1 = checkpoints db" "claims db1 = claims db"
      using bump_checkpoint_seq_frame [of b db] bump by simp_all
    have get: "tbl_get (rd (checkpoints db')) ?key = Some ?r"
      using W(3) by (simp add: res same tbl_get_insert_apply)
    have owner: "checkpoint_batch_id db' c = Inr b"
      using b by (simp add: checkpoint_batch_id_def res same)
    have "(case tbl_get (rd (master_batches db1)) b of Some r \<Rightarrow> mb_checkpoint_seq r | None \<Rightarrow> 0) = seq"
      using bump W(1) by (auto simp: bump_checkpoint_seq_def Let_def tbl_get_insert_apply
          split: option.splits)
    then have "apply_checkpoint H db' c stage ipc sch' now' = (Inr (CheckpointWritten n), db')"
      using small owner get by (simp add: apply_checkpoint_def Let_def not_le res(1)) (simp add: res)
    moreover have "read_checkpoint db' c stage = Some ?r"
      using get by (simp add: read_checkpoint_def res)
    ultimately show ?thesis by simp
  qed
qed

theorem checkpoint_idempotent_witness:
  "fst (apply_checkpoint fnv1a (snd (apply_checkpoint fnv1a demo_db 1 0 [5] 1 100)) 1 0 [5] 2 999) =
     Inr (CheckpointWritten 1)"
proof -
  have "fst (apply_checkpoint fnv1a demo_db 1 0 [5] 1 100) = Inr (CheckpointWritten 1)" by code_simp
  then show ?thesis
    using checkpoint_idempotent [OF demo_reachable, of 1 0 "[5]" 1 100 1
        "snd (apply_checkpoint fnv1a demo_db 1 0 [5] 1 100)" 2 999] by (simp add: prod_eq_iff)
qed

section \<open>Layout of the secondary index\<close>

text \<open>
  The packed index value is a bijection: a byte string decodes to a triple exactly when it is
  the encoding of that triple, so no other string is accepted and no two triples collide.
\<close>

theorem index_value_codec:
  "decode_claims_by_batch_value v = Some (s, e, st) \<longleftrightarrow> v = claims_by_batch_value s e st"
proof
  assume d: "decode_claims_by_batch_value v = Some (s, e, st)"
  then have len: "length v = 9" and st: "status_from_byte (v ! 8) = Some st"
    and se: "s = u32_from_be (take 4 v)" "e = u32_from_be (take 4 (drop 4 v))"
    by (auto simp: decode_claims_by_batch_value_def Let_def split: if_splits option.splits)
  have "drop 8 v = [v ! 8]" using len by (simp add: Cons_nth_drop_Suc [symmetric])
  then have "v = take 4 v @ take 4 (drop 4 v) @ [v ! 8]"
    by (metis (no_types, lifting) append_take_drop_id drop_drop numeral_Bit0)
  then show "v = claims_by_batch_value s e st"
    using len by (simp add: claims_by_batch_value_def se u32_be_from_be status_byte_from_byte [OF st])
qed simp

text \<open>
  The half-open key range of a batch selects exactly the index rows of that batch, also for
  the largest batch id, whose range has no upper bound.
\<close>

theorem batch_range_selects:
  "(batch_range_start b \<le> claims_by_batch_key b' c \<and>
    (case batch_range_end b of None \<Rightarrow> True | Some h \<Rightarrow> claims_by_batch_key b' c < h)) \<longleftrightarrow> b' = b"
  by (rule batch_range_exact)

section \<open>Snapshots\<close>

text \<open>
  C19. Dumping a reachable state succeeds, and restoring the dump over any database gives the same
  batches, claims, checkpoints and instances, an index with exactly one entry per claim that
  carries its range and status, and a state whose dump is the same again.
\<close>

theorem dump_restore_roundtrip:
  assumes "reachable H src"
  shows "\<exists>d. dump_state src = Inr d \<and> dump_state (restore_state db d meta) = Inr d \<and>
    rd (master_batches (restore_state db d meta)) = rd (master_batches src) \<and>
    rd (claims (restore_state db d meta)) = rd (claims src) \<and>
    rd (checkpoints (restore_state db d meta)) = rd (checkpoints src) \<and>
    rd (instances (restore_state db d meta)) = rd (instances src) \<and>
    (\<forall>b c t. entry_of (restore_state db d meta) b c = Some t \<longleftrightarrow>
       (\<exists>r. claim_of src c = Some r \<and> cl_batch_id r = b \<and>
          t = (cl_row_range_start r, cl_row_range_end r, cl_status r)))"
proof -
  have inv: "sm_inv src" using assms by (rule reachable_inv)
  note W = tables_wfD [OF sm_invD(1) [OF inv]]
  have sized: "\<forall>(k, v) \<in> set (rd (claims src)). length k = 16"
    "\<forall>(k, v) \<in> set (rd (checkpoints src)). length k = 20"
    "\<forall>(k, v) \<in> set (rd (instances src)). length k = 16"
    using sm_invD(2) [OF inv] W by (auto simp: keys_ok_def claim_of_def tbl_rows_get)
  define d where "d = \<lparr>ds_batches = map snd (rd (master_batches src)), ds_claims = rd (claims src),
    ds_checkpoints = rd (checkpoints src), ds_instances = rd (instances src)\<rparr>"
  have dump: "dump_state src = Inr d"
    by (simp add: dump_state_def Let_def tbl_iter_def sized_rows_ok sized d_def)
  note T = restore_state_tables [OF inv dump, of db meta]
  have "dump_state (restore_state db d meta) = Inr d"
    by (simp add: dump_state_def Let_def tbl_iter_def T sized_rows_ok sized) (simp add: d_def)
  moreover have "distinct (map fst (rd (claims src)))"
    using tbl.rows_distinct [OF W(2)] by (simp add: tbl_iter_def)
  note S = snap_index_entry [OF this]
  have "entry_of (restore_state db d meta) b c = Some t \<longleftrightarrow>
       (\<exists>r. claim_of src c = Some r \<and> cl_batch_id r = b \<and>
          t = (cl_row_range_start r, cl_row_range_end r, cl_status r))" for b c t
    using S by (auto simp: entry_of_def T claim_of_def tbl_get_def split: option.splits)
  ultimately show ?thesis using dump T by auto
qed

theorem dump_restore_roundtrip_witness:
  "\<exists>d. dump_state demo_db = Inr d \<and> dump_state (restore_state empty_database d None) = Inr d"
  using dump_restore_roundtrip [OF demo_reachable, of empty_database None] by blast

section \<open>Two departures from the comments\<close>

text \<open>
  Installing a snapshot makes every stored batch pending, a poisoned one too: the status is
  carried over, and the batch is again in the index that the scan for work walks.
\<close>

theorem restore_pends_every_batch:
  assumes "reachable H src" and "dump_state src = Inr d" and "read_master_batch src b = Some r"
  shows "read_master_batch (restore_state db d meta) b = Some r \<and> is_pending (restore_state db d meta) b"
proof -
  note T = restore_state_tables [OF reachable_inv [OF assms(1)] assms(2), of db meta]
  have get: "tbl_get (rd (master_batches src)) b = Some r"
    using assms(3) by (simp add: read_master_batch_eq batch_of_def)
  have "tbl_get (map (\<lambda>(b, r). (b, ())) t) b = map_option (\<lambda>_. ()) (tbl_get t b)"
    for t :: "(u64, master_batch_record) table"
    by (induction t) (auto simp: tbl_get_def)
  then show ?thesis using get by (simp add: read_master_batch_def is_pending_def T)
qed

definition poisoned_db :: database where
  "poisoned_db = run_commands fnv1a empty_database [demo_register, PoisonBatch 7 500]"

lemma poisoned_reachable: "reachable fnv1a poisoned_db"
  unfolding poisoned_db_def by (intro reachable_run reachable.init)

theorem restore_pends_every_batch_witness:
  "\<exists>d r. dump_state poisoned_db = Inr d \<and> find_first_pending_batch poisoned_db = Inr None \<and>
     read_master_batch (restore_state empty_database d None) 7 = Some r \<and>
     mb_status r = Poisoned \<and> is_pending (restore_state empty_database d None) 7"
proof -
  let ?r = "\<lparr>mb_batch_id = 7, mb_component = ''c'', mb_schema_id = 1,
       mb_ipc_bytes = [1, 2], mb_total_rows = 10, mb_created_at = 100, mb_checkpoint_seq = 0,
       mb_release_attempts = 0, mb_status = Poisoned, mb_poisoned_at = Some 500\<rparr>"
  have q: "read_master_batch poisoned_db 7 = Some ?r"
    "find_first_pending_batch poisoned_db = Inr None" by code_simp+
  have "dump_state poisoned_db = Inr \<lparr>ds_batches = [?r], ds_claims = [], ds_checkpoints = [],
      ds_instances = []\<rparr>" by code_simp
  from restore_pends_every_batch [OF poisoned_reachable this q(1), of empty_database None] this q
  show ?thesis by fastforce
qed

text \<open>
  A batch leaves the pending index once every claim made on it is completed, even when rows of
  it were never claimed: after one acknowledged claim on rows 0 to 4 of 10 the scan for work
  finds nothing, although rows 4 to 10 of the batch are free.
\<close>

theorem ack_unpends_partly_claimed_batch:
  "find_first_pending_batch (run_commands fnv1a empty_database
      [demo_register, demo_claim, AckClaim 1 9]) = Inr None \<and>
   find_first_pending_claim (run_commands fnv1a empty_database
      [demo_register, demo_claim, AckClaim 1 9]) 7 = Inr (Some (4, 10))"
  by (intro conjI; code_simp)

end
