(* ===== verification/Store.thy ===== *)
theory Store
  imports Sm_Snapshot_Properties
begin

text \<open>
  \<^verbatim>\<open>consensus/store.rs\<close>, \<^verbatim>\<open>partition.rs\<close> and \<^verbatim>\<open>strategy.rs\<close>: the client side of the replicated state.
  A store proposes commands and reads its local replica; what carries a proposal to the state
  machine (a direct call on a single node, Raft on several) is the record \<open>store_backend\<close>, whose
  operations thread a state \<open>'s\<close>. Claim ids (\<^verbatim>\<open>Uuid::now_v7\<close>) and clock readings are inputs, one
  per attempt. \<^verbatim>\<open>sb_debug\<close> is the derived \<^verbatim>\<open>Debug\<close> text of a response.
\<close>

section \<open>Data\<close>

record batch_claim =
  bc_batch_id :: u64
  bc_component :: string
  bc_row_range :: "u32 \<times> u32"
  bc_schema_id :: u32
  bc_claim_id :: uuid
  bc_instance_id :: uuid
  bc_lease_expires_at :: u64
  bc_lease_ttl_millis :: u64
  bc_claimed_at :: nat

record stage_checkpoint =
  sc_batch_id :: u64
  sc_stage_idx :: u32
  sc_payload :: bytes
  sc_schema_id :: u32
  sc_created_at :: u64

record 's store_backend =
  sb_propose :: "consensus_command \<Rightarrow> 's \<Rightarrow> consensus_response saci_result \<times> 's"
  sb_scan :: "'s \<Rightarrow> (u64 \<times> u32 \<times> u32) option saci_result \<times> 's"
  sb_read_checkpoint :: "'s \<Rightarrow> uuid \<Rightarrow> u32 \<Rightarrow> checkpoint_record option saci_result"
  sb_schema_id :: "'s \<Rightarrow> u32 option saci_result"
  sb_lease_ttl_millis :: u64
  sb_debug :: "consensus_response \<Rightarrow> string"

record environment =
  env_uuid :: "nat \<Rightarrow> uuid"
  env_now :: "nat \<Rightarrow> u64"
  env_instant :: "nat \<Rightarrow> nat"

definition DEFAULT_LEASE_TTL_MILLIS :: u64 where "DEFAULT_LEASE_TTL_MILLIS = 90000"
definition MAX_CONFLICT_RETRIES :: nat where "MAX_CONFLICT_RETRIES = 8"

text \<open>\<^verbatim>\<open>str::contains\<close>.\<close>

fun str_contains :: "string \<Rightarrow> string \<Rightarrow> bool" where
  "str_contains [] pat = (pat = [])"
| "str_contains (c # cs) pat = (take (length pat) (c # cs) = pat \<or> str_contains cs pat)"

definition is_transient_overlap_conflict :: "string \<Rightarrow> bool" where
  "is_transient_overlap_conflict msg = str_contains msg ''overlaps''"

section \<open>Claiming the next batch\<close>

text \<open>The backoff before the next attempt, in milliseconds.\<close>

definition conflict_delay :: "nat \<Rightarrow> uuid \<Rightarrow> u64" where
  "conflict_delay attempt claim_id =
     (let base_ms = 10 * push_bit (min attempt 6) 1;
          jitter_ms = drop_bit 32 (ucast claim_id :: u64) mod (base_ms div 2 + 1)
      in base_ms + jitter_ms)"

fun claim_attempts ::
  "'s store_backend \<Rightarrow> environment \<Rightarrow> uuid \<Rightarrow> nat \<Rightarrow> nat \<Rightarrow> 's \<Rightarrow>
     batch_claim option saci_result \<times> u64 list \<times> 's" where
  "claim_attempts B E instance_id attempt 0 s =
     (Inl (Generic (''claim_next_batch: exhausted retries after '' @
        dec_string MAX_CONFLICT_RETRIES @ '' transient overlap conflicts'')), [], s)"
| "claim_attempts B E instance_id attempt (Suc left) s =
     (case sb_scan B s of
        (Inl e, s1) \<Rightarrow> (Inl e, [], s1)
      | (Inr None, s1) \<Rightarrow> (Inr None, [], s1)
      | (Inr (Some (batch_id, row_start, row_end)), s1) \<Rightarrow>
          let claim_id = env_uuid E attempt;
              cmd = ClaimRowRange batch_id row_start row_end claim_id instance_id
                      (sb_lease_ttl_millis B) (env_now E attempt)
          in case sb_propose B cmd s1 of
               (Inl e, s2) \<Rightarrow> (Inl e, [], s2)
             | (Inr response, s2) \<Rightarrow>
                 (case response of
                    BatchClaimed b cmp rs re sch c i lease \<Rightarrow>
                      (Inr (Some \<lparr>bc_batch_id = b, bc_component = cmp, bc_row_range = (rs, re),
                         bc_schema_id = sch, bc_claim_id = c, bc_instance_id = i,
                         bc_lease_expires_at = lease,
                         bc_lease_ttl_millis = sb_lease_ttl_millis B,
                         bc_claimed_at = env_instant E attempt\<rparr>), [], s2)
                  | NoBatchAvailable \<Rightarrow> (Inr None, [], s2)
                  | Error message \<Rightarrow>
                      if is_transient_overlap_conflict (msg_text message)
                      then (case claim_attempts B E instance_id (attempt + 1) left s2 of
                              (r, delays, s3) \<Rightarrow>
                                (r, conflict_delay attempt claim_id # delays, s3))
                      else (Inl (Generic (''claim_next_batch hard failure: '' @ msg_text message)),
                            [], s2)
                  | other \<Rightarrow>
                      (Inl (Generic (''claim_next_batch unexpected response: '' @
                         sb_debug B other)), [], s2)))"

definition claim_next_batch ::
  "'s store_backend \<Rightarrow> environment \<Rightarrow> uuid \<Rightarrow> 's \<Rightarrow>
     batch_claim option saci_result \<times> u64 list \<times> 's" where
  "claim_next_batch B E instance_id s = claim_attempts B E instance_id 0 MAX_CONFLICT_RETRIES s"

section \<open>The other operations\<close>

text \<open>
  One proposal and the translation of its response; the success response is selected by \<open>pick\<close>,
  and the two error texts start with the given prefixes.
\<close>

definition propose_expect ::
  "'s store_backend \<Rightarrow> string \<Rightarrow> string \<Rightarrow> (consensus_response \<Rightarrow> 'a option) \<Rightarrow>
     consensus_command \<Rightarrow> 's \<Rightarrow> 'a saci_result \<times> 's" where
  "propose_expect B failed unexpected pick cmd s =
     (case sb_propose B cmd s of
        (Inl e, s') \<Rightarrow> (Inl e, s')
      | (Inr response, s') \<Rightarrow>
          (case pick response of
             Some x \<Rightarrow> (Inr x, s')
           | None \<Rightarrow>
               (case response of
                  Error message \<Rightarrow> (Inl (Generic (failed @ msg_text message)), s')
                | other \<Rightarrow> (Inl (Generic (unexpected @ sb_debug B other)), s'))))"

definition register_master_batch ::
  "'s store_backend \<Rightarrow> u64 \<Rightarrow> string \<Rightarrow> u32 \<Rightarrow> bytes \<Rightarrow> u32 \<Rightarrow> u64 \<Rightarrow> 's \<Rightarrow> unit saci_result \<times> 's" where
  "register_master_batch B batch_id component schema_id ipc_bytes total_rows now s =
     (if length ipc_bytes > MAX_LOG_ENTRY_BYTES
      then (Inl (Generic (''register_master_batch: ipc_bytes ('' @ dec_string (length ipc_bytes) @
              '' bytes) > MAX_LOG_ENTRY_BYTES ('' @ dec_string MAX_LOG_ENTRY_BYTES @
              ''). Split the batch before proposing.'')), s)
      else propose_expect B ''register_master_batch: ''
        ''register_master_batch unexpected response: ''
        (\<lambda>r. case r of MasterBatchRegistered _ \<Rightarrow> Some () | _ \<Rightarrow> None)
        (RegisterMasterBatch batch_id component schema_id ipc_bytes total_rows now) s)"

definition propose_reclaim_expired :: "'s store_backend \<Rightarrow> u64 \<Rightarrow> 's \<Rightarrow> u32 saci_result \<times> 's" where
  "propose_reclaim_expired B now_millis =
     propose_expect B ''propose_reclaim_expired: ''
       ''propose_reclaim_expired unexpected response: ''
       (\<lambda>r. case r of ExpiredReclaimed n \<Rightarrow> Some n | _ \<Rightarrow> None) (ReclaimExpired now_millis)"

definition renew_claim :: "'s store_backend \<Rightarrow> uuid \<Rightarrow> uuid \<Rightarrow> u64 \<Rightarrow> 's \<Rightarrow> u64 saci_result \<times> 's" where
  "renew_claim B claim_id instance_id now =
     propose_expect B ''renew_claim failed: '' ''renew_claim unexpected response: ''
       (\<lambda>r. case r of ClaimRenewed t \<Rightarrow> Some t | _ \<Rightarrow> None)
       (RenewClaim claim_id instance_id (sb_lease_ttl_millis B) now)"

definition ack_claim :: "'s store_backend \<Rightarrow> uuid \<Rightarrow> uuid \<Rightarrow> 's \<Rightarrow> unit saci_result \<times> 's" where
  "ack_claim B claim_id instance_id =
     propose_expect B ''ack_claim failed: '' ''ack_claim unexpected response: ''
       (\<lambda>r. case r of ClaimAcked \<Rightarrow> Some () | _ \<Rightarrow> None) (AckClaim claim_id instance_id)"

definition release_claim :: "'s store_backend \<Rightarrow> uuid \<Rightarrow> uuid \<Rightarrow> 's \<Rightarrow> unit saci_result \<times> 's" where
  "release_claim B claim_id instance_id =
     propose_expect B ''release_claim failed: '' ''release_claim unexpected response: ''
       (\<lambda>r. case r of ClaimReleased \<Rightarrow> Some () | _ \<Rightarrow> None) (ReleaseClaim claim_id instance_id)"

definition save_checkpoint ::
  "'s store_backend \<Rightarrow> uuid \<Rightarrow> u32 \<Rightarrow> bytes \<Rightarrow> u32 \<Rightarrow> u64 \<Rightarrow> 's \<Rightarrow> unit saci_result \<times> 's" where
  "save_checkpoint B claim_id stage_idx ipc_bytes schema_id now s =
     (if length ipc_bytes > MAX_LOG_ENTRY_BYTES
      then (Inl (Generic (''save_checkpoint: ipc_bytes ('' @ dec_string (length ipc_bytes) @
              '' bytes) > MAX_LOG_ENTRY_BYTES. Split per component.'')), s)
      else propose_expect B ''save_checkpoint failed: '' ''save_checkpoint unexpected response: ''
        (\<lambda>r. case r of CheckpointWritten _ \<Rightarrow> Some () | _ \<Rightarrow> None)
        (Checkpoint claim_id stage_idx ipc_bytes schema_id now) s)"

definition load_checkpoint ::
  "'s store_backend \<Rightarrow> uuid \<Rightarrow> u32 \<Rightarrow> 's \<Rightarrow> stage_checkpoint option saci_result" where
  "load_checkpoint B claim_id stage_idx s =
     res_bind (sb_read_checkpoint B s claim_id stage_idx)
       (\<lambda>record. Inr (map_option (\<lambda>r. \<lparr>sc_batch_id = cp_batch_id r, sc_stage_idx = cp_stage_idx r,
          sc_payload = cp_ipc_bytes r, sc_schema_id = cp_schema_id r,
          sc_created_at = cp_created_at r\<rparr>) record))"

section \<open>The single-node store\<close>

text \<open>
  \<^verbatim>\<open>SingleNodeStore\<close> without a proposal channel: a proposal is a direct \<^verbatim>\<open>apply\<close>, a scan a direct read.
\<close>

definition single_node :: "hasher \<Rightarrow> u64 \<Rightarrow> (consensus_response \<Rightarrow> string) \<Rightarrow> database store_backend" where
  "single_node H ttl dbg =
     \<lparr>sb_propose = (\<lambda>cmd db. apply_command H db cmd),
      sb_scan = (\<lambda>db. (find_first_pending_batch db, db)),
      sb_read_checkpoint = (\<lambda>db c i. Inr (read_checkpoint db c i)),
      sb_schema_id = (\<lambda>db. Inr (find_data_checkpoint_schema_id db)),
      sb_lease_ttl_millis = ttl, sb_debug = dbg\<rparr>"

section \<open>Lease renewal and checkpoint frequency\<close>

definition should_renew :: "batch_claim \<Rightarrow> u64 \<Rightarrow> bool" where
  "should_renew claim elapsed_ms =
     (let remaining_ms = u64_saturating_sub (bc_lease_ttl_millis claim) elapsed_ms;
          threshold = min (bc_lease_ttl_millis claim * 3 div 10) 10000
      in remaining_ms < threshold)"

datatype checkpoint_strategy = EveryStage | EveryNStages nat | NoCheckpoint

fun should_checkpoint :: "checkpoint_strategy \<Rightarrow> nat \<Rightarrow> bool" where
  "should_checkpoint EveryStage stage_idx = True"
| "should_checkpoint (EveryNStages n) stage_idx = (n > 0 \<and> (stage_idx + 1) mod n = 0)"
| "should_checkpoint NoCheckpoint stage_idx = False"

end
