(* ===== verification/Store_Properties.thy ===== *)
theory Store_Properties
  imports Store
begin

text \<open>
  Properties of the store: a granted claim is stored for the caller, the retry loop is bounded and
  only overlap conflicts are retried, the size checks on both sides of a proposal, and the lease
  renewal threshold. What the claim loop needs of a backend is the locale \<open>linearized_store\<close>: a
  proposal takes effect as one command somewhere between commands of other instances. The
  single-node store satisfies it with no other commands in between.
\<close>

section \<open>The contract of a backend\<close>

locale linearized_store =
  fixes B :: "'s store_backend" and H :: hasher and view :: "'s \<Rightarrow> database"
  assumes propose_applies: "sb_propose B cmd s = (Inr r, s') \<Longrightarrow>
      \<exists>others. apply_command H (run_commands H (view s) others) cmd = (Inr r, view s')"
    and propose_fails: "sb_propose B cmd s = (Inl e, s') \<Longrightarrow>
      \<exists>others. view s' = run_commands H (view s) others"
    and scan_keeps: "sb_scan B s = (q, s') \<Longrightarrow> \<exists>others. view s' = run_commands H (view s) others"
begin

lemma scan_reachable: "reachable H (view s) \<Longrightarrow> sb_scan B s = (r, s') \<Longrightarrow> reachable H (view s')"
  using scan_keeps reachable_run by metis

lemma propose_reachable:
  assumes "reachable H (view s)" "sb_propose B cmd s = (r, s')"
  shows "reachable H (view s')"
proof (cases r)
  case (Inl e)
  then show ?thesis using assms propose_fails reachable_run by metis
next
  case (Inr x)
  then obtain others where "apply_command H (run_commands H (view s) others) cmd = (Inr x, view s')"
    using propose_applies assms(2) by blast
  then show ?thesis
    using reachable.step [OF reachable_run [OF assms(1)], of others cmd] by simp
qed

end

section \<open>A granted claim is stored\<close>

definition claim_held :: "database \<Rightarrow> batch_claim \<Rightarrow> bool" where
  "claim_held db bc \<longleftrightarrow> fst (bc_row_range bc) < snd (bc_row_range bc) \<and>
     (\<exists>r. read_claim db (bc_claim_id bc) = Some r \<and> cl_batch_id r = bc_batch_id bc \<and>
        cl_row_range_start r = fst (bc_row_range bc) \<and> cl_row_range_end r = snd (bc_row_range bc) \<and>
        cl_instance_id r = uuid_bytes (bc_instance_id bc) \<and>
        cl_lease_expires_at r = bc_lease_expires_at bc)"

lemma granted_claim_stored:
  assumes inv: "sm_inv db"
    and ok: "apply_claim_row_range db b s e c i ttl now = (Inr (BatchClaimed b' cmp s' e' sch c' i' lease), db')"
  shows "c' = c \<and> i' = i \<and> b' = b \<and> s' = s \<and> e' = e \<and> s < e \<and>
    (\<exists>r. read_claim db' c = Some r \<and> cl_batch_id r = b \<and> cl_row_range_start r = s \<and>
       cl_row_range_end r = e \<and> cl_instance_id r = uuid_bytes i \<and> cl_lease_expires_at r = lease)"
proof (cases "claim_replay db b s e c i")
  case None
  note out = claim_no_replay [OF inv None, of ttl now] ok
  obtain batch where batch: "read_master_batch db b = Some batch"
    using out by (cases "read_master_batch db b") (simp_all split: if_splits)
  show ?thesis
    using out claim_of_put_claim [OF sm_inv_wf [OF inv]]
    unfolding batch by (auto simp: read_claim_eq split: if_splits)
next
  case (Some early)
  then have early: "early = Inr (BatchClaimed b' cmp s' e' sch c' i' lease)" "db' = db" "s < e"
    using ok by (auto simp: apply_claim_row_range_def split: if_splits)
  obtain r where r: "claim_of db (uuid_bytes c) = Some r"
    "cl_batch_id r = b \<and> cl_row_range_start r = s \<and> cl_row_range_end r = e \<and>
     cl_instance_id r = uuid_bytes i"
    using Some by (auto simp: claim_replay_def claim_of_def split: option.splits if_splits)
  then have "c' = c \<and> i' = i \<and> b' = b \<and> s' = s \<and> e' = e \<and> cl_lease_expires_at r = lease"
    using Some early(1) by (auto simp: claim_replay_def claim_of_def split: option.splits if_splits)
  then show ?thesis using r early by (simp add: read_claim_eq)
qed

context linearized_store
begin

lemma claim_attempts_held:
  "reachable H (view s) \<Longrightarrow> claim_attempts B E i attempt left s = (Inr (Some bc), ds, s') \<Longrightarrow>
   reachable H (view s') \<and> bc_instance_id bc = i \<and> claim_held (view s') bc"
proof (induction left arbitrary: s attempt ds)
  case 0
  then show ?case by simp
next
  case (Suc left)
  obtain q s1 where q: "sb_scan B s = (q, s1)" by (cases "sb_scan B s")
  then obtain b rs re where range: "q = Inr (Some (b, rs, re))"
    using Suc.prems(2) by (auto split: sum.splits option.splits)
  have r1: "reachable H (view s1)" using scan_reachable [OF Suc.prems(1) q] .
  let ?cmd = "ClaimRowRange b rs re (env_uuid E attempt) i (sb_lease_ttl_millis B) (env_now E attempt)"
  obtain p s2 where p: "sb_propose B ?cmd s1 = (p, s2)" by (cases "sb_propose B ?cmd s1")
  then obtain resp where resp: "p = Inr resp" using Suc.prems(2) q range by (auto split: sum.splits)
  have r2: "reachable H (view s2)" using propose_reachable [OF r1 p] .
  obtain others where app: "apply_command H (run_commands H (view s1) others) ?cmd = (Inr resp, view s2)"
    using propose_applies [OF p [unfolded resp]] by blast
  have inv: "sm_inv (run_commands H (view s1) others)" by (intro reachable_inv [of H] reachable_run r1)
  show ?case
  proof (cases resp)
    case (BatchClaimed b' cmp rs' re' sch c' i' lease)
    have "s' = s2" "bc = \<lparr>bc_batch_id = b', bc_component = cmp, bc_row_range = (rs', re'),
        bc_schema_id = sch, bc_claim_id = c', bc_instance_id = i', bc_lease_expires_at = lease,
        bc_lease_ttl_millis = sb_lease_ttl_millis B, bc_claimed_at = env_instant E attempt\<rparr>"
      using Suc.prems(2) q range p resp BatchClaimed by (auto simp: Let_def)
    then show ?thesis
      using granted_claim_stored [OF inv app [unfolded BatchClaimed apply_command.simps]] r2
      by (auto simp: claim_held_def)
  next
    case (Error msg)
    then obtain ds' where "claim_attempts B E i (Suc attempt) left s2 = (Inr (Some bc), ds', s')"
      using Suc.prems(2) q range p resp by (auto simp: Let_def split: if_splits prod.splits)
    then show ?thesis using Suc.IH [OF r2] by blast
  qed (use Suc.prems(2) q range p resp in \<open>auto simp: Let_def\<close>)
qed

end

interpretation sn: linearized_store "single_node H ttl dbg" H "\<lambda>db. db"
proof
  fix cmd s r s'
  assume "sb_propose (single_node H ttl dbg) cmd s = (Inr r, s')"
  then show "\<exists>others. apply_command H (run_commands H s others) cmd = (Inr r, s')"
    by (intro exI [of _ "[]"]) (simp add: single_node_def)
next
  fix cmd s e s'
  assume "sb_propose (single_node H ttl dbg) cmd s = (Inl e, s')"
  then show "\<exists>others. s' = run_commands H s others"
    by (intro exI [of _ "[cmd]"]) (simp add: single_node_def)
next
  fix s r s'
  assume "sb_scan (single_node H ttl dbg) s = (r, s')"
  then show "\<exists>others. s' = run_commands H s others"
    by (intro exI [of _ "[]"]) (simp add: single_node_def)
qed

text \<open>
  When \<^verbatim>\<open>claim_next_batch\<close> of the single-node store hands out a claim, the claim is for the
  calling instance, its range is not empty, and the state machine stores a claim with that id,
  batch, range, holder and lease expiry.
\<close>

theorem claim_next_batch_held:
  assumes "reachable H db"
    and "claim_next_batch (single_node H ttl dbg) E i db = (Inr (Some bc), ds, db')"
  shows "bc_instance_id bc = i \<and> claim_held db' bc"
  using sn.claim_attempts_held [OF assms(1)] assms(2) unfolding claim_next_batch_def by blast

definition demo_env :: environment where
  "demo_env = \<lparr>env_uuid = (\<lambda>n. of_nat n + 20), env_now = (\<lambda>n. 1000), env_instant = (\<lambda>n. n)\<rparr>"

theorem claim_next_batch_held_witness:
  "\<exists>bc db'. claim_held db' bc \<and> bc_row_range bc = (4, 10)"
proof -
  let ?db = "run_commands fnv1a empty_database [demo_register, demo_claim]"
  let ?bc = "\<lparr>bc_batch_id = 7, bc_component = ''c'', bc_row_range = (4, 10), bc_schema_id = 1,
    bc_claim_id = 20, bc_instance_id = 9, bc_lease_expires_at = 1050, bc_lease_ttl_millis = 50,
    bc_claimed_at = 0\<rparr>"
  have "fst (claim_next_batch (single_node fnv1a 50 (\<lambda>_. '''')) demo_env 9 ?db) = Inr (Some ?bc)"
    by code_simp
  then obtain ds db' where "claim_next_batch (single_node fnv1a 50 (\<lambda>_. '''')) demo_env 9 ?db =
      (Inr (Some ?bc), ds, db')" by (metis prod.collapse)
  from claim_next_batch_held [OF reachable_run [OF reachable.init] this] show ?thesis by auto
qed

text \<open>
  On a single node the loop needs one attempt: when the scan finds a range within its batch and
  the first generated claim id is unused, it returns a claim on exactly that range, without a
  retry.
\<close>

theorem single_node_claims_first_try:
  assumes "reachable H db" and "find_first_pending_batch db = Inr (Some (b, s, e))"
    and "read_master_batch db b = Some r" "e \<le> mb_total_rows r" "read_claim db (env_uuid E 0) = None"
  shows "\<exists>db'. claim_next_batch (single_node H ttl dbg) E i db =
    (Inr (Some \<lparr>bc_batch_id = b, bc_component = mb_component r, bc_row_range = (s, e),
       bc_schema_id = mb_schema_id r, bc_claim_id = env_uuid E 0, bc_instance_id = i,
       bc_lease_expires_at = env_now E 0 + ttl, bc_lease_ttl_millis = ttl,
       bc_claimed_at = env_instant E 0\<rparr>), [], db')"
proof -
  have inv: "sm_inv db" using assms(1) by (rule reachable_inv)
  have "fst (apply_claim_row_range db b s e (env_uuid E 0) i ttl (env_now E 0)) =
      Inr (BatchClaimed b (mb_component r) s e (mb_schema_id r) (env_uuid E 0) i (env_now E 0 + ttl))"
    by (rule pending_range_claimable [OF inv assms(2-5)])
  then obtain db' where "apply_claim_row_range db b s e (env_uuid E 0) i ttl (env_now E 0) =
      (Inr (BatchClaimed b (mb_component r) s e (mb_schema_id r) (env_uuid E 0) i (env_now E 0 + ttl)), db')"
    by (cases "apply_claim_row_range db b s e (env_uuid E 0) i ttl (env_now E 0)") auto
  then show ?thesis
    using assms(2) by (simp add: claim_next_batch_def MAX_CONFLICT_RETRIES_def eval_nat_numeral
        single_node_def)
qed

theorem single_node_claims_first_try_witness:
  "\<exists>db' bc. claim_next_batch (single_node fnv1a 50 (\<lambda>_. [])) demo_env 9
     (run_commands fnv1a empty_database [demo_register, demo_claim]) = (Inr (Some bc), [], db')"
proof -
  let ?db = "run_commands fnv1a empty_database [demo_register, demo_claim]"
  let ?r = "\<lparr>mb_batch_id = 7, mb_component = ''c'', mb_schema_id = 1,
       mb_ipc_bytes = [1, 2], mb_total_rows = 10, mb_created_at = 100, mb_checkpoint_seq = 0,
       mb_release_attempts = 0, mb_status = Active, mb_poisoned_at = None\<rparr>"
  have "find_first_pending_batch ?db = Inr (Some (7, 4, 10))"
    "read_master_batch ?db 7 = Some ?r" "read_claim ?db (env_uuid demo_env 0) = None" by code_simp+
  then show ?thesis
    using single_node_claims_first_try [OF reachable_run [OF reachable.init], of fnv1a
        "[demo_register, demo_claim]" 7 4 10 ?r demo_env 50 "\<lambda>_. []" 9] by fastforce
qed

section \<open>Bounds of the retry loop\<close>

lemma conflict_delay_bounds:
  "10 \<le> unat (conflict_delay attempt c) \<and> unat (conflict_delay attempt c) \<le> 960"
proof -
  define m where "m = min attempt 6"
  define k :: nat where "k = 10 * 2 ^ m"
  have "(2 :: nat) ^ m \<le> 2 ^ 6" by (rule power_increasing) (simp_all add: m_def)
  then have k: "10 \<le> k" "k \<le> 640" by (simp_all add: k_def)
  have base: "10 * push_bit m 1 = (word_of_nat k :: u64)"
    by (simp add: k_def push_bit_eq_mult)
  let ?j = "drop_bit 32 (ucast c :: u64) mod (word_of_nat k div 2 + 1)"
  have uk: "unat (word_of_nat k :: u64) = k" using k by (simp add: unat_of_nat)
  have half: "unat (word_of_nat k div 2 + 1 :: u64) = k div 2 + 1"
    using k(2) by (simp add: unat_word_ariths unat_div uk)
  have "unat ?j < k div 2 + 1" unfolding unat_mod half by simp
  then have j: "unat ?j \<le> 320" using k(2) by linarith
  have "unat (word_of_nat k + ?j) = k + unat ?j"
    using j k(2) by (simp only: unat_word_ariths uk) simp
  then show ?thesis
    using j k unfolding conflict_delay_def Let_def m_def [symmetric] base by linarith
qed

text \<open>One attempt either ends the loop or reports a retryable conflict.\<close>

lemma claim_attempts_step:
  "(\<exists>r s'. claim_attempts B E i attempt (Suc left) s = (r, [], s')) \<or>
   (\<exists>s2. claim_attempts B E i attempt (Suc left) s =
      (case claim_attempts B E i (attempt + 1) left s2 of
         (r, ds, s3) \<Rightarrow> (r, conflict_delay attempt (env_uuid E attempt) # ds, s3)))"
  by (simp add: Let_def split: prod.split sum.split option.split consensus_response.split)
    (metis Pair_inject)

lemma claim_attempts_delays:
  "claim_attempts B E i attempt left s = (r, ds, s') \<Longrightarrow>
   length ds \<le> left \<and> list_all (\<lambda>d. 10 \<le> unat d \<and> unat d \<le> 960) ds"
proof (induction left arbitrary: attempt s r ds s')
  case 0
  then show ?case by simp
next
  case (Suc left)
  from claim_attempts_step [of B E i attempt left s] show ?case
  proof (elim disjE exE conjE)
    fix s2
    assume "claim_attempts B E i attempt (Suc left) s =
      (case claim_attempts B E i (attempt + 1) left s2 of
         (r, ds, s3) \<Rightarrow> (r, conflict_delay attempt (env_uuid E attempt) # ds, s3))"
    then show ?thesis
      using Suc conflict_delay_bounds by (auto split: prod.splits)
  qed (use Suc.prems in simp)
qed

text \<open>
  Whatever the backend answers, \<^verbatim>\<open>claim_next_batch\<close> returns after at most eight attempts, and
  every pause between attempts is between 10 and 960 milliseconds.
\<close>

theorem claim_next_batch_bounded:
  "case claim_next_batch B E i s of (r, delays, s') \<Rightarrow>
     length delays \<le> MAX_CONFLICT_RETRIES \<and> list_all (\<lambda>d. 10 \<le> unat d \<and> unat d \<le> 960) delays"
  using claim_attempts_delays [of B E i 0 MAX_CONFLICT_RETRIES s]
  by (auto simp: claim_next_batch_def split: prod.splits)

section \<open>Which errors are retried\<close>

lemma str_contains_chars: "str_contains xs pat \<Longrightarrow> set pat \<subseteq> set xs"
proof (induction xs)
  case (Cons x xs)
  then show ?case using set_take_subset [of "length pat" "x # xs"] by auto
qed simp

lemma str_contains_append: "str_contains (xs @ pat @ ys) pat"
proof (induction xs)
  case Nil
  have "take (length pat) (pat @ ys) = pat" by simp
  then show ?case by (cases "pat @ ys") (simp, metis append_Nil str_contains.simps(2))
qed simp

lemma uuid_string_chars: "c \<in> set (uuid_string u) \<Longrightarrow> of_char c \<in> {45} \<union> {48..57} \<union> {97..102 :: nat}"
proof -
  have byte: "of_char c \<in> {48..57} \<union> {97..102 :: nat}" if "c \<in> set (hex_byte b)" for b c
  proof -
    have "unat b < 256" using unsigned_less [of b, where ?'a = nat] by simp
    then have "unat b div 16 < 16" "unat b mod 16 < 16" by simp_all
    from hex_digit_code [OF this(1)] hex_digit_code [OF this(2)] that show ?thesis
      by (auto simp: hex_byte_def)
  qed
  assume "c \<in> set (uuid_string u)"
  then have "c = CHR ''-'' \<or> (\<exists>b. c \<in> set (hex_byte b))"
    by (auto simp: uuid_string_def Let_def)
  then show ?thesis using byte by auto
qed

lemma no_letter_v:
  "CHR ''v'' \<notin> set (dec_string n)" "CHR ''v'' \<notin> set (uuid_string u)" "CHR ''p'' \<notin> set (dec_string n)"
  using dec_string_digits [of "CHR ''v''" n] dec_string_digits [of "CHR ''p''" n]
    uuid_string_chars [of "CHR ''v''" u] by auto

text \<open>
  The text classifier of the claim loop is exact on the messages of the state machine: it
  retries the overlap refusal and no other error.
\<close>

theorem transient_conflict_exact:
  "is_transient_overlap_conflict (msg_text m) \<longleftrightarrow> (\<exists>s e. m = MsgRangeOverlaps s e)"
proof
  assume "\<exists>s e. m = MsgRangeOverlaps s e"
  then obtain s e where m: "m = MsgRangeOverlaps s e" by blast
  show "is_transient_overlap_conflict (msg_text m)"
    using str_contains_append [of "''row_range ['' @ u32_string s @ '', '' @ u32_string e @ '') ''"
        "''overlaps''" "'' an existing active claim''"]
    by (simp add: m is_transient_overlap_conflict_def)
next
  assume "is_transient_overlap_conflict (msg_text m)"
  then have "CHR ''v'' \<in> set (msg_text m)" "CHR ''p'' \<in> set (msg_text m)"
    using str_contains_chars [of "msg_text m" "''overlaps''"]
    by (auto simp: is_transient_overlap_conflict_def)
  then show "\<exists>s e. m = MsgRangeOverlaps s e"
    by (cases m) (auto simp: no_letter_v u32_string_def u64_string_def)
qed

section \<open>Size limits and leases\<close>

text \<open>
  On a single node a batch is registered exactly when its payload is below 1 MiB. A payload of
  exactly 1 MiB passes the check of the store, is proposed, and is refused by the state machine.
\<close>

theorem register_size_limit:
  "(fst (register_master_batch (single_node H ttl dbg) b cmp sch ipc rows now db) = Inr () \<longleftrightarrow>
      length ipc < MAX_LOG_ENTRY_BYTES) \<and>
   (length ipc = MAX_LOG_ENTRY_BYTES \<longrightarrow>
      register_master_batch (single_node H ttl dbg) b cmp sch ipc rows now db =
        (Inl (Generic (''register_master_batch: '' @ msg_text (MsgRegisterTooLarge (length ipc)))), db))"
  by (auto simp: register_master_batch_def propose_expect_def single_node_def
      apply_register_master_batch_def Let_def not_less)

theorem register_size_limit_witness:
  "\<exists>msg. register_master_batch (single_node fnv1a 50 (\<lambda>_. [])) 1 [] 0
      (replicate MAX_LOG_ENTRY_BYTES 0) 5 0 empty_database = (Inl (Generic msg), empty_database)"
  using register_size_limit [of fnv1a 50 "\<lambda>_. []" 1 "[]" 0 "replicate MAX_LOG_ENTRY_BYTES 0" 5 0
      empty_database] by simp

text \<open>
  The renewal threshold: as long as three times the lease fits 64 bits, renewal is due exactly
  when the time left is below both 30 percent of the lease and 10 seconds; an expired lease of at
  least 4 ms is always due.
\<close>

theorem should_renew_threshold:
  assumes "3 * unat (bc_lease_ttl_millis claim) < 2 ^ 64"
  shows "(should_renew claim elapsed \<longleftrightarrow>
      unat (bc_lease_ttl_millis claim) - unat elapsed <
        min (3 * unat (bc_lease_ttl_millis claim) div 10) 10000) \<and>
    (4 \<le> unat (bc_lease_ttl_millis claim) \<and> bc_lease_ttl_millis claim \<le> elapsed \<longrightarrow>
      should_renew claim elapsed)"
proof -
  let ?t = "bc_lease_ttl_millis claim"
  have mul: "unat (?t * 3) = 3 * unat ?t" using assms by (simp add: unat_word_ariths mult.commute)
  have thr: "unat (min (?t * 3 div 10) 10000) = min (3 * unat ?t div 10) 10000"
    by (simp add: min_def word_le_nat_alt unat_div mul)
  have sub: "unat (u64_saturating_sub ?t elapsed) = unat ?t - unat elapsed"
    by (auto simp: u64_saturating_sub_def word_less_nat_alt unat_sub_if_size)
  have "should_renew claim elapsed \<longleftrightarrow> unat ?t - unat elapsed < min (3 * unat ?t div 10) 10000"
    by (simp only: should_renew_def Let_def word_less_nat_alt sub thr)
  then show ?thesis by (auto simp: word_le_nat_alt)
qed

theorem should_renew_threshold_witness:
  "should_renew \<lparr>bc_batch_id = 7, bc_component = ''c'', bc_row_range = (4, 10), bc_schema_id = 1,
     bc_claim_id = 20, bc_instance_id = 9, bc_lease_expires_at = 1050, bc_lease_ttl_millis = 90000,
     bc_claimed_at = 0\<rparr> 80001"
proof -
  let ?c = "\<lparr>bc_batch_id = 7, bc_component = ''c'', bc_row_range = (4, 10), bc_schema_id = 1,
     bc_claim_id = 20, bc_instance_id = 9, bc_lease_expires_at = 1050, bc_lease_ttl_millis = 90000,
     bc_claimed_at = 0\<rparr>"
  show ?thesis using should_renew_threshold [of ?c 80001] by simp
qed

end
