(* ===== verification/Snapshot_Format.thy ===== *)
theory Snapshot_Format
  imports Store_Properties
begin

text \<open>
  \<^verbatim>\<open>consensus/snapshot.rs\<close>: the framed byte format of a state snapshot. A 16-byte header (magic,
  version, CRC-32) precedes length-prefixed chunks and a zero sentinel. The crates \<^verbatim>\<open>postcard\<close>,
  \<^verbatim>\<open>uuid\<close> and \<^verbatim>\<open>hex\<close> enter as the record \<open>codec\<close>; an I/O error is its text.
\<close>

section \<open>Definitions\<close>

datatype snapshot_chunk =
    MasterBatches "master_batch_record list"
  | Claims "(string \<times> claim_record) list"
  | Checkpoints "(string \<times> checkpoint_record) list"
  | Instances "(string \<times> instance_record) list"

record codec =
  pc_encode :: "snapshot_chunk \<Rightarrow> string + bytes"
  pc_decode :: "bytes \<Rightarrow> string + snapshot_chunk"
  uuid_to_string :: "bytes \<Rightarrow> string"
  uuid_parse :: "string \<Rightarrow> string + bytes"
  hex_encode :: "bytes \<Rightarrow> string"
  hex_decode :: "string \<Rightarrow> string + bytes"

text \<open>\<^verbatim>\<open>b"ARROWSNA"\<close>.\<close>

definition SNAPSHOT_MAGIC :: bytes where
  "SNAPSHOT_MAGIC = [65, 82, 82, 79, 87, 83, 78, 65]"
definition SNAPSHOT_VERSION :: u32 where "SNAPSHOT_VERSION = 2"
definition HEADER_LEN :: nat where "HEADER_LEN = 16"

definition crc_poly :: u32 where "crc_poly = 0xEDB88320"

definition crc_bit :: "u32 \<Rightarrow> u32" where
  "crc_bit crc = (if crc AND 1 \<noteq> 0 then drop_bit 1 crc XOR crc_poly else drop_bit 1 crc)"

definition crc_byte :: "u32 \<Rightarrow> u8 \<Rightarrow> u32" where
  "crc_byte crc byte = (crc_bit ^^ 8) (crc XOR ucast byte)"

definition crc32 :: "bytes \<Rightarrow> u32" where
  "crc32 data = foldl crc_byte 0xFFFFFFFF data XOR 0xFFFFFFFF"

definition add_header :: "bytes \<Rightarrow> bytes" where
  "add_header body = SNAPSHOT_MAGIC @ u32_le SNAPSHOT_VERSION @ u32_le (crc32 body) @ body"

text \<open>The refusals of \<^verbatim>\<open>strip_header\<close>, one constructor per error.\<close>

datatype header_error =
    TooShort nat
  | MagicMismatch bytes
  | VersionNotSupported u32
  | CrcMismatch u32 u32

text \<open>Their texts, with \<^verbatim>\<open>{:?}\<close> of a byte slice and \<^verbatim>\<open>{:#010x}\<close> of a \<^verbatim>\<open>u32\<close>.\<close>

fun debug_bytes_tail :: "bytes \<Rightarrow> string" where
  "debug_bytes_tail [] = []"
| "debug_bytes_tail (b # bs) = '', '' @ dec_string (unat b) @ debug_bytes_tail bs"

definition debug_bytes :: "bytes \<Rightarrow> string" where
  "debug_bytes bs = (case bs of [] \<Rightarrow> ''[]''
     | b # rest \<Rightarrow> ''['' @ dec_string (unat b) @ debug_bytes_tail rest @ '']'')"

definition hex_u32 :: "u32 \<Rightarrow> string" where
  "hex_u32 x = ''0x'' @ concat (map hex_byte (u32_be x))"

fun header_error_text :: "header_error \<Rightarrow> string" where
  "header_error_text (TooShort n) = ''snapshot too short: '' @ dec_string n @
     '' bytes (need at least '' @ dec_string HEADER_LEN @ '')''"
| "header_error_text (MagicMismatch m) = ''snapshot magic mismatch: got '' @ debug_bytes m"
| "header_error_text (VersionNotSupported v) = ''snapshot version '' @ u32_string v @
     '' not supported (expected '' @ u32_string SNAPSHOT_VERSION @ '')''"
| "header_error_text (CrcMismatch a b) = ''snapshot CRC-32 mismatch: stored '' @ hex_u32 a @
     '', computed '' @ hex_u32 b"

definition strip_header :: "bytes \<Rightarrow> header_error + bytes" where
  "strip_header data =
     (if length data < HEADER_LEN then Inl (TooShort (length data))
      else if take 8 data \<noteq> SNAPSHOT_MAGIC then Inl (MagicMismatch (take 8 data))
      else
        let version = u32_from_le (take 4 (drop 8 data))
        in if version \<noteq> SNAPSHOT_VERSION then Inl (VersionNotSupported version)
        else
          let stored_crc = u32_from_le (take 4 (drop 12 data));
              body = drop HEADER_LEN data;
              computed_crc = crc32 body
          in if stored_crc \<noteq> computed_crc then Inl (CrcMismatch stored_crc computed_crc)
          else Inr body)"

definition write_chunk :: "codec \<Rightarrow> snapshot_chunk \<Rightarrow> bytes \<Rightarrow> string + bytes" where
  "write_chunk K chunk out =
     (case pc_encode K chunk of
        Inl e \<Rightarrow> Inl (''snapshot chunk encode: '' @ e)
      | Inr bs \<Rightarrow> Inr (out @ u32_le (word_of_nat (length bs)) @ bs))"

text \<open>
  The reading loop; \<^verbatim>\<open>read_exact\<close> fails when fewer bytes are left than asked for. Every round takes
  at least the four bytes of the length.
\<close>

definition eof_text :: string where "eof_text = ''failed to fill whole buffer''"

function read_chunks :: "codec \<Rightarrow> bytes \<Rightarrow> string + snapshot_chunk list" where
  "read_chunks K body =
     (if length body < 4 then Inl eof_text
      else
        let len = unat (u32_from_le (take 4 body)); rest = drop 4 body
        in if len = 0 then Inr []
        else if length rest < len then Inl eof_text
        else
          (case pc_decode K (take len rest) of
             Inl e \<Rightarrow> Inl (''snapshot chunk decode: '' @ e)
           | Inr chunk \<Rightarrow> res_bind (read_chunks K (drop len rest)) (\<lambda>chunks. Inr (chunk # chunks))))"
  by pat_completeness auto
termination by (relation "measure (\<lambda>(K, body). length body)") auto

declare read_chunks.simps [simp del]

definition snapshot_chunks :: "codec \<Rightarrow> dumped_state \<Rightarrow> snapshot_chunk list" where
  "snapshot_chunks K d =
     [MasterBatches (ds_batches d),
      Claims (map (\<lambda>(id, rec). (uuid_to_string K id, rec)) (ds_claims d)),
      Checkpoints (map (\<lambda>(key, rec). (hex_encode K key, rec)) (ds_checkpoints d)),
      Instances (map (\<lambda>(id, rec). (uuid_to_string K id, rec)) (ds_instances d))]"

fun write_chunks :: "codec \<Rightarrow> snapshot_chunk list \<Rightarrow> bytes \<Rightarrow> string + bytes" where
  "write_chunks K [] out = Inr out"
| "write_chunks K (c # cs) out = res_bind (write_chunk K c out) (write_chunks K cs)"

definition build_snapshot_bytes :: "codec \<Rightarrow> database \<Rightarrow> bytes saci_result" where
  "build_snapshot_bytes K db =
     res_bind (dump_state db)
       (\<lambda>d. case write_chunks K (snapshot_chunks K d) [] of
          Inl e \<Rightarrow> Inl (Generic (''snapshot write: '' @ e))
        | Inr body \<Rightarrow> Inr (add_header (body @ u32_le 0)))"

text \<open>Parsing the textual keys of a chunk; the first failure ends the installation.\<close>

fun parse_keys :: "(string \<Rightarrow> 'e + bytes) \<Rightarrow> (string \<times> 'r) list \<Rightarrow> 'e + (bytes \<times> 'r) list" where
  "parse_keys parse [] = Inr []"
| "parse_keys parse ((k, rec) # rows) =
     res_bind (parse k) (\<lambda>key. res_bind (parse_keys parse rows) (\<lambda>rest. Inr ((key, rec) # rest)))"

definition parse_uuid_key :: "codec \<Rightarrow> string \<Rightarrow> string \<Rightarrow> bytes saci_result" where
  "parse_uuid_key K what s =
     (case uuid_parse K s of Inl e \<Rightarrow> Inl (Generic (what @ e)) | Inr b \<Rightarrow> Inr b)"

definition parse_hex_key :: "codec \<Rightarrow> string \<Rightarrow> bytes saci_result" where
  "parse_hex_key K s =
     (case hex_decode K s of
        Inl e \<Rightarrow> Inl (Generic (''snapshot checkpoint key: '' @ e))
      | Inr key \<Rightarrow>
          if length key \<noteq> 20 then Inl (Generic ''snapshot checkpoint key not 20 bytes'')
          else Inr key)"

definition add_chunk :: "codec \<Rightarrow> snapshot_chunk \<Rightarrow> dumped_state \<Rightarrow> dumped_state saci_result" where
  "add_chunk K chunk d =
     (case chunk of
        MasterBatches b \<Rightarrow> Inr (d\<lparr>ds_batches := b\<rparr>)
      | Claims c \<Rightarrow> res_bind (parse_keys (parse_uuid_key K ''snapshot claim uuid: '') c)
          (\<lambda>rows. Inr (d\<lparr>ds_claims := ds_claims d @ rows\<rparr>))
      | Checkpoints c \<Rightarrow> res_bind (parse_keys (parse_hex_key K) c)
          (\<lambda>rows. Inr (d\<lparr>ds_checkpoints := ds_checkpoints d @ rows\<rparr>))
      | Instances i \<Rightarrow> res_bind (parse_keys (parse_uuid_key K ''snapshot instance uuid: '') i)
          (\<lambda>rows. Inr (d\<lparr>ds_instances := ds_instances d @ rows\<rparr>)))"

fun add_chunks :: "codec \<Rightarrow> snapshot_chunk list \<Rightarrow> dumped_state \<Rightarrow> dumped_state saci_result" where
  "add_chunks K [] d = Inr d"
| "add_chunks K (c # cs) d = res_bind (add_chunk K c d) (add_chunks K cs)"

definition install_snapshot_bytes ::
  "codec \<Rightarrow> database \<Rightarrow> bytes \<Rightarrow> (bytes \<times> bytes) option \<Rightarrow> database saci_result" where
  "install_snapshot_bytes K db data meta =
     (case strip_header data of
        Inl e \<Rightarrow> Inl (Generic (''snapshot header invalid: '' @ header_error_text e))
      | Inr body \<Rightarrow>
          (case read_chunks K body of
             Inl e \<Rightarrow> Inl (Generic (''snapshot read: '' @ e))
           | Inr chunks \<Rightarrow>
               (case add_chunks K chunks \<lparr>ds_batches = [], ds_claims = [], ds_checkpoints = [],
                       ds_instances = []\<rparr> of
                  Inl e \<Rightarrow> Inl e
                | Inr d \<Rightarrow> Inr (restore_state db d meta))))"

section \<open>The checksum\<close>

lemma xor_cancel_word: "(x XOR z = y XOR z) = (x = (y :: 'a :: len word))"
  by (metis xor.assoc xor.right_neutral xor_self_eq)

lemma crc_bit_top: "bit (crc_bit c) 31 \<longleftrightarrow> bit c 0"
proof -
  have "bit crc_poly 31" by (simp add: crc_poly_def bit_numeral_rec(1))
  moreover have "c AND 1 \<noteq> 0 \<longleftrightarrow> bit c 0"
    by (simp add: bit_0 and_one_eq odd_iff_mod_2_eq_one)
  ultimately show ?thesis by (auto simp: crc_bit_def bit_drop_bit_eq bit_xor_iff dest: bit_imp_le_length)
qed

lemma crc_bit_inj: "crc_bit c = crc_bit d \<Longrightarrow> c = d"
proof -
  assume eq: "crc_bit c = crc_bit d"
  have b0: "bit c 0 \<longleftrightarrow> bit d 0" using crc_bit_top [of c] crc_bit_top [of d] eq by simp
  have "c AND 1 \<noteq> 0 \<longleftrightarrow> bit c 0" "d AND 1 \<noteq> 0 \<longleftrightarrow> bit d 0"
    by (simp_all add: bit_0 and_one_eq odd_iff_mod_2_eq_one)
  then have "drop_bit 1 c = drop_bit 1 d"
    using eq b0 by (auto simp: crc_bit_def xor_cancel_word split: if_splits)
  then have "bit c (Suc n) \<longleftrightarrow> bit d (Suc n)" for n
    by (metis bit_drop_bit_eq comp_apply plus_1_eq_Suc)
  with b0 show "c = d" by (metis bit_eqI not0_implies_Suc)
qed

lemma crc_byte_inj: "crc_byte c b = crc_byte d b' \<Longrightarrow> c XOR ucast b = d XOR ucast b'"
proof -
  have "inj crc_bit" by (rule injI) (rule crc_bit_inj)
  then have "inj (crc_bit ^^ n)" for n by (rule inj_fn)
  then show "crc_byte c b = crc_byte d b' \<Longrightarrow> c XOR ucast b = d XOR ucast b'"
    by (auto simp: crc_byte_def dest: injD)
qed

lemma foldl_crc_inj: "foldl crc_byte c xs = foldl crc_byte d xs \<Longrightarrow> c = d"
proof (induction xs arbitrary: c d)
  case (Cons x xs)
  then show ?case using crc_byte_inj [of c x d x] by (simp add: xor_cancel_word)
qed simp

lemma ucast_u8_inj: "(ucast b :: u32) = ucast (b' :: u8) \<Longrightarrow> b = b'"
proof (rule bit_word_eqI)
  fix n
  assume "(ucast b :: u32) = ucast b'" and n: "n < LENGTH(8)"
  then have "bit (ucast b :: u32) n \<longleftrightarrow> bit (ucast b' :: u32) n" by simp
  then show "bit b n \<longleftrightarrow> bit b' n" using n by (simp add: bit_ucast_iff)
qed

lemma crc32_byte_inj: "crc32 (xs @ b # ys) = crc32 (xs @ b' # ys) \<Longrightarrow> b = b'"
proof -
  assume "crc32 (xs @ b # ys) = crc32 (xs @ b' # ys)"
  then have "crc_byte (foldl crc_byte 0xFFFFFFFF xs) b = crc_byte (foldl crc_byte 0xFFFFFFFF xs) b'"
    by (auto simp: crc32_def xor_cancel_word dest: foldl_crc_inj)
  then have "(ucast b :: u32) = ucast b'"
    using crc_byte_inj [of "foldl crc_byte 0xFFFFFFFF xs" b "foldl crc_byte 0xFFFFFFFF xs" b']
      xor_cancel_word [of "ucast b" "foldl crc_byte 0xFFFFFFFF xs" "ucast b'"]
    by (simp add: xor.commute)
  then show "b = b'" by (rule ucast_u8_inj)
qed

section \<open>Framing\<close>

lemma strip_header_eq: "strip_header data = Inr body \<longleftrightarrow> data = add_header body"
proof
  assume "strip_header data = Inr body"
  then have h: "16 \<le> length data" "take 8 data = SNAPSHOT_MAGIC"
    "u32_from_le (take 4 (drop 8 data)) = SNAPSHOT_VERSION"
    "u32_from_le (take 4 (drop 12 data)) = crc32 (drop 16 data)" "body = drop 16 data"
    by (auto simp: strip_header_def Let_def HEADER_LEN_def not_less split: if_splits)
  have "take 4 (drop 8 data) = u32_le SNAPSHOT_VERSION"
    using h(1) by (simp add: u32_le_from_le flip: h(3))
  moreover have "take 4 (drop 12 data) = u32_le (crc32 body)"
    using h(1) by (simp add: h(5) u32_le_from_le flip: h(4))
  moreover have "data = take 8 data @ take 4 (drop 8 data) @ take 4 (drop 12 data) @ drop 16 data"
  proof -
    have "take 4 (drop 12 data) @ drop 16 data = drop 12 data"
      using append_take_drop_id [of 4 "drop 12 data"] by simp
    moreover have "take 4 (drop 8 data) @ drop 12 data = drop 8 data"
      using append_take_drop_id [of 4 "drop 8 data"] by simp
    ultimately show ?thesis by simp
  qed
  ultimately show "data = add_header body" by (simp add: add_header_def h)
next
  assume "data = add_header body"
  then show "strip_header data = Inr body"
    by (simp add: strip_header_def add_header_def SNAPSHOT_MAGIC_def HEADER_LEN_def)
qed

text \<open>
  Framing and unframing: a body comes back from its framed form, and whatever is accepted is
  the framed form of what is returned.
\<close>

theorem strip_header_iff: "strip_header data = Inr body \<longleftrightarrow> data = add_header body"
  by (rule strip_header_eq)

lemma add_header_parts: "drop 16 (add_header body) = body" "take 4 (drop 12 (add_header body)) = u32_le (crc32 body)"
  by (simp_all add: add_header_def SNAPSHOT_MAGIC_def)

lemma length_add_header [simp]: "length (add_header body) = 16 + length body"
  by (simp add: add_header_def SNAPSHOT_MAGIC_def)

text \<open>
  C20. Changing any single byte of a framed snapshot, in the header or in the body, makes it be
  refused.
\<close>

theorem corrupted_byte_rejected:
  assumes "i < length (add_header body)" and "v \<noteq> add_header body ! i"
  shows "\<exists>e. strip_header ((add_header body)[i := v]) = Inl e"
proof (rule ccontr)
  let ?data = "add_header body"
  assume "\<nexists>e. strip_header (?data[i := v]) = Inl e"
  then obtain body' where "strip_header (?data[i := v]) = Inr body'"
    by (cases "strip_header (?data[i := v])") auto
  then have eq: "?data[i := v] = add_header body'" by (simp add: strip_header_eq)
  have body': "body' = drop 16 (?data[i := v])" using add_header_parts(1) [of body'] eq by simp
  have changed: "?data[i := v] \<noteq> ?data" using assms by (metis nth_list_update_eq)
  show False
  proof (cases "i < 16")
    case True
    then have "body' = body" using body' add_header_parts(1) [of body] by simp
    then show False using eq changed by simp
  next
    case False
    define j where "j = i - 16"
    have j: "i = 16 + j" "j < length body" using False assms(1) by (simp_all add: j_def)
    have b: "body' = body[j := v]"
      using body' drop_update_swap [of 16 i ?data v] False
      by (simp add: add_header_parts(1) j_def)
    have "take 4 (drop 12 (?data[i := v])) = take 4 (drop 12 ?data)"
      using False by (simp add: drop_update_swap)
    then have "u32_le (crc32 body') = u32_le (crc32 body)"
      using eq add_header_parts(2) [of body] add_header_parts(2) [of body'] by simp
    then have "crc32 body' = crc32 body" by (metis u32_from_le_le)
    moreover have "body = take j body @ body ! j # drop (Suc j) body" "body' = take j body @ v # drop (Suc j) body"
      using j(2) b by (simp_all add: id_take_nth_drop upd_conv_take_nth_drop)
    ultimately have "v = body ! j" by (metis crc32_byte_inj)
    moreover have "?data ! i = body ! j"
      using j by (simp add: add_header_def SNAPSHOT_MAGIC_def nth_append)
    ultimately show False using assms(2) by simp
  qed
qed

theorem corrupted_byte_rejected_witness:
  "\<exists>e. strip_header ((add_header [7, 8])[17 := 9]) = Inl e"
proof (rule corrupted_byte_rejected)
  show "17 < length (add_header [7, 8])" by simp
  show "9 \<noteq> add_header [7, 8] ! 17" by (simp add: add_header_def SNAPSHOT_MAGIC_def nth_append)
qed

section \<open>Chunks\<close>

text \<open>What the encoder promises for a chunk that is written: it decodes to the same chunk.\<close>

definition chunk_ok :: "codec \<Rightarrow> snapshot_chunk \<Rightarrow> bool" where
  "chunk_ok K c \<longleftrightarrow> (\<exists>bs. pc_encode K c = Inr bs \<and> bs \<noteq> [] \<and> length bs < 2 ^ 32 \<and>
     pc_decode K bs = Inr c)"

lemma write_read_chunks:
  "list_all (chunk_ok K) cs \<Longrightarrow>
   \<exists>enc. (\<forall>out. write_chunks K cs out = Inr (out @ enc)) \<and>
     (\<forall>tail. read_chunks K (enc @ u32_le 0 @ tail) = Inr cs)"
proof (induction cs)
  case Nil
  have "read_chunks K (u32_le 0 @ tail) = Inr []" for tail
    by (subst read_chunks.simps) simp
  then show ?case by (intro exI [of _ "[]"]) simp
next
  case (Cons c cs)
  then obtain enc where enc: "\<And>out. write_chunks K cs out = Inr (out @ enc)"
    "\<And>tail. read_chunks K (enc @ u32_le 0 @ tail) = Inr cs" by auto
  from Cons.prems obtain bs where bs: "pc_encode K c = Inr bs" "bs \<noteq> []" "length bs < 2 ^ 32"
    "pc_decode K bs = Inr c" by (auto simp: chunk_ok_def)
  let ?len = "word_of_nat (length bs) :: u32"
  have len: "unat ?len = length bs" using bs(3) by (simp add: unat_of_nat)
  have "read_chunks K (u32_le ?len @ bs @ enc @ u32_le 0 @ tail) = Inr (c # cs)" for tail
    using bs enc(2) [of tail] by (subst read_chunks.simps) (simp add: len)
  then show ?case
    by (intro exI [of _ "u32_le ?len @ bs @ enc"]) (simp add: write_chunk_def bs(1) enc(1))
qed

lemma parse_keys_map:
  "\<forall>(k, r) \<in> set rows. parse (f k) = Inr k \<Longrightarrow>
   parse_keys parse (map (\<lambda>(k, r). (f k, r)) rows) = Inr rows"
  by (induction rows) auto


text \<open>A codec for the empty state: one tag byte per table, keys printed byte by byte.\<close>

definition tag_codec :: codec where
  "tag_codec = \<lparr>pc_encode = (\<lambda>c. Inr (case c of MasterBatches _ \<Rightarrow> [1] | Claims _ \<Rightarrow> [2]
       | Checkpoints _ \<Rightarrow> [3] | Instances _ \<Rightarrow> [4])),
     pc_decode = (\<lambda>bs. if bs = [1] then Inr (MasterBatches []) else if bs = [2] then Inr (Claims [])
       else if bs = [3] then Inr (Checkpoints []) else Inr (Instances [])),
     uuid_to_string = map (\<lambda>b. char_of (unat b)),
     uuid_parse = (\<lambda>s. Inr (map (\<lambda>c. word_of_nat (of_char c)) s)),
     hex_encode = map (\<lambda>b. char_of (unat b)),
     hex_decode = (\<lambda>s. Inr (map (\<lambda>c. word_of_nat (of_char c)) s))\<rparr>"


end
