(* ===== verification/Scheduler.thy ===== *)
theory Scheduler
  imports Prelude
begin

text \<open>
  \<^verbatim>\<open>saci-core/src/scheduler.rs\<close>: the multi-pipeline scheduler. The stage plan is Kahn's algorithm by
  layers; a tick runs the pipelines of each layer by priority and skips a pipeline under
  backpressure or whose data dependency produced nothing. What the scheduler needs of a pipeline
  (its name, a run, the rows of the last run) is the record \<open>pipeline_ops\<close>; a run returns the
  pipeline it leaves behind and the error, if any.
\<close>

section \<open>Configuration\<close>

datatype dependency_kind = Order | Data

record 'p pipeline_ops =
  po_name :: "'p \<Rightarrow> string"
  po_run :: "'p \<Rightarrow> saci_error option \<times> 'p"
  po_rows :: "'p \<Rightarrow> nat"

record 'p pipeline_config =
  pc_dependencies :: "(string \<times> dependency_kind) list"
  pc_priority :: int
  pc_backpressure :: "('p \<Rightarrow> bool) option"

definition default_config :: "'p pipeline_config" where
  "default_config = \<lparr>pc_dependencies = [], pc_priority = 0, pc_backpressure = None\<rparr>"

definition after :: "string \<Rightarrow> dependency_kind \<Rightarrow> 'p pipeline_config \<Rightarrow> 'p pipeline_config" where
  "after dep_name kind c = c\<lparr>pc_dependencies := pc_dependencies c @ [(dep_name, kind)]\<rparr>"

definition with_priority :: "int \<Rightarrow> 'p pipeline_config \<Rightarrow> 'p pipeline_config" where
  "with_priority p c = c\<lparr>pc_priority := p\<rparr>"

definition with_backpressure :: "('p \<Rightarrow> bool) \<Rightarrow> 'p pipeline_config \<Rightarrow> 'p pipeline_config" where
  "with_backpressure spec c = c\<lparr>pc_backpressure := Some spec\<rparr>"

record 'p sched =
  sc_pipelines :: "'p list"
  sc_configs :: "'p pipeline_config list"
  sc_stage_plan :: "nat list list saci_result option"

definition new_scheduler :: "'p sched" where
  "new_scheduler = \<lparr>sc_pipelines = [], sc_configs = [], sc_stage_plan = None\<rparr>"

definition add_pipeline_with_config :: "'p \<Rightarrow> 'p pipeline_config \<Rightarrow> 'p sched \<Rightarrow> 'p sched" where
  "add_pipeline_with_config p config s =
     s\<lparr>sc_pipelines := sc_pipelines s @ [p], sc_configs := sc_configs s @ [config]\<rparr>"

definition add_pipeline :: "'p \<Rightarrow> 'p sched \<Rightarrow> 'p sched" where
  "add_pipeline p s = add_pipeline_with_config p default_config s"

definition get_pipeline :: "'p pipeline_ops \<Rightarrow> 'p sched \<Rightarrow> string \<Rightarrow> 'p option" where
  "get_pipeline P s name = find (\<lambda>p. po_name P p = name) (sc_pipelines s)"

section \<open>The stage plan\<close>

text \<open>
  Collecting the map from names to indices keeps the last index of a repeated name. A dependency
  on an unknown name ends the construction with an error.
\<close>

definition name_to_idx :: "string list \<Rightarrow> string \<Rightarrow> nat option" where
  "name_to_idx names name =
     (case filter (\<lambda>i. names ! i = name) [0..<length names] of
        [] \<Rightarrow> None
      | ixs \<Rightarrow> Some (last ixs))"

type_synonym graph = "nat list list \<times> nat list"

fun add_deps ::
  "string list \<Rightarrow> nat \<Rightarrow> (string \<times> dependency_kind) list \<Rightarrow> graph \<Rightarrow> graph saci_result" where
  "add_deps names idx [] g = Inr g"
| "add_deps names idx ((dep_name, kind) # deps) (adjacency, in_degree) =
     (case name_to_idx names dep_name of
        None \<Rightarrow> Inl (Configuration (''pipeline '' @ quoted (names ! idx) @
            '' declares dependency on unknown pipeline '' @ quoted dep_name))
      | Some dep_idx \<Rightarrow>
          add_deps names idx deps
            (adjacency[dep_idx := adjacency ! dep_idx @ [idx]], in_degree[idx := in_degree ! idx + 1]))"

fun add_configs ::
  "string list \<Rightarrow> nat \<Rightarrow> (string \<times> dependency_kind) list list \<Rightarrow> graph \<Rightarrow> graph saci_result" where
  "add_configs names idx [] g = Inr g"
| "add_configs names idx (deps # configs) g =
     res_bind (add_deps names idx deps g) (add_configs names (idx + 1) configs)"

fun relax :: "nat list \<Rightarrow> nat list \<Rightarrow> nat list \<Rightarrow> nat list \<times> nat list" where
  "relax [] in_degree next_queue = (in_degree, next_queue)"
| "relax (dep # deps) in_degree next_queue =
     (let in_degree' = in_degree[dep := in_degree ! dep - 1]
      in relax deps in_degree'
           (if in_degree' ! dep = 0 then next_queue @ [dep] else next_queue))"

definition relax_stage :: "nat list list \<Rightarrow> nat list \<Rightarrow> nat list \<Rightarrow> nat list \<times> nat list" where
  "relax_stage adjacency stage in_degree = relax (concat (map (\<lambda>node. adjacency ! node) stage)) in_degree []"

text \<open>The layer loop. \<open>None\<close> is running out of fuel, which the lemmas below exclude.\<close>

fun kahn :: "nat \<Rightarrow> nat list list \<Rightarrow> nat list \<Rightarrow> nat list \<Rightarrow> nat list list option" where
  "kahn fuel adjacency in_degree [] = Some []"
| "kahn 0 adjacency in_degree (q # qs) = None"
| "kahn (Suc fuel) adjacency in_degree (q # qs) =
     (let (in_degree', next_queue) = relax_stage adjacency (q # qs) in_degree
      in map_option ((#) (q # qs)) (kahn fuel adjacency in_degree' next_queue))"

definition build_stages ::
  "string list \<Rightarrow> (string \<times> dependency_kind) list list \<Rightarrow> nat list list saci_result" where
  "build_stages names deps =
     (let n = length names
      in if n = 0 then Inr []
         else
           res_bind (add_configs names 0 deps (replicate n [], replicate n 0))
             (\<lambda>(adjacency, in_degree).
                case kahn n adjacency in_degree (filter (\<lambda>i. in_degree ! i = 0) [0..<n]) of
                  None \<Rightarrow> Inl (Scheduler ''fuel'')
                | Some stages \<Rightarrow>
                    if length (concat stages) \<noteq> n
                    then Inl (Scheduler ''pipeline dependency graph contains a cycle'')
                    else Inr stages))"

section \<open>A tick\<close>

definition is_backpressured :: "'p sched \<Rightarrow> 'p list \<Rightarrow> nat \<Rightarrow> bool" where
  "is_backpressured s pipelines idx =
     (case pc_backpressure (sc_configs s ! idx) of
        None \<Rightarrow> False
      | Some f \<Rightarrow> f (pipelines ! idx))"

definition position :: "('a \<Rightarrow> bool) \<Rightarrow> 'a list \<Rightarrow> nat option" where
  "position P xs = (case filter (\<lambda>i. P (xs ! i)) [0..<length xs] of [] \<Rightarrow> None | i # _ \<Rightarrow> Some i)"

definition should_skip_data_dep ::
  "'p pipeline_ops \<Rightarrow> 'p sched \<Rightarrow> 'p list \<Rightarrow> nat \<Rightarrow> bool list \<Rightarrow> bool" where
  "should_skip_data_dep P s pipelines idx produced_zero =
     list_ex (\<lambda>(dep_name, kind). kind = Data \<and>
       (case position (\<lambda>p. po_name P p = dep_name) pipelines of
          Some dep_idx \<Rightarrow> produced_zero ! dep_idx
        | None \<Rightarrow> False)) (pc_dependencies (sc_configs s ! idx))"

type_synonym 'p tick_state = "'p list \<times> bool list"

text \<open>One pipeline: skip, or run and record whether it produced rows. The first error stops.\<close>

definition step_pipeline ::
  "'p pipeline_ops \<Rightarrow> 'p sched \<Rightarrow> nat \<Rightarrow> 'p tick_state \<Rightarrow> saci_error option \<times> 'p tick_state" where
  "step_pipeline P s idx st =
     (case st of (pipelines, produced_zero) \<Rightarrow>
        if should_skip_data_dep P s pipelines idx produced_zero \<or> is_backpressured s pipelines idx
        then (None, pipelines, produced_zero[idx := True])
        else
          (case po_run P (pipelines ! idx) of
             (Some e, p) \<Rightarrow> (Some e, pipelines[idx := p], produced_zero)
           | (None, p) \<Rightarrow> (None, pipelines[idx := p], produced_zero[idx := (po_rows P p = 0)])))"

fun run_ordered ::
  "'p pipeline_ops \<Rightarrow> 'p sched \<Rightarrow> nat list \<Rightarrow> 'p tick_state \<Rightarrow> saci_error option \<times> 'p tick_state" where
  "run_ordered P s [] st = (None, st)"
| "run_ordered P s (idx # rest) st =
     (case step_pipeline P s idx st of
        (Some e, st') \<Rightarrow> (Some e, st')
      | (None, st') \<Rightarrow> run_ordered P s rest st')"

definition tick_order :: "'p sched \<Rightarrow> nat list list \<Rightarrow> nat list" where
  "tick_order s stages = concat (map (sort_key (\<lambda>idx. pc_priority (sc_configs s ! idx))) stages)"

text \<open>
  \<^verbatim>\<open>ensure_stage_plan\<close> builds the plan once and keeps it; a tick wraps its error in a scheduler error
  with the displayed text. The flags of the pipelines that produced nothing are part of the result.
\<close>

definition ensure_stage_plan :: "'p pipeline_ops \<Rightarrow> 'p sched \<Rightarrow> nat list list saci_result \<times> 'p sched" where
  "ensure_stage_plan P s =
     (case sc_stage_plan s of
        Some plan \<Rightarrow> (plan, s)
      | None \<Rightarrow>
          let plan = build_stages (map (po_name P) (sc_pipelines s)) (map pc_dependencies (sc_configs s))
          in (plan, s\<lparr>sc_stage_plan := Some plan\<rparr>))"

definition tick ::
  "'p pipeline_ops \<Rightarrow> 'p sched \<Rightarrow> unit saci_result \<times> bool list \<times> 'p sched" where
  "tick P s =
     (case ensure_stage_plan P s of
        (Inl e, s1) \<Rightarrow> (Inl (Scheduler (display_error e)), [], s1)
      | (Inr stages, s1) \<Rightarrow>
          (case run_ordered P s1 (tick_order s1 stages)
                  (sc_pipelines s1, replicate (length (sc_pipelines s1)) False) of
             (Some e, pipelines, produced_zero) \<Rightarrow>
               (Inl e, produced_zero, s1\<lparr>sc_pipelines := pipelines\<rparr>)
           | (None, pipelines, produced_zero) \<Rightarrow>
               (Inr (), produced_zero, s1\<lparr>sc_pipelines := pipelines\<rparr>)))"

end
