(* ===== verification/Scheduler_Properties.thy ===== *)
theory Scheduler_Properties
  imports Scheduler "HOL-Library.Code_Target_Numeral"
begin

text \<open>
  Correctness of the stage plan and of a tick. The loop invariant \<open>kahn_inv\<close> says that the
  in-degree of a node counts its edges from nodes not yet placed, and that the queue holds exactly
  the unplaced nodes of in-degree zero.
\<close>

section \<open>The dependency graph\<close>

definition graph_ok :: "nat \<Rightarrow> graph \<Rightarrow> bool" where
  "graph_ok n g \<longleftrightarrow> length (fst g) = n \<and> length (snd g) = n \<and>
     (\<forall>v < n. snd g ! v = (\<Sum>u < n. count_list (fst g ! u) v)) \<and>
     (\<forall>u < n. set (fst g ! u) \<subseteq> {..<n})"

lemma name_to_idx_Some: "name_to_idx names d = Some u \<Longrightarrow> u < length names \<and> names ! u = d"
proof -
  assume h: "name_to_idx names d = Some u"
  let ?is = "filter (\<lambda>i. names ! i = d) [0..<length names]"
  have "?is \<noteq> []" "u = last ?is" using h by (auto simp: name_to_idx_def split: list.splits)
  then have "u \<in> set ?is" using last_in_set by blast
  then show ?thesis by simp
qed

lemma graph_ok_add_edge:
  assumes ok: "graph_ok n (adj, deg)" and u: "u < n" and v: "v < n"
  shows "graph_ok n (adj[u := adj ! u @ [v]], deg[v := deg ! v + 1])"
proof -
  have len: "length adj = n" "length deg = n" using ok by (simp_all add: graph_ok_def)
  have sums: "(\<Sum>x < n. count_list (adj[u := adj ! u @ [v]] ! x) w) =
      (\<Sum>x < n. count_list (adj ! x) w) + (if w = v then 1 else 0)" for w
  proof -
    have "(\<Sum>x < n. count_list (adj[u := adj ! u @ [v]] ! x) w) =
        (\<Sum>x < n. count_list (adj ! x) w + (if x = u \<and> w = v then 1 else 0))"
      using len u by (intro sum.cong) (auto simp: nth_list_update)
    also have "\<dots> = (\<Sum>x < n. count_list (adj ! x) w) + (\<Sum>x < n. if x = u \<and> w = v then 1 else 0)"
      by (rule sum.distrib)
    also have "(\<Sum>x < n. if x = u \<and> w = v then 1 else 0 :: nat) = (if w = v then 1 else 0)"
      using u by (cases "w = v") simp_all
    finally show ?thesis .
  qed
  have "deg[v := deg ! v + 1] ! w = (\<Sum>x < n. count_list (adj[u := adj ! u @ [v]] ! x) w)"
    if "w < n" for w
    using ok that len unfolding sums by (simp add: graph_ok_def nth_list_update)
  moreover have "set (adj[u := adj ! u @ [v]] ! x) \<subseteq> {..<n}" if "x < n" for x
    using ok that len v by (cases "x = u") (auto simp: graph_ok_def)
  ultimately show ?thesis using len by (simp add: graph_ok_def)
qed

lemma add_deps_graph:
  "add_deps names idx ds g = Inr g' \<Longrightarrow> graph_ok (length names) g \<Longrightarrow> idx < length names \<Longrightarrow>
   graph_ok (length names) g' \<and> (\<forall>u < length names. \<forall>v. v \<in> set (fst g' ! u) \<longleftrightarrow>
     v \<in> set (fst g ! u) \<or> v = idx \<and> (\<exists>(d, k) \<in> set ds. name_to_idx names d = Some u)) \<and>
   (\<forall>(d, k) \<in> set ds. name_to_idx names d \<noteq> None)"
proof (induction names idx ds g rule: add_deps.induct)
  case (1 names idx g)
  then show ?case by simp
next
  case (2 names idx d k deps adj deg)
  then obtain u where u: "name_to_idx names d = Some u"
    by (auto split: option.splits)
  have un: "u < length names" using name_to_idx_Some [OF u] by simp
  have len: "length adj = length names" using 2(3) by (simp add: graph_ok_def)
  let ?g = "(adj[u := adj ! u @ [idx]], deg[idx := deg ! idx + 1])"
  have ok: "graph_ok (length names) ?g" using graph_ok_add_edge [OF 2(3) un 2(4)] .
  have "add_deps names idx deps ?g = Inr g'" using 2(2) u by simp
  note IH = 2(1) [OF u this ok 2(4)]
  show ?case using IH u un len by (auto simp: nth_list_update)
qed

lemma add_configs_graph:
  "add_configs names idx cs g = Inr g' \<Longrightarrow> graph_ok (length names) g \<Longrightarrow>
   idx + length cs \<le> length names \<Longrightarrow>
   graph_ok (length names) g' \<and> (\<forall>u < length names. \<forall>v. v \<in> set (fst g' ! u) \<longleftrightarrow>
     v \<in> set (fst g ! u) \<or> (\<exists>i < length cs. v = idx + i \<and>
        (\<exists>(d, k) \<in> set (cs ! i). name_to_idx names d = Some u))) \<and>
   (\<forall>ds \<in> set cs. \<forall>(d, k) \<in> set ds. name_to_idx names d \<noteq> None)"
proof (induction names idx cs g rule: add_configs.induct)
  case (1 names idx g)
  then show ?case by simp
next
  case (2 names idx ds cs g)
  then obtain g1 where g1: "add_deps names idx ds g = Inr g1"
    "add_configs names (idx + 1) cs g1 = Inr g'" by (auto simp: res_bind_eq_Inr)
  have "idx < length names" using 2(4) by simp
  note A = add_deps_graph [OF g1(1) 2(3) this]
  have "graph_ok (length names) g1" "idx + 1 + length cs \<le> length names" using A 2(4) by simp_all
  note IH = 2(1) [OF g1(2) this]
  have split: "(\<exists>i < length (ds # cs). v = idx + i \<and> (\<exists>(d, k) \<in> set ((ds # cs) ! i). name_to_idx names d = Some u))
      \<longleftrightarrow> v = idx \<and> (\<exists>(d, k) \<in> set ds. name_to_idx names d = Some u) \<or>
        (\<exists>i < length cs. v = idx + 1 + i \<and> (\<exists>(d, k) \<in> set (cs ! i). name_to_idx names d = Some u))"
    for u v
    by (subst less_Suc_eq_0_disj [of _ "length cs", folded length_Cons [of ds]]) (force simp: nth_Cons')
  show ?case using A IH unfolding split by auto
qed

section \<open>Relaxing a layer\<close>

lemma relax_spec:
  "\<forall>v \<in> set ts. v < length deg \<Longrightarrow> \<forall>v < length deg. count_list ts v \<le> deg ! v \<Longrightarrow>
   \<exists>deg' news. relax ts deg q = (deg', q @ news) \<and> length deg' = length deg \<and>
     (\<forall>v < length deg. deg' ! v = deg ! v - count_list ts v) \<and> distinct news \<and>
     set news = {v \<in> set ts. deg ! v = count_list ts v}"
proof (induction ts arbitrary: deg q)
  case Nil
  then show ?case by simp
next
  case (Cons t ts)
  let ?deg1 = "deg[t := deg ! t - 1]"
  have t: "t < length deg" using Cons.prems(1) by simp
  have pos: "Suc (count_list ts t) \<le> deg ! t" using Cons.prems(2) [rule_format, of t] t by simp
  have "\<forall>v \<in> set ts. v < length ?deg1" using Cons.prems(1) by simp
  moreover have "\<forall>v < length ?deg1. count_list ts v \<le> ?deg1 ! v"
  proof (intro allI impI)
    fix v assume "v < length ?deg1"
    then show "count_list ts v \<le> ?deg1 ! v"
      using Cons.prems(2) [rule_format, of v] pos t by (cases "v = t") auto
  qed
  ultimately obtain deg' news where IH:
    "relax ts ?deg1 (if ?deg1 ! t = 0 then q @ [t] else q) =
       (deg', (if ?deg1 ! t = 0 then q @ [t] else q) @ news)" "length deg' = length deg"
    "\<forall>v < length deg. deg' ! v = ?deg1 ! v - count_list ts v" "distinct news"
    "set news = {v \<in> set ts. ?deg1 ! v = count_list ts v}"
    using Cons.IH [of ?deg1 "if ?deg1 ! t = 0 then q @ [t] else q"] by auto
  let ?news = "(if ?deg1 ! t = 0 then [t] else []) @ news"
  have zero: "?deg1 ! t = 0 \<Longrightarrow> t \<notin> set ts"
    using pos t by (auto simp: count_list_0_iff [symmetric])
  have "relax (t # ts) deg q = (deg', q @ ?news)" using IH(1) by (simp add: Let_def)
  moreover have "\<forall>v < length deg. deg' ! v = deg ! v - count_list (t # ts) v"
    using IH(3) t by (auto simp: nth_list_update)
  moreover have "distinct ?news" using IH(4,5) zero by auto
  moreover have "set ?news = {v \<in> set (t # ts). deg ! v = count_list (t # ts) v}"
  proof (intro set_eqI iffI)
    fix v
    assume "v \<in> set ?news"
    then show "v \<in> {v \<in> set (t # ts). deg ! v = count_list (t # ts) v}"
      using IH(5) zero pos t by (cases "v = t") (auto simp: count_list_0_iff split: if_splits)
  next
    fix v
    assume "v \<in> {v \<in> set (t # ts). deg ! v = count_list (t # ts) v}"
    then show "v \<in> set ?news"
      using IH(5) pos t by (cases "v = t"; cases "t \<in> set ts") (auto simp: count_list_0_iff)
  qed
  ultimately show ?case using IH(2) by blast
qed

section \<open>The layer loop\<close>

lemma count_list_concat_map:
  "distinct q \<Longrightarrow> count_list (concat (map f q)) v = (\<Sum>u \<in> set q. count_list (f u) v)"
  by (induction q) auto

definition kahn_inv :: "nat \<Rightarrow> nat list list \<Rightarrow> nat list \<Rightarrow> nat set \<Rightarrow> nat list \<Rightarrow> bool" where
  "kahn_inv n adj deg placed q \<longleftrightarrow> length deg = n \<and> placed \<subseteq> {..<n} \<and> distinct q \<and>
     (\<forall>u < n. set (adj ! u) \<subseteq> {..<n}) \<and>
     (\<forall>v < n. deg ! v = (\<Sum>u \<in> {..<n} - placed. count_list (adj ! u) v)) \<and>
     (\<forall>v \<in> placed. deg ! v = 0) \<and> set q = {v. v < n \<and> v \<notin> placed \<and> deg ! v = 0}"

lemma kahn_inv_init:
  "graph_ok n (adj, deg) \<Longrightarrow> kahn_inv n adj deg {} (filter (\<lambda>i. deg ! i = 0) [0..<n])"
  by (auto simp: kahn_inv_def graph_ok_def)

lemma kahn_inv_preds:
  "kahn_inv n adj deg placed q \<Longrightarrow> v < n \<Longrightarrow> deg ! v = 0 \<Longrightarrow> u < n \<Longrightarrow> v \<in> set (adj ! u) \<Longrightarrow> u \<in> placed"
proof (rule ccontr)
  assume inv: "kahn_inv n adj deg placed q" and v: "v < n" "deg ! v = 0" and u: "u < n"
    "v \<in> set (adj ! u)" "u \<notin> placed"
  then have "(\<Sum>u \<in> {..<n} - placed. count_list (adj ! u) v) = 0" by (simp add: kahn_inv_def)
  then have "count_list (adj ! u) v = 0" using u by simp
  then show False using u by (simp add: count_list_0_iff)
qed

lemma kahn_inv_step:
  assumes inv: "kahn_inv n adj deg placed q" and step: "relax_stage adj q deg = (deg', q')"
  shows "kahn_inv n adj deg' (placed \<union> set q) q'"
proof -
  let ?ts = "concat (map (\<lambda>node. adj ! node) q)"
  have len: "length deg = n" and q: "distinct q" "set q = {v. v < n \<and> v \<notin> placed \<and> deg ! v = 0}"
    and pl: "placed \<subseteq> {..<n}" "\<forall>v \<in> placed. deg ! v = 0"
    using inv by (simp_all add: kahn_inv_def)
  have ts: "\<forall>v \<in> set ?ts. v < length deg" using inv q(2) by (auto simp: kahn_inv_def)
  have cnt: "count_list ?ts v = (\<Sum>u \<in> set q. count_list (adj ! u) v)" for v
    by (rule count_list_concat_map [OF q(1)])
  have sub: "{..<n} - placed = set q \<union> ({..<n} - (placed \<union> set q))" using q(2) by auto
  have deg: "deg ! v = count_list ?ts v + (\<Sum>u \<in> {..<n} - (placed \<union> set q). count_list (adj ! u) v)"
    if "v < n" for v
  proof -
    have "deg ! v = (\<Sum>u \<in> {..<n} - placed. count_list (adj ! u) v)"
      using inv that by (simp add: kahn_inv_def)
    also have "\<dots> = (\<Sum>u \<in> set q. count_list (adj ! u) v) +
        (\<Sum>u \<in> {..<n} - (placed \<union> set q). count_list (adj ! u) v)"
      by (subst sub, rule sum.union_disjoint) auto
    finally show ?thesis by (simp add: cnt)
  qed
  from relax_spec [OF ts, of "[]"] deg len obtain news where
    r: "relax ?ts deg [] = (deg', news)" "length deg' = n"
      "\<And>v. v < n \<Longrightarrow> deg' ! v = deg ! v - count_list ?ts v" "distinct news"
      "set news = {v \<in> set ?ts. deg ! v = count_list ?ts v}"
    using step by (auto simp: relax_stage_def)
  have deg': "deg' ! v = (\<Sum>u \<in> {..<n} - (placed \<union> set q). count_list (adj ! u) v)" if "v < n" for v
    using r(3) [OF that] deg [OF that] by simp
  have zero: "deg' ! v = 0" if "v \<in> placed \<union> set q" for v
    using that pl q(2) r(3) by auto
  have "set q' = {v. v < n \<and> v \<notin> placed \<union> set q \<and> deg' ! v = 0}"
  proof (intro set_eqI iffI)
    fix v
    assume "v \<in> set q'"
    then have v: "v \<in> set ?ts" "deg ! v = count_list ?ts v"
      using r step by (auto simp: relax_stage_def)
    then have "0 < deg ! v" by (metis count_list_0_iff gr0I)
    then show "v \<in> {v. v < n \<and> v \<notin> placed \<union> set q \<and> deg' ! v = 0}"
      using v ts len r(3) pl q(2) by auto
  next
    fix v
    assume "v \<in> {v. v < n \<and> v \<notin> placed \<union> set q \<and> deg' ! v = 0}"
    then have v: "v < n" "0 < deg ! v" "deg' ! v = 0" using q(2) by auto
    then have eq: "deg ! v = count_list ?ts v" using deg [OF v(1)] deg' [OF v(1)] by simp
    then have "v \<in> set ?ts" using v(2) by (metis count_list_0_iff less_irrefl)
    then show "v \<in> set q'" using eq r step by (auto simp: relax_stage_def)
  qed
  moreover have "distinct q'" using r step by (simp add: relax_stage_def)
  ultimately show ?thesis
    using inv r(2) deg' zero pl q(2) by (auto simp: kahn_inv_def)
qed

lemma kahn_correct:
  "kahn_inv n adj deg placed q \<Longrightarrow> n - card placed \<le> fuel \<Longrightarrow>
   \<exists>stages. kahn fuel adj deg q = Some stages \<and> distinct (concat stages) \<and>
     set (concat stages) \<subseteq> {..<n} - placed \<and>
     (\<forall>i < length stages. \<forall>v \<in> set (stages ! i). \<forall>u < n. v \<in> set (adj ! u) \<longrightarrow>
        u \<in> placed \<or> (\<exists>j < i. u \<in> set (stages ! j))) \<and>
     (\<forall>v < n. v \<notin> placed \<union> set (concat stages) \<longrightarrow>
        (\<exists>u < n. u \<notin> placed \<union> set (concat stages) \<and> v \<in> set (adj ! u)))"
proof (induction fuel adj deg q arbitrary: placed rule: kahn.induct)
  case (1 fuel adj deg)
  have "\<exists>u < n. u \<notin> placed \<and> v \<in> set (adj ! u)" if "v < n" "v \<notin> placed" for v
  proof (rule ccontr)
    assume "\<not> (\<exists>u < n. u \<notin> placed \<and> v \<in> set (adj ! u))"
    then have "(\<Sum>u \<in> {..<n} - placed. count_list (adj ! u) v) = 0"
      by (intro sum.neutral) (auto simp: count_list_0_iff)
    then show False using 1(1) that by (auto simp: kahn_inv_def)
  qed
  then show ?case by simp
next
  case (2 adj deg q qs)
  have "q \<in> {..<n} - placed" using 2(1) by (auto simp: kahn_inv_def)
  then have "placed \<subset> {..<n}" using 2(1) by (auto simp: kahn_inv_def)
  then have "card placed < n" by (metis card_lessThan finite_lessThan psubset_card_mono)
  then show ?case using 2(2) by simp
next
  case (3 fuel adj deg q qs)
  obtain deg' q' where step: "relax_stage adj (q # qs) deg = (deg', q')" by fastforce
  let ?placed = "placed \<union> set (q # qs)"
  note inv' = kahn_inv_step [OF 3(2) step]
  have fresh: "set (q # qs) \<subseteq> {..<n} - placed" using 3(2) by (auto simp: kahn_inv_def)
  have fin: "finite placed" using 3(2) by (auto simp: kahn_inv_def intro: finite_subset)
  have "card placed < card ?placed"
    using fresh fin by (intro psubset_card_mono) auto
  then have fuel: "n - card ?placed \<le> fuel" using 3(3) by simp
  from 3(1) [OF step [symmetric] refl inv' fuel] obtain stages where IH: "kahn fuel adj deg' q' = Some stages"
    "distinct (concat stages)" "set (concat stages) \<subseteq> {..<n} - ?placed"
    "\<forall>i < length stages. \<forall>v \<in> set (stages ! i). \<forall>u < n. v \<in> set (adj ! u) \<longrightarrow>
        u \<in> ?placed \<or> (\<exists>j < i. u \<in> set (stages ! j))"
    "\<forall>v < n. v \<notin> ?placed \<union> set (concat stages) \<longrightarrow>
        (\<exists>u < n. u \<notin> ?placed \<union> set (concat stages) \<and> v \<in> set (adj ! u))" by blast
  let ?stages = "(q # qs) # stages"
  have "u \<in> placed \<or> (\<exists>j < i. u \<in> set (?stages ! j))"
    if "i < length ?stages" "v \<in> set (?stages ! i)" "u < n" "v \<in> set (adj ! u)" for i v u
  proof (cases i)
    case 0
    then have "v < n" "deg ! v = 0" using that(2) 3(2) by (auto simp: kahn_inv_def)
    then show ?thesis using kahn_inv_preds [OF 3(2)] that by blast
  next
    case (Suc k)
    then have "u \<in> ?placed \<or> (\<exists>j < k. u \<in> set (stages ! j))" using IH(4) that by auto
    then show ?thesis
    proof (elim disjE exE conjE)
      assume "u \<in> ?placed"
      then show ?thesis using Suc by (auto intro!: exI [of _ 0])
    next
      fix j assume "j < k" "u \<in> set (stages ! j)"
      then show ?thesis using Suc by (intro disjI2 exI [of _ "Suc j"]) simp
    qed
  qed
  moreover have "kahn (Suc fuel) adj deg (q # qs) = Some ?stages" using step IH(1) by simp
  moreover have "distinct (concat ?stages)"
    using IH(2,3) 3(2) by (auto simp: kahn_inv_def)
  moreover have "set (concat ?stages) \<subseteq> {..<n} - placed" using IH(3) fresh by auto
  moreover have "\<forall>v < n. v \<notin> placed \<union> set (concat ?stages) \<longrightarrow>
        (\<exists>u < n. u \<notin> placed \<union> set (concat ?stages) \<and> v \<in> set (adj ! u))"
    using IH(5) by (simp add: Un_assoc)
  ultimately show ?case by blast
qed

section \<open>The stage plan\<close>

definition deps_known :: "string list \<Rightarrow> (string \<times> dependency_kind) list list \<Rightarrow> bool" where
  "deps_known names deps \<longleftrightarrow> list_all (list_all (\<lambda>(d, k). name_to_idx names d \<noteq> None)) deps"

definition dep_edge :: "string list \<Rightarrow> (string \<times> dependency_kind) list list \<Rightarrow> nat \<Rightarrow> nat \<Rightarrow> bool" where
  "dep_edge names deps u v \<longleftrightarrow> v < length deps \<and> (\<exists>(d, k) \<in> set (deps ! v). name_to_idx names d = Some u)"

lemma add_deps_known:
  "list_all (\<lambda>(d, k). name_to_idx names d \<noteq> None) ds \<Longrightarrow> \<exists>g'. add_deps names idx ds g = Inr g'"
  by (induction names idx ds g rule: add_deps.induct) auto

lemma add_configs_known: "deps_known names cs \<Longrightarrow> \<exists>g'. add_configs names idx cs g = Inr g'"
proof (induction cs arbitrary: idx g)
  case (Cons ds cs)
  then obtain g1 where "add_deps names idx ds g = Inr g1"
    using add_deps_known [of names ds idx g] by (auto simp: deps_known_def)
  then show ?case using Cons by (simp add: deps_known_def)
qed simp

lemma graph_ok_empty: "graph_ok n (replicate n [], replicate n 0)"
  by (simp add: graph_ok_def)

lemma build_stages_graph:
  assumes len: "length deps = length names" and ne: "names \<noteq> []"
    and g: "add_configs names 0 deps (replicate (length names) [], replicate (length names) 0) = Inr (adj, deg)"
  shows "graph_ok (length names) (adj, deg)" "deps_known names deps"
    "u < length names \<Longrightarrow> v \<in> set (adj ! u) \<longleftrightarrow> dep_edge names deps u v"
proof -
  note A = add_configs_graph [OF g graph_ok_empty]
  show "graph_ok (length names) (adj, deg)" using A len by simp
  show "deps_known names deps" using A len by (auto simp: deps_known_def list_all_iff)
  show "u < length names \<Longrightarrow> v \<in> set (adj ! u) \<longleftrightarrow> dep_edge names deps u v"
    using A len by (auto simp: dep_edge_def)
qed

lemma dep_edge_bounds: "dep_edge names deps u v \<Longrightarrow> u < length names \<and> v < length deps"
  by (auto simp: dep_edge_def dest: name_to_idx_Some)

text \<open>What the loop returns for a graph whose names all resolve.\<close>

lemma build_stages_loop:
  assumes len: "length deps = length names" and ne: "names \<noteq> []" and known: "deps_known names deps"
  obtains stages where
    "build_stages names deps = (if length (concat stages) \<noteq> length names
       then Inl (Scheduler ''pipeline dependency graph contains a cycle'') else Inr stages)"
    "distinct (concat stages)" "set (concat stages) \<subseteq> {..<length names}"
    "\<And>i v u. i < length stages \<Longrightarrow> v \<in> set (stages ! i) \<Longrightarrow> dep_edge names deps u v \<Longrightarrow>
       \<exists>j < i. u \<in> set (stages ! j)"
    "\<And>v. v < length names \<Longrightarrow> v \<notin> set (concat stages) \<Longrightarrow>
       \<exists>u < length names. u \<notin> set (concat stages) \<and> dep_edge names deps u v"
proof -
  let ?n = "length names"
  obtain adj deg where g: "add_configs names 0 deps (replicate ?n [], replicate ?n 0) = Inr (adj, deg)"
    using add_configs_known [OF known] by fastforce
  note G = build_stages_graph [OF len ne g]
  from kahn_correct [OF kahn_inv_init [OF G(1)], of ?n] obtain stages where
    k: "kahn ?n adj deg (filter (\<lambda>i. deg ! i = 0) [0..<?n]) = Some stages"
    "distinct (concat stages)" "set (concat stages) \<subseteq> {..<?n}"
    "\<forall>i < length stages. \<forall>v \<in> set (stages ! i). \<forall>u < ?n. v \<in> set (adj ! u) \<longrightarrow>
        (\<exists>j < i. u \<in> set (stages ! j))"
    "\<forall>v < ?n. v \<notin> set (concat stages) \<longrightarrow>
        (\<exists>u < ?n. u \<notin> set (concat stages) \<and> v \<in> set (adj ! u))" by auto
  show thesis
  proof (rule that)
    show "build_stages names deps = (if length (concat stages) \<noteq> ?n
       then Inl (Scheduler ''pipeline dependency graph contains a cycle'') else Inr stages)"
      using g k(1) ne by (simp add: build_stages_def Let_def)
  qed (use k G(3) dep_edge_bounds in \<open>blast+\<close>)
qed

lemma placed_all:
  "distinct (concat stages) \<Longrightarrow> set (concat stages) \<subseteq> {..<n} \<Longrightarrow>
   length (concat stages) = n \<longleftrightarrow> set (concat stages) = {..<n}"
  by (metis card_lessThan card_subset_eq distinct_card finite_lessThan)

lemma build_stages_known:
  "length deps = length names \<Longrightarrow> build_stages names deps = Inr stages \<Longrightarrow> names \<noteq> [] \<Longrightarrow> deps_known names deps"
proof -
  assume len: "length deps = length names" and ok: "build_stages names deps = Inr stages" and ne: "names \<noteq> []"
  then obtain adj deg where
    "add_configs names 0 deps (replicate (length names) [], replicate (length names) 0) = Inr (adj, deg)"
    by (auto simp: build_stages_def Let_def res_bind_eq_Inr)
  from build_stages_graph(2) [OF len ne this] show ?thesis .
qed

lemma build_stages_order:
  assumes "length deps = length names" and "build_stages names deps = Inr stages"
  shows "distinct (concat stages) \<and> set (concat stages) = {..<length names} \<and>
    (\<forall>i < length stages. \<forall>v \<in> set (stages ! i). \<forall>u. dep_edge names deps u v \<longrightarrow>
       (\<exists>j < i. u \<in> set (stages ! j)))"
proof (cases "names = []")
  case True
  then show ?thesis using assms by (simp add: build_stages_def)
next
  case False
  from build_stages_loop [OF assms(1) False build_stages_known [OF assms False]] obtain st where
    st: "build_stages names deps = (if length (concat st) \<noteq> length names
       then Inl (Scheduler ''pipeline dependency graph contains a cycle'') else Inr st)"
    "distinct (concat st)" "set (concat st) \<subseteq> {..<length names}"
    "\<And>i v u. i < length st \<Longrightarrow> v \<in> set (st ! i) \<Longrightarrow> dep_edge names deps u v \<Longrightarrow>
       \<exists>j < i. u \<in> set (st ! j)" by metis
  then have "st = stages" "length (concat st) = length names" using assms(2) by (auto split: if_splits)
  then show ?thesis using st placed_all [OF st(2,3)] by blast
qed

lemma build_stages_planned:
  assumes "length deps = length names" "build_stages names deps = Inr stages" "dep_edge names deps u v"
  shows "\<exists>i j. distinct (concat stages) \<and> i < length stages \<and> v \<in> set (stages ! i) \<and> j < i \<and>
    u \<in> set (stages ! j)"
proof -
  note S = build_stages_order [OF assms(1,2)]
  have "v \<in> set (concat stages)" using S dep_edge_bounds [OF assms(3)] assms(1) by simp
  then obtain i where "i < length stages" "v \<in> set (stages ! i)"
    by (metis UN_E in_set_conv_nth set_concat)
  then show ?thesis using S assms(3) by blast
qed

text \<open>
  C22. A stage plan places every pipeline exactly once, and every pipeline in a later stage than
  each pipeline it depends on.
\<close>

theorem build_stages_sound:
  assumes "length deps = length names" and "build_stages names deps = Inr stages"
  shows "distinct (concat stages) \<and> set (concat stages) = {..<length names} \<and>
    (\<forall>i < length stages. \<forall>v \<in> set (stages ! i). \<forall>u. dep_edge names deps u v \<longrightarrow>
       (\<exists>j < i. u \<in> set (stages ! j)))"
  by (rule build_stages_order [OF assms])

theorem build_stages_sound_witness:
  "\<exists>stages. build_stages [''a'', ''b'', ''c''] [[(''c'', Data)], [], [(''b'', Order)]] = Inr stages \<and>
     distinct (concat stages) \<and> set (concat stages) = {..<length [''a'', ''b'', ''c'']}"
proof -
  have "build_stages [''a'', ''b'', ''c''] [[(''c'', Data)], [], [(''b'', Order)]] = Inr [[1], [2], [0]]"
    by code_simp
  from build_stages_sound [OF _ this] this show ?thesis by auto
qed

text \<open>
  For pipelines whose dependencies all resolve, planning fails exactly when the dependencies
  are cyclic, that is when no numbering of the pipelines makes every dependency smaller than its
  dependent, and then the error is the cycle error.
\<close>

theorem build_stages_cycle_exact:
  assumes "length deps = length names" and "deps_known names deps"
  shows "(if \<exists>rank :: nat \<Rightarrow> nat. \<forall>u v. dep_edge names deps u v \<longrightarrow> rank u < rank v
    then \<exists>stages. build_stages names deps = Inr stages
    else build_stages names deps = Inl (Scheduler ''pipeline dependency graph contains a cycle''))"
proof (cases "names = []")
  case True
  then show ?thesis using assms by (auto simp: build_stages_def dep_edge_def)
next
  case False
  from build_stages_loop [OF assms(1) False assms(2)] obtain st where
    st: "build_stages names deps = (if length (concat st) \<noteq> length names
       then Inl (Scheduler ''pipeline dependency graph contains a cycle'') else Inr st)"
    "distinct (concat st)" "set (concat st) \<subseteq> {..<length names}"
    "\<And>i v u. i < length st \<Longrightarrow> v \<in> set (st ! i) \<Longrightarrow> dep_edge names deps u v \<Longrightarrow>
       \<exists>j < i. u \<in> set (st ! j)"
    "\<And>v. v < length names \<Longrightarrow> v \<notin> set (concat st) \<Longrightarrow>
       \<exists>u < length names. u \<notin> set (concat st) \<and> dep_edge names deps u v" by metis
  have "length (concat st) = length names" if rank: "\<forall>u v. dep_edge names deps u v \<longrightarrow> rank u < rank v"
    for rank :: "nat \<Rightarrow> nat"
  proof -
    have "v \<in> set (concat st)" if "v < length names" for v
      using that
    proof (induction "rank v" arbitrary: v rule: less_induct)
      case less
      then show ?case using st(5) [of v] rank by blast
    qed
    then show ?thesis using placed_all [OF st(2,3)] st(3) by blast
  qed
  moreover have "\<exists>rank :: nat \<Rightarrow> nat. \<forall>u v. dep_edge names deps u v \<longrightarrow> rank u < rank v"
    if all: "length (concat st) = length names"
  proof -
    have mem: "v < length names \<Longrightarrow> \<exists>i < length st. v \<in> set (st ! i)" for v
      using placed_all [OF st(2,3)] all by (metis in_set_conv_nth lessThan_iff set_concat UN_E)
    define rank where "rank v = (LEAST i. i < length st \<and> v \<in> set (st ! i))" for v
    have "rank u < rank v" if e: "dep_edge names deps u v" for u v
    proof -
      have v: "rank v < length st \<and> v \<in> set (st ! rank v)"
        unfolding rank_def by (rule LeastI_ex) (use mem [of v] dep_edge_bounds [OF e] assms(1) in simp)
      then obtain j where "j < rank v" "u \<in> set (st ! j)" using st(4) e by blast
      moreover from this v have "rank u \<le> j" unfolding rank_def [of u] by (intro Least_le) simp
      ultimately show ?thesis by simp
    qed
    then show ?thesis by blast
  qed
  ultimately have "(\<exists>rank :: nat \<Rightarrow> nat. \<forall>u v. dep_edge names deps u v \<longrightarrow> rank u < rank v) \<longleftrightarrow>
      length (concat st) = length names" by blast
  then show ?thesis using st(1) by (simp split: if_splits)
qed

theorem build_stages_cycle_exact_witness:
  "build_stages [''a'', ''b''] [[(''b'', Order)], [(''a'', Data)]] =
     Inl (Scheduler ''pipeline dependency graph contains a cycle'')"
proof -
  let ?n = "[''a'', ''b'']" and ?d = "[[(''b'', Order)], [(''a'', Data)]]"
  have idx: "name_to_idx ?n ''a'' = Some 0" "name_to_idx ?n ''b'' = Some 1" by code_simp+
  then have "deps_known ?n ?d" by (simp add: deps_known_def)
  moreover have "dep_edge ?n ?d 1 0" "dep_edge ?n ?d 0 1" using idx by (simp_all add: dep_edge_def)
  then have "\<not> (\<exists>rank :: nat \<Rightarrow> nat. \<forall>u v. dep_edge ?n ?d u v \<longrightarrow> rank u < rank v)"
    by (metis less_asym)
  ultimately show ?thesis using build_stages_cycle_exact [of ?d ?n] by simp
qed

end
