(* ===== verification/Tick_Properties.thy ===== *)
theory Tick_Properties
  imports Scheduler_Properties "HOL-Library.Multiset"
begin

text \<open>
  A tick of the scheduler: pipelines are visited in an order in which every dependency comes before
  its dependents, each at most once, and a pipeline whose data dependency produced nothing is not
  run.
\<close>

section \<open>Frame of a run\<close>

lemma step_pipeline_frame:
  assumes "step_pipeline P s idx st = (r, st')"
  shows "length (fst st') = length (fst st)" "length (snd st') = length (snd st)"
    "i \<noteq> idx \<Longrightarrow> fst st' ! i = fst st ! i \<and> snd st' ! i = snd st ! i"
  using assms by (auto simp: step_pipeline_def split: prod.splits option.splits if_splits)

lemma step_pipeline_names:
  assumes "\<And>p. po_name P (snd (po_run P p)) = po_name P p" and "step_pipeline P s idx st = (r, st')"
  shows "map (po_name P) (fst st') = map (po_name P) (fst st)"
proof -
  obtain pipes pz where st: "st = (pipes, pz)" by (cases st)
  have upd: "map (po_name P) (pipes[idx := snd (po_run P (pipes ! idx))]) = map (po_name P) pipes"
    by (cases "idx < length pipes")
      (simp_all add: map_update assms(1) list_update_same_conv list_update_beyond)
  obtain e p where run: "po_run P (pipes ! idx) = (e, p)" by (cases "po_run P (pipes ! idx)")
  then show ?thesis
    using assms(2) upd by (auto simp: st step_pipeline_def split: option.splits if_splits)
qed

lemma run_ordered_frame:
  "run_ordered P s L st = (r, st') \<Longrightarrow>
   length (fst st') = length (fst st) \<and> length (snd st') = length (snd st) \<and>
   (\<forall>i. i \<notin> set L \<longrightarrow> fst st' ! i = fst st ! i \<and> snd st' ! i = snd st ! i)"
proof (induction L arbitrary: st)
  case Nil
  then show ?case by simp
next
  case (Cons idx L)
  obtain e st1 where step: "step_pipeline P s idx st = (e, st1)" by (cases "step_pipeline P s idx st")
  note F = step_pipeline_frame [OF step]
  show ?case
  proof (cases e)
    case None
    then have "run_ordered P s L st1 = (r, st')" using Cons.prems step by simp
    from Cons.IH [OF this] F show ?thesis by auto
  next
    case (Some x)
    then have "st' = st1" using Cons.prems step by simp
    then show ?thesis using F by auto
  qed
qed

lemma run_ordered_names:
  assumes law: "\<And>p. po_name P (snd (po_run P p)) = po_name P p"
  shows "run_ordered P s L st = (r, st') \<Longrightarrow> map (po_name P) (fst st') = map (po_name P) (fst st)"
proof (induction L arbitrary: st)
  case Nil
  then show ?case by simp
next
  case (Cons idx L)
  obtain e st1 where step: "step_pipeline P s idx st = (e, st1)" by (cases "step_pipeline P s idx st")
  then show ?case
    using Cons step_pipeline_names [OF law step] by (cases e) auto
qed

lemma run_ordered_append:
  "run_ordered P s (xs @ ys) st = (None, st') \<Longrightarrow>
   \<exists>st1. run_ordered P s xs st = (None, st1) \<and> run_ordered P s ys st1 = (None, st')"
proof (induction xs arbitrary: st)
  case (Cons x xs)
  obtain e st1 where "step_pipeline P s x st = (e, st1)" by (cases "step_pipeline P s x st")
  then show ?case using Cons by (cases e) auto
qed simp

section \<open>Order of a tick\<close>

lemma filter_eq_upt: "d < n \<Longrightarrow> filter ((=) d) [0..<n] = [d]"
  by (induction n) (auto simp: filter_empty_conv less_Suc_eq)

lemma filter_nth_upt:
  assumes "distinct names" "d < length names"
  shows "filter (\<lambda>i. names ! i = names ! d) [0..<length names] = [d]"
proof -
  have "filter (\<lambda>i. names ! i = names ! d) [0..<length names] = filter ((=) d) [0..<length names]"
    using assms by (intro filter_cong) (auto simp: nth_eq_iff_index_eq)
  also have "\<dots> = [d]" using assms(2) by (rule filter_eq_upt)
  finally show ?thesis .
qed

lemma name_to_idx_distinct:
  "distinct names \<Longrightarrow> d < length names \<Longrightarrow> name_to_idx names (names ! d) = Some d"
  by (simp add: name_to_idx_def filter_nth_upt)

lemma position_distinct:
  assumes "distinct (map f xs)" "d < length xs"
  shows "position (\<lambda>p. f p = f (xs ! d)) xs = Some d"
proof -
  have "filter (\<lambda>i. f (xs ! i) = f (xs ! d)) [0..<length xs] =
      filter (\<lambda>i. map f xs ! i = map f xs ! d) [0..<length (map f xs)]"
    using assms(2) by (intro filter_cong) auto
  then show ?thesis using filter_nth_upt [OF assms(1)] assms(2) by (simp add: position_def)
qed

lemma tick_order_split:
  assumes st: "distinct (concat stages)" "i < length stages" "v \<in> set (stages ! i)"
    and u: "j < i" "u \<in> set (stages ! j)"
  shows "\<exists>xs ys. tick_order s stages = xs @ v # ys \<and> u \<in> set xs \<and> distinct (xs @ v # ys)"
proof -
  let ?f = "sort_key (\<lambda>idx. pc_priority (sc_configs s ! idx))"
  have "stages = take i stages @ stages ! i # drop (Suc i) stages"
    using st(2) by (rule id_take_nth_drop)
  then have order: "tick_order s stages = concat (map ?f (take i stages)) @ ?f (stages ! i) @
      concat (map ?f (drop (Suc i) stages))"
    unfolding tick_order_def by (metis concat.simps(2) concat_append list.simps(9) map_append)
  obtain as bs where ab: "?f (stages ! i) = as @ v # bs"
    using st(3) by (metis set_sort split_list)
  have "stages ! j \<in> set (take i stages)" using u(1) st(2) by (metis in_set_conv_nth length_take min.absorb4 nth_take less_trans)
  then have "u \<in> set (concat (map ?f (take i stages)))" using u(2) by auto
  moreover have "distinct (tick_order s stages)"
  proof -
    have "mset (tick_order s stages) = mset (concat stages)"
      by (simp add: tick_order_def mset_concat o_def)
    then show ?thesis using st(1) mset_eq_imp_distinct_iff by blast
  qed
  ultimately show ?thesis
    unfolding order ab
    by (rule_tac x = "concat (map ?f (take i stages)) @ as" in exI,
        rule_tac x = "bs @ concat (map ?f (drop (Suc i) stages))" in exI) auto
qed

section \<open>Skipping on missing data\<close>

text \<open>
  In a tick that succeeds, a pipeline with a data dependency on a pipeline that produced
  nothing in this tick is left untouched and itself counts as having produced nothing, so the skip
  propagates along data dependencies.
\<close>

theorem tick_skips_without_data:
  assumes law: "\<And>p. po_name P (snd (po_run P p)) = po_name P p"
    and "sc_stage_plan s = None" "length (sc_configs s) = length (sc_pipelines s)"
    and names: "distinct (map (po_name P) (sc_pipelines s))"
    and run: "tick P s = (Inr (), pz, s')"
    and d: "d < length (sc_pipelines s)" "idx < length (sc_pipelines s)"
      "(po_name P (sc_pipelines s ! d), Data) \<in> set (pc_dependencies (sc_configs s ! idx))" "pz ! d"
  shows "sc_pipelines s' ! idx = sc_pipelines s ! idx \<and> pz ! idx"
proof -
  let ?names = "map (po_name P) (sc_pipelines s)" and ?deps = "map pc_dependencies (sc_configs s)"
  let ?n = "length (sc_pipelines s)"
  obtain stages where plan: "build_stages ?names ?deps = Inr stages"
    and r: "run_ordered P (s\<lparr>sc_stage_plan := Some (Inr stages)\<rparr>)
        (tick_order (s\<lparr>sc_stage_plan := Some (Inr stages)\<rparr>) stages) (sc_pipelines s, replicate ?n False)
        = (None, sc_pipelines s', pz)"
    using run assms(2) by (auto simp: tick_def ensure_stage_plan_def Let_def split: sum.splits prod.splits option.splits)
  let ?s = "s\<lparr>sc_stage_plan := Some (Inr stages)\<rparr>"
  have len: "length ?deps = length ?names" using assms(3) by simp
  have "name_to_idx ?names (?names ! d) = Some d" using name_to_idx_distinct [OF names] d(1) by simp
  then have edge: "dep_edge ?names ?deps d idx"
    unfolding dep_edge_def using d(1,2,3) assms(3) by force
  from build_stages_planned [OF len plan] obtain i j where
    "distinct (concat stages)" "i < length stages" "idx \<in> set (stages ! i)" "j < i" "d \<in> set (stages ! j)"
    using edge d(2) by (metis length_map)
  from tick_order_split [OF this] obtain xs ys where
    o: "tick_order ?s stages = xs @ idx # ys" "d \<in> set xs" "distinct (xs @ idx # ys)" by blast
  from run_ordered_append [OF r [unfolded o(1)]] obtain pipes1 pz1 where
    a: "run_ordered P ?s xs (sc_pipelines s, replicate ?n False) = (None, pipes1, pz1)"
    and b: "run_ordered P ?s (idx # ys) (pipes1, pz1) = (None, sc_pipelines s', pz)" by auto
  note Fa = run_ordered_frame [OF a] and Fb = run_ordered_frame [OF b]
  have "pz1 ! d" using Fb o(2,3) d(4) by auto
  moreover have "position (\<lambda>p. po_name P p = po_name P (sc_pipelines s ! d)) pipes1 = Some d"
  proof -
    have nm: "map (po_name P) pipes1 = ?names" using run_ordered_names [OF law a] by simp
    then have "po_name P (sc_pipelines s ! d) = po_name P (pipes1 ! d)"
      using d(1) Fa by (metis fst_conv nth_map)
    then show ?thesis using position_distinct [of "po_name P" pipes1 d] nm names d(1) Fa by simp
  qed
  ultimately have "should_skip_data_dep P ?s pipes1 idx pz1"
    using d(3) by (force simp: should_skip_data_dep_def list_ex_iff)
  then have step: "step_pipeline P ?s idx (pipes1, pz1) = (None, pipes1, pz1[idx := True])"
    by (simp add: step_pipeline_def)
  then have c: "run_ordered P ?s ys (pipes1, pz1[idx := True]) = (None, sc_pipelines s', pz)"
    using b by simp
  note Fc = run_ordered_frame [OF c]
  show ?thesis using Fc Fa o(3) d(2) by simp
qed

text \<open>
  Pipelines as name, rows of the last run and number of runs; a run of a pipeline counts it.
\<close>

definition demo_ops :: "(string \<times> nat \<times> nat) pipeline_ops" where
  "demo_ops = \<lparr>po_name = fst, po_run = (\<lambda>(n, rows, runs). (None, n, rows, runs + 1)),
     po_rows = (\<lambda>(n, rows, runs). rows)\<rparr>"

definition demo_sched :: "(string \<times> nat \<times> nat) sched" where
  "demo_sched = add_pipeline_with_config (''sink'', 5, 0) (after ''src'' Data default_config)
     (add_pipeline (''src'', 0, 0) new_scheduler)"

theorem tick_skips_without_data_witness:
  "sc_pipelines (snd (snd (tick demo_ops demo_sched))) ! 1 = (''sink'', 5, 0)"
proof -
  have sched: "demo_sched = \<lparr>sc_pipelines = [(''src'', 0, 0), (''sink'', 5, 0)],
      sc_configs = [default_config, after ''src'' Data default_config], sc_stage_plan = None\<rparr>"
    by (simp add: demo_sched_def add_pipeline_def add_pipeline_with_config_def new_scheduler_def)
  have "fst (tick demo_ops demo_sched) = Inr ()" "fst (snd (tick demo_ops demo_sched)) = [True, True]"
    by code_simp+
  then have run: "tick demo_ops demo_sched = (Inr (), [True, True], snd (snd (tick demo_ops demo_sched)))"
    by (metis prod.collapse)
  have "sc_pipelines (snd (snd (tick demo_ops demo_sched))) ! 1 = sc_pipelines demo_sched ! 1 \<and>
      [True, True] ! 1"
    by (rule tick_skips_without_data [OF _ _ _ _ run, where d = 0])
      (auto simp: sched demo_ops_def after_def default_config_def)
  then show ?thesis by (simp add: sched)
qed

end
