(* ===== verification/Dag.thy ===== *)
theory Dag
  imports Prelude "HOL-Library.Product_Lexorder"
begin

text \<open>
  \<^verbatim>\<open>saci-core/src/pipeline/dag.rs\<close> with \<^verbatim>\<open>system/meta.rs\<close> and \<^verbatim>\<open>system/field.rs\<close>: expansion and
  validation of the declared accesses of a system, and the stage plan of a pipeline. A schema
  registry is a function from component names to the field names of the registered schema;
  a \<^verbatim>\<open>TypeId\<close> is a number. In-degrees are counted in \<open>nat\<close>: they are bounded by the number of
  systems, which fits \<^verbatim>\<open>u32\<close>.
\<close>

section \<open>Declared and expanded accesses\<close>

type_synonym field_access = "string \<times> string"
type_synonym type_id = nat
type_synonym schema_registry = "string \<Rightarrow> string list option"

record system_meta =
  sm_name :: string
  sm_reads :: "field_access list"
  sm_writes :: "field_access list"
  sm_reads_components :: "string list"
  sm_writes_components :: "string list"
  sm_reads_resources :: "type_id list"
  sm_writes_resources :: "type_id list"

definition meta_new :: "string \<Rightarrow> system_meta" where
  "meta_new name = \<lparr>sm_name = name, sm_reads = [], sm_writes = [], sm_reads_components = [],
     sm_writes_components = [], sm_reads_resources = [], sm_writes_resources = []\<rparr>"

definition meta_read :: "string \<Rightarrow> string \<Rightarrow> system_meta \<Rightarrow> system_meta" where
  "meta_read component field m = m\<lparr>sm_reads := sm_reads m @ [(component, field)]\<rparr>"

definition meta_write :: "string \<Rightarrow> string \<Rightarrow> system_meta \<Rightarrow> system_meta" where
  "meta_write component field m = m\<lparr>sm_writes := sm_writes m @ [(component, field)]\<rparr>"

definition meta_read_component :: "string \<Rightarrow> system_meta \<Rightarrow> system_meta" where
  "meta_read_component component m =
     m\<lparr>sm_reads_components := sm_reads_components m @ [component]\<rparr>"

definition meta_write_component :: "string \<Rightarrow> system_meta \<Rightarrow> system_meta" where
  "meta_write_component component m =
     m\<lparr>sm_writes_components := sm_writes_components m @ [component]\<rparr>"

definition meta_read_resource :: "type_id \<Rightarrow> system_meta \<Rightarrow> system_meta" where
  "meta_read_resource r m = m\<lparr>sm_reads_resources := sm_reads_resources m @ [r]\<rparr>"

definition meta_write_resource :: "type_id \<Rightarrow> system_meta \<Rightarrow> system_meta" where
  "meta_write_resource r m = m\<lparr>sm_writes_resources := sm_writes_resources m @ [r]\<rparr>"

record expanded_meta =
  em_name :: string
  em_reads :: "field_access list"
  em_writes :: "field_access list"
  em_reads_resources :: "type_id list"
  em_writes_resources :: "type_id list"

fun join_comma :: "string list \<Rightarrow> string" where
  "join_comma [] = []"
| "join_comma [x] = x"
| "join_comma (x # y # xs) = x @ '', '' @ join_comma (y # xs)"

definition validate_field :: "field_access \<Rightarrow> schema_registry \<Rightarrow> unit saci_result" where
  "validate_field fa schemas =
     (case fa of (component, field) \<Rightarrow>
        case schemas component of
          None \<Rightarrow> Inl (Configuration (''Pipeline: declared access for component '' @ quoted component @
            '' field '' @ quoted field @ '', but component '' @ quoted component @ '' is not registered''))
        | Some flds \<Rightarrow>
            if field \<notin> set flds
            then Inl (Configuration (''Pipeline: declared access for field '' @
              quoted (component @ ''.'' @ field) @
              '', but that field does not exist in the component'' @ [CHR 0x27] @
              ''s schema. Known fields: '' @ join_comma flds))
            else Inr ())"

fun validate_fields :: "field_access list \<Rightarrow> schema_registry \<Rightarrow> unit saci_result" where
  "validate_fields [] schemas = Inr ()"
| "validate_fields (fa # fas) schemas =
     res_bind (validate_field fa schemas) (\<lambda>_. validate_fields fas schemas)"

fun expand_components ::
  "string \<Rightarrow> string \<Rightarrow> string list \<Rightarrow> schema_registry \<Rightarrow> field_access list saci_result" where
  "expand_components name what [] schemas = Inr []"
| "expand_components name what (c # cs) schemas =
     (case schemas c of
        None \<Rightarrow> Inl (Configuration (''Pipeline: system '' @ quoted name @ '' declares '' @ what @
          '' for '' @ quoted c @ '', but that component is not registered''))
      | Some flds \<Rightarrow>
          res_bind (expand_components name what cs schemas)
            (\<lambda>rest. Inr (map (\<lambda>f. (c, f)) flds @ rest)))"

definition from_meta :: "system_meta \<Rightarrow> schema_registry \<Rightarrow> expanded_meta saci_result" where
  "from_meta meta schemas =
     res_bind (validate_fields (sm_reads meta) schemas)
       (\<lambda>_. res_bind (validate_fields (sm_writes meta) schemas)
         (\<lambda>_. res_bind (expand_components (sm_name meta) ''reads_components'' (sm_reads_components meta) schemas)
           (\<lambda>reads. res_bind (expand_components (sm_name meta) ''writes_components'' (sm_writes_components meta) schemas)
             (\<lambda>writes. Inr \<lparr>em_name = sm_name meta, em_reads = sm_reads meta @ reads,
                em_writes = sm_writes meta @ writes,
                em_reads_resources = sm_reads_resources meta,
                em_writes_resources = sm_writes_resources meta\<rparr>))))"

section \<open>Conflict edges\<close>

text \<open>
  The four hash maps of the source, as functions from the key to the systems that were pushed
  under it, in order.
\<close>

definition accessors :: "(expanded_meta \<Rightarrow> 'k list) \<Rightarrow> expanded_meta list \<Rightarrow> 'k \<Rightarrow> nat list" where
  "accessors sel metas key =
     concat (map (\<lambda>i. map (\<lambda>_. i) (filter ((=) key) (sel (metas ! i)))) [0..<length metas])"

text \<open>The systems offered to \<^verbatim>\<open>add_edge\<close> for system \<open>j\<close>, in the order of the four loops.\<close>

definition edge_candidates :: "expanded_meta list \<Rightarrow> nat \<Rightarrow> nat list" where
  "edge_candidates metas j =
     (let meta_j = metas ! j
      in concat (map (accessors em_writes metas) (em_reads meta_j @ em_writes meta_j)) @
         concat (map (accessors em_reads metas) (em_writes meta_j)) @
         concat (map (accessors em_writes_resources metas)
           (em_reads_resources meta_j @ em_writes_resources meta_j)) @
         concat (map (accessors em_reads_resources metas) (em_writes_resources meta_j)))"

type_synonym edge_state = "(nat \<times> nat) list \<times> nat list"

text \<open>\<^verbatim>\<open>seen\<close> holds the edges pushed so far.\<close>

definition add_edge :: "nat \<Rightarrow> nat \<Rightarrow> edge_state \<Rightarrow> edge_state" where
  "add_edge j i st =
     (case st of (edges, in_degree) \<Rightarrow>
        if i < j \<and> (i, j) \<notin> set edges
        then (edges @ [(i, j)], in_degree[j := in_degree ! j + 1])
        else (edges, in_degree))"

definition conflict_edges :: "expanded_meta list \<Rightarrow> edge_state" where
  "conflict_edges metas =
     fold (\<lambda>j. fold (add_edge j) (edge_candidates metas j)) [0..<length metas]
       ([], replicate (length metas) 0)"

section \<open>Levels and stages\<close>

definition out_edges :: "(nat \<times> nat) list \<Rightarrow> nat \<Rightarrow> nat list" where
  "out_edges edges i =
     (let start = partition_point (\<lambda>(src, _). src < i) edges;
          stop = partition_point (\<lambda>(src, _). src \<le> i) edges
      in map snd (drop start (take stop edges)))"

fun lift_targets :: "nat \<Rightarrow> nat list \<Rightarrow> nat list \<Rightarrow> nat list \<Rightarrow> nat list \<Rightarrow> nat list \<times> nat list \<times> nat list" where
  "lift_targets i [] levels in_degree queue = (levels, in_degree, queue)"
| "lift_targets i (j # js) levels in_degree queue =
     (let levels' = levels[j := max (levels ! j) (levels ! i + 1)];
          in_degree' = in_degree[j := in_degree ! j - 1]
      in lift_targets i js levels' in_degree'
           (if in_degree' ! j = 0 then queue @ [j] else queue))"

text \<open>
  The work-list loop; the list is the part of the queue not yet read. \<open>None\<close> is running out of
  fuel, which the lemmas exclude for as much fuel as there are systems.
\<close>

fun level_loop :: "nat \<Rightarrow> (nat \<times> nat) list \<Rightarrow> nat list \<Rightarrow> nat list \<Rightarrow> nat list \<Rightarrow> nat list option" where
  "level_loop fuel edges levels in_degree [] = Some levels"
| "level_loop 0 edges levels in_degree (i # queue) = None"
| "level_loop (Suc fuel) edges levels in_degree (i # queue) =
     (case lift_targets i (out_edges edges i) levels in_degree queue of
        (levels', in_degree', queue') \<Rightarrow> level_loop fuel edges levels' in_degree' queue')"

definition system_levels :: "expanded_meta list \<Rightarrow> nat list option" where
  "system_levels metas =
     (case conflict_edges metas of (edges, in_degree) \<Rightarrow>
        level_loop (length metas) (sort edges) (replicate (length metas) 0) in_degree
          (filter (\<lambda>i. in_degree ! i = 0) [0..<length metas]))"

definition bucket_levels :: "nat list \<Rightarrow> nat list list" where
  "bucket_levels levels =
     (let max_level = Max (set levels)
      in map (\<lambda>l. filter (\<lambda>i. levels ! i = l) [0..<length levels]) [0..<max_level + 1])"

definition build_stages_inner :: "expanded_meta list \<Rightarrow> nat list list option" where
  "build_stages_inner metas =
     (if metas = [] then Some [] else map_option bucket_levels (system_levels metas))"

text \<open>\<^verbatim>\<open>ensure_plan\<close> on a pipeline without a cached plan: expand every system, then plan.\<close>

fun expand_all :: "system_meta list \<Rightarrow> schema_registry \<Rightarrow> expanded_meta list saci_result" where
  "expand_all [] schemas = Inr []"
| "expand_all (m # ms) schemas =
     res_bind (from_meta m schemas)
       (\<lambda>e. res_bind (expand_all ms schemas) (\<lambda>es. Inr (e # es)))"

definition ensure_plan :: "system_meta list \<Rightarrow> schema_registry \<Rightarrow> nat list list option saci_result" where
  "ensure_plan systems schemas =
     res_bind (expand_all systems schemas) (\<lambda>metas. Inr (build_stages_inner metas))"

end
