(* ===== verification/Dag_Properties.thy ===== *)
theory Dag_Properties
  imports Dag "HOL-Library.Code_Target_Numeral"
begin

text \<open>
  Correctness of the stage plan of a pipeline: conflicting systems are in different stages, in
  their registration order, and no system is later than its conflicts require.
\<close>

section \<open>Conflict edges\<close>

definition conflicts :: "expanded_meta \<Rightarrow> expanded_meta \<Rightarrow> bool" where
  "conflicts a b \<longleftrightarrow>
     set (em_writes a) \<inter> (set (em_reads b) \<union> set (em_writes b)) \<noteq> {} \<or>
     set (em_reads a) \<inter> set (em_writes b) \<noteq> {} \<or>
     set (em_writes_resources a) \<inter> (set (em_reads_resources b) \<union> set (em_writes_resources b)) \<noteq> {} \<or>
     set (em_reads_resources a) \<inter> set (em_writes_resources b) \<noteq> {}"

lemma conflicts_sym: "conflicts a b \<longleftrightarrow> conflicts b a"
  unfolding conflicts_def by blast

lemma accessors_set: "i \<in> set (accessors sel metas k) \<longleftrightarrow> i < length metas \<and> k \<in> set (sel (metas ! i))"
  by (auto simp: accessors_def)

lemma edge_candidates_set:
  "i \<in> set (edge_candidates metas j) \<longleftrightarrow> i < length metas \<and> conflicts (metas ! i) (metas ! j)"
  unfolding edge_candidates_def Let_def conflicts_def
  by (simp add: accessors_set) blast

definition edges_ok :: "nat \<Rightarrow> edge_state \<Rightarrow> bool" where
  "edges_ok n st \<longleftrightarrow> distinct (fst st) \<and> length (snd st) = n \<and>
     (\<forall>(u, v) \<in> set (fst st). u < v \<and> v < n) \<and>
     (\<forall>v < n. snd st ! v = length (filter (\<lambda>e. snd e = v) (fst st)))"

lemma add_edge_ok:
  "edges_ok n st \<Longrightarrow> j < n \<Longrightarrow> edges_ok n (add_edge j i st) \<and>
   set (fst (add_edge j i st)) = set (fst st) \<union> (if i < j then {(i, j)} else {})"
  by (cases st) (auto simp: edges_ok_def add_edge_def nth_list_update)

lemma fold_add_edge:
  "edges_ok n st \<Longrightarrow> j < n \<Longrightarrow> edges_ok n (fold (add_edge j) cs st) \<and>
   set (fst (fold (add_edge j) cs st)) = set (fst st) \<union> {(i, j) |i. i \<in> set cs \<and> i < j}"
proof (induction cs arbitrary: st)
  case Nil
  then show ?case by simp
next
  case (Cons c cs)
  note A = add_edge_ok [OF Cons.prems, of c]
  from Cons.IH [OF conjunct1 [OF A] Cons.prems(2)] A show ?case by auto
qed

lemma fold_edges:
  "edges_ok n st \<Longrightarrow> \<forall>j \<in> set js. j < n \<Longrightarrow>
   edges_ok n (fold (\<lambda>j. fold (add_edge j) (cand j)) js st) \<and>
   set (fst (fold (\<lambda>j. fold (add_edge j) (cand j)) js st)) =
     set (fst st) \<union> {(i, j) |i j. j \<in> set js \<and> i \<in> set (cand j) \<and> i < j}"
proof (induction js arbitrary: st)
  case Nil
  then show ?case by simp
next
  case (Cons j js)
  have "edges_ok n (fold (add_edge j) (cand j) st)"
    "set (fst (fold (add_edge j) (cand j) st)) = set (fst st) \<union> {(i, j) |i. i \<in> set (cand j) \<and> i < j}"
    using fold_add_edge [OF Cons.prems(1), of j "cand j"] Cons.prems(2) by auto
  then show ?case using Cons.IH [of "fold (add_edge j) (cand j) st"] Cons.prems(2) by auto
qed

definition edge_set :: "expanded_meta list \<Rightarrow> (nat \<times> nat) set" where
  "edge_set metas = {(i, j). i < j \<and> j < length metas \<and> conflicts (metas ! i) (metas ! j)}"

lemma conflict_edges_spec:
  "edges_ok (length metas) (conflict_edges metas) \<and> set (fst (conflict_edges metas)) = edge_set metas"
proof -
  have "edges_ok (length metas) ([], replicate (length metas) 0)" by (simp add: edges_ok_def)
  from fold_edges [OF this, of "[0..<length metas]" "edge_candidates metas", folded conflict_edges_def]
  have F: "edges_ok (length metas) (conflict_edges metas)" "set (fst (conflict_edges metas)) =
      {(i, j) |i j. j < length metas \<and> i \<in> set (edge_candidates metas j) \<and> i < j}" by simp_all
  have "{(i, j) |i j. j < length metas \<and> i \<in> set (edge_candidates metas j) \<and> i < j} = edge_set metas"
    unfolding edge_set_def edge_candidates_set by (auto intro: less_trans)
  with F show ?thesis by simp
qed

section \<open>Slices of the sorted edge list\<close>

lemma takeWhile_le_eq:
  "sorted (map fst es) \<Longrightarrow> \<forall>e \<in> set es. i \<le> fst e \<Longrightarrow>
   takeWhile (\<lambda>(src, _). src \<le> i) es = filter (\<lambda>e. fst e = (i :: nat)) es"
proof (induction es)
  case (Cons e es)
  show ?case
  proof (cases "fst e = i")
    case True
    then show ?thesis using Cons by (auto simp: split_beta)
  next
    case False
    then have "filter (\<lambda>e. fst e = i) (e # es) = []" using Cons.prems by (auto simp: filter_empty_conv)
    then show ?thesis using Cons.prems False by (auto simp: split_beta)
  qed
qed simp

lemma out_edges_eq:
  "sorted (map fst es) \<Longrightarrow> out_edges es i = map snd (filter (\<lambda>e. fst e = i) es)"
proof (induction es)
  case Nil
  then show ?case by (simp add: out_edges_def partition_point_def)
next
  case (Cons e es)
  show ?case
  proof (cases "fst e < i")
    case True
    then show ?thesis using Cons by (cases e) (simp add: out_edges_def partition_point_def Let_def)
  next
    case False
    then have "\<forall>x \<in> set (e # es). i \<le> fst x" using Cons.prems by auto
    note le = takeWhile_le_eq [OF Cons.prems this]
    have "takeWhile (\<lambda>(src, _). src < i) (e # es) = []" using False by (cases e) simp
    then have "out_edges (e # es) i = map snd (takeWhile (\<lambda>(src, _). src \<le> i) (e # es))"
      by (simp only: out_edges_def partition_point_def Let_def list.size drop_0
          takeWhile_eq_take [symmetric])
    then show ?thesis by (simp only: le)
  qed
qed

lemma out_edges_sorted:
  assumes "distinct es"
  shows "distinct (out_edges (sort es) i)" "set (out_edges (sort es) i) = {j. (i, j) \<in> set es}"
proof -
  have mono: "fst a \<le> fst b" if "a \<le> b" for a b :: "nat \<times> nat"
    using that by (auto simp: less_eq_prod_def)
  have "sorted_wrt (\<lambda>a b. fst a \<le> fst b) (sort es)"
    using sorted_wrt_mono_rel [of "sort es" "(\<le>)" "\<lambda>a b. fst a \<le> fst b"] mono sorted_sort by auto
  then have "sorted (map fst (sort es))" by (simp add: sorted_map)
  note eq = out_edges_eq [OF this, of i]
  show "set (out_edges (sort es) i) = {j. (i, j) \<in> set es}" unfolding eq by force
  have "inj_on snd (set (filter (\<lambda>e. fst e = i) (sort es)))" by (auto simp: inj_on_def)
  then show "distinct (out_edges (sort es) i)" using assms unfolding eq by (simp add: distinct_map)
qed

section \<open>The work-list loop\<close>

lemma lift_targets_spec:
  "distinct js \<Longrightarrow> i \<notin> set js \<Longrightarrow> \<forall>j \<in> set js. j < length levels \<and> j < length deg \<Longrightarrow>
   \<exists>levels' deg'. lift_targets i js levels deg q = (levels', deg', q @ filter (\<lambda>j. deg ! j - 1 = 0) js) \<and>
     length levels' = length levels \<and> length deg' = length deg \<and>
     (\<forall>v. levels' ! v = (if v \<in> set js then max (levels ! v) (levels ! i + 1) else levels ! v)) \<and>
     (\<forall>v. deg' ! v = (if v \<in> set js then deg ! v - 1 else deg ! v))"
proof (induction js arbitrary: levels deg q)
  case Nil
  then show ?case by simp
next
  case (Cons j js)
  let ?levels = "levels[j := max (levels ! j) (levels ! i + 1)]" and ?deg = "deg[j := deg ! j - 1]"
  have "\<exists>levels' deg'. lift_targets i js ?levels ?deg (if ?deg ! j = 0 then q @ [j] else q) =
      (levels', deg', (if ?deg ! j = 0 then q @ [j] else q) @ filter (\<lambda>j. ?deg ! j - 1 = 0) js) \<and>
     length levels' = length ?levels \<and> length deg' = length ?deg \<and>
     (\<forall>v. levels' ! v = (if v \<in> set js then max (?levels ! v) (?levels ! i + 1) else ?levels ! v)) \<and>
     (\<forall>v. deg' ! v = (if v \<in> set js then ?deg ! v - 1 else ?deg ! v))"
    using Cons.prems by (intro Cons.IH) auto
  then obtain levels' deg' where IH:
    "lift_targets i js ?levels ?deg (if ?deg ! j = 0 then q @ [j] else q) =
      (levels', deg', (if ?deg ! j = 0 then q @ [j] else q) @ filter (\<lambda>j. ?deg ! j - 1 = 0) js)"
    "length levels' = length levels" "length deg' = length deg"
    "\<forall>v. levels' ! v = (if v \<in> set js then max (?levels ! v) (?levels ! i + 1) else ?levels ! v)"
    "\<forall>v. deg' ! v = (if v \<in> set js then ?deg ! v - 1 else ?deg ! v)" by auto
  have "filter (\<lambda>j. ?deg ! j - 1 = 0) js = filter (\<lambda>j. deg ! j - 1 = 0) js"
    by (intro filter_cong refl) (metis Cons.prems(1) distinct.simps(2) nth_list_update_neq)
  then have run: "lift_targets i (j # js) levels deg q =
      (levels', deg', q @ filter (\<lambda>j. deg ! j - 1 = 0) (j # js))"
    using IH(1) Cons.prems(3) by (simp add: Let_def)
  moreover have "levels' ! v = (if v \<in> set (j # js) then max (levels ! v) (levels ! i + 1) else levels ! v)" for v
    using IH(4) Cons.prems by (cases "v = j") auto
  moreover have "deg' ! v = (if v \<in> set (j # js) then deg ! v - 1 else deg ! v)" for v
    using IH(5) Cons.prems by (cases "v = j") auto
  ultimately show ?case using IH(2,3) by auto
qed

definition level_inv :: "nat \<Rightarrow> (nat \<times> nat) set \<Rightarrow> nat set \<Rightarrow> nat list \<Rightarrow> nat list \<Rightarrow> nat list \<Rightarrow> bool" where
  "level_inv n E D levels deg q \<longleftrightarrow> length levels = n \<and> length deg = n \<and> D \<subseteq> {..<n} \<and> distinct q \<and>
     (\<forall>v < n. deg ! v = card {u. (u, v) \<in> E \<and> u \<notin> D}) \<and>
     set q = {v. v < n \<and> v \<notin> D \<and> {u. (u, v) \<in> E \<and> u \<notin> D} = {}} \<and>
     (\<forall>u v. (u, v) \<in> E \<longrightarrow> v \<in> D \<longrightarrow> u \<in> D) \<and>
     (\<forall>u v. (u, v) \<in> E \<longrightarrow> u \<in> D \<longrightarrow> levels ! u < levels ! v) \<and>
     (\<forall>v < n. levels ! v = 0 \<or> (\<exists>u \<in> D. (u, v) \<in> E \<and> levels ! v = levels ! u + 1))"

definition forward :: "nat \<Rightarrow> (nat \<times> nat) set \<Rightarrow> bool" where
  "forward n E \<longleftrightarrow> (\<forall>u v. (u, v) \<in> E \<longrightarrow> u < v \<and> v < n)"

lemma forward_preds_finite: "forward n E \<Longrightarrow> finite {u. (u, v) \<in> E \<and> P u}"
  by (rule finite_subset [of _ "{..<v}"]) (auto simp: forward_def)

lemma level_inv_step:
  assumes inv: "level_inv n E D levels deg (i # q)" and fwd: "forward n E"
    and js: "distinct js" "set js = {j. (i, j) \<in> E}"
    and step: "lift_targets i js levels deg q = (levels', deg', q')"
  shows "level_inv n E (insert i D) levels' deg' q'"
proof -
  have len: "length levels = n" "length deg = n" and D: "D \<subseteq> {..<n}" and dq: "distinct (i # q)"
    and deg: "\<And>v. v < n \<Longrightarrow> deg ! v = card {u. (u, v) \<in> E \<and> u \<notin> D}"
    and q: "set (i # q) = {v. v < n \<and> v \<notin> D \<and> {u. (u, v) \<in> E \<and> u \<notin> D} = {}}"
    and closed: "\<And>u v. (u, v) \<in> E \<Longrightarrow> v \<in> D \<Longrightarrow> u \<in> D"
    and up: "\<And>u v. (u, v) \<in> E \<Longrightarrow> u \<in> D \<Longrightarrow> levels ! u < levels ! v"
    and tight: "\<And>v. v < n \<Longrightarrow> levels ! v = 0 \<or> (\<exists>u \<in> D. (u, v) \<in> E \<and> levels ! v = levels ! u + 1)"
    using inv unfolding level_inv_def by blast+
  have E: "\<And>u v. (u, v) \<in> E \<Longrightarrow> u < v \<and> v < n" using fwd by (simp add: forward_def)
  have i: "i < n" "i \<notin> D" "\<And>u. (u, i) \<in> E \<Longrightarrow> u \<in> D" using q by auto
  have "i \<notin> set js" "\<forall>j \<in> set js. j < length levels \<and> j < length deg" using js(2) E len by auto
  from lift_targets_spec [OF js(1) this, of q] step have
    q': "q' = q @ filter (\<lambda>j. deg ! j - 1 = 0) js" and len': "length levels' = n" "length deg' = n"
    and lev: "\<And>v. levels' ! v = (if (i, v) \<in> E then max (levels ! v) (levels ! i + 1) else levels ! v)"
    and deg': "\<And>v. deg' ! v = (if (i, v) \<in> E then deg ! v - 1 else deg ! v)"
    using js(2) len by auto
  have split: "{u. (u, v) \<in> E \<and> u \<notin> D} = {u. (u, v) \<in> E \<and> u \<notin> insert i D} \<union> (if (i, v) \<in> E then {i} else {})" for v
    using i(2) by auto
  have card: "card {u. (u, v) \<in> E \<and> u \<notin> D} =
      card {u. (u, v) \<in> E \<and> u \<notin> insert i D} + (if (i, v) \<in> E then 1 else 0)" for v
    unfolding split [of v] using forward_preds_finite [OF fwd] by (subst card_Un_disjoint) auto
  have d': "deg' ! v = card {u. (u, v) \<in> E \<and> u \<notin> insert i D}" if "v < n" for v
    using deg [OF that] card [of v] deg' [of v] by simp
  have same: "levels' ! u = levels ! u" if "u \<in> insert i D" for u
    using that lev [of u] closed i E by fastforce
  have zero: "deg ! j - 1 = 0 \<longleftrightarrow> {u. (u, j) \<in> E \<and> u \<notin> insert i D} = {}" if "(i, j) \<in> E" for j
  proof -
    have "j < n" using E [OF that] by simp
    from deg [OF this] card [of j] that have "deg ! j - 1 = card {u. (u, j) \<in> E \<and> u \<notin> insert i D}" by simp
    then show ?thesis using forward_preds_finite [OF fwd, of j "\<lambda>u. u \<notin> insert i D"] by simp
  qed
  have q_set: "set q' = {v. v < n \<and> v \<notin> insert i D \<and> {u. (u, v) \<in> E \<and> u \<notin> insert i D} = {}}"
  proof (intro set_eqI iffI)
    fix v assume "v \<in> set q'"
    then consider "v \<in> set q" | "(i, v) \<in> E" "{u. (u, v) \<in> E \<and> u \<notin> insert i D} = {}"
      using q' js(2) zero by auto
    then show "v \<in> {v. v < n \<and> v \<notin> insert i D \<and> {u. (u, v) \<in> E \<and> u \<notin> insert i D} = {}}"
    proof cases
      case 1
      then show ?thesis using q dq by auto
    next
      case 2
      then show ?thesis using E [OF 2(1)] closed i by blast
    qed
  next
    fix v assume v: "v \<in> {v. v < n \<and> v \<notin> insert i D \<and> {u. (u, v) \<in> E \<and> u \<notin> insert i D} = {}}"
    show "v \<in> set q'"
    proof (cases "(i, v) \<in> E")
      case True
      then show ?thesis using v zero q' js(2) by auto
    next
      case False
      then have "v \<in> set (i # q)" using v unfolding q by auto
      then show ?thesis using v q' by auto
    qed
  qed
  have dist: "distinct q'"
  proof -
    have "j \<notin> set q" if "(i, j) \<in> E" for j
    proof
      assume "j \<in> set q"
      then have "{u. (u, j) \<in> E \<and> u \<notin> D} = {}" using q by auto
      then show False using that i(2) by blast
    qed
    then show ?thesis using dq js by (auto simp: q')
  qed
  have lt: "levels' ! u < levels' ! v" if "(u, v) \<in> E" "u \<in> insert i D" for u v
    using that same [OF that(2)] lev [of v] up [of u v] by (cases "u = i") auto
  have tt: "levels' ! v = 0 \<or> (\<exists>u \<in> insert i D. (u, v) \<in> E \<and> levels' ! v = levels' ! u + 1)" if "v < n" for v
    using tight [OF that] lev [of v] same by (auto simp: max_def split: if_splits)
  have sub: "insert i D \<subseteq> {..<n}" using D i(1) by auto
  have cl: "u \<in> insert i D" if "(u, v) \<in> E" "v \<in> insert i D" for u v
    using that closed i(3) by auto
  show ?thesis
    unfolding level_inv_def
    by (intro conjI allI impI;
        (rule len' sub dist q_set | rule d', assumption | rule cl, assumption, assumption
         | rule lt, assumption, assumption | rule tt, assumption))
qed

lemma level_inv_all_placed:
  assumes "level_inv n E D levels deg []" "forward n E"
  shows "v < n \<Longrightarrow> v \<in> D"
proof (induction v rule: less_induct)
  case (less v)
  have "{u. (u, v) \<in> E \<and> u \<notin> D} = {}" using less assms(2) by (fastforce simp: forward_def)
  then show ?case using less(2) assms(1) unfolding level_inv_def by auto
qed

lemma level_loop_correct:
  assumes fwd: "forward n E" and out: "\<And>i. distinct (out_edges es i)" "\<And>i. set (out_edges es i) = {j. (i, j) \<in> E}"
  shows "level_inv n E D levels deg q \<Longrightarrow> n - card D \<le> fuel \<Longrightarrow>
    \<exists>levels'. level_loop fuel es levels deg q = Some levels' \<and> length levels' = n \<and>
      (\<forall>u v. (u, v) \<in> E \<longrightarrow> levels' ! u < levels' ! v) \<and>
      (\<forall>v < n. levels' ! v = 0 \<or> (\<exists>u. (u, v) \<in> E \<and> levels' ! v = levels' ! u + 1))"
proof (induction fuel arbitrary: D levels deg q)
  case (0 D levels deg q)
  show ?case
  proof (cases q)
    case Nil
    have "u \<in> D" if "(u, v) \<in> E" for u v
      using level_inv_all_placed [OF 0(1) [unfolded Nil] fwd, of u] fwd that by (force simp: forward_def)
    then show ?thesis using 0(1) Nil unfolding level_inv_def by auto
  next
    case (Cons i q')
    have "i \<in> {..<n} - D" using 0(1) Cons unfolding level_inv_def by auto
    then have "D \<subset> {..<n}" using 0(1) unfolding level_inv_def by blast
    then have "card D < n" by (metis card_lessThan finite_lessThan psubset_card_mono)
    then show ?thesis using 0(2) by simp
  qed
next
  case (Suc fuel D levels deg q)
  show ?case
  proof (cases q)
    case Nil
    have "u \<in> D" if "(u, v) \<in> E" for u v
      using level_inv_all_placed [OF Suc(2) [unfolded Nil] fwd, of u] fwd that by (force simp: forward_def)
    then show ?thesis using Suc(2) Nil unfolding level_inv_def by auto
  next
    case (Cons i q')
    obtain levels1 deg1 q1 where step: "lift_targets i (out_edges es i) levels deg q' = (levels1, deg1, q1)"
      by (cases "lift_targets i (out_edges es i) levels deg q'") auto
    note inv = level_inv_step [OF Suc(2) [unfolded Cons] fwd out step]
    have "i \<notin> D" "finite D"
      using Suc(2) Cons unfolding level_inv_def by (auto intro: finite_subset)
    then have "n - card (insert i D) \<le> fuel" using Suc(3) by simp
    from Suc(1) [OF inv this] show ?thesis using step by (simp add: Cons)
  qed
qed

section \<open>The stage plan\<close>

lemma level_inv_init:
  assumes "edges_ok n (edges, deg)"
  shows "level_inv n (set edges) {} (replicate n 0) deg (filter (\<lambda>i. deg ! i = 0) [0..<n])"
proof -
  have card: "deg ! v = card {u. (u, v) \<in> set edges}" if "v < n" for v
  proof -
    have "length (filter (\<lambda>e. snd e = v) edges) = card (set (filter (\<lambda>e. snd e = v) edges))"
      using assms by (metis distinct_card distinct_filter edges_ok_def fst_conv)
    also have "\<dots> = card ((\<lambda>u. (u, v)) ` {u. (u, v) \<in> set edges})"
      by (rule arg_cong [of _ _ card]) auto
    also have "\<dots> = card {u. (u, v) \<in> set edges}" by (rule card_image) (auto simp: inj_on_def)
    finally show ?thesis using assms that by (simp add: edges_ok_def)
  qed
  have fin: "finite {u. (u, v) \<in> set edges}" for v
    by (rule finite_subset [of _ "fst ` set edges"]) force+
  have "set (filter (\<lambda>i. deg ! i = 0) [0..<n]) = {v. v < n \<and> {u. (u, v) \<in> set edges} = {}}"
    using card fin by auto
  then show ?thesis using assms card by (simp add: level_inv_def edges_ok_def)
qed

lemma system_levels_correct:
  "\<exists>levels. system_levels metas = Some levels \<and> length levels = length metas \<and>
     (\<forall>u v. (u, v) \<in> edge_set metas \<longrightarrow> levels ! u < levels ! v) \<and>
     (\<forall>v < length metas. levels ! v = 0 \<or> (\<exists>u. (u, v) \<in> edge_set metas \<and> levels ! v = levels ! u + 1))"
proof -
  obtain edges deg where c: "conflict_edges metas = (edges, deg)" by (cases "conflict_edges metas")
  have ok: "edges_ok (length metas) (edges, deg)" and set: "set edges = edge_set metas"
    using conflict_edges_spec [of metas] c by simp_all
  have fwd: "forward (length metas) (edge_set metas)" by (auto simp: forward_def edge_set_def)
  have dist: "distinct edges" using ok by (simp add: edges_ok_def)
  note out = out_edges_sorted [OF dist, unfolded set]
  from level_loop_correct [OF fwd out level_inv_init [OF ok, unfolded set], of "length metas"] c
  show ?thesis by (simp add: system_levels_def)
qed

lemma bucket_levels_nth:
  assumes "levels \<noteq> []" "l < length (bucket_levels levels)"
  shows "bucket_levels levels ! l = filter (\<lambda>i. levels ! i = l) [0..<length levels]"
  using assms by (simp add: bucket_levels_def del: upt_Suc)

lemma bucket_levels_mem:
  assumes "levels \<noteq> []" "i < length levels"
  shows "levels ! i < length (bucket_levels levels) \<and> i \<in> set (bucket_levels levels ! (levels ! i))"
proof -
  have "levels ! i \<le> Max (set levels)" using assms(2) by (intro Max_ge) auto
  then have "levels ! i < length (bucket_levels levels)" by (simp add: bucket_levels_def del: upt_Suc)
  then show ?thesis using bucket_levels_nth [OF assms(1)] assms(2) by simp
qed

lemma distinct_bucket_levels: "distinct (concat (bucket_levels levels))"
proof -
  have "distinct (concat (map (\<lambda>l. filter (\<lambda>i. levels ! i = l) [0..<n]) ls))" if "distinct ls" for ls n
    using that by (induction ls) auto
  then show ?thesis by (simp add: bucket_levels_def del: upt_Suc)
qed

text \<open>
  C26. Planning the systems of a pipeline always succeeds. Every system is in exactly one stage;
  two systems that conflict (one writes a field or resource the other reads or writes) are in
  different stages, the one registered first in the earlier one.
\<close>

theorem build_stages_inner_correct:
  "\<exists>stages. build_stages_inner metas = Some stages \<and> distinct (concat stages) \<and>
     set (concat stages) = {..<length metas} \<and>
     (\<forall>i j. i < j \<longrightarrow> j < length metas \<longrightarrow> conflicts (metas ! i) (metas ! j) \<longrightarrow>
        (\<exists>a b. a < b \<and> b < length stages \<and> i \<in> set (stages ! a) \<and> j \<in> set (stages ! b)))"
proof (cases "metas = []")
  case True
  then show ?thesis by (simp add: build_stages_inner_def)
next
  case False
  from system_levels_correct [of metas] obtain levels where
    l: "system_levels metas = Some levels" "length levels = length metas"
    "\<And>u v. (u, v) \<in> edge_set metas \<Longrightarrow> levels ! u < levels ! v" by blast
  have ne: "levels \<noteq> []" using l(2) False by auto
  let ?st = "bucket_levels levels"
  have "\<exists>a b. a < b \<and> b < length ?st \<and> i \<in> set (?st ! a) \<and> j \<in> set (?st ! b)"
    if "i < j" "j < length metas" "conflicts (metas ! i) (metas ! j)" for i j
    using l(3) [of i j] bucket_levels_mem [OF ne, of i] bucket_levels_mem [OF ne, of j] that l(2)
    by (auto simp: edge_set_def)
  moreover have "set (concat ?st) = {..<length metas}"
  proof (intro subset_antisym subsetI)
    fix i assume "i \<in> {..<length metas}"
    then show "i \<in> set (concat ?st)"
      using bucket_levels_mem [OF ne, of i] l(2) nth_mem [of "levels ! i" ?st] by auto
  qed (auto simp: bucket_levels_def l(2) simp del: upt_Suc)
  ultimately show ?thesis
    using l(1) False distinct_bucket_levels by (simp add: build_stages_inner_def)
qed

definition demo_metas :: "expanded_meta list" where
  "demo_metas =
     [\<lparr>em_name = ''w'', em_reads = [], em_writes = [(''C'', ''x'')], em_reads_resources = [], em_writes_resources = []\<rparr>,
      \<lparr>em_name = ''r'', em_reads = [(''C'', ''x'')], em_writes = [], em_reads_resources = [], em_writes_resources = []\<rparr>,
      \<lparr>em_name = ''y'', em_reads = [], em_writes = [(''C'', ''y'')], em_reads_resources = [], em_writes_resources = []\<rparr>]"

theorem build_stages_inner_correct_witness:
  "build_stages_inner demo_metas = Some [[0, 2], [1]] \<and> set (concat [[0, 2], [1 :: nat]]) = {..<3} \<and>
   (\<exists>a b. a < b \<and> b < length [[0, 2], [1 :: nat]] \<and> 0 \<in> set ([[0, 2], [1 :: nat]] ! a) \<and>
      1 \<in> set ([[0, 2], [1 :: nat]] ! b))"
proof -
  have run: "build_stages_inner demo_metas = Some [[0, 2], [1]]" by code_simp
  have len: "length demo_metas = 3" by code_simp
  have "conflicts (demo_metas ! 0) (demo_metas ! 1)" by (simp add: conflicts_def demo_metas_def)
  with build_stages_inner_correct [of demo_metas] show ?thesis
    unfolding run len by (metis One_nat_def less_one numeral_3_eq_3 option.inject zero_less_Suc less_Suc_eq)
qed

text \<open>
  Stages are as wide and as early as possible: no two systems of one stage conflict, and every
  system of a later stage conflicts with a system registered before it in the stage just before.
\<close>

theorem build_stages_inner_tight:
  assumes "build_stages_inner metas = Some stages" "b < length stages" "j \<in> set (stages ! b)"
  shows "(\<forall>i \<in> set (stages ! b). i \<noteq> j \<longrightarrow> \<not> conflicts (metas ! i) (metas ! j)) \<and>
    (0 < b \<longrightarrow> (\<exists>i \<in> set (stages ! (b - 1)). i < j \<and> conflicts (metas ! i) (metas ! j)))"
proof -
  have False: "metas \<noteq> []" using assms(1,2) by (auto simp: build_stages_inner_def)
  from system_levels_correct [of metas] obtain levels where
    l: "system_levels metas = Some levels" "length levels = length metas"
    "\<And>u v. (u, v) \<in> edge_set metas \<Longrightarrow> levels ! u < levels ! v"
    "\<And>v. v < length metas \<Longrightarrow> levels ! v = 0 \<or> (\<exists>u. (u, v) \<in> edge_set metas \<and> levels ! v = levels ! u + 1)"
    by blast
  have ne: "levels \<noteq> []" using l(2) False by auto
  have st: "stages = bucket_levels levels" using assms(1) l(1) False by (simp add: build_stages_inner_def)
  note B = bucket_levels_nth [OF ne]
  have j: "j < length metas" "levels ! j = b" using assms(2,3) B [of b] l(2) by (auto simp: st)
  have "\<not> conflicts (metas ! i) (metas ! j)" if "i \<in> set (stages ! b)" "i \<noteq> j" for i
  proof
    assume c: "conflicts (metas ! i) (metas ! j)"
    have i: "i < length metas" "levels ! i = b" using assms(2) that B [of b] l(2) by (auto simp: st)
    have "(i, j) \<in> edge_set metas \<or> (j, i) \<in> edge_set metas"
      using c conflicts_sym that(2) i(1) j(1) by (auto simp: edge_set_def)
    then show False using l(3) [of i j] l(3) [of j i] i(2) j(2) by auto
  qed
  moreover have "\<exists>i \<in> set (stages ! (b - 1)). i < j \<and> conflicts (metas ! i) (metas ! j)" if "0 < b"
  proof -
    have "levels ! j \<noteq> 0" using that j(2) by simp
    then obtain u where u: "(u, j) \<in> edge_set metas" "levels ! j = levels ! u + 1"
      using l(4) [OF j(1)] by auto
    then have ub: "u < length levels" "levels ! u = b - 1" using j l(2) by (auto simp: edge_set_def)
    from bucket_levels_mem [OF ne ub(1)] u(1) ub(2) show ?thesis by (auto simp: st edge_set_def)
  qed
  ultimately show ?thesis by blast
qed

theorem build_stages_inner_tight_witness:
  "\<exists>i \<in> set ([[0, 2], [1 :: nat]] ! (1 - 1)). i < 1 \<and> conflicts (demo_metas ! i) (demo_metas ! 1)"
proof -
  have "build_stages_inner demo_metas = Some [[0, 2], [1]]" by code_simp
  from build_stages_inner_tight [OF this, of 1 1] show ?thesis by simp
qed

end
