(* ===== verification/Retry.thy ===== *)
theory Retry
  imports Prelude
begin

text \<open>
  \<^verbatim>\<open>saci-core/src/retry.rs\<close>: the retry strategies, the attempt bookkeeping \<^verbatim>\<open>Attempts\<close> and the
  two drivers \<^verbatim>\<open>run_with_retries\<close> and \<^verbatim>\<open>run_with_retries_blocking\<close>. The operation that is
  retried is a state transformer, since the source takes an \<^verbatim>\<open>FnMut\<close>; a run of a driver
  returns the result, the state the operation left and the sleeps that were made.
  A \<^verbatim>\<open>usize\<close> is a 64-bit word, a \<^verbatim>\<open>Duration\<close> a number of nanoseconds. The arithmetic of
  \<^verbatim>\<open>f64\<close> and the random factor of the \<^verbatim>\<open>rand\<close> crate are arguments.
\<close>

section \<open>Modes\<close>

type_synonym duration = nat

record 'f f64_ops =
  of_u128 :: "nat \<Rightarrow> 'f"
  f_mul :: "'f \<Rightarrow> 'f \<Rightarrow> 'f"
  f_add :: "'f \<Rightarrow> 'f \<Rightarrow> 'f"
  f_powi :: "'f \<Rightarrow> int \<Rightarrow> 'f"
  f_min :: "'f \<Rightarrow> 'f \<Rightarrow> 'f"
  f_max :: "'f \<Rightarrow> 'f \<Rightarrow> 'f"
  f_clamp :: "'f \<Rightarrow> 'f \<Rightarrow> 'f \<Rightarrow> 'f"
  f_less :: "'f \<Rightarrow> 'f \<Rightarrow> bool"
  f_zero :: 'f
  f_tenth :: 'f
  f_one :: 'f
  f_two :: 'f
  f_to_u64 :: "'f \<Rightarrow> nat"

datatype 'f retry_mode =
    NoRetry
  | Fixed (retries: "64 word") (delay: duration)
  | ExponentialBackoff (max_retries: "64 word") (base_delay: duration) (multiplier: 'f)
      (max_delay: duration) (jitter: 'f)

definition from_millis :: "nat \<Rightarrow> duration" where "from_millis ms = ms * 10 ^ 6"
definition as_millis :: "duration \<Rightarrow> nat" where "as_millis d = d div 10 ^ 6"

definition exponential :: "'f f64_ops \<Rightarrow> 64 word \<Rightarrow> 'f retry_mode" where
  "exponential F n =
     ExponentialBackoff n (from_millis 100) (f_two F) (from_millis 30000) (f_tenth F)"

definition exponential_custom ::
    "'f f64_ops \<Rightarrow> 64 word \<Rightarrow> duration \<Rightarrow> 'f \<Rightarrow> duration \<Rightarrow> 'f \<Rightarrow> 'f retry_mode" where
  "exponential_custom F n base mult cap jit =
     ExponentialBackoff n base mult cap (f_clamp F jit (f_zero F) (f_one F))"

definition default_mode :: "'f f64_ops \<Rightarrow> 'f retry_mode" where
  "default_mode F = ExponentialBackoff 3 (from_millis 100) (f_two F) (from_millis 30000) (f_tenth F)"

text \<open>\<^verbatim>\<open>retries + 1\<close> wraps to 0 at \<^verbatim>\<open>usize::MAX\<close> in a release build.\<close>

fun max_attempts :: "'f retry_mode \<Rightarrow> 64 word" where
  "max_attempts NoRetry = 1"
| "max_attempts (Fixed n _) = n + 1"
| "max_attempts (ExponentialBackoff n _ _ _ _) = n + 1"

text \<open>\<^verbatim>\<open>attempt as i32\<close> keeps the low 32 bits; \<open>rnd\<close> is the draw from \<open>[-1, 1]\<close>.\<close>

definition backoff_millis ::
    "'f f64_ops \<Rightarrow> 'f \<Rightarrow> duration \<Rightarrow> 'f \<Rightarrow> duration \<Rightarrow> 'f \<Rightarrow> 64 word \<Rightarrow> nat" where
  "backoff_millis F rnd base mult cap jit attempt =
     (let base_ms = of_u128 F (as_millis base);
          exponential_delay = f_mul F base_ms (f_powi F mult (sint (ucast attempt :: 32 word)));
          capped_delay = f_min F exponential_delay (of_u128 F (as_millis cap));
          jitter_factor = (if f_less F (f_zero F) jit
             then f_add F (f_one F) (f_mul F jit rnd) else f_one F)
      in f_to_u64 F (f_max F (f_mul F capped_delay jitter_factor) (f_zero F)))"

fun delay_for_attempt ::
    "'f f64_ops \<Rightarrow> (64 word \<Rightarrow> 'f) \<Rightarrow> 'f retry_mode \<Rightarrow> 64 word \<Rightarrow> duration option" where
  "delay_for_attempt F rnd NoRetry attempt = None"
| "delay_for_attempt F rnd (Fixed n d) attempt = (if attempt < n then Some d else None)"
| "delay_for_attempt F rnd (ExponentialBackoff n base mult cap jit) attempt =
     (if attempt < n
      then Some (from_millis (backoff_millis F (rnd attempt) base mult cap jit attempt))
      else None)"

section \<open>Configuration and attempts\<close>

record 'f system_config =
  retry_mode :: "'f retry_mode"

definition new_config :: "'f f64_ops \<Rightarrow> 'f system_config" where
  "new_config F = \<lparr>retry_mode = default_mode F\<rparr>"

definition minimal :: "'f system_config" where
  "minimal = \<lparr>retry_mode = NoRetry\<rparr>"

definition with_retry :: "'f retry_mode \<Rightarrow> 'f system_config \<Rightarrow> 'f system_config" where
  "with_retry m c = c\<lparr>retry_mode := m\<rparr>"

definition with_fixed_retry :: "64 word \<Rightarrow> duration \<Rightarrow> 'f system_config \<Rightarrow> 'f system_config" where
  "with_fixed_retry n d c = with_retry (Fixed n d) c"

definition with_exponential_retry ::
    "'f f64_ops \<Rightarrow> 64 word \<Rightarrow> 'f system_config \<Rightarrow> 'f system_config" where
  "with_exponential_retry F n c = with_retry (exponential F n) c"

record 'f attempts =
  a_config :: "'f system_config"
  a_max :: "64 word"
  a_attempt :: "64 word"

definition new_attempts :: "'f system_config \<Rightarrow> 'f attempts" where
  "new_attempts c = \<lparr>a_config = c, a_max = max_attempts (retry_mode c), a_attempt = 0\<rparr>"

definition retries_used :: "'f attempts \<Rightarrow> u32" where
  "retries_used a = ucast (a_attempt a)"

text \<open>\<^verbatim>\<open>Attempts::failed\<close>, with the updated bookkeeping.\<close>

definition failed ::
    "'f f64_ops \<Rightarrow> (64 word \<Rightarrow> 'f) \<Rightarrow> 'f attempts \<Rightarrow> saci_error
      \<Rightarrow> 'f attempts \<times> duration option saci_result" where
  "failed F rnd a e =
     (let a' = a\<lparr>a_attempt := a_attempt a + 1\<rparr> in
      if a_max a' \<le> a_attempt a' then (a', Inl (RetryExhausted e (unat (a_attempt a'))))
      else (a', Inr (delay_for_attempt F rnd (retry_mode (a_config a')) (a_attempt a' - 1))))"

section \<open>The drivers\<close>

text \<open>
  One loop for both drivers: \<open>timer\<close> tells whether the build can wait. The loop ends because
  an attempt that is followed by another is below \<^verbatim>\<open>max_attempts\<close>; a counter that starts
  at or above the maximum is brought below it or stops after one round.
\<close>

definition rounds_left :: "'f attempts \<Rightarrow> nat" where
  "rounds_left a = (if a_attempt a < a_max a then unat (a_max a) - unat (a_attempt a)
     else Suc (2 ^ 64))"

lemma failed_fst: "fst (failed F rnd a e) = a\<lparr>a_attempt := a_attempt a + 1\<rparr>"
  by (simp add: failed_def Let_def)

lemma failed_Inr_less: "failed F rnd a e = (a', Inr d) \<Longrightarrow> a_attempt a' < a_max a'"
  by (auto simp: failed_def Let_def split: if_splits)

lemma unat_u64_less: "unat (x :: 64 word) < 2 ^ 64"
  using unsigned_less [of x] by simp

lemma unat_suc_of_less:
  fixes x y :: "64 word"
  assumes "x < y"
  shows "unat (x + 1) = unat x + 1"
proof -
  have "unat x < unat y" using assms by (simp add: word_less_nat_alt)
  then show ?thesis using unat_u64_less [of y] by (simp add: unat_word_ariths)
qed

lemma rounds_left_failed:
  assumes "failed F rnd a e = (a', Inr d)"
  shows "rounds_left a' < rounds_left a"
proof -
  have a': "a' = a\<lparr>a_attempt := a_attempt a + 1\<rparr>" using failed_fst [of F rnd a e] assms by simp
  have lt: "a_attempt a' < a_max a'" by (rule failed_Inr_less [OF assms])
  show ?thesis
  proof (cases "a_attempt a < a_max a")
    case True
    then show ?thesis
      using lt unat_suc_of_less [OF True]
      by (simp add: a' rounds_left_def word_less_nat_alt)
  next
    case False
    then show ?thesis using lt unat_u64_less [of "a_max a"] by (simp add: a' rounds_left_def)
  qed
qed

function retry_loop ::
    "bool \<Rightarrow> 'f f64_ops \<Rightarrow> (64 word \<Rightarrow> 'f) \<Rightarrow> ('s \<Rightarrow> 'a saci_result \<times> 's) \<Rightarrow> 'f attempts \<Rightarrow> 's
      \<Rightarrow> duration list \<Rightarrow> ('a \<times> u32) saci_result \<times> 's \<times> duration list" where
  "retry_loop timer F rnd run a s sleeps =
     (case run s of
        (Inr value, s') \<Rightarrow> (Inr (value, retries_used a), s', sleeps)
      | (Inl e, s') \<Rightarrow>
          (case failed F rnd a e of
             (a', Inl err) \<Rightarrow> (Inl err, s', sleeps)
           | (a', Inr None) \<Rightarrow> retry_loop timer F rnd run a' s' sleeps
           | (a', Inr (Some d)) \<Rightarrow>
               retry_loop timer F rnd run a' s' (if timer then sleeps @ [d] else sleeps)))"
  by pat_completeness auto
termination
  by (relation "measure (\<lambda>(_, _, _, _, a, _, _). rounds_left a)")
     (auto dest!: rounds_left_failed [OF sym])

declare retry_loop.simps [simp del]

definition run_with_retries ::
    "bool \<Rightarrow> 'f f64_ops \<Rightarrow> (64 word \<Rightarrow> 'f) \<Rightarrow> 'f system_config \<Rightarrow> ('s \<Rightarrow> 'a saci_result \<times> 's) \<Rightarrow> 's
      \<Rightarrow> ('a \<times> u32) saci_result \<times> 's \<times> duration list" where
  "run_with_retries runtime F rnd c run s = retry_loop runtime F rnd run (new_attempts c) s []"

definition run_with_retries_blocking ::
    "'f f64_ops \<Rightarrow> (64 word \<Rightarrow> 'f) \<Rightarrow> 'f system_config \<Rightarrow> ('s \<Rightarrow> 'a saci_result \<times> 's) \<Rightarrow> 's
      \<Rightarrow> ('a \<times> u32) saci_result \<times> 's \<times> duration list" where
  "run_with_retries_blocking F rnd c run s = retry_loop True F rnd run (new_attempts c) s []"

end
