(* ===== verification/Retry_Properties.thy ===== *)
theory Retry_Properties
  imports Retry
begin

text \<open>
  What a retry driver does: the operation runs until its first success and at most
  \<^verbatim>\<open>max_attempts\<close> times, the number of retries reported is the number of failures before
  that success, and exhaustion wraps the error of the last attempt.
\<close>

section \<open>The attempts of a run\<close>

primrec run_state :: "('s \<Rightarrow> 'a saci_result \<times> 's) \<Rightarrow> 's \<Rightarrow> nat \<Rightarrow> 's" where
  "run_state run s 0 = s"
| "run_state run s (Suc i) = snd (run (run_state run s i))"

definition outcome :: "('s \<Rightarrow> 'a saci_result \<times> 's) \<Rightarrow> 's \<Rightarrow> nat \<Rightarrow> 'a saci_result" where
  "outcome run s i = fst (run (run_state run s i))"

definition attempt_bound :: "'f retry_mode \<Rightarrow> nat" where
  "attempt_bound m = max 1 (unat (max_attempts m))"

definition naps :: "bool \<Rightarrow> 'f f64_ops \<Rightarrow> (64 word \<Rightarrow> 'f) \<Rightarrow> 'f retry_mode \<Rightarrow> nat \<Rightarrow> duration list" where
  "naps timer F rnd m k = (if timer
     then List.map_filter (\<lambda>i. delay_for_attempt F rnd m (word_of_nat i)) [0..<k] else [])"

definition final_result :: "('s \<Rightarrow> 'a saci_result \<times> 's) \<Rightarrow> 's \<Rightarrow> nat \<Rightarrow> ('a \<times> u32) saci_result" where
  "final_result run s k = (case outcome run s k of
       Inr v \<Rightarrow> Inr (v, word_of_nat k) | Inl e \<Rightarrow> Inl (RetryExhausted e (Suc k)))"

lemma map_filter_snoc: "List.map_filter f (xs @ [x]) = List.map_filter f xs @
    (case f x of None \<Rightarrow> [] | Some y \<Rightarrow> [y])"
  by (simp add: List.map_filter_def split: option.split)

lemma naps_Suc: "naps timer F rnd m (Suc k) =
    (case delay_for_attempt F rnd m (word_of_nat k) of
       None \<Rightarrow> naps timer F rnd m k
     | Some d \<Rightarrow> if timer then naps timer F rnd m k @ [d] else naps timer F rnd m k)"
  by (simp add: naps_def map_filter_snoc split: option.split)

definition attempts_at :: "'f system_config \<Rightarrow> nat \<Rightarrow> 'f attempts" where
  "attempts_at c k = \<lparr>a_config = c, a_max = max_attempts (retry_mode c), a_attempt = word_of_nat k\<rparr>"

lemma attempt_bound_less: "attempt_bound m < 2 ^ 64"
  using unat_u64_less [of "max_attempts m"] by (auto simp: attempt_bound_def)

lemma failed_attempts_at:
  assumes k: "k < attempt_bound (retry_mode c)"
  shows "failed F rnd (attempts_at c k) e = (attempts_at c (Suc k),
     if Suc k = attempt_bound (retry_mode c) then Inl (RetryExhausted e (Suc k))
     else Inr (delay_for_attempt F rnd (retry_mode c) (word_of_nat k)))"
proof -
  have u: "unat (word_of_nat (Suc k) :: 64 word) = Suc k"
    using k attempt_bound_less [of "retry_mode c"] by (simp add: unat_of_nat del: of_nat_Suc)
  have w: "(word_of_nat k + 1 :: 64 word) = word_of_nat (Suc k)" by simp
  have w': "(word_of_nat (Suc k) - 1 :: 64 word) = word_of_nat k" by simp
  have "max_attempts (retry_mode c) \<le> word_of_nat (Suc k)
      \<longleftrightarrow> Suc k = attempt_bound (retry_mode c)"
    unfolding word_le_nat_alt u using k by (auto simp: attempt_bound_def)
  then show ?thesis
    using u w' by (auto simp: failed_def attempts_at_def Let_def w simp del: of_nat_Suc)
qed

lemma retry_loop_from:
  assumes "k < attempt_bound (retry_mode c)"
    and "\<forall>i<k. isl (outcome run s i)"
  shows "\<exists>j<attempt_bound (retry_mode c). (\<forall>i<j. isl (outcome run s i)) \<and>
     (isl (outcome run s j) \<longrightarrow> Suc j = attempt_bound (retry_mode c)) \<and>
     retry_loop timer F rnd run (attempts_at c k) (run_state run s k)
        (naps timer F rnd (retry_mode c) k) =
       (final_result run s j, run_state run s (Suc j), naps timer F rnd (retry_mode c) j)"
  using assms
proof (induction "attempt_bound (retry_mode c) - k" arbitrary: k)
  case 0
  then show ?case by simp
next
  case (Suc n)
  obtain r s' where run: "run (run_state run s k) = (r, s')" by fastforce
  then have o: "outcome run s k = r" and s': "run_state run s (Suc k) = s'"
    by (simp_all add: outcome_def)
  have ret: "retries_used (attempts_at c k) = word_of_nat k"
    by (simp add: retries_used_def attempts_at_def unsigned_of_nat word_of_nat_eq_iff min_def)
  show ?case
  proof (cases r)
    case (Inr v)
    then show ?thesis using Suc.prems run o s' ret
      by (intro exI [of _ k]) (simp add: retry_loop.simps final_result_def)
  next
    case (Inl e)
    show ?thesis
    proof (cases "Suc k = attempt_bound (retry_mode c)")
      case True
      then show ?thesis using Suc.prems run o s' Inl failed_attempts_at [OF Suc.prems(1), of F rnd e]
        by (intro exI [of _ k]) (simp add: retry_loop.simps final_result_def)
    next
      case False
      have "\<forall>i<Suc k. isl (outcome run s i)"
        using Suc.prems(2) o Inl by (auto simp: less_Suc_eq)
      moreover have "Suc k < attempt_bound (retry_mode c)" using False Suc.prems(1) by simp
      moreover have "n = attempt_bound (retry_mode c) - Suc k" using Suc.hyps(2) by simp
      moreover have "retry_loop timer F rnd run (attempts_at c k) (run_state run s k)
          (naps timer F rnd (retry_mode c) k) =
        retry_loop timer F rnd run (attempts_at c (Suc k)) (run_state run s (Suc k))
          (naps timer F rnd (retry_mode c) (Suc k))"
        using run s' Inl False failed_attempts_at [OF Suc.prems(1), of F rnd e]
        by (subst retry_loop.simps) (simp add: naps_Suc split: option.split)
      ultimately show ?thesis using Suc.hyps(1) [of "Suc k"] by simp
    qed
  qed
qed

lemma new_attempts_at: "new_attempts c = attempts_at c 0"
  by (simp add: new_attempts_def attempts_at_def)

lemma naps_0 [simp]: "naps timer F rnd m 0 = []"
  by (simp add: naps_def List.map_filter_def)

section \<open>The drivers\<close>

text \<open>
  C27. Both drivers are total. A run stops at some attempt \<open>k\<close> below the bound (the mode's
  \<^verbatim>\<open>max_attempts\<close>, and one attempt where \<^verbatim>\<open>retries + 1\<close> wraps to 0) such that every earlier
  attempt failed; attempt \<open>k\<close> either succeeded, and its value is returned with \<open>k\<close> as the
  number of retries, or it was the last one allowed, and its error is wrapped in
  \<^verbatim>\<open>RetryExhausted\<close> with the number of attempts made. The operation ran exactly \<open>k + 1\<close>
  times, and before each further attempt the driver slept what the mode says for it: the
  delays of attempts \<open>0\<close> to \<open>k - 1\<close>, or none in a build without a timer.
\<close>

theorem run_with_retries_spec:
  shows "\<exists>k<attempt_bound (retry_mode c). (\<forall>i<k. isl (outcome run s i)) \<and>
     (isl (outcome run s k) \<longrightarrow> Suc k = attempt_bound (retry_mode c)) \<and>
     run_with_retries runtime F rnd c run s =
       ((case outcome run s k of
           Inr v \<Rightarrow> Inr (v, word_of_nat k) | Inl e \<Rightarrow> Inl (RetryExhausted e (Suc k))),
        run_state run s (Suc k), naps runtime F rnd (retry_mode c) k) \<and>
     run_with_retries_blocking F rnd c run s =
       (fst (run_with_retries runtime F rnd c run s), run_state run s (Suc k),
        naps True F rnd (retry_mode c) k)"
proof -
  have pos: "0 < attempt_bound (retry_mode c)" by (simp add: attempt_bound_def)
  obtain k where k: "k < attempt_bound (retry_mode c)" "\<forall>i<k. isl (outcome run s i)"
      "isl (outcome run s k) \<longrightarrow> Suc k = attempt_bound (retry_mode c)"
      "run_with_retries runtime F rnd c run s =
        (final_result run s k, run_state run s (Suc k), naps runtime F rnd (retry_mode c) k)"
    using retry_loop_from [OF pos, of run s runtime F rnd]
    by (auto simp: run_with_retries_def new_attempts_at)
  obtain j where j: "j < attempt_bound (retry_mode c)" "\<forall>i<j. isl (outcome run s i)"
      "isl (outcome run s j) \<longrightarrow> Suc j = attempt_bound (retry_mode c)"
      "run_with_retries_blocking F rnd c run s =
        (final_result run s j, run_state run s (Suc j), naps True F rnd (retry_mode c) j)"
    using retry_loop_from [OF pos, of run s True F rnd]
    by (auto simp: run_with_retries_blocking_def new_attempts_at)
  have "j = k"
    using k(1-3) j(1-3) by (metis Suc_lessI linorder_neqE_nat not_less_eq)
  then show ?thesis using k j by (auto simp: final_result_def)
qed

text \<open>An operation that fails twice, under exponential backoff with integer arithmetic.\<close>

definition int_ops :: "int f64_ops" where
  "int_ops = \<lparr>of_u128 = int, f_mul = (*), f_add = (+), f_powi = (\<lambda>x n. x ^ nat n), f_min = min,
     f_max = max, f_clamp = (\<lambda>x a b. max a (min x b)), f_less = (<), f_zero = 0, f_tenth = 0,
     f_one = 1, f_two = 2, f_to_u64 = nat\<rparr>"

definition flaky :: "nat \<Rightarrow> nat saci_result \<times> nat" where
  "flaky n = (if n < 2 then Inl (Generic ''refused'') else Inr n, n + 1)"

definition sample_config :: "int system_config" where
  "sample_config = with_retry (exponential_custom int_ops 3 (from_millis 100) 2 (from_millis 150) 0)
     minimal"

lemma sample_bound: "attempt_bound (retry_mode sample_config) = 4"
  by (simp add: sample_config_def with_retry_def exponential_custom_def attempt_bound_def)

lemma flaky_outcome: "outcome flaky 0 0 = Inl (Generic ''refused'')"
    "outcome flaky 0 (Suc 0) = Inl (Generic ''refused'')" "outcome flaky 0 2 = Inr 2"
    "run_state flaky 0 3 = 3"
  by (simp_all add: outcome_def flaky_def eval_nat_numeral)

theorem run_with_retries_spec_witness:
  "fst (run_with_retries True int_ops (\<lambda>_. 0) sample_config flaky 0) = Inr (2, 2) \<and>
   fst (snd (run_with_retries True int_ops (\<lambda>_. 0) sample_config flaky 0)) = 3 \<and>
   snd (snd (run_with_retries_blocking int_ops (\<lambda>_. 0) sample_config flaky 0)) =
     [100000000, 150000000]"
proof -
  obtain k where k: "k < 4" "\<forall>i<k. isl (outcome flaky 0 i)"
     "isl (outcome flaky 0 k) \<longrightarrow> Suc k = 4"
     "run_with_retries True int_ops (\<lambda>_. 0) sample_config flaky 0 =
       ((case outcome flaky 0 k of
           Inr v \<Rightarrow> Inr (v, word_of_nat k) | Inl e \<Rightarrow> Inl (RetryExhausted e (Suc k))),
        run_state flaky 0 (Suc k), naps True int_ops (\<lambda>_. 0) (retry_mode sample_config) k)"
     "run_with_retries_blocking int_ops (\<lambda>_. 0) sample_config flaky 0 =
       (fst (run_with_retries True int_ops (\<lambda>_. 0) sample_config flaky 0), run_state flaky 0 (Suc k),
        naps True int_ops (\<lambda>_. 0) (retry_mode sample_config) k)"
    using run_with_retries_spec [of sample_config flaky 0 True int_ops "\<lambda>_. 0"]
    unfolding sample_bound by blast
  have "k \<noteq> 0" using k(3) flaky_outcome by (cases "k = 0") simp_all
  moreover have "k \<noteq> Suc 0" using k(3) flaky_outcome by (cases "k = Suc 0") simp_all
  moreover have "\<not> 2 < k" using k(2) flaky_outcome by auto
  ultimately have "k = 2" by simp
  moreover have "naps True int_ops (\<lambda>_. 0) (retry_mode sample_config) 2 = [100000000, 150000000]"
    by (simp add: naps_def sample_config_def with_retry_def exponential_custom_def
        backoff_millis_def int_ops_def from_millis_def as_millis_def upt_rec List.map_filter_def)
  ultimately show ?thesis using k(4,5) flaky_outcome by (simp add: numeral_3_eq_3)
qed

end
