(* ===== verification/Windows.thy ===== *)
theory Windows
  imports Prelude "HOL-Library.Signed_Division"
begin

text \<open>
  Window geometry and watermarks: \<^verbatim>\<open>saci-core/src/window_spec.rs\<close> (the tumbling and sliding
  assignment and the validation of a declared geometry) and
  \<^verbatim>\<open>saci-core/src/windows/watermark.rs\<close>. An \<^verbatim>\<open>i64\<close> is an \<^typ>\<open>int\<close> whose arithmetic results pass
  through \<open>wrap_i64\<close>; \<open>sdiv\<close> and \<open>smod\<close> truncate toward zero as \<^verbatim>\<open>/\<close> and \<^verbatim>\<open>%\<close> do. A
  division that panics is \<open>None\<close>.
\<close>

section \<open>Geometry\<close>

datatype window_spec =
    Tumbling (size_ms: int) (offset_ms: int)
  | Session (gap_ms: int)
  | Sliding (size_ms: int) (slide_ms: int) (offset_ms: int)

text \<open>Rust's division panics on a zero divisor and on \<^verbatim>\<open>i64::MIN / -1\<close>.\<close>

definition div_panics :: "int \<Rightarrow> int \<Rightarrow> bool" where
  "div_panics a b \<longleftrightarrow> b = 0 \<or> a = i64_min \<and> b = - 1"

definition assign_tumbling :: "int \<Rightarrow> int \<Rightarrow> int \<Rightarrow> int option" where
  "assign_tumbling ts sz offset =
     (let t = wrap_i64 (ts - offset) in
      if div_panics t sz then None
      else let q = t sdiv sz; r = t smod sz in
        Some (if r < 0 then wrap_i64 (q - 1) else q))"

definition assign_sliding :: "int \<Rightarrow> int \<Rightarrow> int \<Rightarrow> int \<Rightarrow> int list option" where
  "assign_sliding ts sz slide offset =
     (let n = wrap_i64 (wrap_i64 (sz + slide) - 1) in
      if div_panics n slide then None
      else let k = n sdiv slide in
        those (map (\<lambda>j. assign_tumbling (wrap_i64 (ts - wrap_i64 (int j * slide))) slide offset)
          [0..<nat k]))"

text \<open>\<^verbatim>\<open>WindowSpec::validate\<close>; \<open>i64_string\<close> is the \<^verbatim>\<open>Display\<close> of an \<^verbatim>\<open>i64\<close>.\<close>

definition i64_string :: "int \<Rightarrow> string" where
  "i64_string x = (if x < 0 then ''-'' @ dec_string (nat (- x)) else dec_string (nat x))"

fun validate :: "window_spec \<Rightarrow> string + unit" where
  "validate (Tumbling sz _) =
     (if sz \<le> 0 then Inl (''tumbling window size_ms must be > 0, got '' @ i64_string sz)
      else Inr ())"
| "validate (Session gap) =
     (if gap \<le> 0 then Inl (''session window gap_ms must be > 0, got '' @ i64_string gap)
      else Inr ())"
| "validate (Sliding sz slide _) =
     (if sz \<le> 0 then Inl (''sliding window size_ms must be > 0, got '' @ i64_string sz)
      else if slide \<le> 0 then Inl (''sliding window slide_ms must be > 0, got '' @ i64_string slide)
      else if slide > sz then Inl (''sliding window slide_ms ('' @ i64_string slide @
        '') must be <= size_ms ('' @ i64_string sz @ '')'')
      else Inr ())"

section \<open>Watermarks\<close>

record watermark_state =
  current_watermark :: int
  allowed_lateness :: int

definition new_watermark :: "int \<Rightarrow> watermark_state" where
  "new_watermark lateness = \<lparr>current_watermark = i64_min, allowed_lateness = lateness\<rparr>"

definition advance :: "int \<Rightarrow> watermark_state \<Rightarrow> watermark_state" where
  "advance ts w = (if ts > current_watermark w then w\<lparr>current_watermark := ts\<rparr> else w)"

definition is_beyond_lateness :: "watermark_state \<Rightarrow> int \<Rightarrow> bool" where
  "is_beyond_lateness w ts =
     (if current_watermark w = i64_min then False
      else if allowed_lateness w \<ge> current_watermark w then False
      else ts < wrap_i64 (current_watermark w - allowed_lateness w))"

definition is_late_but_acceptable :: "watermark_state \<Rightarrow> int \<Rightarrow> bool" where
  "is_late_but_acceptable w ts =
     (if current_watermark w = i64_min then False
      else ts < current_watermark w \<and> \<not> is_beyond_lateness w ts)"

definition is_on_time :: "watermark_state \<Rightarrow> int \<Rightarrow> bool" where
  "is_on_time w ts \<longleftrightarrow> current_watermark w = i64_min \<or> ts \<ge> current_watermark w"

section \<open>Arithmetic of the assignment\<close>

lemma trunc_to_floor:
  fixes t s :: int
  assumes "0 < s"
  shows "(if t smod s < 0 then t sdiv s - 1 else t sdiv s) = t div s"
proof (cases "0 \<le> t")
  case True
  then have "0 \<le> t smod s" "t sdiv s = t div s"
    using assms by (auto simp: signed_modulo_int_def signed_divide_int_def sgn_if)
  then show ?thesis by simp
next
  case False
  have q: "t sdiv s = - ((- t) div s)" and r: "t smod s = - ((- t) mod s)"
    using False assms by (auto simp: signed_modulo_int_def signed_divide_int_def sgn_if)
  have "t mod s < s" using assms by simp
  then show ?thesis
    using assms unfolding q r by (auto simp: zdiv_zminus1_eq_if zmod_zminus1_eq_if split: if_splits)
qed

lemma sdiv_in_i64:
  assumes "in_i64 t" "0 < s"
  shows "in_i64 (t div s)"
proof (cases "0 \<le> t")
  case True
  then have "0 \<le> t div s" "t div s \<le> t div 1"
    using assms(2) by (simp add: pos_imp_zdiv_nonneg_iff) (rule zdiv_mono2, use True assms in auto)
  then show ?thesis using assms(1) True by (auto simp: in_i64_def i64_min_def i64_max_def)
next
  case False
  then have "t div s < 0" "t div 1 \<le> t div s"
    using assms(2) by (simp add: pos_imp_zdiv_neg_iff) (rule zdiv_mono2_neg, use False assms in auto)
  then show ?thesis using assms(1) by (auto simp: in_i64_def i64_min_def i64_max_def)
qed

lemma assign_tumbling_floor:
  assumes "0 < sz" "in_i64 (ts - offset)"
  shows "assign_tumbling ts sz offset = Some ((ts - offset) div sz)"
  using assms trunc_to_floor [OF assms(1), of "ts - offset"] sdiv_in_i64 [OF assms(2,1)]
  by (auto simp: assign_tumbling_def wrap_i64_id div_panics_def Let_def split: if_splits)

end
