(* ===== verification/Window_Properties.thy ===== *)
theory Window_Properties
  imports Windows
begin

text \<open>
  The windows a timestamp is assigned to are the ones that contain it, and the watermark
  classifies every timestamp in exactly one way.
\<close>

section \<open>Assignment\<close>

text \<open>The interval of the tumbling window \<open>w\<close>, and of the sliding window \<open>w\<close>.\<close>

definition window_contains :: "int \<Rightarrow> int \<Rightarrow> int \<Rightarrow> int \<Rightarrow> int \<Rightarrow> bool" where
  "window_contains step sz offset w ts \<longleftrightarrow> offset + w * step \<le> ts \<and> ts < offset + w * step + sz"

lemma floor_window:
  fixes s :: int
  assumes "0 < s"
  shows "x div s = w \<longleftrightarrow> w * s \<le> x \<and> x < w * s + s"
proof
  assume "x div s = w"
  then show "w * s \<le> x \<and> x < w * s + s"
    using assms by (metis add.commute div_mult_mod_eq pos_mod_bound pos_mod_sign
        add_le_cancel_left add_strict_left_mono add.right_neutral)
next
  assume a: "w * s \<le> x \<and> x < w * s + s"
  then have "x = w * s + (x - w * s)" "0 \<le> x - w * s" "x - w * s < s" by auto
  then show "x div s = w" using assms
    by (metis div_pos_pos_trivial div_mult_self3 less_irrefl add.right_neutral)
qed

lemma tumbling_window_iff:
  assumes "0 < sz" "in_i64 (ts - offset)"
  shows "assign_tumbling ts sz offset = Some w \<longleftrightarrow> window_contains sz sz offset w ts"
  using assms by (auto simp: assign_tumbling_floor floor_window window_contains_def)

text \<open>
  A timestamp of a valid tumbling geometry is assigned to exactly one window, and it is
  the window that contains it: the assignment returns \<open>w\<close> if and only if the timestamp lies
  in \<open>[offset + w * size, offset + (w + 1) * size)\<close>, also for negative timestamps, where the
  source corrects the truncating division. No overflow occurs when the shifted timestamp is
  an \<^verbatim>\<open>i64\<close>.
\<close>

theorem assign_tumbling_exact:
  assumes "validate (Tumbling sz offset) = Inr ()" "in_i64 (ts - offset)"
  shows "(assign_tumbling ts sz offset = Some w \<longleftrightarrow>
       offset + w * sz \<le> ts \<and> ts < offset + (w + 1) * sz) \<and>
     (\<exists>v. assign_tumbling ts sz offset = Some v \<and> in_i64 v)"
proof -
  have "0 < sz" using assms(1) by (auto split: if_splits)
  then show ?thesis
    using tumbling_window_iff [OF _ assms(2)] assign_tumbling_floor [OF _ assms(2)]
      sdiv_in_i64 [OF assms(2)]
    by (intro conjI exI [of _ "(ts - offset) div sz"]) (auto simp: window_contains_def algebra_simps)
qed

theorem assign_tumbling_exact_witness:
  "assign_tumbling (- 1500) 1000 0 = Some (- 2) \<longleftrightarrow>
     0 + (- 2) * 1000 \<le> (- 1500 :: int) \<and> (- 1500 :: int) < 0 + (- 2 + 1) * 1000"
  using assign_tumbling_exact [of 1000 0 "- 1500" "- 2"]
  by (simp add: in_i64_def i64_min_def i64_max_def)

lemma those_map_Some: "those (map (\<lambda>x. Some (f x)) xs) = Some (map f xs)"
  by (induction xs) auto

definition slide_count :: "int \<Rightarrow> int \<Rightarrow> nat" where
  "slide_count sz slide = nat ((sz + slide - 1) div slide)"

lemma slide_count_bounds:
  assumes "0 < slide" "0 < sz"
  shows "sz \<le> int (slide_count sz slide) * slide" "int (slide_count sz slide) * slide < sz + slide"
proof -
  let ?k = "(sz + slide - 1) div slide"
  have "0 \<le> ?k" using assms by (simp add: pos_imp_zdiv_nonneg_iff)
  moreover have "?k * slide \<le> sz + slide - 1" "sz + slide - 1 < ?k * slide + slide"
    using floor_window [OF assms(1), of "sz + slide - 1" ?k] by simp_all
  ultimately show "sz \<le> int (slide_count sz slide) * slide"
    "int (slide_count sz slide) * slide < sz + slide" by (simp_all add: slide_count_def)
qed

lemma assign_sliding_floor:
  assumes "0 < slide" "0 < sz" "slide \<le> sz"
    and "\<bar>ts\<bar> \<le> 2 ^ 61" "\<bar>offset\<bar> \<le> 2 ^ 61" "sz \<le> 2 ^ 61"
  shows "assign_sliding ts sz slide offset =
     Some (map (\<lambda>j. (ts - offset) div slide - int j) [0..<slide_count sz slide])"
proof -
  have n: "wrap_i64 (wrap_i64 (sz + slide) - 1) = sz + slide - 1"
    using assms by (simp add: wrap_i64_id in_i64_def i64_min_def i64_max_def)
  have k: "(sz + slide - 1) sdiv slide = (sz + slide - 1) div slide"
    using assms by (simp add: signed_divide_int_def)
  have j: "assign_tumbling (wrap_i64 (ts - wrap_i64 (int j * slide))) slide offset =
      Some ((ts - offset) div slide - int j)" if "j < slide_count sz slide" for j
  proof -
    have "int j * slide \<le> (int (slide_count sz slide) - 1) * slide"
      using that assms(1) by (intro mult_right_mono) auto
    then have b: "int j * slide \<le> sz" "0 \<le> int j * slide"
      using slide_count_bounds [OF assms(1,2)] assms(1) by (simp_all add: algebra_simps)
    have w: "in_i64 d \<and> in_i64 (ts - d) \<and> in_i64 (ts - d - offset)" if "0 \<le> d" "d \<le> sz" for d
      using that assms by (auto simp: in_i64_def i64_min_def i64_max_def abs_le_iff)
    have "wrap_i64 (int j * slide) = int j * slide"
      "wrap_i64 (ts - int j * slide) = ts - int j * slide" "in_i64 (ts - int j * slide - offset)"
      using w [OF b(2,1)] by (simp_all add: wrap_i64_id)
    moreover have "(ts - int j * slide - offset) div slide = (ts - offset) div slide - int j"
    proof -
      have "ts - int j * slide - offset = (ts - offset) + slide * (- int j)" by simp
      moreover have "((ts - offset) + slide * (- int j)) div slide = - int j + (ts - offset) div slide"
        by (rule div_mult_self2) (use assms(1) in simp)
      ultimately show ?thesis by (metis add.commute diff_conv_add_uminus)
    qed
    ultimately show ?thesis using assign_tumbling_floor [OF assms(1)] by simp
  qed
  have eq: "map (\<lambda>j. assign_tumbling (wrap_i64 (ts - wrap_i64 (int j * slide))) slide offset)
        [0..<slide_count sz slide] =
      map (\<lambda>j. Some ((ts - offset) div slide - int j)) [0..<slide_count sz slide]"
    using j by (intro map_cong) auto
  have "\<not> div_panics (sz + slide - 1) slide" using assms(1) by (simp add: div_panics_def)
  then show ?thesis
    unfolding assign_sliding_def Let_def n k slide_count_def [symmetric] eq
    by (simp add: those_map_Some)
qed

lemma sliding_id_iff: "v \<in> set (map (\<lambda>j. q - int j) [0..<k]) \<longleftrightarrow> v \<le> q \<and> q < v + int k"
proof
  assume "v \<le> q \<and> q < v + int k"
  then have "nat (q - v) \<in> {0..<k}" "v = q - int (nat (q - v))" by auto
  then show "v \<in> set (map (\<lambda>j. q - int j) [0..<k])" by (metis image_eqI set_map set_upt)
qed auto

lemma last_sliding_id: "0 < k \<Longrightarrow> last (map (\<lambda>j. q - int j) [0..<k]) = q - int k + 1"
  by (simp add: last_map)

lemma sliding_complete:
  assumes "0 < slide" "0 < sz" "window_contains slide sz offset v ts"
  shows "v \<le> (ts - offset) div slide \<and> (ts - offset) div slide < v + int (slide_count sz slide)"
proof -
  let ?q = "(ts - offset) div slide" and ?k = "int (slide_count sz slide)"
  have q: "?q * slide \<le> ts - offset" "ts - offset < ?q * slide + slide"
    using floor_window [OF assms(1), of "ts - offset" ?q] by simp_all
  have "v * slide < (?q + 1) * slide" "?q * slide < (v + ?k) * slide"
    using q assms(3) slide_count_bounds(1) [OF assms(1,2)]
    by (simp_all add: window_contains_def algebra_simps)
  then have "v < ?q + 1" "?q < v + ?k" using assms(1) by (simp_all add: mult_less_cancel_right)
  then show ?thesis by simp
qed

lemma sliding_sound:
  assumes "0 < slide" "0 < sz"
    and v: "v \<le> (ts - offset) div slide" "(ts - offset) div slide < v + int (slide_count sz slide)"
    and last: "slide dvd sz \<or> v \<noteq> (ts - offset) div slide - int (slide_count sz slide) + 1"
  shows "window_contains slide sz offset v ts"
proof -
  let ?q = "(ts - offset) div slide" and ?k = "int (slide_count sz slide)"
  have q: "?q * slide \<le> ts - offset" "ts - offset < ?q * slide + slide"
    using floor_window [OF assms(1), of "ts - offset" ?q] by simp_all
  have lo: "v * slide \<le> ?q * slide" using v(1) assms(1) by simp
  have "(?q + 1) * slide \<le> v * slide + sz"
  proof (cases "slide dvd sz")
    case True
    then obtain c where c: "sz = c * slide" by (metis dvd_def mult.commute)
    have "c * slide \<le> ?k * slide" "?k * slide < (c + 1) * slide"
      using slide_count_bounds [OF assms(1,2)] by (simp_all add: c algebra_simps)
    then have "?k = c" using assms(1) by (simp add: mult_less_cancel_right)
    then have "(?q + 1) * slide \<le> (v + c) * slide" using v(2) assms(1) by simp
    then show ?thesis by (simp add: c algebra_simps)
  next
    case False
    then have "?q + 1 \<le> v + ?k - 1" using v(2) last by auto
    then have "(?q + 1) * slide \<le> (v + ?k - 1) * slide" using assms(1) by simp
    then show ?thesis using slide_count_bounds(2) [OF assms(1,2)] by (simp add: algebra_simps)
  qed
  moreover have "offset + v * slide \<le> ts" using q(1) lo by linarith
  ultimately show ?thesis using q(2) by (simp add: window_contains_def algebra_simps)
qed

text \<open>
  A timestamp of a valid sliding geometry is assigned \<open>k = ceil(size / slide)\<close> different
  windows, in descending order from the window that starts last before it. Every window
  that contains the timestamp is among them; conversely each of them contains it when
  \<open>slide\<close> divides \<open>size\<close>, and otherwise each but possibly the last one.
\<close>

theorem assign_sliding_windows:
  assumes "validate (Sliding sz slide offset) = Inr ()"
    and "\<bar>ts\<bar> \<le> 2 ^ 61" "\<bar>offset\<bar> \<le> 2 ^ 61" "sz \<le> 2 ^ 61"
  shows "\<exists>ids. assign_sliding ts sz slide offset = Some ids \<and> distinct ids \<and>
     int (length ids) = (sz + slide - 1) div slide \<and>
     (\<forall>w. offset + w * slide \<le> ts \<and> ts < offset + w * slide + sz \<longrightarrow> w \<in> set ids) \<and>
     (\<forall>w\<in>set ids. slide dvd sz \<or> w \<noteq> last ids \<longrightarrow>
        offset + w * slide \<le> ts \<and> ts < offset + w * slide + sz)"
proof -
  have pos: "0 < slide" "0 < sz" "slide \<le> sz" using assms(1) by (auto split: if_splits)
  let ?k = "slide_count sz slide" and ?q = "(ts - offset) div slide"
  let ?ids = "map (\<lambda>j. ?q - int j) [0..<?k]"
  have k: "0 < ?k" using slide_count_bounds [OF pos(1,2)] pos(2) by (cases ?k) auto
  have "distinct ?ids" by (simp add: distinct_map inj_on_def)
  moreover have "int (length ?ids) = (sz + slide - 1) div slide"
    using pos by (simp add: slide_count_def pos_imp_zdiv_nonneg_iff)
  moreover have "w \<in> set ?ids" if "offset + w * slide \<le> ts \<and> ts < offset + w * slide + sz" for w
    unfolding sliding_id_iff
    using sliding_complete [OF pos(1,2)] that by (simp add: window_contains_def)
  moreover have "offset + w * slide \<le> ts \<and> ts < offset + w * slide + sz"
    if "w \<in> set ?ids" "slide dvd sz \<or> w \<noteq> last ?ids" for w
    using sliding_sound [OF pos(1,2)] that
    unfolding sliding_id_iff last_sliding_id [OF k] window_contains_def by blast
  ultimately show ?thesis
    using assign_sliding_floor [OF pos assms(2-4)] by blast
qed

theorem assign_sliding_windows_witness:
  "assign_sliding (- 3) 10 5 0 = Some [- 1, - 2] \<and>
   (\<exists>ids. assign_sliding (- 3) 10 5 0 = Some ids \<and> int (length ids) = 2 \<and> (- 2) \<in> set ids)"
proof -
  have "\<exists>ids. assign_sliding (- 3) 10 5 0 = Some ids \<and> int (length ids) = 2 \<and> (- 2) \<in> set ids"
    using assign_sliding_windows [of 10 5 0 "- 3"] by force
  then show ?thesis by (simp add: assign_sliding_floor slide_count_def upt_rec)
qed

text \<open>
  When \<open>slide\<close> does not divide \<open>size\<close> the last window assigned can lie entirely before the
  timestamp, although the comment of \<^verbatim>\<open>assign_sliding\<close> describes the result as the windows
  that contain it.
\<close>

lemma sliding_window_before_timestamp:
  "assign_sliding 5 7 3 0 = Some [1, 0, - 1] \<and> \<not> window_contains 3 7 0 (- 1) 5"
  by (simp add: assign_sliding_floor slide_count_def upt_rec window_contains_def)

section \<open>Watermarks\<close>

lemma fold_advance:
  "current_watermark (fold advance tss w) = fold max tss (current_watermark w)"
  "allowed_lateness (fold advance tss w) = allowed_lateness w"
  by (induction tss arbitrary: w) (auto simp: advance_def max_def)

lemma fold_max_ge: "(x :: int) \<le> fold max tss x"
  by (induction tss arbitrary: x) (auto intro: order.trans [OF max.cobounded2])

lemma fold_max_in: "fold max tss (x :: int) \<in> insert x (set tss)"
  by (induction tss arbitrary: x) (auto simp: max_def split: if_splits)

lemma fold_max_upper: "t \<in> set tss \<Longrightarrow> t \<le> fold max tss (x :: int)"
proof (induction tss arbitrary: x)
  case (Cons a tss)
  then show ?case using fold_max_ge [of "max a x" tss] by auto
qed simp

lemma beyond_threshold:
  assumes "0 \<le> allowed_lateness w" "in_i64 (current_watermark w)" "in_i64 (allowed_lateness w)"
  shows "is_beyond_lateness w ts \<longleftrightarrow> allowed_lateness w < current_watermark w \<and>
     ts < current_watermark w - allowed_lateness w"
proof -
  have "wrap_i64 (current_watermark w - allowed_lateness w) =
      current_watermark w - allowed_lateness w" if "allowed_lateness w < current_watermark w"
    using that assms by (intro wrap_i64_id) (auto simp: in_i64_def i64_min_def i64_max_def)
  then show ?thesis
    using assms by (auto simp: is_beyond_lateness_def i64_min_def in_i64_def)
qed

text \<open>
  Whatever timestamps a watermark has observed, it is the largest of them (\<^verbatim>\<open>i64::MIN\<close>
  before the first) and never moves back. It puts every timestamp in exactly one class: on
  time, late but acceptable, or beyond the lateness budget. A timestamp that is beyond the
  budget stays beyond it after any further observations, so a dropped row would be dropped
  again, and none is ever reported beyond it that is within the budget of the watermark.
\<close>

theorem watermark_classification:
  assumes "0 \<le> lateness" "in_i64 lateness" "\<forall>t\<in>set (seen @ later). in_i64 t"
    and w: "w = fold advance seen (new_watermark lateness)"
  shows "current_watermark w = (if seen = [] then i64_min else Max (set seen)) \<and>
     current_watermark w \<le> current_watermark (fold advance later w) \<and>
     (is_on_time w ts \<and> \<not> is_late_but_acceptable w ts \<and> \<not> is_beyond_lateness w ts \<or>
      \<not> is_on_time w ts \<and> is_late_but_acceptable w ts \<and> \<not> is_beyond_lateness w ts \<or>
      \<not> is_on_time w ts \<and> \<not> is_late_but_acceptable w ts \<and> is_beyond_lateness w ts) \<and>
     (is_beyond_lateness w ts \<longrightarrow> ts + lateness < current_watermark w \<and>
        is_beyond_lateness (fold advance later w) ts)"
proof -
  have cur: "current_watermark w = fold max seen i64_min" "allowed_lateness w = lateness"
    by (simp_all add: w fold_advance new_watermark_def)
  have mn: "in_i64 i64_min" by (simp add: in_i64_def i64_min_def i64_max_def)
  have rng: "in_i64 (current_watermark w)"
    using fold_max_in [of seen i64_min] assms(3) mn cur(1) by auto
  then have rng': "in_i64 (current_watermark (fold advance later w))"
    using fold_max_in [of later "current_watermark w"] assms(3) by (auto simp: fold_advance)
  have le: "current_watermark w \<le> current_watermark (fold advance later w)"
    by (simp add: fold_advance fold_max_ge)
  have max: "current_watermark w = (if seen = [] then i64_min else Max (set seen))"
  proof (cases "seen = []")
    case False
    have "fold max seen i64_min \<in> set seen"
    proof (cases "fold max seen i64_min = i64_min")
      case True
      have "in_i64 (hd seen)" using assms(3) hd_in_set [OF False] by simp
      then have "hd seen = i64_min"
        using True fold_max_upper [OF hd_in_set [OF False], of i64_min] by (simp add: in_i64_def)
      then show ?thesis using False True hd_in_set [of seen] by simp
    qed (use fold_max_in [of seen i64_min] in auto)
    then have "Max (set seen) = fold max seen i64_min"
      by (intro Max_eqI) (auto simp: fold_max_upper)
    then show ?thesis using False cur by simp
  qed (simp add: cur)
  have b: "is_beyond_lateness w ts \<longleftrightarrow>
      lateness < current_watermark w \<and> ts < current_watermark w - lateness"
    using beyond_threshold [of w ts] assms(1,2) rng cur by simp
  have b': "is_beyond_lateness (fold advance later w) ts \<longleftrightarrow>
      lateness < current_watermark (fold advance later w) \<and>
      ts < current_watermark (fold advance later w) - lateness"
    using beyond_threshold [of "fold advance later w" ts] assms(1,2) rng' cur by (simp add: fold_advance)
  have "i64_min < 0" by (simp add: i64_min_def)
  then have "\<not> is_on_time w ts" if "is_beyond_lateness w ts"
    using that assms(1) unfolding b is_on_time_def by linarith
  moreover have "is_late_but_acceptable w ts \<longleftrightarrow> \<not> is_on_time w ts \<and> \<not> is_beyond_lateness w ts"
    by (auto simp: is_on_time_def is_late_but_acceptable_def)
  moreover have "is_beyond_lateness w ts \<longrightarrow> ts + lateness < current_watermark w \<and>
      is_beyond_lateness (fold advance later w) ts"
    unfolding b b' using le by linarith
  ultimately show ?thesis using max le by blast
qed

theorem watermark_classification_witness:
  "current_watermark (fold advance [300, 1000, 700] (new_watermark 500)) = 1000 \<and>
   is_late_but_acceptable (fold advance [300, 1000, 700] (new_watermark 500)) 500 \<and>
   is_beyond_lateness (fold advance [1200] (fold advance [300, 1000, 700] (new_watermark 500))) 499"
  using watermark_classification [of 500 "[300, 1000, 700]" "[1200]"
      "fold advance [300, 1000, 700] (new_watermark 500)" 499]
  by (simp add: in_i64_def i64_min_def i64_max_def new_watermark_def advance_def
      is_late_but_acceptable_def is_beyond_lateness_def wrap_i64_def)

text \<open>
  The threshold test is skipped whenever the lateness is at least the watermark, so a
  watermark before the epoch drops nothing, however late.
\<close>

lemma negative_watermark_drops_nothing:
  "\<not> is_beyond_lateness (advance (- 1000) (new_watermark 0)) (- 5000) \<and>
   is_late_but_acceptable (advance (- 1000) (new_watermark 0)) (- 5000)"
  by (simp add: is_beyond_lateness_def is_late_but_acceptable_def advance_def new_watermark_def
      i64_min_def)

end
