(* ===== verification/Sessions.thy ===== *)
theory Sessions
  imports Prelude
begin

text \<open>
  Key hashing and session assignment: \<^verbatim>\<open>saci-core/src/windows/hash.rs\<close> and
  \<^verbatim>\<open>saci-core/src/windows/session.rs\<close>. The Arrow kernels the code calls (the cast to \<^verbatim>\<open>Utf8\<close>,
  \<^verbatim>\<open>lexsort_to_indices\<close> and \<^verbatim>\<open>take\<close>) and the FNV hasher are arguments. An \<^verbatim>\<open>Int64Array\<close> is the list of
  its values: the caller drops the rows whose timestamp is null first. An index out of
  range panics, which is \<open>None\<close>.
\<close>

section \<open>Key hashes\<close>

text \<open>
  The bytes hashed for one row: the columns' values separated by a zero byte, a null as the
  byte 1 and a present value as the byte 2 before its text.
\<close>

definition key_part :: "bytes option \<Rightarrow> bytes" where
  "key_part v = (case v of None \<Rightarrow> [1] | Some text \<Rightarrow> 2 # text)"

fun key_bytes :: "bytes option list \<Rightarrow> bytes" where
  "key_bytes [] = []"
| "key_bytes [v] = key_part v"
| "key_bytes (v # vs) = key_part v @ 0 # key_bytes vs"

primrec cast_all :: "('c \<Rightarrow> string + bytes option list) \<Rightarrow> 'c list
    \<Rightarrow> bytes option list list saci_result" where
  "cast_all cast_utf8 [] = Inr []"
| "cast_all cast_utf8 (col # cols) =
     (case cast_utf8 col of
        Inl e \<Rightarrow> Inl (Generic (''failed to cast key column to Utf8: '' @ e))
      | Inr texts \<Rightarrow> res_bind (cast_all cast_utf8 cols) (\<lambda>r. Inr (texts # r)))"

definition row_values :: "'v list list \<Rightarrow> nat \<Rightarrow> 'v list option" where
  "row_values cols i = those (map (\<lambda>col. if i < length col then Some (col ! i) else None) cols)"

definition compute_key_hash ::
    "(bytes \<Rightarrow> int) \<Rightarrow> ('c \<Rightarrow> string + bytes option list) \<Rightarrow> ('c \<Rightarrow> nat) \<Rightarrow> 'c list
      \<Rightarrow> int list saci_result option" where
  "compute_key_hash fnv1a cast_utf8 len cols =
     (case cols of
        [] \<Rightarrow> Some (Inr [])
      | c # _ \<Rightarrow>
          (case cast_all cast_utf8 cols of
             Inl e \<Rightarrow> Some (Inl e)
           | Inr string_cols \<Rightarrow>
               map_option (\<lambda>rows. Inr (map (\<lambda>r. fnv1a (key_bytes r)) rows))
                 (those (map (row_values string_cols) [0..<len c]))))"

definition compute_global_hash :: "nat \<Rightarrow> int list" where
  "compute_global_hash n_rows = replicate n_rows 0"

section \<open>Session assignment\<close>

record arrow_kernels =
  lexsort_to_indices :: "int list \<Rightarrow> int list \<Rightarrow> string + nat list"
  arrow_take :: "int list \<Rightarrow> nat list \<Rightarrow> string + int list"

text \<open>
  The scan over the sorted rows, with the previous row's key and timestamp. The session
  counter stays below the number of rows, so it does not wrap.
\<close>

fun session_scan :: "int \<Rightarrow> int \<Rightarrow> int \<Rightarrow> int \<Rightarrow> (int \<times> int) list \<Rightarrow> int list" where
  "session_scan gap sid pk pt [] = []"
| "session_scan gap sid pk pt ((k, t) # rows) =
     (let sid' = (if k \<noteq> pk \<or> wrap_i64 (t - pt) > gap then sid + 1 else sid)
      in sid' # session_scan gap sid' k t rows)"

definition sorted_session_ids :: "int \<Rightarrow> int list \<Rightarrow> int list \<Rightarrow> int list" where
  "sorted_session_ids gap keys tss =
     (case zip keys tss of [] \<Rightarrow> [] | (k, t) # rows \<Rightarrow> 0 # session_scan gap 0 k t rows)"

definition scatter :: "nat list \<Rightarrow> int list \<Rightarrow> nat \<Rightarrow> int list option" where
  "scatter idx ids n =
     (if \<forall>i\<in>set idx. i < n then Some (fold (\<lambda>(i, v) r. r[i := v]) (zip idx ids) (replicate n 0))
      else None)"

definition assign_sessions ::
    "arrow_kernels \<Rightarrow> ('c list \<Rightarrow> int list saci_result option) \<Rightarrow> int list \<Rightarrow> 'c list \<Rightarrow> int
      \<Rightarrow> int list saci_result option" where
  "assign_sessions A hash ts_ms key_cols gap_ms =
     (let n = length ts_ms in
      if n = 0 then Some (Inr [])
      else case (if key_cols = [] then Some (Inr (replicate n 0)) else hash key_cols) of
        None \<Rightarrow> None
      | Some (Inl e) \<Rightarrow> Some (Inl e)
      | Some (Inr key_hash) \<Rightarrow>
          (case lexsort_to_indices A key_hash ts_ms of
             Inl e \<Rightarrow> Some (Inl (Generic (''assign_sessions: sort error: '' @ e)))
           | Inr idx \<Rightarrow>
               (case arrow_take A key_hash idx of
                  Inl e \<Rightarrow> Some (Inl (Generic (''assign_sessions: take key_hash: '' @ e)))
                | Inr keys \<Rightarrow>
                    (case arrow_take A ts_ms idx of
                       Inl e \<Rightarrow> Some (Inl (Generic (''assign_sessions: take ts: '' @ e)))
                     | Inr tss \<Rightarrow>
                         if length keys < n \<or> length tss < n \<or> length idx > n then None
                         else map_option Inr
                           (scatter idx (sorted_session_ids gap_ms (take n keys) (take n tss)) n)))))"

text \<open>
  The contract of the sort kernel: on columns of equal length it returns a permutation of
  the row numbers along which the pairs of key and timestamp ascend. The take kernel
  gathers the values at the indices it is given.
\<close>

definition lex_le :: "int list \<Rightarrow> int list \<Rightarrow> nat \<Rightarrow> nat \<Rightarrow> bool" where
  "lex_le keys tss i j \<longleftrightarrow> keys ! i < keys ! j \<or> keys ! i = keys ! j \<and> tss ! i \<le> tss ! j"

definition sort_contract :: "arrow_kernels \<Rightarrow> bool" where
  "sort_contract A \<longleftrightarrow> (\<forall>keys tss. length keys = length tss \<longrightarrow>
     (\<exists>idx. lexsort_to_indices A keys tss = Inr idx \<and> distinct idx \<and> set idx = {0..<length tss} \<and>
        sorted_wrt (lex_le keys tss) idx))"

definition take_contract :: "arrow_kernels \<Rightarrow> bool" where
  "take_contract A \<longleftrightarrow> (\<forall>xs idx. (\<forall>i\<in>set idx. i < length xs) \<longrightarrow>
     arrow_take A xs idx = Inr (map ((!) xs) idx))"

end
