(* ===== verification/Session_Properties.thy ===== *)
theory Session_Properties
  imports Sessions "HOL-Library.Product_Lexorder"
begin

text \<open>
  Session assignment splits the rows of each key at the gaps of more than \<^verbatim>\<open>gap_ms\<close>
  milliseconds, whatever order the rows arrive in.
\<close>

section \<open>The scan\<close>

lemma length_session_scan [simp]: "length (session_scan gap sid pk pt rows) = length rows"
  by (induction gap sid pk pt rows rule: session_scan.induct) (auto simp: Let_def)

definition breaks :: "int \<Rightarrow> int \<times> int \<Rightarrow> int \<times> int \<Rightarrow> bool" where
  "breaks gap prev cur \<longleftrightarrow> fst cur \<noteq> fst prev \<or> wrap_i64 (snd cur - snd prev) > gap"

lemma session_scan_step:
  "p < length rows \<Longrightarrow> session_scan gap sid pk pt rows ! p =
     (sid # session_scan gap sid pk pt rows) ! p +
     (if breaks gap (((pk, pt) # rows) ! p) (rows ! p) then 1 else 0)"
proof (induction gap sid pk pt rows arbitrary: p rule: session_scan.induct)
  case (2 gap sid pk pt k t rows)
  then show ?case by (cases p) (auto simp: Let_def breaks_def)
qed simp

lemma length_sorted_session_ids [simp]:
  "length (sorted_session_ids gap keys tss) = min (length keys) (length tss)"
proof -
  have "length (sorted_session_ids gap keys tss) = length (zip keys tss)"
    by (cases "zip keys tss") (auto simp: sorted_session_ids_def split: prod.split)
  then show ?thesis by simp
qed

lemma sorted_session_ids_step:
  assumes "Suc p < length keys" "length tss = length keys"
  shows "sorted_session_ids gap keys tss ! Suc p = sorted_session_ids gap keys tss ! p +
     (if breaks gap (keys ! p, tss ! p) (keys ! Suc p, tss ! Suc p) then 1 else 0)"
proof -
  obtain k t rows where z: "zip keys tss = (k, t) # rows"
    using assms by (cases "zip keys tss") auto
  have len: "length rows = length keys - 1" using assms z by (metis diff_Suc_1 length_Cons length_zip min.idem)
  have at: "((k, t) # rows) ! q = (keys ! q, tss ! q)" if "q < length keys" for q
    using that assms(2) unfolding z [symmetric] by simp
  show ?thesis
    using session_scan_step [of p rows gap 0 k t] assms len at [of p] at [of "Suc p"]
    by (simp add: sorted_session_ids_def z)
qed

lemma session_ids_run:
  assumes "length tss = length keys" "p \<le> q" "q < length keys"
  shows "sorted_session_ids gap keys tss ! p \<le> sorted_session_ids gap keys tss ! q \<and>
     (sorted_session_ids gap keys tss ! p = sorted_session_ids gap keys tss ! q \<longleftrightarrow>
       (\<forall>r. p \<le> r \<and> r < q \<longrightarrow> \<not> breaks gap (keys ! r, tss ! r) (keys ! Suc r, tss ! Suc r)))"
  using assms(2,3)
proof (induction q rule: dec_induct)
  case (step q)
  then show ?case
    using sorted_session_ids_step [OF step.prems assms(1), of gap] by (auto simp: less_Suc_eq)
qed auto

section \<open>The scatter\<close>

lemma fold_update_other:
  "i \<notin> set idx \<Longrightarrow> fold (\<lambda>(i, v) r. r[i := v]) (zip idx ids) r ! i = r ! i"
proof (induction idx arbitrary: ids r)
  case (Cons a idx)
  then show ?case by (cases ids) auto
qed simp

lemma length_fold_update [simp]:
  "length (fold (\<lambda>(i, v) r. r[i := v]) (zip idx ids) r) = length r"
proof (induction idx arbitrary: ids r)
  case (Cons a idx)
  then show ?case by (cases ids) auto
qed simp

lemma fold_update_nth:
  "\<lbrakk>distinct idx; length ids = length idx; p < length idx; \<forall>i\<in>set idx. i < length r\<rbrakk> \<Longrightarrow>
     fold (\<lambda>(i, v) r. r[i := v]) (zip idx ids) r ! (idx ! p) = ids ! p"
proof (induction idx arbitrary: ids r p)
  case (Cons a idx)
  then obtain v vs where ids: "ids = v # vs" by (cases ids) auto
  show ?case
  proof (cases p)
    case 0
    then show ?thesis using Cons.prems by (simp add: ids fold_update_other)
  next
    case (Suc m)
    then show ?thesis using Cons.prems Cons.IH [of vs m "r[a := v]"] by (simp add: ids)
  qed
qed simp

section \<open>Runs without a gap\<close>

text \<open>
  Two rows of one key are in the same session when, from the earlier to the later, no
  timestamp of the key is followed by a gap of more than \<open>gap\<close>.
\<close>

definition linked :: "int \<Rightarrow> int list \<Rightarrow> int list \<Rightarrow> nat \<Rightarrow> nat \<Rightarrow> bool" where
  "linked gap keys tss i j \<longleftrightarrow> keys ! i = keys ! j \<and>
     (\<forall>m<length tss. keys ! m = keys ! i \<and> min (tss ! i) (tss ! j) \<le> tss ! m \<and>
        tss ! m < max (tss ! i) (tss ! j) \<longrightarrow>
        (\<exists>m'<length tss. keys ! m' = keys ! i \<and> tss ! m < tss ! m' \<and> tss ! m' \<le> tss ! m + gap))"

lemma linked_sym: "linked gap keys tss i j \<longleftrightarrow> linked gap keys tss j i"
  by (auto simp: linked_def min.commute max.commute)

lemma run_iff_linked:
  assumes sorted: "\<And>p q. p \<le> q \<Longrightarrow> q < n \<Longrightarrow> K p < K q \<or> K p = K q \<and> T p \<le> (T q :: int)"
    and gap: "0 \<le> gap" and pq: "p \<le> q" "q < n"
    and diff: "\<And>p q. p < n \<Longrightarrow> q < n \<Longrightarrow> in_i64 (T p - T q)"
  shows "(\<forall>r. p \<le> r \<and> r < q \<longrightarrow> \<not> breaks gap (K r, T r) (K (Suc r), T (Suc r))) \<longleftrightarrow>
     (K p = (K q :: int) \<and> (\<forall>x<n. K x = K p \<and> T p \<le> T x \<and> T x < T q \<longrightarrow>
        (\<exists>y<n. K y = K p \<and> T x < T y \<and> T y \<le> T x + gap)))"
    (is "?run \<longleftrightarrow> ?eq \<and> ?lnk")
proof
  have brk: "breaks gap (K r, T r) (K (Suc r), T (Suc r)) \<longleftrightarrow>
      K (Suc r) \<noteq> K r \<or> T (Suc r) - T r > gap" if "Suc r < n" for r
    using diff [of "Suc r" r] that by (simp add: breaks_def wrap_i64_id)
  assume run: ?run
  have key: "K r = K p" if "p \<le> r" "r \<le> q" for r
    using that
  proof (induction r rule: dec_induct)
    case (step r)
    then show ?case using run brk [of r] pq by auto
  qed simp
  have "\<exists>y<n. K y = K p \<and> T x < T y \<and> T y \<le> T x + gap"
    if x: "T p \<le> T x" "T x < T q" for x
  proof -
    define y where "y = (LEAST y. p \<le> y \<and> T x < T y)"
    have "p \<le> q \<and> T x < T q" using x pq by simp
    then have y: "p \<le> y \<and> T x < T y" "y \<le> q"
      unfolding y_def by (rule LeastI, rule Least_le)
    then have "p < y" using x by (cases "p = y") auto
    then obtain z where z: "y = Suc z" "p \<le> z" by (cases y) auto
    have "\<not> T x < T z" using not_less_Least [of z "\<lambda>y. p \<le> y \<and> T x < T y"] z y_def by auto
    moreover have "T y - T z \<le> gap" using run brk [of z] z y(2) pq by auto
    ultimately show ?thesis using y key [of y] pq by (intro exI [of _ y]) auto
  qed
  then show "?eq \<and> ?lnk" using key [of q] pq by auto
next
  assume a: "?eq \<and> ?lnk"
  have brk: "breaks gap (K r, T r) (K (Suc r), T (Suc r)) \<longleftrightarrow>
      K (Suc r) \<noteq> K r \<or> T (Suc r) - T r > gap" if "Suc r < n" for r
    using diff [of "Suc r" r] that by (simp add: breaks_def wrap_i64_id)
  have key: "K r = K p \<and> T p \<le> T r \<and> T r \<le> T q" if "p \<le> r" "r \<le> q" for r
    using sorted [of p r] sorted [of r q] that a pq by auto
  show ?run
  proof (intro allI impI notI)
    fix r assume r: "p \<le> r \<and> r < q" and b: "breaks gap (K r, T r) (K (Suc r), T (Suc r))"
    have n: "Suc r < n" using r pq by simp
    have far: "T (Suc r) - T r > gap" using b brk [OF n] key [of r] key [of "Suc r"] r by auto
    then have "T r < T q" using key [of "Suc r"] r gap by simp
    moreover have "r < n" "K r = K p" "T p \<le> T r" using key [of r] r n by simp_all
    ultimately obtain y where y: "y < n" "K y = K p" "T r < T y" "T y \<le> T r + gap"
      using a by blast
    have "r < y"
    proof (rule ccontr)
      assume "\<not> r < y"
      then show False using sorted [of y r] y key [of r] r n by auto
    qed
    then have "T (Suc r) \<le> T y" using sorted [of "Suc r" y] y key [of "Suc r"] r by auto
    then show False using far y by simp
  qed
qed

lemma perm_position:
  fixes idx :: "nat list"
  assumes "set idx = {0..<n}" "i < n"
  shows "\<exists>p<length idx. idx ! p = i"
proof -
  have "i \<in> set idx" using assms by simp
  then show ?thesis by (simp add: in_set_conv_nth)
qed

lemma sessions_of_sorted:
  assumes perm: "distinct idx" "set idx = {0..<length tss}" and sorted: "sorted_wrt (lex_le keys tss) idx"
    and len: "length keys = length tss" and gap: "0 \<le> gap"
    and rng: "\<forall>t\<in>set tss. - (2 ^ 62) \<le> t \<and> t < 2 ^ 62"
    and S: "S = sorted_session_ids gap (map ((!) keys) idx) (map ((!) tss) idx)"
    and pq: "p < length idx" "q < length idx"
  shows "S ! p = S ! q \<longleftrightarrow> linked gap keys tss (idx ! p) (idx ! q)"
  using pq
proof (induction p q rule: linorder_wlog)
  case (sym p q)
  then show ?case using linked_sym [of gap keys tss] by auto
next
  case (le p q)
  let ?K = "\<lambda>p. keys ! (idx ! p)" and ?T = "\<lambda>p. tss ! (idx ! p)"
  have n: "length idx = length tss" using distinct_card [OF perm(1)] perm(2) by simp
  have lt: "idx ! r < length tss" if "r < length idx" for r
    using that perm(2) nth_mem [OF that] by auto
  have ord: "?K p < ?K q \<or> ?K p = ?K q \<and> ?T p \<le> ?T q" if "p \<le> q" "q < length idx" for p q
    using that sorted_wrt_nth_less [OF sorted, of p q] by (cases "p = q") (auto simp: lex_le_def)
  have diff: "in_i64 (?T p - ?T q)" if "p < length idx" "q < length idx" for p q
    using bspec [OF rng nth_mem [OF lt [OF that(1)]]] bspec [OF rng nth_mem [OF lt [OF that(2)]]]
    by (simp add: in_i64_def i64_min_def i64_max_def)
  have "S ! p = S ! q \<longleftrightarrow> (\<forall>r. p \<le> r \<and> r < q \<longrightarrow> \<not> breaks gap (?K r, ?T r) (?K (Suc r), ?T (Suc r)))"
    using session_ids_run [of "map ((!) tss) idx" "map ((!) keys) idx" p q gap] le S by auto
  also have "\<dots> \<longleftrightarrow> ?K p = ?K q \<and> (\<forall>x<length idx. ?K x = ?K p \<and> ?T p \<le> ?T x \<and> ?T x < ?T q \<longrightarrow>
      (\<exists>y<length idx. ?K y = ?K p \<and> ?T x < ?T y \<and> ?T y \<le> ?T x + gap))"
    by (rule run_iff_linked) (use ord diff gap le in auto)
  also have "\<dots> \<longleftrightarrow> linked gap keys tss (idx ! p) (idx ! q)"
  proof -
    have mm: "?K p = ?K q \<Longrightarrow> min (?T p) (?T q) = ?T p \<and> max (?T p) (?T q) = ?T q"
      using ord [OF le(1,3)] by auto
    have ex: "(\<exists>y<length idx. P (idx ! y)) \<longleftrightarrow> (\<exists>m<length tss. P m)"
      and al: "(\<forall>y<length idx. P (idx ! y)) \<longleftrightarrow> (\<forall>m<length tss. P m)" for P
      using lt perm_position [OF perm(2)] by blast+
    have "linked gap keys tss (idx ! p) (idx ! q) \<longleftrightarrow> ?K p = ?K q \<and>
        (\<forall>m<length tss. keys ! m = ?K p \<and> ?T p \<le> tss ! m \<and> tss ! m < ?T q \<longrightarrow>
          (\<exists>m'<length tss. keys ! m' = ?K p \<and> tss ! m < tss ! m' \<and> tss ! m' \<le> tss ! m + gap))"
      using mm by (auto simp: linked_def)
    then show ?thesis
      unfolding al [symmetric]
      unfolding ex [symmetric] by simp
  qed
  finally show ?case .
qed

section \<open>The assignment\<close>

definition effective_keys :: "'c list \<Rightarrow> int list \<Rightarrow> int list \<Rightarrow> int list" where
  "effective_keys key_cols key_hash tss = (if key_cols = [] then replicate (length tss) 0 else key_hash)"

lemma assign_sessions_value:
  assumes "take_contract A" and idx: "lexsort_to_indices A keys tss = Inr idx"
    and perm: "distinct idx" "set idx = {0..<length tss}"
    and keys: "keys = effective_keys key_cols key_hash tss" "length keys = length tss"
    and hash: "key_cols = [] \<or> hash key_cols = Some (Inr key_hash)" and ne: "tss \<noteq> []"
  shows "\<exists>ids. assign_sessions A hash tss key_cols gap = Some (Inr ids) \<and> length ids = length tss \<and>
     (\<forall>p<length idx. ids ! (idx ! p) =
        sorted_session_ids gap (map ((!) keys) idx) (map ((!) tss) idx) ! p)"
proof -
  have n: "length idx = length tss" using distinct_card [OF perm(1)] perm(2) by simp
  have take: "arrow_take A keys idx = Inr (map ((!) keys) idx)"
      "arrow_take A tss idx = Inr (map ((!) tss) idx)"
    using assms(1) perm(2) keys(2) by (simp_all add: take_contract_def)
  have h: "(if key_cols = [] then Some (Inr (replicate (length tss) 0)) else hash key_cols) =
      Some (Inr keys)"
    using keys(1) hash by (auto simp: effective_keys_def)
  let ?S = "sorted_session_ids gap (map ((!) keys) idx) (map ((!) tss) idx)"
  let ?r = "fold (\<lambda>(i, v) r. r[i := v]) (zip idx ?S) (replicate (length tss) 0)"
  have "assign_sessions A hash tss key_cols gap = Some (Inr ?r)"
    unfolding assign_sessions_def Let_def h using ne n perm(2) take idx
    by (simp add: scatter_def)
  moreover have "\<forall>p<length idx. ?r ! (idx ! p) = ?S ! p"
    using fold_update_nth [OF perm(1), of ?S] perm(2) by simp
  ultimately show ?thesis by (intro exI [of _ ?r]) simp
qed

text \<open>
  Given the contracts of the two Arrow kernels, session assignment succeeds on every
  batch whose key hashes can be computed, gives one id per row, and gives two rows the same
  id exactly when they have the same key and no gap of more than \<^verbatim>\<open>gap_ms\<close> separates them:
  between the earlier and the later one, every timestamp of the key that is before the
  later one is followed by another one of the key at most \<open>gap\<close> milliseconds after it. The
  order in which the rows arrive does not matter.
\<close>

theorem assign_sessions_gaps:
  assumes "sort_contract A" "take_contract A"
    and "key_cols = [] \<or> hash key_cols = Some (Inr key_hash)"
    and "keys = effective_keys key_cols key_hash tss" "length keys = length tss"
    and "0 \<le> gap" "\<forall>t\<in>set tss. - (2 ^ 62) \<le> t \<and> t < 2 ^ 62"
  shows "\<exists>ids. assign_sessions A hash tss key_cols gap = Some (Inr ids) \<and> length ids = length tss \<and>
     (\<forall>i<length tss. \<forall>j<length tss. ids ! i = ids ! j \<longleftrightarrow> linked gap keys tss i j)"
proof (cases "tss = []")
  case True
  then show ?thesis by (simp add: assign_sessions_def)
next
  case False
  obtain idx where idx: "lexsort_to_indices A keys tss = Inr idx" "distinct idx"
      "set idx = {0..<length tss}" "sorted_wrt (lex_le keys tss) idx"
    using assms(1,5) unfolding sort_contract_def by blast
  obtain ids where ids: "assign_sessions A hash tss key_cols gap = Some (Inr ids)"
      "length ids = length tss" "\<forall>p<length idx. ids ! (idx ! p) =
        sorted_session_ids gap (map ((!) keys) idx) (map ((!) tss) idx) ! p"
    using assign_sessions_value
      [where hash = hash and gap = gap, OF assms(2) idx(1-3) assms(4,5,3) False] by blast
  have "ids ! i = ids ! j \<longleftrightarrow> linked gap keys tss i j" if ij: "i < length tss" "j < length tss" for i j
  proof -
    obtain p where p: "p < length idx" "idx ! p = i" using perm_position [OF idx(3) ij(1)] by blast
    obtain q where q: "q < length idx" "idx ! q = j" using perm_position [OF idx(3) ij(2)] by blast
    show ?thesis
      using sessions_of_sorted [OF idx(2-4) assms(5,6,7) refl p(1) q(1)] ids(3) p q by auto
  qed
  then show ?thesis using ids by blast
qed

text \<open>Kernels that satisfy the contracts: a stable sort of the row numbers and a gather.\<close>

definition list_kernels :: arrow_kernels where
  "list_kernels = \<lparr>lexsort_to_indices = (\<lambda>keys tss.
       Inr (sort_key (\<lambda>i. (keys ! i, tss ! i)) [0..<length tss])),
     arrow_take = (\<lambda>xs idx. Inr (map ((!) xs) idx))\<rparr>"

lemma list_kernels_contracts: "sort_contract list_kernels" "take_contract list_kernels"
proof -
  have "sorted_wrt (lex_le keys tss) (sort_key (\<lambda>i. (keys ! i, tss ! i)) xs)" for keys tss xs
  proof -
    have "sorted_wrt (\<lambda>i j. (keys ! i, tss ! i) \<le> (keys ! j, tss ! j))
        (sort_key (\<lambda>i. (keys ! i, tss ! i)) xs)"
      using sorted_sort_key [of "\<lambda>i. (keys ! i, tss ! i)" xs] by (simp add: sorted_wrt_map)
    then show ?thesis by (rule sorted_wrt_mono_rel [rotated]) (auto simp: lex_le_def)
  qed
  then show "sort_contract list_kernels" by (simp add: sort_contract_def list_kernels_def)
  show "take_contract list_kernels" by (simp add: take_contract_def list_kernels_def)
qed

theorem assign_sessions_gaps_witness:
  "\<exists>ids. assign_sessions list_kernels (\<lambda>_ :: unit list. Some (Inr [7, 9, 7, 9, 7]))
       [0, 200, 100, 300, 5000] [()] 1000 = Some (Inr ids) \<and> length ids = 5 \<and>
     (\<forall>i<5. \<forall>j<5. ids ! i = ids ! j \<longleftrightarrow>
        linked 1000 [7, 9, 7, 9, 7] [0, 200, 100, 300, 5000] i j)"
  using assign_sessions_gaps [OF list_kernels_contracts, of "[()]"
      "\<lambda>_ :: unit list. Some (Inr [7, 9, 7, 9, 7])" "[7, 9, 7, 9, 7]" "[7, 9, 7, 9, 7]"
      "[0, 200, 100, 300, 5000]" 1000]
  by (simp add: effective_keys_def eval_nat_numeral)

section \<open>Key encodings\<close>

text \<open>
  The encoding of a row's key is injective as long as no value holds a zero byte: with one
  key column without any condition, with several ones for rows of the same number of columns.
\<close>

lemma key_part_inj: "key_part v = key_part w \<longleftrightarrow> v = w"
  by (auto simp: key_part_def split: option.splits)

lemma split_at_zero:
  assumes "0 \<notin> set a" "0 \<notin> set b" "a @ (0 :: u8) # xs = b @ 0 # ys"
  shows "a = b \<and> xs = ys"
  using assms
proof (induction a arbitrary: b)
  case Nil
  then show ?case by (cases b) auto
next
  case (Cons x a)
  then show ?case by (cases b) auto
qed

lemma key_part_no_zero: "(\<forall>t. v = Some t \<longrightarrow> 0 \<notin> set t) \<Longrightarrow> 0 \<notin> set (key_part v)"
  by (auto simp: key_part_def split: option.split)

lemma key_bytes_inj:
  assumes "length r = length s" "\<forall>t. Some t \<in> set r \<union> set s \<longrightarrow> 0 \<notin> set t"
    and "key_bytes r = key_bytes s"
  shows "r = s"
  using assms
proof (induction r arbitrary: s rule: key_bytes.induct)
  case (2 v)
  then show ?case by (cases s) (auto simp: key_part_inj)
next
  case (3 v w vs)
  then obtain x y ys where s: "s = x # y # ys" by (metis length_Suc_conv)
  have "0 \<notin> set (key_part v)" "0 \<notin> set (key_part x)"
    using "3.prems"(2) s by (auto intro!: key_part_no_zero)
  then have "key_part v = key_part x" "key_bytes (w # vs) = key_bytes (y # ys)"
    using "3.prems"(3) split_at_zero unfolding s key_bytes.simps by blast+
  moreover have "w # vs = y # ys"
    using "3.IH" [of "y # ys"] "3.prems"(1,2) calculation(2) s by auto
  ultimately show ?case using s by (simp add: key_part_inj)
qed simp

text \<open>
  With a zero byte inside a value a null key collides with a present one, which the comment
  of \<^verbatim>\<open>compute_key_hash\<close> excludes.
\<close>

lemma null_key_collides:
  "key_bytes [Some [97, 0, 2, 98], None] = key_bytes [Some [97], Some [98, 0, 1]]"
  by (simp add: key_part_def)

end
