(* ===== verification/Row_Ranges.thy ===== *)
theory Row_Ranges
  imports Prelude
begin

text \<open>
  The row ranges a sliced system is dispatched over: \<^verbatim>\<open>cpu_count\<close>, \<^verbatim>\<open>chunks_per_cpu\<close> and
  \<^verbatim>\<open>compute_row_ranges\<close> of \<^verbatim>\<open>saci-core/src/pipeline/execution.rs\<close>, at 32 bits. What
  \<^verbatim>\<open>num_cpus::get\<close> returns and what the environment variable parses to are arguments. A panic
  is \<open>None\<close>.
\<close>

definition MIN_ROWS_PER_CHUNK :: u32 where "MIN_ROWS_PER_CHUNK = 4096"

definition cpu_count :: "nat \<Rightarrow> u32" where
  "cpu_count num_cpus = word_of_nat (max num_cpus 1)"

definition chunks_per_cpu :: "u32 option \<Rightarrow> u32" where
  "chunks_per_cpu env = (case env of Some n \<Rightarrow> if n > 0 then n else 4 | None \<Rightarrow> 4)"

definition u32_saturating_mul :: "u32 \<Rightarrow> u32 \<Rightarrow> u32" where
  "u32_saturating_mul x y = (if unat x * unat y < 2 ^ 32 then x * y else - 1)"

definition u32_div_ceil :: "u32 \<Rightarrow> u32 \<Rightarrow> u32" where
  "u32_div_ceil x y = (if x mod y > 0 then x div y + 1 else x div y)"

definition u32_clamp :: "u32 \<Rightarrow> u32 \<Rightarrow> u32 \<Rightarrow> u32 option" where
  "u32_clamp x lo hi = (if lo > hi then None
     else Some (if x < lo then lo else if x > hi then hi else x))"

definition compute_row_ranges :: "u32 \<Rightarrow> u32 \<Rightarrow> u32 \<Rightarrow> (u32 \<times> u32) list option" where
  "compute_row_ranges cpus cpc total_rows =
     (let by_rows = total_rows div MIN_ROWS_PER_CHUNK in
      case u32_clamp by_rows cpus (u32_saturating_mul cpus cpc) of
        None \<Rightarrow> None
      | Some num_chunks \<Rightarrow>
          if num_chunks = 0 then None
          else let chunk_size = u32_div_ceil total_rows num_chunks in
            Some (filter (\<lambda>(start, end). start < end)
              (map (\<lambda>i. (word_of_nat i * chunk_size,
                         min ((word_of_nat i + 1) * chunk_size) total_rows))
                [0..<unat num_chunks])))"

section \<open>Ranges as lists of row numbers\<close>

definition range_rows :: "u32 \<times> u32 \<Rightarrow> nat list" where
  "range_rows r = [unat (fst r)..<unat (snd r)]"

lemma unat_u32_less: "unat (x :: u32) < 2 ^ 32"
  using unsigned_less [of x] by simp

lemma unat_u32_mult: "unat (x :: u32) * unat y < 2 ^ 32 \<Longrightarrow> unat (x * y) = unat x * unat y"
  by (simp add: unat_word_ariths)

lemma unat_u32_nat: "n < 2 ^ 32 \<Longrightarrow> unat (word_of_nat n :: u32) = n"
  by (simp add: unat_of_nat)

lemma chunks_cover:
  "concat (map (\<lambda>i. [i * c..<min ((i + 1) * c) t]) [0..<k]) = [0..<min (k * c) (t :: nat)]"
proof (induction k)
  case (Suc k)
  have "[0..<min (k * c) t] @ [k * c..<min (c + k * c) t] = [0..<min (c + k * c) t]"
  proof (cases "k * c \<le> t")
    case True
    then have "k * c + (min (c + k * c) t - k * c) = min (c + k * c) t" by simp
    then show ?thesis
      using upt_add_eq_append [of 0 "k * c" "min (c + k * c) t - k * c"] True by simp
  qed simp
  then show ?case using Suc by simp
qed simp

lemma concat_map_filter:
  "(\<And>x. x \<in> set xs \<Longrightarrow> \<not> P x \<Longrightarrow> f x = []) \<Longrightarrow> concat (map f (filter P xs)) = concat (map f xs)"
  by (induction xs) auto

lemma div_ceil_step: "\<lbrakk>0 < r; r < n\<rbrakk> \<Longrightarrow> (n * q + r + n - 1) div n = q + (1 :: nat)"
  by (intro div_nat_eqI) auto

lemma unat_div_ceil:
  assumes "0 < unat n" "unat t + unat n < 2 ^ 32"
  shows "unat (u32_div_ceil t n) = (unat t + unat n - 1) div unat n"
proof -
  let ?t = "unat t" and ?n = "unat n"
  have eq: "?t = ?n * (?t div ?n) + ?t mod ?n" by simp
  show ?thesis
  proof (cases "?t mod ?n = 0")
    case True
    then have z: "t mod n = 0" by (simp add: word_unat_eq_iff unat_mod)
    have "(?t + ?n - 1) div ?n = ?t div ?n"
      using eq True assms(1) by (intro div_nat_eqI) simp_all
    then show ?thesis using z by (simp add: u32_div_ceil_def unat_div)
  next
    case False
    then have nz: "t mod n > 0" by (simp add: word_greater_zero_iff word_unat_eq_iff unat_mod)
    have "?t div ?n + 1 < 2 ^ 32" using assms div_le_dividend [of ?t ?n] by linarith
    then have s: "unat (t div n + 1) = ?t div ?n + 1"
      by (simp add: unat_word_ariths unat_div)
    have "(?t + ?n - 1) div ?n = ?t div ?n + 1"
      using div_ceil_step [of "?t mod ?n" ?n "?t div ?n"] False assms(1) by simp
    then show ?thesis using nz s by (simp add: u32_div_ceil_def)
  qed
qed

section \<open>The ranges partition the rows\<close>

definition chunk_count :: "u32 \<Rightarrow> u32 \<Rightarrow> u32 \<Rightarrow> u32" where
  "chunk_count cpus cpc total_rows =
     (let by_rows = total_rows div MIN_ROWS_PER_CHUNK in
      if by_rows < cpus then cpus else if by_rows > cpus * cpc then cpus * cpc else by_rows)"

lemma chunk_count_bounds:
  assumes "0 < cpus" "0 < cpc" "unat cpus * unat cpc < 2 ^ 32"
  shows "u32_clamp (total_rows div MIN_ROWS_PER_CHUNK) cpus (u32_saturating_mul cpus cpc) =
      Some (chunk_count cpus cpc total_rows)"
    and "unat cpus \<le> unat (chunk_count cpus cpc total_rows)"
    and "unat (chunk_count cpus cpc total_rows) \<le> unat cpus * unat cpc"
proof -
  have m: "unat (cpus * cpc) = unat cpus * unat cpc" by (rule unat_u32_mult [OF assms(3)])
  have "1 \<le> unat cpc" using assms(2) by (simp add: word_less_nat_alt)
  then have le: "cpus \<le> cpus * cpc" by (simp add: word_le_nat_alt m)
  then show "u32_clamp (total_rows div MIN_ROWS_PER_CHUNK) cpus (u32_saturating_mul cpus cpc) =
      Some (chunk_count cpus cpc total_rows)"
    using assms(3) by (simp add: u32_clamp_def u32_saturating_mul_def chunk_count_def Let_def not_less)
  show "unat cpus \<le> unat (chunk_count cpus cpc total_rows)"
    "unat (chunk_count cpus cpc total_rows) \<le> unat cpus * unat cpc"
    using le unfolding m [symmetric] word_le_nat_alt [symmetric]
    by (auto simp: chunk_count_def Let_def)
qed

lemma row_ranges_nat:
  fixes n c t :: u32
  assumes "i < unat n" "unat n * unat c < 2 ^ 32"
  shows "range_rows (word_of_nat i * c, min ((word_of_nat i + 1) * c) t) =
     [i * unat c..<min ((i + 1) * unat c) (unat t)]"
proof -
  have "(i + 1) * unat c \<le> unat n * unat c" using assms(1) by (intro mult_le_mono1) simp
  then have b: "(i + 1) * unat c < 2 ^ 32" using assms(2) by linarith
  have lt: "i + 1 < 2 ^ 32" using assms(1) unat_u32_less [of n] by linarith
  have s: "unat (word_of_nat i * c) = i * unat c"
    using unat_u32_mult [of "word_of_nat i" c] b lt by (simp add: unat_u32_nat)
  have "word_of_nat i + 1 = (word_of_nat (i + 1) :: u32)" by simp
  then have e: "unat ((word_of_nat i + 1) * c) = (i + 1) * unat c"
    using unat_u32_mult [of "word_of_nat (i + 1)" c] b lt unat_u32_nat [of "i + 1"] by metis
  have "unat (min x y) = min (unat x) (unat y)" for x y :: u32
    by (simp add: min_def word_le_nat_alt)
  then show ?thesis using s e by (simp add: range_rows_def)
qed

lemma compute_row_ranges_value:
  assumes "0 < cpus" "0 < cpc" "unat total_rows + unat cpus * unat cpc < 2 ^ 32"
  shows "\<exists>rs. compute_row_ranges cpus cpc total_rows = Some rs \<and>
     concat (map range_rows rs) = [0..<unat total_rows] \<and> (\<forall>r\<in>set rs. fst r < snd r) \<and>
     length rs \<le> unat cpus * unat cpc"
proof -
  let ?n = "chunk_count cpus cpc total_rows" and ?t = "unat total_rows"
  let ?c = "u32_div_ceil total_rows ?n"
  have lt: "unat cpus * unat cpc < 2 ^ 32" using assms(3) by simp
  note cc = chunk_count_bounds [OF assms(1,2) lt, of total_rows]
  have n: "0 < unat ?n" using cc(2) assms(1) by (simp add: word_less_nat_alt)
  have c: "unat ?c = (?t + unat ?n - 1) div unat ?n"
    by (rule unat_div_ceil) (use n cc(3) assms(3) in linarith)+
  have lo: "?t \<le> unat ?n * unat ?c" and hi: "unat ?n * unat ?c < ?t + unat ?n"
    unfolding c using n dividend_less_times_div [OF n, of "?t + unat ?n - 1"]
      times_div_less_eq_dividend [of "unat ?n" "?t + unat ?n - 1"] by linarith+
  have ov: "unat ?n * unat ?c < 2 ^ 32" using hi cc(3) assms(3) by linarith
  let ?f = "\<lambda>i. (word_of_nat i * ?c, min ((word_of_nat i + 1) * ?c) total_rows)"
  let ?rs = "filter (\<lambda>(start, end). start < end) (map ?f [0..<unat ?n])"
  have "?n \<noteq> 0" using n by auto
  then have v: "compute_row_ranges cpus cpc total_rows = Some ?rs"
    by (simp add: compute_row_ranges_def cc(1) Let_def)
  have "concat (map range_rows ?rs) = concat (map range_rows (map ?f [0..<unat ?n]))"
    by (rule concat_map_filter) (auto simp: range_rows_def word_less_nat_alt not_less)
  also have "map range_rows (map ?f [0..<unat ?n]) =
      map (\<lambda>i. [i * unat ?c..<min ((i + 1) * unat ?c) ?t]) [0..<unat ?n]"
    unfolding map_map comp_def by (rule map_cong [OF refl], rule row_ranges_nat [OF _ ov]) simp
  finally have "concat (map range_rows ?rs) = [0..<?t]" 
    unfolding chunks_cover min_absorb2 [OF lo] .
  moreover have "length ?rs \<le> unat cpus * unat cpc"
    using cc(3) length_filter_le [of _ "map ?f [0..<unat ?n]"] order.trans by fastforce
  ultimately show ?thesis using v by fastforce
qed

text \<open>
  The ranges a sliced system is dispatched over partition the rows: listed in order they
  enumerate every row number from 0 exactly once, none of them is empty, and there are at
  most \<^verbatim>\<open>cpu_count * chunks_per_cpu\<close> of them, whatever the machine and the environment say.
  This holds while the row count stays that far below \<^verbatim>\<open>u32::MAX\<close>.
\<close>

theorem row_ranges_partition:
  assumes "num_cpus < 2 ^ 32"
    and "unat total_rows + max num_cpus 1 * unat (chunks_per_cpu env) < 2 ^ 32"
  shows "\<exists>rs. compute_row_ranges (cpu_count num_cpus) (chunks_per_cpu env) total_rows = Some rs \<and>
     concat (map range_rows rs) = [0..<unat total_rows] \<and> (\<forall>r\<in>set rs. fst r < snd r) \<and>
     length rs \<le> max num_cpus 1 * unat (chunks_per_cpu env)"
proof -
  have u: "unat (cpu_count num_cpus) = max num_cpus 1"
    unfolding cpu_count_def using assms(1) by (intro unat_u32_nat) simp
  then have "0 < cpu_count num_cpus" by (simp add: word_less_nat_alt)
  moreover have "0 < chunks_per_cpu env" by (auto simp: chunks_per_cpu_def split: option.split)
  ultimately show ?thesis using compute_row_ranges_value [of "cpu_count num_cpus"] assms(2) u by simp
qed

theorem row_ranges_partition_witness:
  "\<exists>rs. compute_row_ranges (cpu_count 2) (chunks_per_cpu None) 20000 = Some rs \<and>
     concat (map range_rows rs) = [0..<20000] \<and> length rs \<le> 8"
  using row_ranges_partition [of 2 20000 None] by (auto simp: chunks_per_cpu_def)

text \<open>
  At the very top of the 32-bit range the last end wraps and its rows are lost: with two
  chunks of \<open>2 ^ 31\<close> rows the second one ends at 0 and is filtered away.
\<close>

lemma row_ranges_overflow:
  "compute_row_ranges 2 1 0xFFFFFFFF = Some [(0, 0x80000000)]"
  by (simp add: compute_row_ranges_def MIN_ROWS_PER_CHUNK_def u32_clamp_def u32_saturating_mul_def
      u32_div_ceil_def Let_def upt_rec)

end
