(* ===== verification/Inspector_Buffer.thy ===== *)
theory Inspector_Buffer
  imports Prelude "HOL-Library.Sublist"
begin

text \<open>
  The ring buffer of the inspector, \<^verbatim>\<open>saci-service/src/inspector/buffer.rs\<close>. An \<^verbatim>\<open>Instant\<close> and a
  \<^verbatim>\<open>Duration\<close> are numbers of nanoseconds; the value \<^verbatim>\<open>Instant::now()\<close> returns is an argument of
  the operation that reads it, and \<^verbatim>\<open>duration_since\<close> saturates at zero as in the standard
  library. Each operation holds the lock for its whole effect on the storage, so it is one
  step here.
\<close>

record 'a time_bounded_buffer =
  storage :: "(nat \<times> 'a) list"
  ttl :: nat
  max_len :: nat
  dropped :: u64

definition new_buffer :: "nat \<Rightarrow> nat \<Rightarrow> 'a time_bounded_buffer" where
  "new_buffer t n = \<lparr>storage = [], ttl = t, max_len = max n 1, dropped = 0\<rparr>"

definition expired :: "nat \<Rightarrow> nat \<Rightarrow> nat \<times> 'a \<Rightarrow> bool" where
  "expired now t e \<longleftrightarrow> now - fst e > t"

definition push :: "nat \<Rightarrow> 'a \<Rightarrow> 'a time_bounded_buffer \<Rightarrow> 'a time_bounded_buffer" where
  "push now item b =
     (let drained = dropWhile (expired now (ttl b)) (storage b);
          appended = drained @ [(now, item)];
          evicted = length appended - max_len b
      in b\<lparr>storage := drop evicted appended, dropped := dropped b + word_of_nat evicted\<rparr>)"

definition read_recent :: "nat \<Rightarrow> 'a time_bounded_buffer \<Rightarrow> 'a list" where
  "read_recent now b = map snd (filter (\<lambda>e. \<not> expired now (ttl b) e) (storage b))"

definition read_last :: "nat \<Rightarrow> nat \<Rightarrow> 'a time_bounded_buffer \<Rightarrow> 'a list" where
  "read_last now n b =
     map snd (take n (filter (\<lambda>e. \<not> expired now (ttl b) e) (rev (storage b))))"

definition buffer_len :: "'a time_bounded_buffer \<Rightarrow> nat" where
  "buffer_len b = length (storage b)"

definition buffer_is_empty :: "'a time_bounded_buffer \<Rightarrow> bool" where
  "buffer_is_empty b \<longleftrightarrow> buffer_len b = 0"

section \<open>What the storage holds\<close>

text \<open>The newest \<open>n\<close> entries of a sequence of pushes.\<close>

definition newest :: "nat \<Rightarrow> 'b list \<Rightarrow> 'b list" where
  "newest n xs = drop (length xs - n) xs"

definition pushes :: "(nat \<times> 'a) list \<Rightarrow> 'a time_bounded_buffer \<Rightarrow> 'a time_bounded_buffer" where
  "pushes xs b = fold (\<lambda>(now, item). push now item) xs b"

lemma new_buffer_fields [simp]: "ttl (new_buffer t n) = t" "max_len (new_buffer t n) = max n 1"
  by (simp_all add: new_buffer_def)

lemma pushes_snoc: "pushes (xs @ [(now, item)]) b = push now item (pushes xs b)"
  by (simp add: pushes_def)

lemma pushes_fixed [simp]: "ttl (pushes xs b) = ttl b" "max_len (pushes xs b) = max_len b"
  by (induction xs rule: rev_induct) (auto simp: pushes_def push_def Let_def split: prod.splits)

text \<open>
  The storage is an end of the sequence of pushes, no longer than the capacity; the part that
  was lost consists of expired entries and of entries with at least \<open>max_len\<close> newer ones.
\<close>

definition holds_window :: "(nat \<times> 'a) list \<Rightarrow> nat \<Rightarrow> nat \<Rightarrow> (nat \<times> 'a) list \<Rightarrow> bool" where
  "holds_window xs t n st \<longleftrightarrow> length st \<le> n \<and> suffix st xs \<and>
     (\<forall>now. (\<forall>e\<in>set xs. fst e \<le> now) \<longrightarrow>
        filter (\<lambda>e. \<not> expired now t e) st = filter (\<lambda>e. \<not> expired now t e) (newest n xs))"

lemma filter_dropWhile_expired:
  "u \<le> now \<Longrightarrow> filter (\<lambda>e. \<not> expired now t e) (dropWhile (expired u t) xs) =
     filter (\<lambda>e. \<not> expired now t e) xs"
  by (induction xs) (auto simp: expired_def)

lemma suffix_dropWhile_append: "suffix st xs \<Longrightarrow> suffix (dropWhile P st @ ys) (xs @ ys)"
  using suffix_dropWhile [of P st] suffix_order.trans by (auto simp: same_suffix_suffix)

lemma newest_all [simp]: "length xs \<le> n \<Longrightarrow> newest n xs = xs"
  by (simp add: newest_def)

lemma newest_snoc: "0 < n \<Longrightarrow> newest n (xs @ [x]) = newest (n - 1) xs @ [x]"
  by (cases n) (simp_all add: newest_def)

lemma suffix_newest: "suffix (newest n xs) xs"
  by (simp add: newest_def suffix_drop)

lemma newest_newest: "m \<le> n \<Longrightarrow> newest m (newest n xs) = newest m xs"
  by (cases "n \<le> length xs") (auto simp: newest_def intro!: arg_cong [where f = "\<lambda>k. drop k xs"])

lemma newest_of_suffix:
  assumes "suffix st xs" "m \<le> length st"
  shows "newest m st = newest m xs"
  using assms by (auto simp: suffix_def newest_def)

lemma suffix_filter: "suffix xs ys \<Longrightarrow> suffix (filter P xs) (filter P ys)"
  by (auto simp: suffix_def)

lemma filter_newest_suffix:
  assumes "suffix d xs" "filter P d = filter P (newest n xs)" "m \<le> n"
  shows "filter P (newest m d) = filter P (newest m xs)"
proof (cases "m \<le> length d")
  case True
  then show ?thesis using newest_of_suffix [OF assms(1)] by simp
next
  case False
  have "suffix d (newest m xs)"
    using assms(1) False by (auto simp: suffix_def newest_def)
  then have "suffix (filter P d) (filter P (newest m xs))" by (rule suffix_filter)
  moreover have "suffix (filter P (newest m xs)) (filter P (newest n xs))"
    using suffix_newest [of m "newest n xs"] newest_newest [OF assms(3), of xs] suffix_filter by metis
  ultimately show ?thesis
    using assms(2) False suffix_order.antisym by (metis newest_all nat_le_linear)
qed

lemma holds_window_push:
  assumes "holds_window xs (ttl b) (max_len b) (storage b)" "0 < max_len b"
  shows "holds_window (xs @ [(u, item)]) (ttl b) (max_len b) (storage (push u item b))"
proof -
  let ?d = "dropWhile (expired u (ttl b)) (storage b)" and ?n = "max_len b"
  have st: "storage (push u item b) = newest ?n (?d @ [(u, item)])"
    by (simp add: push_def Let_def newest_def)
  have d: "suffix ?d xs" "suffix (?d @ [(u, item)]) (xs @ [(u, item)])"
    using assms(1) suffix_dropWhile_append [of "storage b" xs _ "[]"]
    by (auto simp: holds_window_def suffix_dropWhile_append)
  have "filter (\<lambda>e. \<not> expired now (ttl b) e) (newest ?n (?d @ [(u, item)])) =
      filter (\<lambda>e. \<not> expired now (ttl b) e) (newest ?n (xs @ [(u, item)]))"
    if "\<forall>e\<in>set (xs @ [(u, item)]). fst e \<le> now" for now
  proof -
    have "filter (\<lambda>e. \<not> expired now (ttl b) e) ?d =
        filter (\<lambda>e. \<not> expired now (ttl b) e) (newest ?n xs)"
    proof -
      have "\<forall>e\<in>set xs. fst e \<le> now" "u \<le> now" using that by auto
      then have "filter (\<lambda>e. \<not> expired now (ttl b) e) (storage b) =
          filter (\<lambda>e. \<not> expired now (ttl b) e) (newest ?n xs)"
        using assms(1) unfolding holds_window_def by blast
      then show ?thesis using filter_dropWhile_expired [OF \<open>u \<le> now\<close>] by metis
    qed
    then show ?thesis
      using filter_newest_suffix [OF d(1), of _ ?n "?n - 1"] assms(2) by (simp add: newest_snoc)
  qed
  then show ?thesis
    unfolding holds_window_def st
    using suffix_order.trans [OF suffix_newest d(2)] by (auto simp: newest_def)
qed

lemma holds_window_pushes:
  "holds_window xs t (max n 1) (storage (pushes xs (new_buffer t n)))"
proof (induction xs rule: rev_induct)
  case Nil
  then show ?case by (simp add: holds_window_def pushes_def new_buffer_def newest_def)
next
  case (snoc x xs)
  obtain u item where x: "x = (u, item)" by (cases x)
  show ?case
    using holds_window_push [of xs "pushes xs (new_buffer t n)" u item] snoc
    by (simp add: x pushes_snoc)
qed

text \<open>The eviction counter.\<close>

lemma unexpired_push:
  assumes "\<forall>e\<in>set (storage b). \<not> expired u (ttl b) e"
  shows "dropWhile (expired u (ttl b)) (storage b) = storage b"
  using assms by (cases "storage b") auto

lemma pushes_unexpired:
  assumes "\<forall>e\<in>set xs. \<forall>e'\<in>set xs. fst e' - fst e \<le> t"
  shows "length (storage (pushes xs (new_buffer t n))) = min (length xs) (max n 1) \<and>
     dropped (pushes xs (new_buffer t n)) = word_of_nat (length xs - max n 1)"
  using assms
proof (induction xs rule: rev_induct)
  case Nil
  then show ?case by (simp add: pushes_def new_buffer_def)
next
  case (snoc x xs)
  obtain u item where x: "x = (u, item)" by (cases x)
  let ?b = "pushes xs (new_buffer t n)"
  have IH: "length (storage ?b) = min (length xs) (max n 1)"
      "dropped ?b = word_of_nat (length xs - max n 1)" using snoc by auto
  have f: "ttl ?b = t" "max_len ?b = max n 1" by simp_all
  have "set (storage ?b) \<subseteq> set xs"
    using holds_window_pushes [of xs t n] by (auto simp: holds_window_def dest: set_mono_suffix)
  then have "\<forall>e\<in>set (storage ?b). \<not> expired u (ttl ?b) e"
    using snoc.prems f x by (fastforce simp: expired_def)
  then have d: "dropWhile (expired u (ttl ?b)) (storage ?b) = storage ?b" by (rule unexpired_push)
  show ?case
  proof (cases "length xs < max n 1")
    case True
    then show ?thesis using d IH f unfolding x pushes_snoc push_def Let_def by (simp add: min_def)
  next
    case False
    then have "Suc (length xs) - max n 1 = Suc (length xs - max n 1)" by simp
    then show ?thesis using False d IH f unfolding x pushes_snoc push_def Let_def
      by (simp add: min_def add.commute)
  qed
qed

text \<open>
  Whatever was pushed, and whichever clock value the reader sees, reading the buffer returns
  exactly the entries among the newest \<^verbatim>\<open>max_len\<close> pushes that are no older than the time to
  live, oldest first, or the last \<open>k\<close> of them newest first: the drains a push performs never
  lose an entry a reader could still see. The storage never exceeds the capacity, and while
  nothing expires the counter reports exactly the entries lost to the capacity.
\<close>

theorem buffer_reads_window:
  assumes "\<forall>e\<in>set xs. fst e \<le> now"
  shows "read_recent now (pushes xs (new_buffer t n)) =
       map snd (filter (\<lambda>e. now - fst e \<le> t) (newest (max n 1) xs)) \<and>
     read_last now k (pushes xs (new_buffer t n)) =
       take k (rev (read_recent now (pushes xs (new_buffer t n)))) \<and>
     buffer_len (pushes xs (new_buffer t n)) \<le> max n 1 \<and>
     ((\<forall>e\<in>set xs. now - fst e \<le> t) \<longrightarrow>
        dropped (pushes xs (new_buffer t n)) = word_of_nat (length xs - max n 1))"
proof -
  have w: "holds_window xs t (max n 1) (storage (pushes xs (new_buffer t n)))"
    by (rule holds_window_pushes)
  have f: "ttl (pushes xs (new_buffer t n)) = t" by simp
  have "\<forall>e\<in>set xs. \<forall>e'\<in>set xs. fst e' - fst e \<le> t" if "\<forall>e\<in>set xs. now - fst e \<le> t"
    using that assms by (meson diff_le_mono order.trans)
  then have "(\<forall>e\<in>set xs. now - fst e \<le> t) \<longrightarrow>
      dropped (pushes xs (new_buffer t n)) = word_of_nat (length xs - max n 1)"
    using pushes_unexpired by blast
  moreover have "read_recent now (pushes xs (new_buffer t n)) =
      map snd (filter (\<lambda>e. now - fst e \<le> t) (newest (max n 1) xs))"
    using w assms by (simp add: holds_window_def read_recent_def f expired_def not_less)
  moreover have "read_last now k b = take k (rev (read_recent now b))" for b :: "'a time_bounded_buffer"
    by (simp add: read_last_def read_recent_def rev_map rev_filter take_map)
  ultimately show ?thesis using w by (simp add: holds_window_def buffer_len_def)
qed

theorem buffer_reads_window_witness:
  "read_recent 20 (pushes [(1, ''a''), (9, ''b''), (15, ''c''), (20, ''d'')] (new_buffer 10 2)) =
     [''c'', ''d''] \<and>
   read_last 20 1 (pushes [(1, ''a''), (9, ''b''), (15, ''c''), (20, ''d'')] (new_buffer 10 2)) =
     [''d'']"
  using buffer_reads_window [of "[(1, ''a''), (9, ''b''), (15, ''c''), (20, ''d'')]" 20 10 2 1]
  by (simp add: newest_def)

end
