(* ===== verification/Sampling.thy ===== *)
theory Sampling
  imports Prelude Complex_Main
begin

text \<open>
  Deterministic sampling, \<^verbatim>\<open>saci-service/src/service/sampling.rs\<close>: the fixed-point ratio and the
  decision of the \<^verbatim>\<open>Sampler\<close>. The accumulator is an atomic 64-bit integer and every roll is one
  \<^verbatim>\<open>fetch_add\<close>, hence one step. A ratio is a rational number: scaling a finite \<^verbatim>\<open>f64\<close> by a power
  of two and rounding it to an integer is exact. The classification of the parent span is
  done by the \<^verbatim>\<open>tracing-subscriber\<close> registry and enters as an argument.
\<close>

definition ONE :: u64 where "ONE = 0x100000000"

record ratio =
  step :: u64
  acc :: u64

text \<open>\<^verbatim>\<open>f64::clamp\<close> and \<^verbatim>\<open>f64::round\<close>, which rounds a half away from zero.\<close>

definition new_ratio :: "rat \<Rightarrow> ratio" where
  "new_ratio r =
     (let scaled = \<lfloor>max 0 (min r 1) * 2 ^ 32 + 1 / 2\<rfloor>
      in \<lparr>step = (if scaled \<ge> 2 ^ 32 then ONE else word_of_int scaled), acc = 0\<rparr>)"

definition is_always :: "ratio \<Rightarrow> bool" where
  "is_always r \<longleftrightarrow> step r \<ge> ONE"

definition roll :: "ratio \<Rightarrow> bool \<times> ratio" where
  "roll r =
     (if step r \<ge> ONE then (True, r)
      else if step r = 0 then (False, r)
      else let prev = acc r
        in (and prev (ONE - 1) + step r \<ge> ONE, r\<lparr>acc := prev + step r\<rparr>))"

datatype parent = Parent_None | Sampled | Unsampled

record sampler =
  errors :: ratio
  others :: ratio

definition new_sampler :: "rat \<Rightarrow> rat \<Rightarrow> sampler" where
  "new_sampler sample_ratio error_sample_ratio =
     \<lparr>errors = new_ratio error_sample_ratio, others = new_ratio sample_ratio\<rparr>"

definition passthrough :: "sampler \<Rightarrow> bool" where
  "passthrough s \<longleftrightarrow> is_always (errors s) \<and> is_always (others s)"

definition never_sampled :: "string \<Rightarrow> bool" where
  "never_sampled target \<longleftrightarrow> target = ''saci::flow_control'' \<or> target = ''saci::windowing'' \<or>
     target = ''saci::heal'' \<or> target = ''saci::dlq''"

definition roll_errors :: "sampler \<Rightarrow> bool \<times> sampler" where
  "roll_errors s = (case roll (errors s) of (keep, r) \<Rightarrow> (keep, s\<lparr>errors := r\<rparr>))"

definition roll_others :: "sampler \<Rightarrow> bool \<times> sampler" where
  "roll_others s = (case roll (others s) of (keep, r) \<Rightarrow> (keep, s\<lparr>others := r\<rparr>))"

definition decide :: "string \<Rightarrow> bool \<Rightarrow> parent \<Rightarrow> sampler \<Rightarrow> bool \<times> sampler" where
  "decide target is_error par s =
     (if never_sampled target then (True, s)
      else case par of
        Sampled \<Rightarrow> (True, s)
      | Unsampled \<Rightarrow> if is_error then roll_errors s else (False, s)
      | Parent_None \<Rightarrow> if is_error then roll_errors s else roll_others s)"

text \<open>\<^verbatim>\<open>enabled\<close> and \<^verbatim>\<open>event_enabled\<close> of the filter.\<close>

definition enabled :: "string \<Rightarrow> bool \<Rightarrow> bool \<Rightarrow> parent \<Rightarrow> sampler \<Rightarrow> bool \<times> sampler" where
  "enabled target is_error is_event par s =
     (if passthrough s then (True, s)
      else if is_event then (True, s)
      else decide target is_error par s)"

definition event_enabled :: "string \<Rightarrow> bool \<Rightarrow> parent \<Rightarrow> sampler \<Rightarrow> bool \<times> sampler" where
  "event_enabled target is_error par s =
     (if passthrough s then (True, s) else decide target is_error par s)"

section \<open>The ratio is exact\<close>

primrec rolls :: "nat \<Rightarrow> ratio \<Rightarrow> nat \<times> ratio" where
  "rolls 0 r = (0, r)"
| "rolls (Suc n) r =
     (case rolls n r of (kept, r') \<Rightarrow>
        case roll r' of (keep, r'') \<Rightarrow> (if keep then kept + 1 else kept, r''))"

lemma unat_ONE: "unat ONE = 2 ^ 32"
  by (simp add: ONE_def)

lemma low_bits: "unat (and x (ONE - 1) :: u64) = unat x mod 2 ^ 32"
proof -
  have "ONE - 1 = (mask 32 :: u64)" by (simp add: ONE_def mask_eq_exp_minus_1)
  then show ?thesis
    by (simp add: take_bit_eq_mask [symmetric] unsigned_take_bit_eq take_bit_eq_mod unat_mod)
qed

lemma roll_value:
  assumes "step r < ONE" "step r \<noteq> 0"
  shows "roll r = (unat (acc r) mod 2 ^ 32 + unat (step r) \<ge> 2 ^ 32, r\<lparr>acc := acc r + step r\<rparr>)"
proof -
  have s: "unat (step r) < 2 ^ 32" using assms(1) by (simp add: word_less_nat_alt unat_ONE)
  have "unat (and (acc r) (ONE - 1)) < 2 ^ 32" by (simp add: low_bits)
  then have "unat (and (acc r) (ONE - 1) + step r) = unat (acc r) mod 2 ^ 32 + unat (step r)"
    using s by (simp add: unat_word_ariths low_bits)
  then show ?thesis using assms s
    by (simp add: roll_def Let_def word_le_nat_alt unat_ONE not_le)
qed

lemma add_carry:
  fixes a s :: nat
  assumes "s < b"
  shows "(a + s) div b = a div b + (if a mod b + s \<ge> b then 1 else 0)"
proof -
  have b: "0 < b" using assms by simp
  have "(a + s) div b = a div b + (a mod b + s) div b"
    by (metis div_add1_eq div_less assms mod_less add.right_neutral)
  moreover have "(a mod b + s) div b = (if a mod b + s \<ge> b then 1 else 0)"
  proof (cases "a mod b + s \<ge> b")
    case True
    then have "(a mod b + s) div b = 1" using add_strict_mono [OF mod_less_divisor [OF b, of a] assms]
      by (intro div_nat_eqI) auto
    then show ?thesis using True by simp
  qed simp
  ultimately show ?thesis by simp
qed

lemma rolls_value:
  assumes "step r < ONE" "step r \<noteq> 0" "acc r = 0"
  shows "rolls n r = (n * unat (step r) div 2 ^ 32, r\<lparr>acc := word_of_nat n * step r\<rparr>)"
proof (induction n)
  case 0
  then show ?case using assms(3) by simp
next
  case (Suc n)
  let ?r = "r\<lparr>acc := word_of_nat n * step r\<rparr>"
  have s: "unat (step r) < 2 ^ 32" using assms(1) by (simp add: word_less_nat_alt unat_ONE)
  have "unat (word_of_nat n * step r) mod 2 ^ 32 = (n * unat (step r)) mod 2 ^ 32"
  proof -
    have "unat (word_of_nat n * step r) = (n * unat (step r)) mod 2 ^ 64"
      by (simp add: unat_word_ariths unat_of_nat mod_mult_left_eq)
    then show ?thesis by (simp add: mod_mod_cancel)
  qed
  then have "roll ?r = (n * unat (step r) mod 2 ^ 32 + unat (step r) \<ge> 2 ^ 32,
      r\<lparr>acc := word_of_nat (Suc n) * step r\<rparr>)"
    using roll_value [of ?r] assms by (simp add: algebra_simps)
  then show ?case
    using Suc add_carry [OF s, of "n * unat (step r)"] by (simp add: algebra_simps)
qed

lemma rolls_constant: "step r \<ge> ONE \<Longrightarrow> rolls n r = (n, r)" "step r = 0 \<Longrightarrow> rolls n r = (0, r)"
  by (induction n) (auto simp: roll_def ONE_def)

lemma new_ratio_step: "unat (step (new_ratio r)) = nat \<lfloor>max 0 (min r 1) * 2 ^ 32 + 1 / 2\<rfloor>"
    "unat (step (new_ratio r)) \<le> 2 ^ 32"
proof -
  let ?x = "max 0 (min r 1) * 2 ^ 32 + 1 / 2 :: rat"
  have "0 \<le> ?x" by simp
  then have lo: "0 \<le> \<lfloor>?x\<rfloor>" by simp
  have "max 0 (min r 1) * 2 ^ 32 \<le> 1 * 2 ^ 32" by (intro mult_right_mono) auto
  then have "?x < 2 ^ 32 + 1" by linarith
  then have hi: "\<lfloor>?x\<rfloor> \<le> 2 ^ 32" by (simp add: floor_le_iff)
  define k where "k = \<lfloor>?x\<rfloor>"
  have st: "step (new_ratio r) = (if k \<ge> 2 ^ 32 then ONE else word_of_int k)"
    unfolding new_ratio_def Let_def k_def by (simp only: ratio.select_convs)
  have b: "0 \<le> k" "k \<le> 2 ^ 32" using lo hi by (simp_all only: k_def)
  then have "unat (step (new_ratio r)) = nat k"
  proof (cases "k = 2 ^ 32")
    case False
    then show ?thesis using b by (simp add: st unat_eq_nat_uint uint_word_of_int)
  qed (simp add: st unat_ONE)
  then show "unat (step (new_ratio r)) = nat \<lfloor>?x\<rfloor>" by (simp only: k_def)
  show "unat (step (new_ratio r)) \<le> 2 ^ 32"
    using b \<open>unat (step (new_ratio r)) = nat k\<close> by simp
qed

text \<open>
  Sampling keeps the configured share exactly, at every moment: of the first \<open>n\<close> items a
  ratio rolls, the number kept is \<open>n * step\<close> divided by \<open>2 ^ 32\<close> and rounded down, where
  \<open>step\<close> is the ratio in units of \<open>2 ^ -32\<close>, rounded to the nearest; the wrap-around of the
  64-bit accumulator never shows.
\<close>

theorem rolls_exact:
  "fst (rolls n (new_ratio r)) =
     n * nat \<lfloor>max 0 (min r 1) * 2 ^ 32 + 1 / 2\<rfloor> div 2 ^ 32"
proof -
  let ?q = "new_ratio r"
  have a: "acc ?q = 0" by (simp add: new_ratio_def Let_def)
  consider "step ?q \<ge> ONE" | "step ?q = 0" | "step ?q < ONE" "step ?q \<noteq> 0" by fastforce
  then show ?thesis
  proof cases
    case 1
    then have "unat (step ?q) = 2 ^ 32"
      using new_ratio_step(2) [of r] by (simp add: word_le_nat_alt unat_ONE)
    then show ?thesis using rolls_constant(1) [OF 1] new_ratio_step(1) [of r] by simp
  next
    case 2
    then show ?thesis using rolls_constant(2) [OF 2] new_ratio_step(1) [of r] by simp
  next
    case 3
    then show ?thesis using rolls_value [OF 3 a] new_ratio_step(1) [of r] by simp
  qed
qed

section \<open>Decisions\<close>

lemma decide_child:
  "fst (decide target is_error Sampled s)"
  "snd (decide target is_error Sampled s) = s"
  "\<not> never_sampled target \<Longrightarrow> \<not> fst (decide target False Unsampled s)"
  "never_sampled target \<Longrightarrow> fst (decide target is_error par s)"
  by (auto simp: decide_def)

lemma decide_independent:
  "others (snd (decide target True par s)) = others s"
  "errors (snd (decide target False par s)) = errors s"
  by (auto simp: decide_def roll_errors_def roll_others_def split: parent.split prod.split)

end
