(* ===== verification/Numeric.thy ===== *)
theory Numeric
  imports Texts
begin

text \<open>
  The PostgreSQL \<^verbatim>\<open>numeric\<close> codec, \<^verbatim>\<open>saci-connector-postgresql/src/numeric.rs\<close>: the binary decoder
  and encoder, the text decoder and the \<^verbatim>\<open>money\<close> factor. An \<^verbatim>\<open>i128\<close> is an \<^typ>\<open>int\<close> whose checked
  operations return \<open>None\<close> outside the range; the \<^verbatim>\<open>i8\<close> scale and the 16-bit header fields are
  integers read from their bytes. A text is a list of 8-bit characters.
\<close>

section \<open>Checked 128-bit arithmetic and header fields\<close>

definition i128_max :: int where "i128_max = 2 ^ 127 - 1"
definition i128_min :: int where "i128_min = - (2 ^ 127)"

definition checked :: "int \<Rightarrow> int option" where
  "checked x = (if i128_min \<le> x \<and> x \<le> i128_max then Some x else None)"

definition checked_mul_add :: "int \<Rightarrow> int \<Rightarrow> int \<Rightarrow> int option" where
  "checked_mul_add v m d = Option.bind (checked (v * m)) (\<lambda>x. checked (x + d))"

definition u16_of :: "u8 \<Rightarrow> u8 \<Rightarrow> nat" where
  "u16_of hi lo = unat hi * 256 + unat lo"

definition i16_of :: "u8 \<Rightarrow> u8 \<Rightarrow> int" where
  "i16_of hi lo = (let x = int (u16_of hi lo) in if x < 32768 then x else x - 65536)"

definition put_u16 :: "nat \<Rightarrow> bytes" where "put_u16 x = be_bytes 2 x"
definition put_i16 :: "int \<Rightarrow> bytes" where "put_i16 x = be_bytes 2 (nat (x mod 65536))"

definition SIGN_POS :: nat where "SIGN_POS = 0x0000"
definition SIGN_NEG :: nat where "SIGN_NEG = 0x4000"
definition SIGN_NAN :: nat where "SIGN_NAN = 0xC000"
definition SIGN_PINF :: nat where "SIGN_PINF = 0xD000"
definition SIGN_NINF :: nat where "SIGN_NINF = 0xF000"

definition column_error :: "string \<Rightarrow> string \<Rightarrow> saci_error" where
  "column_error column text = Generic (''column '' @ quoted column @ '': '' @ text)"

definition int_string :: "int \<Rightarrow> string" where
  "int_string x = (if x < 0 then ''-'' @ dec_string (nat (- x)) else dec_string (nat x))"

definition hex_digit_upper :: "nat \<Rightarrow> char" where
  "hex_digit_upper d = char_of (if d < 10 then 48 + d else 55 + d)"

definition hex4 :: "nat \<Rightarrow> string" where
  "hex4 x = map (\<lambda>i. hex_digit_upper (x div 16 ^ i mod 16)) [3, 2, 1, 0]"

section \<open>Decoding\<close>

definition digit :: "bytes \<Rightarrow> string \<Rightarrow> nat \<Rightarrow> int saci_result" where
  "digit raw column i =
     (let raw_digit = i16_of (raw ! (8 + 2 * i)) (raw ! (9 + 2 * i)) in
      if 0 \<le> raw_digit \<and> raw_digit < 10000 then Inr raw_digit
      else Inl (column_error column (''numeric digit group '' @ dec_string i @ '' is '' @
        int_string raw_digit @ '', outside 0..=9999'')))"

fun fold_digits :: "(nat \<Rightarrow> int saci_result) \<Rightarrow> saci_error \<Rightarrow> nat list \<Rightarrow> int \<Rightarrow> int saci_result" where
  "fold_digits dg ov [] v = Inr v"
| "fold_digits dg ov (i # is) v =
     res_bind (dg i) (\<lambda>d.
       case checked_mul_add v 10000 d of
         None \<Rightarrow> Inl ov
       | Some v' \<Rightarrow> fold_digits dg ov is v')"

primrec mul_tens :: "saci_error \<Rightarrow> nat \<Rightarrow> int \<Rightarrow> int saci_result" where
  "mul_tens ov 0 v = Inr v"
| "mul_tens ov (Suc k) v =
     (if v = 0 then Inr v
      else case checked (v * 10) of None \<Rightarrow> Inl ov | Some v' \<Rightarrow> mul_tens ov k v')"

fun all_zero_groups :: "(nat \<Rightarrow> int saci_result) \<Rightarrow> saci_error \<Rightarrow> nat list \<Rightarrow> unit saci_result" where
  "all_zero_groups dg inexact [] = Inr ()"
| "all_zero_groups dg inexact (i # is) =
     res_bind (dg i) (\<lambda>d. if d \<noteq> 0 then Inl inexact else all_zero_groups dg inexact is)"

definition scale_up :: "(nat \<Rightarrow> int saci_result) \<Rightarrow> saci_error \<Rightarrow> nat \<Rightarrow> nat \<Rightarrow> int saci_result" where
  "scale_up dg ov n exponent = res_bind (fold_digits dg ov [0..<n] 0) (mul_tens ov exponent)"

definition scale_down ::
    "(nat \<Rightarrow> int saci_result) \<Rightarrow> saci_error \<Rightarrow> saci_error \<Rightarrow> nat \<Rightarrow> nat \<Rightarrow> int saci_result" where
  "scale_down dg ov inexact n shift =
     (let dropped_groups = shift div 4; kept = n - dropped_groups in
      res_bind (all_zero_groups dg inexact [kept..<n]) (\<lambda>_.
        if kept > 0 then
          let divisor = 10 ^ (shift mod 4) in
          res_bind (fold_digits dg ov [0..<kept - 1] 0) (\<lambda>v.
          res_bind (dg (kept - 1)) (\<lambda>lst.
            if lst mod divisor \<noteq> 0 then Inl inexact
            else case checked_mul_add v (10000 div divisor) (lst div divisor) of
              None \<Rightarrow> Inl ov
            | Some v' \<Rightarrow> Inr v'))
        else Inr 0))"

definition numeric_to_i128 :: "bytes \<Rightarrow> int \<Rightarrow> string \<Rightarrow> int saci_result" where
  "numeric_to_i128 raw target_scale column =
     (if length raw < 8
      then Inl (column_error column (''numeric value is '' @ dec_string (length raw) @
        '' bytes, expected at least the 8-byte header''))
      else
        let ndigits = i16_of (raw ! 0) (raw ! 1);
            weight = i16_of (raw ! 2) (raw ! 3);
            sign = u16_of (raw ! 4) (raw ! 5);
            dscale = u16_of (raw ! 6) (raw ! 7)
        in if sign = SIGN_NAN
           then Inl (column_error column ''numeric NaN has no decimal128 representation; select the column with a ::text cast and declare type = \"utf8\" to carry it'')
           else if sign = SIGN_PINF \<or> sign = SIGN_NINF
           then Inl (column_error column (''numeric '' @ (if sign = SIGN_PINF then ''+'' else ''-'') @
             ''Infinity has no decimal128 representation; select the column with a ::text cast and declare type = \"utf8\" to carry it''))
           else if sign \<noteq> SIGN_POS \<and> sign \<noteq> SIGN_NEG
           then Inl (column_error column (''numeric sign field 0x'' @ hex4 sign @ '' is not a known sign code''))
           else if ndigits < 0
           then Inl (column_error column (''numeric ndigits is negative ('' @ int_string ndigits @ '')''))
           else
             let n = nat ndigits in
             if length raw \<noteq> 8 + 2 * n
             then Inl (column_error column (''numeric value is '' @ dec_string (length raw) @
               '' bytes, expected '' @ dec_string (8 + 2 * n) @ '' for '' @ dec_string n @ '' digit group(s)''))
             else if target_scale < 0
             then Inl (column_error column (''declared decimal128 scale '' @ int_string target_scale @ '' is negative''))
             else if int dscale > target_scale
             then Inl (column_error column (''numeric value carries '' @ dec_string dscale @
               '' fractional digit(s) but the declared decimal128 scale is '' @ int_string target_scale @
               ''; raise '' @ quoted ''scale'' @ '' to keep the value exact''))
             else
               let overflow = column_error column (''numeric value does not fit a decimal128 at scale '' @
                     int_string target_scale);
                   inexact = column_error column (''numeric value needs more than '' @
                     int_string target_scale @ '' fractional digit(s); raise '' @ quoted ''scale'' @
                     '' to keep the value exact'');
                   exponent = 4 * (weight - int n + 1) + target_scale
               in res_bind
                    (if exponent \<ge> 0 then scale_up (digit raw column) overflow n (nat exponent)
                     else scale_down (digit raw column) overflow inexact n (nat (- exponent)))
                    (\<lambda>value. Inr (if sign = SIGN_NEG then - value else value)))"

section \<open>Decoding the text form\<close>

text \<open>The loop over the bytes: the digits read so far and their value.\<close>

fun read_digits :: "saci_error \<Rightarrow> saci_error \<Rightarrow> string \<Rightarrow> nat \<Rightarrow> int \<Rightarrow> (nat \<times> int) saci_result" where
  "read_digits bad big [] digits v = Inr (digits, v)"
| "read_digits bad big (c # cs) digits v =
     (if c = CHR '','' \<or> c = CHR ''_'' \<or> c = CHR '' '' then read_digits bad big cs digits v
      else if \<not> is_digit c then Inl bad
      else case checked_mul_add v 10 (digit_value c) of
        None \<Rightarrow> Inl big
      | Some v' \<Rightarrow> read_digits bad big cs (digits + 1) v')"

primrec pad_tens :: "saci_error \<Rightarrow> nat \<Rightarrow> int \<Rightarrow> int saci_result" where
  "pad_tens big 0 v = Inr v"
| "pad_tens big (Suc k) v =
     (case checked (v * 10) of None \<Rightarrow> Inl big | Some v' \<Rightarrow> pad_tens big k v')"

definition strip_sign :: "string \<Rightarrow> string" where
  "strip_sign s = (case s of c # cs \<Rightarrow> if c = CHR ''-'' \<or> c = CHR ''+'' then cs else s | [] \<Rightarrow> s)"

definition numeric_text_to_i128 :: "string \<Rightarrow> int \<Rightarrow> string \<Rightarrow> int saci_result" where
  "numeric_text_to_i128 text target_scale column =
     (let trimmed = trim text in
      if eq_ignore_case trimmed ''nan''
      then Inl (column_error column ''numeric NaN has no decimal128 representation; declare type = \"utf8\" to carry it'')
      else
        let unsigned = strip_sign trimmed in
        if eq_ignore_case unsigned ''infinity'' \<or> eq_ignore_case unsigned ''inf''
        then Inl (column_error column (''numeric '' @ trimmed @
          '' has no decimal128 representation; declare type = \"utf8\" to carry it''))
        else
          let negative = (trimmed \<noteq> [] \<and> hd trimmed = CHR ''-'');
              (integer, fraction) = (case split_once (CHR ''.'') unsigned of
                 Some p \<Rightarrow> p | None \<Rightarrow> (unsigned, []));
              bad = column_error column (quoted trimmed @ '' is not a numeric value'');
              big = column_error column (''numeric '' @ trimmed @ '' does not fit a 128-bit decimal'')
          in res_bind (read_digits bad big (integer @ fraction) 0 0) (\<lambda>(digits, value).
             if digits = 0 then Inl bad
             else
               let fraction_digits = length (filter is_digit fraction);
                   target = nat target_scale
               in if fraction_digits > target
                  then Inl (column_error column (''numeric '' @ trimmed @ '' carries '' @
                    dec_string fraction_digits @ '' fractional digit(s) but the declared scale is '' @
                    int_string target_scale @ ''; widen '' @ quoted ''scale'' @ '' rather than lose digits''))
                  else res_bind
                    (pad_tens (column_error column (''numeric '' @ trimmed @
                       '' does not fit a 128-bit decimal at scale '' @ int_string target_scale))
                       (target - fraction_digits) value)
                    (\<lambda>v. Inr (if negative then - v else v))))"

section \<open>Encoding\<close>

text \<open>
  The decimal digits of the magnitude, least significant first, as the encoder's loop collects
  them behind the padding; the arrays of the source are large enough for every \<^verbatim>\<open>i128\<close>.
\<close>

fun lsd_digits :: "nat \<Rightarrow> nat list" where
  "lsd_digits m = (if m = 0 then [] else m mod 10 # lsd_digits (m div 10))"

declare lsd_digits.simps [simp del]

definition pack_group :: "nat list \<Rightarrow> nat \<Rightarrow> nat" where
  "pack_group lsd grp =
     sum_list (map (\<lambda>off. if 4 * grp + off < length lsd then lsd ! (4 * grp + off) * 10 ^ off else 0)
       [0..<4])"

text \<open>Dropping a leading zero group lowers the weight, dropping a trailing one does not.\<close>

definition strip_leading :: "nat list \<Rightarrow> int \<Rightarrow> nat list \<times> int" where
  "strip_leading gs weight =
     (let rest = dropWhile (\<lambda>d. d = 0) gs in (rest, weight - int (length gs - length rest)))"

definition strip_trailing :: "nat list \<Rightarrow> nat list" where
  "strip_trailing gs = rev (dropWhile (\<lambda>d. d = 0) (rev gs))"

definition i128_to_numeric :: "int \<Rightarrow> int \<Rightarrow> bytes" where
  "i128_to_numeric value scale0 =
     (let scale_digits = nat (max scale0 0);
          pad = (4 - scale_digits mod 4) mod 4;
          lsd = replicate pad 0 @ lsd_digits (nat \<bar>value\<bar>);
          groups = (length lsd + 3) div 4;
          fraction_groups = (scale_digits + pad) div 4;
          digits = rev (map (pack_group lsd) [0..<groups]);
          (gs, weight) = strip_leading digits (int groups - 1 - int fraction_groups);
          gs' = strip_trailing gs;
          (weight', sign) = (if gs' = [] then (0, SIGN_POS)
             else (weight, if value < 0 then SIGN_NEG else SIGN_POS))
      in put_i16 (int (length gs')) @ put_i16 weight' @ put_u16 sign @ put_u16 scale_digits @
         concat (map (\<lambda>d. put_i16 (int d)) gs'))"

definition money_factor :: "int \<Rightarrow> string + int" where
  "money_factor scale =
     (if scale - 2 < 0
      then Inl (''money keeps 2 fractional digits, so scale '' @ int_string scale @
        '' would lose them; declare scale = 2 or wider'')
      else case checked (10 ^ nat (scale - 2)) of
        Some x \<Rightarrow> Inr x
      | None \<Rightarrow> Inl (''scale '' @ int_string scale @ '' is too wide to rescale money into''))"

end
