(* ===== verification/Numeric_Properties.thy ===== *)
theory Numeric_Properties
  imports Numeric
begin

text \<open>
  The decoder accepts exactly the wire values that are representable at the declared scale, and
  decodes them without losing a digit; the encoder is its right inverse.
\<close>

section \<open>Folding digit groups\<close>

definition mantissa :: "(nat \<Rightarrow> int) \<Rightarrow> nat list \<Rightarrow> int \<Rightarrow> int" where
  "mantissa D is v = foldl (\<lambda>a i. a * 10000 + D i) v is"

lemma mantissa_simps [simp]:
  "mantissa D [] v = v" "mantissa D (i # is) v = mantissa D is (v * 10000 + D i)"
  "mantissa D (is @ [i]) v = mantissa D is v * 10000 + D i"
  by (simp_all add: mantissa_def)

lemma mantissa_shift: "mantissa D is v = v * 10000 ^ length is + mantissa D is 0"
proof (induction "is" rule: rev_induct)
  case (snoc i "is")
  then show ?case by (simp add: algebra_simps)
qed simp

lemma mantissa_bounds:
  assumes "\<forall>i\<in>set is. 0 \<le> D i \<and> D i < 10000"
  shows "0 \<le> mantissa D is 0 \<and> mantissa D is 0 < 10000 ^ length is"
  using assms by (induction "is" rule: rev_induct) auto

lemma mantissa_ge:
  assumes "\<forall>i\<in>set is. 0 \<le> D i \<and> D i < 10000" "0 \<le> v"
  shows "v \<le> mantissa D is v"
proof -
  have "v * 1 \<le> v * 10000 ^ length is" using assms(2) by (intro mult_left_mono) auto
  then show ?thesis using mantissa_shift [of D "is" v] mantissa_bounds [OF assms(1)] by simp
qed

lemma mantissa_append: "mantissa D (is @ js) v = mantissa D js (mantissa D is v)"
  by (simp add: mantissa_def)

lemma mantissa_zero_iff:
  assumes "\<forall>i\<in>set is. 0 \<le> D i \<and> D i < 10000"
  shows "mantissa D is 0 = 0 \<longleftrightarrow> (\<forall>i\<in>set is. D i = 0)"
  using assms
proof (induction "is" rule: rev_induct)
  case (snoc i "is")
  then have "0 \<le> mantissa D is 0" "0 \<le> D i" using mantissa_bounds [of "is" D] by auto
  then show ?case using snoc by auto
qed simp

lemma fold_digits_value:
  assumes "\<forall>i\<in>set is. dg i = Inr (D i) \<and> 0 \<le> D i \<and> D i < 10000" "0 \<le> v" "v \<le> i128_max"
  shows "fold_digits dg ov is v =
     (if mantissa D is v \<le> i128_max then Inr (mantissa D is v) else Inl ov)"
  using assms
proof (induction "is" arbitrary: v)
  case (Cons i "is")
  let ?v = "v * 10000 + D i"
  have d: "dg i = Inr (D i)" "0 \<le> D i" "D i < 10000" using Cons.prems(1) by auto
  have ge: "?v \<le> mantissa D is ?v" using Cons.prems d by (intro mantissa_ge) auto
  have "i128_min \<le> 0" by (simp add: i128_min_def)
  then have c: "checked_mul_add v 10000 (D i) = (if ?v \<le> i128_max then Some ?v else None)"
    using d Cons.prems(2) by (auto simp: checked_mul_add_def checked_def)
  show ?case
  proof (cases "?v \<le> i128_max")
    case True
    then show ?thesis using Cons.IH [of ?v] Cons.prems d c by simp
  next
    case False
    then show ?thesis using ge d c by simp
  qed
qed simp

lemma mul_tens_value:
  "0 \<le> v \<Longrightarrow> v \<le> i128_max \<Longrightarrow>
     mul_tens ov k v = (if v * 10 ^ k \<le> i128_max then Inr (v * 10 ^ k) else Inl ov)"
proof (induction k arbitrary: v)
  case (Suc k)
  have mn: "i128_min \<le> 0" by (simp add: i128_min_def)
  show ?case
  proof (cases "v * 10 \<le> i128_max")
    case True
    then show ?thesis using Suc mn by (auto simp: checked_def algebra_simps)
  next
    case False
    have "v * 10 * 1 \<le> v * 10 * 10 ^ k" using Suc.prems by (intro mult_left_mono) auto
    then have "\<not> v * 10 ^ Suc k \<le> i128_max" using False unfolding power_Suc mult.assoc by linarith
    moreover have "v \<noteq> 0" using False by (auto simp: i128_max_def)
    ultimately show ?thesis using False by (simp add: checked_def)
  qed
qed simp

lemma all_zero_groups_value:
  assumes "\<forall>i\<in>set is. dg i = Inr (D i)"
  shows "all_zero_groups dg inexact is = (if \<forall>i\<in>set is. D i = 0 then Inr () else Inl inexact)"
  using assms by (induction "is") auto

section \<open>Scaling\<close>

lemma scale_up_value:
  assumes "\<forall>i<n. dg i = Inr (D i) \<and> 0 \<le> D i \<and> D i < 10000"
  shows "scale_up dg ov n e =
     (if mantissa D [0..<n] 0 * 10 ^ e \<le> i128_max then Inr (mantissa D [0..<n] 0 * 10 ^ e) else Inl ov)"
proof -
  let ?m = "mantissa D [0..<n] 0"
  have m: "0 \<le> ?m" using mantissa_bounds [of "[0..<n]" D] assms by auto
  have f: "fold_digits dg ov [0..<n] 0 = (if ?m \<le> i128_max then Inr ?m else Inl ov)"
    by (rule fold_digits_value) (use assms in \<open>auto simp: i128_max_def\<close>)
  have "?m * 1 \<le> ?m * 10 ^ e" using m by (intro mult_left_mono) auto
  then show ?thesis unfolding scale_up_def f using m by (auto simp: mul_tens_value)
qed

lemma ten_power_divides:
  assumes "r < 4"
  shows "0 < (10 :: int) ^ r" "10000 div (10 :: int) ^ r * 10 ^ r = 10000" "1 \<le> 10000 div (10 :: int) ^ r"
proof -
  have "r = 0 \<or> r = 1 \<or> r = 2 \<or> r = 3" using assms by auto
  then show "0 < (10 :: int) ^ r" "10000 div (10 :: int) ^ r * 10 ^ r = 10000"
    "1 \<le> 10000 div (10 :: int) ^ r" by auto
qed

text \<open>The division by a power of ten distributes over the last group.\<close>

lemma last_group_exact:
  fixes A L t c :: int
  assumes "0 < t" "c * t = 10000"
  shows "v * t = A * 10000 + L \<longleftrightarrow> L mod t = 0 \<and> v = A * c + L div t"
proof
  assume e: "v * t = A * 10000 + L"
  have "A * 10000 = A * c * t" by (simp only: mult.assoc assms(2))
  then have L: "L = (v - A * c) * t" using e by (simp only: left_diff_distrib)
  then have "L div t = v - A * c" using assms(1) by simp
  then show "L mod t = 0 \<and> v = A * c + L div t" using L by simp
next
  assume a: "L mod t = 0 \<and> v = A * c + L div t"
  then have "L div t * t = L" by auto
  then show "v * t = A * 10000 + L" using a by (simp add: distrib_right mult.assoc assms(2))
qed

lemma checked_last_group:
  assumes "0 \<le> A" "0 \<le> c" "0 \<le> x"
  shows "checked_mul_add A c x = (if A * c + x \<le> i128_max then Some (A * c + x) else None)"
proof -
  have "0 \<le> A * c" using assms by simp
  then show ?thesis using assms(3) by (auto simp: checked_mul_add_def checked_def i128_min_def)
qed

lemma small_multiple_zero:
  fixes v m t :: int
  assumes "0 \<le> m" "m < t"
  shows "v * t = m \<and> 0 \<le> v \<longleftrightarrow> v = 0 \<and> m = 0"
proof
  assume a: "v * t = m \<and> 0 \<le> v"
  have "\<not> 1 \<le> v"
  proof
    assume "1 \<le> v"
    then have "1 * t \<le> v * t" using assms by (intro mult_right_mono) auto
    then show False using a assms by simp
  qed
  then show "v = 0 \<and> m = 0" using a by auto
qed auto

lemma scale_down_value:
  assumes D: "\<forall>i<n. dg i = Inr (D i) \<and> 0 \<le> D i \<and> D i < 10000"
  shows "scale_down dg ov inexact n s = Inr v \<longleftrightarrow>
     0 \<le> v \<and> v \<le> i128_max \<and> v * 10 ^ s = mantissa D [0..<n] 0"
proof -
  define q r where "q = s div 4" and "r = s mod 4"
  have s: "s = 4 * q + r" "r < 4" by (simp_all add: q_def r_def)
  have tens: "(10 :: int) ^ s = 10000 ^ q * 10 ^ r" by (simp add: s power_add power_mult)
  let ?k = "n - q"
  let ?m = "mantissa D [0..<n] 0" and ?Z = "mantissa D [?k..<n] 0"
  have b: "\<forall>i\<in>set [0..<n]. 0 \<le> D i \<and> D i < 10000" "\<forall>i\<in>set [?k..<n]. 0 \<le> D i \<and> D i < 10000"
    using D by auto
  have Z: "all_zero_groups dg inexact [?k..<n] = (if ?Z = 0 then Inr () else Inl inexact)"
    unfolding mantissa_zero_iff [OF b(2)] by (rule all_zero_groups_value) (use D in auto)
  have upt: "[0..<n] = [0..<?k] @ [?k..<n]" using upt_add_eq_append [of 0 ?k "n - ?k"] by simp
  have split: "?m = mantissa D [0..<?k] 0 * 10000 ^ (n - ?k) + ?Z"
    unfolding upt mantissa_append using mantissa_shift [of D "[?k..<n]" "mantissa D [0..<?k] 0"] by simp
  show ?thesis
  proof (cases "?k = 0")
    case True
    have "(10000 :: int) ^ n * 1 \<le> 10000 ^ q * 10 ^ r"
      using True by (intro mult_mono power_increasing) auto
    then have "0 \<le> ?m" "?m < 10 ^ s" using mantissa_bounds [OF b(1)] unfolding tens by simp_all
    then have "v * 10 ^ s = ?m \<and> 0 \<le> v \<longleftrightarrow> v = 0 \<and> ?m = 0" by (rule small_multiple_zero)
    moreover have "?Z = ?m" using True by simp
    moreover have "scale_down dg ov inexact n s = Inr v \<longleftrightarrow> ?Z = 0 \<and> v = 0"
      unfolding scale_down_def Let_def q_def [symmetric] Z using True by auto
    ultimately show ?thesis by (auto simp: i128_max_def)
  next
    case False
    define k1 where "k1 = ?k - 1"
    have k1: "Suc k1 = ?k" "k1 < n" using False by (simp_all add: k1_def)
    then have "[0..<?k] = [0..<k1] @ [k1]" using upt_Suc_append [OF zero_le, of k1] by (simp only:)
    moreover have nk: "n - ?k = q" using False by simp
    let ?A = "mantissa D [0..<k1] 0" and ?L = "D k1"
    let ?t = "10 ^ r :: int" and ?c = "10000 div 10 ^ r :: int"
    note t = ten_power_divides [OF s(2)]
    have L: "dg k1 = Inr ?L" "0 \<le> ?L" using D k1(2) by auto
    have A: "0 \<le> ?A" using mantissa_bounds [of "[0..<k1]" D] D k1(2) by auto
    ultimately have m: "?m = (?A * 10000 + ?L) * 10000 ^ q + ?Z" using split nk by simp
    have f: "fold_digits dg ov [0..<k1] 0 = (if ?A \<le> i128_max then Inr ?A else Inl ov)"
      by (rule fold_digits_value) (use D k1(2) in \<open>auto simp: i128_max_def\<close>)
    have Zb: "0 \<le> ?Z" "?Z < 10000 ^ q" using mantissa_bounds [OF b(2)] nk by simp_all
    have exact: "v * 10 ^ s = ?m \<longleftrightarrow> ?Z = 0 \<and> v * ?t = ?A * 10000 + ?L"
    proof
      assume e: "v * 10 ^ s = ?m"
      have "?m mod 10000 ^ q = 0" unfolding e [symmetric] tens by simp
      then have z: "?Z = 0" using Zb by (simp add: m)
      have "(v * ?t) * 10000 ^ q = (?A * 10000 + ?L) * 10000 ^ q"
        using e unfolding m z tens by (simp add: ac_simps)
      then show "?Z = 0 \<and> v * ?t = ?A * 10000 + ?L" using z by simp
    next
      assume e: "?Z = 0 \<and> v * ?t = ?A * 10000 + ?L"
      have "v * 10 ^ s = (v * ?t) * 10000 ^ q" unfolding tens by simp
      then show "v * 10 ^ s = ?m" using e unfolding m by simp
    qed
    have w: "v * ?t = ?A * 10000 + ?L \<longleftrightarrow> ?L mod ?t = 0 \<and> v = ?A * ?c + ?L div ?t"
      by (rule last_group_exact [OF t(1,2)])
    have x: "0 \<le> ?L div ?t" using L(2) t(1) by (simp add: pos_imp_zdiv_nonneg_iff)
    have Aw: "?A \<le> ?A * ?c + ?L div ?t" "0 \<le> ?A * ?c + ?L div ?t"
      using mult_left_mono [OF t(3) A] x A by linarith+
    have c: "checked_mul_add ?A ?c (?L div ?t) =
        (if ?A * ?c + ?L div ?t \<le> i128_max then Some (?A * ?c + ?L div ?t) else None)"
      by (rule checked_last_group) (use A t(3) x in linarith)+
    have "scale_down dg ov inexact n s = Inr v \<longleftrightarrow>
        ?Z = 0 \<and> ?A \<le> i128_max \<and> ?L mod ?t = 0 \<and> ?A * ?c + ?L div ?t \<le> i128_max \<and>
        v = ?A * ?c + ?L div ?t"
      unfolding scale_down_def Let_def q_def [symmetric] r_def [symmetric] k1_def [symmetric] Z f
      using False by (auto simp: L(1) c)
    then show ?thesis unfolding exact w using Aw by linarith
  qed
qed

section \<open>The wire form\<close>

text \<open>A \<^verbatim>\<open>numeric\<close> value: its digit groups, weight, sign and display scale, as the server sends it.\<close>

definition wire_numeric :: "nat list \<Rightarrow> int \<Rightarrow> bool \<Rightarrow> nat \<Rightarrow> bytes" where
  "wire_numeric gs weight neg dscale =
     put_i16 (int (length gs)) @ put_i16 weight @ put_u16 (if neg then SIGN_NEG else SIGN_POS) @
     put_u16 dscale @ concat (map (\<lambda>d. put_i16 (int d)) gs)"

definition wire_ok :: "nat list \<Rightarrow> int \<Rightarrow> nat \<Rightarrow> bool" where
  "wire_ok gs weight dscale \<longleftrightarrow> length gs < 32768 \<and> (\<forall>d\<in>set gs. d < 10000) \<and>
     - 32768 \<le> weight \<and> weight < 32768 \<and> dscale < 65536"

definition groups_value :: "nat list \<Rightarrow> int" where
  "groups_value gs = foldl (\<lambda>a d. a * 10000 + int d) 0 gs"

lemma put_u16_bytes: "put_u16 x = [word_of_nat (x div 256), word_of_nat x]"
  by (simp add: put_u16_def numeral_2_eq_2)

lemma put_i16_bytes: "put_i16 x = [word_of_nat (nat (x mod 65536) div 256), word_of_nat (nat (x mod 65536))]"
  by (simp add: put_i16_def numeral_2_eq_2)

lemma u16_of_bytes: "x < 65536 \<Longrightarrow> u16_of (word_of_nat (x div 256)) (word_of_nat x) = x"
  by (simp add: u16_of_def unat_of_nat)

lemma i16_of_bytes:
  assumes "- 32768 \<le> x" "x < 32768"
  shows "i16_of (word_of_nat (nat (x mod 65536) div 256)) (word_of_nat (nat (x mod 65536))) = x"
proof -
  have "nat (x mod 65536) < 65536" by simp
  then have "u16_of (word_of_nat (nat (x mod 65536) div 256)) (word_of_nat (nat (x mod 65536))) =
      nat (x mod 65536)" by (rule u16_of_bytes)
  moreover have "x mod 65536 = (if 0 \<le> x then x else x + 65536)"
  proof (cases "0 \<le> x")
    case False
    have "x mod 65536 = (x + 65536) mod 65536" by simp
    also have "\<dots> = x + 65536" using False assms(1) by (intro mod_pos_pos_trivial) auto
    finally show ?thesis using False by simp
  qed (use assms in simp)
  ultimately show ?thesis using assms by (simp add: i16_of_def Let_def)
qed

lemma length_put_i16 [simp]: "length (put_i16 x) = 2"
  by (simp add: put_i16_bytes)

definition put_groups :: "nat list \<Rightarrow> bytes" where
  "put_groups gs = concat (map (\<lambda>d. put_i16 (int d)) gs)"

lemma put_groups_simps [simp]: "put_groups [] = []" "put_groups (d # gs) = put_i16 (int d) @ put_groups gs"
  by (simp_all add: put_groups_def)

lemma length_put_groups [simp]: "length (put_groups gs) = 2 * length gs"
  by (induction gs) simp_all

lemma put_groups_nth:
  "i < length gs \<Longrightarrow> put_groups gs ! (2 * i) = put_i16 (int (gs ! i)) ! 0 \<and>
     put_groups gs ! Suc (2 * i) = put_i16 (int (gs ! i)) ! 1"
proof (induction gs arbitrary: i)
  case (Cons d gs)
  then show ?case by (cases i) (simp_all add: nth_append)
qed simp

definition group_of :: "nat list \<Rightarrow> nat \<Rightarrow> int" where
  "group_of gs i = int (gs ! i)"

lemma mantissa_groups: "mantissa (group_of gs) [0..<length gs] 0 = groups_value gs"
proof -
  have "foldl (\<lambda>a i. a * 10000 + int (gs ! i)) 0 [0..<n] = foldl (\<lambda>a d. a * 10000 + int d) 0 (take n gs)"
    if "n \<le> length gs" for n
    using that by (induction n) (auto simp: take_Suc_conv_app_nth)
  then show ?thesis by (simp add: mantissa_def groups_value_def group_of_def)
qed

lemma wire_digit:
  assumes "wire_ok gs weight dscale" "i < length gs"
  shows "digit (wire_numeric gs weight neg dscale) column i = Inr (group_of gs i)"
proof -
  have h: "wire_numeric gs weight neg dscale ! (8 + j) = put_groups gs ! j" for j
    by (simp add: wire_numeric_def put_groups_def [symmetric] put_u16_bytes nth_append)
  have d: "gs ! i < 10000" using assms by (auto simp: wire_ok_def)
  have "i16_of (wire_numeric gs weight neg dscale ! (8 + 2 * i))
      (wire_numeric gs weight neg dscale ! (9 + 2 * i)) = int (gs ! i)"
    using h [of "2 * i"] h [of "Suc (2 * i)"] put_groups_nth [OF assms(2)] d i16_of_bytes [of "int (gs ! i)"]
    by (simp add: put_i16_bytes)
  then show ?thesis using d by (simp add: digit_def Let_def group_of_def)
qed

lemma sign_codes:
  "SIGN_POS \<noteq> SIGN_NEG" "(if neg then SIGN_NEG else SIGN_POS) < 65536"
  "(if neg then SIGN_NEG else SIGN_POS) \<notin> {SIGN_NAN, SIGN_PINF, SIGN_NINF}"
  by (auto simp: SIGN_POS_def SIGN_NEG_def SIGN_NAN_def SIGN_PINF_def SIGN_NINF_def)

lemma wire_header:
  assumes "wire_ok gs weight dscale"
  shows "\<not> length (wire_numeric gs weight neg dscale) < 8"
    "length (wire_numeric gs weight neg dscale) = 8 + 2 * length gs"
    "i16_of (wire_numeric gs weight neg dscale ! 0) (wire_numeric gs weight neg dscale ! 1) =
       int (length gs)"
    "i16_of (wire_numeric gs weight neg dscale ! 2) (wire_numeric gs weight neg dscale ! 3) = weight"
    "u16_of (wire_numeric gs weight neg dscale ! 4) (wire_numeric gs weight neg dscale ! 5) =
       (if neg then SIGN_NEG else SIGN_POS)"
    "u16_of (wire_numeric gs weight neg dscale ! 6) (wire_numeric gs weight neg dscale ! 7) = dscale"
proof -
  show "length (wire_numeric gs weight neg dscale) = 8 + 2 * length gs"
    "\<not> length (wire_numeric gs weight neg dscale) < 8"
    by (simp_all add: wire_numeric_def put_groups_def [symmetric] put_u16_bytes)
  show "i16_of (wire_numeric gs weight neg dscale ! 0) (wire_numeric gs weight neg dscale ! 1) =
       int (length gs)"
    "i16_of (wire_numeric gs weight neg dscale ! 2) (wire_numeric gs weight neg dscale ! 3) = weight"
    using assms i16_of_bytes [of "int (length gs)"] i16_of_bytes [of weight]
    by (simp_all add: wire_numeric_def put_i16_bytes wire_ok_def)
  show "u16_of (wire_numeric gs weight neg dscale ! 4) (wire_numeric gs weight neg dscale ! 5) =
       (if neg then SIGN_NEG else SIGN_POS)"
    "u16_of (wire_numeric gs weight neg dscale ! 6) (wire_numeric gs weight neg dscale ! 7) = dscale"
    using assms u16_of_bytes [OF sign_codes(2) [of neg]] u16_of_bytes [of dscale]
    by (simp_all add: wire_numeric_def put_i16_bytes put_u16_bytes wire_ok_def)
qed

section \<open>Exactness\<close>

text \<open>The decoder's exponent: the value is the groups' integer times this power of ten.\<close>

definition wire_exponent :: "nat list \<Rightarrow> int \<Rightarrow> int \<Rightarrow> int" where
  "wire_exponent gs weight scale0 = 4 * (weight - int (length gs) + 1) + scale0"

definition scaled_exactly :: "int \<Rightarrow> int \<Rightarrow> int \<Rightarrow> bool" where
  "scaled_exactly m e a \<longleftrightarrow> (if 0 \<le> e then a = m * 10 ^ nat e else a * 10 ^ nat (- e) = m)"

lemma decode_magnitude:
  assumes ok: "wire_ok gs weight dscale"
  shows "(if e \<ge> 0 then scale_up (digit (wire_numeric gs weight neg dscale) column) ov (length gs) (nat e)
       else scale_down (digit (wire_numeric gs weight neg dscale) column) ov inexact (length gs) (nat (- e)))
       = Inr a \<longleftrightarrow> 0 \<le> a \<and> a \<le> i128_max \<and> scaled_exactly (groups_value gs) e a"
proof -
  have D: "\<forall>i<length gs. digit (wire_numeric gs weight neg dscale) column i = Inr (group_of gs i) \<and>
      0 \<le> group_of gs i \<and> group_of gs i < 10000"
    using ok wire_digit [OF ok] by (auto simp: wire_ok_def group_of_def)
  have "0 \<le> groups_value gs"
    using mantissa_bounds [of "[0..<length gs]" "group_of gs"] D by (simp add: mantissa_groups)
  then show ?thesis
    using scale_up_value [OF D, of ov "nat e"] scale_down_value [OF D, of ov inexact "nat (- e)" a]
    by (auto simp: scaled_exactly_def mantissa_groups)
qed

lemma numeric_decode_value:
  assumes ok: "wire_ok gs weight dscale" and s: "0 \<le> scale0"
  shows "numeric_to_i128 (wire_numeric gs weight neg dscale) scale0 column = Inr v \<longleftrightarrow>
     int dscale \<le> scale0 \<and> \<bar>v\<bar> \<le> i128_max \<and> (if neg then v \<le> 0 else 0 \<le> v) \<and>
     scaled_exactly (groups_value gs) (wire_exponent gs weight scale0) \<bar>v\<bar>"
proof -
  let ?raw = "wire_numeric gs weight neg dscale"
  let ?sign = "if neg then SIGN_NEG else SIGN_POS"
  have sg: "?sign \<noteq> SIGN_NAN" "?sign \<noteq> SIGN_PINF" "?sign \<noteq> SIGN_NINF"
      "\<not> (?sign \<noteq> SIGN_POS \<and> ?sign \<noteq> SIGN_NEG)" "?sign = SIGN_NEG \<longleftrightarrow> neg"
    using sign_codes by auto
  note w = wire_header [OF ok, of neg]
  have n: "\<not> int (length gs) < 0" "nat (int (length gs)) = length gs" by simp_all
  show ?thesis
  proof (cases "int dscale > scale0")
    case True
    then show ?thesis
      unfolding numeric_to_i128_def Let_def w(3-6) n using w(1,2) s sg by simp
  next
    case False
    have "numeric_to_i128 ?raw scale0 column = Inr v \<longleftrightarrow>
        (\<exists>a. 0 \<le> a \<and> a \<le> i128_max \<and>
          scaled_exactly (groups_value gs) (wire_exponent gs weight scale0) a \<and>
          (if neg then - a else a) = v)"
      unfolding numeric_to_i128_def Let_def w(3-6) n wire_exponent_def [symmetric]
      using w(1,2) s sg False by (simp add: res_bind_eq_Inr decode_magnitude [OF ok] conj_assoc)
    also have "\<dots> \<longleftrightarrow> \<bar>v\<bar> \<le> i128_max \<and> (if neg then v \<le> 0 else 0 \<le> v) \<and>
        scaled_exactly (groups_value gs) (wire_exponent gs weight scale0) \<bar>v\<bar>"
      by (cases neg) (auto intro!: exI [of _ "\<bar>v\<bar>"])
    finally show ?thesis using False by simp
  qed
qed

end
