(* ===== verification/Numeric_Roundtrip.thy ===== *)
theory Numeric_Roundtrip
  imports Numeric_Properties
begin

text \<open>
  The encoder: the groups it writes denote the value, so that decoding them at the same scale
  gives the value back.
\<close>

section \<open>Decimal digits\<close>

definition val10 :: "nat list \<Rightarrow> nat" where
  "val10 xs = foldr (\<lambda>d a. d + 10 * a) xs 0"

lemma val10_simps [simp]: "val10 [] = 0" "val10 (d # xs) = d + 10 * val10 xs"
  by (simp_all add: val10_def)

lemma val10_append: "val10 (xs @ ys) = val10 xs + 10 ^ length xs * val10 ys"
  by (induction xs) (auto simp: algebra_simps)

lemma val10_zeros: "val10 (replicate p 0 @ xs) = 10 ^ p * val10 xs"
  by (induction p) auto

lemma val10_less: "\<forall>d\<in>set xs. d < 10 \<Longrightarrow> val10 xs < 10 ^ length xs"
proof (induction xs)
  case (Cons d xs)
  then have "d + 10 * val10 xs < 10 * 10 ^ length xs" by fastforce
  then show ?case by simp
qed simp

lemma lsd_digits_0 [simp]: "lsd_digits 0 = []"
  by (subst lsd_digits.simps) simp

lemma val10_lsd_digits: "val10 (lsd_digits m) = m"
proof (induction m rule: lsd_digits.induct)
  case (1 m)
  then show ?case by (cases "m = 0") (simp_all add: lsd_digits.simps [of m])
qed

lemma lsd_digits_less: "d \<in> set (lsd_digits m) \<Longrightarrow> d < 10"
proof (induction m rule: lsd_digits.induct)
  case (1 m)
  then show ?case by (cases "m = 0") (auto simp: lsd_digits.simps [of m])
qed

lemma length_lsd_digits: "m < 10 ^ k \<Longrightarrow> length (lsd_digits m) \<le> k"
proof (induction k arbitrary: m)
  case 0
  then show ?case by (simp add: lsd_digits.simps)
next
  case (Suc k)
  then have "m div 10 < 10 ^ k" by (simp add: less_mult_imp_div_less mult.commute)
  then show ?case using Suc.IH [of "m div 10"] by (subst lsd_digits.simps) simp
qed

section \<open>Groups\<close>

lemma pack_group_drop:
  "pack_group lsd g = val10 (take 4 (drop (4 * g) lsd))"
proof -
  define ys where "ys = drop (4 * g) lsd"
  have len: "4 * g + off < length lsd \<longleftrightarrow> off < length ys" for off by (auto simp: ys_def)
  have nth: "off < length ys \<Longrightarrow> lsd ! (4 * g + off) = ys ! off" for off by (simp add: ys_def)
  have "pack_group lsd g = sum_list (map (\<lambda>off. if off < length ys then ys ! off * 10 ^ off else 0) [0..<4])"
    unfolding pack_group_def by (intro arg_cong [where f = sum_list] map_cong) (auto simp: len nth)
  also have "\<dots> = val10 (take 4 ys)"
  proof -
    have u: "[0..<4] = [0, 1, 2, 3]" by (simp add: upt_rec)
    consider "ys = []" | a where "ys = [a]" | a b where "ys = [a, b]" | a b c where "ys = [a, b, c]"
      | a b c d zs where "ys = a # b # c # d # zs"
      by (metis list.exhaust)
    then show ?thesis by cases (simp_all add: u numeral_2_eq_2 numeral_3_eq_3)
  qed
  finally show ?thesis by (simp add: ys_def)
qed

lemma pack_group_less: "\<forall>d\<in>set lsd. d < 10 \<Longrightarrow> pack_group lsd g < 10000"
proof -
  assume a: "\<forall>d\<in>set lsd. d < 10"
  let ?t = "take 4 (drop (4 * g) lsd)"
  have "\<forall>d\<in>set ?t. d < 10" using a by (meson in_set_dropD in_set_takeD)
  then have "val10 ?t < 10 ^ length ?t" by (rule val10_less)
  also have "\<dots> \<le> (10 :: nat) ^ 4" by (intro power_increasing) auto
  finally show ?thesis by (simp add: pack_group_drop)
qed

lemma groups_value_snoc: "groups_value (gs @ [d]) = groups_value gs * 10000 + int d"
  by (simp add: groups_value_def)

lemma groups_value_shift:
  "foldl (\<lambda>a d. a * 10000 + int d) a gs = a * 10000 ^ length gs + groups_value gs"
proof (induction gs rule: rev_induct)
  case (snoc d gs)
  have "foldl (\<lambda>a d. a * 10000 + int d) a (gs @ [d]) =
      (a * 10000 ^ length gs + groups_value gs) * 10000 + int d"
    by (simp only: snoc.IH [symmetric] foldl_append foldl_Cons foldl_Nil)
  then show ?case by (simp add: groups_value_snoc distrib_right)
qed (simp add: groups_value_def)

lemma groups_value_simps [simp]:
  "groups_value [] = 0" "groups_value (d # gs) = int d * 10000 ^ length gs + groups_value gs"
  using groups_value_shift [of "int d" gs] by (simp_all add: groups_value_def)

lemma groups_value_chunks:
  "groups_value (rev (map (pack_group lsd) [0..<k])) = int (val10 (take (4 * k) lsd))"
proof (induction k)
  case (Suc k)
  have "take (4 * Suc k) lsd = take (4 * k) lsd @ take 4 (drop (4 * k) lsd)"
    by (metis add.commute mult_Suc_right take_add)
  then have "val10 (take (4 * Suc k) lsd) = val10 (take (4 * k) lsd) +
      10 ^ length (take (4 * k) lsd) * val10 (take 4 (drop (4 * k) lsd))"
    by (simp only: val10_append)
  also have "10 ^ length (take (4 * k) lsd) * val10 (take 4 (drop (4 * k) lsd)) =
      10000 ^ k * val10 (take 4 (drop (4 * k) lsd))"
    by (cases "4 * k \<le> length lsd") (simp_all add: power_mult min_def)
  finally show ?case using Suc.IH by (simp add: pack_group_drop)
qed simp

section \<open>Stripping zero groups\<close>

lemma groups_value_dropWhile: "groups_value (dropWhile (\<lambda>d. d = 0) gs) = groups_value gs"
  by (induction gs) auto

lemma groups_value_strip_trailing:
  "groups_value (strip_trailing gs) * 10000 ^ (length gs - length (strip_trailing gs)) = groups_value gs \<and>
   length (strip_trailing gs) \<le> length gs"
proof (induction gs rule: rev_induct)
  case (snoc d gs)
  show ?case
  proof (cases "d = 0")
    case True
    then have st: "strip_trailing (gs @ [d]) = strip_trailing gs" by (simp add: strip_trailing_def)
    have "Suc (length gs) - length (strip_trailing gs) = Suc (length gs - length (strip_trailing gs))"
      using snoc by (simp add: Suc_diff_le)
    then show ?thesis using snoc True unfolding st groups_value_snoc
      by (simp add: mult.assoc [symmetric] mult.commute)
  next
    case False
    then have "strip_trailing (gs @ [d]) = gs @ [d]" by (simp add: strip_trailing_def)
    then show ?thesis by simp
  qed
qed (simp add: strip_trailing_def)

lemma set_strip_trailing: "set (strip_trailing gs) \<subseteq> set gs"
  by (auto simp: strip_trailing_def dest: set_dropWhileD)

section \<open>The encoder\<close>

definition enc_pad :: "nat \<Rightarrow> nat" where "enc_pad s = (4 - s mod 4) mod 4"

lemma enc_pad_le: "enc_pad s \<le> 3"
  by (simp add: enc_pad_def)

lemma enc_pad_dvd: "4 dvd s + enc_pad s"
proof -
  have "s mod 4 = 0 \<or> s mod 4 = 1 \<or> s mod 4 = 2 \<or> s mod 4 = 3" by linarith
  then have "(s mod 4 + enc_pad s) mod 4 = 0" by (auto simp: enc_pad_def)
  then show ?thesis by (simp add: mod_add_left_eq mod_0_imp_dvd)
qed

definition enc_lsd :: "int \<Rightarrow> nat \<Rightarrow> nat list" where
  "enc_lsd v s = replicate (enc_pad s) 0 @ lsd_digits (nat \<bar>v\<bar>)"

definition enc_all :: "int \<Rightarrow> nat \<Rightarrow> nat list" where
  "enc_all v s = rev (map (pack_group (enc_lsd v s)) [0..<(length (enc_lsd v s) + 3) div 4])"

definition enc_groups :: "int \<Rightarrow> nat \<Rightarrow> nat list" where
  "enc_groups v s = strip_trailing (dropWhile (\<lambda>d. d = 0) (enc_all v s))"

definition enc_weight :: "int \<Rightarrow> nat \<Rightarrow> int" where
  "enc_weight v s = int (length (enc_all v s)) - 1 - int ((s + enc_pad s) div 4) -
     int (length (enc_all v s) - length (dropWhile (\<lambda>d. d = 0) (enc_all v s)))"

lemma encode_wire:
  assumes "0 \<le> scale0"
  shows "i128_to_numeric v scale0 = wire_numeric (enc_groups v (nat scale0))
     (if enc_groups v (nat scale0) = [] then 0 else enc_weight v (nat scale0))
     (enc_groups v (nat scale0) \<noteq> [] \<and> v < 0) (nat scale0)"
  using assms
  by (simp add: i128_to_numeric_def wire_numeric_def Let_def strip_leading_def enc_groups_def
      enc_weight_def enc_all_def enc_lsd_def enc_pad_def max_def split: prod.split)

lemma enc_all_value: "groups_value (enc_all v s) = \<bar>v\<bar> * 10 ^ enc_pad s"
proof -
  let ?l = "enc_lsd v s"
  have "length ?l \<le> 4 * ((length ?l + 3) div 4)" by linarith
  then have "groups_value (enc_all v s) = int (val10 ?l)"
    by (simp add: enc_all_def groups_value_chunks)
  also have "val10 ?l = 10 ^ enc_pad s * nat \<bar>v\<bar>"
    by (simp add: enc_lsd_def val10_zeros val10_lsd_digits)
  finally show ?thesis by simp
qed

lemma enc_all_small:
  assumes "\<bar>v\<bar> \<le> 2 ^ 127"
  shows "length (enc_all v s) \<le> 11" "\<forall>d\<in>set (enc_all v s). d < 10000"
proof -
  have "nat \<bar>v\<bar> < 10 ^ 39"
  proof -
    have "\<bar>v\<bar> < 10 ^ 39" using assms by simp
    then show ?thesis by (simp add: nat_less_iff)
  qed
  then have "length (lsd_digits (nat \<bar>v\<bar>)) \<le> 39" by (rule length_lsd_digits)
  then have "length (enc_lsd v s) \<le> 42"
    using enc_pad_le [of s] by (simp add: enc_lsd_def)
  then show "length (enc_all v s) \<le> 11" by (simp add: enc_all_def)
  have "\<forall>d\<in>set (enc_lsd v s). d < 10" by (auto simp: enc_lsd_def dest: lsd_digits_less)
  then show "\<forall>d\<in>set (enc_all v s). d < 10000" by (auto simp: enc_all_def pack_group_less)
qed

lemma enc_wire_ok:
  assumes "\<bar>v\<bar> \<le> 2 ^ 127" "s \<le> 127"
  shows "wire_ok (enc_groups v s) (if enc_groups v s = [] then 0 else enc_weight v s) s"
proof -
  have len: "length (dropWhile (\<lambda>d. d = 0) (enc_all v s)) \<le> length (enc_all v s)"
    by (rule length_dropWhile_le)
  have "length (enc_groups v s) \<le> 11"
    using groups_value_strip_trailing [of "dropWhile (\<lambda>d. d = 0) (enc_all v s)"] len
      enc_all_small(1) [OF assms(1), of s] by (simp add: enc_groups_def)
  moreover have "\<forall>d\<in>set (enc_groups v s). d < 10000"
    using enc_all_small(2) [OF assms(1), of s] set_strip_trailing
    unfolding enc_groups_def by (meson set_dropWhileD subsetD)
  moreover have "(s + enc_pad s) div 4 \<le> 32" using assms(2) enc_pad_le [of s] by linarith
  then have "- 32768 \<le> enc_weight v s" "enc_weight v s < 32768"
    using enc_all_small(1) [OF assms(1), of s] len by (auto simp: enc_weight_def)
  ultimately show ?thesis using assms(2) by (simp add: wire_ok_def)
qed

lemma enc_exact:
  "scaled_exactly (groups_value (enc_groups v s))
     (wire_exponent (enc_groups v s) (if enc_groups v s = [] then 0 else enc_weight v s) (int s)) \<bar>v\<bar>"
proof -
  let ?all = "enc_all v s" and ?gs = "enc_groups v s"
  let ?mid = "dropWhile (\<lambda>d. d = 0) ?all"
  define trail where "trail = length ?mid - length ?gs"
  have st: "groups_value ?gs * 10000 ^ trail = groups_value ?mid" "length ?gs \<le> length ?mid"
    using groups_value_strip_trailing [of ?mid] by (simp_all add: enc_groups_def trail_def)
  then have eq: "groups_value ?gs * 10000 ^ trail = \<bar>v\<bar> * 10 ^ enc_pad s"
    by (simp add: groups_value_dropWhile enc_all_value)
  have F: "4 * ((s + enc_pad s) div 4) = s + enc_pad s" using enc_pad_dvd [of s] by simp
  have e: "wire_exponent ?gs (enc_weight v s) (int s) = 4 * int trail - int (enc_pad s)"
    using F st(2) length_dropWhile_le [of "\<lambda>d. d = 0" ?all]
    by (simp add: wire_exponent_def enc_weight_def trail_def)
  show ?thesis
  proof (cases "?gs = []")
    case True
    then have "\<bar>v\<bar> * 10 ^ enc_pad s = 0" using eq by simp
    then show ?thesis using True by (simp add: scaled_exactly_def wire_exponent_def)
  next
    case False
    have p: "(10000 :: int) ^ trail = 10 ^ (4 * trail)" by (simp add: power_mult)
    show ?thesis
    proof (cases "enc_pad s \<le> 4 * trail")
      case True
      then have "(10 :: int) ^ (4 * trail) = 10 ^ (4 * trail - enc_pad s) * 10 ^ enc_pad s"
        by (simp flip: power_add)
      then have "(groups_value ?gs * 10 ^ (4 * trail - enc_pad s)) * 10 ^ enc_pad s =
          \<bar>v\<bar> * 10 ^ enc_pad s"
        using eq p by (simp add: mult.assoc)
      moreover have "nat (4 * int trail - int (enc_pad s)) = 4 * trail - enc_pad s" by simp
      ultimately show ?thesis using False True by (simp add: scaled_exactly_def e)
    next
      case False
      then have "(10 :: int) ^ enc_pad s = 10 ^ (enc_pad s - 4 * trail) * 10 ^ (4 * trail)"
        by (simp flip: power_add)
      then have "(\<bar>v\<bar> * 10 ^ (enc_pad s - 4 * trail)) * 10 ^ (4 * trail) =
          groups_value ?gs * 10 ^ (4 * trail)"
        using eq p by (simp add: mult.assoc)
      moreover have "nat (- (4 * int trail - int (enc_pad s))) = enc_pad s - 4 * trail" by simp
      ultimately show ?thesis using False \<open>?gs \<noteq> []\<close> by (simp add: scaled_exactly_def e)
    qed
  qed
qed

lemma enc_empty_zero:
  assumes "enc_groups v s = []"
  shows "v = 0"
  using enc_exact [of v s] assms by (simp add: scaled_exactly_def wire_exponent_def)

lemma numeric_roundtrip_value:
  assumes "\<bar>v\<bar> \<le> 2 ^ 127" "0 \<le> scale0" "scale0 \<le> 127"
  shows "numeric_to_i128 (i128_to_numeric v scale0) scale0 column = Inr w \<longleftrightarrow>
     \<bar>v\<bar> \<le> i128_max \<and> w = v"
proof -
  let ?s = "nat scale0"
  have ok: "wire_ok (enc_groups v ?s) (if enc_groups v ?s = [] then 0 else enc_weight v ?s) ?s"
    by (rule enc_wire_ok) (use assms in simp_all)
  have s: "int ?s = scale0" using assms(2) by simp
  have u: "scaled_exactly m e a \<Longrightarrow> scaled_exactly m e b \<Longrightarrow> a = b" for m e a b
    by (auto simp: scaled_exactly_def split: if_splits)
  have ex: "scaled_exactly (groups_value (enc_groups v ?s))
      (wire_exponent (enc_groups v ?s) (if enc_groups v ?s = [] then 0 else enc_weight v ?s) scale0) \<bar>v\<bar>"
    using enc_exact [of v ?s] s by simp
  have "numeric_to_i128 (i128_to_numeric v scale0) scale0 column = Inr w \<longleftrightarrow>
      \<bar>w\<bar> \<le> i128_max \<and> (if enc_groups v ?s \<noteq> [] \<and> v < 0 then w \<le> 0 else 0 \<le> w) \<and> \<bar>w\<bar> = \<bar>v\<bar>"
  proof -
    have "scaled_exactly (groups_value (enc_groups v ?s)) (wire_exponent (enc_groups v ?s)
        (if enc_groups v ?s = [] then 0 else enc_weight v ?s) scale0) \<bar>w\<bar> \<longleftrightarrow> \<bar>w\<bar> = \<bar>v\<bar>"
      by (rule iffI, erule u [OF _ ex], simp only: ex)
    then show ?thesis
      unfolding encode_wire [OF assms(2)] numeric_decode_value [OF ok assms(2)] s
      by (simp only: order.refl simp_thms)
  qed
  also have "\<dots> \<longleftrightarrow> \<bar>v\<bar> \<le> i128_max \<and> w = v"
    using enc_empty_zero [of v ?s] by auto
  finally show ?thesis .
qed

text \<open>
  C31. The decoder is exact. On every well-formed \<^verbatim>\<open>numeric\<close> and every declared scale from 0, it
  returns \<open>v\<close> if and only if the wire value has at most that many fractional digits by its
  display scale, its sign is the sign of \<open>v\<close>, its magnitude times \<open>10 ^ scale\<close> is exactly the
  magnitude of \<open>v\<close>, and that magnitude is at most \<^verbatim>\<open>i128::MAX\<close>: no digit is ever dropped, and no
  representable value is refused by an intermediate overflow.
\<close>

theorem numeric_decode_exact:
  assumes "wire_ok gs weight dscale" "0 \<le> scale0"
  shows "numeric_to_i128 (wire_numeric gs weight neg dscale) scale0 column = Inr v \<longleftrightarrow>
     int dscale \<le> scale0 \<and> \<bar>v\<bar> \<le> i128_max \<and> (if neg then v \<le> 0 else 0 \<le> v) \<and>
     (let e = 4 * (weight - int (length gs) + 1) + scale0
      in if 0 \<le> e then \<bar>v\<bar> = groups_value gs * 10 ^ nat e
         else \<bar>v\<bar> * 10 ^ nat (- e) = groups_value gs)"
  using numeric_decode_value [OF assms, of neg column v]
  by (simp add: scaled_exactly_def wire_exponent_def Let_def)

theorem numeric_decode_exact_witness:
  "numeric_to_i128 (wire_numeric [12, 3400] 0 True 2) 3 ''amount'' = Inr (- 12340)"
  using numeric_decode_exact [of "[12, 3400]" 0 2 3 True "''amount''" "- 12340"]
  by (simp add: wire_ok_def groups_value_def i128_max_def Let_def)

text \<open>
  Encoding a 128-bit decimal at a scale and decoding it at the same scale gives the value
  back, for every value the type \<^verbatim>\<open>i128\<close> holds but its minimum, and every scale an \<^verbatim>\<open>i8\<close> holds
  from 0 on.
\<close>

theorem numeric_roundtrip:
  assumes "\<bar>v\<bar> \<le> i128_max" "0 \<le> scale0" "scale0 \<le> 127"
  shows "numeric_to_i128 (i128_to_numeric v scale0) scale0 column = Inr v"
  using numeric_roundtrip_value [of v scale0 column v] assms by (simp add: i128_max_def)

theorem numeric_roundtrip_witness:
  "numeric_to_i128 (i128_to_numeric (- 99999999999999999999999999999999999999) 10) 10 ''total'' =
     Inr (- 99999999999999999999999999999999999999)"
  using numeric_roundtrip [of "- 99999999999999999999999999999999999999" 10 "''total''"]
  by (simp add: i128_max_def)

text \<open>
  The minimum is encoded but not decoded: its magnitude does not fit the decoder's positive
  accumulator, although the comment of \<^verbatim>\<open>i128_to_numeric\<close> promises the round trip for every value.
\<close>

lemma numeric_minimum_refused:
  assumes "0 \<le> scale0" "scale0 \<le> 127"
  shows "\<not> (\<exists>w. numeric_to_i128 (i128_to_numeric i128_min scale0) scale0 column = Inr w)"
  using numeric_roundtrip_value [of i128_min scale0 column] assms by (simp add: i128_min_def i128_max_def)

end
