(* ===== verification/Numeric_Text.thy ===== *)
theory Numeric_Text
  imports Numeric
begin

text \<open>
  The text decoder: on a plain decimal text it returns exactly the scaled value, and refuses
  what does not fit or has too many fractional digits.
\<close>

definition plain_digits :: "string \<Rightarrow> bool" where
  "plain_digits s \<longleftrightarrow> (\<forall>c\<in>set s. is_digit c)"

definition decimal :: "string \<Rightarrow> int" where
  "decimal s = foldl (\<lambda>a c. a * 10 + digit_value c) 0 s"

lemma digit_bounds: "is_digit c \<Longrightarrow> 0 \<le> digit_value c \<and> digit_value c \<le> 9"
proof -
  assume "is_digit c"
  then have "48 \<le> (of_char c :: nat)" "(of_char c :: nat) \<le> 57" by (auto simp: is_digit_def)
  moreover have "digit_value c = int (of_char c) - 48" by (simp add: digit_value_def)
  ultimately show ?thesis by simp
qed

lemma digit_char: "is_digit c \<Longrightarrow> c \<noteq> CHR '','' \<and> c \<noteq> CHR ''_'' \<and> c \<noteq> CHR '' '' \<and> c \<noteq> CHR ''.'' \<and>
    c \<noteq> CHR ''-'' \<and> c \<noteq> CHR ''+'' \<and> \<not> is_white c"
  by (auto simp: is_digit_def is_white_def)

lemma decimal_from:
  "foldl (\<lambda>a c. a * 10 + digit_value c) v s = v * 10 ^ length s + decimal s"
proof (induction s rule: rev_induct)
  case (snoc c s)
  have "foldl (\<lambda>a c. a * 10 + digit_value c) v (s @ [c]) =
      (v * 10 ^ length s + decimal s) * 10 + digit_value c"
    by (simp only: snoc.IH [symmetric] foldl_append foldl_Cons foldl_Nil)
  then show ?case by (simp add: decimal_def distrib_right)
qed (simp add: decimal_def)

lemma decimal_nonneg: "plain_digits s \<Longrightarrow> 0 \<le> decimal s"
proof (induction s rule: rev_induct)
  case (snoc c s)
  then have "0 \<le> decimal s" "0 \<le> digit_value c" using digit_bounds by (auto simp: plain_digits_def)
  then show ?case by (simp add: decimal_def)
qed (simp add: decimal_def)

lemma fold_decimal_ge:
  assumes "plain_digits s" "0 \<le> v"
  shows "v \<le> foldl (\<lambda>a c. a * 10 + digit_value c) v s"
proof -
  have "v * 1 \<le> v * 10 ^ length s" using assms(2) by (intro mult_left_mono) auto
  then show ?thesis using decimal_from [of v s] decimal_nonneg [OF assms(1)] by simp
qed

lemma read_digits_value:
  assumes "plain_digits s" "0 \<le> v" "v \<le> i128_max"
  shows "read_digits bad big s n v =
     (if foldl (\<lambda>a c. a * 10 + digit_value c) v s \<le> i128_max
      then Inr (n + length s, foldl (\<lambda>a c. a * 10 + digit_value c) v s) else Inl big)"
  using assms
proof (induction s arbitrary: n v)
  case (Cons c s)
  let ?v = "v * 10 + digit_value c"
  have c: "is_digit c" "plain_digits s" using Cons.prems(1) by (auto simp: plain_digits_def)
  have d: "0 \<le> digit_value c" using digit_bounds [OF c(1)] by simp
  have ck: "checked_mul_add v 10 (digit_value c) = (if ?v \<le> i128_max then Some ?v else None)"
    using d Cons.prems(2) by (auto simp: checked_mul_add_def checked_def i128_min_def)
  have ge: "?v \<le> foldl (\<lambda>a c. a * 10 + digit_value c) ?v s"
    using fold_decimal_ge [OF c(2), of ?v] d Cons.prems(2) by simp
  show ?case
  proof (cases "?v \<le> i128_max")
    case True
    then show ?thesis using Cons.IH [OF c(2), of ?v "n + 1"] ck d Cons.prems(2) digit_char [OF c(1)] c(1)
      by simp
  next
    case False
    then show ?thesis using ge ck digit_char [OF c(1)] c(1) by simp
  qed
qed simp

lemma pad_tens_value:
  "0 \<le> v \<Longrightarrow> v \<le> i128_max \<Longrightarrow>
     pad_tens big k v = (if v * 10 ^ k \<le> i128_max then Inr (v * 10 ^ k) else Inl big)"
proof (induction k arbitrary: v)
  case (Suc k)
  show ?case
  proof (cases "v * 10 \<le> i128_max")
    case True
    then show ?thesis using Suc.IH [of "v * 10"] Suc.prems
      by (simp add: checked_def i128_min_def mult.assoc)
  next
    case False
    have "v * 10 * 1 \<le> v * 10 * 10 ^ k" using Suc.prems by (intro mult_left_mono) auto
    then have "\<not> v * 10 ^ Suc k \<le> i128_max" using False unfolding power_Suc mult.assoc by linarith
    then show ?thesis using False by (simp add: checked_def)
  qed
qed simp

section \<open>Plain texts\<close>

definition plain_text :: "bool \<Rightarrow> string \<Rightarrow> string \<Rightarrow> string" where
  "plain_text neg integer fraction = (if neg then ''-'' else []) @ integer @ ''.'' @ fraction"

lemma trim_id:
  assumes "s \<noteq> []" "\<not> is_white (hd s)" "\<not> is_white (last s)"
  shows "trim s = s"
proof -
  have "dropWhile is_white s = s" using assms(1,2) by (cases s) auto
  moreover have "dropWhile is_white (rev s) = rev s"
    using assms(1,3) by (cases s rule: rev_cases) auto
  ultimately show ?thesis by (simp add: trim_def)
qed

lemma white_sign: "\<not> is_white (CHR ''-'')" "\<not> is_white (CHR ''.'')"
  by (simp_all add: is_white_def)

lemma plain_text_trim:
  assumes "plain_digits integer" "plain_digits fraction"
  shows "trim (plain_text neg integer fraction) = plain_text neg integer fraction"
proof (rule trim_id)
  show "plain_text neg integer fraction \<noteq> []" by (simp add: plain_text_def)
  show "\<not> is_white (hd (plain_text neg integer fraction))"
    using assms(1) digit_char white_sign by (cases integer) (auto simp: plain_text_def plain_digits_def)
  show "\<not> is_white (last (plain_text neg integer fraction))"
    using assms(2) digit_char white_sign
    by (cases fraction rule: rev_cases) (auto simp: plain_text_def plain_digits_def)
qed

lemma lower_dot: "ascii_lower (CHR ''.'') = CHR ''.''"
  by (simp add: ascii_lower_def)

lemma plain_text_not_word:
  assumes "CHR ''.'' \<in> set s" "CHR ''.'' \<notin> set (map ascii_lower w)"
  shows "\<not> eq_ignore_case s w"
proof
  assume "eq_ignore_case s w"
  moreover have "CHR ''.'' \<in> set (map ascii_lower s)"
    using assms(1) lower_dot by (metis image_eqI set_map)
  ultimately show False using assms(2) by (simp add: eq_ignore_case_def)
qed

lemma strip_sign_plain:
  assumes "plain_digits integer"
  shows "strip_sign (plain_text neg integer fraction) = integer @ ''.'' @ fraction"
  using assms digit_char by (cases integer) (auto simp: plain_text_def strip_sign_def plain_digits_def)

lemma split_once_plain:
  assumes "plain_digits integer"
  shows "split_once (CHR ''.'') (integer @ ''.'' @ fraction) = Some (integer, fraction)"
proof -
  have "\<forall>c\<in>set integer. c \<noteq> CHR ''.''" using assms digit_char by (auto simp: plain_digits_def)
  then show ?thesis by (simp add: split_once_def dropWhile_append takeWhile_append)
qed

lemma words_without_dot: "CHR ''.'' \<notin> set (map ascii_lower ''nan'')"
    "CHR ''.'' \<notin> set (map ascii_lower ''infinity'')" "CHR ''.'' \<notin> set (map ascii_lower ''inf'')"
  by (simp_all add: ascii_lower_def)

lemma hd_plain: "plain_digits integer \<Longrightarrow>
    (plain_text neg integer fraction \<noteq> [] \<and> hd (plain_text neg integer fraction) = CHR ''-'') = neg"
  using digit_char by (cases integer) (auto simp: plain_text_def plain_digits_def)

text \<open>
  On a text of an optional minus, integer digits, a point and fraction digits, the decoder
  returns \<open>v\<close> exactly when there are no more fraction digits than the declared scale and \<open>v\<close> is
  the number the text denotes times \<open>10 ^ scale\<close>, with a magnitude of at most \<^verbatim>\<open>i128::MAX\<close>.
\<close>

theorem numeric_text_exact:
  assumes "plain_digits integer" "plain_digits fraction" "integer @ fraction \<noteq> []" "0 \<le> scale0"
  shows "numeric_text_to_i128 (plain_text neg integer fraction) scale0 column = Inr v \<longleftrightarrow>
     int (length fraction) \<le> scale0 \<and> \<bar>v\<bar> \<le> i128_max \<and>
     v = (if neg then - 1 else 1) * decimal (integer @ fraction) * 10 ^ nat (scale0 - int (length fraction))"
proof -
  let ?t = "plain_text neg integer fraction" and ?m = "decimal (integer @ fraction)"
  have pd: "plain_digits (integer @ fraction)" using assms(1,2) by (auto simp: plain_digits_def)
  have dot: "CHR ''.'' \<in> set ?t" "CHR ''.'' \<in> set (integer @ ''.'' @ fraction)"
    by (auto simp: plain_text_def)
  have w: "\<not> eq_ignore_case ?t ''nan''" "\<not> eq_ignore_case (integer @ ''.'' @ fraction) ''infinity''"
      "\<not> eq_ignore_case (integer @ ''.'' @ fraction) ''inf''"
    using plain_text_not_word dot words_without_dot by blast+
  have m: "0 \<le> ?m" by (rule decimal_nonneg [OF pd])
  have rd: "read_digits bad big (integer @ fraction) 0 0 =
      (if ?m \<le> i128_max then Inr (length (integer @ fraction), ?m) else Inl big)" for bad big
    using read_digits_value [OF pd, of 0 bad big 0] by (simp add: decimal_def i128_max_def)
  have fd: "length (filter is_digit fraction) = length fraction"
    using assms(2) by (simp add: plain_digits_def)
  have k: "nat scale0 - length fraction = nat (scale0 - int (length fraction))" by simp
  let ?k = "nat (scale0 - int (length fraction))"
  have ge: "?m \<le> ?m * 10 ^ ?k"
    using m mult_left_mono [of 1 "10 ^ ?k" ?m] by simp
  have dec: "numeric_text_to_i128 ?t scale0 column = Inr v \<longleftrightarrow>
      length fraction \<le> nat scale0 \<and> ?m \<le> i128_max \<and> ?m * 10 ^ ?k \<le> i128_max \<and>
      (if neg then - (?m * 10 ^ ?k) else ?m * 10 ^ ?k) = v"
    unfolding numeric_text_to_i128_def Let_def plain_text_trim [OF assms(1,2)]
      strip_sign_plain [OF assms(1)] split_once_plain [OF assms(1)] hd_plain [OF assms(1)]
    using w m assms(3) by (auto simp: rd fd k pad_tens_value res_bind_eq_Inr)
  have "0 \<le> ?m * 10 ^ ?k" using m by simp
  then show ?thesis unfolding dec using ge assms(4) by auto
qed

theorem numeric_text_exact_witness:
  "numeric_text_to_i128 (plain_text True ''12'' ''34'') 3 ''price'' = Inr (- 12340)"
proof -
  have "is_digit (CHR ''1'')" "is_digit (CHR ''2'')" "is_digit (CHR ''3'')" "is_digit (CHR ''4'')"
    by (simp_all add: is_digit_def)
  moreover have "decimal ''1234'' = 1234" by (simp add: decimal_def digit_value_def)
  ultimately show ?thesis
    using numeric_text_exact [of "''12''" "''34''" 3 True "''price''" "- 12340"]
    by (simp add: plain_digits_def i128_max_def)
qed

end
