(* ===== verification/Wire.thy ===== *)
theory Wire
  imports Prelude
begin

text \<open>
  Two wire formats. The frames a \<^verbatim>\<open>saci\<close> sink and source exchange,
  \<^verbatim>\<open>saci-connector-saci/src/wire.rs\<close>, and the length-prefixed frames of the Raft transport,
  \<^verbatim>\<open>saci-service/src/distributed/consensus/transport/wire.rs\<close>. A Rust string is its UTF-8
  bytes. The encoding of an Arrow schema as an IPC message and its decoding are arguments. A
  function that appends to a caller's vector returns the vector, also on an error, where the
  source leaves what it has written so far.
\<close>

section \<open>UTF-8\<close>

definition cont :: "u8 \<Rightarrow> bool" where "cont b \<longleftrightarrow> 0x80 \<le> b \<and> b \<le> 0xBF"

text \<open>The byte sequences \<^verbatim>\<open>str::from_utf8\<close> accepts.\<close>

fun valid_utf8 :: "bytes \<Rightarrow> bool" where
  "valid_utf8 [] = True"
| "valid_utf8 (a # bs) =
     (if a < 0x80 then valid_utf8 bs
      else if 0xC2 \<le> a \<and> a \<le> 0xDF then
        (case bs of b # r \<Rightarrow> cont b \<and> valid_utf8 r | _ \<Rightarrow> False)
      else if 0xE0 \<le> a \<and> a \<le> 0xEF then
        (case bs of b # c # r \<Rightarrow>
           cont b \<and> (a = 0xE0 \<longrightarrow> 0xA0 \<le> b) \<and> (a = 0xED \<longrightarrow> b \<le> 0x9F) \<and> cont c \<and> valid_utf8 r
         | _ \<Rightarrow> False)
      else if 0xF0 \<le> a \<and> a \<le> 0xF4 then
        (case bs of b # c # d # r \<Rightarrow>
           cont b \<and> (a = 0xF0 \<longrightarrow> 0x90 \<le> b) \<and> (a = 0xF4 \<longrightarrow> b \<le> 0x8F) \<and> cont c \<and> cont d \<and> valid_utf8 r
         | _ \<Rightarrow> False)
      else False)"

section \<open>Frames of the saci connector\<close>

definition PROTOCOL_VERSION :: u8 where "PROTOCOL_VERSION = 1"
definition KIND_HELLO :: u8 where "KIND_HELLO = 1"
definition KIND_ACCEPT :: u8 where "KIND_ACCEPT = 2"
definition KIND_REJECT :: u8 where "KIND_REJECT = 3"
definition KIND_DATA :: u8 where "KIND_DATA = 4"

record node_identity =
  service :: bytes
  workflow :: bytes
  node :: bytes

datatype 'sch frame =
    Hello u8 node_identity 'sch
  | Accept
  | Reject bytes
  | Data "bytes option" bytes

fun frame_kind :: "'sch frame \<Rightarrow> u8" where
  "frame_kind (Hello _ _ _) = KIND_HELLO"
| "frame_kind Accept = KIND_ACCEPT"
| "frame_kind (Reject _) = KIND_REJECT"
| "frame_kind (Data _ _) = KIND_DATA"

definition too_long :: "nat \<Rightarrow> saci_error" where
  "too_long n = Generic (''saci wire: a string of '' @ dec_string n @ '' bytes does not fit the u16 length prefix'')"

definition too_big :: "nat \<Rightarrow> saci_error" where
  "too_big n = Generic (''saci wire: a frame of '' @ dec_string n @ '' bytes does not fit the u32 length prefix'')"

definition put_str :: "bytes \<Rightarrow> bytes \<Rightarrow> unit saci_result \<times> bytes" where
  "put_str out s =
     (if length s \<ge> 2 ^ 16 then (Inl (too_long (length s)), out)
      else (Inr (), out @ be_bytes 2 (length s) @ s))"

definition finish_length :: "bytes \<Rightarrow> nat \<Rightarrow> unit saci_result \<times> bytes" where
  "finish_length out start =
     (let body = length out - start - 4 in
      if body \<ge> 2 ^ 32 then (Inl (too_big body), out)
      else (Inr (), take start out @ be_bytes 4 body @ drop (start + 4) out))"

text \<open>Sequencing of appends; an error stops with what has been written.\<close>

definition and_then ::
    "unit saci_result \<times> bytes \<Rightarrow> (bytes \<Rightarrow> unit saci_result \<times> bytes) \<Rightarrow> unit saci_result \<times> bytes" where
  "and_then r f = (case r of (Inl e, out) \<Rightarrow> (Inl e, out) | (Inr _, out) \<Rightarrow> f out)"

fun encode_body :: "('sch \<Rightarrow> bytes) \<Rightarrow> bytes \<Rightarrow> 'sch frame \<Rightarrow> unit saci_result \<times> bytes" where
  "encode_body schema_bytes out (Hello v i s) =
     and_then (put_str (out @ [KIND_HELLO, v]) (service i)) (\<lambda>out.
     and_then (put_str out (workflow i)) (\<lambda>out.
     and_then (put_str out (node i)) (\<lambda>out.
       let bs = schema_bytes s in
       if length bs \<ge> 2 ^ 32 then (Inl (too_big (length bs)), out)
       else (Inr (), out @ be_bytes 4 (length bs) @ bs))))"
| "encode_body schema_bytes out Accept = (Inr (), out @ [KIND_ACCEPT])"
| "encode_body schema_bytes out (Reject r) = put_str (out @ [KIND_REJECT]) r"
| "encode_body schema_bytes out (Data tp ipc) =
     and_then (put_str (out @ [KIND_DATA]) (case tp of Some t \<Rightarrow> t | None \<Rightarrow> []))
       (\<lambda>out. (Inr (), out @ ipc))"

definition encode_frame :: "('sch \<Rightarrow> bytes) \<Rightarrow> bytes \<Rightarrow> 'sch frame \<Rightarrow> unit saci_result \<times> bytes" where
  "encode_frame schema_bytes out fr =
     (let start = length out in
      and_then (encode_body schema_bytes (out @ [0, 0, 0, 0]) fr) (\<lambda>out. finish_length out start))"

definition data_header :: "bytes option \<Rightarrow> nat \<Rightarrow> bytes saci_result" where
  "data_header traceparent ipc_len =
     (let tp = (case traceparent of Some t \<Rightarrow> t | None \<Rightarrow> []) in
      case put_str ([0, 0, 0, 0] @ [KIND_DATA]) tp of
        (Inl e, _) \<Rightarrow> Inl e
      | (Inr _, out) \<Rightarrow>
          let body = length out - 4 + ipc_len in
          if body \<ge> 2 ^ 32 then Inl (too_big body)
          else Inr (be_bytes 4 body @ drop 4 out))"

definition truncated :: saci_error where
  "truncated = Generic ''saci wire: truncated frame''"

definition take_u16 :: "bytes \<Rightarrow> nat \<Rightarrow> (nat \<times> nat) saci_result" where
  "take_u16 body at =
     (if at + 2 > length body then Inl truncated
      else Inr (from_be_bytes (take 2 (drop at body)), at + 2))"

definition take_u32 :: "bytes \<Rightarrow> nat \<Rightarrow> (nat \<times> nat) saci_result" where
  "take_u32 body at =
     (if at + 4 > length body then Inl truncated
      else Inr (from_be_bytes (take 4 (drop at body)), at + 4))"

definition take_str :: "bytes \<Rightarrow> nat \<Rightarrow> string \<Rightarrow> (bytes \<times> nat) saci_result" where
  "take_str body at fld =
     res_bind (take_u16 body at) (\<lambda>(len, at).
       if at + len > length body then Inl truncated
       else
         let s = take len (drop at body) in
         if \<not> valid_utf8 s then Inl (Generic (''saci wire: invalid UTF-8 in '' @ fld))
         else Inr (s, at + len))"

definition the_field :: "string \<Rightarrow> string \<Rightarrow> string" where
  "the_field owner fld = ''the '' @ owner @ [CHR 0x27] @ ''s '' @ fld"

definition decode_frame :: "(bytes \<Rightarrow> string + 'sch) \<Rightarrow> bytes \<Rightarrow> 'sch frame saci_result" where
  "decode_frame schema_from body =
     (case body of
        [] \<Rightarrow> Inl truncated
      | kind # _ \<Rightarrow>
          if kind = KIND_HELLO then
            (if 1 \<ge> length body then Inl truncated
             else
               let v = body ! 1 in
               res_bind (take_str body 2 (the_field ''hello'' ''service'')) (\<lambda>(svc, at).
               res_bind (take_str body at (the_field ''hello'' ''workflow'')) (\<lambda>(wf, at).
               res_bind (take_str body at (the_field ''hello'' ''sink'')) (\<lambda>(nd, at).
               res_bind (take_u32 body at) (\<lambda>(schema_len, at).
                 if at + schema_len > length body then Inl truncated
                 else case schema_from (take schema_len (drop at body)) of
                   Inl e \<Rightarrow> Inl (Generic (''saci wire: bad schema: '' @ e))
                 | Inr s \<Rightarrow> Inr (Hello v \<lparr>service = svc, workflow = wf, node = nd\<rparr> s))))))
          else if kind = KIND_ACCEPT then Inr Accept
          else if kind = KIND_REJECT then
            res_bind (take_str body 1 (the_field ''reject'' ''reason'')) (\<lambda>(r, at). Inr (Reject r))
          else if kind = KIND_DATA then
            res_bind (take_str body 1 (the_field ''data frame'' ''traceparent'')) (\<lambda>(tp, at).
              Inr (Data (if tp = [] then None else Some tp) (drop at body)))
          else Inl (Generic (''saci wire: unknown frame kind '' @ dec_string (unat kind))))"

definition hello_version :: "bytes \<Rightarrow> u8 option" where
  "hello_version body = (case body of k # v # _ \<Rightarrow> if k = KIND_HELLO then Some v else None | _ \<Rightarrow> None)"

section \<open>Frames of the Raft transport\<close>

text \<open>
  A stream is what its peer still sends before it closes: \<^verbatim>\<open>read_exact\<close> takes the number of
  bytes asked for, or fails at the end of the stream and consumes what was there.
\<close>

definition MAX_FRAME_BYTES :: nat where "MAX_FRAME_BYTES = 16 * 1024 * 1024"

datatype io_error = InvalidData nat | UnexpectedEof

definition read_exact :: "nat \<Rightarrow> bytes \<Rightarrow> bytes option \<times> bytes" where
  "read_exact n stream = (if length stream < n then (None, []) else (Some (take n stream), drop n stream))"

definition read_frame :: "bytes \<Rightarrow> (io_error + bytes option) \<times> bytes" where
  "read_frame stream =
     (case read_exact 4 stream of
        (None, rest) \<Rightarrow> (Inr None, rest)
      | (Some len_buf, rest) \<Rightarrow>
          let len = from_be_bytes len_buf in
          if len > MAX_FRAME_BYTES then (Inl (InvalidData len), rest)
          else case read_exact len rest of
            (None, rest') \<Rightarrow> (Inl UnexpectedEof, rest')
          | (Some payload, rest') \<Rightarrow> (Inr (Some payload), rest'))"

definition write_frame :: "bytes \<Rightarrow> bytes \<Rightarrow> (io_error + unit) \<times> bytes" where
  "write_frame stream dat =
     (if length dat > MAX_FRAME_BYTES then (Inl (InvalidData (length dat)), stream)
      else (Inr (), stream @ be_bytes 4 (length dat) @ dat))"

end
