(* ===== verification/Wire_Properties.thy ===== *)
theory Wire_Properties
  imports Wire
begin

text \<open>
  Round trips of the two wire formats, and the equivalence of the copying and the streaming
  encoder of a data frame.
\<close>

section \<open>Bodies\<close>

definition str_bytes :: "bytes \<Rightarrow> bytes" where
  "str_bytes s = be_bytes 2 (length s) @ s"

fun frame_body :: "('sch \<Rightarrow> bytes) \<Rightarrow> 'sch frame \<Rightarrow> bytes" where
  "frame_body sb (Hello v i s) = [KIND_HELLO, v] @ str_bytes (service i) @ str_bytes (workflow i) @
     str_bytes (node i) @ be_bytes 4 (length (sb s)) @ sb s"
| "frame_body sb Accept = [KIND_ACCEPT]"
| "frame_body sb (Reject r) = [KIND_REJECT] @ str_bytes r"
| "frame_body sb (Data tp ipc) = [KIND_DATA] @ str_bytes (case tp of Some t \<Rightarrow> t | None \<Rightarrow> []) @ ipc"

fun frame_strings :: "'sch frame \<Rightarrow> bytes list" where
  "frame_strings (Hello v i s) = [service i, workflow i, node i]"
| "frame_strings Accept = []"
| "frame_strings (Reject r) = [r]"
| "frame_strings (Data tp ipc) = [case tp of Some t \<Rightarrow> t | None \<Rightarrow> []]"

lemma put_str_ok: "length s < 2 ^ 16 \<Longrightarrow> put_str out s = (Inr (), out @ str_bytes s)"
  by (simp add: put_str_def str_bytes_def)

lemma put_str_bad: "\<not> length s < 2 ^ 16 \<Longrightarrow> put_str out s = (Inl (too_long (length s)), out)"
  by (simp add: put_str_def)

lemma and_then_simps [simp]:
  "and_then (Inr u, out) f = f out" "and_then (Inl e, out) f = (Inl e, out)"
  by (simp_all add: and_then_def)

lemma encode_body_ok:
  assumes "\<forall>s\<in>set (frame_strings fr). length s < 2 ^ 16" "length (frame_body sb fr) < 2 ^ 32"
  shows "encode_body sb out fr = (Inr (), out @ frame_body sb fr)"
  using assms by (cases fr) (simp_all add: put_str_ok Let_def)

lemma encode_body_error:
  assumes "\<not> (\<forall>s\<in>set (frame_strings fr). length s < 2 ^ 16)"
  shows "isl (fst (encode_body sb out fr))"
proof (cases fr)
  case (Hello v i s)
  then show ?thesis using assms
    by (cases "length (service i) < 2 ^ 16"; cases "length (workflow i) < 2 ^ 16";
        cases "length (node i) < 2 ^ 16")
       (simp_all add: put_str_ok put_str_bad)
qed (use assms in \<open>auto simp: put_str_bad\<close>)

lemma encode_body_big:
  assumes "\<forall>s\<in>set (frame_strings fr). length s < 2 ^ 16" "\<not> length (frame_body sb fr) < 2 ^ 32"
  shows "isl (fst (encode_body sb out fr)) \<or> encode_body sb out fr = (Inr (), out @ frame_body sb fr)"
  using assms by (cases fr) (auto simp: put_str_ok Let_def)

lemma finish_length_value:
  assumes "length pre = 4"
  shows "finish_length (out @ pre @ body) (length out) =
     (if length body < 2 ^ 32 then (Inr (), out @ be_bytes 4 (length body) @ body)
      else (Inl (too_big (length body)), out @ pre @ body))"
  using assms by (simp add: finish_length_def Let_def)

lemma encode_frame_value:
  "encode_frame sb out fr = (Inr (), out') \<longleftrightarrow>
     (\<forall>s\<in>set (frame_strings fr). length s < 2 ^ 16) \<and> length (frame_body sb fr) < 2 ^ 32 \<and>
     out' = out @ be_bytes 4 (length (frame_body sb fr)) @ frame_body sb fr"
proof -
  let ?pre = "[0, 0, 0, 0] :: bytes"
  consider (ok) "\<forall>s\<in>set (frame_strings fr). length s < 2 ^ 16" "length (frame_body sb fr) < 2 ^ 32"
    | (str) "\<not> (\<forall>s\<in>set (frame_strings fr). length s < 2 ^ 16)"
    | (big) "\<forall>s\<in>set (frame_strings fr). length s < 2 ^ 16" "\<not> length (frame_body sb fr) < 2 ^ 32"
    by blast
  then show ?thesis
  proof cases
    case ok
    then show ?thesis
      using encode_body_ok [OF ok, of "out @ ?pre"] finish_length_value [of ?pre out "frame_body sb fr"]
      by (auto simp: encode_frame_def Let_def)
  next
    case str
    obtain e o2 where "encode_body sb (out @ ?pre) fr = (Inl e, o2)"
      using encode_body_error [OF str, of sb "out @ ?pre"] by (metis isl_def prod.collapse)
    then show ?thesis using str by (auto simp: encode_frame_def Let_def)
  next
    case big
    from encode_body_big [OF big, of "out @ ?pre"] show ?thesis
    proof
      assume "isl (fst (encode_body sb (out @ ?pre) fr))"
      then obtain e o2 where "encode_body sb (out @ ?pre) fr = (Inl e, o2)" by (metis isl_def prod.collapse)
      then show ?thesis using big by (auto simp: encode_frame_def Let_def)
    next
      assume "encode_body sb (out @ ?pre) fr = (Inr (), (out @ ?pre) @ frame_body sb fr)"
      then show ?thesis using big finish_length_value [of ?pre out "frame_body sb fr"]
        by (auto simp: encode_frame_def Let_def)
    qed
  qed
qed

section \<open>Decoding\<close>

lemma take_u16_at:
  assumes "body = pre @ be_bytes 2 n @ rest" "n < 2 ^ 16"
  shows "take_u16 body (length pre) = Inr (n, length pre + 2)"
  using assms by (simp add: take_u16_def from_be_be_bytes)

lemma take_u32_at:
  assumes "body = pre @ be_bytes 4 n @ rest" "n < 2 ^ 32"
  shows "take_u32 body (length pre) = Inr (n, length pre + 4)"
  using assms by (simp add: take_u32_def from_be_be_bytes)

lemma take_str_at:
  assumes "body = pre @ str_bytes s @ rest" "length s < 2 ^ 16" "valid_utf8 s" "at = length pre"
  shows "take_str body at fld = Inr (s, length (pre @ str_bytes s))"
proof -
  have u: "take_u16 body (length pre) = Inr (length s, length pre + 2)"
    by (rule take_u16_at [of _ _ _ "s @ rest"]) (use assms in \<open>simp_all add: str_bytes_def\<close>)
  have "drop (length pre + 2) body = s @ rest" "\<not> length pre + 2 + length s > length body"
    using assms by (simp_all add: str_bytes_def)
  then show ?thesis using assms u by (simp add: take_str_def Let_def str_bytes_def)
qed

text \<open>What a decoded frame is: an empty trace context is none.\<close>

fun canonical :: "'sch frame \<Rightarrow> bool" where
  "canonical (Data tp ipc) = (tp \<noteq> Some [])"
| "canonical _ = True"

lemma drop_exact: "length xs = n \<Longrightarrow> drop n (xs @ ys) = ys"
  by auto

lemma kinds_distinct:
  "KIND_HELLO \<noteq> KIND_ACCEPT" "KIND_HELLO \<noteq> KIND_REJECT" "KIND_HELLO \<noteq> KIND_DATA"
  "KIND_ACCEPT \<noteq> KIND_REJECT" "KIND_ACCEPT \<noteq> KIND_DATA" "KIND_REJECT \<noteq> KIND_DATA"
  by (simp_all add: KIND_HELLO_def KIND_ACCEPT_def KIND_REJECT_def KIND_DATA_def)

lemma decode_hello_steps:
  assumes "b = KIND_HELLO # v # r"
    and "take_str b 2 (the_field ''hello'' ''service'') = Inr (svc, n1)"
    and "take_str b n1 (the_field ''hello'' ''workflow'') = Inr (wfl, n2)"
    and "take_str b n2 (the_field ''hello'' ''sink'') = Inr (nd, n3)"
    and "take_u32 b n3 = Inr (len, n4)" "n4 + len = length b" "drop n4 b = bs" "sf bs = Inr s"
  shows "decode_frame sf b = Inr (Hello v \<lparr>service = svc, workflow = wfl, node = nd\<rparr> s)"
proof -
  have "take len (drop n4 b) = bs" using assms(6,7) by auto
  moreover have "b ! 1 = v" "b = KIND_HELLO # tl b" "\<not> 1 \<ge> length b" "\<not> n4 + len > length b"
    using assms(1,6) by auto
  ultimately show ?thesis
    unfolding decode_frame_def using assms(2-8) by (cases b) (simp, simp only: list.case if_True if_False Let_def res_bind_Inr prod.case sum.case list.inject simp_thms)
qed

lemma decode_hello:
  assumes law: "\<And>s. sf (sb s) = Inr s"
    and "\<forall>s\<in>set (frame_strings (Hello v i s)). length s < 2 ^ 16 \<and> valid_utf8 s"
    and "length (sb s) < 2 ^ 32"
  shows "decode_frame sf (frame_body sb (Hello v i s)) = Inr (Hello v i s)"
proof -
  let ?b = "frame_body sb (Hello v i s)"
  let ?p1 = "[KIND_HELLO, v]" let ?p2 = "?p1 @ str_bytes (service i)"
  let ?p3 = "?p2 @ str_bytes (workflow i)" let ?p4 = "?p3 @ str_bytes (node i)"
  have t1: "take_str ?b 2 fld = Inr (service i, length ?p2)" for fld
    by (rule take_str_at [of _ ?p1 _ "str_bytes (workflow i) @ str_bytes (node i) @
        be_bytes 4 (length (sb s)) @ sb s"]) (use assms in simp_all)
  have t2: "take_str ?b (length ?p2) fld = Inr (workflow i, length ?p3)" for fld
    by (rule take_str_at [of _ ?p2 _ "str_bytes (node i) @ be_bytes 4 (length (sb s)) @ sb s"])
       (use assms in simp_all)
  have t3: "take_str ?b (length ?p3) fld = Inr (node i, length ?p4)" for fld
    by (rule take_str_at [of _ ?p3 _ "be_bytes 4 (length (sb s)) @ sb s"]) (use assms in simp_all)
  have t4: "take_u32 ?b (length ?p4) = Inr (length (sb s), length ?p4 + 4)"
    by (rule take_u32_at [of _ _ _ "sb s"]) (use assms in simp_all)
  have b: "?b = (?p4 @ be_bytes 4 (length (sb s))) @ sb s" by simp
  have d: "drop (length ?p4 + 4) ?b = sb s" unfolding b by (rule drop_exact) simp
  have l: "length ?b = length ?p4 + 4 + length (sb s)" by (subst b) simp
  have "decode_frame sf ?b = Inr (Hello v \<lparr>service = service i, workflow = workflow i, node = node i\<rparr> s)"
    by (rule decode_hello_steps [where sf = sf, OF _ t1 t2 t3 t4 _ d law [of s]]) (simp, use l in simp)
  then show ?thesis by simp
qed

lemma decode_reject_steps:
  assumes "b = KIND_REJECT # r" "take_str b 1 (the_field ''reject'' ''reason'') = Inr (x, n)"
  shows "decode_frame sf b = Inr (Reject x)"
  using assms kinds_distinct kinds_distinct [symmetric] unfolding decode_frame_def
  by (simp only: list.case if_False if_True res_bind_Inr prod.case simp_thms)

lemma decode_data_steps:
  assumes "b = KIND_DATA # r" "take_str b 1 (the_field ''data frame'' ''traceparent'') = Inr (x, n)"
  shows "decode_frame sf b = Inr (Data (if x = [] then None else Some x) (drop n b))"
  using assms kinds_distinct kinds_distinct [symmetric] unfolding decode_frame_def
  by (simp only: list.case if_False if_True res_bind_Inr prod.case simp_thms)

lemma decode_reject:
  assumes "length r < 2 ^ 16" "valid_utf8 r"
  shows "decode_frame sf (frame_body sb (Reject r)) = Inr (Reject r)"
proof (rule decode_reject_steps)
  show "take_str (frame_body sb (Reject r)) 1 fld = Inr (r, length ([KIND_REJECT] @ str_bytes r))" for fld
    by (rule take_str_at [of _ "[KIND_REJECT]" _ "[]"]) (use assms in simp_all)
qed simp

lemma decode_data:
  assumes "length (case tp of Some t \<Rightarrow> t | None \<Rightarrow> []) < 2 ^ 16"
    "valid_utf8 (case tp of Some t \<Rightarrow> t | None \<Rightarrow> [])" "tp \<noteq> Some []"
  shows "decode_frame sf (frame_body sb (Data tp ipc)) = Inr (Data tp ipc)"
proof -
  define t where "t = (case tp of Some t \<Rightarrow> t | None \<Rightarrow> [])"
  let ?b = "KIND_DATA # str_bytes t @ ipc"
  have tp: "(if t = [] then None else Some t) = tp"
    using assms(3) by (auto simp: t_def split: option.splits)
  have s: "take_str ?b 1 fld = Inr (t, length ([KIND_DATA] @ str_bytes t))" for fld
    by (rule take_str_at [of _ "[KIND_DATA]" _ ipc]) (use assms in \<open>simp_all add: t_def\<close>)
  have d: "drop (length ([KIND_DATA] @ str_bytes t)) ?b = ipc" by simp
  show ?thesis
    using decode_data_steps [OF refl s, of sf] unfolding tp d by (simp add: t_def)
qed

lemma decode_body:
  assumes "\<And>s. sf (sb s) = Inr s"
    and "\<forall>s\<in>set (frame_strings fr). length s < 2 ^ 16 \<and> valid_utf8 s"
    and "length (frame_body sb fr) < 2 ^ 32" "canonical fr"
  shows "decode_frame sf (frame_body sb fr) = Inr fr"
proof (cases fr)
  case (Hello v i s)
  then show ?thesis using decode_hello [of sf sb v i s] assms by simp
next
  case Accept
  then show ?thesis by (simp add: decode_frame_def kinds_distinct [symmetric])
next
  case (Reject r)
  then show ?thesis using decode_reject [of r sf sb] assms by simp
next
  case (Data tp ipc)
  then show ?thesis using decode_data [of tp sf sb ipc] assms by simp
qed

section \<open>The round trip of a frame\<close>

text \<open>
  C30. A frame of the saci connector survives the wire. Encoding succeeds exactly when every string
  fits its two-byte length and the body its four-byte length, and then appends the length of the
  body and the body to the caller's vector and nothing else. Decoding that body gives the frame
  back, provided its strings are UTF-8, a trace context is not the empty string (which the format
  writes for none), and the schema codec decodes what it encoded.
\<close>

theorem frame_roundtrip:
  fixes fr :: "'sch frame"
  assumes codec: "\<And>s. sf (sb s) = Inr s"
    and utf8: "\<forall>s\<in>set (frame_strings fr). valid_utf8 s" and can: "canonical fr"
  shows "((\<exists>out'. encode_frame sb out fr = (Inr (), out')) \<longleftrightarrow>
      (\<forall>s\<in>set (frame_strings fr). length s < 2 ^ 16) \<and> length (frame_body sb fr) < 2 ^ 32) \<and>
    (encode_frame sb out fr = (Inr (), out') \<longrightarrow>
      (\<exists>body. out' = out @ be_bytes 4 (length body) @ body \<and> length body < 2 ^ 32 \<and>
        hd body = frame_kind fr \<and> decode_frame sf body = Inr fr))"
proof (rule conjI)
  show "(\<exists>out'. encode_frame sb out fr = (Inr (), out')) \<longleftrightarrow>
      (\<forall>s\<in>set (frame_strings fr). length s < 2 ^ 16) \<and> length (frame_body sb fr) < 2 ^ 32"
    by (simp add: encode_frame_value)
next
  have "hd (frame_body sb fr) = frame_kind fr" by (cases fr) simp_all
  then show "encode_frame sb out fr = (Inr (), out') \<longrightarrow>
      (\<exists>body. out' = out @ be_bytes 4 (length body) @ body \<and> length body < 2 ^ 32 \<and>
        hd body = frame_kind fr \<and> decode_frame sf body = Inr fr)"
    using decode_body [of sf sb fr] codec utf8 can by (auto simp: encode_frame_value)
qed

theorem frame_roundtrip_witness:
  "(\<exists>out'. encode_frame (\<lambda>s. s) [7] (Hello 1 \<lparr>service = [65], workflow = [66, 67], node = []\<rparr> [1, 2]) = (Inr (), out')) \<and>
   fst (encode_frame (\<lambda>s. s) [] (Reject [0xC3, 0xA9] :: bytes frame)) = Inr ()"
proof
  let ?h = "Hello 1 \<lparr>service = [65], workflow = [66, 67], node = []\<rparr> [1, 2] :: bytes frame"
  show "\<exists>out'. encode_frame (\<lambda>s. s) [7] ?h = (Inr (), out')"
    by (subst frame_roundtrip [THEN conjunct1, of Inr "\<lambda>s. s" ?h]) (simp_all add: str_bytes_def)
  have "\<exists>out'. encode_frame (\<lambda>s. s) [] (Reject [0xC3, 0xA9] :: bytes frame) = (Inr (), out')"
    by (subst frame_roundtrip [THEN conjunct1, of Inr "\<lambda>s. s"]) (simp_all add: str_bytes_def cont_def)
  then show "fst (encode_frame (\<lambda>s. s) [] (Reject [0xC3, 0xA9] :: bytes frame)) = Inr ()" by auto
qed

text \<open>
  The streaming sender writes the header of a data frame and then the payload; the bytes are those
  of the copying encoder, and it refuses the same frames.
\<close>

theorem data_header_streams:
  "data_header tp (length ipc) = Inr hdr \<longleftrightarrow>
     (\<exists>out. encode_frame sb [] (Data tp ipc) = (Inr (), out) \<and> out = hdr @ ipc)"
proof -
  define t where "t = (case tp of Some t \<Rightarrow> t | None \<Rightarrow> [])"
  have h: "data_header tp (length ipc) = Inr hdr \<longleftrightarrow>
      length t < 2 ^ 16 \<and> length ([KIND_DATA] @ str_bytes t @ ipc) < 2 ^ 32 \<and>
      hdr = be_bytes 4 (length ([KIND_DATA] @ str_bytes t @ ipc)) @ [KIND_DATA] @ str_bytes t"
    by (auto simp: data_header_def Let_def t_def [symmetric] put_str_def str_bytes_def)
  show ?thesis unfolding h by (auto simp: encode_frame_value t_def [symmetric])
qed

lemma hello_version_survives: "hello_version (frame_body sb (Hello v i s)) = Some v"
  by (simp add: hello_version_def)

section \<open>The frames of the transport\<close>

fun write_frames :: "bytes \<Rightarrow> bytes list \<Rightarrow> bytes" where
  "write_frames stream [] = stream"
| "write_frames stream (d # ds) = write_frames (snd (write_frame stream d)) ds"

fun read_frames :: "nat \<Rightarrow> bytes \<Rightarrow> bytes list" where
  "read_frames 0 stream = []"
| "read_frames (Suc k) stream =
     (case read_frame stream of (Inr (Some d), rest) \<Rightarrow> d # read_frames k rest | _ \<Rightarrow> [])"

lemma read_frame_framed:
  assumes "length dat \<le> MAX_FRAME_BYTES"
  shows "read_frame (be_bytes 4 (length dat) @ dat @ rest) = (Inr (Some dat), rest)"
proof -
  have "length dat < 2 ^ 32" using assms by (simp add: MAX_FRAME_BYTES_def)
  then show ?thesis using assms
    by (simp add: read_frame_def read_exact_def from_be_be_bytes Let_def)
qed

lemma write_frames_value:
  "\<forall>d\<in>set ds. length d \<le> MAX_FRAME_BYTES \<Longrightarrow>
     write_frames stream ds = stream @ concat (map (\<lambda>d. be_bytes 4 (length d) @ d) ds)"
  by (induction ds arbitrary: stream) (simp_all add: write_frame_def)

lemma read_frames_value:
  "\<forall>d\<in>set ds. length d \<le> MAX_FRAME_BYTES \<Longrightarrow> length ds \<le> k \<Longrightarrow>
     read_frames k (concat (map (\<lambda>d. be_bytes 4 (length d) @ d) ds)) = ds"
proof (induction ds arbitrary: k)
  case Nil
  then show ?case by (cases k) (simp_all add: read_frame_def read_exact_def)
next
  case (Cons d ds)
  then obtain k' where "k = Suc k'" by (cases k) auto
  then show ?case using Cons read_frame_framed [of d] by simp
qed

text \<open>
  The frames of the Raft transport. Frames of at most 16 MiB written one after the other are
  read back in the same order; of a stream that ends inside a frame the reader reports the end of
  the stream or an error and never a payload; a frame above the limit is refused by the writer
  without a byte written, and a length above it by the reader without reading the payload.
\<close>

theorem transport_frames_roundtrip:
  assumes "\<forall>d\<in>set ds. length d \<le> MAX_FRAME_BYTES"
  shows "read_frames (length ds) (write_frames [] ds) = ds \<and>
    (\<forall>d\<in>set ds. \<forall>n < 4 + length d.
      read_frame (take n (snd (write_frame [] d))) = (if n < 4 then Inr None else Inl UnexpectedEof, [])) \<and>
    (length big > MAX_FRAME_BYTES \<longrightarrow>
      write_frame stream big = (Inl (InvalidData (length big)), stream)) \<and>
    (MAX_FRAME_BYTES < n \<and> n < 2 ^ 32 \<longrightarrow> read_frame (be_bytes 4 n @ rest) = (Inl (InvalidData n), rest))"
proof (intro conjI)
  show "read_frames (length ds) (write_frames [] ds) = ds"
    using assms by (simp add: write_frames_value read_frames_value)
  show "\<forall>d\<in>set ds. \<forall>n < 4 + length d.
      read_frame (take n (snd (write_frame [] d))) = (if n < 4 then Inr None else Inl UnexpectedEof, [])"
  proof (intro ballI allI impI)
    fix d n assume d: "d \<in> set ds" and n: "n < 4 + length d"
    have "length d \<le> MAX_FRAME_BYTES" using assms d by blast
    moreover have "length d < 2 ^ 32" using calculation by (simp add: MAX_FRAME_BYTES_def)
    ultimately show "read_frame (take n (snd (write_frame [] d))) =
        (if n < 4 then Inr None else Inl UnexpectedEof, [])"
      using n by (auto simp: write_frame_def read_frame_def read_exact_def from_be_be_bytes Let_def)
  qed
qed (simp_all add: write_frame_def read_frame_def read_exact_def from_be_be_bytes Let_def)

theorem transport_frames_roundtrip_witness:
  "read_frames 2 (write_frames [] [[1, 2], []]) = [[1, 2], []] \<and>
   read_frame (take 5 (snd (write_frame [] [1, 2]))) = (Inl UnexpectedEof, [])"
  using transport_frames_roundtrip [of "[[1, 2], []]" "[]" "[]" 0 "[]"]
  by (auto simp: MAX_FRAME_BYTES_def numeral_2_eq_2)

end
