(* ===== verification/Gtid.thy ===== *)
theory Gtid
  imports Ordered_Table Texts "HOL-Library.Product_Lexorder" "HOL-Library.Option_ord"
begin

text \<open>
  The GTID sets of \<^verbatim>\<open>saci-connector-mariadb/src/source/gtid.rs\<close>: a set of executed transactions,
  grouped by server UUID and tag, each group a list of inclusive intervals of transaction numbers.
  A UUID is its 16 bytes; the \<^verbatim>\<open>BTreeMap\<close> of groups is a table in key order. The tag type of
  \<^verbatim>\<open>mysql_common\<close>, its constructor \<^verbatim>\<open>Tag::new\<close>, its text and its order are parameters.
\<close>

unbundle bit_operations_syntax

section \<open>Data\<close>

type_synonym interval = "u64 \<times> u64"
type_synonym 'tag group_key = "bytes \<times> 'tag option"

record 'tag gtid_set =
  groups :: "('tag group_key, interval list) table"

definition empty_set :: "'tag gtid_set" where
  "empty_set = \<lparr>groups = []\<rparr>"

definition MAX_GNO :: u64 where
  "MAX_GNO = 2 ^ 63 - 1"

section \<open>Intervals\<close>

text \<open>The loop of \<^verbatim>\<open>add_range\<close> that widens the new range over the intervals it touches.\<close>

function absorb :: "interval list \<Rightarrow> nat \<Rightarrow> u64 \<Rightarrow> u64 \<Rightarrow> nat \<times> u64 \<times> u64" where
  "absorb intervals k lo hi =
     (if k < length intervals \<and> fst (intervals ! k) \<le> hi + 1
      then absorb intervals (k + 1) (min lo (fst (intervals ! k))) (max hi (snd (intervals ! k)))
      else (k, lo, hi))"
  by pat_completeness auto
termination
  by (relation "measure (\<lambda>(intervals, k, lo, hi). length intervals - k)") auto

declare absorb.simps [simp del]

definition add_range :: "interval list \<Rightarrow> u64 \<Rightarrow> u64 \<Rightarrow> interval list" where
  "add_range intervals start stop =
     (let first = partition_point (\<lambda>(_, e). e + 1 < start) intervals;
          (k, lo, hi) = absorb intervals first start stop
      in take first intervals @ [(lo, hi)] @ drop k intervals)"

section \<open>Operations\<close>

definition check_gno :: "u64 \<Rightarrow> string + unit" where
  "check_gno gno =
     (if gno = 0 \<or> MAX_GNO < gno
      then Inl (''transaction number '' @ u64_string gno @ '' is outside 1..='' @ u64_string MAX_GNO)
      else Inr ())"

definition check_tag :: "(string \<Rightarrow> string + 'tag) \<Rightarrow> string \<Rightarrow> string + 'tag" where
  "check_tag tag_new t =
     (case tag_new t of Inr x \<Rightarrow> Inr x | Inl e \<Rightarrow> Inl (''tag '' @ quoted t @ '': '' @ e))"

text \<open>\<^verbatim>\<open>groups.entry(key).or_default()\<close>, updated by \<^verbatim>\<open>add_range\<close>.\<close>

definition add_to_group ::
    "('tag :: linorder) group_key \<Rightarrow> u64 \<Rightarrow> u64 \<Rightarrow> 'tag gtid_set \<Rightarrow> 'tag gtid_set" where
  "add_to_group key start stop gs =
     gs\<lparr>groups := tbl_insert key
         (add_range (case tbl_get (groups gs) key of Some xs \<Rightarrow> xs | None \<Rightarrow> []) start stop) (groups gs)\<rparr>"

definition gtid_insert :: "(string \<Rightarrow> string + 'tag :: linorder) \<Rightarrow> 'tag gtid_set \<Rightarrow> bytes \<Rightarrow>
    string option \<Rightarrow> u64 \<Rightarrow> (string + unit) \<times> 'tag gtid_set" where
  "gtid_insert tag_new gs uuid tag gno =
     (case check_gno gno of
        Inl e \<Rightarrow> (Inl e, gs)
      | Inr _ \<Rightarrow>
          (case (case tag of None \<Rightarrow> Inr None | Some t \<Rightarrow> map_sum id Some (check_tag tag_new t)) of
             Inl e \<Rightarrow> (Inl e, gs)
           | Inr tg \<Rightarrow> (Inr (), add_to_group (uuid, tg) gno gno gs)))"

definition covers :: "interval list \<Rightarrow> interval \<Rightarrow> bool" where
  "covers theirs p =
     (let (start, stop) = p;
          at = partition_point (\<lambda>(_, final). final < start) theirs
      in at < length theirs \<and> (let (first, final) = theirs ! at in first \<le> start \<and> stop \<le> final))"

definition is_subset_of :: "('tag :: linorder) gtid_set \<Rightarrow> 'tag gtid_set \<Rightarrow> bool" where
  "is_subset_of gs other =
     list_all (\<lambda>(key, intervals).
       case tbl_get (groups other) key of None \<Rightarrow> False
       | Some theirs \<Rightarrow> list_all (covers theirs) intervals) (tbl_iter (groups gs))"

text \<open>The sum is a \<^verbatim>\<open>u128\<close>; each term is the width of a \<^verbatim>\<open>u64\<close> interval plus one.\<close>

definition transactions :: "'tag gtid_set \<Rightarrow> nat" where
  "transactions gs =
     sum_list (map (\<lambda>(first, final). unat (final - first) + 1) (concat (map snd (tbl_iter (groups gs))))) mod 2 ^ 128"

text \<open>The constructors of \<^verbatim>\<open>mysql_common\<close> are arguments.\<close>

definition to_sids :: "(bytes \<Rightarrow> 'iv list \<Rightarrow> 'sid) \<Rightarrow> (u64 \<Rightarrow> u64 \<Rightarrow> 'iv) \<Rightarrow> ('tag \<Rightarrow> 'sid \<Rightarrow> 'sid) \<Rightarrow>
    'tag gtid_set \<Rightarrow> 'sid list" where
  "to_sids sid_with_intervals gno_interval with_tag gs =
     map (\<lambda>((uuid, tag), intervals).
       let sid = sid_with_intervals uuid (map (\<lambda>(start, stop). gno_interval start (stop + 1)) intervals)
       in case tag of Some t \<Rightarrow> with_tag t sid | None \<Rightarrow> sid) (tbl_iter (groups gs))"

section \<open>Texts\<close>

definition format_uuid :: "bytes \<Rightarrow> string" where
  "format_uuid uuid =
     concat (map (\<lambda>(i, byte). (if i \<in> {4, 6, 8, 10} then ''-'' else []) @ hex_byte byte) (enumerate 0 uuid))"

definition format_gtid :: "bytes \<Rightarrow> string option \<Rightarrow> u64 \<Rightarrow> string" where
  "format_gtid uuid tag gno =
     format_uuid uuid @ (case tag of Some t \<Rightarrow> if t \<noteq> [] then '':'' @ t else [] | None \<Rightarrow> []) @
     '':'' @ u64_string gno"

definition interval_text :: "interval \<Rightarrow> string" where
  "interval_text p = (let (start, stop) = p in
     '':'' @ (if start = stop then u64_string start else u64_string start @ ''-'' @ u64_string stop))"

fun display_groups :: "('tag \<Rightarrow> string) \<Rightarrow> bytes option \<Rightarrow> ('tag group_key \<times> interval list) list \<Rightarrow> string" where
  "display_groups tag_str previous [] = []"
| "display_groups tag_str previous (((uuid, tag), intervals) # rest) =
     (if previous \<noteq> Some uuid then (if previous \<noteq> None then '','' else []) @ format_uuid uuid else []) @
     (case tag of Some t \<Rightarrow> '':'' @ tag_str t | None \<Rightarrow> []) @
     concat (map interval_text intervals) @
     display_groups tag_str (Some uuid) rest"

definition display_gtid_set :: "('tag \<Rightarrow> string) \<Rightarrow> 'tag gtid_set \<Rightarrow> string" where
  "display_gtid_set tag_str gs = display_groups tag_str None (tbl_iter (groups gs))"

definition hex_value :: "char \<Rightarrow> u8 option" where
  "hex_value c =
     (let n = of_char c :: nat in
      if 48 \<le> n \<and> n \<le> 57 then Some (word_of_nat (n - 48))
      else if 97 \<le> n \<and> n \<le> 102 then Some (word_of_nat (n - 97 + 10))
      else if 65 \<le> n \<and> n \<le> 70 then Some (word_of_nat (n - 65 + 10))
      else None)"

fun hex_pairs :: "string \<Rightarrow> bytes option" where
  "hex_pairs (h # l # rest) =
     (case hex_value h of None \<Rightarrow> None
      | Some hi \<Rightarrow> (case hex_value l of None \<Rightarrow> None
          | Some lo \<Rightarrow> (case hex_pairs rest of None \<Rightarrow> None
              | Some bs \<Rightarrow> Some ((push_bit 4 hi OR lo) # bs))))"
| "hex_pairs _ = Some []"

definition parse_uuid :: "string \<Rightarrow> string + bytes" where
  "parse_uuid text =
     (let bad = Inl (quoted text @ '' is not a UUID'');
          digits = filter (\<lambda>c. c \<noteq> CHR ''-'') text
      in if length digits \<noteq> 32 \<or> length text - length digits > 4 then bad
         else if CHR ''-'' \<in> set text \<and>
             map fst (filter (\<lambda>(i, c). c = CHR ''-'') (enumerate 0 text)) \<noteq> [8, 13, 18, 23] then bad
         else case hex_pairs digits of None \<Rightarrow> bad | Some bs \<Rightarrow> Inr bs)"

definition gno_number :: "string \<Rightarrow> string \<Rightarrow> string + u64" where
  "gno_number segment s =
     (case parse_u64 s of
        None \<Rightarrow> Inl (quoted segment @ '' is not a transaction number or range'')
      | Some n \<Rightarrow> res_bind (check_gno n) (\<lambda>_. Inr n))"

definition parse_interval :: "string \<Rightarrow> string + interval" where
  "parse_interval segment =
     (case split_once (CHR ''-'') segment of
        None \<Rightarrow> res_bind (gno_number segment segment) (\<lambda>n. Inr (n, n))
      | Some (a, b) \<Rightarrow>
          res_bind (gno_number segment a) (\<lambda>start.
          res_bind (gno_number segment b) (\<lambda>stop.
            if stop < start then Inl (''range '' @ quoted segment @ '' ends before it starts'')
            else Inr (start, stop))))"

definition tag_start :: "char \<Rightarrow> bool" where
  "tag_start c \<longleftrightarrow> (97 \<le> (of_char c :: nat) \<and> (of_char c :: nat) \<le> 122) \<or> c = CHR ''_''"

definition no_transactions :: "('tag \<Rightarrow> string) \<Rightarrow> 'tag option \<Rightarrow> string" where
  "no_transactions tag_str tag =
     ''tag '' @ quoted (case tag of Some t \<Rightarrow> tag_str t | None \<Rightarrow> []) @ '' has no transactions''"

text \<open>The loop over the segments of an entry: the current tag, and whether it has an interval yet.\<close>

fun parse_segments :: "(string \<Rightarrow> string + 'tag :: linorder) \<Rightarrow> ('tag \<Rightarrow> string) \<Rightarrow> string \<Rightarrow> bytes \<Rightarrow>
    string list \<Rightarrow> 'tag option \<Rightarrow> bool \<Rightarrow> 'tag gtid_set \<Rightarrow> string + 'tag gtid_set" where
  "parse_segments tag_new tag_str entry uuid [] tag interval_seen gs =
     (if \<not> interval_seen then Inl (no_transactions tag_str tag) else Inr gs)"
| "parse_segments tag_new tag_str entry uuid (segment # segments) tag interval_seen gs =
     (case segment of
        [] \<Rightarrow> Inl (''empty segment in entry '' @ quoted entry)
      | c # _ \<Rightarrow>
          if tag_start c then
            (if \<not> interval_seen then Inl (no_transactions tag_str tag)
             else res_bind (check_tag tag_new segment) (\<lambda>t.
               parse_segments tag_new tag_str entry uuid segments (Some t) False gs))
          else res_bind (parse_interval segment) (\<lambda>(start, stop).
            parse_segments tag_new tag_str entry uuid segments tag True (add_to_group (uuid, tag) start stop gs)))"

definition parse_entry :: "(string \<Rightarrow> string + 'tag :: linorder) \<Rightarrow> ('tag \<Rightarrow> string) \<Rightarrow> 'tag gtid_set \<Rightarrow>
    string \<Rightarrow> string + 'tag gtid_set" where
  "parse_entry tag_new tag_str gs entry =
     (let pieces = split_on (CHR '':'') entry in
      res_bind (parse_uuid (hd pieces)) (\<lambda>uuid.
        if tl pieces = [] then Inl (''entry '' @ quoted entry @ '' has no transaction numbers'')
        else parse_segments tag_new tag_str entry uuid (tl pieces) None True gs))"

fun parse_entries :: "(string \<Rightarrow> string + 'tag :: linorder) \<Rightarrow> ('tag \<Rightarrow> string) \<Rightarrow> 'tag gtid_set \<Rightarrow>
    string list \<Rightarrow> string + 'tag gtid_set" where
  "parse_entries tag_new tag_str gs [] = Inr gs"
| "parse_entries tag_new tag_str gs (e # es) =
     res_bind (parse_entry tag_new tag_str gs e) (\<lambda>gs. parse_entries tag_new tag_str gs es)"

definition gtid_from_str :: "(string \<Rightarrow> string + 'tag :: linorder) \<Rightarrow> ('tag \<Rightarrow> string) \<Rightarrow> string \<Rightarrow>
    string + 'tag gtid_set" where
  "gtid_from_str tag_new tag_str text =
     (let compact = filter (\<lambda>c. \<not> is_white c) text in
      if compact = [] then Inr empty_set
      else map_sum (\<lambda>e. ''invalid GTID set '' @ quoted compact @ '': '' @ e) id
        (parse_entries tag_new tag_str empty_set (split_on (CHR '','') compact)))"

end
