(* ===== verification/Gtid_Properties.thy ===== *)
theory Gtid_Properties
  imports Gtid
begin

text \<open>
  GTID sets as sets of transactions. The invariant of the interval lists (\<open>normal\<close>) is kept by
  \<^verbatim>\<open>add_range\<close>, which is set union; the subset test and the count are exact.
\<close>

section \<open>Interval lists\<close>

definition ok_interval :: "interval \<Rightarrow> bool" where
  "ok_interval p \<longleftrightarrow> 1 \<le> unat (fst p) \<and> unat (fst p) \<le> unat (snd p) \<and> unat (snd p) < 2 ^ 63"

definition normal :: "interval list \<Rightarrow> bool" where
  "normal xs \<longleftrightarrow> (\<forall>p\<in>set xs. ok_interval p) \<and> sorted_wrt (\<lambda>p q. unat (snd p) + 1 < unat (fst q)) xs"

definition span :: "interval \<Rightarrow> nat set" where
  "span p = {unat (fst p)..unat (snd p)}"

definition numbers :: "interval list \<Rightarrow> nat set" where
  "numbers xs = (\<Union>p\<in>set xs. span p)"

lemma numbers_simps [simp]:
  "numbers [] = {}" "numbers (p # xs) = span p \<union> numbers xs" "numbers (xs @ ys) = numbers xs \<union> numbers ys"
  by (auto simp: numbers_def)

lemma normal_Nil [simp]: "normal []"
  by (simp add: normal_def)

lemma normal_Cons:
  "normal (p # xs) \<longleftrightarrow> ok_interval p \<and> (\<forall>q\<in>set xs. unat (snd p) + 1 < unat (fst q)) \<and> normal xs"
  by (auto simp: normal_def)

lemma normal_append:
  "normal (xs @ ys) \<longleftrightarrow> normal xs \<and> normal ys \<and>
     (\<forall>p\<in>set xs. \<forall>q\<in>set ys. unat (snd p) + 1 < unat (fst q))"
  by (auto simp: normal_def sorted_wrt_append)

lemma unat_succ: "unat (x :: u64) < 2 ^ 63 \<Longrightarrow> unat (x + 1) = unat x + 1"
  by (simp add: unat_word_ariths)

lemma succ_less: "unat (b :: u64) < 2 ^ 63 \<Longrightarrow> b + 1 < c \<longleftrightarrow> unat b + 1 < unat c"
  by (simp add: word_less_nat_alt unat_succ)

lemma le_succ: "unat (b :: u64) < 2 ^ 63 \<Longrightarrow> a \<le> b + 1 \<longleftrightarrow> unat a \<le> unat b + 1"
  by (simp add: word_le_nat_alt unat_succ)

lemma unat_min: "unat (min (a :: u64) b) = min (unat a) (unat b)"
  by (simp add: min_def word_le_nat_alt)

lemma unat_max: "unat (max (a :: u64) b) = max (unat a) (unat b)"
  by (simp add: max_def word_le_nat_alt)

section \<open>Adding a range\<close>

text \<open>The loop and the splice as one recursion over the intervals that are left.\<close>

fun merge :: "u64 \<Rightarrow> u64 \<Rightarrow> interval list \<Rightarrow> interval list" where
  "merge lo hi [] = [(lo, hi)]"
| "merge lo hi (p # ps) = (if fst p \<le> hi + 1 then merge (min lo (fst p)) (max hi (snd p)) ps else (lo, hi) # p # ps)"

lemma absorb_merge:
  "absorb xs k lo hi = (k', lo', hi') \<Longrightarrow> k \<le> length xs \<Longrightarrow>
     (lo', hi') # drop k' xs = merge lo hi (drop k xs)"
proof (induction xs k lo hi rule: absorb.induct)
  case (1 xs k lo hi)
  show ?case
  proof (cases "k < length xs")
    case True
    then show ?thesis using 1
      by (cases "fst (xs ! k) \<le> hi + 1")
         (simp_all add: absorb.simps [of xs k] Cons_nth_drop_Suc [symmetric])
  next
    case False
    then show ?thesis using 1 by (simp add: absorb.simps [of xs "length xs"])
  qed
qed

lemma add_range_merge:
  "add_range xs lo hi = takeWhile (\<lambda>(_, e). e + 1 < lo) xs @ merge lo hi (dropWhile (\<lambda>(_, e). e + 1 < lo) xs)"
proof -
  let ?k = "partition_point (\<lambda>(_, e). e + 1 < lo) xs"
  obtain k' lo' hi' where a: "absorb xs ?k lo hi = (k', lo', hi')" by (metis prod_cases3)
  have "?k \<le> length xs" by (simp add: partition_point_def length_takeWhile_le)
  then have "(lo', hi') # drop k' xs = merge lo hi (drop ?k xs)" using absorb_merge [OF a] by blast
  then show ?thesis
    by (simp add: add_range_def Let_def a take_partition_point drop_partition_point)
qed

lemma hull_of_touching:
  assumes "ok_interval p" "unat (fst p) \<le> unat hi + 1" "unat lo \<le> unat (snd p) + 1" "unat lo \<le> unat hi"
  shows "{unat (min lo (fst p))..unat (max hi (snd p))} = {unat lo..unat hi} \<union> span p"
  using assms by (auto simp: unat_min unat_max ok_interval_def span_def)

lemma merge_value:
  assumes "normal ys" "1 \<le> unat lo" "unat lo \<le> unat hi" "unat hi < 2 ^ 63"
    "\<forall>y\<in>set ys. unat lo \<le> unat (snd y) + 1"
  shows "normal (merge lo hi ys) \<and> numbers (merge lo hi ys) = {unat lo..unat hi} \<union> numbers ys"
  using assms
proof (induction lo hi ys rule: merge.induct)
  case (1 lo hi)
  then show ?case by (simp add: normal_Cons ok_interval_def span_def)
next
  case (2 lo hi p ps)
  have p: "ok_interval p" "normal ps" and gap: "\<forall>q\<in>set ps. unat (snd p) + 1 < unat (fst q)"
    using 2(2) by (simp_all add: normal_Cons)
  have lop: "unat lo \<le> unat (snd p) + 1" and los: "\<forall>y\<in>set ps. unat lo \<le> unat (snd y) + 1"
    using 2(6) by simp_all
  show ?case
  proof (cases "fst p \<le> hi + 1")
    case True
    let ?lo = "min lo (fst p)" and ?hi = "max hi (snd p)"
    have t: "unat (fst p) \<le> unat hi + 1" using True 2(5) by (simp add: le_succ)
    have "1 \<le> unat ?lo" "unat ?lo \<le> unat ?hi" "unat ?hi < 2 ^ 63"
      using p(1) 2(3-5) by (simp_all add: unat_min unat_max ok_interval_def)
    moreover have "\<forall>y\<in>set ps. unat ?lo \<le> unat (snd y) + 1"
      using los by (simp add: unat_min min.coboundedI1)
    ultimately have "normal (merge ?lo ?hi ps)" "numbers (merge ?lo ?hi ps) = {unat ?lo..unat ?hi} \<union> numbers ps"
      using 2(1) [OF True p(2)] by blast+
    then show ?thesis using True hull_of_touching [OF p(1) t lop 2(4)] by (simp add: Un_assoc)
  next
    case False
    then have f: "unat hi + 1 < unat (fst p)" using 2(5) by (simp add: le_succ)
    have "\<forall>q\<in>set ps. unat hi + 1 < unat (fst q)"
    proof
      fix q assume "q \<in> set ps"
      then show "unat hi + 1 < unat (fst q)" using gap f p(1) by (fastforce simp: ok_interval_def)
    qed
    then show ?thesis using False f 2(2-5) by (simp add: normal_Cons ok_interval_def span_def)
  qed
qed

lemma merge_starts:
  "n < unat lo \<Longrightarrow> \<forall>y\<in>set ys. n < unat (fst y) \<Longrightarrow> y \<in> set (merge lo hi ys) \<Longrightarrow> n < unat (fst y)"
  by (induction lo hi ys rule: merge.induct) (auto simp: unat_min split: if_splits)

lemma sorted_ends:
  "normal (p # ps) \<Longrightarrow> q \<in> set ps \<Longrightarrow> unat (snd p) \<le> unat (snd q)"
  by (auto simp: normal_Cons ok_interval_def normal_def dest!: bspec)

lemma dropWhile_ends:
  assumes "normal xs" "unat lo < 2 ^ 63" "y \<in> set (dropWhile (\<lambda>(_, e). e + 1 < lo) xs)"
  shows "unat lo \<le> unat (snd y) + 1"
  using assms
proof (induction xs)
  case (Cons p ps)
  have p: "unat (snd p) < 2 ^ 63" using Cons.prems(1) by (simp add: normal_Cons ok_interval_def)
  show ?case
  proof (cases "snd p + 1 < lo")
    case True
    then show ?thesis using Cons by (auto simp: normal_Cons case_prod_unfold)
  next
    case False
    then have "unat lo \<le> unat (snd p) + 1" using p by (simp add: succ_less)
    moreover have "y \<in> set (p # ps)" using Cons.prems(3) False by (simp add: case_prod_unfold)
    ultimately show ?thesis using sorted_ends [OF Cons.prems(1), of y] by auto
  qed
qed simp

lemma add_range_union:
  assumes "normal xs" "1 \<le> unat lo" "unat lo \<le> unat hi" "hi \<le> MAX_GNO"
  shows "normal (add_range xs lo hi) \<and> numbers (add_range xs lo hi) = numbers xs \<union> {unat lo..unat hi}"
proof -
  let ?P = "\<lambda>(_ :: u64, e). e + 1 < lo"
  let ?A = "takeWhile ?P xs" and ?B = "dropWhile ?P xs"
  have hi: "unat hi < 2 ^ 63" using assms(4) by (simp add: MAX_GNO_def word_le_nat_alt)
  have ab: "xs = ?A @ ?B" by simp
  have nab: "normal ?A" "normal ?B" "\<forall>p\<in>set ?A. \<forall>q\<in>set ?B. unat (snd p) + 1 < unat (fst q)"
    using assms(1) normal_append [of ?A ?B] by simp_all
  have ends: "\<forall>y\<in>set ?B. unat lo \<le> unat (snd y) + 1"
    using dropWhile_ends [OF assms(1), of lo] hi assms(3) by auto
  have A: "\<forall>p\<in>set ?A. unat (snd p) + 1 < unat lo"
  proof
    fix p assume p: "p \<in> set ?A"
    have "unat (snd p) < 2 ^ 63" using nab(1) p by (simp add: normal_def ok_interval_def)
    moreover have "snd p + 1 < lo" using set_takeWhileD [OF p] by (simp add: case_prod_unfold)
    ultimately show "unat (snd p) + 1 < unat lo" by (simp add: succ_less)
  qed
  note m = merge_value [OF nab(2) assms(2,3) hi ends]
  have "numbers xs = numbers ?A \<union> numbers ?B" using numbers_simps(3) [of ?A ?B] by (simp only: ab [symmetric])
  then show ?thesis
    unfolding add_range_merge using m nab A merge_starts [of _ lo ?B _ hi] by (auto simp: normal_append)
qed

section \<open>Sets\<close>

definition valid_set :: "('tag :: linorder) gtid_set \<Rightarrow> bool" where
  "valid_set gs \<longleftrightarrow> tbl_wf (groups gs) \<and>
     (\<forall>(key, xs)\<in>set (groups gs). length (fst key) = 16 \<and> xs \<noteq> [] \<and> normal xs)"

definition members :: "('tag :: linorder) gtid_set \<Rightarrow> ('tag group_key \<times> nat) set" where
  "members gs = {(key, n). \<exists>xs. tbl_get (groups gs) key = Some xs \<and> n \<in> numbers xs}"

lemma valid_get:
  assumes "valid_set gs" "tbl_get (groups gs) key = Some xs"
  shows "length (fst key) = 16" "xs \<noteq> []" "normal xs"
proof -
  have "(key, xs) \<in> set (groups gs)" using assms(2) by (simp add: tbl_get_def map_of_SomeD)
  then show "length (fst key) = 16" "xs \<noteq> []" "normal xs" using assms(1) by (auto simp: valid_set_def)
qed

lemma valid_empty: "valid_set empty_set" and members_empty: "members empty_set = {}"
  by (simp_all add: valid_set_def members_def empty_set_def tbl_wf_def tbl_get_def)

lemma set_tbl_insert_rows: "set (tbl_insert k v t) \<subseteq> insert (k, v) (set t)"
  by (induction t) auto

lemma add_range_nonempty: "add_range xs lo hi \<noteq> []"
  by (simp add: add_range_def Let_def split: prod.splits)

lemma add_to_group_union:
  assumes gs: "valid_set gs" and key: "length (fst key) = 16"
    and r: "1 \<le> unat lo" "unat lo \<le> unat hi" "hi \<le> MAX_GNO"
  shows "valid_set (add_to_group key lo hi gs)"
    and "members (add_to_group key lo hi gs) = members gs \<union> {key} \<times> {unat lo..unat hi}"
proof -
  define old where "old = (case tbl_get (groups gs) key of Some xs \<Rightarrow> xs | None \<Rightarrow> [])"
  have old: "normal old"
    using valid_get(3) [OF gs] by (simp add: old_def split: option.splits)
  note u = add_range_union [OF old r]
  have g: "groups (add_to_group key lo hi gs) = tbl_insert key (add_range old lo hi) (groups gs)"
    by (simp add: add_to_group_def old_def)
  have wf: "tbl_wf (groups gs)" using gs by (simp add: valid_set_def)
  show "valid_set (add_to_group key lo hi gs)"
    unfolding valid_set_def g
  proof (intro conjI ballI)
    show "tbl_wf (tbl_insert key (add_range old lo hi) (groups gs))" using tbl_wf_insert [OF wf] .
    fix row assume "row \<in> set (tbl_insert key (add_range old lo hi) (groups gs))"
    then have "row = (key, add_range old lo hi) \<or> row \<in> set (groups gs)"
      using set_tbl_insert_rows by fastforce
    then show "case row of (key, xs) \<Rightarrow> length (fst key) = 16 \<and> xs \<noteq> [] \<and> normal xs"
    proof
      assume "row = (key, add_range old lo hi)"
      then show ?thesis using u key add_range_nonempty [of old lo hi] by simp
    next
      assume "row \<in> set (groups gs)"
      then show ?thesis using gs unfolding valid_set_def by blast
    qed
  qed
  have "tbl_get (groups (add_to_group key lo hi gs)) = (tbl_get (groups gs))(key \<mapsto> add_range old lo hi)"
    unfolding g by (rule tbl.get_insert [OF wf])
  then have mem: "(k, n) \<in> members (add_to_group key lo hi gs) \<longleftrightarrow>
      (if k = key then n \<in> numbers (add_range old lo hi) else (k, n) \<in> members gs)" for k n
    by (simp add: members_def)
  have "n \<in> numbers old \<longleftrightarrow> (key, n) \<in> members gs" for n
    by (simp add: members_def old_def split: option.splits)
  then have "(k, n) \<in> members (add_to_group key lo hi gs) \<longleftrightarrow>
      (k, n) \<in> members gs \<or> k = key \<and> n \<in> {unat lo..unat hi}" for k n
    unfolding mem using u by (cases "k = key") simp_all
  then show "members (add_to_group key lo hi gs) = members gs \<union> {key} \<times> {unat lo..unat hi}"
    by (auto simp del: atLeastAtMost_iff)
qed

lemma check_gno_ok: "check_gno gno = Inr () \<longleftrightarrow> 1 \<le> unat gno \<and> gno \<le> MAX_GNO"
  by (auto simp: check_gno_def unat_gt_0 Suc_le_eq)

lemma check_gno_cases: "(\<exists>e. check_gno gno = Inl e) \<or> check_gno gno = Inr ()"
  by (simp add: check_gno_def)

text \<open>
  Recording a transaction. The number has to lie in 1..2^63-1 and the tag, if there is one, to
  be accepted by the tag type; then exactly that transaction is added to the set, whatever
  intervals of its group it joins. Otherwise the set is unchanged. The invariant of the set
  (groups in key order, none empty, intervals sorted, disjoint and not adjacent) is kept.
\<close>

theorem gtid_insert_exact:
  assumes "valid_set gs" "length uuid = 16"
  shows "let (r, gs') = gtid_insert tag_new gs uuid tag gno;
             tg = (case tag of None \<Rightarrow> Inr None | Some t \<Rightarrow> map_sum id Some (check_tag tag_new t))
         in valid_set gs' \<and>
           (r = Inr () \<longleftrightarrow> 1 \<le> unat gno \<and> gno \<le> MAX_GNO \<and> \<not> isl tg) \<and>
           (r \<noteq> Inr () \<longrightarrow> gs' = gs) \<and>
           (r = Inr () \<longrightarrow> members gs' = insert ((uuid, projr tg), unat gno) (members gs))"
proof -
  define tg where "tg = (case tag of None \<Rightarrow> Inr None | Some t \<Rightarrow> map_sum id Some (check_tag tag_new t))"
  consider (bad) e where "check_gno gno = Inl e" "\<not> (1 \<le> unat gno \<and> gno \<le> MAX_GNO)"
    | (ok) "check_gno gno = Inr ()" "1 \<le> unat gno" "gno \<le> MAX_GNO"
    using check_gno_cases [of gno] check_gno_ok [of gno] by auto
  then show ?thesis
  proof cases
    case bad
    then show ?thesis using assms by (auto simp: gtid_insert_def)
  next
    case ok
    show ?thesis
    proof (cases tg)
      case (Inl e)
      then show ?thesis using assms ok by (simp add: gtid_insert_def tg_def [symmetric])
    next
      case (Inr t)
      have u: "valid_set (add_to_group (uuid, t) gno gno gs)"
        "members (add_to_group (uuid, t) gno gno gs) = members gs \<union> {(uuid, t)} \<times> {unat gno..unat gno}"
        using add_to_group_union [OF assms(1), of "(uuid, t)" gno gno] assms(2) ok by simp_all
      then show ?thesis using ok Inr by (simp add: gtid_insert_def tg_def [symmetric])
    qed
  qed
qed

theorem gtid_insert_exact_witness:
  "members (snd (gtid_insert (\<lambda>s. Inr s) empty_set (replicate 16 (7 :: u8)) (Some ''a'') 5)) =
     insert ((replicate 16 7, Some ''a''), 5) {}"
  using gtid_insert_exact [of "empty_set :: string gtid_set" "replicate 16 7" "\<lambda>s. Inr s" "Some ''a''" 5]
  by (simp add: valid_empty members_empty MAX_GNO_def check_tag_def case_prod_unfold Let_def)

section \<open>The subset test\<close>

lemma numbers_bound: "normal xs \<Longrightarrow> n \<in> numbers xs \<Longrightarrow> \<exists>p\<in>set xs. n \<in> span p"
  by (simp add: numbers_def)

text \<open>An interval inside a normal list lies inside one of its intervals.\<close>

lemma span_within_one:
  assumes "normal ys" "span p \<subseteq> numbers ys" "q \<in> set ys" "unat (fst p) \<in> span q" "unat (fst p) \<le> unat (snd p)"
  shows "unat (snd p) \<le> unat (snd q)"
proof (rule ccontr)
  assume "\<not> unat (snd p) \<le> unat (snd q)"
  then have "unat (snd q) + 1 \<in> span p" using assms(4,5) by (simp add: span_def)
  then obtain q' where q': "q' \<in> set ys" "unat (snd q) + 1 \<in> span q'"
    using assms(2) by (auto simp: numbers_def)
  obtain i j where ij: "i < length ys" "j < length ys" "ys ! i = q" "ys ! j = q'"
    using assms(3) q'(1) by (metis in_set_conv_nth)
  have ok: "ok_interval q" "ok_interval q'" using assms(1,3) q'(1) by (simp_all add: normal_def)
  have sep: "i < j \<Longrightarrow> unat (snd q) + 1 < unat (fst q')" "j < i \<Longrightarrow> unat (snd q') + 1 < unat (fst q)"
    using assms(1) ij by (auto simp: normal_def sorted_wrt_iff_nth_less)
  consider "i < j" | "j < i" | "q = q'" using ij by (metis linorder_neqE_nat)
  then show False using sep q'(2) ok by cases (auto simp: span_def ok_interval_def)
qed

lemma covers_exact:
  assumes "normal ys" "ok_interval p"
  shows "covers ys p \<longleftrightarrow> span p \<subseteq> numbers ys"
proof -
  let ?P = "\<lambda>(_ :: u64, final). final < fst p"
  let ?at = "partition_point ?P ys"
  have c: "covers ys p \<longleftrightarrow> ?at < length ys \<and> unat (fst (ys ! ?at)) \<le> unat (fst p) \<and> unat (snd p) \<le> unat (snd (ys ! ?at))"
    by (auto simp: covers_def Let_def case_prod_unfold word_le_nat_alt)
  have le: "unat (fst p) \<le> unat (snd p)" using assms(2) by (simp add: ok_interval_def)
  show ?thesis
  proof
    assume "covers ys p"
    then have "?at < length ys" "span p \<subseteq> span (ys ! ?at)" using c by (auto simp: span_def)
    then show "span p \<subseteq> numbers ys" by (auto simp: numbers_def intro!: bexI [of _ "ys ! ?at"])
  next
    assume sub: "span p \<subseteq> numbers ys"
    have "unat (fst p) \<in> span p" using le by (simp add: span_def)
    then obtain q where q: "q \<in> set ys" "unat (fst p) \<in> span q" using sub by (auto simp: numbers_def)
    obtain j where j: "j < length ys" "ys ! j = q" using q(1) by (metis in_set_conv_nth)
    have nq: "\<not> ?P q" using q(2) by (auto simp: span_def word_less_nat_alt case_prod_unfold)
    have before: "?P (ys ! i)" if "i < j" for i
    proof -
      have "unat (snd (ys ! i)) + 1 < unat (fst q)"
        using assms(1) j that by (auto simp: normal_def sorted_wrt_iff_nth_less)
      then show ?thesis using q(2) by (auto simp: span_def word_less_nat_alt case_prod_unfold)
    qed
    have "takeWhile ?P ys = take j ys"
      using j nq before by (intro takeWhile_eq_take_P_nth) auto
    then have "?at = j" using j by (simp add: partition_point_def)
    then show "covers ys p"
      unfolding c using j q span_within_one [OF assms(1) sub q le] by (simp add: span_def)
  qed
qed

lemma list_all_covers:
  assumes "normal xs" "normal ys"
  shows "list_all (covers ys) xs \<longleftrightarrow> numbers xs \<subseteq> numbers ys"
proof -
  have "list_all (covers ys) xs \<longleftrightarrow> (\<forall>p\<in>set xs. span p \<subseteq> numbers ys)"
    using assms by (auto simp: list_all_iff covers_exact normal_def)
  then show ?thesis by (auto simp: numbers_def)
qed

lemma numbers_nonempty: "normal xs \<Longrightarrow> xs \<noteq> [] \<Longrightarrow> numbers xs \<noteq> {}"
  by (cases xs) (auto simp: normal_Cons ok_interval_def span_def)

lemma group_within:
  assumes "valid_set gs" "valid_set other" "tbl_get (groups gs) key = Some xs"
  shows "(case tbl_get (groups other) key of None \<Rightarrow> False | Some theirs \<Rightarrow> list_all (covers theirs) xs) \<longleftrightarrow>
    {key} \<times> numbers xs \<subseteq> members other"
proof (cases "tbl_get (groups other) key")
  case None
  then show ?thesis using numbers_nonempty [OF valid_get(3,2) [OF assms(1,3)]]
    by (auto simp: members_def)
next
  case (Some ys)
  then have "list_all (covers ys) xs \<longleftrightarrow> numbers xs \<subseteq> numbers ys"
    using list_all_covers [OF valid_get(3) [OF assms(1,3)] valid_get(3) [OF assms(2)]] by blast
  then show ?thesis using Some by (auto simp: members_def)
qed

lemma members_groups:
  "tbl_wf (groups gs) \<Longrightarrow> members gs = (\<Union>(key, xs)\<in>set (groups gs). {key} \<times> numbers xs)"
  unfolding members_def
  by (auto simp: tbl_rows_get [symmetric] split: prod.splits intro!: bexI)

lemma is_subset_of_members:
  assumes "valid_set gs" "valid_set other"
  shows "is_subset_of gs other \<longleftrightarrow> members gs \<subseteq> members other"
proof -
  have wf: "tbl_wf (groups gs)" using assms(1) by (simp add: valid_set_def)
  have "is_subset_of gs other \<longleftrightarrow> (\<forall>(key, xs)\<in>set (groups gs). {key} \<times> numbers xs \<subseteq> members other)"
    unfolding is_subset_of_def list_all_iff tbl_iter_def
    by (rule ball_cong [OF refl]) (auto simp only: split: prod.splits simp: group_within [OF assms, unfolded list_all_iff] tbl_rows_get [OF wf])
  then show ?thesis unfolding members_groups [OF wf] by blast
qed

section \<open>The count and the canonical form\<close>

lemma finite_numbers [simp]: "finite (numbers xs)"
  by (simp add: numbers_def span_def)

lemma first_span_disjoint: "normal (p # ps) \<Longrightarrow> span p \<inter> numbers ps = {}"
  by (fastforce simp: normal_Cons span_def numbers_def)

lemma card_numbers:
  "normal xs \<Longrightarrow> card (numbers xs) = sum_list (map (\<lambda>(first, final). unat (final - first) + 1) xs)"
proof (induction xs)
  case (Cons p ps)
  have ok: "unat (fst p) \<le> unat (snd p)" and ps: "normal ps"
    using Cons.prems by (simp_all add: normal_Cons ok_interval_def)
  have "card (span p) = unat (snd p - fst p) + 1"
    using ok by (simp add: span_def unat_sub word_le_nat_alt)
  then show ?case
    using Cons.IH [OF ps] first_span_disjoint [OF Cons.prems]
    by (simp add: card_Un_disjoint case_prod_unfold span_def)
qed simp

lemma card_rows:
  fixes rows :: "('k \<times> interval list) list"
  assumes "distinct (map fst rows)"
  shows "finite (\<Union>(key, xs)\<in>set rows. {key} \<times> numbers xs) \<and>
    card (\<Union>(key, xs)\<in>set rows. {key} \<times> numbers xs) = sum_list (map (\<lambda>(key, xs). card (numbers xs)) rows)"
  using assms
proof (induction rows)
  case (Cons r rs)
  let ?U = "\<Union>(key, xs)\<in>set rs. {key} \<times> numbers xs" and ?R = "{fst r} \<times> numbers (snd r)"
  have fin: "finite ?U" and IH: "card ?U = sum_list (map (\<lambda>(key, xs). card (numbers xs)) rs)"
    using Cons by auto
  have "?R \<inter> ?U = {}" using Cons.prems by (force simp: image_iff)
  then have "card (?R \<union> ?U) = card ?R + card ?U" using fin by (simp add: card_Un_disjoint)
  moreover have "card ?R = card (numbers (snd r))" by (simp add: card_cartesian_product)
  moreover have "(\<Union>(key, xs)\<in>set (r # rs). {key} \<times> numbers xs) = ?R \<union> ?U" by (simp add: case_prod_unfold)
  ultimately show ?case using fin IH by (simp add: case_prod_unfold)
qed simp

lemma finite_members: "valid_set gs \<Longrightarrow> finite (members gs)"
  and card_members: "valid_set gs \<Longrightarrow> card (members gs) = sum_list (map (\<lambda>(key, xs). card (numbers xs)) (groups gs))"
  using card_rows [of "groups gs"] tbl.rows_distinct [of "groups gs"]
  by (simp_all add: valid_set_def members_groups tbl_iter_def)

lemma transactions_card:
  assumes "valid_set gs"
  shows "transactions gs = card (members gs) mod 2 ^ 128"
proof -
  have "sum_list (map (\<lambda>(first, final). unat (final - first) + 1) (concat (map snd rows))) =
      sum_list (map (\<lambda>(key, xs). card (numbers xs)) rows)"
    if "\<forall>(key, xs)\<in>set rows. normal xs" for rows :: "('a group_key \<times> interval list) list"
    using that by (induction rows) (auto simp: card_numbers)
  moreover have "\<forall>(key, xs)\<in>set (groups gs). normal xs" using assms by (auto simp: valid_set_def)
  ultimately show ?thesis
    by (simp add: transactions_def tbl_iter_def card_members [OF assms])
qed

lemma normal_unique:
  "normal xs \<Longrightarrow> normal ys \<Longrightarrow> numbers xs = numbers ys \<Longrightarrow> xs = ys"
proof (induction xs arbitrary: ys)
  case Nil
  then show ?case using numbers_nonempty [of ys] by auto
next
  case (Cons p ps)
  obtain q qs where ys: "ys = q # qs"
    using Cons.prems numbers_nonempty [of "p # ps"] by (cases ys) auto
  have start: "unat (fst a) \<le> n" if "normal (a # as)" "n \<in> numbers (a # as)" for a as n
    using that by (fastforce simp: normal_Cons ok_interval_def span_def numbers_def)
  have ok: "ok_interval p" "ok_interval q" using Cons.prems by (simp_all add: ys normal_Cons)
  then have mem: "unat (fst p) \<in> span p" "unat (fst q) \<in> span q"
    by (simp_all add: ok_interval_def span_def)
  have "unat (fst q) \<le> unat (fst p)"
    by (rule start [of q qs]) (use Cons.prems mem ys in auto)
  moreover have "unat (fst p) \<le> unat (fst q)"
    by (rule start [of p ps]) (use Cons.prems mem ys in auto)
  ultimately have f: "unat (fst p) = unat (fst q)" by simp
  have "unat (snd p) \<le> unat (snd q)"
    by (rule span_within_one [OF Cons.prems(2)]) (use Cons.prems(3) ys f ok mem in \<open>auto simp: ok_interval_def\<close>)
  moreover have "unat (snd q) \<le> unat (snd p)"
    by (rule span_within_one [OF Cons.prems(1)]) (use Cons.prems(3) ys f ok mem in \<open>auto simp: ok_interval_def\<close>)
  ultimately have pq: "p = q" using f by (simp add: prod_eq_iff word_unat_eq_iff)
  have "numbers ps = numbers qs"
    using Cons.prems(3) first_span_disjoint [OF Cons.prems(1)] first_span_disjoint [of q qs] Cons.prems(2)
    by (auto simp: ys pq)
  then show ?case using Cons.IH [of qs] Cons.prems by (simp add: ys pq normal_Cons)
qed

definition group_numbers :: "interval list option \<Rightarrow> nat set" where
  "group_numbers g = (case g of Some xs \<Rightarrow> numbers xs | None \<Rightarrow> {})"

lemma members_group: "(key, n) \<in> members gs \<longleftrightarrow> n \<in> group_numbers (tbl_get (groups gs) key)"
  by (simp add: members_def group_numbers_def split: option.splits)

lemma group_unique:
  assumes "\<And>xs. g = Some xs \<Longrightarrow> xs \<noteq> [] \<and> normal xs" "\<And>xs. h = Some xs \<Longrightarrow> xs \<noteq> [] \<and> normal xs"
    "group_numbers g = group_numbers h"
  shows "g = h"
proof (cases g)
  case None
  then show ?thesis using assms(2,3) numbers_nonempty by (cases h) (auto simp: group_numbers_def)
next
  case (Some xs)
  then obtain ys where ys: "h = Some ys"
    using assms(1,3) numbers_nonempty [of xs] by (cases h) (auto simp: group_numbers_def)
  have "xs = ys" by (rule normal_unique) (use assms Some ys in \<open>auto simp: group_numbers_def\<close>)
  then show ?thesis using Some ys by simp
qed

lemma set_determined:
  assumes "valid_set gs" "valid_set hs" "members gs = members hs"
  shows "gs = hs"
proof -
  have "tbl_get (groups gs) key = tbl_get (groups hs) key" for key
  proof (rule group_unique)
    show "group_numbers (tbl_get (groups gs) key) = group_numbers (tbl_get (groups hs) key)"
      using assms(3) members_group by (metis (no_types) subsetI subset_antisym)
  qed (use valid_get(2,3) assms(1,2) in blast)+
  then have "groups gs = groups hs" using assms(1,2) by (intro tbl_ext) (auto simp: valid_set_def)
  then show ?thesis by simp
qed

text \<open>
  A set is determined by its transactions: two sets in the kept form with the same
  transactions are the same value, so equal sets also print the same. The
  subset test answers exactly whether every transaction of the first set is in the second, although
  it looks at one interval of the second for each interval of the first. The count is the number
  of transactions (a 128-bit sum), and a set that contains another has the greater count unless they
  are equal.
\<close>

theorem gtid_set_canonical:
  assumes "valid_set gs" "valid_set hs" "card (members hs) < 2 ^ 128"
  shows "(gs = hs) = (members gs = members hs) \<and>
    (is_subset_of gs hs \<longleftrightarrow> members gs \<subseteq> members hs) \<and>
    transactions gs = card (members gs) mod 2 ^ 128 \<and>
    (is_subset_of gs hs \<and> gs \<noteq> hs \<longrightarrow> transactions gs < transactions hs)"
proof (intro conjI)
  show eq: "(gs = hs) = (members gs = members hs)" using set_determined [OF assms(1,2)] by blast
  show "is_subset_of gs hs \<longleftrightarrow> members gs \<subseteq> members hs" by (rule is_subset_of_members [OF assms(1,2)])
  show "transactions gs = card (members gs) mod 2 ^ 128" by (rule transactions_card [OF assms(1)])
  show "is_subset_of gs hs \<and> gs \<noteq> hs \<longrightarrow> transactions gs < transactions hs"
  proof
    assume "is_subset_of gs hs \<and> gs \<noteq> hs"
    then have "members gs \<subset> members hs" using eq is_subset_of_members [OF assms(1,2)] by blast
    then have "card (members gs) < card (members hs)"
      using finite_members [OF assms(2)] psubset_card_mono by blast
    then show "transactions gs < transactions hs"
      using assms(3) by (simp add: transactions_card assms(1,2))
  qed
qed

definition example_set :: "u64 \<Rightarrow> nat gtid_set" where
  "example_set n = \<lparr>groups = [((replicate 16 1, None), [(1, n)])]\<rparr>"

lemma example_valid: "valid_set (example_set 3)" "valid_set (example_set 7)"
  by (simp_all add: example_set_def valid_set_def tbl_wf_def normal_Cons ok_interval_def)

lemma example_members: "members (example_set n) = {(replicate 16 1, None)} \<times> {1..unat n}"
  by (auto simp: example_set_def members_def tbl_get_def span_def split: if_splits)

lemma example_strict: "members (example_set 3) \<subset> members (example_set 7)"
proof
  show "members (example_set 3) \<subseteq> members (example_set 7)" by (auto simp: example_members)
  have "((replicate 16 1, None), 7) \<in> members (example_set 7) - members (example_set 3)"
    by (simp add: example_members)
  then show "members (example_set 3) \<noteq> members (example_set 7)" by blast
qed

theorem gtid_set_canonical_witness:
  "transactions (example_set 3) < transactions (example_set 7)"
proof -
  have "card (members (example_set 7)) < 2 ^ 128" by (simp add: example_members card_cartesian_product)
  from gtid_set_canonical [OF example_valid this] show ?thesis
    using example_strict is_subset_of_members [OF example_valid] by blast
qed

end
