(* ===== verification/Gtid_Text.thy ===== *)
theory Gtid_Text
  imports Gtid_Properties
begin

text \<open>
  The text form of GTID sets: every set the parser returns has the kept form, and parsing the
  canonical text of a set gives the set back.
\<close>

unbundle bit_operations_syntax

section \<open>Parsing keeps the form\<close>

lemma length_hex_pairs: "hex_pairs ds = Some bs \<Longrightarrow> length bs = length ds div 2"
  by (induction ds arbitrary: bs rule: hex_pairs.induct) (auto split: option.splits)

lemma parse_uuid_length: "parse_uuid s = Inr u \<Longrightarrow> length u = 16"
  by (auto simp: parse_uuid_def Let_def length_hex_pairs split: if_splits option.splits)

lemma gno_number_ok: "gno_number seg s = Inr n \<longleftrightarrow> parse_u64 s = Some n \<and> 1 \<le> unat n \<and> n \<le> MAX_GNO"
  using check_gno_ok [of n]
  by (auto simp: gno_number_def res_bind_eq_Inr split: option.splits)

lemma parse_interval_ok:
  "parse_interval seg = Inr (a, b) \<Longrightarrow> 1 \<le> unat a \<and> unat a \<le> unat b \<and> b \<le> MAX_GNO"
  by (auto simp: parse_interval_def res_bind_eq_Inr gno_number_ok word_le_nat_alt not_less
      split: option.splits if_splits)

lemma parse_segments_valid:
  "parse_segments tag_new tag_str entry uuid segs tag seen gs = Inr gs' \<Longrightarrow> length uuid = 16 \<Longrightarrow>
     valid_set gs \<Longrightarrow> valid_set gs'"
proof (induction segs arbitrary: tag seen gs)
  case Nil
  then show ?case by (simp split: if_splits)
next
  case (Cons seg segs)
  obtain c cs where seg: "seg = c # cs" using Cons.prems(1) by (cases seg) auto
  show ?case
  proof (cases "tag_start c")
    case True
    then obtain t where "parse_segments tag_new tag_str entry uuid segs (Some t) False gs = Inr gs'"
      using Cons.prems(1) seg by (auto simp: res_bind_eq_Inr split: if_splits)
    then show ?thesis using Cons by blast
  next
    case False
    then obtain a b where p: "parse_interval seg = Inr (a, b)"
        "parse_segments tag_new tag_str entry uuid segs tag True (add_to_group (uuid, tag) a b gs) = Inr gs'"
      using Cons.prems(1) seg by (auto simp: res_bind_eq_Inr)
    have "valid_set (add_to_group (uuid, tag) a b gs)"
      using add_to_group_union(1) [OF Cons.prems(3), of "(uuid, tag)" a b] parse_interval_ok [OF p(1)]
        Cons.prems(2) by simp
    then show ?thesis using Cons p(2) by blast
  qed
qed

lemma parse_entries_valid:
  "parse_entries tag_new tag_str gs es = Inr gs' \<Longrightarrow> valid_set gs \<Longrightarrow> valid_set gs'"
proof (induction es arbitrary: gs)
  case (Cons e es)
  obtain g where g: "parse_entry tag_new tag_str gs e = Inr g" "parse_entries tag_new tag_str g es = Inr gs'"
    using Cons.prems(1) by (auto simp: res_bind_eq_Inr)
  have "valid_set g"
    using g(1) Cons.prems(2) parse_segments_valid parse_uuid_length
    by (fastforce simp: parse_entry_def Let_def res_bind_eq_Inr split: if_splits)
  then show ?case using Cons g(2) by blast
qed simp

text \<open>
  C32. Whatever text the parser accepts, the set it returns is in the kept form: UUIDs of sixteen
  bytes, groups in key order and none of them empty, and the intervals of a group within
  1..2^63-1, sorted, disjoint and not adjacent, also when the text lists them out of order,
  overlapping or repeated.
\<close>

theorem gtid_from_str_valid:
  assumes "gtid_from_str tag_new tag_str text = Inr gs"
  shows "valid_set gs"
proof -
  let ?s = "split_on (CHR '','') (filter (\<lambda>c. \<not> is_white c) text)"
  show ?thesis
  proof (cases "filter (\<lambda>c. \<not> is_white c) text = []")
    case True
    then show ?thesis using assms valid_empty by (simp add: gtid_from_str_def)
  next
    case False
    then have "parse_entries tag_new tag_str empty_set ?s = Inr gs"
      using assms by (cases "parse_entries tag_new tag_str empty_set ?s") (simp_all add: gtid_from_str_def Let_def)
    then show ?thesis using valid_empty by (rule parse_entries_valid)
  qed
qed

section \<open>Texts of the parts\<close>

lemma nibble: "unat (b :: u8) div 16 < 16" "unat (b :: u8) mod 16 < 16"
  using unsigned_less [of b, where ?'a = nat] by simp_all

lemma hex_value_digit: "n < 16 \<Longrightarrow> hex_value (hex_digit n) = Some (word_of_nat n)"
  by (auto simp: hex_value_def hex_digit_def of_char_of Let_def)

lemma nibbles_join: "push_bit 4 (word_of_nat (unat (b :: u8) div 16)) OR word_of_nat (unat b mod 16) = b"
proof -
  have "unat b div 16 = unat (drop_bit 4 b)" by (simp add: unat_drop_bit_eq drop_bit_eq_div unat_div)
  then have hi: "word_of_nat (unat b div 16) = drop_bit 4 b" by simp
  have "unat b mod 16 = unat (take_bit 4 b)" by (simp add: unsigned_take_bit_eq take_bit_eq_mod unat_mod)
  then have lo: "word_of_nat (unat b mod 16) = take_bit 4 b" by simp
  show ?thesis unfolding hi lo
    by (rule bit_word_eqI) (auto simp: bit_or_iff bit_push_bit_iff bit_drop_bit_eq bit_take_bit_iff)
qed

lemma digit_not_dash: "n < 16 \<Longrightarrow> hex_digit n \<noteq> CHR ''-''"
  using hex_digit_code [of n] by auto

lemma byte_not_dash: "CHR ''-'' \<notin> set (hex_byte b)"
  using digit_not_dash [OF nibble(1) [of b]] digit_not_dash [OF nibble(2) [of b]] by (simp add: hex_byte_def)

lemma hex_pairs_byte: "hex_pairs (hex_byte b @ rest) = map_option (\<lambda>bs. b # bs) (hex_pairs rest)"
  using nibbles_join [of b] nibble [of b]
  by (simp add: hex_byte_def hex_value_digit split: option.splits)

lemma hex_pairs_bytes: "hex_pairs (concat (map hex_byte bs)) = Some bs"
  by (induction bs) (simp_all add: hex_pairs_byte)

lemma no_dashes: "filter (\<lambda>c. c \<noteq> CHR ''-'') (hex_byte b) = hex_byte b"
  using byte_not_dash [of b] by (auto simp: filter_id_conv)

lemma format_uuid_digits: "filter (\<lambda>c. c \<noteq> CHR ''-'') (format_uuid u) = concat (map hex_byte u)"
proof -
  have "filter (\<lambda>c. c \<noteq> CHR ''-'') (concat (map (\<lambda>(i, byte). (if i \<in> {4, 6, 8, 10} then ''-'' else []) @ hex_byte byte)
      (enumerate k u))) = concat (map hex_byte u)" for k
    by (induction u arbitrary: k) (simp_all add: no_dashes)
  then show ?thesis by (simp add: format_uuid_def)
qed

lemma length_16: "length u = 16 \<Longrightarrow> \<exists>a b c d e f g h i j k l m n p q. u = [a, b, c, d, e, f, g, h, i, j, k, l, m, n, p, q]"
  by (simp add: length_Suc_conv numeral_eq_Suc) blast

lemma format_uuid_16:
  "format_uuid [a, b, c, d, e, f, g, h, i, j, k, l, m, n, p, q] =
     hex_byte a @ hex_byte b @ hex_byte c @ hex_byte d @ ''-'' @ hex_byte e @ hex_byte f @ ''-'' @
     hex_byte g @ hex_byte h @ ''-'' @ hex_byte i @ hex_byte j @ ''-'' @ hex_byte k @ hex_byte l @
     hex_byte m @ hex_byte n @ hex_byte p @ hex_byte q"
  by (simp add: format_uuid_def)

lemma dashes_of_byte:
  "map fst (filter (\<lambda>(i, c). c = CHR ''-'') (enumerate s (hex_byte b @ rest))) =
     map fst (filter (\<lambda>(i, c). c = CHR ''-'') (enumerate (s + 2) rest))"
  using digit_not_dash [OF nibble(1) [of b]] digit_not_dash [OF nibble(2) [of b]] by (simp add: hex_byte_def)

lemma dashes_of_dash:
  "map fst (filter (\<lambda>(i, c). c = CHR ''-'') (enumerate s (CHR ''-'' # rest))) =
     s # map fst (filter (\<lambda>(i, c). c = CHR ''-'') (enumerate (s + 1) rest))"
  by simp

lemma length_hex_byte: "length (hex_byte b) = 2"
  by (simp add: hex_byte_def)

lemma parse_format_uuid:
  assumes "length u = 16"
  shows "parse_uuid (format_uuid u) = Inr u"
proof -
  obtain a b c d e f g h i j k l m n p q where u: "u = [a, b, c, d, e, f, g, h, i, j, k, l, m, n, p, q]"
    using length_16 [OF assms] by blast
  have dig: "length (concat (map hex_byte u)) = 32" by (simp add: u length_hex_byte)
  have len: "length (format_uuid u) = 36" unfolding u format_uuid_16 by (simp add: length_hex_byte)
  have "map fst (filter (\<lambda>(i, c). c = CHR ''-'') (enumerate 0 (format_uuid u))) = [8, 13, 18, 23]"
    unfolding u format_uuid_16 append.simps dashes_of_byte dashes_of_dash
    using dashes_of_byte [of _ _ "[]"] by (simp del: enumerate_simps(2))
  then show ?thesis
    unfolding parse_uuid_def Let_def format_uuid_digits by (simp add: dig len hex_pairs_bytes)
qed

section \<open>Intervals and segments\<close>

definition interval_segment :: "interval \<Rightarrow> string" where
  "interval_segment p = (if fst p = snd p then u64_string (fst p)
     else u64_string (fst p) @ CHR ''-'' # u64_string (snd p))"

lemma interval_text_segment: "interval_text p = CHR '':'' # interval_segment p"
  by (cases p) (simp add: interval_text_def interval_segment_def)

lemma u64_string_no: "\<not> is_digit c \<Longrightarrow> c \<notin> set (u64_string x)"
  using u64_string_chars by blast

lemma not_digits: "\<not> is_digit (CHR ''-'')" "\<not> is_digit (CHR '':'')" "\<not> is_digit (CHR '','')"
  by (simp_all add: is_digit_def)

lemma split_once_none: "c \<notin> set s \<Longrightarrow> split_once c s = None"
proof -
  assume "c \<notin> set s"
  then have "dropWhile (\<lambda>x. x \<noteq> c) s = []" by auto
  then show ?thesis by (simp only: split_once_def list.case)
qed

lemma split_once_at: "c \<notin> set s \<Longrightarrow> split_once c (s @ c # r) = Some (s, r)"
proof -
  assume "c \<notin> set s"
  then have "dropWhile (\<lambda>x. x \<noteq> c) (s @ c # r) = c # r" "takeWhile (\<lambda>x. x \<noteq> c) (s @ c # r) = s"
    by (subst dropWhile_append2, auto, subst takeWhile_append2, auto)
  then show ?thesis by (simp add: split_once_def)
qed

lemma le_MAX_GNO: "x \<le> MAX_GNO \<longleftrightarrow> unat x < 2 ^ 63"
  by (simp add: MAX_GNO_def word_le_nat_alt less_eq_Suc_le)

lemma parse_interval_segment:
  assumes "ok_interval p"
  shows "parse_interval (interval_segment p) = Inr p"
proof -
  have n: "gno_number s (u64_string (fst p)) = Inr (fst p)" "gno_number s (u64_string (snd p)) = Inr (snd p)" for s
    using assms by (simp_all add: gno_number_ok ok_interval_def le_MAX_GNO)
  have le: "\<not> snd p < fst p" using assms by (simp add: ok_interval_def word_less_nat_alt)
  show ?thesis
    using n le by (cases "fst p = snd p")
      (simp_all add: parse_interval_def interval_segment_def split_once_none split_once_at u64_string_no not_digits
        prod_eq_iff)
qed

lemma digit_not_tag_start: "is_digit c \<Longrightarrow> \<not> tag_start c"
  by (auto simp: is_digit_def tag_start_def)

lemma interval_segment_head: "\<exists>c cs. interval_segment p = c # cs \<and> \<not> tag_start c"
proof -
  obtain c cs where u: "u64_string (fst p) = c # cs" using u64_string_nonempty [of "fst p"] by (cases "u64_string (fst p)") auto
  then have "is_digit c" using u64_string_chars [of c "fst p"] by simp
  then show ?thesis using u digit_not_tag_start by (auto simp: interval_segment_def)
qed

text \<open>Parsing the intervals of a normal list one after the other appends them.\<close>

lemma add_range_end:
  assumes "normal (xs @ [p])"
  shows "add_range xs (fst p) (snd p) = xs @ [p]"
proof -
  have "\<forall>q\<in>set xs. snd q + 1 < fst p"
  proof
    fix q assume q: "q \<in> set xs"
    then have "unat (snd q) < 2 ^ 63" "unat (snd q) + 1 < unat (fst p)"
      using assms q unfolding normal_append by (simp_all add: normal_def ok_interval_def)
    then show "snd q + 1 < fst p" by (simp add: succ_less)
  qed
  then have "takeWhile (\<lambda>(_, e). e + 1 < fst p) xs = xs" "dropWhile (\<lambda>(_, e). e + 1 < fst p) xs = []"
    by (auto simp: takeWhile_eq_all_conv dropWhile_eq_Nil_conv case_prod_unfold)
  then show ?thesis by (simp only: add_range_merge merge.simps prod.collapse)
qed

lemma tbl_insert_end: "\<forall>r\<in>set t. fst r < k \<Longrightarrow> tbl_insert k v t = t @ [(k, v)]"
  by (induction t) auto

lemma tbl_insert_last:
  "\<forall>r\<in>set t. fst r < k \<Longrightarrow> tbl_insert k v (t @ [(k, w)]) = t @ [(k, v)]"
  by (induction t) auto

lemma tbl_get_last: fixes k :: "'k :: linorder" shows "\<forall>r\<in>set t. fst r < k \<Longrightarrow> tbl_get (t @ [(k, w)]) k = Some w"
  by (induction t) (auto simp: tbl_get_def)

lemma tbl_get_none: fixes k :: "'k :: linorder" shows "\<forall>r\<in>set t. fst r < k \<Longrightarrow> tbl_get t k = None"
  by (induction t) (auto simp: tbl_get_def)

lemma add_to_group_first:
  "\<forall>r\<in>set (groups gs). fst r < key \<Longrightarrow>
     add_to_group key (fst p) (snd p) gs = gs\<lparr>groups := groups gs @ [(key, [p])]\<rparr>"
  by (simp add: add_to_group_def tbl_get_none tbl_insert_end add_range_merge)

lemma add_to_group_next:
  assumes "\<forall>r\<in>set t. fst r < key" "normal (xs @ [p])"
  shows "add_to_group key (fst p) (snd p) (gs\<lparr>groups := t @ [(key, xs)]\<rparr>) = gs\<lparr>groups := t @ [(key, xs @ [p])]\<rparr>"
  using assms by (simp add: add_to_group_def tbl_get_last tbl_insert_last add_range_end)

lemma parse_segment_interval:
  assumes "ok_interval p"
  shows "parse_segments tag_new tag_str entry uuid (interval_segment p # segs) tag seen gs =
    parse_segments tag_new tag_str entry uuid segs tag True (add_to_group (uuid, tag) (fst p) (snd p) gs)"
  using interval_segment_head [of p] parse_interval_segment [OF assms]
  by (auto split: list.splits prod.splits)

lemma parse_more_intervals:
  assumes "\<forall>r\<in>set t. fst r < (uuid, tag)" "normal (xs @ ys)" "xs \<noteq> []"
  shows "parse_segments tag_new tag_str entry uuid (map interval_segment ys @ segs) tag True
      (gs\<lparr>groups := t @ [((uuid, tag), xs)]\<rparr>) =
    parse_segments tag_new tag_str entry uuid segs tag True (gs\<lparr>groups := t @ [((uuid, tag), xs @ ys)]\<rparr>)"
  using assms(2,3)
proof (induction ys arbitrary: xs)
  case (Cons y ys)
  have "ok_interval y" "normal (xs @ [y])" using Cons.prems(1) by (auto simp: normal_append normal_Cons)
  then show ?case
    using Cons.IH [of "xs @ [y]"] Cons.prems add_to_group_next [OF assms(1), of xs y gs]
    by (simp add: parse_segment_interval del: parse_segments.simps)
qed simp

lemma parse_group_intervals:
  assumes "\<forall>r\<in>set (groups gs). fst r < (uuid, tag)" "normal xs" "xs \<noteq> []"
  shows "parse_segments tag_new tag_str entry uuid (map interval_segment xs @ segs) tag seen gs =
    parse_segments tag_new tag_str entry uuid segs tag True (gs\<lparr>groups := groups gs @ [((uuid, tag), xs)]\<rparr>)"
proof -
  obtain y ys where xs: "xs = y # ys" using assms(3) by (cases xs) auto
  have "ok_interval y" using assms(2) xs by (simp add: normal_Cons)
  then show ?thesis
    using parse_more_intervals [OF assms(1), of "[y]" ys] assms(2) add_to_group_first [OF assms(1)]
    by (simp add: xs parse_segment_interval del: parse_segments.simps)
qed

section \<open>The canonical text\<close>

text \<open>
  What \<^verbatim>\<open>mysql_common\<close> documents of tags: a tag is \<^verbatim>\<open>[a-z_][a-z0-9_]{0,31}\<close>, and the text of
  a tag parses to the tag.
\<close>

definition tag_codec :: "(string \<Rightarrow> string + 'tag) \<Rightarrow> ('tag \<Rightarrow> string) \<Rightarrow> bool" where
  "tag_codec tag_new tag_str \<longleftrightarrow>
     (\<forall>t. tag_new (tag_str t) = Inr t \<and> tag_str t \<noteq> [] \<and> tag_start (hd (tag_str t)) \<and>
       (\<forall>c\<in>set (tag_str t). tag_start c \<or> is_digit c))"

type_synonym 'tag run = "('tag option \<times> interval list) list"

text \<open>The rows of one UUID after the other.\<close>

fun runs :: "('tag group_key \<times> interval list) list \<Rightarrow> (bytes \<times> 'tag run) list" where
  "runs [] = []"
| "runs (((u, t), xs) # rest) =
     (case runs rest of
        [] \<Rightarrow> [(u, [(t, xs)])]
      | (u', run) # es \<Rightarrow> if u' = u then (u, (t, xs) # run) # es else (u, [(t, xs)]) # (u', run) # es)"

definition run_rows :: "bytes \<times> 'tag run \<Rightarrow> ('tag group_key \<times> interval list) list" where
  "run_rows e = map (\<lambda>(t, xs). ((fst e, t), xs)) (snd e)"

fun run_segments :: "('tag \<Rightarrow> string) \<Rightarrow> 'tag run \<Rightarrow> string list" where
  "run_segments tag_str [] = []"
| "run_segments tag_str ((t, xs) # run) =
     (case t of None \<Rightarrow> [] | Some x \<Rightarrow> [tag_str x]) @ map interval_segment xs @ run_segments tag_str run"

definition entry_text :: "('tag \<Rightarrow> string) \<Rightarrow> bytes \<times> 'tag run \<Rightarrow> string" where
  "entry_text tag_str e = joined (CHR '':'') (format_uuid (fst e) # run_segments tag_str (snd e))"

lemma runs_rows: "concat (map run_rows (runs rows)) = rows"
  by (induction rows rule: runs.induct) (auto simp: run_rows_def split: list.splits prod.splits)

lemma runs_nonempty: "e \<in> set (runs rows) \<Longrightarrow> snd e \<noteq> []"
  by (induction rows rule: runs.induct) (auto split: list.splits prod.splits if_splits)

lemma runs_head: "runs (((u, t), xs) # rest) = e # es \<Longrightarrow> fst e = u"
  by (auto split: list.splits prod.splits if_splits)

lemma runs_eq_Nil: "runs rows = [] \<longleftrightarrow> rows = []"
  by (cases rows) (auto split: list.splits prod.splits if_splits)

lemma joined_cons: "joined c (p # ps) = p @ concat (map (\<lambda>q. c # q) ps)"
  by (induction ps arbitrary: p) auto

definition row_text :: "('tag \<Rightarrow> string) \<Rightarrow> 'tag option \<Rightarrow> interval list \<Rightarrow> string" where
  "row_text tag_str t xs = (case t of Some x \<Rightarrow> '':'' @ tag_str x | None \<Rightarrow> []) @ concat (map interval_text xs)"

lemma interval_texts: "map (\<lambda>x. CHR '':'' # interval_segment x) xs = map interval_text xs"
  by (simp add: interval_text_segment)

lemma run_segments_text:
  "concat (map ((#) (CHR '':'')) (run_segments tag_str ((t, xs) # run))) =
     row_text tag_str t xs @ concat (map ((#) (CHR '':'')) (run_segments tag_str run))"
  by (simp add: row_text_def interval_texts comp_def split: option.splits)

lemma entry_text_value:
  "entry_text tag_str (u, run) = format_uuid u @ concat (map ((#) (CHR '':'')) (run_segments tag_str run))"
  by (simp add: entry_text_def joined_cons)

lemma display_rest:
  "display_groups tag_str (Some u) (((u', t), xs) # rest) =
     (if u' = u then [] else '','' @ format_uuid u') @ row_text tag_str t xs @ display_groups tag_str (Some u') rest"
  by (simp add: row_text_def)

lemma display_runs:
  "joined (CHR '','') (map (entry_text tag_str) (runs (((u, t), xs) # rest))) =
     format_uuid u @ row_text tag_str t xs @ display_groups tag_str (Some u) rest"
proof (induction rest arbitrary: u t xs)
  case Nil
  then show ?case by (simp add: entry_text_value run_segments_text del: run_segments.simps(2))
next
  case (Cons r rest)
  obtain u' t' xs' where r: "r = ((u', t'), xs')" by (metis prod.collapse)
  obtain run es where e: "runs (r # rest) = (u', run) # es"
    using runs_eq_Nil [of "r # rest"] runs_head [of u' t' xs' rest] r by (cases "runs (r # rest)") auto
  note IH = Cons.IH [of u' t' xs', folded r, unfolded e]
  show ?case
  proof (cases "u' = u")
    case True
    then have h: "runs (((u, t), xs) # r # rest) = (u, (t, xs) # run) # es" using e by simp
    show ?thesis using IH True
      by (simp add: h [unfolded r True] r joined_cons entry_text_value run_segments_text display_rest
          del: runs.simps display_groups.simps run_segments.simps(2))
  next
    case False
    then have h: "runs (((u, t), xs) # r # rest) = (u, [(t, xs)]) # (u', run) # es" using e by simp
    show ?thesis using IH False
      by (simp add: h [unfolded r] r joined_cons entry_text_value run_segments_text display_rest
          del: runs.simps display_groups.simps run_segments.simps(2))
  qed
qed

lemma display_gtid_set_entries:
  "display_gtid_set tag_str gs = joined (CHR '','') (map (entry_text tag_str) (runs (groups gs)))"
proof (cases "groups gs")
  case (Cons r rest)
  obtain u t xs where r: "r = ((u, t), xs)" by (metis prod.collapse)
  show ?thesis
    using display_runs [of tag_str u t xs rest]
    by (simp add: display_gtid_set_def tbl_iter_def Cons r row_text_def del: runs.simps)
qed (simp add: display_gtid_set_def tbl_iter_def)

section \<open>Parsing the canonical text\<close>

definition good_run :: "('tag :: linorder) run \<Rightarrow> bool" where
  "good_run run \<longleftrightarrow> (\<forall>(t, xs)\<in>set run. xs \<noteq> [] \<and> normal xs)"

lemma parse_tag_segment:
  assumes "tag_codec tag_new tag_str"
  shows "parse_segments tag_new tag_str entry uuid (tag_str x # segs) tag True gs =
    parse_segments tag_new tag_str entry uuid segs (Some x) False gs"
  using assms by (cases "tag_str x") (auto simp: tag_codec_def check_tag_def dest: spec [of _ x])

lemma parse_run:
  assumes "tag_codec tag_new tag_str" "good_run run"
    "sorted_wrt (<) (map fst (groups gs @ run_rows (u, run)))"
    "tag0 = None \<or> None \<notin> fst ` set run"
  shows "parse_segments tag_new tag_str entry u (run_segments tag_str run) tag0 True gs =
    Inr (gs\<lparr>groups := groups gs @ run_rows (u, run)\<rparr>)"
  using assms(2-4)
proof (induction run arbitrary: gs tag0)
  case Nil
  then show ?case by (simp add: run_rows_def)
next
  case (Cons r run)
  obtain t xs where r: "r = (t, xs)" by fastforce
  let ?gs = "gs\<lparr>groups := groups gs @ [((u, t), xs)]\<rparr>"
  have xs: "xs \<noteq> []" "normal xs" and good: "good_run run" using Cons.prems(1) by (auto simp: good_run_def r)
  have rows: "run_rows (u, r # run) = ((u, t), xs) # run_rows (u, run)" by (simp add: run_rows_def r)
  have before: "\<forall>q\<in>set (groups gs). fst q < (u, t)"
    using Cons.prems(2) unfolding rows by (auto simp: sorted_wrt_append)
  have sorted: "sorted_wrt (<) (map fst (groups ?gs @ run_rows (u, run)))"
    using Cons.prems(2) by (simp add: rows)
  have after: "t < s" if "s \<in> fst ` set run" for s
  proof -
    have "(u, s) \<in> fst ` set (run_rows (u, run))" using that by (force simp: run_rows_def)
    then have "(u, t) < (u, s)" using Cons.prems(2) unfolding rows by (auto simp: sorted_wrt_append)
    then show ?thesis by simp
  qed
  have some: "t = None \<or> None \<notin> fst ` set run" using after by fastforce
  have IH: "parse_segments tag_new tag_str entry u (run_segments tag_str run) t True ?gs =
      Inr (?gs\<lparr>groups := groups ?gs @ run_rows (u, run)\<rparr>)"
    by (rule Cons.IH [OF good sorted some])
  show ?case
  proof (cases t)
    case None
    then have "tag0 = None" using Cons.prems(3) r by force
    then show ?thesis
      using IH parse_group_intervals [OF before xs(2,1)] rows None by (simp add: r del: parse_segments.simps)
  next
    case (Some x)
    then show ?thesis
      using IH parse_group_intervals [OF before xs(2,1)] rows
      by (simp add: r parse_tag_segment [OF assms(1)] del: parse_segments.simps)
  qed
qed

definition segment_char :: "char \<Rightarrow> bool" where
  "segment_char c \<longleftrightarrow> is_digit c \<or> tag_start c \<or> c = CHR ''-''"

lemma segment_char_not: "segment_char c \<Longrightarrow> c \<noteq> CHR '':'' \<and> c \<noteq> CHR '','' \<and> \<not> is_white c"
  by (auto simp: segment_char_def is_digit_def tag_start_def is_white_def)

lemma interval_segment_chars: "c \<in> set (interval_segment p) \<Longrightarrow> segment_char c"
  using u64_string_chars by (auto simp: interval_segment_def segment_char_def split: if_splits)

lemma run_segments_chars:
  "tag_codec tag_new tag_str \<Longrightarrow> s \<in> set (run_segments tag_str run) \<Longrightarrow> c \<in> set s \<Longrightarrow> segment_char c"
  by (induction tag_str run rule: run_segments.induct)
     (auto simp: interval_segment_chars tag_codec_def segment_char_def split: option.splits dest: interval_segment_chars)

lemma hex_digit_char: "n < 16 \<Longrightarrow> segment_char (hex_digit n)"
  using hex_digit_code [of n] by (auto simp: segment_char_def is_digit_def tag_start_def)

lemma format_uuid_chars: "c \<in> set (format_uuid u) \<Longrightarrow> segment_char c"
proof -
  assume c: "c \<in> set (format_uuid u)"
  have dash: "segment_char (CHR ''-'')" by (simp add: segment_char_def)
  from c dash hex_digit_char [OF nibble(1)] hex_digit_char [OF nibble(2)] show ?thesis
    by (auto simp: format_uuid_def hex_byte_def split: if_splits)
qed

lemma entry_segments:
  assumes "tag_codec tag_new tag_str"
  shows "split_on (CHR '':'') (entry_text tag_str e) = format_uuid (fst e) # run_segments tag_str (snd e)"
  unfolding entry_text_def
  by (rule split_on_joined)
     (use segment_char_not format_uuid_chars run_segments_chars [OF assms] in fastforce)+

lemma entry_text_chars:
  assumes "tag_codec tag_new tag_str" "c \<in> set (entry_text tag_str e)"
  shows "c \<noteq> CHR '','' \<and> \<not> is_white c"
proof -
  have "segment_char c \<or> c = CHR '':''"
    using assms(2) format_uuid_chars run_segments_chars [OF assms(1)]
    by (cases e) (auto simp: entry_text_value split: if_splits)
  then show ?thesis using segment_char_not by (auto simp: is_white_def)
qed

lemma run_segments_nonempty: "good_run run \<Longrightarrow> run \<noteq> [] \<Longrightarrow> run_segments tag_str run \<noteq> []"
  by (cases run) (auto simp: good_run_def)

lemma parse_entries_text:
  assumes "tag_codec tag_new tag_str"
    "\<forall>e\<in>set es. length (fst e) = 16 \<and> snd e \<noteq> [] \<and> good_run (snd e)"
    "sorted_wrt (<) (map fst (groups gs @ concat (map run_rows es)))"
  shows "parse_entries tag_new tag_str gs (map (entry_text tag_str) es) =
    Inr (gs\<lparr>groups := groups gs @ concat (map run_rows es)\<rparr>)"
  using assms(2,3)
proof (induction es arbitrary: gs)
  case (Cons e es)
  let ?gs = "gs\<lparr>groups := groups gs @ run_rows e\<rparr>"
  have "parse_segments tag_new tag_str (entry_text tag_str e) (fst e) (run_segments tag_str (snd e)) None True gs = Inr ?gs"
    using parse_run [OF assms(1), of "snd e" gs "fst e" None] Cons.prems by (simp add: sorted_wrt_append)
  then have "parse_entry tag_new tag_str gs (entry_text tag_str e) = Inr ?gs"
    using Cons.prems(1) run_segments_nonempty [of "snd e"]
    by (simp add: parse_entry_def entry_segments [OF assms(1)] parse_format_uuid Let_def)
  then show ?case using Cons.IH [of ?gs] Cons.prems by simp
qed simp

lemma runs_good:
  assumes "\<forall>(key, xs)\<in>set rows. length (fst key) = 16 \<and> xs \<noteq> [] \<and> normal xs" "e \<in> set (runs rows)"
  shows "length (fst e) = 16 \<and> snd e \<noteq> [] \<and> good_run (snd e)"
proof -
  have "set rows = (\<Union>e\<in>set (runs rows). set (run_rows e))" by (subst runs_rows [symmetric]) simp
  then have e: "set (run_rows e) \<subseteq> set rows" using assms(2) by blast
  have ne: "snd e \<noteq> []" using runs_nonempty assms(2) .
  then obtain t xs where "(t, xs) \<in> set (snd e)" by (cases "snd e") auto
  then have "((fst e, t), xs) \<in> set rows" using e by (force simp: run_rows_def)
  then have "length (fst e) = 16" using assms(1) by auto
  moreover have "good_run (snd e)" using e assms(1) by (fastforce simp: run_rows_def good_run_def)
  ultimately show ?thesis using ne by blast
qed

lemma canonical_text_parses:
  assumes "valid_set gs" "tag_codec tag_new tag_str"
  shows "gtid_from_str tag_new tag_str (display_gtid_set tag_str gs) = Inr gs"
proof (cases "groups gs = []")
  case True
  then show ?thesis
    by (simp add: display_gtid_set_def tbl_iter_def gtid_from_str_def empty_set_def)
next
  case False
  let ?es = "runs (groups gs)" let ?txt = "display_gtid_set tag_str gs"
  have es: "?es \<noteq> []" using False by (simp add: runs_eq_Nil)
  have no: "\<forall>p\<in>set (map (entry_text tag_str) ?es). \<forall>c\<in>set p. c \<noteq> CHR '','' \<and> \<not> is_white c"
    using entry_text_chars [OF assms(2)] by auto
  have shown: "?txt = joined (CHR '','') (map (entry_text tag_str) ?es)" by (rule display_gtid_set_entries)
  have "set (joined c ps) \<subseteq> insert c (\<Union> (set ` set ps))" for c ps
    by (induction c ps rule: joined.induct) auto
  then have "\<not> is_white c" if "c \<in> set ?txt" for c
    using that no unfolding shown by (fastforce simp: is_white_def)
  then have compact: "filter (\<lambda>c. \<not> is_white c) ?txt = ?txt" by (simp add: filter_id_conv)
  have split: "split_on (CHR '','') ?txt = map (entry_text tag_str) ?es"
    unfolding shown by (rule split_on_joined) (use es no in auto)
  have good: "\<forall>e\<in>set ?es. length (fst e) = 16 \<and> snd e \<noteq> [] \<and> good_run (snd e)"
    using runs_good [of "groups gs"] assms(1) by (simp add: valid_set_def)
  have "parse_entries tag_new tag_str empty_set (map (entry_text tag_str) ?es) =
      Inr (empty_set\<lparr>groups := groups empty_set @ concat (map run_rows ?es)\<rparr>)"
    by (rule parse_entries_text [OF assms(2) good])
       (use assms(1) in \<open>simp add: empty_set_def runs_rows valid_set_def tbl_wf_def\<close>)
  then have parsed: "parse_entries tag_new tag_str empty_set (map (entry_text tag_str) ?es) = Inr gs"
    by (simp add: empty_set_def runs_rows)
  have "?txt \<noteq> []"
  proof
    assume "?txt = []"
    then obtain e where e: "e \<in> set ?es" "entry_text tag_str e = []" using split by auto
    then show False
      using entry_segments [OF assms(2), of e] run_segments_nonempty [of "snd e" tag_str] good by auto
  qed
  then show ?thesis using parsed by (simp add: gtid_from_str_def compact split)
qed

text \<open>
  C33. The canonical text of a set parses back to that set: UUIDs in lower case and ascending, the
  groups of one UUID joined into one entry, the tags sorted, single numbers without a dash. Two
  sets print the same only when they are equal. The hypothesis on tags is what their library
  documents of their syntax.
\<close>

theorem gtid_text_roundtrip:
  assumes "valid_set gs" "valid_set hs" "tag_codec tag_new tag_str"
  shows "gtid_from_str tag_new tag_str (display_gtid_set tag_str gs) = Inr gs \<and>
    (display_gtid_set tag_str gs = display_gtid_set tag_str hs \<longleftrightarrow> gs = hs)"
proof (rule conjI)
  show one: "gtid_from_str tag_new tag_str (display_gtid_set tag_str gs) = Inr gs"
    by (rule canonical_text_parses [OF assms(1,3)])
  show "display_gtid_set tag_str gs = display_gtid_set tag_str hs \<longleftrightarrow> gs = hs"
    using one canonical_text_parses [OF assms(2,3)] by (metis sum.inject(2))
qed

theorem gtid_text_roundtrip_witness:
  "gtid_from_str (\<lambda>s. Inr (s = ''b'')) (\<lambda>b. if b then ''b'' else ''a'') (display_gtid_set (\<lambda>b. if b then ''b'' else ''a'')
     \<lparr>groups = [((replicate 16 1, None), [(1, 5), (7, 7)]), ((replicate 16 1, Some True), [(9, 9)])]\<rparr>) =
   Inr \<lparr>groups = [((replicate 16 1, None), [(1, 5), (7, 7)]), ((replicate 16 1, Some True), [(9, 9)])]\<rparr>"
proof (rule gtid_text_roundtrip [THEN conjunct1])
  show "valid_set \<lparr>groups = [((replicate 16 1, None), [(1, 5), (7, 7)]), ((replicate 16 1, Some True), [(9, 9)])]\<rparr>"
    by (simp add: valid_set_def tbl_wf_def normal_Cons ok_interval_def)
  show "valid_set \<lparr>groups = [((replicate 16 1, None), [(1, 5), (7, 7)]), ((replicate 16 1, Some True), [(9, 9)])]\<rparr>"
    by (simp add: valid_set_def tbl_wf_def normal_Cons ok_interval_def)
  show "tag_codec (\<lambda>s. Inr (s = ''b'')) (\<lambda>b. if b then ''b'' else ''a'')"
    by (auto simp: tag_codec_def tag_start_def)
qed

theorem gtid_from_str_valid_witness:
  "valid_set (projr (gtid_from_str (\<lambda>s. Inr (s = ''b'')) (\<lambda>b. if b then ''b'' else ''a'')
     (display_gtid_set (\<lambda>b. if b then ''b'' else ''a'') \<lparr>groups = [((replicate 16 1, Some False), [(1, 5)])]\<rparr>)))"
proof -
  let ?gs = "\<lparr>groups = [((replicate 16 1, Some False), [(1, 5)])]\<rparr>"
  have "valid_set ?gs" by (simp add: valid_set_def tbl_wf_def normal_Cons ok_interval_def)
  moreover have "tag_codec (\<lambda>s. Inr (s = ''b'')) (\<lambda>b. if b then ''b'' else ''a'')"
    by (auto simp: tag_codec_def tag_start_def)
  ultimately have "gtid_from_str (\<lambda>s. Inr (s = ''b'')) (\<lambda>b. if b then ''b'' else ''a'')
      (display_gtid_set (\<lambda>b. if b then ''b'' else ''a'') ?gs) = Inr ?gs"
    by (rule canonical_text_parses)
  from gtid_from_str_valid [OF this] this show ?thesis by simp
qed

end
