(* ===== verification/Holes.thy ===== *)
theory Holes
  imports Prelude
begin

text \<open>
  The tracker of holes in an \<^verbatim>\<open>AUTO_INCREMENT\<close> cursor,
  \<^verbatim>\<open>saci-connector-mariadb/src/source/sequence.rs\<close>. Instants and durations are numbers of
  nanoseconds, an \<^verbatim>\<open>i128\<close> is an integer whose subtraction wraps, a hash map is a partial function
  and a hash set a set. Asking the server for its transactions is not modelled: what it answered is
  the argument of \<open>trim\<close> and \<open>attach\<close>.
\<close>

section \<open>Data\<close>

definition wrap_i128 :: "int \<Rightarrow> int" where
  "wrap_i128 x = (x + 2 ^ 127) mod 2 ^ 128 - 2 ^ 127"

record hole =
  hole_last :: int
  hole_next :: int

datatype outcome = Settled | TimedOut | Capped

primrec outcome_label :: "outcome \<Rightarrow> string" where
  "outcome_label Settled = ''settled''"
| "outcome_label TimedOut = ''timeout''"
| "outcome_label Capped = ''cap''"

record passed_hole =
  ph_hole :: hole
  ph_outcome :: outcome

record release_result =
  deliver :: nat
  passed :: "passed_hole list"
  unattached :: "int list"

record open_hole =
  first_seen :: nat
  blockers :: "u64 set option"

record holes =
  timeout :: nat
  max_wait :: "nat option"
  seen :: "int \<rightharpoonup> open_hole"

section \<open>Operations\<close>

definition new_holes :: "nat \<Rightarrow> nat option \<Rightarrow> holes" where
  "new_holes t mw = \<lparr>timeout = t, max_wait = mw, seen = Map.empty\<rparr>"

definition tracking :: "holes \<Rightarrow> bool" where
  "tracking h \<longleftrightarrow> seen h \<noteq> Map.empty"

definition trim_holes :: "u64 set \<Rightarrow> holes \<Rightarrow> holes" where
  "trim_holes active h = h\<lparr>seen := (\<lambda>k. map_option (\<lambda>op.
     op\<lparr>blockers := map_option (\<lambda>b. b \<inter> active) (blockers op)\<rparr>) (seen h k))\<rparr>"

definition attach_one :: "u64 set \<Rightarrow> int \<Rightarrow> holes \<Rightarrow> holes" where
  "attach_one active key h =
     (case seen h key of
        Some op \<Rightarrow> if blockers op = None then h\<lparr>seen := (seen h)(key \<mapsto> op\<lparr>blockers := Some active\<rparr>)\<rparr> else h
      | None \<Rightarrow> h)"

definition attach :: "int list \<Rightarrow> u64 set \<Rightarrow> holes \<Rightarrow> holes" where
  "attach keys active h = fold (attach_one active) keys h"

definition settled :: "int list \<Rightarrow> holes \<Rightarrow> bool" where
  "settled keys h \<longleftrightarrow>
     (\<exists>key\<in>set keys. case seen h key of None \<Rightarrow> False
        | Some op \<Rightarrow> (case blockers op of None \<Rightarrow> False | Some b \<Rightarrow> b = {}))"

definition forget_evidence :: "holes \<Rightarrow> holes" where
  "forget_evidence h = h\<lparr>seen := (\<lambda>k. map_option (\<lambda>op. op\<lparr>blockers := None\<rparr>) (seen h k))\<rparr>"

text \<open>\<^verbatim>\<open>saturating_duration_since\<close> is subtraction of naturals.\<close>

definition verdict :: "holes \<Rightarrow> open_hole \<Rightarrow> nat \<Rightarrow> outcome option" where
  "verdict h op now =
     (let age = now - first_seen op in
      case blockers op of
        Some b \<Rightarrow>
          if b = {} then Some Settled
          else (case max_wait h of None \<Rightarrow> None | Some mw \<Rightarrow> if age \<ge> mw then Some Capped else None)
      | None \<Rightarrow> if age \<ge> timeout h then Some TimedOut else None)"

text \<open>One step of the loop of \<open>release\<close>: the known holes that are left, the holes kept, and the result.\<close>

record release_state =
  rs_known :: "int \<rightharpoonup> open_hole"
  rs_seen :: "int \<rightharpoonup> open_hole"
  rs_deliver :: nat
  rs_passed :: "passed_hole list"
  rs_unattached :: "int list"
  rs_previous :: int

definition release_step :: "holes \<Rightarrow> nat \<Rightarrow> int \<Rightarrow> nat \<Rightarrow> nat \<times> int \<Rightarrow> release_state \<Rightarrow> release_state" where
  "release_step h now step len iv st =
     (let (index, value) = iv; previous = rs_previous st in
      if wrap_i128 (value - previous) > step then
        let op = (case rs_known st value of Some op \<Rightarrow> op
                  | None \<Rightarrow> \<lparr>first_seen = now, blockers = None\<rparr>);
            una = (if blockers op = None then rs_unattached st @ [value] else rs_unattached st);
            (dlv, psd) =
              (if rs_deliver st = len then
                 (case verdict h op now of
                    Some oc \<Rightarrow> (rs_deliver st, rs_passed st @
                      [\<lparr>ph_hole = \<lparr>hole_last = previous, hole_next = value\<rparr>, ph_outcome = oc\<rparr>])
                  | None \<Rightarrow> (index, rs_passed st))
               else (rs_deliver st, rs_passed st))
        in \<lparr>rs_known = (rs_known st)(value := None), rs_seen = (rs_seen st)(value \<mapsto> op), rs_deliver = dlv,
            rs_passed = psd, rs_unattached = una, rs_previous = value\<rparr>
      else st\<lparr>rs_previous := value\<rparr>)"

definition release :: "nat \<Rightarrow> int \<Rightarrow> int option \<Rightarrow> int list \<Rightarrow> holes \<Rightarrow> release_result \<times> holes" where
  "release now step last_value vals h =
     (let st = fold (release_step h now step (length vals)) (enumerate 0 vals)
            \<lparr>rs_known = seen h, rs_seen = Map.empty, rs_deliver = length vals, rs_passed = [],
             rs_unattached = [], rs_previous = (case last_value of Some v \<Rightarrow> v | None \<Rightarrow> 0)\<rparr>
      in (\<lparr>deliver = rs_deliver st, passed = rs_passed st, unattached = rs_unattached st\<rparr>,
          h\<lparr>seen := rs_seen st\<rparr>))"

definition canary_writers :: "(u64 \<times> u64 \<times> u64) list \<Rightarrow> u64 set option" where
  "canary_writers rows =
     (if \<not> list_ex (\<lambda>(_, _, running). running \<noteq> 0) rows then None
      else Some (set (map (\<lambda>(i, _, _). i) (filter (\<lambda>(_, own, _). own = 0) rows))))"

end
