(* ===== verification/Holes_Properties.thy ===== *)
theory Holes_Properties
  imports Holes
begin

text \<open>
  What the tracker releases, as a function of the gaps in the rows read; when a gap is passed for
  lack of a transaction that could fill it, and that no row is released over a gap otherwise.
\<close>

section \<open>The gaps of a read\<close>

fun gaps :: "int \<Rightarrow> nat \<Rightarrow> int \<Rightarrow> int list \<Rightarrow> (nat \<times> int \<times> int) list" where
  "gaps step i prev [] = []"
| "gaps step i prev (v # vs) = (if v - prev > step then [(i, prev, v)] else []) @ gaps step (i + 1) v vs"

definition hole_of :: "holes \<Rightarrow> nat \<Rightarrow> int \<Rightarrow> open_hole" where
  "hole_of h now v = (case seen h v of Some op \<Rightarrow> op | None \<Rightarrow> \<lparr>first_seen = now, blockers = None\<rparr>)"

definition passable :: "holes \<Rightarrow> nat \<Rightarrow> nat \<times> int \<times> int \<Rightarrow> bool" where
  "passable h now g \<longleftrightarrow> verdict h (hole_of h now (snd (snd g))) now \<noteq> None"

definition passed_of :: "holes \<Rightarrow> nat \<Rightarrow> nat \<times> int \<times> int \<Rightarrow> passed_hole" where
  "passed_of h now g = \<lparr>ph_hole = \<lparr>hole_last = fst (snd g), hole_next = snd (snd g)\<rparr>,
     ph_outcome = the (verdict h (hole_of h now (snd (snd g))) now)\<rparr>"

definition first_index :: "nat \<Rightarrow> (nat \<times> int \<times> int) list \<Rightarrow> nat" where
  "first_index len gs = (case gs of [] \<Rightarrow> len | g # _ \<Rightarrow> fst g)"

text \<open>A cursor read: ascending values that a 64-bit column can hold, after the last one delivered.\<close>

definition ascending :: "int \<Rightarrow> int list \<Rightarrow> bool" where
  "ascending prev vals \<longleftrightarrow> sorted (prev # vals) \<and> (\<forall>v\<in>set (prev # vals). \<bar>v\<bar> \<le> 2 ^ 64)"

lemma ascending_Cons: "ascending prev (v # vs) \<Longrightarrow> prev \<le> v \<and> \<bar>prev\<bar> \<le> 2 ^ 64 \<and> \<bar>v\<bar> \<le> 2 ^ 64 \<and> ascending v vs"
  by (auto simp: ascending_def)

lemma wrap_i128_id: "\<bar>x\<bar> \<le> 2 ^ 65 \<Longrightarrow> wrap_i128 x = x"
  by (simp add: wrap_i128_def abs_le_iff)

lemma gaps_after: "ascending prev vals \<Longrightarrow> 0 \<le> step \<Longrightarrow> (j, a, v) \<in> set (gaps step i prev vals) \<Longrightarrow> prev < v"
proof (induction vals arbitrary: i prev)
  case (Cons x vs)
  then show ?case using ascending_Cons [OF Cons.prems(1)]
    by (fastforce split: if_splits)
qed simp

lemma gaps_index: "(j, a, v) \<in> set (gaps step i prev vals) \<Longrightarrow> i \<le> j \<and> j < i + length vals"
  by (induction vals arbitrary: i prev) (fastforce split: if_splits)+

section \<open>The loop\<close>

lemma release_fold:
  assumes "ascending (rs_previous st) vals" "0 \<le> step" "i + length vals = len"
    "\<forall>v > rs_previous st. rs_known st v = seen h v"
    "rs_deliver st \<le> len"
  shows "let G = gaps step i (rs_previous st) vals;
             st' = fold (release_step h now step len) (enumerate i vals) st in
      rs_seen st' = (\<lambda>v. if v \<in> (snd \<circ> snd) ` set G then Some (hole_of h now v) else rs_seen st v) \<and>
      rs_unattached st' = rs_unattached st @
        filter (\<lambda>v. blockers (hole_of h now v) = None) (map (snd \<circ> snd) G) \<and>
      rs_passed st' = rs_passed st @
        (if rs_deliver st = len then map (passed_of h now) (takeWhile (passable h now) G) else []) \<and>
      rs_deliver st' = (if rs_deliver st = len then first_index len (dropWhile (passable h now) G) else rs_deliver st)"
  using assms
proof (induction vals arbitrary: i st)
  case Nil
  then show ?case by (simp add: first_index_def)
next
  case (Cons v vs)
  let ?p = "rs_previous st"
  let ?st = "release_step h now step len (i, v) st"
  have asc: "?p \<le> v" "ascending v vs" and w: "wrap_i128 (v - ?p) = v - ?p"
    using ascending_Cons [OF Cons.prems(1)] by (auto intro!: wrap_i128_id)
  have prev: "rs_previous ?st = v"
    by (simp add: release_step_def Let_def split: prod.splits)
  have known: "\<forall>x > rs_previous ?st. rs_known ?st x = seen h x"
    using Cons.prems(4) asc(1) by (auto simp: prev) (auto simp: release_step_def Let_def split: prod.splits)
  have dlv: "rs_deliver ?st \<le> len"
    using Cons.prems(3,5) by (auto simp: release_step_def Let_def split: prod.splits option.splits)
  note IH = Cons.IH [of ?st "i + 1", unfolded prev, OF asc(2) Cons.prems(2) _ known [unfolded prev] dlv]
  show ?case
  proof (cases "v - ?p > step")
    case False
    then have "?st = st\<lparr>rs_previous := v\<rparr>" by (simp add: release_step_def Let_def w)
    then have "rs_seen ?st = rs_seen st" "rs_unattached ?st = rs_unattached st"
      "rs_passed ?st = rs_passed st" "rs_deliver ?st = rs_deliver st" by simp_all
    then show ?thesis using IH Cons.prems(3) False by (auto simp: Let_def fun_eq_iff)
  next
    case True
    then have "rs_known st v = seen h v" using Cons.prems(2,4) by simp
    then have op: "(case rs_known st v of Some op \<Rightarrow> op | None \<Rightarrow> \<lparr>first_seen = now, blockers = None\<rparr>) = hole_of h now v"
      by (simp add: hole_of_def)
    let ?un = "if blockers (hole_of h now v) = None then rs_unattached st @ [v] else rs_unattached st"
    have st: "rs_seen ?st = (rs_seen st)(v \<mapsto> hole_of h now v)" "rs_unattached ?st = ?un"
      using True by (simp_all add: release_step_def Let_def w op split: prod.splits)
    have i: "i < len" using Cons.prems(3) by simp
    have res: "rs_passed ?st = rs_passed st @ (if rs_deliver st = len \<and> passable h now (i, ?p, v) then [passed_of h now (i, ?p, v)] else [])"
      "rs_deliver ?st = (if rs_deliver st = len \<and> \<not> passable h now (i, ?p, v) then i else rs_deliver st)"
      using True by (auto simp: release_step_def Let_def w op passable_def passed_of_def split: prod.splits option.splits)
    show ?thesis
      using IH Cons.prems(3) True i st res
      by (cases "rs_deliver st = len"; cases "passable h now (i, ?p, v)")
        (auto simp: Let_def fun_eq_iff first_index_def)
  qed
qed

lemma release_value:
  assumes "ascending prev vals" "0 \<le> step" "prev = (case last_value of Some v \<Rightarrow> v | None \<Rightarrow> 0)"
    "release now step last_value vals h = (r, h')"
  defines "G \<equiv> gaps step 0 prev vals"
  shows "seen h' = (\<lambda>v. if v \<in> (snd \<circ> snd) ` set G then Some (hole_of h now v) else None)"
    and "unattached r = filter (\<lambda>v. blockers (hole_of h now v) = None) (map (snd \<circ> snd) G)"
    and "passed r = map (passed_of h now) (takeWhile (passable h now) G)"
    and "deliver r = first_index (length vals) (dropWhile (passable h now) G)"
    and "timeout h' = timeout h \<and> max_wait h' = max_wait h"
  using release_fold [of "\<lparr>rs_known = seen h, rs_seen = Map.empty, rs_deliver = length vals, rs_passed = [],
      rs_unattached = [], rs_previous = prev\<rparr>" vals step 0 "length vals" h now] assms
  by (auto simp: release_def Let_def)

text \<open>
  No row is handed over past a hole that may still be filled. For rows read in ascending order
  after the last one delivered, the rows released are exactly those before the first gap the tracker
  may not pass yet (all of them when there is none); the gaps before it are reported as passed, in
  order and each with its reason; and every gap of the read, held back or not, keeps the clock and the
  transactions it had, starting now when it is new, while a hole no longer in the read is forgotten.
\<close>

theorem release_exact:
  assumes "ascending prev vals" "0 \<le> step" "prev = (case last_value of Some v \<Rightarrow> v | None \<Rightarrow> 0)"
    "release now step last_value vals h = (r, h')"
  shows "passed r = map (passed_of h now) (filter (\<lambda>g. fst g < deliver r) (gaps step 0 prev vals)) \<and>
    (\<forall>g\<in>set (gaps step 0 prev vals). fst g < deliver r \<longrightarrow> passable h now g) \<and>
    (deliver r \<le> length vals \<and> (deliver r < length vals \<longrightarrow>
      (\<exists>g\<in>set (gaps step 0 prev vals). fst g = deliver r \<and> \<not> passable h now g))) \<and>
    seen h' = (\<lambda>v. if v \<in> (snd \<circ> snd) ` set (gaps step 0 prev vals) then Some (hole_of h now v) else None)"
proof -
  let ?G = "gaps step 0 prev vals"
  note v = release_value [OF assms]
  have sorted: "sorted_wrt (\<lambda>a b. fst a < fst b) (gaps step i p xs)" for i p xs
    by (induction xs arbitrary: i p) (fastforce dest: gaps_index)+
  let ?A = "takeWhile (passable h now) ?G" and ?B = "dropWhile (passable h now) ?G"
  have ab: "?G = ?A @ ?B" by simp
  have sB: "sorted_wrt (\<lambda>a b. fst a < fst b) ?B"
    using sorted [of 0 prev vals] sorted_wrt_append [of "\<lambda>a b. fst a < fst b" ?A ?B] by simp
  have lt: "fst a < fst b" if "a \<in> set ?A" "b \<in> set ?B" for a b
    using sorted [of 0 prev vals] sorted_wrt_append [of "\<lambda>a b. fst a < fst b" ?A ?B] that by simp
  have len: "fst g < length vals" if "g \<in> set ?G" for g
    using gaps_index [of "fst g" "fst (snd g)" "snd (snd g)" step 0 prev vals] that by simp
  have B: "fst b \<ge> deliver r" if "b \<in> set ?B" for b
    using that sB v(4) by (cases ?B) (auto simp: first_index_def)
  have A: "fst a < deliver r" if "a \<in> set ?A" for a
    using that lt len [of a] v(4) set_takeWhileD [OF that]
    by (cases ?B) (auto simp: first_index_def)
  have "filter (\<lambda>g. fst g < deliver r) ?A = ?A" using A by (simp add: filter_id_conv)
  moreover have "filter (\<lambda>g. fst g < deliver r) ?B = []" using B by (force simp: filter_empty_conv)
  ultimately have f: "filter (\<lambda>g. fst g < deliver r) ?G = ?A"
    using filter_append [of "\<lambda>g. fst g < deliver r" ?A ?B] by (simp only: takeWhile_dropWhile_id append_Nil2)
  have "passed r = map (passed_of h now) (filter (\<lambda>g. fst g < deliver r) ?G)"
    using v(3) f by simp
  moreover have "\<forall>g\<in>set ?G. fst g < deliver r \<longrightarrow> passable h now g"
  proof (intro ballI impI)
    fix g assume "g \<in> set ?G" "fst g < deliver r"
    then have "g \<in> set (filter (\<lambda>g. fst g < deliver r) ?G)" by simp
    then show "passable h now g" unfolding f by (rule conjunct2 [OF set_takeWhileD])
  qed
  moreover have "deliver r \<le> length vals \<and> (deliver r < length vals \<longrightarrow>
      (\<exists>g\<in>set ?G. fst g = deliver r \<and> \<not> passable h now g))"
  proof (cases ?B)
    case Nil
    have "deliver r = length vals" using v(4) unfolding Nil by (simp add: first_index_def)
    then show ?thesis by simp
  next
    case (Cons g gs)
    have "g \<in> set ?B" by (simp add: Cons)
    then have "g \<in> set ?G" by (rule set_dropWhileD)
    moreover have "\<not> passable h now g" using hd_dropWhile [of "passable h now" ?G] by (simp add: Cons)
    ultimately have g: "g \<in> set ?G" "\<not> passable h now g" .
    then show ?thesis using v(4) Cons len [OF g(1)] by (auto simp: first_index_def)
  qed
  ultimately show ?thesis using v(1) by blast
qed

theorem release_exact_witness:
  "deliver (fst (release 5 1 (Some 1) [2, 4, 5] (new_holes 10 None))) \<le> 3 \<and>
   fst (release 5 1 (Some 1) [2, 4, 5] (new_holes 10 None)) = \<lparr>deliver = 1, passed = [], unattached = [4]\<rparr>"
proof
  show "deliver (fst (release 5 1 (Some 1) [2, 4, 5] (new_holes 10 None))) \<le> 3"
    using release_exact [of 1 "[2, 4, 5]" 1 "Some 1" 5 "new_holes 10 None", OF _ _ _ prod.collapse [symmetric]]
    by (simp add: ascending_def)
  show "fst (release 5 1 (Some 1) [2, 4, 5] (new_holes 10 None)) = \<lparr>deliver = 1, passed = [], unattached = [4]\<rparr>"
    by (simp add: release_def release_step_def Let_def wrap_i128_def new_holes_def verdict_def)
qed

section \<open>Evidence\<close>

text \<open>What the reader does with a tracker, in order.\<close>

datatype tracker_op =
    OpTrim "u64 set"
  | OpAttach "int list" "u64 set"
  | OpForget
  | OpRelease nat int "int option" "int list"

fun run_op :: "tracker_op \<Rightarrow> holes \<Rightarrow> holes" where
  "run_op (OpTrim active) h = trim_holes active h"
| "run_op (OpAttach keys active) h = attach keys active h"
| "run_op OpForget h = forget_evidence h"
| "run_op (OpRelease now step last_value vals) h = snd (release now step last_value vals h)"

definition run_ops :: "tracker_op list \<Rightarrow> holes \<Rightarrow> holes" where
  "run_ops ops h = fold run_op ops h"

lemma attach_seen:
  "seen (attach keys active h) k =
     (case seen h k of None \<Rightarrow> None
      | Some op \<Rightarrow> Some (if k \<in> set keys \<and> blockers op = None then op\<lparr>blockers := Some active\<rparr> else op))"
  unfolding attach_def
  by (induction keys arbitrary: h) (auto simp: attach_one_def split: option.splits)

lemma release_seen_old:
  assumes "seen (snd (release now step lv vals h)) k = Some op" "blockers op = Some b"
  shows "seen h k = Some op"
proof -
  define inv where "inv = (\<lambda>st :: release_state. \<forall>k op. (rs_known st k = Some op \<longrightarrow> seen h k = Some op) \<and>
    (rs_seen st k = Some op \<longrightarrow> blockers op = None \<or> seen h k = Some op))"
  have step: "inv (release_step h now step len iv st)" if "inv st" for len iv st
    using that by (cases iv) (auto simp: inv_def release_step_def Let_def split: prod.splits option.splits)
  have fold: "inv (fold (release_step h now step len) xs st)" if "inv st" for len xs st
    using that step by (induction xs arbitrary: st) auto
  have "inv (fold (release_step h now step (length vals)) (enumerate 0 vals)
      \<lparr>rs_known = seen h, rs_seen = Map.empty, rs_deliver = length vals, rs_passed = [],
       rs_unattached = [], rs_previous = (case lv of Some v \<Rightarrow> v | None \<Rightarrow> 0)\<rparr>)"
    by (rule fold) (simp add: inv_def)
  then have "\<And>op. rs_seen (fold (release_step h now step (length vals)) (enumerate 0 vals)
      \<lparr>rs_known = seen h, rs_seen = Map.empty, rs_deliver = length vals, rs_passed = [],
       rs_unattached = [], rs_previous = (case lv of Some v \<Rightarrow> v | None \<Rightarrow> 0)\<rparr>) k = Some op \<Longrightarrow>
      blockers op = None \<or> seen h k = Some op"
    unfolding inv_def by blast
  from this [of op] show ?thesis using assms by (simp add: release_def Let_def)
qed

text \<open>
  The recorded transactions of a hole are those of one list, taken while the hole was open, less
  the ones a later list did not show; nothing withdrew the evidence in between.
\<close>

definition evidence :: "tracker_op list \<Rightarrow> int \<Rightarrow> u64 set \<Rightarrow> bool" where
  "evidence ops k b \<longleftrightarrow> (\<exists>pre keys active post. ops = pre @ OpAttach keys active # post \<and> k \<in> set keys \<and>
     OpForget \<notin> set post \<and> b = {x \<in> active. \<forall>later. OpTrim later \<in> set post \<longrightarrow> x \<in> later})"

lemma evidence_snoc:
  assumes "evidence ops k b" "op \<noteq> OpForget"
  shows "evidence (ops @ [op]) k (case op of OpTrim later \<Rightarrow> b \<inter> later | _ \<Rightarrow> b)"
proof -
  obtain pre keys active post where e: "ops = pre @ OpAttach keys active # post" "k \<in> set keys"
      "OpForget \<notin> set post" "b = {x \<in> active. \<forall>later. OpTrim later \<in> set post \<longrightarrow> x \<in> later}"
    using assms(1) unfolding evidence_def by blast
  have "(case op of OpTrim later \<Rightarrow> b \<inter> later | _ \<Rightarrow> b) =
      {x \<in> active. \<forall>later. OpTrim later \<in> set (post @ [op]) \<longrightarrow> x \<in> later}"
    unfolding e(4) by (cases op) auto
  moreover have "ops @ [op] = pre @ OpAttach keys active # (post @ [op])" "OpForget \<notin> set (post @ [op])"
    using e(1,3) assms(2) by auto
  ultimately show ?thesis using e(2) unfolding evidence_def by blast
qed

lemma step_evidence:
  assumes "seen (run_op x h) k = Some op" "blockers op = Some b"
    and IH: "\<And>op b. seen h k = Some op \<Longrightarrow> blockers op = Some b \<Longrightarrow> evidence ops k b"
  shows "evidence (ops @ [x]) k b"
proof (cases x)
  case (OpTrim later)
  then obtain o' b' where o': "seen h k = Some o'" "blockers o' = Some b'" "b = b' \<inter> later"
    using assms(1,2) by (auto simp: trim_holes_def)
  show ?thesis using evidence_snoc [OF IH [OF o'(1,2)], of x] OpTrim o'(3) by simp
next
  case (OpAttach keys active)
  then obtain o' where o': "seen h k = Some o'"
      "op = (if k \<in> set keys \<and> blockers o' = None then o'\<lparr>blockers := Some active\<rparr> else o')"
    using assms(1) by (auto simp: attach_seen split: option.splits)
  show ?thesis
  proof (cases "k \<in> set keys \<and> blockers o' = None")
    case True
    then have b: "b = active" using o'(2) assms(2) by simp
    have "ops @ [x] = ops @ OpAttach keys active # []" by (simp add: OpAttach)
    then show ?thesis unfolding evidence_def b using True
      by (intro exI [of _ ops] exI [of _ keys] exI [of _ active] exI [of _ "[]"]) simp
  next
    case False
    then have "op = o'" using o'(2) by meson
    then have "evidence ops k b" using IH [OF o'(1)] assms(2) by simp
    then show ?thesis using evidence_snoc [of ops k b x] OpAttach by simp
  qed
next
  case OpForget
  then show ?thesis using assms(1,2) by (auto simp: forget_evidence_def)
next
  case (OpRelease now step lv vals)
  then have "seen h k = Some op" using release_seen_old [OF _ assms(2)] assms(1) by simp
  then have "evidence ops k b" using IH assms(2) by blast
  then show ?thesis using evidence_snoc [of ops k b x] OpRelease by simp
qed

lemma recorded_evidence:
  "seen (run_ops ops (new_holes t mw)) k = Some op \<Longrightarrow> blockers op = Some b \<Longrightarrow> evidence ops k b"
proof (induction ops arbitrary: op b rule: rev_induct)
  case Nil
  then show ?case by (simp add: run_ops_def new_holes_def)
next
  case (snoc x ops)
  have "seen (run_op x (run_ops ops (new_holes t mw))) k = Some op"
    using snoc.prems(1) unfolding run_ops_def by simp
  then show ?case using snoc.prems(2) snoc.IH by (rule step_evidence)
qed

lemma run_ops_limits: "timeout (run_ops ops h) = timeout h \<and> max_wait (run_ops ops h) = max_wait h"
proof -
  have att: "timeout (attach keys active h) = timeout h \<and> max_wait (attach keys active h) = max_wait h" for keys active h
    unfolding attach_def by (induction keys arbitrary: h) (auto simp: attach_one_def split: option.splits)
  have "timeout (run_op x h) = timeout h \<and> max_wait (run_op x h) = max_wait h" for x h
    by (cases x) (simp_all add: att trim_holes_def forget_evidence_def release_def Let_def)
  then show ?thesis unfolding run_ops_def by (induction ops arbitrary: h) auto
qed

text \<open>
  Why a hole is passed. Whatever the tracker was asked to do before, a hole passed as settled was
  open when a list of transactions was recorded for it, the evidence was not withdrawn since, and
  each transaction of that list was missing from a list read later. A hole passed on time alone has
  no list and was first seen at least the timeout ago; one passed at the cap has a transaction left
  and was first seen at least the cap ago.
\<close>

theorem passed_hole_reason:
  assumes "verdict h (hole_of h now v) now = Some why" "h = run_ops ops (new_holes t mw)"
  shows "case why of
      Settled \<Rightarrow> (\<exists>pre keys active post. ops = pre @ OpAttach keys active # post \<and> v \<in> set keys \<and>
        OpForget \<notin> set post \<and> (\<forall>x\<in>active. \<exists>later. OpTrim later \<in> set post \<and> x \<notin> later))
    | TimedOut \<Rightarrow> blockers (hole_of h now v) = None \<and> t \<le> now - first_seen (hole_of h now v)
    | Capped \<Rightarrow> (\<exists>b w. blockers (hole_of h now v) = Some b \<and> b \<noteq> {} \<and> mw = Some w \<and>
        w \<le> now - first_seen (hole_of h now v))"
proof -
  let ?op = "hole_of h now v"
  have lim: "timeout h = t" "max_wait h = mw"
    using run_ops_limits [of ops "new_holes t mw"] assms(2) by (simp_all add: new_holes_def)
  show ?thesis
  proof (cases "blockers ?op")
    case None
    then have "why = TimedOut" "t \<le> now - first_seen ?op"
      using assms(1) lim by (simp_all add: verdict_def Let_def split: if_splits)
    then show ?thesis using None by simp
  next
    case (Some b)
    show ?thesis
    proof (cases "b = {}")
      case True
      have why: "why = Settled" using assms(1) Some True by (simp add: verdict_def)
      have "seen h v = Some ?op" using Some by (auto simp: hole_of_def split: option.splits)
      then have "evidence ops v b" using recorded_evidence [of ops t mw v ?op b] Some assms(2) by simp
      then show ?thesis unfolding evidence_def why outcome.case True by (elim exE conjE) (intro exI conjI, assumption+, blast)
    next
      case False
      then have "why = Capped" "\<exists>w. mw = Some w \<and> w \<le> now - first_seen ?op"
        using assms(1) lim Some by (auto simp: verdict_def Let_def split: option.splits if_splits)
      then show ?thesis using Some False by simp
    qed
  qed
qed

theorem passed_hole_reason_witness:
  "let ops = [OpRelease 0 1 (Some 1) [3], OpAttach [3] {7}, OpTrim {8}];
       h = run_ops ops (new_holes 10 None)
   in verdict h (hole_of h 5 3) 5 = Some Settled \<and>
     (\<exists>pre keys active post. ops = pre @ OpAttach keys active # post \<and> 3 \<in> set keys \<and>
        OpForget \<notin> set post \<and> (\<forall>x\<in>active. \<exists>later. OpTrim later \<in> set post \<and> x \<notin> later))"
proof -
  define ops where "ops = [OpRelease 0 1 (Some 1) [3], OpAttach [3] {7}, OpTrim {8}]"
  define h where "h = run_ops ops (new_holes 10 None)"
  have v: "verdict h (hole_of h 5 3) 5 = Some Settled"
    by (simp add: h_def ops_def run_ops_def release_def release_step_def Let_def wrap_i128_def new_holes_def
        attach_def attach_one_def trim_holes_def hole_of_def verdict_def)
  from passed_hole_reason [OF v h_def] v show ?thesis
    unfolding Let_def ops_def [symmetric] h_def [symmetric] by simp
qed

text \<open>
  Once its timeout has run out without a list of transactions, or its cap with one, a hole is passable;
  so a read in which every hole is that old is released whole.
\<close>

lemma release_in_time:
  assumes "ascending prev vals" "0 \<le> step" "prev = (case last_value of Some v \<Rightarrow> v | None \<Rightarrow> 0)"
    "release now step last_value vals h = (r, h')"
    "\<forall>g\<in>set (gaps step 0 prev vals). let op = hole_of h now (snd (snd g)) in
       (case blockers op of None \<Rightarrow> timeout h | Some _ \<Rightarrow> (case max_wait h of Some w \<Rightarrow> w | None \<Rightarrow> 0)) \<le> now - first_seen op \<and>
       (max_wait h = None \<longrightarrow> blockers op = None \<or> blockers op = Some {})"
  shows "deliver r = length vals"
proof -
  have "\<forall>g\<in>set (gaps step 0 prev vals). passable h now g"
    using assms(5) by (fastforce simp: passable_def verdict_def Let_def split: option.splits)
  then have d: "dropWhile (passable h now) (gaps step 0 prev vals) = []" by (simp add: dropWhile_eq_Nil_conv)
  show ?thesis using release_value(4) [OF assms(1-4)] unfolding d by (simp add: first_index_def)
qed

lemma canary_writers_current:
  "canary_writers rows = Some ids \<longleftrightarrow> (\<exists>i own running. (i, own, running) \<in> set rows \<and> running \<noteq> 0) \<and>
     ids = {i. \<exists>running. (i, 0, running) \<in> set rows}"
  by (force simp: canary_writers_def list_ex_iff)

end
