(* ===== verification/Floats.thy ===== *)
theory Floats
  imports Prelude Complex_Main
begin

text \<open>
  The \<^verbatim>\<open>f64\<close> arithmetic of the source on rational numbers: an operation is the exact one followed
  by \<open>rnd\<close>, rounding to 53 significant bits, ties to even. The exponent range is left out: the code
  that uses these definitions converts its results with saturating casts or compares them, and at
  the magnitudes an overflow or a subnormal number would need, the results are the same. A NaN is
  not represented; the configuration refuses it.
\<close>

fun bits :: "nat \<Rightarrow> nat" where
  "bits n = (if n = 0 then 0 else bits (n div 2) + 1)"

declare bits.simps [simp del]

definition pow2 :: "int \<Rightarrow> rat" where
  "pow2 e = (if 0 \<le> e then 2 ^ nat e else 1 / 2 ^ nat (- e))"

text \<open>The exponent of a positive number: \<open>pow2 e \<le> x < pow2 (e + 1)\<close>.\<close>

definition exponent :: "rat \<Rightarrow> int" where
  "exponent x =
     (let (p, q) = quotient_of x; e = int (bits (nat p)) - int (bits (nat q))
      in if pow2 e \<le> x then e else e - 1)"

definition rnd_pos :: "rat \<Rightarrow> rat" where
  "rnd_pos x =
     (let u = pow2 (exponent x - 52); m = x / u; f = \<lfloor>m\<rfloor>; r = m - of_int f
      in of_int (if r < 1 / 2 \<or> (r = 1 / 2 \<and> even f) then f else f + 1) * u)"

definition rnd :: "rat \<Rightarrow> rat" where
  "rnd x = (if x = 0 then 0 else if 0 < x then rnd_pos x else - rnd_pos (- x))"

text \<open>Conversions: \<^verbatim>\<open>u64 as f64\<close>, \<^verbatim>\<open>f64::round\<close>, the saturating \<^verbatim>\<open>as usize\<close>, \<^verbatim>\<open>Duration::as_secs_f64\<close>.\<close>

definition f64_of :: "nat \<Rightarrow> rat" where
  "f64_of n = rnd (of_nat n)"

definition f64_round :: "rat \<Rightarrow> rat" where
  "f64_round x = (if 0 \<le> x then of_int \<lfloor>x + 1 / 2\<rfloor> else - of_int \<lfloor>- x + 1 / 2\<rfloor>)"

definition as_u64 :: "rat \<Rightarrow> nat" where
  "as_u64 x = min (nat \<lfloor>x\<rfloor>) (2 ^ 64 - 1)"

definition secs_f64 :: "nat \<Rightarrow> rat" where
  "secs_f64 ns = rnd (f64_of (ns div 10 ^ 9) + rnd (f64_of (ns mod 10 ^ 9) / 10 ^ 9))"

section \<open>The error of rounding\<close>

lemma pow2_pos [simp]: "0 < pow2 e"
  by (simp add: pow2_def)

lemma pow2_add: "pow2 (a + b) = pow2 a * pow2 b"
proof -
  have pi: "pow2 e = 2 powi e" for e by (simp add: pow2_def power_int_def power_inverse field_simps)
  show ?thesis by (simp add: pi power_int_add)
qed

lemma pow2_Suc: "pow2 (e + 1) = 2 * pow2 e"
  using pow2_add [of e 1] by (simp add: pow2_def)

lemma bits_bounds: "0 < n \<Longrightarrow> 2 ^ (bits n - 1) \<le> n \<and> n < 2 ^ bits n \<and> 0 < bits n"
proof (induction n rule: bits.induct)
  case (1 n)
  show ?case
  proof (cases "n = 1")
    case True
    then show ?thesis by (simp add: bits.simps)
  next
    case False
    then have "2 ^ (bits (n div 2) - 1) \<le> n div 2" "n div 2 < 2 ^ bits (n div 2)" "0 < bits (n div 2)"
      using 1 by auto
    moreover have "bits n = bits (n div 2) + 1" using 1(2) by (subst bits.simps) simp
    moreover have "(2 :: nat) ^ bits (n div 2) = 2 * 2 ^ (bits (n div 2) - 1)"
      using calculation(3) by (simp add: power_eq_if)
    moreover have "n = 2 * (n div 2) \<or> n = 2 * (n div 2) + 1" by presburger
    ultimately show ?thesis by auto
  qed
qed

lemma pow2_of_nat: "pow2 (int n) = 2 ^ n"
  by (simp add: pow2_def)

lemma exponent_bounds:
  assumes "0 < x"
  shows "pow2 (exponent x) \<le> x \<and> x < pow2 (exponent x + 1)"
proof -
  obtain p q where pq: "quotient_of x = (p, q)" by fastforce
  have q: "0 < q" using quotient_of_denom_pos [OF pq] .
  have x: "x = of_int p / of_int q" using quotient_of_div [OF pq] .
  have p: "0 < p" using assms q by (simp add: x zero_less_divide_iff)
  define P Q where "P = nat p" and "Q = nat q"
  have x': "x = of_nat P / of_nat Q" using p q by (simp add: x P_def Q_def)
  have P: "2 ^ (bits P - 1) \<le> P" "P < 2 ^ bits P" "0 < bits P" and Q: "2 ^ (bits Q - 1) \<le> Q" "Q < 2 ^ bits Q" "0 < bits Q"
    using bits_bounds [of P] bits_bounds [of Q] p q by (simp_all add: P_def Q_def)
  let ?e = "int (bits P) - int (bits Q)"
  have Pr: "(2 ^ (bits P - 1) :: rat) \<le> of_nat P" "of_nat P < (2 ^ bits P :: rat)"
    and Qr: "(2 ^ (bits Q - 1) :: rat) \<le> of_nat Q" "of_nat Q < (2 ^ bits Q :: rat)"
    using P Q by (metis of_nat_le_iff of_nat_less_iff of_nat_numeral of_nat_power)+
  have pows: "pow2 (int (bits P) - 1) = 2 ^ (bits P - 1)" "pow2 (int (bits Q) - 1) = 2 ^ (bits Q - 1)"
    using P(3) Q(3) pow2_of_nat [of "bits P - 1"] pow2_of_nat [of "bits Q - 1"] by (simp_all add: of_nat_diff)
  have Qpos: "(0 :: rat) < of_nat Q" using q by (simp add: Q_def)
  have up: "x < pow2 (?e + 1)"
  proof -
    have "pow2 (?e + 1) * pow2 (int (bits Q) - 1) = pow2 (int (bits P))"
      by (simp add: pow2_add [symmetric])
    then have "pow2 (?e + 1) * 2 ^ (bits Q - 1) = 2 ^ bits P" by (simp add: pows pow2_of_nat)
    then have "of_nat P < pow2 (?e + 1) * of_nat Q"
      using Pr(2) mult_left_mono [OF Qr(1), of "pow2 (?e + 1)"] by (metis less_le_trans less_imp_le pow2_pos)
    then show ?thesis using Qpos by (simp add: x' pos_divide_less_eq)
  qed
  have lo: "pow2 (?e - 1) \<le> x"
  proof -
    have "pow2 (?e - 1) * pow2 (int (bits Q)) = pow2 (int (bits P) - 1)"
      by (simp add: pow2_add [symmetric])
    then have "pow2 (?e - 1) * 2 ^ bits Q = 2 ^ (bits P - 1)" by (simp add: pows pow2_of_nat)
    then have "pow2 (?e - 1) * of_nat Q \<le> of_nat P"
      using Pr(1) mult_left_mono [OF less_imp_le [OF Qr(2)], of "pow2 (?e - 1)"]
      by (metis order_trans less_imp_le pow2_pos)
    then show ?thesis using Qpos by (simp add: x' pos_le_divide_eq)
  qed
  have e: "exponent x = (if pow2 ?e \<le> x then ?e else ?e - 1)"
    by (simp add: exponent_def pq P_def Q_def Let_def)
  show ?thesis using e up lo by auto
qed

lemma rnd_pos_error:
  assumes "0 < x"
  shows "\<bar>rnd_pos x - x\<bar> \<le> x / 2 ^ 53"
proof -
  define u where "u = pow2 (exponent x - 52)"
  define f where "f = \<lfloor>x / u\<rfloor>"
  define k where "k = (if x / u - of_int f < 1 / 2 \<or> (x / u - of_int f = 1 / 2 \<and> even f) then f else f + 1)"
  have u: "0 < u" by (simp add: u_def)
  have fl: "of_int f \<le> x / u" "x / u < of_int f + 1" unfolding f_def by linarith+
  have "\<bar>of_int k - x / u\<bar> \<le> 1 / 2" using fl by (auto simp: k_def abs_le_iff)
  then have "\<bar>of_int k - x / u\<bar> * u \<le> 1 / 2 * u" using u by (intro mult_right_mono) auto
  moreover have "\<bar>of_int k - x / u\<bar> * u = \<bar>of_int k * u - x\<bar>"
  proof -
    have "\<bar>of_int k - x / u\<bar> * u = \<bar>(of_int k - x / u) * u\<bar>" using u by (simp add: abs_mult)
    then show ?thesis using u by (simp add: left_diff_distrib)
  qed
  moreover have "rnd_pos x = of_int k * u" by (simp add: rnd_pos_def Let_def k_def f_def u_def)
  moreover have "u * 2 ^ 52 \<le> x"
  proof -
    have "u * pow2 52 = pow2 (exponent x)" by (simp add: u_def pow2_add [symmetric])
    then show ?thesis using exponent_bounds [OF assms] by (simp add: pow2_def)
  qed
  ultimately show ?thesis by (simp add: field_simps)
qed

lemma rnd_bounds:
  assumes "0 \<le> x"
  shows "x - x / 2 ^ 53 \<le> rnd x \<and> rnd x \<le> x + x / 2 ^ 53"
proof (cases "x = 0")
  case False
  then have "\<bar>rnd x - x\<bar> \<le> x / 2 ^ 53" using rnd_pos_error [of x] assms by (simp add: rnd_def)
  then show ?thesis by linarith
qed (simp add: rnd_def)

lemma pow2_mono: "a \<le> b \<Longrightarrow> pow2 a \<le> pow2 b"
proof -
  assume "a \<le> b"
  then have "(1 :: rat) \<le> pow2 (b - a)" by (simp add: pow2_def)
  then have "pow2 a * 1 \<le> pow2 a * pow2 (b - a)" by (intro mult_left_mono) (simp_all add: less_imp_le)
  then show ?thesis by (simp add: pow2_add [symmetric])
qed

lemma f64_of_exact:
  assumes "n \<le> 2 ^ 53"
  shows "f64_of n = of_nat n"
proof (cases "n = 0")
  case False
  let ?x = "of_nat n :: rat" let ?e = "exponent ?x"
  have x: "0 < ?x" using False by simp
  note b = exponent_bounds [OF x]
  show ?thesis
  proof (cases "n = 2 ^ 53")
    case True
    have "exponent ?x = 53"
    proof -
      have xv: "?x = pow2 53" by (simp add: True pow2_def)
      have "\<not> pow2 54 \<le> ?x" by (simp add: xv pow2_def)
      have "?e \<le> 53"
      proof (rule ccontr)
        assume "\<not> ?e \<le> 53"
        then have "pow2 54 \<le> pow2 ?e" by (intro pow2_mono) simp
        then show False using b \<open>\<not> pow2 54 \<le> ?x\<close> by linarith
      qed
      moreover have "53 \<le> ?e"
      proof (rule ccontr)
        assume "\<not> 53 \<le> ?e"
        then have "pow2 (?e + 1) \<le> pow2 53" by (intro pow2_mono) simp
        then show False using b xv by linarith
      qed
      ultimately show ?thesis by simp
    qed
    then show ?thesis by (simp add: f64_of_def rnd_def rnd_pos_def Let_def True pow2_def)
  next
    case lt: False
    then have "?x < pow2 53" using assms by (simp add: pow2_def)
    have "?e \<le> 52"
    proof (rule ccontr)
      assume "\<not> ?e \<le> 52"
      then have "pow2 53 \<le> pow2 ?e" by (intro pow2_mono) simp
      then show False using b \<open>?x < pow2 53\<close> by linarith
    qed
    then have "?e - 52 \<le> 0" by simp
    then have "?x / pow2 (?e - 52) = of_nat (n * 2 ^ nat (52 - ?e))" by (auto simp: pow2_def)
    then obtain m where m: "?x / pow2 (?e - 52) = of_nat m" by blast
    have "rnd_pos ?x = of_nat m * pow2 (?e - 52)" unfolding rnd_pos_def Let_def m by simp
    moreover have "of_nat m * pow2 (?e - 52) = ?x"
      using m pow2_pos [of "?e - 52"] by (metis less_irrefl nonzero_divide_eq_eq)
    ultimately have "rnd_pos ?x = ?x" by simp
    then show ?thesis using x by (simp add: f64_of_def rnd_def)
  qed
qed (simp add: f64_of_def rnd_def)

end
