(* ===== verification/Flow.thy ===== *)
theory Flow
  imports Floats
begin

text \<open>
  Adaptive flow control, \<^verbatim>\<open>saci-service/src/service/flow.rs\<close>, and the resolution and validation of
  its configuration block in \<^verbatim>\<open>service/config.rs\<close>. A \<^verbatim>\<open>usize\<close> has 64 bits; counters wrap at their
  width where the source does not saturate. A \<^verbatim>\<open>Duration\<close> and an \<^verbatim>\<open>Instant\<close> are nanoseconds, and
  an \<^verbatim>\<open>f64\<close> is a rational number with the rounding of \<open>Floats\<close>.
\<close>

definition EWMA_ALPHA :: rat where "EWMA_ALPHA = rnd (3 / 10)"
definition CEILING_INCREMENT_DIVISOR :: nat where "CEILING_INCREMENT_DIVISOR = 8"
definition PRESSURE_TREND_PASSES :: nat where "PRESSURE_TREND_PASSES = 2"
definition MAX_REST_EPOCHS :: nat where "MAX_REST_EPOCHS = 16"
definition STREAM_LATENCY_OBJECTIVE_MS :: nat where "STREAM_LATENCY_OBJECTIVE_MS = 250"
definition USIZE_MAX :: nat where "USIZE_MAX = 2 ^ 64 - 1"

section \<open>Settings\<close>

record flow_settings =
  min_rows :: nat
  max_rows :: nat
  start_rows :: nat
  max_chunk_bytes :: nat
  target_latency_ms :: nat
  adjust_interval_ms :: nat
  growth_factor :: rat
  improve_threshold :: rat
  min_samples_per_arm :: nat
  settle_after_epochs :: nat
  backoff_factor :: rat
  backoff_cooldown :: nat
  fixed_rows :: "nat option"
  flow_enabled :: bool

definition default_settings :: flow_settings where
  "default_settings = \<lparr>min_rows = 1024, max_rows = 65536, start_rows = 4096,
     max_chunk_bytes = 8 * 1024 * 1024, target_latency_ms = 0, adjust_interval_ms = 60000,
     growth_factor = 2, improve_threshold = rnd (5 / 100), min_samples_per_arm = 4,
     settle_after_epochs = 3, backoff_factor = 2, backoff_cooldown = 4, fixed_rows = None,
     flow_enabled = True\<rparr>"

definition stream_defaults :: flow_settings where
  "stream_defaults = default_settings\<lparr>target_latency_ms := STREAM_LATENCY_OBJECTIVE_MS\<rparr>"

definition clamp_rows :: "nat \<Rightarrow> flow_settings \<Rightarrow> nat" where
  "clamp_rows r s =
     (let mn = max (min_rows s) 1; mx = max (max_rows s) mn in min (max r mn) mx)"

section \<open>Samples and adjustments\<close>

datatype flow_outcome = Flow_Ok | Flow_Error

record flow_sample =
  sm_rows :: nat
  sm_elapsed :: nat
  sm_bytes :: nat
  sm_pending :: "nat option"
  sm_outcome :: flow_outcome
  sm_at :: nat

datatype flow_cause =
    Experiment_Won rat rat
  | Latency_Objective nat nat
  | Pass_Error
  | Chunk_Bytes nat nat
  | Sink_Backlog nat

record flow_move =
  from_rows :: nat
  to_rows :: nat
  move_cause :: flow_cause

datatype flow_adjustment =
    Grew flow_move
  | Held
  | Shrank flow_move
  | BackedOff flow_move
  | HeldAtFloor flow_move

datatype arm = Incumbent | Candidate
datatype phase = Experiment | Rest nat
datatype direction = Up | Down

primrec flipped :: "direction \<Rightarrow> direction" where
  "flipped Up = Down"
| "flipped Down = Up"

record arm_stats =
  as_rows :: nat
  as_elapsed :: nat
  as_samples :: nat

definition no_stats :: arm_stats where
  "no_stats = \<lparr>as_rows = 0, as_elapsed = 0, as_samples = 0\<rparr>"

definition add_sample :: "nat \<Rightarrow> nat \<Rightarrow> arm_stats \<Rightarrow> arm_stats" where
  "add_sample r t a = \<lparr>as_rows = (as_rows a + r) mod 2 ^ 64, as_elapsed = as_elapsed a + t,
     as_samples = (as_samples a + 1) mod 2 ^ 32\<rparr>"

definition rate :: "arm_stats \<Rightarrow> rat" where
  "rate a = (let seconds = secs_f64 (as_elapsed a) in
     if seconds \<le> 0 then 0 else rnd (f64_of (as_rows a) / seconds))"

definition mean_pass :: "arm_stats \<Rightarrow> nat" where
  "mean_pass a = (if as_samples a = 0 then 0 else as_elapsed a div as_samples a)"

definition millis :: "nat \<Rightarrow> nat" where
  "millis ms = ms * 10 ^ 6"

section \<open>The controller\<close>

record controller =
  settings :: flow_settings
  incumbent :: nat
  candidate :: nat
  arm_now :: arm
  direction :: direction
  phase :: phase
  settled_epochs :: nat
  incumbent_stats :: arm_stats
  candidate_stats :: arm_stats
  epoch_start :: "nat option"
  throughput :: rat
  ceiling_rows :: "nat option"
  last_sink_pending :: "nat option"
  pending_rises :: nat
  latency_abandoned :: bool
  latency_notice :: "bool option"
  cooldown :: nat

definition target_rows :: "controller \<Rightarrow> nat" where
  "target_rows c =
     (if cooldown c > 0 then incumbent c
      else case arm_now c of Incumbent \<Rightarrow> incumbent c | Candidate \<Rightarrow> candidate c)"

definition take_latency_notice :: "controller \<Rightarrow> bool option \<times> controller" where
  "take_latency_notice c = (latency_notice c, c\<lparr>latency_notice := None\<rparr>)"

definition is_adaptive :: "controller \<Rightarrow> bool" where
  "is_adaptive c \<longleftrightarrow> flow_enabled (settings c) \<and> fixed_rows (settings c) = None"

definition floor_rows :: "controller \<Rightarrow> nat" where
  "floor_rows c = max (min_rows (settings c)) 1"

definition step_from_incumbent :: "controller \<Rightarrow> nat" where
  "step_from_incumbent c =
     (let stepped =
        (case direction c of
           Up \<Rightarrow>
             (case ceiling_rows c of
                Some w \<Rightarrow>
                  let increment = max (w div CEILING_INCREMENT_DIVISOR) 1
                  in min (min (incumbent c + increment) USIZE_MAX) w
              | None \<Rightarrow> as_u64 (f64_round (rnd (f64_of (incumbent c) * growth_factor (settings c)))))
         | Down \<Rightarrow>
             (case ceiling_rows c of
                Some w \<Rightarrow>
                  let decrement = max (w div CEILING_INCREMENT_DIVISOR) 1
                  in incumbent c - decrement
              | None \<Rightarrow> as_u64 (f64_round (rnd (f64_of (incumbent c) / growth_factor (settings c))))))
      in clamp_rows (max stepped 1) (settings c))"

definition propose_candidate :: "controller \<Rightarrow> controller" where
  "propose_candidate c =
     (let c1 = c\<lparr>candidate := step_from_incumbent c\<rparr>;
          c2 = (if candidate c1 = incumbent c1
                then let d = c1\<lparr>direction := flipped (direction c1)\<rparr>
                     in d\<lparr>candidate := step_from_incumbent d\<rparr>
                else c1)
      in c2\<lparr>arm_now := Incumbent\<rparr>)"

definition new_controller :: "flow_settings \<Rightarrow> controller" where
  "new_controller s =
     (let start = (case fixed_rows s of Some r \<Rightarrow> max r 1 | None \<Rightarrow> clamp_rows (start_rows s) s)
      in propose_candidate
        \<lparr>settings = s, incumbent = start, candidate = start, arm_now = Incumbent, direction = Up,
         phase = Experiment, settled_epochs = 0, incumbent_stats = no_stats, candidate_stats = no_stats,
         epoch_start = None, throughput = 0, ceiling_rows = None, last_sink_pending = None,
         pending_rises = 0, latency_abandoned = False, latency_notice = None, cooldown = 0\<rparr>)"

definition start_epoch :: "controller \<Rightarrow> controller" where
  "start_epoch c = c\<lparr>incumbent_stats := no_stats, candidate_stats := no_stats, epoch_start := None,
     arm_now := Incumbent\<rparr>"

definition breaches_objective :: "controller \<Rightarrow> arm_stats \<Rightarrow> bool" where
  "breaches_objective c a \<longleftrightarrow> target_latency_ms (settings c) > 0 \<and> \<not> latency_abandoned c \<and>
     mean_pass a > millis (target_latency_ms (settings c))"

definition rest_if_settled :: "controller \<Rightarrow> controller" where
  "rest_if_settled c =
     (let after = settle_after_epochs (settings c) in
      if after = 0 \<or> settled_epochs c < after then c
      else
        let doublings = min (settled_epochs c - after) 4;
            remaining = min (2 ^ doublings) MAX_REST_EPOCHS
        in c\<lparr>phase := Rest remaining\<rparr>)"

definition close_epoch :: "controller \<Rightarrow> flow_adjustment \<times> controller" where
  "close_epoch c0 =
     (let inc = incumbent_stats c0; cand = candidate_stats c0; c = start_epoch c0 in
      if candidate c = incumbent c then (Held, c)
      else if as_samples inc < min_samples_per_arm (settings c) \<or>
              as_samples cand < min_samples_per_arm (settings c) then (Held, c)
      else
        let incumbent_breaches = breaches_objective c inc;
            wins = (if incumbent_breaches then candidate c < incumbent c
                    else \<not> breaches_objective c cand \<and>
                      rate cand > rnd (rate inc * rnd (1 + improve_threshold (settings c))))
        in
        if \<not> wins then
          let c1 = (if incumbent_breaches \<and> candidate c > incumbent c then c\<lparr>direction := Down\<rparr>
                    else c\<lparr>direction := flipped (direction c)\<rparr>);
              c2 = c1\<lparr>settled_epochs := (if incumbent_breaches then 0
                                       else min (settled_epochs c1 + 1) (2 ^ 32 - 1))\<rparr>
          in (Held, rest_if_settled (propose_candidate c2))
        else
          let cause = (if incumbent_breaches
                       then Latency_Objective (mean_pass inc div 10 ^ 6 mod 2 ^ 64) (target_latency_ms (settings c))
                       else Experiment_Won (rate cand) (rate inc));
              previous = incumbent c;
              c1 = c\<lparr>incumbent := candidate c, settled_epochs := 0\<rparr>;
              c2 = (case ceiling_rows c1 of
                      Some w \<Rightarrow> if incumbent c1 \<ge> w then c1\<lparr>ceiling_rows := None\<rparr> else c1
                    | None \<Rightarrow> c1);
              c3 = propose_candidate c2;
              moved = \<lparr>from_rows = previous, to_rows = incumbent c3, move_cause = cause\<rparr>
          in (if incumbent c3 > previous then Grew moved else Shrank moved, c3))"

definition close_rest_epoch :: "nat \<Rightarrow> controller \<Rightarrow> flow_adjustment \<times> controller" where
  "close_rest_epoch remaining c0 =
     (let inc = incumbent_stats c0; c = start_epoch c0;
          breached = (as_samples inc \<ge> min_samples_per_arm (settings c) \<and> breaches_objective c inc);
          c1 = (if breached then c\<lparr>settled_epochs := 0, direction := Down\<rparr> else c)
      in (Held,
          if breached \<or> remaining \<le> 1 then propose_candidate (c1\<lparr>phase := Experiment\<rparr>)
          else c1\<lparr>phase := Rest (remaining - 1)\<rparr>))"

definition chunk_bytes_over_ceiling :: "controller \<Rightarrow> flow_sample \<Rightarrow> nat option" where
  "chunk_bytes_over_ceiling c sm =
     (if max_chunk_bytes (settings c) = 0 \<or> sm_rows sm = 0 \<or> sm_bytes sm = 0 then None
      else
        let bytes_per_row = rnd (f64_of (sm_bytes sm) / f64_of (sm_rows sm));
            projected = rnd (bytes_per_row * f64_of (target_rows c))
        in if projected > f64_of (max_chunk_bytes (settings c)) then Some (as_u64 projected) else None)"

definition track_sink_pressure :: "nat option \<Rightarrow> controller \<Rightarrow> bool \<times> controller" where
  "track_sink_pressure pending c =
     (case pending of
        None \<Rightarrow> (False, c\<lparr>last_sink_pending := None, pending_rises := 0\<rparr>)
      | Some p \<Rightarrow>
          let rises = (case last_sink_pending c of
                Some previous \<Rightarrow> if p > previous then (pending_rises c + 1) mod 2 ^ 32 else 0
              | None \<Rightarrow> 0)
          in (rises \<ge> PRESSURE_TREND_PASSES, c\<lparr>pending_rises := rises, last_sink_pending := Some p\<rparr>))"

definition track_latency_objective :: "flow_sample \<Rightarrow> controller \<Rightarrow> controller" where
  "track_latency_objective sm c =
     (if target_latency_ms (settings c) = 0 \<or> sm_rows sm = 0 \<or> target_rows c > floor_rows c then c
      else
        let breached = (sm_elapsed sm > millis (target_latency_ms (settings c))) in
        if breached \<noteq> latency_abandoned c
        then c\<lparr>latency_abandoned := breached, latency_notice := Some breached\<rparr> else c)"

definition back_off :: "flow_cause \<Rightarrow> controller \<Rightarrow> flow_adjustment \<times> controller" where
  "back_off cause c0 =
     (let failed = max (target_rows c0) (incumbent c0);
          previous_incumbent = incumbent c0;
          c = c0\<lparr>settled_epochs := 0, phase := Experiment\<rparr>
      in
      if failed \<le> floor_rows c
      then (HeldAtFloor \<lparr>from_rows = failed, to_rows = failed, move_cause = cause\<rparr>, c)
      else
        let c1 = c\<lparr>ceiling_rows := Some (case ceiling_rows c of Some w \<Rightarrow> min w failed | None \<Rightarrow> failed)\<rparr>;
            reduced = as_u64 (of_int \<lfloor>rnd (f64_of failed / backoff_factor (settings c1))\<rfloor>);
            c2 = c1\<lparr>incumbent := clamp_rows (max reduced 1) (settings c1), direction := Down\<rparr>;
            c3 = start_epoch (propose_candidate c2);
            c4 = c3\<lparr>cooldown := backoff_cooldown (settings c3), last_sink_pending := None, pending_rises := 0\<rparr>;
            moved = \<lparr>from_rows = failed, to_rows = incumbent c4, move_cause = cause\<rparr>
        in (if incumbent c4 = previous_incumbent \<and> incumbent c4 \<le> floor_rows c4
            then HeldAtFloor moved else BackedOff moved, c4))"

definition measured_rate :: "flow_sample \<Rightarrow> rat option" where
  "measured_rate sm =
     (let seconds = secs_f64 (sm_elapsed sm) in
      if sm_rows sm = 0 \<or> seconds \<le> 0 then None else Some (rnd (f64_of (sm_rows sm) / seconds)))"

definition note_throughput :: "rat option \<Rightarrow> controller \<Rightarrow> controller" where
  "note_throughput measured c =
     (case measured of
        None \<Rightarrow> c
      | Some r \<Rightarrow> c\<lparr>throughput := (if throughput c = 0 then r
          else rnd (rnd (EWMA_ALPHA * r) + rnd (rnd (1 - EWMA_ALPHA) * throughput c)))\<rparr>)"

text \<open>Which guard trips, in the order they are evaluated.\<close>

definition guard_cause :: "bool \<Rightarrow> flow_sample \<Rightarrow> controller \<Rightarrow> flow_cause option" where
  "guard_cause pressure sm c =
     (if sm_outcome sm = Flow_Error then Some Pass_Error
      else if pressure then Some (Sink_Backlog (case sm_pending sm of Some p \<Rightarrow> p | None \<Rightarrow> 0))
      else map_option (\<lambda>projected. Chunk_Bytes projected (max_chunk_bytes (settings c)))
             (chunk_bytes_over_ceiling c sm))"

text \<open>The measured pass: its arm's statistics, the alternation, and the close of the epoch.\<close>

definition measure_pass :: "flow_sample \<Rightarrow> controller \<Rightarrow> flow_adjustment \<times> controller" where
  "measure_pass sm c =
     (let a = arm_now c;
          c1 = (case a of
                  Incumbent \<Rightarrow> c\<lparr>incumbent_stats := add_sample (sm_rows sm) (sm_elapsed sm) (incumbent_stats c)\<rparr>
                | Candidate \<Rightarrow> c\<lparr>candidate_stats := add_sample (sm_rows sm) (sm_elapsed sm) (candidate_stats c)\<rparr>);
          start = (case epoch_start c1 of Some t \<Rightarrow> t | None \<Rightarrow> sm_at sm);
          c2 = c1\<lparr>epoch_start := Some start\<rparr>;
          c3 = (if phase c2 = Experiment \<and> candidate c2 \<noteq> incumbent c2
                then c2\<lparr>arm_now := (case a of Incumbent \<Rightarrow> Candidate | Candidate \<Rightarrow> Incumbent)\<rparr> else c2)
      in if sm_at sm - start < millis (max (adjust_interval_ms (settings c3)) 1) then (Held, c3)
         else case phase c3 of Experiment \<Rightarrow> close_epoch c3 | Rest remaining \<Rightarrow> close_rest_epoch remaining c3)"

definition observe :: "flow_sample \<Rightarrow> controller \<Rightarrow> flow_adjustment \<times> controller" where
  "observe sm c0 =
     (let measured = measured_rate sm;
          c = note_throughput measured (c0\<lparr>latency_notice := None\<rparr>)
      in
      if \<not> is_adaptive c then (Held, c)
      else
        let (pressure, c1) = track_sink_pressure (sm_pending sm) c;
            guard = guard_cause pressure sm c1
        in
        if cooldown c1 > 0 then
          (Held, c1\<lparr>cooldown := (if guard \<noteq> None then backoff_cooldown (settings c1) else cooldown c1 - 1)\<rparr>)
        else case guard of
          Some cause \<Rightarrow> back_off cause c1
        | None \<Rightarrow>
            let c2 = track_latency_objective sm c1
            in if measured = None then (Held, c2) else measure_pass sm c2)"

section \<open>The configuration block\<close>

record flow_config =
  fc_enabled :: "bool option"
  fc_min_rows :: "nat option"
  fc_max_rows :: "nat option"
  fc_start_rows :: "nat option"
  fc_max_chunk_bytes :: "nat option"
  fc_target_latency_ms :: "nat option"
  fc_adjust_interval_ms :: "nat option"
  fc_growth_factor :: "rat option"
  fc_improve_threshold :: "rat option"
  fc_min_samples_per_arm :: "nat option"
  fc_settle_after_epochs :: "nat option"
  fc_backoff_factor :: "rat option"
  fc_backoff_cooldown :: "nat option"
  fc_rows :: "nat option"

text \<open>\<^verbatim>\<open>Option::or\<close> and \<^verbatim>\<open>unwrap_or\<close>.\<close>

definition opt_or :: "'a option \<Rightarrow> 'a option \<Rightarrow> 'a option" where
  "opt_or a b = (case a of Some x \<Rightarrow> Some x | None \<Rightarrow> b)"

definition unwrap_or :: "'a option \<Rightarrow> 'a \<Rightarrow> 'a" where
  "unwrap_or a d = (case a of Some x \<Rightarrow> x | None \<Rightarrow> d)"

definition declared_rows :: "nat option \<Rightarrow> nat \<Rightarrow> nat" where
  "declared_rows declared d = (case declared of Some r \<Rightarrow> min r USIZE_MAX | None \<Rightarrow> d)"

definition declared_count :: "nat option \<Rightarrow> nat \<Rightarrow> nat" where
  "declared_count declared d = (case declared of Some n \<Rightarrow> min n (2 ^ 32 - 1) | None \<Rightarrow> d)"

definition resolve :: "flow_config \<Rightarrow> flow_config \<Rightarrow> flow_settings \<Rightarrow> flow_settings" where
  "resolve l g d =
     (let mn = max (declared_rows (opt_or (fc_min_rows l) (fc_min_rows g)) (min_rows d)) 1;
          mx = max (declared_rows (opt_or (fc_max_rows l) (fc_max_rows g)) (max_rows d)) mn;
          st = declared_rows (opt_or (fc_start_rows l) (fc_start_rows g)) (start_rows d)
      in \<lparr>min_rows = mn, max_rows = mx, start_rows = min (max st mn) mx,
          max_chunk_bytes = unwrap_or (opt_or (fc_max_chunk_bytes l) (fc_max_chunk_bytes g)) (max_chunk_bytes d),
          target_latency_ms = unwrap_or (opt_or (fc_target_latency_ms l) (fc_target_latency_ms g)) (target_latency_ms d),
          adjust_interval_ms = unwrap_or (opt_or (fc_adjust_interval_ms l) (fc_adjust_interval_ms g)) (adjust_interval_ms d),
          growth_factor = unwrap_or (opt_or (fc_growth_factor l) (fc_growth_factor g)) (growth_factor d),
          improve_threshold = unwrap_or (opt_or (fc_improve_threshold l) (fc_improve_threshold g)) (improve_threshold d),
          min_samples_per_arm = declared_count (opt_or (fc_min_samples_per_arm l) (fc_min_samples_per_arm g)) (min_samples_per_arm d),
          settle_after_epochs = declared_count (opt_or (fc_settle_after_epochs l) (fc_settle_after_epochs g)) (settle_after_epochs d),
          backoff_factor = unwrap_or (opt_or (fc_backoff_factor l) (fc_backoff_factor g)) (backoff_factor d),
          backoff_cooldown = declared_count (opt_or (fc_backoff_cooldown l) (fc_backoff_cooldown g)) (backoff_cooldown d),
          fixed_rows = map_option (\<lambda>r. max (declared_rows (Some r) 1) 1) (opt_or (fc_rows l) (fc_rows g)),
          flow_enabled = unwrap_or (opt_or (fc_enabled l) (fc_enabled g)) (flow_enabled d)\<rparr>)"

text \<open>
  \<^verbatim>\<open>FlowControlConfig::validate\<close>. The texts of the factor and threshold errors end with the
  \<^verbatim>\<open>Display\<close> of the number, which is the argument \<open>show\<close>; an infinity or a NaN is not a value here.
\<close>

definition check_factor :: "(rat \<Rightarrow> string) \<Rightarrow> string \<Rightarrow> string \<Rightarrow> rat option \<Rightarrow> unit saci_result" where
  "check_factor shown what key f =
     (case f of
        Some x \<Rightarrow> if x \<le> 1 then Inl (Configuration (what @ '': '' @ key @
          '' must be a finite number greater than 1.0, got '' @ shown x)) else Inr ()
      | None \<Rightarrow> Inr ())"

definition validate_flow :: "(rat \<Rightarrow> string) \<Rightarrow> flow_config \<Rightarrow> flow_config \<Rightarrow> string \<Rightarrow> unit saci_result" where
  "validate_flow shown l g what =
     (if fc_rows l \<noteq> None \<and> (fc_min_rows l \<noteq> None \<or> fc_max_rows l \<noteq> None \<or> fc_start_rows l \<noteq> None)
      then Inl (Configuration (what @ '': rows pins a fixed size and cannot be combined with '' @
        ''min_rows/max_rows/start_rows; declare one intent or the other''))
      else
        let mn = opt_or (fc_min_rows l) (fc_min_rows g); mx = opt_or (fc_max_rows l) (fc_max_rows g);
            pinned = opt_or (fc_rows l) (fc_rows g);
            effective_min = max (declared_rows mn (min_rows default_settings)) 1;
            effective_max = declared_rows mx (max_rows default_settings);
            effective_max' = max effective_max effective_min;
            start = opt_or (fc_start_rows l) (fc_start_rows g);
            effective_start = declared_rows start (start_rows default_settings);
            adaptive = (pinned = None \<and> unwrap_or (opt_or (fc_enabled l) (fc_enabled g)) True)
        in
        if mn = Some 0 then Inl (Configuration (what @ '': min_rows must be at least 1''))
        else if pinned = Some 0 then Inl (Configuration (what @ '': rows must be at least 1''))
        else if (mn \<noteq> None \<or> mx \<noteq> None) \<and> effective_max < effective_min
        then Inl (Configuration (what @ '': max_rows ('' @ dec_string effective_max @
          '') must be at least min_rows ('' @ dec_string effective_min @ '')''))
        else if start \<noteq> None \<and> (effective_start < effective_min \<or> effective_start > effective_max')
        then Inl (Configuration (what @ '': start_rows ('' @ dec_string effective_start @ '') must be within min_rows ('' @
          dec_string effective_min @ '')..=max_rows ('' @ dec_string effective_max' @ '')''))
        else if opt_or (fc_adjust_interval_ms l) (fc_adjust_interval_ms g) = Some 0 \<and> adaptive
        then Inl (Configuration (what @ '': adjust_interval_ms must be at least 1; it paces adjustment decisions''))
        else
          res_bind (check_factor shown what ''growth_factor'' (opt_or (fc_growth_factor l) (fc_growth_factor g))) (\<lambda>_.
          res_bind (check_factor shown what ''backoff_factor'' (opt_or (fc_backoff_factor l) (fc_backoff_factor g))) (\<lambda>_.
            case opt_or (fc_improve_threshold l) (fc_improve_threshold g) of
              Some th \<Rightarrow>
                if \<not> (0 \<le> th \<and> th < 1)
                then Inl (Configuration (what @ '': improve_threshold must be within 0.0..1.0, got '' @ shown th))
                else if opt_or (fc_min_samples_per_arm l) (fc_min_samples_per_arm g) = Some 0
                then Inl (Configuration (what @ '': min_samples_per_arm must be at least 1''))
                else Inr ()
            | None \<Rightarrow>
                if opt_or (fc_min_samples_per_arm l) (fc_min_samples_per_arm g) = Some 0
                then Inl (Configuration (what @ '': min_samples_per_arm must be at least 1''))
                else Inr ())))"

definition no_block :: flow_config where
  "no_block =
    \<lparr>fc_enabled = None, fc_min_rows = None, fc_max_rows = None, fc_start_rows = None,
            fc_max_chunk_bytes = None, fc_target_latency_ms = None, fc_adjust_interval_ms = None,
            fc_growth_factor = None, fc_improve_threshold = None, fc_min_samples_per_arm = None,
            fc_settle_after_epochs = None, fc_backoff_factor = None, fc_backoff_cooldown = None, fc_rows = None\<rparr>"

text \<open>\<^verbatim>\<open>FlowPlan\<close>: the sources are the ids and blocks of every workflow, in order.\<close>

record flow_plan =
  fallback :: flow_settings
  by_source :: "string \<rightharpoonup> flow_settings"

definition plan_from_config :: "bool \<Rightarrow> flow_config \<Rightarrow> (string \<times> flow_config option) list \<Rightarrow> flow_plan" where
  "plan_from_config stream_mode global sources =
     (let defaults = (if stream_mode then stream_defaults else default_settings);
          fb = resolve global no_block defaults
      in \<lparr>fallback = fb,
          by_source = fold (\<lambda>(i, block) m.
            m(i \<mapsto> (case block of Some b \<Rightarrow> resolve b global defaults | None \<Rightarrow> fb))) sources Map.empty\<rparr>)"

definition for_source :: "flow_plan \<Rightarrow> string \<Rightarrow> flow_settings" where
  "for_source p i = (case by_source p i of Some s \<Rightarrow> s | None \<Rightarrow> fallback p)"

end
