(* ===== verification/Flow_Properties.thy ===== *)
theory Flow_Properties
  imports Flow
begin

text \<open>
  The flow controller keeps its target in the configured range, moves it only on evidence, and
  never stops searching for good.
\<close>

section \<open>Runs\<close>

definition run_flow :: "flow_sample list \<Rightarrow> controller \<Rightarrow> controller" where
  "run_flow sms c = fold (\<lambda>sm c. snd (observe sm c)) sms c"

lemma run_flow_simps [simp]:
  "run_flow [] c = c" "run_flow (sm # sms) c = run_flow sms (snd (observe sm c))"
  "run_flow (xs @ ys) c = run_flow ys (run_flow xs c)"
  by (simp_all add: run_flow_def)

definition lo_rows :: "flow_settings \<Rightarrow> nat" where
  "lo_rows s = max (min_rows s) 1"

definition hi_rows :: "flow_settings \<Rightarrow> nat" where
  "hi_rows s = max (max_rows s) (lo_rows s)"

definition in_range :: "flow_settings \<Rightarrow> nat \<Rightarrow> bool" where
  "in_range s r \<longleftrightarrow> lo_rows s \<le> r \<and> r \<le> hi_rows s"

lemma clamp_in_range [simp]: "in_range s (clamp_rows r s)"
  by (auto simp: in_range_def clamp_rows_def lo_rows_def hi_rows_def Let_def)

lemma clamp_value: "clamp_rows r s = min (max r (lo_rows s)) (hi_rows s)"
  by (simp add: clamp_rows_def lo_rows_def hi_rows_def Let_def)

lemma floor_rows_lo: "floor_rows c = lo_rows (settings c)"
  by (simp add: floor_rows_def lo_rows_def)

section \<open>What each step leaves alone\<close>

lemma propose_fields [simp]:
  "settings (propose_candidate c) = settings c" "incumbent (propose_candidate c) = incumbent c"
  "phase (propose_candidate c) = phase c" "settled_epochs (propose_candidate c) = settled_epochs c"
  "ceiling_rows (propose_candidate c) = ceiling_rows c" "cooldown (propose_candidate c) = cooldown c"
  "arm_now (propose_candidate c) = Incumbent" "epoch_start (propose_candidate c) = epoch_start c"
  "incumbent_stats (propose_candidate c) = incumbent_stats c"
  "candidate_stats (propose_candidate c) = candidate_stats c"
  by (simp_all add: propose_candidate_def Let_def)

lemma step_in_range [simp]: "in_range (settings c) (step_from_incumbent c)"
  by (simp add: step_from_incumbent_def Let_def)

lemma propose_in_range: "in_range (settings c) (candidate (propose_candidate c))"
proof -
  have "in_range (settings c) (step_from_incumbent (c\<lparr>candidate := x, direction := y\<rparr>))" for x y
    using step_in_range [of "c\<lparr>candidate := x, direction := y\<rparr>"] by simp
  then show ?thesis by (simp add: propose_candidate_def Let_def)
qed

lemma propose_in_range_of: "settings c = s \<Longrightarrow> in_range s (candidate (propose_candidate c))"
  using propose_in_range by blast

lemma start_epoch_fields [simp]:
  "settings (start_epoch c) = settings c" "incumbent (start_epoch c) = incumbent c"
  "candidate (start_epoch c) = candidate c" "phase (start_epoch c) = phase c"
  "settled_epochs (start_epoch c) = settled_epochs c" "ceiling_rows (start_epoch c) = ceiling_rows c"
  "cooldown (start_epoch c) = cooldown c" "arm_now (start_epoch c) = Incumbent"
  "direction (start_epoch c) = direction c" "latency_abandoned (start_epoch c) = latency_abandoned c"
  by (simp_all add: start_epoch_def)

lemma rest_fields [simp]:
  "settings (rest_if_settled c) = settings c" "incumbent (rest_if_settled c) = incumbent c"
  "candidate (rest_if_settled c) = candidate c" "ceiling_rows (rest_if_settled c) = ceiling_rows c"
  "cooldown (rest_if_settled c) = cooldown c"
  by (simp_all add: rest_if_settled_def Let_def)

lemma note_fields [simp]:
  "settings (note_throughput m c) = settings c" "incumbent (note_throughput m c) = incumbent c"
  "candidate (note_throughput m c) = candidate c" "phase (note_throughput m c) = phase c"
  "ceiling_rows (note_throughput m c) = ceiling_rows c" "cooldown (note_throughput m c) = cooldown c"
  "arm_now (note_throughput m c) = arm_now c" "epoch_start (note_throughput m c) = epoch_start c"
  "incumbent_stats (note_throughput m c) = incumbent_stats c"
  "candidate_stats (note_throughput m c) = candidate_stats c"
  "latency_abandoned (note_throughput m c) = latency_abandoned c"
  "settled_epochs (note_throughput m c) = settled_epochs c" "direction (note_throughput m c) = direction c"
  by (simp_all add: note_throughput_def split: option.splits)

lemma pressure_fields:
  assumes "track_sink_pressure p c = (b, c')"
  shows "settings c' = settings c" "incumbent c' = incumbent c" "candidate c' = candidate c" "phase c' = phase c"
    "ceiling_rows c' = ceiling_rows c" "cooldown c' = cooldown c" "arm_now c' = arm_now c"
    "epoch_start c' = epoch_start c" "incumbent_stats c' = incumbent_stats c"
    "candidate_stats c' = candidate_stats c" "latency_abandoned c' = latency_abandoned c"
    "settled_epochs c' = settled_epochs c" "direction c' = direction c"
  using assms by (auto simp: track_sink_pressure_def Let_def split: option.splits)

lemma latency_fields [simp]:
  "settings (track_latency_objective sm c) = settings c" "incumbent (track_latency_objective sm c) = incumbent c"
  "candidate (track_latency_objective sm c) = candidate c" "phase (track_latency_objective sm c) = phase c"
  "ceiling_rows (track_latency_objective sm c) = ceiling_rows c" "cooldown (track_latency_objective sm c) = cooldown c"
  "arm_now (track_latency_objective sm c) = arm_now c" "epoch_start (track_latency_objective sm c) = epoch_start c"
  "incumbent_stats (track_latency_objective sm c) = incumbent_stats c"
  "candidate_stats (track_latency_objective sm c) = candidate_stats c"
  "settled_epochs (track_latency_objective sm c) = settled_epochs c" "direction (track_latency_objective sm c) = direction c"
  by (simp_all add: track_latency_objective_def Let_def)

section \<open>The invariant\<close>

definition rest_ok :: "phase \<Rightarrow> bool" where
  "rest_ok p = (case p of Experiment \<Rightarrow> True | Rest r \<Rightarrow> 1 \<le> r \<and> r \<le> MAX_REST_EPOCHS)"

definition flow_inv :: "controller \<Rightarrow> bool" where
  "flow_inv c \<longleftrightarrow> in_range (settings c) (incumbent c) \<and> in_range (settings c) (candidate c) \<and>
     (\<forall>w. ceiling_rows c = Some w \<longrightarrow> lo_rows (settings c) < w) \<and> rest_ok (phase c)"

lemma flow_inv_propose: "flow_inv (c\<lparr>candidate := incumbent c\<rparr>) \<Longrightarrow> flow_inv (propose_candidate c)"
  using propose_in_range [of c] by (simp add: flow_inv_def)

lemma rest_ok_rest: "rest_ok (phase c) \<Longrightarrow> rest_ok (phase (rest_if_settled c))"
proof -
  assume "rest_ok (phase c)"
  moreover have "1 \<le> min (2 ^ k) (16 :: nat)" for k by simp
  ultimately show ?thesis by (simp add: rest_if_settled_def Let_def rest_ok_def MAX_REST_EPOCHS_def)
qed

lemma flow_inv_rest: "flow_inv c \<Longrightarrow> flow_inv (rest_if_settled c)"
  by (simp add: flow_inv_def rest_ok_rest)

lemma flow_inv_cong:
  "flow_inv c \<Longrightarrow> settings c' = settings c \<Longrightarrow> incumbent c' = incumbent c \<Longrightarrow> candidate c' = candidate c \<Longrightarrow>
     ceiling_rows c' = ceiling_rows c \<Longrightarrow> rest_ok (phase c') \<Longrightarrow> flow_inv c'"
  by (simp add: flow_inv_def)

lemma flow_inv_back_off:
  assumes "flow_inv c"
  shows "flow_inv (snd (back_off cause c))"
proof -
  have "lo_rows (settings c) < max (target_rows c) (incumbent c)"
    if "\<not> max (target_rows c) (incumbent c) \<le> lo_rows (settings c)" using that by (simp only: not_le)
  then show ?thesis
    using assms
    by (simp add: back_off_def Let_def floor_rows_lo flow_inv_def rest_ok_def min_def propose_in_range_of
        split: option.splits)
qed

lemma flow_inv_close_epoch:
  assumes "flow_inv c"
  shows "flow_inv (snd (close_epoch c))"
proof -
  have p: "flow_inv (propose_candidate d)"
    if "settings d = settings c" "incumbent d = incumbent c \<or> incumbent d = candidate c"
      "ceiling_rows d = ceiling_rows c \<or> ceiling_rows d = None" "phase d = phase c" for d
    using that assms propose_in_range [of d] by (auto simp: flow_inv_def)
  have s: "flow_inv (start_epoch c)" using assms by (simp add: flow_inv_def)
  show ?thesis
    unfolding close_epoch_def Let_def
    by (auto simp: s intro!: p flow_inv_rest split: option.splits)
qed

lemma flow_inv_close_rest:
  assumes "flow_inv c" "phase c = Rest r"
  shows "flow_inv (snd (close_rest_epoch r c))"
proof -
  have p: "flow_inv (propose_candidate d)"
    if "settings d = settings c" "incumbent d = incumbent c" "ceiling_rows d = ceiling_rows c" "phase d = Experiment" for d
    using that assms propose_in_range [of d] by (auto simp: flow_inv_def rest_ok_def)
  show ?thesis
    using assms unfolding close_rest_epoch_def Let_def
    by (auto intro!: p) (auto simp: flow_inv_def rest_ok_def)
qed

text \<open>The state a measured pass closes an epoch in.\<close>

definition after_pass :: "flow_sample \<Rightarrow> controller \<Rightarrow> controller" where
  "after_pass sm c =
     (let a = arm_now c;
          c1 = (case a of
                  Incumbent \<Rightarrow> c\<lparr>incumbent_stats := add_sample (sm_rows sm) (sm_elapsed sm) (incumbent_stats c)\<rparr>
                | Candidate \<Rightarrow> c\<lparr>candidate_stats := add_sample (sm_rows sm) (sm_elapsed sm) (candidate_stats c)\<rparr>);
          c2 = c1\<lparr>epoch_start := Some (case epoch_start c of Some t \<Rightarrow> t | None \<Rightarrow> sm_at sm)\<rparr>
      in if phase c2 = Experiment \<and> candidate c2 \<noteq> incumbent c2
         then c2\<lparr>arm_now := (case a of Incumbent \<Rightarrow> Candidate | Candidate \<Rightarrow> Incumbent)\<rparr> else c2)"

definition epoch_over :: "flow_sample \<Rightarrow> controller \<Rightarrow> bool" where
  "epoch_over sm c \<longleftrightarrow> sm_at sm - (case epoch_start c of Some t \<Rightarrow> t | None \<Rightarrow> sm_at sm) \<ge>
     millis (max (adjust_interval_ms (settings c)) 1)"

lemma after_pass_fields [simp]:
  "settings (after_pass sm c) = settings c" "incumbent (after_pass sm c) = incumbent c"
  "candidate (after_pass sm c) = candidate c" "phase (after_pass sm c) = phase c"
  "ceiling_rows (after_pass sm c) = ceiling_rows c" "cooldown (after_pass sm c) = cooldown c"
  "latency_abandoned (after_pass sm c) = latency_abandoned c" "direction (after_pass sm c) = direction c"
  by (simp_all add: after_pass_def Let_def split: arm.splits)

lemma measure_pass_cases:
  "measure_pass sm c =
     (if \<not> epoch_over sm c then (Held, after_pass sm c)
      else case phase c of Experiment \<Rightarrow> close_epoch (after_pass sm c)
           | Rest r \<Rightarrow> close_rest_epoch r (after_pass sm c))"
proof -
  have "epoch_start (case arm_now c of Incumbent \<Rightarrow> c\<lparr>incumbent_stats := x\<rparr> | Candidate \<Rightarrow> c\<lparr>candidate_stats := y\<rparr>) =
      epoch_start c" for x y by (simp split: arm.splits)
  then show ?thesis
    by (cases "arm_now c"; cases "phase c")
      (simp_all add: measure_pass_def after_pass_def epoch_over_def Let_def not_less)
qed

lemma flow_inv_after_pass: "flow_inv c \<Longrightarrow> flow_inv (after_pass sm c)"
  by (rule flow_inv_cong) (simp_all add: flow_inv_def)

lemma flow_inv_measure_pass:
  assumes "flow_inv c"
  shows "flow_inv (snd (measure_pass sm c))"
  using flow_inv_after_pass [OF assms, of sm] flow_inv_close_epoch [of "after_pass sm c"]
    flow_inv_close_rest [of "after_pass sm c"]
  by (simp add: measure_pass_cases split: phase.splits)

lemma settings_back_off [simp]: "settings (snd (back_off cause c)) = settings c"
  by (simp add: back_off_def Let_def)

lemma settings_close_epoch [simp]: "settings (snd (close_epoch c)) = settings c"
  by (simp add: close_epoch_def Let_def split: option.splits)

lemma settings_close_rest [simp]: "settings (snd (close_rest_epoch r c)) = settings c"
  by (simp add: close_rest_epoch_def Let_def)

lemma settings_measure_pass [simp]: "settings (snd (measure_pass sm c)) = settings c"
  by (simp add: measure_pass_cases split: phase.splits)

section \<open>One observation\<close>

text \<open>The bookkeeping that comes before any decision.\<close>

definition noted :: "flow_sample \<Rightarrow> controller \<Rightarrow> controller" where
  "noted sm c = note_throughput (measured_rate sm) (c\<lparr>latency_notice := None\<rparr>)"

definition tracked :: "flow_sample \<Rightarrow> controller \<Rightarrow> controller" where
  "tracked sm c = snd (track_sink_pressure (sm_pending sm) (noted sm c))"

definition guard_of :: "flow_sample \<Rightarrow> controller \<Rightarrow> flow_cause option" where
  "guard_of sm c = guard_cause (fst (track_sink_pressure (sm_pending sm) (noted sm c))) sm (tracked sm c)"

lemma tracked_fields [simp]:
  "settings (tracked sm c) = settings c" "incumbent (tracked sm c) = incumbent c"
  "candidate (tracked sm c) = candidate c" "phase (tracked sm c) = phase c"
  "ceiling_rows (tracked sm c) = ceiling_rows c" "cooldown (tracked sm c) = cooldown c"
  "arm_now (tracked sm c) = arm_now c" "epoch_start (tracked sm c) = epoch_start c"
  "incumbent_stats (tracked sm c) = incumbent_stats c" "candidate_stats (tracked sm c) = candidate_stats c"
  "latency_abandoned (tracked sm c) = latency_abandoned c" "direction (tracked sm c) = direction c"
  "settled_epochs (tracked sm c) = settled_epochs c"
  using pressure_fields [of "sm_pending sm" "noted sm c" _ "tracked sm c"]
  by (simp_all add: tracked_def noted_def prod_eq_iff)

lemma noted_fields [simp]:
  "settings (noted sm c) = settings c" "incumbent (noted sm c) = incumbent c" "candidate (noted sm c) = candidate c"
  "phase (noted sm c) = phase c" "ceiling_rows (noted sm c) = ceiling_rows c" "cooldown (noted sm c) = cooldown c"
  "arm_now (noted sm c) = arm_now c"
  by (simp_all add: noted_def)

lemma observe_cases:
  "observe sm c =
     (if \<not> is_adaptive c then (Held, noted sm c)
      else if cooldown c > 0 then
        (Held, (tracked sm c)\<lparr>cooldown := if guard_of sm c \<noteq> None then backoff_cooldown (settings c) else cooldown c - 1\<rparr>)
      else case guard_of sm c of
          Some cause \<Rightarrow> back_off cause (tracked sm c)
        | None \<Rightarrow> if measured_rate sm = None then (Held, track_latency_objective sm (tracked sm c))
                  else measure_pass sm (track_latency_objective sm (tracked sm c)))"
proof -
  have a: "is_adaptive (noted sm c) = is_adaptive c" by (simp add: is_adaptive_def)
  obtain b c1 where t: "track_sink_pressure (sm_pending sm) (noted sm c) = (b, c1)" by fastforce
  then have c1: "c1 = tracked sm c" "b = fst (track_sink_pressure (sm_pending sm) (noted sm c))"
    by (simp_all add: tracked_def)
  have f: "cooldown c1 = cooldown c" "settings c1 = settings c" by (simp_all add: c1)
  show ?thesis
    unfolding observe_def Let_def noted_def [symmetric] a t prod.case f
    unfolding c1(1) guard_of_def c1(2) [symmetric] by simp
qed

lemma settings_observe [simp]: "settings (snd (observe sm c)) = settings c"
  by (simp add: observe_cases split: option.splits)

lemma settings_run [simp]: "settings (run_flow sms c) = settings c"
  by (induction sms arbitrary: c) simp_all

lemma flow_inv_tracked: "flow_inv c \<Longrightarrow> flow_inv (tracked sm c)"
  by (rule flow_inv_cong) (simp_all add: flow_inv_def)

lemma flow_inv_latency: "flow_inv c \<Longrightarrow> flow_inv (track_latency_objective sm c)"
  by (rule flow_inv_cong) (simp_all add: flow_inv_def)

lemma flow_inv_observe:
  assumes "flow_inv c"
  shows "flow_inv (snd (observe sm c))"
proof -
  have t: "flow_inv (tracked sm c)" by (rule flow_inv_tracked [OF assms])
  have "flow_inv ((tracked sm c)\<lparr>cooldown := k\<rparr>)" for k using t by (simp add: flow_inv_def)
  moreover have "flow_inv (noted sm c)" using assms by (simp add: flow_inv_def)
  ultimately show ?thesis
    using t by (simp add: observe_cases flow_inv_back_off flow_inv_measure_pass flow_inv_latency split: option.splits)
qed

lemma flow_inv_run: "flow_inv c \<Longrightarrow> flow_inv (run_flow sms c)"
  by (induction sms arbitrary: c) (simp_all add: flow_inv_observe)

lemma flow_inv_new:
  assumes "fixed_rows s = None"
  shows "flow_inv (new_controller s)"
  using assms by (simp add: propose_in_range_of flow_inv_def new_controller_def Let_def rest_ok_def)

lemma new_controller_fields:
  "settings (new_controller s) = s" "arm_now (new_controller s) = Incumbent" "cooldown (new_controller s) = 0"
  "incumbent (new_controller s) = (case fixed_rows s of Some r \<Rightarrow> max r 1 | None \<Rightarrow> clamp_rows (start_rows s) s)"
  by (simp_all add: new_controller_def Let_def)

lemma idle_run:
  "\<not> is_adaptive c \<Longrightarrow> incumbent (run_flow sms c) = incumbent c \<and> arm_now (run_flow sms c) = arm_now c \<and>
     cooldown (run_flow sms c) = cooldown c"
proof (induction sms arbitrary: c)
  case (Cons sm sms)
  have o: "observe sm c = (Held, noted sm c)" using Cons.prems by (simp add: observe_cases)
  have "\<not> is_adaptive (noted sm c)" using Cons.prems by (simp add: is_adaptive_def)
  from Cons.IH [OF this] o show ?case by simp
qed simp

lemma adaptive_bounds:
  assumes "flow_enabled s" "fixed_rows s = None"
  shows "in_range s (incumbent (run_flow sms (new_controller s)))" (is "in_range s (incumbent ?c)")
    "in_range s (candidate (run_flow sms (new_controller s)))"
    "lo_rows s \<le> target_rows (run_flow sms (new_controller s))"
    "target_rows (run_flow sms (new_controller s)) \<le> hi_rows s"
proof -
  have set: "settings ?c = s" by (simp add: new_controller_fields)
  have "flow_inv ?c" using assms by (simp add: flow_inv_run flow_inv_new)
  then show "in_range s (incumbent ?c)" "in_range s (candidate ?c)" using set by (simp_all add: flow_inv_def)
  then show "lo_rows s \<le> target_rows ?c" "target_rows ?c \<le> hi_rows s"
    by (auto simp: target_rows_def in_range_def split: arm.splits)
qed

lemma idle_target:
  assumes "\<not> (flow_enabled s \<and> fixed_rows s = None)"
  shows "target_rows (run_flow sms (new_controller s)) =
    (case fixed_rows s of Some r \<Rightarrow> max r 1 | None \<Rightarrow> clamp_rows (start_rows s) s)"
proof -
  have "\<not> is_adaptive (new_controller s)" using assms by (auto simp: is_adaptive_def new_controller_fields)
  from idle_run [OF this, of sms] show ?thesis by (simp add: target_rows_def new_controller_fields)
qed

text \<open>
  The size a runner may admit never leaves the configured range, whatever passes the controller
  is shown: errors, backlogs, oversized chunks, idle passes, clocks that jump. An adaptive
  controller's target and the two sizes of its experiment stay within the floor and the ceiling of
  its settings (the floor is at least one row, so a target is never zero), and a pinned or a
  disabled controller keeps the one size it started with.
\<close>

theorem flow_target_in_range:
  "let c = run_flow sms (new_controller s) in
     (if flow_enabled s \<and> fixed_rows s = None
      then max (min_rows s) 1 \<le> target_rows c \<and> target_rows c \<le> max (max_rows s) (max (min_rows s) 1) \<and>
        in_range s (incumbent c) \<and> in_range s (candidate c)
      else target_rows c = (case fixed_rows s of Some r \<Rightarrow> max r 1 | None \<Rightarrow> clamp_rows (start_rows s) s))"
  using adaptive_bounds [of s sms] idle_target [of s sms]
  by (simp add: Let_def lo_rows_def hi_rows_def)

section \<open>Why the target moves\<close>

definition moved_by :: "flow_adjustment \<Rightarrow> flow_move option" where
  "moved_by a = (case a of Grew m \<Rightarrow> Some m | Shrank m \<Rightarrow> Some m | BackedOff m \<Rightarrow> Some m
     | HeldAtFloor m \<Rightarrow> Some m | Held \<Rightarrow> None)"

text \<open>What an epoch has to show before it commits its candidate.\<close>

definition epoch_won :: "controller \<Rightarrow> flow_cause \<Rightarrow> bool" where
  "epoch_won c cause \<longleftrightarrow>
     (let inc = incumbent_stats c; cand = candidate_stats c in
      phase c = Experiment \<and> candidate c \<noteq> incumbent c \<and>
      min_samples_per_arm (settings c) \<le> as_samples inc \<and> min_samples_per_arm (settings c) \<le> as_samples cand \<and>
      (if breaches_objective c inc
       then candidate c < incumbent c \<and> (\<exists>ms. cause = Latency_Objective ms (target_latency_ms (settings c)))
       else \<not> breaches_objective c cand \<and> cause = Experiment_Won (rate cand) (rate inc) \<and>
         rate cand > rnd (rate inc * rnd (1 + improve_threshold (settings c)))))"

lemma breaches_start [simp]: "breaches_objective (start_epoch c) a = breaches_objective c a"
  by (simp add: breaches_objective_def)

lemma close_epoch_outcome:
  assumes "phase c = Experiment" "close_epoch c = (a, c')"
  shows "(a = Held \<and> incumbent c' = incumbent c) \<or>
    (\<exists>cause. let m = \<lparr>from_rows = incumbent c, to_rows = candidate c, move_cause = cause\<rparr> in
       epoch_won c cause \<and> incumbent c' = candidate c \<and>
       a = (if candidate c > incumbent c then Grew m else Shrank m))"
proof -
  have f: "settings (start_epoch c) = settings c" "candidate (start_epoch c) = candidate c"
    "incumbent (start_epoch c) = incumbent c" by simp_all
  show ?thesis
    using assms unfolding close_epoch_def Let_def f breaches_start
    by (auto simp: epoch_won_def Let_def not_less split: if_splits option.splits)
qed

lemma close_rest_outcome: "close_rest_epoch r c = (a, c') \<Longrightarrow> a = Held \<and> incumbent c' = incumbent c"
  by (auto simp: close_rest_epoch_def Let_def)

lemma back_off_floor:
  assumes "max (target_rows c) (incumbent c) \<le> floor_rows c"
  shows "back_off cause c =
    (HeldAtFloor \<lparr>from_rows = max (target_rows c) (incumbent c), to_rows = max (target_rows c) (incumbent c), move_cause = cause\<rparr>,
     c\<lparr>settled_epochs := 0, phase := Experiment\<rparr>)"
  using assms by (simp add: back_off_def Let_def floor_rows_def)

definition divided :: "controller \<Rightarrow> nat" where
  "divided c = clamp_rows (max (as_u64 (of_int \<lfloor>rnd (f64_of (max (target_rows c) (incumbent c)) /
     backoff_factor (settings c))\<rfloor>)) 1) (settings c)"

lemma back_off_divides:
  assumes "\<not> max (target_rows c) (incumbent c) \<le> floor_rows c" "back_off cause c = (a, c')"
  shows "incumbent c' = divided c" "phase c' = Experiment" "settled_epochs c' = 0"
    "cooldown c' = backoff_cooldown (settings c)" "target_rows c' = divided c"
    "incumbent_stats c' = no_stats" "candidate_stats c' = no_stats" "epoch_start c' = None"
    "ceiling_rows c' = Some (case ceiling_rows c of Some w \<Rightarrow> min w (max (target_rows c) (incumbent c))
       | None \<Rightarrow> max (target_rows c) (incumbent c))"
    "a = (let m = \<lparr>from_rows = max (target_rows c) (incumbent c), to_rows = divided c, move_cause = cause\<rparr> in
       if divided c = incumbent c \<and> divided c \<le> floor_rows c then HeldAtFloor m else BackedOff m)"
proof -
  define failed where "failed = max (target_rows c) (incumbent c)"
  have n: "\<not> failed \<le> floor_rows (c\<lparr>settled_epochs := 0, phase := Experiment\<rparr>)"
    using assms(1) by (simp add: failed_def floor_rows_def)
  note e = assms(2) [unfolded back_off_def Let_def, folded failed_def, unfolded if_not_P [OF n], symmetric]
  show "incumbent c' = divided c" "phase c' = Experiment" "settled_epochs c' = 0"
    "cooldown c' = backoff_cooldown (settings c)" "incumbent_stats c' = no_stats" "candidate_stats c' = no_stats"
    "epoch_start c' = None"
    using e by (simp_all add: divided_def failed_def start_epoch_def)
  show "target_rows c' = divided c"
    using e by (simp add: target_rows_def divided_def failed_def start_epoch_def)
  show "ceiling_rows c' = Some (case ceiling_rows c of Some w \<Rightarrow> min w (max (target_rows c) (incumbent c))
       | None \<Rightarrow> max (target_rows c) (incumbent c))"
    using arg_cong [OF e, of snd] unfolding snd_conv failed_def [symmetric]
    by (simp cong: option.case_cong)
  have dv: "clamp_rows (max (as_u64 (of_int \<lfloor>rnd (f64_of failed / backoff_factor (settings c))\<rfloor>)) 1) (settings c) = divided c"
    by (simp add: divided_def failed_def)
  show "a = (let m = \<lparr>from_rows = max (target_rows c) (incumbent c), to_rows = divided c, move_cause = cause\<rparr> in
       if divided c = incumbent c \<and> divided c \<le> floor_rows c then HeldAtFloor m else BackedOff m)"
    using arg_cong [OF e, of fst] unfolding fst_conv failed_def [symmetric]
    by (simp add: dv [unfolded One_nat_def] floor_rows_lo Let_def cong: if_cong)
qed

lemma divided_less:
  assumes "\<not> max (target_rows c) (incumbent c) \<le> floor_rows c" "max (target_rows c) (incumbent c) \<le> 2 ^ 53"
    "1 + 1 / 2 ^ 52 \<le> backoff_factor (settings c)"
  shows "divided c < max (target_rows c) (incumbent c)"
proof -
  define failed where "failed = max (target_rows c) (incumbent c)"
  let ?b = "backoff_factor (settings c)" let ?y = "of_nat failed / ?b"
  have pos: "0 < failed" using assms(1) unfolding failed_def floor_rows_def by linarith
  have b: "0 < ?b" using assms(3) by (rule less_le_trans [rotated]) simp
  have "rnd ?y \<le> ?y + ?y / 2 ^ 53" using rnd_bounds [of ?y] b by simp
  also have "\<dots> = of_nat failed * (1 + 1 / 2 ^ 53) / ?b" by (simp add: field_simps)
  also have "\<dots> < of_nat failed"
  proof -
    have "(1 + 1 / 2 ^ 53 :: rat) < ?b" using assms(3) by (rule less_le_trans [rotated]) simp
    then have "of_nat failed * (1 + 1 / 2 ^ 53) < of_nat failed * ?b" using pos by simp
    then show ?thesis using b by (simp add: pos_divide_less_eq)
  qed
  finally have "\<lfloor>rnd (f64_of failed / ?b)\<rfloor> < int failed"
    using assms(2) by (simp add: f64_of_exact failed_def floor_less_iff)
  then have "as_u64 (of_int \<lfloor>rnd (f64_of failed / ?b)\<rfloor>) < failed"
    using pos unfolding as_u64_def min_less_iff_disj floor_of_int by linarith
  then show ?thesis
    using assms(1) pos
    by (simp add: divided_def failed_def [symmetric] clamp_value floor_rows_lo lo_rows_def min_less_iff_disj not_le
        less_max_iff_disj)
qed

lemma target_tracked [simp]: "target_rows (tracked sm c) = target_rows c"
  by (simp add: target_rows_def split: arm.splits)

lemma divided_tracked [simp]: "divided (tracked sm c) = divided c"
  by (simp add: divided_def)

lemma floor_tracked [simp]: "floor_rows (tracked sm c) = floor_rows c"
  by (simp add: floor_rows_def)

text \<open>
  C34. The target moves only on evidence, and every move reports the evidence. In an adaptive run: a
  larger or a smaller size is committed only when an epoch of the configured length is over, no
  guard tripped, both arms have the required number of samples, and the candidate either beat the
  incumbent's rate by the configured margin without breaching the latency objective, or is smaller
  while the incumbent breaches it. A back-off happens exactly on the pass that trips a guard (an
  error, a growing backlog, an oversized chunk, in that order), names the guard, strictly divides
  the size that failed, and abandons the epoch; at the floor the size is held instead. In every
  other pass the size being defended does not change.
\<close>

theorem flow_moves_on_evidence:
  assumes "c = run_flow sms (new_controller s)" "flow_enabled s" "fixed_rows s = None"
    and "max (max_rows s) (min_rows s) \<le> 2 ^ 53" "1 + 1 / 2 ^ 52 \<le> backoff_factor s"
    and "observe sm c = (a, c')"
  shows "case a of
      Held \<Rightarrow> incumbent c' = incumbent c
    | Grew m \<Rightarrow> cooldown c = 0 \<and> guard_of sm c = None \<and> epoch_over sm c \<and>
        epoch_won (after_pass sm (track_latency_objective sm (tracked sm c))) (move_cause m) \<and>
        from_rows m = incumbent c \<and> to_rows m = candidate c \<and> incumbent c' = candidate c \<and> from_rows m < to_rows m
    | Shrank m \<Rightarrow> cooldown c = 0 \<and> guard_of sm c = None \<and> epoch_over sm c \<and>
        epoch_won (after_pass sm (track_latency_objective sm (tracked sm c))) (move_cause m) \<and>
        from_rows m = incumbent c \<and> to_rows m = candidate c \<and> incumbent c' = candidate c \<and> to_rows m < from_rows m
    | BackedOff m \<Rightarrow> cooldown c = 0 \<and> guard_of sm c = Some (move_cause m) \<and>
        from_rows m = max (target_rows c) (incumbent c) \<and> to_rows m < from_rows m \<and>
        incumbent c' = to_rows m \<and> target_rows c' = to_rows m \<and> phase c' = Experiment \<and>
        cooldown c' = backoff_cooldown s \<and> epoch_start c' = None
    | HeldAtFloor m \<Rightarrow> cooldown c = 0 \<and> guard_of sm c = Some (move_cause m) \<and> phase c' = Experiment \<and>
        incumbent c' = incumbent c \<and> incumbent c = max (min_rows s) 1"
proof -
  have set: "settings c = s" using assms(1) by (simp add: new_controller_fields)
  have ad: "is_adaptive c" using assms(2,3) by (simp add: is_adaptive_def set)
  have inv: "flow_inv c" using assms(1,3) by (simp add: flow_inv_run flow_inv_new)
  have range: "in_range s (incumbent c)" "in_range s (candidate c)" using inv set by (simp_all add: flow_inv_def)
  have bound: "max (target_rows c) (incumbent c) \<le> 2 ^ 53"
    using range assms(4) by (auto simp: target_rows_def in_range_def hi_rows_def lo_rows_def split: arm.splits)
  let ?d = "track_latency_objective sm (tracked sm c)"
  consider (cool) "cooldown c > 0" | (guard) cause where "cooldown c = 0" "guard_of sm c = Some cause"
    | (idle) "cooldown c = 0" "guard_of sm c = None" "measured_rate sm = None"
    | (pass) "cooldown c = 0" "guard_of sm c = None" "measured_rate sm \<noteq> None" by fastforce
  then show ?thesis
  proof cases
    case cool
    then have "(a, c') = (Held, (tracked sm c)\<lparr>cooldown := if guard_of sm c \<noteq> None then backoff_cooldown (settings c) else cooldown c - 1\<rparr>)"
      using assms(6) ad by (simp add: observe_cases)
    then show ?thesis by simp
  next
    case guard
    have b: "back_off cause (tracked sm c) = (a, c')" using assms(6) ad guard by (simp add: observe_cases)
    show ?thesis
    proof (cases "max (target_rows c) (incumbent c) \<le> floor_rows c")
      case True
      then have "(a, c') = (HeldAtFloor \<lparr>from_rows = max (target_rows c) (incumbent c), to_rows = max (target_rows c) (incumbent c), move_cause = cause\<rparr>,
          (tracked sm c)\<lparr>settled_epochs := 0, phase := Experiment\<rparr>)"
        using back_off_floor [of "tracked sm c" cause] b by simp
      moreover have "incumbent c = lo_rows s" using True range(1) by (simp add: floor_rows_lo set in_range_def)
      ultimately show ?thesis using guard by (simp add: lo_rows_def)
    next
      case False
      then have nf: "\<not> max (target_rows (tracked sm c)) (incumbent (tracked sm c)) \<le> floor_rows (tracked sm c)" by simp
      note d = back_off_divides [OF nf b]
      have "divided c < max (target_rows c) (incumbent c)"
        by (rule divided_less [OF False bound]) (use assms(5) in \<open>simp only: set\<close>)
      moreover have "lo_rows s \<le> divided c"
        using clamp_in_range [of s] by (simp add: divided_def set in_range_def)
      ultimately show ?thesis
        using d guard(1,2) set by (auto simp: Let_def floor_rows_lo lo_rows_def)
    qed
  next
    case idle
    then have "(a, c') = (Held, ?d)" using assms(6) ad by (simp add: observe_cases)
    then show ?thesis by simp
  next
    case pass
    have m: "measure_pass sm ?d = (a, c')" using assms(6) ad pass by (simp add: observe_cases)
    have over: "epoch_over sm ?d = epoch_over sm c" by (simp add: epoch_over_def)
    show ?thesis
    proof (cases "epoch_over sm c")
      case False
      then have "(a, c') = (Held, after_pass sm ?d)" using m over by (simp add: measure_pass_cases)
      then show ?thesis by simp
    next
      case True
      show ?thesis
      proof (cases "phase c")
        case Experiment
        then have "close_epoch (after_pass sm ?d) = (a, c')" using m over True by (simp add: measure_pass_cases)
        from close_epoch_outcome [OF _ this] Experiment
        consider "a = Held" "incumbent c' = incumbent c"
          | cause where "epoch_won (after_pass sm ?d) cause" "incumbent c' = candidate c"
            "a = (if candidate c > incumbent c then Grew \<lparr>from_rows = incumbent c, to_rows = candidate c, move_cause = cause\<rparr>
                  else Shrank \<lparr>from_rows = incumbent c, to_rows = candidate c, move_cause = cause\<rparr>)"
          by (auto simp: Let_def)
        then show ?thesis
        proof cases
          case 2
          then have "candidate c \<noteq> incumbent c" by (simp add: epoch_won_def Let_def)
          then show ?thesis using 2 pass True by auto
        qed simp
      next
        case (Rest r)
        then have "close_rest_epoch r (after_pass sm ?d) = (a, c')" using m over True by (simp add: measure_pass_cases)
        from close_rest_outcome [OF this] show ?thesis by simp
      qed
    qed
  qed
qed

definition failed_pass :: flow_sample where
  "failed_pass = \<lparr>sm_rows = 0, sm_elapsed = 0, sm_bytes = 0, sm_pending = None, sm_outcome = Flow_Error, sm_at = 7\<rparr>"

lemma default_start: "incumbent (new_controller default_settings) = 4096"
  "target_rows (new_controller default_settings) = 4096"
  by (simp_all add: new_controller_fields target_rows_def default_settings_def clamp_rows_def Let_def)

lemma failed_pass_observed:
  "observe failed_pass (new_controller default_settings) = back_off Pass_Error (tracked failed_pass (new_controller default_settings))"
proof -
  have "is_adaptive (new_controller default_settings)"
    by (simp add: is_adaptive_def new_controller_fields default_settings_def)
  moreover have "guard_of failed_pass (new_controller default_settings) = Some Pass_Error"
    by (simp add: guard_of_def guard_cause_def failed_pass_def)
  ultimately show ?thesis by (simp add: observe_cases new_controller_fields)
qed

lemma flow_moves_on_evidence_witness:
  "\<exists>m. fst (observe failed_pass (new_controller default_settings)) = BackedOff m \<and> move_cause m = Pass_Error \<and>
     from_rows m = 4096 \<and> to_rows m < 4096 \<and>
     incumbent (snd (observe failed_pass (new_controller default_settings))) = to_rows m"
proof -
  let ?c = "new_controller default_settings"
  obtain a c' where o: "observe failed_pass ?c = (a, c')" by fastforce
  have c: "?c = run_flow [] (new_controller default_settings)" by simp
  have h: "flow_enabled default_settings" "fixed_rows default_settings = None"
    "max (max_rows default_settings) (min_rows default_settings) \<le> 2 ^ 53"
    "1 + 1 / 2 ^ 52 \<le> backoff_factor default_settings" by (simp_all add: default_settings_def)
  note t = flow_moves_on_evidence [OF c h o]
  have n: "\<not> max (target_rows (tracked failed_pass ?c)) (incumbent (tracked failed_pass ?c)) \<le> floor_rows (tracked failed_pass ?c)"
    by (simp add: default_start floor_rows_def new_controller_fields) (simp add: default_settings_def)
  have b: "back_off Pass_Error (tracked failed_pass ?c) = (a, c')" using o failed_pass_observed by simp
  have "divided ?c < max (target_rows ?c) (incumbent ?c)"
  proof (rule divided_less)
    show "\<not> max (target_rows ?c) (incumbent ?c) \<le> floor_rows ?c" using n by simp
    show "max (target_rows ?c) (incumbent ?c) \<le> 2 ^ 53" by (simp add: default_start)
    show "1 + 1 / 2 ^ 52 \<le> backoff_factor (settings ?c)" using h(4) by (simp only: new_controller_fields)
  qed
  then have "divided ?c \<noteq> incumbent ?c" by (simp add: default_start)
  then obtain m where "a = BackedOff m" using back_off_divides(10) [OF n b] by (auto simp: Let_def)
  moreover have "guard_of failed_pass ?c = Some Pass_Error"
    by (simp add: guard_of_def guard_cause_def failed_pass_def)
  ultimately show ?thesis using t o by (auto simp: default_start)
qed

end
