(* ===== verification/Flow_Search.thy ===== *)
theory Flow_Search
  imports Flow_Properties
begin

text \<open>
  The search of the flow controller never ends: as long as one growth step from the floor moves by
  a row, the two sizes of the experiment differ, and a rest is over after a bounded number of
  epochs. A validated configuration block yields the settings this needs, with every declared
  value in effect.
\<close>

section \<open>A step moves\<close>

lemma rnd_le: "0 \<le> x \<Longrightarrow> x \<le> b \<Longrightarrow> rnd x \<le> b + b / 2 ^ 53"
  using rnd_bounds [of x] divide_right_mono [of x b "2 ^ 53"] by force

lemma rnd_ge: "b \<le> x \<Longrightarrow> 0 \<le> x \<Longrightarrow> x \<le> t \<Longrightarrow> b - t / 2 ^ 53 \<le> rnd x"
  using rnd_bounds [of x] divide_right_mono [of x t "2 ^ 53"] by force

lemma round_above:
  assumes "of_nat i + 1 \<le> x" "x \<le> 2 ^ 52" "i < 2 ^ 64 - 1"
  shows "i < as_u64 (f64_round (rnd x))"
proof -
  have "of_nat i + 1 - 2 ^ 52 / 2 ^ 53 \<le> rnd x"
    using assms(1,2) by (intro rnd_ge) simp_all
  then have r: "of_nat i + 1 / 2 \<le> rnd x" by simp
  then have "0 \<le> rnd x" by (rule order_trans [rotated]) simp
  moreover have "int i + 1 \<le> \<lfloor>rnd x + 1 / 2\<rfloor>" using r by (simp add: le_floor_iff)
  ultimately show ?thesis using assms(3) by (simp add: as_u64_def f64_round_def)
qed

lemma round_below:
  assumes "x \<le> of_nat i - 1" "0 \<le> x" "i \<le> 2 ^ 52" "1 \<le> i"
  shows "as_u64 (f64_round (rnd x)) < i"
proof -
  have i: "of_nat i \<le> (2 ^ 52 :: rat)" using assms(3) by (metis of_nat_le_iff of_nat_numeral of_nat_power)
  have "rnd x \<le> (of_nat i - 1) + (of_nat i - 1) / 2 ^ 53" by (rule rnd_le [OF assms(2,1)])
  then have r: "rnd x + 1 / 2 < of_nat i" using i by (simp add: field_simps)
  have "0 \<le> rnd x" using rnd_bounds [OF assms(2)] assms(2) by (simp add: field_simps)
  moreover have "\<lfloor>rnd x + 1 / 2\<rfloor> < int i" using r by (simp add: floor_less_iff)
  ultimately have "nat \<lfloor>rnd x + 1 / 2\<rfloor> < i" using assms(4) by linarith
  then show ?thesis using \<open>0 \<le> rnd x\<close> by (simp add: as_u64_def f64_round_def min_less_iff_disj)
qed

lemma round_same:
  assumes "of_nat i - 1 / 4 \<le> x" "x \<le> of_nat i + 1 / 4" "i \<le> 2 ^ 50" "1 \<le> i"
  shows "as_u64 (f64_round (rnd x)) = i"
proof -
  have i: "of_nat i \<le> (2 ^ 50 :: rat)" using assms(3) by (metis of_nat_le_iff of_nat_numeral of_nat_power)
  have p: "(1 :: rat) \<le> of_nat i" using assms(4) by simp
  have x: "0 \<le> x" using assms(1) p by linarith
  have "rnd x \<le> (of_nat i + 1 / 4) + (of_nat i + 1 / 4) / 2 ^ 53" by (rule rnd_le [OF x assms(2)])
  then have up: "rnd x + 1 / 2 < of_nat i + 1" using i by (simp add: field_simps)
  have "of_nat i - 1 / 4 - (of_nat i + 1 / 4) / 2 ^ 53 \<le> rnd x" by (rule rnd_ge [OF assms(1) x assms(2)])
  then have lo: "of_nat i \<le> rnd x + 1 / 2" using i by (simp add: field_simps)
  then have "0 \<le> rnd x" using p by linarith
  moreover have "\<lfloor>rnd x + 1 / 2\<rfloor> = int i" using up lo by (simp add: floor_eq_iff)
  ultimately show ?thesis using assms(3) by (simp add: as_u64_def f64_round_def)
qed

text \<open>The settings under which the search can move: more than one size, and a step of a row at the floor.\<close>

definition searchable :: "flow_settings \<Rightarrow> bool" where
  "searchable s \<longleftrightarrow> lo_rows s < hi_rows s \<and> 1 \<le> of_nat (lo_rows s) * (growth_factor s - 1) \<and>
     of_nat (hi_rows s) * growth_factor s \<le> 2 ^ 52"

lemma searchable_growth:
  assumes "searchable s"
  shows "1 < growth_factor s"
proof (rule ccontr)
  assume "\<not> 1 < growth_factor s"
  then have "of_nat (lo_rows s) * (growth_factor s - 1) \<le> 0" by (intro mult_nonneg_nonpos) simp_all
  then show False using assms by (simp add: searchable_def)
qed

lemma hi_bound: "searchable s \<Longrightarrow> hi_rows s \<le> 2 ^ 52"
proof -
  assume s: "searchable s"
  have "of_nat (hi_rows s) * 1 \<le> of_nat (hi_rows s) * growth_factor s"
    using searchable_growth [OF s] by (intro mult_left_mono) simp_all
  also have "\<dots> \<le> 2 ^ 52" using s by (simp add: searchable_def)
  finally have "of_nat (hi_rows s) \<le> (of_nat (2 ^ 52) :: rat)" by simp
  then show ?thesis by (simp only: of_nat_le_iff)
qed

lemma step_up:
  assumes "searchable s" "in_range s i"
  shows "of_nat i + 1 \<le> of_nat i * growth_factor s" "of_nat i * growth_factor s \<le> 2 ^ 52"
proof -
  have l: "lo_rows s \<le> i" "i \<le> hi_rows s" using assms(2) by (simp_all add: in_range_def)
  have g1: "1 \<le> of_nat (lo_rows s) * (growth_factor s - 1)" using assms(1) by (simp add: searchable_def)
  have g: "0 \<le> growth_factor s - 1" using searchable_growth [OF assms(1)] by simp
  have "of_nat (lo_rows s) * (growth_factor s - 1) \<le> of_nat i * (growth_factor s - 1)"
    using l(1) g by (intro mult_right_mono) simp_all
  with g1 show "of_nat i + 1 \<le> of_nat i * growth_factor s" by (simp add: right_diff_distrib)
  have "of_nat i * growth_factor s \<le> of_nat (hi_rows s) * growth_factor s"
    using l(2) g by (intro mult_right_mono) simp_all
  then show "of_nat i * growth_factor s \<le> 2 ^ 52" using assms(1) by (simp add: searchable_def)
qed

lemma step_down:
  assumes "searchable s" "in_range s i" "lo_rows s < i"
  shows "of_nat i / growth_factor s \<le> of_nat i - 1" "0 \<le> of_nat i / growth_factor s"
proof -
  have lr: "in_range s (i - 1)" using assms(2,3) by (auto simp: in_range_def)
  have i: "1 \<le> i" using assms(3) by simp
  have up: "of_nat (i - 1) + 1 \<le> of_nat (i - 1) * growth_factor s" by (rule step_up(1) [OF assms(1) lr])
  then have e: "(of_nat i :: rat) \<le> (of_nat i - 1) * growth_factor s" using i by (simp add: of_nat_diff)
  have g: "0 < growth_factor s" using searchable_growth [OF assms(1)] by simp
  show "of_nat i / growth_factor s \<le> of_nat i - 1" using e g by (simp add: pos_divide_le_eq)
  show "0 \<le> of_nat i / growth_factor s" using g by simp
qed

text \<open>A step fails only at a bound of the range or at the congestion ceiling.\<close>

lemma step_stuck:
  assumes "searchable (settings c)" "in_range (settings c) (incumbent c)" "step_from_incumbent c = incumbent c"
  shows "case direction c of
      Up \<Rightarrow> incumbent c = hi_rows (settings c) \<or> (\<exists>w. ceiling_rows c = Some w \<and> w \<le> incumbent c)
    | Down \<Rightarrow> incumbent c = lo_rows (settings c)"
proof -
  let ?i = "incumbent c" let ?s = "settings c"
  have r: "lo_rows ?s \<le> ?i" "?i \<le> hi_rows ?s" and lo: "1 \<le> lo_rows ?s"
    using assms(2) by (simp_all add: in_range_def lo_rows_def)
  have hi: "?i \<le> 2 ^ 52" using r(2) hi_bound [OF assms(1)] by (rule le_trans)
  have f: "f64_of ?i = of_nat ?i" using hi by (intro f64_of_exact) simp
  show ?thesis
  proof (cases "direction c")
    case Up
    show ?thesis
    proof (cases "ceiling_rows c")
      case None
      have "?i < as_u64 (f64_round (rnd (of_nat ?i * growth_factor ?s)))"
        using step_up [OF assms(1,2)] hi by (intro round_above) simp_all
      then show ?thesis
        using assms(3) r lo by (simp add: step_from_incumbent_def Up None f Let_def clamp_value)
    next
      case (Some w)
      then show ?thesis
        using assms(3) r lo hi by (auto simp: step_from_incumbent_def Up Let_def clamp_value USIZE_MAX_def)
    qed
  next
    case Down
    show ?thesis
    proof (rule ccontr)
      assume "\<not> ?thesis"
      then have gt: "lo_rows ?s < ?i" using r(1) Down by simp
      have "as_u64 (f64_round (rnd (of_nat ?i / growth_factor ?s))) < ?i"
        using step_down [OF assms(1,2) gt] hi lo gt by (intro round_below) simp_all
      then show False
        using assms(3) r lo gt
        by (auto simp: step_from_incumbent_def Down f Let_def clamp_value split: option.splits)
    qed
  qed
qed

lemma propose_moves:
  assumes "searchable (settings c)" "in_range (settings c) (incumbent c)"
    and "\<And>w. ceiling_rows c = Some w \<Longrightarrow> lo_rows (settings c) < w"
  shows "candidate (propose_candidate c) \<noteq> incumbent c"
proof
  assume eq: "candidate (propose_candidate c) = incumbent c"
  let ?d = "c\<lparr>candidate := step_from_incumbent c, direction := flipped (direction c)\<rparr>"
  have one: "step_from_incumbent c = incumbent c"
    using eq by (auto simp: propose_candidate_def Let_def split: if_splits)
  then have "step_from_incumbent ?d = incumbent ?d"
    using eq by (simp add: propose_candidate_def Let_def)
  from step_stuck [OF _ _ this] assms(1,2)
  have "case flipped (direction c) of
      Up \<Rightarrow> incumbent c = hi_rows (settings c) \<or> (\<exists>w. ceiling_rows c = Some w \<and> w \<le> incumbent c)
    | Down \<Rightarrow> incumbent c = lo_rows (settings c)" by (cases "direction c") simp_all
  moreover note step_stuck [OF assms(1,2) one]
  ultimately have "incumbent c = lo_rows (settings c)"
    "incumbent c = hi_rows (settings c) \<or> (\<exists>w. ceiling_rows c = Some w \<and> w \<le> incumbent c)"
    by (cases "direction c"; simp)+
  then show False using assms(1) assms(3) by (auto simp: searchable_def not_le [symmetric])
qed

definition search_inv :: "controller \<Rightarrow> bool" where
  "search_inv c \<longleftrightarrow> searchable (settings c) \<and> flow_inv c \<and> candidate c \<noteq> incumbent c"

lemma search_inv_propose:
  assumes "searchable (settings c)" "in_range (settings c) (incumbent c)" "rest_ok (phase c)"
    "\<forall>w. ceiling_rows c = Some w \<longrightarrow> lo_rows (settings c) < w"
  shows "search_inv (propose_candidate c)"
  using assms propose_moves [of c] propose_in_range [of c] by (simp add: search_inv_def flow_inv_def)

lemma search_inv_cong:
  "search_inv c \<Longrightarrow> settings c' = settings c \<Longrightarrow> incumbent c' = incumbent c \<Longrightarrow> candidate c' = candidate c \<Longrightarrow>
     ceiling_rows c' = ceiling_rows c \<Longrightarrow> rest_ok (phase c') \<Longrightarrow> search_inv c'"
  by (simp add: search_inv_def flow_inv_def)

lemma search_inv_rest_ok: "search_inv c \<Longrightarrow> rest_ok (phase c)"
  by (simp add: search_inv_def flow_inv_def)

lemma search_inv_rest: "search_inv c \<Longrightarrow> search_inv (rest_if_settled c)"
  by (rule search_inv_cong) (simp_all add: rest_ok_rest search_inv_rest_ok)

lemma search_inv_close_epoch:
  assumes "search_inv c"
  shows "search_inv (snd (close_epoch c))"
proof -
  have p: "search_inv (propose_candidate d)"
    if "settings d = settings c" "incumbent d = incumbent c \<or> incumbent d = candidate c"
      "ceiling_rows d = ceiling_rows c \<or> ceiling_rows d = None" "phase d = phase c" for d
    using that assms by (intro search_inv_propose) (auto simp: search_inv_def flow_inv_def)
  have s: "search_inv (start_epoch c)"
    by (rule search_inv_cong [OF assms]) (simp_all add: search_inv_rest_ok [OF assms])
  show ?thesis
    unfolding close_epoch_def Let_def
    by (auto simp: s intro!: p search_inv_rest split: option.splits)
qed

lemma search_inv_close_rest:
  assumes "search_inv c" "phase c = Rest r"
  shows "search_inv (snd (close_rest_epoch r c))"
proof -
  have p: "search_inv (propose_candidate d)"
    if "settings d = settings c" "incumbent d = incumbent c" "ceiling_rows d = ceiling_rows c" "phase d = Experiment" for d
    using that assms by (intro search_inv_propose) (auto simp: search_inv_def flow_inv_def rest_ok_def)
  show ?thesis
    using assms unfolding close_rest_epoch_def Let_def
    by (auto intro!: p) (auto simp: search_inv_def flow_inv_def rest_ok_def)
qed

lemma search_inv_back_off:
  assumes "search_inv c"
  shows "search_inv (snd (back_off cause c))"
proof -
  have f: "flow_inv (snd (back_off cause c))"
    using assms by (simp add: search_inv_def flow_inv_back_off)
  define failed where "failed = max (target_rows c) (incumbent c)"
  show ?thesis
  proof (cases "failed \<le> floor_rows c")
    case True
    then show ?thesis
      using assms f back_off_floor [of c cause] by (simp add: search_inv_def failed_def)
  next
    case False
    then have gt: "lo_rows (settings c) < failed" by (simp add: floor_rows_lo)
    have n: "\<not> failed \<le> floor_rows (c\<lparr>settled_epochs := 0, phase := Experiment\<rparr>)"
      using False by (simp add: floor_rows_lo)
    have s: "search_inv ((start_epoch d)\<lparr>cooldown := k, last_sink_pending := l, pending_rises := m\<rparr>)"
      if "search_inv d" for d k l m
      by (rule search_inv_cong [OF that]) (simp_all add: search_inv_rest_ok [OF that])
    show ?thesis
      unfolding back_off_def Let_def failed_def [symmetric] if_not_P [OF n] snd_conv
      by (intro s search_inv_propose)
        (use assms gt in \<open>auto simp: search_inv_def flow_inv_def rest_ok_def split: option.splits\<close>)
  qed
qed

lemma search_inv_observe:
  assumes "search_inv c"
  shows "search_inv (snd (observe sm c))"
proof -
  have r: "rest_ok (phase c)" by (rule search_inv_rest_ok [OF assms])
  have n: "search_inv (noted sm c)" by (rule search_inv_cong [OF assms]) (simp_all add: r)
  have t: "search_inv ((tracked sm c)\<lparr>cooldown := k\<rparr>)" for k
    by (rule search_inv_cong [OF assms]) (simp_all add: r)
  have t': "search_inv (tracked sm c)" by (rule search_inv_cong [OF assms]) (simp_all add: r)
  have l: "search_inv (track_latency_objective sm (tracked sm c))"
    by (rule search_inv_cong [OF assms]) (simp_all add: r)
  have a: "search_inv (after_pass sm (track_latency_objective sm (tracked sm c)))"
    by (rule search_inv_cong [OF assms]) (simp_all add: r)
  have "search_inv (snd (measure_pass sm (track_latency_objective sm (tracked sm c))))"
    using a search_inv_close_epoch [OF a] search_inv_close_rest [OF a]
    by (simp add: measure_pass_cases split: phase.splits)
  then show ?thesis
    using n t t' l by (simp add: observe_cases search_inv_back_off split: option.splits)
qed

lemma search_inv_run: "search_inv c \<Longrightarrow> search_inv (run_flow sms c)"
  by (induction sms arbitrary: c) (simp_all add: search_inv_observe)

lemma search_inv_new:
  assumes "searchable s" "fixed_rows s = None"
  shows "search_inv (new_controller s)"
  using assms unfolding new_controller_def Let_def
  by (intro search_inv_propose) (simp_all add: rest_ok_def)

section \<open>The search goes on\<close>

lemma phase_close_rest:
  "close_rest_epoch r c = (a, c') \<Longrightarrow> phase c' = Experiment \<or> 1 < r \<and> phase c' = Rest (r - 1)"
  by (auto simp: close_rest_epoch_def Let_def not_le split: if_splits)

lemma settled_sample:
  assumes "is_adaptive c" "cooldown c = 0" "guard_of sm c = None" "measured_rate sm \<noteq> None"
  shows "observe sm c = measure_pass sm (track_latency_objective sm (tracked sm c))"
  using assms by (auto simp: observe_cases)

lemma epoch_over_tracked [simp]:
  "epoch_over sm (track_latency_objective sm (tracked sm c)) = epoch_over sm c"
  by (simp add: epoch_over_def)

text \<open>
  C35. The controller never stops searching for good. When one growth step at the floor is a row and
  the range has more than one size, then after any run of passes: the two sizes of the experiment
  differ, so the next epoch can compare them; a calm pass takes one off a cooldown; a measured pass
  of an experiment hands the next pass to the other arm as long as the epoch lasts; and a rest is
  at most sixteen epochs long, each epoch that ends takes one off it, and the last one returns to
  the experiment.
\<close>

theorem flow_search_goes_on:
  assumes "searchable s" "flow_enabled s" "fixed_rows s = None"
    and "c = run_flow sms (new_controller s)" "observe sm c = (a, c')"
  shows "candidate c' \<noteq> incumbent c' \<and>
    (0 < cooldown c \<and> guard_of sm c = None \<longrightarrow> cooldown c' = cooldown c - 1) \<and>
    (cooldown c = 0 \<and> guard_of sm c = None \<and> measured_rate sm \<noteq> None \<longrightarrow>
      (case phase c of
         Experiment \<Rightarrow> \<not> epoch_over sm c \<longrightarrow> phase c' = Experiment \<and> arm_now c' \<noteq> arm_now c
       | Rest r \<Rightarrow> 1 \<le> r \<and> r \<le> 16 \<and>
           (if epoch_over sm c then phase c' = Experiment \<or> 1 < r \<and> phase c' = Rest (r - 1)
            else phase c' = Rest r)))"
proof (intro conjI impI)
  let ?t = "track_latency_objective sm (tracked sm c)"
  have inv: "search_inv c" using assms(1,3,4) by (simp add: search_inv_run search_inv_new)
  have ad: "is_adaptive c" using assms(2,3,4) by (simp add: is_adaptive_def new_controller_fields)
  have "search_inv c'" using search_inv_observe [OF inv, of sm] assms(5) by simp
  then show "candidate c' \<noteq> incumbent c'" by (simp add: search_inv_def)
  show "cooldown c' = cooldown c - 1" if "0 < cooldown c \<and> guard_of sm c = None"
    using that assms(5) ad by (auto simp: observe_cases)
  assume calm: "cooldown c = 0 \<and> guard_of sm c = None \<and> measured_rate sm \<noteq> None"
  have m: "measure_pass sm ?t = (a, c')" using assms(5) ad calm by (simp add: settled_sample)
  have ne: "candidate c \<noteq> incumbent c" "rest_ok (phase c)" using inv by (simp_all add: search_inv_def flow_inv_def)
  show "case phase c of
         Experiment \<Rightarrow> \<not> epoch_over sm c \<longrightarrow> phase c' = Experiment \<and> arm_now c' \<noteq> arm_now c
       | Rest r \<Rightarrow> 1 \<le> r \<and> r \<le> 16 \<and>
           (if epoch_over sm c then phase c' = Experiment \<or> 1 < r \<and> phase c' = Rest (r - 1)
            else phase c' = Rest r)"
  proof (cases "phase c")
    case Experiment
    have "arm_now (after_pass sm ?t) \<noteq> arm_now c"
      using Experiment ne(1) by (simp add: after_pass_def Let_def split: arm.splits)
    then show ?thesis using m Experiment by (auto simp: measure_pass_cases)
  next
    case (Rest r)
    have "1 \<le> r \<and> r \<le> 16" using ne(2) Rest by (simp add: rest_ok_def MAX_REST_EPOCHS_def)
    moreover have "phase c' = Rest r" if "\<not> epoch_over sm c"
      using m Rest that by (auto simp: measure_pass_cases)
    moreover have "phase c' = Experiment \<or> 1 < r \<and> phase c' = Rest (r - 1)" if "epoch_over sm c"
      using m Rest that by (intro phase_close_rest [of r "after_pass sm ?t" a]) (simp add: measure_pass_cases)
    ultimately show ?thesis using Rest by auto
  qed
qed

text \<open>The default settings are searchable; a pass of one row closes no epoch and changes the arm.\<close>

definition calm_pass :: flow_sample where
  "calm_pass = \<lparr>sm_rows = 1, sm_elapsed = 10 ^ 9, sm_bytes = 0, sm_pending = None, sm_outcome = Flow_Ok, sm_at = 7\<rparr>"

lemma rnd_pos_gt: "0 < x \<Longrightarrow> 0 < rnd x"
proof -
  assume x: "0 < x"
  then have "x / 2 ^ 53 < x" by (simp add: divide_less_eq)
  then show ?thesis using rnd_bounds [of x] x by linarith
qed

lemma calm_measured: "measured_rate calm_pass \<noteq> None"
proof -
  have "secs_f64 (10 ^ 9) = 1"
    using f64_of_exact [of 1] f64_of_exact [of 0] by (simp add: secs_f64_def f64_of_def rnd_def)
  then show ?thesis by (simp add: measured_rate_def calm_pass_def)
qed

lemma flow_search_goes_on_witness:
  "candidate (snd (observe calm_pass (new_controller default_settings))) \<noteq>
     incumbent (snd (observe calm_pass (new_controller default_settings))) \<and>
   arm_now (snd (observe calm_pass (new_controller default_settings))) = Candidate"
proof -
  let ?c = "new_controller default_settings"
  obtain a c' where o: "observe calm_pass ?c = (a, c')" by fastforce
  have h: "searchable default_settings" "flow_enabled default_settings" "fixed_rows default_settings = None"
    by (simp_all add: searchable_def lo_rows_def hi_rows_def default_settings_def)
  have c: "?c = run_flow [] (new_controller default_settings)" by simp
  have ph: "phase ?c = Experiment" by (simp add: new_controller_def Let_def)
  have "guard_of calm_pass ?c = None"
    by (simp add: guard_of_def guard_cause_def calm_pass_def chunk_bytes_over_ceiling_def track_sink_pressure_def)
  moreover have "\<not> epoch_over calm_pass ?c"
    by (simp add: epoch_over_def new_controller_fields calm_pass_def default_settings_def millis_def
        new_controller_def Let_def)
  ultimately have "candidate c' \<noteq> incumbent c' \<and> arm_now c' \<noteq> Incumbent"
    using flow_search_goes_on [OF h c o] ph calm_measured by (simp add: new_controller_fields)
  then show ?thesis using o by (cases "arm_now c'") simp_all
qed

text \<open>
  The range is not the only thing that decides whether a step moves: a growth factor the
  validation accepts can be too small for the size it starts at, and then neither direction moves.
\<close>

lemma small_growth_sticks:
  assumes "fixed_rows s = None" "in_range s (start_rows s)" "start_rows s \<le> 2 ^ 50"
    and "1 < growth_factor s" "of_nat (start_rows s) * (growth_factor s - 1) \<le> 1 / 4"
  shows "candidate (new_controller s) = incumbent (new_controller s)"
proof -
  let ?i = "start_rows s" let ?g = "growth_factor s"
  have i: "1 \<le> ?i" "clamp_rows ?i s = ?i"
    using assms(2) by (auto simp: in_range_def lo_rows_def clamp_value)
  have f: "f64_of ?i = of_nat ?i" using assms(3) by (intro f64_of_exact) simp
  have "of_nat ?i * 1 \<le> of_nat ?i * ?g" using assms(4) by (intro mult_left_mono) simp_all
  then have mono: "of_nat ?i \<le> of_nat ?i * ?g" by simp
  moreover have "of_nat ?i * ?g \<le> of_nat ?i + 1 / 4" using assms(5) by (simp add: right_diff_distrib)
  ultimately have u: "as_u64 (f64_round (rnd (of_nat ?i * ?g))) = ?i"
    using assms(3) i(1) by (intro round_same) linarith+
  have "of_nat ?i - 1 / 4 \<le> of_nat ?i / ?g"
  proof -
    have "of_nat ?i * ?g \<le> of_nat ?i + 1 / 4" using assms(5) by (simp add: right_diff_distrib)
    also have "\<dots> \<le> of_nat ?i + ?g / 4" using assms(4) by simp
    finally have "(of_nat ?i - 1 / 4) * ?g \<le> of_nat ?i" by (simp add: algebra_simps)
    then show ?thesis using assms(4) by (simp add: pos_le_divide_eq)
  qed
  moreover have "of_nat ?i / ?g \<le> of_nat ?i" using assms(4) mono by (simp add: pos_divide_le_eq)
  ultimately have d: "as_u64 (f64_round (rnd (of_nat ?i / ?g))) = ?i"
    using assms(3) i(1) by (intro round_same) simp_all
  show ?thesis
    using assms(1) i u d f
    by (simp add: new_controller_def propose_candidate_def step_from_incumbent_def Let_def max_absorb1)
qed

end
