(* ===== verification/Flow_Config.thy ===== *)
theory Flow_Config
  imports Flow_Properties
begin

text \<open>
  The flow control block of the configuration: what \<^verbatim>\<open>FlowControlConfig::validate\<close> accepts, what
  \<^verbatim>\<open>resolve\<close> makes of it, and the plan that hands each source its settings.
\<close>

lemmas or_defs = opt_or_def unwrap_or_def declared_rows_def declared_count_def

text \<open>The numbers of a block are \<^verbatim>\<open>u64\<close> values.\<close>

definition u64_opt :: "nat option \<Rightarrow> bool" where
  "u64_opt x \<longleftrightarrow> (case x of Some n \<Rightarrow> n \<le> USIZE_MAX | None \<Rightarrow> True)"

definition u64_block :: "flow_config \<Rightarrow> bool" where
  "u64_block b \<longleftrightarrow> u64_opt (fc_min_rows b) \<and> u64_opt (fc_max_rows b) \<and> u64_opt (fc_start_rows b) \<and> u64_opt (fc_rows b)"

lemma u64_opt_or: "u64_opt a \<Longrightarrow> u64_opt b \<Longrightarrow> u64_opt (opt_or a b)"
  by (simp add: u64_opt_def opt_or_def split: option.splits)

lemma declared_exact: "u64_opt x \<Longrightarrow> declared_rows x d = (case x of Some n \<Rightarrow> n | None \<Rightarrow> d)"
  by (simp add: u64_opt_def declared_rows_def split: option.splits)

lemma check_factor_ok: "check_factor shown what key f = Inr u \<Longrightarrow> f = Some x \<Longrightarrow> 1 < x"
  by (simp add: check_factor_def split: if_splits)

lemma validate_ok:
  assumes "validate_flow shown l g what = Inr u"
  defines "mn \<equiv> opt_or (fc_min_rows l) (fc_min_rows g)" and "mx \<equiv> opt_or (fc_max_rows l) (fc_max_rows g)"
    and "pinned \<equiv> opt_or (fc_rows l) (fc_rows g)" and "start \<equiv> opt_or (fc_start_rows l) (fc_start_rows g)"
  defines "lo \<equiv> max (declared_rows mn 1024) 1"
  defines "hi \<equiv> declared_rows mx 65536"
  shows "fc_rows l \<noteq> None \<Longrightarrow> fc_min_rows l = None \<and> fc_max_rows l = None \<and> fc_start_rows l = None"
    and "mn \<noteq> Some 0" and "pinned \<noteq> Some 0"
    and "mn \<noteq> None \<or> mx \<noteq> None \<Longrightarrow> lo \<le> hi"
    and "start \<noteq> None \<Longrightarrow> lo \<le> declared_rows start 4096 \<and> declared_rows start 4096 \<le> max hi lo"
    and "pinned = None \<Longrightarrow> unwrap_or (opt_or (fc_enabled l) (fc_enabled g)) True \<Longrightarrow>
      opt_or (fc_adjust_interval_ms l) (fc_adjust_interval_ms g) \<noteq> Some 0"
    and "opt_or (fc_growth_factor l) (fc_growth_factor g) = Some x \<Longrightarrow> 1 < x"
    and "opt_or (fc_backoff_factor l) (fc_backoff_factor g) = Some y \<Longrightarrow> 1 < y"
    and "opt_or (fc_improve_threshold l) (fc_improve_threshold g) = Some z \<Longrightarrow> 0 \<le> z \<and> z < 1"
    and "opt_or (fc_min_samples_per_arm l) (fc_min_samples_per_arm g) \<noteq> Some 0"
proof -
  have d: "min_rows default_settings = 1024" "max_rows default_settings = 65536" "start_rows default_settings = 4096"
    by (simp_all add: default_settings_def)
  note a = assms(1) [unfolded validate_flow_def Let_def d, folded mn_def mx_def pinned_def start_def, folded lo_def hi_def]
  show "fc_rows l \<noteq> None \<Longrightarrow> fc_min_rows l = None \<and> fc_max_rows l = None \<and> fc_start_rows l = None"
    using a by (auto split: if_splits)
  show "mn \<noteq> Some 0" using a by (auto split: if_splits)
  show "pinned \<noteq> Some 0" using a by (auto split: if_splits)
  show "lo \<le> hi" if "mn \<noteq> None \<or> mx \<noteq> None" using a that by (auto simp: not_less split: if_splits)
  show "lo \<le> declared_rows start 4096 \<and> declared_rows start 4096 \<le> max hi lo" if "start \<noteq> None"
  proof (rule ccontr)
    assume "\<not> ?thesis"
    then have "declared_rows start 4096 < lo \<or> declared_rows start 4096 > max hi lo" by (simp only: de_Morgan_conj not_le)
    then show False using a that by (simp del: max_less_iff_conj split: if_splits)
  qed
  show "opt_or (fc_adjust_interval_ms l) (fc_adjust_interval_ms g) \<noteq> Some 0"
    if "pinned = None" "unwrap_or (opt_or (fc_enabled l) (fc_enabled g)) True"
    using a that by (auto split: if_splits)
  let ?gf = "check_factor shown what ''growth_factor'' (opt_or (fc_growth_factor l) (fc_growth_factor g))"
  let ?bf = "check_factor shown what ''backoff_factor'' (opt_or (fc_backoff_factor l) (fc_backoff_factor g))"
  have f: "?gf = Inr ()" "?bf = Inr ()"
    using a by (cases ?gf; cases ?bf; simp split: if_splits)+
  show "1 < x" if "opt_or (fc_growth_factor l) (fc_growth_factor g) = Some x" by (rule check_factor_ok [OF f(1) that])
  show "1 < y" if "opt_or (fc_backoff_factor l) (fc_backoff_factor g) = Some y" by (rule check_factor_ok [OF f(2) that])
  note b = a [unfolded f]
  show "0 \<le> z \<and> z < 1" if "opt_or (fc_improve_threshold l) (fc_improve_threshold g) = Some z"
    using b that by (simp split: if_splits)
  show "opt_or (fc_min_samples_per_arm l) (fc_min_samples_per_arm g) \<noteq> Some 0"
    using b by (simp split: if_splits option.splits)
qed

lemma default_threshold: "0 \<le> rnd (5 / 100) \<and> rnd (5 / 100) < 1"
  using rnd_bounds [of "5 / 100"] by simp

definition engine_defaults :: "flow_settings \<Rightarrow> bool" where
  "engine_defaults d \<longleftrightarrow> d = default_settings \<or> d = stream_defaults"

lemma engine_defaults_fields:
  assumes "engine_defaults d"
  shows "min_rows d = 1024" "max_rows d = 65536" "start_rows d = 4096" "adjust_interval_ms d = 60000"
    "growth_factor d = 2" "improve_threshold d = rnd (5 / 100)" "min_samples_per_arm d = 4"
    "backoff_factor d = 2" "flow_enabled d" "fixed_rows d = None"
  using assms by (auto simp: engine_defaults_def stream_defaults_def default_settings_def)

lemma validated_block:
  assumes "validate_flow shown l g what = Inr ()" "u64_block l" "u64_block g" "engine_defaults d"
  shows "1 \<le> min_rows (resolve l g d)" (is "1 \<le> min_rows ?s")
    and "min_rows (resolve l g d) \<le> start_rows (resolve l g d)" and "start_rows (resolve l g d) \<le> max_rows (resolve l g d)"
    and "1 < growth_factor (resolve l g d)" and "1 < backoff_factor (resolve l g d)"
    and "0 \<le> improve_threshold (resolve l g d)" and "improve_threshold (resolve l g d) < 1"
    and "1 \<le> min_samples_per_arm (resolve l g d)"
    and "flow_enabled (resolve l g d) \<Longrightarrow> fixed_rows (resolve l g d) = None \<Longrightarrow> 1 \<le> adjust_interval_ms (resolve l g d)"
    and "fixed_rows (resolve l g d) = opt_or (fc_rows l) (fc_rows g)" and "fixed_rows (resolve l g d) \<noteq> Some 0"
    and "opt_or (fc_min_rows l) (fc_min_rows g) = Some n \<Longrightarrow> min_rows (resolve l g d) = n"
    and "opt_or (fc_max_rows l) (fc_max_rows g) = Some m \<Longrightarrow> max_rows (resolve l g d) = m"
    and "opt_or (fc_start_rows l) (fc_start_rows g) = Some k \<Longrightarrow> start_rows (resolve l g d) = k"
proof -
  note v = validate_ok [OF assms(1)] and f = engine_defaults_fields [OF assms(4)]
  have u: "u64_opt (opt_or (fc_min_rows l) (fc_min_rows g))" "u64_opt (opt_or (fc_max_rows l) (fc_max_rows g))"
    "u64_opt (opt_or (fc_start_rows l) (fc_start_rows g))" "u64_opt (opt_or (fc_rows l) (fc_rows g))"
    using assms(2,3) by (simp_all add: u64_block_def u64_opt_or)
  note e = u [THEN declared_exact]
  have r: "min_rows ?s = max (declared_rows (opt_or (fc_min_rows l) (fc_min_rows g)) 1024) 1"
    "max_rows ?s = max (declared_rows (opt_or (fc_max_rows l) (fc_max_rows g)) 65536) (min_rows ?s)"
    "start_rows ?s = min (max (declared_rows (opt_or (fc_start_rows l) (fc_start_rows g)) 4096) (min_rows ?s)) (max_rows ?s)"
    by (simp_all add: resolve_def Let_def f)
  show "1 \<le> min_rows ?s" "min_rows ?s \<le> start_rows ?s" "start_rows ?s \<le> max_rows ?s"
    using r by simp_all
  show "1 < growth_factor ?s"
    using v(7) by (simp add: resolve_def Let_def f unwrap_or_def split: option.splits)
  show "1 < backoff_factor ?s"
    using v(8) by (simp add: resolve_def Let_def f unwrap_or_def split: option.splits)
  show "0 \<le> improve_threshold ?s" "improve_threshold ?s < 1"
    using v(9) default_threshold by (simp_all add: resolve_def Let_def f unwrap_or_def split: option.splits)
  show "1 \<le> min_samples_per_arm ?s"
    using v(10) by (auto simp: resolve_def Let_def f declared_count_def min_def not_le split: option.splits)
  show fixed: "fixed_rows ?s = opt_or (fc_rows l) (fc_rows g)"
    using v(3) u(4) by (cases "opt_or (fc_rows l) (fc_rows g)") (auto simp: resolve_def Let_def declared_exact)
  show "fixed_rows ?s \<noteq> Some 0" using fixed v(3) by simp
  show "1 \<le> adjust_interval_ms ?s" if "flow_enabled ?s" "fixed_rows ?s = None"
    using v(6) that fixed f by (auto simp: resolve_def Let_def unwrap_or_def split: option.splits if_splits)
  show "min_rows ?s = n" if "opt_or (fc_min_rows l) (fc_min_rows g) = Some n"
    using v(2) that e(1) r(1) by (auto simp: max_def)
  show "max_rows ?s = m" if "opt_or (fc_max_rows l) (fc_max_rows g) = Some m"
    using v(4) that e(2) r(1,2) by (simp add: max_absorb1)
  show "start_rows ?s = k" if "opt_or (fc_start_rows l) (fc_start_rows g) = Some k"
    using v(5) that e(3) r by (simp add: max_absorb1 min_absorb1)
qed

text \<open>
  A validated block means what it says. If validation accepts the block of a source against the
  global block, the settings it resolves to (over the batch or the stream defaults) are usable: the
  range is not empty and starts at one row or more, the start lies in it, both factors exceed one,
  the threshold is a fraction, an arm needs at least one sample, and an adaptive controller has an
  interval. And no bound or start the operator declared is clamped, widened or dropped: the value
  that takes effect is the declared one, the block's own before the global one; a block that pins a
  size declares no range.
\<close>

theorem validated_block_takes_effect:
  assumes "validate_flow shown l g what = Inr ()" "u64_block l" "u64_block g" "engine_defaults d"
  shows "let s = resolve l g d in
    1 \<le> min_rows s \<and> min_rows s \<le> start_rows s \<and> start_rows s \<le> max_rows s \<and>
    1 < growth_factor s \<and> 1 < backoff_factor s \<and> 0 \<le> improve_threshold s \<and> improve_threshold s < 1 \<and>
    1 \<le> min_samples_per_arm s \<and>
    (flow_enabled s \<and> fixed_rows s = None \<longrightarrow> 1 \<le> adjust_interval_ms s) \<and>
    fixed_rows s = opt_or (fc_rows l) (fc_rows g) \<and>
    (\<forall>n. opt_or (fc_min_rows l) (fc_min_rows g) = Some n \<longrightarrow> min_rows s = n) \<and>
    (\<forall>n. opt_or (fc_max_rows l) (fc_max_rows g) = Some n \<longrightarrow> max_rows s = n) \<and>
    (\<forall>n. opt_or (fc_start_rows l) (fc_start_rows g) = Some n \<longrightarrow> start_rows s = n) \<and>
    (fc_rows l \<noteq> None \<longrightarrow> fc_min_rows l = None \<and> fc_max_rows l = None \<and> fc_start_rows l = None)"
  using validated_block [OF assms] validate_ok(1) [OF assms(1)] by (simp add: Let_def)

section \<open>The plan\<close>

text \<open>The block and the block behind it that decide the settings of a source: its last declaration wins.\<close>

definition deciding_blocks :: "(string \<times> flow_config option) list \<Rightarrow> flow_config \<Rightarrow> string \<Rightarrow> flow_config \<times> flow_config" where
  "deciding_blocks sources g i =
     (case map_of (rev sources) i of Some (Some l) \<Rightarrow> (l, g) | _ \<Rightarrow> (g, no_block))"

lemma fold_insert_map_of:
  "fold (\<lambda>(i, b) m. m(i \<mapsto> f b)) xs m0 = m0 ++ (map_option f \<circ> map_of (rev xs))"
proof (induction xs arbitrary: m0)
  case (Cons x xs)
  then show ?case by (cases x) (auto simp: map_add_def fun_eq_iff split: option.splits)
qed (simp add: map_add_def)

lemma for_source_resolves:
  "for_source (plan_from_config stream_mode g sources) i =
     (let (l, g') = deciding_blocks sources g i in resolve l g' (if stream_mode then stream_defaults else default_settings))"
  by (simp add: for_source_def plan_from_config_def Let_def fold_insert_map_of deciding_blocks_def map_add_def
      split: option.splits)

lemma u64_no_block: "u64_block no_block"
  by (simp add: u64_block_def no_block_def u64_opt_def)

lemma engine_defaults_mode: "engine_defaults (if stream_mode then stream_defaults else default_settings)"
  by (simp add: engine_defaults_def)

text \<open>
  C36. The range an operator declares holds for every pass of the service. When the block that
  decides a source's settings is valid, then over any run of its controller, with whatever passes:
  a source pinned to a size always admits that size; otherwise the target never goes below the
  declared minimum nor above the declared maximum, where the source's own declaration comes before
  the global one; and a target is never zero rows.
\<close>

theorem configured_range_holds:
  assumes "deciding_blocks sources g i = (l, g')" "validate_flow shown l g' what = Inr ()"
    and "u64_block l" "u64_block g'"
  shows "let t = target_rows (run_flow sms (new_controller (for_source (plan_from_config stream_mode g sources) i))) in
    1 \<le> t \<and> (\<forall>r. opt_or (fc_rows l) (fc_rows g') = Some r \<longrightarrow> t = r) \<and>
    (opt_or (fc_rows l) (fc_rows g') = None \<longrightarrow>
      (\<forall>n. opt_or (fc_min_rows l) (fc_min_rows g') = Some n \<longrightarrow> n \<le> t) \<and>
      (\<forall>m. opt_or (fc_max_rows l) (fc_max_rows g') = Some m \<longrightarrow> t \<le> m))"
proof -
  let ?d = "if stream_mode then stream_defaults else default_settings"
  define s where "s = resolve l g' ?d"
  have s: "for_source (plan_from_config stream_mode g sources) i = s"
    by (simp add: for_source_resolves assms(1) s_def)
  note v = validated_block [OF assms(2-4) engine_defaults_mode [of stream_mode], folded s_def]
  define t where "t = target_rows (run_flow sms (new_controller s))"
  have lohi: "lo_rows s = min_rows s" "hi_rows s = max_rows s" "clamp_rows (start_rows s) s = start_rows s"
    using v(1-3) by (simp_all add: lo_rows_def hi_rows_def clamp_value)
  have free: "min_rows s \<le> t \<and> t \<le> max_rows s" if "fixed_rows s = None"
    using that adaptive_bounds(3,4) [of s sms] idle_target [of s sms] v(2,3) lohi
    by (cases "flow_enabled s") (simp_all add: t_def)
  have pinned: "t = r" if "fixed_rows s = Some r" for r
    using that idle_target [of s sms] v(11) by (simp add: t_def)
  have "1 \<le> t"
    using free pinned v(1,11) by (cases "fixed_rows s") (auto simp: Suc_le_eq)
  then show ?thesis
    unfolding s t_def [symmetric] Let_def using free pinned v(10,12,13) by auto
qed

text \<open>One source with its own range, over a global block that sets the growth and the cooldown.\<close>

definition own_block :: flow_config where
  "own_block = no_block\<lparr>fc_min_rows := Some 16, fc_max_rows := Some 128, fc_start_rows := Some 32\<rparr>"

definition global_block :: flow_config where
  "global_block = no_block\<lparr>fc_growth_factor := Some 3, fc_min_rows := Some 8, fc_backoff_cooldown := Some 2\<rparr>"

lemma own_block_valid: "validate_flow (\<lambda>_. []) own_block global_block ''orders'' = Inr ()"
  by (simp add: validate_flow_def own_block_def global_block_def no_block_def opt_or_def declared_rows_def
      USIZE_MAX_def Let_def unwrap_or_def check_factor_def)

lemma example_u64: "u64_block own_block" "u64_block global_block"
  by (simp_all add: u64_block_def own_block_def global_block_def no_block_def u64_opt_def USIZE_MAX_def)

lemma example_minimum: "opt_or (fc_min_rows own_block) (fc_min_rows global_block) = Some 16"
  "opt_or (fc_max_rows own_block) (fc_max_rows global_block) = Some 128" "opt_or (fc_rows own_block) (fc_rows global_block) = None"
  by (simp_all add: own_block_def global_block_def no_block_def opt_or_def)

lemma validated_block_takes_effect_witness:
  "min_rows (resolve own_block global_block stream_defaults) = 16 \<and>
   max_rows (resolve own_block global_block stream_defaults) = 128 \<and>
   1 < growth_factor (resolve own_block global_block stream_defaults)"
  using validated_block_takes_effect [OF own_block_valid example_u64, of stream_defaults] example_minimum
  by (simp add: Let_def engine_defaults_def)

lemma configured_range_holds_witness:
  "let t = target_rows (run_flow [failed_pass, failed_pass] (new_controller
       (for_source (plan_from_config True global_block [(''orders'', Some own_block)]) ''orders''))) in
   16 \<le> t \<and> t \<le> 128"
proof -
  have "deciding_blocks [(''orders'', Some own_block)] global_block ''orders'' = (own_block, global_block)"
    by (simp add: deciding_blocks_def)
  from configured_range_holds [OF this own_block_valid example_u64, of "[failed_pass, failed_pass]" True]
  show ?thesis using example_minimum by (simp add: Let_def)
qed

end
