(* ===== verification/Connector_Retry.thy ===== *)
theory Connector_Retry
  imports Retry
begin

text \<open>
  The retry wrappers of sources and sinks, \<^verbatim>\<open>saci-core/src/io/retry.rs\<close>. A connector instance
  is a value \<open>'i\<close> and its trait a record of operations, each of which returns the instance it
  leaves; a wrapper is a record of operations again. A loop also returns the sleeps it made.
\<close>

section \<open>The traits\<close>

text \<open>\<^verbatim>\<open>Source\<close> and \<^verbatim>\<open>Sink\<close>; \<open>'b\<close> is a record batch, \<open>'s\<close> the list of fields of a schema.\<close>

record ('i, 'b, 's) source_ops =
  src_schema :: "'i \<Rightarrow> 's"
  src_next :: "'i \<Rightarrow> 'b option saci_result \<times> 'i"
  src_estimated :: "'i \<Rightarrow> nat option"
  src_hint :: "nat \<Rightarrow> 'i \<Rightarrow> 'i"
  src_finish :: "'i \<Rightarrow> unit saci_result \<times> 'i"

record ('i, 'b, 's) sink_ops =
  snk_schema :: "'i \<Rightarrow> 's"
  snk_write :: "'b \<Rightarrow> 'i \<Rightarrow> unit saci_result \<times> 'i"
  snk_pending :: "'i \<Rightarrow> nat option"
  snk_finish :: "'i \<Rightarrow> unit saci_result \<times> 'i"

section \<open>The loops\<close>

text \<open>
  The four loops of the file have one text.
\<close>

definition attempts_of :: "'f system_config \<Rightarrow> 64 word \<Rightarrow> 'f attempts" where
  "attempts_of c k = \<lparr>a_config = c, a_max = max_attempts (retry_mode c), a_attempt = k\<rparr>"

lemma rounds_left_next:
  assumes "\<not> max_attempts (retry_mode c) \<le> k + 1"
  shows "rounds_left (attempts_of c (k + 1)) < rounds_left (attempts_of c k)"
proof (rule rounds_left_failed)
  show "failed undefined undefined (attempts_of c k) (Generic []) =
      (attempts_of c (k + 1), Inr (delay_for_attempt undefined undefined (retry_mode c) k))"
    using assms by (simp add: failed_def attempts_of_def Let_def)
qed

function attempt_loop ::
    "'f f64_ops \<Rightarrow> (64 word \<Rightarrow> 'f) \<Rightarrow> 'f system_config \<Rightarrow> ('i \<Rightarrow> 'a saci_result \<times> 'i)
      \<Rightarrow> 64 word \<Rightarrow> 'i \<Rightarrow> duration list \<Rightarrow> ('a \<times> u32) saci_result \<times> 'i \<times> duration list" where
  "attempt_loop F rnd c call attempt inner sleeps =
     (case call inner of
        (Inr value, inner') \<Rightarrow> (Inr (value, ucast attempt), inner', sleeps)
      | (Inl e, inner') \<Rightarrow>
          if max_attempts (retry_mode c) \<le> attempt + 1
          then (Inl (RetryExhausted e (unat (attempt + 1))), inner', sleeps)
          else case delay_for_attempt F rnd (retry_mode c) attempt of
              Some d \<Rightarrow> attempt_loop F rnd c call (attempt + 1) inner' (sleeps @ [d])
            | None \<Rightarrow> attempt_loop F rnd c call (attempt + 1) inner' sleeps)"
  by pat_completeness auto
termination
  by (relation "measure (\<lambda>(_, _, c, _, k, _, _). rounds_left (attempts_of c k))")
    (auto intro: rounds_left_next)

declare attempt_loop.simps [simp del]

definition retry_source_next_batch where
  "retry_source_next_batch F rnd c ops inner = attempt_loop F rnd c (src_next ops) 0 inner []"

definition retry_source_finish where
  "retry_source_finish F rnd c ops inner = attempt_loop F rnd c (src_finish ops) 0 inner []"

definition retry_sink_write_batch where
  "retry_sink_write_batch F rnd c ops batch inner = attempt_loop F rnd c (snk_write ops batch) 0 inner []"

definition retry_sink_finish where
  "retry_sink_finish F rnd c ops inner = attempt_loop F rnd c (snk_finish ops) 0 inner []"

section \<open>The wrappers\<close>

text \<open>The count of retries is only logged, the sleeps have passed.\<close>

definition returned :: "('a \<times> u32) saci_result \<times> 'i \<times> duration list \<Rightarrow> 'a saci_result \<times> 'i" where
  "returned r = (map_sum id fst (fst r), fst (snd r))"

definition retrying_source ::
    "'f f64_ops \<Rightarrow> (64 word \<Rightarrow> 'f) \<Rightarrow> 'f system_config \<Rightarrow> ('i, 'b, 's) source_ops \<Rightarrow> ('i, 'b, 's) source_ops" where
  "retrying_source F rnd c ops =
     \<lparr>src_schema = src_schema ops,
      src_next = (\<lambda>i. returned (retry_source_next_batch F rnd c ops i)),
      src_estimated = src_estimated ops, src_hint = src_hint ops,
      src_finish = (\<lambda>i. returned (retry_source_finish F rnd c ops i))\<rparr>"

definition retrying_sink ::
    "'f f64_ops \<Rightarrow> (64 word \<Rightarrow> 'f) \<Rightarrow> 'f system_config \<Rightarrow> ('i, 'b, 's) sink_ops \<Rightarrow> ('i, 'b, 's) sink_ops" where
  "retrying_sink F rnd c ops =
     \<lparr>snk_schema = snk_schema ops,
      snk_write = (\<lambda>b i. returned (retry_sink_write_batch F rnd c ops b i)),
      snk_pending = snk_pending ops,
      snk_finish = (\<lambda>i. returned (retry_sink_finish F rnd c ops i))\<rparr>"

section \<open>The loops are the driver\<close>

lemma attempt_loop_driver:
  "attempt_loop F rnd c call k inner sleeps = retry_loop True F rnd call (attempts_of c k) inner sleeps"
proof (induction F rnd c call k inner sleeps rule: attempt_loop.induct)
  case (1 F rnd c call k inner sleeps)
  show ?case
    by (subst attempt_loop.simps, subst retry_loop.simps)
      (auto simp: 1 failed_def attempts_of_def Let_def retries_used_def split: prod.splits sum.splits option.splits)
qed

text \<open>
  The wrappers loop over the retry mode themselves, and the source says this matches the
  driver of the retry policy exactly. It does: each of the four operations, for every
  policy and every connector, returns what \<open>run_with_retries\<close> returns for that operation, leaves
  the same instance, counts the same retries and makes the same sleeps; and a wrapped call only
  forgets the count.
\<close>

theorem wrapper_loops_match_driver:
  "retry_source_next_batch F rnd c src i = run_with_retries True F rnd c (src_next src) i \<and>
   retry_source_finish F rnd c src i = run_with_retries True F rnd c (src_finish src) i \<and>
   retry_sink_write_batch F rnd c snk b j = run_with_retries True F rnd c (snk_write snk b) j \<and>
   retry_sink_finish F rnd c snk j = run_with_retries True F rnd c (snk_finish snk) j \<and>
   src_next (retrying_source F rnd c src) i = returned (run_with_retries True F rnd c (src_next src) i) \<and>
   snk_write (retrying_sink F rnd c snk) b j = returned (run_with_retries True F rnd c (snk_write snk b) j)"
proof -
  have a: "new_attempts c = attempts_of c 0" by (simp add: new_attempts_def attempts_of_def)
  show ?thesis
    by (simp add: retry_source_next_batch_def retry_source_finish_def retry_sink_write_batch_def
        retry_sink_finish_def retrying_source_def retrying_sink_def attempt_loop_driver run_with_retries_def a)
qed

end
