(* ===== verification/Healing.thy ===== *)
theory Healing
  imports Connector_Retry Flow
begin

text \<open>
  Connector self-healing, \<^verbatim>\<open>saci-service/src/service/heal.rs\<close>, and its configuration block in
  \<^verbatim>\<open>service/config.rs\<close>. The clock, the random draw of a delay and the answer of a factory are
  arguments of the call that reads them. A counter of type \<^verbatim>\<open>u32\<close> wraps.
\<close>

definition MAX_BACKOFF_EXPONENT :: nat where "MAX_BACKOFF_EXPONENT = 30"

section \<open>Settings\<close>

record heal_settings =
  heal_enabled :: bool
  after_failures :: nat
  base_delay_ms :: nat
  heal_multiplier :: rat
  max_delay_ms :: nat
  heal_jitter :: rat
  heal_max_attempts :: nat

definition default_heal :: heal_settings where
  "default_heal = \<lparr>heal_enabled = True, after_failures = 3, base_delay_ms = 1000, heal_multiplier = 2,
     max_delay_ms = 60000, heal_jitter = rnd (1 / 10), heal_max_attempts = 0\<rparr>"

text \<open>\<^verbatim>\<open>delay_for\<close>: \<open>F\<close> is the arithmetic of the retry policy, \<open>r\<close> its random draw.\<close>

definition delay_for :: "rat f64_ops \<Rightarrow> (64 word \<Rightarrow> rat) \<Rightarrow> heal_settings \<Rightarrow> nat \<Rightarrow> duration" where
  "delay_for F r s attempt =
     (let max_delay = from_millis (max_delay_ms s);
          mode = exponential_custom F (- 1) (from_millis (base_delay_ms s)) (heal_multiplier s) max_delay (heal_jitter s)
      in case delay_for_attempt F r mode (word_of_nat (min (attempt - 1) MAX_BACKOFF_EXPONENT)) of
           Some d \<Rightarrow> d | None \<Rightarrow> max_delay)"

record heal_config =
  hc_enabled :: "bool option"
  hc_after_failures :: "nat option"
  hc_base_delay_ms :: "nat option"
  hc_multiplier :: "rat option"
  hc_max_delay_ms :: "nat option"
  hc_jitter :: "rat option"
  hc_max_attempts :: "nat option"

definition saturating_u32 :: "nat option \<Rightarrow> nat \<Rightarrow> nat" where
  "saturating_u32 declared d = (case declared of None \<Rightarrow> d | Some v \<Rightarrow> min v (2 ^ 32 - 1))"

definition resolve_heal :: "heal_config \<Rightarrow> heal_config \<Rightarrow> heal_settings \<Rightarrow> heal_settings" where
  "resolve_heal l g d =
     \<lparr>heal_enabled = unwrap_or (opt_or (hc_enabled l) (hc_enabled g)) (heal_enabled d),
      after_failures = saturating_u32 (opt_or (hc_after_failures l) (hc_after_failures g)) (after_failures d),
      base_delay_ms = unwrap_or (opt_or (hc_base_delay_ms l) (hc_base_delay_ms g)) (base_delay_ms d),
      heal_multiplier = unwrap_or (opt_or (hc_multiplier l) (hc_multiplier g)) (heal_multiplier d),
      max_delay_ms = unwrap_or (opt_or (hc_max_delay_ms l) (hc_max_delay_ms g)) (max_delay_ms d),
      heal_jitter = unwrap_or (opt_or (hc_jitter l) (hc_jitter g)) (heal_jitter d),
      heal_max_attempts = saturating_u32 (opt_or (hc_max_attempts l) (hc_max_attempts g)) (heal_max_attempts d)\<rparr>"

text \<open>A NaN is not a value of the model; \<open>shown\<close> is \<^verbatim>\<open>Display\<close> of an \<^verbatim>\<open>f64\<close>.\<close>

definition validate_heal :: "(rat \<Rightarrow> string) \<Rightarrow> heal_config \<Rightarrow> heal_config \<Rightarrow> string \<Rightarrow> unit saci_result" where
  "validate_heal shown l g what =
     (let resolved = resolve_heal l g default_heal in
      if after_failures resolved < 1
      then Inl (Configuration (what @ '': after_failures must be at least 1; it counts the failures that precede a rebuild''))
      else if base_delay_ms resolved < 1
      then Inl (Configuration (what @ '': base_delay_ms must be at least 1; a zero delay rebuilds in a hot loop''))
      else if heal_multiplier resolved < 1
      then Inl (Configuration (what @ '': multiplier must be at least 1.0, got '' @ shown (heal_multiplier resolved)))
      else if \<not> (0 \<le> heal_jitter resolved \<and> heal_jitter resolved \<le> 1)
      then Inl (Configuration (what @ '': jitter must be within 0.0..=1.0, got '' @ shown (heal_jitter resolved)))
      else if max_delay_ms resolved < base_delay_ms resolved
      then Inl (Configuration (what @ '': max_delay_ms ('' @ dec_string (max_delay_ms resolved) @
        '') must be at least base_delay_ms ('' @ dec_string (base_delay_ms resolved) @ '')''))
      else Inr ())"

section \<open>The state machine\<close>

datatype heal_state =
    Healthy
  | Failing nat
  | Scheduled nat nat
  | Probing nat
  | Exhausted

datatype role = Source_Role | Sink_Role

text \<open>The two counters are the metrics of the role.\<close>

record healer =
  hl_settings :: heal_settings
  hl_state :: heal_state
  hl_role :: role
  hl_node :: string
  hl_down :: "string option"
  hl_recovered :: bool
  hl_heals :: nat
  hl_heal_failures :: nat

definition new_healer :: "heal_settings \<Rightarrow> role \<Rightarrow> string \<Rightarrow> healer" where
  "new_healer s r node = \<lparr>hl_settings = s, hl_state = Healthy, hl_role = r, hl_node = node, hl_down = None,
     hl_recovered = False, hl_heals = 0, hl_heal_failures = 0\<rparr>"

definition down_error :: "healer \<Rightarrow> saci_error" where
  "down_error h = Generic (hl_node h @ '': connector is down: '' @ unwrap_or (hl_down h) ''rebuild failed'')"

definition due :: "nat \<Rightarrow> healer \<Rightarrow> nat option" where
  "due now h = (case hl_state h of Scheduled attempt deadline \<Rightarrow> if now \<ge> deadline then Some attempt else None | _ \<Rightarrow> None)"

definition built :: "nat \<Rightarrow> healer \<Rightarrow> healer" where
  "built attempt h = h\<lparr>hl_down := None, hl_state := Probing attempt, hl_heals := hl_heals h + 1\<rparr>"

text \<open>The reading of the clock and the draw of one call.\<close>

record clock =
  ck_now :: nat
  ck_ops :: "rat f64_ops"
  ck_draw :: "64 word \<Rightarrow> rat"

definition schedule :: "clock \<Rightarrow> nat \<Rightarrow> healer \<Rightarrow> healer" where
  "schedule ck attempt h =
     (if heal_max_attempts (hl_settings h) \<noteq> 0 \<and> attempt > heal_max_attempts (hl_settings h)
      then h\<lparr>hl_state := Exhausted\<rparr>
      else h\<lparr>hl_state := Scheduled attempt (ck_now ck + delay_for (ck_ops ck) (ck_draw ck) (hl_settings h) attempt)\<rparr>)"

definition next_u32 :: "nat \<Rightarrow> nat" where
  "next_u32 n = (n + 1) mod 2 ^ 32"

definition build_failed :: "clock \<Rightarrow> nat \<Rightarrow> string \<Rightarrow> healer \<Rightarrow> healer" where
  "build_failed ck attempt err h =
     schedule ck (next_u32 attempt) (h\<lparr>hl_heal_failures := hl_heal_failures h + 1, hl_down := Some err\<rparr>)"

definition success :: "healer \<Rightarrow> healer" where
  "success h =
     (case hl_state h of
        Healthy \<Rightarrow> h
      | Probing _ \<Rightarrow> h\<lparr>hl_state := Healthy, hl_recovered := True\<rparr>
      | _ \<Rightarrow> h\<lparr>hl_state := Healthy\<rparr>)"

definition failure :: "clock \<Rightarrow> healer \<Rightarrow> healer" where
  "failure ck h =
     (case hl_state h of
        Healthy \<Rightarrow> if after_failures (hl_settings h) \<le> 1 then schedule ck 1 h else h\<lparr>hl_state := Failing 1\<rparr>
      | Failing n \<Rightarrow>
          let consecutive = next_u32 n in
          if consecutive \<ge> after_failures (hl_settings h) then schedule ck 1 h
          else h\<lparr>hl_state := Failing consecutive\<rparr>
      | Probing attempt \<Rightarrow> schedule ck (next_u32 attempt) h
      | Scheduled _ _ \<Rightarrow> h
      | Exhausted \<Rightarrow> h)"

section \<open>Rebuilding\<close>

text \<open>\<^verbatim>\<open>missing_factory_error\<close>; \<open>builtin\<close> is the feature a built-in type belongs to.\<close>

definition missing_factory_error :: "(string \<Rightarrow> string option) \<Rightarrow> string \<Rightarrow> string \<Rightarrow> string \<Rightarrow> saci_error" where
  "missing_factory_error builtin kind type_name node_id =
     (case builtin type_name of
        Some feature \<Rightarrow> Configuration (''no '' @ kind @ '' factory registered for type '' @ quoted type_name @
          '' (required by '' @ kind @ '' '' @ quoted node_id @ ''): that is a built-in connector this binary was built '' @
          ''without, so rebuild or reinstall with `--features '' @ feature @ ''`, or register your own factory under that name'')
      | None \<Rightarrow> Configuration (''no '' @ kind @ '' factory registered for type '' @ quoted type_name @
          '' (required by '' @ kind @ '' '' @ quoted node_id @ '')''))"

text \<open>
  A registry holds the factories by type; a factory answers with an instance or an error. The
  configuration and the context it is given are fixed for a node and part of the factory here. An
  instance of a wrapped node is operated through the retrying operations.
\<close>

record 'i rebuilder =
  rb_registry :: "string \<rightharpoonup> nat \<Rightarrow> saci_error + 'i"
  rb_type_name :: string
  rb_node_id :: string

definition build_source :: "(string \<Rightarrow> string option) \<Rightarrow> 'i rebuilder \<Rightarrow> nat \<Rightarrow> 'i saci_result" where
  "build_source builtin rb k =
     (case rb_registry rb (rb_type_name rb) of
        None \<Rightarrow> Inl (missing_factory_error builtin ''source'' (rb_type_name rb) (rb_node_id rb))
      | Some factory \<Rightarrow> factory k)"

definition build_sink :: "(string \<Rightarrow> string option) \<Rightarrow> 'i rebuilder \<Rightarrow> nat \<Rightarrow> 'i saci_result" where
  "build_sink builtin rb k =
     (case rb_registry rb (rb_type_name rb) of
        None \<Rightarrow> Inl (missing_factory_error builtin ''sink'' (rb_type_name rb) (rb_node_id rb))
      | Some factory \<Rightarrow> factory k)"

definition node_source_ops ::
    "'f f64_ops \<Rightarrow> (64 word \<Rightarrow> 'f) \<Rightarrow> 'f system_config option \<Rightarrow> ('i, 'b, 's) source_ops \<Rightarrow> ('i, 'b, 's) source_ops" where
  "node_source_ops F r retry ops = (case retry of Some c \<Rightarrow> retrying_source F r c ops | None \<Rightarrow> ops)"

definition node_sink_ops ::
    "'f f64_ops \<Rightarrow> (64 word \<Rightarrow> 'f) \<Rightarrow> 'f system_config option \<Rightarrow> ('i, 'b, 's) sink_ops \<Rightarrow> ('i, 'b, 's) sink_ops" where
  "node_sink_ops F r retry ops = (case retry of Some c \<Rightarrow> retrying_sink F r c ops | None \<Rightarrow> ops)"

definition schema_mismatch :: "('s \<Rightarrow> string) \<Rightarrow> 's \<Rightarrow> 's \<Rightarrow> string option" where
  "schema_mismatch shown pinned fresh =
     (if pinned = fresh then None
      else Some (''rebuilt connector reports schema '' @ shown fresh @
        '' but the workflow was validated against '' @ shown pinned))"

section \<open>The healing source\<close>

record ('i, 's) healing_source =
  hs_inner :: "'i option"
  hs_healer :: healer
  hs_schema :: 's
  hs_hint :: "nat option"

definition new_healing_source ::
    "('i, 'b, 's) source_ops \<Rightarrow> 'i \<Rightarrow> heal_settings \<Rightarrow> string \<Rightarrow> ('i, 's) healing_source" where
  "new_healing_source ops inner s node =
     \<lparr>hs_inner = Some inner, hs_healer = new_healer s Source_Role node, hs_schema = src_schema ops inner, hs_hint = None\<rparr>"

text \<open>
  The surroundings of one call: the clock at its head, the clock when a rebuild or the call has
  failed, and the answer of the factory, used only when a rebuild is due.
\<close>

record 'i heal_env =
  env_head :: nat
  env_clock :: clock
  env_build :: "'i saci_result"

definition source_heal_if_due ::
    "('s \<Rightarrow> string) \<Rightarrow> ('i, 'b, 's) source_ops \<Rightarrow> 'i heal_env \<Rightarrow> ('i, 's) healing_source \<Rightarrow> ('i, 's) healing_source" where
  "source_heal_if_due shown ops env w =
     (case due (env_head env) (hs_healer w) of
        None \<Rightarrow> w
      | Some attempt \<Rightarrow>
          let w1 = w\<lparr>hs_inner := None\<rparr> in
          case env_build env of
            Inr fresh \<Rightarrow>
              (case schema_mismatch shown (hs_schema w1) (src_schema ops fresh) of
                 Some mismatch \<Rightarrow> w1\<lparr>hs_healer := build_failed (env_clock env) attempt mismatch (hs_healer w1)\<rparr>
               | None \<Rightarrow>
                   let fresh' = (case hs_hint w1 of Some rows \<Rightarrow> src_hint ops rows fresh | None \<Rightarrow> fresh)
                   in w1\<lparr>hs_inner := Some fresh', hs_healer := built attempt (hs_healer w1)\<rparr>)
          | Inl e \<Rightarrow> w1\<lparr>hs_healer := build_failed (env_clock env) attempt (display_error e) (hs_healer w1)\<rparr>)"

definition source_next_batch ::
    "('s \<Rightarrow> string) \<Rightarrow> ('i, 'b, 's) source_ops \<Rightarrow> 'i heal_env \<Rightarrow> ('i, 's) healing_source
      \<Rightarrow> 'b option saci_result \<times> ('i, 's) healing_source" where
  "source_next_batch shown ops env w0 =
     (let w = source_heal_if_due shown ops env w0 in
      case hs_inner w of
        None \<Rightarrow> (Inl (down_error (hs_healer w)), w)
      | Some inner \<Rightarrow>
          (case src_next ops inner of
             (Inr batch, inner') \<Rightarrow> (Inr batch, w\<lparr>hs_inner := Some inner', hs_healer := success (hs_healer w)\<rparr>)
           | (Inl e, inner') \<Rightarrow> (Inl e, w\<lparr>hs_inner := Some inner', hs_healer := failure (env_clock env) (hs_healer w)\<rparr>)))"

definition source_estimated_rows :: "('i, 'b, 's) source_ops \<Rightarrow> ('i, 's) healing_source \<Rightarrow> nat option" where
  "source_estimated_rows ops w = Option.bind (hs_inner w) (src_estimated ops)"

definition source_request_batch_rows ::
    "('i, 'b, 's) source_ops \<Rightarrow> nat \<Rightarrow> ('i, 's) healing_source \<Rightarrow> ('i, 's) healing_source" where
  "source_request_batch_rows ops rows w =
     w\<lparr>hs_hint := Some rows, hs_inner := map_option (src_hint ops rows) (hs_inner w)\<rparr>"

definition source_finish ::
    "('i, 'b, 's) source_ops \<Rightarrow> clock \<Rightarrow> ('i, 's) healing_source \<Rightarrow> unit saci_result \<times> ('i, 's) healing_source" where
  "source_finish ops ck w =
     (case hs_inner w of
        None \<Rightarrow> (Inl (down_error (hs_healer w)), w)
      | Some inner \<Rightarrow>
          (case src_finish ops inner of
             (Inr u, inner') \<Rightarrow> (Inr u, w\<lparr>hs_inner := Some inner', hs_healer := success (hs_healer w)\<rparr>)
           | (Inl e, inner') \<Rightarrow> (Inl e, w\<lparr>hs_inner := Some inner', hs_healer := failure ck (hs_healer w)\<rparr>)))"

section \<open>The healing sink\<close>

record ('i, 's) healing_sink =
  hk_inner :: "'i option"
  hk_healer :: healer
  hk_schema :: 's

definition new_healing_sink ::
    "('i, 'b, 's) sink_ops \<Rightarrow> 'i \<Rightarrow> heal_settings \<Rightarrow> string \<Rightarrow> ('i, 's) healing_sink" where
  "new_healing_sink ops inner s node =
     \<lparr>hk_inner = Some inner, hk_healer = new_healer s Sink_Role node, hk_schema = snk_schema ops inner\<rparr>"

definition sink_heal_if_due ::
    "('s \<Rightarrow> string) \<Rightarrow> ('i, 'b, 's) sink_ops \<Rightarrow> 'i heal_env \<Rightarrow> ('i, 's) healing_sink \<Rightarrow> ('i, 's) healing_sink" where
  "sink_heal_if_due shown ops env w =
     (case due (env_head env) (hk_healer w) of
        None \<Rightarrow> w
      | Some attempt \<Rightarrow>
          let w1 = w\<lparr>hk_inner := None\<rparr> in
          case env_build env of
            Inr fresh \<Rightarrow>
              (case schema_mismatch shown (hk_schema w1) (snk_schema ops fresh) of
                 Some mismatch \<Rightarrow> w1\<lparr>hk_healer := build_failed (env_clock env) attempt mismatch (hk_healer w1)\<rparr>
               | None \<Rightarrow> w1\<lparr>hk_inner := Some fresh, hk_healer := built attempt (hk_healer w1)\<rparr>)
          | Inl e \<Rightarrow> w1\<lparr>hk_healer := build_failed (env_clock env) attempt (display_error e) (hk_healer w1)\<rparr>)"

definition sink_write_batch ::
    "('s \<Rightarrow> string) \<Rightarrow> ('i, 'b, 's) sink_ops \<Rightarrow> 'i heal_env \<Rightarrow> 'b \<Rightarrow> ('i, 's) healing_sink
      \<Rightarrow> unit saci_result \<times> ('i, 's) healing_sink" where
  "sink_write_batch shown ops env batch w0 =
     (let w = sink_heal_if_due shown ops env w0 in
      case hk_inner w of
        None \<Rightarrow> (Inl (down_error (hk_healer w)), w)
      | Some inner \<Rightarrow>
          (case snk_write ops batch inner of
             (Inr u, inner') \<Rightarrow> (Inr u, w\<lparr>hk_inner := Some inner', hk_healer := success (hk_healer w)\<rparr>)
           | (Inl e, inner') \<Rightarrow> (Inl e, w\<lparr>hk_inner := Some inner', hk_healer := failure (env_clock env) (hk_healer w)\<rparr>)))"

definition sink_finish ::
    "('i, 'b, 's) sink_ops \<Rightarrow> clock \<Rightarrow> ('i, 's) healing_sink \<Rightarrow> unit saci_result \<times> ('i, 's) healing_sink" where
  "sink_finish ops ck w =
     (case hk_inner w of
        None \<Rightarrow> (Inl (down_error (hk_healer w)), w)
      | Some inner \<Rightarrow>
          (case snk_finish ops inner of
             (Inr u, inner') \<Rightarrow> (Inr u, w\<lparr>hk_inner := Some inner', hk_healer := success (hk_healer w)\<rparr>)
           | (Inl e, inner') \<Rightarrow> (Inl e, w\<lparr>hk_inner := Some inner', hk_healer := failure ck (hk_healer w)\<rparr>)))"

definition sink_pending_rows :: "('i, 'b, 's) sink_ops \<Rightarrow> ('i, 's) healing_sink \<Rightarrow> nat option" where
  "sink_pending_rows ops w = Option.bind (hk_inner w) (snk_pending ops)"

text \<open>The reader of the flag clears it.\<close>

definition take_recovered :: "('i, 's) healing_sink \<Rightarrow> bool \<times> ('i, 's) healing_sink" where
  "take_recovered w = (hl_recovered (hk_healer w), w\<lparr>hk_healer := (hk_healer w)\<lparr>hl_recovered := False\<rparr>\<rparr>)"

end
