(* ===== verification/Healing_Properties.thy ===== *)
theory Healing_Properties
  imports Healing
begin

text \<open>
  What the healing wrappers keep over any sequence of calls, how many rebuilds they make, and that
  a rebuild that holds ends an outage.
\<close>

section \<open>Runs of a healing source\<close>

datatype 'i source_call = Next_Batch "'i heal_env" | Finish_Source clock | Request_Rows nat

text \<open>One call, and whether it failed.\<close>

definition source_call ::
    "('s \<Rightarrow> string) \<Rightarrow> ('i, 'b, 's) source_ops \<Rightarrow> 'i source_call \<Rightarrow> ('i, 's) healing_source
      \<Rightarrow> bool \<times> ('i, 's) healing_source" where
  "source_call shown ops ev w =
     (case ev of
        Next_Batch env \<Rightarrow> (let (r, w') = source_next_batch shown ops env w in (\<exists>e. r = Inl e, w'))
      | Finish_Source ck \<Rightarrow> (let (r, w') = source_finish ops ck w in (\<exists>e. r = Inl e, w'))
      | Request_Rows n \<Rightarrow> (True, source_request_batch_rows ops n w))"

text \<open>Whether every call that can fail did, and the wrapper they leave.\<close>

fun source_run ::
    "('s \<Rightarrow> string) \<Rightarrow> ('i, 'b, 's) source_ops \<Rightarrow> 'i source_call list \<Rightarrow> ('i, 's) healing_source
      \<Rightarrow> bool \<times> ('i, 's) healing_source" where
  "source_run shown ops [] w = (True, w)"
| "source_run shown ops (ev # evs) w =
     (let (f, w1) = source_call shown ops ev w; (fs, w2) = source_run shown ops evs w1 in (f \<and> fs, w2))"

text \<open>A connector does not change the schema it reports.\<close>

definition schema_stable :: "('i, 'b, 's) source_ops \<Rightarrow> bool" where
  "schema_stable ops \<longleftrightarrow>
     (\<forall>i. src_schema ops (snd (src_next ops i)) = src_schema ops i \<and>
          src_schema ops (snd (src_finish ops i)) = src_schema ops i \<and>
          (\<forall>n. src_schema ops (src_hint ops n i) = src_schema ops i))"

section \<open>The state machine\<close>

definition bounded_settings :: "heal_settings \<Rightarrow> bool" where
  "bounded_settings s \<longleftrightarrow> after_failures s < 2 ^ 32 \<and> heal_max_attempts s < 2 ^ 32 - 1"

definition attempt_ok :: "heal_settings \<Rightarrow> nat \<Rightarrow> bool" where
  "attempt_ok s k \<longleftrightarrow> (heal_max_attempts s \<noteq> 0 \<longrightarrow> 1 \<le> k \<and> k \<le> heal_max_attempts s)"

definition state_ok :: "heal_settings \<Rightarrow> heal_state \<Rightarrow> bool" where
  "state_ok s st =
     (case st of
        Healthy \<Rightarrow> True
      | Failing n \<Rightarrow> 1 \<le> n \<and> n < after_failures s
      | Scheduled k t \<Rightarrow> attempt_ok s k
      | Probing k \<Rightarrow> attempt_ok s k
      | Exhausted \<Rightarrow> heal_max_attempts s \<noteq> 0)"

text \<open>The rebuilds an outage has had, by the state it is in.\<close>

definition spent :: "heal_settings \<Rightarrow> heal_state \<Rightarrow> nat" where
  "spent s st =
     (case st of
        Healthy \<Rightarrow> 0
      | Failing n \<Rightarrow> 0
      | Scheduled k t \<Rightarrow> k - 1
      | Probing k \<Rightarrow> k
      | Exhausted \<Rightarrow> heal_max_attempts s)"

lemma state_ok_simps [simp]:
  "state_ok s Healthy" "state_ok s (Failing n) \<longleftrightarrow> 1 \<le> n \<and> n < after_failures s"
  "state_ok s (Scheduled k t) \<longleftrightarrow> attempt_ok s k" "state_ok s (Probing k) \<longleftrightarrow> attempt_ok s k"
  "state_ok s Exhausted \<longleftrightarrow> heal_max_attempts s \<noteq> 0"
  by (simp_all add: state_ok_def)

lemma spent_simps [simp]:
  "spent s Healthy = 0" "spent s (Failing n) = 0" "spent s (Scheduled k t) = k - 1" "spent s (Probing k) = k"
  "spent s Exhausted = heal_max_attempts s"
  by (simp_all add: spent_def)

definition rebuilds :: "healer \<Rightarrow> nat" where
  "rebuilds h = hl_heals h + hl_heal_failures h"

lemma next_u32_bounded: "bounded_settings s \<Longrightarrow> heal_max_attempts s \<noteq> 0 \<Longrightarrow> attempt_ok s k \<Longrightarrow> next_u32 k = k + 1"
  by (simp add: bounded_settings_def attempt_ok_def next_u32_def)

lemma schedule_fields [simp]:
  "hl_settings (schedule ck k h) = hl_settings h" "hl_down (schedule ck k h) = hl_down h"
  "hl_heals (schedule ck k h) = hl_heals h" "hl_heal_failures (schedule ck k h) = hl_heal_failures h"
  "hl_recovered (schedule ck k h) = hl_recovered h" "hl_node (schedule ck k h) = hl_node h"
  by (simp_all add: schedule_def)

definition down_state :: "heal_state \<Rightarrow> bool" where
  "down_state st \<longleftrightarrow> st = Exhausted \<or> (\<exists>k t. st = Scheduled k t)"

lemma schedule_state [simp]: "down_state (hl_state (schedule ck k h))"
  by (simp add: schedule_def down_state_def)

lemma schedule_ok:
  assumes "hl_settings h = s" "heal_max_attempts s \<noteq> 0 \<longrightarrow> 1 \<le> k \<and> k \<le> heal_max_attempts s + 1"
  shows "state_ok s (hl_state (schedule ck k h))"
    and "heal_max_attempts s \<noteq> 0 \<Longrightarrow> spent s (hl_state (schedule ck k h)) = k - 1"
  using assms by (auto simp: schedule_def attempt_ok_def)

lemma success_fields [simp]:
  "hl_settings (success h) = hl_settings h" "hl_down (success h) = hl_down h" "hl_state (success h) = Healthy"
  "hl_heals (success h) = hl_heals h" "hl_heal_failures (success h) = hl_heal_failures h"
  by (simp_all add: success_def split: heal_state.splits)

lemma failure_fields [simp]:
  "hl_settings (failure ck h) = hl_settings h" "hl_down (failure ck h) = hl_down h"
  "hl_heals (failure ck h) = hl_heals h" "hl_heal_failures (failure ck h) = hl_heal_failures h"
  by (simp_all add: failure_def Let_def split: heal_state.splits)

lemma failure_ok:
  assumes "hl_settings h = s" "bounded_settings s" "state_ok s (hl_state h)"
  shows "state_ok s (hl_state (failure ck h))"
    and "heal_max_attempts s \<noteq> 0 \<Longrightarrow> spent s (hl_state (failure ck h)) = spent s (hl_state h)"
proof -
  have one: "heal_max_attempts s \<noteq> 0 \<longrightarrow> 1 \<le> (1 :: nat) \<and> 1 \<le> heal_max_attempts s + 1" by simp
  have nx: "heal_max_attempts s \<noteq> 0 \<longrightarrow> 1 \<le> next_u32 k \<and> next_u32 k \<le> heal_max_attempts s + 1 \<and> next_u32 k - 1 = k"
    if "attempt_ok s k" for k using next_u32_bounded [OF assms(2) _ that] that by (auto simp: attempt_ok_def)
  have fl: "next_u32 n = n + 1" if "n < after_failures s" for n
    using that assms(2) by (simp add: next_u32_def bounded_settings_def)
  show "state_ok s (hl_state (failure ck h))"
    using assms(1,3) schedule_ok(1) [OF assms(1) one] schedule_ok(1) [OF assms(1)] nx fl
    by (cases "hl_state h") (simp_all add: failure_def Let_def)
  show "spent s (hl_state (failure ck h)) = spent s (hl_state h)" if "heal_max_attempts s \<noteq> 0"
    using assms(1,3) that schedule_ok(2) [OF assms(1) one that] schedule_ok(2) [OF assms(1) _ that] nx fl
    by (cases "hl_state h") (simp_all add: failure_def Let_def)
qed

lemma build_failed_fields [simp]:
  "hl_settings (build_failed ck k e h) = hl_settings h" "hl_down (build_failed ck k e h) = Some e"
  "rebuilds (build_failed ck k e h) = rebuilds h + 1"
  by (simp_all add: build_failed_def rebuilds_def)

lemma build_failed_ok:
  assumes "hl_settings h = s" "bounded_settings s" "attempt_ok s k"
  shows "state_ok s (hl_state (build_failed ck k e h))"
    and "heal_max_attempts s \<noteq> 0 \<Longrightarrow> spent s (hl_state (build_failed ck k e h)) = k"
proof -
  have nx: "heal_max_attempts s \<noteq> 0 \<longrightarrow> 1 \<le> next_u32 k \<and> next_u32 k \<le> heal_max_attempts s + 1 \<and> next_u32 k - 1 = k"
    using next_u32_bounded [OF assms(2) _ assms(3)] assms(3) by (auto simp: attempt_ok_def)
  then show "state_ok s (hl_state (build_failed ck k e h))"
    unfolding build_failed_def by (intro schedule_ok(1)) (use assms(1) in simp_all)
  show "spent s (hl_state (build_failed ck k e h)) = k" if "heal_max_attempts s \<noteq> 0"
    using nx that assms(1) unfolding build_failed_def by (subst schedule_ok(2)) simp_all
qed

lemma due_attempt: "due now h = Some k \<longleftrightarrow> (\<exists>t. hl_state h = Scheduled k t \<and> t \<le> now)"
  by (auto simp: due_def split: heal_state.splits)

section \<open>The source keeps its schema and its budget\<close>

definition source_inv :: "('i, 'b, 's) source_ops \<Rightarrow> heal_settings \<Rightarrow> 's \<Rightarrow> ('i, 's) healing_source \<Rightarrow> bool" where
  "source_inv ops s sch w \<longleftrightarrow>
     hl_settings (hs_healer w) = s \<and> hs_schema w = sch \<and> (\<forall>i. hs_inner w = Some i \<longrightarrow> src_schema ops i = sch) \<and>
     (hs_inner w = None \<longrightarrow> hl_down (hs_healer w) \<noteq> None \<and> down_state (hl_state (hs_healer w))) \<and>
     state_ok s (hl_state (hs_healer w))"

lemma build_failed_down: "down_state (hl_state (build_failed ck k e h))"
  by (simp add: build_failed_def)

lemma source_inv_heal:
  assumes "schema_stable ops" "bounded_settings s" "source_inv ops s sch w"
  shows "source_inv ops s sch (source_heal_if_due shown ops env w)"
    and "heal_max_attempts s \<noteq> 0 \<Longrightarrow>
      rebuilds (hs_healer (source_heal_if_due shown ops env w)) + spent s (hl_state (hs_healer w)) =
      rebuilds (hs_healer w) + spent s (hl_state (hs_healer (source_heal_if_due shown ops env w)))"
proof -
  let ?h = "hs_healer w" let ?w = "source_heal_if_due shown ops env w"
  have h: "hl_settings ?h = s" "state_ok s (hl_state ?h)" using assms(3) by (simp_all add: source_inv_def)
  have "source_inv ops s sch ?w \<and> (heal_max_attempts s \<noteq> 0 \<longrightarrow>
      rebuilds (hs_healer ?w) + spent s (hl_state ?h) = rebuilds ?h + spent s (hl_state (hs_healer ?w)))"
  proof (cases "due (env_head env) ?h")
    case None
    then show ?thesis using assms(3) by (simp add: source_heal_if_due_def)
  next
    case (Some k)
    then obtain t where st: "hl_state ?h = Scheduled k t" by (auto simp: due_attempt)
    then have k: "attempt_ok s k" using h by simp
    note bf = build_failed_ok [OF h(1) assms(2) k]
    have e: "?w = w\<lparr>hs_inner := None, hs_healer := build_failed (env_clock env) k e ?h\<rparr> \<Longrightarrow> ?thesis" for e
      using assms(3) h(1) bf [of "env_clock env" e] build_failed_down [of "env_clock env" k e ?h] st k
      by (auto simp: source_inv_def attempt_ok_def)
    show ?thesis
    proof (cases "env_build env")
      case (Inl e)
      show ?thesis
        by (rule e [of "display_error e"]) (simp add: source_heal_if_due_def Some Inl Let_def)
    next
      case (Inr fresh)
      show ?thesis
      proof (cases "schema_mismatch shown (hs_schema w) (src_schema ops fresh)")
        case (Some m)
        show ?thesis
          by (rule e [of m]) (simp add: source_heal_if_due_def \<open>due _ _ = Some k\<close> Inr Some Let_def)
      next
        case None
        then have "src_schema ops fresh = sch" using assms(3) by (simp add: schema_mismatch_def source_inv_def split: if_splits)
        moreover have "?w = w\<lparr>hs_inner := Some (case hs_hint w of Some rows \<Rightarrow> src_hint ops rows fresh | None \<Rightarrow> fresh),
            hs_healer := built k ?h\<rparr>"
          by (simp add: source_heal_if_due_def \<open>due _ _ = Some k\<close> Inr None Let_def)
        ultimately show ?thesis
          using assms(1,3) h st k
          by (auto simp: source_inv_def built_def rebuilds_def attempt_ok_def schema_stable_def split: option.splits)
      qed
    qed
  qed
  then show "source_inv ops s sch ?w" "heal_max_attempts s \<noteq> 0 \<Longrightarrow>
      rebuilds (hs_healer ?w) + spent s (hl_state ?h) = rebuilds ?h + spent s (hl_state (hs_healer ?w))"
    by simp_all
qed

lemma rebuilds_same [simp]: "rebuilds (success h) = rebuilds h" "rebuilds (failure ck h) = rebuilds h"
  by (simp_all add: rebuilds_def)

lemma source_inv_outcome:
  assumes "schema_stable ops" "bounded_settings s" "source_inv ops s sch w" "hs_inner w = Some i" "src_schema ops i' = src_schema ops i"
  shows "source_inv ops s sch (w\<lparr>hs_inner := Some i', hs_healer := success (hs_healer w)\<rparr>)"
    and "source_inv ops s sch (w\<lparr>hs_inner := Some i', hs_healer := failure ck (hs_healer w)\<rparr>)"
  using assms failure_ok(1) [of "hs_healer w" s ck] by (simp_all add: source_inv_def)

lemma source_call_inv:
  assumes "schema_stable ops" "bounded_settings s" "source_inv ops s sch w" "source_call shown ops ev w = (f, w')"
  shows "source_inv ops s sch w'"
    and "heal_max_attempts s \<noteq> 0 \<Longrightarrow> f \<Longrightarrow>
      rebuilds (hs_healer w') + spent s (hl_state (hs_healer w)) = rebuilds (hs_healer w) + spent s (hl_state (hs_healer w'))"
proof -
  have st: "src_schema ops (snd (src_next ops i)) = src_schema ops i" "src_schema ops (snd (src_finish ops i)) = src_schema ops i"
    "src_schema ops (src_hint ops n i) = src_schema ops i" for i n
    using assms(1) by (simp_all add: schema_stable_def)
  have sp: "spent s (hl_state (failure ck (hs_healer v))) = spent s (hl_state (hs_healer v))"
    if "source_inv ops s sch v" "heal_max_attempts s \<noteq> 0" for ck v
    using that failure_ok(2) [OF _ assms(2)] by (simp add: source_inv_def)
  have "source_inv ops s sch w' \<and> (heal_max_attempts s \<noteq> 0 \<longrightarrow> f \<longrightarrow>
      rebuilds (hs_healer w') + spent s (hl_state (hs_healer w)) = rebuilds (hs_healer w) + spent s (hl_state (hs_healer w')))"
  proof (cases ev)
    case (Next_Batch env)
    let ?v = "source_heal_if_due shown ops env w"
    note v = source_inv_heal [OF assms(1-3), of shown env]
    show ?thesis
    proof (cases "hs_inner ?v")
      case None
      then show ?thesis using assms(4) v by (auto simp: source_call_def Next_Batch source_next_batch_def Let_def)
    next
      case (Some i)
      obtain r i' where n: "src_next ops i = (r, i')" by fastforce
      have i': "src_schema ops i' = src_schema ops i" using st(1) [of i] n by simp
      note o = source_inv_outcome [OF assms(1,2) v(1) Some i']
      show ?thesis
        using assms(4) o v(2) sp [OF v(1)]
        by (cases r) (auto simp: source_call_def Next_Batch source_next_batch_def Let_def Some n)
    qed
  next
    case (Finish_Source ck)
    show ?thesis
    proof (cases "hs_inner w")
      case None
      then show ?thesis using assms(3,4) by (auto simp: source_call_def Finish_Source source_finish_def)
    next
      case (Some i)
      obtain r i' where n: "src_finish ops i = (r, i')" by fastforce
      have i': "src_schema ops i' = src_schema ops i" using st(2) [of i] n by simp
      note o = source_inv_outcome [OF assms(1,2,3) Some i']
      show ?thesis
        using assms(4) o sp [OF assms(3)]
        by (cases r) (auto simp: source_call_def Finish_Source source_finish_def Some n)
    qed
  next
    case (Request_Rows n)
    then show ?thesis using assms(3,4) st(3)
      by (auto simp: source_call_def source_request_batch_rows_def source_inv_def)
  qed
  then show "source_inv ops s sch w'" "heal_max_attempts s \<noteq> 0 \<Longrightarrow> f \<Longrightarrow>
      rebuilds (hs_healer w') + spent s (hl_state (hs_healer w)) = rebuilds (hs_healer w) + spent s (hl_state (hs_healer w'))"
    by simp_all
qed

lemma source_run_inv:
  assumes "schema_stable ops" "bounded_settings s" "source_inv ops s sch w" "source_run shown ops evs w = (f, w')"
  shows "source_inv ops s sch w' \<and> (heal_max_attempts s \<noteq> 0 \<longrightarrow> f \<longrightarrow>
    rebuilds (hs_healer w') + spent s (hl_state (hs_healer w)) = rebuilds (hs_healer w) + spent s (hl_state (hs_healer w')))"
  using assms(3,4)
proof (induction evs arbitrary: w f)
  case (Cons ev evs)
  obtain f1 w1 where c: "source_call shown ops ev w = (f1, w1)" by fastforce
  obtain f2 where r: "source_run shown ops evs w1 = (f2, w')" "f = (f1 \<and> f2)"
    using Cons.prems(2) by (auto simp: c Let_def split: prod.splits)
  note ci = source_call_inv [OF assms(1,2) Cons.prems(1) c]
  from Cons.IH [OF ci(1) r(1)] ci(2) r(2) show ?case by auto
qed simp

lemma spent_bound: "state_ok s st \<Longrightarrow> heal_max_attempts s \<noteq> 0 \<Longrightarrow> spent s st \<le> heal_max_attempts s"
  by (cases st) (auto simp: attempt_ok_def)

lemma source_inv_new:
  "source_inv ops s (src_schema ops i) (new_healing_source ops i s node)"
  by (simp add: source_inv_def new_healing_source_def new_healer_def)

text \<open>
  C37. What healing may cost is bounded. Over any sequence of polls, finishes and size hints, with
  any clock and whatever the factory answers: the schema the workflow was validated against never
  changes and every instance in use reports it; a source that holds no instance has a reason to
  report and either waits for a scheduled rebuild or has given up; and while every call fails,
  the rebuilds attempted, successful or not, never exceed the configured number (when one is set).
\<close>

theorem healing_source_bounded:
  assumes "schema_stable ops" "after_failures s < 2 ^ 32" "heal_max_attempts s < 2 ^ 32 - 1"
    and "source_run shown ops evs (new_healing_source ops i s node) = (all_failed, w)"
  shows "hs_schema w = src_schema ops i \<and> (\<forall>j. hs_inner w = Some j \<longrightarrow> src_schema ops j = src_schema ops i) \<and>
    (hs_inner w = None \<longrightarrow> (\<exists>e. hl_down (hs_healer w) = Some e) \<and>
       ((\<exists>k t. hl_state (hs_healer w) = Scheduled k t) \<or>
        hl_state (hs_healer w) = Exhausted \<and> heal_max_attempts s \<noteq> 0)) \<and>
    (all_failed \<and> heal_max_attempts s \<noteq> 0 \<longrightarrow>
       hl_heals (hs_healer w) + hl_heal_failures (hs_healer w) \<le> heal_max_attempts s)"
proof -
  have b: "bounded_settings s" using assms(2,3) by (simp add: bounded_settings_def)
  note r = source_run_inv [OF assms(1) b source_inv_new assms(4)]
  have z: "rebuilds (hs_healer (new_healing_source ops i s node)) = 0"
    "spent s (hl_state (hs_healer (new_healing_source ops i s node))) = 0"
    by (simp_all add: new_healing_source_def new_healer_def rebuilds_def)
  show ?thesis
    using r z spent_bound [of s "hl_state (hs_healer w)"]
    by (auto simp: source_inv_def down_state_def rebuilds_def)
qed

text \<open>A connector whose schema is its value and whose every call fails.\<close>

definition dead_source :: "(nat, nat, nat) source_ops" where
  "dead_source = \<lparr>src_schema = (\<lambda>i. i), src_next = (\<lambda>i. (Inl (Generic ''gone''), i)), src_estimated = (\<lambda>i. None),
     src_hint = (\<lambda>n i. i), src_finish = (\<lambda>i. (Inl (Generic ''gone''), i))\<rparr>"

definition rat_ops :: "rat f64_ops" where
  "rat_ops = \<lparr>of_u128 = of_nat, f_mul = (\<lambda>a b. a * b), f_add = (\<lambda>a b. a + b), f_powi = (\<lambda>x n. x ^ nat n), f_min = min,
     f_max = max, f_clamp = (\<lambda>x a b. max a (min x b)), f_less = (\<lambda>a b. a < b), f_zero = 0, f_tenth = 1 / 10,
     f_one = 1, f_two = 2, f_to_u64 = (\<lambda>x. nat \<lfloor>x\<rfloor>)\<rparr>"

definition tight_heal :: heal_settings where
  "tight_heal = default_heal\<lparr>after_failures := 1, heal_max_attempts := 1, heal_jitter := 0\<rparr>"

definition env_of :: "nat \<Rightarrow> nat saci_result \<Rightarrow> nat heal_env" where
  "env_of t answer = \<lparr>env_head = t, env_clock = \<lparr>ck_now = t, ck_ops = rat_ops, ck_draw = (\<lambda>_. 0)\<rparr>, env_build = answer\<rparr>"

lemma healing_source_bounded_witness:
  "snd (source_run (\<lambda>_. []) dead_source
       [Next_Batch (env_of 0 (Inr 4)), Request_Rows 9, Next_Batch (env_of (2 * 10 ^ 9) (Inr 5)), Next_Batch (env_of (9 * 10 ^ 9) (Inr 4))]
       (new_healing_source dead_source 4 tight_heal ''n'')) =
     \<lparr>hs_inner = None, hs_healer = (new_healer tight_heal Source_Role ''n'')\<lparr>hl_state := Exhausted,
        hl_down := Some ''rebuilt connector reports schema  but the workflow was validated against '',
        hl_heal_failures := 1\<rparr>, hs_schema = 4, hs_hint = Some 9\<rparr> \<and>
   hl_heals (hs_healer (snd (source_run (\<lambda>_. []) dead_source
       [Next_Batch (env_of 0 (Inr 4)), Request_Rows 9, Next_Batch (env_of (2 * 10 ^ 9) (Inr 5)), Next_Batch (env_of (9 * 10 ^ 9) (Inr 4))]
       (new_healing_source dead_source 4 tight_heal ''n'')))) \<le> 1"
proof -
  let ?evs = "[Next_Batch (env_of 0 (Inr 4)), Request_Rows 9, Next_Batch (env_of (2 * 10 ^ 9) (Inr 5)), Next_Batch (env_of (9 * 10 ^ 9) (Inr 4))]"
  let ?run = "source_run (\<lambda>_. []) dead_source ?evs (new_healing_source dead_source 4 tight_heal ''n'')"
  have d: "delay_for rat_ops (\<lambda>_. 0) tight_heal 1 = 10 ^ 9"
    by (simp add: delay_for_def tight_heal_def default_heal_def exponential_custom_def rat_ops_def
        backoff_millis_def as_millis_def from_millis_def MAX_BACKOFF_EXPONENT_def Let_def word_gt_0)
  have r: "?run = (True, \<lparr>hs_inner = None, hs_healer = (new_healer tight_heal Source_Role ''n'')\<lparr>hl_state := Exhausted,
        hl_down := Some ''rebuilt connector reports schema  but the workflow was validated against '',
        hl_heal_failures := 1\<rparr>, hs_schema = 4, hs_hint = Some 9\<rparr>)"
    using d
    by (simp add: source_call_def source_next_batch_def source_heal_if_due_def source_request_batch_rows_def
        new_healing_source_def new_healer_def dead_source_def env_of_def due_def failure_def schedule_def
        schema_mismatch_def build_failed_def next_u32_def Let_def) (simp add: tight_heal_def default_heal_def)
  have "schema_stable dead_source" by (simp add: schema_stable_def dead_source_def)
  moreover have "after_failures tight_heal < 2 ^ 32" "heal_max_attempts tight_heal < 2 ^ 32 - 1"
    by (simp_all add: tight_heal_def default_heal_def)
  ultimately have "hl_heals (hs_healer (snd ?run)) + hl_heal_failures (hs_healer (snd ?run)) \<le> heal_max_attempts tight_heal"
    using healing_source_bounded [OF _ _ _ r] r by (simp add: tight_heal_def)
  then show ?thesis using r by (simp add: tight_heal_def)
qed

section \<open>A broken sink is replaced\<close>

definition sink_writes ::
    "('s \<Rightarrow> string) \<Rightarrow> ('i, 'b, 's) sink_ops \<Rightarrow> ('i heal_env \<times> 'b) list \<Rightarrow> ('i, 's) healing_sink \<Rightarrow> ('i, 's) healing_sink" where
  "sink_writes shown ops calls w = fold (\<lambda>(env, b) w. snd (sink_write_batch shown ops env b w)) calls w"

lemma sink_writes_simps [simp]:
  "sink_writes shown ops [] w = w"
  "sink_writes shown ops (xs @ [(env, b)]) w = snd (sink_write_batch shown ops env b (sink_writes shown ops xs w))"
  by (simp_all add: sink_writes_def)

definition broken :: "('i, 'b, 's) sink_ops \<Rightarrow> 'i set \<Rightarrow> bool" where
  "broken ops B \<longleftrightarrow> (\<forall>i\<in>B. \<forall>b. \<exists>e i'. snk_write ops b i = (Inl e, i') \<and> i' \<in> B)"

text \<open>What a run of failures has led to.\<close>

definition failures_seen :: "heal_settings \<Rightarrow> nat \<Rightarrow> ('i heal_env \<times> 'b) list \<Rightarrow> heal_state" where
  "failures_seen s n calls =
     (if n = 0 then Healthy else if n < after_failures s then Failing n
      else Scheduled 1 (ck_now (env_clock (fst (last calls))) +
        delay_for (ck_ops (env_clock (fst (last calls)))) (ck_draw (env_clock (fst (last calls)))) s 1))"

lemma sink_writes_failing:
  assumes "broken ops B" "i \<in> B" "1 \<le> after_failures s" "after_failures s < 2 ^ 32" "length calls \<le> after_failures s"
  shows "\<exists>j\<in>B. hk_inner (sink_writes shown ops calls (new_healing_sink ops i s node)) = Some j \<and>
    hk_healer (sink_writes shown ops calls (new_healing_sink ops i s node)) =
      (new_healer s Sink_Role node)\<lparr>hl_state := failures_seen s (length calls) calls\<rparr> \<and>
    hk_schema (sink_writes shown ops calls (new_healing_sink ops i s node)) = snk_schema ops i"
  using assms(5)
proof (induction calls rule: rev_induct)
  case Nil
  then show ?case using assms(2) by (auto simp: new_healing_sink_def new_healer_def failures_seen_def)
next
  case (snoc c calls)
  obtain env b where c: "c = (env, b)" by fastforce
  let ?w = "sink_writes shown ops calls (new_healing_sink ops i s node)" let ?n = "length calls"
  have n: "?n < after_failures s" using snoc.prems by simp
  from snoc obtain j where j: "j \<in> B" "hk_inner ?w = Some j" "hk_schema ?w = snk_schema ops i"
    "hk_healer ?w = (new_healer s Sink_Role node)\<lparr>hl_state := failures_seen s ?n calls\<rparr>" by auto
  have st: "failures_seen s ?n calls = (if ?n = 0 then Healthy else Failing ?n)" using n by (simp add: failures_seen_def)
  have "due (env_head env) (hk_healer ?w) = None" using j(4) st by (simp add: due_def)
  then have heal: "sink_heal_if_due shown ops env ?w = ?w" by (simp add: sink_heal_if_due_def)
  obtain e j' where w: "snk_write ops b j = (Inl e, j')" "j' \<in> B" using assms(1) j(1) unfolding broken_def by blast
  have nx: "next_u32 ?n = ?n + 1" using n assms(4) by (simp add: next_u32_def)
  have "failure (env_clock env) (hk_healer ?w) =
      (new_healer s Sink_Role node)\<lparr>hl_state := failures_seen s (?n + 1) (calls @ [c])\<rparr>"
  proof (cases "?n = 0")
    case True
    have "heal_max_attempts s = 0 \<or> \<not> 1 > heal_max_attempts s" by auto
    then show ?thesis
      using j(4) st True assms(3)
      by (auto simp: failure_def schedule_def failures_seen_def new_healer_def c)
  next
    case False
    then show ?thesis
      using j(4) st n nx
      by (auto simp: failure_def schedule_def failures_seen_def new_healer_def c Let_def)
  qed
  then show ?case
    using w j by (simp add: c sink_write_batch_def heal Let_def)
qed

text \<open>
  C38. A broken sink comes back. If every write to an instance fails, then for as many calls as the
  configured number of failures nothing is rebuilt and each call goes to that instance, and the last of
  them schedules a rebuild. The first write past its deadline drops the instance and, when the
  factory answers with one of the same schema that accepts the batch, the write succeeds, the node
  is healthy and the dead letter queue's flag is raised; one rebuild was made.
\<close>

theorem broken_sink_replaced:
  assumes "broken ops B" "i \<in> B" "1 \<le> after_failures s" "after_failures s < 2 ^ 32" "length calls = after_failures s"
    and "w = sink_writes shown ops calls (new_healing_sink ops i s node)"
    and "ck_now ck + delay_for (ck_ops ck) (ck_draw ck) s 1 \<le> env_head env" "ck = env_clock (fst (last calls))"
    and "env_build env = Inr fresh" "snk_schema ops fresh = snk_schema ops i" "snk_write ops batch fresh = (Inr (), fresh')"
  shows "(\<forall>k\<le>after_failures s. \<exists>j\<in>B. hk_inner (sink_writes shown ops (take k calls) (new_healing_sink ops i s node)) = Some j) \<and>
    hl_heals (hk_healer w) = 0 \<and> hl_heal_failures (hk_healer w) = 0 \<and>
    sink_write_batch shown ops env batch w =
      (Inr (), w\<lparr>hk_inner := Some fresh', hk_healer := (new_healer s Sink_Role node)\<lparr>hl_recovered := True, hl_heals := 1\<rparr>\<rparr>)"
proof -
  have "\<exists>j\<in>B. hk_inner (sink_writes shown ops (take k calls) (new_healing_sink ops i s node)) = Some j"
    if "k \<le> after_failures s" for k
    using sink_writes_failing [OF assms(1-4), of "take k calls" shown node] that assms(5) by auto
  moreover obtain j where j: "hk_inner w = Some j" "hk_schema w = snk_schema ops i"
    "hk_healer w = (new_healer s Sink_Role node)\<lparr>hl_state := Scheduled 1 (ck_now ck + delay_for (ck_ops ck) (ck_draw ck) s 1)\<rparr>"
    using sink_writes_failing [OF assms(1-4), of calls shown node] assms(3,5,6,8) by (auto simp: failures_seen_def)
  moreover have "sink_write_batch shown ops env batch w =
      (Inr (), w\<lparr>hk_inner := Some fresh', hk_healer := (new_healer s Sink_Role node)\<lparr>hl_recovered := True, hl_heals := 1\<rparr>\<rparr>)"
    using j assms(7,9-11)
    by (simp add: sink_write_batch_def sink_heal_if_due_def due_def schema_mismatch_def built_def success_def
        new_healer_def Let_def)
  ultimately show ?thesis by (simp add: new_healer_def)
qed

text \<open>A sink whose instances below ten refuse every batch.\<close>

definition odd_sink :: "(nat, nat, nat) sink_ops" where
  "odd_sink = \<lparr>snk_schema = (\<lambda>i. 0), snk_write = (\<lambda>b i. (if i < 10 then Inl (Generic ''refused'') else Inr (), i)),
     snk_pending = (\<lambda>i. Some i), snk_finish = (\<lambda>i. (Inr (), i))\<rparr>"

lemma broken_sink_replaced_witness:
  "sink_write_batch (\<lambda>_. []) odd_sink (env_of (10 ^ 12) (Inr 20)) 7
     (sink_writes (\<lambda>_. []) odd_sink (replicate 3 (env_of 0 (Inr 4), 7)) (new_healing_sink odd_sink 4 default_heal ''n'')) =
   (Inr (), \<lparr>hk_inner = Some 20, hk_healer = (new_healer default_heal Sink_Role ''n'')\<lparr>hl_recovered := True, hl_heals := 1\<rparr>,
      hk_schema = 0\<rparr>)"
proof -
  let ?calls = "replicate 3 (env_of 0 (Inr 4), 7 :: nat)" let ?w = "sink_writes (\<lambda>_. []) odd_sink ?calls (new_healing_sink odd_sink 4 default_heal ''n'')"
  let ?ck = "env_clock (env_of 0 (Inr 4))"
  have b: "broken odd_sink {4}" by (simp add: broken_def odd_sink_def)
  have n: "length ?calls = after_failures default_heal" "1 \<le> after_failures default_heal" "after_failures default_heal < 2 ^ 32"
    by (simp_all add: default_heal_def)
  have d: "ck_now ?ck + delay_for (ck_ops ?ck) (ck_draw ?ck) default_heal 1 \<le> env_head (env_of (10 ^ 12) (Inr 20 :: nat saci_result))"
    by (simp add: env_of_def delay_for_def default_heal_def exponential_custom_def rat_ops_def
        backoff_millis_def as_millis_def from_millis_def MAX_BACKOFF_EXPONENT_def Let_def word_gt_0)
  have f: "env_build (env_of (10 ^ 12) (Inr 20)) = Inr 20" "snk_schema odd_sink 20 = snk_schema odd_sink 4"
    "snk_write odd_sink 7 20 = (Inr (), 20)" by (simp_all add: env_of_def odd_sink_def)
  have e: "?ck = env_clock (fst (last ?calls))" by simp
  have "hk_schema ?w = 0"
    using sink_writes_failing [OF b _ n(2,3), of 4 ?calls "\<lambda>_. []" "''n''"] n(1) by (auto simp: odd_sink_def)
  moreover note broken_sink_replaced [OF b _ n(2,3,1) refl d e f, where node = "''n''"]
  ultimately show ?thesis by simp
qed

end
