(* ===== verification/Framing.thy ===== *)
theory Framing
  imports Wire
begin

text \<open>
  The two framers of the HTTP connector, \<^verbatim>\<open>saci-connector-http/src/framing.rs\<close>, and the loops
  of \<^verbatim>\<open>source.rs\<close> that drain them chunk by chunk. A \<^verbatim>\<open>String\<close> is its UTF-8 bytes; a length is a
  natural number, a delay is in milliseconds.
\<close>

section \<open>Lines\<close>

definition LF :: u8 where "LF = 10"
definition CR :: u8 where "CR = 13"
definition COLON :: u8 where "COLON = 58"
definition SPACE :: u8 where "SPACE = 32"

datatype over_cap_error = OverCap

record line_framer =
  lf_buffer :: bytes
  lf_cap :: "nat option"

definition new_line_framer :: "nat option \<Rightarrow> line_framer" where
  "new_line_framer cap = \<lparr>lf_buffer = [], lf_cap = cap\<rparr>"

definition line_push :: "bytes \<Rightarrow> line_framer \<Rightarrow> line_framer" where
  "line_push chunk f = f\<lparr>lf_buffer := lf_buffer f @ chunk\<rparr>"

definition past :: "nat option \<Rightarrow> nat \<Rightarrow> bool" where
  "past cap n \<longleftrightarrow> (case cap of Some c \<Rightarrow> n > c | None \<Rightarrow> False)"

definition line_over_cap :: "line_framer \<Rightarrow> bool" where
  "line_over_cap f \<longleftrightarrow> past (lf_cap f) (length (lf_buffer f))"

text \<open>\<^verbatim>\<open>iter().position\<close>.\<close>

definition byte_position :: "('a \<Rightarrow> bool) \<Rightarrow> 'a list \<Rightarrow> nat option" where
  "byte_position P xs = (let k = length (takeWhile (\<lambda>x. \<not> P x) xs) in if k < length xs then Some k else None)"

definition strip_cr :: "bytes \<Rightarrow> bytes" where
  "strip_cr l = (if l \<noteq> [] \<and> last l = CR then butlast l else l)"

definition line_next :: "line_framer \<Rightarrow> (over_cap_error + bytes option) \<times> line_framer" where
  "line_next f =
     (case byte_position (\<lambda>b. b = LF) (lf_buffer f) of
        None \<Rightarrow> (Inr None, f)
      | Some k \<Rightarrow>
          if past (lf_cap f) k then (Inl OverCap, f)
          else (Inr (Some (strip_cr (take k (lf_buffer f)))), f\<lparr>lf_buffer := drop (k + 1) (lf_buffer f)\<rparr>))"

section \<open>Text\<close>

text \<open>\<^verbatim>\<open>String::from_utf8_lossy\<close>: the length of the next character, or of the bytes one replacement stands for.\<close>

definition second_ok :: "u8 \<Rightarrow> u8 \<Rightarrow> bool" where
  "second_ok b0 b1 \<longleftrightarrow>
     (if b0 = 0xE0 then 0xA0 \<le> b1 \<and> b1 \<le> 0xBF
      else if b0 = 0xED then 0x80 \<le> b1 \<and> b1 \<le> 0x9F
      else if b0 = 0xF0 then 0x90 \<le> b1 \<and> b1 \<le> 0xBF
      else if b0 = 0xF4 then 0x80 \<le> b1 \<and> b1 \<le> 0x8F
      else cont b1)"

fun utf8_unit :: "bytes \<Rightarrow> bool \<times> nat" where
  "utf8_unit [] = (True, 0)"
| "utf8_unit (b0 # rest) =
     (if b0 < 0x80 then (True, 1)
      else if 0xC2 \<le> b0 \<and> b0 \<le> 0xDF then
        (case rest of b1 # _ \<Rightarrow> if cont b1 then (True, 2) else (False, 1) | [] \<Rightarrow> (False, 1))
      else if 0xE0 \<le> b0 \<and> b0 \<le> 0xEF then
        (case rest of
           b1 # rest1 \<Rightarrow>
             if second_ok b0 b1
             then (case rest1 of b2 # _ \<Rightarrow> if cont b2 then (True, 3) else (False, 2) | [] \<Rightarrow> (False, 2))
             else (False, 1)
         | [] \<Rightarrow> (False, 1))
      else if 0xF0 \<le> b0 \<and> b0 \<le> 0xF4 then
        (case rest of
           b1 # rest1 \<Rightarrow>
             if second_ok b0 b1
             then (case rest1 of
                     b2 # rest2 \<Rightarrow>
                       if cont b2
                       then (case rest2 of b3 # _ \<Rightarrow> if cont b3 then (True, 4) else (False, 3) | [] \<Rightarrow> (False, 3))
                       else (False, 2)
                   | [] \<Rightarrow> (False, 2))
             else (False, 1)
         | [] \<Rightarrow> (False, 1))
      else (False, 1))"

lemma utf8_unit_pos: "bs \<noteq> [] \<Longrightarrow> 1 \<le> snd (utf8_unit bs)"
  by (cases bs) (auto split: list.splits)

function utf8_lossy :: "bytes \<Rightarrow> bytes" where
  "utf8_lossy bs =
     (if bs = [] then []
      else let (valid, n) = utf8_unit bs
        in (if valid then take n bs else [0xEF, 0xBF, 0xBD]) @ utf8_lossy (drop n bs))"
  by pat_completeness auto
termination
proof (relation "measure length", simp, goal_cases)
  case (1 bs x valid n)
  then have "1 \<le> n" using utf8_unit_pos [of bs] by (metis snd_conv)
  then show ?case using 1 by auto
qed

declare utf8_lossy.simps [simp del]

section \<open>Events\<close>

record sse_event =
  ev_event :: "bytes option"
  ev_data :: bytes

definition no_event :: sse_event where
  "no_event = \<lparr>ev_event = None, ev_data = []\<rparr>"

record event_framer =
  ef_buffer :: bytes
  ef_cap :: "nat option"
  ef_pending :: sse_event
  ef_has_data :: bool
  ef_id :: "bytes option"
  ef_last_id :: "bytes option"
  ef_retry :: "nat option"

definition new_event_framer :: "nat option \<Rightarrow> event_framer" where
  "new_event_framer cap = \<lparr>ef_buffer = [], ef_cap = cap, ef_pending = no_event, ef_has_data = False,
     ef_id = None, ef_last_id = None, ef_retry = None\<rparr>"

definition event_push :: "bytes \<Rightarrow> event_framer \<Rightarrow> event_framer" where
  "event_push chunk f = f\<lparr>ef_buffer := ef_buffer f @ chunk\<rparr>"

definition event_over_cap :: "event_framer \<Rightarrow> bool" where
  "event_over_cap f \<longleftrightarrow> past (ef_cap f) (length (ef_buffer f) + length (ev_data (ef_pending f)))"

definition take_retry :: "event_framer \<Rightarrow> nat option \<times> event_framer" where
  "take_retry f = (ef_retry f, f\<lparr>ef_retry := None\<rparr>)"

definition next_line :: "bytes \<Rightarrow> (bytes \<times> bytes) option" where
  "next_line buffer =
     (case byte_position (\<lambda>b. b = LF \<or> b = CR) buffer of
        None \<Rightarrow> None
      | Some k \<Rightarrow>
          if buffer ! k = CR \<and> k + 1 = length buffer then None
          else
            let skip = (if buffer ! k = CR \<and> k + 1 < length buffer \<and> buffer ! (k + 1) = LF then 2 else 1)
            in Some (take k buffer, drop (k + skip) buffer))"

definition split_field :: "bytes \<Rightarrow> bytes \<times> bytes" where
  "split_field line =
     (case byte_position (\<lambda>b. b = COLON) line of
        Some k \<Rightarrow>
          let v = drop (k + 1) line
          in (take k line, if v \<noteq> [] \<and> hd v = SPACE then tl v else v)
      | None \<Rightarrow> (line, []))"

definition ascii :: "string \<Rightarrow> bytes" where
  "ascii s = map (\<lambda>c. word_of_nat (of_char c)) s"

text \<open>The value of a \<^verbatim>\<open>retry\<close> field: ASCII digits that fit a \<^verbatim>\<open>u64\<close>.\<close>

definition retry_ms :: "bytes \<Rightarrow> nat option" where
  "retry_ms v =
     (if v \<noteq> [] \<and> (\<forall>b \<in> set v. 48 \<le> b \<and> b \<le> 57)
      then let n = foldl (\<lambda>n b. 10 * n + (unat b - 48)) 0 v in if n < 2 ^ 64 then Some n else None
      else None)"

text \<open>One line that is neither blank nor a comment; the flag tells that the data outgrew the cap.\<close>

definition field_line :: "bytes \<Rightarrow> event_framer \<Rightarrow> bool \<times> event_framer" where
  "field_line line f =
     (let (field, v) = split_field line in
      if field = ascii ''event'' then (False, f\<lparr>ef_pending := (ef_pending f)\<lparr>ev_event := Some (utf8_lossy v)\<rparr>\<rparr>)
      else if field = ascii ''data'' then
        let data = (if ef_has_data f then ev_data (ef_pending f) @ [LF] else ev_data (ef_pending f)) @ v
        in (past (ef_cap f) (length data), f\<lparr>ef_pending := (ef_pending f)\<lparr>ev_data := data\<rparr>, ef_has_data := True\<rparr>)
      else if field = ascii ''id'' \<and> 0 \<notin> set v then (False, f\<lparr>ef_id := Some (utf8_lossy v)\<rparr>)
      else if field = ascii ''retry'' then
        (False, case retry_ms v of Some ms \<Rightarrow> f\<lparr>ef_retry := Some ms\<rparr> | None \<Rightarrow> f)
      else (False, f))"

lemma byte_position_Some:
  "byte_position P xs = Some k \<longleftrightarrow> k < length xs \<and> P (xs ! k) \<and> (\<forall>j < k. \<not> P (xs ! j))"
proof -
  let ?k = "length (takeWhile (\<lambda>x. \<not> P x) xs)"
  have a: "?k < length xs \<Longrightarrow> P (xs ! ?k)" using nth_length_takeWhile [of "\<lambda>x. \<not> P x" xs] by simp
  have b: "j < ?k \<Longrightarrow> \<not> P (xs ! j)" for j
    using nth_mem [of j "takeWhile (\<lambda>x. \<not> P x) xs"] set_takeWhileD takeWhile_nth by metis
  show ?thesis
  proof
    assume "byte_position P xs = Some k"
    then show "k < length xs \<and> P (xs ! k) \<and> (\<forall>j<k. \<not> P (xs ! j))"
      using a b by (auto simp: byte_position_def Let_def split: if_splits)
  next
    assume k: "k < length xs \<and> P (xs ! k) \<and> (\<forall>j<k. \<not> P (xs ! j))"
    then have "?k \<le> k" using b [of k] by (meson not_le)
    then have "?k < length xs" using k by linarith
    then have "k = ?k" using k a \<open>?k \<le> k\<close> by (metis le_neq_implies_less)
    then show "byte_position P xs = Some k" using k by (simp add: byte_position_def Let_def)
  qed
qed

lemma next_line_shorter: "next_line b = Some (l, r) \<Longrightarrow> length r < length b"
  by (auto simp: next_line_def Let_def byte_position_Some split: option.splits if_splits)

lemma field_line_buffer [simp]: "ef_buffer (snd (field_line line f)) = ef_buffer f"
  by (auto simp: field_line_def Let_def split: prod.splits option.splits)

lemma field_line_pair: "(b, f') = field_line line f \<Longrightarrow> ef_buffer f' = ef_buffer f"
  using field_line_buffer [of line f] by (metis snd_conv)

function event_next :: "event_framer \<Rightarrow> (over_cap_error + sse_event option) \<times> event_framer" where
  "event_next f =
     (case next_line (ef_buffer f) of
        None \<Rightarrow> (Inr None, f)
      | Some (line, rest) \<Rightarrow>
          let f1 = f\<lparr>ef_buffer := rest\<rparr> in
          if line = [] then
            let f2 = f1\<lparr>ef_last_id := ef_id f1\<rparr> in
            if \<not> ef_has_data f2 then event_next (f2\<lparr>ef_pending := no_event\<rparr>)
            else (Inr (Some (ef_pending f2)), f2\<lparr>ef_has_data := False, ef_pending := no_event\<rparr>)
          else if hd line = COLON then event_next f1
          else
            case field_line line f1 of
              (True, f2) \<Rightarrow> (Inl OverCap, f2)
            | (False, f2) \<Rightarrow> event_next f2)"
  by pat_completeness auto

termination
  by (relation "measure (\<lambda>f. length (ef_buffer f))") (auto simp: next_line_shorter dest: field_line_pair)

declare event_next.simps [simp del]

section \<open>Draining a body\<close>

text \<open>
  The inner loops of \<^verbatim>\<open>source.rs\<close>: the frames handed over, whether a frame was refused, and the
  framer left. A blank line is no frame; an event without data or of another name is none.
\<close>

lemma line_next_shorter: "line_next f = (Inr (Some l), f') \<Longrightarrow> length (lf_buffer f') < length (lf_buffer f)"
  by (auto simp: line_next_def byte_position_Some split: option.splits if_splits)

function drain_lines :: "line_framer \<Rightarrow> bytes list \<times> bool \<times> line_framer" where
  "drain_lines f =
     (case line_next f of
        (Inr (Some line), f') \<Rightarrow>
          let (drained, refused, f'') = drain_lines f'
          in ((if line \<noteq> [] then [line] else []) @ drained, refused, f'')
      | (Inr None, f') \<Rightarrow> ([], False, f')
      | (Inl OverCap, f') \<Rightarrow> ([], True, f'))"
  by pat_completeness auto
termination by (relation "measure (\<lambda>f. length (lf_buffer f))") (auto simp: line_next_shorter dest: sym)

declare drain_lines.simps [simp del]

lemma event_next_shorter: "event_next f = (Inr (Some e), f') \<Longrightarrow> length (ef_buffer f') < length (ef_buffer f)"
proof (induction f rule: event_next.induct)
  case (1 f)
  show ?case
  proof (cases "next_line (ef_buffer f)")
    case None
    then show ?thesis using 1(4) by (subst (asm) event_next.simps) simp
  next
    case (Some p)
    obtain line rest where p: "p = (line, rest)" by fastforce
    have lt: "length rest < length (ef_buffer f)" using next_line_shorter Some p by simp
    obtain b f2 where fl: "field_line line (f\<lparr>ef_buffer := rest\<rparr>) = (b, f2)" by fastforce
    then have f2: "ef_buffer f2 = rest" using field_line_pair [OF fl [symmetric]] by simp
    note ih = 1(1-3) [OF Some [unfolded p] refl refl]
    show ?thesis
      using 1(4) lt f2 ih fl Some p
      by (subst (asm) event_next.simps) (auto simp: Let_def split: if_splits bool.splits dest: less_trans)
  qed
qed

function drain_events :: "bytes option \<Rightarrow> event_framer \<Rightarrow> bytes list \<times> bool \<times> event_framer" where
  "drain_events wanted_name f =
     (case event_next f of
        (Inr (Some e), f') \<Rightarrow>
          let wanted = (case wanted_name of None \<Rightarrow> True | Some n \<Rightarrow> ev_event e = Some n);
              (drained, refused, f'') = drain_events wanted_name f'
          in ((if wanted \<and> ev_data e \<noteq> [] then [ev_data e] else []) @ drained, refused, f'')
      | (Inr None, f') \<Rightarrow> ([], False, f')
      | (Inl OverCap, f') \<Rightarrow> ([], True, f'))"
  by pat_completeness auto
termination by (relation "measure (\<lambda>(_, f). length (ef_buffer f))") (auto simp: event_next_shorter dest: sym)

declare drain_events.simps [simp del]

text \<open>
  The loop over the chunks of a body, ending at the first refused frame; \<open>drain\<close>, \<open>push\<close> and
  \<open>over\<close> are those of the framer in use.
\<close>

fun read_body_chunks ::
    "('st \<Rightarrow> 'o list \<times> bool \<times> 'st) \<Rightarrow> (bytes \<Rightarrow> 'st \<Rightarrow> 'st) \<Rightarrow> ('st \<Rightarrow> bool) \<Rightarrow> bytes list \<Rightarrow> 'st
      \<Rightarrow> 'o list \<times> bool \<times> 'st" where
  "read_body_chunks drain push over [] s = ([], False, s)"
| "read_body_chunks drain push over (chunk # chunks) s =
     (let (drained, refused, s1) = drain (push chunk s) in
      if refused \<or> over s1 then (drained, True, s1)
      else let (more_frames, r, s2) = read_body_chunks drain push over chunks s1 in (drained @ more_frames, r, s2))"

definition read_lines :: "nat option \<Rightarrow> bytes list \<Rightarrow> bytes list \<times> bool \<times> line_framer" where
  "read_lines cap chunks = read_body_chunks drain_lines line_push line_over_cap chunks (new_line_framer cap)"

definition read_events :: "bytes option \<Rightarrow> nat option \<Rightarrow> bytes list \<Rightarrow> bytes list \<times> bool \<times> event_framer" where
  "read_events wanted_name cap chunks =
     read_body_chunks (drain_events wanted_name) event_push event_over_cap chunks (new_event_framer cap)"

text \<open>
  What the stream asked for, taken after every chunk: the reconnect delay and the id the next
  request echoes. \<open>header\<close> is \<^verbatim>\<open>HeaderValue::from_str\<close>.
\<close>

definition stream_advice ::
    "(bytes \<Rightarrow> bytes option) \<Rightarrow> event_framer \<Rightarrow> nat \<times> bytes option \<Rightarrow> (nat \<times> bytes option) \<times> event_framer" where
  "stream_advice header f rl =
     (let (reconnect, last_event_id) = rl; (retry, f') = take_retry f in
      ((case retry of Some ms \<Rightarrow> ms | None \<Rightarrow> reconnect,
        case ef_last_id f' of Some i \<Rightarrow> if i = [] then None else header i | None \<Rightarrow> last_event_id), f'))"

end
