(* ===== verification/Framing_Properties.thy ===== *)
theory Framing_Properties
  imports Framing
begin

text \<open>
  A framer hands out the same frames however the transport cuts the body into chunks. What a
  framer has to satisfy for that is a locale; both framers interpret it.
\<close>

section \<open>The interface of a framer\<close>

locale framing =
  fixes next_frame :: "'st \<Rightarrow> (over_cap_error + 'a option) \<times> 'st"
    and push :: "bytes \<Rightarrow> 'st \<Rightarrow> 'st"
    and over :: "'st \<Rightarrow> bool"
    and bytes_held :: "'st \<Rightarrow> nat"
    and handed :: "'a \<Rightarrow> 'o list"
    and drain :: "'st \<Rightarrow> 'o list \<times> bool \<times> 'st"
  assumes push_push: "push c (push b s) = push (b @ c) s"
    and push_Nil: "push [] s = s"
    and next_some: "next_frame s = (Inr (Some x), s') \<Longrightarrow>
      next_frame (push c s) = (Inr (Some x), push c s') \<and> bytes_held s' < bytes_held s"
    and next_none: "next_frame s = (Inr None, s') \<Longrightarrow>
      next_frame (push c s) = next_frame (push c s') \<and> next_frame s' = (Inr None, s')"
    and next_err: "next_frame s = (Inl e, s') \<Longrightarrow> \<exists>s''. next_frame (push c s) = (Inl e, s'')"
    and drain: "drain s =
      (case next_frame s of
         (Inr (Some x), s') \<Rightarrow> (let (d, r, s'') = drain s' in (handed x @ d, r, s''))
       | (Inr None, s') \<Rightarrow> ([], False, s')
       | (Inl OverCap, s') \<Rightarrow> ([], True, s'))"
begin

definition framed_settled where
  "framed_settled s \<longleftrightarrow> next_frame s = (Inr None, s)"

lemma drain_some:
  "next_frame s = (Inr (Some x), s') \<Longrightarrow> drain s' = (d, r, s'') \<Longrightarrow> drain s = (handed x @ d, r, s'')"
  by (simp add: drain [of s])

lemma drain_none: "next_frame s = (Inr None, s') \<Longrightarrow> drain s = ([], False, s')"
  by (simp add: drain [of s])

lemma drain_err: "next_frame s = (Inl e, s') \<Longrightarrow> drain s = ([], True, s')"
  by (cases e) (simp add: drain [of s])

lemma drain_cong: "next_frame s = next_frame t \<Longrightarrow> drain s = drain t"
  by (simp add: drain [of s] drain [of t])

lemma drain_settled: "framed_settled s \<Longrightarrow> drain s = ([], False, s)"
  by (simp add: framed_settled_def drain_none)

lemma drain_push:
  "drain s = (d, r, s') \<Longrightarrow>
     (if r then \<exists>s''. drain (push c s) = (d, True, s'')
      else framed_settled s' \<and> drain (push c s) = (let (d2, r2, s2) = drain (push c s') in (d @ d2, r2, s2)))"
proof (induction "bytes_held s" arbitrary: s d r s' rule: less_induct)
  case less
  obtain n t where n: "next_frame s = (n, t)" by fastforce
  show ?case
  proof (cases n)
    case (Inl e)
    then obtain t' where "next_frame (push c s) = (Inl e, t')" using next_err n by blast
    then have "drain (push c s) = ([], True, t')" by (rule drain_err)
    moreover have "drain s = ([], True, t)" using n Inl by (simp add: drain_err)
    then have "d = []" "r" using less.prems by simp_all
    ultimately show ?thesis by simp
  next
    case (Inr o')
    show ?thesis
    proof (cases o')
      case None
      have ns: "next_frame s = (Inr None, t)" using n Inr None by simp
      have dr: "d = []" "\<not> r" "s' = t" using less.prems drain_none [OF ns] by simp_all
      have nx: "next_frame (push c s) = next_frame (push c t)" and st: "framed_settled t"
        using next_none [OF ns, of c] unfolding framed_settled_def by blast+
      show ?thesis using dr st drain_cong [OF nx] by (cases "drain (push c t)") simp
    next
      case (Some x)
      obtain d1 r1 t1 where t: "drain t = (d1, r1, t1)" by (cases "drain t") auto
      have ns: "next_frame s = (Inr (Some x), t)" using n Inr Some by simp
      have p: "next_frame (push c s) = (Inr (Some x), push c t)" "bytes_held t < bytes_held s"
        using next_some [OF ns, of c] by blast+
      have e: "d = handed x @ d1" "r = r1" "s' = t1"
        using less.prems drain_some [OF ns t] by simp_all
      obtain d2 r2 s2 where q: "drain (push c t) = (d2, r2, s2)" by (cases "drain (push c t)") auto
      note dp = drain_some [OF p(1) q]
      note ih = less.hyps [OF p(2) t]
      show ?thesis
      proof (cases r1)
        case True
        then obtain s3 where "drain (push c t) = (d1, True, s3)" using ih by auto
        then show ?thesis using e True q dp by simp
      next
        case False
        obtain d3 r3 s3 where u: "drain (push c t1) = (d3, r3, s3)" by (cases "drain (push c t1)") auto
        show ?thesis using ih False e q dp u by simp
      qed
    qed
  qed
qed

text \<open>What was accepted in chunks is what the whole body drains to.\<close>

lemma read_whole:
  "framed_settled s \<Longrightarrow> read_body_chunks drain push over chunks s = (d, r, s') \<Longrightarrow>
     (if r then \<exists>d' r' s''. drain (push (concat chunks) s) = (d @ d', r', s'')
      else framed_settled s' \<and> drain (push (concat chunks) s) = (d, False, s'))"
proof (induction chunks arbitrary: s d r s')
  case Nil
  then show ?case by (simp add: push_Nil drain_settled)
next
  case (Cons c chunks)
  obtain d1 r1 s1 where c: "drain (push c s) = (d1, r1, s1)" by (cases "drain (push c s)") auto
  note dp = drain_push [OF c, of "concat chunks", unfolded push_push]
  show ?case
  proof (cases "r1 \<or> over s1")
    case True
    then have "d = d1" "r" using Cons.prems(2) c by simp_all
    then show ?thesis using dp by (cases r1) (auto split: prod.splits)
  next
    case False
    then obtain d2 s2 where rest: "read_body_chunks drain push over chunks s1 = (d2, r, s2)" "d = d1 @ d2" "s' = s2"
      using Cons.prems(2) c by (auto split: prod.splits)
    have "framed_settled s1" using dp False by simp
    from Cons.IH [OF this rest(1)] show ?thesis using dp False rest by (auto split: if_splits prod.splits)
  qed
qed

end

text \<open>A framer that measures its cap on the bytes of one frame only: what is left over and too long stays too long.\<close>

locale exact_framing = framing +
  assumes over_stays: "over s \<Longrightarrow> next_frame s = (Inr None, s) \<Longrightarrow>
    (\<exists>s'. next_frame (push c s) = (Inl OverCap, s')) \<or> next_frame (push c s) = (Inr None, push c s) \<and> over (push c s)"
begin

definition framed_outcome where
  "framed_outcome s = (let (d, r, s') = drain s in (d, r \<or> over s'))"

lemma read_outcome:
  "framed_settled s \<Longrightarrow> \<not> over s \<Longrightarrow>
     (let (d, r, s') = read_body_chunks drain push over chunks s in (d, r)) = framed_outcome (push (concat chunks) s)"
proof (induction chunks arbitrary: s)
  case Nil
  then show ?case by (simp add: push_Nil framed_outcome_def drain_settled)
next
  case (Cons c chunks)
  obtain d1 r1 s1 where c: "drain (push c s) = (d1, r1, s1)" by (cases "drain (push c s)") auto
  note dp = drain_push [OF c, of "concat chunks", unfolded push_push]
  show ?case
  proof (cases "r1 \<or> over s1")
    case True
    show ?thesis
    proof (cases r1)
      case r: True
      then show ?thesis using dp c by (auto simp: framed_outcome_def)
    next
      case r: False
      then have "framed_settled s1" "over s1" using dp True by simp_all
      then have "drain (push (concat chunks) s1) = ([], False, push (concat chunks) s1) \<and> over (push (concat chunks) s1) \<or>
          (\<exists>t. drain (push (concat chunks) s1) = ([], True, t))"
        using over_stays [of s1 "concat chunks"] drain_err drain_none unfolding framed_settled_def by blast
      then show ?thesis using dp c r \<open>over s1\<close> by (auto simp: framed_outcome_def)
    qed
  next
    case False
    then have "framed_settled s1" "\<not> over s1" using dp by simp_all
    from Cons.IH [OF this] show ?thesis
      using dp c False by (auto simp: framed_outcome_def split: prod.splits)
  qed
qed

end

section \<open>The line framer\<close>

lemma byte_position_None: "byte_position P xs = None \<longleftrightarrow> (\<forall>x \<in> set xs. \<not> P x)"
proof -
  have "length (takeWhile Q xs) < length xs \<longleftrightarrow> takeWhile Q xs \<noteq> xs" for Q
    using length_takeWhile_le [of Q xs] by (metis le_neq_implies_less less_irrefl take_all_iff takeWhile_eq_take)
  then show ?thesis by (auto simp: byte_position_def Let_def takeWhile_eq_all_conv)
qed

lemma byte_position_less: "byte_position P xs = Some k \<Longrightarrow> k < length xs"
  by (simp add: byte_position_Some)

lemma byte_position_append: "byte_position P xs = Some k \<Longrightarrow> byte_position P (xs @ ys) = Some k"
  by (auto simp: byte_position_Some nth_append)

lemma byte_position_append_None:
  "byte_position P xs = None \<Longrightarrow> byte_position P (xs @ ys) = map_option ((+) (length xs)) (byte_position P ys)"
proof -
  assume n: "byte_position P xs = None"
  have f: "\<not> P (xs ! j)" if "j < length xs" for j using n that by (simp add: byte_position_None)
  show ?thesis
  proof (cases "byte_position P ys")
    case None
    then have "byte_position P (xs @ ys) = None" using n by (auto simp: byte_position_None)
    then show ?thesis using None by simp
  next
    case (Some k)
    then have "byte_position P (xs @ ys) = Some (length xs + k)" using f by (auto simp: byte_position_Some nth_append)
    then show ?thesis using Some by simp
  qed
qed

definition line_handed :: "bytes \<Rightarrow> bytes list" where
  "line_handed line = (if line \<noteq> [] then [line] else [])"

interpretation lines: exact_framing line_next line_push line_over_cap "\<lambda>f. length (lf_buffer f)" line_handed drain_lines
proof
  fix b c :: bytes and f f' :: line_framer and x :: bytes and e
  show "line_push c (line_push b f) = line_push (b @ c) f" "line_push [] f = f" by (simp_all add: line_push_def)
  show "line_next f = (Inr (Some x), f') \<Longrightarrow>
      line_next (line_push c f) = (Inr (Some x), line_push c f') \<and> length (lf_buffer f') < length (lf_buffer f)"
    using line_next_shorter [of f x f']
    by (auto simp: line_next_def line_push_def byte_position_append dest: byte_position_less split: option.splits if_splits)
  show "line_next f = (Inr None, f') \<Longrightarrow>
      line_next (line_push c f) = line_next (line_push c f') \<and> line_next f' = (Inr None, f')"
    by (auto simp: line_next_def split: option.splits if_splits)
  show "line_next f = (Inl e, f') \<Longrightarrow> \<exists>f''. line_next (line_push c f) = (Inl e, f'')"
    by (auto simp: line_next_def line_push_def byte_position_append split: option.splits if_splits)
  show "drain_lines f =
      (case line_next f of
         (Inr (Some x), s') \<Rightarrow> (let (d, r, s'') = drain_lines s' in (line_handed x @ d, r, s''))
       | (Inr None, s') \<Rightarrow> ([], False, s')
       | (Inl OverCap, s') \<Rightarrow> ([], True, s'))"
    unfolding line_handed_def by (rule drain_lines.simps)
  show "line_over_cap f \<Longrightarrow> line_next f = (Inr None, f) \<Longrightarrow>
      (\<exists>s'. line_next (line_push c f) = (Inl OverCap, s')) \<or>
      line_next (line_push c f) = (Inr None, line_push c f) \<and> line_over_cap (line_push c f)"
    by (cases "byte_position (\<lambda>b. b = LF) c")
      (auto simp: line_next_def line_push_def line_over_cap_def past_def byte_position_append_None
        split: option.splits if_splits)
qed

text \<open>
  Line framing does not depend on how the transport cuts the body. Two ways to cut the same
  bytes into chunks hand over the same frames, and either both or neither end in the refusal of a
  line longer than the cap, whether that line came whole, grew over several chunks, or has not
  ended yet.
\<close>

theorem line_frames_chunk_free:
  assumes "concat chunks = concat chunks'"
  shows "fst (read_lines cap chunks) = fst (read_lines cap chunks') \<and>
    fst (snd (read_lines cap chunks)) = fst (snd (read_lines cap chunks'))"
proof -
  let ?f = "new_line_framer cap"
  have "lines.framed_settled ?f" "\<not> line_over_cap ?f"
    by (simp_all add: lines.framed_settled_def line_next_def new_line_framer_def byte_position_def line_over_cap_def past_def
        split: option.splits)
  from lines.read_outcome [OF this, of chunks] lines.read_outcome [OF this, of chunks'] assms
  show ?thesis by (simp add: read_lines_def case_prod_beta prod_eq_iff)
qed

section \<open>The event framer\<close>

lemma next_line_append: "next_line b = Some (l, r) \<Longrightarrow> next_line (b @ c) = Some (l, r @ c)"
proof -
  assume n: "next_line b = Some (l, r)"
  then obtain k where k: "byte_position (\<lambda>x. x = LF \<or> x = CR) b = Some k" by (auto simp: next_line_def split: option.splits)
  have lt: "k < length b" by (rule byte_position_less [OF k])
  have nth: "(b @ c) ! k = b ! k" using lt by (simp add: nth_append)
  show ?thesis
  proof (cases "b ! k = CR")
    case True
    then have "k + 1 < length b" using n k lt by (auto simp: next_line_def split: if_splits)
    moreover from this have "(b @ c) ! (k + 1) = b ! (k + 1)" by (simp add: nth_append)
    ultimately show ?thesis
      using n by (auto simp: next_line_def k byte_position_append [OF k] nth Let_def split: if_splits)
  next
    case False
    then show ?thesis using n lt by (auto simp: next_line_def k byte_position_append [OF k] nth Let_def)
  qed
qed

lemma event_push_fields [simp]:
  "ef_id (event_push c f) = ef_id f" "ef_has_data (event_push c f) = ef_has_data f"
  "ef_pending (event_push c f) = ef_pending f" "ef_cap (event_push c f) = ef_cap f"
  "ef_buffer (event_push c f) = ef_buffer f @ c"
  by (simp_all add: event_push_def)

lemma field_line_push: "field_line line (event_push c f) = (fst (field_line line f), event_push c (snd (field_line line f)))"
  by (auto simp: field_line_def event_push_def Let_def split: prod.splits option.splits)

lemma event_next_push:
  "event_next f = (res, f') \<Longrightarrow>
     (case res of
        Inr (Some e) \<Rightarrow> event_next (event_push c f) = (Inr (Some e), event_push c f')
      | Inr None \<Rightarrow> event_next (event_push c f) = event_next (event_push c f') \<and> event_next f' = (Inr None, f')
      | Inl e \<Rightarrow> event_next (event_push c f) = (Inl e, event_push c f'))"
proof (induction f rule: event_next.induct)
  case (1 f)
  show ?case
  proof (cases "next_line (ef_buffer f)")
    case None
    then have "event_next f = (Inr None, f)" by (subst event_next.simps) simp
    then show ?thesis using 1(4) by simp
  next
    case (Some p)
    obtain line rest where p: "p = (line, rest)" by fastforce
    have np: "next_line (ef_buffer (event_push c f)) = Some (line, rest @ c)"
      using next_line_append Some p by (simp add: event_push_def)
    let ?f1 = "f\<lparr>ef_buffer := rest\<rparr>"
    have f1: "(event_push c f)\<lparr>ef_buffer := rest @ c\<rparr> = event_push c ?f1" by (simp add: event_push_def)
    consider (skip) "line = []" "\<not> ef_has_data f" | (dispatch) "line = []" "ef_has_data f"
      | (comment) "line \<noteq> []" "hd line = COLON" | (field) "line \<noteq> []" "hd line \<noteq> COLON" by fastforce
    then show ?thesis
    proof cases
      case skip
      let ?g = "?f1\<lparr>ef_last_id := ef_id ?f1\<rparr>\<lparr>ef_pending := no_event\<rparr>"
      have "event_next f = event_next ?g" using Some p skip by (subst event_next.simps) (simp add: Let_def)
      then have g: "event_next ?g = (res, f')" using 1(4) by simp
      have "(event_push c ?f1)\<lparr>ef_last_id := ef_id f, ef_pending := no_event\<rparr> = event_push c ?g"
        by (rule event_framer.equality) (simp_all add: event_push_def)
      then have pg: "event_next (event_push c f) = event_next (event_push c ?g)"
        using np skip by (subst event_next.simps) (simp add: Let_def f1)
      have nd: "\<not> ef_has_data (?f1\<lparr>ef_last_id := ef_id ?f1\<rparr>)" using skip(2) by simp
      show ?thesis unfolding pg by (rule 1(1) [OF Some [unfolded p] refl refl skip(1) refl nd g])
    next
      case dispatch
      let ?e = "ef_pending f" let ?g = "?f1\<lparr>ef_last_id := ef_id f, ef_has_data := False, ef_pending := no_event\<rparr>"
      have "event_next f = (Inr (Some ?e), ?g)" using Some p dispatch by (subst event_next.simps) (simp add: Let_def)
      then have r: "res = Inr (Some ?e)" "f' = ?g" using 1(4) by simp_all
      have "(event_push c ?f1)\<lparr>ef_last_id := ef_id f, ef_has_data := False, ef_pending := no_event\<rparr> = event_push c ?g"
        by (rule event_framer.equality) (simp_all add: event_push_def)
      then have "event_next (event_push c f) = (Inr (Some ?e), event_push c ?g)"
        using np dispatch by (subst event_next.simps) (simp add: Let_def f1)
      then show ?thesis using r by simp
    next
      case comment
      have "event_next f = event_next ?f1" using Some p comment by (subst event_next.simps) (simp add: Let_def)
      then have g: "event_next ?f1 = (res, f')" using 1(4) by simp
      have pg: "event_next (event_push c f) = event_next (event_push c ?f1)"
        using np comment by (subst event_next.simps) (simp add: Let_def f1)
      show ?thesis unfolding pg by (rule 1(2) [OF Some [unfolded p] refl refl comment g])
    next
      case field
      obtain b f2 where fl: "field_line line ?f1 = (b, f2)" by fastforce
      have flp: "field_line line (event_push c ?f1) = (b, event_push c f2)" using field_line_push fl by simp
      show ?thesis
      proof (cases b)
        case True
        then have "event_next f = (Inl OverCap, f2)"
          using Some p field fl by (subst event_next.simps) (simp add: Let_def)
        moreover have "event_next (event_push c f) = (Inl OverCap, event_push c f2)"
          using True np field flp by (subst event_next.simps) (simp add: Let_def f1)
        ultimately show ?thesis using 1(4) by simp
      next
        case False
        then have "event_next f = event_next f2" using Some p field fl by (subst event_next.simps) (simp add: Let_def)
        then have g: "event_next f2 = (res, f')" using 1(4) by simp
        have pg: "event_next (event_push c f) = event_next (event_push c f2)"
          using False np field flp by (subst event_next.simps) (simp add: Let_def f1)
        have "(False, f2) = field_line line ?f1" using fl False by simp
        then show ?thesis unfolding pg by (rule 1(3) [OF Some [unfolded p] refl refl field _ refl g])
      qed
    qed
  qed
qed

definition event_handed :: "bytes option \<Rightarrow> sse_event \<Rightarrow> bytes list" where
  "event_handed wanted_name e =
     (if (case wanted_name of None \<Rightarrow> True | Some n \<Rightarrow> ev_event e = Some n) \<and> ev_data e \<noteq> [] then [ev_data e] else [])"

interpretation events: framing event_next event_push event_over_cap "\<lambda>f. length (ef_buffer f)"
  "event_handed wanted_name" "drain_events wanted_name" for wanted_name
proof
  fix b c :: bytes and f f' :: event_framer and x :: sse_event and e
  show "event_push c (event_push b f) = event_push (b @ c) f" "event_push [] f = f" by (simp_all add: event_push_def)
  show "event_next f = (Inr (Some x), f') \<Longrightarrow>
      event_next (event_push c f) = (Inr (Some x), event_push c f') \<and> length (ef_buffer f') < length (ef_buffer f)"
    using event_next_push [of f "Inr (Some x)" f' c] event_next_shorter [of f x f'] by simp
  show "event_next f = (Inr None, f') \<Longrightarrow>
      event_next (event_push c f) = event_next (event_push c f') \<and> event_next f' = (Inr None, f')"
    using event_next_push [of f "Inr None" f' c] by simp
  show "event_next f = (Inl e, f') \<Longrightarrow> \<exists>f''. event_next (event_push c f) = (Inl e, f'')"
    using event_next_push [of f "Inl e" f' c] by auto
  show "drain_events wanted_name f =
      (case event_next f of
         (Inr (Some x), s') \<Rightarrow> (let (d, r, s'') = drain_events wanted_name s' in (event_handed wanted_name x @ d, r, s''))
       | (Inr None, s') \<Rightarrow> ([], False, s')
       | (Inl OverCap, s') \<Rightarrow> ([], True, s'))"
    unfolding event_handed_def by (subst drain_events.simps, unfold Let_def) (rule refl)
qed

lemma event_next_cap:
  "event_next f = (res, f') \<Longrightarrow> ef_cap f' = ef_cap f \<and> (ef_cap f = None \<longrightarrow> (\<forall>e. res \<noteq> Inl e))"
proof (induction f rule: event_next.induct)
  case (1 f)
  show ?case
  proof (cases "next_line (ef_buffer f)")
    case None
    then have "event_next f = (Inr None, f)" by (subst event_next.simps) simp
    then show ?thesis using 1(4) by simp
  next
    case (Some p)
    obtain line rest where p: "p = (line, rest)" by fastforce
    obtain b f2 where fl: "field_line line (f\<lparr>ef_buffer := rest\<rparr>) = (b, f2)" by fastforce
    then have f2: "ef_cap f2 = ef_cap f \<and> (ef_cap f = None \<longrightarrow> \<not> b)"
      by (auto simp: field_line_def past_def Let_def split: prod.splits if_splits option.splits)
    note ih = 1(1-3) [OF Some [unfolded p] refl refl]
    show ?thesis
      using 1(4) f2 ih fl Some p
      by (subst (asm) event_next.simps) (auto simp: Let_def split: if_splits bool.splits)
  qed
qed

lemma drain_events_cap:
  "drain_events n f = (d, r, f') \<Longrightarrow> ef_cap f' = ef_cap f \<and> (ef_cap f = None \<longrightarrow> \<not> r)"
proof (induction n f arbitrary: d r f' rule: drain_events.induct)
  case (1 n f)
  obtain res g where g: "event_next f = (res, g)" by fastforce
  note c = event_next_cap [OF g]
  show ?case
  proof (cases res)
    case (Inl e)
    then show ?thesis using 1(2) g c by (cases e) (simp add: drain_events.simps [of n f])
  next
    case (Inr o')
    show ?thesis
    proof (cases o')
      case None
      then show ?thesis using 1(2) g c Inr by (simp add: drain_events.simps [of n f])
    next
      case (Some e)
      obtain d1 r1 g1 where t: "drain_events n g = (d1, r1, g1)" by (cases "drain_events n g") auto
      have "r = r1" "f' = g1" using 1(2) g Inr Some t by (simp_all add: drain_events.simps [of n f] Let_def)
      then show ?thesis using 1(1) [OF g [symmetric] Inr Some refl t] c by simp
    qed
  qed
qed

lemma read_events_uncapped:
  "ef_cap f = None \<Longrightarrow> \<not> fst (snd (read_body_chunks (drain_events n) event_push event_over_cap chunks f))"
proof (induction chunks arbitrary: f)
  case (Cons c chunks)
  obtain d r f1 where d: "drain_events n (event_push c f) = (d, r, f1)" by (cases "drain_events n (event_push c f)") auto
  then have "\<not> r" "ef_cap f1 = None"
    using drain_events_cap [OF d] Cons.prems by simp_all
  moreover have "\<not> event_over_cap f1" using \<open>ef_cap f1 = None\<close> by (simp add: event_over_cap_def past_def)
  ultimately show ?case using Cons.IH [of f1] d by (auto split: prod.splits)
qed simp

lemma read_body_chunks_over:
  "read_body_chunks drain push over chunks s = (d, False, s') \<Longrightarrow> \<not> over s \<Longrightarrow> \<not> over s'"
  by (induction chunks arbitrary: s d) (auto split: prod.splits if_splits)

text \<open>
  C39. Event framing does not depend on how the transport cuts the body, as long as nothing is
  refused: a body read in chunks without refusal gives exactly what reading it at once gives, the
  same events and the same framer at the end (the partial line and event, the last event id, the
  reconnect delay). If the chunked read is refused for its cap, what it handed over before that is a
  prefix of what the whole body hands over. Without a cap nothing is refused.
\<close>

theorem event_frames_chunk_free:
  "let whole = read_events wanted_name cap [concat chunks]; cut = read_events wanted_name cap chunks in
     (if fst (snd cut) then \<exists>later. fst whole = fst cut @ later else whole = cut) \<and>
     (cap = None \<longrightarrow> \<not> fst (snd cut))"
proof -
  let ?f = "new_event_framer cap"
  obtain d r f' where cut: "read_body_chunks (drain_events wanted_name) event_push event_over_cap chunks ?f = (d, r, f')"
    by (cases "read_body_chunks (drain_events wanted_name) event_push event_over_cap chunks ?f") auto
  have s: "events.framed_settled ?f"
    by (subst events.framed_settled_def, subst event_next.simps) (simp add: new_event_framer_def next_line_def byte_position_def)
  have nover: "\<not> event_over_cap ?f"
    by (simp add: event_over_cap_def past_def new_event_framer_def no_event_def split: option.splits)
  note w = events.read_whole [OF s cut]
  have nocap: "cap = None \<Longrightarrow> \<not> r"
    using read_events_uncapped [of ?f wanted_name chunks] cut by (simp add: new_event_framer_def)
  have e: "read_events wanted_name cap chunks = (d, r, f')" by (simp add: read_events_def cut)
  show ?thesis
  proof (cases r)
    case True
    then obtain d' r' f'' where "drain_events wanted_name (event_push (concat chunks) ?f) = (d @ d', r', f'')"
      using w by auto
    then show ?thesis using e True nocap by (auto simp: read_events_def Let_def)
  next
    case False
    then have "drain_events wanted_name (event_push (concat chunks) ?f) = (d, False, f')" "\<not> event_over_cap f'"
      using w read_body_chunks_over [OF cut [unfolded False [THEN eq_False [THEN iffD2]]] nover] by simp_all
    then show ?thesis using e False by (simp add: read_events_def Let_def)
  qed
qed

definition sample_body :: "nat \<Rightarrow> bytes list" where
  "sample_body k = [take k (ascii ''data: 12345678'' @ [LF, LF]), drop k (ascii ''data: 12345678'' @ [LF, LF])]"

lemma line_frames_chunk_free_witness:
  "fst (read_lines (Some 20) [[65, 66], [67, CR], [LF, LF, 68]]) = [[65, 66, 67]] \<and>
   fst (read_lines (Some 20) [[65, 66, 67, CR, LF, LF, 68]]) = [[65, 66, 67]]"
proof -
  have "concat [[65, 66], [67, CR], [LF, LF, 68]] = concat [[65, 66, 67, CR, LF, LF, 68]]" by simp
  from line_frames_chunk_free [OF this, of "Some 20"]
  have "fst (read_lines (Some 20) [[65, 66], [67, CR], [LF, LF, 68]]) = fst (read_lines (Some 20) [[65, 66, 67, CR, LF, LF, 68]])"
    by simp
  moreover have "fst (read_lines (Some 20) [[65, 66, 67, CR, LF, LF, 68]]) = [[65, 66, 67]]" by code_simp
  ultimately show ?thesis by simp
qed

text \<open>
  The cap of a partial event counts the bytes of the line it is still reading, the field name among
  them: an event of eight bytes is refused under a cap of ten when its line arrives without its end.
\<close>

lemma event_cap_counts_field_name:
  "fst (read_events None (Some 10) (sample_body 16)) = [ascii ''12345678''] \<and>
   fst (snd (read_events None (Some 10) (sample_body 16))) = False \<and>
   fst (snd (read_events None (Some 10) (sample_body 14))) = True"
  by code_simp

lemma event_frames_chunk_free_witness:
  "\<not> fst (snd (read_events None None (sample_body 14))) \<and>
   fst (read_events None None [concat (sample_body 14)]) = fst (read_events None None (sample_body 14)) \<and>
   fst (read_events None None (sample_body 14)) = [ascii ''12345678'']"
proof -
  have "fst (read_events None None (sample_body 14)) = [ascii ''12345678'']" by code_simp
  then show ?thesis using event_frames_chunk_free [of None None "sample_body 14"] by (auto simp: Let_def)
qed

end
