(* ===== verification/Pgoutput.thy ===== *)
theory Pgoutput
  imports Framing Texts
begin

text \<open>
  The decoder of logical replication messages, \<^verbatim>\<open>saci-connector-postgresql/src/source/pgoutput.rs\<close>.
  A \<^verbatim>\<open>String\<close> is its UTF-8 bytes, in an error text their characters; a signed integer is an
  \<open>int\<close>. The argument \<open>utf8_error\<close> is the \<^verbatim>\<open>Display\<close> of the error of \<^verbatim>\<open>str::from_utf8\<close>.
\<close>

section \<open>Messages\<close>

record relation_column =
  rc_name :: bytes
  rc_type_oid :: u32

record relation =
  rel_namespace :: bytes
  rel_name :: bytes
  rel_columns :: "relation_column list"

definition qualified_name :: "relation \<Rightarrow> bytes" where
  "qualified_name r = rel_namespace r @ ascii ''.'' @ rel_name r"

datatype tuple_value = Tv_Null | Tv_Unchanged | Tv_Binary bytes | Tv_Text bytes

datatype operation = Insert | Update | Delete

primrec operation_str :: "operation \<Rightarrow> string" where
  "operation_str Insert = ''I''"
| "operation_str Update = ''U''"
| "operation_str Delete = ''D''"

datatype pg_message =
    Begin int
  | Commit int
  | Relation_Msg u32
  | Change u32 operation "tuple_value list"
  | Truncate nat
  | Metadata

type_synonym pg_decoder = "u32 \<rightharpoonup> relation"

definition decoder_reset :: "pg_decoder \<Rightarrow> pg_decoder" where
  "decoder_reset d = Map.empty"

definition decoder_relation :: "pg_decoder \<Rightarrow> u32 \<Rightarrow> relation option" where
  "decoder_relation d rel_id = d rel_id"

section \<open>Texts of errors\<close>

definition text_of :: "bytes \<Rightarrow> string" where
  "text_of bs = map (\<lambda>b. char_of (unat b)) bs"

definition display_int :: "int \<Rightarrow> string" where
  "display_int i = (if i < 0 then ''-'' @ dec_string (nat (- i)) else dec_string (nat i))"

definition upper_hex :: "nat \<Rightarrow> char" where
  "upper_hex n = char_of (if n < 10 then 48 + n else 55 + n)"

definition hex02 :: "u8 \<Rightarrow> string" where
  "hex02 b = [upper_hex (unat b div 16), upper_hex (unat b mod 16)]"

text \<open>\<^verbatim>\<open>Debug\<close> of a \<^verbatim>\<open>char\<close> below 256, as UTF-8.\<close>

definition char_debug :: "u8 \<Rightarrow> string" where
  "char_debug b =
     quoted
       (if b = 0 then [CHR 0x5C, CHR 0x30]
        else if b = 9 then [CHR 0x5C, CHR 0x74]
        else if b = 10 then [CHR 0x5C, CHR 0x6E]
        else if b = 13 then [CHR 0x5C, CHR 0x72]
        else if b = 0x27 \<or> b = 0x5C then [CHR 0x5C, char_of (unat b)]
        else if b < 16 then [CHR 0x5C] @ ''u{'' @ [hex_digit (unat b)] @ ''}''
        else if b < 32 \<or> 0x7F \<le> b \<and> b \<le> 0xA0 \<or> b = 0xAD then [CHR 0x5C] @ ''u{'' @ hex_byte b @ ''}''
        else if b < 0x80 then [char_of (unat b)]
        else [char_of (192 + unat b div 64), char_of (128 + unat b mod 64)])"

section \<open>The reader\<close>

record reader =
  rd_raw :: bytes
  rd_pos :: nat

definition new_reader :: "bytes \<Rightarrow> reader" where
  "new_reader raw = \<lparr>rd_raw = raw, rd_pos = 0\<rparr>"

definition remaining :: "reader \<Rightarrow> nat" where
  "remaining r = length (rd_raw r) - rd_pos r"

definition reader_truncated :: "nat \<Rightarrow> reader \<Rightarrow> saci_error" where
  "reader_truncated wanted r =
     Generic (''pgoutput: message is truncated: wanted '' @ dec_string wanted @ '' byte(s) at offset '' @
       dec_string (rd_pos r) @ '', '' @ dec_string (remaining r) @ '' remain'')"

type_synonym 'a reads = "reader \<Rightarrow> ('a \<times> reader) saci_result"

definition take_bytes :: "nat \<Rightarrow> bytes reads" where
  "take_bytes n r =
     (if rd_pos r + n \<ge> 2 ^ 64 then Inl (reader_truncated n r)
      else if rd_pos r + n > length (rd_raw r) then Inl (reader_truncated n r)
      else Inr (take n (drop (rd_pos r) (rd_raw r)), r\<lparr>rd_pos := rd_pos r + n\<rparr>))"

definition then_read :: "'a reads \<Rightarrow> ('a \<Rightarrow> 'b reads) \<Rightarrow> 'b reads" where
  "then_read p f r = res_bind (p r) (\<lambda>(v, r'). f v r')"

definition give :: "'a \<Rightarrow> 'a reads" where
  "give v r = Inr (v, r)"

definition refuse :: "saci_error \<Rightarrow> 'a reads" where
  "refuse e r = Inl e"

definition read_u8 :: "u8 reads" where
  "read_u8 = then_read (take_bytes 1) (\<lambda>bs. give (hd bs))"

definition read_i16 :: "int reads" where
  "read_i16 = then_read (take_bytes 2) (\<lambda>bs. give (sint (word_of_nat (from_be_bytes bs) :: 16 word)))"

definition read_i32 :: "int reads" where
  "read_i32 = then_read (take_bytes 4) (\<lambda>bs. give (sint (word_of_nat (from_be_bytes bs) :: 32 word)))"

definition read_u32 :: "u32 reads" where
  "read_u32 = then_read (take_bytes 4) (\<lambda>bs. give (u32_from_be bs))"

definition read_i64 :: "int reads" where
  "read_i64 = then_read (take_bytes 8) (\<lambda>bs. give (sint (word_of_nat (from_be_bytes bs) :: 64 word)))"

definition read_cstring :: "(bytes \<Rightarrow> string) \<Rightarrow> bytes reads" where
  "read_cstring utf8_error r =
     (case byte_position (\<lambda>b. b = 0) (drop (rd_pos r) (rd_raw r)) of
        None \<Rightarrow> Inl (Generic (''pgoutput: unterminated string at offset '' @ dec_string (rd_pos r)))
      | Some n \<Rightarrow>
          let text = take n (drop (rd_pos r) (rd_raw r)) in
          if valid_utf8 text then Inr (text, r\<lparr>rd_pos := rd_pos r + n + 1\<rparr>)
          else Inl (Generic (''pgoutput: string at offset '' @ dec_string (rd_pos r) @ '' is not valid UTF-8: '' @ utf8_error text)))"

text \<open>\<^verbatim>\<open>for _ in 0..n\<close> around a read; the count goes up for the texts of errors.\<close>

fun read_many :: "(nat \<Rightarrow> 'a reads) \<Rightarrow> nat \<Rightarrow> nat \<Rightarrow> 'a list reads" where
  "read_many p index 0 = give []"
| "read_many p index (Suc n) =
     then_read (p index) (\<lambda>v. then_read (read_many p (index + 1) n) (\<lambda>vs. give (v # vs)))"

definition read_tuple_value :: "nat \<Rightarrow> tuple_value reads" where
  "read_tuple_value index =
     then_read read_u8 (\<lambda>kind.
       if kind = 110 then give Tv_Null
       else if kind = 117 then give Tv_Unchanged
       else if kind = 116 \<or> kind = 98 then
         then_read read_i32 (\<lambda>len.
           if len < 0
           then refuse (Generic (''pgoutput: TupleData column '' @ dec_string index @ '' declares length '' @ display_int len))
           else then_read (take_bytes (nat len)) (\<lambda>bs. give (if kind = 98 then Tv_Binary bs else Tv_Text bs)))
       else refuse (Generic (''pgoutput: TupleData column '' @ dec_string index @ '' has marker '' @ char_debug kind @
         '' (0x'' @ hex02 kind @ '')'')))"

definition read_tuple :: "tuple_value list reads" where
  "read_tuple =
     then_read read_i16 (\<lambda>ncols.
       if ncols < 0 then refuse (Generic (''pgoutput: TupleData declares '' @ display_int ncols @ '' columns''))
       else read_many read_tuple_value 0 (nat ncols))"

section \<open>The decoder\<close>

definition expect_marker :: "u8 \<Rightarrow> string \<Rightarrow> unit reads" where
  "expect_marker expected what =
     then_read read_u8 (\<lambda>marker.
       if marker \<noteq> expected
       then refuse (Generic (''pgoutput: '' @ what @ '' message has tuple marker '' @ char_debug marker @
         '', expected '' @ char_debug expected))
       else give ())"

definition read_column :: "(bytes \<Rightarrow> string) \<Rightarrow> nat \<Rightarrow> relation_column reads" where
  "read_column utf8_error index =
     then_read read_u8 (\<lambda>flags. then_read (read_cstring utf8_error) (\<lambda>column_name.
     then_read read_u32 (\<lambda>type_oid. then_read read_i32 (\<lambda>type_modifier.
       give \<lparr>rc_name = column_name, rc_type_oid = type_oid\<rparr>))))"

definition read_relation :: "(bytes \<Rightarrow> string) \<Rightarrow> (u32 \<times> relation) reads" where
  "read_relation utf8_error =
     then_read read_u32 (\<lambda>rel_id. then_read (read_cstring utf8_error) (\<lambda>namespace.
     then_read (read_cstring utf8_error) (\<lambda>name. then_read read_u8 (\<lambda>replica_identity.
     then_read read_i16 (\<lambda>ncols.
       if ncols < 0
       then refuse (Generic (''pgoutput: Relation message for '' @ quoted (text_of namespace @ ''.'' @ text_of name) @
         '' declares '' @ display_int ncols @ '' columns''))
       else then_read (read_many (read_column utf8_error) 0 (nat ncols)) (\<lambda>columns.
         give (rel_id, \<lparr>rel_namespace = (if namespace = [] then ascii ''public'' else namespace),
           rel_name = name, rel_columns = columns\<rparr>)))))))"

definition read_update :: "pg_message reads" where
  "read_update =
     then_read read_u32 (\<lambda>rel_id. then_read read_u8 (\<lambda>first.
     then_read
       (if first = 75 \<or> first = 79 then then_read read_tuple (\<lambda>old. read_u8) else give first)
       (\<lambda>marker.
          if marker \<noteq> 78
          then refuse (Generic (''pgoutput: Update message has tuple marker '' @ char_debug marker @ '', expected '' @ quoted ''N''))
          else then_read read_tuple (\<lambda>tuple. give (Change rel_id Update tuple)))))"

definition read_delete :: "pg_message reads" where
  "read_delete =
     then_read read_u32 (\<lambda>rel_id. then_read read_u8 (\<lambda>marker.
       if marker \<noteq> 75 \<and> marker \<noteq> 79
       then refuse (Generic (''pgoutput: Delete message has tuple marker '' @ char_debug marker @ '', expected '' @ quoted ''K'' @ '' or '' @ quoted ''O''))
       else then_read read_tuple (\<lambda>tuple. give (Change rel_id Delete tuple))))"

definition read_truncate :: "pg_message reads" where
  "read_truncate =
     then_read read_i32 (\<lambda>nrels. then_read read_u8 (\<lambda>flags.
       if nrels < 0 then refuse (Generic (''pgoutput: Truncate message declares '' @ display_int nrels @ '' relations''))
       else then_read (read_many (\<lambda>_. read_u32) 0 (nat nrels)) (\<lambda>rels. give (Truncate (nat nrels)))))"

text \<open>The message after its tag, and the relation a \<^verbatim>\<open>Relation\<close> message declares.\<close>

definition read_body :: "(bytes \<Rightarrow> string) \<Rightarrow> u8 \<Rightarrow> (pg_message \<times> (u32 \<times> relation) option) reads" where
  "read_body utf8_error tag =
     (if tag = 66 then
        then_read read_i64 (\<lambda>final_lsn. then_read read_i64 (\<lambda>commit_ts. then_read read_i32 (\<lambda>xid.
          give (Begin commit_ts, None))))
      else if tag = 67 then
        then_read read_u8 (\<lambda>flags. then_read read_i64 (\<lambda>commit_lsn. then_read read_i64 (\<lambda>end_lsn.
        then_read read_i64 (\<lambda>commit_ts. give (Commit end_lsn, None)))))
      else if tag = 82 then
        then_read (read_relation utf8_error) (\<lambda>(rel_id, rel). give (Relation_Msg rel_id, Some (rel_id, rel)))
      else if tag = 89 then
        then_read read_u32 (\<lambda>type_id. then_read (read_cstring utf8_error) (\<lambda>namespace.
        then_read (read_cstring utf8_error) (\<lambda>name. give (Metadata, None))))
      else if tag = 79 then
        then_read read_i64 (\<lambda>commit_lsn. then_read (read_cstring utf8_error) (\<lambda>origin. give (Metadata, None)))
      else if tag = 73 then
        then_read read_u32 (\<lambda>rel_id. then_read (expect_marker 78 ''Insert'') (\<lambda>_.
        then_read read_tuple (\<lambda>tuple. give (Change rel_id Insert tuple, None))))
      else if tag = 85 then then_read read_update (\<lambda>m. give (m, None))
      else if tag = 68 then then_read read_delete (\<lambda>m. give (m, None))
      else if tag = 84 then then_read read_truncate (\<lambda>m. give (m, None))
      else refuse (Generic (''pgoutput: unknown message tag '' @ char_debug tag @ '' (0x'' @ hex02 tag @
        ''); this connector requests proto_version 1 without streaming, two-phase commit or logical messages'')))"

text \<open>The relation is stored before the check for bytes that are left.\<close>

definition pg_decode :: "(bytes \<Rightarrow> string) \<Rightarrow> pg_decoder \<Rightarrow> bytes \<Rightarrow> pg_message saci_result \<times> pg_decoder" where
  "pg_decode utf8_error d raw =
     (case read_u8 (new_reader raw) of
        Inl e \<Rightarrow> (Inl e, d)
      | Inr (tag, r) \<Rightarrow>
          (case read_body utf8_error tag r of
             Inl e \<Rightarrow> (Inl e, d)
           | Inr ((message, declared), r') \<Rightarrow>
               let d' = (case declared of Some (rel_id, rel) \<Rightarrow> d(rel_id \<mapsto> rel) | None \<Rightarrow> d) in
               if remaining r' \<noteq> 0
               then (Inl (Generic (''pgoutput: message tag '' @ char_debug tag @ '' left '' @ dec_string (remaining r') @
                 '' undecoded byte(s)'')), d')
               else (Inr message, d')))"

end
