(* ===== verification/Pgoutput_Properties.thy ===== *)
theory Pgoutput_Properties
  imports Pgoutput
begin

text \<open>
  The byte layout of the \<^verbatim>\<open>pgoutput\<close> messages, stated as an encoder, and the decoder against it:
  what the decoder accepts is what the encoder writes, and it returns what was written. The
  predicate \<open>reads_as\<close> says which bytes a read consumes for which value; it composes over the
  sequencing of reads.
\<close>

section \<open>The layout\<close>

record wire_column =
  wc_flags :: u8
  wc_name :: bytes
  wc_type_oid :: u32
  wc_modifier :: u32

datatype wire_message =
    W_Begin u64 u64 u32
  | W_Commit u8 u64 u64 u64
  | W_Relation u32 bytes bytes u8 "wire_column list"
  | W_Type u32 bytes bytes
  | W_Origin u64 bytes
  | W_Insert u32 "tuple_value list"
  | W_Update u32 "(u8 \<times> tuple_value list) option" "tuple_value list"
  | W_Delete u32 u8 "tuple_value list"
  | W_Truncate u8 "u32 list"

definition cstring_bytes :: "bytes \<Rightarrow> bytes" where "cstring_bytes s = s @ [0]"

definition cstring_ok :: "bytes \<Rightarrow> bool" where "cstring_ok s \<longleftrightarrow> 0 \<notin> set s \<and> valid_utf8 s"

fun value_bytes :: "tuple_value \<Rightarrow> bytes" where
  "value_bytes Tv_Null = [110]"
| "value_bytes Tv_Unchanged = [117]"
| "value_bytes (Tv_Text bs) = 116 # be_bytes 4 (length bs) @ bs"
| "value_bytes (Tv_Binary bs) = 98 # be_bytes 4 (length bs) @ bs"

fun value_ok :: "tuple_value \<Rightarrow> bool" where
  "value_ok (Tv_Text bs) \<longleftrightarrow> length bs < 2 ^ 31"
| "value_ok (Tv_Binary bs) \<longleftrightarrow> length bs < 2 ^ 31"
| "value_ok _ \<longleftrightarrow> True"

definition tuple_bytes :: "tuple_value list \<Rightarrow> bytes" where
  "tuple_bytes vs = be_bytes 2 (length vs) @ concat (map value_bytes vs)"

definition tuple_ok :: "tuple_value list \<Rightarrow> bool" where
  "tuple_ok vs \<longleftrightarrow> length vs < 2 ^ 15 \<and> list_all value_ok vs"

definition column_bytes :: "wire_column \<Rightarrow> bytes" where
  "column_bytes c = wc_flags c # cstring_bytes (wc_name c) @ u32_be (wc_type_oid c) @ u32_be (wc_modifier c)"

definition column_of :: "wire_column \<Rightarrow> relation_column" where
  "column_of c = \<lparr>rc_name = wc_name c, rc_type_oid = wc_type_oid c\<rparr>"

fun wire_bytes :: "wire_message \<Rightarrow> bytes" where
  "wire_bytes (W_Begin final_lsn ts xid) = 66 # u64_be final_lsn @ u64_be ts @ u32_be xid"
| "wire_bytes (W_Commit flags commit_lsn end_lsn ts) = 67 # flags # u64_be commit_lsn @ u64_be end_lsn @ u64_be ts"
| "wire_bytes (W_Relation rel_id ns name ident cols) =
     82 # u32_be rel_id @ cstring_bytes ns @ cstring_bytes name @ ident # be_bytes 2 (length cols) @
       concat (map column_bytes cols)"
| "wire_bytes (W_Type type_id ns name) = 89 # u32_be type_id @ cstring_bytes ns @ cstring_bytes name"
| "wire_bytes (W_Origin lsn name) = 79 # u64_be lsn @ cstring_bytes name"
| "wire_bytes (W_Insert rel_id t) = 73 # u32_be rel_id @ 78 # tuple_bytes t"
| "wire_bytes (W_Update rel_id None t) = 85 # u32_be rel_id @ 78 # tuple_bytes t"
| "wire_bytes (W_Update rel_id (Some (key, old)) t) =
     85 # u32_be rel_id @ key # tuple_bytes old @ 78 # tuple_bytes t"
| "wire_bytes (W_Delete rel_id key t) = 68 # u32_be rel_id @ key # tuple_bytes t"
| "wire_bytes (W_Truncate flags rels) = 84 # be_bytes 4 (length rels) @ flags # concat (map u32_be rels)"

fun wire_ok :: "wire_message \<Rightarrow> bool" where
  "wire_ok (W_Relation rel_id ns name ident cols) \<longleftrightarrow>
     cstring_ok ns \<and> cstring_ok name \<and> length cols < 2 ^ 15 \<and> list_all (\<lambda>c. cstring_ok (wc_name c)) cols"
| "wire_ok (W_Type type_id ns name) \<longleftrightarrow> cstring_ok ns \<and> cstring_ok name"
| "wire_ok (W_Origin lsn name) \<longleftrightarrow> cstring_ok name"
| "wire_ok (W_Insert rel_id t) \<longleftrightarrow> tuple_ok t"
| "wire_ok (W_Update rel_id None t) \<longleftrightarrow> tuple_ok t"
| "wire_ok (W_Update rel_id (Some (key, old)) t) \<longleftrightarrow> (key = 75 \<or> key = 79) \<and> tuple_ok old \<and> tuple_ok t"
| "wire_ok (W_Delete rel_id key t) \<longleftrightarrow> (key = 75 \<or> key = 79) \<and> tuple_ok t"
| "wire_ok (W_Truncate flags rels) \<longleftrightarrow> length rels < 2 ^ 31"
| "wire_ok _ \<longleftrightarrow> True"

text \<open>What a message tells, and the relation it declares.\<close>

fun wire_meaning :: "wire_message \<Rightarrow> pg_message" where
  "wire_meaning (W_Begin final_lsn ts xid) = Begin (sint ts)"
| "wire_meaning (W_Commit flags commit_lsn end_lsn ts) = Commit (sint end_lsn)"
| "wire_meaning (W_Relation rel_id ns name ident cols) = Relation_Msg rel_id"
| "wire_meaning (W_Insert rel_id t) = Change rel_id Insert t"
| "wire_meaning (W_Update rel_id old t) = Change rel_id Update t"
| "wire_meaning (W_Delete rel_id key t) = Change rel_id Delete t"
| "wire_meaning (W_Truncate flags rels) = Truncate (length rels)"
| "wire_meaning _ = Metadata"

fun wire_declares :: "wire_message \<Rightarrow> (u32 \<times> relation) option" where
  "wire_declares (W_Relation rel_id ns name ident cols) =
     Some (rel_id, \<lparr>rel_namespace = (if ns = [] then ascii ''public'' else ns), rel_name = name,
       rel_columns = map column_of cols\<rparr>)"
| "wire_declares _ = None"

section \<open>Reads\<close>

definition reader_ok :: "reader \<Rightarrow> bool" where
  "reader_ok r \<longleftrightarrow> rd_pos r \<le> length (rd_raw r) \<and> length (rd_raw r) < 2 ^ 63"

definition follows :: "reader \<Rightarrow> bytes \<Rightarrow> reader \<Rightarrow> bool" where
  "follows r bs r' \<longleftrightarrow> rd_raw r' = rd_raw r \<and> rd_pos r' = rd_pos r + length bs \<and>
     (\<exists>rest. drop (rd_pos r) (rd_raw r) = bs @ rest)"

definition reads_as :: "'a reads \<Rightarrow> ('a \<Rightarrow> bytes \<Rightarrow> bool) \<Rightarrow> bool" where
  "reads_as p G \<longleftrightarrow> (\<forall>r v r'. reader_ok r \<longrightarrow> (p r = Inr (v, r') \<longleftrightarrow> (\<exists>bs. G v bs \<and> follows r bs r')))"

lemma reads_asI:
  "(\<And>r v r'. reader_ok r \<Longrightarrow> p r = Inr (v, r') \<longleftrightarrow> (\<exists>bs. G v bs \<and> follows r bs r')) \<Longrightarrow> reads_as p G"
  by (simp add: reads_as_def)

lemma reads_asD:
  "reads_as p G \<Longrightarrow> reader_ok r \<Longrightarrow> p r = Inr (v, r') \<longleftrightarrow> (\<exists>bs. G v bs \<and> follows r bs r')"
  by (simp add: reads_as_def)

lemma follows_ok:
  assumes "reader_ok r" "follows r bs r'"
  shows "reader_ok r'"
proof -
  obtain rest where "drop (rd_pos r) (rd_raw r) = bs @ rest" using assms(2) by (auto simp: follows_def)
  then have "length (rd_raw r) - rd_pos r = length bs + length rest"
    by (metis length_append length_drop)
  then show ?thesis using assms by (auto simp: reader_ok_def follows_def)
qed

lemma follows_Nil: "follows r [] r' \<longleftrightarrow> r' = r"
  by (cases r; cases r') (auto simp: follows_def)

lemma drop_prefix: "drop n xs = a @ ys \<Longrightarrow> drop (n + length a) xs = ys"
proof -
  assume d: "drop n xs = a @ ys"
  have "drop (n + length a) xs = drop (length a) (drop n xs)" by (simp add: add.commute)
  then show ?thesis using d by simp
qed

lemma follows_append: "follows r (a @ b) r'' \<longleftrightarrow> (\<exists>r'. follows r a r' \<and> follows r' b r'')"
proof
  assume f: "follows r (a @ b) r''"
  then obtain rest where d: "drop (rd_pos r) (rd_raw r) = a @ b @ rest" by (auto simp: follows_def)
  have "follows r a (r\<lparr>rd_pos := rd_pos r + length a\<rparr>)" using d by (simp add: follows_def)
  moreover have "follows (r\<lparr>rd_pos := rd_pos r + length a\<rparr>) b r''"
    using f drop_prefix [OF d] by (simp add: follows_def)
  ultimately show "\<exists>r'. follows r a r' \<and> follows r' b r''" by blast
next
  assume "\<exists>r'. follows r a r' \<and> follows r' b r''"
  then obtain r' rest rest' where d: "drop (rd_pos r) (rd_raw r) = a @ rest"
    "drop (rd_pos r + length a) (rd_raw r) = b @ rest'" and
    f: "rd_raw r'' = rd_raw r" "rd_pos r'' = rd_pos r + length a + length b"
    by (auto simp: follows_def)
  have "rest = b @ rest'" using d(2) drop_prefix [OF d(1)] by simp
  then show "follows r (a @ b) r''" using d(1) f by (simp add: follows_def)
qed

section \<open>Composition\<close>

lemma reads_as_cong: "reads_as p G \<Longrightarrow> (\<And>v bs. G v bs \<longleftrightarrow> H v bs) \<Longrightarrow> reads_as p H"
  by (simp add: reads_as_def)

lemma reads_give: "reads_as (give v) (\<lambda>x bs. x = v \<and> bs = [])"
  by (rule reads_asI) (auto simp: give_def follows_Nil)

lemma reads_refuse: "reads_as (refuse e) (\<lambda>x bs. False)"
  by (rule reads_asI) (simp add: refuse_def)

lemma reads_if:
  "(c \<Longrightarrow> reads_as p G) \<Longrightarrow> (\<not> c \<Longrightarrow> reads_as q H) \<Longrightarrow>
     reads_as (if c then p else q) (\<lambda>x bs. if c then G x bs else H x bs)"
  by simp

definition seq_of :: "('a \<Rightarrow> bytes \<Rightarrow> bool) \<Rightarrow> ('a \<Rightarrow> 'b \<Rightarrow> bytes \<Rightarrow> bool) \<Rightarrow> 'b \<Rightarrow> bytes \<Rightarrow> bool" where
  "seq_of G H x bs \<longleftrightarrow> (\<exists>v b1 b2. bs = b1 @ b2 \<and> G v b1 \<and> H v x b2)"

lemma then_read_Inr:
  "then_read p f r = Inr (x, r'') \<longleftrightarrow> (\<exists>v r'. p r = Inr (v, r') \<and> f v r' = Inr (x, r''))"
  unfolding then_read_def res_bind_eq_Inr by auto

lemma reads_then:
  assumes p: "reads_as p G" and f: "\<And>v. reads_as (f v) (H v)"
  shows "reads_as (then_read p f) (seq_of G H)"
proof (rule reads_asI)
  fix r x r''
  assume ok: "reader_ok r"
  show "then_read p f r = Inr (x, r'') \<longleftrightarrow> (\<exists>bs. seq_of G H x bs \<and> follows r bs r'')"
  proof
    assume "then_read p f r = Inr (x, r'')"
    then obtain v r' where "p r = Inr (v, r')" and 2: "f v r' = Inr (x, r'')"
      unfolding then_read_Inr by blast
    then obtain b1 where 1: "G v b1" "follows r b1 r'" using reads_asD [OF p ok] by blast
    have "reader_ok r'" by (rule follows_ok [OF ok 1(2)])
    then obtain b2 where "H v x b2" "follows r' b2 r''" using 2 reads_asD [OF f] by blast
    then have "follows r (b1 @ b2) r''" "seq_of G H x (b1 @ b2)"
      using 1 by (auto simp: seq_of_def follows_append)
    then show "\<exists>bs. seq_of G H x bs \<and> follows r bs r''" by blast
  next
    assume "\<exists>bs. seq_of G H x bs \<and> follows r bs r''"
    then obtain v b1 b2 where g: "G v b1" "H v x b2" and "follows r (b1 @ b2) r''"
      by (auto simp: seq_of_def)
    then obtain r' where 1: "follows r b1 r'" "follows r' b2 r''" unfolding follows_append by blast
    have "reader_ok r'" by (rule follows_ok [OF ok 1(1)])
    then have "f v r' = Inr (x, r'')" using g 1 reads_asD [OF f] by blast
    moreover have "p r = Inr (v, r')" using g 1 reads_asD [OF p ok] by blast
    ultimately show "then_read p f r = Inr (x, r'')" unfolding then_read_Inr by blast
  qed
qed

section \<open>Leaves\<close>

lemma reads_take: "reads_as (take_bytes n) (\<lambda>v bs. v = bs \<and> length bs = n)"
proof (rule reads_asI)
  fix r v r'
  assume ok: "reader_ok r"
  show "take_bytes n r = Inr (v, r') \<longleftrightarrow> (\<exists>bs. (v = bs \<and> length bs = n) \<and> follows r bs r')"
  proof
    assume "take_bytes n r = Inr (v, r')"
    then show "\<exists>bs. (v = bs \<and> length bs = n) \<and> follows r bs r'"
      using ok by (auto simp: take_bytes_def follows_def reader_ok_def split: if_splits)
        (metis append_take_drop_id)
  next
    assume "\<exists>bs. (v = bs \<and> length bs = n) \<and> follows r bs r'"
    then obtain rest where v: "length v = n" "drop (rd_pos r) (rd_raw r) = v @ rest"
      and r': "r' = r\<lparr>rd_pos := rd_pos r + n\<rparr>"
      by (cases r; cases r') (auto simp: follows_def)
    then have "length (rd_raw r) - rd_pos r = n + length rest" by (metis length_append length_drop)
    then have "rd_pos r + n \<le> length (rd_raw r)" using ok by (auto simp: reader_ok_def)
    then show "take_bytes n r = Inr (v, r')" using v r' ok by (auto simp: take_bytes_def reader_ok_def)
  qed
qed

lemma reads_word:
  assumes "\<And>x bs. length bs = n \<Longrightarrow> x = f bs \<longleftrightarrow> G x bs" "\<And>x bs. G x bs \<Longrightarrow> length bs = n"
  shows "reads_as (then_read (take_bytes n) (\<lambda>bs. give (f bs))) G"
proof (rule reads_as_cong [OF reads_then [OF reads_take reads_give]])
  fix v bs
  show "seq_of (\<lambda>v bs. v = bs \<and> length bs = n) (\<lambda>v x bs. x = f v \<and> bs = []) v bs \<longleftrightarrow> G v bs"
    using assms(1) [of bs v] assms(2) [of v bs] by (auto simp: seq_of_def)
qed

lemma reads_u8: "reads_as read_u8 (\<lambda>v bs. bs = [v])"
  unfolding read_u8_def by (rule reads_word) (auto simp: length_Suc_conv)

lemma reads_u32: "reads_as read_u32 (\<lambda>v bs. bs = u32_be v)"
  unfolding read_u32_def by (rule reads_word) (auto simp: u32_be_from_be)

text \<open>A signed integer is the two's complement reading of its bytes.\<close>

lemma word_of_be_bytes:
  "(2 :: nat) ^ LENGTH('a) = 256 ^ n \<Longrightarrow> word_of_nat (from_be_bytes (be_bytes n (unat x))) = (x :: 'a::len word)"
proof -
  assume n: "(2 :: nat) ^ LENGTH('a) = 256 ^ n"
  have "unat x < 256 ^ n" unfolding n [symmetric] by (rule unsigned_less)
  then show ?thesis by (simp add: from_be_be_bytes)
qed

lemma be_bytes_of_word:
  "(2 :: nat) ^ LENGTH('a) = 256 ^ n \<Longrightarrow> length bs = n \<Longrightarrow>
     be_bytes n (unat (word_of_nat (from_be_bytes bs) :: 'a::len word)) = bs"
proof -
  assume n: "(2 :: nat) ^ LENGTH('a) = 256 ^ n" "length bs = n"
  have "from_be_bytes bs < 2 ^ LENGTH('a)" using from_be_bytes_less [of bs] n by simp
  then show ?thesis using n(2) by (simp add: unat_of_nat be_from_be_bytes)
qed

lemma word_bytes_exact:
  fixes s :: "'a::len word \<Rightarrow> int"
  assumes n: "(2 :: nat) ^ LENGTH('a) = 256 ^ n" and l: "length bs = n"
  shows "v = s (word_of_nat (from_be_bytes bs)) \<longleftrightarrow> (\<exists>x :: 'a word. v = s x \<and> bs = be_bytes n (unat x))"
  using be_bytes_of_word [OF n l] word_of_be_bytes [OF n] by metis

lemma reads_i16: "reads_as read_i16 (\<lambda>v bs. \<exists>x :: 16 word. v = sint x \<and> bs = be_bytes 2 (unat x))"
  unfolding read_i16_def by (rule reads_word) (rule word_bytes_exact, simp_all, clarsimp)

lemma reads_i32: "reads_as read_i32 (\<lambda>v bs. \<exists>x :: u32. v = sint x \<and> bs = u32_be x)"
  unfolding read_i32_def u32_be_def by (rule reads_word) (rule word_bytes_exact, simp_all, clarsimp)

lemma reads_i64: "reads_as read_i64 (\<lambda>v bs. \<exists>x :: u64. v = sint x \<and> bs = u64_be x)"
  unfolding read_i64_def u64_be_def by (rule reads_word) (rule word_bytes_exact, simp_all, clarsimp)


lemma seq_byte: "seq_of (\<lambda>v bs. bs = [v]) H x bs \<longleftrightarrow> (\<exists>v b. bs = v # b \<and> H v x b)"
  by (auto simp: seq_of_def)

lemma seq_enc: "seq_of (\<lambda>v bs. bs = e v) H x bs \<longleftrightarrow> (\<exists>v b. bs = e v @ b \<and> H v x b)"
  by (auto simp: seq_of_def)

lemma seq_signed:
  "seq_of (\<lambda>v bs. \<exists>w. v = s w \<and> bs = e w) H x bs \<longleftrightarrow> (\<exists>w b. bs = e w @ b \<and> H (s w) x b)"
  by (auto simp: seq_of_def)

lemma seq_ok: "seq_of (\<lambda>v bs. bs = e v \<and> ok v) H x bs \<longleftrightarrow> (\<exists>v b. ok v \<and> bs = e v @ b \<and> H v x b)"
  by (auto simp: seq_of_def)

section \<open>Strings, lists and tuples\<close>

lemma reads_cstring: "reads_as (read_cstring ue) (\<lambda>v bs. bs = cstring_bytes v \<and> cstring_ok v)"
proof (rule reads_asI)
  fix r v r'
  assume ok: "reader_ok r"
  let ?d = "drop (rd_pos r) (rd_raw r)"
  show "read_cstring ue r = Inr (v, r') \<longleftrightarrow> (\<exists>bs. (bs = cstring_bytes v \<and> cstring_ok v) \<and> follows r bs r')"
  proof
    assume a: "read_cstring ue r = Inr (v, r')"
    then obtain n where n: "byte_position (\<lambda>b. b = 0) ?d = Some n"
      by (auto simp: read_cstring_def split: option.splits)
    then have v: "v = take n ?d" "valid_utf8 v" "r' = r\<lparr>rd_pos := rd_pos r + n + 1\<rparr>"
      using a by (auto simp: read_cstring_def Let_def split: if_splits)
    have k: "n < length ?d" "?d ! n = 0" "\<forall>j < n. ?d ! j \<noteq> 0" using n by (auto simp: byte_position_Some)
    have "0 \<notin> set v" using k v(1) by (auto simp: in_set_conv_nth)
    moreover have "?d = (v @ [0]) @ drop (n + 1) ?d" using v(1) k id_take_nth_drop [OF k(1)] by simp
    then have "follows r (v @ [0]) r'" using v k(1) unfolding follows_def by (auto simp: min_def)
    ultimately show "\<exists>bs. (bs = cstring_bytes v \<and> cstring_ok v) \<and> follows r bs r'"
      using v(2) by (auto simp: cstring_bytes_def cstring_ok_def)
  next
    assume "\<exists>bs. (bs = cstring_bytes v \<and> cstring_ok v) \<and> follows r bs r'"
    then obtain rest where d: "?d = v @ 0 # rest" and v: "0 \<notin> set v" "valid_utf8 v"
      and r': "r' = r\<lparr>rd_pos := rd_pos r + length v + 1\<rparr>"
      by (cases r; cases r') (auto simp: follows_def cstring_bytes_def cstring_ok_def)
    have "byte_position (\<lambda>b. b = 0) ?d = Some (length v)"
      unfolding d byte_position_Some using v(1) by (auto simp: nth_append) (metis nth_mem)
    then show "read_cstring ue r = Inr (v, r')" using v r' by (simp add: read_cstring_def d)
  qed
qed

text \<open>Bytes written for a value, of which the read returns a view.\<close>

definition coded :: "('w \<Rightarrow> bytes) \<Rightarrow> ('w \<Rightarrow> bool) \<Rightarrow> ('w \<Rightarrow> 'v) \<Rightarrow> 'v \<Rightarrow> bytes \<Rightarrow> bool" where
  "coded enc ok view v bs \<longleftrightarrow> (\<exists>w. ok w \<and> v = view w \<and> bs = enc w)"

lemma seq_coded: "seq_of (coded e ok m) H x bs \<longleftrightarrow> (\<exists>w b. ok w \<and> bs = e w @ b \<and> H (m w) x b)"
  by (auto simp: seq_of_def coded_def)

lemmas seq_simps = seq_byte seq_enc seq_signed seq_ok seq_coded

lemma reads_many:
  assumes "\<And>i. reads_as (p i) (coded enc ok view)"
  shows "reads_as (read_many p i n)
    (coded (\<lambda>ws. concat (map enc ws)) (\<lambda>ws. length ws = n \<and> list_all ok ws) (map view))"
proof (induction n arbitrary: i)
  case 0
  show ?case by (auto simp: coded_def intro: reads_as_cong [OF reads_give])
next
  case (Suc n)
  show ?case unfolding read_many.simps
  proof (rule reads_as_cong [OF reads_then [OF assms reads_then [OF Suc.IH reads_give]]])
    fix vs bs
    show "seq_of (coded enc ok view)
        (\<lambda>v. seq_of (coded (\<lambda>ws. concat (map enc ws)) (\<lambda>ws. length ws = n \<and> list_all ok ws) (map view))
          (\<lambda>vs x bs. x = v # vs \<and> bs = [])) vs bs
      \<longleftrightarrow> coded (\<lambda>ws. concat (map enc ws)) (\<lambda>ws. length ws = Suc n \<and> list_all ok ws) (map view) vs bs"
      by (simp add: coded_def seq_of_def length_Suc_conv) fastforce
  qed
qed


text \<open>A signed count that is not negative, and as many things after it.\<close>

lemma sint_nonneg:
  fixes x :: "'a::len word"
  assumes "0 \<le> sint x"
  shows "nat (sint x) = unat x" "unat x < 2 ^ (LENGTH('a) - 1)"
proof -
  have lt: "sint x < 2 ^ (LENGTH('a) - 1)" by (rule sint_lt)
  also have "\<dots> \<le> (2 :: int) ^ LENGTH('a)" by (rule power_increasing) auto
  finally have "uint x = sint x" using assms by (simp add: uint_sint take_bit_int_eq_self)
  then show "nat (sint x) = unat x" "unat x < 2 ^ (LENGTH('a) - 1)"
    using lt by (simp_all flip: nat_uint_eq add: nat_less_iff)
qed

lemma sint_small:
  "n < 2 ^ (LENGTH('a) - 1) \<Longrightarrow> sint (word_of_nat n :: 'a::len word) = int n \<and> unat (word_of_nat n :: 'a word) = n"
proof -
  assume n: "n < 2 ^ (LENGTH('a) - 1)"
  also have "\<dots> \<le> (2 :: nat) ^ LENGTH('a)" by (rule power_increasing) auto
  finally have u: "unat (word_of_nat n :: 'a word) = n" by (simp add: unat_of_nat)
  have "int n < int (2 ^ (LENGTH('a) - 1))" using n by (simp only: of_nat_less_iff)
  moreover have "- (2 ^ (LENGTH('a) - 1)) \<le> int n" by (rule order_trans [of _ 0]) auto
  ultimately have "signed_take_bit (LENGTH('a) - 1) (int n) = int n"
    by (intro signed_take_bit_int_eq_self) auto
  moreover have "uint (word_of_nat n :: 'a word) = int n" using u by (metis unat_eq_nat_uint int_nat_eq unsigned_greater_eq)
  ultimately show ?thesis using u by (simp add: sint_uint)
qed

lemma reads_counted:
  fixes k :: nat
  assumes p: "reads_as p (\<lambda>v bs. \<exists>x :: 'a::len word. v = sint x \<and> bs = be_bytes k (unat x))"
    and q: "\<And>n. reads_as (q n) (H n)"
  shows "reads_as (then_read p (\<lambda>c. if c < 0 then refuse (e c) else q (nat c)))
    (\<lambda>v bs. \<exists>n b. n < 2 ^ (LENGTH('a) - 1) \<and> bs = be_bytes k n @ b \<and> H n v b)"
proof (rule reads_as_cong [OF reads_then [OF p reads_if [OF reads_refuse q]]])
  fix v bs
  show "seq_of (\<lambda>v bs. \<exists>x :: 'a word. v = sint x \<and> bs = be_bytes k (unat x))
      (\<lambda>c x bs. if c < 0 then False else H (nat c) x bs) v bs
    \<longleftrightarrow> (\<exists>n b. n < 2 ^ (LENGTH('a) - 1) \<and> bs = be_bytes k n @ b \<and> H n v b)" (is "?L \<longleftrightarrow> ?R")
  proof
    assume ?L
    then obtain x :: "'a word" and b where "0 \<le> sint x" "bs = be_bytes k (unat x) @ b" "H (nat (sint x)) v b"
      by (auto simp: seq_of_def not_less split: if_splits)
    then show ?R using sint_nonneg [of x] by (intro exI [of _ "unat x"] exI [of _ b]) simp
  next
    assume ?R
    then obtain n b where n: "n < 2 ^ (LENGTH('a) - 1)" and b: "bs = be_bytes k n @ b" "H n v b" by blast
    have "\<exists>x :: 'a word. int n = sint x \<and> be_bytes k n = be_bytes k (unat x)"
      using sint_small [OF n] by metis
    then have "\<exists>c b1 b2. bs = b1 @ b2 \<and> (\<exists>x :: 'a word. c = sint x \<and> b1 = be_bytes k (unat x)) \<and> 0 \<le> c \<and> H (nat c) v b2"
      using b by (metis nat_int of_nat_0_le_iff)
    then show ?L unfolding seq_of_def by (metis not_less)
  qed
qed


lemma reads_counted16:
  "(\<And>n. reads_as (q n) (H n)) \<Longrightarrow>
    reads_as (then_read read_i16 (\<lambda>c. if c < 0 then refuse (e c) else q (nat c)))
      (\<lambda>v bs. \<exists>n b. n < 2 ^ 15 \<and> bs = be_bytes 2 n @ b \<and> H n v b)"
  using reads_counted [OF reads_i16, of q H e] by simp

lemma reads_counted32:
  "(\<And>n. reads_as (q n) (H n)) \<Longrightarrow>
    reads_as (then_read read_i32 (\<lambda>c. if c < 0 then refuse (e c) else q (nat c)))
      (\<lambda>v bs. \<exists>n b. n < 2 ^ 31 \<and> bs = be_bytes 4 n @ b \<and> H n v b)"
  using reads_counted [OF reads_i32 [unfolded u32_be_def], of q H e] by simp

lemma value_exact:
  "seq_of (\<lambda>v bs. bs = [v]) (\<lambda>kind x bs. if kind = 110 then x = Tv_Null \<and> bs = []
      else if kind = 117 then x = Tv_Unchanged \<and> bs = []
      else if kind = 116 \<or> kind = 98 then
        \<exists>t. length t < 2 ^ 31 \<and> x = (if kind = 98 then Tv_Binary t else Tv_Text t) \<and> bs = be_bytes 4 (length t) @ t
      else False) v bs \<longleftrightarrow> coded value_bytes value_ok id v bs" (is "?L \<longleftrightarrow> ?R")
proof
  assume ?L
  then show ?R by (auto simp: seq_byte coded_def split: if_splits)
next
  assume ?R
  then show ?L by (cases v) (auto simp: seq_byte coded_def)
qed

lemma reads_value: "reads_as (read_tuple_value i) (coded value_bytes value_ok id)"
proof -
  have data: "reads_as (then_read read_i32 (\<lambda>len. if len < 0 then refuse (e len)
      else then_read (take_bytes (nat len)) (\<lambda>bs. give (f bs))))
    (\<lambda>v bs. \<exists>t. length t < 2 ^ 31 \<and> v = f t \<and> bs = be_bytes 4 (length t) @ t)" for e and f :: "bytes \<Rightarrow> tuple_value"
    by (rule reads_as_cong [OF reads_counted32 [OF reads_then [OF reads_take reads_give]]])
      (auto simp: seq_of_def)
  show ?thesis unfolding read_tuple_value_def
    by (rule reads_as_cong [OF reads_then [OF reads_u8 reads_if [OF reads_give reads_if [OF reads_give
            reads_if [OF data reads_refuse]]]]])
      (rule value_exact)
qed

lemma reads_tuple: "reads_as read_tuple (coded tuple_bytes tuple_ok id)"
  unfolding read_tuple_def
  by (rule reads_as_cong [OF reads_counted16 [OF reads_many [OF reads_value]]])
    (auto simp: coded_def tuple_bytes_def tuple_ok_def)

lemma reads_column:
  "reads_as (read_column ue i) (coded column_bytes (\<lambda>c. cstring_ok (wc_name c)) column_of)"
proof (unfold read_column_def, rule reads_as_cong [OF reads_then [OF reads_u8 reads_then [OF reads_cstring
      reads_then [OF reads_u32 reads_then [OF reads_i32 reads_give]]]]])
  fix v bs
  show "seq_of (\<lambda>v bs. bs = [v]) (\<lambda>fl. seq_of (\<lambda>v bs. bs = cstring_bytes v \<and> cstring_ok v)
      (\<lambda>n. seq_of (\<lambda>v bs. bs = u32_be v) (\<lambda>t. seq_of (\<lambda>v bs. \<exists>x. v = sint x \<and> bs = u32_be x)
        (\<lambda>m v bs. v = \<lparr>rc_name = n, rc_type_oid = t\<rparr> \<and> bs = [])))) v bs
    \<longleftrightarrow> coded column_bytes (\<lambda>c. cstring_ok (wc_name c)) column_of v bs" (is "?L \<longleftrightarrow> ?R")
  proof
    assume ?L
    then obtain fl n t x where "cstring_ok n" "v = \<lparr>rc_name = n, rc_type_oid = t\<rparr>"
      "bs = fl # cstring_bytes n @ u32_be t @ u32_be x" by (auto simp: seq_simps)
    then show ?R unfolding coded_def
      by (intro exI [of _ "\<lparr>wc_flags = fl, wc_name = n, wc_type_oid = t, wc_modifier = x\<rparr>"])
        (simp add: column_bytes_def column_of_def)
  next
    assume ?R
    then obtain c where "cstring_ok (wc_name c)" "v = column_of c" "bs = column_bytes c"
      by (auto simp: coded_def)
    then show ?L unfolding seq_simps column_bytes_def column_of_def by auto
  qed
qed


section \<open>Messages\<close>

definition body_layout :: "u8 \<Rightarrow> pg_message \<times> (u32 \<times> relation) option \<Rightarrow> bytes \<Rightarrow> bool" where
  "body_layout tag x bs \<longleftrightarrow> (\<exists>w. wire_ok w \<and> wire_bytes w = tag # bs \<and> x = (wire_meaning w, wire_declares w))"

lemma ex_wire:
  "(\<exists>w. P w) \<longleftrightarrow> (\<exists>l t i. P (W_Begin l t i)) \<or> (\<exists>f c e t. P (W_Commit f c e t)) \<or>
     (\<exists>r ns n i cs. P (W_Relation r ns n i cs)) \<or> (\<exists>t ns n. P (W_Type t ns n)) \<or> (\<exists>l n. P (W_Origin l n)) \<or>
     (\<exists>r t. P (W_Insert r t)) \<or> (\<exists>r t. P (W_Update r None t)) \<or> (\<exists>r k old t. P (W_Update r (Some (k, old)) t)) \<or>
     (\<exists>r k t. P (W_Delete r k t)) \<or> (\<exists>f rs. P (W_Truncate f rs))" (is "?L \<longleftrightarrow> ?R")
proof
  assume ?L
  then obtain w where "P w" by blast
  then show ?R by (cases w rule: wire_bytes.cases) metis+
qed blast

lemma seq_view: "seq_of G (\<lambda>m x bs. x = f m \<and> bs = []) x bs \<longleftrightarrow> (\<exists>m. x = f m \<and> G m bs)"
  by (auto simp: seq_of_def)

lemma coded_id: "coded e ok id v bs \<longleftrightarrow> ok v \<and> bs = e v"
  by (auto simp: coded_def)

lemma ex_two: "(\<exists>k. (k = a \<or> k = b) \<and> P k) \<longleftrightarrow> P a \<or> P b"
  by auto

lemma body_layoutE:
  assumes "body_layout tag x bs"
  obtains w where "wire_ok w" "wire_bytes w = tag # bs" "x = (wire_meaning w, wire_declares w)"
  using assms by (auto simp: body_layout_def)

lemmas layout_simps = coded_id body_layout_def ex_wire seq_view seq_simps

lemma wire_bytes_nonempty: "\<exists>tag bs. wire_bytes w = tag # bs"
  by (cases w rule: wire_bytes.cases) auto

lemma body_begin: "reads_as (read_body ue 66) (body_layout 66)"
  by (simp add: read_body_def, rule reads_as_cong [OF reads_then [OF reads_i64 reads_then [OF reads_i64
      reads_then [OF reads_i32 reads_give]]]]) (auto simp: layout_simps)

lemma body_commit: "reads_as (read_body ue 67) (body_layout 67)"
  by (simp add: read_body_def, rule reads_as_cong [OF reads_then [OF reads_u8 reads_then [OF reads_i64
      reads_then [OF reads_i64 reads_then [OF reads_i64 reads_give]]]]]) (auto simp: layout_simps)

lemma body_type: "reads_as (read_body ue 89) (body_layout 89)"
  by (simp add: read_body_def, rule reads_as_cong [OF reads_then [OF reads_u32 reads_then [OF reads_cstring
      reads_then [OF reads_cstring reads_give]]]]) (auto simp: layout_simps, blast)

lemma body_origin: "reads_as (read_body ue 79) (body_layout 79)"
  by (simp add: read_body_def, rule reads_as_cong [OF reads_then [OF reads_i64 reads_then [OF reads_cstring
      reads_give]]]) (auto simp: layout_simps)


lemma body_insert: "reads_as (read_body ue 73) (body_layout 73)"
proof -
  have "reads_as (expect_marker 78 what) (\<lambda>v bs. bs = [78])" for what
    unfolding expect_marker_def
    by (rule reads_as_cong [OF reads_then [OF reads_u8 reads_if [OF reads_refuse reads_give]]])
      (auto simp: seq_byte)
  then show ?thesis
    by (simp add: read_body_def, rule_tac reads_as_cong [OF reads_then [OF reads_u32 reads_then [OF _
      reads_then [OF reads_tuple reads_give]]]]) (assumption, auto simp: layout_simps seq_of_def coded_def)
qed

lemma body_delete: "reads_as (read_body ue 68) (body_layout 68)"
  by (simp add: read_body_def read_delete_def, rule reads_as_cong [OF reads_then [OF reads_then [OF reads_u32
      reads_then [OF reads_u8 reads_if [OF reads_refuse reads_then [OF reads_tuple reads_give]]]] reads_give]])
    (auto simp: layout_simps split: if_splits, fastforce+)

lemma body_truncate: "reads_as (read_body ue 84) (body_layout 84)"
proof -
  have u: "reads_as read_u32 (coded u32_be (\<lambda>_. True) id)"
    by (rule reads_as_cong [OF reads_u32]) (auto simp: coded_def)
  have all: "list_all (\<lambda>_. True) xs" for xs :: "u32 list" by (simp add: list_all_iff)
  have up: "0 \<le> sint x \<Longrightarrow> length rs = nat (sint x) \<Longrightarrow>
      length rs < 2147483648 \<and> be_bytes 4 (length rs) = u32_be x" for x and rs :: "u32 list"
    using sint_nonneg [of x] by (simp add: u32_be_def)
  have down: "\<exists>x. be_bytes 4 n = u32_be x \<and> 0 \<le> sint x \<and> n = nat (sint x)" if "n < 2147483648" for n
    using sint_small [of n, where 'a = 32] that by (intro exI [of _ "word_of_nat n"]) (simp add: u32_be_def)
  show ?thesis
    by (simp add: read_body_def read_truncate_def, rule reads_as_cong [OF reads_then [OF reads_then [OF reads_i32
        reads_then [OF reads_u8 reads_if [OF reads_refuse reads_then [OF reads_many [OF u] reads_give]]]] reads_give]])
     (simp add: layout_simps not_less all cong: conj_cong, auto, (metis up, metis down)?)
qed

lemma body_update: "reads_as (read_body ue 85) (body_layout 85)"
proof -
  have old: "reads_as (if c then then_read read_tuple (\<lambda>old. read_u8) else give first)
      (\<lambda>x bs. if c then \<exists>old. tuple_ok old \<and> bs = tuple_bytes old @ [x] else x = first \<and> bs = [])" for c first
    by (rule reads_as_cong [OF reads_if [OF reads_then [OF reads_tuple reads_u8] reads_give]])
      (auto simp: seq_simps)
  show ?thesis
    by (simp add: read_body_def read_update_def, rule reads_as_cong [OF reads_then [OF reads_then [OF reads_u32
        reads_then [OF reads_u8 reads_then [OF old reads_if [OF reads_refuse
          reads_then [OF reads_tuple reads_give]]]]] reads_give]])
     (auto simp: layout_simps seq_of_def, metis+)
qed

lemma reads_columns:
  "reads_as (then_read read_i16 (\<lambda>ncols. if ncols < 0 then refuse (e ncols)
      else then_read (read_many (read_column ue) 0 (nat ncols)) (\<lambda>columns. give (g columns))))
    (\<lambda>x bs. \<exists>cs. x = g (map column_of cs) \<and> (length cs < 2 ^ 15 \<and> list_all (\<lambda>c. cstring_ok (wc_name c)) cs) \<and>
      bs = be_bytes 2 (length cs) @ concat (map column_bytes cs))"
  by (rule reads_as_cong [OF reads_counted16 [OF reads_then [OF reads_many [OF reads_column] reads_give]]])
    (auto simp: seq_coded)

lemma reads_relation:
  "reads_as (read_relation ue) (seq_of (\<lambda>v bs. bs = u32_be v) (\<lambda>r. seq_of (\<lambda>v bs. bs = cstring_bytes v \<and> cstring_ok v)
    (\<lambda>ns. seq_of (\<lambda>v bs. bs = cstring_bytes v \<and> cstring_ok v) (\<lambda>n. seq_of (\<lambda>v bs. bs = [v])
      (\<lambda>i x bs. \<exists>cs. x = (r, \<lparr>rel_namespace = (if ns = [] then ascii ''public'' else ns), rel_name = n,
          rel_columns = map column_of cs\<rparr>) \<and> (length cs < 2 ^ 15 \<and> list_all (\<lambda>c. cstring_ok (wc_name c)) cs) \<and>
        bs = be_bytes 2 (length cs) @ concat (map column_bytes cs))))))"
  unfolding read_relation_def
  by (intro reads_then reads_u32 reads_cstring reads_u8 reads_columns)

definition shown_namespace :: "bytes \<Rightarrow> bytes" where
  "shown_namespace ns = (if ns = [] then ascii ''public'' else ns)"

lemma body_relation: "reads_as (read_body ue 82) (body_layout 82)"
proof (simp add: read_body_def split_def,
    rule reads_as_cong [OF reads_then [OF reads_relation [folded shown_namespace_def] reads_give]])
  fix x bs
  show "seq_of (seq_of (\<lambda>v bs. bs = u32_be v) (\<lambda>r. seq_of (\<lambda>v bs. bs = cstring_bytes v \<and> cstring_ok v)
    (\<lambda>ns. seq_of (\<lambda>v bs. bs = cstring_bytes v \<and> cstring_ok v) (\<lambda>n. seq_of (\<lambda>v bs. bs = [v])
      (\<lambda>i x bs. \<exists>cs. x = (r, \<lparr>rel_namespace = shown_namespace ns, rel_name = n,
          rel_columns = map column_of cs\<rparr>) \<and> (length cs < 2 ^ 15 \<and> list_all (\<lambda>c. cstring_ok (wc_name c)) cs) \<and>
        bs = be_bytes 2 (length cs) @ concat (map column_bytes cs))))))
    (\<lambda>v x bs. x = (Relation_Msg (fst v), Some v) \<and> bs = []) x bs \<longleftrightarrow> body_layout 82 x bs"
    (is "?L \<longleftrightarrow> ?R")
  proof
    assume ?L
    then show ?R unfolding layout_simps wire_declares.simps shown_namespace_def [symmetric] by (auto, blast)
  next
    assume ?R
    then show ?L unfolding layout_simps wire_declares.simps shown_namespace_def [symmetric] by (auto, blast)
  qed
qed


section \<open>The decoder\<close>

lemma wire_bytes_inv: "wire_bytes w = tag # bs \<Longrightarrow> tag \<in> {66, 67, 82, 89, 79, 73, 85, 68, 84}"
  by (cases w rule: wire_bytes.cases) auto

lemma reads_body: "reads_as (read_body ue tag) (body_layout tag)"
proof (cases "tag \<in> {66, 67, 82, 89, 79, 73, 85, 68, 84}")
  case True
  then show ?thesis
    using body_begin body_commit body_relation body_type body_origin body_insert body_update body_delete
      body_truncate by blast
next
  case False
  then have "read_body ue tag = refuse (Generic (''pgoutput: unknown message tag '' @ char_debug tag @ '' (0x'' @
      hex02 tag @ ''); this connector requests proto_version 1 without streaming, two-phase commit or logical messages''))"
    by (simp add: read_body_def)
  moreover have "\<not> body_layout tag x bs" for x bs
    using False by (auto elim: body_layoutE dest: wire_bytes_inv)
  ultimately show ?thesis by (simp add: reads_as_cong [OF reads_refuse])
qed

text \<open>A message whose bytes are used up: the reader starts at their beginning and stops at their end.\<close>

lemma follows_all:
  "follows (new_reader raw) bs r \<and> remaining r = 0 \<longleftrightarrow> bs = raw \<and> r = \<lparr>rd_raw = raw, rd_pos = length raw\<rparr>"
  by (cases r) (auto simp: follows_def new_reader_def remaining_def)

lemma decode_parts:
  assumes "length raw < 2 ^ 63"
  shows "(\<exists>tag r. read_u8 (new_reader raw) = Inr (tag, r) \<and> read_body ue tag r = Inr (x, r') \<and> remaining r' = 0)
    \<longleftrightarrow> (\<exists>w. wire_ok w \<and> wire_bytes w = raw \<and> x = (wire_meaning w, wire_declares w)) \<and>
      r' = \<lparr>rd_raw = raw, rd_pos = length raw\<rparr>"
proof -
  have ok: "reader_ok (new_reader raw)" using assms by (simp add: reader_ok_def new_reader_def)
  have whole: "reads_as (then_read read_u8 (read_body ue)) (seq_of (\<lambda>v bs. bs = [v]) body_layout)"
    by (rule reads_then [OF reads_u8 reads_body])
  have "(\<exists>tag r. read_u8 (new_reader raw) = Inr (tag, r) \<and> read_body ue tag r = Inr (x, r') \<and> remaining r' = 0)
    \<longleftrightarrow> then_read read_u8 (read_body ue) (new_reader raw) = Inr (x, r') \<and> remaining r' = 0"
    unfolding then_read_Inr by blast
  also have "\<dots> \<longleftrightarrow> (\<exists>bs. seq_of (\<lambda>v bs. bs = [v]) body_layout x bs \<and> follows (new_reader raw) bs r' \<and> remaining r' = 0)"
    using reads_asD [OF whole ok] by blast
  also have "\<dots> \<longleftrightarrow> seq_of (\<lambda>v bs. bs = [v]) body_layout x raw \<and> r' = \<lparr>rd_raw = raw, rd_pos = length raw\<rparr>"
    unfolding follows_all by blast
  also have "seq_of (\<lambda>v bs. bs = [v]) body_layout x raw \<longleftrightarrow>
      (\<exists>w. wire_ok w \<and> wire_bytes w = raw \<and> x = (wire_meaning w, wire_declares w))"
    unfolding seq_byte body_layout_def by (metis wire_bytes_nonempty)
  finally show ?thesis .
qed


definition declared_into :: "pg_decoder \<Rightarrow> (u32 \<times> relation) option \<Rightarrow> pg_decoder" where
  "declared_into d declared = (case declared of Some (rel_id, rel) \<Rightarrow> d(rel_id \<mapsto> rel) | None \<Rightarrow> d)"

lemma decode_ok_parts:
  "pg_decode ue d raw = (Inr m, d') \<longleftrightarrow>
    (\<exists>tag r declared r'. read_u8 (new_reader raw) = Inr (tag, r) \<and> read_body ue tag r = Inr ((m, declared), r') \<and>
      remaining r' = 0 \<and> d' = declared_into d declared)"
  by (auto simp: pg_decode_def declared_into_def Let_def split: sum.splits prod.splits if_splits)

text \<open>
  C40. The decoder accepts exactly the byte layouts of the protocol: for a buffer a slice can hold,
  \<^verbatim>\<open>decode\<close> returns a message and leaves a relation table exactly when the buffer is the encoding
  of a well-formed message with that meaning and that declaration, nothing missing and nothing
  left over: names end with a zero byte and are UTF-8, counts and lengths fit their signed fields,
  markers are the ones of the message.
\<close>

theorem pgoutput_decode_exact:
  assumes "length raw < 2 ^ 63"
  shows "pg_decode utf8_error d raw = (Inr m, d') \<longleftrightarrow>
    (\<exists>w. wire_ok w \<and> wire_bytes w = raw \<and> m = wire_meaning w \<and> d' = declared_into d (wire_declares w))"
proof -
  have "pg_decode utf8_error d raw = (Inr m, d') \<longleftrightarrow>
    (\<exists>declared r'. (\<exists>tag r. read_u8 (new_reader raw) = Inr (tag, r) \<and>
      read_body utf8_error tag r = Inr ((m, declared), r') \<and> remaining r' = 0) \<and> d' = declared_into d declared)"
    unfolding decode_ok_parts by blast
  then show ?thesis unfolding decode_parts [OF assms] by blast
qed

theorem pgoutput_decode_exact_witness:
  "let w = W_Insert 7 [Tv_Null, Tv_Text [104, 105], Tv_Unchanged] in
     pg_decode (\<lambda>_. []) Map.empty (wire_bytes w) =
       (Inr (Change 7 Insert [Tv_Null, Tv_Text [104, 105], Tv_Unchanged]), Map.empty) \<and>
     wire_bytes w = [73, 0, 0, 0, 7, 78, 0, 3, 110, 116, 0, 0, 0, 2, 104, 105, 117]"
proof -
  let ?t = "[Tv_Null, Tv_Text [104, 105], Tv_Unchanged]"
  let ?w = "W_Insert 7 ?t"
  have bs: "wire_bytes ?w = [73, 0, 0, 0, 7, 78, 0, 3, 110, 116, 0, 0, 0, 2, 104, 105, 117]" by code_simp
  have "wire_ok ?w" by (simp add: tuple_ok_def)
  then have "\<exists>w. wire_ok w \<and> wire_bytes w = wire_bytes ?w \<and> Change 7 Insert ?t = wire_meaning w \<and>
      Map.empty = declared_into Map.empty (wire_declares w)"
    by (intro exI [of _ ?w]) (simp add: declared_into_def)
  then have "pg_decode (\<lambda>_. []) Map.empty (wire_bytes ?w) = (Inr (Change 7 Insert ?t), Map.empty)"
    by (subst pgoutput_decode_exact) (simp only: bs, simp)
  then show ?thesis using bs by simp
qed

end
