(* ===== verification/Raft_Log.thy ===== *)
theory Raft_Log
  imports State_Machine
begin

text \<open>
  The Raft log store, \<^verbatim>\<open>consensus/storage/log_store.rs\<close> and the shared parts of
  \<^verbatim>\<open>consensus/storage/mod.rs\<close>. The types of \<^verbatim>\<open>openraft\<close> are records with the fields the source
  reads: a log id has a leader id \<open>'l\<close> and an index, a membership is \<open>'m\<close>, a vote \<open>'v\<close>. The crate
  \<^verbatim>\<open>postcard\<close> is the record \<open>postcard\<close> of an encoder and a decoder. Both tables exist once the
  store is open, and every operation is one transaction; a failure of redb itself, which leaves
  the store as it was, is not modelled. An \<^verbatim>\<open>io::Error\<close> is its text.
\<close>

section \<open>Types\<close>

record 'l log_id =
  li_leader :: 'l
  li_index :: u64

datatype 'm entry_payload = Blank | Normal consensus_command | Membership 'm

record ('l, 'm) entry =
  en_log_id :: "'l log_id"
  en_payload :: "'m entry_payload"

type_synonym 'a io_result = "string + 'a"

record 'x postcard =
  to_allocvec :: "'x \<Rightarrow> string + bytes"
  from_bytes :: "bytes \<Rightarrow> string + 'x"

definition enc :: "'x postcard \<Rightarrow> 'x \<Rightarrow> bytes io_result" where
  "enc P v = (case to_allocvec P v of Inl e \<Rightarrow> Inl (''postcard encode: '' @ e) | Inr b \<Rightarrow> Inr b)"

definition dec :: "'x postcard \<Rightarrow> bytes \<Rightarrow> 'x io_result" where
  "dec P b = (case from_bytes P b of Inl e \<Rightarrow> Inl (''postcard decode: '' @ e) | Inr v \<Rightarrow> Inr v)"

record ('l, 'm, 'v) log_codec =
  lc_log_id :: "'l log_id postcard"
  lc_entry :: "('l, 'm) entry postcard"
  lc_vote :: "'v postcard"

definition KEY_VOTE :: string where "KEY_VOTE = ''vote''"
definition KEY_PURGED_LOG_ID :: string where "KEY_PURGED_LOG_ID = ''purged_log_id''"

section \<open>The store\<close>

record log_store =
  ls_meta :: "(string, bytes) table"
  ls_entries :: "(u64, bytes) table"

text \<open>\<^verbatim>\<open>open\<close> on a new file.\<close>

definition new_log_store :: log_store where
  "new_log_store = \<lparr>ls_meta = [], ls_entries = []\<rparr>"

datatype bound = Included u64 | Excluded u64 | Unbounded

definition owned_bounds :: "bound \<times> bound \<Rightarrow> bound \<times> bound" where
  "owned_bounds rg =
     (case fst rg of Included v \<Rightarrow> Included v | Excluded v \<Rightarrow> Excluded v | Unbounded \<Rightarrow> Unbounded,
      case snd rg of Included v \<Rightarrow> Included v | Excluded v \<Rightarrow> Excluded v | Unbounded \<Rightarrow> Unbounded)"

text \<open>The rows of \<^verbatim>\<open>table.range(bounds)\<close>, in key order.\<close>

definition in_bounds :: "bound \<times> bound \<Rightarrow> u64 \<Rightarrow> bool" where
  "in_bounds rg k \<longleftrightarrow>
     (case fst rg of Included v \<Rightarrow> v \<le> k | Excluded v \<Rightarrow> v < k | Unbounded \<Rightarrow> True) \<and>
     (case snd rg of Included v \<Rightarrow> k \<le> v | Excluded v \<Rightarrow> k < v | Unbounded \<Rightarrow> True)"

definition rows_in_range :: "bound \<times> bound \<Rightarrow> (u64, bytes) table \<Rightarrow> (u64 \<times> bytes) list" where
  "rows_in_range rg t = filter (\<lambda>(k, v). in_bounds rg k) (tbl_iter t)"

fun decode_rows :: "'x postcard \<Rightarrow> (u64 \<times> bytes) list \<Rightarrow> 'x list \<Rightarrow> 'x list io_result" where
  "decode_rows P [] out = Inr out"
| "decode_rows P ((k, v) # rows) out = res_bind (dec P v) (\<lambda>x. decode_rows P rows (out @ [x]))"

definition try_get_log_entries ::
  "('l, 'm, 'v) log_codec \<Rightarrow> log_store \<Rightarrow> bound \<times> bound \<Rightarrow> ('l, 'm) entry list io_result" where
  "try_get_log_entries C s rg =
     decode_rows (lc_entry C) (rows_in_range (owned_bounds rg) (ls_entries s)) []"

definition decode_option :: "'x postcard \<Rightarrow> bytes option \<Rightarrow> 'x option io_result" where
  "decode_option P row = (case row of Some v \<Rightarrow> res_bind (dec P v) (\<lambda>x. Inr (Some x)) | None \<Rightarrow> Inr None)"

definition read_vote :: "('l, 'm, 'v) log_codec \<Rightarrow> log_store \<Rightarrow> 'v option io_result" where
  "read_vote C s = decode_option (lc_vote C) (tbl_get (ls_meta s) KEY_VOTE)"

record 'l log_state =
  st_last_purged :: "'l log_id option"
  st_last :: "'l log_id option"

definition last_entry_id :: "('l, 'm, 'v) log_codec \<Rightarrow> log_store \<Rightarrow> 'l log_id option io_result" where
  "last_entry_id C s =
     (if tbl_iter (ls_entries s) = [] then Inr None
      else res_bind (dec (lc_entry C) (snd (last (tbl_iter (ls_entries s))))) (\<lambda>e. Inr (Some (en_log_id e))))"

definition get_log_state :: "('l, 'm, 'v) log_codec \<Rightarrow> log_store \<Rightarrow> 'l log_state io_result" where
  "get_log_state C s =
     res_bind (decode_option (lc_log_id C) (tbl_get (ls_meta s) KEY_PURGED_LOG_ID)) (\<lambda>purged.
     res_bind (last_entry_id C s) (\<lambda>last.
       Inr \<lparr>st_last_purged = purged, st_last = (case last of Some l \<Rightarrow> Some l | None \<Rightarrow> purged)\<rparr>))"

definition save_vote :: "('l, 'm, 'v) log_codec \<Rightarrow> log_store \<Rightarrow> 'v \<Rightarrow> unit io_result \<times> log_store" where
  "save_vote C s vote =
     (case enc (lc_vote C) vote of
        Inl e \<Rightarrow> (Inl e, s)
      | Inr b \<Rightarrow> (Inr (), s\<lparr>ls_meta := tbl_insert KEY_VOTE b (ls_meta s)\<rparr>))"

fun encode_entries :: "('l, 'm) entry postcard \<Rightarrow> ('l, 'm) entry list \<Rightarrow> (u64 \<times> bytes) list io_result" where
  "encode_entries P [] = Inr []"
| "encode_entries P (e # es) =
     res_bind (enc P e) (\<lambda>b. res_bind (encode_entries P es) (\<lambda>rest. Inr ((li_index (en_log_id e), b) # rest)))"

text \<open>\<^verbatim>\<open>append\<close>: the flag says whether the flush callback was called, with \<^verbatim>\<open>Ok\<close>.\<close>

definition append_entries ::
  "('l, 'm, 'v) log_codec \<Rightarrow> log_store \<Rightarrow> ('l, 'm) entry list \<Rightarrow> unit io_result \<times> bool \<times> log_store" where
  "append_entries C s es =
     (case encode_entries (lc_entry C) es of
        Inl e \<Rightarrow> (Inl e, False, s)
      | Inr encoded \<Rightarrow>
          (Inr (), True, s\<lparr>ls_entries := fold (\<lambda>(idx, b). tbl_insert idx b) encoded (ls_entries s)\<rparr>))"

text \<open>\<^verbatim>\<open>truncate_after\<close>; the successor of the last index wraps, as the release build computes it.\<close>

definition truncate_after :: "log_store \<Rightarrow> 'l log_id option \<Rightarrow> log_store" where
  "truncate_after s keep =
     (let start = (case keep of None \<Rightarrow> 0 | Some l \<Rightarrow> li_index l + 1);
          to_remove = map fst (rows_in_range (Included start, Unbounded) (ls_entries s))
      in s\<lparr>ls_entries := fold tbl_remove to_remove (ls_entries s)\<rparr>)"

definition purge :: "('l, 'm, 'v) log_codec \<Rightarrow> log_store \<Rightarrow> 'l log_id \<Rightarrow> unit io_result \<times> log_store" where
  "purge C s log_id =
     (case enc (lc_log_id C) log_id of
        Inl e \<Rightarrow> (Inl e, s)
      | Inr marker \<Rightarrow>
          let to_remove = map fst (rows_in_range (Unbounded, Included (li_index log_id)) (ls_entries s))
          in (Inr (), s\<lparr>ls_meta := tbl_insert KEY_PURGED_LOG_ID marker (ls_meta s),
                        ls_entries := fold tbl_remove to_remove (ls_entries s)\<rparr>))"

section \<open>The startup guard\<close>

text \<open>The dash of the texts, in UTF-8.\<close>

definition em_dash :: string where "em_dash = [CHR 0xE2, CHR 0x80, CHR 0x94]"

definition validate_store_consistency :: "'l log_id option \<Rightarrow> 'l log_id option \<Rightarrow> unit saci_result" where
  "validate_store_consistency last_purged last_applied =
     (case (last_purged, last_applied) of
        (Some purged, None) \<Rightarrow>
          Inl (Store (''store consistency violation: log store has purged up to index '' @ u64_string (li_index purged) @
            '' but state machine last_applied is None '' @ em_dash @ '' state machine is behind. '' @
            ''Do not mix log and state-machine redb files from different backups.''))
      | (Some purged, Some applied) \<Rightarrow>
          if li_index applied < li_index purged
          then Inl (Store (''store consistency violation: log store purged up to index '' @ u64_string (li_index purged) @
            '' but state machine last_applied is index '' @ u64_string (li_index applied) @ '' '' @ em_dash @
            '' state machine is behind. Do not mix log and state-machine redb files from different backups.''))
          else Inr ()
      | _ \<Rightarrow> Inr ())"

end
