(* ===== verification/Raft_State.thy ===== *)
theory Raft_State
  imports Raft_Log Snapshot_Format
begin

text \<open>
  The Raft state machine over the application database,
  \<^verbatim>\<open>consensus/storage/state_machine_store.rs\<close>, the snapshot builder of \<^verbatim>\<open>consensus/snapshot.rs\<close>
  and the check \<^verbatim>\<open>ArrowRaftDriver::start\<close> makes before it hands both stores to \<^verbatim>\<open>openraft\<close>. What is
  in memory (\<open>rs_last_applied\<close>, \<open>rs_last_membership\<close>) is apart from what is in the file (\<open>rs_db\<close>), so
  that a crash is opening the file again. A poisoned mutex and a failure of redb are not modelled.
\<close>

section \<open>State\<close>

record ('l, 'm) stored_membership =
  sm_log_id :: "'l log_id option"
  sm_membership :: 'm

record ('l, 'm) watermark_codec =
  wm_applied :: "'l log_id option postcard"
  wm_membership :: "('l, 'm) stored_membership postcard"

record ('l, 'm) raft_state =
  rs_db :: database
  rs_last_applied :: "'l log_id option"
  rs_last_membership :: "('l, 'm) stored_membership"

definition KEY_SM_LAST_APPLIED :: string where "KEY_SM_LAST_APPLIED = ''sm_last_applied''"
definition KEY_SM_LAST_MEMBERSHIP :: string where "KEY_SM_LAST_MEMBERSHIP = ''sm_last_membership''"

text \<open>\<^verbatim>\<open>open\<close>: the argument \<open>fallback\<close> is \<^verbatim>\<open>StoredMembership::default()\<close>.\<close>

definition open_state ::
  "('l, 'm) watermark_codec \<Rightarrow> ('l, 'm) stored_membership \<Rightarrow> database \<Rightarrow> ('l, 'm) raft_state io_result" where
  "open_state W fallback db0 =
     (let db = db0\<lparr>sm_meta := Some (rd (sm_meta db0))\<rparr>
      in res_bind (case tbl_get (rd (sm_meta db)) KEY_SM_LAST_APPLIED of
             Some v \<Rightarrow> dec (wm_applied W) v | None \<Rightarrow> Inr None) (\<lambda>last_applied.
         res_bind (case tbl_get (rd (sm_meta db)) KEY_SM_LAST_MEMBERSHIP of
             Some v \<Rightarrow> dec (wm_membership W) v | None \<Rightarrow> Inr fallback) (\<lambda>last_membership.
           Inr \<lparr>rs_db = db, rs_last_applied = last_applied, rs_last_membership = last_membership\<rparr>)))"

definition applied_state ::
  "('l, 'm) raft_state \<Rightarrow> 'l log_id option \<times> ('l, 'm) stored_membership" where
  "applied_state s = (rs_last_applied s, rs_last_membership s)"

section \<open>Applying committed entries\<close>

text \<open>
  One entry: what the responder is sent, and the state with the entry applied. A membership entry
  and a blank one only move the watermarks.
\<close>

fun apply_entry ::
  "hasher \<Rightarrow> ('l, 'm) entry \<Rightarrow> ('l, 'm) raft_state \<Rightarrow> consensus_response io_result \<times> ('l, 'm) raft_state" where
  "apply_entry H e s =
     (case en_payload e of
        Blank \<Rightarrow> (Inr ClaimAcked, s\<lparr>rs_last_applied := Some (en_log_id e)\<rparr>)
      | Normal cmd \<Rightarrow>
          (case apply_command H (rs_db s) cmd of
             (Inl err, db) \<Rightarrow> (Inl (''sm_apply: '' @ display_error err), s\<lparr>rs_db := db\<rparr>)
           | (Inr response, db) \<Rightarrow>
               (Inr response, s\<lparr>rs_db := db, rs_last_applied := Some (en_log_id e)\<rparr>))
      | Membership mem \<Rightarrow>
          (Inr ClaimAcked, s\<lparr>rs_last_applied := Some (en_log_id e),
             rs_last_membership := \<lparr>sm_log_id = Some (en_log_id e), sm_membership = mem\<rparr>\<rparr>))"

text \<open>
  The loop over the stream. An item is an entry with a flag, whether it has a responder, or the
  error of the stream; the result lists the responses sent.
\<close>

fun apply_loop ::
  "hasher \<Rightarrow> (string + ('l, 'm) entry \<times> bool) list \<Rightarrow> consensus_response list \<Rightarrow> ('l, 'm) raft_state \<Rightarrow>
     unit io_result \<times> consensus_response list \<times> ('l, 'm) raft_state" where
  "apply_loop H [] sent s = (Inr (), sent, s)"
| "apply_loop H (Inl err # items) sent s = (Inl err, sent, s)"
| "apply_loop H (Inr (e, responder) # items) sent s =
     (case apply_entry H e s of
        (Inl err, s') \<Rightarrow> (Inl err, sent, s')
      | (Inr response, s') \<Rightarrow> apply_loop H items (if responder then sent @ [response] else sent) s')"

text \<open>The two watermarks, written in one transaction.\<close>

definition put_watermarks :: "bytes \<Rightarrow> bytes \<Rightarrow> database \<Rightarrow> database" where
  "put_watermarks applied_bytes membership_bytes db =
     db\<lparr>sm_meta := Some (tbl_insert KEY_SM_LAST_MEMBERSHIP membership_bytes
        (tbl_insert KEY_SM_LAST_APPLIED applied_bytes (rd (sm_meta db))))\<rparr>"

definition persist_watermarks ::
  "('l, 'm) watermark_codec \<Rightarrow> ('l, 'm) raft_state \<Rightarrow> unit io_result \<times> ('l, 'm) raft_state" where
  "persist_watermarks W s =
     (case enc (wm_applied W) (rs_last_applied s) of
        Inl e \<Rightarrow> (Inl e, s)
      | Inr applied_bytes \<Rightarrow>
          (case enc (wm_membership W) (rs_last_membership s) of
             Inl e \<Rightarrow> (Inl e, s)
           | Inr membership_bytes \<Rightarrow>
               (Inr (), s\<lparr>rs_db := put_watermarks applied_bytes membership_bytes (rs_db s)\<rparr>)))"

definition apply_stream ::
  "hasher \<Rightarrow> ('l, 'm) watermark_codec \<Rightarrow> (string + ('l, 'm) entry \<times> bool) list \<Rightarrow> ('l, 'm) raft_state \<Rightarrow>
     unit io_result \<times> consensus_response list \<times> ('l, 'm) raft_state" where
  "apply_stream H W items s =
     (case apply_loop H items [] s of
        (Inl e, sent, s') \<Rightarrow> (Inl e, sent, s')
      | (Inr _, sent, s') \<Rightarrow> (case persist_watermarks W s' of (r, s'') \<Rightarrow> (r, sent, s'')))"

section \<open>Snapshots\<close>

record ('l, 'm) snapshot_meta =
  sn_last_log_id :: "'l log_id option"
  sn_last_membership :: "('l, 'm) stored_membership"

text \<open>
  \<^verbatim>\<open>build_snapshot\<close> of the builder, which holds the watermarks of the moment it was made, and
  \<^verbatim>\<open>get_current_snapshot\<close>.
\<close>

definition build_snapshot ::
  "codec \<Rightarrow> ('l, 'm) raft_state \<Rightarrow> (('l, 'm) snapshot_meta \<times> bytes) io_result" where
  "build_snapshot K builder =
     (case build_snapshot_bytes K (rs_db builder) of
        Inl e \<Rightarrow> Inl (''build_snapshot: '' @ display_error e)
      | Inr payload \<Rightarrow>
          Inr (\<lparr>sn_last_log_id = rs_last_applied builder, sn_last_membership = rs_last_membership builder\<rparr>, payload))"

definition get_current_snapshot ::
  "codec \<Rightarrow> ('l, 'm) raft_state \<Rightarrow> (('l, 'm) snapshot_meta \<times> bytes) option io_result" where
  "get_current_snapshot K s =
     (if rs_last_applied s = None then Inr None
      else case build_snapshot_bytes K (rs_db s) of
        Inl e \<Rightarrow> Inl (''get_current_snapshot build: '' @ display_error e)
      | Inr payload \<Rightarrow>
          Inr (Some (\<lparr>sn_last_log_id = rs_last_applied s, sn_last_membership = rs_last_membership s\<rparr>, payload)))"

text \<open>\<^verbatim>\<open>install_snapshot\<close>: the watermarks in memory move before the file is written.\<close>

definition install_snapshot ::
  "codec \<Rightarrow> ('l, 'm) watermark_codec \<Rightarrow> ('l, 'm) snapshot_meta \<Rightarrow> bytes \<Rightarrow> ('l, 'm) raft_state \<Rightarrow>
     unit io_result \<times> ('l, 'm) raft_state" where
  "install_snapshot K W meta data s0 =
     (let s = s0\<lparr>rs_last_applied := sn_last_log_id meta, rs_last_membership := sn_last_membership meta\<rparr>
      in if data \<noteq> [] then
           (case enc (wm_applied W) (rs_last_applied s) of
              Inl e \<Rightarrow> (Inl e, s)
            | Inr applied_bytes \<Rightarrow>
                (case enc (wm_membership W) (rs_last_membership s) of
                   Inl e \<Rightarrow> (Inl e, s)
                 | Inr membership_bytes \<Rightarrow>
                     (case install_snapshot_bytes K (rs_db s) data (Some (applied_bytes, membership_bytes)) of
                        Inl e \<Rightarrow> (Inl (''install_snapshot: '' @ display_error e), s)
                      | Inr db \<Rightarrow> (Inr (), s\<lparr>rs_db := db\<rparr>))))
         else persist_watermarks W s)"

section \<open>Opening a node directory\<close>

text \<open>The part of \<^verbatim>\<open>ArrowRaftDriver::start\<close> between opening the files and handing them over.\<close>

definition start_stores ::
  "('l, 'm, 'v) log_codec \<Rightarrow> ('l, 'm) watermark_codec \<Rightarrow> ('l, 'm) stored_membership \<Rightarrow> log_store \<Rightarrow> database \<Rightarrow>
     ('l, 'm) raft_state saci_result" where
  "start_stores C W fallback log db =
     (case open_state W fallback db of
        Inl e \<Rightarrow> Inl (Store (''open state machine: '' @ e))
      | Inr state_machine \<Rightarrow>
          (case get_log_state C log of
             Inl e \<Rightarrow> Inl (Store (''read log state: '' @ e))
           | Inr log_state \<Rightarrow>
               res_bind (validate_store_consistency (st_last_purged log_state) (fst (applied_state state_machine)))
                 (\<lambda>_. Inr state_machine)))"

end
