(* ===== verification/Raft_Log_Properties.thy ===== *)
theory Raft_Log_Properties
  imports Raft_Log
begin

text \<open>
  The abstract Raft log (a vote, a purge point, a gap-free list of entries after it) and the
  refinement: under the calls \<^verbatim>\<open>openraft\<close> makes, every operation of the store does to the two redb
  tables what the abstract operation does to the list, answers the same, and keeps the log
  gap-free.
\<close>

section \<open>The abstract log\<close>

record ('l, 'm, 'v) abs_log =
  al_vote :: "'v option"
  al_purged :: "'l log_id option"
  al_entries :: "('l, 'm) entry list"

abbreviation idx :: "('l, 'm) entry \<Rightarrow> u64" where "idx e \<equiv> li_index (en_log_id e)"

datatype ('l, 'm, 'v) log_op =
    Op_Save_Vote 'v
  | Op_Append "('l, 'm) entry list"
  | Op_Truncate "'l log_id option"
  | Op_Purge "'l log_id"

definition abs_last :: "('l, 'm, 'v) abs_log \<Rightarrow> 'l log_id option" where
  "abs_last a = (if al_entries a = [] then al_purged a else Some (en_log_id (last (al_entries a))))"

fun abs_step :: "('l, 'm, 'v) log_op \<Rightarrow> ('l, 'm, 'v) abs_log \<Rightarrow> ('l, 'm, 'v) abs_log" where
  "abs_step (Op_Save_Vote v) a = a\<lparr>al_vote := Some v\<rparr>"
| "abs_step (Op_Append es) a = a\<lparr>al_entries := al_entries a @ es\<rparr>"
| "abs_step (Op_Truncate keep) a = a\<lparr>al_entries :=
     (case keep of None \<Rightarrow> [] | Some l \<Rightarrow> filter (\<lambda>e. idx e \<le> li_index l) (al_entries a))\<rparr>"
| "abs_step (Op_Purge l) a = a\<lparr>al_purged := Some l,
     al_entries := filter (\<lambda>e. li_index l < idx e) (al_entries a)\<rparr>"

text \<open>The index the next entry must have: the one after the last, \<open>0\<close> in a log that never had one.\<close>

definition next_index :: "('l, 'm, 'v) abs_log \<Rightarrow> nat" where
  "next_index a = (case abs_last a of None \<Rightarrow> 0 | Some l \<Rightarrow> unat (li_index l) + 1)"

definition first_index :: "('l, 'm, 'v) abs_log \<Rightarrow> nat" where
  "first_index a = (case al_purged a of None \<Rightarrow> 0 | Some l \<Rightarrow> unat (li_index l) + 1)"

definition numbered :: "nat \<Rightarrow> ('l, 'm) entry list \<Rightarrow> bool" where
  "numbered n es \<longleftrightarrow> map (\<lambda>e. unat (idx e)) es = [n ..< n + length es]"

definition gap_free :: "('l, 'm, 'v) abs_log \<Rightarrow> bool" where
  "gap_free a \<longleftrightarrow> numbered (first_index a) (al_entries a)"

text \<open>
  The calls of \<^verbatim>\<open>openraft\<close>: appended entries continue the log, a truncation keeps what is purged,
  and an index leaves room for its successor.
\<close>

fun op_allowed :: "('l, 'm, 'v) log_op \<Rightarrow> ('l, 'm, 'v) abs_log \<Rightarrow> bool" where
  "op_allowed (Op_Append es) a \<longleftrightarrow> numbered (next_index a) es"
| "op_allowed (Op_Truncate keep) a \<longleftrightarrow> (\<forall>l. keep = Some l \<longrightarrow> li_index l < - 1)"
| "op_allowed (Op_Purge l) a \<longleftrightarrow> (\<forall>p. al_purged a = Some p \<longrightarrow> li_index p \<le> li_index l)"
| "op_allowed _ a \<longleftrightarrow> True"

section \<open>The concrete log\<close>

definition faithful :: "'x postcard \<Rightarrow> bool" where
  "faithful P \<longleftrightarrow> (\<forall>v b. to_allocvec P v = Inr b \<longrightarrow> from_bytes P b = Inr v)"

definition row_of :: "('l, 'm, 'v) log_codec \<Rightarrow> ('l, 'm) entry \<Rightarrow> u64 \<times> bytes \<Rightarrow> bool" where
  "row_of C e r \<longleftrightarrow> fst r = idx e \<and> enc (lc_entry C) e = Inr (snd r)"

definition encoded_option :: "'x postcard \<Rightarrow> 'x option \<Rightarrow> bytes option \<Rightarrow> bool" where
  "encoded_option P v b \<longleftrightarrow> (case v of None \<Rightarrow> b = None | Some x \<Rightarrow> \<exists>c. b = Some c \<and> enc P x = Inr c)"

definition represents :: "('l, 'm, 'v) log_codec \<Rightarrow> log_store \<Rightarrow> ('l, 'm, 'v) abs_log \<Rightarrow> bool" where
  "represents C s a \<longleftrightarrow> tbl_wf (ls_meta s) \<and> tbl_wf (ls_entries s) \<and>
     encoded_option (lc_vote C) (al_vote a) (tbl_get (ls_meta s) KEY_VOTE) \<and>
     encoded_option (lc_log_id C) (al_purged a) (tbl_get (ls_meta s) KEY_PURGED_LOG_ID) \<and>
     list_all2 (row_of C) (al_entries a) (ls_entries s)"

fun log_step :: "('l, 'm, 'v) log_codec \<Rightarrow> ('l, 'm, 'v) log_op \<Rightarrow> log_store \<Rightarrow> unit io_result \<times> log_store" where
  "log_step C (Op_Save_Vote v) s = save_vote C s v"
| "log_step C (Op_Append es) s = (case append_entries C s es of (r, flushed, s') \<Rightarrow> (r, s'))"
| "log_step C (Op_Truncate keep) s = (Inr (), truncate_after s keep)"
| "log_step C (Op_Purge l) s = purge C s l"

section \<open>Encoding\<close>

lemma enc_dec: "faithful P \<Longrightarrow> enc P v = Inr b \<Longrightarrow> dec P b = Inr v"
  by (auto simp: faithful_def enc_def dec_def split: sum.splits)

lemma encode_entries_rows:
  "encode_entries (lc_entry C) es = Inr rows \<longleftrightarrow> list_all2 (row_of C) es rows"
proof (induction es arbitrary: rows)
  case (Cons e es)
  show ?case
    by (cases rows) (auto simp: res_bind_eq_Inr Cons.IH row_of_def list_all2_Cons1)
qed auto

lemma decode_rows_rows:
  assumes "faithful (lc_entry C)" "list_all2 (row_of C) es rows"
  shows "decode_rows (lc_entry C) rows out = Inr (out @ es)"
  using assms(2)
proof (induction es rows arbitrary: out rule: list_all2_induct)
  case (Cons e es r rows)
  then show ?case using enc_dec [OF assms(1)] by (cases r) (auto simp: row_of_def)
qed simp

lemma decode_option_encoded:
  "faithful P \<Longrightarrow> encoded_option P v b \<Longrightarrow> decode_option P b = Inr v"
  by (auto simp: encoded_option_def decode_option_def enc_dec split: option.splits)

section \<open>Tables\<close>

lemma rows_keys: "list_all2 (row_of C) es rows \<Longrightarrow> map fst rows = map idx es"
  by (induction es rows rule: list_all2_induct) (auto simp: row_of_def)

lemma rows_filter:
  "list_all2 (row_of C) es rows \<Longrightarrow>
     list_all2 (row_of C) (filter (\<lambda>e. P (idx e)) es) (filter (\<lambda>r. P (fst r)) rows)"
  by (induction es rows rule: list_all2_induct) (auto simp: row_of_def)

lemma fold_remove: "fold tbl_remove ks t = filter (\<lambda>r. fst r \<notin> set ks) t"
  by (induction ks arbitrary: t) (auto simp: tbl_remove_def intro: filter_cong)

lemma remove_range:
  "fold tbl_remove (map fst (rows_in_range rg t)) t = filter (\<lambda>r. \<not> in_bounds rg (fst r)) t"
  unfolding fold_remove rows_in_range_def tbl_iter_def by (rule filter_cong) force+

lemma insert_last:
  "(\<forall>r \<in> set t. fst r < k) \<Longrightarrow> tbl_insert k v t = t @ [(k, v)]"
  by (induction t) auto

lemma insert_rows:
  "sorted_wrt (<) (map fst (t @ rows)) \<Longrightarrow> fold (\<lambda>(k, b). tbl_insert k b) rows t = t @ rows"
proof (induction rows arbitrary: t)
  case (Cons r rows)
  obtain k b where r: "r = (k, b)" by (cases r)
  have "tbl_insert k b t = t @ [(k, b)]"
    by (rule insert_last) (use Cons.prems r in \<open>auto simp: sorted_wrt_append\<close>)
  then show ?case using Cons.IH [of "t @ [r]"] Cons.prems r by simp
qed simp


section \<open>Numbers\<close>

lemma numbered_Nil [simp]: "numbered n []"
  by (simp add: numbered_def)

lemma numbered_Cons [simp]: "numbered n (e # es) \<longleftrightarrow> unat (idx e) = n \<and> numbered (Suc n) es"
  using upt_conv_Cons [of n "n + length (e # es)"] by (simp add: numbered_def del: upt_Suc)

lemma numbered_append: "numbered n (es @ es') \<longleftrightarrow> numbered n es \<and> numbered (n + length es) es'"
  by (induction es arbitrary: n) auto

lemma numbered_ge: "numbered n es \<Longrightarrow> e \<in> set es \<Longrightarrow> n \<le> unat (idx e)"
  by (induction es arbitrary: n) (auto dest: Suc_leD)

lemma numbered_upto:
  "numbered n es \<Longrightarrow> numbered n (filter (\<lambda>e. unat (idx e) \<le> k) es)"
proof (induction es arbitrary: n)
  case (Cons e es)
  have "filter (\<lambda>e. unat (idx e) \<le> k) es = []" if "k < n"
    using numbered_ge [of "Suc n" es] Cons.prems that by (fastforce simp: filter_empty_conv)
  then show ?case using Cons by auto
qed simp

lemma numbered_above:
  "numbered n es \<Longrightarrow> n \<le> Suc k \<Longrightarrow> numbered (Suc k) (filter (\<lambda>e. k < unat (idx e)) es)"
proof (induction es arbitrary: n)
  case (Cons e es)
  have "filter (\<lambda>e. k < unat (idx e)) es = es" if "n = Suc k"
    using numbered_ge [of "Suc n" es] Cons.prems that by (fastforce simp: filter_id_conv)
  then show ?case using Cons by (cases "n = Suc k") auto
qed simp

lemma numbered_last:
  "numbered n es \<Longrightarrow> es \<noteq> [] \<Longrightarrow> unat (idx (last es)) + 1 = n + length es"
proof (induction es arbitrary: n)
  case (Cons e es)
  then show ?case using Cons.IH [of "Suc n"] by (cases es) auto
qed simp

lemma numbered_sorted: "numbered n es \<Longrightarrow> sorted_wrt (<) (map idx es)"
proof -
  assume "numbered n es"
  then have "map unat (map idx es) = [n ..< n + length es]" by (simp add: numbered_def comp_def)
  then have "sorted_wrt (<) (map unat (map idx es))" by simp
  then show ?thesis by (simp add: sorted_wrt_map word_less_nat_alt)
qed

lemma next_index_length: "gap_free a \<Longrightarrow> next_index a = first_index a + length (al_entries a)"
  using numbered_last [of "first_index a" "al_entries a"]
  by (auto simp: gap_free_def next_index_def abs_last_def first_index_def)

lemma gap_free_step:
  assumes "gap_free a" "op_allowed op a"
  shows "gap_free (abs_step op a)"
proof (cases op)
  case (Op_Save_Vote v)
  then show ?thesis using assms by (simp add: gap_free_def first_index_def)
next
  case (Op_Append es)
  then show ?thesis using assms next_index_length [OF assms(1)]
    by (simp add: gap_free_def first_index_def numbered_append)
next
  case (Op_Truncate keep)
  then show ?thesis using assms
    by (auto simp: gap_free_def first_index_def word_le_nat_alt numbered_upto split: option.splits)
next
  case (Op_Purge l)
  have "first_index a \<le> Suc (unat (li_index l))"
    using assms Op_Purge by (auto simp: first_index_def word_le_nat_alt split: option.splits)
  then show ?thesis using assms Op_Purge numbered_above
    by (auto simp: gap_free_def first_index_def word_less_nat_alt)
qed

section \<open>The refinement\<close>

lemma encoded_Some: "enc P x = Inr b \<Longrightarrow> encoded_option P (Some x) (Some b)"
  by (simp add: encoded_option_def)

lemma keys_distinct: "KEY_VOTE \<noteq> KEY_PURGED_LOG_ID"
  by (simp add: KEY_VOTE_def KEY_PURGED_LOG_ID_def)

lemma append_refines:
  assumes r: "represents C s a" and g: "gap_free a" "numbered (next_index a) es"
    and ok: "encode_entries (lc_entry C) es = Inr rows"
  shows "represents C (s\<lparr>ls_entries := fold (\<lambda>(i, b). tbl_insert i b) rows (ls_entries s)\<rparr>)
    (abs_step (Op_Append es) a)"
proof -
  have rows: "list_all2 (row_of C) (al_entries a @ es) (ls_entries s @ rows)"
    using r ok by (auto simp: represents_def encode_entries_rows intro: list_all2_appendI)
  have "numbered (first_index a) (al_entries a @ es)"
    using g next_index_length [OF g(1)] by (simp add: numbered_append gap_free_def)
  then have sorted: "sorted_wrt (<) (map fst (ls_entries s @ rows))"
    using rows_keys [OF rows] numbered_sorted by metis
  then show ?thesis using r rows insert_rows [OF sorted]
    by (simp add: represents_def tbl_wf_def)
qed

lemma truncate_refines:
  assumes r: "represents C s a" and l: "\<forall>l. keep = Some l \<longrightarrow> li_index l < - 1"
  shows "represents C (truncate_after s keep) (abs_step (Op_Truncate keep) a)"
proof (cases keep)
  case None
  then have "ls_entries (truncate_after s keep) = []"
    by (simp add: truncate_after_def remove_range in_bounds_def)
  then show ?thesis using r None by (simp add: represents_def truncate_after_def)
next
  case (Some l)
  have succ: "\<not> (li_index l + 1 \<le> k) \<longleftrightarrow> k \<le> li_index l" for k :: u64
  proof -
    have "1 + li_index l \<noteq> 0" using l Some by (metis add.commute add_eq_0_iff order_less_irrefl)
    then have "unat (li_index l + 1) = Suc (unat (li_index l))" using unatSuc by (metis add.commute)
    then show ?thesis by (auto simp: word_le_nat_alt)
  qed
  have "ls_entries (truncate_after s keep) = filter (\<lambda>r. fst r \<le> li_index l) (ls_entries s)"
    using Some by (simp add: truncate_after_def remove_range in_bounds_def succ)
  moreover have "list_all2 (row_of C) (filter (\<lambda>e. idx e \<le> li_index l) (al_entries a))
      (filter (\<lambda>r. fst r \<le> li_index l) (ls_entries s))"
    by (rule rows_filter) (use r in \<open>simp add: represents_def\<close>)
  ultimately show ?thesis using r Some
    by (simp add: represents_def tbl_wf_filter) (simp add: truncate_after_def)
qed


lemma purge_refines:
  assumes r: "represents C s a" and ok: "enc (lc_log_id C) l = Inr marker"
  shows "represents C (snd (purge C s l)) (abs_step (Op_Purge l) a)"
proof -
  have "ls_entries (snd (purge C s l)) = filter (\<lambda>r. li_index l < fst r) (ls_entries s)"
    using ok by (simp add: purge_def Let_def remove_range in_bounds_def not_le)
  moreover have "list_all2 (row_of C) (filter (\<lambda>e. li_index l < idx e) (al_entries a))
      (filter (\<lambda>r. li_index l < fst r) (ls_entries s))"
    by (rule rows_filter) (use r in \<open>simp add: represents_def\<close>)
  moreover have "ls_meta (snd (purge C s l)) = tbl_insert KEY_PURGED_LOG_ID marker (ls_meta s)"
    using ok by (simp add: purge_def Let_def)
  ultimately show ?thesis using r ok keys_distinct
    by (auto simp: represents_def tbl_wf_filter tbl_wf_insert tbl_get_insert_apply encoded_Some)
qed

lemma vote_refines:
  assumes r: "represents C s a" and ok: "enc (lc_vote C) v = Inr b"
  shows "represents C (s\<lparr>ls_meta := tbl_insert KEY_VOTE b (ls_meta s)\<rparr>) (abs_step (Op_Save_Vote v) a)"
  using r ok keys_distinct [symmetric]
  by (auto simp: represents_def tbl_wf_insert tbl_get_insert_apply encoded_Some)

lemma step_refines:
  assumes "represents C s a" "gap_free a" "op_allowed op a" "log_step C op s = (r, s')"
  shows "(r = Inr () \<and> represents C s' (abs_step op a)) \<or> (r \<noteq> Inr () \<and> s' = s)"
proof (cases op)
  case (Op_Save_Vote v)
  then show ?thesis using assms vote_refines [OF assms(1)] by (auto simp: save_vote_def split: sum.splits)
next
  case (Op_Append es)
  then show ?thesis using assms append_refines [OF assms(1,2)]
    by (auto simp: append_entries_def split: sum.splits)
next
  case (Op_Truncate keep)
  then show ?thesis using assms truncate_refines [OF assms(1)] by auto
next
  case (Op_Purge l)
  then show ?thesis using assms purge_refines [OF assms(1), of l]
    by (cases "enc (lc_log_id C) l") (auto simp: purge_def Let_def)
qed

definition codec_faithful :: "('l, 'm, 'v) log_codec \<Rightarrow> bool" where
  "codec_faithful C \<longleftrightarrow> faithful (lc_log_id C) \<and> faithful (lc_entry C) \<and> faithful (lc_vote C)"

lemma entries_read:
  assumes "codec_faithful C" "represents C s a"
  shows "try_get_log_entries C s rg = Inr (filter (\<lambda>e. in_bounds rg (idx e)) (al_entries a))"
proof -
  have own: "owned_bounds rg = rg" by (cases rg) (auto simp: owned_bounds_def split: bound.splits)
  have "list_all2 (row_of C) (filter (\<lambda>e. in_bounds rg (idx e)) (al_entries a))
      (filter (\<lambda>r. in_bounds rg (fst r)) (ls_entries s))"
    by (rule rows_filter) (use assms in \<open>simp add: represents_def\<close>)
  then show ?thesis using decode_rows_rows [of C] assms(1)
    by (simp add: try_get_log_entries_def rows_in_range_def tbl_iter_def own codec_faithful_def split_def)
qed

lemma vote_read: "codec_faithful C \<Longrightarrow> represents C s a \<Longrightarrow> read_vote C s = Inr (al_vote a)"
  by (auto simp: read_vote_def represents_def codec_faithful_def intro: decode_option_encoded)

lemma state_read:
  assumes c: "codec_faithful C" and r: "represents C s a"
  shows "get_log_state C s = Inr \<lparr>st_last_purged = al_purged a, st_last = abs_last a\<rparr>"
proof -
  have p: "decode_option (lc_log_id C) (tbl_get (ls_meta s) KEY_PURGED_LOG_ID) = Inr (al_purged a)"
    using c r by (auto simp: represents_def codec_faithful_def intro: decode_option_encoded)
  have rows: "list_all2 (row_of C) (al_entries a) (ls_entries s)" using r by (simp add: represents_def)
  have "last_entry_id C s = Inr (if al_entries a = [] then None else Some (en_log_id (last (al_entries a))))"
  proof (cases "al_entries a = []")
    case True
    then show ?thesis using rows by (simp add: last_entry_id_def tbl_iter_def)
  next
    case False
    then have ne: "ls_entries s \<noteq> []" using rows by auto
    have "row_of C (last (al_entries a)) (last (ls_entries s))"
      using rows False ne by (simp add: last_conv_nth list_all2_conv_all_nth)
    then have "dec (lc_entry C) (snd (last (ls_entries s))) = Inr (last (al_entries a))"
      using c by (auto simp: row_of_def codec_faithful_def intro: enc_dec)
    then show ?thesis using ne False by (simp add: last_entry_id_def tbl_iter_def)
  qed
  then show ?thesis using p by (simp add: get_log_state_def abs_last_def)
qed

text \<open>
  C8. The log store implements the abstract Raft log. Where the tables represent a gap-free log
  and \<^verbatim>\<open>openraft\<close> makes a call it may make, the operation either succeeds, and then the tables
  represent the log after the abstract operation, which is gap-free again, or an encoding failed
  and nothing changed; and the reads (the vote, the log state with its fallback to the purge
  point, any range of entries) answer from the abstract log.
\<close>

theorem log_store_refines:
  assumes "codec_faithful C" "represents C s a" "gap_free a" "op_allowed op a"
  shows "(case log_step C op s of (r, s') \<Rightarrow>
      r = Inr () \<and> represents C s' (abs_step op a) \<and> gap_free (abs_step op a) \<or> r \<noteq> Inr () \<and> s' = s) \<and>
    read_vote C s = Inr (al_vote a) \<and>
    get_log_state C s = Inr \<lparr>st_last_purged = al_purged a, st_last = abs_last a\<rparr> \<and>
    try_get_log_entries C s rg = Inr (filter (\<lambda>e. in_bounds rg (idx e)) (al_entries a))"
  using step_refines [OF assms(2-4)] gap_free_step [OF assms(3,4)] vote_read [OF assms(1,2)]
    state_read [OF assms(1,2)] entries_read [OF assms(1,2)]
  by (cases "log_step C op s") blast


section \<open>A concrete log\<close>

text \<open>Encodings that write the index alone, for entries without payload.\<close>

definition index_codec :: "(unit, unit, u64) log_codec" where
  "index_codec = \<lparr>
     lc_log_id = \<lparr>to_allocvec = (\<lambda>l. Inr (u64_be (li_index l))),
       from_bytes = (\<lambda>b. Inr \<lparr>li_leader = (), li_index = word_of_nat (from_be_bytes b)\<rparr>)\<rparr>,
     lc_entry = \<lparr>to_allocvec = (\<lambda>e. case en_payload e of Blank \<Rightarrow> Inr (u64_be (li_index (en_log_id e))) | _ \<Rightarrow> Inl ''payload''),
       from_bytes = (\<lambda>b. Inr \<lparr>en_log_id = \<lparr>li_leader = (), li_index = word_of_nat (from_be_bytes b)\<rparr>, en_payload = Blank\<rparr>)\<rparr>,
     lc_vote = \<lparr>to_allocvec = (\<lambda>v. Inr (u64_be v)), from_bytes = (\<lambda>b. Inr (word_of_nat (from_be_bytes b)))\<rparr>\<rparr>"

definition blank_at :: "u64 \<Rightarrow> (unit, unit) entry" where
  "blank_at i = \<lparr>en_log_id = \<lparr>li_leader = (), li_index = i\<rparr>, en_payload = Blank\<rparr>"

lemma u64_be_word: "word_of_nat (from_be_bytes (u64_be x)) = x"
  using unat_u64_bound [of x] by (simp add: u64_be_def from_be_be_bytes)

lemma index_codec_faithful: "codec_faithful index_codec"
  by (auto simp: codec_faithful_def faithful_def index_codec_def u64_be_word split: entry_payload.splits)

definition short_log :: log_store where
  "short_log = \<lparr>ls_meta = [(''purged_log_id'', u64_be 4)], ls_entries = [(5, u64_be 5), (6, u64_be 6)]\<rparr>"

definition short_abs :: "(unit, unit, u64) abs_log" where
  "short_abs = \<lparr>al_vote = None, al_purged = Some \<lparr>li_leader = (), li_index = 4\<rparr>, al_entries = [blank_at 5, blank_at 6]\<rparr>"

lemma short_represents: "represents index_codec short_log short_abs"
  by (simp add: represents_def short_log_def short_abs_def tbl_wf_def tbl_get_def encoded_option_def row_of_def
      index_codec_def blank_at_def enc_def KEY_VOTE_def KEY_PURGED_LOG_ID_def)

lemma short_gap_free: "gap_free short_abs"
  by (simp add: gap_free_def short_abs_def first_index_def blank_at_def)

theorem log_store_refines_witness:
  "represents index_codec (snd (log_step index_codec (Op_Append [blank_at 7]) short_log))
     (abs_step (Op_Append [blank_at 7]) short_abs) \<and>
   get_log_state index_codec short_log =
     Inr \<lparr>st_last_purged = Some \<lparr>li_leader = (), li_index = 4\<rparr>, st_last = Some \<lparr>li_leader = (), li_index = 6\<rparr>\<rparr>"
proof -
  have "op_allowed (Op_Append [blank_at 7]) short_abs"
    by (simp add: next_index_def abs_last_def short_abs_def blank_at_def)
  from log_store_refines [OF index_codec_faithful short_represents short_gap_free this]
  show ?thesis
    by (simp add: append_entries_def index_codec_def enc_def blank_at_def short_abs_def abs_last_def)
qed

section \<open>Restarting\<close>

definition entries_after :: "('l, 'm, 'v) log_codec \<Rightarrow> log_store \<Rightarrow> 'l log_id option \<Rightarrow> ('l, 'm) entry list io_result" where
  "entries_after C s applied =
     try_get_log_entries C s (case applied of None \<Rightarrow> Unbounded | Some l \<Rightarrow> Excluded (li_index l), Unbounded)"

lemma suffix_numbered:
  assumes "numbered n es" "n \<le> Suc k"
  shows "numbered (Suc k) (filter (\<lambda>e. k < unat (idx e)) es) \<and>
    Suc k + length (filter (\<lambda>e. k < unat (idx e)) es) = max (Suc k) (n + length es)"
  using assms
proof (induction es arbitrary: n)
  case (Cons e es)
  have "filter (\<lambda>e. k < unat (idx e)) es = es" if "n = Suc k"
    using numbered_ge [of "Suc n" es] Cons.prems that by (fastforce simp: filter_id_conv)
  then show ?case using Cons.IH [of "Suc n"] Cons.prems by (cases "n = Suc k") auto
qed simp

text \<open>
  C9. A node that passes the startup guard can catch up from its own log: when the tables
  represent a gap-free log and \<^verbatim>\<open>validate_store_consistency\<close> accepts its purge point against the
  applied watermark, the entries stored after the watermark begin with the very next index and
  reach the end of the log without a hole (there are none when the watermark is ahead of it).
\<close>

theorem guard_leaves_no_hole:
  assumes "codec_faithful C" "represents C s a" "gap_free a"
    and "validate_store_consistency (al_purged a) applied = Inr ()"
    and "start = (case applied of None \<Rightarrow> 0 | Some l \<Rightarrow> unat (li_index l) + 1)"
  shows "\<exists>es. entries_after C s applied = Inr es \<and> numbered start es \<and>
    start + length es = max start (next_index a)"
proof (cases applied)
  case None
  then have "al_purged a = None" using assms(4)
    by (auto simp: validate_store_consistency_def split: option.splits)
  then show ?thesis using assms(3,5) None entries_read [OF assms(1,2)] next_index_length [OF assms(3)]
    by (simp add: entries_after_def in_bounds_def gap_free_def first_index_def)
next
  case (Some l)
  have "first_index a \<le> Suc (unat (li_index l))"
    using assms(4) Some
    by (auto simp: validate_store_consistency_def first_index_def word_less_nat_alt split: option.splits if_splits)
  then show ?thesis
    using suffix_numbered [of "first_index a" "al_entries a" "unat (li_index l)"] assms(3,5) Some
      entries_read [OF assms(1,2)] next_index_length [OF assms(3)]
    by (simp add: entries_after_def in_bounds_def gap_free_def word_less_nat_alt)
qed

theorem guard_leaves_no_hole_witness:
  "\<exists>es. entries_after index_codec short_log (Some \<lparr>li_leader = (), li_index = 5\<rparr>) = Inr es \<and> length es = 1"
proof -
  have "validate_store_consistency (al_purged short_abs) (Some \<lparr>li_leader = (), li_index = 5\<rparr>) = Inr ()"
    by (simp add: validate_store_consistency_def short_abs_def)
  from guard_leaves_no_hole [OF index_codec_faithful short_represents short_gap_free this refl]
  show ?thesis by (auto simp: next_index_def abs_last_def short_abs_def blank_at_def)
qed

end
