(* ===== verification/Raft_State_Properties.thy ===== *)
theory Raft_State_Properties
  imports Raft_State Sm_Properties Raft_Log_Properties
begin

text \<open>
  What a node's application tables hold after any history of applied batches, crashes in the
  middle of one and restarts: the commands of the log, each at least once, and never fewer than
  the watermark says. The frame lemma shows that the watermark table and the application tables do
  not see each other.
\<close>

section \<open>The watermark table is apart\<close>

abbreviation with_meta :: "(string, bytes) table option \<Rightarrow> database \<Rightarrow> database" where
  "with_meta m db \<equiv> db\<lparr>sm_meta := m\<rparr>"

lemma put_claim_meta: "put_claim c r (with_meta m db) = with_meta m (put_claim c r db)"
  by (simp add: put_claim_def)

lemma increment_meta: "increment_release_attempts b (with_meta m db) = with_meta m (increment_release_attempts b db)"
  by (simp add: increment_release_attempts_def Let_def split: option.split)

lemma reset_meta: "reset_release_attempts b (with_meta m db) = with_meta m (reset_release_attempts b db)"
  by (simp add: reset_release_attempts_def Let_def split: option.split)

lemma fold_reclaim_meta: "fold reclaim_one es (with_meta m db) = with_meta m (fold reclaim_one es db)"
  by (induction es arbitrary: db) (simp_all add: reclaim_one_def put_claim_meta)

lemma fold_increment_meta:
  "fold increment_release_attempts bs (with_meta m db) = with_meta m (fold increment_release_attempts bs db)"
  by (induction bs arbitrary: db) (simp_all add: increment_meta)

lemma bump_meta:
  "bump_checkpoint_seq b (with_meta m db) = apsnd (with_meta m) (bump_checkpoint_seq b db)"
  by (simp add: bump_checkpoint_seq_def Let_def split: option.split)

definition meta_free :: "(database \<Rightarrow> handler_result) \<Rightarrow> bool" where
  "meta_free f \<longleftrightarrow> (\<forall>m db. f (with_meta m db) = apsnd (with_meta m) (f db))"

lemma claim_meta: "meta_free (\<lambda>db. apply_claim_row_range db b s e c i ttl now)"
  by (simp add: meta_free_def apply_claim_row_range_def claim_replay_def claim_precheck_def put_claim_meta Let_def
      split: option.split sum.split bool.split)

lemma pending_meta: "(with_meta m db)\<lparr>pending_batches := t\<rparr> = with_meta m (db\<lparr>pending_batches := t\<rparr>)"
  by simp

lemma ack_meta: "meta_free (\<lambda>db. apply_ack_claim db c i)"
  by (simp add: meta_free_def apply_ack_claim_def put_claim_meta pending_meta reset_meta Let_def
      split: option.split sum.split)

lemma reclaim_meta: "meta_free (\<lambda>db. apply_reclaim_expired db now)"
  by (simp add: meta_free_def apply_reclaim_expired_def fold_reclaim_meta fold_increment_meta Let_def
      split: option.split sum.split)

lemma apply_command_meta: "meta_free (\<lambda>db. apply_command H db cmd)"
proof (cases cmd)
  case (RegisterMasterBatch b c s i t n)
  then show ?thesis by (simp add: meta_free_def apply_register_master_batch_def Let_def)
next
  case (ClaimRowRange b s e c i ttl now)
  then show ?thesis using claim_meta by simp
next
  case (RenewClaim c i ttl now)
  then show ?thesis
    by (simp add: meta_free_def apply_renew_claim_def Let_def split: option.split)
next
  case (AckClaim c i)
  then show ?thesis using ack_meta by simp
next
  case (ReleaseClaim c i)
  then show ?thesis
    by (simp add: meta_free_def apply_release_claim_def put_claim_meta increment_meta Let_def split: option.split)
next
  case (Checkpoint c s ipc sid now)
  then show ?thesis
    by (simp add: meta_free_def apply_checkpoint_def checkpoint_batch_id_def bump_meta Let_def
        split: option.split sum.split prod.split)
next
  case (Heartbeat i t)
  then show ?thesis by (simp add: meta_free_def apply_heartbeat_def)
next
  case (ReclaimExpired now)
  then show ?thesis using reclaim_meta by simp
next
  case (PoisonBatch b now)
  then show ?thesis
    by (simp add: meta_free_def apply_poison_batch_def Let_def split: option.split)
qed


section \<open>A batch\<close>

definition entry_commands :: "('l, 'm) entry \<Rightarrow> consensus_command list" where
  "entry_commands e = (case en_payload e of Normal cmd \<Rightarrow> [cmd] | _ \<Rightarrow> [])"

definition commands_of :: "('l, 'm) entry list \<Rightarrow> consensus_command list" where
  "commands_of es = concat (map entry_commands es)"

definition member_after :: "('l, 'm) entry \<Rightarrow> ('l, 'm) stored_membership \<Rightarrow> ('l, 'm) stored_membership" where
  "member_after e m = (case en_payload e of
     Membership mem \<Rightarrow> \<lparr>sm_log_id = Some (en_log_id e), sm_membership = mem\<rparr> | _ \<Rightarrow> m)"

definition feed :: "(('l, 'm) entry \<Rightarrow> bool) \<Rightarrow> ('l, 'm) entry list \<Rightarrow> (string + ('l, 'm) entry \<times> bool) list" where
  "feed responds es = map (\<lambda>e. Inr (e, responds e)) es"

lemma run_commands_append: "run_commands H db (xs @ ys) = run_commands H (run_commands H db xs) ys"
  by (induction xs arbitrary: db) auto

lemma apply_entry_db:
  assumes "apply_entry H e s = (Inr r, s')" "rs_db s = with_meta m D"
  shows "rs_db s' = with_meta m (run_commands H D (entry_commands e))"
    "rs_last_applied s' = Some (en_log_id e)" "rs_last_membership s' = member_after e (rs_last_membership s)"
proof -
  have free: "apply_command H (with_meta m D) cmd = apsnd (with_meta m) (apply_command H D cmd)" for cmd
    using apply_command_meta [of H cmd] by (simp add: meta_free_def)
  show "rs_db s' = with_meta m (run_commands H D (entry_commands e))"
    "rs_last_applied s' = Some (en_log_id e)" "rs_last_membership s' = member_after e (rs_last_membership s)"
    using assms
    by (auto simp: entry_commands_def member_after_def free apsnd_def map_prod_def
        split: entry_payload.splits prod.splits sum.splits)
qed

lemma apply_loop_db:
  assumes "apply_loop H (feed responds es) sent s = (Inr (), out, s')" "rs_db s = with_meta m D"
  shows "rs_db s' = with_meta m (run_commands H D (commands_of es)) \<and>
    rs_last_applied s' = (if es = [] then rs_last_applied s else Some (en_log_id (last es))) \<and>
    rs_last_membership s' = fold member_after es (rs_last_membership s)"
  using assms
proof (induction es arbitrary: sent s D)
  case Nil
  then show ?case by (simp add: feed_def commands_of_def)
next
  case (Cons e es)
  obtain r s1 where e: "apply_entry H e s = (Inr r, s1)"
    using Cons.prems(1) by (cases "apply_entry H e s") (auto simp: feed_def split: sum.splits)
  obtain sent' where "apply_loop H (feed responds es) sent' s1 = (Inr (), out, s')"
    using Cons.prems(1) e by (auto simp: feed_def)
  from Cons.IH [OF this apply_entry_db(1) [OF e Cons.prems(2)]] apply_entry_db(2,3) [OF e Cons.prems(2)]
  show ?case by (auto simp: commands_of_def run_commands_append)
qed

section \<open>Histories of a node\<close>

definition applied_count :: "('l, 'm) raft_state \<Rightarrow> nat" where
  "applied_count s = (case rs_last_applied s of None \<Rightarrow> 0 | Some l \<Rightarrow> unat (li_index l) + 1)"

text \<open>
  A node over the committed log, whose entry at position \<open>i\<close> has index \<open>i\<close>. \<^verbatim>\<open>openraft\<close> feeds it the
  entries after its watermark. A batch goes through; or the process dies after some entries of it,
  before the watermarks are written, and opens the file again. The state carries the positions
  applied so far, in order, and the number of crashes.
\<close>

inductive node ::
  "hasher \<Rightarrow> ('l, 'm) watermark_codec \<Rightarrow> ('l, 'm) stored_membership \<Rightarrow> ('l, 'm) entry list \<Rightarrow>
     ('l, 'm) raft_state \<Rightarrow> nat list \<Rightarrow> nat \<Rightarrow> bool" for H W fallback log where
  node_open: "open_state W fallback empty_database = Inr s \<Longrightarrow> node H W fallback log s [] 0"
| node_batch: "node H W fallback log s t c \<Longrightarrow> n = applied_count s \<Longrightarrow> n + k \<le> length log \<Longrightarrow>
     apply_stream H W (feed responds (take k (drop n log))) s = (Inr (), out, s') \<Longrightarrow>
     node H W fallback log s' (t @ [n ..< n + k]) c"
| node_crash: "node H W fallback log s t c \<Longrightarrow> n = applied_count s \<Longrightarrow> n + k \<le> length log \<Longrightarrow>
     apply_loop H (feed responds (take k (drop n log))) [] s = (Inr (), out, s') \<Longrightarrow>
     open_state W fallback (rs_db s') = Inr s'' \<Longrightarrow> node H W fallback log s'' (t @ [n ..< n + k]) (Suc c)"

definition in_log_order :: "nat list \<Rightarrow> bool" where
  "in_log_order t \<longleftrightarrow> (\<forall>a i b. t = a @ i # b \<longrightarrow> {..< i} \<subseteq> set a)"

definition node_ok ::
  "hasher \<Rightarrow> ('l, 'm) watermark_codec \<Rightarrow> ('l, 'm) stored_membership \<Rightarrow> ('l, 'm) entry list \<Rightarrow>
     ('l, 'm) raft_state \<Rightarrow> nat list \<Rightarrow> nat \<Rightarrow> bool" where
  "node_ok H W fallback log s t c \<longleftrightarrow>
     rs_db s = with_meta (sm_meta (rs_db s)) (run_commands H empty_database (commands_of (map ((!) log) t))) \<and>
     set t \<subseteq> {..< length log} \<and> {..< applied_count s} \<subseteq> set t \<and> in_log_order t \<and>
     (c = 0 \<longrightarrow> t = [0 ..< applied_count s]) \<and>
     rs_last_membership s = fold member_after (take (applied_count s) log) fallback \<and>
     open_state W fallback (rs_db s) = Inr s"

lemma in_log_order_append:
  assumes "in_log_order t" "{..< n} \<subseteq> set t"
  shows "in_log_order (t @ [n ..< n + k])"
proof (induction k)
  case 0
  then show ?case using assms by simp
next
  case (Suc k)
  have new: "{..< n + k} \<subseteq> set (t @ [n ..< n + k])" using assms(2) by (auto simp: subset_iff)
  show ?case unfolding in_log_order_def
  proof (intro allI impI)
    fix a i b
    assume eq: "t @ [n ..< n + Suc k] = a @ i # b"
    then have eq': "(t @ [n ..< n + k]) @ [n + k] = a @ i # b" by simp
    show "{..< i} \<subseteq> set a"
    proof (cases b rule: rev_cases)
      case Nil
      then have "a = t @ [n ..< n + k]" "i = n + k" using eq' by auto
      then show ?thesis using new by metis
    next
      case (snoc b' x)
      then have "t @ [n ..< n + k] = a @ i # b'"
        using eq' by (metis append_Cons append_assoc butlast_snoc)
      then show ?thesis using Suc by (simp add: in_log_order_def)
    qed
  qed
qed

lemma map_nth_range: "n + k \<le> length log \<Longrightarrow> map ((!) log) [n ..< n + k] = take k (drop n log)"
  by (rule nth_equalityI) auto


lemma numbered_slice:
  assumes "numbered n es" "j \<le> length es"
  shows "numbered (n + j) (take k (drop j es))"
proof -
  have "numbered n (take j es @ drop j es)" using assms(1) by simp
  moreover have "length (take j es) = j" using assms(2) by simp
  ultimately have "numbered (n + j) (drop j es)" unfolding numbered_append by metis
  then have "numbered (n + j) (take k (drop j es) @ drop k (drop j es))" by (simp del: drop_drop)
  then show ?thesis unfolding numbered_append by blast
qed

text \<open>What one batch, or the part of one before a crash, does to the state in memory and the tables.\<close>

lemma batch_effect:
  assumes loop: "apply_loop H (feed responds (take k (drop n log))) sent s = (Inr (), out, s')"
    and n: "n = applied_count s" "n + k \<le> length log" and log: "numbered 0 log"
    and db: "rs_db s = with_meta m (run_commands H empty_database (commands_of (map ((!) log) t)))"
    and mem: "rs_last_membership s = fold member_after (take n log) fallback"
  shows "rs_db s' = with_meta m (run_commands H empty_database (commands_of (map ((!) log) (t @ [n ..< n + k])))) \<and>
    applied_count s' = n + k \<and> rs_last_membership s' = fold member_after (take (n + k) log) fallback"
proof -
  let ?es = "take k (drop n log)"
  note L = apply_loop_db [OF loop db]
  have "commands_of (map ((!) log) (t @ [n ..< n + k])) = commands_of (map ((!) log) t) @ commands_of ?es"
    unfolding map_append map_nth_range [OF n(2)] by (simp add: commands_of_def)
  moreover have "applied_count s' = n + k"
  proof (cases "?es = []")
    case True
    then have "k = 0" using n by auto
    then show ?thesis using L True n(1) by (simp add: applied_count_def)
  next
    case False
    have "numbered n ?es"
      using numbered_slice [OF log, of n k] n(2) by simp
    moreover have "length ?es = k" using n(2) by simp
    ultimately have "unat (idx (last ?es)) + 1 = n + k" using numbered_last [of n ?es] False by metis
    moreover have "rs_last_applied s' = Some (en_log_id (last ?es))" using L False by simp
    ultimately show ?thesis by (simp add: applied_count_def)
  qed
  moreover have "take (n + k) log = take n log @ ?es" by (simp add: take_add)
  ultimately show ?thesis using L mem by (simp add: run_commands_append)
qed

definition watermarks_faithful :: "('l, 'm) watermark_codec \<Rightarrow> bool" where
  "watermarks_faithful W \<longleftrightarrow> faithful (wm_applied W) \<and> faithful (wm_membership W)"

lemma keys_apart: "KEY_SM_LAST_APPLIED \<noteq> KEY_SM_LAST_MEMBERSHIP"
  by (simp add: KEY_SM_LAST_APPLIED_def KEY_SM_LAST_MEMBERSHIP_def)

definition meta_wf :: "database \<Rightarrow> bool" where
  "meta_wf db \<longleftrightarrow> (\<exists>t. sm_meta db = Some t \<and> tbl_wf t)"

text \<open>What a batch writes is what the next opening reads.\<close>

lemma persist_reopen:
  assumes "watermarks_faithful W" "persist_watermarks W s = (Inr (), s')" "meta_wf (rs_db s)"
  shows "open_state W fallback (rs_db s') = Inr s'" "meta_wf (rs_db s')"
    "\<exists>m. rs_db s' = with_meta m (rs_db s)" "rs_last_applied s' = rs_last_applied s"
    "rs_last_membership s' = rs_last_membership s"
proof -
  obtain a m where am: "enc (wm_applied W) (rs_last_applied s) = Inr a"
    "enc (wm_membership W) (rs_last_membership s) = Inr m" "s' = s\<lparr>rs_db := put_watermarks a m (rs_db s)\<rparr>"
    using assms(2) by (auto simp: persist_watermarks_def split: sum.splits)
  have "dec (wm_applied W) a = Inr (rs_last_applied s)" "dec (wm_membership W) m = Inr (rs_last_membership s)"
    using assms(1) am by (auto simp: watermarks_faithful_def intro: enc_dec)
  then show "open_state W fallback (rs_db s') = Inr s'"
    using assms(3) am(3) keys_apart
    by (auto simp: open_state_def put_watermarks_def meta_wf_def tbl_get_insert_apply tbl_wf_insert)
  show "meta_wf (rs_db s')" using assms(3) am(3) by (auto simp: meta_wf_def put_watermarks_def tbl_wf_insert)
  show "\<exists>m. rs_db s' = with_meta m (rs_db s)" using am(3) by (auto simp: put_watermarks_def)
  show "rs_last_applied s' = rs_last_applied s" "rs_last_membership s' = rs_last_membership s"
    using am(3) by simp_all
qed

lemma reopen_same_meta:
  assumes "open_state W fallback db = Inr s" "sm_meta db = Some t"
  shows "rs_db s = db" "open_state W fallback (with_meta (Some t) db') = Inr (s\<lparr>rs_db := with_meta (Some t) db'\<rparr>)"
  using assms by (auto simp: open_state_def res_bind_eq_Inr)

lemma node_ok_step:
  assumes ok: "node_ok H W fallback log s t c" and n: "n = applied_count s" "n + k \<le> length log"
    and cnt: "applied_count s' = n + k \<and> c' = c \<or> applied_count s' = n \<and> 0 < c'"
    and new: "rs_db s' = with_meta (sm_meta (rs_db s'))
        (run_commands H empty_database (commands_of (map ((!) log) (t @ [n ..< n + k]))))"
      "rs_last_membership s' = fold member_after (take (applied_count s') log) fallback"
      "open_state W fallback (rs_db s') = Inr s'"
  shows "node_ok H W fallback log s' (t @ [n ..< n + k]) c'"
proof -
  have t: "set t \<subseteq> {..< length log}" "{..< n} \<subseteq> set t" "in_log_order t" "c = 0 \<longrightarrow> t = [0 ..< n]"
    using ok n(1) by (auto simp: node_ok_def)
  have pos: "set (t @ [n ..< n + k]) \<subseteq> {..< length log}" using t(1) n(2) by auto
  have "{..< n + k} \<subseteq> set (t @ [n ..< n + k])"
  proof
    fix i assume "i \<in> {..< n + k}"
    then show "i \<in> set (t @ [n ..< n + k])" using t(2) by (cases "i < n") auto
  qed
  moreover have "applied_count s' \<le> n + k" using cnt by auto
  ultimately have "{..< applied_count s'} \<subseteq> set (t @ [n ..< n + k])"
    by (meson lessThan_subset_iff order_trans)
  moreover have "in_log_order (t @ [n ..< n + k])" by (rule in_log_order_append [OF t(3,2)])
  moreover have "c' = 0 \<longrightarrow> t @ [n ..< n + k] = [0 ..< applied_count s']"
    using cnt t(4) upt_add_eq_append [of 0 n k] by auto
  ultimately show ?thesis unfolding node_ok_def using new pos by blast
qed

lemma apply_stream_ok:
  "apply_stream H W items s = (Inr (), out, s') \<Longrightarrow>
     \<exists>s1. apply_loop H items [] s = (Inr (), out, s1) \<and> persist_watermarks W s1 = (Inr (), s')"
proof -
  assume run: "apply_stream H W items s = (Inr (), out, s')"
  obtain r sent s1 where l: "apply_loop H items [] s = (r, sent, s1)" by (metis prod.exhaust)
  obtain q s2 where q: "persist_watermarks W s1 = (q, s2)" by (metis prod.exhaust)
  show ?thesis using run l q by (cases r) (simp_all add: apply_stream_def)
qed

lemma node_batch_step:
  assumes W: "watermarks_faithful W" and log: "numbered 0 log"
    and ok: "node_ok H W fallback log s t c" and wf: "meta_wf (rs_db s)"
    and n: "n = applied_count s" "n + k \<le> length log"
    and run: "apply_stream H W (feed responds (take k (drop n log))) s = (Inr (), out, s')"
  shows "node_ok H W fallback log s' (t @ [n ..< n + k]) c \<and> meta_wf (rs_db s')"
proof -
  obtain s1 where loop: "apply_loop H (feed responds (take k (drop n log))) [] s = (Inr (), out, s1)"
    and per: "persist_watermarks W s1 = (Inr (), s')"
    using apply_stream_ok [OF run] by blast
  define X where "X = run_commands H empty_database (commands_of (map ((!) log) (t @ [n ..< n + k])))"
  have db: "rs_db s = with_meta (sm_meta (rs_db s)) (run_commands H empty_database (commands_of (map ((!) log) t)))"
    and mem: "rs_last_membership s = fold member_after (take n log) fallback"
    using ok n(1) by (simp_all add: node_ok_def)
  note e = batch_effect [OF loop n log db mem, folded X_def]
  have s1: "rs_db s1 = with_meta (sm_meta (rs_db s)) X" using e by blast
  have wf1: "meta_wf (rs_db s1)" using wf unfolding s1 meta_wf_def by simp
  note P = persist_reopen [OF W per wf1]
  obtain m where "rs_db s' = with_meta m (rs_db s1)" using P(3) by blast
  then have new: "rs_db s' = with_meta (sm_meta (rs_db s')) X" unfolding s1 by simp
  have cnt: "applied_count s' = n + k" using P(4) e by (simp add: applied_count_def)
  have mem': "rs_last_membership s' = fold member_after (take (applied_count s') log) fallback"
    unfolding cnt P(5) using e by blast
  show ?thesis using node_ok_step [OF ok n disjI1 [OF conjI [OF cnt refl]] new [unfolded X_def] mem' P(1)] P(2) by blast
qed

lemma node_crash_step:
  assumes log: "numbered 0 log"
    and ok: "node_ok H W fallback log s t c" and wf: "meta_wf (rs_db s)"
    and n: "n = applied_count s" "n + k \<le> length log"
    and loop: "apply_loop H (feed responds (take k (drop n log))) [] s = (Inr (), out, s')"
    and reopen: "open_state W fallback (rs_db s') = Inr s''"
  shows "node_ok H W fallback log s'' (t @ [n ..< n + k]) (Suc c) \<and> meta_wf (rs_db s'')"
proof -
  obtain m where m: "sm_meta (rs_db s) = Some m" "tbl_wf m" using wf by (auto simp: meta_wf_def)
  have db: "rs_db s = with_meta (Some m) (run_commands H empty_database (commands_of (map ((!) log) t)))"
    and mem: "rs_last_membership s = fold member_after (take n log) fallback"
    using ok n(1) m by (simp_all add: node_ok_def)
  have op: "open_state W fallback (rs_db s) = Inr s" using ok by (simp add: node_ok_def)
  have db': "rs_db s' = with_meta (Some m) (run_commands H empty_database (commands_of (map ((!) log) (t @ [n ..< n + k]))))"
    using batch_effect [OF loop n log db mem] by blast
  have s'': "s'' = s\<lparr>rs_db := rs_db s'\<rparr>"
    using reopen reopen_same_meta(2) [OF op m(1)] unfolding db' by simp
  have op': "open_state W fallback (rs_db s'') = Inr s''"
    using reopen_same_meta(2) [OF op m(1)] unfolding s'' db' by simp
  have cnt: "applied_count s'' = n" using s'' n(1) by (simp add: applied_count_def)
  have new: "rs_db s'' = with_meta (sm_meta (rs_db s''))
      (run_commands H empty_database (commands_of (map ((!) log) (t @ [n ..< n + k]))))"
    unfolding s'' using db' by simp
  have mem': "rs_last_membership s'' = fold member_after (take (applied_count s'') log) fallback"
    unfolding cnt using s'' mem by simp
  have "meta_wf (rs_db s'')" unfolding s'' db' using m by (simp add: meta_wf_def)
  then show ?thesis using node_ok_step [OF ok n disjI2 [OF conjI [OF cnt zero_less_Suc]] new mem' op'] by blast
qed

lemma node_history:
  assumes "node H W fallback log s t c" "watermarks_faithful W" "numbered 0 log"
  shows "node_ok H W fallback log s t c \<and> meta_wf (rs_db s)"
  using assms(1)
proof induction
  case (node_open s)
  then show ?case
    by (auto simp: node_ok_def meta_wf_def open_state_def empty_database_def commands_of_def
        in_log_order_def applied_count_def)
next
  case (node_batch s t c n k responds out s')
  then show ?case using node_batch_step [OF assms(2,3)] by blast
next
  case (node_crash s t c n k responds out s' s'')
  then show ?case using node_crash_step [OF assms(3)] by blast
qed


text \<open>
  C7. Nothing committed is ever skipped. Whatever batches a node applied and wherever it crashed in
  one before the watermarks were written, its application tables are those of running the
  commands of the log, in an order in which every entry came after all of its predecessors had been
  applied at least once; every entry the watermark counts was applied, the file reopens to the
  state in memory with the membership of the last membership entry below the watermark; and a
  node that never crashed applied each entry exactly once.
\<close>

theorem node_never_skips:
  assumes "node H W fallback log s t c" "watermarks_faithful W" "numbered 0 log"
  shows "rs_db s = with_meta (sm_meta (rs_db s)) (run_commands H empty_database (commands_of (map ((!) log) t))) \<and>
    in_log_order t \<and> {..< applied_count s} \<subseteq> set t \<and> set t \<subseteq> {..< length log} \<and>
    open_state W fallback (rs_db s) = Inr s \<and>
    rs_last_membership s = fold member_after (take (applied_count s) log) fallback \<and>
    (c = 0 \<longrightarrow> t = [0 ..< applied_count s])"
  using node_history [OF assms] by (simp add: node_ok_def)

section \<open>A concrete node\<close>

definition index_bytes :: "unit log_id option \<Rightarrow> bytes" where
  "index_bytes l = (case l of None \<Rightarrow> [] | Some i \<Rightarrow> u64_be (li_index i))"

definition bytes_index :: "bytes \<Rightarrow> unit log_id option" where
  "bytes_index b = (if b = [] then None else Some \<lparr>li_leader = (), li_index = word_of_nat (from_be_bytes b)\<rparr>)"

definition index_watermarks :: "(unit, unit) watermark_codec" where
  "index_watermarks = \<lparr>
     wm_applied = \<lparr>to_allocvec = (\<lambda>l. Inr (index_bytes l)), from_bytes = (\<lambda>b. Inr (bytes_index b))\<rparr>,
     wm_membership = \<lparr>to_allocvec = (\<lambda>m. Inr (index_bytes (sm_log_id m))),
       from_bytes = (\<lambda>b. Inr \<lparr>sm_log_id = bytes_index b, sm_membership = ()\<rparr>)\<rparr>\<rparr>"

lemma bytes_index_bytes: "bytes_index (index_bytes l) = l"
proof (cases l)
  case None
  then show ?thesis by (simp add: index_bytes_def bytes_index_def)
next
  case (Some i)
  moreover have "u64_be (li_index i) \<noteq> []" by (metis length_u64_be list.size(3) zero_neq_numeral)
  ultimately show ?thesis by (simp add: index_bytes_def bytes_index_def u64_be_word)
qed

lemma index_watermarks_faithful: "watermarks_faithful index_watermarks"
  by (auto simp: watermarks_faithful_def faithful_def index_watermarks_def bytes_index_bytes)

definition no_membership :: "(unit, unit) stored_membership" where
  "no_membership = \<lparr>sm_log_id = None, sm_membership = ()\<rparr>"

definition fresh_state :: "(unit, unit) raft_state" where
  "fresh_state = \<lparr>rs_db = with_meta (Some []) empty_database, rs_last_applied = None, rs_last_membership = no_membership\<rparr>"

definition command_at :: "u64 \<Rightarrow> consensus_command \<Rightarrow> (unit, unit) entry" where
  "command_at i cmd = \<lparr>en_log_id = \<lparr>li_leader = (), li_index = i\<rparr>, en_payload = Normal cmd\<rparr>"

definition short_history :: "(unit, unit) entry list" where
  "short_history = [command_at 0 (RegisterMasterBatch 7 ''c'' 1 [1, 2] 10 100),
     command_at 1 (ClaimRowRange 7 0 4 1 9 50 100), command_at 2 (ReclaimExpired 500)]"

lemma short_history_numbered: "numbered 0 short_history"
  by (simp add: short_history_def command_at_def)

lemma fresh_node: "node fnv1a index_watermarks no_membership short_history fresh_state [] 0"
  by (rule node_open) (simp add: open_state_def fresh_state_def empty_database_def no_membership_def)

definition whole_batch :: "(unit, unit) raft_state \<Rightarrow> unit io_result \<times> consensus_response list \<times> (unit, unit) raft_state" where
  "whole_batch s = apply_stream fnv1a index_watermarks (feed (\<lambda>_. False) short_history) s"

lemma whole_batch_ok: "\<exists>out s. whole_batch fresh_state = (Inr (), out, s) \<and> applied_count s = 3"
proof -
  have "fst (whole_batch fresh_state) = Inr ()" "applied_count (snd (snd (whole_batch fresh_state))) = 3"
    by code_simp+
  then show ?thesis by (metis prod.collapse)
qed


lemma whole_batch_node:
  assumes "node fnv1a index_watermarks no_membership short_history s t c" "applied_count s = 0"
    "whole_batch s = (Inr (), out, s')"
  shows "node fnv1a index_watermarks no_membership short_history s' (t @ [0 ..< 3]) c"
  using node_batch [OF assms(1) refl, of 3 "\<lambda>_. False" out s'] assms(2,3)
  by (simp add: short_history_def whole_batch_def)

theorem node_never_skips_witness:
  "\<exists>s. applied_count s = 3 \<and> rs_db s = with_meta (sm_meta (rs_db s)) (run_commands fnv1a empty_database
     [RegisterMasterBatch 7 ''c'' 1 [1, 2] 10 100, ClaimRowRange 7 0 4 1 9 50 100, ReclaimExpired 500]) \<and>
     open_state index_watermarks no_membership (rs_db s) = Inr s"
proof -
  obtain out s where s: "whole_batch fresh_state = (Inr (), out, s)" "applied_count s = 3"
    using whole_batch_ok by blast
  have zero: "applied_count fresh_state = 0" by (simp add: applied_count_def fresh_state_def)
  have "node fnv1a index_watermarks no_membership short_history s ([] @ [0 ..< 3]) 0"
    by (rule whole_batch_node [OF fresh_node zero s(1)])
  from node_never_skips [OF this index_watermarks_faithful short_history_numbered]
  have "rs_db s = with_meta (sm_meta (rs_db s)) (run_commands fnv1a empty_database (commands_of (map ((!) short_history) [0 ..< 3])))"
    "open_state index_watermarks no_membership (rs_db s) = Inr s" unfolding append_Nil by blast+
  moreover have "commands_of (map ((!) short_history) [0 ..< 3]) =
      [RegisterMasterBatch 7 ''c'' 1 [1, 2] 10 100, ClaimRowRange 7 0 4 1 9 50 100, ReclaimExpired 500]"
    by (simp add: short_history_def commands_of_def entry_commands_def command_at_def upt_rec numeral_3_eq_3)
  ultimately show ?thesis using s(2) by metis
qed

section \<open>A replay that changes the state\<close>

text \<open>
  Two nodes with the same log and the same watermark whose tables differ: the one that crashed
  before its watermark was written applied the batch again, and registering the master batch again
  set its counter of released claims back, which the sweep that follows no longer raises.
\<close>

definition after_crash :: "(unit, unit) raft_state" where
  "after_crash = fresh_state\<lparr>rs_db :=
     rs_db (snd (snd (apply_loop fnv1a (feed (\<lambda>_. False) short_history) [] fresh_state)))\<rparr>"

lemma after_crash_node: "node fnv1a index_watermarks no_membership short_history after_crash [0 ..< 3] 1"
proof -
  obtain r out s where l: "apply_loop fnv1a (feed (\<lambda>_. False) short_history) [] fresh_state = (r, out, s)"
    by (metis prod.exhaust)
  moreover have "fst (apply_loop fnv1a (feed (\<lambda>_. False) short_history) [] fresh_state) = Inr ()" by code_simp
  moreover have "sm_meta (rs_db (snd (snd (apply_loop fnv1a (feed (\<lambda>_. False) short_history) [] fresh_state)))) = Some []"
    by code_simp
  ultimately have l: "apply_loop fnv1a (feed (\<lambda>_. False) short_history) [] fresh_state = (Inr (), out, s)"
    and m: "sm_meta (rs_db s) = Some []" and s: "after_crash = fresh_state\<lparr>rs_db := rs_db s\<rparr>"
    by (simp_all add: after_crash_def)
  have "open_state index_watermarks no_membership (rs_db s) = Inr after_crash"
    unfolding s using m by (cases "rs_db s") (simp add: open_state_def fresh_state_def)
  from node_crash [OF fresh_node refl _ _ this, of 3 "\<lambda>_. False" out] l
  show ?thesis by (simp add: short_history_def applied_count_def fresh_state_def)
qed

lemma replayed_batch_diverges:
  "\<exists>s t s' t' r r'. node fnv1a index_watermarks no_membership short_history s t 0 \<and>
     node fnv1a index_watermarks no_membership short_history s' t' 1 \<and>
     applied_count s = 3 \<and> applied_count s' = 3 \<and>
     read_master_batch (rs_db s) 7 = Some r \<and> read_master_batch (rs_db s') 7 = Some r' \<and>
     mb_release_attempts r = 1 \<and> mb_release_attempts r' = 0"
proof -
  have zero: "applied_count fresh_state = 0" "applied_count after_crash = 0"
    by (simp_all add: applied_count_def fresh_state_def after_crash_def)
  let ?one = "whole_batch fresh_state" and ?two = "whole_batch after_crash"
  have ok: "fst ?one = Inr ()" "fst ?two = Inr ()" by code_simp+
  have cnt: "applied_count (snd (snd ?one)) = 3" "applied_count (snd (snd ?two)) = 3" by code_simp+
  have r: "map_option mb_release_attempts (read_master_batch (rs_db (snd (snd ?one))) 7) = Some 1"
    "map_option mb_release_attempts (read_master_batch (rs_db (snd (snd ?two))) 7) = Some 0" by code_simp+
  have "node fnv1a index_watermarks no_membership short_history (snd (snd ?one)) ([] @ [0 ..< 3]) 0"
    "node fnv1a index_watermarks no_membership short_history (snd (snd ?two)) ([0 ..< 3] @ [0 ..< 3]) 1"
    using whole_batch_node [OF fresh_node zero(1), of "fst (snd ?one)" "snd (snd ?one)"]
      whole_batch_node [OF after_crash_node zero(2), of "fst (snd ?two)" "snd (snd ?two)"] ok
    by (simp_all add: prod_eq_iff)
  then show ?thesis using cnt r by blast
qed

end
