(* ===== verification/Window_System.thy ===== *)
theory Window_System
  imports Windows Sessions
begin

text \<open>
  The windowed aggregation system: \<^verbatim>\<open>saci-core/src/windows/\<close>\<open>{system,aggregate,sliding,time,result,function}.rs\<close>.
  A record batch is a list of named columns, a column a typed list of optional values, and the
  Arrow kernels \<^verbatim>\<open>take\<close> and \<^verbatim>\<open>filter\<close>, which fail only on an index out of range or on arrays of
  different lengths, are total here; sorting, hashing and the floating-point kernels are arguments.
  Arithmetic on \<^verbatim>\<open>i64\<close> wraps as in a release build; a panic is \<open>None\<close>. The part of a data set the
  system touches is the source batch, the resource \<^verbatim>\<open>KeyPartition\<close> and the resources it inserts;
  the refresh of a registered \<^verbatim>\<open>WindowAccumulator\<close> is not modelled.
\<close>

section \<open>Batches\<close>

text \<open>A time column carries the \<^verbatim>\<open>Debug\<close> of its time zone, another column that of its type.\<close>

datatype time_unit = Second | Millisecond | Microsecond | Nanosecond

datatype ('f, 'o) column =
    Int_Column "int option list"
  | Time_Column time_unit string "int option list"
  | Float_Column "'f option list"
  | Other_Column string "'o list"

record ('f, 'o) batch =
  bt_names :: "string list"
  bt_columns :: "('f, 'o) column list"

fun column_length :: "('f, 'o) column \<Rightarrow> nat" where
  "column_length (Int_Column xs) = length xs"
| "column_length (Time_Column u tz xs) = length xs"
| "column_length (Float_Column xs) = length xs"
| "column_length (Other_Column ty xs) = length xs"

definition gather :: "nat list \<Rightarrow> 'a list \<Rightarrow> 'a list" where
  "gather idx xs = map ((!) xs) idx"

fun take_column :: "nat list \<Rightarrow> ('f, 'o) column \<Rightarrow> ('f, 'o) column" where
  "take_column idx (Int_Column xs) = Int_Column (gather idx xs)"
| "take_column idx (Time_Column u tz xs) = Time_Column u tz (gather idx xs)"
| "take_column idx (Float_Column xs) = Float_Column (gather idx xs)"
| "take_column idx (Other_Column ty xs) = Other_Column ty (gather idx xs)"

definition take_batch :: "nat list \<Rightarrow> ('f, 'o) batch \<Rightarrow> ('f, 'o) batch" where
  "take_batch idx b = b\<lparr>bt_columns := map (take_column idx) (bt_columns b)\<rparr>"

definition num_rows :: "('f, 'o) batch \<Rightarrow> nat" where
  "num_rows b = (case bt_columns b of [] \<Rightarrow> 0 | c # _ \<Rightarrow> column_length c)"

fun index_of :: "string \<Rightarrow> string list \<Rightarrow> nat option" where
  "index_of name [] = None"
| "index_of name (x # xs) = (if x = name then Some 0 else map_option Suc (index_of name xs))"

definition column_named :: "('f, 'o) batch \<Rightarrow> string \<Rightarrow> ('f, 'o) column option" where
  "column_named b name = map_option ((!) (bt_columns b)) (index_of name (bt_names b))"

fun type_debug :: "('f, 'o) column \<Rightarrow> string" where
  "type_debug (Int_Column xs) = ''Int64''"
| "type_debug (Time_Column u tz xs) = ''Timestamp('' @
     (case u of Second \<Rightarrow> ''Second'' | Millisecond \<Rightarrow> ''Millisecond''
      | Microsecond \<Rightarrow> ''Microsecond'' | Nanosecond \<Rightarrow> ''Nanosecond'') @ '', '' @ tz @ '')''"
| "type_debug (Float_Column xs) = ''Float64''"
| "type_debug (Other_Column ty xs) = ty"

text \<open>\<^verbatim>\<open>as u32\<close> of a row number.\<close>

definition as_u32 :: "nat \<Rightarrow> nat" where "as_u32 i = i mod 2 ^ 32"

text \<open>The times of a column, in milliseconds; a multiplication wraps, a division truncates.\<close>

fun to_ms_array :: "('f, 'o) column \<Rightarrow> int option list saci_result" where
  "to_ms_array (Int_Column xs) = Inr xs"
| "to_ms_array (Time_Column u tz xs) = Inr (map (map_option (\<lambda>ts.
     case u of Second \<Rightarrow> wrap_i64 (ts * 1000) | Millisecond \<Rightarrow> ts
     | Microsecond \<Rightarrow> ts sdiv 1000 | Nanosecond \<Rightarrow> ts sdiv 1000000)) xs)"
| "to_ms_array c = Inl (Generic (''time column must be Int64 or Timestamp variant, got '' @ type_debug c))"

text \<open>The raw slots of a time array; those of a null are arbitrary, here zero.\<close>

definition raw_values :: "int option list \<Rightarrow> int list" where
  "raw_values xs = map (\<lambda>v. case v of Some t \<Rightarrow> t | None \<Rightarrow> 0) xs"

section \<open>The system\<close>

datatype reduce_aggregate = Sum | Min | Max | Count | Mean

record window_context =
  wc_window_id :: int
  wc_window_start :: int
  wc_window_end :: int
  wc_is_late_firing :: bool
  wc_watermark :: int

datatype ('f, 'o) window_function =
    Reduce string reduce_aggregate
  | Process "window_context \<Rightarrow> ('f, 'o) batch \<Rightarrow> ('f, 'o) batch saci_result"

record ('f, 'o) windowed_system =
  ws_source :: string
  ws_time_field :: string
  ws_key_fields :: "string list"
  ws_spec :: window_spec
  ws_function :: "('f, 'o) window_function"
  ws_watermark :: "watermark_state option"
  ws_emitted :: "(int \<times> int) set"

record 'f float_kernels =
  fk_sum :: "'f option list \<Rightarrow> 'f option"
  fk_min :: "'f option list \<Rightarrow> 'f option"
  fk_max :: "'f option list \<Rightarrow> 'f option"
  fk_zero :: 'f
  fk_infinity :: 'f
  fk_neg_infinity :: 'f
  fk_nan :: 'f
  fk_of_nat :: "nat \<Rightarrow> 'f"
  fk_div :: "'f \<Rightarrow> 'f \<Rightarrow> 'f"

record ('f, 'o) window_env =
  we_arrow :: arrow_kernels
  we_hash :: "('f, 'o) column list \<Rightarrow> int list saci_result option"
  we_float :: "'f float_kernels"

text \<open>Batches of results with their schema, a list of names.\<close>

record ('f, 'o) window_results =
  wr_schema :: "string list"
  wr_batches :: "('f, 'o) batch list"
  wr_late_batches :: "('f, 'o) batch list"
  wr_side_output :: "('f, 'o) batch list"

definition new_results :: "string list \<Rightarrow> ('f, 'o) window_results" where
  "new_results schema = \<lparr>wr_schema = schema, wr_batches = [], wr_late_batches = [], wr_side_output = []\<rparr>"

definition total_rows :: "('f, 'o) window_results \<Rightarrow> nat" where
  "total_rows r = sum_list (map num_rows (wr_batches r))"

definition total_rows_including_late :: "('f, 'o) window_results \<Rightarrow> nat" where
  "total_rows_including_late r = total_rows r + sum_list (map num_rows (wr_late_batches r))"

definition results_is_empty :: "('f, 'o) window_results \<Rightarrow> bool" where
  "results_is_empty r \<longleftrightarrow> wr_batches r = []"

definition session_spec :: "window_spec \<Rightarrow> bool" where
  "session_spec spec \<longleftrightarrow> (case spec of Session _ \<Rightarrow> True | _ \<Rightarrow> False)"

definition empty_result_schema :: "('f, 'o) windowed_system \<Rightarrow> string list" where
  "empty_result_schema s = [''window_id'', ''key_hash'', ''sum_value''] @
     (if session_spec (ws_spec s) then [''session_start_ts'', ''session_end_ts''] else [])"

section \<open>The watermark filter\<close>

definition beyond :: "watermark_state \<Rightarrow> int option \<Rightarrow> bool" where
  "beyond w t = (case t of None \<Rightarrow> False | Some ts \<Rightarrow> is_beyond_lateness w ts)"

text \<open>The kept rows with their times, the batches for the side output, and the system advanced.\<close>

definition apply_watermark_filter ::
  "('f, 'o) windowed_system \<Rightarrow> ('f, 'o) batch \<Rightarrow> int option list \<Rightarrow>
     ('f, 'o) batch \<times> int option list \<times> ('f, 'o) batch list \<times> ('f, 'o) windowed_system" where
  "apply_watermark_filter s b time_ms =
     (case ws_watermark s of
        None \<Rightarrow> (b, time_ms, [], s)
      | Some w \<Rightarrow>
          let n = length time_ms;
              keep_indices = map as_u32 (filter (\<lambda>i. \<not> beyond w (time_ms ! i)) [0 ..< n]);
              drop_indices = map as_u32 (filter (\<lambda>i. beyond w (time_ms ! i)) [0 ..< n]);
              s' = s\<lparr>ws_watermark := Some (fold advance (map the (filter (\<lambda>t. t \<noteq> None) time_ms)) w)\<rparr>
          in if drop_indices = [] then (b, time_ms, [], s')
             else (take_batch keep_indices b, gather keep_indices time_ms, [take_batch drop_indices b], s'))"

section \<open>Sliding windows\<close>

definition SLIDING_MAX_EXPANDED_ROWS :: int where "SLIDING_MAX_EXPANDED_ROWS = 100000000"

text \<open>The sign of the multiplication in the text, in UTF-8.\<close>

definition times_sign :: string where "times_sign = [CHR 0xC3, CHR 0x97]"

definition expand_for_sliding ::
  "('f, 'o) batch \<Rightarrow> int option list \<Rightarrow> nat \<Rightarrow> int \<Rightarrow> int \<Rightarrow> int \<Rightarrow>
     (('f, 'o) batch \<times> int option list \<times> int list) saci_result option" where
  "expand_for_sliding b time_ms n_rows sz slide offset =
     (let d = wrap_i64 (wrap_i64 (sz + slide) - 1)
      in if div_panics d slide then None
         else
           let k = d sdiv slide
           in if (k mod 2 ^ 64 * int n_rows) mod 2 ^ 64 > SLIDING_MAX_EXPANDED_ROWS
              then Some (Inl (Generic (''sliding window amplification too high: k='' @ i64_string k @ '' '' @ times_sign @
                '' n_rows='' @ dec_string n_rows @ '' exceeds the '' @ i64_string SLIDING_MAX_EXPANDED_ROWS @
                '' row limit; reduce size_ms/slide_ms ratio or use fewer input rows'')))
              else
                let repeat_indices = concat (map (\<lambda>i. replicate (nat k) i) [0 ..< as_u32 n_rows])
                in map_option
                     (\<lambda>ids. Inr (take_batch repeat_indices b, gather repeat_indices time_ms, concat ids))
                     (those (map (\<lambda>ts. assign_sliding ts sz slide offset) (raw_values time_ms))))"

section \<open>Reducing a group\<close>

fun aggregate_output_name :: "reduce_aggregate \<Rightarrow> string \<Rightarrow> string" where
  "aggregate_output_name Sum field = ''sum_'' @ field"
| "aggregate_output_name Min field = ''min_'' @ field"
| "aggregate_output_name Max field = ''max_'' @ field"
| "aggregate_output_name Count field = ''count_'' @ field"
| "aggregate_output_name Mean field = ''mean_'' @ field"

definition unwrap_default :: "'a option \<Rightarrow> 'a \<Rightarrow> 'a" where
  "unwrap_default v d = (case v of Some x \<Rightarrow> x | None \<Rightarrow> d)"

fun reduce_floats :: "'f float_kernels \<Rightarrow> reduce_aggregate \<Rightarrow> 'f option list \<Rightarrow> 'f" where
  "reduce_floats F Sum xs = unwrap_default (fk_sum F xs) (fk_zero F)"
| "reduce_floats F Min xs = unwrap_default (fk_min F xs) (fk_infinity F)"
| "reduce_floats F Max xs = unwrap_default (fk_max F xs) (fk_neg_infinity F)"
| "reduce_floats F Count xs = fk_of_nat F (length xs)"
| "reduce_floats F Mean xs =
     (let non_null = length (filter (\<lambda>x. x \<noteq> None) xs)
      in if non_null = 0 then fk_nan F
         else fk_div F (unwrap_default (fk_sum F xs) (fk_zero F)) (fk_of_nat F non_null))"

fun apply_reduce_aggregate :: "'f float_kernels \<Rightarrow> reduce_aggregate \<Rightarrow> ('f, 'o) column \<Rightarrow> ('f, 'o) column saci_result" where
  "apply_reduce_aggregate F aggregate (Float_Column xs) = Inr (Float_Column [Some (reduce_floats F aggregate xs)])"
| "apply_reduce_aggregate F aggregate c =
     Inl (Generic (''WindowedSystem: aggregate requires Float64 column, got '' @ type_debug c @
       ''; cast the field to Float64 first''))"


section \<open>The groups\<close>

text \<open>\<^verbatim>\<open>prepare_aggregate_inputs\<close>: the schema of the results, the sorted input column, the sorted batch.\<close>

definition prepare_aggregate_inputs ::
  "('f, 'o) windowed_system \<Rightarrow> ('f, 'o) batch \<Rightarrow> nat list \<Rightarrow>
     (string list \<times> ('f, 'o) column \<times> ('f, 'o) batch) saci_result" where
  "prepare_aggregate_inputs s source_batch sorted_indices =
     (let sorted = take_batch sorted_indices source_batch
      in case ws_function s of
           Reduce input_field aggregate \<Rightarrow>
             (case index_of input_field (bt_names source_batch) of
                None \<Rightarrow> Inl (Generic (''WindowedSystem: input field '' @ quoted input_field @
                  '' not found in component '' @ quoted (ws_source s)))
              | Some col_idx \<Rightarrow>
                  Inr ([''window_id'', ''key_hash'', aggregate_output_name aggregate input_field] @
                       (if session_spec (ws_spec s) then [''session_start_ts'', ''session_end_ts''] else []),
                     bt_columns sorted ! col_idx, sorted))
         | Process f \<Rightarrow> Inr ([], bt_columns sorted ! 0, sorted))"

text \<open>Rows \<open>lo\<close> to \<open>hi\<close> of a column or a batch, \<^verbatim>\<open>slice(lo, hi - lo)\<close>.\<close>

definition slice_rows :: "nat \<Rightarrow> nat \<Rightarrow> ('f, 'o) batch \<Rightarrow> ('f, 'o) batch" where
  "slice_rows lo hi b = take_batch [lo ..< hi] b"

definition window_size :: "window_spec \<Rightarrow> int" where
  "window_size spec = (case spec of Tumbling sz off \<Rightarrow> sz | Sliding sz slide off \<Rightarrow> sz | Session gap \<Rightarrow> 0)"

definition context_of :: "window_spec \<Rightarrow> int \<Rightarrow> bool \<Rightarrow> int \<Rightarrow> window_context" where
  "context_of spec win_id is_late watermark =
     (let window_start = wrap_i64 (win_id * window_size spec)
      in \<lparr>wc_window_id = win_id, wc_window_start = window_start,
          wc_window_end = wrap_i64 (window_start + window_size spec),
          wc_is_late_firing = is_late, wc_watermark = watermark\<rparr>)"

definition least_of :: "int list \<Rightarrow> int" where
  "least_of ts = (case ts of [] \<Rightarrow> 0 | t # rest \<Rightarrow> fold min rest t)"

definition greatest_of :: "int list \<Rightarrow> int" where
  "greatest_of ts = (case ts of [] \<Rightarrow> 0 | t # rest \<Rightarrow> fold max rest t)"

definition aggregate_slice ::
  "'f float_kernels \<Rightarrow> ('f, 'o) windowed_system \<Rightarrow> string list \<Rightarrow> ('f, 'o) column \<Rightarrow> ('f, 'o) batch \<Rightarrow> int list \<Rightarrow>
     int \<Rightarrow> int \<Rightarrow> nat \<Rightarrow> nat \<Rightarrow> bool \<Rightarrow> int \<Rightarrow> ('f, 'o) batch saci_result" where
  "aggregate_slice F s schema sorted_col sorted_batch sorted_time win_id key_hash lo hi is_late watermark =
     (let ctx = context_of (ws_spec s) win_id is_late watermark
      in case ws_function s of
           Reduce input_field aggregate \<Rightarrow>
             res_bind (apply_reduce_aggregate F aggregate (take_column [lo ..< hi] sorted_col)) (\<lambda>agg_value.
               let ts = gather [lo ..< hi] sorted_time;
                   bounds = (if session_spec (ws_spec s)
                     then [Int_Column [Some (least_of ts)], Int_Column [Some (greatest_of ts)]]
                     else [])
               in Inr \<lparr>bt_names = schema,
                 bt_columns = [Int_Column [Some win_id], Int_Column [Some key_hash], agg_value] @ bounds\<rparr>)
         | Process f \<Rightarrow> f ctx (slice_rows lo hi sorted_batch))"


text \<open>The end of the group that starts at \<open>lo\<close>: the first later position with another pair.\<close>

definition group_end :: "(int \<times> int) list \<Rightarrow> nat \<Rightarrow> nat" where
  "group_end pairs lo = lo + 1 + length (takeWhile (\<lambda>p. p = pairs ! lo) (drop (lo + 1) pairs))"

text \<open>
  The walk of \<^verbatim>\<open>aggregate_groups\<close> from position \<open>lo\<close>, with the groups emitted so far and the results
  collected so far. The first failure of a group ends it; the groups marked before stay marked.
\<close>

function walk_groups ::
  "(int \<Rightarrow> int \<Rightarrow> nat \<Rightarrow> nat \<Rightarrow> bool \<Rightarrow> ('f, 'o) batch saci_result) \<Rightarrow> (int \<times> int) list \<Rightarrow> nat \<Rightarrow> (int \<times> int) set \<Rightarrow>
     ('f, 'o) batch list \<Rightarrow> ('f, 'o) batch list \<Rightarrow>
     (('f, 'o) batch list \<times> ('f, 'o) batch list) saci_result \<times> (int \<times> int) set" where
  "walk_groups fire pairs lo emitted on_time late =
     (if \<not> lo < length pairs then (Inr (on_time, late), emitted)
      else
        let key = pairs ! lo; hi = group_end pairs lo; is_late = (key \<in> emitted)
        in case fire (fst key) (snd key) lo hi is_late of
             Inl e \<Rightarrow> (Inl e, emitted)
           | Inr output \<Rightarrow>
               (if is_late then walk_groups fire pairs hi (insert key emitted) on_time (late @ [output])
                else walk_groups fire pairs hi (insert key emitted) (on_time @ [output]) late))"
  by pat_completeness auto

termination
  by (relation "measure (\<lambda>(fire, pairs, lo, emitted, on_time, late). length pairs - lo)")
    (auto simp: group_end_def)

definition aggregate_groups ::
  "'f float_kernels \<Rightarrow> ('f, 'o) windowed_system \<Rightarrow> ('f, 'o) batch \<Rightarrow> nat list \<Rightarrow> int list \<Rightarrow> int list \<Rightarrow> int list \<Rightarrow> int \<Rightarrow>
     (string list \<times> ('f, 'o) batch list \<times> ('f, 'o) batch list) saci_result \<times> ('f, 'o) windowed_system" where
  "aggregate_groups F s source_batch sorted_indices win_ids key_hashes sorted_time current_wm =
     (case prepare_aggregate_inputs s source_batch sorted_indices of
        Inl e \<Rightarrow> (Inl e, s)
      | Inr (schema, sorted_col, sorted_batch) \<Rightarrow>
          let pairs = zip (take (length sorted_indices) win_ids) (take (length sorted_indices) key_hashes)
          in case walk_groups
                 (\<lambda>win key lo hi is_late. aggregate_slice F s schema sorted_col sorted_batch sorted_time win key lo hi is_late current_wm)
                 pairs 0 (ws_emitted s) [] [] of
               (r, emitted) \<Rightarrow>
                 (res_bind r (\<lambda>(on_time, late). Inr (schema, on_time, late)), s\<lparr>ws_emitted := emitted\<rparr>))"

section \<open>A run\<close>

record key_partition =
  kp_instance_ordinal :: nat
  kp_num_instances :: nat

text \<open>The part of the data set: the source batch, the partition, and the resources inserted.\<close>

record ('f, 'o) window_data =
  wd_batch :: "('f, 'o) batch option"
  wd_partition :: "key_partition option"
  wd_results :: "('f, 'o) window_results option"
  wd_dropped :: "('f, 'o) batch list option"

definition drop_null_times :: "('f, 'o) batch \<Rightarrow> int option list \<Rightarrow> ('f, 'o) batch \<times> int option list" where
  "drop_null_times b time_ms =
     (if \<exists>t \<in> set time_ms. t = None then
        let keep_indices = map as_u32 (filter (\<lambda>i. time_ms ! i \<noteq> None) [0 ..< length time_ms])
        in (take_batch keep_indices b, gather keep_indices time_ms)
      else (b, time_ms))"

fun key_columns :: "('f, 'o) windowed_system \<Rightarrow> ('f, 'o) batch \<Rightarrow> string list \<Rightarrow> ('f, 'o) column list saci_result" where
  "key_columns s b [] = Inr []"
| "key_columns s b (field # others) =
     (case index_of field (bt_names b) of
        None \<Rightarrow> Inl (Generic (''WindowedSystem: key field '' @ quoted field @ '' not found in component '' @ quoted (ws_source s)))
      | Some idx \<Rightarrow> res_bind (key_columns s b others) (\<lambda>rest. Inr (bt_columns b ! idx # rest)))"

text \<open>A step that may panic, then the rest.\<close>

definition run_bind :: "'a saci_result option \<Rightarrow> ('a \<Rightarrow> 'b saci_result option) \<Rightarrow> 'b saci_result option" where
  "run_bind r f = (case r of None \<Rightarrow> None | Some (Inl e) \<Rightarrow> Some (Inl e) | Some (Inr v) \<Rightarrow> f v)"

text \<open>The rows after expansion, with the window of each.\<close>

definition assign_windows ::
  "('f, 'o) window_env \<Rightarrow> ('f, 'o) windowed_system \<Rightarrow> ('f, 'o) batch \<Rightarrow> int option list \<Rightarrow>
     (('f, 'o) batch \<times> int option list \<times> int list) saci_result option" where
  "assign_windows E s b time_ms =
     (case ws_spec s of
        Sliding sz slide offset \<Rightarrow> expand_for_sliding b time_ms (num_rows b) sz slide offset
      | Tumbling sz offset \<Rightarrow>
          map_option (\<lambda>ids. Inr (b, time_ms, ids)) (those (map (\<lambda>ts. assign_tumbling ts sz offset) (raw_values time_ms)))
      | Session gap \<Rightarrow>
          run_bind (Some (key_columns s b (ws_key_fields s))) (\<lambda>cols.
          run_bind (assign_sessions (we_arrow E) (we_hash E) (raw_values time_ms) cols gap) (\<lambda>ids.
            Some (Inr (b, time_ms, ids)))))"

definition row_hashes ::
  "('f, 'o) window_env \<Rightarrow> ('f, 'o) windowed_system \<Rightarrow> ('f, 'o) batch \<Rightarrow> int list saci_result option" where
  "row_hashes E s b =
     (if ws_key_fields s = [] then Some (Inr (compute_global_hash (num_rows b)))
      else run_bind (Some (key_columns s b (ws_key_fields s))) (we_hash E))"

text \<open>The rows of this instance; \<open>mod\<close> is \<^verbatim>\<open>rem_euclid\<close>.\<close>

definition partition_mask :: "key_partition \<Rightarrow> int list \<Rightarrow> nat list" where
  "partition_mask kp key_hash =
     filter (\<lambda>i. key_hash ! i mod int (kp_num_instances kp) = int (kp_instance_ordinal kp)) [0 ..< length key_hash]"

definition sorted_aggregate ::
  "('f, 'o) window_env \<Rightarrow> ('f, 'o) windowed_system \<Rightarrow> ('f, 'o) batch \<Rightarrow> int option list \<Rightarrow> int list \<Rightarrow> int list \<Rightarrow>
     (string list \<times> ('f, 'o) batch list \<times> ('f, 'o) batch list) saci_result \<times> ('f, 'o) windowed_system" where
  "sorted_aggregate E s b time_ms window_ids key_hash =
     (case lexsort_to_indices (we_arrow E) window_ids key_hash of
        Inl e \<Rightarrow> (Inl (Generic (''WindowedSystem: sort error: '' @ e)), s)
      | Inr idx \<Rightarrow>
          aggregate_groups (we_float E) s b idx (gather idx window_ids) (gather idx key_hash)
            (gather idx (raw_values time_ms))
            (case ws_watermark s of Some w \<Rightarrow> current_watermark w | None \<Rightarrow> i64_min))"

text \<open>
  \<^verbatim>\<open>run\<close> after the watermark filter: windows, hashes, the rows of this instance, groups. \<open>side\<close> is the
  side output of the filter.
\<close>

definition run_windows ::
  "('f, 'o) window_env \<Rightarrow> ('f, 'o) windowed_system \<Rightarrow> ('f, 'o) window_data \<Rightarrow> ('f, 'o) batch \<Rightarrow> int option list \<Rightarrow>
     ('f, 'o) batch list \<Rightarrow> unit saci_result option \<times> ('f, 'o) windowed_system \<times> ('f, 'o) window_data" where
  "run_windows E s d b time_ms side =
     (case run_bind (assign_windows E s b time_ms) (\<lambda>(b', time', ids).
             run_bind (row_hashes E s b') (\<lambda>hashes. Some (Inr (b', time', ids, hashes)))) of
        None \<Rightarrow> (None, s, d)
      | Some (Inl e) \<Rightarrow> (Some (Inl e), s, d)
      | Some (Inr (b', time', ids, hashes)) \<Rightarrow>
          let masked = (case wd_partition d of
                Some kp \<Rightarrow> if 1 < kp_num_instances kp then Some (partition_mask kp hashes) else None
              | None \<Rightarrow> None);
              b2 = (case masked of Some keep \<Rightarrow> take_batch keep b' | None \<Rightarrow> b');
              time2 = (case masked of Some keep \<Rightarrow> gather keep time' | None \<Rightarrow> time');
              ids2 = (case masked of Some keep \<Rightarrow> gather keep ids | None \<Rightarrow> ids);
              hashes2 = (case masked of Some keep \<Rightarrow> gather keep hashes | None \<Rightarrow> hashes)
          in if masked \<noteq> None \<and> num_rows b2 = 0
             then (Some (Inr ()), s, d\<lparr>wd_results := Some (new_results (empty_result_schema s)), wd_dropped := Some []\<rparr>)
             else case sorted_aggregate E s b2 time2 ids2 hashes2 of
                    (Inl e, s') \<Rightarrow> (Some (Inl e), s', d)
                  | (Inr (schema, on_time, late), s') \<Rightarrow>
                      (Some (Inr ()), s', d\<lparr>wd_results := Some \<lparr>wr_schema = schema, wr_batches = on_time,
                         wr_late_batches = late, wr_side_output = side\<rparr>\<rparr>))"

definition run_system ::
  "('f, 'o) window_env \<Rightarrow> ('f, 'o) windowed_system \<Rightarrow> ('f, 'o) window_data \<Rightarrow>
     unit saci_result option \<times> ('f, 'o) windowed_system \<times> ('f, 'o) window_data" where
  "run_system E s d =
     (case wd_batch d of
        None \<Rightarrow> (Some (Inl (Generic (''WindowedSystem: component '' @ quoted (ws_source s) @ '' not registered''))), s, d)
      | Some b0 \<Rightarrow>
          if num_rows b0 = 0
          then (Some (Inr ()), s, d\<lparr>wd_results := Some (new_results (empty_result_schema s))\<rparr>)
          else case index_of (ws_time_field s) (bt_names b0) of
            None \<Rightarrow> (Some (Inl (Generic (''WindowedSystem: time field '' @ quoted (ws_time_field s) @
              '' not found in component '' @ quoted (ws_source s)))), s, d)
          | Some time_idx \<Rightarrow>
              (case to_ms_array (bt_columns b0 ! time_idx) of
                 Inl e \<Rightarrow> (Some (Inl e), s, d)
               | Inr stamps \<Rightarrow>
                   let (b1, time1) = drop_null_times b0 stamps
                   in if num_rows b1 = 0
                      then (Some (Inr ()), s, d\<lparr>wd_results := Some (new_results (empty_result_schema s))\<rparr>)
                      else
                        let (b2, time2, side, s') = apply_watermark_filter s b1 time1
                        in if num_rows b2 = 0
                           then (Some (Inr ()), s', d\<lparr>wd_results :=
                             Some ((new_results (empty_result_schema s))\<lparr>wr_side_output := side\<rparr>)\<rparr>)
                           else run_windows E s' d b2 time2 side))"

section \<open>The builder\<close>

record ('f, 'o) system_builder =
  wb_source :: "string option"
  wb_time_field :: "string option"
  wb_key_fields :: "string list"
  wb_spec :: "window_spec option"
  wb_function :: "('f, 'o) window_function option"
  wb_lateness :: "int option"

definition new_builder :: "('f, 'o) system_builder" where
  "new_builder = \<lparr>wb_source = None, wb_time_field = None, wb_key_fields = [], wb_spec = None,
     wb_function = None, wb_lateness = None\<rparr>"

definition build_system :: "('f, 'o) system_builder \<Rightarrow> ('f, 'o) windowed_system saci_result" where
  "build_system w =
     (case wb_source w of
        None \<Rightarrow> Inl (Configuration ''WindowedSystemBuilder: source component not set; call .source()'')
      | Some source_component \<Rightarrow>
          (case wb_time_field w of
             None \<Rightarrow> Inl (Configuration ''WindowedSystemBuilder: time field not set; call .source()'')
           | Some time_field \<Rightarrow>
               (case wb_spec w of
                  None \<Rightarrow> Inl (Configuration ''WindowedSystemBuilder: window spec not set; call .window()'')
                | Some spec \<Rightarrow>
                    (case wb_function w of
                       None \<Rightarrow> Inl (Configuration ''WindowedSystemBuilder: window function not set; call .function()'')
                     | Some f \<Rightarrow>
                         Inr \<lparr>ws_source = source_component, ws_time_field = time_field,
                           ws_key_fields = wb_key_fields w, ws_spec = spec, ws_function = f,
                           ws_watermark = map_option new_watermark (wb_lateness w), ws_emitted = {}\<rparr>))))"

end
