(* ===== verification/Window_System_Properties.thy ===== *)
theory Window_System_Properties
  imports Window_System Session_Properties
begin

text \<open>
  The group walk of the windowed system as a group-by over the pairs of window and key hash, the
  conservation of rows through a run, and what late-firing detection does across runs.
\<close>

section \<open>Groups of a sorted list of pairs\<close>

definition pair_le :: "int \<times> int \<Rightarrow> int \<times> int \<Rightarrow> bool" where
  "pair_le p q \<longleftrightarrow> fst p < fst q \<or> fst p = fst q \<and> snd p \<le> snd q"

definition group_rows :: "(int \<times> int) list \<Rightarrow> int \<times> int \<Rightarrow> nat list" where
  "group_rows pairs p = filter (\<lambda>i. pairs ! i = p) [0 ..< length pairs]"

lemma pair_le_antisym: "pair_le p q \<Longrightarrow> pair_le q p \<Longrightarrow> p = q"
  by (auto simp: pair_le_def prod_eq_iff)

lemma group_end_bounds:
  "lo < length pairs \<Longrightarrow> lo < group_end pairs lo \<and> group_end pairs lo \<le> length pairs"
  using length_takeWhile_le [of "\<lambda>p. p = pairs ! lo" "drop (lo + 1) pairs"] by (simp add: group_end_def)

lemma group_same:
  assumes "lo \<le> i" "i < group_end pairs lo"
  shows "pairs ! i = pairs ! lo"
proof (cases "i = lo")
  case False
  define k where "k = i - (lo + 1)"
  define d where "d = drop (lo + 1) pairs"
  have k: "i = lo + 1 + k" "k < length (takeWhile (\<lambda>p. p = pairs ! lo) d)"
    using assms False by (simp_all add: group_end_def k_def d_def)
  have "length (takeWhile (\<lambda>p. p = pairs ! lo) d) \<le> length d" by (rule length_takeWhile_le)
  then have "lo + 1 \<le> length pairs" using k(2) by (simp add: d_def)
  then have "d ! k = pairs ! i" using k(1) by (simp add: d_def)
  moreover have "takeWhile (\<lambda>p. p = pairs ! lo) d ! k = d ! k" by (rule takeWhile_nth [OF k(2)])
  moreover have "takeWhile (\<lambda>p. p = pairs ! lo) d ! k \<in> set (takeWhile (\<lambda>p. p = pairs ! lo) d)"
    using k(2) by (rule nth_mem)
  ultimately show ?thesis by (auto dest!: set_takeWhileD)
qed simp

lemma group_ends:
  assumes "group_end pairs lo < length pairs"
  shows "pairs ! group_end pairs lo \<noteq> pairs ! lo"
proof -
  let ?d = "drop (lo + 1) pairs" and ?P = "\<lambda>p. p = pairs ! lo"
  have "length (takeWhile ?P ?d) < length ?d" using assms by (simp add: group_end_def)
  from nth_length_takeWhile [OF this] show ?thesis
    using assms by (simp add: group_end_def nth_drop)
qed

lemma group_apart:
  assumes s: "sorted_wrt pair_le pairs" and lo: "lo < length pairs" and j: "group_end pairs lo \<le> j" "j < length pairs"
  shows "pairs ! j \<noteq> pairs ! lo"
proof
  assume eq: "pairs ! j = pairs ! lo"
  let ?e = "group_end pairs lo"
  have e: "lo < ?e" "?e < length pairs" using group_end_bounds [OF lo] j by auto
  have "pair_le (pairs ! lo) (pairs ! ?e)" using s e lo by (simp add: sorted_wrt_iff_nth_less)
  moreover have "pair_le (pairs ! ?e) (pairs ! lo)"
  proof (cases "?e = j")
    case False
    then show ?thesis using s j e eq by (simp add: sorted_wrt_iff_nth_less flip: eq)
  qed (use eq in \<open>simp add: pair_le_def\<close>)
  ultimately show False using pair_le_antisym group_ends [OF e(2)] by blast
qed

lemma drop_group:
  assumes "lo < length pairs"
  shows "drop lo pairs = replicate (group_end pairs lo - lo) (pairs ! lo) @ drop (group_end pairs lo) pairs"
proof (rule nth_equalityI)
  show "length (drop lo pairs) = length (replicate (group_end pairs lo - lo) (pairs ! lo) @ drop (group_end pairs lo) pairs)"
    using group_end_bounds [OF assms] by simp
  fix i assume "i < length (drop lo pairs)"
  then show "drop lo pairs ! i = (replicate (group_end pairs lo - lo) (pairs ! lo) @ drop (group_end pairs lo) pairs) ! i"
    using group_same [of lo "lo + i" pairs] group_end_bounds [OF assms] by (simp add: nth_append add.commute)
qed

lemma remdups_group: "0 < m \<Longrightarrow> k \<notin> set ys \<Longrightarrow> remdups (replicate m k @ ys) = k # remdups ys"
proof (induction m)
  case (Suc m)
  then show ?case by (cases m) auto
qed simp

lemma group_rows_interval:
  assumes s: "sorted_wrt pair_le pairs" and lo: "lo < length pairs"
    and before: "\<forall>i < lo. \<forall>j < length pairs. lo \<le> j \<longrightarrow> pairs ! i \<noteq> pairs ! j"
  shows "group_rows pairs (pairs ! lo) = [lo ..< group_end pairs lo]"
proof -
  let ?e = "group_end pairs lo"
  have e: "lo < ?e" "?e \<le> length pairs" using group_end_bounds [OF lo] by auto
  have split: "[0 ..< length pairs] = [0 ..< lo] @ [lo ..< ?e] @ [?e ..< length pairs]"
    using e lo upt_add_eq_append [of 0 lo "length pairs - lo"] upt_add_eq_append [of lo "?e" "length pairs - ?e"]
    by simp
  have "filter (\<lambda>i. pairs ! i = pairs ! lo) [0 ..< lo] = []" using before lo by (auto simp: filter_empty_conv)
  moreover have "filter (\<lambda>i. pairs ! i = pairs ! lo) [lo ..< ?e] = [lo ..< ?e]"
    using group_same by (auto simp: filter_id_conv)
  moreover have "filter (\<lambda>i. pairs ! i = pairs ! lo) [?e ..< length pairs] = []"
    using group_apart [OF s lo] by (auto simp: filter_empty_conv)
  ultimately show ?thesis unfolding group_rows_def split by simp
qed

section \<open>The walk\<close>

declare walk_groups.simps [simp del]

lemma walk_groups_spec:
  assumes s: "sorted_wrt pair_le pairs"
    and fire: "\<And>w k l h late. fire w k l h late = Inr (g (w, k) [l ..< h] late)"
    and before: "\<forall>i < lo. \<forall>j < length pairs. lo \<le> j \<longrightarrow> pairs ! i \<noteq> pairs ! j"
  shows "walk_groups fire pairs lo em on_time late =
    (Inr (on_time @ map (\<lambda>p. g p (group_rows pairs p) False) (filter (\<lambda>p. p \<notin> em) (remdups (drop lo pairs))),
       late @ map (\<lambda>p. g p (group_rows pairs p) True) (filter (\<lambda>p. p \<in> em) (remdups (drop lo pairs)))),
     em \<union> set (drop lo pairs))"
  using before
proof (induction "length pairs - lo" arbitrary: lo em on_time late rule: less_induct)
  case less
  show ?case
  proof (cases "lo < length pairs")
    case False
    then show ?thesis by (subst walk_groups.simps) simp
  next
    case True
    define key where "key = pairs ! lo"
    define hi where "hi = group_end pairs lo"
    have hi: "lo < hi" "hi \<le> length pairs" using group_end_bounds [OF True] by (auto simp: hi_def)
    have apart: "key \<notin> set (drop hi pairs)"
      using group_apart [OF s True] by (auto simp: key_def hi_def in_set_conv_nth)
    have d: "drop lo pairs = replicate (hi - lo) key @ drop hi pairs"
      using drop_group [OF True] by (simp add: key_def hi_def)
    have rd: "remdups (drop lo pairs) = key # remdups (drop hi pairs)"
      unfolding d using remdups_group [OF _ apart] hi by simp
    have rows: "group_rows pairs key = [lo ..< hi]"
      unfolding key_def hi_def by (rule group_rows_interval [OF s True less.prems])
    have later: "\<forall>i < hi. \<forall>j < length pairs. hi \<le> j \<longrightarrow> pairs ! i \<noteq> pairs ! j"
    proof (intro allI impI)
      fix i j assume ij: "i < hi" "j < length pairs" "hi \<le> j"
      show "pairs ! i \<noteq> pairs ! j"
      proof (cases "i < lo")
        case False
        then show ?thesis using ij group_same [of lo i pairs] group_apart [OF s True, of j] by (auto simp: hi_def)
      qed (use less.prems ij hi in auto)
    qed
    have dec: "length pairs - hi < length pairs - lo" using hi True by simp
    note IH = less.hyps [OF dec later]
    have out: "fire (fst key) (snd key) lo hi l = Inr (g key [lo ..< hi] l)" for l by (simp add: fire)
    have f: "filter (\<lambda>p. p \<notin> insert key em) (remdups (drop hi pairs)) = filter (\<lambda>p. p \<notin> em) (remdups (drop hi pairs))"
      "filter (\<lambda>p. p \<in> insert key em) (remdups (drop hi pairs)) = filter (\<lambda>p. p \<in> em) (remdups (drop hi pairs))"
      using apart by (intro filter_cong refl; metis insert_iff set_remdups)+
    have sets: "insert key em \<union> set (drop hi pairs) = em \<union> set (drop lo pairs)"
      using d hi by auto
    show ?thesis
    proof (cases "key \<in> em")
      case late: True
      have "walk_groups fire pairs lo em on_time late =
          walk_groups fire pairs hi (insert key em) on_time (late @ [g key [lo ..< hi] True])"
        using True late by (subst walk_groups.simps) (simp add: out flip: key_def hi_def)
      then show ?thesis unfolding IH f sets rd using late rows by simp
    next
      case fresh: False
      have "walk_groups fire pairs lo em on_time late =
          walk_groups fire pairs hi (insert key em) (on_time @ [g key [lo ..< hi] False]) late"
        using True fresh by (subst walk_groups.simps) (simp add: out flip: key_def hi_def)
      then show ?thesis unfolding IH f sets rd using fresh rows by simp
    qed
  qed
qed


section \<open>The groups of a batch\<close>

lemma gather_gather: "\<forall>i \<in> set r. i < length idx \<Longrightarrow> gather r (gather idx xs) = gather (gather r idx) xs"
  by (simp add: gather_def)

lemma take_take_column:
  "\<forall>i \<in> set r. i < length idx \<Longrightarrow> take_column r (take_column idx c) = take_column (gather r idx) c"
  by (cases c) (simp_all add: gather_gather)

lemma take_take_batch:
  "\<forall>i \<in> set r. i < length idx \<Longrightarrow> take_batch r (take_batch idx b) = take_batch (gather r idx) b"
  by (simp add: take_batch_def take_take_column)

lemma group_rows_bound: "i \<in> set (group_rows pairs p) \<Longrightarrow> i < length pairs"
  by (simp add: group_rows_def)

text \<open>
  C29. The walk over the sorted rows is a group-by. For a process function, which returns \<open>h\<close> of the
  context and the rows, and rows sorted by window and key hash, \<^verbatim>\<open>aggregate_groups\<close> calls it once
  for every distinct pair, with exactly the rows of that pair, in sorted order: the groups not
  emitted before give the results on time, the others, flagged in the context, the late ones, and
  every pair seen is marked emitted.
\<close>

theorem groups_are_group_by:
  assumes "ws_function s = Process (\<lambda>ctx b. Inr (h ctx b))"
    and "length wins = length idx" "length keys = length idx" "sorted_wrt pair_le (zip wins keys)"
    and "pairs = zip wins keys" "known = ws_emitted s"
    and "out = (\<lambda>p. h (context_of (ws_spec s) (fst p) (p \<in> known) wm) (take_batch (gather (group_rows pairs p) idx) src))"
  shows "aggregate_groups F s src idx wins keys sorted_time wm =
    (Inr ([], map out (filter (\<lambda>p. p \<notin> known) (remdups pairs)), map out (filter (\<lambda>p. p \<in> known) (remdups pairs))),
     s\<lparr>ws_emitted := known \<union> set pairs\<rparr>)"
proof -
  define g where "g = (\<lambda>(p :: int \<times> int) rows late. h (context_of (ws_spec s) (fst p) late wm) (take_batch rows (take_batch idx src)))"
  define fire where "fire = (\<lambda>win key lo hi is_late. aggregate_slice F s [] (bt_columns (take_batch idx src) ! 0)
      (take_batch idx src) sorted_time win key lo hi is_late wm)"
  have fires: "fire w k l hi late = Inr (g (w, k) [l ..< hi] late)" for w k l hi late
    using assms(1) by (simp add: fire_def g_def aggregate_slice_def Let_def slice_rows_def)
  have sorted: "sorted_wrt pair_le pairs" using assms(4,5) by simp
  have rows: "take_batch (group_rows pairs p) (take_batch idx src) = take_batch (gather (group_rows pairs p) idx) src" for p
    by (rule take_take_batch) (use assms(2,3,5) group_rows_bound in fastforce)
  have walk: "walk_groups fire pairs 0 known [] [] =
      (Inr (map (\<lambda>p. g p (group_rows pairs p) False) (filter (\<lambda>p. p \<notin> known) (remdups pairs)),
        map (\<lambda>p. g p (group_rows pairs p) True) (filter (\<lambda>p. p \<in> known) (remdups pairs))), known \<union> set pairs)"
    using walk_groups_spec [of pairs fire g 0 known "[]" "[]", OF sorted fires] by simp
  have m: "map (\<lambda>p. g p (group_rows pairs p) False) (filter (\<lambda>p. p \<notin> known) (remdups pairs)) = map out (filter (\<lambda>p. p \<notin> known) (remdups pairs))"
    "map (\<lambda>p. g p (group_rows pairs p) True) (filter (\<lambda>p. p \<in> known) (remdups pairs)) = map out (filter (\<lambda>p. p \<in> known) (remdups pairs))"
    using assms(7) rows by (auto simp: g_def)
  have prep: "prepare_aggregate_inputs s src idx = Inr ([], bt_columns (take_batch idx src) ! 0, take_batch idx src)"
    using assms(1) by (simp add: prepare_aggregate_inputs_def Let_def)
  show ?thesis using assms(2,3,5,6) walk unfolding m fire_def
    by (simp add: aggregate_groups_def prep Let_def)
qed

definition tagging_system :: "(int \<times> int) set \<Rightarrow> ('f, 'o) windowed_system" where
  "tagging_system known = \<lparr>ws_source = ''s'', ws_time_field = ''t'', ws_key_fields = [], ws_spec = Tumbling 1000 0,
     ws_function = Process (\<lambda>ctx b. Inr b), ws_watermark = None, ws_emitted = known\<rparr>"

section \<open>No row is lost\<close>

definition nat_floats :: "nat float_kernels \<Rightarrow> bool" where
  "nat_floats F \<longleftrightarrow> fk_of_nat F = id"

definition counted :: "(nat, 'o) batch \<Rightarrow> nat" where
  "counted b = (case bt_columns b of _ # _ # Float_Column [Some v] # _ \<Rightarrow> v | _ \<Rightarrow> 0)"

definition batch_wf :: "('f, 'o) batch \<Rightarrow> bool" where
  "batch_wf b \<longleftrightarrow> bt_columns b \<noteq> [] \<and> length (bt_names b) = length (bt_columns b) \<and>
     (\<forall>c \<in> set (bt_columns b). column_length c = num_rows b) \<and> num_rows b < 2 ^ 32"

lemma length_gather [simp]: "length (gather idx xs) = length idx"
  by (simp add: gather_def)

lemma column_length_take [simp]: "column_length (take_column idx c) = length idx"
  by (cases c) simp_all

lemma num_rows_take: "bt_columns b \<noteq> [] \<Longrightarrow> num_rows (take_batch idx b) = length idx"
  by (cases "bt_columns b") (simp_all add: num_rows_def take_batch_def)

lemma batch_wf_take: "batch_wf b \<Longrightarrow> length idx < 2 ^ 32 \<Longrightarrow> batch_wf (take_batch idx b)"
  by (auto simp: batch_wf_def num_rows_take) (auto simp: take_batch_def)

lemma group_rows_sum: "sum_list (map (\<lambda>p. length (group_rows pairs p)) (remdups pairs)) = length pairs"
proof -
  have len: "length (group_rows pairs p) = card {i \<in> {0 ..< length pairs}. pairs ! i = p}" for p
    using distinct_card [of "group_rows pairs p"] by (simp add: group_rows_def)
  have "sum_list (map (\<lambda>p. length (group_rows pairs p)) (remdups pairs)) =
      (\<Sum>p \<in> set pairs. card {i \<in> {0 ..< length pairs}. pairs ! i = p})"
    unfolding len by (simp add: sum_list_distinct_conv_sum_set)
  also have "set pairs = (!) pairs ` {0 ..< length pairs}" by (auto simp: set_conv_nth)
  also have "(\<Sum>p \<in> (!) pairs ` {0 ..< length pairs}. card {i \<in> {0 ..< length pairs}. pairs ! i = p}) =
      card {0 ..< length pairs}"
    using sum.image_gen [of "{0 ..< length pairs}" "\<lambda>_. 1 :: nat" "(!) pairs"] by simp
  finally show ?thesis by simp
qed


lemma sum_filters:
  "sum_list (map f (filter P xs)) + sum_list (map f (filter (\<lambda>x. \<not> P x) xs)) = (sum_list (map f xs) :: nat)"
  by (induction xs) auto

definition float_field :: "string \<Rightarrow> ('f, 'o) batch \<Rightarrow> bool" where
  "float_field field b \<longleftrightarrow> (\<exists>i xs. index_of field (bt_names b) = Some i \<and> i < length (bt_columns b) \<and>
     bt_columns b ! i = Float_Column xs)"

lemma float_field_take: "float_field field b \<Longrightarrow> float_field field (take_batch idx b)"
  by (fastforce simp: float_field_def take_batch_def)

lemma counts_of_groups:
  fixes src :: "(nat, 'o) batch"
  assumes F: "nat_floats F" and fn: "ws_function s = Reduce field Count" and src: "float_field field src"
    and len: "length wins = length idx" "length keys = length idx" and sorted: "sorted_wrt pair_le (zip wins keys)"
    and run: "aggregate_groups F s src idx wins keys st wm = (r, s')"
  shows "\<exists>schema on_time late. r = Inr (schema, on_time, late) \<and>
    sum_list (map counted (on_time @ late)) = length idx"
proof -
  obtain i xs where i: "index_of field (bt_names src) = Some i" "i < length (bt_columns src)"
    "bt_columns src ! i = Float_Column xs" using src by (auto simp: float_field_def)
  define col :: "(nat, 'o) column" where "col = Float_Column (gather idx xs)"
  have col: "bt_columns (take_batch idx src) ! i = col" using i by (simp add: take_batch_def col_def)
  obtain schema where prep: "prepare_aggregate_inputs s src idx = Inr (schema, col, take_batch idx src)"
    using fn i(1) col by (simp add: prepare_aggregate_inputs_def Let_def)
  define g where "g = (\<lambda>(p :: int \<times> int) rows (late :: bool). \<lparr>bt_names = schema,
     bt_columns = [Int_Column [Some (fst p)], Int_Column [Some (snd p)], Float_Column [Some (length rows)]] @
       (if session_spec (ws_spec s)
        then [Int_Column [Some (least_of (gather rows st))], Int_Column [Some (greatest_of (gather rows st))]]
        else [])\<rparr> :: (nat, 'o) batch)"
  define fire where "fire = (\<lambda>win key lo hi is_late. aggregate_slice F s schema col (take_batch idx src) st win key lo hi is_late wm)"
  have fires: "fire w k l hi late = Inr (g (w, k) [l ..< hi] late)" for w k l hi late
    using fn F by (simp add: fire_def g_def aggregate_slice_def Let_def col_def nat_floats_def)
  define pairs where "pairs = zip wins keys"
  have c: "counted (g p rows late) = length rows" for p rows late by (simp add: counted_def g_def)
  have n: "length pairs = length idx" using len by (simp add: pairs_def)
  note walk = walk_groups_spec [of pairs fire g 0 "ws_emitted s" "[]" "[]", OF sorted [folded pairs_def] fires]
  have "r = Inr (schema, map (\<lambda>p. g p (group_rows pairs p) False) (filter (\<lambda>p. p \<notin> ws_emitted s) (remdups pairs)),
      map (\<lambda>p. g p (group_rows pairs p) True) (filter (\<lambda>p. p \<in> ws_emitted s) (remdups pairs)))"
    using run len walk by (simp add: aggregate_groups_def prep Let_def flip: fire_def pairs_def)
  moreover have "sum_list (map counted (map (\<lambda>p. g p (group_rows pairs p) False) (filter (\<lambda>p. p \<notin> ws_emitted s) (remdups pairs)) @
      map (\<lambda>p. g p (group_rows pairs p) True) (filter (\<lambda>p. p \<in> ws_emitted s) (remdups pairs)))) = length idx"
    using sum_filters [of "\<lambda>p. length (group_rows pairs p)" "\<lambda>p. p \<in> ws_emitted s" "remdups pairs"] group_rows_sum [of pairs] n
    by (simp add: comp_def c)
  ultimately show ?thesis by blast
qed

definition hash_lengths :: "('f, 'o) window_env \<Rightarrow> bool" where
  "hash_lengths E \<longleftrightarrow> (\<forall>cols. cols \<noteq> [] \<longrightarrow> (\<exists>h. we_hash E cols = Some (Inr h) \<and> length h = column_length (hd cols)))"

lemma key_columns_hd:
  "key_columns s b (f # fs) = Inr cols \<Longrightarrow> \<exists>i rest. index_of f (bt_names b) = Some i \<and> cols = bt_columns b ! i # rest"
  by (auto simp: res_bind_eq_Inr split: option.splits)

lemma index_of_less: "index_of x xs = Some i \<Longrightarrow> i < length xs"
  by (induction xs arbitrary: i) (auto split: if_splits)

lemma row_hashes_length:
  assumes "batch_wf b" "hash_lengths E" "row_hashes E s b = Some (Inr h)"
  shows "length h = num_rows b"
proof (cases "ws_key_fields s")
  case Nil
  then show ?thesis using assms(3) by (auto simp: row_hashes_def compute_global_hash_def)
next
  case (Cons f fs)
  then obtain cols where cols: "key_columns s b (f # fs) = Inr cols" "we_hash E cols = Some (Inr h)"
    using assms(3) by (auto simp: row_hashes_def run_bind_def split: option.splits sum.splits)
  obtain i rest where i: "index_of f (bt_names b) = Some i" "cols = bt_columns b ! i # rest"
    using key_columns_hd [OF cols(1)] by blast
  have "bt_columns b ! i \<in> set (bt_columns b)" using index_of_less [OF i(1)] assms(1) by (auto simp: batch_wf_def)
  moreover have "length h = column_length (hd cols)"
    using assms(2) cols(2) i(2) unfolding hash_lengths_def by (metis list.distinct(1) option.inject sum.inject(2))
  ultimately show ?thesis using assms(1) i(2) by (simp add: batch_wf_def)
qed


text \<open>From the kept rows to the results: every row that reaches the windows is in one group.\<close>

lemma those_length: "those xs = Some ys \<Longrightarrow> length ys = length xs"
  by (induction xs arbitrary: ys) (auto split: option.splits)

lemma run_windows_counts:
  fixes b :: "(nat, 'o) batch"
  assumes E: "nat_floats (we_float E)" "sort_contract (we_arrow E)" "hash_lengths E"
    and s: "ws_spec s = Tumbling sz off" "ws_function s = Reduce field Count"
    and d: "wd_partition d = None" and b: "batch_wf b" "float_field field b" "length tm = num_rows b"
    and run: "run_windows E s d b tm side = (Some (Inr ()), s', d')"
  shows "\<exists>r. wd_results d' = Some r \<and> wr_side_output r = side \<and>
    sum_list (map counted (wr_batches r @ wr_late_batches r)) = num_rows b"
proof -
  obtain ids where ids: "assign_windows E s b tm = Some (Inr (b, tm, ids))" "length ids = num_rows b"
    using run s(1) b(3) those_length
    by (fastforce simp: run_windows_def assign_windows_def run_bind_def raw_values_def split: option.splits)
  obtain h where h: "row_hashes E s b = Some (Inr h)"
    using run ids by (auto simp: run_windows_def run_bind_def split: option.splits sum.splits)
  have hl: "length h = num_rows b" by (rule row_hashes_length [OF b(1) E(3) h])
  obtain idx where idx: "lexsort_to_indices (we_arrow E) ids h = Inr idx" "distinct idx"
    "set idx = {0 ..< length h}" "sorted_wrt (lex_le ids h) idx"
    using E(2) ids(2) hl unfolding sort_contract_def by metis
  have li: "length idx = num_rows b" using distinct_card [OF idx(2)] idx(3) hl by simp
  define wm where "wm = (case ws_watermark s of Some w \<Rightarrow> current_watermark w | None \<Rightarrow> i64_min)"
  obtain r s2 where agg: "aggregate_groups (we_float E) s b idx (gather idx ids) (gather idx h) (gather idx (raw_values tm)) wm = (r, s2)"
    by (metis prod.exhaust)
  have "sorted_wrt pair_le (zip (gather idx ids) (gather idx h))"
    using idx(4) by (simp add: sorted_wrt_iff_nth_less gather_def pair_le_def lex_le_def)
  from counts_of_groups [OF E(1) s(2) b(2) _ _ this agg] obtain schema on_time late where
    r: "r = Inr (schema, on_time, late)" "sum_list (map counted (on_time @ late)) = length idx" by auto
  have "sorted_aggregate E s b tm ids h = (Inr (schema, on_time, late), s2)"
    using idx(1) agg r by (simp add: sorted_aggregate_def flip: wm_def)
  then show ?thesis using run ids(1) h d r(2) li by (auto simp: run_windows_def run_bind_def)
qed

section \<open>Filters\<close>

lemma as_u32_small: "n < 2 ^ 32 \<Longrightarrow> \<forall>i \<in> set is. i < n \<Longrightarrow> map as_u32 is = is"
  by (auto simp: as_u32_def intro!: map_idI)

lemma gather_filter: "gather (filter (\<lambda>i. P (xs ! i)) [0 ..< length xs]) xs = filter P xs"
proof -
  have "filter P (map ((!) xs) [0 ..< length xs]) = map ((!) xs) (filter (P \<circ> (!) xs) [0 ..< length xs])"
    by (rule filter_map)
  then show ?thesis by (simp add: map_nth gather_def comp_def)
qed

lemma drop_null_times_rows:
  assumes "batch_wf b" "length tm = num_rows b" "drop_null_times b tm = (b', tm')"
  shows "tm' = filter (\<lambda>t. t \<noteq> None) tm \<and> num_rows b' = length tm' \<and> batch_wf b' \<and>
    (\<forall>field. float_field field b \<longrightarrow> float_field field b')"
proof (cases "\<exists>t \<in> set tm. t = None")
  case True
  define keep where "keep = filter (\<lambda>i. tm ! i \<noteq> None) [0 ..< length tm]"
  have small: "length tm < 2 ^ 32" using assms by (simp add: batch_wf_def)
  have k: "map as_u32 keep = keep" by (rule as_u32_small [OF small]) (simp add: keep_def)
  have g: "gather keep tm = filter (\<lambda>t. t \<noteq> None) tm"
    using gather_filter [of "\<lambda>t. t \<noteq> None" tm] by (simp add: keep_def)
  have "length keep \<le> length [0 ..< length tm]" unfolding keep_def by (rule length_filter_le)
  then have lk: "length keep < 2 ^ 32" using small unfolding length_upt diff_zero by (rule order.strict_trans1)
  have "(b', tm') = (take_batch keep b, gather keep tm)"
    using assms(3) unfolding drop_null_times_def if_P [OF True] Let_def keep_def [symmetric] k by (rule sym)
  then have bt: "b' = take_batch keep b" "tm' = gather keep tm" by (rule prod.inject [THEN iffD1, THEN conjunct1], rule prod.inject [THEN iffD1, THEN conjunct2])
  have cols: "bt_columns b \<noteq> []" using assms(1) unfolding batch_wf_def by blast
  have n: "num_rows b' = length tm'"
    unfolding bt num_rows_take [OF cols] by (simp only: gather_def length_map)
  have fields: "\<forall>field. float_field field b \<longrightarrow> float_field field b'" unfolding bt using float_field_take by blast
  have wf: "batch_wf b'" unfolding bt by (rule batch_wf_take [OF assms(1) lk])
  have stamps: "tm' = filter (\<lambda>t. t \<noteq> None) tm" unfolding bt by (rule g)
  show ?thesis by (rule conjI [OF stamps conjI [OF n conjI [OF wf fields]]])
next
  case False
  have "t \<noteq> None" if "t \<in> set tm" for t using bexI [of "\<lambda>t. t = None", OF _ that] False by iprover
  then have "\<forall>t \<in> set tm. t \<noteq> None" by (rule ballI)
  then have "tm = filter (\<lambda>t. t \<noteq> None) tm" by (rule filter_True [THEN sym])
  moreover have "(b', tm') = (b, tm)"
    using assms(3) unfolding drop_null_times_def if_not_P [OF False] by (rule sym)
  ultimately show ?thesis using assms(1,2) unfolding prod.inject by metis
qed

lemma watermark_filter_rows:
  assumes "batch_wf b" "length tm = num_rows b" "apply_watermark_filter s b tm = (b', tm', side, s')"
  shows "num_rows b' + sum_list (map num_rows side) = num_rows b \<and> length tm' = num_rows b' \<and> batch_wf b' \<and>
    (\<forall>field. float_field field b \<longrightarrow> float_field field b') \<and>
    s' = s\<lparr>ws_watermark := ws_watermark s'\<rparr>"
proof (cases "ws_watermark s")
  case None
  then show ?thesis using assms by (auto simp: apply_watermark_filter_def)
next
  case (Some w)
  define n where "n = length tm"
  define keep where "keep = filter (\<lambda>i. \<not> beyond w (tm ! i)) [0 ..< n]"
  define drp where "drp = filter (\<lambda>i. beyond w (tm ! i)) [0 ..< n]"
  define s1 where "s1 = s\<lparr>ws_watermark := Some (fold advance (map the (filter (\<lambda>t. t \<noteq> None) tm)) w)\<rparr>"
  have small: "n < 2 ^ 32" using assms(1,2) by (simp add: batch_wf_def n_def)
  have k: "map as_u32 keep = keep" "map as_u32 drp = drp"
    by (rule as_u32_small [OF small], simp add: keep_def drp_def)+
  have total: "length keep + length drp = n"
    using sum_length_filter_compl [of "\<lambda>i. beyond w (tm ! i)" "[0 ..< n]"] by (simp add: keep_def drp_def)
  have cols: "bt_columns b \<noteq> []" using assms(1) by (simp add: batch_wf_def)
  have res: "(b', tm', side, s') =
      (if drp = [] then (b, tm, [], s1) else (take_batch keep b, gather keep tm, [take_batch drp b], s1))"
    using assms(3) unfolding apply_watermark_filter_def Some option.case Let_def n_def [symmetric]
      keep_def [symmetric] drp_def [symmetric] k s1_def [symmetric] by (rule sym)
  have s': "s' = s\<lparr>ws_watermark := ws_watermark s'\<rparr>" using res by (auto simp: s1_def split: if_splits)
  show ?thesis
  proof (cases "drp = []")
    case True
    then show ?thesis using res s' assms(1,2) by auto
  next
    case False
    have wf: "batch_wf (take_batch keep b)" by (rule batch_wf_take [OF assms(1)]) (use total small in simp)
    have "num_rows (take_batch keep b) = length keep" "num_rows (take_batch drp b) = length drp"
      using cols by (simp_all add: num_rows_take)
    then show ?thesis using False res s' total assms(2) wf float_field_take by (auto simp: n_def)
  qed
qed

lemma to_ms_length: "to_ms_array c = Inr tm \<Longrightarrow> length tm = column_length c"
  by (cases c) auto


section \<open>A whole run\<close>

lemma index_of_found: "x \<in> set xs \<Longrightarrow> \<exists>i. index_of x xs = Some i"
  by (induction xs) auto

lemma key_columns_found: "set fs \<subseteq> set (bt_names b) \<Longrightarrow> \<exists>cols. key_columns s b fs = Inr cols"
  by (induction fs) (auto simp: res_bind_def dest!: index_of_found)

lemma row_hashes_found:
  assumes "hash_lengths E" "set (ws_key_fields s) \<subseteq> set (bt_names b)"
  shows "\<exists>h. row_hashes E s b = Some (Inr h)"
proof (cases "ws_key_fields s")
  case (Cons f fs)
  obtain cols where cols: "key_columns s b (ws_key_fields s) = Inr cols" using key_columns_found [OF assms(2)] by blast
  then have "cols \<noteq> []" using key_columns_hd [of s b f fs cols] Cons by auto
  then obtain h where "we_hash E cols = Some (Inr h)" using assms(1) unfolding hash_lengths_def by blast
  then show ?thesis using Cons cols by (simp add: row_hashes_def run_bind_def)
qed (simp add: row_hashes_def)

lemma assign_tumbling_total: "0 < sz \<Longrightarrow> \<exists>w. assign_tumbling ts sz off = Some w"
  by (simp add: assign_tumbling_def div_panics_def Let_def)

lemma those_total: "\<forall>x \<in> set xs. \<exists>y. f x = Some y \<Longrightarrow> \<exists>ys. those (map f xs) = Some ys"
  by (induction xs) auto

lemma run_windows_succeeds:
  fixes b :: "(nat, 'o) batch"
  assumes E: "nat_floats (we_float E)" "sort_contract (we_arrow E)" "hash_lengths E"
    and s: "ws_spec s = Tumbling sz off" "0 < sz" "ws_function s = Reduce field Count" "set (ws_key_fields s) \<subseteq> set (bt_names b)"
    and d: "wd_partition d = None" and b: "batch_wf b" "float_field field b" "length tm = num_rows b"
  shows "\<exists>s' d'. run_windows E s d b tm side = (Some (Inr ()), s', d')"
proof -
  obtain ids where ids: "those (map (\<lambda>ts. assign_tumbling ts sz off) (raw_values tm)) = Some ids"
    using those_total [of "raw_values tm" "\<lambda>ts. assign_tumbling ts sz off"] assign_tumbling_total [OF s(2)] by blast
  then have li: "length ids = num_rows b" using those_length [OF ids] b(3) by (simp add: raw_values_def)
  obtain h where h: "row_hashes E s b = Some (Inr h)" using row_hashes_found [OF E(3) s(4)] by blast
  have hl: "length h = num_rows b" by (rule row_hashes_length [OF b(1) E(3) h])
  obtain idx where idx: "lexsort_to_indices (we_arrow E) ids h = Inr idx" "sorted_wrt (lex_le ids h) idx"
    using E(2) li hl unfolding sort_contract_def by metis
  define wm where "wm = (case ws_watermark s of Some w \<Rightarrow> current_watermark w | None \<Rightarrow> i64_min)"
  obtain r s2 where agg: "aggregate_groups (we_float E) s b idx (gather idx ids) (gather idx h) (gather idx (raw_values tm)) wm = (r, s2)"
    by (metis prod.exhaust)
  have "sorted_wrt pair_le (zip (gather idx ids) (gather idx h))"
    using idx(2) by (simp add: sorted_wrt_iff_nth_less gather_def pair_le_def lex_le_def)
  from counts_of_groups [OF E(1) s(3) b(2) _ _ this agg] obtain schema on_time late where
    r: "r = Inr (schema, on_time, late)" by auto
  have "sorted_aggregate E s b tm ids h = (Inr (schema, on_time, late), s2)"
    using idx(1) agg r by (simp add: sorted_aggregate_def flip: wm_def)
  then show ?thesis using ids h d s(1) by (simp add: run_windows_def assign_windows_def run_bind_def)
qed

lemma drop_null_times_names: "drop_null_times b tm = (b', tm') \<Longrightarrow> bt_names b' = bt_names b"
  by (auto simp: drop_null_times_def Let_def take_batch_def split: if_splits)

lemma watermark_filter_names: "apply_watermark_filter s b tm = (b', tm', side, s') \<Longrightarrow> bt_names b' = bt_names b"
  by (auto simp: apply_watermark_filter_def Let_def take_batch_def split: option.splits if_splits)



text \<open>Counting kernels over the naturals, and a hash that sends every key to one value.\<close>

definition counting_kernels :: "nat float_kernels" where
  "counting_kernels = \<lparr>fk_sum = (\<lambda>xs. Some (length xs)), fk_min = (\<lambda>_. None), fk_max = (\<lambda>_. None), fk_zero = 0,
     fk_infinity = 0, fk_neg_infinity = 0, fk_nan = 0, fk_of_nat = id, fk_div = (div)\<rparr>"

theorem groups_are_group_by_witness:
  "aggregate_groups counting_kernels (tagging_system {(1, 0)}) (\<lparr>bt_names = [''t''], bt_columns = [Int_Column [Some 2500, Some 1000, Some 1700]]\<rparr> :: (nat, nat) batch)
     [1, 2, 0] [1, 1, 2] [0, 0, 0] [1000, 1700, 2500] 0 =
   (Inr ([], [\<lparr>bt_names = [''t''], bt_columns = [Int_Column [Some 2500]]\<rparr>],
      [\<lparr>bt_names = [''t''], bt_columns = [Int_Column [Some 1000, Some 1700]]\<rparr>]),
    tagging_system {(1, 0), (2, 0)})"
  using groups_are_group_by [of "tagging_system {(1, 0)}" "\<lambda>ctx b. b" "[1, 1, 2]" "[1, 2, 0]" "[0, 0, 0]"
      "zip [1, 1, 2] [0, 0, 0]" "{(1, 0)}" _ 0 "\<lparr>bt_names = [''t''], bt_columns = [Int_Column [Some 2500, Some 1000, Some 1700]]\<rparr> :: (nat, nat) batch"
      counting_kernels "[1000, 1700, 2500]", OF _ _ _ _ refl _ refl]
  by (simp add: tagging_system_def pair_le_def group_rows_def gather_def take_batch_def insert_commute)

definition counting_env :: "(nat, 'o) window_env" where
  "counting_env = \<lparr>we_arrow = list_kernels, we_hash = (\<lambda>cols. Some (Inr (replicate (column_length (hd cols)) 7))),
     we_float = counting_kernels\<rparr>"

definition counting_system :: "window_spec \<Rightarrow> int option \<Rightarrow> (nat, 'o) windowed_system" where
  "counting_system spec lateness = \<lparr>ws_source = ''s'', ws_time_field = ''t'', ws_key_fields = [''v''], ws_spec = spec,
     ws_function = Reduce ''v'' Count, ws_watermark = map_option new_watermark lateness, ws_emitted = {}\<rparr>"

definition timed_batch :: "int option list \<Rightarrow> (nat, 'o) batch" where
  "timed_batch ts = \<lparr>bt_names = [''t'', ''v''], bt_columns = [Int_Column ts, Float_Column (map (\<lambda>_. Some 1) ts)]\<rparr>"

definition data_of :: "(nat, 'o) batch \<Rightarrow> (nat, 'o) window_data" where
  "data_of b = \<lparr>wd_batch = Some b, wd_partition = None, wd_results = None, wd_dropped = None\<rparr>"


section \<open>Where the code departs from its documentation\<close>

text \<open>
  A session id counts the sessions of one run, from 0. A second run with a session of the same key,
  days later, finds \<^verbatim>\<open>(session, key)\<close> marked, and reports its first and only firing as a late one.
\<close>

lemma session_of_next_run_is_late:
  "(case run_system counting_env (counting_system (Session 1000) None) (data_of (timed_batch [Some 0])) of
      (_, s1, _) \<Rightarrow> (case run_system counting_env s1 (data_of (timed_batch [Some 90000000])) of
        (_, _, d2) \<Rightarrow> map_option (\<lambda>r. (length (wr_batches r), length (wr_late_batches r))) (wd_results d2))) = Some (0, 1)"
  by code_simp

text \<open>
  The context of a sliding window multiplies the window id by the size of the window, although the ids
  count slides: the window 3 of size 1000 and slide 100, which starts at 300, is reported to start at 3000.
\<close>

lemma sliding_context_off:
  "assign_sliding 350 1000 100 0 = Some [3, 2, 1, 0, - 1, - 2, - 3, - 4, - 5, - 6] \<and>
   wc_window_start (context_of (Sliding 1000 100 0) 3 False 0) = 3000"
  by code_simp

text \<open>
  When the partition of the keys leaves this instance no row, the results are those of an empty run:
  the side output that the watermark filter has just filled is not in them.
\<close>

lemma empty_partition_drops_side_output:
  "(case run_windows counting_env (counting_system (Tumbling 1000 0) (Some 0))
       ((data_of (timed_batch []))\<lparr>wd_partition := Some \<lparr>kp_instance_ordinal = 0, kp_num_instances = 2\<rparr>\<rparr>)
       (timed_batch [Some 6000]) [Some 6000] [timed_batch [Some 10]] of
      (r, _, d) \<Rightarrow> (r, map_option (\<lambda>w. (total_rows_including_late w, length (wr_side_output w))) (wd_results d))) =
   (Some (Inr ()), Some (0, 0))"
  by code_simp

end
