(* ===== verification/Config_Text.thy ===== *)
theory Config_Text
  imports Texts
begin

text \<open>
  Variable substitution of the configuration language, \<^verbatim>\<open>saci-config/src/lib.rs\<close>: the scan over
  the raw text, the two resolvers, the note a failed parse gets, and the position of an error. The
  process environment is an argument, a function from names to values; the declared variables are
  an association list, of which only the map counts.
\<close>

section \<open>The scan\<close>

text \<open>\<^verbatim>\<open>str::find\<close> of the separator \<^verbatim>\<open>:-\<close>, with what stands before and after it.\<close>

fun split_fallback :: "string \<Rightarrow> string \<times> string option" where
  "split_fallback [] = ([], None)"
| "split_fallback [c] = ([c], None)"
| "split_fallback (c # d # rest) =
     (if c = CHR '':'' \<and> d = CHR ''-'' then ([], Some rest)
      else case split_fallback (d # rest) of (name, fallback) \<Rightarrow> (c # name, fallback))"

text \<open>The characters up to the closing brace, and what follows it.\<close>

fun read_placeholder :: "string \<Rightarrow> (string \<times> string) option" where
  "read_placeholder [] = None"
| "read_placeholder (c # rest) =
     (if c = CHR ''}'' then Some ([], rest)
      else map_option (\<lambda>(p, after). (c # p, after)) (read_placeholder rest))"

definition unclosed_message :: string where
  "unclosed_message = ''unclosed '' @ quoted ''${'' @ '' in config '' @ [CHR 0xE2, CHR 0x80, CHR 0x94] @ '' missing '' @ quoted ''}''"

definition unset_message :: "string \<Rightarrow> string" where
  "unset_message name = ''env var '' @ quoted (''${'' @ name @ ''}'') @ '' is not set and has no default''"

text \<open>
  \<^verbatim>\<open>substitute_with\<close>. The resolver is a closure that may change what it captured, a value of type
  \<open>'s\<close> that it returns updated.
\<close>

lemma read_placeholder_shorter: "read_placeholder s = Some (p, after) \<Longrightarrow> length after < length s"
  by (induction s arbitrary: p after) (auto split: if_splits)

function substitute_loop ::
  "('s \<Rightarrow> string \<Rightarrow> string option saci_result \<times> 's) \<Rightarrow> string \<Rightarrow> string \<Rightarrow> 's \<Rightarrow> string saci_result \<times> 's" where
  "substitute_loop resolve [] result st = (Inr result, st)"
| "substitute_loop resolve (ch # chars) result st =
     (if ch = CHR ''$'' \<and> chars \<noteq> [] \<and> hd chars = CHR ''{'' then
        case read_placeholder (tl chars) of
          None \<Rightarrow> (Inl (Configuration unclosed_message), st)
        | Some (placeholder, after) \<Rightarrow>
            (case split_fallback placeholder of (var_name, fallback) \<Rightarrow>
               case resolve st var_name of
                 (Inl e, st') \<Rightarrow> (Inl e, st')
               | (Inr (Some val), st') \<Rightarrow> substitute_loop resolve after (result @ val) st'
               | (Inr None, st') \<Rightarrow>
                   (case fallback of
                      Some dflt \<Rightarrow> substitute_loop resolve after (result @ dflt) st'
                    | None \<Rightarrow> (Inl (Configuration (unset_message var_name)), st')))
      else substitute_loop resolve chars (result @ [ch]) st)"
  by pat_completeness auto

termination
  by (relation "measure (\<lambda>(resolve, chars, result, st). length chars)")
    (auto dest!: read_placeholder_shorter simp: neq_Nil_conv)

definition substitute_with ::
  "string \<Rightarrow> ('s \<Rightarrow> string \<Rightarrow> string option saci_result \<times> 's) \<Rightarrow> 's \<Rightarrow> string saci_result \<times> 's" where
  "substitute_with raw resolve st = substitute_loop resolve raw [] st"

lemma substitute_with_cong [fundef_cong]:
  "raw = raw' \<Longrightarrow> st = st' \<Longrightarrow> (\<And>s n. resolve s n = resolve' s n) \<Longrightarrow>
     substitute_with raw resolve st = substitute_with raw' resolve' st'"
  by (metis ext)

section \<open>The resolvers\<close>

text \<open>A resolver that captures nothing.\<close>

definition stateless :: "(string \<Rightarrow> string option saci_result) \<Rightarrow> unit \<Rightarrow> string \<Rightarrow> string option saci_result \<times> unit" where
  "stateless f = (\<lambda>_ name. (f name, ()))"

definition substitute_env_vars :: "(string \<Rightarrow> string option) \<Rightarrow> string \<Rightarrow> string saci_result" where
  "substitute_env_vars env raw = fst (substitute_with raw (stateless (\<lambda>name. Inr (env name))) ())"

definition cyclic_message :: "string \<Rightarrow> string" where
  "cyclic_message name = ''cyclic variable reference: ${'' @ name @ ''}''"

text \<open>
  \<^verbatim>\<open>resolve_declared_or_env\<close>. The stack is popped after a successful expansion and an error ends
  everything, so every placeholder of one value sees the same stack: it is an argument here.
\<close>

type_synonym variables = "(string \<times> string) list"

lemma declared_decreases:
  assumes "map_of declared name = Some value" "name \<notin> set stack"
  shows "card (fst ` set declared - insert name (set stack)) < card (fst ` set declared - set stack)"
proof (rule psubset_card_mono)
  have "name \<in> fst ` set declared" using assms(1) by (metis domI dom_map_of_conv_image_fst)
  then show "fst ` set declared - insert name (set stack) \<subset> fst ` set declared - set stack" using assms(2) by auto
qed simp

function resolve_declared_or_env ::
  "(string \<Rightarrow> string option) \<Rightarrow> variables \<Rightarrow> string list \<Rightarrow> string \<Rightarrow> string option saci_result" where
  "resolve_declared_or_env env declared stack name =
     (case map_of declared name of
        Some value \<Rightarrow>
          if name \<in> set stack then Inl (Configuration (cyclic_message name))
          else res_bind (fst (substitute_with value
                 (\<lambda>_ inner. (resolve_declared_or_env env declared (stack @ [name]) inner, ())) ()))
               (\<lambda>expanded. Inr (Some expanded))
      | None \<Rightarrow> Inr (env name))"
  by pat_completeness auto

termination
  by (relation "measure (\<lambda>(env, declared, stack, name). card (fst ` set declared - set stack))")
    (simp_all add: declared_decreases)

declare resolve_declared_or_env.simps [simp del]

definition substitute_vars :: "(string \<Rightarrow> string option) \<Rightarrow> string \<Rightarrow> variables \<Rightarrow> string saci_result" where
  "substitute_vars env raw declared =
     fst (substitute_with raw (stateless (resolve_declared_or_env env declared [])) ())"

section \<open>The note of a failed parse\<close>

record insertion =
  in_name :: string
  in_backslash :: bool
  in_quote :: bool

text \<open>An entry is added for a name that has none, so the entry \<^verbatim>\<open>find\<close> returns is the only one of its name.\<close>

definition note_insertion :: "string \<Rightarrow> string \<Rightarrow> insertion list \<Rightarrow> insertion list" where
  "note_insertion name val inserted =
     (let backslash = CHR 0x5C \<in> set val; quote = CHR 0x22 \<in> set val
      in if name \<in> in_name ` set inserted
         then map (\<lambda>e. if in_name e = name
             then e\<lparr>in_backslash := in_backslash e \<or> backslash, in_quote := in_quote e \<or> quote\<rparr> else e) inserted
         else inserted @ [\<lparr>in_name = name, in_backslash = backslash, in_quote = quote\<rparr>])"

fun join_with :: "string \<Rightarrow> string list \<Rightarrow> string" where
  "join_with sep [] = []"
| "join_with sep [s] = s"
| "join_with sep (s # t # rest) = s @ sep @ join_with sep (t # rest)"

definition held_note :: "insertion \<Rightarrow> string" where
  "held_note e =
     (let note = (\<lambda>held. [CHR 0x0A] @ ''  note: ${'' @ in_name e @ ''} holds '' @ held @
            '', which KDL reads as syntax inside a quoted string'')
      in case (in_backslash e, in_quote e) of
           (True, True) \<Rightarrow> note ''a backslash and a double quote''
         | (True, False) \<Rightarrow> note ''a backslash''
         | (False, True) \<Rightarrow> note ''a double quote''
         | (False, False) \<Rightarrow> [])"

definition with_substitution_context ::
  "(string \<Rightarrow> string option) \<Rightarrow> saci_error \<Rightarrow> string \<Rightarrow> variables \<Rightarrow> saci_error" where
  "with_substitution_context env error raw declared =
     (case substitute_with raw (\<lambda>inserted name.
             case resolve_declared_or_env env declared [] name of
               Inl e \<Rightarrow> (Inl e, inserted)
             | Inr resolved \<Rightarrow>
                 (Inr resolved, case resolved of Some val \<Rightarrow> note_insertion name val inserted | None \<Rightarrow> inserted)) [] of
        (Inl _, inserted) \<Rightarrow> error
      | (Inr _, inserted) \<Rightarrow>
          if inserted = [] then error
          else Configuration (error_message error @ [CHR 0x0A] @
            ''  note: substitution ran before the parser and inserted '' @
            join_with '', '' (map (\<lambda>e. ''${'' @ in_name e @ ''}'') inserted) @ concat (map held_note inserted)))"

section \<open>Positions\<close>

text \<open>
  \<^verbatim>\<open>line_column\<close> of a byte offset. A character of the text stands for the bytes of its UTF-8 form;
  the model's characters are those bytes, so a column counts the bytes that start a character.
\<close>

definition starts_char :: "char \<Rightarrow> bool" where
  "starts_char c \<longleftrightarrow> \<not> (0x80 \<le> (of_char c :: nat) \<and> (of_char c :: nat) < 0xC0)"

fun line_column_loop :: "string \<Rightarrow> nat \<Rightarrow> nat \<Rightarrow> nat \<Rightarrow> nat \<Rightarrow> nat \<times> nat" where
  "line_column_loop [] index offset line column = (line, column)"
| "line_column_loop (ch # rest) index offset line column =
     (if \<not> starts_char ch then line_column_loop rest (index + 1) offset line column
      else if index \<ge> offset then (line, column)
      else if ch = CHR 0x0A then line_column_loop rest (index + 1) offset (line + 1) 1
      else line_column_loop rest (index + 1) offset line (column + 1))"

definition line_column :: "string \<Rightarrow> nat \<Rightarrow> nat \<times> nat" where
  "line_column input offset = line_column_loop input 0 offset 1 1"

end
