(* ===== verification/Config_Text_Properties.thy ===== *)
theory Config_Text_Properties
  imports Config_Text
begin

text \<open>
  Substitution against a reference: the text is read as a template of literal characters and holes,
  and a template is rendered from left to right. On it rest the facts about declared variables: a
  chain of references that returns to itself is refused, and without one every variable stands for
  its expanded value.
\<close>

section \<open>Templates\<close>

datatype piece = Lit char | Hole string "string option"

text \<open>The pieces of a text, and whether every placeholder is closed.\<close>

function pieces :: "string \<Rightarrow> piece list \<times> bool" where
  "pieces [] = ([], True)"
| "pieces (ch # chars) =
     (if ch = CHR ''$'' \<and> chars \<noteq> [] \<and> hd chars = CHR ''{'' then
        case read_placeholder (tl chars) of
          None \<Rightarrow> ([], False)
        | Some (placeholder, after) \<Rightarrow>
            (case pieces after of (ps, closed) \<Rightarrow>
               (Hole (fst (split_fallback placeholder)) (snd (split_fallback placeholder)) # ps, closed))
      else case pieces chars of (ps, closed) \<Rightarrow> (Lit ch # ps, closed))"
  by pat_completeness auto
termination
  by (relation "measure length") (auto dest!: read_placeholder_shorter simp: neq_Nil_conv)

fun render :: "(string \<Rightarrow> string option saci_result) \<Rightarrow> piece list \<Rightarrow> bool \<Rightarrow> string saci_result" where
  "render f [] closed = (if closed then Inr [] else Inl (Configuration unclosed_message))"
| "render f (Lit c # ps) closed = res_bind (render f ps closed) (\<lambda>s. Inr (c # s))"
| "render f (Hole name fallback # ps) closed =
     res_bind (f name) (\<lambda>r.
       case (if r = None then fallback else r) of
         None \<Rightarrow> Inl (Configuration (unset_message name))
       | Some v \<Rightarrow> res_bind (render f ps closed) (\<lambda>s. Inr (v @ s)))"

definition hole_names :: "string \<Rightarrow> string set" where
  "hole_names raw = {name. \<exists>fallback. Hole name fallback \<in> set (fst (pieces raw))}"

lemma res_bind_assoc: "res_bind (res_bind r f) g = res_bind r (\<lambda>x. res_bind (f x) g)"
  by (cases r) auto

lemma substitute_loop_render:
  "fst (substitute_loop (stateless f) raw result ()) =
     res_bind (render f (fst (pieces raw)) (snd (pieces raw))) (\<lambda>s. Inr (result @ s))"
proof (induction raw arbitrary: result rule: pieces.induct)
  case (2 ch chars)
  show ?case
  proof (cases "ch = CHR ''$'' \<and> chars \<noteq> [] \<and> hd chars = CHR ''{''")
    case True
    show ?thesis
    proof (cases "read_placeholder (tl chars)")
      case (Some pa)
      obtain p after where pa: "pa = (p, after)" by (cases pa)
      obtain name fallback where n: "split_fallback p = (name, fallback)" by (cases "split_fallback p")
      note IH = 2(1)[OF True Some [unfolded pa] refl]
      show ?thesis
        using True Some pa n IH
        by (cases "f name"; cases "pieces after"; auto simp: stateless_def res_bind_assoc split: option.splits)
    qed (use True in simp)
  next
    case False
    then show ?thesis using 2(2) by (cases "pieces chars") (auto simp: res_bind_assoc)
  qed
qed simp

lemma substitute_with_render [simp]:
  "fst (substitute_with raw (stateless f) ()) = render f (fst (pieces raw)) (snd (pieces raw))"
  unfolding substitute_with_def substitute_loop_render by (cases "render f (fst (pieces raw)) (snd (pieces raw))") auto

lemma render_cong:
  "(\<And>name fallback. Hole name fallback \<in> set ps \<Longrightarrow> f name = g name) \<Longrightarrow> render f ps closed = render g ps closed"
proof (induction ps)
  case (Cons q ps)
  then have tail: "render f ps closed = render g ps closed" by (meson list.set_intros(2))
  have "f name = g name" if "q = Hole name fb" for name fb using Cons.prems that by (meson list.set_intros(1))
  then show ?case by (cases q) (simp_all add: tail cong: option.case_cong)
qed simp

lemma render_error:
  "render f ps closed = Inl e \<Longrightarrow> e = Configuration unclosed_message \<or>
     (\<exists>name fallback. Hole name fallback \<in> set ps \<and> (f name = Inl e \<or> e = Configuration (unset_message name)))"
proof (induction ps)
  case (Cons q ps)
  have "render f ps closed = Inl e \<or> (\<exists>name fallback. q = Hole name fallback \<and> (f name = Inl e \<or> e = Configuration (unset_message name)))"
    using Cons.prems by (cases q) (auto simp: res_bind_def split: sum.splits option.splits if_splits)
  then show ?case using Cons.IH by auto
qed (auto split: if_splits)

lemma render_holes:
  "render f ps closed = Inr s \<Longrightarrow> Hole name fallback \<in> set ps \<Longrightarrow> \<exists>r. f name = Inr r"
proof (induction ps arbitrary: s)
  case (Cons q ps)
  have "\<exists>s. render f ps closed = Inr s" "q = Hole name fallback \<Longrightarrow> \<exists>r. f name = Inr r"
    using Cons.prems(1) by (cases q; auto simp: res_bind_def split: sum.splits option.splits if_splits)+
  then show ?case using Cons.IH Cons.prems(2) by auto
qed simp

section \<open>References between declarations\<close>

definition refers :: "variables \<Rightarrow> (string \<times> string) set" where
  "refers d = {(a, b). \<exists>v. map_of d a = Some v \<and> b \<in> hole_names v}"

lemma resolve_render:
  "resolve_declared_or_env env d stack name =
     (case map_of d name of
        Some v \<Rightarrow> if name \<in> set stack then Inl (Configuration (cyclic_message name))
          else res_bind (render (resolve_declared_or_env env d (stack @ [name])) (fst (pieces v)) (snd (pieces v)))
            (\<lambda>s. Inr (Some s))
      | None \<Rightarrow> Inr (env name))"
proof -
  have "fst (substitute_with v (\<lambda>_ inner. (g inner, ())) ()) = render g (fst (pieces v)) (snd (pieces v))" for v g
    using substitute_with_render [of v g] by (simp add: stateless_def)
  then show ?thesis by (subst resolve_declared_or_env.simps) (simp split: option.splits)
qed

lemma messages_differ [simp]:
  "cyclic_message x \<noteq> unclosed_message" "cyclic_message x \<noteq> unset_message y"
  by (simp_all add: cyclic_message_def unclosed_message_def unset_message_def quoted_def)

lemma cyclic_message_inj [simp]: "cyclic_message x = cyclic_message y \<longleftrightarrow> x = y"
  by (simp add: cyclic_message_def)

lemma cycle_found:
  assumes "resolve_declared_or_env env d stack name = Inl (Configuration (cyclic_message x))"
    and "\<forall>s \<in> set stack. (s, name) \<in> (refers d)\<^sup>+"
  shows "(x, x) \<in> (refers d)\<^sup>+"
  using assms
proof (induction env d stack name rule: resolve_declared_or_env.induct)
  case (1 env d stack name)
  obtain v where v: "map_of d name = Some v" using 1(2) by (subst (asm) resolve_render) (auto split: option.splits)
  show ?case
  proof (cases "name \<in> set stack")
    case True
    then show ?thesis using 1(2,3) v by (subst (asm) resolve_render) auto
  next
    case False
    then have "render (resolve_declared_or_env env d (stack @ [name])) (fst (pieces v)) (snd (pieces v)) =
        Inl (Configuration (cyclic_message x))"
      using 1(2) v by (subst (asm) resolve_render) (auto simp: res_bind_def split: sum.splits)
    from render_error [OF this] obtain n fb where n: "Hole n fb \<in> set (fst (pieces v))"
      "resolve_declared_or_env env d (stack @ [name]) n = Inl (Configuration (cyclic_message x))" by auto
    have step: "(name, n) \<in> refers d" using v n(1) by (auto simp: refers_def hole_names_def)
    have "\<forall>s \<in> set (stack @ [name]). (s, n) \<in> (refers d)\<^sup>+"
      using 1(3) step by (auto intro: trancl_into_trancl)
    then show ?thesis using 1(1)[OF v False n(2)] by blast
  qed
qed

lemma resolved_reaches_no_stack:
  assumes "resolve_declared_or_env env d stack name = Inr r" "(name, m) \<in> (refers d)\<^sup>*" "map_of d m \<noteq> None"
  shows "m \<notin> set stack"
  using assms
proof (induction env d stack name arbitrary: r rule: resolve_declared_or_env.induct)
  case (1 env d stack name)
  from 1(3) show ?case
  proof (cases rule: converse_rtranclE)
    case base
    then show ?thesis using 1(2,4) by (subst (asm) resolve_render) (auto split: if_splits)
  next
    case (step n)
    then obtain v fb where v: "map_of d name = Some v" "Hole n fb \<in> set (fst (pieces v))"
      by (auto simp: refers_def hole_names_def)
    have new: "name \<notin> set stack" using 1(2) v(1) by (subst (asm) resolve_render) (auto split: if_splits)
    have "\<exists>s. render (resolve_declared_or_env env d (stack @ [name])) (fst (pieces v)) (snd (pieces v)) = Inr s"
      using 1(2) v(1) new by (subst (asm) resolve_render) (auto simp: res_bind_eq_Inr)
    then obtain r' where "resolve_declared_or_env env d (stack @ [name]) n = Inr r'"
      using render_holes v(2) by blast
    then show ?thesis using 1(1)[OF v(1) new] step(2) 1(4) by auto
  qed
qed

section \<open>Declared variables\<close>

lemma finite_hole_names [simp]: "finite (hole_names raw)"
proof (rule finite_subset)
  show "hole_names raw \<subseteq> (\<lambda>p. case p of Hole n _ \<Rightarrow> n | Lit _ \<Rightarrow> []) ` set (fst (pieces raw))"
    unfolding hole_names_def by (force split: piece.splits)
qed simp

lemma finite_refers [simp]: "finite (refers d)"
proof (rule finite_subset)
  show "refers d \<subseteq> (\<Union>a \<in> fst ` set d. {a} \<times> hole_names (the (map_of d a)))"
  proof (clarify)
    fix a b
    assume "(a, b) \<in> refers d"
    then obtain v where v: "map_of d a = Some v" "b \<in> hole_names v" by (auto simp: refers_def)
    then have "a \<in> fst ` set d" by (metis domI dom_map_of_conv_image_fst)
    then show "(a, b) \<in> (\<Union>a \<in> fst ` set d. {a} \<times> hole_names (the (map_of d a)))" using v by auto
  qed
qed auto

lemma stack_irrelevant:
  assumes "acyclic (refers d)" "\<forall>s \<in> set stack. (s, name) \<in> (refers d)\<^sup>+"
  shows "resolve_declared_or_env env d stack name = resolve_declared_or_env env d [] name"
proof -
  have "wf ((refers d)\<inverse>)" using assms(1) by (simp add: finite_acyclic_wf_converse)
  then show ?thesis using assms(2)
  proof (induction name arbitrary: stack rule: wf_induct_rule)
    case (less name)
    have new: "name \<notin> set stack" using less(2) assms(1) by (auto simp: acyclic_def)
    have eq: "resolve_declared_or_env env d (st @ [name]) n = resolve_declared_or_env env d [] n"
      if "(name, n) \<in> refers d" "\<forall>s \<in> set st. (s, name) \<in> (refers d)\<^sup>+" for n st
      using less(1)[of n "st @ [name]"] that by (auto intro: trancl_into_trancl)
    have "render (resolve_declared_or_env env d (stack @ [name])) (fst (pieces v)) cl =
        render (resolve_declared_or_env env d ([] @ [name])) (fst (pieces v)) cl" if "map_of d name = Some v" for v cl
    proof (rule render_cong)
      fix n fb
      assume "Hole n fb \<in> set (fst (pieces v))"
      then have "(name, n) \<in> refers d" using that by (auto simp: refers_def hole_names_def)
      then show "resolve_declared_or_env env d (stack @ [name]) n = resolve_declared_or_env env d ([] @ [name]) n"
        using eq [OF _ less(2)] eq [of n "[]"] by simp
    qed
    then show ?case
      unfolding resolve_render [of env d stack name] resolve_render [of env d "[]" name]
      using new by (simp split: option.splits)
  qed
qed

lemma resolve_unstacked:
  assumes "acyclic (refers d)"
  shows "resolve_declared_or_env env d [] name =
    (case map_of d name of
       Some v \<Rightarrow> res_bind (substitute_vars env v d) (\<lambda>s. Inr (Some s))
     | None \<Rightarrow> Inr (env name))"
proof -
  have "render (resolve_declared_or_env env d ([] @ [name])) (fst (pieces v)) cl =
      render (resolve_declared_or_env env d []) (fst (pieces v)) cl" if v: "map_of d name = Some v" for v cl
  proof (rule render_cong)
    fix n fb
    assume "Hole n fb \<in> set (fst (pieces v))"
    then have "(name, n) \<in> refers d" using v by (auto simp: refers_def hole_names_def)
    then show "resolve_declared_or_env env d ([] @ [name]) n = resolve_declared_or_env env d [] n"
      by (intro stack_irrelevant [OF assms]) auto
  qed
  then show ?thesis by (subst resolve_render) (auto simp: substitute_vars_def split: option.splits)
qed

text \<open>
  References between declared variables. A cycle error names a variable that does refer to itself
  through a chain of declarations; a text that mentions such a variable is always refused, whatever
  fallback it gives; and when no declaration refers to itself every placeholder stands for the
  expansion of its declared value, or the environment's value taken literally, in any order of
  the declarations, and no cycle is reported.
\<close>

theorem cyclic_references_refused:
  "(substitute_vars env raw d = Inl (Configuration (cyclic_message x)) \<longrightarrow> (x, x) \<in> (refers d)\<^sup>+) \<and>
   (y \<in> hole_names raw \<and> (y, y) \<in> (refers d)\<^sup>+ \<longrightarrow> (\<exists>e. substitute_vars env raw d = Inl e)) \<and>
   (acyclic (refers d) \<longrightarrow> substitute_vars env raw d = render (\<lambda>name. case map_of d name of
        Some v \<Rightarrow> res_bind (substitute_vars env v d) (\<lambda>s. Inr (Some s)) | None \<Rightarrow> Inr (env name))
      (fst (pieces raw)) (snd (pieces raw)))"
proof (intro conjI impI)
  assume "substitute_vars env raw d = Inl (Configuration (cyclic_message x))"
  from render_error [OF this [unfolded substitute_vars_def substitute_with_render]]
  obtain n where "resolve_declared_or_env env d [] n = Inl (Configuration (cyclic_message x))" by auto
  then show "(x, x) \<in> (refers d)\<^sup>+" by (rule cycle_found) simp
next
  assume y: "y \<in> hole_names raw \<and> (y, y) \<in> (refers d)\<^sup>+"
  show "\<exists>e. substitute_vars env raw d = Inl e"
  proof (rule ccontr)
    assume "\<not> ?thesis"
    then obtain s where "substitute_vars env raw d = Inr s" by (cases "substitute_vars env raw d") auto
    then obtain r where r: "resolve_declared_or_env env d [] y = Inr r"
      using y render_holes by (fastforce simp: substitute_vars_def hole_names_def)
    from y obtain n where n: "(y, n) \<in> refers d" "(n, y) \<in> (refers d)\<^sup>*" by (meson tranclD)
    then obtain v fb where v: "map_of d y = Some v" "Hole n fb \<in> set (fst (pieces v))"
      by (auto simp: refers_def hole_names_def)
    from r v have "\<exists>s. render (resolve_declared_or_env env d ([] @ [y])) (fst (pieces v)) (snd (pieces v)) = Inr s"
      by (subst (asm) resolve_render) (auto simp: res_bind_eq_Inr)
    then obtain r' where "resolve_declared_or_env env d ([] @ [y]) n = Inr r'" using v(2) render_holes by blast
    then show False using resolved_reaches_no_stack [OF _ n(2)] v(1) by force
  qed
next
  assume "acyclic (refers d)"
  then show "substitute_vars env raw d = render (\<lambda>name. case map_of d name of
        Some v \<Rightarrow> res_bind (substitute_vars env v d) (\<lambda>s. Inr (Some s)) | None \<Rightarrow> Inr (env name))
      (fst (pieces raw)) (snd (pieces raw))"
    using resolve_unstacked by (auto simp: substitute_vars_def intro!: render_cong)
qed

theorem cyclic_references_refused_witness:
  "(\<exists>e. substitute_vars (\<lambda>_. None) ''${a:-x}'' [(''a'', ''${b}''), (''b'', ''${a}'')] = Inl e) \<and>
   substitute_vars (\<lambda>_. None) ''v=${a}'' [(''b'', ''1''), (''a'', ''<${b}>'')] = Inr ''v=<1>''"
proof
  have "(''a'', ''b'') \<in> refers [(''a'', ''${b}''), (''b'', ''${a}'')]" "(''b'', ''a'') \<in> refers [(''a'', ''${b}''), (''b'', ''${a}'')]"
    by (simp_all add: refers_def hole_names_def)
  then have "(''a'', ''a'') \<in> (refers [(''a'', ''${b}''), (''b'', ''${a}'')])\<^sup>+" by (meson r_into_trancl trancl_trans)
  then show "\<exists>e. substitute_vars (\<lambda>_. None) ''${a:-x}'' [(''a'', ''${b}''), (''b'', ''${a}'')] = Inl e"
    using cyclic_references_refused [of "\<lambda>_. None" "''${a:-x}''" "[(''a'', ''${b}''), (''b'', ''${a}'')]" "''a''" "''a''"]
    by (simp add: hole_names_def)
next
  let ?d = "[(''b'', ''1''), (''a'', ''<${b}>'')]"
  have "refers ?d \<subseteq> {(''a'', ''b'')}" by (auto simp: refers_def hole_names_def split: if_splits)
  then have "acyclic (refers ?d)" by (intro acyclicI_order [of _ "\<lambda>s. if s = ''a'' then 1 else 0 :: nat"]) auto
  then have expand: "substitute_vars (\<lambda>_. None) raw ?d = render (\<lambda>name. case map_of ?d name of
        Some v \<Rightarrow> res_bind (substitute_vars (\<lambda>_. None) v ?d) (\<lambda>s. Inr (Some s)) | None \<Rightarrow> Inr None)
      (fst (pieces raw)) (snd (pieces raw))" for raw
    using cyclic_references_refused [of "\<lambda>_. None" raw ?d] by blast
  have "substitute_vars (\<lambda>_. None) ''1'' ?d = Inr ''1''" by (subst expand) simp
  then have "substitute_vars (\<lambda>_. None) ''<${b}>'' ?d = Inr ''<1>''" by (subst expand) simp
  then show "substitute_vars (\<lambda>_. None) ''v=${a}'' ?d = Inr ''v=<1>''" by (subst expand) simp
qed

end
