(* ===== verification/Kdl_Mapping.thy ===== *)
theory Kdl_Mapping
  imports Config_Text Windows
begin

text \<open>
  The mapping of a KDL document to a configuration value, \<^verbatim>\<open>saci-config/src/lib.rs\<close>. The parser is
  the crate \<^verbatim>\<open>kdl\<close>: a document is the list of nodes it returns, with the offsets of the spans, and the
  parser an argument. A float is a value \<open>'f\<close>; which are finite and how they print are arguments. A
  table is an association list with one entry per key.
\<close>

section \<open>Documents and values\<close>

datatype 'f kdl_value = Kdl_String string | Kdl_Bool bool | Kdl_Integer int | Kdl_Float 'f | Kdl_Null

record 'f kdl_entry =
  ke_name :: "string option"
  ke_type :: "string option"
  ke_value :: "'f kdl_value"
  ke_offset :: nat

datatype 'f kdl_node =
  Kdl_Node (kn_name: string) (kn_type: "string option") (kn_offset: nat) (kn_entries: "'f kdl_entry list")
    (kn_children: "'f kdl_node list option")

datatype 'f config_value =
    Cv_Null | Cv_Bool bool | Cv_Integer int | Cv_Float 'f | Cv_String string
  | Cv_Array "'f config_value list" | Cv_Object "(string \<times> 'f config_value) list"

type_synonym 'f config_map = "(string \<times> 'f config_value) list"

text \<open>\<^verbatim>\<open>Value::get\<close>, \<^verbatim>\<open>as_str\<close>, \<^verbatim>\<open>as_bool\<close>.\<close>

fun cv_get :: "'f config_value \<Rightarrow> string \<Rightarrow> 'f config_value option" where
  "cv_get (Cv_Object m) key = map_of m key"
| "cv_get v key = None"

fun cv_str :: "'f config_value \<Rightarrow> string option" where
  "cv_str (Cv_String s) = Some s"
| "cv_str v = None"

fun cv_bool :: "'f config_value \<Rightarrow> bool option" where
  "cv_bool (Cv_Bool b) = Some b"
| "cv_bool v = None"

definition default_config_value :: "'f config_value" where "default_config_value = Cv_Object []"

section \<open>Scalars\<close>

text \<open>The floats, and the text of the document the positions refer to.\<close>

record 'f kdl_env =
  kd_input :: string
  kd_finite :: "'f \<Rightarrow> bool"
  kd_display :: "'f \<Rightarrow> string"

definition double_quoted :: "string \<Rightarrow> string" where "double_quoted s = [CHR 0x22] @ s @ [CHR 0x22]"

definition config_error :: "'f kdl_env \<Rightarrow> nat \<Rightarrow> string \<Rightarrow> saci_error" where
  "config_error K offset message =
     (case line_column (kd_input K) offset of (line, column) \<Rightarrow>
        Configuration (''parsing KDL: '' @ dec_string line @ '':'' @ dec_string column @ '': '' @ message))"

definition duplicate_key :: "'f kdl_env \<Rightarrow> string \<Rightarrow> string \<Rightarrow> nat \<Rightarrow> saci_error" where
  "duplicate_key K owner key offset = config_error K offset (owner @ '': duplicate key '' @ double_quoted key)"

text \<open>The number is an \<^verbatim>\<open>i128\<close>; what fits \<^verbatim>\<open>i64\<close> or \<^verbatim>\<open>u64\<close> is kept.\<close>

definition integer_to_value :: "'f kdl_env \<Rightarrow> int \<Rightarrow> string \<Rightarrow> nat \<Rightarrow> 'f config_value saci_result" where
  "integer_to_value K number owner offset =
     (if in_i64 number then Inr (Cv_Integer number)
      else if 0 \<le> number \<and> number < 2 ^ 64 then Inr (Cv_Integer number)
      else Inl (config_error K offset (owner @ '': integer '' @ quoted (i64_string number) @ '' does not fit in 64 bits'')))"

definition scalar_to_value :: "'f kdl_env \<Rightarrow> 'f kdl_entry \<Rightarrow> string \<Rightarrow> 'f config_value saci_result" where
  "scalar_to_value K entry owner =
     (case ke_value entry of
        Kdl_String text \<Rightarrow> Inr (Cv_String text)
      | Kdl_Bool flag \<Rightarrow> Inr (Cv_Bool flag)
      | Kdl_Integer number \<Rightarrow> integer_to_value K number owner (ke_offset entry)
      | Kdl_Float number \<Rightarrow>
          if kd_finite K number then Inr (Cv_Float number)
          else Inl (config_error K (ke_offset entry)
            (owner @ '': float '' @ quoted (kd_display K number) @ '' is not representable in configuration''))
      | Kdl_Null \<Rightarrow> Inl (config_error K (ke_offset entry)
            (owner @ '': #null is not a configuration value; omit the key instead'')))"

fun scalars_to_values :: "'f kdl_env \<Rightarrow> 'f kdl_entry list \<Rightarrow> string \<Rightarrow> 'f config_value list saci_result" where
  "scalars_to_values K [] owner = Inr []"
| "scalars_to_values K (e # es) owner =
     res_bind (scalar_to_value K e owner) (\<lambda>v. res_bind (scalars_to_values K es owner) (\<lambda>vs. Inr (v # vs)))"

section \<open>Nodes\<close>

definition annotation_error :: "'f kdl_env \<Rightarrow> nat \<Rightarrow> string \<Rightarrow> string \<Rightarrow> saci_error" where
  "annotation_error K offset owner ty =
     config_error K offset (owner @ '': type annotation '' @ quoted (''('' @ ty @ '')'') @ '' is not a configuration value'')"

text \<open>The entries of a node: its arguments and its properties, in order.\<close>

fun split_entries ::
  "'f kdl_env \<Rightarrow> string \<Rightarrow> 'f kdl_entry list \<Rightarrow> ('f kdl_entry list \<times> (string \<times> 'f kdl_entry) list) saci_result" where
  "split_entries K owner [] = Inr ([], [])"
| "split_entries K owner (e # es) =
     (case ke_type e of
        Some ty \<Rightarrow> Inl (annotation_error K (ke_offset e) owner ty)
      | None \<Rightarrow>
          res_bind (split_entries K owner es) (\<lambda>(arguments, properties).
            case ke_name e of
              None \<Rightarrow> Inr (e # arguments, properties)
            | Some key \<Rightarrow> Inr (arguments, (key, e) # properties)))"

fun add_properties ::
  "'f kdl_env \<Rightarrow> string \<Rightarrow> (string \<times> 'f kdl_entry) list \<Rightarrow> 'f config_map \<Rightarrow> 'f config_map saci_result" where
  "add_properties K owner [] table = Inr table"
| "add_properties K owner ((key, entry) # properties) table =
     (if map_of table key \<noteq> None then Inl (duplicate_key K owner key (ke_offset entry))
      else res_bind (scalar_to_value K entry owner) (\<lambda>v. add_properties K owner properties (table @ [(key, v)])))"

text \<open>The values of the nodes of one name, in document order, with the offset of the first.\<close>

type_synonym 'f groups = "(string \<times> 'f config_value list \<times> nat) list"

definition add_group :: "string \<Rightarrow> 'f config_value \<Rightarrow> nat \<Rightarrow> 'f groups \<Rightarrow> 'f groups" where
  "add_group name v offset groups =
     (if name \<in> fst ` set groups
      then map (\<lambda>(key, vs, at). if key = name then (key, vs @ [v], at) else (key, vs, at)) groups
      else groups @ [(name, [v], offset)])"

definition group_value :: "'f config_value list \<Rightarrow> 'f config_value" where
  "group_value vs = (case vs of [single] \<Rightarrow> single | _ \<Rightarrow> Cv_Array vs)"

fun insert_groups :: "'f kdl_env \<Rightarrow> string \<Rightarrow> 'f groups \<Rightarrow> 'f config_map \<Rightarrow> 'f config_map saci_result" where
  "insert_groups K owner [] table = Inr table"
| "insert_groups K owner ((name, vs, offset) # groups) table =
     (if map_of table name \<noteq> None then Inl (duplicate_key K owner name offset)
      else insert_groups K owner groups (table @ [(name, group_value vs)]))"

definition leading_id :: "'f kdl_env \<Rightarrow> string \<Rightarrow> 'f kdl_entry list \<Rightarrow> 'f config_map saci_result" where
  "leading_id K owner arguments =
     (case arguments of
        [] \<Rightarrow> Inr []
      | argument # _ \<Rightarrow> res_bind (scalar_to_value K argument owner) (\<lambda>v. Inr [(''id'', v)]))"

text \<open>\<^verbatim>\<open>node_to_value\<close>, and the first loop of \<^verbatim>\<open>extend_with_document\<close>.\<close>

fun node_to_value :: "'f kdl_env \<Rightarrow> 'f kdl_node \<Rightarrow> 'f config_value saci_result"
  and group_nodes :: "'f kdl_env \<Rightarrow> 'f kdl_node list \<Rightarrow> 'f groups \<Rightarrow> 'f groups saci_result" where
  "node_to_value K (Kdl_Node name ty offset entries children) =
     (let owner = ''node '' @ double_quoted name
      in case ty of
           Some t \<Rightarrow> Inl (annotation_error K offset owner t)
         | None \<Rightarrow>
             res_bind (split_entries K owner entries) (\<lambda>(arguments, properties).
               if properties = [] \<and> children = None then
                 (case arguments of
                    [] \<Rightarrow> Inr (Cv_Object [])
                  | [argument] \<Rightarrow> scalar_to_value K argument owner
                  | _ \<Rightarrow> res_bind (scalars_to_values K arguments owner) (\<lambda>vs. Inr (Cv_Array vs)))
               else if length arguments > 1 then
                 Inl (config_error K offset (owner @
                   '': a node with properties or children takes at most one leading argument, found '' @
                   dec_string (length arguments)))
               else
                 res_bind (leading_id K owner arguments) (\<lambda>t1.
                 res_bind (add_properties K owner properties t1) (\<lambda>t2.
                   case children of
                     None \<Rightarrow> Inr (Cv_Object t2)
                   | Some document \<Rightarrow>
                       res_bind (group_nodes K document []) (\<lambda>groups.
                       res_bind (insert_groups K owner groups t2) (\<lambda>t3. Inr (Cv_Object t3)))))))"
| "group_nodes K [] groups = Inr groups"
| "group_nodes K (n # ns) groups =
     res_bind (node_to_value K n) (\<lambda>v. group_nodes K ns (add_group (kn_name n) v (kn_offset n) groups))"

definition extend_with_document ::
  "'f kdl_env \<Rightarrow> 'f config_map \<Rightarrow> 'f kdl_node list \<Rightarrow> string \<Rightarrow> 'f config_map saci_result" where
  "extend_with_document K table document owner =
     res_bind (group_nodes K document []) (\<lambda>groups. insert_groups K owner groups table)"

section \<open>Entry points\<close>

text \<open>A diagnostic of the parser: an offset, a message and a help text.\<close>

record diagnostic =
  di_offset :: nat
  di_message :: "string option"
  di_help :: "string option"

definition render_parse_error :: "string \<Rightarrow> diagnostic list \<Rightarrow> string" where
  "render_parse_error input diagnostics =
     (if diagnostics = [] then ''invalid KDL document''
      else join_with ''; '' (map (\<lambda>d.
        (case line_column input (di_offset d) of (line, column) \<Rightarrow>
          dec_string line @ '':'' @ dec_string column @ '': '' @
          (case di_message d of Some msg \<Rightarrow> msg | None \<Rightarrow> ''invalid syntax'') @
          (case di_help d of Some help \<Rightarrow> '' ('' @ help @ '')'' | None \<Rightarrow> []))) diagnostics))"

text \<open>The parser returns the nodes, or the text and the diagnostics of its error.\<close>

definition from_kdl_str ::
  "(string \<Rightarrow> (string \<times> diagnostic list) + 'f kdl_node list) \<Rightarrow> ('f \<Rightarrow> bool) \<Rightarrow> ('f \<Rightarrow> string) \<Rightarrow> string \<Rightarrow>
     'f config_value saci_result" where
  "from_kdl_str parse finite_float display text =
     (case parse text of
        Inl (input, diagnostics) \<Rightarrow> Inl (Configuration (''parsing KDL: '' @ render_parse_error input diagnostics))
      | Inr document \<Rightarrow>
          res_bind (extend_with_document \<lparr>kd_input = text, kd_finite = finite_float, kd_display = display\<rparr> [] document ''document'')
            (\<lambda>table. Inr (Cv_Object table)))"

definition from_kdl_str_with_vars ::
  "(string \<Rightarrow> (string \<times> diagnostic list) + 'f kdl_node list) \<Rightarrow> ('f \<Rightarrow> bool) \<Rightarrow> ('f \<Rightarrow> string) \<Rightarrow> (string \<Rightarrow> string option) \<Rightarrow>
     string \<Rightarrow> variables \<Rightarrow> 'f config_value saci_result" where
  "from_kdl_str_with_vars parse finite_float display env raw declared =
     (case substitute_vars env raw declared of
        Inl e \<Rightarrow> Inl e
      | Inr substituted \<Rightarrow>
          (case from_kdl_str parse finite_float display substituted of
             Inl e \<Rightarrow> Inl (with_substitution_context env e raw declared)
           | Inr v \<Rightarrow> Inr v))"

text \<open>The list behind a field that may be written once or several times.\<close>

fun one_or_many :: "'f config_value \<Rightarrow> 'f config_value list" where
  "one_or_many (Cv_Array items) = items"
| "one_or_many single = [single]"

end
