(* ===== verification/Kdl_Properties.thy ===== *)
theory Kdl_Properties
  imports Kdl_Mapping Config_Text_Properties
begin

text \<open>
  What a document maps to: the rules 1, 2, 4 and 5 of \<^verbatim>\<open>saci-config/src/lib.rs\<close> as one equation, for
  whole documents and for the children of a node.
\<close>

section \<open>Groups\<close>

text \<open>The nodes of one name, and their values.\<close>

definition named_nodes :: "string \<Rightarrow> 'f kdl_node list \<Rightarrow> 'f kdl_node list" where
  "named_nodes name nodes = filter (\<lambda>n. kn_name n = name) nodes"

lemma append_to_group:
  "map_of (map (\<lambda>(key, vs, at). if key = name then (key, vs @ [v], at) else (key, vs, at)) groups) key =
     map_option (\<lambda>(vs, at). if key = name then (vs @ [v], at) else (vs, at)) (map_of groups key)"
proof (induction groups)
  case (Cons g groups)
  obtain k vs at where "g = (k, vs, at)" by (cases g)
  then show ?case using Cons by auto
qed simp

lemma add_group_lookup:
  "map_of (add_group name v offset groups) key =
     (if key = name then Some (case map_of groups name of Some (vs, at) \<Rightarrow> (vs @ [v], at) | None \<Rightarrow> ([v], offset))
      else map_of groups key)"
proof (cases "name \<in> fst ` set groups")
  case True
  then obtain vs at where "map_of groups name = Some (vs, at)"
    by (metis domD dom_map_of_conv_image_fst prod.collapse)
  then show ?thesis using True unfolding add_group_def by (simp add: append_to_group case_prod_beta option.map_id)
next
  case False
  then have "map_of groups name = None" by (simp add: map_of_eq_None_iff)
  then show ?thesis using False by (auto simp: add_group_def map_add_def split: option.splits)
qed

lemma add_group_names:
  "map fst (add_group name v offset groups) =
     (if name \<in> fst ` set groups then map fst groups else map fst groups @ [name])"
  by (auto simp: add_group_def case_prod_beta intro: map_cong)

definition values_of :: "'f kdl_env \<Rightarrow> 'f kdl_node list \<Rightarrow> 'f config_value list" where
  "values_of K nodes = map (\<lambda>n. case node_to_value K n of Inr v \<Rightarrow> v | Inl _ \<Rightarrow> Cv_Null) nodes"

lemma group_nodes_spec:
  "group_nodes K nodes groups = Inr groups' \<Longrightarrow> distinct (map fst groups) \<Longrightarrow>
     (\<forall>n \<in> set nodes. \<exists>v. node_to_value K n = Inr v) \<and> distinct (map fst groups') \<and>
     (\<forall>key. map_option fst (map_of groups' key) =
        (case map_of groups key of
           Some (vs, _) \<Rightarrow> Some (vs @ values_of K (named_nodes key nodes))
         | None \<Rightarrow> if named_nodes key nodes = [] then None else Some (values_of K (named_nodes key nodes))))"
proof (induction nodes arbitrary: groups)
  case Nil
  then show ?case by (auto simp: named_nodes_def values_of_def split: option.splits)
next
  case (Cons n ns)
  obtain v where v: "node_to_value K n = Inr v"
    and rest: "group_nodes K ns (add_group (kn_name n) v (kn_offset n) groups) = Inr groups'"
    using Cons.prems(1) by (auto simp: res_bind_eq_Inr)
  have "distinct (map fst (add_group (kn_name n) v (kn_offset n) groups))"
    using Cons.prems(2) by (auto simp: add_group_names)
  note IH = Cons.IH [OF rest this]
  have "values_of K (named_nodes key (n # ns)) =
      (if key = kn_name n then [v] else []) @ values_of K (named_nodes key ns)" for key
    using v by (auto simp: values_of_def named_nodes_def)
  moreover have "named_nodes key (n # ns) = [] \<longleftrightarrow> key \<noteq> kn_name n \<and> named_nodes key ns = []" for key
    by (auto simp: named_nodes_def)
  ultimately show ?case using IH v
    by (auto simp: add_group_lookup split: option.splits if_splits)
qed

lemma group_nodes_total:
  "(\<forall>n \<in> set nodes. \<exists>v. node_to_value K n = Inr v) \<Longrightarrow> \<exists>groups'. group_nodes K nodes groups = Inr groups'"
  by (induction nodes arbitrary: groups) auto

lemma insert_groups_spec:
  "distinct (map fst groups) \<Longrightarrow>
     insert_groups K owner groups table = Inr table' \<longleftrightarrow>
       (\<forall>name \<in> fst ` set groups. map_of table name = None) \<and>
       table' = table @ map (\<lambda>(name, vs, at). (name, group_value vs)) groups"
proof (induction groups arbitrary: table)
  case (Cons g groups)
  obtain name vs at where g: "g = (name, vs, at)" by (cases g)
  show ?case
  proof (cases "map_of table name")
    case None
    have "map_of (table @ [(name, group_value vs)]) key = None \<longleftrightarrow> key \<noteq> name \<and> map_of table key = None" for key
      by (auto simp: map_add_def split: option.splits)
    then show ?thesis using Cons.IH [of "table @ [(name, group_value vs)]"] Cons.prems None g by auto
  qed (use g in auto)
qed auto

section \<open>Documents\<close>

text \<open>
  C25. A document maps exactly when each of its nodes does, and then its table has the old entries and,
  for every name a node has, one entry: the value of the node when it is the only one of that name,
  the array of the values in document order otherwise. A name the table already has is refused.
\<close>

theorem document_maps_exactly:
  "((\<exists>table'. extend_with_document K table document owner = Inr table') \<longleftrightarrow>
      (\<forall>n \<in> set document. (\<exists>v. node_to_value K n = Inr v) \<and> map_of table (kn_name n) = None)) \<and>
   (extend_with_document K table document owner = Inr table' \<longrightarrow>
      map_of table' key = (if named_nodes key document = [] then map_of table key
        else Some (group_value (values_of K (named_nodes key document)))))"
proof (cases "\<forall>n \<in> set document. \<exists>v. node_to_value K n = Inr v")
  case True
  then obtain groups where g: "group_nodes K document [] = Inr groups" using group_nodes_total by blast
  from group_nodes_spec [OF g] have d: "distinct (map fst groups)"
    and look: "\<And>key. map_option fst (map_of groups key) =
      (if named_nodes key document = [] then None else Some (values_of K (named_nodes key document)))" by auto
  have names: "key \<in> fst ` set groups \<longleftrightarrow> (\<exists>n \<in> set document. kn_name n = key)" for key
  proof -
    have "map_of groups key = None \<longleftrightarrow> named_nodes key document = []" using look [of key] by (auto split: if_splits)
    then show ?thesis by (auto simp: map_of_eq_None_iff named_nodes_def filter_empty_conv)
  qed
  have ext: "extend_with_document K table document owner = Inr t \<longleftrightarrow>
      (\<forall>n \<in> set document. map_of table (kn_name n) = None) \<and>
      t = table @ map (\<lambda>(name, vs, at). (name, group_value vs)) groups" for t
  proof -
    have "(\<forall>name \<in> fst ` set groups. map_of table name = None) \<longleftrightarrow> (\<forall>n \<in> set document. map_of table (kn_name n) = None)"
      using names by metis
    then show ?thesis unfolding extend_with_document_def g res_bind_Inr insert_groups_spec [OF d] by simp
  qed
  have lookup: "map_of (map (\<lambda>(name, vs, at). (name, group_value vs)) groups) key =
      map_option group_value (map_option fst (map_of groups key))"
    by (induction groups) auto
  have "map_of table' key = (if named_nodes key document = [] then map_of table key
        else Some (group_value (values_of K (named_nodes key document))))"
    if "extend_with_document K table document owner = Inr table'"
  proof -
    have clash: "named_nodes key document \<noteq> [] \<Longrightarrow> map_of table key = None"
      using that ext by (force simp: named_nodes_def filter_empty_conv)
    show ?thesis using that clash unfolding ext
      by (simp add: map_add_def lookup look split: option.splits)
  qed
  then show ?thesis using True ext by blast
next
  case False
  then have "extend_with_document K table document owner \<noteq> Inr t" for t
    using group_nodes_spec [of K document "[]"] by (auto simp: extend_with_document_def res_bind_eq_Inr)
  then show ?thesis using False by auto
qed


text \<open>\<^verbatim>\<open>a 1\<close>, \<^verbatim>\<open>b x="y"\<close> and \<^verbatim>\<open>a 2\<close>.\<close>

definition plain_entry :: "string option \<Rightarrow> unit kdl_value \<Rightarrow> unit kdl_entry" where
  "plain_entry name v = \<lparr>ke_name = name, ke_type = None, ke_value = v, ke_offset = 0\<rparr>"

definition sample_document :: "unit kdl_node list" where
  "sample_document = [Kdl_Node ''a'' None 0 [plain_entry None (Kdl_Integer 1)] None,
     Kdl_Node ''b'' None 4 [plain_entry (Some ''x'') (Kdl_String ''y'')] None,
     Kdl_Node ''a'' None 12 [plain_entry None (Kdl_Integer 2)] None]"

definition sample_kdl_env :: "unit kdl_env" where
  "sample_kdl_env = \<lparr>kd_input = [], kd_finite = (\<lambda>_. True), kd_display = (\<lambda>_. [])\<rparr>"

theorem document_maps_exactly_witness:
  "\<exists>t. extend_with_document sample_kdl_env [] sample_document ''document'' = Inr t \<and>
     map_of t ''a'' = Some (Cv_Array [Cv_Integer 1, Cv_Integer 2]) \<and>
     map_of t ''b'' = Some (Cv_Object [(''x'', Cv_String ''y'')])"
proof -
  have "\<forall>n \<in> set sample_document. \<exists>v. node_to_value sample_kdl_env n = Inr v"
    by (simp add: sample_document_def plain_entry_def sample_kdl_env_def scalar_to_value_def integer_to_value_def
        in_i64_def i64_min_def i64_max_def leading_id_def)
  then obtain t where t: "extend_with_document sample_kdl_env [] sample_document ''document'' = Inr t"
    using document_maps_exactly [of sample_kdl_env "[]" sample_document "''document''" "[]" "[]", THEN conjunct1] by auto
  have "map_of t key = (if named_nodes key sample_document = [] then None
      else Some (group_value (values_of sample_kdl_env (named_nodes key sample_document))))" for key
    using document_maps_exactly [of sample_kdl_env "[]" sample_document "''document''" t key] t by simp
  from this [of "''a''"] this [of "''b''"] t show ?thesis
    by (simp add: sample_document_def plain_entry_def sample_kdl_env_def scalar_to_value_def integer_to_value_def
        in_i64_def i64_min_def i64_max_def leading_id_def named_nodes_def values_of_def group_value_def)
qed

end
