(* ===== verification/Service_Config.thy ===== *)
theory Service_Config
  imports Kdl_Mapping Retry Healing Flow Scheduler
begin

text \<open>
  The service configuration and its load-time rules, \<^verbatim>\<open>saci-service/src/service/config.rs\<close>: the
  declared nodes and links of a workflow, their topological order, the rules of a workflow in the
  order the code tests them, and the rules across workflows. A float is a rational, its text an
  argument; \<^verbatim>\<open>SocketAddr::from_str\<close> and the iteration order of the channel map are arguments too.
\<close>

section \<open>Specifications\<close>

record window_config =
  wn_spec :: window_spec
  wn_time_field :: string
  wn_key_fields :: "string list"
  wn_lateness :: int

record retry_config =
  rc_max_attempts :: nat
  rc_base_delay_ms :: nat
  rc_multiplier :: rat
  rc_max_delay_ms :: nat
  rc_jitter :: rat

record transformer_spec =
  ts_id :: string
  ts_name :: "string option"
  ts_format :: string
  ts_options :: "rat config_value"

record source_spec =
  so_id :: string
  so_name :: "string option"
  so_type :: string
  so_transformer :: "string option"
  so_component :: string
  so_retry :: retry_config
  so_heal :: "heal_config option"
  so_flow :: "flow_config option"
  so_config :: "rat config_value"

record sink_spec =
  si_id :: string
  si_name :: "string option"
  si_type :: string
  si_transformer :: "string option"
  si_component :: string
  si_retry :: retry_config
  si_heal :: "heal_config option"
  si_config :: "rat config_value"

text \<open>\<^verbatim>\<open>WasmSpec\<close> and \<^verbatim>\<open>PluginSpec\<close>, which differ in the name of the artifact key.\<close>

record processor_spec =
  ps_id :: string
  ps_name :: "string option"
  ps_artifact :: "string option"
  ps_sha3_256 :: "string option"
  ps_config :: "(string \<times> string) list"
  ps_window :: "window_config option"

record link_spec =
  ln_from :: string
  ln_to :: string
  ln_branch :: "string option"

datatype node_kind = Source_Node | Processor_Node | Sink_Node

datatype replay_point = Before_Sources | After_Sources

record dlq_block =
  dq_store :: string
  dq_replay :: replay_point
  dq_source :: "rat config_value"
  dq_sink :: "rat config_value"
  dq_config :: "rat config_map"

record workflow_spec =
  wf_id :: string
  wf_name :: "string option"
  wf_transformers :: "transformer_spec list"
  wf_sources :: "source_spec list"
  wf_wasm :: "processor_spec list"
  wf_plugin :: "processor_spec list"
  wf_sinks :: "sink_spec list"
  wf_links :: "link_spec list"
  wf_dlq :: "dlq_block option"

datatype run_mode = Continuous | One_Shot | Interval nat | Stream

record cluster_config =
  cl_peers :: "(nat \<times> string) list"
  cl_bootstrap :: bool
  cl_lease_ttl_ms :: nat
  cl_election_timeout_ms :: nat
  cl_heartbeat_interval_ms :: nat
  cl_snapshot_log_interval :: nat

datatype service_mode = Standalone run_mode | Cluster cluster_config

record http_config =
  ht_bind :: string
  ht_disabled :: bool
  ht_control :: bool

text \<open>The ratios of \<^verbatim>\<open>ObservabilityConfig\<close>; its other keys are not validated.\<close>

record observability_config =
  ob_sample_ratio :: rat
  ob_error_sample_ratio :: rat

text \<open>\<open>sv_store\<close> is the path and the flag of \<^verbatim>\<open>StoreConfig::Redb\<close>.\<close>

record service_config =
  sv_node_id :: nat
  sv_data_dir :: string
  sv_mode :: service_mode
  sv_store :: "(string \<times> bool) option"
  sv_workflows :: "workflow_spec list"
  sv_http :: http_config
  sv_observability :: observability_config
  sv_flow_control :: flow_config
  sv_heal :: heal_config
  sv_variables :: variables

definition default_retry :: retry_config where
  "default_retry = \<lparr>rc_max_attempts = 4, rc_base_delay_ms = 100, rc_multiplier = 2, rc_max_delay_ms = 30000, rc_jitter = 1 / 10\<rparr>"

definition default_dlq :: dlq_block where
  "default_dlq = \<lparr>dq_store = ''redb'', dq_replay = Before_Sources, dq_source = default_config_value,
     dq_sink = default_config_value, dq_config = []\<rparr>"

definition no_heal_block :: heal_config where
  "no_heal_block = \<lparr>hc_enabled = None, hc_after_failures = None, hc_base_delay_ms = None, hc_multiplier = None,
     hc_max_delay_ms = None, hc_jitter = None, hc_max_attempts = None\<rparr>"

section \<open>Checks\<close>

definition reject_if :: "bool \<Rightarrow> string \<Rightarrow> unit saci_result" where
  "reject_if b msg = (if b then Inl (Configuration msg) else Inr ())"

definition and_then :: "unit saci_result \<Rightarrow> unit saci_result \<Rightarrow> unit saci_result" where
  "and_then r s = (case r of Inl e \<Rightarrow> Inl e | Inr _ \<Rightarrow> s)"

text \<open>A loop whose body may return an error, and a sequence of checks.\<close>

fun check_each :: "('a \<Rightarrow> unit saci_result) \<Rightarrow> 'a list \<Rightarrow> unit saci_result" where
  "check_each f [] = Inr ()"
| "check_each f (x # xs) = and_then (f x) (check_each f xs)"

definition in_order :: "unit saci_result list \<Rightarrow> unit saci_result" where
  "in_order rs = check_each id rs"

text \<open>A loop that inserts into a set and rejects what is in it.\<close>

fun check_distinct :: "('a \<Rightarrow> 'k) \<Rightarrow> ('a \<Rightarrow> string) \<Rightarrow> 'k set \<Rightarrow> 'a list \<Rightarrow> unit saci_result" where
  "check_distinct key msg seen [] = Inr ()"
| "check_distinct key msg seen (x # xs) =
     (if key x \<in> seen then Inl (Configuration (msg x)) else check_distinct key msg (insert (key x) seen) xs)"

section \<open>Blocks\<close>

definition validate_retry :: "(rat \<Rightarrow> string) \<Rightarrow> retry_config \<Rightarrow> string \<Rightarrow> unit saci_result" where
  "validate_retry shown r what = in_order
     [reject_if (rc_max_attempts r < 1) (what @ '': retry.max_attempts must be at least 1''),
      reject_if (rc_multiplier r < 1) (what @ '': retry.multiplier must be at least 1.0, got '' @ shown (rc_multiplier r)),
      reject_if (\<not> (0 \<le> rc_jitter r \<and> rc_jitter r \<le> 1))
        (what @ '': retry.jitter must be within 0.0..=1.0, got '' @ shown (rc_jitter r))]"

definition to_system_config :: "retry_config \<Rightarrow> rat system_config" where
  "to_system_config r =
     (if rc_max_attempts r = 1 then minimal
      else \<lparr>retry_mode = ExponentialBackoff (of_nat (rc_max_attempts r - 1)) (from_millis (rc_base_delay_ms r))
        (rc_multiplier r) (from_millis (rc_max_delay_ms r)) (rc_jitter r)\<rparr>)"

definition validate_window :: "window_config \<Rightarrow> string + unit" where
  "validate_window w =
     (case Windows.validate (wn_spec w) of
        Inl e \<Rightarrow> Inl e
      | Inr _ \<Rightarrow>
          if wn_time_field w = [] then Inl ''window time_field must not be empty''
          else if wn_lateness w < 0
          then Inl (''window allowed_lateness_ms must be >= 0, got '' @ i64_string (wn_lateness w))
          else Inr ())"

definition validate_window_block :: "string \<Rightarrow> string \<Rightarrow> processor_spec \<Rightarrow> unit saci_result" where
  "validate_window_block workflow_id kind p =
     (case ps_window p of
        None \<Rightarrow> Inr ()
      | Some w \<Rightarrow>
          (case validate_window w of
             Inl msg \<Rightarrow> Inl (Configuration (''workflow '' @ quoted workflow_id @ '': '' @ kind @ '' node '' @
               quoted (ps_id p) @ '' window is invalid: '' @ msg))
           | Inr _ \<Rightarrow> Inr ()))"

text \<open>The keys injected into a windowed processor's configuration.\<close>

definition config_pairs :: "window_config \<Rightarrow> (string \<times> string) list" where
  "config_pairs w =
     (let (kind, sz, slide, offset, gap) = (case wn_spec w of
            Tumbling sz offset \<Rightarrow> (''tumbling'', Some sz, None, Some offset, None)
          | Sliding sz slide offset \<Rightarrow> (''sliding'', Some sz, Some slide, Some offset, None)
          | Session gap \<Rightarrow> (''session'', None, None, None, Some gap));
          pair = (\<lambda>key v. case v of Some n \<Rightarrow> [(key, i64_string n)] | None \<Rightarrow> [])
      in [(''window.kind'', kind)] @ pair ''window.size_ms'' sz @ pair ''window.slide_ms'' slide @
         pair ''window.offset_ms'' offset @ pair ''window.gap_ms'' gap @
         [(''window.time_field'', wn_time_field w), (''window.key_fields'', join_with '','' (wn_key_fields w)),
          (''window.allowed_lateness_ms'', i64_string (wn_lateness w))])"

definition validate_observability :: "observability_config \<Rightarrow> unit saci_result" where
  "validate_observability ob =
     check_each (\<lambda>(key, val). reject_if (\<not> (0 \<le> val \<and> val \<le> 1))
         (''observability.'' @ key @ '' must be between 0.0 and 1.0''))
       [(''sample_ratio'', ob_sample_ratio ob), (''error_sample_ratio'', ob_error_sample_ratio ob)]"

section \<open>Nodes and links\<close>

definition is_alphanumeric :: "char \<Rightarrow> bool" where
  "is_alphanumeric c \<longleftrightarrow> (let n = of_char c :: nat in
     48 \<le> n \<and> n \<le> 57 \<or> 65 \<le> n \<and> n \<le> 90 \<or> 97 \<le> n \<and> n \<le> 122)"

definition is_valid_id :: "string \<Rightarrow> bool" where
  "is_valid_id i \<longleftrightarrow> i \<noteq> [] \<and> length i \<le> 64 \<and> is_alphanumeric (hd i) \<and>
     list_all (\<lambda>c. is_alphanumeric c \<or> c = CHR ''_'' \<or> c = CHR ''-'') i"

definition nodes_of :: "workflow_spec \<Rightarrow> (string \<times> node_kind) list" where
  "nodes_of w = map (\<lambda>s. (so_id s, Source_Node)) (wf_sources w) @ map (\<lambda>p. (ps_id p, Processor_Node)) (wf_wasm w) @
     map (\<lambda>p. (ps_id p, Processor_Node)) (wf_plugin w) @ map (\<lambda>s. (si_id s, Sink_Node)) (wf_sinks w)"

fun kind_label :: "node_kind \<Rightarrow> string" where
  "kind_label Source_Node = ''source''"
| "kind_label Processor_Node = ''processor''"
| "kind_label Sink_Node = ''sink''"

definition declared_ids :: "workflow_spec \<Rightarrow> (string \<times> string) list" where
  "declared_ids w = map (\<lambda>t. (ts_id t, ''transformer'')) (wf_transformers w) @
     map (\<lambda>(i, kind). (i, kind_label kind)) (nodes_of w)"

text \<open>Collecting the map of kinds keeps the last entry of a repeated id.\<close>

definition node_kind_of :: "workflow_spec \<Rightarrow> string \<Rightarrow> node_kind option" where
  "node_kind_of w i = map_of (rev (nodes_of w)) i"

fun add_links :: "string list \<Rightarrow> link_spec list \<Rightarrow> graph \<Rightarrow> graph" where
  "add_links names [] g = g"
| "add_links names (l # ls) (adjacency, in_degree) =
     (case (name_to_idx names (ln_from l), name_to_idx names (ln_to l)) of
        (Some u, Some v) \<Rightarrow>
          add_links names ls (adjacency[u := adjacency ! u @ [v]], in_degree[v := in_degree ! v + 1])
      | _ \<Rightarrow> add_links names ls (adjacency, in_degree))"

text \<open>
  \<^verbatim>\<open>topological_order\<close>: the frontiers of Kahn's algorithm, which the scheduler's \<open>kahn\<close> computes with
  as much fuel as there are nodes.
\<close>

definition cycle_message :: "workflow_spec \<Rightarrow> string" where
  "cycle_message w = ''workflow '' @ quoted (wf_id w) @ '': links contain a cycle''"

definition topological_order :: "workflow_spec \<Rightarrow> nat list saci_result" where
  "topological_order w =
     (let names = map fst (nodes_of w); n = length names;
          (adjacency, in_degree) = add_links names (wf_links w) (replicate n [], replicate n 0)
      in case kahn n adjacency in_degree (filter (\<lambda>i. in_degree ! i = 0) [0..<n]) of
           None \<Rightarrow> Inl (Configuration ''fuel'')
         | Some frontiers \<Rightarrow>
             if length (concat frontiers) \<noteq> n then Inl (Configuration (cycle_message w))
             else Inr (concat frontiers))"

section \<open>The rules of a workflow\<close>

definition in_workflow :: "workflow_spec \<Rightarrow> string \<Rightarrow> string" where
  "in_workflow w msg = ''workflow '' @ quoted (wf_id w) @ '': '' @ msg"

definition link_text :: "link_spec \<Rightarrow> string" where
  "link_text l = ''link '' @ quoted (ln_from l) @ '' -> '' @ quoted (ln_to l)"

definition id_rule :: string where
  "id_rule = ''^[A-Za-z0-9][A-Za-z0-9_-]*$ and be at most 64 bytes''"

definition check_ids :: "workflow_spec \<Rightarrow> unit saci_result" where
  "check_ids w = in_order
     [reject_if (\<not> is_valid_id (wf_id w)) (''workflow: id '' @ quoted (wf_id w) @ '' is invalid; ids must match '' @ id_rule),
      check_each (\<lambda>(i, kind). reject_if (\<not> is_valid_id i)
        (in_workflow w (kind @ '' id '' @ quoted i @ '' is invalid; ids must match '' @ id_rule))) (declared_ids w)]"

text \<open>An id seen before is reported with the kind it was declared as first.\<close>

fun check_unique_ids :: "workflow_spec \<Rightarrow> (string \<rightharpoonup> string) \<Rightarrow> (string \<times> string) list \<Rightarrow> unit saci_result" where
  "check_unique_ids w seen [] = Inr ()"
| "check_unique_ids w seen ((i, kind) # rest) =
     (case seen i of
        Some prev_kind \<Rightarrow> Inl (Configuration (in_workflow w (''id '' @ quoted i @ '' is declared twice, as '' @ prev_kind @ '' and as '' @ kind)))
      | None \<Rightarrow> check_unique_ids w (seen(i \<mapsto> kind)) rest)"

definition check_transformer :: "workflow_spec \<Rightarrow> string \<Rightarrow> string \<Rightarrow> string option \<Rightarrow> unit saci_result" where
  "check_transformer w kind i named =
     (case named of
        None \<Rightarrow> Inr ()
      | Some t \<Rightarrow> reject_if (t \<notin> ts_id ` set (wf_transformers w))
          (in_workflow w (kind @ '' '' @ quoted i @ '' names transformer '' @ quoted t @ '', which is not declared'')))"

definition check_transformers :: "workflow_spec \<Rightarrow> unit saci_result" where
  "check_transformers w = in_order
     [check_each (\<lambda>s. check_transformer w ''source'' (so_id s) (so_transformer s)) (wf_sources w),
      check_each (\<lambda>s. check_transformer w ''sink'' (si_id s) (si_transformer s)) (wf_sinks w)]"

definition check_link_ends :: "workflow_spec \<Rightarrow> link_spec \<Rightarrow> unit saci_result" where
  "check_link_ends w l = in_order
     [reject_if (ln_from l = ln_to l) (in_workflow w (link_text l @ '' links a node to itself'')),
      reject_if (node_kind_of w (ln_from l) = None) (in_workflow w (''link names undeclared node '' @ quoted (ln_from l))),
      reject_if (node_kind_of w (ln_to l) = None) (in_workflow w (''link names undeclared node '' @ quoted (ln_to l)))]"

definition check_link_kinds :: "workflow_spec \<Rightarrow> link_spec \<Rightarrow> unit saci_result" where
  "check_link_kinds w l = in_order
     [reject_if (node_kind_of w (ln_to l) = Some Source_Node)
        (in_workflow w (link_text l @ '' targets source '' @ quoted (ln_to l) @ ''; a source has no input'')),
      reject_if (node_kind_of w (ln_from l) = Some Sink_Node)
        (in_workflow w (link_text l @ '' starts at sink '' @ quoted (ln_from l) @ ''; a sink has no output''))]"

definition check_connected :: "workflow_spec \<Rightarrow> unit saci_result" where
  "check_connected w = in_order
     [check_each (\<lambda>s. reject_if (so_id s \<notin> ln_from ` set (wf_links w))
        (in_workflow w (''source '' @ quoted (so_id s) @ '' has no outbound link''))) (wf_sources w),
      check_each (\<lambda>s. reject_if (si_id s \<notin> ln_to ` set (wf_links w))
        (in_workflow w (''sink '' @ quoted (si_id s) @ '' has no inbound link''))) (wf_sinks w)]"

definition windowed_in_cluster :: "workflow_spec \<Rightarrow> string \<Rightarrow> processor_spec list \<Rightarrow> unit saci_result" where
  "windowed_in_cluster w kind ps =
     (case find (\<lambda>p. ps_window p \<noteq> None) ps of
        None \<Rightarrow> Inr ()
      | Some p \<Rightarrow> Inl (Configuration (in_workflow w (''cluster mode cannot honour '' @ kind @ '' node '' @ quoted (ps_id p) @
          '' window block; cluster-mode windowing lives in the processor'' @ [CHR 0x27] @ ''s own pipeline (WindowedSystem + WindowAccumulator)''))))"

definition check_cluster_shape :: "service_mode \<Rightarrow> workflow_spec \<Rightarrow> unit saci_result" where
  "check_cluster_shape mode w =
     (case mode of
        Standalone _ \<Rightarrow> Inr ()
      | Cluster _ \<Rightarrow> in_order
          [reject_if (length (filter (\<lambda>(i, kind). kind = Processor_Node) (nodes_of w)) \<noteq> 1 \<or>
              wf_sources w \<noteq> [] \<or> wf_sinks w \<noteq> [] \<or> wf_links w \<noteq> [])
             (''cluster mode runs exactly one '' @ quoted ''wasm'' @ '' or '' @ quoted ''plugin'' @
              '' node with no source, sink or link ('' @ dec_string (length (nodes_of w)) @ '' node(s), '' @
              dec_string (length (wf_links w)) @ '' link(s) declared)''),
           windowed_in_cluster w ''wasm'' (wf_wasm w), windowed_in_cluster w ''plugin'' (wf_plugin w)])"

text \<open>A source that never ends.\<close>

definition config_flag :: "source_spec \<Rightarrow> string \<Rightarrow> bool" where
  "config_flag s key = (case Option.bind (cv_get (so_config s) key) cv_bool of Some b \<Rightarrow> b | None \<Rightarrow> False)"

definition mode_key :: "source_spec \<Rightarrow> string \<Rightarrow> rat config_value option" where
  "mode_key s key = Option.bind (cv_get (so_config s) ''mode'') (\<lambda>mode. cv_get mode key)"

definition mode_flag :: "source_spec \<Rightarrow> string \<Rightarrow> bool" where
  "mode_flag s key = (case Option.bind (mode_key s key) cv_bool of Some b \<Rightarrow> b | None \<Rightarrow> False)"

definition mode_kind :: "source_spec \<Rightarrow> string option" where
  "mode_kind s = Option.bind (mode_key s ''kind'') cv_str"

definition is_live_source :: "source_spec \<Rightarrow> bool" where
  "is_live_source s =
     (if so_type s \<in> {''tcp'', ''udp'', ''saci''} then True
      else if so_type s = ''HttpPushSource'' then True
      else if so_type s = ''HttpSource'' then mode_kind s \<in> {Some ''lines'', Some ''events''}
      else if so_type s = ''OpenTelemetryMetricsSource'' then mode_kind s \<noteq> Some ''pull'' \<or> \<not> mode_flag s ''stop_at_end''
      else if so_type s = ''KafkaSource'' then \<not> (config_flag s ''stop_at_end'' \<or> config_flag s ''compacted'')
      else if so_type s = ''NatsSource'' then \<not> config_flag s ''stop_at_end''
      else False)"

definition check_run_mode :: "service_mode \<Rightarrow> workflow_spec \<Rightarrow> unit saci_result" where
  "check_run_mode mode w =
     (let stream_mode = (mode = Standalone Stream)
      in in_order
        [reject_if (stream_mode \<and> wf_sources w = [])
           (''stream run mode requires at least one '' @ quoted ''source'' @ '' node ('' @ dec_string (length (wf_sources w)) @ '') declared''),
         (case find is_live_source (wf_sources w) of
            Some live \<Rightarrow> reject_if (\<not> stream_mode) (''source type '' @ quoted (so_type live) @
              '' never reaches EOF; it requires standalone mode with run_mode kind='' @ double_quoted ''stream'')
          | None \<Rightarrow> Inr ())])"

definition check_retries :: "(rat \<Rightarrow> string) \<Rightarrow> workflow_spec \<Rightarrow> unit saci_result" where
  "check_retries shown w = in_order
     [check_each (\<lambda>s. validate_retry shown (so_retry s) (''workflow '' @ quoted (wf_id w) @ '' source '' @ quoted (so_id s))) (wf_sources w),
      check_each (\<lambda>s. validate_retry shown (si_retry s) (''workflow '' @ quoted (wf_id w) @ '' sink '' @ quoted (si_id s))) (wf_sinks w)]"

definition check_branch_id :: "workflow_spec \<Rightarrow> link_spec \<Rightarrow> unit saci_result" where
  "check_branch_id w l =
     (case ln_branch l of
        None \<Rightarrow> Inr ()
      | Some branch \<Rightarrow> reject_if (\<not> is_valid_id branch)
          (in_workflow w (link_text l @ '' branch '' @ quoted branch @ '' is invalid; branches must match '' @ id_rule)))"

definition check_branch_start :: "workflow_spec \<Rightarrow> link_spec \<Rightarrow> unit saci_result" where
  "check_branch_start w l =
     (case ln_branch l of
        None \<Rightarrow> Inr ()
      | Some branch \<Rightarrow> reject_if (node_kind_of w (ln_from l) \<noteq> Some Processor_Node)
          (in_workflow w (link_text l @ '' carries branch '' @ quoted branch @ '' but '' @ quoted (ln_from l) @
            '' is a source; only a processor can route'')))"

definition check_labels :: "workflow_spec \<Rightarrow> string \<times> node_kind \<Rightarrow> unit saci_result" where
  "check_labels w node =
     (let out = filter (\<lambda>l. ln_from l = fst node) (wf_links w)
      in reject_if (list_ex (\<lambda>l. ln_branch l \<noteq> None) out \<and> list_ex (\<lambda>l. ln_branch l = None) out)
        (in_workflow w (''node '' @ quoted (fst node) @ '' mixes labelled and unlabelled outbound links; label every link or none'')))"

text \<open>\<^verbatim>\<open>DLQ_STORES\<close> of \<^verbatim>\<open>dlq.rs\<close>.\<close>

record dlq_store_kind =
  dk_id :: string
  dk_sink_type :: string
  dk_source_type :: string
  dk_exclusive :: bool
  dk_confirms_end :: bool

definition DLQ_STORES :: "dlq_store_kind list" where
  "DLQ_STORES =
     [\<lparr>dk_id = ''redb'', dk_sink_type = ''RedbSink'', dk_source_type = ''RedbSource'', dk_exclusive = True, dk_confirms_end = True\<rparr>,
      \<lparr>dk_id = ''kafka'', dk_sink_type = ''KafkaSink'', dk_source_type = ''KafkaSource'', dk_exclusive = False, dk_confirms_end = False\<rparr>,
      \<lparr>dk_id = ''nats'', dk_sink_type = ''NatsSink'', dk_source_type = ''NatsSource'', dk_exclusive = False, dk_confirms_end = True\<rparr>]"

definition store_kind :: "string \<Rightarrow> dlq_store_kind option" where
  "store_kind i = find (\<lambda>kind. dk_id kind = i) DLQ_STORES"

definition store_names :: string where
  "store_names = join_with '', '' (map dk_id DLQ_STORES)"

definition check_dlq :: "workflow_spec \<Rightarrow> unit saci_result" where
  "check_dlq w =
     (case wf_dlq w of
        None \<Rightarrow> Inr ()
      | Some dlq \<Rightarrow> reject_if (store_kind (dq_store dlq) = None)
          (in_workflow w (''dlq store '' @ quoted (dq_store dlq) @ '' is not one of '' @ store_names)))"

text \<open>\<^verbatim>\<open>WorkflowSpec::validate\<close>.\<close>

definition validate_workflow :: "(rat \<Rightarrow> string) \<Rightarrow> service_mode \<Rightarrow> workflow_spec \<Rightarrow> unit saci_result" where
  "validate_workflow shown mode w = in_order
     [reject_if (nodes_of w = []) (in_workflow w ''declares no source, processor or sink node''),
      check_ids w,
      check_unique_ids w Map.empty (declared_ids w),
      check_transformers w,
      check_each (check_link_ends w) (wf_links w),
      check_distinct (\<lambda>l. (ln_from l, ln_to l)) (\<lambda>l. in_workflow w (link_text l @ '' is declared twice'')) {} (wf_links w),
      check_each (check_link_kinds w) (wf_links w),
      map_sum id (\<lambda>_. ()) (topological_order w),
      check_connected w,
      check_cluster_shape mode w,
      check_run_mode mode w,
      check_retries shown w,
      check_each (check_branch_id w) (wf_links w),
      check_each (check_branch_start w) (wf_links w),
      check_each (check_labels w) (nodes_of w),
      check_each (validate_window_block (wf_id w) ''wasm'') (wf_wasm w),
      check_each (validate_window_block (wf_id w) ''plugin'') (wf_plugin w),
      check_dlq w]"

section \<open>The rules of a service\<close>

definition peer_message :: "nat \<times> string \<Rightarrow> string" where
  "peer_message peer = ''cluster peers contain duplicate id: '' @ dec_string (fst peer)"

definition check_cluster :: "service_config \<Rightarrow> unit saci_result" where
  "check_cluster c =
     (case sv_mode c of
        Standalone _ \<Rightarrow> Inr ()
      | Cluster k \<Rightarrow>
          (let min_lease = min (cl_election_timeout_ms k * 3) (2 ^ 64 - 1)
           in in_order
             [reject_if (cl_peers k = []) ''cluster mode requires at least one peer'',
              check_distinct fst peer_message {} (cl_peers k),
              reject_if (sv_node_id c \<notin> fst ` set (cl_peers k))
                (''node id '' @ dec_string (sv_node_id c) @ '' is not listed in cluster.peers''),
              reject_if (cl_lease_ttl_ms k < min_lease)
                (''lease_ttl_ms ('' @ dec_string (cl_lease_ttl_ms k) @ '') must be >= 3 '' @ [CHR 0xC3, CHR 0x97] @
                 '' election_timeout_ms ('' @ dec_string (cl_election_timeout_ms k) @ '') = '' @ dec_string min_lease),
              reject_if (cl_snapshot_log_interval k = 0)
                ''snapshot_log_interval must be at least 1; a zero interval snapshots on every committed entry'']))"

definition is_cluster :: "service_config \<Rightarrow> bool" where
  "is_cluster c \<longleftrightarrow> (case sv_mode c of Cluster _ \<Rightarrow> True | Standalone _ \<Rightarrow> False)"

text \<open>Node ids across workflows, each with its kind and its workflow.\<close>

definition all_ids :: "service_config \<Rightarrow> (string \<times> string \<times> string) list" where
  "all_ids c = concat (map (\<lambda>w. map (\<lambda>(i, kind). (i, kind, wf_id w)) (declared_ids w)) (sv_workflows c))"

fun check_owners :: "(string \<rightharpoonup> string \<times> string) \<Rightarrow> (string \<times> string \<times> string) list \<Rightarrow> unit saci_result" where
  "check_owners owners [] = Inr ()"
| "check_owners owners ((i, kind, wid) # rest) =
     (case owners i of
        Some (prev_kind, prev_wf) \<Rightarrow>
          Inl (Configuration (''node id '' @ quoted i @ '' is declared in workflow '' @ quoted prev_wf @ '' as '' @ prev_kind @
            '' and in workflow '' @ quoted wid @ '' as '' @ kind @ ''; node ids must be unique across all workflows''))
      | None \<Rightarrow> check_owners (owners(i \<mapsto> (kind, wid))) rest)"

text \<open>
  The halves of the channels in declaration order: the name, the id, and whether it is the source.
\<close>

definition channel_name :: "rat config_value \<Rightarrow> string option" where
  "channel_name v = Option.bind (cv_get v ''name'') cv_str"

definition channel_halves :: "workflow_spec \<Rightarrow> (string \<times> string \<times> bool) list" where
  "channel_halves w =
     concat (map (\<lambda>s. case (so_type s = ''ChannelSource'', channel_name (so_config s)) of
         (True, Some name) \<Rightarrow> [(name, so_id s, True)] | _ \<Rightarrow> []) (wf_sources w)) @
     concat (map (\<lambda>s. case (si_type s = ''ChannelSink'', channel_name (si_config s)) of
         (True, Some name) \<Rightarrow> [(name, si_id s, False)] | _ \<Rightarrow> []) (wf_sinks w))"

type_synonym channels = "string \<rightharpoonup> (string option \<times> string option)"

fun pair_channels :: "channels \<Rightarrow> (string \<times> string \<times> bool) list \<Rightarrow> channels saci_result" where
  "pair_channels ch [] = Inr ch"
| "pair_channels ch ((name, i, is_source) # rest) =
     (let (source, sink) = (case ch name of Some e \<Rightarrow> e | None \<Rightarrow> (None, None))
      in if is_source then
           (if source \<noteq> None then Inl (Configuration (''channel '' @ quoted name @ '': more than one ChannelSource declared''))
            else pair_channels (ch(name \<mapsto> (Some i, sink))) rest)
         else
           (if sink \<noteq> None then Inl (Configuration (''channel '' @ quoted name @ '': more than one ChannelSink declared''))
            else pair_channels (ch(name \<mapsto> (source, Some i))) rest))"

definition check_channel :: "channels \<Rightarrow> string \<Rightarrow> unit saci_result" where
  "check_channel ch name =
     (case ch name of
        Some (Some _, None) \<Rightarrow> Inl (Configuration (''channel '' @ quoted name @ '': declares a ChannelSource but no ChannelSink''))
      | Some (None, Some _) \<Rightarrow> Inl (Configuration (''channel '' @ quoted name @ '': declares a ChannelSink but no ChannelSource''))
      | _ \<Rightarrow> Inr ())"

text \<open>\<open>shuffle\<close> is the order in which the hash map yields its names.\<close>

definition check_channels :: "(string list \<Rightarrow> string list) \<Rightarrow> service_config \<Rightarrow> unit saci_result" where
  "check_channels shuffle c =
     (let halves = concat (map channel_halves (sv_workflows c))
      in res_bind (pair_channels Map.empty halves) (\<lambda>ch.
           check_each (check_channel ch) (shuffle (remdups (map fst halves)))))"

definition check_flow_blocks :: "(rat \<Rightarrow> string) \<Rightarrow> service_config \<Rightarrow> unit saci_result" where
  "check_flow_blocks shown c =
     check_each (\<lambda>w. check_each (\<lambda>s. case so_flow s of
         None \<Rightarrow> Inr ()
       | Some l \<Rightarrow> validate_flow shown l (sv_flow_control c)
           (''workflow '' @ quoted (wf_id w) @ '' source '' @ quoted (so_id s) @ '': flow_control'')) (wf_sources w)) (sv_workflows c)"

definition heal_block :: "(rat \<Rightarrow> string) \<Rightarrow> service_config \<Rightarrow> string \<Rightarrow> heal_config option \<Rightarrow> unit saci_result" where
  "heal_block shown c what h = (case h of None \<Rightarrow> Inr () | Some l \<Rightarrow> validate_heal shown l (sv_heal c) (what @ '': heal''))"

definition check_heal_blocks :: "(rat \<Rightarrow> string) \<Rightarrow> service_config \<Rightarrow> unit saci_result" where
  "check_heal_blocks shown c =
     check_each (\<lambda>w. in_order
       [check_each (\<lambda>s. heal_block shown c (''workflow '' @ quoted (wf_id w) @ '' source '' @ quoted (so_id s)) (so_heal s)) (wf_sources w),
        check_each (\<lambda>s. heal_block shown c (''workflow '' @ quoted (wf_id w) @ '' sink '' @ quoted (si_id s)) (si_heal s)) (wf_sinks w)])
       (sv_workflows c)"

text \<open>\<^verbatim>\<open>ServiceConfig::validate\<close>; \<open>parse_addr\<close> is \<^verbatim>\<open>SocketAddr::from_str\<close> with the text of its error.\<close>

definition validate_service ::
  "(rat \<Rightarrow> string) \<Rightarrow> (string \<Rightarrow> string + unit) \<Rightarrow> (string list \<Rightarrow> string list) \<Rightarrow> service_config \<Rightarrow> unit saci_result" where
  "validate_service shown parse_addr shuffle c = in_order
     [reject_if (sv_data_dir c = []) ''node.data_dir must not be empty'',
      validate_observability (sv_observability c),
      check_cluster c,
      check_each (validate_workflow shown (sv_mode c)) (sv_workflows c),
      reject_if (is_cluster c \<and> length (sv_workflows c) \<noteq> 1)
        (''cluster mode requires exactly one workflow; found '' @ dec_string (length (sv_workflows c))),
      check_distinct wf_id (\<lambda>w. ''workflow id '' @ quoted (wf_id w) @ '' is declared twice'') {} (sv_workflows c),
      check_owners Map.empty (all_ids c),
      check_channels shuffle c,
      (if ht_disabled (sv_http c) then Inr ()
       else case parse_addr (ht_bind (sv_http c)) of
         Inl e \<Rightarrow> Inl (Configuration (''http.bind '' @ quoted (ht_bind (sv_http c)) @ '' is not a valid socket address: '' @ e))
       | Inr _ \<Rightarrow> Inr ()),
      reject_if (is_cluster c \<and> sv_store c \<noteq> None)
        (''mode '' @ double_quoted ''cluster'' @ '' does not take a `store` block: cluster state lives in node.data_dir''),
      reject_if (is_cluster c \<and> sv_flow_control c \<noteq> no_block)
        (''mode '' @ double_quoted ''cluster'' @ '' does not take a `flow_control` block: a cluster workflow declares no source node, so there is no admission to govern''),
      validate_flow shown (sv_flow_control c) no_block ''flow_control'',
      check_flow_blocks shown c,
      reject_if (is_cluster c \<and> sv_heal c \<noteq> no_heal_block)
        (''mode '' @ double_quoted ''cluster'' @ '' does not take a `heal` block: a cluster workflow declares no source or sink node, so there is no connector to rebuild''),
      validate_heal shown (sv_heal c) no_heal_block ''heal'',
      check_heal_blocks shown c,
      (case find (\<lambda>w. wf_dlq w \<noteq> None) (sv_workflows c) of
         Some w \<Rightarrow> reject_if (is_cluster c) (''mode '' @ double_quoted ''cluster'' @ '' does not take a `dlq` block (workflow '' @
           quoted (wf_id w) @ ''): a cluster workflow declares no sink node, so there is nothing to dead-letter'')
       | None \<Rightarrow> Inr ()),
      (case sv_store c of
         Some (path, _) \<Rightarrow> reject_if (path = []) ''store redb: path must not be empty''
       | None \<Rightarrow> Inr ())]"

text \<open>
  \<^verbatim>\<open>extract_declared_variables\<close>; \<open>pairs\<close> is what serde makes of the block, \<open>shown_name\<close> the \<^verbatim>\<open>Debug\<close>
  of a name, and \<open>shuffle\<close> the order of the hash map.
\<close>

definition extract_declared_variables ::
  "('f config_value \<Rightarrow> string + variables) \<Rightarrow> (string \<Rightarrow> string) \<Rightarrow> (string list \<Rightarrow> string list) \<Rightarrow> 'f config_value \<Rightarrow> variables saci_result" where
  "extract_declared_variables pairs shown_name shuffle v =
     (case cv_get v ''variables'' of
        None \<Rightarrow> Inr []
      | Some vars \<Rightarrow>
          (case pairs vars of
             Inl e \<Rightarrow> Inl (Configuration (''variables block must be name/string pairs: '' @ e))
           | Inr declared \<Rightarrow>
               (case check_each (\<lambda>name. reject_if (\<not> list_all (\<lambda>c. is_alphanumeric c \<or> c = CHR ''_'') name)
                    (''invalid variable name '' @ shown_name name @ '': use [A-Za-z0-9_]'')) (shuffle (map fst declared)) of
                  Inl e \<Rightarrow> Inl e
                | Inr _ \<Rightarrow> Inr declared)))"

text \<open>\<^verbatim>\<open>ServiceConfig::load\<close> after the file was read; \<open>deserialize\<close> is serde's reading of the tree.\<close>

definition load_config ::
  "(string \<Rightarrow> (string \<times> diagnostic list) + rat kdl_node list) \<Rightarrow> (rat \<Rightarrow> bool) \<Rightarrow> (string \<Rightarrow> string option) \<Rightarrow>
     (rat config_value \<Rightarrow> string + variables) \<Rightarrow> (string \<Rightarrow> string) \<Rightarrow> (string list \<Rightarrow> string list) \<Rightarrow>
     (rat config_value \<Rightarrow> string + service_config) \<Rightarrow> (rat \<Rightarrow> string) \<Rightarrow> (string \<Rightarrow> string + unit) \<Rightarrow> string \<Rightarrow> service_config saci_result" where
  "load_config parse finite_float env pairs shown_name shuffle deserialize shown parse_addr raw =
     res_bind (from_kdl_str parse finite_float shown raw) (\<lambda>value_pre.
     res_bind (extract_declared_variables pairs shown_name shuffle value_pre) (\<lambda>declared.
     res_bind (from_kdl_str_with_vars parse finite_float shown env raw declared) (\<lambda>v.
       case deserialize v of
         Inl e \<Rightarrow> Inl (Configuration (''parsing config: '' @ e))
       | Inr config \<Rightarrow>
           (case validate_service shown parse_addr shuffle config of
              Inl e \<Rightarrow> Inl e
            | Inr _ \<Rightarrow> Inr config))))"

end
