(* ===== verification/Service_Config_Properties.thy ===== *)
theory Service_Config_Properties
  imports Service_Config Scheduler_Properties
begin

text \<open>
  What the rules of a service configuration accept. Each loop of checks is characterised by the
  property it tests (\<open>check_simps\<close>); the topological order is exact; a workflow passes its rules
  exactly when it is well-formed, and a service exactly when its workflows are and agree.
\<close>

section \<open>Checks\<close>

named_theorems check_simps

lemma reject_if_ok [check_simps]: "reject_if b msg = Inr () \<longleftrightarrow> \<not> b"
  by (simp add: reject_if_def)

lemma and_then_ok [check_simps]: "and_then r s = Inr () \<longleftrightarrow> r = Inr () \<and> s = Inr ()"
  by (cases r) (auto simp: and_then_def)

lemma check_each_ok [check_simps]: "check_each f xs = Inr () \<longleftrightarrow> (\<forall>x \<in> set xs. f x = Inr ())"
  by (induction xs) (auto simp: check_simps)

lemma in_order_ok [check_simps]: "in_order rs = Inr () \<longleftrightarrow> (\<forall>r \<in> set rs. r = Inr ())"
  by (simp add: in_order_def check_simps)

lemma check_distinct_ok [check_simps]:
  "check_distinct key msg seen xs = Inr () \<longleftrightarrow> distinct (map key xs) \<and> key ` set xs \<inter> seen = {}"
  by (induction xs arbitrary: seen) auto

lemma check_unique_ids_ok [check_simps]:
  "check_unique_ids w seen xs = Inr () \<longleftrightarrow> distinct (map fst xs) \<and> fst ` set xs \<inter> dom seen = {}"
proof (induction xs arbitrary: seen)
  case (Cons x xs)
  then show ?case by (cases x; cases "seen (fst x)") (auto simp: disjoint_iff dom_def image_iff)
qed simp

lemma check_owners_ok [check_simps]:
  "check_owners owners xs = Inr () \<longleftrightarrow> distinct (map fst xs) \<and> fst ` set xs \<inter> dom owners = {}"
proof (induction xs arbitrary: owners)
  case (Cons x xs)
  then show ?case by (cases x; cases "owners (fst x)") (auto simp: disjoint_iff dom_def image_iff)
qed simp

lemma find_ok [check_simps]:
  "(case find P xs of None \<Rightarrow> Inr () | Some x \<Rightarrow> f x) = Inr () \<longleftrightarrow>
     (\<forall>x. find P xs = Some x \<longrightarrow> f x = Inr ())"
  by (simp split: option.splits)

section \<open>Topological order\<close>

definition link_edge :: "workflow_spec \<Rightarrow> (nat \<times> nat) set" where
  "link_edge w = (let names = map fst (nodes_of w) in
     {(u, v). \<exists>l \<in> set (wf_links w). name_to_idx names (ln_from l) = Some u \<and> name_to_idx names (ln_to l) = Some v})"

text \<open>Every predecessor of an entry stands before it.\<close>

definition predecessors_first :: "(nat \<times> nat) set \<Rightarrow> nat list \<Rightarrow> bool" where
  "predecessors_first E vs \<longleftrightarrow> (\<forall>i < length vs. \<forall>u. (u, vs ! i) \<in> E \<longrightarrow> u \<in> set (take i vs))"

lemma add_links_graph:
  "graph_ok (length names) g \<Longrightarrow>
   graph_ok (length names) (add_links names ls g) \<and> (\<forall>u < length names. \<forall>v. v \<in> set (fst (add_links names ls g) ! u) \<longleftrightarrow>
     v \<in> set (fst g ! u) \<or> (\<exists>l \<in> set ls. name_to_idx names (ln_from l) = Some u \<and> name_to_idx names (ln_to l) = Some v))"
proof (induction ls arbitrary: g)
  case (Cons l ls)
  obtain adj deg where g: "g = (adj, deg)" by (cases g)
  have len: "length adj = length names" using Cons.prems g by (simp add: graph_ok_def)
  show ?case
  proof (cases "\<exists>u v. name_to_idx names (ln_from l) = Some u \<and> name_to_idx names (ln_to l) = Some v")
    case True
    then obtain u v where uv: "name_to_idx names (ln_from l) = Some u" "name_to_idx names (ln_to l) = Some v" by auto
    have b: "u < length names" "v < length names" using uv name_to_idx_Some by blast+
    note IH = Cons.IH [OF graph_ok_add_edge [OF Cons.prems [unfolded g] b]]
    show ?thesis using IH uv b len g by (auto simp: nth_list_update)
  next
    case False
    then have "add_links names (l # ls) g = add_links names ls g" using g by (auto split: option.splits)
    then show ?thesis using Cons.IH [OF Cons.prems] False by auto
  qed
qed simp

lemma concat_prefix:
  "i < length (concat st) \<Longrightarrow> \<exists>k < length st. concat st ! i \<in> set (st ! k) \<and> set (concat (take k st)) \<subseteq> set (take i (concat st))"
proof (induction st arbitrary: i)
  case (Cons xs st)
  show ?case
  proof (cases "i < length xs")
    case True
    then show ?thesis by (intro exI [of _ 0]) (simp add: nth_append)
  next
    case False
    then have "i - length xs < length (concat st)" using Cons.prems by simp
    from Cons.IH [OF this] obtain k where "k < length st" "concat st ! (i - length xs) \<in> set (st ! k)"
      "set (concat (take k st)) \<subseteq> set (take (i - length xs) (concat st))" by blast
    then show ?thesis using False by (intro exI [of _ "Suc k"]) (auto simp: nth_append)
  qed
qed simp

lemma link_edge_bounds: "(u, v) \<in> link_edge w \<Longrightarrow> u < length (nodes_of w) \<and> v < length (nodes_of w)"
  by (auto simp: link_edge_def Let_def dest: name_to_idx_Some)

lemma topological_frontiers:
  obtains st where
    "topological_order w = (if length (concat st) \<noteq> length (nodes_of w)
       then Inl (Configuration (cycle_message w)) else Inr (concat st))"
    "distinct (concat st)" "set (concat st) \<subseteq> {..<length (nodes_of w)}" "predecessors_first (link_edge w) (concat st)"
    "\<And>v. v < length (nodes_of w) \<Longrightarrow> v \<notin> set (concat st) \<Longrightarrow> \<exists>u. u < length (nodes_of w) \<and> u \<notin> set (concat st) \<and> (u, v) \<in> link_edge w"
proof -
  let ?names = "map fst (nodes_of w)" and ?n = "length (nodes_of w)"
  obtain adj deg where g: "add_links ?names (wf_links w) (replicate ?n [], replicate ?n 0) = (adj, deg)" by fastforce
  note A = add_links_graph [of ?names "(replicate ?n [], replicate ?n 0)" "wf_links w", unfolded length_map g, OF graph_ok_empty]
  have edge: "u < ?n \<Longrightarrow> v \<in> set (adj ! u) \<longleftrightarrow> (u, v) \<in> link_edge w" for u v
    using A by (simp add: link_edge_def Let_def)
  from kahn_correct [OF kahn_inv_init [of ?n adj deg], of ?n] A obtain st where
    st: "kahn ?n adj deg (filter (\<lambda>i. deg ! i = 0) [0..<?n]) = Some st"
    "distinct (concat st)" "set (concat st) \<subseteq> {..<?n}"
    "\<forall>i < length st. \<forall>v \<in> set (st ! i). \<forall>u < ?n. v \<in> set (adj ! u) \<longrightarrow> (\<exists>j < i. u \<in> set (st ! j))"
    "\<forall>v < ?n. v \<notin> set (concat st) \<longrightarrow> (\<exists>u < ?n. u \<notin> set (concat st) \<and> v \<in> set (adj ! u))" by auto
  have "predecessors_first (link_edge w) (concat st)"
    unfolding predecessors_first_def
  proof (intro allI impI)
    fix i u assume i: "i < length (concat st)" and e: "(u, concat st ! i) \<in> link_edge w"
    obtain k where k: "k < length st" "concat st ! i \<in> set (st ! k)" "set (concat (take k st)) \<subseteq> set (take i (concat st))"
      using concat_prefix [OF i] by blast
    obtain j where j: "j < k" "u \<in> set (st ! j)" using st(4) k e edge link_edge_bounds [OF e] by metis
    then have "st ! j \<in> set (take k st)" using k(1) by (auto simp: in_set_conv_nth)
    then show "u \<in> set (take i (concat st))" using j(2) k(3) by auto
  qed
  moreover have "topological_order w = (if length (concat st) \<noteq> ?n
       then Inl (Configuration (cycle_message w)) else Inr (concat st))"
    using g st(1) by (simp add: topological_order_def Let_def)
  ultimately show thesis using that [of st] st(2,3,5) edge by metis
qed

lemma topological_order_holds:
  "(if acyclic (link_edge w)
    then \<exists>vs. topological_order w = Inr vs \<and> distinct vs \<and> set vs = {..<length (nodes_of w)} \<and> predecessors_first (link_edge w) vs
    else topological_order w = Inl (Configuration (cycle_message w)))"
proof -
  let ?n = "length (nodes_of w)"
  obtain st where st:
    "topological_order w = (if length (concat st) \<noteq> ?n then Inl (Configuration (cycle_message w)) else Inr (concat st))"
    "distinct (concat st)" "set (concat st) \<subseteq> {..<?n}" "predecessors_first (link_edge w) (concat st)"
    "\<And>v. v < ?n \<Longrightarrow> v \<notin> set (concat st) \<Longrightarrow> \<exists>u. u < ?n \<and> u \<notin> set (concat st) \<and> (u, v) \<in> link_edge w"
    using topological_frontiers by metis
  have "link_edge w \<subseteq> {..<?n} \<times> {..<?n}" using link_edge_bounds by auto
  then have fin: "finite (link_edge w)" by (rule finite_subset) simp
  have "acyclic (link_edge w) \<longleftrightarrow> length (concat st) = ?n"
  proof
    assume "acyclic (link_edge w)"
    then have wf: "wf (link_edge w)" by (rule finite_acyclic_wf [OF fin])
    have "v \<in> set (concat st)" if "v < ?n" for v
      using wf that by (induction v rule: wf_induct_rule) (use st(5) in blast)
    then show "length (concat st) = ?n" using placed_all [OF st(2,3)] st(3) by blast
  next
    assume len: "length (concat st) = ?n"
    let ?pos = "\<lambda>v. LEAST i. i < length (concat st) \<and> concat st ! i = v"
    have "?pos u < ?pos v" if e: "(u, v) \<in> link_edge w" for u v
    proof -
      have "v \<in> set (concat st)" using placed_all [OF st(2,3)] len link_edge_bounds [OF e] by simp
      then have "\<exists>i. i < length (concat st) \<and> concat st ! i = v" unfolding in_set_conv_nth by blast
      then have v: "?pos v < length (concat st)" "concat st ! ?pos v = v"
        using LeastI_ex [of "\<lambda>i. i < length (concat st) \<and> concat st ! i = v"] by blast+
      then have "u \<in> set (take (?pos v) (concat st))" using st(4) e by (auto simp: predecessors_first_def)
      then obtain j where j: "j < ?pos v" "concat st ! j = u" using v(1) by (auto simp: in_set_conv_nth)
      then have "?pos u \<le> j" using v(1) by (intro Least_le) simp
      then show ?thesis using j(1) by simp
    qed
    then have "acyclic ((link_edge w)\<inverse>)" by (intro acyclicI_order [where f = ?pos]) auto
    then show "acyclic (link_edge w)" by simp
  qed
  then show ?thesis using st placed_all [OF st(2,3)] by auto
qed

text \<open>
  C23. The topological order lists every node once, each after all nodes that link into it; it is
  refused, with the cycle error, exactly when the links are cyclic.
\<close>

theorem topological_order_exact:
  "(if acyclic (link_edge w)
    then \<exists>vs. topological_order w = Inr vs \<and> distinct vs \<and> set vs = {..<length (nodes_of w)} \<and> predecessors_first (link_edge w) vs
    else topological_order w = Inl (Configuration (cycle_message w)))"
  by (rule topological_order_holds)

section \<open>A well-formed workflow\<close>

definition source_ids :: "workflow_spec \<Rightarrow> string set" where
  "source_ids w = so_id ` set (wf_sources w)"

definition processor_ids :: "workflow_spec \<Rightarrow> string set" where
  "processor_ids w = ps_id ` set (wf_wasm w @ wf_plugin w)"

definition sink_ids :: "workflow_spec \<Rightarrow> string set" where
  "sink_ids w = si_id ` set (wf_sinks w)"

definition link_ids :: "workflow_spec \<Rightarrow> (string \<times> string) set" where
  "link_ids w = (\<lambda>l. (ln_from l, ln_to l)) ` set (wf_links w)"

definition ids_ok :: "workflow_spec \<Rightarrow> bool" where
  "ids_ok w \<longleftrightarrow> nodes_of w \<noteq> [] \<and> is_valid_id (wf_id w) \<and> list_all is_valid_id (map fst (declared_ids w)) \<and>
     distinct (map fst (declared_ids w))"

text \<open>Links lead from sources and processors to processors and sinks, without repetition or cycle.\<close>

definition links_ok :: "workflow_spec \<Rightarrow> bool" where
  "links_ok w \<longleftrightarrow> fst ` link_ids w \<subseteq> source_ids w \<union> processor_ids w \<and>
     snd ` link_ids w \<subseteq> processor_ids w \<union> sink_ids w \<and>
     distinct (map (\<lambda>l. (ln_from l, ln_to l)) (wf_links w)) \<and> acyclic (link_ids w) \<and>
     source_ids w \<subseteq> fst ` link_ids w \<and> sink_ids w \<subseteq> snd ` link_ids w"

text \<open>Branch labels are ids, on the links of processors only, on all links of a node or on none.\<close>

definition labels_ok :: "workflow_spec \<Rightarrow> bool" where
  "labels_ok w \<longleftrightarrow>
     (\<forall>l \<in> set (wf_links w). \<forall>b. ln_branch l = Some b \<longrightarrow> is_valid_id b \<and> ln_from l \<in> processor_ids w) \<and>
     (\<forall>l \<in> set (wf_links w). \<forall>l' \<in> set (wf_links w). ln_from l = ln_from l' \<longrightarrow> (ln_branch l = None \<longleftrightarrow> ln_branch l' = None))"

definition mode_ok :: "service_mode \<Rightarrow> workflow_spec \<Rightarrow> bool" where
  "mode_ok mode w \<longleftrightarrow>
     (case mode of
        Cluster _ \<Rightarrow> wf_sources w = [] \<and> wf_sinks w = [] \<and> wf_links w = [] \<and>
          (\<exists>p. wf_wasm w @ wf_plugin w = [p] \<and> ps_window p = None)
      | Standalone Stream \<Rightarrow> wf_sources w \<noteq> []
      | Standalone _ \<Rightarrow> list_all (\<lambda>s. \<not> is_live_source s) (wf_sources w))"

definition retry_ok :: "retry_config \<Rightarrow> bool" where
  "retry_ok r \<longleftrightarrow> 1 \<le> rc_max_attempts r \<and> 1 \<le> rc_multiplier r \<and> 0 \<le> rc_jitter r \<and> rc_jitter r \<le> 1"

fun geometry_ok :: "window_spec \<Rightarrow> bool" where
  "geometry_ok (Tumbling sz offset) \<longleftrightarrow> 0 < sz"
| "geometry_ok (Session gap) \<longleftrightarrow> 0 < gap"
| "geometry_ok (Sliding sz slide offset) \<longleftrightarrow> 0 < slide \<and> slide \<le> sz"

definition window_ok :: "window_config \<Rightarrow> bool" where
  "window_ok win \<longleftrightarrow> geometry_ok (wn_spec win) \<and> wn_time_field win \<noteq> [] \<and> 0 \<le> wn_lateness win"

definition blocks_ok :: "workflow_spec \<Rightarrow> bool" where
  "blocks_ok w \<longleftrightarrow>
     Some ` ts_id ` set (wf_transformers w) \<union> {None} \<supseteq>
       so_transformer ` set (wf_sources w) \<union> si_transformer ` set (wf_sinks w) \<and>
     list_all retry_ok (map so_retry (wf_sources w) @ map si_retry (wf_sinks w)) \<and>
     list_all (\<lambda>p. case ps_window p of Some win \<Rightarrow> window_ok win | None \<Rightarrow> True) (wf_wasm w @ wf_plugin w) \<and>
     (case wf_dlq w of Some dlq \<Rightarrow> dq_store dlq \<in> {''redb'', ''kafka'', ''nats''} | None \<Rightarrow> True)"

definition workflow_ok :: "service_mode \<Rightarrow> workflow_spec \<Rightarrow> bool" where
  "workflow_ok mode w \<longleftrightarrow> ids_ok w \<and> links_ok w \<and> labels_ok w \<and> mode_ok mode w \<and> blocks_ok w"

lemma declared_nodes: "distinct (map fst (declared_ids w)) \<Longrightarrow> distinct (map fst (nodes_of w))"
  by (simp add: declared_ids_def case_prod_unfold comp_def)

lemma node_kind_of_iff: "distinct (map fst (nodes_of w)) \<Longrightarrow> node_kind_of w i = Some k \<longleftrightarrow> (i, k) \<in> set (nodes_of w)"
  by (simp add: node_kind_of_def map_of_eq_Some_iff rev_map [symmetric])

lemma nodes_of_set:
  "set (nodes_of w) = (\<lambda>i. (i, Source_Node)) ` source_ids w \<union> (\<lambda>i. (i, Processor_Node)) ` processor_ids w \<union>
     (\<lambda>i. (i, Sink_Node)) ` sink_ids w"
  by (auto simp: nodes_of_def source_ids_def processor_ids_def sink_ids_def)

lemma node_kinds:
  assumes "distinct (map fst (nodes_of w))"
  shows "node_kind_of w i = Some Source_Node \<longleftrightarrow> i \<in> source_ids w"
    "node_kind_of w i = Some Processor_Node \<longleftrightarrow> i \<in> processor_ids w"
    "node_kind_of w i = Some Sink_Node \<longleftrightarrow> i \<in> sink_ids w"
  by (auto simp: node_kind_of_iff [OF assms] nodes_of_set)

lemma name_to_idx_own: "distinct names \<Longrightarrow> u < length names \<Longrightarrow> name_to_idx names (names ! u) = Some u"
proof -
  assume "distinct names" "u < length names"
  then have "filter (\<lambda>i. names ! i = names ! u) [0..<length names] = filter (\<lambda>i. i = u) [0..<length names]"
    by (intro filter_cong) (auto simp: nth_eq_iff_index_eq)
  also have "\<dots> = [u]" using \<open>u < length names\<close>
    by (induction names rule: rev_induct) (auto simp: filter_empty_conv less_Suc_eq)
  finally show ?thesis by (simp add: name_to_idx_def)
qed

lemma acyclic_inv_image: "finite r \<Longrightarrow> acyclic r \<Longrightarrow> s \<subseteq> inv_image r f \<Longrightarrow> acyclic s"
  by (meson finite_acyclic_wf wf_acyclic wf_inv_image wf_subset)

lemma acyclic_link_ids:
  assumes d: "distinct (map fst (nodes_of w))" and known: "Field (link_ids w) \<subseteq> fst ` set (nodes_of w)"
  shows "acyclic (link_edge w) \<longleftrightarrow> acyclic (link_ids w)"
proof -
  let ?names = "map fst (nodes_of w)"
  have idx: "i \<in> set ?names \<Longrightarrow> \<exists>u < length ?names. ?names ! u = i \<and> name_to_idx ?names i = Some u" for i
    using name_to_idx_own [OF d] by (metis in_set_conv_nth)
  have finI: "finite (link_ids w)" by (simp add: link_ids_def)
  have finE: "finite (link_edge w)"
    by (rule finite_subset [of _ "{..<length ?names} \<times> {..<length ?names}"]) (auto dest: link_edge_bounds)
  have "link_edge w \<subseteq> inv_image (link_ids w) ((!) ?names)"
  proof (clarsimp simp: inv_image_def)
    fix u v assume "(u, v) \<in> link_edge w"
    then obtain l where "l \<in> set (wf_links w)" "name_to_idx ?names (ln_from l) = Some u" "name_to_idx ?names (ln_to l) = Some v"
      by (auto simp: link_edge_def Let_def)
    then show "(?names ! u, ?names ! v) \<in> link_ids w" using name_to_idx_Some by (force simp: link_ids_def)
  qed
  moreover have "link_ids w \<subseteq> inv_image (link_edge w) (\<lambda>i. the (name_to_idx ?names i))"
  proof
    fix e assume e: "e \<in> link_ids w"
    then obtain l where l: "l \<in> set (wf_links w)" "e = (ln_from l, ln_to l)" by (auto simp: link_ids_def)
    have "ln_from l \<in> set ?names" "ln_to l \<in> set ?names" using e l(2) known by (auto simp: Field_def)
    then show "e \<in> inv_image (link_edge w) (\<lambda>i. the (name_to_idx ?names i))"
      using idx [of "ln_from l"] idx [of "ln_to l"] l by (auto simp: link_edge_def Let_def inv_image_def)
  qed
  ultimately show ?thesis using acyclic_inv_image finI finE by metis
qed

lemma acyclic_no_loop: "acyclic r \<Longrightarrow> (a, a) \<notin> r"
  by (auto simp: acyclic_def)

lemma topological_ok [check_simps]:
  "map_sum id (\<lambda>_. ()) (topological_order w) = Inr () \<longleftrightarrow> acyclic (link_edge w)"
proof -
  obtain st where "topological_order w = (if length (concat st) \<noteq> length (nodes_of w)
       then Inl (Configuration (cycle_message w)) else Inr (concat st))" using topological_frontiers by metis
  moreover have "acyclic (link_edge w) \<longleftrightarrow> (\<exists>vs. topological_order w = Inr vs)"
    using topological_order_holds [of w] by (auto split: if_splits)
  ultimately show ?thesis by auto
qed

section \<open>The rules of a workflow\<close>

lemma validate_retry_ok [check_simps]: "validate_retry shown r what = Inr () \<longleftrightarrow> retry_ok r"
  by (auto simp: validate_retry_def retry_ok_def check_simps not_less)

lemma validate_geometry_ok: "Windows.validate s = Inr () \<longleftrightarrow> geometry_ok s"
  by (cases s) auto

lemma validate_window_ok: "validate_window win = Inr () \<longleftrightarrow> window_ok win"
  using validate_geometry_ok [of "wn_spec win"]
  by (auto simp: validate_window_def window_ok_def split: sum.splits)

lemma validate_window_block_ok [check_simps]:
  "validate_window_block i kind p = Inr () \<longleftrightarrow> (case ps_window p of Some win \<Rightarrow> window_ok win | None \<Rightarrow> True)"
  using validate_window_ok [of "the (ps_window p)"] by (auto simp: validate_window_block_def split: option.splits sum.splits)

lemma check_dlq_ok [check_simps]:
  "check_dlq w = Inr () \<longleftrightarrow> (case wf_dlq w of Some dlq \<Rightarrow> dq_store dlq \<in> {''redb'', ''kafka'', ''nats''} | None \<Rightarrow> True)"
  by (auto simp: check_dlq_def store_kind_def DLQ_STORES_def check_simps split: option.splits)

lemma check_ids_ok [check_simps]:
  "check_ids w = Inr () \<longleftrightarrow> is_valid_id (wf_id w) \<and> list_all is_valid_id (map fst (declared_ids w))"
  by (auto simp: check_ids_def check_simps list_all_iff)

lemma check_transformers_ok [check_simps]:
  "check_transformers w = Inr () \<longleftrightarrow> Some ` ts_id ` set (wf_transformers w) \<union> {None} \<supseteq>
     so_transformer ` set (wf_sources w) \<union> si_transformer ` set (wf_sinks w)"
proof -
  have "check_transformer w kind i t = Inr () \<longleftrightarrow> t \<in> Some ` ts_id ` set (wf_transformers w) \<union> {None}" for kind i t
    by (auto simp: check_transformer_def check_simps split: option.splits)
  then show ?thesis by (auto simp: check_transformers_def check_simps)
qed

lemma check_connected_ok [check_simps]:
  "check_connected w = Inr () \<longleftrightarrow> source_ids w \<subseteq> fst ` link_ids w \<and> sink_ids w \<subseteq> snd ` link_ids w"
  by (auto simp: check_connected_def check_simps source_ids_def sink_ids_def link_ids_def image_image)

lemma check_retries_ok [check_simps]:
  "check_retries shown w = Inr () \<longleftrightarrow> list_all retry_ok (map so_retry (wf_sources w) @ map si_retry (wf_sinks w))"
  by (auto simp: check_retries_def check_simps list_all_iff)

lemma check_mode_ok:
  "check_cluster_shape mode w = Inr () \<and> check_run_mode mode w = Inr () \<longleftrightarrow> mode_ok mode w"
proof -
  have nodes: "length (filter (\<lambda>(i, kind). kind = Processor_Node) (nodes_of w)) = length (wf_wasm w @ wf_plugin w)"
    by (simp add: nodes_of_def comp_def)
  have live: "(\<forall>x. find is_live_source (wf_sources w) \<noteq> Some x) \<longleftrightarrow> list_all (\<lambda>s. \<not> is_live_source s) (wf_sources w)"
    by (simp add: list_all_iff find_None_iff flip: not_Some_eq) (metis find_None_iff2 not_Some_eq)
  have windowed: "windowed_in_cluster w kind ps = Inr () \<longleftrightarrow> (\<forall>p \<in> set ps. ps_window p = None)" for kind ps
    by (auto simp: windowed_in_cluster_def find_None_iff find_Some_iff split: option.splits)
  show ?thesis
  proof (cases mode)
    case (Standalone m)
    then show ?thesis using live
      by (cases m) (auto simp: check_cluster_shape_def check_run_mode_def mode_ok_def check_simps Let_def split: option.splits)
  next
    case (Cluster k)
    have "length (wf_wasm w @ wf_plugin w) = 1 \<longleftrightarrow> (\<exists>p. wf_wasm w @ wf_plugin w = [p])"
      by (simp only: One_nat_def length_Suc_conv) auto
    then show ?thesis using Cluster unfolding check_cluster_shape_def check_run_mode_def mode_ok_def
      by (auto simp: check_simps nodes windowed Let_def append_eq_Cons_conv)
  qed
qed

lemma link_ends: "fst ` link_ids w = ln_from ` set (wf_links w)" "snd ` link_ids w = ln_to ` set (wf_links w)"
  by (simp_all add: link_ids_def image_image)

lemma check_link_ends_ok:
  assumes "distinct (map fst (nodes_of w))"
  shows "check_link_ends w l = Inr () \<longleftrightarrow> ln_from l \<noteq> ln_to l \<and> {ln_from l, ln_to l} \<subseteq> source_ids w \<union> processor_ids w \<union> sink_ids w"
proof -
  have "node_kind_of w i \<noteq> None \<longleftrightarrow> i \<in> source_ids w \<union> processor_ids w \<union> sink_ids w" for i
  proof -
    have "node_kind_of w i \<noteq> None \<longleftrightarrow> (\<exists>k. node_kind_of w i = Some k)" by auto
    also have "\<dots> \<longleftrightarrow> (\<exists>k. (i, k) \<in> set (nodes_of w))" by (simp add: node_kind_of_iff [OF assms])
    also have "\<dots> \<longleftrightarrow> i \<in> source_ids w \<union> processor_ids w \<union> sink_ids w" by (auto simp: nodes_of_set)
    finally show ?thesis .
  qed
  then show ?thesis by (simp add: check_link_ends_def check_simps)
qed

lemma check_link_kinds_ok:
  assumes "distinct (map fst (nodes_of w))"
  shows "check_link_kinds w l = Inr () \<longleftrightarrow> ln_to l \<notin> source_ids w \<and> ln_from l \<notin> sink_ids w"
  by (simp add: check_link_kinds_def check_simps node_kinds [OF assms])

lemma kinds_disjoint:
  assumes "distinct (map fst (nodes_of w))"
  shows "source_ids w \<inter> processor_ids w = {}" "source_ids w \<inter> sink_ids w = {}" "processor_ids w \<inter> sink_ids w = {}"
  using node_kinds [OF assms] by (metis disjoint_iff node_kind.distinct option.inject)+

lemma check_links_ok:
  assumes d: "distinct (map fst (nodes_of w))"
  shows "(\<forall>l \<in> set (wf_links w). check_link_ends w l = Inr ()) \<and>
      distinct (map (\<lambda>l. (ln_from l, ln_to l)) (wf_links w)) \<and>
      (\<forall>l \<in> set (wf_links w). check_link_kinds w l = Inr ()) \<and> acyclic (link_edge w) \<and> check_connected w = Inr () \<longleftrightarrow> links_ok w"
    (is "?checks \<longleftrightarrow> _")
proof -
  have kinds: "(\<forall>l \<in> set (wf_links w). check_link_ends w l = Inr ()) \<and> (\<forall>l \<in> set (wf_links w). check_link_kinds w l = Inr ()) \<longleftrightarrow>
      (\<forall>l \<in> set (wf_links w). ln_from l \<noteq> ln_to l) \<and> fst ` link_ids w \<subseteq> source_ids w \<union> processor_ids w \<and>
      snd ` link_ids w \<subseteq> processor_ids w \<union> sink_ids w"
    unfolding check_link_ends_ok [OF d] check_link_kinds_ok [OF d] link_ends using kinds_disjoint [OF d] by blast
  have "Field (link_ids w) \<subseteq> fst ` set (nodes_of w)"
    if "fst ` link_ids w \<subseteq> source_ids w \<union> processor_ids w" "snd ` link_ids w \<subseteq> processor_ids w \<union> sink_ids w"
    using that by (auto simp: Field_def nodes_of_set image_Un image_image Domain_fst Range_snd)
  then have acyc: "acyclic (link_edge w) \<longleftrightarrow> acyclic (link_ids w)"
    if "fst ` link_ids w \<subseteq> source_ids w \<union> processor_ids w" "snd ` link_ids w \<subseteq> processor_ids w \<union> sink_ids w"
    using acyclic_link_ids [OF d] that by blast
  have loops: "\<forall>l \<in> set (wf_links w). ln_from l \<noteq> ln_to l" if "acyclic (link_ids w)"
    using acyclic_no_loop [OF that] by (auto simp: link_ids_def)
  show ?thesis
    unfolding links_ok_def using kinds acyc loops by (auto simp only: check_connected_ok)
qed

lemma check_labels_all_ok:
  assumes d: "distinct (map fst (nodes_of w))" and from_nodes: "fst ` link_ids w \<subseteq> fst ` set (nodes_of w)"
  shows "(\<forall>l \<in> set (wf_links w). check_branch_id w l = Inr ()) \<and> (\<forall>l \<in> set (wf_links w). check_branch_start w l = Inr ()) \<and>
      (\<forall>node \<in> set (nodes_of w). check_labels w node = Inr ()) \<longleftrightarrow> labels_ok w"
proof -
  have bid: "check_branch_id w l = Inr () \<longleftrightarrow> (\<forall>b. ln_branch l = Some b \<longrightarrow> is_valid_id b)" for l
    by (auto simp: check_branch_id_def check_simps split: option.splits)
  have bstart: "check_branch_start w l = Inr () \<longleftrightarrow> (\<forall>b. ln_branch l = Some b \<longrightarrow> ln_from l \<in> processor_ids w)" for l
    by (auto simp: check_branch_start_def check_simps node_kinds [OF d] split: option.splits)
  have uniform: "(\<forall>node \<in> set (nodes_of w). check_labels w node = Inr ()) \<longleftrightarrow>
      (\<forall>l \<in> set (wf_links w). \<forall>l' \<in> set (wf_links w). ln_from l = ln_from l' \<longrightarrow> (ln_branch l = None \<longleftrightarrow> ln_branch l' = None))"
  proof -
    have one: "check_labels w node = Inr () \<longleftrightarrow> (\<forall>l \<in> set (wf_links w). \<forall>l' \<in> set (wf_links w).
        ln_from l = fst node \<longrightarrow> ln_from l' = fst node \<longrightarrow> (ln_branch l = None \<longleftrightarrow> ln_branch l' = None))" for node
      by (auto simp: check_labels_def check_simps Let_def list_ex_iff)
    have mem: "ln_from l \<in> fst ` set (nodes_of w)" if "l \<in> set (wf_links w)" for l
      using that from_nodes by (auto simp: link_ends)
    show ?thesis (is "?checks \<longleftrightarrow> ?uniform")
    proof
      assume all: ?checks
      show ?uniform
      proof (intro ballI impI)
        fix l l' assume l: "l \<in> set (wf_links w)" "l' \<in> set (wf_links w)" "ln_from l = ln_from l'"
        obtain node where "node \<in> set (nodes_of w)" "ln_from l = fst node" using mem [OF l(1)] by blast
        then show "ln_branch l = None \<longleftrightarrow> ln_branch l' = None" using all l one by metis
      qed
    next
      assume u: ?uniform
      show ?checks unfolding one
      proof (intro ballI impI)
        fix node :: "string \<times> node_kind" and l l'
        assume "l \<in> set (wf_links w)" "l' \<in> set (wf_links w)" "ln_from l = fst node" "ln_from l' = fst node"
        then show "ln_branch l = None \<longleftrightarrow> ln_branch l' = None" using u [rule_format, of l l'] by simp
      qed
    qed
  qed
  show ?thesis unfolding bid bstart uniform labels_ok_def
    by (simp only: all_conj_distrib ball_conj_distrib imp_conjR conj_assoc)
qed

lemma ids_checks: "nodes_of w \<noteq> [] \<and> check_ids w = Inr () \<and> check_unique_ids w Map.empty (declared_ids w) = Inr () \<longleftrightarrow> ids_ok w"
  by (simp add: check_simps ids_ok_def)

lemma links_checks:
  assumes "distinct (map fst (nodes_of w))"
  shows "check_each (check_link_ends w) (wf_links w) = Inr () \<and> check_distinct (\<lambda>l. (ln_from l, ln_to l)) msg {} (wf_links w) = Inr () \<and>
      check_each (check_link_kinds w) (wf_links w) = Inr () \<and> map_sum id (\<lambda>_. ()) (topological_order w) = Inr () \<and>
      check_connected w = Inr () \<longleftrightarrow> links_ok w"
  unfolding check_links_ok [OF assms, symmetric] by (simp only: check_each_ok check_distinct_ok topological_ok Int_empty_right simp_thms)

lemma labels_checks:
  assumes "distinct (map fst (nodes_of w))" "links_ok w"
  shows "check_each (check_branch_id w) (wf_links w) = Inr () \<and> check_each (check_branch_start w) (wf_links w) = Inr () \<and>
      check_each (check_labels w) (nodes_of w) = Inr () \<longleftrightarrow> labels_ok w"
proof -
  have "fst ` link_ids w \<subseteq> fst ` set (nodes_of w)" using assms(2) by (auto simp: links_ok_def nodes_of_set image_Un image_image)
  from check_labels_all_ok [OF assms(1) this] show ?thesis by (simp only: check_each_ok)
qed

lemma blocks_checks:
  "check_transformers w = Inr () \<and> check_retries shown w = Inr () \<and> check_each (validate_window_block i kind) (wf_wasm w) = Inr () \<and>
     check_each (validate_window_block i' kind') (wf_plugin w) = Inr () \<and> check_dlq w = Inr () \<longleftrightarrow> blocks_ok w"
  by (simp only: check_each_ok check_transformers_ok check_retries_ok validate_window_block_ok check_dlq_ok blocks_ok_def list_all_append)
    (simp only: list_all_iff conj_assoc)

lemma validate_workflow_holds: "validate_workflow shown mode w = Inr () \<longleftrightarrow> workflow_ok mode w"
proof -
  have checks: "validate_workflow shown mode w = Inr () \<longleftrightarrow> ids_ok w \<and>
     (check_each (check_link_ends w) (wf_links w) = Inr () \<and>
       check_distinct (\<lambda>l. (ln_from l, ln_to l)) (\<lambda>l. in_workflow w (link_text l @ '' is declared twice'')) {} (wf_links w) = Inr () \<and>
       check_each (check_link_kinds w) (wf_links w) = Inr () \<and> map_sum id (\<lambda>_. ()) (topological_order w) = Inr () \<and>
       check_connected w = Inr ()) \<and> mode_ok mode w \<and>
     (check_each (check_branch_id w) (wf_links w) = Inr () \<and> check_each (check_branch_start w) (wf_links w) = Inr () \<and>
       check_each (check_labels w) (nodes_of w) = Inr ()) \<and> blocks_ok w"
    unfolding ids_checks [symmetric] check_mode_ok [symmetric]
      blocks_checks [of w shown "wf_id w" "''wasm''" "wf_id w" "''plugin''", symmetric] validate_workflow_def
    by (simp only: in_order_ok list.set ball_simps(5,7) reject_if_ok conj_ac simp_thms)
  show ?thesis
  proof (cases "ids_ok w")
    case True
    then have d: "distinct (map fst (nodes_of w))" by (simp add: ids_ok_def declared_nodes)
    show ?thesis unfolding checks links_checks [OF d] workflow_ok_def using labels_checks [OF d] by blast
  qed (simp add: checks workflow_ok_def)
qed

text \<open>
  C11. The rules of a workflow accept it exactly when it is well-formed: valid and distinct ids,
  acyclic links without repetition from sources and processors to processors and sinks that leave
  no source and no sink unconnected, labels on the links of processors only and on all or none of
  a node's, the shape its mode asks for, and valid retry, window and dead-letter blocks.
\<close>

theorem validate_workflow_exact: "validate_workflow shown mode w = Inr () \<longleftrightarrow> workflow_ok mode w"
  by (rule validate_workflow_holds)

section \<open>Channels\<close>

definition sources_on :: "service_config \<Rightarrow> string \<Rightarrow> source_spec list" where
  "sources_on c name = filter (\<lambda>s. so_type s = ''ChannelSource'' \<and> channel_name (so_config s) = Some name)
     (concat (map wf_sources (sv_workflows c)))"

definition sinks_on :: "service_config \<Rightarrow> string \<Rightarrow> sink_spec list" where
  "sinks_on c name = filter (\<lambda>s. si_type s = ''ChannelSink'' \<and> channel_name (si_config s) = Some name)
     (concat (map wf_sinks (sv_workflows c)))"

definition channels_paired :: "service_config \<Rightarrow> bool" where
  "channels_paired c \<longleftrightarrow> (\<forall>name. length (sources_on c name) \<le> 1 \<and> length (sinks_on c name) = length (sources_on c name))"

definition halves_on :: "bool \<Rightarrow> string \<Rightarrow> (string \<times> string \<times> bool) list \<Rightarrow> nat" where
  "halves_on is_source name hs = length (filter (\<lambda>(n, _, b). n = name \<and> b = is_source) hs)"

definition taken :: "bool \<Rightarrow> channels \<Rightarrow> string \<Rightarrow> nat" where
  "taken is_source ch name = (case ch name of None \<Rightarrow> 0 | Some (s, k) \<Rightarrow> if (if is_source then s else k) = None then 0 else 1)"

lemma halves_on_simps [simp]:
  "halves_on b name [] = 0"
  "halves_on b name ((n, i, k) # hs) = (if n = name \<and> k = b then 1 else 0) + halves_on b name hs"
  "halves_on b name (hs @ hs') = halves_on b name hs + halves_on b name hs'"
  by (auto simp: halves_on_def)

lemma taken_update [simp]:
  "taken True (ch(n \<mapsto> (s, k))) name = (if n = name then (if s = None then 0 else 1) else taken True ch name)"
  "taken False (ch(n \<mapsto> (s, k))) name = (if n = name then (if k = None then 0 else 1) else taken False ch name)"
  by (auto simp: taken_def)

lemma pair_channels_step:
  "pair_channels ch ((n, i, b) # hs) =
     (if taken b ch n = 1 then Inl (Configuration (''channel '' @ quoted n @ '': more than one Channel'' @ (if b then ''Source'' else ''Sink'') @ '' declared''))
      else pair_channels (ch(n \<mapsto> (case ch n of None \<Rightarrow> if b then (Some i, None) else (None, Some i)
        | Some (s, k) \<Rightarrow> if b then (Some i, k) else (s, Some i)))) hs)"
  by (auto simp: taken_def split: option.splits)

lemma taken_step:
  "taken b ch n \<noteq> 1 \<Longrightarrow> taken b' (ch(n \<mapsto> (case ch n of None \<Rightarrow> if b then (Some i, None) else (None, Some i)
        | Some (s, k) \<Rightarrow> if b then (Some i, k) else (s, Some i)))) name = taken b' ch name + (if n = name \<and> b = b' then 1 else 0)"
  by (cases b; cases b') (auto simp: taken_def split: option.splits if_splits)

lemma taken_le: "taken b ch name \<le> 1"
  by (auto simp: taken_def split: option.splits)

lemma pair_channels_spec:
  "(case pair_channels ch hs of
      Inr ch' \<Rightarrow> (\<forall>b name. taken b ch' name = taken b ch name + halves_on b name hs)
    | Inl e \<Rightarrow> \<exists>b name. 1 < taken b ch name + halves_on b name hs)"
proof (induction hs arbitrary: ch)
  case (Cons h hs)
  obtain n i b where h: "h = (n, i, b)" by (cases h)
  show ?case
  proof (cases "taken b ch n = 1")
    case True
    then show ?thesis by (auto simp: h pair_channels_step simp del: pair_channels.simps intro!: exI [of _ b] exI [of _ n])
  next
    case False
    let ?ch = "ch(n \<mapsto> (case ch n of None \<Rightarrow> if b then (Some i, None) else (None, Some i)
        | Some (s, k) \<Rightarrow> if b then (Some i, k) else (s, Some i)))"
    have eq: "pair_channels ch (h # hs) = pair_channels ?ch hs" using False by (simp add: h pair_channels_step del: pair_channels.simps)
    have sum: "taken b' ?ch name + halves_on b' name hs = taken b' ch name + halves_on b' name (h # hs)" for b' name
      using taken_step [OF False, of b' i name] by (simp add: h)
    show ?thesis using Cons.IH [of ?ch] unfolding eq sum .
  qed
qed simp

lemma check_channel_ok: "check_channel ch name = Inr () \<longleftrightarrow> taken True ch name = taken False ch name"
  by (auto simp: check_channel_def taken_def split: option.splits)

lemma halves_on_concat: "halves_on b name (concat hss) = (\<Sum>hs \<leftarrow> hss. halves_on b name hs)"
  by (induction hss) auto

lemma halves_on_one:
  "halves_on b name (case t of True \<Rightarrow> (case m of None \<Rightarrow> [] | Some n \<Rightarrow> [(n, i, k)]) | False \<Rightarrow> []) =
     (if t \<and> m = Some name \<and> k = b then 1 else 0)"
  by (auto split: option.splits bool.splits)

lemma sum_indicator: "(\<Sum>x \<leftarrow> xs. if P x then 1 else 0) = length (filter P xs)"
  by (induction xs) auto

lemma halves_workflow:
  "halves_on True name (channel_halves w) = length (filter (\<lambda>s. so_type s = ''ChannelSource'' \<and> channel_name (so_config s) = Some name) (wf_sources w))"
  "halves_on False name (channel_halves w) = length (filter (\<lambda>s. si_type s = ''ChannelSink'' \<and> channel_name (si_config s) = Some name) (wf_sinks w))"
  by (simp_all add: channel_halves_def halves_on_concat comp_def halves_on_one sum_indicator del: halves_on_simps(1,2))

lemma length_filter_concat: "length (filter P (concat xss)) = (\<Sum>xs \<leftarrow> xss. length (filter P xs))"
  by (induction xss) auto

lemma halves_service:
  "halves_on True name (concat (map channel_halves (sv_workflows c))) = length (sources_on c name)"
  "halves_on False name (concat (map channel_halves (sv_workflows c))) = length (sinks_on c name)"
  by (simp_all add: halves_on_concat halves_workflow sources_on_def sinks_on_def length_filter_concat comp_def)

lemma halves_on_absent: "name \<notin> fst ` set hs \<Longrightarrow> halves_on b name hs = 0"
  by (induction hs) auto

lemma check_channels_ok:
  assumes shuffle: "\<And>xs. set (shuffle xs) = set xs"
  shows "check_channels shuffle c = Inr () \<longleftrightarrow> channels_paired c"
proof -
  let ?hs = "concat (map channel_halves (sv_workflows c))"
  have count: "channels_paired c \<longleftrightarrow> (\<forall>name. halves_on True name ?hs \<le> 1 \<and> halves_on False name ?hs = halves_on True name ?hs)"
    by (simp only: channels_paired_def halves_service)
  show ?thesis
  proof (cases "pair_channels Map.empty ?hs")
    case (Inl e)
    then obtain b name where "1 < taken b Map.empty name + halves_on b name ?hs"
      using pair_channels_spec [of Map.empty ?hs] by auto
    then have "\<not> (halves_on True name ?hs \<le> 1 \<and> halves_on False name ?hs = halves_on True name ?hs)"
      by (cases b) (auto simp: taken_def)
    then have "\<not> channels_paired c" unfolding count by blast
    then show ?thesis using Inl by (simp add: check_channels_def Let_def)
  next
    case (Inr ch)
    then have t: "taken b ch name = halves_on b name ?hs" for b name
      using pair_channels_spec [of Map.empty ?hs] by (simp add: taken_def)
    have "check_channels shuffle c = Inr () \<longleftrightarrow> (\<forall>name \<in> fst ` set ?hs. halves_on True name ?hs = halves_on False name ?hs)"
      using Inr shuffle by (simp add: check_channels_def Let_def check_simps check_channel_ok t)
    also have "\<dots> \<longleftrightarrow> (\<forall>name. halves_on True name ?hs = halves_on False name ?hs)"
      using halves_on_absent [of _ ?hs] by metis
    also have "\<dots> \<longleftrightarrow> channels_paired c" unfolding count using taken_le [of True ch] unfolding t by auto
    finally show ?thesis .
  qed
qed

section \<open>A well-formed service\<close>

text \<open>The shape of a cluster: its peers, its leases, and none of the blocks its runner ignores.\<close>

definition cluster_ok :: "cluster_config \<Rightarrow> service_config \<Rightarrow> bool" where
  "cluster_ok k c \<longleftrightarrow> distinct (map fst (cl_peers k)) \<and> sv_node_id c \<in> fst ` set (cl_peers k) \<and>
     min (3 * cl_election_timeout_ms k) (2 ^ 64 - 1) \<le> cl_lease_ttl_ms k \<and> cl_snapshot_log_interval k \<noteq> 0 \<and>
     length (sv_workflows c) = 1 \<and> sv_store c = None \<and> sv_flow_control c = no_block \<and> sv_heal c = no_heal_block \<and>
     list_all (\<lambda>w. wf_dlq w = None) (sv_workflows c)"

definition ratio_ok :: "rat \<Rightarrow> bool" where
  "ratio_ok r \<longleftrightarrow> 0 \<le> r \<and> r \<le> 1"

text \<open>What decides a field: the block of the node, then the block of the service.\<close>

definition deciding :: "('c \<Rightarrow> 'a option) \<Rightarrow> 'c \<Rightarrow> 'c \<Rightarrow> 'a option" where
  "deciding field l g = (if field l \<noteq> None then field l else field g)"

definition decided_or :: "'a \<Rightarrow> 'a option \<Rightarrow> 'a" where
  "decided_or d v = (case v of Some x \<Rightarrow> x | None \<Rightarrow> d)"

text \<open>
  A flow control block: a pinned size excludes a range in the same block, sizes and counts are
  positive, the range is not empty and holds the start, an adaptive source has an adjustment interval, a
  factor exceeds one and the threshold is a fraction. A size above \<^verbatim>\<open>usize::MAX\<close> is that maximum; the
  numbers are the defaults the documentation of the block names.
\<close>

definition flow_range :: "flow_config \<Rightarrow> flow_config \<Rightarrow> nat \<times> nat" where
  "flow_range l g = (min (decided_or 1024 (deciding fc_min_rows l g)) (2 ^ 64 - 1), min (decided_or 65536 (deciding fc_max_rows l g)) (2 ^ 64 - 1))"

definition flow_block_ok :: "flow_config \<Rightarrow> flow_config \<Rightarrow> bool" where
  "flow_block_ok l g \<longleftrightarrow> (case flow_range l g of (lo, hi) \<Rightarrow>
     (fc_rows l = None \<or> fc_min_rows l = None \<and> fc_max_rows l = None \<and> fc_start_rows l = None) \<and>
     deciding fc_min_rows l g \<noteq> Some 0 \<and> deciding fc_rows l g \<noteq> Some 0 \<and> deciding fc_min_samples_per_arm l g \<noteq> Some 0 \<and>
     (deciding fc_min_rows l g \<noteq> None \<or> deciding fc_max_rows l g \<noteq> None \<longrightarrow> lo \<le> hi) \<and>
     (\<forall>n. deciding fc_start_rows l g = Some n \<longrightarrow> min n (2 ^ 64 - 1) \<in> {lo..hi}) \<and>
     (deciding fc_rows l g = None \<and> deciding fc_enabled l g \<noteq> Some False \<longrightarrow> deciding fc_adjust_interval_ms l g \<noteq> Some 0) \<and>
     (\<forall>x. deciding fc_growth_factor l g = Some x \<longrightarrow> 1 < x) \<and> (\<forall>x. deciding fc_backoff_factor l g = Some x \<longrightarrow> 1 < x) \<and>
     (\<forall>x. deciding fc_improve_threshold l g = Some x \<longrightarrow> 0 \<le> x \<and> x < 1))"

text \<open>
  A heal block: at least one failure precedes a rebuild, the first delay is positive and not above the
  longest one, delays do not shrink, and the jitter is a fraction.
\<close>

definition heal_block_ok :: "heal_config \<Rightarrow> heal_config \<Rightarrow> bool" where
  "heal_block_ok l g \<longleftrightarrow> deciding hc_after_failures l g \<noteq> Some 0 \<and> deciding hc_base_delay_ms l g \<noteq> Some 0 \<and>
     (\<forall>x. deciding hc_multiplier l g = Some x \<longrightarrow> 1 \<le> x) \<and> (\<forall>x. deciding hc_jitter l g = Some x \<longrightarrow> 0 \<le> x \<and> x \<le> 1) \<and>
     decided_or 1000 (deciding hc_base_delay_ms l g) \<le> decided_or 60000 (deciding hc_max_delay_ms l g)"

text \<open>The blocks of the service, and every block of a source or a sink with the service's behind it.\<close>

definition policies_ok :: "service_config \<Rightarrow> bool" where
  "policies_ok c \<longleftrightarrow> flow_block_ok (sv_flow_control c) no_block \<and> heal_block_ok (sv_heal c) no_heal_block \<and>
     (\<forall>w \<in> set (sv_workflows c).
        (\<forall>s \<in> set (wf_sources w). (\<forall>l. so_flow s = Some l \<longrightarrow> flow_block_ok l (sv_flow_control c)) \<and>
          (\<forall>l. so_heal s = Some l \<longrightarrow> heal_block_ok l (sv_heal c))) \<and>
        (\<forall>k \<in> set (wf_sinks w). \<forall>l. si_heal k = Some l \<longrightarrow> heal_block_ok l (sv_heal c)))"

lemma opt_or_deciding: "opt_or (f l) (f g) = deciding f l g"
  by (auto simp: opt_or_def deciding_def split: option.split)

lemma factor_checked: "check_factor shown what key f = Inr () \<longleftrightarrow> (\<forall>x. f = Some x \<longrightarrow> 1 < x)"
  by (auto simp: check_factor_def not_le split: option.split)

text \<open>The two validators accept exactly the well-formed blocks.\<close>

lemma if_Inl_ok: "(if b then Inl e else r) = Inr () \<longleftrightarrow> \<not> b \<and> r = Inr ()"
  by simp

lemma checks_then_ok: "res_bind a (\<lambda>_. res_bind b (\<lambda>_. r)) = Inr () \<longleftrightarrow> a = Inr () \<and> b = Inr () \<and> r = Inr ()"
  for a b r :: "unit saci_result"
  by (auto simp: res_bind_eq_Inr)

lemma threshold_ok:
  "(case th of Some x \<Rightarrow> if \<not> (0 \<le> x \<and> x < (1 :: rat)) then Inl (e x) else if z then Inl e' else Inr () | None \<Rightarrow> if z then Inl e' else Inr ()) = Inr () \<longleftrightarrow>
     (\<forall>x. th = Some x \<longrightarrow> 0 \<le> x \<and> x < 1) \<and> \<not> z"
  by (cases th) auto

lemma enabled_default: "unwrap_or en True \<longleftrightarrow> en \<noteq> Some False"
  by (cases en) (simp_all add: unwrap_or_def)

lemma validate_flow_ok [check_simps]: "validate_flow shown l g what = Inr () \<longleftrightarrow> flow_block_ok l g"
proof -
  define mn where "mn = deciding fc_min_rows l g"
  define mx where "mx = deciding fc_max_rows l g"
  define st where "st = deciding fc_start_rows l g"
  define lo where "lo = min (decided_or 1024 mn) (2 ^ 64 - 1)"
  define hi where "hi = min (decided_or 65536 mx) (2 ^ 64 - 1)"
  have sizes: "declared_rows mn (min_rows default_settings) = lo" "declared_rows mx (max_rows default_settings) = hi"
    by (auto simp: lo_def hi_def declared_rows_def decided_or_def default_settings_def USIZE_MAX_def split: option.split)
  have range: "flow_range l g = (lo, hi)" by (simp add: flow_range_def lo_def hi_def mn_def mx_def)
  have pos: "max lo 1 = lo" if "mn \<noteq> Some 0" using that by (auto simp: lo_def decided_or_def split: option.splits)
  have untouched: "lo \<le> hi" if "mn = None" "mx = None" using that by (simp add: lo_def hi_def decided_or_def)
  have range_ok: "\<not> ((mn \<noteq> None \<or> mx \<noteq> None) \<and> hi < max lo 1) \<longleftrightarrow> lo \<le> hi" if "mn \<noteq> Some 0"
    using pos [OF that] untouched by auto
  have start: "\<not> (st \<noteq> None \<and> (declared_rows st (start_rows default_settings) < max lo 1 \<or> max hi (max lo 1) < declared_rows st (start_rows default_settings))) \<longleftrightarrow>
      (\<forall>n. st = Some n \<longrightarrow> min n (2 ^ 64 - 1) \<in> {lo..hi})" if "mn \<noteq> Some 0" "lo \<le> hi"
    unfolding pos [OF that(1)] max_absorb1 [OF that(2)] by (cases st) (auto simp: declared_rows_def USIZE_MAX_def)
  have order: "(mn \<noteq> None \<or> mx \<noteq> None \<longrightarrow> lo \<le> hi) \<longleftrightarrow> lo \<le> hi" using untouched by auto
  show ?thesis
    unfolding validate_flow_def opt_or_deciding Let_def mn_def [symmetric] mx_def [symmetric] st_def [symmetric] sizes flow_block_ok_def range prod.case
      if_Inl_ok checks_then_ok factor_checked threshold_ok order enabled_default
  proof (cases "mn \<noteq> Some 0 \<and> lo \<le> hi", goal_cases)
    case 1
    then have c: "mn \<noteq> Some 0" "lo \<le> hi" by blast+
    show ?case unfolding range_ok [OF c(1)] start [OF c] by (simp only: de_Morgan_conj de_Morgan_disj not_not imp_conv_disj conj_ac disj_ac)
  next
    case 2
    then show ?case using range_ok by blast
  qed
qed

lemma validate_heal_ok [check_simps]: "validate_heal shown l g what = Inr () \<longleftrightarrow> heal_block_ok l g"
proof -
  have jitter: "0 \<le> rnd (1 / 10)" "rnd (1 / 10) \<le> 1" by code_simp+
  show ?thesis
    using jitter by (auto simp: validate_heal_def Let_def resolve_heal_def opt_or_deciding heal_block_ok_def default_heal_def saturating_u32_def
      unwrap_or_def decided_or_def not_less not_le min_def split: option.splits)
qed

lemma policies_checked:
  "validate_flow shown (sv_flow_control c) no_block a = Inr () \<and> validate_heal shown (sv_heal c) no_heal_block b = Inr () \<and>
     check_flow_blocks shown c = Inr () \<and> check_heal_blocks shown c = Inr () \<longleftrightarrow> policies_ok c"
proof -
  have "check_flow_blocks shown c = Inr () \<longleftrightarrow> (\<forall>w \<in> set (sv_workflows c). \<forall>s \<in> set (wf_sources w). \<forall>l. so_flow s = Some l \<longrightarrow>
      flow_block_ok l (sv_flow_control c))"
    by (auto simp: check_flow_blocks_def check_simps split: option.splits)
  moreover have "heal_block shown c what h = Inr () \<longleftrightarrow> (\<forall>l. h = Some l \<longrightarrow> heal_block_ok l (sv_heal c))" for what h
    by (auto simp: heal_block_def check_simps split: option.splits)
  then have "check_heal_blocks shown c = Inr () \<longleftrightarrow> (\<forall>w \<in> set (sv_workflows c).
      (\<forall>s \<in> set (wf_sources w). \<forall>l. so_heal s = Some l \<longrightarrow> heal_block_ok l (sv_heal c)) \<and>
      (\<forall>k \<in> set (wf_sinks w). \<forall>l. si_heal k = Some l \<longrightarrow> heal_block_ok l (sv_heal c)))"
    by (simp add: check_heal_blocks_def check_simps)
  ultimately show ?thesis unfolding policies_ok_def validate_flow_ok validate_heal_ok by blast
qed

definition service_ok :: "(string \<Rightarrow> string + unit) \<Rightarrow> service_config \<Rightarrow> bool" where
  "service_ok parse_addr c \<longleftrightarrow> sv_data_dir c \<noteq> [] \<and>
     ratio_ok (ob_sample_ratio (sv_observability c)) \<and> ratio_ok (ob_error_sample_ratio (sv_observability c)) \<and>
     list_all (workflow_ok (sv_mode c)) (sv_workflows c) \<and> distinct (map wf_id (sv_workflows c)) \<and>
     distinct (concat (map (map fst \<circ> declared_ids) (sv_workflows c))) \<and> channels_paired c \<and>
     (case sv_mode c of Cluster k \<Rightarrow> cluster_ok k c | Standalone _ \<Rightarrow> True) \<and>
     (ht_disabled (sv_http c) \<or> parse_addr (ht_bind (sv_http c)) = Inr ()) \<and>
     (case sv_store c of Some (path, _) \<Rightarrow> path \<noteq> [] | None \<Rightarrow> True) \<and> policies_ok c"

lemma validate_observability_ok [check_simps]:
  "validate_observability ob = Inr () \<longleftrightarrow> ratio_ok (ob_sample_ratio ob) \<and> ratio_ok (ob_error_sample_ratio ob)"
  by (simp add: validate_observability_def check_simps ratio_ok_def)

lemma check_owners_service:
  "check_owners Map.empty (all_ids c) = Inr () \<longleftrightarrow> distinct (concat (map (map fst \<circ> declared_ids) (sv_workflows c)))"
proof -
  have "map fst (all_ids c) = concat (map (map fst \<circ> declared_ids) (sv_workflows c))"
    by (simp add: all_ids_def map_concat comp_def case_prod_unfold)
  then show ?thesis by (simp add: check_simps)
qed

lemma check_cluster_ok:
  "check_cluster c = Inr () \<longleftrightarrow> (case sv_mode c of Standalone _ \<Rightarrow> True | Cluster k \<Rightarrow> distinct (map fst (cl_peers k)) \<and>
     sv_node_id c \<in> fst ` set (cl_peers k) \<and> min (3 * cl_election_timeout_ms k) (2 ^ 64 - 1) \<le> cl_lease_ttl_ms k \<and>
     cl_snapshot_log_interval k \<noteq> 0)"
  by (auto simp: check_cluster_def check_simps Let_def mult.commute not_less split: service_mode.splits)

lemma cluster_workflows:
  "list_all (workflow_ok (Cluster k)) (sv_workflows c) \<Longrightarrow> check_flow_blocks shown c = Inr () \<and> check_heal_blocks shown c = Inr ()"
  by (auto simp: check_flow_blocks_def check_heal_blocks_def check_simps list_all_iff workflow_ok_def mode_ok_def)

lemma find_reject_ok:
  "(case find P xs of Some x \<Rightarrow> reject_if b (msg x) | None \<Rightarrow> Inr ()) = Inr () \<longleftrightarrow> (b \<longrightarrow> list_all (\<lambda>x. \<not> P x) xs)"
  by (induction xs) (auto simp: check_simps)

lemma find_dlq_ok:
  "(case find (\<lambda>w. wf_dlq w \<noteq> None) (sv_workflows c) of Some w \<Rightarrow> reject_if (is_cluster c) (msg w) | None \<Rightarrow> Inr ()) = Inr () \<longleftrightarrow>
     (is_cluster c \<longrightarrow> list_all (\<lambda>w. wf_dlq w = None) (sv_workflows c))"
  unfolding find_reject_ok by simp

lemma http_ok:
  "(if d then Inr () else case r of Inl e \<Rightarrow> Inl (Configuration (msg e)) | Inr _ \<Rightarrow> Inr ()) = Inr () \<longleftrightarrow> d \<or> r = Inr ()"
  by (auto split: sum.splits)

lemma store_ok:
  "(case st of Some (path, b) \<Rightarrow> reject_if (path = []) m | None \<Rightarrow> Inr ()) = Inr () \<longleftrightarrow>
     (case st of Some (path, _) \<Rightarrow> path \<noteq> [] | None \<Rightarrow> True)"
  by (auto simp: check_simps split: option.splits)

text \<open>
  C10. Validation accepts a service exactly when it is well-formed: every workflow is, workflow and
  node ids are unique across the service, every channel name has one source and one sink or
  neither, a cluster has the shape and the lease bound its runner needs, and the address, the
  store path, the ratios and the flow and heal policies are valid. The hash map may yield the
  channel names in any order.
\<close>

theorem validate_service_exact:
  assumes shuffle: "\<And>xs. set (shuffle xs) = set xs"
  shows "validate_service shown parse_addr shuffle c = Inr () \<longleftrightarrow> service_ok parse_addr c"
proof -
  have workflows: "check_each (validate_workflow shown (sv_mode c)) (sv_workflows c) = Inr () \<longleftrightarrow>
      list_all (workflow_ok (sv_mode c)) (sv_workflows c)"
    by (simp add: check_simps validate_workflow_holds list_all_iff)
  have cluster: "check_cluster c = Inr () \<and> \<not> (is_cluster c \<and> length (sv_workflows c) \<noteq> 1) \<and> \<not> (is_cluster c \<and> sv_store c \<noteq> None) \<and>
      \<not> (is_cluster c \<and> sv_flow_control c \<noteq> no_block) \<and> \<not> (is_cluster c \<and> sv_heal c \<noteq> no_heal_block) \<and>
      (is_cluster c \<longrightarrow> list_all (\<lambda>w. wf_dlq w = None) (sv_workflows c)) \<longleftrightarrow>
      (case sv_mode c of Cluster k \<Rightarrow> cluster_ok k c | Standalone _ \<Rightarrow> True)"
    unfolding check_cluster_ok cluster_ok_def is_cluster_def by (cases "sv_mode c"; cases "sv_store c") auto
  show ?thesis
    unfolding service_ok_def workflows [symmetric] cluster [symmetric] policies_checked [of shown c "''flow_control''" "''heal''", symmetric]
      check_channels_ok [OF shuffle, symmetric] check_owners_service [symmetric] validate_service_def
    by (simp only: in_order_ok list.set ball_simps(5,7) reject_if_ok validate_observability_ok find_dlq_ok http_ok store_ok
        check_distinct_ok Int_empty_right conj_ac simp_thms)
qed

text \<open>Two workflows joined by the channel \<open>bus\<close>.\<close>

definition sample_source :: "string \<Rightarrow> string \<Rightarrow> source_spec" where
  "sample_source i t = \<lparr>so_id = i, so_name = None, so_type = t, so_transformer = None, so_component = ''Row'', so_retry = default_retry,
     so_heal = None, so_flow = None, so_config = Cv_Object [(''name'', Cv_String ''bus'')]\<rparr>"

definition sample_sink :: "string \<Rightarrow> string \<Rightarrow> sink_spec" where
  "sample_sink i t = \<lparr>si_id = i, si_name = None, si_type = t, si_transformer = None, si_component = ''Row'', si_retry = default_retry,
     si_heal = None, si_config = Cv_Object [(''name'', Cv_String ''bus'')]\<rparr>"

definition sample_processor :: "string \<Rightarrow> processor_spec" where
  "sample_processor i = \<lparr>ps_id = i, ps_name = None, ps_artifact = None, ps_sha3_256 = None, ps_config = [],
     ps_window = Some \<lparr>wn_spec = Tumbling 1000 0, wn_time_field = ''ts'', wn_key_fields = [], wn_lateness = 0\<rparr>\<rparr>"

definition sample_link :: "string \<Rightarrow> string \<Rightarrow> string option \<Rightarrow> link_spec" where
  "sample_link a b branch = \<lparr>ln_from = a, ln_to = b, ln_branch = branch\<rparr>"

definition sample_service :: service_config where
  "sample_service = \<lparr>sv_node_id = 1, sv_data_dir = ''d'', sv_mode = Standalone One_Shot, sv_store = None,
     sv_workflows =
       [\<lparr>wf_id = ''in'', wf_name = None, wf_transformers = [], wf_sources = [sample_source ''s'' ''CsvSource''], wf_wasm = [sample_processor ''p''],
         wf_plugin = [], wf_sinks = [sample_sink ''k'' ''ChannelSink'', sample_sink ''dead'' ''CsvSink''],
         wf_links = [sample_link ''p'' ''k'' (Some ''ok''), sample_link ''s'' ''p'' None, sample_link ''p'' ''dead'' (Some ''bad'')],
         wf_dlq = Some default_dlq\<rparr>,
        \<lparr>wf_id = ''out'', wf_name = None, wf_transformers = [], wf_sources = [sample_source ''s2'' ''ChannelSource''], wf_wasm = [],
         wf_plugin = [], wf_sinks = [sample_sink ''k2'' ''CsvSink''], wf_links = [sample_link ''s2'' ''k2'' None], wf_dlq = None\<rparr>],
     sv_http = \<lparr>ht_bind = ''0.0.0.0:8080'', ht_disabled = False, ht_control = True\<rparr>,
     sv_observability = \<lparr>ob_sample_ratio = 1, ob_error_sample_ratio = 1\<rparr>,
     sv_flow_control = no_block, sv_heal = no_heal_block, sv_variables = []\<rparr>"

theorem validate_service_exact_witness:
  "validate_service (\<lambda>_. []) (\<lambda>_. Inr ()) rev sample_service = Inr () \<and> service_ok (\<lambda>_. Inr ()) sample_service"
proof -
  have "validate_service (\<lambda>_. []) (\<lambda>_. Inr ()) rev sample_service = Inr ()" by code_simp
  then show ?thesis using validate_service_exact [of rev "\<lambda>_. []" "\<lambda>_. Inr ()" sample_service] by simp
qed

end
