(* ===== verification/Workflow_Graph.thy ===== *)
theory Workflow_Graph
  imports Service_Config
begin

text \<open>
  The nodes of a built workflow (\<^verbatim>\<open>service/builder.rs\<close>) and the rules their links must meet
  (\<^verbatim>\<open>service/validation.rs\<close>). A node is its schema or its declared components: a source or sink is
  the fields of its schema, a processor the components it declares and the fields of its template.
  An Arrow type other than the two the window rule accepts is its \<^verbatim>\<open>Debug\<close> text. A panic is
  \<open>None\<close>.
\<close>

section \<open>Nodes\<close>

datatype arrow_type = Arrow_Int64 | Arrow_Timestamp string "string option" | Arrow_Other string

record arrow_field =
  af_name :: string
  af_type :: arrow_type
  af_nullable :: bool
  af_metadata :: "(string \<times> string) list"

type_synonym arrow_fields = "arrow_field list"

record runtime_shape =
  rt_components :: "string list"
  rt_template :: "(string \<times> arrow_fields) list"

datatype built_kind = Built_Source arrow_fields | Built_Processor runtime_shape string | Built_Sink arrow_fields

record built_edge =
  be_node :: nat
  be_branch :: "string option"

text \<open>\<open>bn_healed\<close>: the node carries a recovered flag.\<close>

record built_node =
  bn_id :: string
  bn_name :: "string option"
  bn_type_name :: string
  bn_component :: "string option"
  bn_kind :: built_kind
  bn_downstream :: "built_edge list"
  bn_artifact :: "string option"
  bn_healed :: bool
  bn_window :: "window_config option"

text \<open>Whether a routing decision selects an edge.\<close>

definition edge_selected :: "string list option \<Rightarrow> string option \<Rightarrow> bool" where
  "edge_selected routes branch =
     (case routes of
        None \<Rightarrow> True
      | Some rs \<Rightarrow> (case branch of Some name \<Rightarrow> list_ex (\<lambda>r. r = name) rs | None \<Rightarrow> False))"

section \<open>Checks that may panic\<close>

type_synonym check = "unit saci_result option"

definition pass :: check where "pass = Some (Inr ())"

definition refuse_graph :: "string \<Rightarrow> string \<Rightarrow> check" where
  "refuse_graph workflow_id msg = Some (Inl (Configuration (''workflow '' @ quoted workflow_id @ '': '' @ msg)))"

definition then_check :: "check \<Rightarrow> check \<Rightarrow> check" where
  "then_check c d = (case c of None \<Rightarrow> None | Some (Inl e) \<Rightarrow> Some (Inl e) | Some (Inr _) \<Rightarrow> d)"

fun check_list :: "('a \<Rightarrow> check) \<Rightarrow> 'a list \<Rightarrow> check" where
  "check_list f [] = pass"
| "check_list f (x # xs) = then_check (f x) (check_list f xs)"

section \<open>The rules of the links\<close>

fun declared_of :: "built_kind \<Rightarrow> string list option" where
  "declared_of (Built_Processor r _) = Some (rt_components r)"
| "declared_of _ = None"

definition fields_of :: "runtime_shape \<Rightarrow> string \<Rightarrow> arrow_fields option" where
  "fields_of r component = map_of (rt_template r) component"

text \<open>The nodes an edge of which leads to node \<open>i\<close>, once for each edge.\<close>

definition inbound :: "built_node list \<Rightarrow> nat \<Rightarrow> nat list" where
  "inbound nodes i =
     concat (map (\<lambda>j. map (\<lambda>_. j) (filter (\<lambda>e. be_node e = i) (bn_downstream (nodes ! j)))) [0..<length nodes])"

definition on_link :: "built_node \<Rightarrow> built_node \<Rightarrow> string \<Rightarrow> string" where
  "on_link f t msg = ''link '' @ quoted (bn_id f) @ '' -> '' @ quoted (bn_id t) @ '': '' @ msg"

definition schema_differs :: "string \<Rightarrow> string \<Rightarrow> built_node \<Rightarrow> string \<Rightarrow> built_node \<Rightarrow> string" where
  "schema_differs component fkind f tkind t = on_link f t (''component '' @ quoted component @ '' schema differs between '' @
     fkind @ '' '' @ quoted (bn_id f) @ '' and '' @ tkind @ '' '' @ quoted (bn_id t))"

definition validate_edge :: "string \<Rightarrow> built_node \<Rightarrow> built_node \<Rightarrow> check" where
  "validate_edge wid f t =
     (case (bn_kind f, bn_kind t) of
        (Built_Source schema, Built_Processor r _) \<Rightarrow>
          (case bn_component f of
             None \<Rightarrow> None
           | Some component \<Rightarrow>
               if rt_components r = [] then pass
               else if component \<notin> set (rt_components r)
               then refuse_graph wid (on_link f t (''processor '' @ quoted (bn_id t) @ '' does not declare component '' @
                 quoted component @ '', which source '' @ quoted (bn_id f) @ '' produces''))
               else (case fields_of r component of
                   Some fs \<Rightarrow> if schema \<noteq> fs then refuse_graph wid (schema_differs component ''source'' f ''processor'' t) else pass
                 | None \<Rightarrow> pass))
      | (Built_Source schema, Built_Sink sschema) \<Rightarrow>
          if schema \<noteq> sschema
          then refuse_graph wid (on_link f t ''source and sink schemas differ; a source-to-sink link has no processor to reconcile them'')
          else pass
      | (Built_Processor up _, Built_Processor down _) \<Rightarrow>
          if rt_components up = [] \<or> rt_components down = [] then pass
          else check_list (\<lambda>component.
            if component \<notin> set (rt_components up)
            then refuse_graph wid (on_link f t (''processor '' @ quoted (bn_id t) @ '' declares component '' @ quoted component @
              '', which upstream processor '' @ quoted (bn_id f) @ '' does not; a processor-to-processor link must deliver '' @
              ''every component the downstream processor declares''))
            else if fields_of up component \<noteq> fields_of down component
            then refuse_graph wid (schema_differs component ''processor'' f ''processor'' t)
            else pass) (rt_components down)
      | (Built_Processor up _, Built_Sink sschema) \<Rightarrow>
          (case bn_component t of
             None \<Rightarrow> None
           | Some component \<Rightarrow>
               if rt_components up = [] then pass
               else if component \<notin> set (rt_components up)
               then refuse_graph wid (on_link f t (''processor '' @ quoted (bn_id f) @ '' does not declare component '' @
                 quoted component @ '', which sink '' @ quoted (bn_id t) @ '' reads''))
               else (case fields_of up component of
                   Some fs \<Rightarrow> if sschema \<noteq> fs then refuse_graph wid (schema_differs component ''processor'' f ''sink'' t) else pass
                 | None \<Rightarrow> pass))
      | _ \<Rightarrow> refuse_graph wid (''link '' @ quoted (bn_id f) @ '' -> '' @ quoted (bn_id t) @
          '' connects node kinds a validated workflow cannot produce; validate the config before building it''))"

section \<open>The rules of a processor\<close>

definition is_processor :: "built_node \<Rightarrow> bool" where
  "is_processor n = (case bn_kind n of Built_Processor _ _ \<Rightarrow> True | _ \<Rightarrow> False)"

definition is_source :: "built_node \<Rightarrow> bool" where
  "is_source n = (case bn_kind n of Built_Source _ \<Rightarrow> True | _ \<Rightarrow> False)"

definition is_sink :: "built_node \<Rightarrow> bool" where
  "is_sink n = (case bn_kind n of Built_Sink _ \<Rightarrow> True | _ \<Rightarrow> False)"

text \<open>The components the edges of a node consume.\<close>

definition produced :: "built_node list \<Rightarrow> built_node \<Rightarrow> string set" where
  "produced nodes n =
     (\<Union>e \<in> set (bn_downstream n). case bn_kind (nodes ! be_node e) of
        Built_Sink _ \<Rightarrow> set_option (bn_component (nodes ! be_node e))
      | Built_Processor r _ \<Rightarrow> set (rt_components r)
      | Built_Source _ \<Rightarrow> {})"

definition validate_processor_coverage :: "string \<Rightarrow> built_node list \<Rightarrow> nat \<Rightarrow> check" where
  "validate_processor_coverage wid nodes i =
     (let ins = inbound nodes i
      in if ins = [] then pass
         else (case declared_of (bn_kind (nodes ! i)) of
            None \<Rightarrow> None
          | Some components \<Rightarrow>
              if components = [] then pass
              else if list_ex (\<lambda>j. is_processor (nodes ! j)) ins then pass
              else (let delivered = \<Union> (set (map (\<lambda>j. set_option (bn_component (nodes ! j))) ins))
                in check_list (\<lambda>component.
                  if component \<notin> delivered \<and> component \<notin> produced nodes (nodes ! i)
                  then refuse_graph wid (''processor '' @ quoted (bn_id (nodes ! i)) @ '' declares component '' @ quoted component @
                    '' but no inbound link delivers it and no outbound edge consumes it'')
                  else pass) components)))"

fun arrow_type_text :: "arrow_type \<Rightarrow> string" where
  "arrow_type_text Arrow_Int64 = ''Int64''"
| "arrow_type_text (Arrow_Timestamp u tz) = ''Timestamp''"
| "arrow_type_text (Arrow_Other s) = s"

text \<open>What the inbound links of a windowed node deliver; an inbound sink does not occur.\<close>

fun delivered_by :: "built_node list \<Rightarrow> nat list \<Rightarrow> (string \<times> arrow_fields) list option" where
  "delivered_by nodes [] = Some []"
| "delivered_by nodes (j # js) =
     (case bn_kind (nodes ! j) of
        Built_Source schema \<Rightarrow>
          (case bn_component (nodes ! j) of
             None \<Rightarrow> None
           | Some component \<Rightarrow> map_option ((#) (component, schema)) (delivered_by nodes js))
      | Built_Processor r _ \<Rightarrow>
          map_option ((@) (concat (map (\<lambda>c. case fields_of r c of Some fs \<Rightarrow> [(c, fs)] | None \<Rightarrow> []) (rt_components r))))
            (delivered_by nodes js)
      | Built_Sink _ \<Rightarrow> None)"

definition check_time_field :: "string \<Rightarrow> string \<Rightarrow> string \<Rightarrow> string \<times> arrow_fields \<Rightarrow> check" where
  "check_time_field wid i time_field d =
     (case find (\<lambda>f. af_name f = time_field) (snd d) of
        None \<Rightarrow> refuse_graph wid (''processor '' @ quoted i @ '' declares window time_field '' @ quoted time_field @
          '' but component '' @ quoted (fst d) @ '' delivered by an inbound link has no such field'')
      | Some f \<Rightarrow>
          (case af_type f of
             Arrow_Int64 \<Rightarrow> pass
           | Arrow_Timestamp _ _ \<Rightarrow> pass
           | other \<Rightarrow> refuse_graph wid (''processor '' @ quoted i @ '' declares window time_field '' @ quoted time_field @
               '' on component '' @ quoted (fst d) @ '' as '' @ arrow_type_text other @
               '', but the host watermark tracker reads Int64 milliseconds or an Arrow timestamp type'')))"

definition validate_node_window :: "string \<Rightarrow> built_node list \<Rightarrow> nat \<Rightarrow> window_config \<Rightarrow> check" where
  "validate_node_window wid nodes i win =
     (let ins = inbound nodes i
      in if ins = [] then pass
         else if (case declared_of (bn_kind (nodes ! i)) of None \<Rightarrow> True | Some cs \<Rightarrow> cs = []) then pass
         else (case delivered_by nodes ins of
            None \<Rightarrow> None
          | Some delivered \<Rightarrow> check_list (check_time_field wid (bn_id (nodes ! i)) (wn_time_field win)) delivered))"

text \<open>
  \<^verbatim>\<open>validate_workflow_graph\<close>. The index of an edge is used unchecked; \<open>windows\<close> is the feature.
\<close>

definition validate_workflow_graph :: "bool \<Rightarrow> string \<Rightarrow> built_node list \<Rightarrow> check" where
  "validate_workflow_graph windows wid nodes =
     (if list_ex (\<lambda>n. list_ex (\<lambda>e. length nodes \<le> be_node e) (bn_downstream n)) nodes then None
      else then_check (check_list (\<lambda>n. check_list (\<lambda>e. validate_edge wid n (nodes ! be_node e)) (bn_downstream n)) nodes)
        (then_check (check_list (\<lambda>i. if is_processor (nodes ! i) then validate_processor_coverage wid nodes i else pass) [0..<length nodes])
          (if windows then check_list (\<lambda>i. case bn_window (nodes ! i) of
              None \<Rightarrow> pass | Some win \<Rightarrow> validate_node_window wid nodes i win) [0..<length nodes]
           else pass)))"

section \<open>Fingerprint\<close>

text \<open>Eight hexadecimal digits, as \<^verbatim>\<open>{:08x}\<close> prints a \<^verbatim>\<open>u32\<close>.\<close>

definition hex8 :: "nat \<Rightarrow> string" where
  "hex8 n = map (\<lambda>i. ''0123456789abcdef'' ! (n div 16 ^ i mod 16)) [7, 6, 5, 4, 3, 2, 1, 0]"

definition validate_schema_fingerprint :: "nat \<Rightarrow> nat option \<Rightarrow> unit saci_result" where
  "validate_schema_fingerprint actual persisted =
     (case persisted of
        None \<Rightarrow> Inr ()
      | Some stored \<Rightarrow>
          if stored = actual then Inr ()
          else Inl (Configuration (''schema fingerprint mismatch: the pipeline declares '' @ hex8 actual @
            '' but this node'' @ [CHR 0x27] @ ''s persisted checkpoints were written with '' @ hex8 stored @
            ''. The deployed pipeline'' @ [CHR 0x27] @ ''s component schemas changed. Either restore the previous pipeline '' @
            ''or clear node.data_dir before starting with the new schema.'')))"

section \<open>Capabilities\<close>

record features =
  ft_wasm :: bool
  ft_plugin :: bool
  ft_windows :: bool
  ft_cluster :: bool

definition capability_error :: "string \<Rightarrow> string \<Rightarrow> string \<Rightarrow> saci_error" where
  "capability_error subject needs feature = Configuration (subject @ '' needs the '' @ needs @
     '', which this binary was built without, so rebuild or reinstall with `--features '' @ feature @ ''`'')"

definition missing_wasm_host_error :: "string \<Rightarrow> string \<Rightarrow> saci_error" where
  "missing_wasm_host_error node_id workflow_id =
     capability_error (''workflow '' @ quoted workflow_id @ '': wasm node '' @ quoted node_id) ''wasmtime processor host'' ''wasm''"

definition missing_plugin_host_error :: "string \<Rightarrow> string \<Rightarrow> saci_error" where
  "missing_plugin_host_error node_id workflow_id =
     capability_error (''workflow '' @ quoted workflow_id @ '': plugin node '' @ quoted node_id) ''native plugin host'' ''plugin''"

definition missing_windows_engine_error :: "string \<Rightarrow> string \<Rightarrow> string \<Rightarrow> saci_error" where
  "missing_windows_engine_error kind node_id workflow_id =
     capability_error (''workflow '' @ quoted workflow_id @ '': the `window` block on '' @ kind @ '' node '' @ quoted node_id)
       ''windowing engine'' ''windows''"

definition missing_cluster_host_error :: saci_error where
  "missing_cluster_host_error = capability_error (''the config'' @ [CHR 0x27] @ ''s `mode '' @ double_quoted ''cluster'' @ ''`'')
     ''cluster runner and Raft stack'' ''service-cluster''"

text \<open>The first processor of a list that needs what the binary lacks.\<close>

definition lacking :: "bool \<Rightarrow> (processor_spec \<Rightarrow> bool) \<Rightarrow> (string \<Rightarrow> saci_error) \<Rightarrow> processor_spec list \<Rightarrow> unit saci_result" where
  "lacking present needs err ps =
     (if present then Inr () else case find needs ps of None \<Rightarrow> Inr () | Some p \<Rightarrow> Inl (err (ps_id p)))"

definition validate_build_capabilities :: "features \<Rightarrow> service_config \<Rightarrow> unit saci_result" where
  "validate_build_capabilities ft c = in_order
     [check_each (\<lambda>w. in_order
        [lacking (ft_wasm ft) (\<lambda>_. True) (\<lambda>i. missing_wasm_host_error i (wf_id w)) (wf_wasm w),
         lacking (ft_plugin ft) (\<lambda>_. True) (\<lambda>i. missing_plugin_host_error i (wf_id w)) (wf_plugin w),
         lacking (ft_windows ft) (\<lambda>p. ps_window p \<noteq> None) (\<lambda>i. missing_windows_engine_error ''wasm'' i (wf_id w)) (wf_wasm w),
         lacking (ft_windows ft) (\<lambda>p. ps_window p \<noteq> None) (\<lambda>i. missing_windows_engine_error ''plugin'' i (wf_id w)) (wf_plugin w)])
        (sv_workflows c),
      if \<not> ft_cluster ft \<and> is_cluster c then Inl missing_cluster_host_error else Inr ()]"

end
