(* ===== verification/Service_Builder.thy ===== *)
theory Service_Builder
  imports Workflow_Graph
begin

text \<open>
  The assembly of a workflow, \<^verbatim>\<open>service/builder.rs\<close>, and the built-in feature tables of
  \<^verbatim>\<open>service/factories.rs\<close>. The registry, the module and plugin loaders, the engine and the dead
  letter store answer for code outside this model: each is a field of \<open>build_env\<close>. A panic is
  \<open>None\<close>; the builder, whose runtimes are taken out as they are used, is passed along.
\<close>

section \<open>Feature tables\<close>

definition BUILTIN_CONNECTOR_FEATURES :: "(string \<times> string) list" where
  "BUILTIN_CONNECTOR_FEATURES =
     [(''ChannelSource'', ''connector-channel''), (''ChannelSink'', ''connector-channel''),
      (''ClickhouseSource'', ''connector-clickhouse''), (''ClickhouseSink'', ''connector-clickhouse''),
      (''FileSource'', ''connector-file''), (''FileSink'', ''connector-file''),
      (''HttpSource'', ''connector-http''), (''HttpSink'', ''connector-http''), (''HttpPushSource'', ''connector-http''),
      (''KafkaSource'', ''connector-kafka''), (''KafkaSink'', ''connector-kafka''),
      (''MariadbSource'', ''connector-mariadb''), (''MariadbSink'', ''connector-mariadb''),
      (''NatsSource'', ''connector-nats''), (''NatsSink'', ''connector-nats''),
      (''OpenTelemetryMetricsSource'', ''connector-opentelemetry''), (''OpenTelemetryMetricsSink'', ''connector-opentelemetry''),
      (''PostgresSource'', ''connector-postgresql''), (''PostgresSink'', ''connector-postgresql''),
      (''RedbSource'', ''connector-redb''), (''RedbSink'', ''connector-redb''),
      (''S3Source'', ''connector-s3''), (''S3Sink'', ''connector-s3''),
      (''tcp'', ''connector-tcp''), (''udp'', ''connector-udp''), (''saci'', ''connector-saci''),
      (''TursoSource'', ''connector-turso''), (''TursoSink'', ''connector-turso'')]"

definition BUILTIN_TRANSFORMER_FEATURES :: "(string \<times> string) list" where
  "BUILTIN_TRANSFORMER_FEATURES =
     [(''arrow-ipc'', ''transformer-arrow-ipc''), (''avro'', ''transformer-avro''), (''csv'', ''transformer-csv''),
      (''ndjson'', ''transformer-ndjson''), (''parquet'', ''transformer-parquet'')]"

definition tabled_feature :: "(string \<times> string) list \<Rightarrow> string \<Rightarrow> string option" where
  "tabled_feature table key = map_option snd (find (\<lambda>(name, _). name = key) table)"

definition builtin_feature :: "string \<Rightarrow> string option" where
  "builtin_feature type_name = tabled_feature BUILTIN_CONNECTOR_FEATURES type_name"

definition builtin_transformer_feature :: "string \<Rightarrow> string option" where
  "builtin_transformer_feature format = tabled_feature BUILTIN_TRANSFORMER_FEATURES format"

definition missing_transformer_error :: "string \<Rightarrow> string \<Rightarrow> string list \<Rightarrow> saci_error" where
  "missing_transformer_error node_id format registered =
     (let shown = (if registered = [] then ''none'' else join_with '', '' registered);
          head = ''transformer '' @ quoted node_id @ '' names format '' @ quoted format @
            '', which no transformer is registered for (registered: '' @ shown @ '')''
      in case builtin_transformer_feature format of
           Some feature \<Rightarrow> Configuration (head @ '': that is a built-in format this binary was built without, so rebuild or '' @
             ''reinstall with `--features '' @ feature @ ''`, or register your own transformer under that name'')
         | None \<Rightarrow> Configuration head)"

section \<open>Policies of a node\<close>

text \<open>Sources are retried except under the stream runner, whose re-poll is the retry.\<close>

definition sources_take_retry_wrapper :: "service_config \<Rightarrow> bool" where
  "sources_take_retry_wrapper c \<longleftrightarrow> sv_mode c \<noteq> Standalone Stream"

definition INJECTED_RUNTIME_BLOCKER :: string where
  "INJECTED_RUNTIME_BLOCKER = ''a processor node declares no module or library, so its runtime was supplied through '' @
     ''ServiceBuilder::with_runtime and exists only once''"

definition CHANNEL_BLOCKER :: string where
  "CHANNEL_BLOCKER = ''a ChannelSource or ChannelSink is bound to one mpsc pair created once per process''"

definition rebuild_blocker :: "workflow_spec \<Rightarrow> string option" where
  "rebuild_blocker w =
     (if list_ex (\<lambda>p. ps_artifact p = None) (wf_wasm w) then Some INJECTED_RUNTIME_BLOCKER
      else if list_ex (\<lambda>p. ps_artifact p = None) (wf_plugin w) then Some INJECTED_RUNTIME_BLOCKER
      else if list_ex (\<lambda>s. so_type s = ''ChannelSource'') (wf_sources w) \<or> list_ex (\<lambda>s. si_type s = ''ChannelSink'') (wf_sinks w)
      then Some CHANNEL_BLOCKER
      else None)"

definition resolve_node_heal ::
  "heal_config option \<Rightarrow> heal_config \<Rightarrow> string + unit \<Rightarrow> string \<Rightarrow> string \<Rightarrow> string \<Rightarrow> string \<Rightarrow> heal_settings option saci_result" where
  "resolve_node_heal own g rebuildable workflow_id rl node_id type_name =
     (let policy = resolve_heal (case own of Some h \<Rightarrow> h | None \<Rightarrow> no_heal_block) g default_heal
      in if \<not> heal_enabled policy then Inr None
         else (case rebuildable of
            Inr _ \<Rightarrow> Inr (Some policy)
          | Inl reason \<Rightarrow>
              if own \<noteq> None
              then Inl (Configuration (''workflow '' @ quoted workflow_id @ '' '' @ rl @ '' '' @ quoted node_id @
                '': heal is not available for type '' @ quoted type_name @ '': '' @ reason))
              else Inr None))"

section \<open>The environment of a build\<close>

record built_identity =
  ni_service :: string
  ni_workflow :: string
  ni_node :: string

text \<open>
  \<open>fa_build\<close> is the answer of the node's rebuilder: the fields of the schema the connector reports.
\<close>

record 't connector_factory =
  fa_rebuildable :: "rat config_value \<Rightarrow> string + unit"
  fa_build :: "built_identity \<Rightarrow> rat config_value \<Rightarrow> 't option \<Rightarrow> rat system_config option \<Rightarrow> arrow_fields saci_result"

record 't build_env =
  en_features :: features
  en_sources :: "string \<Rightarrow> 't connector_factory option"
  en_sinks :: "string \<Rightarrow> 't connector_factory option"
  en_transformers :: "(string \<times> (rat config_value \<Rightarrow> 't saci_result)) list"
  en_new_engine :: "string + unit"
  en_load_wasm :: "processor_spec \<Rightarrow> runtime_shape saci_result"
  en_load_plugin :: "processor_spec \<Rightarrow> runtime_shape saci_result"
  en_open_dlq :: "workflow_spec \<Rightarrow> unit saci_result"
  en_heal :: heal_config
  en_service :: string

record builder =
  bd_runtimes :: "(string \<times> runtime_shape) list"
  bd_engine :: bool

definition RUNTIME_SOURCE_HELP :: "features \<Rightarrow> string" where
  "RUNTIME_SOURCE_HELP ft = ''no runtime provided: call ServiceBuilder::with_runtime(id, ..) or set '' @
     (if ft_wasm ft \<and> ft_plugin ft then quoted ''module'' @ ''/'' @ quoted ''library'' @ '' on the node''
      else if ft_wasm ft then quoted ''module'' @ '' on the wasm node''
      else quoted ''library'' @ '' on the plugin node'')"

fun build_transformers :: "'t build_env \<Rightarrow> transformer_spec list \<Rightarrow> (string \<times> 't) list saci_result" where
  "build_transformers E [] = Inr []"
| "build_transformers E (spec # specs) =
     (case map_of (en_transformers E) (ts_format spec) of
        None \<Rightarrow> Inl (missing_transformer_error (ts_id spec) (ts_format spec) (map fst (en_transformers E)))
      | Some factory \<Rightarrow>
          res_bind (factory (ts_options spec)) (\<lambda>t.
          res_bind (build_transformers E specs) (\<lambda>out. Inr ((ts_id spec, t) # out))))"

section \<open>Nodes\<close>

text \<open>A transformer that is not in the map panics; the map of a repeated id keeps the last.\<close>

definition bound_transformer :: "(string \<times> 't) list \<Rightarrow> string option \<Rightarrow> 't option option" where
  "bound_transformer tfs named = (case named of None \<Rightarrow> Some None | Some t \<Rightarrow> map_option Some (map_of (rev tfs) t))"

definition identity_of :: "'t build_env \<Rightarrow> workflow_spec \<Rightarrow> string \<Rightarrow> built_identity" where
  "identity_of E w i = \<lparr>ni_service = en_service E, ni_workflow = wf_id w, ni_node = i\<rparr>"

definition build_source_node ::
  "'t build_env \<Rightarrow> workflow_spec \<Rightarrow> (string \<times> 't) list \<Rightarrow> bool \<Rightarrow> string \<Rightarrow> built_node saci_result option" where
  "build_source_node E w tfs retry_sources i =
     (case find (\<lambda>s. so_id s = i) (wf_sources w) of
        None \<Rightarrow> None
      | Some spec \<Rightarrow>
          (case en_sources E (so_type spec) of
             None \<Rightarrow> Some (Inl (missing_factory_error builtin_feature ''source'' (so_type spec) (so_id spec)))
           | Some factory \<Rightarrow>
               (case resolve_node_heal (so_heal spec) (en_heal E) (fa_rebuildable factory (so_config spec)) (wf_id w) ''source''
                   (so_id spec) (so_type spec) of
                  Inl e \<Rightarrow> Some (Inl e)
                | Inr policy \<Rightarrow>
                    (case bound_transformer tfs (so_transformer spec) of
                       None \<Rightarrow> None
                     | Some bound \<Rightarrow>
                         Some (res_bind (fa_build factory (identity_of E w (so_id spec)) (so_config spec) bound
                             (if retry_sources then Some (to_system_config (so_retry spec)) else None)) (\<lambda>schema.
                           Inr \<lparr>bn_id = so_id spec, bn_name = so_name spec, bn_type_name = so_type spec,
                             bn_component = Some (so_component spec), bn_kind = Built_Source schema, bn_downstream = [],
                             bn_artifact = None, bn_healed = False, bn_window = None\<rparr>))))))"

definition build_sink_node :: "'t build_env \<Rightarrow> workflow_spec \<Rightarrow> (string \<times> 't) list \<Rightarrow> string \<Rightarrow> built_node saci_result option" where
  "build_sink_node E w tfs i =
     (case find (\<lambda>s. si_id s = i) (wf_sinks w) of
        None \<Rightarrow> None
      | Some spec \<Rightarrow>
          (case en_sinks E (si_type spec) of
             None \<Rightarrow> Some (Inl (missing_factory_error builtin_feature ''sink'' (si_type spec) (si_id spec)))
           | Some factory \<Rightarrow>
               (case resolve_node_heal (si_heal spec) (en_heal E) (fa_rebuildable factory (si_config spec)) (wf_id w) ''sink''
                   (si_id spec) (si_type spec) of
                  Inl e \<Rightarrow> Some (Inl e)
                | Inr policy \<Rightarrow>
                    (case bound_transformer tfs (si_transformer spec) of
                       None \<Rightarrow> None
                     | Some bound \<Rightarrow>
                         Some (res_bind (fa_build factory (identity_of E w (si_id spec)) (si_config spec) bound
                             (Some (to_system_config (si_retry spec)))) (\<lambda>schema.
                           Inr \<lparr>bn_id = si_id spec, bn_name = si_name spec, bn_type_name = si_type spec,
                             bn_component = Some (si_component spec), bn_kind = Built_Sink schema, bn_downstream = [],
                             bn_artifact = None, bn_healed = (policy \<noteq> None), bn_window = None\<rparr>))))))"

text \<open>Keys of the window block that the table does not hold are added to it.\<close>

definition config_with_window :: "bool \<Rightarrow> processor_spec \<Rightarrow> processor_spec" where
  "config_with_window windows p =
     (case ps_window p of
        Some win \<Rightarrow> if windows then p\<lparr>ps_config := fold (\<lambda>(key, val) cfg. if map_of cfg key = None then cfg @ [(key, val)] else cfg)
          (config_pairs win) (ps_config p)\<rparr> else p
      | None \<Rightarrow> p)"

definition processor_node :: "processor_spec \<Rightarrow> string \<Rightarrow> string option \<Rightarrow> runtime_shape \<Rightarrow> built_node" where
  "processor_node p kind artifact r =
     \<lparr>bn_id = ps_id p, bn_name = ps_name p, bn_type_name = kind, bn_component = None, bn_kind = Built_Processor r kind,
      bn_downstream = [], bn_artifact = artifact, bn_healed = False, bn_window = ps_window p\<rparr>"

text \<open>The runtime given for an id is taken out of the builder.\<close>

definition take_runtime :: "features \<Rightarrow> processor_spec \<Rightarrow> builder \<Rightarrow> built_node saci_result \<times> builder" where
  "take_runtime ft p b =
     (case map_of (bd_runtimes b) (ps_id p) of
        None \<Rightarrow> (Inl (Configuration (''processor '' @ quoted (ps_id p) @ '': '' @ RUNTIME_SOURCE_HELP ft)), b)
      | Some r \<Rightarrow> (Inr (processor_node p ''native'' None r), b\<lparr>bd_runtimes := filter (\<lambda>(i, _). i \<noteq> ps_id p) (bd_runtimes b)\<rparr>))"

definition build_wasm_node :: "'t build_env \<Rightarrow> string \<Rightarrow> processor_spec \<Rightarrow> builder \<Rightarrow> built_node saci_result \<times> builder" where
  "build_wasm_node E workflow_id p0 b =
     (if \<not> ft_windows (en_features E) \<and> ps_window p0 \<noteq> None
      then (Inl (missing_windows_engine_error ''wasm'' (ps_id p0) workflow_id), b)
      else
        let p = config_with_window (ft_windows (en_features E)) p0
        in case ps_artifact p of
             None \<Rightarrow> take_runtime (en_features E) p b
           | Some path \<Rightarrow>
               (case if bd_engine b then Inr () else en_new_engine E of
                  Inl e \<Rightarrow> (Inl (Configuration (''processor '' @ quoted (ps_id p) @ '': wasmtime engine creation failed: '' @ e @
                    ''. The pooling instance allocator reserves ~1 TiB of address space per engine, so this is usually a process '' @
                    ''address-space limit (RLIMIT_AS / `ulimit -v`, common in containers and CI sandboxes) or too many live '' @
                    ''engines in one process; share one with `ServiceBuilder::with_wasm_engine`'')), b)
                | Inr _ \<Rightarrow>
                    (res_bind (en_load_wasm E p) (\<lambda>r. Inr (processor_node p ''wasm'' (Some path) r)), b\<lparr>bd_engine := True\<rparr>)))"

definition build_plugin_node :: "'t build_env \<Rightarrow> string \<Rightarrow> processor_spec \<Rightarrow> builder \<Rightarrow> built_node saci_result \<times> builder" where
  "build_plugin_node E workflow_id p0 b =
     (if \<not> ft_windows (en_features E) \<and> ps_window p0 \<noteq> None
      then (Inl (missing_windows_engine_error ''plugin'' (ps_id p0) workflow_id), b)
      else
        let p = config_with_window (ft_windows (en_features E)) p0
        in case ps_artifact p of
             None \<Rightarrow> take_runtime (en_features E) p b
           | Some path \<Rightarrow>
               (res_bind (en_load_plugin E p) (\<lambda>r. Inr (processor_node p ''plugin'' (Some path) r)), b))"

definition build_processor_node :: "'t build_env \<Rightarrow> workflow_spec \<Rightarrow> string \<Rightarrow> builder \<Rightarrow> built_node saci_result \<times> builder" where
  "build_processor_node E w i b =
     (case find (\<lambda>p. ps_id p = i) (wf_wasm w) of
        Some p \<Rightarrow> if ft_wasm (en_features E) then build_wasm_node E (wf_id w) p b
          else (Inl (missing_wasm_host_error (ps_id p) (wf_id w)), b)
      | None \<Rightarrow>
          (case find (\<lambda>p. ps_id p = i) (wf_plugin w) of
             Some p \<Rightarrow> if ft_plugin (en_features E) then build_plugin_node E (wf_id w) p b
               else (Inl (missing_plugin_host_error (ps_id p) (wf_id w)), b)
           | None \<Rightarrow> (Inl (Configuration (''workflow '' @ quoted (wf_id w) @ '': processor '' @ quoted i @
               '' names neither a wasm nor a plugin node'')), b)))"

section \<open>A workflow\<close>

definition build_node ::
  "'t build_env \<Rightarrow> workflow_spec \<Rightarrow> (string \<times> 't) list \<Rightarrow> bool \<Rightarrow> string \<times> node_kind \<Rightarrow> builder \<Rightarrow> built_node saci_result option \<times> builder" where
  "build_node E w tfs retry_sources node b =
     (case snd node of
        Source_Node \<Rightarrow> (build_source_node E w tfs retry_sources (fst node), b)
      | Sink_Node \<Rightarrow> (build_sink_node E w tfs (fst node), b)
      | Processor_Node \<Rightarrow> (case build_processor_node E w (fst node) b of (r, b') \<Rightarrow> (Some r, b')))"

fun build_nodes ::
  "'t build_env \<Rightarrow> workflow_spec \<Rightarrow> (string \<times> 't) list \<Rightarrow> bool \<Rightarrow> (string \<times> node_kind) list \<Rightarrow> builder \<Rightarrow>
     built_node list saci_result option \<times> builder" where
  "build_nodes E w tfs retry_sources [] b = (Some (Inr []), b)"
| "build_nodes E w tfs retry_sources (node # rest) b =
     (case build_node E w tfs retry_sources node b of
        (None, b') \<Rightarrow> (None, b')
      | (Some (Inl e), b') \<Rightarrow> (Some (Inl e), b')
      | (Some (Inr n), b') \<Rightarrow>
          (case build_nodes E w tfs retry_sources rest b' of
             (Some (Inr ns), b'') \<Rightarrow> (Some (Inr (n # ns)), b'')
           | other \<Rightarrow> other))"

definition undeclared_link :: "workflow_spec \<Rightarrow> string \<Rightarrow> saci_error" where
  "undeclared_link w i = Configuration (''workflow '' @ quoted (wf_id w) @ '': link names undeclared node '' @ quoted i)"

text \<open>\<open>ids\<close> are the ids in topological order.\<close>

fun link_nodes :: "workflow_spec \<Rightarrow> string list \<Rightarrow> link_spec list \<Rightarrow> built_node list \<Rightarrow> built_node list saci_result" where
  "link_nodes w ids [] nodes = Inr nodes"
| "link_nodes w ids (l # ls) nodes =
     (case name_to_idx ids (ln_from l) of
        None \<Rightarrow> Inl (undeclared_link w (ln_from l))
      | Some f \<Rightarrow>
          (case name_to_idx ids (ln_to l) of
             None \<Rightarrow> Inl (undeclared_link w (ln_to l))
           | Some t \<Rightarrow> link_nodes w ids ls
               (nodes[f := (nodes ! f)\<lparr>bn_downstream := bn_downstream (nodes ! f) @ [\<lparr>be_node = t, be_branch = ln_branch l\<rparr>]\<rparr>])))"

definition build_one ::
  "'t build_env \<Rightarrow> bool \<Rightarrow> workflow_spec \<Rightarrow> builder \<Rightarrow> built_node list saci_result option \<times> builder" where
  "build_one E retry_sources w b =
     (case build_transformers E (wf_transformers w) of
        Inl e \<Rightarrow> (Some (Inl e), b)
      | Inr tfs \<Rightarrow>
          (case topological_order w of
             Inl e \<Rightarrow> (Some (Inl e), b)
           | Inr vs \<Rightarrow>
               (case build_nodes E w tfs retry_sources (map ((!) (nodes_of w)) vs) b of
                  (None, b') \<Rightarrow> (None, b')
                | (Some (Inl e), b') \<Rightarrow> (Some (Inl e), b')
                | (Some (Inr nodes), b') \<Rightarrow>
                    (case link_nodes w (map (\<lambda>v. fst (nodes_of w ! v)) vs) (wf_links w) nodes of
                       Inl e \<Rightarrow> (Some (Inl e), b')
                     | Inr linked \<Rightarrow>
                         (case validate_workflow_graph (ft_windows (en_features E)) (wf_id w) linked of
                            None \<Rightarrow> (None, b')
                          | Some (Inl e) \<Rightarrow> (Some (Inl e), b')
                          | Some (Inr _) \<Rightarrow>
                              (Some (if wf_dlq w = None then Inr linked else res_bind (en_open_dlq E w) (\<lambda>_. Inr linked)), b'))))))"

text \<open>\<^verbatim>\<open>build_all\<close>, less the topology it publishes.\<close>

fun build_workflows :: "'t build_env \<Rightarrow> bool \<Rightarrow> workflow_spec list \<Rightarrow> builder \<Rightarrow> built_node list list saci_result option \<times> builder" where
  "build_workflows E retry_sources [] b = (Some (Inr []), b)"
| "build_workflows E retry_sources (w # ws) b =
     (case build_one E retry_sources w b of
        (None, b') \<Rightarrow> (None, b')
      | (Some (Inl e), b') \<Rightarrow> (Some (Inl e), b')
      | (Some (Inr nodes), b') \<Rightarrow>
          (case build_workflows E retry_sources ws b' of
             (Some (Inr out), b'') \<Rightarrow> (Some (Inr (nodes # out)), b'')
           | other \<Rightarrow> other))"

definition build_all :: "'t build_env \<Rightarrow> service_config \<Rightarrow> builder \<Rightarrow> built_node list list saci_result option \<times> builder" where
  "build_all E c b = build_workflows E (sources_take_retry_wrapper c) (sv_workflows c) b"

text \<open>\<^verbatim>\<open>build_connectors_only\<close>: the connectors and stores, without processors and links.\<close>

fun check_nodes :: "('a \<Rightarrow> built_node saci_result option) \<Rightarrow> 'a list \<Rightarrow> check" where
  "check_nodes f [] = pass"
| "check_nodes f (x # xs) = then_check (map_option (map_sum id (\<lambda>_. ())) (f x)) (check_nodes f xs)"

definition build_connectors_only :: "'t build_env \<Rightarrow> service_config \<Rightarrow> check" where
  "build_connectors_only E c = check_list (\<lambda>w.
     (case build_transformers E (wf_transformers w) of
        Inl e \<Rightarrow> Some (Inl e)
      | Inr tfs \<Rightarrow>
          then_check (check_nodes (\<lambda>s. build_source_node E w tfs False (so_id s)) (wf_sources w))
         (then_check (check_nodes (\<lambda>s. build_sink_node E w tfs (si_id s)) (wf_sinks w))
            (Some (if wf_dlq w = None then Inr () else en_open_dlq E w))))) (sv_workflows c)"

end
