(* ===== verification/Service_Builder_Properties.thy ===== *)
theory Service_Builder_Properties
  imports Service_Builder Service_Config_Properties
begin

text \<open>
  What a built workflow is: the declared nodes in topological order, linked as declared, with links
  that carry the components both ends name under one schema. Building a validated workflow does not
  panic, whatever the factories and loaders answer.
\<close>

section \<open>The rules of a graph\<close>

definition described :: "built_node \<Rightarrow> bool" where
  "described n = (case bn_kind n of Built_Processor r _ \<Rightarrow> rt_components r \<noteq> [] | _ \<Rightarrow> True)"

definition component_names :: "built_node \<Rightarrow> string set" where
  "component_names n = (case bn_kind n of Built_Processor r _ \<Rightarrow> set (rt_components r) | _ \<Rightarrow> set_option (bn_component n))"

text \<open>The schema a node has for one of its components.\<close>

definition schema_for :: "built_node \<Rightarrow> string \<Rightarrow> arrow_fields option" where
  "schema_for n c = (case bn_kind n of
     Built_Processor r _ \<Rightarrow> fields_of r c | Built_Source s \<Rightarrow> Some s | Built_Sink s \<Rightarrow> Some s)"

definition schemas_agree :: "built_node \<Rightarrow> built_node \<Rightarrow> string \<Rightarrow> bool" where
  "schemas_agree f t c \<longleftrightarrow> (case (schema_for f c, schema_for t c) of (Some fs, Some fs') \<Rightarrow> fs = fs' | _ \<Rightarrow> True)"

text \<open>
  A link leads from no sink and to no source. Where both ends describe their components, a
  processor takes what the source produces and delivers all that the node behind it takes, and the
  schemas agree on every component both name; a source and the sink behind it have one schema.
\<close>

definition link_carries :: "built_node \<Rightarrow> built_node \<Rightarrow> bool" where
  "link_carries f t \<longleftrightarrow> \<not> is_sink f \<and> \<not> is_source t \<and>
     (described f \<and> described t \<longrightarrow>
        (is_source f \<and> is_processor t \<longrightarrow> component_names f \<subseteq> component_names t) \<and>
        (is_processor f \<longrightarrow> component_names t \<subseteq> component_names f) \<and>
        (\<forall>c \<in> component_names f \<inter> component_names t. schemas_agree f t c) \<and>
        (is_source f \<and> is_sink t \<longrightarrow> schema_for f [] = schema_for t []))"

text \<open>Every component a fed processor declares arrives over a link or leaves over one.\<close>

definition covered :: "built_node list \<Rightarrow> nat \<Rightarrow> bool" where
  "covered nodes i \<longleftrightarrow> (is_processor (nodes ! i) \<and> inbound nodes i \<noteq> [] \<longrightarrow>
     (\<exists>j \<in> set (inbound nodes i). \<not> described (nodes ! j)) \<or>
     component_names (nodes ! i) \<subseteq> (\<Union>j \<in> set (inbound nodes i). component_names (nodes ! j)) \<union>
       (\<Union>e \<in> set (bn_downstream (nodes ! i)). component_names (nodes ! be_node e)))"

definition readable_time :: "string \<Rightarrow> arrow_fields \<Rightarrow> bool" where
  "readable_time name fs \<longleftrightarrow> (\<exists>f \<in> set fs. af_name f = name \<and> (af_type f = Arrow_Int64 \<or> (\<exists>u tz. af_type f = Arrow_Timestamp u tz)))"

text \<open>Whatever arrives at a windowed processor has the time field of the window.\<close>

definition window_fed :: "built_node list \<Rightarrow> nat \<Rightarrow> bool" where
  "window_fed nodes i \<longleftrightarrow> (\<forall>win. bn_window (nodes ! i) = Some win \<longrightarrow> is_processor (nodes ! i) \<longrightarrow> described (nodes ! i) \<longrightarrow>
     (\<forall>j \<in> set (inbound nodes i). \<forall>c \<in> component_names (nodes ! j). \<forall>fs. schema_for (nodes ! j) c = Some fs \<longrightarrow>
        readable_time (wn_time_field win) fs))"

definition graph_rules :: "bool \<Rightarrow> built_node list \<Rightarrow> bool" where
  "graph_rules windows nodes \<longleftrightarrow>
     (\<forall>n \<in> set nodes. \<forall>e \<in> set (bn_downstream n). be_node e < length nodes \<and> link_carries n (nodes ! be_node e)) \<and>
     (\<forall>i < length nodes. covered nodes i \<and> (windows \<longrightarrow> window_fed nodes i))"

section \<open>Checks\<close>

named_theorems pass_simps

lemma refuse_not_pass [pass_simps]: "refuse_graph wid msg \<noteq> pass"
  by (simp add: refuse_graph_def pass_def)

lemma then_check_pass [pass_simps]: "then_check c d = pass \<longleftrightarrow> c = pass \<and> d = pass"
  by (auto simp: then_check_def pass_def split: option.splits sum.splits)

lemma check_list_pass [pass_simps]: "check_list f xs = pass \<longleftrightarrow> (\<forall>x \<in> set xs. f x = pass)"
  by (induction xs) (auto simp: pass_simps)

lemma None_not_pass [pass_simps]: "None \<noteq> pass"
  by (simp add: pass_def)

lemma if_pass [pass_simps]: "(if b then c else d) = pass \<longleftrightarrow> (if b then c = pass else d = pass)"
  by simp

lemma inbound_set: "set (inbound nodes i) = {j. j < length nodes \<and> (\<exists>e \<in> set (bn_downstream (nodes ! j)). be_node e = i)}"
  by (auto simp: inbound_def)

lemma validate_edge_sound: "validate_edge wid f t = pass \<Longrightarrow> link_carries f t"
  by (cases "bn_kind f"; cases "bn_kind t")
    (auto simp: validate_edge_def link_carries_def described_def component_names_def schema_for_def schemas_agree_def is_sink_def
      is_source_def is_processor_def pass_simps split: option.splits if_splits)

lemma delivered_by_set:
  "delivered_by nodes js = Some ds \<Longrightarrow> j \<in> set js \<Longrightarrow> c \<in> component_names (nodes ! j) \<Longrightarrow> schema_for (nodes ! j) c = Some fs \<Longrightarrow> (c, fs) \<in> set ds"
proof (induction js arbitrary: ds)
  case (Cons k js)
  then show ?case
    by (cases "bn_kind (nodes ! k)")
      (auto simp: component_names_def schema_for_def fields_of_def split: option.splits built_kind.splits)
qed simp

lemma find_Some_D: "find P xs = Some x \<Longrightarrow> x \<in> set xs \<and> P x"
  by (induction xs) (auto split: if_splits)

lemma check_time_field_sound: "check_time_field wid i time_field (c, fs) = pass \<Longrightarrow> readable_time time_field fs"
  by (auto simp: check_time_field_def readable_time_def pass_simps dest!: find_Some_D split: option.splits arrow_type.splits)

lemma validate_node_window_sound:
  assumes ok: "\<And>win. bn_window (nodes ! i) = Some win \<Longrightarrow> validate_node_window wid nodes i win = pass"
  shows "window_fed nodes i"
  unfolding window_fed_def
proof (intro allI impI ballI)
  fix win j c fs
  assume win: "bn_window (nodes ! i) = Some win" and p: "is_processor (nodes ! i)" and d: "described (nodes ! i)"
    and j: "j \<in> set (inbound nodes i)" and c: "c \<in> component_names (nodes ! j)" and fs: "schema_for (nodes ! j) c = Some fs"
  from ok [OF win] p d j obtain ds where ds: "delivered_by nodes (inbound nodes i) = Some ds"
    "check_list (check_time_field wid (bn_id (nodes ! i)) (wn_time_field win)) ds = pass"
    by (cases "bn_kind (nodes ! i)")
      (auto simp: validate_node_window_def Let_def is_processor_def described_def pass_simps split: if_splits option.splits)
  have "(c, fs) \<in> set ds" using delivered_by_set [OF ds(1) j c fs] .
  then show "readable_time (wn_time_field win) fs" using ds(2) check_time_field_sound by (auto simp: pass_simps)
qed

lemma described_iff: "is_processor n \<Longrightarrow> described n \<longleftrightarrow> component_names n \<noteq> {}"
  by (cases "bn_kind n") (simp_all add: described_def component_names_def is_processor_def)

lemma produced_sub: "produced nodes n \<subseteq> (\<Union>e \<in> set (bn_downstream n). component_names (nodes ! be_node e))"
  unfolding produced_def
proof (rule UN_mono [OF subset_refl])
  fix e assume "e \<in> set (bn_downstream n)"
  show "(case bn_kind (nodes ! be_node e) of Built_Sink _ \<Rightarrow> set_option (bn_component (nodes ! be_node e))
      | Built_Processor r _ \<Rightarrow> set (rt_components r) | Built_Source _ \<Rightarrow> {}) \<subseteq> component_names (nodes ! be_node e)"
    by (cases "bn_kind (nodes ! be_node e)") (simp_all add: component_names_def)
qed

lemma coverage_sound:
  assumes ok: "validate_processor_coverage wid nodes i = pass" and i: "i < length nodes"
    and edges: "\<And>j e. j < length nodes \<Longrightarrow> e \<in> set (bn_downstream (nodes ! j)) \<Longrightarrow> link_carries (nodes ! j) (nodes ! be_node e)"
  shows "covered nodes i"
  unfolding covered_def
proof (intro impI, elim conjE)
  assume p: "is_processor (nodes ! i)" and ins: "inbound nodes i \<noteq> []"
  then obtain r k where kind: "bn_kind (nodes ! i) = Built_Processor r k" by (auto simp: is_processor_def split: built_kind.splits)
  let ?names = "component_names (nodes ! i)"
  have names: "?names = set (rt_components r)" by (simp add: component_names_def kind)
  consider "rt_components r = []" | j where "j \<in> set (inbound nodes i)" "is_processor (nodes ! j)"
    | "rt_components r \<noteq> []" "\<not> list_ex (\<lambda>j. is_processor (nodes ! j)) (inbound nodes i)"
    by (auto simp: list_ex_iff)
  then show "(\<exists>j \<in> set (inbound nodes i). \<not> described (nodes ! j)) \<or>
     ?names \<subseteq> (\<Union>j \<in> set (inbound nodes i). component_names (nodes ! j)) \<union>
       (\<Union>e \<in> set (bn_downstream (nodes ! i)). component_names (nodes ! be_node e))"
  proof cases
    case 1
    then show ?thesis by (simp add: names)
  next
    case (2 j)
    then obtain e where e: "j < length nodes" "e \<in> set (bn_downstream (nodes ! j))" "be_node e = i" by (auto simp: inbound_set)
    then have "link_carries (nodes ! j) (nodes ! i)" using edges by blast
    then have "described (nodes ! j) \<Longrightarrow> ?names \<subseteq> component_names (nodes ! j)"
      using 2(2) described_iff [OF p] by (auto simp: link_carries_def)
    then show ?thesis using 2(1) by blast
  next
    case 3
    then have all: "set (rt_components r) \<subseteq> (\<Union>j \<in> set (inbound nodes i). set_option (bn_component (nodes ! j))) \<union> produced nodes (nodes ! i)"
      using ok ins kind by (auto simp: validate_processor_coverage_def Let_def pass_simps split: if_splits)
    have direct: "set_option (bn_component (nodes ! j)) \<subseteq> component_names (nodes ! j)" if "j \<in> set (inbound nodes i)" for j
    proof -
      have "\<not> is_processor (nodes ! j)" using 3(2) that by (auto simp: list_ex_iff)
      then show ?thesis by (cases "bn_kind (nodes ! j)") (simp_all add: component_names_def is_processor_def)
    qed
    show ?thesis unfolding names
      by (rule disjI2) (rule subset_trans [OF all Un_mono [OF UN_mono [OF subset_refl direct] produced_sub]])
  qed
qed

lemma validate_workflow_graph_holds:
  assumes "validate_workflow_graph windows wid nodes = Some (Inr ())"
  shows "graph_rules windows nodes"
proof -
  have p: "validate_workflow_graph windows wid nodes = pass" using assms by (simp add: pass_def)
  then have bound: "\<forall>n \<in> set nodes. \<forall>e \<in> set (bn_downstream n). be_node e < length nodes"
    by (force simp: validate_workflow_graph_def list_ex_iff pass_simps not_le split: if_splits)
  have edge: "link_carries n (nodes ! be_node e)" if "n \<in> set nodes" "e \<in> set (bn_downstream n)" for n e
    by (rule validate_edge_sound [of wid]) (use p that in \<open>auto simp: validate_workflow_graph_def pass_simps split: if_splits\<close>)
  have cov: "covered nodes i" if i: "i < length nodes" for i
  proof (cases "is_processor (nodes ! i)")
    case True
    then have "validate_processor_coverage wid nodes i = pass" using p i by (auto simp: validate_workflow_graph_def pass_simps split: if_splits)
    from coverage_sound [OF this i] show ?thesis using edge by simp
  qed (simp add: covered_def)
  have win: "window_fed nodes i" if i: "i < length nodes" "windows" for i
    by (rule validate_node_window_sound) (use p i in \<open>auto simp: validate_workflow_graph_def pass_simps split: if_splits option.splits\<close>)
  show ?thesis using bound edge cov win by (simp add: graph_rules_def)
qed

section \<open>Built nodes\<close>

fun node_kind_of_built :: "built_kind \<Rightarrow> node_kind" where
  "node_kind_of_built (Built_Source _) = Source_Node"
| "node_kind_of_built (Built_Processor _ _) = Processor_Node"
| "node_kind_of_built (Built_Sink _) = Sink_Node"

definition node_of :: "built_node \<Rightarrow> string \<times> node_kind" where
  "node_of n = (bn_id n, node_kind_of_built (bn_kind n))"

definition fresh_node :: "built_node \<Rightarrow> bool" where
  "fresh_node n \<longleftrightarrow> bn_downstream n = [] \<and> (is_processor n \<or> bn_component n \<noteq> None)"

lemma find_id: "x \<in> set xs \<Longrightarrow> \<exists>y. find (\<lambda>y. f y = f x) xs = Some y"
  by (induction xs) auto

lemma build_transformers_keys: "build_transformers E specs = Inr tfs \<Longrightarrow> map fst tfs = map ts_id specs"
  by (induction specs arbitrary: tfs) (auto simp: res_bind_def split: option.splits sum.splits)

lemma bound_transformer_known:
  "named \<in> Some ` fst ` set tfs \<union> {None} \<Longrightarrow> bound_transformer tfs named \<noteq> None"
  using map_of_eq_None_iff [of "rev tfs" "the named"] by (cases named) (auto simp: bound_transformer_def image_iff)

lemma source_node_built:
  assumes "build_source_node E w tfs retry i = Some (Inr n)"
  shows "node_of n = (i, Source_Node) \<and> fresh_node n"
  using assms by (auto simp: build_source_node_def node_of_def fresh_node_def res_bind_eq_Inr dest!: find_Some_D split: option.splits sum.splits)

lemma sink_node_built:
  assumes "build_sink_node E w tfs i = Some (Inr n)"
  shows "node_of n = (i, Sink_Node) \<and> fresh_node n"
  using assms by (auto simp: build_sink_node_def node_of_def fresh_node_def res_bind_eq_Inr dest!: find_Some_D split: option.splits sum.splits)

lemma processor_node_built: "node_of (processor_node p kind artifact r) = (ps_id p, Processor_Node) \<and> fresh_node (processor_node p kind artifact r)"
  by (simp add: processor_node_def node_of_def fresh_node_def is_processor_def)

lemma config_with_window_id [simp]: "ps_id (config_with_window windows p) = ps_id p"
  by (simp add: config_with_window_def split: option.splits)

lemma take_runtime_built: "take_runtime ft p b = (Inr n, b') \<Longrightarrow> node_of n = (ps_id p, Processor_Node) \<and> fresh_node n"
  by (auto simp: take_runtime_def processor_node_built split: option.splits)

lemma wasm_node_built: "build_wasm_node E i p b = (Inr n, b') \<Longrightarrow> node_of n = (ps_id p, Processor_Node) \<and> fresh_node n"
  by (auto simp: build_wasm_node_def Let_def res_bind_eq_Inr processor_node_built dest!: take_runtime_built
      split: if_splits option.splits sum.splits)

lemma plugin_node_built: "build_plugin_node E i p b = (Inr n, b') \<Longrightarrow> node_of n = (ps_id p, Processor_Node) \<and> fresh_node n"
  by (auto simp: build_plugin_node_def Let_def res_bind_eq_Inr processor_node_built dest!: take_runtime_built
      split: if_splits option.splits)

lemma processor_built:
  "build_processor_node E w i b = (Inr n, b') \<Longrightarrow> node_of n = (i, Processor_Node) \<and> fresh_node n"
  by (auto simp: build_processor_node_def dest!: find_Some_D wasm_node_built plugin_node_built split: option.splits if_splits)

lemma build_node_built: "build_node E w tfs retry node b = (Some (Inr n), b') \<Longrightarrow> node_of n = node \<and> fresh_node n"
  by (cases node; cases "snd node")
    (auto simp: build_node_def dest: source_node_built sink_node_built processor_built split: prod.splits)

lemma build_nodes_built:
  "build_nodes E w tfs retry nodes b = (Some (Inr ns), b') \<Longrightarrow> map node_of ns = nodes \<and> list_all fresh_node ns"
proof (induction nodes arbitrary: b b' ns)
  case (Cons node rest)
  obtain r b1 where r: "build_node E w tfs retry node b = (r, b1)" by fastforce
  with Cons.prems obtain n where n: "r = Some (Inr n)" by (auto split: option.splits sum.splits)
  obtain rs b2 where rs: "build_nodes E w tfs retry rest b1 = (rs, b2)" by fastforce
  with Cons.prems r n obtain ms where ms: "rs = Some (Inr ms)" "ns = n # ms" by (auto split: option.splits sum.splits)
  show ?case using Cons.IH [OF rs [unfolded ms(1)]] build_node_built [OF r [unfolded n]] ms(2) by simp
qed auto

text \<open>The panics of the node builders: a node that is not declared, a transformer that is not built.\<close>

lemma build_node_no_panic:
  assumes node: "node \<in> set (nodes_of w)" and tf: "build_transformers E (wf_transformers w) = Inr tfs"
    and named: "so_transformer ` set (wf_sources w) \<union> si_transformer ` set (wf_sinks w) \<subseteq> Some ` ts_id ` set (wf_transformers w) \<union> {None}"
  shows "fst (build_node E w tfs retry node b) \<noteq> None"
proof -
  have keys: "fst ` set tfs = ts_id ` set (wf_transformers w)" using build_transformers_keys [OF tf] by (metis list.set_map)
  have known: "t \<in> Some ` ts_id ` set (wf_transformers w) \<union> {None} \<Longrightarrow> bound_transformer tfs t \<noteq> None" for t
    using bound_transformer_known [of t tfs] unfolding keys .
  obtain i k where ik: "node = (i, k)" by (cases node)
  show ?thesis
  proof (cases k)
    case Source_Node
    then obtain s where s: "s \<in> set (wf_sources w)" "so_id s = i" using node ik by (auto simp: nodes_of_def)
    obtain spec where spec: "find (\<lambda>s. so_id s = i) (wf_sources w) = Some spec" using find_id [OF s(1), of so_id] s(2) by auto
    then have "bound_transformer tfs (so_transformer spec) \<noteq> None" using known named find_Some_D [OF spec] by blast
    then show ?thesis using spec ik Source_Node by (auto simp: build_node_def build_source_node_def split: option.splits sum.splits)
  next
    case Sink_Node
    then obtain s where s: "s \<in> set (wf_sinks w)" "si_id s = i" using node ik by (auto simp: nodes_of_def)
    obtain spec where spec: "find (\<lambda>s. si_id s = i) (wf_sinks w) = Some spec" using find_id [OF s(1), of si_id] s(2) by auto
    then have "bound_transformer tfs (si_transformer spec) \<noteq> None" using known named find_Some_D [OF spec] by blast
    then show ?thesis using spec ik Sink_Node by (auto simp: build_node_def build_sink_node_def split: option.splits sum.splits)
  qed (use ik in \<open>simp add: build_node_def split: prod.splits\<close>)
qed

lemma build_nodes_no_panic:
  assumes tf: "build_transformers E (wf_transformers w) = Inr tfs"
    and named: "so_transformer ` set (wf_sources w) \<union> si_transformer ` set (wf_sinks w) \<subseteq> Some ` ts_id ` set (wf_transformers w) \<union> {None}"
  shows "set nodes \<subseteq> set (nodes_of w) \<Longrightarrow> fst (build_nodes E w tfs retry nodes b) \<noteq> None"
proof (induction nodes arbitrary: b)
  case (Cons node rest)
  obtain r b1 where r: "build_node E w tfs retry node b = (r, b1)" by fastforce
  then have "r \<noteq> None" using build_node_no_panic [OF _ tf named, of node retry b] Cons.prems by simp
  moreover have "fst (build_nodes E w tfs retry rest b1) \<noteq> None" using Cons by simp
  ultimately show ?case using r by (auto split: option.splits sum.splits prod.splits)
qed simp

section \<open>Links\<close>

definition links_of :: "built_node list \<Rightarrow> (string \<times> string \<times> string option) set" where
  "links_of nodes = {(bn_id (nodes ! i), bn_id (nodes ! be_node e), be_branch e) | i e. i < length nodes \<and> e \<in> set (bn_downstream (nodes ! i))}"

text \<open>The declared nodes, each once and before the nodes behind it, linked as declared.\<close>

definition built_workflow :: "workflow_spec \<Rightarrow> built_node list \<Rightarrow> bool" where
  "built_workflow w nodes \<longleftrightarrow> distinct (map bn_id nodes) \<and> set (map node_of nodes) = set (nodes_of w) \<and>
     (\<forall>i < length nodes. \<forall>e \<in> set (bn_downstream (nodes ! i)). i < be_node e \<and> be_node e < length nodes) \<and>
     links_of nodes = (\<lambda>l. (ln_from l, ln_to l, ln_branch l)) ` set (wf_links w)"

lemma link_nodes_spec:
  "link_nodes w ids ls nodes = Inr nodes' \<Longrightarrow> length ids = length nodes \<Longrightarrow>
   length nodes' = length nodes \<and>
   (\<forall>i < length nodes. nodes' ! i = (nodes ! i)\<lparr>bn_downstream := bn_downstream (nodes' ! i)\<rparr> \<and>
     (\<forall>e. e \<in> set (bn_downstream (nodes' ! i)) \<longleftrightarrow> e \<in> set (bn_downstream (nodes ! i)) \<or>
        (\<exists>l \<in> set ls. name_to_idx ids (ln_from l) = Some i \<and> name_to_idx ids (ln_to l) = Some (be_node e) \<and> be_branch e = ln_branch l))) \<and>
   (\<forall>l \<in> set ls. name_to_idx ids (ln_from l) \<noteq> None \<and> name_to_idx ids (ln_to l) \<noteq> None)"
proof (induction ls arbitrary: nodes)
  case (Cons l ls)
  then obtain f t where ft: "name_to_idx ids (ln_from l) = Some f" "name_to_idx ids (ln_to l) = Some t"
    by (auto split: option.splits)
  let ?nodes = "nodes[f := (nodes ! f)\<lparr>bn_downstream := bn_downstream (nodes ! f) @ [\<lparr>be_node = t, be_branch = ln_branch l\<rparr>]\<rparr>]"
  have f: "f < length nodes" using name_to_idx_Some [OF ft(1)] Cons.prems(2) by simp
  have step: "link_nodes w ids ls ?nodes = Inr nodes'" using Cons.prems(1) ft by simp
  have edge: "e = \<lparr>be_node = t, be_branch = ln_branch l\<rparr> \<longleftrightarrow> be_node e = t \<and> be_branch e = ln_branch l" for e :: built_edge
    by (cases e) auto
  have "length ids = length ?nodes" using Cons.prems(2) by simp
  note IH = Cons.IH [OF step this]
  have each: "nodes' ! i = (nodes ! i)\<lparr>bn_downstream := bn_downstream (nodes' ! i)\<rparr> \<and>
     (\<forall>e. e \<in> set (bn_downstream (nodes' ! i)) \<longleftrightarrow> e \<in> set (bn_downstream (nodes ! i)) \<or>
        (\<exists>l \<in> set (l # ls). name_to_idx ids (ln_from l) = Some i \<and> name_to_idx ids (ln_to l) = Some (be_node e) \<and> be_branch e = ln_branch l))"
    if i: "i < length nodes" for i
  proof (cases "i = f")
    case True
    then show ?thesis using IH f ft by (auto simp: edge)
  next
    case False
    then show ?thesis using IH i ft by auto
  qed
  show ?case using IH each ft by simp
qed simp

lemma order_ids:
  assumes d: "distinct (map fst (nodes_of w))" and vs: "distinct vs" "set vs = {..<length (nodes_of w)}"
  shows "distinct (map (\<lambda>v. fst (nodes_of w ! v)) vs)" "set (map ((!) (nodes_of w)) vs) = set (nodes_of w)"
proof -
  have "inj_on (\<lambda>v. fst (nodes_of w ! v)) (set vs)" using d vs(2) by (auto simp: inj_on_def distinct_conv_nth)
  then show "distinct (map (\<lambda>v. fst (nodes_of w ! v)) vs)" using vs(1) by (simp add: distinct_map)
  show "set (map ((!) (nodes_of w)) vs) = set (nodes_of w)" unfolding set_map vs(2) by (auto simp: set_conv_nth)
qed

lemma order_edge:
  assumes d: "distinct (map fst (nodes_of w))" and vs: "distinct vs" "set vs = {..<length (nodes_of w)}"
    and first: "predecessors_first (link_edge w) vs" and l: "l \<in> set (wf_links w)"
    and f: "name_to_idx (map (\<lambda>v. fst (nodes_of w ! v)) vs) (ln_from l) = Some f"
    and t: "name_to_idx (map (\<lambda>v. fst (nodes_of w ! v)) vs) (ln_to l) = Some t"
  shows "f < t"
proof -
  have ft: "f < length vs" "ln_from l = fst (nodes_of w ! (vs ! f))" "t < length vs" "ln_to l = fst (nodes_of w ! (vs ! t))"
    using name_to_idx_Some [OF f] name_to_idx_Some [OF t] by auto
  have "vs ! f < length (nodes_of w)" "vs ! t < length (nodes_of w)" using vs(2) ft(1,3) nth_mem by blast+
  then have "(vs ! f, vs ! t) \<in> link_edge w"
    using name_to_idx_own [OF d, of "vs ! f"] name_to_idx_own [OF d, of "vs ! t"] l ft(2,4)
    by (auto simp: link_edge_def Let_def intro!: bexI [of _ l])
  then have "vs ! f \<in> set (take t vs)" using first ft(3) by (auto simp: predecessors_first_def)
  then obtain j where "j < t" "vs ! j = vs ! f" using ft(3) by (auto simp: in_set_conv_nth)
  then show "f < t" using vs(1) ft(1,3) by (metis nth_eq_iff_index_eq order_less_trans)
qed

section \<open>No panic\<close>

definition returns :: "check \<Rightarrow> bool" where "returns c \<longleftrightarrow> c \<noteq> None"

lemma returns_simps [simp]:
  "returns pass" "returns (refuse_graph wid msg)" "\<not> returns None"
  "returns c \<Longrightarrow> returns d \<Longrightarrow> returns (then_check c d)"
  by (auto simp: returns_def pass_def refuse_graph_def then_check_def split: option.splits sum.splits)

lemma check_list_returns: "(\<And>x. x \<in> set xs \<Longrightarrow> returns (f x)) \<Longrightarrow> returns (check_list f xs)"
  by (induction xs) auto

definition node_ready :: "built_node \<Rightarrow> bool" where
  "node_ready n \<longleftrightarrow> is_processor n \<or> bn_component n \<noteq> None"

lemma validate_edge_returns: "node_ready f \<Longrightarrow> node_ready t \<Longrightarrow> returns (validate_edge wid f t)"
  by (cases "bn_kind f"; cases "bn_kind t")
    (auto simp: validate_edge_def node_ready_def is_processor_def split: option.splits intro!: check_list_returns)

lemma delivered_by_no_panic:
  "\<forall>j \<in> set js. node_ready (nodes ! j) \<and> \<not> is_sink (nodes ! j) \<Longrightarrow> delivered_by nodes js \<noteq> None"
proof (induction js)
  case (Cons j js)
  then have j: "node_ready (nodes ! j)" "\<not> is_sink (nodes ! j)" and "delivered_by nodes js \<noteq> None" by simp_all
  then obtain ds where "delivered_by nodes js = Some ds" by blast
  then show ?case using j by (cases "bn_kind (nodes ! j)") (auto simp: node_ready_def is_processor_def is_sink_def)
qed simp

lemma graph_no_panic:
  assumes ready: "\<forall>n \<in> set nodes. node_ready n"
    and edges: "\<forall>n \<in> set nodes. \<forall>e \<in> set (bn_downstream n). \<not> is_sink n"
    and bound: "\<forall>n \<in> set nodes. \<forall>e \<in> set (bn_downstream n). be_node e < length nodes"
  shows "returns (validate_workflow_graph windows wid nodes)"
proof -
  have ex: "\<not> list_ex (\<lambda>n. list_ex (\<lambda>e. length nodes \<le> be_node e) (bn_downstream n)) nodes"
    using bound by (auto simp: list_ex_iff not_le)
  have edge: "returns (check_list (\<lambda>n. check_list (\<lambda>e. validate_edge wid n (nodes ! be_node e)) (bn_downstream n)) nodes)"
    by (intro check_list_returns validate_edge_returns) (use ready bound in auto)
  have cov: "returns (validate_processor_coverage wid nodes i)" if p: "is_processor (nodes ! i)" for i
  proof -
    obtain r k where "bn_kind (nodes ! i) = Built_Processor r k" using p by (cases "bn_kind (nodes ! i)") (simp_all add: is_processor_def)
    then show ?thesis by (simp add: validate_processor_coverage_def Let_def check_list_returns)
  qed
  have ins: "delivered_by nodes (inbound nodes i) \<noteq> None" for i
    by (rule delivered_by_no_panic) (use ready edges in \<open>auto simp: inbound_set\<close>)
  have field: "returns (check_time_field wid i name d)" for i name d
    by (simp add: check_time_field_def split: option.split arrow_type.split)
  have window: "returns (validate_node_window wid nodes i win)" for i win
    using ins [of i] by (auto simp: validate_node_window_def Let_def intro!: check_list_returns field)
  have windows: "returns (check_list (\<lambda>i. case bn_window (nodes ! i) of None \<Rightarrow> pass | Some win \<Rightarrow> validate_node_window wid nodes i win) [0..<length nodes])"
    by (rule check_list_returns) (simp add: window split: option.split)
  show ?thesis using ex edge windows
    by (auto simp: validate_workflow_graph_def cov intro!: returns_simps(4) check_list_returns)
qed

section \<open>Building a workflow\<close>

lemma acyclic_of_ok:
  assumes "workflow_ok mode w"
  shows "acyclic (link_edge w)"
proof -
  have d: "distinct (map fst (nodes_of w))" using assms by (simp add: workflow_ok_def ids_ok_def declared_nodes)
  show ?thesis using assms check_links_ok [OF d] by (simp add: workflow_ok_def)
qed

lemma linked_nodes:
  assumes ns: "map node_of ns = map ((!) (nodes_of w)) vs" "list_all fresh_node ns"
    and linked: "link_nodes w (map (\<lambda>v. fst (nodes_of w ! v)) vs) (wf_links w) ns = Inr nodes"
  shows "map node_of nodes = map ((!) (nodes_of w)) vs" "\<forall>n \<in> set nodes. node_ready n"
    "map bn_id nodes = map (\<lambda>v. fst (nodes_of w ! v)) vs"
    "i < length nodes \<Longrightarrow> e \<in> set (bn_downstream (nodes ! i)) \<longleftrightarrow> (\<exists>l \<in> set (wf_links w).
       name_to_idx (map (\<lambda>v. fst (nodes_of w ! v)) vs) (ln_from l) = Some i \<and>
       name_to_idx (map (\<lambda>v. fst (nodes_of w ! v)) vs) (ln_to l) = Some (be_node e) \<and> be_branch e = ln_branch l)"
    "l \<in> set (wf_links w) \<Longrightarrow> \<exists>f t. name_to_idx (map (\<lambda>v. fst (nodes_of w ! v)) vs) (ln_from l) = Some f \<and>
       name_to_idx (map (\<lambda>v. fst (nodes_of w ! v)) vs) (ln_to l) = Some t"
proof -
  let ?ids = "map (\<lambda>v. fst (nodes_of w ! v)) vs"
  have len: "length ?ids = length ns" using ns(1) by (metis length_map)
  note L = link_nodes_spec [OF linked len]
  have same: "node_of (nodes ! i) = node_of (ns ! i) \<and> bn_component (nodes ! i) = bn_component (ns ! i) \<and> bn_kind (nodes ! i) = bn_kind (ns ! i)"
    if "i < length ns" for i
  proof -
    have eq: "nodes ! i = (ns ! i)\<lparr>bn_downstream := bn_downstream (nodes ! i)\<rparr>" using L that by simp
    show ?thesis by (subst eq, simp add: node_of_def)+
  qed
  have fresh: "fresh_node (ns ! i)" if "i < length ns" for i using ns(2) that by (simp add: list_all_iff)
  show nodes: "map node_of nodes = map ((!) (nodes_of w)) vs"
    unfolding ns(1) [symmetric] by (rule nth_equalityI) (use L same in auto)
  show "map bn_id nodes = ?ids" using arg_cong [OF nodes, of "map fst"] by (simp add: node_of_def comp_def)
  show "\<forall>n \<in> set nodes. node_ready n"
  proof
    fix n assume "n \<in> set nodes"
    then obtain i where i: "i < length ns" "nodes ! i = n" using L by (metis in_set_conv_nth)
    then show "node_ready n" using same [OF i(1)] fresh [OF i(1)] by (auto simp: node_ready_def fresh_node_def is_processor_def)
  qed
  show "e \<in> set (bn_downstream (nodes ! i)) \<longleftrightarrow> (\<exists>l \<in> set (wf_links w). name_to_idx ?ids (ln_from l) = Some i \<and>
      name_to_idx ?ids (ln_to l) = Some (be_node e) \<and> be_branch e = ln_branch l)" if "i < length nodes"
    using L fresh [of i] that by (simp add: fresh_node_def)
  show "\<exists>f t. name_to_idx ?ids (ln_from l) = Some f \<and> name_to_idx ?ids (ln_to l) = Some t" if "l \<in> set (wf_links w)"
    using L that by blast
qed

lemma linked_links:
  assumes ids: "map bn_id nodes = ids"
    and down: "\<And>i e. i < length nodes \<Longrightarrow> e \<in> set (bn_downstream (nodes ! i)) \<longleftrightarrow> (\<exists>l \<in> set (wf_links w).
       name_to_idx ids (ln_from l) = Some i \<and> name_to_idx ids (ln_to l) = Some (be_node e) \<and> be_branch e = ln_branch l)"
    and known: "\<And>l. l \<in> set (wf_links w) \<Longrightarrow> \<exists>f t. name_to_idx ids (ln_from l) = Some f \<and> name_to_idx ids (ln_to l) = Some t"
  shows "links_of nodes = (\<lambda>l. (ln_from l, ln_to l, ln_branch l)) ` set (wf_links w)"
proof -
  have at_idx: "name_to_idx ids i = Some u \<Longrightarrow> u < length nodes \<and> bn_id (nodes ! u) = i" for i u
    using name_to_idx_Some [of ids i u] ids by auto
  show ?thesis
  proof (intro equalityI subsetI)
    fix x assume "x \<in> links_of nodes"
    then obtain i e where x: "x = (bn_id (nodes ! i), bn_id (nodes ! be_node e), be_branch e)" and i: "i < length nodes"
      and e: "e \<in> set (bn_downstream (nodes ! i))" by (auto simp: links_of_def)
    obtain l where l: "l \<in> set (wf_links w)" "name_to_idx ids (ln_from l) = Some i" "name_to_idx ids (ln_to l) = Some (be_node e)"
      "be_branch e = ln_branch l" using e down [OF i] by blast
    have "x = (ln_from l, ln_to l, ln_branch l)" using at_idx [OF l(2)] at_idx [OF l(3)] l(4) by (simp add: x)
    then show "x \<in> (\<lambda>l. (ln_from l, ln_to l, ln_branch l)) ` set (wf_links w)" using l(1) by blast
  next
    fix x assume "x \<in> (\<lambda>l. (ln_from l, ln_to l, ln_branch l)) ` set (wf_links w)"
    then obtain l where l: "l \<in> set (wf_links w)" "x = (ln_from l, ln_to l, ln_branch l)" by blast
    obtain f t where ft: "name_to_idx ids (ln_from l) = Some f" "name_to_idx ids (ln_to l) = Some t" using known [OF l(1)] by blast
    have mem: "\<lparr>be_node = t, be_branch = ln_branch l\<rparr> \<in> set (bn_downstream (nodes ! f))"
      using down at_idx [OF ft(1)] l(1) ft by auto
    have "x = (bn_id (nodes ! f), bn_id (nodes ! be_node \<lparr>be_node = t, be_branch = ln_branch l\<rparr>), be_branch \<lparr>be_node = t, be_branch = ln_branch l\<rparr>)"
      using at_idx [OF ft(1)] at_idx [OF ft(2)] l(2) by simp
    then show "x \<in> links_of nodes" using mem at_idx [OF ft(1)] unfolding links_of_def by blast
  qed
qed

lemma linked_workflow:
  assumes ok: "workflow_ok mode w" and order: "topological_order w = Inr vs"
    and ns: "map node_of ns = map ((!) (nodes_of w)) vs" "list_all fresh_node ns"
    and linked: "link_nodes w (map (\<lambda>v. fst (nodes_of w ! v)) vs) (wf_links w) ns = Inr nodes"
  shows "built_workflow w nodes" "\<forall>n \<in> set nodes. \<forall>e \<in> set (bn_downstream n). \<not> is_sink n"
proof -
  have d: "distinct (map fst (nodes_of w))" using ok by (simp add: workflow_ok_def ids_ok_def declared_nodes)
  have vs: "distinct vs" "set vs = {..<length (nodes_of w)}" "predecessors_first (link_edge w) vs"
    using topological_order_holds [of w] order by (auto split: if_splits)
  let ?ids = "map (\<lambda>v. fst (nodes_of w ! v)) vs"
  note N = linked_nodes [OF ns linked]
  have at_idx: "name_to_idx ?ids i = Some u \<Longrightarrow> u < length nodes \<and> bn_id (nodes ! u) = i" for i u
    using name_to_idx_Some [of ?ids i u] N(3) by (metis length_map nth_map)
  have forward: "i < be_node e \<and> be_node e < length nodes" if i: "i < length nodes" and e: "e \<in> set (bn_downstream (nodes ! i))" for i e
  proof -
    obtain l where l: "l \<in> set (wf_links w)" "name_to_idx ?ids (ln_from l) = Some i" "name_to_idx ?ids (ln_to l) = Some (be_node e)"
      using e N(4) [OF i] by blast
    show ?thesis using order_edge [OF d vs l] at_idx [OF l(3)] by simp
  qed
  show "built_workflow w nodes"
    using order_ids [OF d vs(1,2)] N(1,3) forward linked_links [OF N(3) N(4) N(5)] by (simp add: built_workflow_def del: set_map map_map)
  show "\<forall>n \<in> set nodes. \<forall>e \<in> set (bn_downstream n). \<not> is_sink n"
  proof (intro ballI)
    fix n e assume n: "n \<in> set nodes" and e: "e \<in> set (bn_downstream n)"
    then obtain i where i: "i < length nodes" "nodes ! i = n" by (auto simp: in_set_conv_nth)
    obtain l where l: "l \<in> set (wf_links w)" "name_to_idx ?ids (ln_from l) = Some i" using N(4) [OF i(1), of e] e i(2) by blast
    have "ln_from l \<in> source_ids w \<union> processor_ids w" using ok l(1) by (auto simp: workflow_ok_def links_ok_def link_ends)
    then have "bn_id n \<notin> sink_ids w" using kinds_disjoint [OF d] at_idx [OF l(2)] i(2) by auto
    moreover have "node_of n \<in> set (nodes_of w)"
      using n order_ids(2) [OF d vs(1,2)] N(1) by (metis imageI list.set_map)
    ultimately show "\<not> is_sink n"
      using node_kinds(3) [OF d, of "bn_id n"] node_kind_of_iff [OF d, of "bn_id n" Sink_Node]
      by (cases "bn_kind n") (auto simp: is_sink_def node_of_def)
  qed
qed

text \<open>
  C12. Building a workflow that passed its rules does not panic, whatever the registry, the factories
  and the loaders answer; what it builds is the declared graph, every node before the nodes behind
  it, and every link carries the components both of its ends describe under one schema.
\<close>

theorem build_one_sound:
  assumes valid: "validate_workflow shown mode w = Inr ()" and build: "build_one E retry w b = (r, b')"
  shows "\<exists>res. r = Some res \<and> (\<forall>nodes. res = Inr nodes \<longrightarrow>
    built_workflow w nodes \<and> graph_rules (ft_windows (en_features E)) nodes)"
proof -
  have ok: "workflow_ok mode w" using valid by (simp add: validate_workflow_holds)
  then have d: "distinct (map fst (nodes_of w))" by (simp add: workflow_ok_def ids_ok_def declared_nodes)
  show ?thesis
  proof (cases "build_transformers E (wf_transformers w)")
    case (Inl e)
    then show ?thesis using build by (auto simp: build_one_def)
  next
    case tf: (Inr tfs)
    obtain vs where vs: "topological_order w = Inr vs" "distinct vs" "set vs = {..<length (nodes_of w)}"
      using topological_order_holds [of w] acyclic_of_ok [OF ok] by auto
    let ?ids = "map (\<lambda>v. fst (nodes_of w ! v)) vs"
    obtain s b1 where s: "build_nodes E w tfs retry (map ((!) (nodes_of w)) vs) b = (s, b1)" by fastforce
    have "s \<noteq> None"
      using build_nodes_no_panic [OF tf, of "map ((!) (nodes_of w)) vs" retry b] s ok order_ids(2) [OF d vs(2,3)]
      by (simp add: workflow_ok_def blocks_ok_def)
    then consider e where "s = Some (Inl e)" | ns where "s = Some (Inr ns)" by (metis option.exhaust sum.exhaust)
    then show ?thesis
    proof cases
      case (1 e)
      then show ?thesis using build tf vs(1) s by (auto simp: build_one_def)
    next
      case (2 ns)
      note B = build_nodes_built [OF s [unfolded 2]]
      show ?thesis
      proof (cases "link_nodes w ?ids (wf_links w) ns")
        case (Inl e)
        then show ?thesis using build tf vs(1) s 2 by (auto simp: build_one_def)
      next
        case (Inr nodes)
        note W = linked_workflow [OF ok vs(1) B [THEN conjunct1] B [THEN conjunct2] Inr]
        note N = linked_nodes(2) [OF B [THEN conjunct1] B [THEN conjunct2] Inr]
        have "\<forall>n \<in> set nodes. \<forall>e \<in> set (bn_downstream n). be_node e < length nodes"
          using W(1) by (force simp: built_workflow_def in_set_conv_nth)
        from graph_no_panic [OF N W(2) this] obtain g where
          "validate_workflow_graph (ft_windows (en_features E)) (wf_id w) nodes = Some g" by (auto simp: returns_def)
        then show ?thesis
          using build tf vs(1) s 2 Inr W(1) validate_workflow_graph_holds [of "ft_windows (en_features E)" "wf_id w" nodes]
          by (auto simp: build_one_def res_bind_def split: sum.splits if_splits)
      qed
    qed
  qed
qed

definition sample_fields :: arrow_fields where
  "sample_fields = [\<lparr>af_name = ''ts'', af_type = Arrow_Int64, af_nullable = False, af_metadata = []\<rparr>]"

definition sample_factory :: "unit connector_factory" where
  "sample_factory = \<lparr>fa_rebuildable = (\<lambda>_. Inr ()), fa_build = (\<lambda>_ _ _ _. Inr sample_fields)\<rparr>"

definition sample_env :: "unit build_env" where
  "sample_env = \<lparr>en_features = \<lparr>ft_wasm = True, ft_plugin = False, ft_windows = True, ft_cluster = False\<rparr>,
     en_sources = (\<lambda>_. Some sample_factory), en_sinks = (\<lambda>_. Some sample_factory), en_transformers = [], en_new_engine = Inr (),
     en_load_wasm = (\<lambda>_. Inl (Generic [])), en_load_plugin = (\<lambda>_. Inl (Generic [])), en_open_dlq = (\<lambda>_. Inr ()),
     en_heal = no_heal_block, en_service = ''node''\<rparr>"

definition sample_builder :: builder where
  "sample_builder = \<lparr>bd_runtimes = [(''p'', \<lparr>rt_components = [''Row''], rt_template = [(''Row'', sample_fields)]\<rparr>)], bd_engine = False\<rparr>"

theorem build_one_sound_witness:
  "\<exists>nodes b'. build_one sample_env True (sv_workflows sample_service ! 0) sample_builder = (Some (Inr nodes), b') \<and>
     length nodes = 4 \<and> built_workflow (sv_workflows sample_service ! 0) nodes \<and> graph_rules True nodes"
proof -
  have valid: "validate_workflow (\<lambda>_. []) (Standalone One_Shot) (sv_workflows sample_service ! 0) = Inr ()" by code_simp
  have run: "case build_one sample_env True (sv_workflows sample_service ! 0) sample_builder of
      (Some (Inr nodes), b') \<Rightarrow> length nodes = 4 | _ \<Rightarrow> False" by code_simp
  obtain r b' where r: "build_one sample_env True (sv_workflows sample_service ! 0) sample_builder = (r, b')" by fastforce
  with run obtain nodes where nodes: "r = Some (Inr nodes)" "length nodes = 4" by (auto split: option.splits sum.splits)
  from build_one_sound [OF valid r] nodes r show ?thesis by (auto simp: sample_env_def)
qed

end
