(* ===== verification/Dataset.thy ===== *)
theory Dataset
  imports Workflow_Graph
begin

text \<open>
  The columnar data container, \<^verbatim>\<open>saci-core/src/dataset.rs\<close> with its submodules, and the schema
  registry of \<^verbatim>\<open>schema.rs\<close>. A record batch is its fields, its columns and its row count. The Arrow
  kernels are the record \<open>arrow_ops\<close>. A hash map is an association list whose order is the order in
  which the map is iterated. A panic is \<open>None\<close>; an operation that fails returns the data set as it
  leaves it.
\<close>

section \<open>Batches and kernels\<close>

record 'v record_batch =
  rb_fields :: arrow_fields
  rb_columns :: "'v list list"
  rb_rows :: nat

definition new_empty :: "arrow_fields \<Rightarrow> 'v record_batch" where
  "new_empty fs = \<lparr>rb_fields = fs, rb_columns = map (\<lambda>_. []) fs, rb_rows = 0\<rparr>"

record 'v arrow_ops =
  ar_concat :: "arrow_fields \<Rightarrow> 'v record_batch list \<Rightarrow> string + 'v record_batch"
  ar_filter :: "bool list \<Rightarrow> 'v record_batch \<Rightarrow> string + 'v record_batch"
  ar_try_new :: "arrow_fields \<Rightarrow> 'v list list \<Rightarrow> string + 'v record_batch"
  ar_debug :: "arrow_fields \<Rightarrow> string"

section \<open>Schema registry\<close>

record 'v schema_entry =
  se_version :: nat
  se_schema :: arrow_fields
  se_migrate :: "nat \<Rightarrow> 'v record_batch \<Rightarrow> 'v record_batch saci_result"

type_synonym 'v component_schemas = "(string \<times> 'v schema_entry) list"

text \<open>What the trait \<^verbatim>\<open>Component\<close> answers for a type.\<close>

record 'v component_type =
  ct_name :: string
  ct_entry :: "'v schema_entry"

definition register_schema :: "'v component_type \<Rightarrow> 'v component_schemas \<Rightarrow> 'v component_schemas" where
  "register_schema c r = (if map_of r (ct_name c) = None then r @ [(ct_name c, ct_entry c)] else r)"

definition raw_entry :: "string \<Rightarrow> arrow_fields \<Rightarrow> nat \<Rightarrow> 'v schema_entry" where
  "raw_entry name schema version = \<lparr>se_version = version, se_schema = schema,
     se_migrate = (\<lambda>from b. if from = version then Inr b
       else Inl (Configuration (''component '' @ quoted name @ '' version mismatch: on-disk='' @ dec_string from @
         '', current='' @ dec_string version)))\<rparr>"

definition register_raw :: "string \<Rightarrow> arrow_fields \<Rightarrow> nat \<Rightarrow> 'v component_schemas \<Rightarrow> 'v component_schemas" where
  "register_raw name schema version r = (if map_of r name = None then r @ [(name, raw_entry name schema version)] else r)"

definition schema_of :: "'v component_schemas \<Rightarrow> string \<Rightarrow> arrow_fields option" where
  "schema_of r name = map_option se_schema (map_of r name)"

definition migrate_batch :: "'v component_schemas \<Rightarrow> string \<Rightarrow> nat \<Rightarrow> 'v record_batch \<Rightarrow> 'v record_batch saci_result" where
  "migrate_batch r name from b =
     (case map_of r name of
        Some entry \<Rightarrow> se_migrate entry from b
      | None \<Rightarrow> Inl (Configuration (''SchemaRegistry::migrate: component '' @ quoted name @ '' is not registered'')))"

text \<open>FNV-1a over 32 bits: names in ascending order, each with its version and its field names.\<close>

definition fnv_step :: "nat \<Rightarrow> nat \<Rightarrow> nat" where
  "fnv_step h b = (xor h b) * 16777619 mod 2 ^ 32"

definition fnv_bytes :: "nat list \<Rightarrow> nat \<Rightarrow> nat" where "fnv_bytes bs h = fold (\<lambda>b h. fnv_step h b) bs h"

definition name_bytes :: "string \<Rightarrow> nat list" where "name_bytes s = map of_char s"

definition le_bytes4 :: "nat \<Rightarrow> nat list" where "le_bytes4 v = map (\<lambda>i. v div 256 ^ i mod 256) [0, 1, 2, 3]"

definition fingerprint :: "'v component_schemas \<Rightarrow> nat" where
  "fingerprint r =
     fold (\<lambda>name h. case map_of r name of
         None \<Rightarrow> h
       | Some entry \<Rightarrow> fnv_bytes (concat (map (\<lambda>f. name_bytes (af_name f)) (se_schema entry)))
           (fnv_bytes (le_bytes4 (se_version entry)) (fnv_bytes (name_bytes name) h)))
       (map (map char_of) (sort (map name_bytes (map fst r)))) 2166136261"

section \<open>The container\<close>

record ('v, 'z) dataset =
  ds_components :: "(string \<times> 'v record_batch list) list"
  ds_cache :: "(string \<times> 'v record_batch) list"
  ds_templates :: "(string \<times> 'v record_batch) list"
  ds_schemas :: "'v component_schemas"
  ds_row_count :: nat
  ds_alive :: "bool list"
  ds_live :: nat
  ds_dead :: nat
  ds_resources :: "(nat \<times> 'z) list"

definition new_dataset :: "('v, 'z) dataset" where
  "new_dataset = \<lparr>ds_components = [], ds_cache = [], ds_templates = [], ds_schemas = [], ds_row_count = 0, ds_alive = [],
     ds_live = 0, ds_dead = 0, ds_resources = []\<rparr>"

definition MERGE_THRESHOLD :: nat where "MERGE_THRESHOLD = 16"

text \<open>An outcome: a result and the data set left behind, or a panic.\<close>

type_synonym ('a, 'v, 'z) data_outcome = "('a saci_result \<times> ('v, 'z) dataset) option"

fun put :: "'k \<Rightarrow> 'a \<Rightarrow> ('k \<times> 'a) list \<Rightarrow> ('k \<times> 'a) list" where
  "put k v [] = [(k, v)]"
| "put k v ((k', v') # m) = (if k' = k then (k, v) # m else (k', v') # put k v m)"

definition without :: "'k \<Rightarrow> ('k \<times> 'a) list \<Rightarrow> ('k \<times> 'a) list" where
  "without k m = filter (\<lambda>(k', _). k' \<noteq> k) m"

definition chunk_rows :: "'v record_batch list \<Rightarrow> nat" where
  "chunk_rows chunks = sum_list (map rb_rows chunks)"

section \<open>Registration\<close>

definition register_component :: "'v component_type \<Rightarrow> ('v, 'z) dataset \<Rightarrow> unit saci_result \<times> ('v, 'z) dataset" where
  "register_component c d =
     (if map_of (ds_schemas d) (ct_name c) \<noteq> None then (Inr (), d)
      else if ds_row_count d \<noteq> 0
      then (Inl (Configuration (''Dataset: cannot register new component '' @ quoted (ct_name c) @
        '' after rows have been appended (row_count='' @ dec_string (ds_row_count d) @
        ''). Register all components before appending data, or call clear() first.'')), d)
      else
        let empty = new_empty (se_schema (ct_entry c))
        in (Inr (), d\<lparr>ds_schemas := register_schema c (ds_schemas d), ds_templates := put (ct_name c) empty (ds_templates d),
             ds_components := put (ct_name c) [empty] (ds_components d)\<rparr>))"

definition register_raw_component :: "string \<Rightarrow> arrow_fields \<Rightarrow> nat \<Rightarrow> ('v, 'z) dataset \<Rightarrow> ('v, 'z) dataset option" where
  "register_raw_component name schema version d =
     (if map_of (ds_schemas d) name \<noteq> None then Some d
      else if ds_row_count d \<noteq> 0 then None
      else
        let empty = new_empty schema
        in Some (d\<lparr>ds_schemas := register_raw name schema version (ds_schemas d), ds_templates := put name empty (ds_templates d),
             ds_components := put name [empty] (ds_components d)\<rparr>))"

section \<open>Chunks\<close>

definition compact_chunks :: "'v arrow_ops \<Rightarrow> arrow_fields \<Rightarrow> 'v record_batch list \<Rightarrow> 'v record_batch list saci_result" where
  "compact_chunks K schema chunks =
     (if length chunks \<le> 1 then Inr chunks
      else (case ar_concat K schema chunks of
         Inl e \<Rightarrow> Inl (Generic (''arrow concat_batches error: '' @ e))
       | Inr merged \<Rightarrow> Inr [merged]))"

text \<open>The loop over the components, which stops at the first that fails.\<close>

fun flush_loop :: "'v arrow_ops \<Rightarrow> string list \<Rightarrow> ('v, 'z) dataset \<Rightarrow> (unit, 'v, 'z) data_outcome" where
  "flush_loop K [] d = Some (Inr (), d)"
| "flush_loop K (name # names) d =
     (case map_of (ds_components d) name of
        None \<Rightarrow> flush_loop K names d
      | Some chunks \<Rightarrow>
          if length chunks > 1 then
            (case schema_of (ds_schemas d) name of
               None \<Rightarrow> None
             | Some schema \<Rightarrow>
                 (case ar_concat K schema chunks of
                    Inl e \<Rightarrow> Some (Inl (Generic (''arrow concat_batches error: '' @ e)), d)
                  | Inr merged \<Rightarrow>
                      flush_loop K names (d\<lparr>ds_components := put name [merged] (ds_components d), ds_cache := without name (ds_cache d)\<rparr>)))
          else flush_loop K names d)"

definition flush_all_pending :: "'v arrow_ops \<Rightarrow> ('v, 'z) dataset \<Rightarrow> (unit, 'v, 'z) data_outcome" where
  "flush_all_pending K d = flush_loop K (map fst (ds_components d)) d"

text \<open>The merged batch of a registered component, from the cache or built and cached.\<close>

definition get_or_build_merged :: "'v arrow_ops \<Rightarrow> string \<Rightarrow> ('v, 'z) dataset \<Rightarrow> ('v record_batch \<times> ('v, 'z) dataset) option" where
  "get_or_build_merged K name d =
     (case map_of (ds_cache d) name of
        Some b \<Rightarrow> Some (b, d)
      | None \<Rightarrow>
          (case map_of (ds_components d) name of
             None \<Rightarrow> None
           | Some chunks \<Rightarrow>
               if length chunks = 1 then Some (hd chunks, d\<lparr>ds_cache := put name (hd chunks) (ds_cache d)\<rparr>)
               else (case schema_of (ds_schemas d) name of
                  None \<Rightarrow> None
                | Some schema \<Rightarrow>
                    (case ar_concat K schema chunks of
                       Inl _ \<Rightarrow> None
                     | Inr merged \<Rightarrow> Some (merged, d\<lparr>ds_cache := put name merged (ds_cache d)\<rparr>)))))"

section \<open>Reads\<close>

definition batch_for :: "'v arrow_ops \<Rightarrow> string \<Rightarrow> ('v, 'z) dataset \<Rightarrow> ('v record_batch option \<times> ('v, 'z) dataset) option" where
  "batch_for K name d =
     (if map_of (ds_schemas d) name = None then Some (None, d)
      else map_option (\<lambda>(b, d'). (Some b, d')) (get_or_build_merged K name d))"

definition dataset_column :: "'v arrow_ops \<Rightarrow> string \<Rightarrow> string \<Rightarrow> ('v, 'z) dataset \<Rightarrow> ('v list option \<times> ('v, 'z) dataset) option" where
  "dataset_column K name field d =
     map_option (\<lambda>(found, d'). (case found of
         None \<Rightarrow> None
       | Some b \<Rightarrow> map_option (\<lambda>i. rb_columns b ! i) (position (\<lambda>f. af_name f = field) (rb_fields b)), d')) (batch_for K name d)"

definition rows :: "('v, 'z) dataset \<Rightarrow> nat" where "rows d = ds_row_count d"
definition live_rows :: "('v, 'z) dataset \<Rightarrow> nat" where "live_rows d = ds_live d"

definition is_alive :: "nat \<Rightarrow> ('v, 'z) dataset \<Rightarrow> bool" where
  "is_alive row d = (if length (ds_alive d) \<le> row then False else ds_alive d ! row)"

section \<open>Appending\<close>

text \<open>
  The common end of both appends: push the chunk, merge at the threshold, forget the cached batch
  and extend the rows. The range is of \<^verbatim>\<open>u32\<close> rows.
\<close>

definition push_chunk ::
  "'v arrow_ops \<Rightarrow> string \<Rightarrow> arrow_fields \<Rightarrow> 'v record_batch list \<Rightarrow> nat \<Rightarrow> 'v record_batch \<Rightarrow> ('v, 'z) dataset \<Rightarrow> (nat \<times> nat, 'v, 'z) data_outcome" where
  "push_chunk K name schema chunks n b d =
     (let old_len = chunk_rows chunks; pushed = chunks @ [b]
      in case (if MERGE_THRESHOLD \<le> length pushed then compact_chunks K schema pushed else Inr pushed) of
           Inl e \<Rightarrow> Some (Inl e, d\<lparr>ds_components := put name pushed (ds_components d)\<rparr>)
         | Inr chunks' \<Rightarrow>
             let d' = d\<lparr>ds_components := put name chunks' (ds_components d), ds_cache := without name (ds_cache d)\<rparr>;
                 new_len = old_len + n; extension = new_len - ds_row_count d
             in if ds_row_count d < new_len
                then Some (Inr (ds_row_count d mod 2 ^ 32, new_len mod 2 ^ 32),
                  d'\<lparr>ds_alive := ds_alive d @ replicate extension True, ds_live := ds_live d + extension, ds_row_count := new_len\<rparr>)
                else Some (Inr (old_len mod 2 ^ 32, new_len mod 2 ^ 32), d'))"

definition mismatch :: "'v arrow_ops \<Rightarrow> string \<Rightarrow> arrow_fields \<Rightarrow> arrow_fields \<Rightarrow> saci_error" where
  "mismatch K head got expected = Generic (head @ ''got '' @ ar_debug K got @ '', expected '' @ ar_debug K expected)"

text \<open>\<open>encoded\<close> is what \<^verbatim>\<open>Component::to_record_batch\<close> makes of the values.\<close>

definition append_values ::
  "'v arrow_ops \<Rightarrow> string \<Rightarrow> 'a list \<Rightarrow> ('a list \<Rightarrow> 'v record_batch saci_result) \<Rightarrow> ('v, 'z) dataset \<Rightarrow> (nat \<times> nat, 'v, 'z) data_outcome" where
  "append_values K name values encoded d =
     (case schema_of (ds_schemas d) name of
        None \<Rightarrow> Some (Inl (Generic (''Dataset: component '' @ quoted name @ '' is not registered; call register_component::<'' @ name @ ''>() first'')), d)
      | Some schema \<Rightarrow>
          if values = [] then Some (Inr (ds_row_count d mod 2 ^ 32, ds_row_count d mod 2 ^ 32), d)
          else (case encoded values of
             Inl e \<Rightarrow> Some (Inl e, d)
           | Inr b \<Rightarrow>
               if rb_fields b \<noteq> schema
               then Some (Inl (mismatch K (''Dataset: append for '' @ quoted name @ '' produced schema mismatch: '') (rb_fields b) schema), d)
               else (case map_of (ds_components d) name of
                  None \<Rightarrow> None
                | Some chunks \<Rightarrow> push_chunk K name schema chunks (length values) b d)))"

definition append_record_batch :: "'v arrow_ops \<Rightarrow> string \<Rightarrow> 'v record_batch \<Rightarrow> ('v, 'z) dataset \<Rightarrow> (nat \<times> nat, 'v, 'z) data_outcome" where
  "append_record_batch K name b d =
     (case schema_of (ds_schemas d) name of
        None \<Rightarrow> Some (Inl (Generic (''Dataset: component '' @ quoted name @
          '' is not registered; call register_raw_component() or register_component() first'')), d)
      | Some schema \<Rightarrow>
          if rb_rows b = 0 then Some (Inr (ds_row_count d mod 2 ^ 32, ds_row_count d mod 2 ^ 32), d)
          else if rb_fields b \<noteq> schema
          then Some (Inl (mismatch K (''Dataset::append_record_batch: schema mismatch for '' @ quoted name @ '': '') (rb_fields b) schema), d)
          else (case map_of (ds_components d) name of
             None \<Rightarrow> None
           | Some chunks \<Rightarrow>
               let chunks' = (if length chunks = 1 \<and> rb_rows (hd chunks) = 0 then [] else chunks)
               in push_chunk K name schema chunks' (rb_rows b) b d))"

section \<open>Forwarding\<close>

text \<open>The components \<open>dst\<close> declares and \<open>src\<close> holds; reading \<open>src\<close> may fill its cache.\<close>

fun forward_loop ::
  "'v arrow_ops \<Rightarrow> string list \<Rightarrow> nat \<Rightarrow> ('v, 'z) dataset \<Rightarrow> ('v, 'z) dataset \<Rightarrow> (nat saci_result \<times> ('v, 'z) dataset \<times> ('v, 'z) dataset) option" where
  "forward_loop K [] n src dst = Some (Inr n, src, dst)"
| "forward_loop K (name # names) n src dst =
     (case batch_for K name src of
        None \<Rightarrow> None
      | Some (None, src') \<Rightarrow> forward_loop K names n src' dst
      | Some (Some b, src') \<Rightarrow>
          (case append_record_batch K name b dst of
             None \<Rightarrow> None
           | Some (Inl e, dst') \<Rightarrow> Some (Inl e, src', dst')
           | Some (Inr _, dst') \<Rightarrow> forward_loop K names (n + rb_rows b) src' dst'))"

definition forward_into ::
  "'v arrow_ops \<Rightarrow> ('v, 'z) dataset \<Rightarrow> ('v, 'z) dataset \<Rightarrow> (nat saci_result \<times> ('v, 'z) dataset \<times> ('v, 'z) dataset) option" where
  "forward_into K src dst = forward_loop K (map fst (ds_schemas dst)) 0 src dst"

section \<open>Deletes\<close>

definition mark_dead :: "nat \<Rightarrow> ('v, 'z) dataset \<Rightarrow> ('v, 'z) dataset" where
  "mark_dead row d =
     (if row < length (ds_alive d) \<and> ds_alive d ! row
      then d\<lparr>ds_alive := (ds_alive d)[row := False], ds_dead := ds_dead d + 1, ds_live := ds_live d - 1\<rparr>
      else d)"

definition should_compact :: "('v, 'z) dataset \<Rightarrow> bool" where
  "should_compact d \<longleftrightarrow> ds_row_count d \<noteq> 0 \<and> ds_row_count d div 4 < ds_dead d"

text \<open>The loop over the components, which stops at the first that fails.\<close>

fun filter_loop :: "'v arrow_ops \<Rightarrow> bool list \<Rightarrow> (string \<times> 'v record_batch list) list \<Rightarrow> (unit saci_result \<times> (string \<times> 'v record_batch list) list) option" where
  "filter_loop K alive [] = Some (Inr (), [])"
| "filter_loop K alive ((name, chunks) # rest) =
     (case chunks of
        [] \<Rightarrow> None
      | b # bs \<Rightarrow>
          (case ar_filter K alive b of
             Inl e \<Rightarrow> Some (Inl (Generic (''compact filter error: '' @ e)), (name, chunks) # rest)
           | Inr b' \<Rightarrow> map_option (\<lambda>(r, rest'). (r, (name, b' # bs) # rest')) (filter_loop K alive rest)))"

definition compact :: "'v arrow_ops \<Rightarrow> ('v, 'z) dataset \<Rightarrow> (unit, 'v, 'z) data_outcome" where
  "compact K d =
     (if ds_dead d = 0 then Some (Inr (), d)
      else (case flush_all_pending K d of
         None \<Rightarrow> None
       | Some (Inl e, d') \<Rightarrow> Some (Inl e, d')
       | Some (Inr _, d') \<Rightarrow>
           (case filter_loop K (ds_alive d) (ds_components d') of
              None \<Rightarrow> None
            | Some (Inl e, comps) \<Rightarrow> Some (Inl e, d'\<lparr>ds_components := comps\<rparr>)
            | Some (Inr _, comps) \<Rightarrow>
                Some (Inr (), d'\<lparr>ds_components := comps, ds_cache := [], ds_alive := replicate (ds_live d) True,
                  ds_row_count := ds_live d, ds_dead := 0\<rparr>))))"

section \<open>Emptying\<close>

definition clone_empty :: "('v, 'z) dataset \<Rightarrow> ('v, 'z) dataset option" where
  "clone_empty d =
     (if list_ex (\<lambda>(name, chunks). chunks = [] \<and> schema_of (ds_schemas d) name = None) (ds_components d) then None
      else Some (fold (\<lambda>(name, chunks) acc.
        let schema = (case chunks of b # _ \<Rightarrow> rb_fields b | [] \<Rightarrow> the (schema_of (ds_schemas d) name));
            version = (case map_of (ds_schemas d) name of Some e \<Rightarrow> se_version e | None \<Rightarrow> 1)
        in acc\<lparr>ds_schemas := register_raw name schema version (ds_schemas acc),
               ds_components := put name [new_empty schema] (ds_components acc)\<rparr>) (ds_components d) new_dataset))"

definition cleared_chunks :: "('v, 'z) dataset \<Rightarrow> string \<Rightarrow> 'v record_batch list \<Rightarrow> 'v record_batch list" where
  "cleared_chunks d name chunks =
     (case map_of (ds_templates d) name of
        Some template \<Rightarrow> [template]
      | None \<Rightarrow> (case chunks of [] \<Rightarrow> [] | b # _ \<Rightarrow> [new_empty (rb_fields b)]))"

definition clear :: "('v, 'z) dataset \<Rightarrow> ('v, 'z) dataset" where
  "clear d = d\<lparr>ds_components := map (\<lambda>(name, chunks). (name, cleared_chunks d name chunks)) (ds_components d),
     ds_cache := [], ds_alive := [], ds_live := 0, ds_row_count := 0, ds_dead := 0, ds_resources := []\<rparr>"

section \<open>Resources and writes\<close>

definition insert_resource :: "nat \<Rightarrow> 'z \<Rightarrow> ('v, 'z) dataset \<Rightarrow> ('v, 'z) dataset" where
  "insert_resource ty r d = d\<lparr>ds_resources := put ty r (ds_resources d)\<rparr>"

definition get_resource :: "nat \<Rightarrow> ('v, 'z) dataset \<Rightarrow> 'z option" where
  "get_resource ty d = map_of (ds_resources d) ty"

definition replace_batch :: "'v arrow_ops \<Rightarrow> string \<Rightarrow> 'v record_batch \<Rightarrow> ('v, 'z) dataset \<Rightarrow> (unit, 'v, 'z) data_outcome" where
  "replace_batch K name b d =
     (case schema_of (ds_schemas d) name of
        None \<Rightarrow> Some (Inl (Generic (''Dataset::replace_batch: component '' @ quoted name @ '' is not registered'')), d)
      | Some schema \<Rightarrow>
          if rb_fields b \<noteq> schema
          then Some (Inl (mismatch K (''Dataset::replace_batch: schema mismatch for '' @ quoted name @ '': '') (rb_fields b) schema), d)
          else (case flush_all_pending K d of
             None \<Rightarrow> None
           | Some (Inl e, d') \<Rightarrow> Some (Inl e, d')
           | Some (Inr _, d') \<Rightarrow>
               (case map_of (ds_components d') name of
                  None \<Rightarrow> None
                | Some chunks \<Rightarrow>
                    if rb_rows b \<noteq> chunk_rows chunks
                    then Some (Inl (Generic (''Dataset::replace_batch: row count mismatch for '' @ quoted name @ '': new batch has '' @
                      dec_string (rb_rows b) @ '' rows, existing has '' @ dec_string (chunk_rows chunks) @ '' rows'')), d')
                    else Some (Inr (), d'\<lparr>ds_components := put name [b] (ds_components d'), ds_cache := without name (ds_cache d')\<rparr>))))"

text \<open>A write set: arrays by component and field in the order of the map, and resource updates.\<close>

type_synonym 'v write_set = "((string \<times> string) \<times> 'v list) list"

fun add_update :: "string \<Rightarrow> string \<times> 'v list \<Rightarrow> (string \<times> (string \<times> 'v list) list) list \<Rightarrow> (string \<times> (string \<times> 'v list) list) list" where
  "add_update c u [] = [(c, [u])]"
| "add_update c u ((c', us) # rest) = (if c' = c then (c', us @ [u]) # rest else (c', us) # add_update c u rest)"

fun group_writes :: "nat \<Rightarrow> 'v write_set \<Rightarrow> (string \<times> (string \<times> 'v list) list) list \<Rightarrow> (string \<times> (string \<times> 'v list) list) list saci_result" where
  "group_writes n [] groups = Inr groups"
| "group_writes n (((c, f), array) # rest) groups =
     (if length array \<noteq> n
      then Inl (Generic (''Dataset::apply_write_set: field '' @ quoted (c @ ''.'' @ f) @ '' has '' @ dec_string (length array) @
        '' values, expected '' @ dec_string n @ '' (dataset row_count)''))
      else group_writes n rest (add_update c (f, array) groups))"

fun write_columns :: "string \<Rightarrow> arrow_fields \<Rightarrow> (string \<times> 'v list) list \<Rightarrow> 'v list list \<Rightarrow> 'v list list saci_result" where
  "write_columns c schema [] columns = Inr columns"
| "write_columns c schema ((f, array) # rest) columns =
     (case position (\<lambda>fld. af_name fld = f) schema of
        None \<Rightarrow> Inl (Generic (''Dataset::apply_write_set: field '' @ quoted f @ '' not found in component '' @ quoted c))
      | Some i \<Rightarrow> write_columns c schema rest (columns[i := array]))"

fun write_groups :: "'v arrow_ops \<Rightarrow> (string \<times> (string \<times> 'v list) list) list \<Rightarrow> ('v, 'z) dataset \<Rightarrow> (unit, 'v, 'z) data_outcome" where
  "write_groups K [] d = Some (Inr (), d)"
| "write_groups K ((c, updates) # rest) d =
     (case map_of (ds_components d) c of
        None \<Rightarrow> Some (Inl (Generic (''Dataset::apply_write_set: component '' @ quoted c @ '' is not registered'')), d)
      | Some [] \<Rightarrow> None
      | Some (existing # _) \<Rightarrow>
          (case write_columns c (rb_fields existing) updates (rb_columns existing) of
             Inl e \<Rightarrow> Some (Inl e, d)
           | Inr columns \<Rightarrow>
               (case ar_try_new K (rb_fields existing) columns of
                  Inl e \<Rightarrow> Some (Inl (Generic (''apply_write_set rebuild error: '' @ e)), d)
                | Inr b \<Rightarrow> write_groups K rest (d\<lparr>ds_components := put c [b] (ds_components d), ds_cache := without c (ds_cache d)\<rparr>))))"

definition apply_write_set :: "'v arrow_ops \<Rightarrow> 'v write_set \<Rightarrow> (nat \<times> 'z) list \<Rightarrow> ('v, 'z) dataset \<Rightarrow> (unit, 'v, 'z) data_outcome" where
  "apply_write_set K writes updates d =
     (case flush_all_pending K d of
        None \<Rightarrow> None
      | Some (Inl e, d') \<Rightarrow> Some (Inl e, d')
      | Some (Inr _, d') \<Rightarrow>
          (case group_writes (ds_row_count d') writes [] of
             Inl e \<Rightarrow> Some (Inl e, d')
           | Inr groups \<Rightarrow>
               (case write_groups K groups d' of
                  Some (Inr _, d'') \<Rightarrow> Some (Inr (), fold (\<lambda>(ty, r). insert_resource ty r) updates d'')
                | other \<Rightarrow> other)))"

end
