(* ===== verification/Dataset_Properties.thy ===== *)
theory Dataset_Properties
  imports Dataset
begin

text \<open>
  The data set between operations: what it holds of a component is the concatenation of the
  component's chunks, whatever the chunking and the cache. \<open>kernels_ok\<close> is what Arrow documents of its
  kernels, \<open>reference_kernels\<close> an instance of it.
\<close>

section \<open>Kernels\<close>

definition batch_ok :: "'v record_batch \<Rightarrow> bool" where
  "batch_ok b \<longleftrightarrow> length (rb_columns b) = length (rb_fields b) \<and> list_all (\<lambda>c. length c = rb_rows b) (rb_columns b)"

definition merge_batches :: "arrow_fields \<Rightarrow> 'v record_batch list \<Rightarrow> 'v record_batch" where
  "merge_batches fs bs = \<lparr>rb_fields = fs, rb_columns = map (\<lambda>j. concat (map (\<lambda>b. rb_columns b ! j) bs)) [0..<length fs],
     rb_rows = chunk_rows bs\<rparr>"

definition kept :: "bool list \<Rightarrow> 'a list \<Rightarrow> 'a list" where
  "kept alive xs = map fst (filter snd (zip xs alive))"

definition filter_rows :: "bool list \<Rightarrow> 'v record_batch \<Rightarrow> 'v record_batch" where
  "filter_rows alive b = \<lparr>rb_fields = rb_fields b, rb_columns = map (kept alive) (rb_columns b), rb_rows = count_list alive True\<rparr>"

text \<open>
  Batches of one schema are concatenated; a filter as long as the batch keeps the selected rows, and
  one that is longer is refused; a batch that can be built has the columns it is built from.
\<close>

definition kernels_ok :: "'v arrow_ops \<Rightarrow> bool" where
  "kernels_ok K \<longleftrightarrow>
     (\<forall>fs bs. (\<forall>b \<in> set bs. batch_ok b \<and> rb_fields b = fs) \<longrightarrow> ar_concat K fs bs = Inr (merge_batches fs bs)) \<and>
     (\<forall>alive b. batch_ok b \<longrightarrow> length alive = rb_rows b \<longrightarrow> ar_filter K alive b = Inr (filter_rows alive b)) \<and>
     (\<forall>alive b. batch_ok b \<longrightarrow> rb_rows b < length alive \<longrightarrow> (\<exists>e. ar_filter K alive b = Inl e)) \<and>
     (\<forall>fs cols b. ar_try_new K fs cols = Inr b \<longrightarrow> rb_fields b = fs \<and> rb_columns b = cols \<and> batch_ok b \<and> (cols \<noteq> [] \<longrightarrow> rb_rows b = length (hd cols)))"

definition reference_kernels :: "'v arrow_ops" where
  "reference_kernels = \<lparr>ar_concat = (\<lambda>fs bs. if list_all (\<lambda>b. rb_fields b = fs) bs then Inr (merge_batches fs bs) else Inl ''schemas differ''),
     ar_filter = (\<lambda>alive b. if rb_rows b < length alive then Inl ''filter too long'' else Inr (filter_rows alive b)),
     ar_try_new = (\<lambda>fs cols. let b = \<lparr>rb_fields = fs, rb_columns = cols, rb_rows = (case cols of [] \<Rightarrow> 0 | c # _ \<Rightarrow> length c)\<rparr>
       in if batch_ok b then Inr b else Inl ''columns differ''),
     ar_debug = (\<lambda>_. ''Schema'')\<rparr>"

lemma reference_kernels_ok: "kernels_ok reference_kernels"
  by (auto simp: kernels_ok_def reference_kernels_def list_all_iff Let_def split: if_splits list.splits)

lemma chunk_rows_simps [simp]:
  "chunk_rows [] = 0" "chunk_rows (b # bs) = rb_rows b + chunk_rows bs" "chunk_rows (bs @ cs) = chunk_rows bs + chunk_rows cs"
  by (simp_all add: chunk_rows_def)

lemma merge_fields [simp]: "rb_fields (merge_batches fs bs) = fs" "rb_rows (merge_batches fs bs) = chunk_rows bs"
  by (simp_all add: merge_batches_def)

lemma merge_single: "batch_ok b \<Longrightarrow> rb_fields b = fs \<Longrightarrow> merge_batches fs [b] = b"
  by (cases b) (auto simp: merge_batches_def batch_ok_def intro: nth_equalityI)

lemma concat_length: "(\<And>b. b \<in> set bs \<Longrightarrow> length (f b) = g b) \<Longrightarrow> length (concat (map f bs)) = sum_list (map g bs)"
  by (induction bs) auto

lemma merge_batch_ok: "\<forall>b \<in> set bs. batch_ok b \<and> rb_fields b = fs \<Longrightarrow> batch_ok (merge_batches fs bs)"
  by (auto simp: batch_ok_def merge_batches_def list_all_iff chunk_rows_def intro!: concat_length)

lemma merge_append: "merge_batches fs (bs @ cs) = merge_batches fs [merge_batches fs bs, merge_batches fs cs]"
  by (simp add: merge_batches_def)

lemma merge_merge [simp]: "merge_batches fs [merge_batches fs bs] = merge_batches fs bs"
  by (simp add: merge_batches_def)

lemma merge_empty_chunk: "rb_rows b = 0 \<Longrightarrow> batch_ok b \<Longrightarrow> rb_fields b = fs \<Longrightarrow> merge_batches fs [b] = merge_batches fs []"
  by (auto simp: merge_batches_def batch_ok_def list_all_iff)

lemma new_empty_ok [simp]: "batch_ok (new_empty fs)" "rb_fields (new_empty fs) = fs" "rb_rows (new_empty fs) = 0"
  by (simp_all add: new_empty_def batch_ok_def list_all_iff)

section \<open>Maps\<close>

lemma map_of_put [simp]: "map_of (put k v m) = (map_of m)(k \<mapsto> v)"
  by (induction k v m rule: put.induct) (auto simp: fun_eq_iff)

lemma keys_put [simp]: "fst ` set (put k v m) = insert k (fst ` set m)"
  by (induction k v m rule: put.induct) auto

lemma distinct_put: "distinct (map fst m) \<Longrightarrow> distinct (map fst (put k v m))"
proof (induction k v m rule: put.induct)
  case (2 k v k' v' m)
  then show ?case using keys_put [of k v m] by (auto simp: image_iff)
qed simp

lemma map_of_without [simp]: "map_of (without k m) = (map_of m)(k := None)"
  by (induction m) (auto simp: without_def fun_eq_iff)

section \<open>The invariant\<close>

definition contents :: "('v, 'z) dataset \<Rightarrow> string \<Rightarrow> 'v record_batch option" where
  "contents d name = (case (schema_of (ds_schemas d) name, map_of (ds_components d) name) of
     (Some fs, Some chunks) \<Rightarrow> Some (merge_batches fs chunks) | _ \<Rightarrow> None)"

definition components_ok :: "('v, 'z) dataset \<Rightarrow> bool" where
  "components_ok d \<longleftrightarrow> distinct (map fst (ds_components d)) \<and> distinct (map fst (ds_schemas d)) \<and>
     fst ` set (ds_components d) = fst ` set (ds_schemas d) \<and>
     (\<forall>name chunks fs. map_of (ds_components d) name = Some chunks \<longrightarrow> schema_of (ds_schemas d) name = Some fs \<longrightarrow>
        chunks \<noteq> [] \<and> (\<forall>b \<in> set chunks. batch_ok b \<and> rb_fields b = fs) \<and> chunk_rows chunks \<le> ds_row_count d)"

definition rows_ok :: "('v, 'z) dataset \<Rightarrow> bool" where
  "rows_ok d \<longleftrightarrow> length (ds_alive d) = ds_row_count d \<and> ds_live d = count_list (ds_alive d) True \<and> ds_dead d = count_list (ds_alive d) False"

definition cache_ok :: "('v, 'z) dataset \<Rightarrow> bool" where
  "cache_ok d \<longleftrightarrow> (\<forall>name b. map_of (ds_cache d) name = Some b \<longrightarrow> contents d name = Some b)"

definition templates_ok :: "('v, 'z) dataset \<Rightarrow> bool" where
  "templates_ok d \<longleftrightarrow> (\<forall>name t. map_of (ds_templates d) name = Some t \<longrightarrow> (\<exists>fs. schema_of (ds_schemas d) name = Some fs \<and> t = new_empty fs))"

definition dataset_ok :: "('v, 'z) dataset \<Rightarrow> bool" where
  "dataset_ok d \<longleftrightarrow> components_ok d \<and> rows_ok d \<and> cache_ok d \<and> templates_ok d"

lemma new_dataset_ok: "dataset_ok new_dataset"
  by (simp add: dataset_ok_def components_ok_def rows_ok_def cache_ok_def templates_ok_def new_dataset_def)

lemma dataset_okD:
  assumes "dataset_ok d" "schema_of (ds_schemas d) name = Some fs"
  obtains chunks where "map_of (ds_components d) name = Some chunks" "chunks \<noteq> []" "\<forall>b \<in> set chunks. batch_ok b \<and> rb_fields b = fs"
    "chunk_rows chunks \<le> ds_row_count d" "contents d name = Some (merge_batches fs chunks)"
proof -
  have "name \<in> fst ` set (ds_schemas d)" using assms(2) by (auto simp: schema_of_def dest: map_of_SomeD intro: rev_image_eqI)
  then have "name \<in> fst ` set (ds_components d)" using assms(1) by (simp add: dataset_ok_def components_ok_def)
  then obtain chunks where c: "map_of (ds_components d) name = Some chunks" by (metis map_of_eq_None_iff not_Some_eq)
  show thesis
    by (rule that [OF c]) (use assms c in \<open>auto simp: dataset_ok_def components_ok_def contents_def\<close>)
qed

lemma contents_None: "dataset_ok d \<Longrightarrow> contents d name = None \<longleftrightarrow> schema_of (ds_schemas d) name = None"
proof (cases "schema_of (ds_schemas d) name")
  case (Some fs)
  assume "dataset_ok d"
  from dataset_okD [OF this Some] obtain b where "contents d name = Some b" by metis
  then show ?thesis using Some by simp
qed (simp add: contents_def)

lemma contents_ok: "dataset_ok d \<Longrightarrow> contents d name = Some b \<Longrightarrow>
  batch_ok b \<and> schema_of (ds_schemas d) name = Some (rb_fields b) \<and> rb_rows b \<le> ds_row_count d"
  by (erule dataset_okD [of d name "rb_fields b"])
    (auto simp: contents_def dataset_ok_def components_ok_def intro: merge_batch_ok split: option.splits)

section \<open>Appending\<close>

text \<open>Replacing the chunks of one component.\<close>

lemma set_chunks_ok:
  assumes ok: "dataset_ok d" and fs: "schema_of (ds_schemas d) name = Some fs"
    and chunks: "chunks \<noteq> []" "\<forall>b \<in> set chunks. batch_ok b \<and> rb_fields b = fs" "chunk_rows chunks \<le> n"
    and alive: "length alive = n" "lv = count_list alive True" "dd = count_list alive False" "ds_row_count d \<le> n"
    and cache: "cache = without name (ds_cache d)"
    and d': "d' = d\<lparr>ds_components := put name chunks (ds_components d), ds_cache := cache, ds_alive := alive, ds_live := lv,
      ds_dead := dd, ds_row_count := n\<rparr>"
  shows "dataset_ok d' \<and> contents d' = (contents d)(name \<mapsto> merge_batches fs chunks) \<and> ds_schemas d' = ds_schemas d \<and> rows d' = n"
proof -
  have name: "name \<in> fst ` set (ds_components d)"
    using dataset_okD [OF ok fs] by (metis map_of_SomeD rev_image_eqI fst_conv)
  have c: "contents d' = (contents d)(name \<mapsto> merge_batches fs chunks)"
    using fs by (auto simp: contents_def d' fun_eq_iff split: option.splits)
  have C: "components_ok d" using ok by (simp add: dataset_ok_def)
  have comps: "components_ok d'"
    unfolding components_ok_def
  proof (intro conjI allI impI)
    show "distinct (map fst (ds_components d'))" using C by (simp add: d' components_ok_def distinct_put)
    show "distinct (map fst (ds_schemas d'))" using C by (simp add: d' components_ok_def)
    show "fst ` set (ds_components d') = fst ` set (ds_schemas d')" using C name by (simp add: d' components_ok_def insert_absorb)
    fix name' chunks' fs' assume h: "map_of (ds_components d') name' = Some chunks'" "schema_of (ds_schemas d') name' = Some fs'"
    have "chunks' \<noteq> [] \<and> (\<forall>b \<in> set chunks'. batch_ok b \<and> rb_fields b = fs') \<and> chunk_rows chunks' \<le> ds_row_count d'"
    proof (cases "name' = name")
      case True
      then show ?thesis using h chunks fs by (simp add: d')
    next
      case False
      then have "map_of (ds_components d) name' = Some chunks'" "schema_of (ds_schemas d) name' = Some fs'" using h by (simp_all add: d')
      then have "chunks' \<noteq> [] \<and> (\<forall>b \<in> set chunks'. batch_ok b \<and> rb_fields b = fs') \<and> chunk_rows chunks' \<le> ds_row_count d"
        using C unfolding components_ok_def by blast
      then show ?thesis using alive(4) by (auto simp: d')
    qed
    then show "chunks' \<noteq> []" "\<forall>b \<in> set chunks'. batch_ok b \<and> rb_fields b = fs'" "chunk_rows chunks' \<le> ds_row_count d'" by blast+
  qed
  have "cache_ok d'" using ok by (auto simp: dataset_ok_def cache_ok_def c) (auto simp: d' cache)
  moreover have "rows_ok d'" "templates_ok d'" using ok alive by (auto simp: dataset_ok_def rows_ok_def templates_ok_def d')
  ultimately show ?thesis using comps c by (simp add: dataset_ok_def d' rows_def)
qed

lemma count_replicate [simp]: "count_list (replicate k x) y = (if x = y then k else 0)"
  by (induction k) auto

lemma compact_chunks_ok:
  assumes K: "kernels_ok K" and chunks: "chunks \<noteq> []" "\<forall>b \<in> set chunks. batch_ok b \<and> rb_fields b = fs"
  obtains chunks' where "(if MERGE_THRESHOLD \<le> length chunks then compact_chunks K fs chunks else Inr chunks) = Inr chunks'"
    "chunks' \<noteq> []" "\<forall>b \<in> set chunks'. batch_ok b \<and> rb_fields b = fs" "merge_batches fs chunks' = merge_batches fs chunks"
    "chunk_rows chunks' = chunk_rows chunks"
proof (cases "MERGE_THRESHOLD \<le> length chunks")
  case True
  then have "compact_chunks K fs chunks = Inr [merge_batches fs chunks]"
    using K chunks(2) by (simp add: compact_chunks_def MERGE_THRESHOLD_def kernels_ok_def)
  then show thesis using True by (intro that [of "[merge_batches fs chunks]"]) (simp_all add: merge_batch_ok [OF chunks(2)])
qed (use that chunks in simp)

lemma push_chunk_ok:
  assumes K: "kernels_ok K" and ok: "dataset_ok d" and fs: "schema_of (ds_schemas d) name = Some fs"
    and chunks: "\<forall>b \<in> set chunks. batch_ok b \<and> rb_fields b = fs" "chunk_rows chunks \<le> ds_row_count d"
    and old: "contents d name = Some (merge_batches fs chunks)"
    and b: "batch_ok b" "rb_fields b = fs" "n = rb_rows b"
  shows "\<exists>r d'. push_chunk K name fs chunks n b d = Some (Inr r, d') \<and> dataset_ok d' \<and>
     contents d' = (contents d)(name \<mapsto> merge_batches fs (chunks @ [b])) \<and> ds_schemas d' = ds_schemas d \<and>
     rows d' = max (rows d) (chunk_rows chunks + n)"
proof -
  have all: "\<forall>c \<in> set (chunks @ [b]). batch_ok c \<and> rb_fields c = fs" using chunks(1) b by auto
  obtain chunks' where c': "(if MERGE_THRESHOLD \<le> length (chunks @ [b]) then compact_chunks K fs (chunks @ [b]) else Inr (chunks @ [b])) = Inr chunks'"
    "chunks' \<noteq> []" "\<forall>c \<in> set chunks'. batch_ok c \<and> rb_fields c = fs" "merge_batches fs chunks' = merge_batches fs (chunks @ [b])"
    "chunk_rows chunks' = chunk_rows (chunks @ [b])"
    using compact_chunks_ok [OF K _ all] by blast
  let ?ext = "chunk_rows chunks + n - ds_row_count d"
  let ?d' = "d\<lparr>ds_components := put name chunks' (ds_components d), ds_cache := without name (ds_cache d),
      ds_alive := ds_alive d @ replicate ?ext True, ds_live := ds_live d + ?ext, ds_dead := ds_dead d,
      ds_row_count := max (ds_row_count d) (chunk_rows chunks + n)\<rparr>"
  have "rows_ok d" using ok by (simp add: dataset_ok_def)
  then have new: "dataset_ok ?d' \<and> contents ?d' = (contents d)(name \<mapsto> merge_batches fs chunks') \<and> ds_schemas ?d' = ds_schemas d \<and>
      rows ?d' = max (ds_row_count d) (chunk_rows chunks + n)"
    by (intro set_chunks_ok [OF ok fs c'(2,3) _ _ _ _ _ refl refl]) (auto simp: c'(5) b(3) rows_ok_def)
  obtain r where "push_chunk K name fs chunks n b d = Some (Inr r, ?d')"
    using c'(1) by (cases d; cases "ds_row_count d < chunk_rows chunks + n") (auto simp: push_chunk_def Let_def max_def)
  then show ?thesis using new c'(4) by (auto simp: rows_def)
qed

lemma append_record_batch_holds:
  assumes K: "kernels_ok K" and ok: "dataset_ok d" and b: "batch_ok b" and fs: "schema_of (ds_schemas d) name = Some (rb_fields b)"
  shows "\<exists>r d' old. append_record_batch K name b d = Some (Inr r, d') \<and> dataset_ok d' \<and> contents d name = Some old \<and>
     contents d' = (contents d)(name \<mapsto> merge_batches (rb_fields b) [old, b]) \<and> ds_schemas d' = ds_schemas d \<and>
     rows d' = max (rows d) (rb_rows old + rb_rows b)"
proof -
  let ?fs = "rb_fields b"
  obtain chunks where c: "map_of (ds_components d) name = Some chunks" "chunks \<noteq> []" "\<forall>b \<in> set chunks. batch_ok b \<and> rb_fields b = ?fs"
    "chunk_rows chunks \<le> ds_row_count d" "contents d name = Some (merge_batches ?fs chunks)"
    using dataset_okD [OF ok fs] by metis
  show ?thesis
  proof (cases "rb_rows b = 0")
    case True
    have "merge_batches ?fs [merge_batches ?fs chunks, b] = merge_batches ?fs chunks"
      using True b merge_empty_chunk [OF True b refl] merge_append [of ?fs chunks "[b]"] merge_append [of ?fs chunks "[]"]
      by (metis append_Nil2 merge_merge merge_single)
    then show ?thesis using True fs c(4,5) ok by (auto simp: append_record_batch_def rows_def)
  next
    case False
    let ?chunks = "if length chunks = 1 \<and> rb_rows (hd chunks) = 0 then [] else chunks"
    have same: "merge_batches ?fs ?chunks = merge_batches ?fs chunks" "chunk_rows ?chunks = chunk_rows chunks"
      using c(2,3) merge_empty_chunk [of "hd chunks" ?fs] by (auto simp: length_Suc_conv)
    have "\<forall>b \<in> set ?chunks. batch_ok b \<and> rb_fields b = ?fs" "chunk_rows ?chunks \<le> ds_row_count d"
      "contents d name = Some (merge_batches ?fs ?chunks)" using c(3,4,5) same by auto
    from push_chunk_ok [OF K ok fs this b refl refl] same obtain r d' where
      "push_chunk K name ?fs ?chunks (rb_rows b) b d = Some (Inr r, d')" "dataset_ok d'" "ds_schemas d' = ds_schemas d"
      "contents d' = (contents d)(name \<mapsto> merge_batches ?fs (?chunks @ [b]))" "rows d' = max (rows d) (chunk_rows chunks + rb_rows b)"
      by metis
    moreover have "merge_batches ?fs (?chunks @ [b]) = merge_batches ?fs [merge_batches ?fs chunks, b]"
      using merge_append [of ?fs ?chunks "[b]"] merge_single [OF b refl] same(1) by simp
    ultimately show ?thesis using False fs c(1,5) by (auto simp: append_record_batch_def Let_def)
  qed
qed

section \<open>Reading\<close>

lemma batch_for_holds:
  assumes K: "kernels_ok K" and ok: "dataset_ok d"
  shows "\<exists>d'. batch_for K name d = Some (contents d name, d') \<and> dataset_ok d' \<and> contents d' = contents d \<and>
     ds_schemas d' = ds_schemas d \<and> rows d' = rows d"
proof (cases "schema_of (ds_schemas d) name")
  case None
  then have "contents d name = None" using contents_None [OF ok] by simp
  then show ?thesis using ok None by (auto simp: batch_for_def schema_of_def)
next
  case (Some fs)
  obtain chunks where c: "map_of (ds_components d) name = Some chunks" "chunks \<noteq> []" "\<forall>b \<in> set chunks. batch_ok b \<and> rb_fields b = fs"
    "contents d name = Some (merge_batches fs chunks)" using dataset_okD [OF ok Some] by metis
  have reg: "map_of (ds_schemas d) name \<noteq> None" using Some by (auto simp: schema_of_def)
  have conc: "ar_concat K fs chunks = Inr (merge_batches fs chunks)" using K c(3) by (simp add: kernels_ok_def)
  have single: "length chunks = 1 \<Longrightarrow> hd chunks = merge_batches fs chunks"
    using c(2,3) merge_single [of "hd chunks" fs] by (auto simp: length_Suc_conv)
  show ?thesis
  proof (cases "map_of (ds_cache d) name")
    case (Some b)
    then have "contents d name = Some b" using ok by (simp add: dataset_ok_def cache_ok_def)
    then show ?thesis using ok reg Some by (auto simp: batch_for_def get_or_build_merged_def)
  next
    case None
    let ?d' = "d\<lparr>ds_cache := put name (merge_batches fs chunks) (ds_cache d)\<rparr>"
    have cont: "contents ?d' = contents d" by (simp add: contents_def fun_eq_iff)
    have "dataset_ok ?d'" using ok c(4)
      unfolding dataset_ok_def components_ok_def rows_ok_def cache_ok_def templates_ok_def cont by simp
    moreover have "batch_for K name d = Some (contents d name, ?d')"
      using reg None c(1,4) single conc Some by (auto simp: batch_for_def get_or_build_merged_def)
    ultimately show ?thesis using cont by (auto simp: rows_def)
  qed
qed

section \<open>Forwarding\<close>

definition shared_agree :: "('v, 'z) dataset \<Rightarrow> ('v, 'z) dataset \<Rightarrow> bool" where
  "shared_agree src dst \<longleftrightarrow> (\<forall>name fs fs'. schema_of (ds_schemas src) name = Some fs \<longrightarrow> schema_of (ds_schemas dst) name = Some fs' \<longrightarrow> fs = fs')"

definition appended :: "'v record_batch option \<Rightarrow> 'v record_batch option \<Rightarrow> 'v record_batch option" where
  "appended old new = (case (old, new) of (Some a, Some b) \<Rightarrow> Some (merge_batches (rb_fields b) [a, b]) | _ \<Rightarrow> old)"

lemma schema_of_member: "name \<in> fst ` set r \<Longrightarrow> \<exists>fs. schema_of r name = Some fs"
  using map_of_eq_None_iff [of r name] by (cases "map_of r name") (auto simp: schema_of_def)

lemma forward_loop_holds:
  assumes K: "kernels_ok K"
  shows "dataset_ok src \<Longrightarrow> dataset_ok dst \<Longrightarrow> shared_agree src dst \<Longrightarrow> distinct names \<Longrightarrow>
    set names \<subseteq> fst ` set (ds_schemas dst) \<Longrightarrow>
    \<exists>m src' dst'. forward_loop K names n src dst = Some (Inr m, src', dst') \<and> dataset_ok src' \<and> dataset_ok dst' \<and>
      contents src' = contents src \<and>
      contents dst' = (\<lambda>name. if name \<in> set names then appended (contents dst name) (contents src name) else contents dst name)"
proof (induction names arbitrary: n src dst)
  case (Cons name names)
  obtain src' where b: "batch_for K name src = Some (contents src name, src')" "dataset_ok src'" "contents src' = contents src"
    "ds_schemas src' = ds_schemas src" using batch_for_holds [OF K Cons.prems(1)] by blast
  have agree: "shared_agree src' dst" using Cons.prems(3) b(4) by (simp add: shared_agree_def)
  show ?case
  proof (cases "contents src name")
    case None
    have "distinct names" "set names \<subseteq> fst ` set (ds_schemas dst)" using Cons.prems(4,5) by simp_all
    from Cons.IH [OF b(2) Cons.prems(2) agree this, of n] obtain m src2 dst2 where
      "forward_loop K names n src' dst = Some (Inr m, src2, dst2)" "dataset_ok src2" "dataset_ok dst2" "contents src2 = contents src"
      "contents dst2 = (\<lambda>x. if x \<in> set names then appended (contents dst x) (contents src x) else contents dst x)"
      unfolding b(3) by blast
    then show ?thesis using b(1) None by (auto simp: appended_def fun_eq_iff split: option.splits)
  next
    case (Some bt)
    note bt = contents_ok [OF Cons.prems(1) Some]
    have "name \<in> fst ` set (ds_schemas dst)" using Cons.prems(5) by simp
    then obtain fs' where "schema_of (ds_schemas dst) name = Some fs'" using schema_of_member by blast
    then have fs: "schema_of (ds_schemas dst) name = Some (rb_fields bt)" using Cons.prems(3) bt by (auto simp: shared_agree_def)
    obtain r dst1 old where a: "append_record_batch K name bt dst = Some (Inr r, dst1)" "dataset_ok dst1" "contents dst name = Some old"
      "contents dst1 = (contents dst)(name \<mapsto> merge_batches (rb_fields bt) [old, bt])" "ds_schemas dst1 = ds_schemas dst"
      using append_record_batch_holds [OF K Cons.prems(2) bt [THEN conjunct1] fs] by blast
    have "shared_agree src' dst1" "distinct names" "set names \<subseteq> fst ` set (ds_schemas dst1)"
      using agree Cons.prems(4,5) by (simp_all add: shared_agree_def a(5))
    from Cons.IH [OF b(2) a(2) this, of "n + rb_rows bt"] obtain m src2 dst2 where
      "forward_loop K names (n + rb_rows bt) src' dst1 = Some (Inr m, src2, dst2)" "dataset_ok src2" "dataset_ok dst2"
      "contents src2 = contents src"
      "contents dst2 = (\<lambda>x. if x \<in> set names then appended (contents dst1 x) (contents src x) else contents dst1 x)"
      unfolding b(3) by blast
    then show ?thesis using b(1) Some a(1,3) Cons.prems(4) by (auto simp: a(4) appended_def fun_eq_iff)
  qed
qed auto

text \<open>Forwarding a data set into another appends, for every component both register, the rows of the
  first behind those of the second, and changes nothing else; it does not fail where the schemas
  agree, however the rows are cut into chunks and whatever is cached.
\<close>

lemma forward_into_holds:
  assumes "kernels_ok K" "dataset_ok src" "dataset_ok dst" "shared_agree src dst"
  shows "\<exists>m src' dst'. forward_into K src dst = Some (Inr m, src', dst') \<and> dataset_ok src' \<and> dataset_ok dst' \<and>
    contents src' = contents src \<and> contents dst' = (\<lambda>name. appended (contents dst name) (contents src name))"
proof -
  have "distinct (map fst (ds_schemas dst))" using assms(3) by (simp add: dataset_ok_def components_ok_def)
  from forward_loop_holds [OF assms this, of 0] obtain m src' dst' where
    f: "forward_into K src dst = Some (Inr m, src', dst')" "dataset_ok src'" "dataset_ok dst'" "contents src' = contents src"
    "contents dst' = (\<lambda>x. if x \<in> fst ` set (ds_schemas dst) then appended (contents dst x) (contents src x) else contents dst x)"
    by (auto simp: forward_into_def)
  have "x \<notin> fst ` set (ds_schemas dst) \<Longrightarrow> contents dst x = None" for x
    using contents_None [OF assms(3)] by (simp add: schema_of_def map_of_eq_None_iff)
  then have "contents dst' = (\<lambda>x. appended (contents dst x) (contents src x))" by (auto simp: f(5) fun_eq_iff appended_def)
  then show ?thesis using f by blast
qed

section \<open>Merging pending chunks\<close>

definition pending :: "('v, 'z) dataset \<Rightarrow> string \<Rightarrow> bool" where
  "pending d name \<longleftrightarrow> (\<exists>chunks. map_of (ds_components d) name = Some chunks \<and> 1 < length chunks)"

text \<open>The same data, with no component cut into more chunks than before.\<close>

definition same_data :: "('v, 'z) dataset \<Rightarrow> ('v, 'z) dataset \<Rightarrow> bool" where
  "same_data d d' \<longleftrightarrow> dataset_ok d' \<and> contents d' = contents d \<and> ds_schemas d' = ds_schemas d \<and> rows d' = rows d \<and>
     ds_alive d' = ds_alive d \<and> ds_live d' = ds_live d \<and> ds_dead d' = ds_dead d \<and> (\<forall>name. pending d' name \<longrightarrow> pending d name)"

lemma merge_pending:
  assumes ok: "dataset_ok d" and fs: "schema_of (ds_schemas d) name = Some fs"
    and c: "map_of (ds_components d) name = Some chunks"
    and d1: "d1 = d\<lparr>ds_components := put name [merge_batches fs chunks] (ds_components d), ds_cache := without name (ds_cache d)\<rparr>"
  shows "same_data d d1 \<and> \<not> pending d1 name"
proof -
  have C: "\<forall>b \<in> set chunks. batch_ok b \<and> rb_fields b = fs" "chunk_rows chunks \<le> ds_row_count d" "contents d name = Some (merge_batches fs chunks)"
    using dataset_okD [OF ok fs] c by (metis option.inject)+
  have R: "rows_ok d" using ok by (simp add: dataset_ok_def)
  have eq: "d1 = d\<lparr>ds_components := put name [merge_batches fs chunks] (ds_components d), ds_cache := without name (ds_cache d),
      ds_alive := ds_alive d, ds_live := ds_live d, ds_dead := ds_dead d, ds_row_count := ds_row_count d\<rparr>" by (cases d) (simp add: d1)
  have "dataset_ok d1 \<and> contents d1 = (contents d)(name \<mapsto> merge_batches fs [merge_batches fs chunks]) \<and> ds_schemas d1 = ds_schemas d \<and>
      rows d1 = ds_row_count d"
    by (rule set_chunks_ok [OF ok fs _ _ _ _ _ _ _ refl eq]) (use R C merge_batch_ok [OF C(1)] in \<open>auto simp: rows_ok_def\<close>)
  then show ?thesis using C(3) by (auto simp: same_data_def pending_def d1 rows_def)
qed

lemma flush_loop_holds:
  assumes K: "kernels_ok K"
  shows "dataset_ok d \<Longrightarrow> \<exists>d'. flush_loop K names d = Some (Inr (), d') \<and> same_data d d' \<and> (\<forall>name \<in> set names. \<not> pending d' name)"
proof (induction names arbitrary: d)
  case Nil
  then show ?case by (simp add: same_data_def)
next
  case (Cons name names)
  have "\<exists>d1. flush_loop K (name # names) d = flush_loop K names d1 \<and> same_data d d1 \<and> \<not> pending d1 name"
  proof (cases "pending d name")
    case False
    then have "flush_loop K (name # names) d = flush_loop K names d" by (auto simp: pending_def split: option.splits)
    then show ?thesis using False Cons.prems by (auto simp: same_data_def)
  next
    case True
    then obtain chunks where c: "map_of (ds_components d) name = Some chunks" "1 < length chunks" by (auto simp: pending_def)
    have "name \<in> fst ` set (ds_schemas d)"
      using c(1) Cons.prems by (metis components_ok_def dataset_ok_def map_of_SomeD rev_image_eqI fst_conv)
    then obtain fs where fs: "schema_of (ds_schemas d) name = Some fs" using schema_of_member by blast
    have "\<forall>b \<in> set chunks. batch_ok b \<and> rb_fields b = fs" using dataset_okD [OF Cons.prems fs] c(1) by (metis option.inject)
    then have "ar_concat K fs chunks = Inr (merge_batches fs chunks)" using K by (simp add: kernels_ok_def)
    then show ?thesis using merge_pending [OF Cons.prems fs c(1) refl] c fs by auto
  qed
  then obtain d1 where d1: "flush_loop K (name # names) d = flush_loop K names d1" "same_data d d1" "\<not> pending d1 name" by blast
  then obtain d' where "flush_loop K names d1 = Some (Inr (), d')" "same_data d1 d'" "\<forall>name \<in> set names. \<not> pending d' name"
    using Cons.IH [of d1] by (auto simp: same_data_def)
  then show ?case using d1 by (auto simp: same_data_def)
qed

lemma flush_all_pending_holds:
  assumes "kernels_ok K" "dataset_ok d"
  obtains d' where "flush_all_pending K d = Some (Inr (), d')" "same_data d d'"
    "\<And>name fs. schema_of (ds_schemas d') name = Some fs \<Longrightarrow> \<exists>b. map_of (ds_components d') name = Some [b] \<and> contents d' name = Some b \<and>
       batch_ok b \<and> rb_fields b = fs"
proof -
  obtain d' where d': "flush_all_pending K d = Some (Inr (), d')" "same_data d d'"
    "\<forall>name \<in> fst ` set (ds_components d). \<not> pending d' name"
    using flush_loop_holds [OF assms] unfolding flush_all_pending_def by (metis list.set_map)
  have ok: "dataset_ok d'" using d'(2) by (simp add: same_data_def)
  have "\<exists>b. map_of (ds_components d') name = Some [b] \<and> contents d' name = Some b \<and> batch_ok b \<and> rb_fields b = fs"
    if fs: "schema_of (ds_schemas d') name = Some fs" for name fs
  proof -
    obtain chunks where c: "map_of (ds_components d') name = Some chunks" "chunks \<noteq> []" "\<forall>b \<in> set chunks. batch_ok b \<and> rb_fields b = fs"
      "contents d' name = Some (merge_batches fs chunks)" using dataset_okD [OF ok fs] by metis
    have "\<not> pending d' name"
    proof
      assume p: "pending d' name"
      then have "pending d name" using d'(2) by (simp add: same_data_def)
      then have "name \<in> fst ` set (ds_components d)" by (auto simp: pending_def dest: map_of_SomeD intro: rev_image_eqI)
      then show False using d'(3) p by blast
    qed
    then have "length chunks = 1" using c(1,2) by (cases chunks) (auto simp: pending_def)
    then obtain b where "chunks = [b]" by (auto simp: length_Suc_conv)
    then show ?thesis using c merge_single [of b fs] by auto
  qed
  then show thesis using that d' by blast
qed

section \<open>Compaction\<close>

definition aligned :: "('v, 'z) dataset \<Rightarrow> bool" where
  "aligned d \<longleftrightarrow> (\<forall>name b. contents d name = Some b \<longrightarrow> rb_rows b = rows d)"

lemma filter_loop_all:
  assumes "kernels_ok K"
  shows "\<forall>(name, chunks) \<in> set comps. \<exists>b. chunks = [b] \<and> batch_ok b \<and> rb_rows b = length alive \<Longrightarrow>
    filter_loop K alive comps = Some (Inr (), map (\<lambda>(name, chunks). (name, [filter_rows alive (hd chunks)])) comps)"
proof (induction comps)
  case (Cons c comps)
  obtain name chunks where c: "c = (name, chunks)" by (cases c)
  then obtain b where "chunks = [b]" "batch_ok b" "rb_rows b = length alive" using Cons.prems by auto
  then show ?case using Cons assms c by (simp add: kernels_ok_def)
qed simp

lemma filter_loop_short:
  assumes "kernels_ok K"
  shows "\<forall>(name, chunks) \<in> set comps. \<exists>b. chunks = [b] \<and> batch_ok b \<and> rb_rows b \<le> length alive \<Longrightarrow>
    \<exists>(name, chunks) \<in> set comps. chunk_rows chunks < length alive \<Longrightarrow> \<exists>e comps'. filter_loop K alive comps = Some (Inl e, comps')"
proof (induction comps)
  case (Cons c comps)
  obtain name chunks where c: "c = (name, chunks)" by (cases c)
  then obtain b where b: "chunks = [b]" "batch_ok b" "rb_rows b \<le> length alive" using Cons.prems by auto
  show ?case
  proof (cases "rb_rows b < length alive")
    case True
    then obtain e where "ar_filter K alive b = Inl e" using assms b(2) unfolding kernels_ok_def by blast
    then show ?thesis using c b(1) by simp
  next
    case False
    then have eq: "rb_rows b = length alive" using b(3) by simp
    then have "ar_filter K alive b = Inr (filter_rows alive b)" using assms b(2) by (simp add: kernels_ok_def)
    moreover have "\<exists>e comps'. filter_loop K alive comps = Some (Inl e, comps')" using Cons c b(1) eq by auto
    ultimately show ?thesis using c b(1) by auto
  qed
qed simp

lemma kept_length: "length xs = length alive \<Longrightarrow> length (kept alive xs) = count_list alive True"
  by (induction xs alive rule: list_induct2) (auto simp: kept_def)

lemma filter_rows_ok: "batch_ok b \<Longrightarrow> length alive = rb_rows b \<Longrightarrow> batch_ok (filter_rows alive b)"
  by (auto simp: batch_ok_def filter_rows_def list_all_iff kept_length)

lemma kept_all: "length xs = length alive \<Longrightarrow> count_list alive False = 0 \<Longrightarrow> kept alive xs = xs"
  by (induction xs alive rule: list_induct2) (auto simp: kept_def split: if_splits)

lemma count_total: "count_list alive True + count_list alive False = length alive"
  by (induction alive) auto

lemma filter_rows_all:
  assumes "batch_ok b" "length alive = rb_rows b" "count_list alive False = 0"
  shows "filter_rows alive b = b"
proof -
  have "map (kept alive) (rb_columns b) = rb_columns b"
    using assms kept_all [of _ alive] by (intro map_idI) (auto simp: batch_ok_def list_all_iff)
  then show ?thesis using assms count_total [of alive] by (cases b) (simp add: filter_rows_def)
qed

lemma single_components:
  assumes ok: "dataset_ok d"
    and single: "\<And>name fs. schema_of (ds_schemas d) name = Some fs \<Longrightarrow> \<exists>b. map_of (ds_components d) name = Some [b] \<and> contents d name = Some b \<and>
       batch_ok b \<and> rb_fields b = fs"
    and c: "(name, chunks) \<in> set (ds_components d)"
  shows "\<exists>b. chunks = [b] \<and> batch_ok b \<and> contents d name = Some b \<and> rb_rows b \<le> rows d"
proof -
  have "name \<in> fst ` set (ds_schemas d)" using c ok by (metis components_ok_def dataset_ok_def fst_conv rev_image_eqI)
  then obtain fs where fs: "schema_of (ds_schemas d) name = Some fs" using schema_of_member by blast
  have "map_of (ds_components d) name = Some chunks" using c ok by (simp add: components_ok_def dataset_ok_def)
  then show ?thesis using single [OF fs] contents_ok [OF ok] by (auto simp: rows_def)
qed

lemma map_of_map_named: "map_of (map (\<lambda>(name, chunks). (name, f name chunks)) m) name = map_option (f name) (map_of m name)"
  by (induction m) auto

lemmas map_of_map_chunks = map_of_map_named [where f = "\<lambda>_. f" for f]

lemma compacted_ok:
  assumes ok: "dataset_ok d'"
    and d2: "d2 = d'\<lparr>ds_components := map (\<lambda>(name, chunks). (name, [filter_rows alive (hd chunks)])) (ds_components d'), ds_cache := [],
      ds_alive := replicate n True, ds_row_count := n, ds_dead := 0\<rparr>" "ds_live d' = n"
    and n: "n = count_list alive True"
    and each: "\<And>name fs. schema_of (ds_schemas d2) name = Some fs \<Longrightarrow> \<exists>b. map_of (ds_components d2) name = Some [filter_rows alive b] \<and>
      rb_fields b = fs \<and> batch_ok (filter_rows alive b)"
  shows "dataset_ok d2"
proof -
  have keys: "map fst (ds_components d2) = map fst (ds_components d')" by (simp add: d2 comp_def case_prod_unfold)
  have ks: "fst ` set (ds_components d2) = fst ` set (ds_components d')" using arg_cong [OF keys, of set] by (simp only: set_map)
  have sch: "ds_schemas d2 = ds_schemas d'" by (simp add: d2(1))
  have "components_ok d2"
    unfolding components_ok_def
  proof (intro conjI allI impI)
    show "distinct (map fst (ds_components d2))" "distinct (map fst (ds_schemas d2))" "fst ` set (ds_components d2) = fst ` set (ds_schemas d2)"
      unfolding keys ks sch using ok by (simp_all add: dataset_ok_def components_ok_def)
    fix name chunks fs assume h: "map_of (ds_components d2) name = Some chunks" "schema_of (ds_schemas d2) name = Some fs"
    then obtain b where "chunks = [filter_rows alive b]" "rb_fields b = fs" "batch_ok (filter_rows alive b)" using each by force
    then show "chunks \<noteq> []" "\<forall>b \<in> set chunks. batch_ok b \<and> rb_fields b = fs" "chunk_rows chunks \<le> ds_row_count d2"
      by (simp_all add: filter_rows_def d2(1) n)
  qed
  then show ?thesis using ok d2(2) by (simp add: dataset_ok_def rows_ok_def cache_ok_def templates_ok_def d2(1))
qed

text \<open>Compaction keeps, in every component, exactly the rows that are alive, and makes the rows of
  the data set those rows, where every component has the rows of the data set.
\<close>

lemma compact_holds:
  assumes K: "kernels_ok K" and ok: "dataset_ok d" and al: "aligned d"
  shows "\<exists>d'. compact K d = Some (Inr (), d') \<and> dataset_ok d' \<and> rows d' = live_rows d \<and> live_rows d' = live_rows d \<and>
    contents d' = (\<lambda>name. map_option (filter_rows (ds_alive d)) (contents d name))"
proof (cases "ds_dead d = 0")
  case True
  have r: "length (ds_alive d) = rows d" "count_list (ds_alive d) False = 0" "live_rows d = rows d"
    using ok True count_total [of "ds_alive d"] by (auto simp: dataset_ok_def rows_ok_def rows_def live_rows_def)
  have "map_option (filter_rows (ds_alive d)) (contents d name) = contents d name" for name
    using contents_ok [OF ok] al r by (cases "contents d name") (auto simp: aligned_def intro!: filter_rows_all)
  then show ?thesis using True ok r by (auto simp: compact_def)
next
  case False
  obtain d' where F: "flush_all_pending K d = Some (Inr (), d')" "same_data d d'"
    and single: "\<And>name fs. schema_of (ds_schemas d') name = Some fs \<Longrightarrow> \<exists>b. map_of (ds_components d') name = Some [b] \<and>
      contents d' name = Some b \<and> batch_ok b \<and> rb_fields b = fs"
    using flush_all_pending_holds [OF K ok] by metis
  have S: "dataset_ok d'" "contents d' = contents d" "ds_schemas d' = ds_schemas d" "rows d' = rows d" "ds_alive d' = ds_alive d"
    "ds_live d' = ds_live d" using F(2) by (simp_all add: same_data_def)
  have len: "length (ds_alive d) = rows d" and live: "ds_live d = count_list (ds_alive d) True"
    using ok by (auto simp: dataset_ok_def rows_ok_def rows_def)
  let ?f = "\<lambda>chunks. [filter_rows (ds_alive d) (hd chunks)]"
  let ?comps = "map (\<lambda>(name, chunks). (name, ?f chunks)) (ds_components d')"
  have "filter_loop K (ds_alive d) (ds_components d') = Some (Inr (), ?comps)"
    by (rule filter_loop_all [OF K]) (use single_components [OF S(1) single] al S(2) len in \<open>fastforce simp: aligned_def\<close>)
  then obtain d2 where d2: "d2 = d'\<lparr>ds_components := ?comps, ds_cache := [], ds_alive := replicate (ds_live d) True, ds_row_count := ds_live d,
      ds_dead := 0\<rparr>" "compact K d = Some (Inr (), d2)" using False F(1) by (simp add: compact_def)
  have each: "\<exists>b. map_of (ds_components d2) name = Some [filter_rows (ds_alive d) b] \<and> contents d name = Some b \<and> batch_ok b \<and> rb_fields b = fs \<and>
      contents d2 name = Some (filter_rows (ds_alive d) b) \<and> batch_ok (filter_rows (ds_alive d) b)"
    if "schema_of (ds_schemas d2) name = Some fs" for name fs
  proof -
    have fs: "schema_of (ds_schemas d') name = Some fs" using that by (simp add: d2(1))
    obtain b where b: "map_of (ds_components d') name = Some [b]" "contents d name = Some b" "batch_ok b" "rb_fields b = fs"
      using single [OF fs] S(2) by auto
    have "batch_ok (filter_rows (ds_alive d) b)" using b al len by (intro filter_rows_ok) (auto simp: aligned_def)
    moreover have "map_of (ds_components d2) name = Some [filter_rows (ds_alive d) b]" using b(1) by (simp add: d2(1) map_of_map_chunks)
    ultimately show ?thesis using b that merge_single [of "filter_rows (ds_alive d) b" fs] by (auto simp: contents_def filter_rows_def)
  qed
  have "dataset_ok d2" using compacted_ok [OF S(1) d2(1) S(6) live] each by blast
  moreover have "contents d2 name = map_option (filter_rows (ds_alive d)) (contents d name)" for name
  proof (cases "schema_of (ds_schemas d2) name")
    case None
    then show ?thesis using contents_None [OF ok] S(3) by (simp add: contents_def d2(1))
  qed (use each in fastforce)
  ultimately show ?thesis using d2 S(6) by (auto simp: rows_def live_rows_def)
qed

text \<open>A component with fewer rows than the data set makes every compaction of deleted rows fail.\<close>

lemma compact_short_fails:
  assumes K: "kernels_ok K" and ok: "dataset_ok d" and dead: "ds_dead d \<noteq> 0" and short: "contents d name = Some b" "rb_rows b < rows d"
  shows "\<exists>e d'. compact K d = Some (Inl e, d')"
proof -
  obtain d' where F: "flush_all_pending K d = Some (Inr (), d')" "same_data d d'"
    and single: "\<And>name fs. schema_of (ds_schemas d') name = Some fs \<Longrightarrow> \<exists>b. map_of (ds_components d') name = Some [b] \<and>
      contents d' name = Some b \<and> batch_ok b \<and> rb_fields b = fs"
    using flush_all_pending_holds [OF K ok] by metis
  have S: "dataset_ok d'" "contents d' = contents d" "rows d' = rows d" using F(2) by (simp_all add: same_data_def)
  have len: "length (ds_alive d) = rows d" using ok by (simp add: dataset_ok_def rows_ok_def rows_def)
  obtain fs where fs: "schema_of (ds_schemas d') name = Some fs"
    using contents_None [OF S(1), of name] short(1) S(2) by (cases "schema_of (ds_schemas d') name") simp_all
  obtain b' where b': "map_of (ds_components d') name = Some [b']" "contents d' name = Some b'" using single [OF fs] by blast
  have "b' = b" using b'(2) short(1) S(2) by simp
  then have "(name, [b]) \<in> set (ds_components d')" using b'(1) map_of_SomeD by metis
  then have "\<exists>(name, chunks) \<in> set (ds_components d'). chunk_rows chunks < length (ds_alive d)"
    by (rule rev_bexI) (use short(2) len in simp)
  moreover have "\<forall>(name, chunks) \<in> set (ds_components d'). \<exists>b. chunks = [b] \<and> batch_ok b \<and> rb_rows b \<le> length (ds_alive d)"
  proof clarify
    fix n cs assume "(n, cs) \<in> set (ds_components d')"
    from single_components [OF S(1) single this] show "\<exists>b. cs = [b] \<and> batch_ok b \<and> rb_rows b \<le> length (ds_alive d)"
      using S(3) len by auto
  qed
  ultimately have "\<exists>e comps. filter_loop K (ds_alive d) (ds_components d') = Some (Inl e, comps)"
    using filter_loop_short [OF K] by blast
  then show ?thesis using dead F(1) by (auto simp: compact_def)
qed

end
