(* ===== verification/Dataset_Invariant.thy ===== *)
theory Dataset_Invariant
  imports Dataset_Properties
begin

text \<open>
  The operations of the data set that change it, as a step relation, and the invariant every
  reachable data set has.
\<close>

section \<open>The other operations\<close>

lemma count_list_set:
  "i < length xs \<Longrightarrow> xs ! i \<Longrightarrow> count_list (xs[i := False]) False = count_list xs False + 1 \<and> count_list (xs[i := False]) True = count_list xs True - 1"
proof (induction xs arbitrary: i)
  case (Cons x xs)
  have pos: "0 < count_list xs True" if "j < length xs" "xs ! j" for j
    using that by (metis count_list_0_iff nth_mem not_gr_zero)
  show ?case
  proof (cases i)
    case (Suc j)
    have j: "j < length xs" "xs ! j" using Cons.prems Suc by auto
    then show ?thesis using Cons.IH [OF j] pos [OF j] Suc by auto
  qed (use Cons.prems in auto)
qed simp

lemma mark_dead_contents: "contents (mark_dead row d) = contents d"
proof (cases "row < length (ds_alive d) \<and> ds_alive d ! row")
  case True
  then show ?thesis by (simp add: mark_dead_def contents_def fun_eq_iff)
next
  case False
  then show ?thesis by (auto simp: mark_dead_def)
qed

lemma mark_dead_ok: "dataset_ok d \<Longrightarrow> dataset_ok (mark_dead row d)"
proof (cases "row < length (ds_alive d) \<and> ds_alive d ! row")
  case True
  assume ok: "dataset_ok d"
  have m: "mark_dead row d = d\<lparr>ds_alive := (ds_alive d)[row := False], ds_dead := ds_dead d + 1, ds_live := ds_live d - 1\<rparr>"
    using True by (simp add: mark_dead_def)
  have "rows_ok (mark_dead row d)" using ok True count_list_set [of row "ds_alive d"] by (simp add: dataset_ok_def rows_ok_def m)
  moreover have "components_ok (mark_dead row d)" using ok by (simp add: dataset_ok_def components_ok_def m)
  moreover have "cache_ok (mark_dead row d)" using ok mark_dead_contents [of row d] by (simp add: dataset_ok_def cache_ok_def) (simp add: m)
  moreover have "templates_ok (mark_dead row d)" using ok by (simp add: dataset_ok_def templates_ok_def m)
  ultimately show ?thesis by (simp add: dataset_ok_def)
next
  case False
  assume "dataset_ok d"
  moreover have "mark_dead row d = d" using False by (auto simp: mark_dead_def)
  ultimately show ?thesis by simp
qed

text \<open>A component emptied is the empty batch of its schema.\<close>

lemma cleared_chunks_empty:
  assumes "dataset_ok d" "schema_of (ds_schemas d) name = Some fs" "map_of (ds_components d) name = Some chunks"
  shows "cleared_chunks d name chunks = [new_empty fs]"
proof -
  have c: "chunks \<noteq> []" "\<forall>b \<in> set chunks. rb_fields b = fs" using assms by (simp_all add: dataset_ok_def components_ok_def)
  have t: "t = new_empty fs" if m: "map_of (ds_templates d) name = Some t" for t
  proof -
    obtain fs' where "schema_of (ds_schemas d) name = Some fs'" "t = new_empty fs'"
      using assms(1) m unfolding dataset_ok_def templates_ok_def by blast
    then show ?thesis using assms(2) by simp
  qed
  show ?thesis using c t by (auto simp: cleared_chunks_def split: option.splits list.splits)
qed

lemma clear_fields [simp]:
  "ds_schemas (clear d) = ds_schemas d" "ds_templates (clear d) = ds_templates d" "ds_cache (clear d) = []" "ds_alive (clear d) = []"
  "ds_live (clear d) = 0" "ds_row_count (clear d) = 0" "ds_dead (clear d) = 0"
  "map fst (ds_components (clear d)) = map fst (ds_components d)" "fst ` set (ds_components (clear d)) = fst ` set (ds_components d)"
  by (simp_all add: clear_def comp_def case_prod_unfold image_image)

lemma clear_components [simp]: "map_of (ds_components (clear d)) name = map_option (cleared_chunks d name) (map_of (ds_components d) name)"
  by (simp add: clear_def map_of_map_named)

lemma clear_ok: "dataset_ok d \<Longrightarrow> dataset_ok (clear d)"
proof -
  assume ok: "dataset_ok d"
  have "chunks \<noteq> [] \<and> (\<forall>b \<in> set chunks. batch_ok b \<and> rb_fields b = fs) \<and> chunk_rows chunks \<le> 0"
    if c: "map_of (ds_components (clear d)) name = Some chunks" and s: "schema_of (ds_schemas d) name = Some fs" for name chunks fs
  proof -
    obtain cs where cs: "map_of (ds_components d) name = Some cs" "chunks = cleared_chunks d name cs" using c by auto
    have "chunks = [new_empty fs]" using cleared_chunks_empty [OF ok s cs(1)] cs(2) by simp
    then show ?thesis by simp
  qed
  then have "components_ok (clear d)" using ok unfolding components_ok_def dataset_ok_def clear_fields by blast
  moreover have "rows_ok (clear d)" by (simp add: rows_ok_def)
  moreover have "cache_ok (clear d)" by (simp add: cache_ok_def)
  moreover have "templates_ok (clear d)" using ok by (simp add: templates_ok_def dataset_ok_def)
  ultimately show ?thesis by (simp add: dataset_ok_def)
qed

lemma clear_contents: "dataset_ok d \<Longrightarrow> contents (clear d) name = map_option (\<lambda>b. new_empty (rb_fields b)) (contents d name)"
proof (cases "schema_of (ds_schemas d) name")
  case (Some fs)
  assume ok: "dataset_ok d"
  obtain chunks where c: "map_of (ds_components d) name = Some chunks" "contents d name = Some (merge_batches fs chunks)"
    using dataset_okD [OF ok Some] by metis
  have "contents (clear d) name = Some (merge_batches fs [new_empty fs])"
    using Some c cleared_chunks_empty [OF ok Some c(1)] by (simp add: contents_def)
  then show ?thesis using c(2) merge_single [of "new_empty fs" fs] by simp
qed (simp add: contents_def)

text \<open>Registering a component while there are no rows adds it empty.\<close>

lemma registered_ok:
  assumes ok: "dataset_ok d" and none: "map_of (ds_schemas d) name = None" and empty: "ds_row_count d = 0" and e: "se_schema entry = fs"
    and templates: "templates_ok d'" and d': "ds_schemas d' = ds_schemas d @ [(name, entry)]"
      "ds_components d' = put name [new_empty fs] (ds_components d)" "ds_cache d' = ds_cache d" "ds_row_count d' = 0"
      "ds_alive d' = ds_alive d" "ds_live d' = ds_live d" "ds_dead d' = ds_dead d"
  shows "dataset_ok d'"
proof -
  have new: "name \<notin> fst ` set (ds_schemas d)" using none by (simp add: map_of_eq_None_iff)
  have keys: "fst ` set (ds_components d) = fst ` set (ds_schemas d)" using ok by (simp add: dataset_ok_def components_ok_def)
  have sch: "schema_of (ds_schemas d') n = (if n = name then Some fs else schema_of (ds_schemas d) n)" for n
    using none e by (auto simp: schema_of_def d'(1) map_add_def split: option.splits)
  have "distinct (map fst (ds_components d'))" using ok by (simp add: dataset_ok_def components_ok_def d'(2) distinct_put)
  moreover have "distinct (map fst (ds_schemas d'))" using ok new by (simp add: dataset_ok_def components_ok_def d'(1))
  moreover have "fst ` set (ds_components d') = fst ` set (ds_schemas d')" using keys by (simp add: d'(1,2))
  moreover have "chunks \<noteq> [] \<and> (\<forall>b \<in> set chunks. batch_ok b \<and> rb_fields b = gs) \<and> chunk_rows chunks \<le> ds_row_count d'"
    if c: "map_of (ds_components d') n = Some chunks" and s: "schema_of (ds_schemas d') n = Some gs" for n chunks gs
  proof (cases "n = name")
    case True
    then show ?thesis using c s sch by (auto simp: d'(2))
  next
    case False
    then have "map_of (ds_components d) n = Some chunks" "schema_of (ds_schemas d) n = Some gs" using c s sch by (simp_all add: d'(2))
    then have "chunks \<noteq> [] \<and> (\<forall>b \<in> set chunks. batch_ok b \<and> rb_fields b = gs) \<and> chunk_rows chunks \<le> ds_row_count d"
      using ok unfolding dataset_ok_def components_ok_def by blast
    then show ?thesis using empty by (simp add: d'(4))
  qed
  ultimately have "components_ok d'" unfolding components_ok_def by blast
  moreover have "rows_ok d'" using ok empty by (simp add: dataset_ok_def rows_ok_def d')
  moreover have "cache_ok d'"
    unfolding cache_ok_def
  proof clarify
    fix n b assume "map_of (ds_cache d') n = Some b"
    then have b: "contents d n = Some b" using ok by (simp add: d'(3) dataset_ok_def cache_ok_def)
    then have "schema_of (ds_schemas d) n \<noteq> None" by (auto simp: contents_def split: option.splits)
    then have "n \<noteq> name" using none by (auto simp: schema_of_def)
    then show "contents d' n = Some b" using b sch by (simp add: contents_def d'(2))
  qed
  ultimately show ?thesis using templates by (simp add: dataset_ok_def)
qed

lemma templates_register:
  assumes "templates_ok d" "map_of (ds_schemas d) name = None" "ds_schemas d' = ds_schemas d @ [(name, entry)]"
    "ds_templates d' = put name (new_empty (se_schema entry)) (ds_templates d)"
  shows "templates_ok d'"
  unfolding templates_ok_def
proof clarify
  fix n t assume t: "map_of (ds_templates d') n = Some t"
  have sch: "schema_of (ds_schemas d') n = (if n = name then Some (se_schema entry) else schema_of (ds_schemas d) n)"
    using assms(2) by (auto simp: schema_of_def assms(3) map_add_def split: option.splits)
  show "\<exists>fs. schema_of (ds_schemas d') n = Some fs \<and> t = new_empty fs"
    using t assms(1) sch unfolding templates_ok_def by (cases "n = name") (auto simp: assms(4))
qed

lemma register_component_ok:
  assumes ok: "dataset_ok d"
  shows "dataset_ok (snd (register_component c d))"
proof (cases "map_of (ds_schemas d) (ct_name c) \<noteq> None \<or> ds_row_count d \<noteq> 0")
  case False
  let ?d = "snd (register_component c d)"
  have none: "map_of (ds_schemas d) (ct_name c) = None" "ds_row_count d = 0" using False by simp_all
  have d: "?d = d\<lparr>ds_schemas := ds_schemas d @ [(ct_name c, ct_entry c)],
      ds_templates := put (ct_name c) (new_empty (se_schema (ct_entry c))) (ds_templates d),
      ds_components := put (ct_name c) [new_empty (se_schema (ct_entry c))] (ds_components d)\<rparr>"
    using none by (simp add: register_component_def register_schema_def Let_def)
  have "templates_ok ?d" by (rule templates_register [of d "ct_name c"]) (use ok none d in \<open>simp_all add: dataset_ok_def\<close>)
  then show ?thesis by (rule registered_ok [OF ok none refl]) (simp_all add: d none)
next
  case True
  then have "snd (register_component c d) = d" by (auto simp: register_component_def)
  then show ?thesis using ok by simp
qed

lemma raw_entry_schema [simp]: "se_schema (raw_entry name fs v) = fs"
  by (simp add: raw_entry_def)

lemma register_raw_component_ok:
  assumes ok: "dataset_ok d" and r: "register_raw_component name fs v d = Some d'"
  shows "dataset_ok d'"
proof (cases "map_of (ds_schemas d) name \<noteq> None")
  case False
  have none: "map_of (ds_schemas d) name = None" "ds_row_count d = 0" using False r by (auto simp: register_raw_component_def split: if_splits)
  have d: "d' = d\<lparr>ds_schemas := ds_schemas d @ [(name, raw_entry name fs v)], ds_templates := put name (new_empty fs) (ds_templates d),
      ds_components := put name [new_empty fs] (ds_components d)\<rparr>"
    using none r by (simp add: register_raw_component_def register_raw_def Let_def)
  have "templates_ok d'" by (rule templates_register [of d name _ "raw_entry name fs v"]) (use ok none d in \<open>simp_all add: dataset_ok_def\<close>)
  then show ?thesis by (rule registered_ok [OF ok none raw_entry_schema]) (simp_all add: d none)
qed (use r ok in \<open>auto simp: register_raw_component_def\<close>)

lemma schema_registered: "schema_of (ds_schemas d) name = Some fs \<Longrightarrow> map_of (ds_schemas d) name \<noteq> None"
  by (auto simp: schema_of_def)

lemma append_record_batch_ok:
  assumes K: "kernels_ok K" and ok: "dataset_ok d" and b: "batch_ok b" and r: "append_record_batch K name b d = Some (Inr r, d')"
  shows "dataset_ok d'"
proof (cases "rb_rows b = 0")
  case True
  then show ?thesis using r ok by (auto simp: append_record_batch_def split: option.splits)
next
  case False
  then have "schema_of (ds_schemas d) name = Some (rb_fields b)"
    using r by (auto simp: append_record_batch_def split: option.splits if_splits)
  from append_record_batch_holds [OF K ok b this] show ?thesis using r by auto
qed

lemma append_values_ok:
  assumes K: "kernels_ok K" and ok: "dataset_ok d" and enc: "\<And>b. encoded values = Inr b \<Longrightarrow> batch_ok b \<and> rb_rows b = length values"
    and r: "append_values K name values encoded d = Some (Inr r, d')"
  shows "dataset_ok d'"
proof (cases "values = []")
  case True
  then show ?thesis using r ok by (auto simp: append_values_def split: option.splits)
next
  case False
  then obtain b chunks where b: "schema_of (ds_schemas d) name = Some (rb_fields b)" "encoded values = Inr b"
    "map_of (ds_components d) name = Some chunks" "push_chunk K name (rb_fields b) chunks (length values) b d = Some (Inr r, d')"
    using r by (auto simp: append_values_def split: option.splits sum.splits if_splits)
  obtain chunks' where c: "map_of (ds_components d) name = Some chunks'" "\<forall>c \<in> set chunks'. batch_ok c \<and> rb_fields c = rb_fields b"
    "chunk_rows chunks' \<le> ds_row_count d" "contents d name = Some (merge_batches (rb_fields b) chunks')" using dataset_okD [OF ok b(1)] by metis
  have "chunks' = chunks" using c(1) b(3) by simp
  then show ?thesis using push_chunk_ok [OF K ok b(1) c(2,3,4), of b "length values"] enc [OF b(2)] b(4) by auto
qed

text \<open>A compaction that returns has compacted a data set with full components.\<close>

lemma compact_ok:
  assumes K: "kernels_ok K" and ok: "dataset_ok d" and r: "compact K d = Some (Inr (), d')"
  shows "dataset_ok d'"
proof (cases "ds_dead d = 0")
  case True
  then show ?thesis using r ok by (simp add: compact_def)
next
  case False
  have "aligned d"
    unfolding aligned_def
  proof (intro allI impI)
    fix name b assume b: "contents d name = Some b"
    have "rb_rows b \<le> rows d" using contents_ok [OF ok b] by (simp add: rows_def)
    moreover have "\<not> rb_rows b < rows d" using compact_short_fails [OF K ok False b] r by auto
    ultimately show "rb_rows b = rows d" by simp
  qed
  from compact_holds [OF K ok this] show ?thesis using r by auto
qed


section \<open>Writing\<close>

lemma set_single_ok:
  assumes ok: "dataset_ok d" and fs: "schema_of (ds_schemas d) name = Some (rb_fields b)" and b: "batch_ok b" "rb_rows b \<le> ds_row_count d"
    and d': "d' = d\<lparr>ds_components := put name [b] (ds_components d), ds_cache := without name (ds_cache d)\<rparr>"
  shows "dataset_ok d' \<and> ds_schemas d' = ds_schemas d \<and> rows d' = rows d"
proof -
  have R: "rows_ok d" using ok by (simp add: dataset_ok_def)
  have "d' = d\<lparr>ds_components := put name [b] (ds_components d), ds_cache := without name (ds_cache d), ds_alive := ds_alive d,
      ds_live := ds_live d, ds_dead := ds_dead d, ds_row_count := ds_row_count d\<rparr>" by (simp add: d')
  from set_chunks_ok [OF ok fs _ _ _ _ _ _ _ refl this] show ?thesis using b R by (auto simp: rows_def rows_ok_def)
qed

lemma replace_batch_ok:
  assumes K: "kernels_ok K" and ok: "dataset_ok d" and b: "batch_ok b" and r: "replace_batch K name b d = Some (Inr (), d')"
  shows "dataset_ok d'"
proof -
  obtain d1 where F: "flush_all_pending K d = Some (Inr (), d1)" "same_data d d1" using flush_all_pending_holds [OF K ok] by metis
  have S: "dataset_ok d1" "ds_schemas d1 = ds_schemas d" using F(2) by (simp_all add: same_data_def)
  obtain chunks where c: "schema_of (ds_schemas d) name = Some (rb_fields b)" "map_of (ds_components d1) name = Some chunks"
    "rb_rows b = chunk_rows chunks" "d' = d1\<lparr>ds_components := put name [b] (ds_components d1), ds_cache := without name (ds_cache d1)\<rparr>"
    using r F(1) by (auto simp: replace_batch_def split: option.splits if_splits)
  have fs: "schema_of (ds_schemas d1) name = Some (rb_fields b)" using c(1) S(2) by simp
  have "rb_rows b \<le> ds_row_count d1" using dataset_okD [OF S(1) fs] c(2,3) by (metis option.inject)
  from set_single_ok [OF S(1) fs b this c(4)] show ?thesis by simp
qed

text \<open>Every array of a grouped write set has a value per row.\<close>

definition arrays_of :: "(string \<times> (string \<times> 'v list) list) list \<Rightarrow> 'v list set" where
  "arrays_of groups = snd ` (\<Union>g \<in> set groups. set (snd g))"

lemma arrays_simps [simp]: "arrays_of [] = {}" "arrays_of ((c, us) # groups) = snd ` set us \<union> arrays_of groups"
  by (auto simp: arrays_of_def)

lemma arrays_add: "arrays_of (add_update c u groups) = insert (snd u) (arrays_of groups)"
  by (induction c u groups rule: add_update.induct) auto

lemma group_writes_lengths:
  "group_writes n ws groups = Inr groups' \<Longrightarrow> \<forall>a \<in> arrays_of groups. length a = n \<Longrightarrow> \<forall>a \<in> arrays_of groups'. length a = n"
  by (induction n ws groups rule: group_writes.induct) (auto simp: arrays_add split: if_splits)

definition nonempty_groups :: "(string \<times> (string \<times> 'v list) list) list \<Rightarrow> bool" where
  "nonempty_groups groups \<longleftrightarrow> list_all (\<lambda>g. snd g \<noteq> []) groups"

lemma nonempty_add: "nonempty_groups groups \<Longrightarrow> nonempty_groups (add_update c u groups)"
  by (induction c u groups rule: add_update.induct) (auto simp: nonempty_groups_def)

lemma group_writes_nonempty: "group_writes n ws groups = Inr groups' \<Longrightarrow> nonempty_groups groups \<Longrightarrow> nonempty_groups groups'"
  by (induction n ws groups rule: group_writes.induct) (auto simp: nonempty_add split: if_splits)

lemma position_bound: "position P xs = Some i \<Longrightarrow> i < length xs"
  by (auto simp: position_def split: list.splits dest!: arg_cong [where f = set])

lemma write_columns_length: "write_columns c fs us cols = Inr cols' \<Longrightarrow> length cols' = length cols"
  by (induction c fs us cols rule: write_columns.induct) (auto split: option.splits)

lemma write_columns_last:
  "write_columns c fs us cols = Inr cols' \<Longrightarrow> us \<noteq> [] \<Longrightarrow> length fs \<le> length cols \<Longrightarrow> snd (last us) \<in> set cols'"
proof (induction c fs us cols rule: write_columns.induct)
  case (2 c fs f array rest cols)
  obtain i where i: "position (\<lambda>fld. af_name fld = f) fs = Some i" "write_columns c fs rest (cols[i := array]) = Inr cols'"
    using "2.prems"(1) by (auto split: option.splits)
  show ?case
  proof (cases "rest = []")
    case True
    then show ?thesis using i position_bound [OF i(1)] "2.prems"(3) by (auto intro: set_update_memI)
  qed (use "2.IH" [OF i] "2.prems"(3) in simp)
qed simp

lemma write_groups_ok:
  "kernels_ok K \<Longrightarrow> dataset_ok d \<Longrightarrow> \<forall>a \<in> arrays_of groups. length a = ds_row_count d \<Longrightarrow> nonempty_groups groups \<Longrightarrow>
    write_groups K groups d = Some (Inr (), d') \<Longrightarrow> dataset_ok d'"
proof (induction K groups d rule: write_groups.induct)
  case (2 K c us rest d)
  obtain b bs cols b' where w: "map_of (ds_components d) c = Some (b # bs)" "write_columns c (rb_fields b) us (rb_columns b) = Inr cols"
    "ar_try_new K (rb_fields b) cols = Inr b'"
    "write_groups K rest (d\<lparr>ds_components := put c [b'] (ds_components d), ds_cache := without c (ds_cache d)\<rparr>) = Some (Inr (), d')"
    using "2.prems"(5) by (auto split: option.splits list.splits sum.splits)
  let ?d = "d\<lparr>ds_components := put c [b'] (ds_components d), ds_cache := without c (ds_cache d)\<rparr>"
  have "c \<in> fst ` set (ds_schemas d)"
    using w(1) "2.prems"(2) by (metis components_ok_def dataset_ok_def fst_conv map_of_SomeD rev_image_eqI)
  then obtain fs where fs: "schema_of (ds_schemas d) c = Some fs" using schema_of_member by blast
  have b: "batch_ok b" "rb_fields b = fs" using "2.prems"(2) fs w(1) unfolding dataset_ok_def components_ok_def by (metis list.set_intros(1))+
  have b': "rb_fields b' = fs" "rb_columns b' = cols" "batch_ok b'"
    using "2.prems"(1) w(3) b(2) unfolding kernels_ok_def by blast+
  have us: "us \<noteq> []" "\<forall>u \<in> set us. length (snd u) = ds_row_count d" "\<forall>a \<in> arrays_of rest. length a = ds_row_count d" "nonempty_groups rest"
    using "2.prems"(3,4) by (auto simp: arrays_of_def nonempty_groups_def)
  have "snd (last us) \<in> set cols"
    by (rule write_columns_last [OF w(2) us(1)]) (use b in \<open>simp add: batch_ok_def\<close>)
  then have "length (snd (last us)) = rb_rows b'" using b'(2,3) by (auto simp: batch_ok_def list_all_iff)
  then have n: "rb_rows b' = ds_row_count d" using us(1,2) by simp
  have fs': "schema_of (ds_schemas d) c = Some (rb_fields b')" using fs b'(1) by simp
  have "dataset_ok ?d" using set_single_ok [OF "2.prems"(2) fs' b'(3) _ refl] n by simp
  then show ?case using "2.IH" [OF w(1) refl w(2,3) "2.prems"(1)] us(3,4) w(4) by simp
qed simp

lemma resources_ok [simp]: "dataset_ok (d\<lparr>ds_resources := rs\<rparr>) \<longleftrightarrow> dataset_ok d"
proof -
  have c: "contents (d\<lparr>ds_resources := rs\<rparr>) = contents d" by (simp add: contents_def fun_eq_iff)
  show ?thesis unfolding dataset_ok_def components_ok_def rows_ok_def cache_ok_def templates_ok_def c by simp
qed

lemma resource_updates_ok: "dataset_ok d \<Longrightarrow> dataset_ok (fold (\<lambda>(ty, r). insert_resource ty r) updates d)"
  by (induction updates arbitrary: d) (auto simp: insert_resource_def)

lemma apply_write_set_ok:
  assumes K: "kernels_ok K" and ok: "dataset_ok d" and r: "apply_write_set K writes updates d = Some (Inr (), d')"
  shows "dataset_ok d'"
proof -
  obtain d1 where F: "flush_all_pending K d = Some (Inr (), d1)" "same_data d d1" using flush_all_pending_holds [OF K ok] by metis
  have S: "dataset_ok d1" using F(2) by (simp add: same_data_def)
  obtain groups d2 where w: "group_writes (ds_row_count d1) writes [] = Inr groups" "write_groups K groups d1 = Some (Inr (), d2)"
    "d' = fold (\<lambda>(ty, r). insert_resource ty r) updates d2"
    using r F(1) by (auto simp: apply_write_set_def split: option.splits sum.splits)
  have "dataset_ok d2"
    by (rule write_groups_ok [OF K S _ _ w(2)])
      (use group_writes_lengths [OF w(1)] group_writes_nonempty [OF w(1)] in \<open>auto simp: arrays_of_def nonempty_groups_def\<close>)
  then show ?thesis using resource_updates_ok w(3) by simp
qed

section \<open>Reachable data sets\<close>

text \<open>What \<^verbatim>\<open>Component::to_record_batch\<close> returns is a batch with a row per value.\<close>

definition encodes :: "('a list \<Rightarrow> 'v record_batch saci_result) \<Rightarrow> bool" where
  "encodes f \<longleftrightarrow> (\<forall>values b. f values = Inr b \<longrightarrow> batch_ok b \<and> rb_rows b = length values)"

inductive dataset_step :: "'v arrow_ops \<Rightarrow> ('v, 'z) dataset \<Rightarrow> ('v, 'z) dataset \<Rightarrow> bool" for K where
  step_register: "dataset_step K d (snd (register_component c d))"
| step_register_raw: "register_raw_component name fs v d = Some d' \<Longrightarrow> dataset_step K d d'"
| step_append: "encodes f \<Longrightarrow> append_values K name (values :: 'v list list) f d = Some (Inr r, d') \<Longrightarrow> dataset_step K d d'"
| step_append_batch: "batch_ok b \<Longrightarrow> append_record_batch K name b d = Some (Inr r, d') \<Longrightarrow> dataset_step K d d'"
| step_read: "batch_for K name d = Some (found, d') \<Longrightarrow> dataset_step K d d'"
| step_mark_dead: "dataset_step K d (mark_dead row d)"
| step_flush: "flush_all_pending K d = Some (Inr (), d') \<Longrightarrow> dataset_step K d d'"
| step_compact: "compact K d = Some (Inr (), d') \<Longrightarrow> dataset_step K d d'"
| step_clear: "dataset_step K d (clear d)"
| step_resource: "dataset_step K d (insert_resource ty res d)"
| step_replace: "batch_ok b \<Longrightarrow> replace_batch K name b d = Some (Inr (), d') \<Longrightarrow> dataset_step K d d'"
| step_write: "apply_write_set K writes updates d = Some (Inr (), d') \<Longrightarrow> dataset_step K d d'"

lemma dataset_step_ok: "dataset_step K d d' \<Longrightarrow> kernels_ok K \<Longrightarrow> dataset_ok d \<Longrightarrow> dataset_ok d'"
proof (induction rule: dataset_step.induct)
  case (step_read name d found d')
  then show ?case using batch_for_holds [of K d name] by auto
next
  case (step_flush d d')
  then show ?case using flush_all_pending_holds [of K d] by (auto simp: same_data_def)
next
  case (step_append f name vs d r d')
  then show ?case using append_values_ok [of K d f vs] by (auto simp: encodes_def)
next
  case (step_resource d ty res)
  then show ?case by (simp add: insert_resource_def)
next
  case (step_register d c)
  from register_component_ok [OF step_register(2)] show ?case .
next
  case (step_register_raw name fs v d d')
  from register_raw_component_ok [OF step_register_raw(3,1)] show ?case .
next
  case (step_append_batch b name d r d')
  from append_record_batch_ok [OF step_append_batch(3,4,1,2)] show ?case .
next
  case (step_mark_dead d row)
  from mark_dead_ok [OF step_mark_dead(2)] show ?case .
next
  case (step_compact d d')
  from compact_ok [OF step_compact(2,3,1)] show ?case .
next
  case (step_clear d)
  from clear_ok [OF step_clear(2)] show ?case .
next
  case (step_replace b name d d')
  from replace_batch_ok [OF step_replace(3,4,1,2)] show ?case .
next
  case (step_write writes updates d d')
  from apply_write_set_ok [OF step_write(2,3,1)] show ?case .
qed

lemma reachable_ok: "(dataset_step K)\<^sup>*\<^sup>* new_dataset d \<Longrightarrow> kernels_ok K \<Longrightarrow> dataset_ok d"
  by (induction rule: rtranclp_induct) (auto simp: new_dataset_ok dataset_step_ok)

text \<open>
  C17. Whatever operations have succeeded on a data set, its live and deleted rows are all of its
  rows, and reading a component returns the concatenation of what its chunks hold, in order, whether
  or not it was cached, a batch of the registered schema with at most a row per row of the data set.
\<close>

theorem reachable_dataset_consistent:
  assumes "kernels_ok K" "(dataset_step K)\<^sup>*\<^sup>* new_dataset d"
  shows "live_rows d + ds_dead d = rows d \<and> live_rows d = card {row. is_alive row d} \<and>
    (\<exists>d'. batch_for K name d = Some (contents d name, d')) \<and>
    (case contents d name of
       None \<Rightarrow> map_of (ds_schemas d) name = None
     | Some b \<Rightarrow> batch_ok b \<and> schema_of (ds_schemas d) name = Some (rb_fields b) \<and> rb_rows b \<le> rows d)"
proof -
  have ok: "dataset_ok d" using reachable_ok assms by blast
  have R: "length (ds_alive d) = rows d" "ds_live d = count_list (ds_alive d) True" "ds_dead d = count_list (ds_alive d) False"
    using ok by (simp_all add: dataset_ok_def rows_ok_def rows_def)
  have "{row. is_alive row d} = {i. i < length (ds_alive d) \<and> ds_alive d ! i}" by (auto simp: is_alive_def)
  then have "card {row. is_alive row d} = count_list (ds_alive d) True"
    by (simp add: count_list_eq_length_filter length_filter_conv_card)
  moreover have "live_rows d + ds_dead d = rows d" using R count_total [of "ds_alive d"] by (simp add: live_rows_def)
  moreover have "\<exists>d'. batch_for K name d = Some (contents d name, d')" using batch_for_holds [OF assms(1) ok] by blast
  moreover have "case contents d name of None \<Rightarrow> map_of (ds_schemas d) name = None
     | Some b \<Rightarrow> batch_ok b \<and> schema_of (ds_schemas d) name = Some (rb_fields b) \<and> rb_rows b \<le> rows d"
    using contents_None [OF ok, of name] contents_ok [OF ok, of name]
    by (cases "contents d name") (auto simp: rows_def schema_of_def)
  ultimately show ?thesis using R(2) by (simp add: live_rows_def)
qed

section \<open>Forwarding and compacting\<close>

text \<open>
  C18. Forwarding a data set into another appends, for every component both have, the rows the source
  holds after the rows the destination holds, in order, and changes no other component and nothing of
  what the source holds.
\<close>

theorem forward_into_exact:
  assumes "kernels_ok K" "dataset_ok src" "dataset_ok dst" "shared_agree src dst"
  shows "\<exists>m src' dst'. forward_into K src dst = Some (Inr m, src', dst') \<and> dataset_ok src' \<and> dataset_ok dst' \<and>
    contents src' = contents src \<and> contents dst' = (\<lambda>name. appended (contents dst name) (contents src name))"
  using forward_into_holds [OF assms] .

text \<open>
  C24. Compacting a data set without deleted rows returns it unchanged. With deleted rows it keeps in every
  component exactly the live rows, in order, when every component has a row for each row of the data
  set, and fails exactly when a component has fewer.
\<close>

theorem compact_exact:
  assumes K: "kernels_ok K" and ok: "dataset_ok d"
  shows "if ds_dead d = 0 then compact K d = Some (Inr (), d)
    else if aligned d
    then \<exists>d'. compact K d = Some (Inr (), d') \<and> dataset_ok d' \<and> rows d' = live_rows d \<and> live_rows d' = live_rows d \<and>
      contents d' = (\<lambda>name. map_option (filter_rows (ds_alive d)) (contents d name))
    else \<exists>e d'. compact K d = Some (Inl e, d')"
proof (cases "ds_dead d = 0 \<or> aligned d")
  case True
  then show ?thesis using compact_holds [OF K ok] by (auto simp: compact_def)
next
  case False
  then obtain name b where b: "contents d name = Some b" "rb_rows b \<noteq> rows d" by (auto simp: aligned_def)
  then have "rb_rows b < rows d" using contents_ok [OF ok b(1)] by (simp add: rows_def)
  from compact_short_fails [OF K ok _ b(1) this] show ?thesis using False by simp
qed

section \<open>Witnesses\<close>

definition sample_fields :: arrow_fields where
  "sample_fields = [\<lparr>af_name = ''v'', af_type = Arrow_Int64, af_nullable = False, af_metadata = []\<rparr>]"

definition sample_batch :: "nat record_batch" where
  "sample_batch = \<lparr>rb_fields = sample_fields, rb_columns = [[1, 2, 3]], rb_rows = 3\<rparr>"

definition sample_start :: "(nat, nat) dataset" where
  "sample_start = the (register_raw_component ''c'' sample_fields 1 new_dataset)"

definition sample_filled :: "(nat, nat) dataset" where
  "sample_filled = snd (the (append_record_batch reference_kernels ''c'' sample_batch sample_start))"

definition sample_dataset :: "(nat, nat) dataset" where
  "sample_dataset = mark_dead 1 sample_filled"

lemma sample_batch_ok: "batch_ok sample_batch"
  by (simp add: batch_ok_def sample_batch_def sample_fields_def)

lemma sample_start_eq:
  "sample_start = \<lparr>ds_components = [(''c'', [new_empty sample_fields])], ds_cache = [], ds_templates = [(''c'', new_empty sample_fields)],
     ds_schemas = [(''c'', raw_entry ''c'' sample_fields 1)], ds_row_count = 0, ds_alive = [], ds_live = 0, ds_dead = 0, ds_resources = []\<rparr>"
  "register_raw_component ''c'' sample_fields 1 new_dataset = Some sample_start"
  by (simp_all add: sample_start_def register_raw_component_def new_dataset_def register_raw_def Let_def)

lemma three_alive: "replicate 3 True = [True, True, True]"
  by (simp add: numeral_eq_Suc)

lemma sample_filled_eq:
  "append_record_batch reference_kernels ''c'' sample_batch sample_start = Some (Inr (0, 3), sample_filled)"
  "sample_filled = sample_start\<lparr>ds_components := [(''c'', [sample_batch])], ds_row_count := 3, ds_alive := [True, True, True], ds_live := 3\<rparr>"
proof -
  have "append_record_batch reference_kernels ''c'' sample_batch sample_start = Some (Inr (0, 3),
      sample_start\<lparr>ds_components := [(''c'', [sample_batch])], ds_row_count := 3, ds_alive := [True, True, True], ds_live := 3\<rparr>)"
    by (simp add: sample_start_eq append_record_batch_def schema_of_def sample_batch_def push_chunk_def MERGE_THRESHOLD_def
        chunk_rows_def new_empty_def Let_def without_def three_alive)
  then show "append_record_batch reference_kernels ''c'' sample_batch sample_start = Some (Inr (0, 3), sample_filled)"
    "sample_filled = sample_start\<lparr>ds_components := [(''c'', [sample_batch])], ds_row_count := 3, ds_alive := [True, True, True], ds_live := 3\<rparr>"
    by (simp_all add: sample_filled_def)
qed

lemma sample_contents:
  "contents sample_dataset ''c'' = Some sample_batch" "live_rows sample_dataset = 2" "rows sample_dataset = 3" "ds_dead sample_dataset = 1"
  "ds_alive sample_dataset = [True, False, True]"
proof -
  have "merge_batches sample_fields [sample_batch] = sample_batch"
    by (rule merge_single [OF sample_batch_ok]) (simp add: sample_batch_def)
  then show "contents sample_dataset ''c'' = Some sample_batch" "live_rows sample_dataset = 2" "rows sample_dataset = 3"
    "ds_dead sample_dataset = 1" "ds_alive sample_dataset = [True, False, True]"
    by (simp_all add: sample_dataset_def mark_dead_def sample_filled_eq sample_start_eq contents_def schema_of_def live_rows_def rows_def)
qed

lemma sample_reachable: "(dataset_step reference_kernels)\<^sup>*\<^sup>* new_dataset sample_dataset"
proof -
  have "dataset_step reference_kernels new_dataset sample_start" by (rule step_register_raw [OF sample_start_eq(2)])
  moreover have "dataset_step reference_kernels sample_start sample_filled"
    by (rule step_append_batch [OF sample_batch_ok sample_filled_eq(1)])
  moreover have "dataset_step reference_kernels sample_filled sample_dataset" unfolding sample_dataset_def by (rule step_mark_dead)
  ultimately show ?thesis by (meson rtranclp.rtrancl_into_rtrancl rtranclp.rtrancl_refl)
qed

lemma sample_ok: "dataset_ok sample_dataset" "dataset_ok sample_start"
  using reachable_ok [OF sample_reachable reference_kernels_ok]
    register_raw_component_ok [OF new_dataset_ok sample_start_eq(2)] by simp_all

lemma sample_schemas: "ds_schemas sample_dataset = [(''c'', raw_entry ''c'' sample_fields 1)]" "ds_schemas sample_start = [(''c'', raw_entry ''c'' sample_fields 1)]"
  by (simp_all add: sample_dataset_def mark_dead_def sample_filled_eq sample_start_eq)

lemma sample_aligned: "aligned sample_dataset"
proof -
  have "contents sample_dataset name = (if name = ''c'' then Some sample_batch else None)" for name
    using sample_contents(1) by (cases "name = ''c''") (simp_all add: contents_def sample_schemas schema_of_def)
  then show ?thesis using sample_contents(3) by (simp add: aligned_def) (simp add: sample_batch_def)
qed

lemma reachable_dataset_consistent_witness:
  "live_rows sample_dataset + ds_dead sample_dataset = rows sample_dataset \<and> live_rows sample_dataset = card {row. is_alive row sample_dataset} \<and>
   (\<exists>d'. batch_for reference_kernels ''c'' sample_dataset = Some (Some sample_batch, d')) \<and> ds_dead sample_dataset = 1"
  using reachable_dataset_consistent [OF reference_kernels_ok sample_reachable, of "''c''"] sample_contents(1,4) by simp

lemma forward_into_exact_witness:
  "\<exists>m src' dst'. forward_into reference_kernels sample_dataset sample_start = Some (Inr m, src', dst') \<and>
     contents dst' ''c'' = Some (merge_batches sample_fields [new_empty sample_fields, sample_batch])"
proof -
  have "shared_agree sample_dataset sample_start" by (simp add: shared_agree_def sample_schemas)
  moreover have "contents sample_start ''c'' = Some (new_empty sample_fields)"
    by (simp add: contents_def sample_start_eq schema_of_def merge_single)
  ultimately show ?thesis
    using forward_into_exact [OF reference_kernels_ok sample_ok(1) sample_ok(2)] sample_contents(1)
    by (auto simp: appended_def sample_batch_def)
qed

lemma compact_exact_witness:
  "\<exists>d'. compact reference_kernels sample_dataset = Some (Inr (), d') \<and> rows d' = 2 \<and>
     map_option rb_columns (contents d' ''c'') = Some [[1, 3]]"
proof -
  have "ds_dead sample_dataset \<noteq> 0" using sample_contents(4) by simp
  from compact_exact [OF reference_kernels_ok sample_ok(1)] this sample_aligned sample_contents(1,2,5) show ?thesis
    by (auto simp: filter_rows_def kept_def sample_batch_def)
qed

end
