(* ===== verification/Runner.thy ===== *)
theory Runner
  imports Dataset
begin

text \<open>
  The standalone runner, \<^verbatim>\<open>saci-service/src/service/standalone.rs\<close>, in its batch modes and for a workflow
  without a dead letter queue. The parallel vectors of the runner are lists; a node's source, data set
  or sink is its box. \<open>None\<close> is a panic, or a drain or a run that never ends.

  What the runner reads from outside is a field of \<open>run_env\<close>: the clock and the cancellation token by
  the number of the reading, the connectors and runtimes by the number of the node. Every call that
  leaves the runner is an event of \<open>rn_log\<close>, which no operation reads. Metrics, log lines and the
  inspector are left out.

  The first sections are the watermarks of windowed nodes, \<^verbatim>\<open>saci-service/src/service/windowing.rs\<close>: which
  nodes lead to a windowed one, and the tracker of one node. Timestamps are \<^verbatim>\<open>i64\<close>; \<open>to_ms\<close> is the
  millisecond converter of the windows module on a column of the data set.
\<close>

section \<open>Reaching a windowed node\<close>

text \<open>One pass from the last node to the first; an index out of range reads \<open>False\<close>.\<close>

definition reach_step :: "bool list \<Rightarrow> built_edge list list \<Rightarrow> nat \<Rightarrow> bool list \<Rightarrow> bool list" where
  "reach_step windowed downstream i reaches =
     reaches[i := windowed ! i \<or> list_ex (\<lambda>e. be_node e < length reaches \<and> reaches ! be_node e) (downstream ! i)]"

definition reaches_windowed_node :: "bool list \<Rightarrow> built_edge list list \<Rightarrow> bool list" where
  "reaches_windowed_node windowed downstream =
     fold (reach_step windowed downstream) (rev [0..<length windowed]) (replicate (length windowed) False)"

section \<open>The tracker\<close>

datatype watermark_advance =
    Empty_Arrival
  | Usable bool
  | Beyond_Lateness (newest_ms: int) (behind_ms: int) (opens: bool)

definition BEYOND_LATENESS_RUN_TO_REPORT :: nat where "BEYOND_LATENESS_RUN_TO_REPORT = 4"

record window_tracker =
  wt_config :: window_config
  wt_watermark :: int
  wt_run :: nat
  wt_reported :: bool

definition new_tracker :: "window_config \<Rightarrow> window_tracker" where
  "new_tracker c = \<lparr>wt_config = c, wt_watermark = i64_min, wt_run = 0, wt_reported = False\<rparr>"

definition has_watermark :: "window_tracker \<Rightarrow> bool" where
  "has_watermark t \<longleftrightarrow> wt_watermark t \<noteq> i64_min"

text \<open>The watermark and the newest timestamp after one value.\<close>

definition note_time :: "int \<Rightarrow> int \<times> int option \<Rightarrow> int \<times> int option" where
  "note_time v s = (case s of (watermark, newest) \<Rightarrow>
     (if v > watermark then v else watermark,
      if (case newest of None \<Rightarrow> True | Some seen \<Rightarrow> v > seen) then Some v else newest))"

text \<open>
  The loop over the registered components. The watermark keeps what it has seen when a column cannot
  be converted; reading a component may fill the cache of the data set.
\<close>

fun advance_loop ::
  "'v arrow_ops \<Rightarrow> (arrow_field \<Rightarrow> 'v list \<Rightarrow> int option list saci_result) \<Rightarrow> string \<Rightarrow> string list \<Rightarrow> int \<times> int option \<Rightarrow>
     ('v, 'z) dataset \<Rightarrow> (unit saci_result \<times> (int \<times> int option) \<times> ('v, 'z) dataset) option" where
  "advance_loop K to_ms time_field [] s d = Some (Inr (), s, d)"
| "advance_loop K to_ms time_field (name # names) s d =
     (case schema_of (ds_schemas d) name of
        None \<Rightarrow> advance_loop K to_ms time_field names s d
      | Some schema \<Rightarrow>
          (case position (\<lambda>f. af_name f = time_field) schema of
             None \<Rightarrow> advance_loop K to_ms time_field names s d
           | Some i \<Rightarrow>
               (case batch_for K name d of
                  Some (Some b, d') \<Rightarrow>
                    (case to_ms (schema ! i) (rb_columns b ! i) of
                       Inl e \<Rightarrow> Some (Inl e, s, d')
                     | Inr stamps \<Rightarrow>
                         advance_loop K to_ms time_field names (fold note_time (concat (map (\<lambda>v. case v of Some t \<Rightarrow> [t] | None \<Rightarrow> []) stamps)) s) d')
                | _ \<Rightarrow> None)))"

definition lateness_threshold :: "int \<Rightarrow> int \<Rightarrow> int option" where
  "lateness_threshold before lateness =
     (if before = i64_min \<or> before \<le> lateness then None else Some (wrap_i64 (before - lateness)))"

text \<open>Classifying the newest timestamp against the watermark before the arrival.\<close>

definition classify :: "int \<Rightarrow> int \<Rightarrow> window_tracker \<Rightarrow> watermark_advance \<times> window_tracker" where
  "classify before newest t =
     (case lateness_threshold before (wn_lateness (wt_config t)) of
        Some threshold \<Rightarrow>
          if newest < threshold then
            let run = min (wt_run t + 1) (2 ^ 32 - 1);
                opening = (\<not> wt_reported t \<and> BEYOND_LATENESS_RUN_TO_REPORT \<le> run)
            in (Beyond_Lateness newest (min (max (before - newest) i64_min) i64_max) opening,
                t\<lparr>wt_run := run, wt_reported := wt_reported t \<or> opening\<rparr>)
          else (Usable (wt_reported t), t\<lparr>wt_run := 0, wt_reported := False\<rparr>)
      | None \<Rightarrow> (Usable (wt_reported t), t\<lparr>wt_run := 0, wt_reported := False\<rparr>))"

definition advance_from ::
  "'v arrow_ops \<Rightarrow> (arrow_field \<Rightarrow> 'v list \<Rightarrow> int option list saci_result) \<Rightarrow> window_tracker \<Rightarrow> ('v, 'z) dataset \<Rightarrow>
     (watermark_advance saci_result \<times> window_tracker \<times> ('v, 'z) dataset) option" where
  "advance_from K to_ms t d =
     (case advance_loop K to_ms (wn_time_field (wt_config t)) (map fst (ds_schemas d)) (wt_watermark t, None) d of
        None \<Rightarrow> None
      | Some (Inl e, (watermark, newest), d') \<Rightarrow> Some (Inl e, t\<lparr>wt_watermark := watermark\<rparr>, d')
      | Some (Inr _, (watermark, newest), d') \<Rightarrow>
          (case newest of
             None \<Rightarrow> Some (Inr Empty_Arrival, t\<lparr>wt_watermark := watermark\<rparr>, d')
           | Some n \<Rightarrow>
               (case classify (wt_watermark t) n (t\<lparr>wt_watermark := watermark\<rparr>) of (a, t') \<Rightarrow> Some (Inr a, t', d'))))"

section \<open>Reachability\<close>

definition edge_rel :: "built_edge list list \<Rightarrow> (nat \<times> nat) set" where
  "edge_rel downstream = {(i, be_node e) | i e. i < length downstream \<and> e \<in> set (downstream ! i)}"

text \<open>The edges of a built workflow lead forward.\<close>

definition forward_edges :: "built_edge list list \<Rightarrow> bool" where
  "forward_edges downstream \<longleftrightarrow> (\<forall>(i, j) \<in> edge_rel downstream. i < j \<and> j < length downstream)"

definition leads_to_window :: "bool list \<Rightarrow> built_edge list list \<Rightarrow> nat \<Rightarrow> bool" where
  "leads_to_window windowed downstream i \<longleftrightarrow> (\<exists>j < length windowed. windowed ! j \<and> (i, j) \<in> (edge_rel downstream)\<^sup>*)"

lemma leads_unfold:
  assumes "i < length windowed" "forward_edges downstream" "length downstream = length windowed"
  shows "leads_to_window windowed downstream i \<longleftrightarrow>
    windowed ! i \<or> (\<exists>e \<in> set (downstream ! i). leads_to_window windowed downstream (be_node e))"
proof
  assume "leads_to_window windowed downstream i"
  then obtain j where j: "j < length windowed" "windowed ! j" "(i, j) \<in> (edge_rel downstream)\<^sup>*" by (auto simp: leads_to_window_def)
  from j(3) show "windowed ! i \<or> (\<exists>e \<in> set (downstream ! i). leads_to_window windowed downstream (be_node e))"
  proof (cases rule: converse_rtranclE)
    case (step k)
    then show ?thesis using j by (auto simp: edge_rel_def leads_to_window_def)
  qed (use j in simp)
next
  assume "windowed ! i \<or> (\<exists>e \<in> set (downstream ! i). leads_to_window windowed downstream (be_node e))"
  then show "leads_to_window windowed downstream i"
  proof
    assume "\<exists>e \<in> set (downstream ! i). leads_to_window windowed downstream (be_node e)"
    then obtain e j where e: "e \<in> set (downstream ! i)" "j < length windowed" "windowed ! j" "(be_node e, j) \<in> (edge_rel downstream)\<^sup>*"
      by (auto simp: leads_to_window_def)
    have "(i, be_node e) \<in> edge_rel downstream" using e(1) assms by (auto simp: edge_rel_def)
    then show ?thesis using e by (auto simp: leads_to_window_def intro: converse_rtrancl_into_rtrancl)
  qed (use assms in \<open>auto simp: leads_to_window_def\<close>)
qed

lemma reach_steps:
  assumes fwd: "forward_edges downstream" and len: "length downstream = length windowed"
  shows "k \<le> length windowed \<Longrightarrow>
    \<exists>rs. fold (reach_step windowed downstream) (rev [length windowed - k..<length windowed]) (replicate (length windowed) False) = rs \<and>
      length rs = length windowed \<and>
      (\<forall>i < length windowed. rs ! i = (length windowed - k \<le> i \<and> leads_to_window windowed downstream i))"
proof (induction k)
  case (Suc k)
  let ?n = "length windowed" and ?i = "length windowed - Suc k"
  have i: "?i < ?n" "?n - k = Suc ?i" using Suc.prems by auto
  from Suc obtain rs where rs: "fold (reach_step windowed downstream) (rev [?n - k..<?n]) (replicate ?n False) = rs" "length rs = ?n"
    "\<forall>i < ?n. rs ! i = (?n - k \<le> i \<and> leads_to_window windowed downstream i)" by auto
  have split: "rev [?i..<?n] = rev [?n - k..<?n] @ [?i]" using i by (simp add: upt_conv_Cons)
  have edge: "be_node e < length rs \<and> rs ! be_node e \<longleftrightarrow> leads_to_window windowed downstream (be_node e)"
    if "e \<in> set (downstream ! ?i)" for e
  proof -
    have "(?i, be_node e) \<in> edge_rel downstream" using that i len by (auto simp: edge_rel_def)
    then have "?i < be_node e" "be_node e < ?n" using fwd len unfolding forward_edges_def by auto
    then show ?thesis using rs i by auto
  qed
  have "list_ex (\<lambda>e. be_node e < length rs \<and> rs ! be_node e) (downstream ! ?i) \<longleftrightarrow>
      (\<exists>e \<in> set (downstream ! ?i). leads_to_window windowed downstream (be_node e))"
    using edge by (auto simp: list_ex_iff)
  then have step: "reach_step windowed downstream ?i rs = rs[?i := leads_to_window windowed downstream ?i]"
    using leads_unfold [OF i(1) fwd len] by (simp add: reach_step_def)
  show ?case using rs i by (auto simp: split step nth_list_update)
qed simp

lemma reaches_windowed_node_holds:
  assumes "forward_edges downstream" "length downstream = length windowed"
  shows "reaches_windowed_node windowed downstream = map (leads_to_window windowed downstream) [0..<length windowed]"
  using reach_steps [OF assms, of "length windowed"] by (auto simp: reaches_windowed_node_def intro!: nth_equalityI)

section \<open>State\<close>

datatype ('so, 'v, 'z, 'si) run_box = Box_Source 'so | Box_Processor "('v, 'z) dataset" | Box_Sink 'si

record node_run_stats =
  ns_rows :: nat
  ns_batches :: nat
  ns_errors :: nat

record standalone_stats =
  ss_iterations :: nat
  ss_source_batches :: nat
  ss_rows :: nat
  ss_sink_batches :: nat
  ss_errors :: nat
  ss_duration_ms :: nat

text \<open>The unconsumed tail of an arrival and the weight of one of its rows.\<close>

record 'v carry =
  cr_batch :: "'v record_batch"
  cr_bytes_per_row :: rat

type_synonym blob = "nat list"

datatype 'v run_event =
    Ev_Pulled nat "'v record_batch" | Ev_Admitted nat "'v record_batch"
  | Ev_Staged nat "'v record_batch" | Ev_Offered nat "'v record_batch"
  | Ev_Sink_Finished nat | Ev_Source_Finished nat | Ev_State_Saved nat "blob option"

record ('so, 'v, 'z, 'si) runner_state =
  rn_boxes :: "('so, 'v, 'z, 'si) run_box list"
  rn_staged :: "'v record_batch list list"
  rn_carry :: "'v carry option list"
  rn_controllers :: "controller option list"
  rn_trackers :: "window_tracker option list"
  rn_prior :: "blob option list"
  rn_admitted_rows :: "nat list"
  rn_admitted_bytes :: "nat list"
  rn_waits :: "nat list"
  rn_failed :: "bool list"
  rn_nodes :: "node_run_stats list"
  rn_stats :: standalone_stats
  rn_drain_errors :: nat
  rn_backlogged :: bool
  rn_polls :: nat
  rn_clock :: nat
  rn_log :: "'v run_event list"

record run_output =
  ro_state :: "blob option"
  ro_routes :: "string list option"

text \<open>
  \<open>rv_dropped\<close> is a source whose pending \<^verbatim>\<open>next_batch\<close> was dropped, \<open>rv_memory\<close> Arrow's memory size of a
  batch, \<open>rv_mul\<close> the product of a duration and a float, \<open>rv_paused\<close> whether a pause cut the pacing of the
  pass short, \<open>rv_slices\<close> the number of sleep slices of an interval.
\<close>

record ('so, 'v, 'z, 'si) run_env =
  rv_nodes :: "built_node list"
  rv_source :: "nat \<Rightarrow> ('so, 'v record_batch, arrow_fields) source_ops"
  rv_sink :: "nat \<Rightarrow> ('si, 'v record_batch, arrow_fields) sink_ops"
  rv_runtime :: "nat \<Rightarrow> nat \<Rightarrow> ('v, 'z) dataset \<Rightarrow> blob option \<Rightarrow> run_output saci_result \<times> ('v, 'z) dataset"
  rv_kernels :: "'v arrow_ops"
  rv_to_ms :: "arrow_field \<Rightarrow> 'v list \<Rightarrow> int option list saci_result"
  rv_watermark :: "int \<Rightarrow> nat \<times> 'z"
  rv_plan :: flow_plan
  rv_mode :: run_mode
  rv_batch_resume :: bool
  rv_client :: bool
  rv_load_prior :: "nat \<Rightarrow> blob option saci_result"
  rv_memory :: "'v record_batch \<Rightarrow> nat"
  rv_cancelled :: "nat \<Rightarrow> bool"
  rv_dropped :: "'so \<Rightarrow> 'so"
  rv_now :: "nat \<Rightarrow> nat"
  rv_mul :: "nat \<Rightarrow> rat \<Rightarrow> nat"
  rv_paused :: "nat \<Rightarrow> bool"
  rv_slices :: "nat \<Rightarrow> nat"

definition size_of_run :: "('so, 'v, 'z, 'si) run_env \<Rightarrow> nat" where
  "size_of_run E = length (rv_nodes E)"

definition bump :: "('a \<Rightarrow> 'a) \<Rightarrow> nat \<Rightarrow> 'a list \<Rightarrow> 'a list" where
  "bump f i xs = xs[i := f (xs ! i)]"

definition emit :: "'v run_event \<Rightarrow> ('so, 'v, 'z, 'si) runner_state \<Rightarrow> ('so, 'v, 'z, 'si) runner_state" where
  "emit e st = st\<lparr>rn_log := rn_log st @ [e]\<rparr>"

definition now :: "('so, 'v, 'z, 'si) run_env \<Rightarrow> ('so, 'v, 'z, 'si) runner_state \<Rightarrow> nat \<times> ('so, 'v, 'z, 'si) runner_state" where
  "now E st = (rv_now E (rn_clock st), st\<lparr>rn_clock := rn_clock st + 1\<rparr>)"

definition poll :: "('so, 'v, 'z, 'si) run_env \<Rightarrow> ('so, 'v, 'z, 'si) runner_state \<Rightarrow> bool \<times> ('so, 'v, 'z, 'si) runner_state" where
  "poll E st = (rv_cancelled E (rn_polls st), st\<lparr>rn_polls := rn_polls st + 1\<rparr>)"

text \<open>One error of the iteration, and one of a node.\<close>

definition note_error :: "('so, 'v, 'z, 'si) runner_state \<Rightarrow> ('so, 'v, 'z, 'si) runner_state" where
  "note_error st = st\<lparr>rn_stats := (rn_stats st)\<lparr>ss_errors := ss_errors (rn_stats st) + 1\<rparr>\<rparr>"

definition note_node_error :: "nat \<Rightarrow> ('so, 'v, 'z, 'si) runner_state \<Rightarrow> ('so, 'v, 'z, 'si) runner_state" where
  "note_node_error i st =
     (note_error st)\<lparr>rn_nodes := bump (\<lambda>n. n\<lparr>ns_errors := ns_errors n + 1\<rparr>) i (rn_nodes st)\<rparr>"

section \<open>Draining a source\<close>

definition usize_max :: nat where "usize_max = 2 ^ 64 - 1"

definition weigh :: "('so, 'v, 'z, 'si) run_env \<Rightarrow> 'v record_batch \<Rightarrow> rat" where
  "weigh E b = (if rb_rows b = 0 then 0 else rnd (f64_of (rv_memory E b) / f64_of (rb_rows b)))"

definition slice_batch :: "nat \<Rightarrow> nat \<Rightarrow> 'v record_batch \<Rightarrow> 'v record_batch" where
  "slice_batch offset n b = \<lparr>rb_fields = rb_fields b, rb_columns = map (\<lambda>c. take n (drop offset c)) (rb_columns b), rb_rows = n\<rparr>"

datatype 'v pull = Pull_Cancelled | Pull_End | Pull_Failed | Pull_Batch "'v record_batch" rat bool

text \<open>
  What is admitted next: the carried tail, or a fresh arrival. The hint is withheld on a path to a
  windowed node; the time spent waiting is added up.
\<close>

definition next_arrival ::
  "('so, 'v, 'z, 'si) run_env \<Rightarrow> nat \<Rightarrow> bool \<Rightarrow> bool \<Rightarrow> nat \<Rightarrow> ('so, 'v, 'z, 'si) runner_state \<Rightarrow>
     ('v pull \<times> ('so, 'v, 'z, 'si) runner_state) option" where
  "next_arrival E i credit whole left st =
     (case rn_carry st ! i of
        Some c \<Rightarrow> Some (Pull_Batch (cr_batch c) (cr_bytes_per_row c) False, st\<lparr>rn_carry := (rn_carry st)[i := None]\<rparr>)
      | None \<Rightarrow>
          (case rn_boxes st ! i of
             Box_Source s \<Rightarrow>
               (let s1 = (if credit \<and> \<not> whole then src_hint (rv_source E i) left s else s);
                    (t0, st1) = now E st;
                    (cancelled, st2) = poll E st1;
                    (r, s2) = (if cancelled then (None, rv_dropped E s1)
                      else (case src_next (rv_source E i) s1 of (r, s') \<Rightarrow> (Some r, s')));
                    (t1, st3) = now E st2;
                    st4 = st3\<lparr>rn_boxes := (rn_boxes st3)[i := Box_Source s2], rn_waits := bump (\<lambda>w. w + (t1 - t0)) i (rn_waits st3)\<rparr>
                in Some (case r of
                     None \<Rightarrow> (Pull_Cancelled, st4)
                   | Some (Inr None) \<Rightarrow> (Pull_End, st4)
                   | Some (Inr (Some b)) \<Rightarrow> (Pull_Batch b (weigh E b) True, emit (Ev_Pulled i b) st4)
                   | Some (Inl e) \<Rightarrow> (Pull_Failed, (note_node_error i st4)\<lparr>rn_drain_errors := rn_drain_errors st4 + 1,
                       rn_failed := (rn_failed st4)[i := True]\<rparr>)))
           | _ \<Rightarrow> None))"

text \<open>The chunk that is admitted; the tail of a sliced arrival is carried.\<close>

definition take_chunk :: "nat \<Rightarrow> bool \<Rightarrow> nat \<Rightarrow> 'v record_batch \<Rightarrow> rat \<Rightarrow> ('so, 'v, 'z, 'si) runner_state \<Rightarrow>
    'v record_batch \<times> ('so, 'v, 'z, 'si) runner_state" where
  "take_chunk i whole left b w st =
     (if \<not> whole \<and> left < rb_rows b
      then (slice_batch 0 left b, st\<lparr>rn_carry := (rn_carry st)[i := Some \<lparr>cr_batch = slice_batch left (rb_rows b - left) b, cr_bytes_per_row = w\<rparr>],
        rn_backlogged := True\<rparr>)
      else (b, st))"

definition count_chunk :: "nat \<Rightarrow> 'v record_batch \<Rightarrow> rat \<Rightarrow> bool \<Rightarrow> ('so, 'v, 'z, 'si) runner_state \<Rightarrow> ('so, 'v, 'z, 'si) runner_state" where
  "count_chunk i b w fresh st =
     (let n = rb_rows b; s = rn_stats st; f = (if fresh then 1 else 0)
      in st\<lparr>rn_admitted_rows := bump (\<lambda>a. a + n) i (rn_admitted_rows st),
            rn_admitted_bytes := bump (\<lambda>a. a + as_u64 (rnd (f64_of n * w))) i (rn_admitted_bytes st),
            rn_stats := s\<lparr>ss_rows := ss_rows s + n, ss_source_batches := ss_source_batches s + f\<rparr>,
            rn_nodes := bump (\<lambda>x. x\<lparr>ns_rows := ns_rows x + n, ns_batches := ns_batches x + f\<rparr>) i (rn_nodes st)\<rparr>)"

text \<open>The chunk goes to every node behind the source.\<close>

definition stage :: "nat \<Rightarrow> 'v record_batch \<Rightarrow> ('so, 'v, 'z, 'si) runner_state \<Rightarrow> ('so, 'v, 'z, 'si) runner_state" where
  "stage i b st = emit (Ev_Staged i b) (st\<lparr>rn_staged := bump (\<lambda>q. q @ [b]) i (rn_staged st)\<rparr>)"

fun fan_source ::
  "('so, 'v, 'z, 'si) run_env \<Rightarrow> string \<Rightarrow> 'v record_batch \<Rightarrow> built_edge list \<Rightarrow> ('so, 'v, 'z, 'si) runner_state \<Rightarrow> ('so, 'v, 'z, 'si) runner_state option" where
  "fan_source E component b [] st = Some st"
| "fan_source E component b (e # es) st =
     (if length (rn_boxes st) \<le> be_node e then None
      else case rn_boxes st ! be_node e of
        Box_Processor d \<Rightarrow>
          (case append_record_batch (rv_kernels E) component b d of
             None \<Rightarrow> None
           | Some (r, d') \<Rightarrow>
               (let st1 = st\<lparr>rn_boxes := (rn_boxes st)[be_node e := Box_Processor d']\<rparr>
                in fan_source E component b es (case r of Inl _ \<Rightarrow> note_error st1 | Inr _ \<Rightarrow> st1)))
      | Box_Sink _ \<Rightarrow> fan_source E component b es (stage (be_node e) b st)
      | Box_Source _ \<Rightarrow> None)"

text \<open>The loop of one source; the flag says that the run was cancelled while waiting.\<close>

partial_function (option) drain ::
  "('so, 'v, 'z, 'si) run_env \<Rightarrow> nat \<Rightarrow> string \<Rightarrow> bool \<Rightarrow> bool \<Rightarrow> nat \<Rightarrow> nat \<Rightarrow> ('so, 'v, 'z, 'si) runner_state \<Rightarrow>
     (bool \<times> ('so, 'v, 'z, 'si) runner_state) option" where
  "drain E i component credit whole target taken st =
     (let left = (if credit then target - taken else usize_max)
      in if left = 0 then Some (False, st\<lparr>rn_backlogged := True\<rparr>)
         else Option.bind (next_arrival E i credit whole left st) (\<lambda>(p, st1).
           case p of
             Pull_Cancelled \<Rightarrow> Some (True, st1)
           | Pull_End \<Rightarrow> Some (False, st1)
           | Pull_Failed \<Rightarrow> Some (False, st1)
           | Pull_Batch b w fresh \<Rightarrow>
               (case take_chunk i whole left b w st1 of
                  (chunk, st2) \<Rightarrow>
                    Option.bind (fan_source E component chunk (bn_downstream (rv_nodes E ! i)) (emit (Ev_Admitted i chunk) (count_chunk i chunk w fresh st2)))
                      (\<lambda>st3. drain E i component credit whole target (taken + rb_rows chunk) st3))))"

text \<open>A source node of the pass; without a controller every arrival is taken.\<close>

definition run_source ::
  "('so, 'v, 'z, 'si) run_env \<Rightarrow> bool list \<Rightarrow> nat \<Rightarrow> ('so, 'v, 'z, 'si) runner_state \<Rightarrow> (bool \<times> ('so, 'v, 'z, 'si) runner_state) option" where
  "run_source E whole_arrivals i st =
     (case bn_component (rv_nodes E ! i) of
        None \<Rightarrow> None
      | Some component \<Rightarrow>
          drain E i component (case rn_controllers st ! i of None \<Rightarrow> False | Some c \<Rightarrow> flow_enabled (settings c)) (whole_arrivals ! i)
            (case rn_controllers st ! i of None \<Rightarrow> usize_max | Some c \<Rightarrow> target_rows c) 0 st)"

section \<open>Running a processor\<close>

text \<open>The watermark of a windowed node advances from the merged data before the runtime sees it.\<close>

definition advance_node ::
  "('so, 'v, 'z, 'si) run_env \<Rightarrow> nat \<Rightarrow> ('v, 'z) dataset \<Rightarrow> ('so, 'v, 'z, 'si) runner_state \<Rightarrow>
     (('v, 'z) dataset \<times> ('so, 'v, 'z, 'si) runner_state) option" where
  "advance_node E i d st =
     (case rn_trackers st ! i of
        None \<Rightarrow> Some (d, st)
      | Some t \<Rightarrow>
          (case advance_from (rv_kernels E) (rv_to_ms E) t d of
             None \<Rightarrow> None
           | Some (r, t', d') \<Rightarrow>
               (let st1 = st\<lparr>rn_trackers := (rn_trackers st)[i := Some t']\<rparr>
                in Some (case r of
                     Inr _ \<Rightarrow> (case rv_watermark E (wt_watermark t') of (ty, v) \<Rightarrow> insert_resource ty v d', st1)
                   | Inl _ \<Rightarrow> (d', note_error st1)))))"

text \<open>State is carried between passes under \<^verbatim>\<open>batch_resume\<close> or for a windowed node.\<close>

definition carries_state :: "('so, 'v, 'z, 'si) run_env \<Rightarrow> nat \<Rightarrow> bool" where
  "carries_state E i \<longleftrightarrow> rv_batch_resume E \<or> bn_window (rv_nodes E ! i) \<noteq> None"

definition keep_state :: "('so, 'v, 'z, 'si) run_env \<Rightarrow> nat \<Rightarrow> run_output \<Rightarrow> ('so, 'v, 'z, 'si) runner_state \<Rightarrow> ('so, 'v, 'z, 'si) runner_state" where
  "keep_state E i out st =
     (if carries_state E i then
        (let st1 = st\<lparr>rn_prior := (rn_prior st)[i := ro_state out]\<rparr>
         in if rv_batch_resume E \<and> rv_client E then emit (Ev_State_Saved i (ro_state out)) st1 else st1)
      else st)"

text \<open>
  The output goes along the selected edges; reading it may fill its cache. The data sets are split behind
  the node, so a target at or before it is a panic.
\<close>

fun fan_processor ::
  "('so, 'v, 'z, 'si) run_env \<Rightarrow> nat \<Rightarrow> string list option \<Rightarrow> built_edge list \<Rightarrow> ('v, 'z) dataset \<Rightarrow> ('so, 'v, 'z, 'si) runner_state \<Rightarrow>
     (('v, 'z) dataset \<times> ('so, 'v, 'z, 'si) runner_state) option" where
  "fan_processor E i routes [] src st = Some (src, st)"
| "fan_processor E i routes (e # es) src st =
     (if \<not> edge_selected routes (be_branch e) then fan_processor E i routes es src st
      else if length (rn_boxes st) \<le> be_node e then None
      else (case rn_boxes st ! be_node e of
         Box_Processor dst \<Rightarrow>
           (case if be_node e \<le> i then None else forward_into (rv_kernels E) src dst of
              None \<Rightarrow> None
            | Some (r, src', dst') \<Rightarrow>
                (let st1 = st\<lparr>rn_boxes := (rn_boxes st)[be_node e := Box_Processor dst']\<rparr>
                 in fan_processor E i routes es src' (case r of Inl _ \<Rightarrow> note_error st1 | Inr _ \<Rightarrow> st1)))
       | Box_Sink _ \<Rightarrow>
           (case bn_component (rv_nodes E ! be_node e) of
              None \<Rightarrow> None
            | Some component \<Rightarrow>
                (case batch_for (rv_kernels E) component src of
                   None \<Rightarrow> None
                 | Some (found, src') \<Rightarrow>
                     fan_processor E i routes es src' (case found of
                         Some b \<Rightarrow> if 0 < rb_rows b then stage (be_node e) b st else st
                       | None \<Rightarrow> st)))
       | Box_Source _ \<Rightarrow> None))"

definition set_dataset :: "nat \<Rightarrow> ('v, 'z) dataset \<Rightarrow> ('so, 'v, 'z, 'si) runner_state \<Rightarrow> ('so, 'v, 'z, 'si) runner_state" where
  "set_dataset i d st = st\<lparr>rn_boxes := (rn_boxes st)[i := Box_Processor d]\<rparr>"

text \<open>A processor that fails feeds nothing; its data set is cleared either way.\<close>

definition run_processor ::
  "('so, 'v, 'z, 'si) run_env \<Rightarrow> nat \<Rightarrow> ('v, 'z) dataset \<Rightarrow> ('so, 'v, 'z, 'si) runner_state \<Rightarrow>
     (bool \<times> ('so, 'v, 'z, 'si) runner_state) option" where
  "run_processor E i d st =
     Option.bind (advance_node E i d st) (\<lambda>(d1, st1).
       case poll E st1 of (cancelled, st2) \<Rightarrow>
         if cancelled then Some (True, set_dataset i d1 st2)
         else (case rv_runtime E i (rn_polls st2) d1 (if carries_state E i then rn_prior st2 ! i else None) of
             (Inl _, d2) \<Rightarrow> Some (False, set_dataset i (clear d2) (note_node_error i st2))
           | (Inr out, d2) \<Rightarrow>
               (let st3 = st2\<lparr>rn_nodes := bump (\<lambda>x. x\<lparr>ns_rows := ns_rows x + rows d2, ns_batches := ns_batches x + 1\<rparr>) i (rn_nodes st2)\<rparr>
                in map_option (\<lambda>(d3, st4). (False, set_dataset i (clear d3) st4))
                     (fan_processor E i (ro_routes out) (bn_downstream (rv_nodes E ! i)) d2 (keep_state E i out st3)))))"

section \<open>Writing to sinks and finishing\<close>

definition offer :: "('so, 'v, 'z, 'si) run_env \<Rightarrow> nat \<Rightarrow> 'v record_batch \<Rightarrow> ('so, 'v, 'z, 'si) runner_state \<Rightarrow> ('so, 'v, 'z, 'si) runner_state" where
  "offer E i b st =
     (case rn_boxes st ! i of
        Box_Sink s \<Rightarrow>
          (case snk_write (rv_sink E i) b s of (r, s') \<Rightarrow>
             (let st1 = emit (Ev_Offered i b) (st\<lparr>rn_boxes := (rn_boxes st)[i := Box_Sink s']\<rparr>)
              in case r of
                   Inr _ \<Rightarrow> st1\<lparr>rn_nodes := bump (\<lambda>x. x\<lparr>ns_rows := ns_rows x + rb_rows b, ns_batches := ns_batches x + 1\<rparr>) i (rn_nodes st1),
                     rn_stats := (rn_stats st1)\<lparr>ss_sink_batches := ss_sink_batches (rn_stats st1) + 1\<rparr>\<rparr>
                 | Inl _ \<Rightarrow> note_node_error i st1))
      | _ \<Rightarrow> st)"

definition write_staged :: "('so, 'v, 'z, 'si) run_env \<Rightarrow> nat \<Rightarrow> ('so, 'v, 'z, 'si) runner_state \<Rightarrow> ('so, 'v, 'z, 'si) runner_state" where
  "write_staged E i st =
     (let st1 = fold (offer E i) (rn_staged st ! i) st in st1\<lparr>rn_staged := (rn_staged st1)[i := []]\<rparr>)"

definition finish_sink :: "('so, 'v, 'z, 'si) run_env \<Rightarrow> nat \<Rightarrow> ('so, 'v, 'z, 'si) runner_state \<Rightarrow> ('so, 'v, 'z, 'si) runner_state" where
  "finish_sink E i st =
     (case rn_boxes st ! i of
        Box_Sink s \<Rightarrow>
          (case snk_finish (rv_sink E i) s of (r, s') \<Rightarrow>
             (let st1 = emit (Ev_Sink_Finished i) (st\<lparr>rn_boxes := (rn_boxes st)[i := Box_Sink s']\<rparr>)
              in case r of Inl _ \<Rightarrow> note_node_error i st1 | Inr _ \<Rightarrow> st1))
      | _ \<Rightarrow> st)"

definition finish_source :: "('so, 'v, 'z, 'si) run_env \<Rightarrow> nat \<Rightarrow> ('so, 'v, 'z, 'si) runner_state \<Rightarrow> ('so, 'v, 'z, 'si) runner_state" where
  "finish_source E i st =
     (case rn_boxes st ! i of
        Box_Source s \<Rightarrow>
          (case src_finish (rv_source E i) s of (r, s') \<Rightarrow>
             (let st1 = emit (Ev_Source_Finished i) (st\<lparr>rn_boxes := (rn_boxes st)[i := Box_Source s']\<rparr>)
              in case r of Inl _ \<Rightarrow> note_node_error i st1 | Inr _ \<Rightarrow> st1))
      | _ \<Rightarrow> st)"

definition flush_and_finish :: "('so, 'v, 'z, 'si) run_env \<Rightarrow> nat \<Rightarrow> ('so, 'v, 'z, 'si) runner_state \<Rightarrow> ('so, 'v, 'z, 'si) runner_state" where
  "flush_and_finish E i st =
     (case rn_boxes st ! i of Box_Sink _ \<Rightarrow> finish_sink E i (write_staged E i st) | _ \<Rightarrow> st)"

definition flush_and_finish_all :: "('so, 'v, 'z, 'si) run_env \<Rightarrow> ('so, 'v, 'z, 'si) runner_state \<Rightarrow> ('so, 'v, 'z, 'si) runner_state" where
  "flush_and_finish_all E st = fold (flush_and_finish E) [0..<size_of_run E] st"

definition finish_all_sources :: "('so, 'v, 'z, 'si) run_env \<Rightarrow> ('so, 'v, 'z, 'si) runner_state \<Rightarrow> ('so, 'v, 'z, 'si) runner_state" where
  "finish_all_sources E st = fold (finish_source E) [0..<size_of_run E] st"

section \<open>A pass\<close>

text \<open>The nodes in order; the flag says that the pass was cancelled.\<close>

definition run_node ::
  "('so, 'v, 'z, 'si) run_env \<Rightarrow> bool list \<Rightarrow> nat \<Rightarrow> ('so, 'v, 'z, 'si) runner_state \<Rightarrow> (bool \<times> ('so, 'v, 'z, 'si) runner_state) option" where
  "run_node E whole i st =
     (case rn_boxes st ! i of
        Box_Source _ \<Rightarrow> run_source E whole i st
      | Box_Processor d \<Rightarrow> run_processor E i d st
      | Box_Sink _ \<Rightarrow> (if bn_component (rv_nodes E ! i) = None then None else Some (False, write_staged E i st)))"

fun run_nodes ::
  "('so, 'v, 'z, 'si) run_env \<Rightarrow> bool list \<Rightarrow> nat list \<Rightarrow> ('so, 'v, 'z, 'si) runner_state \<Rightarrow> (bool \<times> ('so, 'v, 'z, 'si) runner_state) option" where
  "run_nodes E whole [] st = Some (False, st)"
| "run_nodes E whole (i # ks) st =
     (case run_node E whole i st of
        None \<Rightarrow> None
      | Some (cancelled, st') \<Rightarrow> if cancelled then Some (True, st') else run_nodes E whole ks st')"

text \<open>The largest backlog any sink reports.\<close>

definition sink_backlog :: "('so, 'v, 'z, 'si) run_env \<Rightarrow> ('so, 'v, 'z, 'si) runner_state \<Rightarrow> nat option" where
  "sink_backlog E st =
     fold (\<lambda>i seen. case rn_boxes st ! i of
         Box_Sink s \<Rightarrow> (case snk_pending (rv_sink E i) s of
             None \<Rightarrow> seen
           | Some n \<Rightarrow> Some (case seen of None \<Rightarrow> n | Some m \<Rightarrow> max m n))
       | _ \<Rightarrow> seen) [0..<size_of_run E] None"

text \<open>
  What the pass tells the controller of a source: the time of the shared chain in proportion to the
  rows it admitted.
\<close>

definition feed_controller ::
  "('so, 'v, 'z, 'si) run_env \<Rightarrow> nat \<Rightarrow> bool \<Rightarrow> nat option \<Rightarrow> nat \<Rightarrow> ('so, 'v, 'z, 'si) runner_state \<Rightarrow> ('so, 'v, 'z, 'si) runner_state" where
  "feed_controller E consumed chain_errors backlog i st =
     (case rn_controllers st ! i of
        None \<Rightarrow> st
      | Some c \<Rightarrow>
          (let admitted = rn_admitted_rows st ! i; all_admitted = sum_list (rn_admitted_rows st);
               elapsed = (if admitted = 0 \<or> all_admitted = 0 then 0
                 else rv_mul E consumed (rnd (f64_of admitted / f64_of all_admitted)));
               (at_time, st1) = now E st;
               (adjustment, c1) = observe \<lparr>sm_rows = admitted, sm_elapsed = elapsed, sm_bytes = rn_admitted_bytes st ! i,
                 sm_pending = backlog, sm_outcome = (if chain_errors \<or> rn_failed st ! i then Flow_Error else Flow_Ok),
                 sm_at = at_time\<rparr> c
           in st1\<lparr>rn_controllers := (rn_controllers st1)[i := Some (snd (take_latency_notice c1))]\<rparr>))"

definition feed_back :: "('so, 'v, 'z, 'si) run_env \<Rightarrow> nat \<Rightarrow> nat \<Rightarrow> ('so, 'v, 'z, 'si) runner_state \<Rightarrow> ('so, 'v, 'z, 'si) runner_state" where
  "feed_back E start errors_before st =
     (let (stop, st1) = now E st; consumed = (stop - start) - sum_list (rn_waits st1);
          chain_errors = (rn_drain_errors st1 < ss_errors (rn_stats st1) - errors_before)
      in fold (feed_controller E consumed chain_errors (sink_backlog E st1)) [0..<size_of_run E] st1)"

text \<open>How a pass ends: cancelled inside it, with the sinks finished, stopped while pacing, or with another pass.\<close>

datatype pass_end = Mid_Pass | Sinks_Finished | Stopped | Next_Pass

fun sleep_slices :: "('so, 'v, 'z, 'si) run_env \<Rightarrow> nat \<Rightarrow> ('so, 'v, 'z, 'si) runner_state \<Rightarrow> pass_end \<times> ('so, 'v, 'z, 'si) runner_state" where
  "sleep_slices E 0 st = (Next_Pass, st)"
| "sleep_slices E (Suc n) st =
     (case poll E st of (cancelled, st') \<Rightarrow> if cancelled then (Stopped, st') else sleep_slices E n st')"

definition pace :: "('so, 'v, 'z, 'si) run_env \<Rightarrow> ('so, 'v, 'z, 'si) runner_state \<Rightarrow> (pass_end \<times> ('so, 'v, 'z, 'si) runner_state) option" where
  "pace E st =
     (case rv_mode E of
        One_Shot \<Rightarrow> Some (Sinks_Finished, st)
      | Stream \<Rightarrow> None
      | Continuous \<Rightarrow> Some (if rn_backlogged st \<or> rv_paused E (rn_polls st) then (Next_Pass, st) else sleep_slices E 1 st)
      | Interval _ \<Rightarrow> Some (if rn_backlogged st \<or> rv_paused E (rn_polls st) then (Next_Pass, st)
          else sleep_slices E (rv_slices E (rn_polls st)) st))"

definition start_pass :: "('so, 'v, 'z, 'si) run_env \<Rightarrow> ('so, 'v, 'z, 'si) runner_state \<Rightarrow> ('so, 'v, 'z, 'si) runner_state" where
  "start_pass E st = st\<lparr>rn_admitted_rows := replicate (size_of_run E) 0, rn_admitted_bytes := replicate (size_of_run E) 0,
     rn_waits := replicate (size_of_run E) 0, rn_failed := replicate (size_of_run E) False, rn_drain_errors := 0, rn_backlogged := False\<rparr>"

definition end_pass :: "('so, 'v, 'z, 'si) run_env \<Rightarrow> nat \<Rightarrow> nat \<Rightarrow> ('so, 'v, 'z, 'si) runner_state \<Rightarrow> (pass_end \<times> ('so, 'v, 'z, 'si) runner_state) option" where
  "end_pass E start errors_before st =
     (case poll E (feed_back E start errors_before st) of (cancelled, st1) \<Rightarrow>
        (let st2 = (if rv_mode E = One_Shot \<or> cancelled then fold (finish_sink E) [0..<size_of_run E] st1 else st1);
             st3 = st2\<lparr>rn_stats := (rn_stats st2)\<lparr>ss_iterations := ss_iterations (rn_stats st2) + 1\<rparr>\<rparr>
         in if cancelled then Some (Sinks_Finished, st3) else pace E st3))"

definition run_pass :: "('so, 'v, 'z, 'si) run_env \<Rightarrow> bool list \<Rightarrow> ('so, 'v, 'z, 'si) runner_state \<Rightarrow> (pass_end \<times> ('so, 'v, 'z, 'si) runner_state) option" where
  "run_pass E whole st =
     (case poll E st of (cancelled, st0) \<Rightarrow>
        if cancelled then Some (Sinks_Finished, flush_and_finish_all E st0)
        else (case now E st0 of (start, st1) \<Rightarrow>
          Option.bind (run_nodes E whole [0..<size_of_run E] (start_pass E st1)) (\<lambda>(mid_pass, st2).
            if mid_pass then Some (Mid_Pass, st2) else end_pass E start (ss_errors (rn_stats st1)) st2)))"

partial_function (option) passes ::
  "('so, 'v, 'z, 'si) run_env \<Rightarrow> bool list \<Rightarrow> ('so, 'v, 'z, 'si) runner_state \<Rightarrow> (pass_end \<times> ('so, 'v, 'z, 'si) runner_state) option" where
  "passes E whole st =
     Option.bind (run_pass E whole st) (\<lambda>(how, st'). if how = Next_Pass then passes E whole st' else Some (how, st'))"

section \<open>The run\<close>

fun load_priors :: "('so, 'v, 'z, 'si) run_env \<Rightarrow> ('so, 'v, 'z, 'si) run_box list \<Rightarrow> nat \<Rightarrow> blob option list saci_result" where
  "load_priors E [] i = Inr []"
| "load_priors E (b # bs) i =
     res_bind (case b of Box_Processor _ \<Rightarrow> if rv_batch_resume E \<and> rv_client E then rv_load_prior E i else Inr None | _ \<Rightarrow> Inr None) (\<lambda>p.
     res_bind (load_priors E bs (i + 1)) (\<lambda>ps. Inr (p # ps)))"

definition start_state :: "('so, 'v, 'z, 'si) run_env \<Rightarrow> ('so, 'v, 'z, 'si) run_box list \<Rightarrow> blob option list \<Rightarrow> ('so, 'v, 'z, 'si) runner_state" where
  "start_state E boxes priors =
     (let n = size_of_run E
      in \<lparr>rn_boxes = boxes, rn_staged = replicate n [], rn_carry = replicate n None,
          rn_controllers = map (\<lambda>i. case boxes ! i of
              Box_Source _ \<Rightarrow> if rv_mode E = One_Shot then None else Some (new_controller (for_source (rv_plan E) (bn_id (rv_nodes E ! i))))
            | _ \<Rightarrow> None) [0..<n],
          rn_trackers = map (\<lambda>x. map_option new_tracker (bn_window x)) (rv_nodes E), rn_prior = priors,
          rn_admitted_rows = replicate n 0, rn_admitted_bytes = replicate n 0, rn_waits = replicate n 0, rn_failed = replicate n False,
          rn_nodes = replicate n \<lparr>ns_rows = 0, ns_batches = 0, ns_errors = 0\<rparr>,
          rn_stats = \<lparr>ss_iterations = 0, ss_source_batches = 0, ss_rows = 0, ss_sink_batches = 0, ss_errors = 0, ss_duration_ms = 0\<rparr>,
          rn_drain_errors = 0, rn_backlogged = False, rn_polls = 0, rn_clock = 0, rn_log = []\<rparr>)"

text \<open>Every exit finishes the sinks once, then the sources.\<close>

definition shut_down :: "('so, 'v, 'z, 'si) run_env \<Rightarrow> nat \<Rightarrow> pass_end \<Rightarrow> ('so, 'v, 'z, 'si) runner_state \<Rightarrow> ('so, 'v, 'z, 'si) runner_state" where
  "shut_down E start how st =
     (let st1 = finish_all_sources E (if how = Sinks_Finished then st else flush_and_finish_all E st);
          (stop, st2) = now E st1
      in st2\<lparr>rn_stats := (rn_stats st2)\<lparr>ss_duration_ms := (stop - start) div 1000000\<rparr>\<rparr>)"

definition run_batches :: "('so, 'v, 'z, 'si) run_env \<Rightarrow> ('so, 'v, 'z, 'si) run_box list \<Rightarrow> ('so, 'v, 'z, 'si) runner_state saci_result option" where
  "run_batches E boxes =
     (case load_priors E boxes 0 of
        Inl e \<Rightarrow> Some (Inl e)
      | Inr priors \<Rightarrow>
          (let whole = reaches_windowed_node (map (\<lambda>x. bn_window x \<noteq> None) (rv_nodes E)) (map bn_downstream (rv_nodes E));
               (start, st) = now E (start_state E boxes priors)
           in map_option (\<lambda>(how, st'). Inr (shut_down E start how st')) (passes E whole st)))"

text \<open>\<open>streamed\<close> is what the runner of the stream mode returns.\<close>

definition run_standalone ::
  "('so, 'v, 'z, 'si) run_env \<Rightarrow> service_mode \<Rightarrow> ('so, 'v, 'z, 'si) runner_state saci_result option \<Rightarrow> ('so, 'v, 'z, 'si) run_box list \<Rightarrow>
     ('so, 'v, 'z, 'si) runner_state saci_result option" where
  "run_standalone E mode streamed boxes =
     (case mode of
        Cluster _ \<Rightarrow> Some (Inl (Configuration ''run_standalone called with a cluster-mode config; use the cluster runner instead''))
      | Standalone rm \<Rightarrow> if rm = Stream then streamed else run_batches (E\<lparr>rv_mode := rm\<rparr>) boxes)"

end
