(* ===== verification/Runner_Steps.thy ===== *)
theory Runner_Steps
  imports Runner Dataset_Properties
begin

text \<open>
  What a run does to the outside, seen through its events. A view of a state is the kind of its boxes,
  what is carried and staged, and the events. The operations of a node are steps on views, and a run that
  returns is a sequence of such steps followed by the last writes and the finishing events.
\<close>

section \<open>Views\<close>

fun box_kind :: "('so, 'v, 'z, 'si) run_box \<Rightarrow> node_kind" where
  "box_kind (Box_Source s) = Source_Node"
| "box_kind (Box_Processor d) = Processor_Node"
| "box_kind (Box_Sink s) = Sink_Node"

record 'v run_view =
  vw_kinds :: "node_kind list"
  vw_carried :: "'v record_batch option list"
  vw_staged :: "'v record_batch list list"
  vw_log :: "'v run_event list"

definition view :: "('so, 'v, 'z, 'si) runner_state \<Rightarrow> 'v run_view" where
  "view st = \<lparr>vw_kinds = map box_kind (rn_boxes st), vw_carried = map (map_option cr_batch) (rn_carry st),
     vw_staged = rn_staged st, vw_log = rn_log st\<rparr>"

definition sized :: "nat \<Rightarrow> 'v run_view \<Rightarrow> bool" where
  "sized n w \<longleftrightarrow> length (vw_kinds w) = n \<and> length (vw_carried w) = n \<and> length (vw_staged w) = n"

definition logged :: "'v run_event list \<Rightarrow> 'v run_view \<Rightarrow> 'v run_view" where
  "logged es w = w\<lparr>vw_log := vw_log w @ es\<rparr>"

lemma view_eqI:
  "map box_kind (rn_boxes st') = map box_kind (rn_boxes st) \<Longrightarrow> rn_carry st' = rn_carry st \<Longrightarrow> rn_staged st' = rn_staged st \<Longrightarrow>
     rn_log st' = rn_log st \<Longrightarrow> view st' = view st"
  by (simp add: view_def)

lemma kinds_update [simp]: "box_kind b = box_kind (xs ! i) \<Longrightarrow> map box_kind (xs[i := b]) = map box_kind xs"
  by (metis list_update_id map_update)

text \<open>What a source can yield.\<close>

definition yields :: "('so, 'v, 'z, 'si) run_env \<Rightarrow> nat \<Rightarrow> 'v record_batch \<Rightarrow> bool" where
  "yields E i b \<longleftrightarrow> (\<exists>s s'. src_next (rv_source E i) s = (Inr (Some b), s'))"

text \<open>A batch goes to the queues of sinks.\<close>

definition stages :: "'v record_batch \<Rightarrow> nat list \<Rightarrow> 'v run_view \<Rightarrow> 'v run_view" where
  "stages b js w = logged (map (\<lambda>j. Ev_Staged j b) js) (w\<lparr>vw_staged := fold (\<lambda>j q. q[j := q ! j @ [b]]) js (vw_staged w)\<rparr>)"

definition sinks_behind :: "('so, 'v, 'z, 'si) run_env \<Rightarrow> nat \<Rightarrow> 'v run_view \<Rightarrow> nat list" where
  "sinks_behind E i w = filter (\<lambda>j. vw_kinds w ! j = Sink_Node) (map be_node (bn_downstream (rv_nodes E ! i)))"

text \<open>A chunk is taken from a source or from what is carried, whole or cut.\<close>

inductive takes :: "('so, 'v, 'z, 'si) run_env \<Rightarrow> nat \<Rightarrow> 'v run_view \<Rightarrow> 'v record_batch \<Rightarrow> 'v run_view \<Rightarrow> bool" for E i where
  take_whole: "vw_carried w ! i = None \<Longrightarrow> yields E i b \<Longrightarrow> takes E i w b (logged [Ev_Pulled i b] w)"
| take_cut: "vw_carried w ! i = None \<Longrightarrow> yields E i b \<Longrightarrow> k < rb_rows b \<Longrightarrow>
    takes E i w (slice_batch 0 k b) (logged [Ev_Pulled i b] (w\<lparr>vw_carried := (vw_carried w)[i := Some (slice_batch k (rb_rows b - k) b)]\<rparr>))"
| take_rest: "vw_carried w ! i = Some b \<Longrightarrow> takes E i w b (w\<lparr>vw_carried := (vw_carried w)[i := None]\<rparr>)"
| take_rest_cut: "vw_carried w ! i = Some b \<Longrightarrow> k < rb_rows b \<Longrightarrow>
    takes E i w (slice_batch 0 k b) (w\<lparr>vw_carried := (vw_carried w)[i := Some (slice_batch k (rb_rows b - k) b)]\<rparr>)"

inductive node_step :: "('so, 'v, 'z, 'si) run_env \<Rightarrow> nat \<Rightarrow> 'v run_view \<Rightarrow> 'v run_view \<Rightarrow> bool" for E i where
  step_admit: "takes E i w b w' \<Longrightarrow> \<forall>j \<in> set (sinks_behind E i w). j < length (vw_staged w) \<Longrightarrow>
    node_step E i w (stages b (sinks_behind E i w) (logged [Ev_Admitted i b] w'))"
| step_stage: "vw_kinds w ! i = Processor_Node \<Longrightarrow> j \<in> set (sinks_behind E i w) \<Longrightarrow> j < length (vw_staged w) \<Longrightarrow>
    node_step E i w (stages b [j] w)"
| step_write: "vw_kinds w ! i = Sink_Node \<Longrightarrow>
    node_step E i w (logged (map (Ev_Offered i) (vw_staged w ! i)) (w\<lparr>vw_staged := (vw_staged w)[i := []]\<rparr>))"
| step_save: "node_step E i w (logged [Ev_State_Saved i s] w)"

abbreviation node_steps :: "('so, 'v, 'z, 'si) run_env \<Rightarrow> nat \<Rightarrow> 'v run_view \<Rightarrow> 'v run_view \<Rightarrow> bool" where
  "node_steps E i \<equiv> (node_step E i)\<^sup>*\<^sup>*"

lemma length_stagings [simp]: "length (fold (\<lambda>j q. q[j := q ! j @ [b]]) js q) = length q"
  by (induction js arbitrary: q) auto

lemma frame_simps [simp]:
  "vw_kinds (logged es w) = vw_kinds w" "vw_carried (logged es w) = vw_carried w" "vw_staged (logged es w) = vw_staged w"
  "vw_log (logged es w) = vw_log w @ es"
  "vw_kinds (stages b js w) = vw_kinds w" "vw_carried (stages b js w) = vw_carried w"
  "vw_log (stages b js w) = vw_log w @ map (\<lambda>j. Ev_Staged j b) js"
  by (simp_all add: logged_def stages_def)

lemma logged_carry: "logged es (w\<lparr>vw_carried := c\<rparr>) = (logged es w)\<lparr>vw_carried := c\<rparr>"
  by (simp add: logged_def)

lemma takes_frame: "takes E i w b w' \<Longrightarrow> vw_kinds w' = vw_kinds w \<and> (sized n w \<longrightarrow> sized n w')"
  by (induction rule: takes.induct) (auto simp: sized_def)

lemma stages_sized [simp]: "sized n (stages b js w) = sized n w"
  by (simp add: sized_def stages_def)

lemma logged_sized [simp]: "sized n (logged es w) = sized n w"
  by (simp add: sized_def)

lemma node_step_frame: "node_step E i w w' \<Longrightarrow> vw_kinds w' = vw_kinds w \<and> (sized n w \<longrightarrow> sized n w')"
  by (induction rule: node_step.induct) (auto dest: takes_frame simp: sized_def [of _ "_\<lparr>vw_staged := _\<rparr>"], auto simp: sized_def)

lemma node_steps_frame: "node_steps E i w w' \<Longrightarrow> vw_kinds w' = vw_kinds w \<and> (sized n w \<longrightarrow> sized n w')"
  by (induction rule: rtranclp_induct) (auto dest: node_step_frame)

section \<open>The operations are steps\<close>

lemma view_simps [simp]:
  "view (now_st\<lparr>rn_clock := k\<rparr>) = view now_st" "view (st\<lparr>rn_polls := k\<rparr>) = view st" "view (st\<lparr>rn_stats := s\<rparr>) = view st"
  "view (st\<lparr>rn_nodes := ns\<rparr>) = view st" "view (st\<lparr>rn_waits := ws\<rparr>) = view st" "view (st\<lparr>rn_failed := fs\<rparr>) = view st"
  "view (st\<lparr>rn_drain_errors := k\<rparr>) = view st" "view (st\<lparr>rn_backlogged := bl\<rparr>) = view st" "view (st\<lparr>rn_controllers := cs\<rparr>) = view st"
  "view (st\<lparr>rn_trackers := ts\<rparr>) = view st" "view (st\<lparr>rn_prior := ps\<rparr>) = view st" "view (st\<lparr>rn_admitted_rows := xs\<rparr>) = view st"
  "view (st\<lparr>rn_admitted_bytes := xs\<rparr>) = view st"
  "view (st\<lparr>rn_log := l\<rparr>) = (view st)\<lparr>vw_log := l\<rparr>" "view (st\<lparr>rn_staged := q\<rparr>) = (view st)\<lparr>vw_staged := q\<rparr>"
  "view (st\<lparr>rn_carry := c\<rparr>) = (view st)\<lparr>vw_carried := map (map_option cr_batch) c\<rparr>"
  "view (st\<lparr>rn_boxes := bs\<rparr>) = (view st)\<lparr>vw_kinds := map box_kind bs\<rparr>"
  "vw_kinds (view st) = map box_kind (rn_boxes st)" "vw_carried (view st) = map (map_option cr_batch) (rn_carry st)"
  "vw_staged (view st) = rn_staged st" "vw_log (view st) = rn_log st"
  by (simp_all add: view_def)

lemma view_helpers [simp]:
  "view (note_error st) = view st" "view (note_node_error i st) = view st" "view (emit e st) = logged [e] (view st)"
  "view (snd (now E st)) = view st" "view (snd (poll E st)) = view st" "view (count_chunk i b w f st) = view st"
  "view (start_pass E st) = view st"
  by (simp_all add: note_error_def note_node_error_def emit_def now_def poll_def count_chunk_def start_pass_def logged_def Let_def)

lemma view_stage: "view (stage j b st) = stages b [j] (view st)"
  by (simp add: stage_def bump_def stages_def)

lemma stages_Cons: "stages b (j # js) w = stages b js (stages b [j] w)"
  by (simp add: stages_def logged_def)

lemma stages_Nil [simp]: "stages b [] w = w"
  by (simp add: stages_def logged_def)

lemma view_kinds [simp]: "(view st)\<lparr>vw_kinds := map box_kind (rn_boxes st)\<rparr> = view st"
  by (simp add: view_def)

lemma carried_update [simp]: "map (map_option cr_batch) (xs[i := c]) = (map (map_option cr_batch) xs)[i := map_option cr_batch c]"
  by (rule map_update)

text \<open>What is drawn from a source.\<close>

lemma next_arrival_idle:
  assumes "next_arrival E i credit whole left st = Some (p, st1)" "p = Pull_Cancelled \<or> p = Pull_End \<or> p = Pull_Failed"
  shows "view st1 = view st"
  using assms unfolding next_arrival_def
  by (auto simp: Let_def now_def poll_def case_prod_unfold bump_def split: option.splits run_box.splits sum.splits if_splits)

lemma next_arrival_batch:
  assumes "next_arrival E i credit whole left st = Some (Pull_Batch b w fresh, st1)"
  shows "(rn_carry st ! i = None \<and> yields E i b \<and> view st1 = logged [Ev_Pulled i b] (view st)) \<or>
    (map_option cr_batch (rn_carry st ! i) = Some b \<and> view st1 = (view st)\<lparr>vw_carried := (vw_carried (view st))[i := None]\<rparr>)"
  using assms unfolding next_arrival_def yields_def
  by (auto simp: Let_def now_def poll_def case_prod_unfold bump_def split: option.splits run_box.splits sum.splits if_splits)
    (metis prod.collapse)+


lemma step1: "node_step E i w w' \<Longrightarrow> node_steps E i w w'"
  by simp

text \<open>Steps that keep the view can be put between others.\<close>

lemma fan_source_view:
  "fan_source E c b es st = Some st' \<Longrightarrow> sized n (view st) \<Longrightarrow>
     view st' = stages b (filter (\<lambda>j. vw_kinds (view st) ! j = Sink_Node) (map be_node es)) (view st) \<and> (\<forall>e \<in> set es. be_node e < n)"
proof (induction es arbitrary: st)
  case (Cons e es)
  from Cons.prems(1) have lt: "be_node e < length (rn_boxes st)" by (auto split: if_splits)
  then have n: "be_node e < n" using Cons.prems(2) by (simp add: sized_def)
  show ?case
  proof (cases "rn_boxes st ! be_node e")
    case (Box_Processor d)
    then obtain r d' where a: "append_record_batch (rv_kernels E) c b d = Some (r, d')" using Cons.prems(1) lt
      by (auto split: option.splits)
    let ?s = "st\<lparr>rn_boxes := (rn_boxes st)[be_node e := Box_Processor d']\<rparr>"
    let ?s' = "case r of Inl _ \<Rightarrow> note_error ?s | Inr _ \<Rightarrow> ?s"
    have v: "view ?s' = view st" using Box_Processor by (simp split: sum.split)
    have "fan_source E c b es ?s' = Some st'" using Cons.prems(1) lt Box_Processor a by (simp add: Let_def)
    from Cons.IH [OF this, unfolded v, OF Cons.prems(2)] show ?thesis using lt n Box_Processor by simp
  next
    case (Box_Sink s)
    let ?s = "stage (be_node e) b st"
    have v: "view ?s = stages b [be_node e] (view st)" by (rule view_stage)
    have "fan_source E c b es ?s = Some st'" using Cons.prems(1) lt Box_Sink by simp
    from Cons.IH [OF this, unfolded v] have "view st' = stages b (filter (\<lambda>j. vw_kinds (view st) ! j = Sink_Node) (map be_node es)) (stages b [be_node e] (view st))"
      "\<forall>e \<in> set es. be_node e < n" using Cons.prems(2) by simp_all
    then show ?thesis using lt n Box_Sink by (simp add: stages_Cons [symmetric])
  qed (use Cons.prems lt in simp)
qed simp

lemma fan_processor_steps:
  "fan_processor E i routes es src st = Some (src', st') \<Longrightarrow> set es \<subseteq> set (bn_downstream (rv_nodes E ! i)) \<Longrightarrow> sized n (view st) \<Longrightarrow>
     vw_kinds (view st) ! i = Processor_Node \<Longrightarrow> node_steps E i (view st) (view st')"
proof (induction es arbitrary: src st)
  case (Cons e es)
  show ?case
  proof (cases "edge_selected routes (be_branch e)")
    case False
    then show ?thesis using Cons by simp
  next
    case True
    with Cons.prems(1) have lt: "be_node e < length (rn_boxes st)" by (auto split: if_splits)
    show ?thesis
    proof (cases "rn_boxes st ! be_node e")
      case (Box_Processor d)
      then obtain r s2 d' where a: "forward_into (rv_kernels E) src d = Some (r, s2, d')" "i < be_node e" using Cons.prems(1) lt True
        by (auto split: option.splits if_splits)
      let ?s = "st\<lparr>rn_boxes := (rn_boxes st)[be_node e := Box_Processor d']\<rparr>"
      let ?s' = "case r of Inl _ \<Rightarrow> note_error ?s | Inr _ \<Rightarrow> ?s"
      have v: "view ?s' = view st" using Box_Processor by (simp split: sum.split)
      show ?thesis using Cons.IH [of s2 ?s'] Cons.prems lt True Box_Processor a by (simp add: v Let_def)
    next
      case (Box_Sink s)
      then obtain component found s2 where f: "bn_component (rv_nodes E ! be_node e) = Some component"
        "batch_for (rv_kernels E) component src = Some (found, s2)" using Cons.prems(1) lt True by (auto split: option.splits)
      show ?thesis
      proof (cases "\<exists>b. found = Some b \<and> 0 < rb_rows b")
        case False
        then show ?thesis using Cons.IH [of s2 st] Cons.prems lt True Box_Sink f by (auto split: option.splits)
      next
        case staged: True
        then obtain b where b: "found = Some b" "0 < rb_rows b" by auto
        let ?s = "stage (be_node e) b st"
        have "be_node e < length (vw_staged (view st))" using lt Cons.prems(3) by (simp add: sized_def)
        moreover have "be_node e \<in> set (sinks_behind E i (view st))" using Box_Sink lt Cons.prems(2) by (auto simp: sinks_behind_def)
        ultimately have step: "node_step E i (view st) (view ?s)" unfolding view_stage using Cons.prems(4) by (intro step_stage)
        then have "sized n (view ?s)" "vw_kinds (view ?s) ! i = Processor_Node" using Cons.prems(3,4) by (metis node_step_frame)+
        then have "node_steps E i (view ?s) (view st')" using Cons.IH [of s2 ?s] Cons.prems lt True Box_Sink f b by simp
        then show ?thesis using step by (rule converse_rtranclp_into_rtranclp [rotated])
      qed
    qed (use Cons.prems lt True in simp)
  qed
qed simp

text \<open>One turn of the drain.\<close>

lemma take_chunk_takes:
  assumes "next_arrival E i credit whole left st = Some (Pull_Batch b w fresh, st1)" "take_chunk i whole left b w st1 = (chunk, st2)"
    "i < length (rn_carry st)"
  shows "takes E i (view st) chunk (view st2)"
proof (cases "\<not> whole \<and> left < rb_rows b")
  case True
  then have c: "chunk = slice_batch 0 left b" "left < rb_rows b"
    "view st2 = (view st1)\<lparr>vw_carried := (vw_carried (view st1))[i := Some (slice_batch left (rb_rows b - left) b)]\<rparr>"
    using assms(2) by (auto simp: take_chunk_def)
  from next_arrival_batch [OF assms(1)] show ?thesis
  proof (elim disjE conjE)
    assume "rn_carry st ! i = None" "yields E i b" "view st1 = logged [Ev_Pulled i b] (view st)"
    then show ?thesis using take_cut [of "view st" i E b left] c assms(3) by (simp add: logged_carry)
  next
    assume "map_option cr_batch (rn_carry st ! i) = Some b" "view st1 = (view st)\<lparr>vw_carried := (vw_carried (view st))[i := None]\<rparr>"
    then show ?thesis using take_rest_cut [of "view st" i b left E] c assms(3) by simp
  qed
next
  case False
  then have c: "chunk = b" "st2 = st1" using assms(2) by (auto simp: take_chunk_def)
  from next_arrival_batch [OF assms(1)] show ?thesis
  proof (elim disjE conjE)
    assume "rn_carry st ! i = None" "yields E i b" "view st1 = logged [Ev_Pulled i b] (view st)"
    then show ?thesis using take_whole [of "view st" i E b] c assms(3) by simp
  next
    assume "map_option cr_batch (rn_carry st ! i) = Some b" "view st1 = (view st)\<lparr>vw_carried := (vw_carried (view st))[i := None]\<rparr>"
    then show ?thesis using take_rest [of "view st" i b E] c assms(3) by simp
  qed
qed

lemma drain_turn:
  assumes a: "next_arrival E i credit whole left st = Some (Pull_Batch b w fresh, st1)" and t: "take_chunk i whole left b w st1 = (chunk, st2)"
    and f: "fan_source E c chunk (bn_downstream (rv_nodes E ! i)) (emit (Ev_Admitted i chunk) (count_chunk i chunk w fresh st2)) = Some st3"
    and n: "i < n" "sized n (view st)"
  shows "takes E i (view st) chunk (view st2)"
    and "view st3 = stages chunk (sinks_behind E i (view st)) (logged [Ev_Admitted i chunk] (view st2))"
    and "node_step E i (view st) (view st3)"
proof -
  let ?s = "emit (Ev_Admitted i chunk) (count_chunk i chunk w fresh st2)"
  have len: "i < length (rn_carry st)" using n by (simp add: sized_def)
  show tk: "takes E i (view st) chunk (view st2)" by (rule take_chunk_takes [OF a t len])
  have k: "vw_kinds (view st2) = vw_kinds (view st)" and sz: "sized n (view ?s)" using takes_frame [OF tk] n(2) by simp_all
  show v: "view st3 = stages chunk (sinks_behind E i (view st)) (logged [Ev_Admitted i chunk] (view st2))"
    using fan_source_view [OF f sz] k by (simp_all add: sinks_behind_def)
  have bound: "\<forall>e \<in> set (bn_downstream (rv_nodes E ! i)). be_node e < n" using fan_source_view [OF f sz] by simp
  show "node_step E i (view st) (view st3)" unfolding v using bound n(2)
    by (intro step_admit [OF tk]) (auto simp: sinks_behind_def sized_def)
qed

lemma drain_steps:
  assumes "drain E i c credit whole target taken st = Some r" "i < n" "sized n (view st)"
  shows "node_steps E i (view st) (view (snd r))"
proof -
  have "\<forall>n. i < n \<longrightarrow> sized n (view st) \<longrightarrow> node_steps E i (view st) (view (snd r))"
  proof (rule drain.raw_induct [OF _ assms(1)], goal_cases)
    case (1 dr E i c credit whole target taken st r)
    show ?case
    proof (intro allI impI)
      fix n assume n: "i < n" "sized n (view st)"
      let ?left = "if credit then target - taken else usize_max"
      show "node_steps E i (view st) (view (snd r))"
      proof (cases "?left = 0")
        case True
        then show ?thesis using 1(2) by auto
      next
        case False
        then obtain p st1 where a: "next_arrival E i credit whole ?left st = Some (p, st1)" using 1(2)
          by (auto simp: Let_def split: Option.bind_splits if_splits)
        show ?thesis
        proof (cases p)
          case (Pull_Batch b w fresh)
          obtain chunk st2 where t: "take_chunk i whole ?left b w st1 = (chunk, st2)" by (cases "take_chunk i whole ?left b w st1")
          let ?s = "emit (Ev_Admitted i chunk) (count_chunk i chunk w fresh st2)"
          from 1(2) False a t Pull_Batch obtain st3 where f: "fan_source E c chunk (bn_downstream (rv_nodes E ! i)) ?s = Some st3"
            "dr E i c credit whole target (taken + rb_rows chunk) st3 = Some r"
            by (auto simp: Let_def split: Option.bind_splits if_splits)
          note step = drain_turn(3) [OF a [unfolded Pull_Batch] t f(1) n]
          have "sized n (view st3)" using node_step_frame [OF step] n(2) by blast
          then have "node_steps E i (view st3) (view (snd r))" using 1(1) [OF f(2)] n by blast
          with step show ?thesis by (rule converse_rtranclp_into_rtranclp)
        qed (use 1(2) False a next_arrival_idle [OF a] in \<open>auto simp: Let_def split: if_splits\<close>)
      qed
    qed
  qed
  then show ?thesis using assms by blast
qed


lemma run_source_steps:
  assumes "run_source E whole i st = Some r" "i < n" "sized n (view st)"
  shows "node_steps E i (view st) (view (snd r))"
  using assms by (auto simp: run_source_def split: option.splits intro: drain_steps)

lemma offer_view:
  assumes "map box_kind (rn_boxes st) ! i = Sink_Node" "i < length (rn_boxes st)"
  shows "view (offer E i b st) = logged [Ev_Offered i b] (view st)"
  using assms by (cases "rn_boxes st ! i") (auto simp: offer_def Let_def split: prod.split sum.split)

lemma offers_view:
  "map box_kind (rn_boxes st) ! i = Sink_Node \<Longrightarrow> i < length (rn_boxes st) \<Longrightarrow>
     view (fold (offer E i) bs st) = logged (map (Ev_Offered i) bs) (view st)"
proof (induction bs arbitrary: st)
  case (Cons b bs)
  have v: "view (offer E i b st) = logged [Ev_Offered i b] (view st)" by (rule offer_view [OF Cons.prems])
  from arg_cong [OF v, of vw_kinds] have k: "map box_kind (rn_boxes (offer E i b st)) = map box_kind (rn_boxes st)"
    by (simp add: logged_def)
  from arg_cong [OF k, of length] have "i < length (rn_boxes (offer E i b st))" using Cons.prems by simp
  then show ?case using Cons.IH [of "offer E i b st"] Cons.prems k v by (simp add: logged_def)
qed (simp add: logged_def)

lemma write_staged_view:
  assumes "map box_kind (rn_boxes st) ! i = Sink_Node" "i < length (rn_boxes st)"
  shows "view (write_staged E i st) = logged (map (Ev_Offered i) (rn_staged st ! i)) ((view st)\<lparr>vw_staged := (rn_staged st)[i := []]\<rparr>)"
proof -
  let ?f = "fold (offer E i) (rn_staged st ! i) st"
  have v: "view ?f = logged (map (Ev_Offered i) (rn_staged st ! i)) (view st)" by (rule offers_view [OF assms])
  from arg_cong [OF v, of vw_staged] have "rn_staged ?f = rn_staged st" by (simp add: logged_def)
  then show ?thesis by (simp add: write_staged_def Let_def v logged_def)
qed

lemma advance_node_view: "advance_node E i d st = Some (d', st') \<Longrightarrow> view st' = view st"
  by (auto simp: advance_node_def Let_def split: option.splits prod.splits sum.splits)

lemma advance_node_boxes: "advance_node E i d st = Some (d', st') \<Longrightarrow> rn_boxes st' = rn_boxes st"
  by (auto simp: advance_node_def Let_def note_error_def split: option.splits prod.splits sum.splits)

lemma keep_state_steps: "node_steps E i (view st) (view (keep_state E i out st))"
  by (auto simp: keep_state_def Let_def intro: step_save)

lemma set_dataset_view:
  assumes "view st = w" "vw_kinds w ! i = Processor_Node"
  shows "view (set_dataset i d st) = w"
proof (cases "i < length (rn_boxes st)")
  case True
  then show ?thesis using assms by (auto simp: set_dataset_def)
qed (use assms in \<open>simp add: set_dataset_def list_update_beyond\<close>)

lemma run_processor_steps:
  assumes r: "run_processor E i d st = Some r" and k: "vw_kinds (view st) ! i = Processor_Node" and n: "sized n (view st)"
  shows "node_steps E i (view st) (view (snd r))"
proof -
  from r obtain d1 st1 where a: "advance_node E i d st = Some (d1, st1)" by (auto simp: run_processor_def split: Option.bind_splits)
  obtain cancelled st2 where p: "poll E st1 = (cancelled, st2)" by (cases "poll E st1")
  have v: "view st2 = view st" using advance_node_view [OF a] view_helpers(5) [of E st1] p by simp
  show ?thesis
  proof (cases cancelled)
    case True
    then have "snd r = set_dataset i d1 st2" using r a p by (auto simp: run_processor_def)
    then have "view (snd r) = view st" by (simp only: set_dataset_view [OF v k])
    then show ?thesis by simp
  next
    case False
    obtain res d2 where run: "rv_runtime E i (rn_polls st2) d1 (if carries_state E i then rn_prior st2 ! i else None) = (res, d2)"
      by (meson prod.exhaust)
    show ?thesis
    proof (cases res)
      case (Inl e)
      then have "snd r = set_dataset i (clear d2) (note_node_error i st2)" using r a p run False by (auto simp: run_processor_def)
      moreover have "view (note_node_error i st2) = view st" using v by simp
      ultimately have "view (snd r) = view st" by (simp only: set_dataset_view [OF _ k])
      then show ?thesis by simp
    next
      case (Inr out)
      let ?st3 = "st2\<lparr>rn_nodes := bump (\<lambda>x. x\<lparr>ns_rows := ns_rows x + rows d2, ns_batches := ns_batches x + 1\<rparr>) i (rn_nodes st2)\<rparr>"
      let ?kept = "keep_state E i out ?st3"
      from r a p run False Inr obtain d3 st4 where f:
        "fan_processor E i (ro_routes out) (bn_downstream (rv_nodes E ! i)) d2 ?kept = Some (d3, st4)"
        "snd r = set_dataset i (clear d3) st4" by (auto simp: run_processor_def Let_def)
      have s: "node_steps E i (view st) (view ?kept)" using keep_state_steps [of E i ?st3 out] v by simp
      have "sized n (view ?kept)" using node_steps_frame [OF s] n by blast
      then have s': "node_steps E i (view ?kept) (view st4)" using fan_processor_steps [OF f(1)] node_steps_frame [OF s] k by simp
      have "vw_kinds (view st4) = vw_kinds (view st)" using node_steps_frame [OF s] node_steps_frame [OF s'] by (simp only:)
      then have "view (snd r) = view st4" unfolding f(2) using k by (intro set_dataset_view) simp_all
      then show ?thesis using rtranclp_trans [OF s s'] by (simp only:)
    qed
  qed
qed

lemma run_node_steps:
  assumes r: "run_node E whole i st = Some r" and i: "i < n" and n: "sized n (view st)"
  shows "node_steps E i (view st) (view (snd r))"
proof -
  have len: "i < length (rn_boxes st)" using i n by (simp add: sized_def)
  show ?thesis
  proof (cases "rn_boxes st ! i")
    case (Box_Source s)
    then show ?thesis using r run_source_steps [OF _ i n] by (simp add: run_node_def)
  next
    case (Box_Processor d)
    then show ?thesis using r run_processor_steps [OF _ _ n] len by (simp add: run_node_def)
  next
    case (Box_Sink s)
    then have "snd r = write_staged E i st" using r by (auto simp: run_node_def split: if_splits)
    then show ?thesis using write_staged_view [of st i E] len Box_Sink step_write [of "view st" i E] by simp
  qed
qed


section \<open>A pass and its end\<close>

definition any_step :: "('so, 'v, 'z, 'si) run_env \<Rightarrow> nat \<Rightarrow> 'v run_view \<Rightarrow> 'v run_view \<Rightarrow> bool" where
  "any_step E n w w' \<longleftrightarrow> (\<exists>i < n. node_step E i w w')"

abbreviation any_steps :: "('so, 'v, 'z, 'si) run_env \<Rightarrow> nat \<Rightarrow> 'v run_view \<Rightarrow> 'v run_view \<Rightarrow> bool" where
  "any_steps E n \<equiv> (any_step E n)\<^sup>*\<^sup>*"

lemma node_steps_any:
  assumes "node_steps E i w w'" "i < n"
  shows "any_steps E n w w'"
  using assms(1)
proof (rule rtranclp_mono [THEN predicate2D, rotated])
  show "node_step E i \<le> any_step E n" using assms(2) by (auto simp: any_step_def)
qed

lemma any_steps_frame: "any_steps E n w w' \<Longrightarrow> vw_kinds w' = vw_kinds w \<and> (sized m w \<longrightarrow> sized m w')"
  by (induction rule: rtranclp_induct) (auto simp: any_step_def dest: node_step_frame)

lemma run_nodes_steps:
  "run_nodes E whole ks st = Some r \<Longrightarrow> set ks \<subseteq> {..<n} \<Longrightarrow> sized n (view st) \<Longrightarrow> any_steps E n (view st) (view (snd r))"
proof (induction ks arbitrary: st)
  case (Cons k ks)
  from Cons.prems(1) obtain c st1 where a: "run_node E whole k st = Some (c, st1)" by (auto split: option.splits)
  have s: "node_steps E k (view st) (view st1)" using run_node_steps [OF a _ Cons.prems(3)] Cons.prems(2) by simp
  then have s': "any_steps E n (view st) (view st1)" using Cons.prems(2) by (intro node_steps_any) auto
  show ?case
  proof (cases c)
    case True
    then have "r = (True, st1)" using Cons.prems(1) a by simp
    then show ?thesis using s' by simp
  next
    case False
    then have "run_nodes E whole ks st1 = Some r" using Cons.prems(1) a by simp
    then have "any_steps E n (view st1) (view (snd r))" using Cons.IH Cons.prems(2,3) node_steps_frame [OF s] by simp
    with s' show ?thesis by (rule rtranclp_trans)
  qed
qed auto

text \<open>With forward edges a whole pass leaves nothing staged at a sink.\<close>

lemma stagings_nth: "j < length q \<Longrightarrow> fold (\<lambda>j q. q[j := q ! j @ [b]]) js q ! j = q ! j @ replicate (count_list js j) b"
  by (induction js arbitrary: q) (auto simp: nth_list_update replicate_app_Cons_same)

lemma node_step_before:
  assumes "node_step E i w w'" "\<forall>k \<in> set (sinks_behind E i w). i < k" "j < i" "j < length (vw_staged w)"
  shows "vw_staged w' ! j = vw_staged w ! j"
  using assms
proof cases
  case (step_admit b w1)
  have "vw_staged w1 = vw_staged w" using step_admit(2) by cases auto
  moreover have "count_list (sinks_behind E i w) j = 0" using assms by (auto simp: count_list_0_iff)
  ultimately show ?thesis using step_admit(1) assms(4) by (simp add: stages_def logged_def stagings_nth)
next
  case (step_stage k b)
  then show ?thesis using assms by (auto simp: stages_def logged_def stagings_nth)
qed (use assms in \<open>auto simp: logged_def\<close>)

definition leads_forward :: "('so, 'v, 'z, 'si) run_env \<Rightarrow> bool" where
  "leads_forward E \<longleftrightarrow> (\<forall>i < size_of_run E. \<forall>e \<in> set (bn_downstream (rv_nodes E ! i)). i < be_node e)"

lemma node_steps_before:
  assumes "node_steps E i w w'" "leads_forward E" "i < size_of_run E" "j < i" "sized n w" "j < n"
  shows "vw_staged w' ! j = vw_staged w ! j"
  using assms(1)
proof (induction rule: rtranclp_induct)
  case (step w1 w2)
  have "sized n w1" using node_steps_frame [OF step(1)] assms(5) by blast
  then have "vw_staged w2 ! j = vw_staged w1 ! j" using assms
    by (intro node_step_before [OF step(2)]) (auto simp: sinks_behind_def leads_forward_def sized_def)
  then show ?case using step.IH by simp
qed simp

lemma run_nodes_drain:
  "run_nodes E whole [k..<n] st = Some (False, st') \<Longrightarrow> leads_forward E \<Longrightarrow> n = size_of_run E \<Longrightarrow> sized n (view st) \<Longrightarrow>
     \<forall>j < k. map box_kind (rn_boxes st) ! j = Sink_Node \<longrightarrow> rn_staged st ! j = [] \<Longrightarrow> k \<le> n \<Longrightarrow>
     \<forall>j < n. map box_kind (rn_boxes st') ! j = Sink_Node \<longrightarrow> rn_staged st' ! j = []"
proof (induction "n - k" arbitrary: k st)
  case (Suc m)
  then have k: "k < n" "[k..<n] = k # [Suc k..<n]" by (auto simp: upt_conv_Cons)
  from Suc.prems(1) k obtain st1 where a: "run_node E whole k st = Some (False, st1)" "run_nodes E whole [Suc k..<n] st1 = Some (False, st')"
    by (auto split: option.splits if_splits)
  have s: "node_steps E k (view st) (view st1)" using run_node_steps [OF a(1) k(1) Suc.prems(4)] by simp
  have kinds: "map box_kind (rn_boxes st1) = map box_kind (rn_boxes st)" and sz: "sized n (view st1)"
    using node_steps_frame [OF s] Suc.prems(4) by auto
  have "rn_staged st1 ! j = []" if j: "j < Suc k" "map box_kind (rn_boxes st1) ! j = Sink_Node" for j
  proof (cases "j = k")
    case False
    then have "rn_staged st1 ! j = rn_staged st ! j" using node_steps_before [OF s Suc.prems(2)] Suc.prems(3,4) j k by simp
    then show ?thesis using Suc.prems(5) False j kinds by simp
  next
    case True
    have len: "k < length (rn_boxes st)" "k < length (rn_staged st)" using Suc.prems(4) k by (simp_all add: sized_def)
    then obtain x where x: "rn_boxes st ! k = Box_Sink x" using j(2) kinds True by (cases "rn_boxes st ! k") auto
    then have "st1 = write_staged E k st" using a(1) by (auto simp: run_node_def split: if_splits)
    then have "vw_staged (view st1) = (rn_staged st)[k := []]" using write_staged_view [of st k E] x len by simp
    then show ?thesis using True len by simp
  qed
  then show ?case using Suc.hyps(1) [OF _ a(2) Suc.prems(2,3) sz] Suc.hyps(2) k by simp
qed simp

section \<open>Finishing\<close>

lemma fold_view: "(\<And>i st. view (f i st) = view st) \<Longrightarrow> view (fold f js st) = view st"
  by (induction js arbitrary: st) simp_all

lemma feed_back_view [simp]: "view (feed_back E start errors st) = view st"
proof -
  have "view (feed_controller E a b c i st) = view st" for a b c i st
    by (simp add: feed_controller_def Let_def now_def split: option.split prod.split)
  then show ?thesis using view_helpers(4) [of E st] by (simp add: feed_back_def Let_def case_prod_unfold fold_view)
qed

lemma sleep_slices_view:
  "sleep_slices E k st = (how, st') \<Longrightarrow> view st' = view st \<and> (how = Stopped \<or> how = Next_Pass)"
proof (induction k arbitrary: st)
  case (Suc k)
  then show ?case using view_helpers(5) [of E st] by (cases "poll E st") (auto split: if_splits)
qed simp

lemma pace_view:
  "pace E st = Some (how, st') \<Longrightarrow> view st' = view st \<and> how \<noteq> Mid_Pass \<and> (how = Sinks_Finished \<longrightarrow> rv_mode E = One_Shot) \<and>
     (rv_mode E = One_Shot \<longrightarrow> how = Sinks_Finished)"
  by (cases "rv_mode E") (auto simp: pace_def simp del: sleep_slices.simps dest: sleep_slices_view split: if_splits)

definition of_kind :: "node_kind \<Rightarrow> 'v run_view \<Rightarrow> nat list" where
  "of_kind kind w = filter (\<lambda>j. vw_kinds w ! j = kind) [0..<length (vw_kinds w)]"

lemma finish_one_view:
  assumes "i < length (rn_boxes st)"
  shows "view (finish_sink E i st) = (if map box_kind (rn_boxes st) ! i = Sink_Node then logged [Ev_Sink_Finished i] (view st) else view st)"
    and "view (finish_source E i st) = (if map box_kind (rn_boxes st) ! i = Source_Node then logged [Ev_Source_Finished i] (view st) else view st)"
  using assms by (cases "rn_boxes st ! i"; auto simp: finish_sink_def finish_source_def Let_def split: prod.split sum.split)+

text \<open>A fold of operations that each log, on some nodes, without changing the kinds.\<close>

lemma fold_logged:
  assumes "\<And>i st. sized n (view st) \<Longrightarrow> i < n \<Longrightarrow> view (f i st) = (if vw_kinds (view st) ! i = kind then logged [ev i] (view st) else view st)"
  shows "set js \<subseteq> {..<n} \<Longrightarrow> sized n (view st) \<Longrightarrow>
     view (fold f js st) = logged (map ev (filter (\<lambda>j. vw_kinds (view st) ! j = kind) js)) (view st)"
proof (induction js arbitrary: st)
  case (Cons j js)
  have v: "view (f j st) = (if vw_kinds (view st) ! j = kind then logged [ev j] (view st) else view st)" using assms Cons.prems by simp
  then have k: "vw_kinds (view (f j st)) = vw_kinds (view st)" and sz: "sized n (view (f j st))" using Cons.prems(2) by simp_all
  from Cons.IH [OF _ sz] Cons.prems(1) show ?case unfolding k by (auto simp: v logged_def)
qed (simp add: logged_def)

lemma finish_sinks_view:
  assumes "sized n (view st)"
  shows "view (fold (finish_sink E) [0..<n] st) = logged (map Ev_Sink_Finished (of_kind Sink_Node (view st))) (view st)"
proof -
  have "n = length (vw_kinds (view st))" using assms by (simp add: sized_def)
  then show ?thesis using assms unfolding of_kind_def
    by (subst fold_logged [where n = n and kind = Sink_Node and ev = Ev_Sink_Finished]) (auto simp: finish_one_view sized_def)
qed

lemma finish_all_sources_view:
  assumes "sized (size_of_run E) (view st)"
  shows "view (finish_all_sources E st) = logged (map Ev_Source_Finished (of_kind Source_Node (view st))) (view st)"
proof -
  have "size_of_run E = length (vw_kinds (view st))" using assms by (simp add: sized_def)
  then show ?thesis using assms unfolding of_kind_def finish_all_sources_def
    by (subst fold_logged [where n = "size_of_run E" and kind = Source_Node and ev = Ev_Source_Finished]) (auto simp: finish_one_view sized_def)
qed

lemma flush_and_finish_view:
  assumes "i < length (rn_boxes st)"
  shows "view (flush_and_finish E i st) = (if map box_kind (rn_boxes st) ! i = Sink_Node
    then logged (map (Ev_Offered i) (rn_staged st ! i) @ [Ev_Sink_Finished i]) ((view st)\<lparr>vw_staged := (rn_staged st)[i := []]\<rparr>) else view st)"
proof (cases "rn_boxes st ! i")
  case (Box_Sink s)
  then have k: "map box_kind (rn_boxes st) ! i = Sink_Node" using assms by simp
  let ?w = "write_staged E i st"
  have v: "view ?w = logged (map (Ev_Offered i) (rn_staged st ! i)) ((view st)\<lparr>vw_staged := (rn_staged st)[i := []]\<rparr>)"
    by (rule write_staged_view [OF k assms])
  from arg_cong [OF v, of vw_kinds] have kinds: "map box_kind (rn_boxes ?w) = map box_kind (rn_boxes st)" by simp
  from arg_cong [OF kinds, of length] have "i < length (rn_boxes ?w)" using assms by simp
  from finish_one_view(1) [OF this, of E] show ?thesis using Box_Sink k by (simp add: flush_and_finish_def kinds v logged_def)
qed (use assms in \<open>simp_all add: flush_and_finish_def\<close>)

definition last_offers :: "nat list \<Rightarrow> 'v run_view \<Rightarrow> 'v run_event list" where
  "last_offers js w = concat (map (\<lambda>j. map (Ev_Offered j) (vw_staged w ! j) @ [Ev_Sink_Finished j]) js)"

lemma last_offers_none: "\<forall>j \<in> set js. vw_staged w ! j = [] \<Longrightarrow> last_offers js w = map Ev_Sink_Finished js"
  by (induction js) (simp_all add: last_offers_def)

lemma flush_fold_view:
  "distinct js \<Longrightarrow> set js \<subseteq> {..<n} \<Longrightarrow> sized n (view st) \<Longrightarrow>
     \<exists>q. length q = n \<and> view (fold (flush_and_finish E) js st) =
       logged (last_offers (filter (\<lambda>j. vw_kinds (view st) ! j = Sink_Node) js) (view st)) ((view st)\<lparr>vw_staged := q\<rparr>)"
proof (induction js arbitrary: st)
  case Nil
  then show ?case by (intro exI [of _ "rn_staged st"]) (simp add: last_offers_def logged_def sized_def view_def)
next
  case (Cons j js)
  let ?s = "flush_and_finish E j st"
  have j: "j < length (rn_boxes st)" using Cons.prems by (simp add: sized_def)
  note v = flush_and_finish_view [OF j, of E]
  have k: "vw_kinds (view ?s) = vw_kinds (view st)" unfolding v by simp
  have sz: "sized n (view ?s)" using Cons.prems(3) unfolding v by (simp add: sized_def)
  have same: "vw_staged (view ?s) ! i = vw_staged (view st) ! i" if "i \<in> set js" for i
    using that Cons.prems(1) unfolding v by (cases "i = j") auto
  obtain q where q: "length q = n" "view (fold (flush_and_finish E) js ?s) =
      logged (last_offers (filter (\<lambda>j. vw_kinds (view ?s) ! j = Sink_Node) js) (view ?s)) ((view ?s)\<lparr>vw_staged := q\<rparr>)"
    using Cons.IH [OF _ _ sz] Cons.prems by auto
  have "last_offers (filter (\<lambda>j. vw_kinds (view st) ! j = Sink_Node) js) (view ?s) =
      last_offers (filter (\<lambda>j. vw_kinds (view st) ! j = Sink_Node) js) (view st)"
    unfolding last_offers_def by (rule arg_cong [of _ _ concat]) (use same in auto)
  then show ?case using q by (intro exI [of _ q]) (auto simp: k v last_offers_def logged_def)
qed

lemma flush_and_finish_all_view:
  assumes "sized (size_of_run E) (view st)"
  shows "\<exists>q. length q = size_of_run E \<and> view (flush_and_finish_all E st) = logged (last_offers (of_kind Sink_Node (view st)) (view st)) ((view st)\<lparr>vw_staged := q\<rparr>)"
proof -
  have "size_of_run E = length (vw_kinds (view st))" using assms by (simp add: sized_def)
  then show ?thesis using flush_fold_view [of "[0..<size_of_run E]" "size_of_run E" st E] assms
    by (simp add: flush_and_finish_all_def of_kind_def lessThan_atLeast0)
qed


definition ends_with_sinks :: "pass_end \<Rightarrow> 'v run_view \<Rightarrow> 'v run_view \<Rightarrow> bool" where
  "ends_with_sinks how w w' \<longleftrightarrow> (if how = Sinks_Finished
     then \<exists>q. length q = length (vw_staged w) \<and> w' = logged (last_offers (of_kind Sink_Node w) w) (w\<lparr>vw_staged := q\<rparr>) else w' = w)"

lemma end_pass_view:
  assumes r: "end_pass E start errors st = Some (how, st')" and n: "sized (size_of_run E) (view st)"
    and drained: "\<forall>j < size_of_run E. vw_kinds (view st) ! j = Sink_Node \<longrightarrow> vw_staged (view st) ! j = []"
  shows "ends_with_sinks how (view st) (view st')"
proof -
  let ?n = "size_of_run E"
  obtain cancelled st1 where p: "poll E (feed_back E start errors st) = (cancelled, st1)"
    by (cases "poll E (feed_back E start errors st)")
  have v1: "view st1 = view st" using view_helpers(5) [of E "feed_back E start errors st"] p by simp
  have sz: "sized ?n (view st1)" using n v1 by simp
  let ?fin = "fold (finish_sink E) [0..<?n] st1"
  have len: "length (vw_kinds (view st)) = ?n" using n by (simp add: sized_def)
  have "last_offers (of_kind Sink_Node (view st)) (view st) = map Ev_Sink_Finished (of_kind Sink_Node (view st))"
    using drained len by (intro last_offers_none) (auto simp: of_kind_def)
  then have fin: "view ?fin = logged (last_offers (of_kind Sink_Node (view st)) (view st)) ((view st)\<lparr>vw_staged := vw_staged (view st)\<rparr>)"
    using finish_sinks_view [OF sz] v1 by simp
  consider "cancelled" | "\<not> cancelled" "rv_mode E = One_Shot" | "\<not> cancelled" "rv_mode E \<noteq> One_Shot" by blast
  then show ?thesis
  proof cases
    case 1
    then have "how = Sinks_Finished" "view st' = view ?fin" using r p by (auto simp: end_pass_def Let_def)
    then show ?thesis using fin by (auto simp: ends_with_sinks_def)
  next
    case 2
    let ?s = "?fin\<lparr>rn_stats := (rn_stats ?fin)\<lparr>ss_iterations := ss_iterations (rn_stats ?fin) + 1\<rparr>\<rparr>"
    have "pace E ?s = Some (how, st')" using r p 2 by (simp add: end_pass_def Let_def)
    from pace_view [OF this] have "how = Sinks_Finished" "view st' = view ?fin" using 2 by simp_all
    then show ?thesis using fin by (auto simp: ends_with_sinks_def)
  next
    case 3
    let ?s = "st1\<lparr>rn_stats := (rn_stats st1)\<lparr>ss_iterations := ss_iterations (rn_stats st1) + 1\<rparr>\<rparr>"
    have "pace E ?s = Some (how, st')" using r p 3 by (simp add: end_pass_def Let_def)
    from pace_view [OF this] have "how \<noteq> Sinks_Finished" "view st' = view st" using 3 v1 by auto
    then show ?thesis by (simp add: ends_with_sinks_def)
  qed
qed

lemma run_pass_view:
  assumes r: "run_pass E whole st = Some (how, st')" and n: "sized (size_of_run E) (view st)" and fwd: "leads_forward E"
  shows "\<exists>w. any_steps E (size_of_run E) (view st) w \<and> ends_with_sinks how w (view st')"
proof -
  let ?n = "size_of_run E"
  obtain cancelled st0 where p: "poll E st = (cancelled, st0)" by (cases "poll E st")
  have v0: "view st0 = view st" using view_helpers(5) [of E st] p by simp
  show ?thesis
  proof (cases cancelled)
    case True
    then have h: "how = Sinks_Finished" "st' = flush_and_finish_all E st0" using r p by (simp_all add: run_pass_def)
    obtain q where "length q = ?n" "view st' = logged (last_offers (of_kind Sink_Node (view st)) (view st)) ((view st)\<lparr>vw_staged := q\<rparr>)"
      using flush_and_finish_all_view [of E st0] n v0 h(2) by auto
    moreover have "length (vw_staged (view st)) = ?n" using n by (simp add: sized_def)
    ultimately have "ends_with_sinks how (view st) (view st')" using h(1) by (auto simp: ends_with_sinks_def)
    then show ?thesis by blast
  next
    case False
    obtain start st1 where c: "now E st0 = (start, st1)" by (cases "now E st0")
    have v1: "view (start_pass E st1) = view st" using view_helpers(4) [of E st0] c v0 by simp
    from r p c False obtain mid st2 where k: "run_nodes E whole [0..<?n] (start_pass E st1) = Some (mid, st2)"
      and e: "(if mid then Some (Mid_Pass, st2) else end_pass E start (ss_errors (rn_stats st1)) st2) = Some (how, st')"
      by (auto simp: run_pass_def split: Option.bind_splits)
    have sz: "sized ?n (view (start_pass E st1))" using n v1 by simp
    have s: "any_steps E ?n (view st) (view st2)" using run_nodes_steps [OF k _ sz] unfolding v1 by (simp add: lessThan_atLeast0)
    have sz2: "sized ?n (view st2)" using any_steps_frame [OF s] n by blast
    show ?thesis
    proof (cases mid)
      case True
      then show ?thesis using e s by (intro exI [of _ "view st2"]) (auto simp: ends_with_sinks_def)
    next
      case False
      have "\<forall>j < ?n. map box_kind (rn_boxes st2) ! j = Sink_Node \<longrightarrow> rn_staged st2 ! j = []"
        using run_nodes_drain [of E whole 0 ?n "start_pass E st1" st2] k False fwd sz by simp
      then have "ends_with_sinks how (view st2) (view st')" using e False sz2 by (intro end_pass_view) auto
      then show ?thesis using s by blast
    qed
  qed
qed

lemma passes_view:
  assumes "passes E whole st = Some r" "sized (size_of_run E) (view st)" "leads_forward E"
  shows "\<exists>w. any_steps E (size_of_run E) (view st) w \<and> ends_with_sinks (fst r) w (view (snd r))"
proof -
  have "sized (size_of_run E) (view st) \<longrightarrow> leads_forward E \<longrightarrow>
      (\<exists>w. any_steps E (size_of_run E) (view st) w \<and> ends_with_sinks (fst r) w (view (snd r)))"
  proof (rule passes.raw_induct [OF _ assms(1)], goal_cases)
    case (1 ps E whole st r)
    show ?case
    proof (intro impI)
      assume n: "sized (size_of_run E) (view st)" and fwd: "leads_forward E"
      from 1(2) obtain how st1 where p: "run_pass E whole st = Some (how, st1)"
        and nxt: "(if how = Next_Pass then ps E whole st1 else Some (how, st1)) = Some r"
        by (auto split: Option.bind_splits)
      from run_pass_view [OF p n fwd] obtain w where w: "any_steps E (size_of_run E) (view st) w" "ends_with_sinks how w (view st1)" by blast
      show "\<exists>w. any_steps E (size_of_run E) (view st) w \<and> ends_with_sinks (fst r) w (view (snd r))"
      proof (cases "how = Next_Pass")
        case True
        then have v: "view st1 = w" using w(2) by (simp add: ends_with_sinks_def)
        then have "sized (size_of_run E) (view st1)" using any_steps_frame [OF w(1)] n by blast
        then obtain w' where "any_steps E (size_of_run E) (view st1) w'" "ends_with_sinks (fst r) w' (view (snd r))"
          using 1(1) [of E whole st1 r] nxt True fwd by auto
        then show ?thesis using w(1) v by (metis rtranclp_trans)
      next
        case False
        then show ?thesis using w nxt by auto
      qed
    qed
  qed
  then show ?thesis using assms by blast
qed

definition start_view :: "('so, 'v, 'z, 'si) run_box list \<Rightarrow> 'v run_view" where
  "start_view boxes = \<lparr>vw_kinds = map box_kind boxes, vw_carried = replicate (length boxes) None, vw_staged = replicate (length boxes) [], vw_log = []\<rparr>"

definition nodes_of_kind :: "node_kind \<Rightarrow> ('so, 'v, 'z, 'si) run_box list \<Rightarrow> nat list" where
  "nodes_of_kind kind boxes = filter (\<lambda>j. box_kind (boxes ! j) = kind) [0..<length boxes]"

text \<open>Every run that returns is a sequence of node steps, then the sinks, then the sources.\<close>

lemma run_batches_view:
  assumes r: "run_batches E boxes = Some (Inr st)" and len: "length boxes = size_of_run E" and fwd: "leads_forward E"
  obtains w where "any_steps E (size_of_run E) (start_view boxes) w" "vw_kinds w = map box_kind boxes"
    "rn_log st = vw_log w @ last_offers (nodes_of_kind Sink_Node boxes) w @ map Ev_Source_Finished (nodes_of_kind Source_Node boxes)"
    "map (map_option cr_batch) (rn_carry st) = vw_carried w"
proof -
  let ?n = "size_of_run E"
  let ?whole = "reaches_windowed_node (map (\<lambda>x. bn_window x \<noteq> None) (rv_nodes E)) (map bn_downstream (rv_nodes E))"
  from r obtain priors where "load_priors E boxes 0 = Inr priors" by (auto simp: run_batches_def split: sum.splits)
  obtain start st0 where c: "now E (start_state E boxes priors) = (start, st0)" by (cases "now E (start_state E boxes priors)")
  from r \<open>load_priors E boxes 0 = Inr priors\<close> c obtain how st1 where p: "passes E ?whole st0 = Some (how, st1)" "st = shut_down E start how st1"
    by (auto simp: run_batches_def Let_def)
  have "view (start_state E boxes priors) = start_view boxes" using len by (simp add: view_def start_state_def start_view_def Let_def)
  then have v0: "view st0 = start_view boxes" using view_helpers(4) [of E "start_state E boxes priors"] c by simp
  have sz: "sized ?n (view st0)" using len unfolding v0 by (simp add: sized_def start_view_def)
  from passes_view [OF p(1) sz fwd] obtain w where w: "any_steps E ?n (start_view boxes) w" "ends_with_sinks how w (view st1)"
    unfolding v0 by auto
  have k: "vw_kinds w = map box_kind boxes" and szw: "sized ?n w" using any_steps_frame [OF w(1)] sz v0 by (auto simp: start_view_def)
  have kinds: "of_kind kind w = nodes_of_kind kind boxes" for kind
    unfolding of_kind_def nodes_of_kind_def k by (auto intro: filter_cong)
  let ?s = "if how = Sinks_Finished then st1 else flush_and_finish_all E st1"
  obtain q where q: "length q = ?n" "view ?s = logged (last_offers (nodes_of_kind Sink_Node boxes) w) (w\<lparr>vw_staged := q\<rparr>)"
  proof (cases "how = Sinks_Finished")
    case True
    then show ?thesis using that w(2) szw by (auto simp: ends_with_sinks_def kinds sized_def)
  next
    case False
    then have "view st1 = w" using w(2) by (simp add: ends_with_sinks_def)
    then show ?thesis using that flush_and_finish_all_view [of E st1] szw False by (auto simp: kinds)
  qed
  have szs: "sized ?n (view ?s)" using szw q by (simp add: sized_def)
  have "of_kind Source_Node (view ?s) = nodes_of_kind Source_Node boxes" using kinds unfolding q(2) by (simp add: of_kind_def)
  then have fin: "view (finish_all_sources E ?s) = logged (map Ev_Source_Finished (nodes_of_kind Source_Node boxes)) (view ?s)"
    using finish_all_sources_view [OF szs] by simp
  have "view st = view (finish_all_sources E ?s)" unfolding p(2)
    using view_helpers(4) [of E "finish_all_sources E ?s"] by (simp add: shut_down_def Let_def case_prod_unfold)
  then have v: "view st = logged (map Ev_Source_Finished (nodes_of_kind Source_Node boxes)) (logged (last_offers (nodes_of_kind Sink_Node boxes) w) (w\<lparr>vw_staged := q\<rparr>))"
    using fin q(2) by simp
  show thesis using that [OF w(1) k] arg_cong [OF v, of vw_log] arg_cong [OF v, of vw_carried] by simp
qed

end
