(* ===== verification/Runner_Properties.thy ===== *)
theory Runner_Properties
  imports Runner_Steps Dataset_Invariant Flow_Properties
begin

text \<open>
  Properties of a run of the standalone runner, from what the node steps keep: the order of the
  finishing events, what a sink is offered, and that cutting arrivals into chunks keeps every row.
\<close>

section \<open>What the events say\<close>

fun pulled_by :: "nat \<Rightarrow> 'v run_event \<Rightarrow> 'v record_batch list" where
  "pulled_by i (Ev_Pulled k b) = (if k = i then [b] else [])"
| "pulled_by i _ = []"

fun admitted_by :: "nat \<Rightarrow> 'v run_event \<Rightarrow> 'v record_batch list" where
  "admitted_by i (Ev_Admitted k b) = (if k = i then [b] else [])"
| "admitted_by i _ = []"

fun staged_by :: "nat \<Rightarrow> 'v run_event \<Rightarrow> 'v record_batch list" where
  "staged_by i (Ev_Staged k b) = (if k = i then [b] else [])"
| "staged_by i _ = []"

fun offered_by :: "nat \<Rightarrow> 'v run_event \<Rightarrow> 'v record_batch list" where
  "offered_by i (Ev_Offered k b) = (if k = i then [b] else [])"
| "offered_by i _ = []"

fun finishes :: "'v run_event \<Rightarrow> bool" where
  "finishes (Ev_Sink_Finished _) = True"
| "finishes (Ev_Source_Finished _) = True"
| "finishes _ = False"

definition seen :: "('v run_event \<Rightarrow> 'v record_batch list) \<Rightarrow> 'v run_event list \<Rightarrow> 'v record_batch list" where
  "seen f es = concat (map f es)"

lemma seen_simps [simp]: "seen f [] = []" "seen f (e # es) = f e @ seen f es" "seen f (xs @ ys) = seen f xs @ seen f ys"
  by (simp_all add: seen_def)

lemma seen_none: "(\<And>x. f (ev x) = []) \<Longrightarrow> seen f (map ev xs) = []"
  by (induction xs) simp_all

lemma seen_staged [simp]: "seen (staged_by j) (map (\<lambda>k. Ev_Staged k b) js) = replicate (count_list js j) b"
  by (induction js) auto

lemma seen_offered [simp]: "seen (offered_by j) (map (Ev_Offered i) bs) = (if i = j then bs else [])"
  by (induction bs) auto

lemma seen_others [simp]:
  "seen (offered_by j) (map (\<lambda>k. Ev_Staged k b) js) = []" "seen (admitted_by j) (map (\<lambda>k. Ev_Staged k b) js) = []"
  "seen (pulled_by j) (map (\<lambda>k. Ev_Staged k b) js) = []" "seen (staged_by j) (map (Ev_Offered i) bs) = []"
  "seen (admitted_by j) (map (Ev_Offered i) bs) = []" "seen (pulled_by j) (map (Ev_Offered i) bs) = []"
  "seen (offered_by j) (map Ev_Source_Finished js) = []" "seen (staged_by j) (map Ev_Source_Finished js) = []"
  "seen (admitted_by j) (map Ev_Source_Finished js) = []" "seen (pulled_by j) (map Ev_Source_Finished js) = []"
  by (simp_all add: seen_none)

lemma seen_last_offers [simp]:
  "seen (staged_by j) (last_offers js w) = []" "seen (admitted_by j) (last_offers js w) = []" "seen (pulled_by j) (last_offers js w) = []"
  by (induction js) (simp_all add: last_offers_def)

lemma seen_last_offered: "distinct js \<Longrightarrow> seen (offered_by j) (last_offers js w) = (if j \<in> set js then vw_staged w ! j else [])"
  by (induction js) (auto simp: last_offers_def)

text \<open>Nothing is finished before the end, and what a sink was offered is what was staged for it and left its queue.\<close>

lemma takes_log:
  assumes "takes E i w b w'"
  shows "\<exists>es. vw_log w' = vw_log w @ es \<and> list_all (Not \<circ> finishes) es \<and>
    (\<forall>j. seen (staged_by j) es = [] \<and> seen (offered_by j) es = [] \<and> seen (admitted_by j) es = [])" "vw_staged w' = vw_staged w" "vw_kinds w' = vw_kinds w"
  using assms by (cases; auto)+

definition queues_ok :: "nat \<Rightarrow> 'v run_view \<Rightarrow> bool" where
  "queues_ok n w \<longleftrightarrow> sized n w \<and> list_all (Not \<circ> finishes) (vw_log w) \<and>
     (\<forall>j < n. vw_kinds w ! j = Sink_Node \<longrightarrow> seen (staged_by j) (vw_log w) = seen (offered_by j) (vw_log w) @ vw_staged w ! j)"

lemma stages_ok:
  assumes "queues_ok n w"
  shows "queues_ok n (stages b js w)"
  using assms by (auto simp: queues_ok_def sized_def stages_def logged_def stagings_nth list_all_iff)

lemma node_step_queues:
  assumes "node_step E i w w'" "queues_ok n w" "i < n"
  shows "queues_ok n w'"
  using assms
proof cases
  case (step_admit b w1)
  obtain es where "vw_log w1 = vw_log w @ es" "list_all (Not \<circ> finishes) es" "\<And>j. seen (staged_by j) es = [] \<and> seen (offered_by j) es = []"
    using takes_log(1) [OF step_admit(2)] by blast
  then have "queues_ok n (logged [Ev_Admitted i b] w1)" using assms(2) takes_frame [OF step_admit(2)] takes_log(2,3) [OF step_admit(2)]
    by (auto simp: queues_ok_def)
  then show ?thesis unfolding step_admit(1) by (rule stages_ok)
next
  case (step_stage j b)
  then show ?thesis using stages_ok [OF assms(2)] by simp
next
  case step_write
  then show ?thesis using assms by (auto simp: queues_ok_def sized_def nth_list_update list_all_iff)
next
  case (step_save s)
  then show ?thesis using assms by (auto simp: queues_ok_def)
qed

lemma any_steps_queues: "any_steps E n w w' \<Longrightarrow> queues_ok n w \<Longrightarrow> queues_ok n w'"
  by (induction rule: rtranclp_induct) (auto simp: any_step_def dest: node_step_queues)

lemma start_queues: "queues_ok (length boxes) (start_view boxes)"
  by (simp add: queues_ok_def start_view_def sized_def)


section \<open>Chunks and arrivals\<close>

lemma merge_same_append: "merge_batches fs xs = merge_batches fs ys \<Longrightarrow> merge_batches fs (xs @ zs) = merge_batches fs (ys @ zs)"
  by (auto simp: merge_batches_def)

lemma merge_prepend: "merge_batches fs xs = merge_batches fs ys \<Longrightarrow> merge_batches fs (zs @ xs) = merge_batches fs (zs @ ys)"
  by (auto simp: merge_batches_def)

lemma merge_slices:
  assumes "batch_ok b" "rb_fields b = fs" "k \<le> rb_rows b"
  shows "merge_batches fs [slice_batch 0 k b, slice_batch k (rb_rows b - k) b] = merge_batches fs [b]"
proof -
  have "take k (rb_columns b ! j) @ take (rb_rows b - k) (drop k (rb_columns b ! j)) = rb_columns b ! j" if "j < length fs" for j
  proof -
    have "length (rb_columns b ! j) = rb_rows b" using that assms by (auto simp: batch_ok_def list_all_length)
    then show ?thesis by simp
  qed
  then show ?thesis using assms by (auto simp: merge_batches_def slice_batch_def batch_ok_def)
qed

lemma slice_ok: "batch_ok b \<Longrightarrow> offset + n \<le> rb_rows b \<Longrightarrow> batch_ok (slice_batch offset n b) \<and> rb_fields (slice_batch offset n b) = rb_fields b"
  by (auto simp: batch_ok_def slice_batch_def list_all_length)

definition tail_of :: "'v record_batch option \<Rightarrow> 'v record_batch list" where
  "tail_of c = (case c of None \<Rightarrow> [] | Some b \<Rightarrow> [b])"

definition chunks_ok :: "nat \<Rightarrow> arrow_fields \<Rightarrow> 'v run_view \<Rightarrow> bool" where
  "chunks_ok i fs w \<longleftrightarrow> (\<forall>b. vw_carried w ! i = Some b \<longrightarrow> batch_ok b \<and> rb_fields b = fs) \<and>
     merge_batches fs (seen (pulled_by i) (vw_log w)) = merge_batches fs (seen (admitted_by i) (vw_log w) @ tail_of (vw_carried w ! i))"

text \<open>Every batch of the source has the fields \<open>fs\<close>.\<close>

definition uniform :: "('so, 'v, 'z, 'si) run_env \<Rightarrow> nat \<Rightarrow> arrow_fields \<Rightarrow> bool" where
  "uniform E i fs \<longleftrightarrow> (\<forall>s s' b. src_next (rv_source E i) s = (Inr (Some b), s') \<longrightarrow> batch_ok b \<and> rb_fields b = fs)"

lemma uniformD: "uniform E i fs \<Longrightarrow> yields E i b \<Longrightarrow> batch_ok b \<and> rb_fields b = fs"
  by (auto simp: uniform_def yields_def)

lemma takes_chunks:
  assumes t: "takes E i w b w'" and ok: "chunks_ok i fs w" and u: "uniform E i fs" and i: "i < length (vw_carried w)"
  shows "chunks_ok i fs (logged [Ev_Admitted i b] w')"
  using t
proof cases
  case take_whole
  then show ?thesis using ok merge_same_append by (auto simp: chunks_ok_def tail_of_def)
next
  case (take_cut a k)
  have a: "batch_ok a" "rb_fields a = fs" using uniformD [OF u take_cut(4)] by simp_all
  have "merge_batches fs (seen (pulled_by i) (vw_log w)) = merge_batches fs (seen (admitted_by i) (vw_log w))"
    using ok take_cut(3) by (simp add: chunks_ok_def tail_of_def)
  from merge_same_append [OF this, of "[a]"] merge_prepend [OF merge_slices [OF a less_imp_le [OF take_cut(5)]], of "seen (admitted_by i) (vw_log w)"]
  show ?thesis unfolding take_cut(1,2) using i a take_cut(5) slice_ok [OF a(1), of k "rb_rows a - k"] by (simp add: chunks_ok_def tail_of_def)
next
  case take_rest
  then show ?thesis using ok i by (simp add: chunks_ok_def tail_of_def)
next
  case (take_rest_cut a k)
  have a: "batch_ok a" "rb_fields a = fs" using ok take_rest_cut(3) by (simp_all add: chunks_ok_def)
  have "merge_batches fs (seen (pulled_by i) (vw_log w)) = merge_batches fs (seen (admitted_by i) (vw_log w) @ [a])"
    using ok take_rest_cut(3) by (simp add: chunks_ok_def tail_of_def)
  with merge_prepend [OF merge_slices [OF a less_imp_le [OF take_rest_cut(4)]], of "seen (admitted_by i) (vw_log w)"]
  show ?thesis unfolding take_rest_cut(1,2) using i a take_rest_cut(4) slice_ok [OF a(1), of k "rb_rows a - k"] by (simp add: chunks_ok_def tail_of_def)
qed

lemma takes_other:
  assumes "takes E k w b w'" "k \<noteq> i"
  shows "chunks_ok i fs (logged [Ev_Admitted k b] w') = chunks_ok i fs w"
  using assms by (cases; auto simp: chunks_ok_def)

lemma node_step_chunks:
  assumes "node_step E k w w'" "chunks_ok i fs w" "uniform E i fs" "i < length (vw_carried w)"
  shows "chunks_ok i fs w'"
proof -
  have staged: "chunks_ok i fs (stages b js v) = chunks_ok i fs v" for b js and v :: "'v run_view" by (simp add: chunks_ok_def)
  from assms(1) show ?thesis
  proof cases
    case (step_admit b w1)
    then show ?thesis using takes_chunks [of E i w b w1 fs] takes_other [of E k w b w1 i fs] assms by (cases "k = i") (auto simp: staged)
  qed (use assms in \<open>simp_all add: staged, simp_all add: chunks_ok_def\<close>)
qed

lemma any_steps_chunks:
  "any_steps E n w w' \<Longrightarrow> sized n w \<Longrightarrow> i < n \<Longrightarrow> uniform E i fs \<Longrightarrow> chunks_ok i fs w \<Longrightarrow> chunks_ok i fs w'"
proof (induction rule: rtranclp_induct)
  case (step w1 w2)
  then have "length (vw_carried w1) = n" using any_steps_frame [OF step(1)] by (simp add: sized_def)
  then show ?case using step by (auto simp: any_step_def intro: node_step_chunks)
qed

text \<open>A sink that only one source feeds.\<close>

definition only_feed :: "('so, 'v, 'z, 'si) run_env \<Rightarrow> nat \<Rightarrow> nat \<Rightarrow> bool" where
  "only_feed E i j \<longleftrightarrow> (\<forall>k < size_of_run E. count_list (map be_node (bn_downstream (rv_nodes E ! k))) j = (if k = i then 1 else 0))"

lemma count_list_filter: "count_list (filter P xs) x = (if P x then count_list xs x else 0)"
  by (induction xs) auto

lemma node_step_only:
  assumes "node_step E k w w'" "k < size_of_run E" "only_feed E i j" "vw_kinds w ! i = Source_Node" "vw_kinds w ! j = Sink_Node"
    "seen (staged_by j) (vw_log w) = seen (admitted_by i) (vw_log w)"
  shows "seen (staged_by j) (vw_log w') = seen (admitted_by i) (vw_log w')"
  using assms(1)
proof cases
  case (step_admit b w1)
  have "count_list (sinks_behind E k w) j = (if k = i then 1 else 0)" using assms by (simp add: sinks_behind_def count_list_filter only_feed_def)
  moreover obtain es where "vw_log w1 = vw_log w @ es" "\<forall>j. seen (staged_by j) es = []" "\<forall>j. seen (admitted_by j) es = []"
    using takes_log(1) [OF step_admit(2)] by blast
  ultimately show ?thesis unfolding step_admit(1) using assms(6) by simp
next
  case (step_stage m b)
  have "m \<noteq> j"
  proof
    assume "m = j"
    then have "0 < count_list (map be_node (bn_downstream (rv_nodes E ! k))) j" using step_stage(3)
      by (auto simp: sinks_behind_def count_list_0_iff intro!: gr0I)
    then have "k = i" using assms(2,3) by (auto simp: only_feed_def split: if_splits)
    then show False using step_stage(2) assms(4) by simp
  qed
  then show ?thesis using step_stage assms(6) by simp
qed (use assms in simp_all)

lemma any_steps_only:
  "any_steps E n w w' \<Longrightarrow> n = size_of_run E \<Longrightarrow> only_feed E i j \<Longrightarrow> vw_kinds w ! i = Source_Node \<Longrightarrow> vw_kinds w ! j = Sink_Node \<Longrightarrow>
     seen (staged_by j) (vw_log w) = seen (admitted_by i) (vw_log w) \<Longrightarrow> seen (staged_by j) (vw_log w') = seen (admitted_by i) (vw_log w')"
proof (induction rule: rtranclp_induct)
  case (step w1 w2)
  then have "vw_kinds w1 = vw_kinds w" using any_steps_frame [OF step(1)] by blast
  then show ?case using step by (auto simp: any_step_def intro: node_step_only)
qed

text \<open>The end of a run, and what the sinks were offered.\<close>

lemma run_order:
  assumes r: "run_batches E boxes = Some (Inr st)" and len: "length boxes = size_of_run E" and fwd: "leads_forward E"
  shows "\<exists>before rest. rn_log st = before @ concat (map (\<lambda>j. map (Ev_Offered j) (rest j) @ [Ev_Sink_Finished j]) (nodes_of_kind Sink_Node boxes)) @
      map Ev_Source_Finished (nodes_of_kind Source_Node boxes) \<and> list_all (Not \<circ> finishes) before"
    and "\<forall>j \<in> set (nodes_of_kind Sink_Node boxes). seen (offered_by j) (rn_log st) = seen (staged_by j) (rn_log st)"
proof -
  let ?sinks = "nodes_of_kind Sink_Node boxes"
  obtain w where w: "any_steps E (size_of_run E) (start_view boxes) w" "vw_kinds w = map box_kind boxes"
    "rn_log st = vw_log w @ last_offers ?sinks w @ map Ev_Source_Finished (nodes_of_kind Source_Node boxes)"
    using run_batches_view [OF r len fwd] by metis
  have q: "queues_ok (size_of_run E) w" using any_steps_queues [OF w(1)] start_queues [of boxes] len by simp
  show "\<exists>before rest. rn_log st = before @ concat (map (\<lambda>j. map (Ev_Offered j) (rest j) @ [Ev_Sink_Finished j]) ?sinks) @
      map Ev_Source_Finished (nodes_of_kind Source_Node boxes) \<and> list_all (Not \<circ> finishes) before"
    using w(3) q by (intro exI [of _ "vw_log w"] exI [of _ "\<lambda>j. vw_staged w ! j"]) (simp add: last_offers_def queues_ok_def)
  show "\<forall>j \<in> set ?sinks. seen (offered_by j) (rn_log st) = seen (staged_by j) (rn_log st)"
  proof
    fix j assume j: "j \<in> set ?sinks"
    then have "j < size_of_run E" "vw_kinds w ! j = Sink_Node" using len w(2) by (auto simp: nodes_of_kind_def)
    then have "seen (staged_by j) (vw_log w) = seen (offered_by j) (vw_log w) @ vw_staged w ! j" using q by (simp add: queues_ok_def)
    moreover have "distinct ?sinks" by (simp add: nodes_of_kind_def)
    ultimately show "seen (offered_by j) (rn_log st) = seen (staged_by j) (rn_log st)" using j by (simp add: w(3) seen_last_offered)
  qed
qed

section \<open>The credit of a pass\<close>

lemma drain_credit:
  assumes "drain E i c True False target taken st = Some r" "i < n" "sized n (view st)"
  shows "chunk_rows (seen (admitted_by i) (rn_log (snd r))) \<le> chunk_rows (seen (admitted_by i) (rn_log st)) + (target - taken)"
proof -
  let ?rows = "\<lambda>i st. chunk_rows (seen (admitted_by i) (rn_log st))"
  have "\<forall>n. credit \<longrightarrow> \<not> whole \<longrightarrow> i < n \<longrightarrow> sized n (view st) \<longrightarrow> ?rows i (snd r) \<le> ?rows i st + (target - taken)"
    if "drain E i c credit whole target taken st = Some r" for credit whole
  proof (rule drain.raw_induct [OF _ that], goal_cases)
    case (1 dr E i c credit whole target taken st r)
    show ?case
    proof (intro allI impI)
      fix n assume m: "credit" "\<not> whole" and n: "i < n" "sized n (view st)"
      show "?rows i (snd r) \<le> ?rows i st + (target - taken)"
      proof (cases "target - taken = 0")
        case True
        then show ?thesis using 1(2) m by auto
      next
        case False
        then obtain p st1 where a: "next_arrival E i credit whole (target - taken) st = Some (p, st1)" using 1(2) m
          by (auto simp: Let_def split: Option.bind_splits if_splits)
        show ?thesis
        proof (cases p)
          case (Pull_Batch b w fresh)
          obtain chunk st2 where t: "take_chunk i whole (target - taken) b w st1 = (chunk, st2)"
            by (cases "take_chunk i whole (target - taken) b w st1")
          from 1(2) False m a t Pull_Batch obtain st3 where f:
            "fan_source E c chunk (bn_downstream (rv_nodes E ! i)) (emit (Ev_Admitted i chunk) (count_chunk i chunk w fresh st2)) = Some st3"
            "dr E i c credit whole target (taken + rb_rows chunk) st3 = Some r"
            by (auto simp: Let_def split: Option.bind_splits if_splits)
          note turn = drain_turn [OF a [unfolded Pull_Batch] t f(1) n]
          obtain es where es: "vw_log (view st2) = vw_log (view st) @ es" "seen (admitted_by i) es = []" using takes_log(1) [OF turn(1)] by blast
          have "rn_log st3 = vw_log (view st3)" by simp
          then have rows: "?rows i st3 = ?rows i st + rb_rows chunk" unfolding turn(2) using es by (simp add: chunk_rows_def)
          have le: "rb_rows chunk \<le> target - taken" using t m by (auto simp: take_chunk_def slice_batch_def split: if_splits)
          have "sized n (view st3)" using node_step_frame [OF turn(3)] n(2) by blast
          then have "?rows i (snd r) \<le> ?rows i st3 + (target - (taken + rb_rows chunk))" using 1(1) [OF f(2)] n m by blast
          then show ?thesis using rows le by linarith
        qed (use 1(2) False m a arg_cong [OF next_arrival_idle [OF a], of vw_log] in auto)
      qed
    qed
  qed
  then show ?thesis using assms by blast
qed

section \<open>The drain ends\<close>

text \<open>\<open>m\<close> bounds what a source still delivers before it ends or fails.\<close>

definition runs_dry :: "('so, 'v, 'z, 'si) run_env \<Rightarrow> nat \<Rightarrow> ('so \<Rightarrow> nat) \<Rightarrow> bool" where
  "runs_dry E i m \<longleftrightarrow> (\<forall>s. (\<forall>s' b. src_next (rv_source E i) s = (Inr (Some b), s') \<longrightarrow> m s' < m s) \<and> (\<forall>n. m (src_hint (rv_source E i) n s) \<le> m s))"

definition registered :: "('v, 'z) dataset \<Rightarrow> bool" where
  "registered d \<longleftrightarrow> (\<forall>name. schema_of (ds_schemas d) name \<noteq> None \<longrightarrow> map_of (ds_components d) name \<noteq> None)"

text \<open>Every link leads to a processor with its components or to a sink.\<close>

fun takes_batches :: "('so, 'v, 'z, 'si) run_box \<Rightarrow> bool" where
  "takes_batches (Box_Source s) = False"
| "takes_batches (Box_Processor d) = registered d"
| "takes_batches (Box_Sink s) = True"

definition accepting :: "('so, 'v, 'z, 'si) run_box list \<Rightarrow> built_edge list \<Rightarrow> bool" where
  "accepting boxes es \<longleftrightarrow> (\<forall>e \<in> set es. be_node e < length boxes \<and> takes_batches (boxes ! be_node e))"

lemma accepting_update: "accepting boxes es \<Longrightarrow> takes_batches b \<Longrightarrow> accepting (boxes[k := b]) es"
  unfolding accepting_def by (metis length_list_update nth_list_update_eq nth_list_update_neq)

lemma accepting_source: "accepting boxes es \<Longrightarrow> boxes ! i = Box_Source s \<Longrightarrow> accepting (boxes[i := b]) es"
  unfolding accepting_def by (metis length_list_update nth_list_update_neq takes_batches.simps(1))

lemma push_chunk_registered:
  assumes "registered d"
  shows "\<exists>r d'. push_chunk K name schema chunks n b d = Some (r, d') \<and> registered d'"
  using assms by (auto simp: push_chunk_def Let_def registered_def split: sum.split)

lemma append_registered:
  assumes ok: "registered d"
  shows "\<exists>r d'. append_record_batch K name b d = Some (r, d') \<and> registered d'"
proof (cases "schema_of (ds_schemas d) name")
  case (Some schema)
  then obtain chunks where "map_of (ds_components d) name = Some chunks" using ok by (auto simp: registered_def)
  then show ?thesis using Some ok push_chunk_registered [OF ok] by (simp add: append_record_batch_def Let_def)
qed (simp add: append_record_batch_def ok)

lemma fan_source_returns:
  "accepting (rn_boxes st) all \<Longrightarrow> set es \<subseteq> set all \<Longrightarrow>
     \<exists>st'. fan_source E c b es st = Some st' \<and> accepting (rn_boxes st') all \<and> rn_carry st' = rn_carry st \<and>
       (\<forall>i s. rn_boxes st ! i = Box_Source s \<longrightarrow> rn_boxes st' ! i = Box_Source s) \<and> length (rn_boxes st') = length (rn_boxes st)"
proof (induction es arbitrary: st)
  case (Cons e es)
  have e: "be_node e < length (rn_boxes st)"
    "takes_batches (rn_boxes st ! be_node e)"
    using Cons.prems by (auto simp: accepting_def)
  show ?case
  proof (cases "rn_boxes st ! be_node e")
    case (Box_Processor d)
    then obtain r d' where a: "append_record_batch (rv_kernels E) c b d = Some (r, d')" "registered d'"
      using append_registered [of d "rv_kernels E" c b] e by auto
    let ?s = "st\<lparr>rn_boxes := (rn_boxes st)[be_node e := Box_Processor d']\<rparr>"
    let ?s' = "case r of Inl _ \<Rightarrow> note_error ?s | Inr _ \<Rightarrow> ?s"
    have s: "rn_boxes ?s' = (rn_boxes st)[be_node e := Box_Processor d']" "rn_carry ?s' = rn_carry st"
      by (simp_all add: note_error_def split: sum.split)
    have acc: "accepting (rn_boxes ?s') all" using Cons.prems(1) a(2) unfolding s by (intro accepting_update) simp_all
    have keep: "rn_boxes ?s' ! i = Box_Source x" if "rn_boxes st ! i = Box_Source x" for i x
      using that Box_Processor unfolding s by (cases "i = be_node e") auto
    have "fan_source E c b (e # es) st = fan_source E c b es ?s'" using e Box_Processor a by (simp add: Let_def)
    then show ?thesis using Cons.IH [OF acc] Cons.prems(2) keep s by auto
  next
    case (Box_Sink x)
    let ?s = "stage (be_node e) b st"
    have s: "rn_boxes ?s = rn_boxes st" "rn_carry ?s = rn_carry st" by (simp_all add: stage_def emit_def)
    have "fan_source E c b (e # es) st = fan_source E c b es ?s" using e Box_Sink by simp
    then show ?thesis using Cons.IH [of ?s] Cons.prems s by simp
  qed (use e in simp)
qed simp

definition carried_size :: "nat \<Rightarrow> ('so, 'v, 'z, 'si) runner_state \<Rightarrow> nat" where
  "carried_size i st = (case rn_carry st ! i of None \<Rightarrow> 0 | Some c \<Rightarrow> Suc (rb_rows (cr_batch c)))"

definition left_in :: "('so \<Rightarrow> nat) \<Rightarrow> nat \<Rightarrow> ('so, 'v, 'z, 'si) runner_state \<Rightarrow> nat" where
  "left_in m i st = (case rn_boxes st ! i of Box_Source s \<Rightarrow> m s | _ \<Rightarrow> 0)"

text \<open>A turn that admits a chunk comes closer to the end.\<close>

lemma arrival_returns:
  assumes "rn_boxes st ! i = Box_Source s"
  shows "\<exists>p st1. next_arrival E i credit whole left st = Some (p, st1)"
  using assms by (cases "rn_carry st ! i") (simp_all add: next_arrival_def Let_def case_prod_unfold)

lemma turn_closer:
  assumes a: "next_arrival E i credit whole left st = Some (Pull_Batch b w fresh, st1)" and t: "take_chunk i whole left b w st1 = (chunk, st2)"
    and s: "rn_boxes st ! i = Box_Source s" "i < length (rn_boxes st)" "i < length (rn_carry st)" and m: "runs_dry E i m" and left: "0 < left"
  shows "\<exists>s'. rn_boxes st2 ! i = Box_Source s' \<and> (m s' < m s \<or> m s' = m s \<and> carried_size i st2 < carried_size i st)"
    and "\<exists>s'. rn_boxes st2 = (rn_boxes st)[i := Box_Source s'] \<and> length (rn_carry st2) = length (rn_carry st)"
proof -
  have boxes: "rn_boxes st2 = rn_boxes st1" "length (rn_carry st2) = length (rn_carry st1)" using t by (auto simp: take_chunk_def split: if_splits)
  show "\<exists>s'. rn_boxes st2 ! i = Box_Source s' \<and> (m s' < m s \<or> m s' = m s \<and> carried_size i st2 < carried_size i st)"
  proof (cases "rn_carry st ! i")
    case (Some c)
    then have st1: "st1 = st\<lparr>rn_carry := (rn_carry st)[i := None]\<rparr>" "b = cr_batch c" using a by (auto simp: next_arrival_def)
    then show ?thesis using t s left Some by (auto simp: take_chunk_def carried_size_def slice_batch_def split: if_splits)
  next
    case None
    define s1 where "s1 = (if credit \<and> \<not> whole then src_hint (rv_source E i) left s else s)"
    obtain q s' where q: "src_next (rv_source E i) s1 = (q, s')" by (meson prod.exhaust)
    have "q = Inr (Some b)" "rn_boxes st1 = (rn_boxes st)[i := Box_Source s']" using a s None q
      by (auto simp: next_arrival_def Let_def now_def poll_def case_prod_unfold emit_def s1_def split: sum.splits if_splits option.splits)
    moreover from this have "m s' < m s1" "m s1 \<le> m s" using m q by (auto simp: runs_dry_def s1_def)
    ultimately show ?thesis using s boxes by auto
  qed
  show "\<exists>s'. rn_boxes st2 = (rn_boxes st)[i := Box_Source s'] \<and> length (rn_carry st2) = length (rn_carry st)"
  proof (cases "rn_carry st ! i")
    case (Some c)
    then have st1: "st1 = st\<lparr>rn_carry := (rn_carry st)[i := None]\<rparr>" using a by (auto simp: next_arrival_def)
    then show ?thesis using boxes s by (intro exI [of _ s]) (simp, metis list_update_id)
  next
    case None
    then obtain s' where "rn_boxes st1 = (rn_boxes st)[i := Box_Source s']" "length (rn_carry st1) = length (rn_carry st)" using a s
      by (auto simp: next_arrival_def Let_def now_def poll_def case_prod_unfold emit_def split: option.splits sum.splits if_splits)
    then show ?thesis using boxes by auto
  qed
qed

lemma drain_returns:
  assumes m: "runs_dry E i m"
  shows "rn_boxes st ! i = Box_Source s \<Longrightarrow> i < length (rn_boxes st) \<Longrightarrow> i < length (rn_carry st) \<Longrightarrow>
     accepting (rn_boxes st) (bn_downstream (rv_nodes E ! i)) \<Longrightarrow> \<exists>r. drain E i c credit whole target taken st = Some r"
proof (induction st arbitrary: s taken rule: wf_induct_rule [OF wf_measures [of "[left_in m i, carried_size i]"]])
  case (1 st)
  let ?left = "if credit then target - taken else usize_max"
  let ?all = "bn_downstream (rv_nodes E ! i)"
  show ?case
  proof (cases "?left = 0")
    case True
    then show ?thesis by (subst drain.simps) auto
  next
    case False
    obtain p st1 where a: "next_arrival E i credit whole ?left st = Some (p, st1)" using arrival_returns [OF 1(2)] by blast
    show ?thesis
    proof (cases p)
      case (Pull_Batch b w fresh)
      obtain chunk st2 where t: "take_chunk i whole ?left b w st1 = (chunk, st2)" by (cases "take_chunk i whole ?left b w st1")
      have left: "0 < ?left" using False by simp
      note closer = turn_closer [OF a [unfolded Pull_Batch] t 1(2,3,4) m left]
      let ?s = "emit (Ev_Admitted i chunk) (count_chunk i chunk w fresh st2)"
      have s: "rn_boxes ?s = rn_boxes st2" "rn_carry ?s = rn_carry st2" by (simp_all add: emit_def count_chunk_def Let_def)
      obtain s' where s': "rn_boxes st2 = (rn_boxes st)[i := Box_Source s']" "length (rn_carry st2) = length (rn_carry st)" using closer(2) by blast
      have acc: "accepting (rn_boxes ?s) ?all" using 1(2,5) unfolding s s'(1) by (intro accepting_source)
      obtain st3 where f: "fan_source E c chunk ?all ?s = Some st3" "accepting (rn_boxes st3) ?all" "rn_carry st3 = rn_carry st2"
        "rn_boxes st3 ! i = Box_Source s'" "length (rn_boxes st3) = length (rn_boxes st)"
        using fan_source_returns [OF acc subset_refl, of E c chunk] 1(3) unfolding s s'(1) by auto
      have "(st3, st) \<in> measures [left_in m i, carried_size i]" using closer(1) f 1(2,3) s'(1) by (auto simp: left_in_def carried_size_def)
      then have "\<exists>r. drain E i c credit whole target (taken + rb_rows chunk) st3 = Some r"
        using 1(1) f 1(3,4) s'(2) by auto
      then show ?thesis using False a t Pull_Batch f(1) by (subst drain.simps) (auto simp: Let_def)
    qed (use False a in \<open>auto simp: Let_def drain.simps [of E i c credit whole target taken st]\<close>)
  qed
qed
text \<open>The loops as code: an argument of \<open>Option.bind\<close> would be unfolded without end.\<close>

lemma drain_code [code]:
  "drain E i component credit whole target taken st =
     (let left = (if credit then target - taken else usize_max)
      in if left = 0 then Some (False, st\<lparr>rn_backlogged := True\<rparr>)
         else case next_arrival E i credit whole left st of
           None \<Rightarrow> None
         | Some (p, st1) \<Rightarrow>
             (case p of
                Pull_Batch b w fresh \<Rightarrow>
                  (case take_chunk i whole left b w st1 of
                     (chunk, st2) \<Rightarrow>
                       (case fan_source E component chunk (bn_downstream (rv_nodes E ! i)) (emit (Ev_Admitted i chunk) (count_chunk i chunk w fresh st2)) of
                          None \<Rightarrow> None
                        | Some st3 \<Rightarrow> drain E i component credit whole target (taken + rb_rows chunk) st3))
              | Pull_Cancelled \<Rightarrow> Some (True, st1)
              | _ \<Rightarrow> Some (False, st1)))"
  by (subst drain.simps) (auto simp: Let_def split: Option.bind_splits pull.splits option.splits prod.splits)

lemma passes_code [code]:
  "passes E whole st =
     (case run_pass E whole st of None \<Rightarrow> None | Some (how, st') \<Rightarrow> if how = Next_Pass then passes E whole st' else Some (how, st'))"
  by (subst passes.simps) (auto split: Option.bind_splits option.splits)

section \<open>A run\<close>

text \<open>
  A source with one arrival of three rows behind a sink that keeps what it is offered, under a credit of
  two rows; the run is cancelled after its first pass.
\<close>

definition run_sample :: "(nat, nat, nat, nat record_batch list) run_env" where
  "run_sample = \<lparr>
     rv_nodes = [\<lparr>bn_id = ''in'', bn_name = None, bn_type_name = ''channel'', bn_component = Some ''c'', bn_kind = Built_Source sample_fields,
         bn_downstream = [\<lparr>be_node = 1, be_branch = None\<rparr>], bn_artifact = None, bn_healed = False, bn_window = None\<rparr>,
       \<lparr>bn_id = ''out'', bn_name = None, bn_type_name = ''channel'', bn_component = Some ''c'', bn_kind = Built_Sink sample_fields,
         bn_downstream = [], bn_artifact = None, bn_healed = False, bn_window = None\<rparr>],
     rv_source = (\<lambda>i. \<lparr>src_schema = (\<lambda>s. sample_fields), src_next = (\<lambda>s. if s = 0 then (Inr None, 0) else (Inr (Some sample_batch), s - 1)),
       src_estimated = (\<lambda>s. None), src_hint = (\<lambda>n s. s), src_finish = (\<lambda>s. (Inr (), s))\<rparr>),
     rv_sink = (\<lambda>i. \<lparr>snk_schema = (\<lambda>s. sample_fields), snk_write = (\<lambda>b s. (Inr (), s @ [b])), snk_pending = (\<lambda>s. None), snk_finish = (\<lambda>s. (Inr (), s))\<rparr>),
     rv_runtime = (\<lambda>i k d p. (Inr \<lparr>ro_state = None, ro_routes = None\<rparr>, d)), rv_kernels = reference_kernels, rv_to_ms = (\<lambda>f c. Inr []),
     rv_watermark = (\<lambda>t. (0, 0)), rv_plan = \<lparr>fallback = default_settings\<lparr>fixed_rows := Some 2\<rparr>, by_source = (\<lambda>i. None)\<rparr>,
     rv_mode = Continuous, rv_batch_resume = False, rv_client = False, rv_load_prior = (\<lambda>i. Inr None), rv_memory = (\<lambda>b. 24),
     rv_cancelled = (\<lambda>k. 2 \<le> k), rv_dropped = (\<lambda>s. s), rv_now = (\<lambda>k. k), rv_mul = (\<lambda>t r. t), rv_paused = (\<lambda>k. False), rv_slices = (\<lambda>k. 1)\<rparr>"

definition sample_boxes :: "(nat, nat, nat, nat record_batch list) run_box list" where
  "sample_boxes = [Box_Source 1, Box_Sink []]"

definition sample_chunk :: "nat list \<Rightarrow> nat record_batch" where
  "sample_chunk ks = \<lparr>rb_fields = sample_fields, rb_columns = [ks], rb_rows = length ks\<rparr>"

lemma feed_back_same [simp]:
  "rn_boxes (feed_back E a b st) = rn_boxes st" "rn_log (feed_back E a b st) = rn_log st" "rn_carry (feed_back E a b st) = rn_carry st"
  "rn_polls (feed_back E a b st) = rn_polls st"
proof -
  let ?same = "\<lambda>s t :: ('a, 'b, 'c, 'd) runner_state. rn_boxes s = rn_boxes t \<and> rn_log s = rn_log t \<and> rn_carry s = rn_carry t \<and> rn_polls s = rn_polls t"
  have one: "?same (feed_controller E x y z i s) s" for x y z i s
    by (simp add: feed_controller_def Let_def now_def split: option.split prod.split)
  have "?same (fold (feed_controller E x y z) js s) s" for x y z js s
    by (induction js arbitrary: s) (simp_all add: one)
  then have "?same (feed_back E a b st) st" by (simp add: feed_back_def Let_def case_prod_unfold now_def)
  then show "rn_boxes (feed_back E a b st) = rn_boxes st" "rn_log (feed_back E a b st) = rn_log st" "rn_carry (feed_back E a b st) = rn_carry st"
    "rn_polls (feed_back E a b st) = rn_polls st" by simp_all
qed

lemma sample_controller:
  "flow_enabled (settings (new_controller (default_settings\<lparr>fixed_rows := Some 2\<rparr>)))" "target_rows (new_controller (default_settings\<lparr>fixed_rows := Some 2\<rparr>)) = 2"
  by (simp_all add: new_controller_fields target_rows_def default_settings_def)

lemmas runner_defs = size_of_run_def bump_def emit_def now_def poll_def next_arrival_def take_chunk_def count_chunk_def stage_def
  run_source_def run_node_def offer_def write_staged_def finish_sink_def finish_source_def flush_and_finish_def flush_and_finish_all_def
  finish_all_sources_def start_pass_def end_pass_def run_pass_def start_state_def shut_down_def run_batches_def slice_batch_def Let_def

text \<open>
  The source delivered three rows and was finished, two of them were written: the row that was carried is
  dropped with the state of the run.
\<close>

lemma cancelled_run_drops_the_tail:
  "\<exists>st. run_batches run_sample sample_boxes = Some (Inr st) \<and>
     rn_log st = [Ev_Pulled 0 (sample_chunk [1, 2, 3]), Ev_Admitted 0 (sample_chunk [1, 2]), Ev_Staged 1 (sample_chunk [1, 2]),
       Ev_Offered 1 (sample_chunk [1, 2]), Ev_Sink_Finished 1, Ev_Source_Finished 0] \<and>
     map (map_option cr_batch) (rn_carry st) = [Some (sample_chunk [3]), None]"
  by (simp add: runner_defs run_sample_def sample_boxes_def sample_batch_def sample_chunk_def upt_rec for_source_def sample_controller
    drain_code passes_code reaches_windowed_node_def reach_step_def)

lemma sample_run_ok:
  "leads_forward run_sample" "uniform run_sample i sample_fields" "only_feed run_sample 0 1" "length sample_boxes = size_of_run run_sample"
  "nodes_of_kind Sink_Node sample_boxes = [1]" "nodes_of_kind Source_Node sample_boxes = [0]" "runs_dry run_sample 0 (\<lambda>s. s)"
  using sample_batch_ok
  by (simp_all add: leads_forward_def size_of_run_def run_sample_def All_less_Suc uniform_def sample_batch_def only_feed_def sample_boxes_def
    nodes_of_kind_def upt_rec runs_dry_def numeral_2_eq_2)

section \<open>Properties\<close>

text \<open>
  C14. A run that returns, however it was stopped, ends with the last writes and the finishing of every
  sink, in the order of the nodes, then with the finishing of every source; nothing is finished
  earlier, and every batch staged for a sink was offered to it, in order, before it was finished.
\<close>

theorem run_finishes_in_order:
  assumes "run_batches E boxes = Some (Inr st)" "length boxes = size_of_run E" "leads_forward E"
  shows "(\<exists>before rest. rn_log st = before @ concat (map (\<lambda>j. map (Ev_Offered j) (rest j) @ [Ev_Sink_Finished j]) (nodes_of_kind Sink_Node boxes)) @
        map Ev_Source_Finished (nodes_of_kind Source_Node boxes) \<and> list_all (Not \<circ> finishes) before) \<and>
    (\<forall>j \<in> set (nodes_of_kind Sink_Node boxes). seen (offered_by j) (rn_log st) = seen (staged_by j) (rn_log st))"
  using run_order [OF assms] by blast

theorem run_finishes_in_order_witness:
  "\<exists>st before rest. run_batches run_sample sample_boxes = Some (Inr st) \<and>
     rn_log st = before @ (map (Ev_Offered 1) rest @ [Ev_Sink_Finished 1]) @ [Ev_Source_Finished 0] \<and> list_all (Not \<circ> finishes) before"
proof -
  obtain st where r: "run_batches run_sample sample_boxes = Some (Inr st)" using cancelled_run_drops_the_tail by blast
  from run_finishes_in_order [OF r sample_run_ok(4) sample_run_ok(1)] obtain before rest where
    "rn_log st = before @ (map (Ev_Offered 1) (rest (1::nat)) @ [Ev_Sink_Finished 1]) @ [Ev_Source_Finished 0]" "list_all (Not \<circ> finishes) before"
    by (auto simp: sample_run_ok)
  then show ?thesis using r by blast
qed

text \<open>
  C13. A sink that one link from one source feeds is offered, over the whole run and whatever credits cut
  the arrivals into chunks, exactly the rows the source delivered, once and in order, but for the
  tail still carried when the run ends.
\<close>

theorem run_keeps_every_row:
  assumes r: "run_batches E boxes = Some (Inr st)" and len: "length boxes = size_of_run E" and fwd: "leads_forward E"
    and u: "uniform E i fs" and feed: "only_feed E i j"
    and i: "i \<in> set (nodes_of_kind Source_Node boxes)" and j: "j \<in> set (nodes_of_kind Sink_Node boxes)"
  shows "merge_batches fs (seen (pulled_by i) (rn_log st)) =
    merge_batches fs (seen (offered_by j) (rn_log st) @ tail_of (map_option cr_batch (rn_carry st ! i)))"
proof -
  obtain w where w: "any_steps E (size_of_run E) (start_view boxes) w" "vw_kinds w = map box_kind boxes"
    "rn_log st = vw_log w @ last_offers (nodes_of_kind Sink_Node boxes) w @ map Ev_Source_Finished (nodes_of_kind Source_Node boxes)"
    "map (map_option cr_batch) (rn_carry st) = vw_carried w"
    using run_batches_view [OF r len fwd] by metis
  have lt: "i < length boxes" "j < length boxes" and kinds: "vw_kinds (start_view boxes) ! i = Source_Node" "vw_kinds (start_view boxes) ! j = Sink_Node"
    using i j by (auto simp: nodes_of_kind_def start_view_def)
  have sz: "sized (size_of_run E) (start_view boxes)" using len by (simp add: start_view_def sized_def)
  have "chunks_ok i fs (start_view boxes)" using lt by (simp add: chunks_ok_def start_view_def tail_of_def)
  then have c: "chunks_ok i fs w" using any_steps_chunks [OF w(1) sz _ u] lt len by simp
  have only: "seen (staged_by j) (vw_log w) = seen (admitted_by i) (vw_log w)"
    using any_steps_only [OF w(1) refl feed kinds] by (simp add: start_view_def)
  have "seen (offered_by j) (rn_log st) = seen (staged_by j) (rn_log st)" using run_order(2) [OF r len fwd] j by blast
  then have "seen (offered_by j) (rn_log st) = seen (admitted_by i) (vw_log w)" using only by (simp add: w(3))
  moreover have "length (vw_carried w) = size_of_run E" using any_steps_frame [OF w(1)] sz by (auto simp: sized_def)
  then have "map_option cr_batch (rn_carry st ! i) = vw_carried w ! i" using lt len w(4) by (metis length_map nth_map)
  ultimately show ?thesis using c by (simp add: chunks_ok_def w(3))
qed

theorem run_keeps_every_row_witness:
  "\<exists>st. run_batches run_sample sample_boxes = Some (Inr st) \<and> seen (offered_by 1) (rn_log st) = [sample_chunk [1, 2]] \<and>
     merge_batches sample_fields (seen (pulled_by 0) (rn_log st)) = merge_batches sample_fields [sample_chunk [1, 2], sample_chunk [3]]"
proof -
  obtain st where r: "run_batches run_sample sample_boxes = Some (Inr st)" and l: "seen (offered_by 1) (rn_log st) = [sample_chunk [1, 2]]"
    and c: "map (map_option cr_batch) (rn_carry st) = [Some (sample_chunk [3]), None]"
    using cancelled_run_drops_the_tail by auto
  from arg_cong [OF c, of length] arg_cong [OF c, of hd] have "map_option cr_batch (rn_carry st ! 0) = Some (sample_chunk [3])"
    by (cases "rn_carry st") auto
  then have t: "tail_of (map_option cr_batch (rn_carry st ! 0)) = [sample_chunk [3]]" by (simp only: tail_of_def option.case)
  have "merge_batches sample_fields (seen (pulled_by 0) (rn_log st)) =
      merge_batches sample_fields (seen (offered_by 1) (rn_log st) @ tail_of (map_option cr_batch (rn_carry st ! 0)))"
    by (rule run_keeps_every_row [OF r sample_run_ok(4,1,2,3)]) (simp_all add: sample_run_ok)
  then show ?thesis using r l unfolding t by (intro exI [of _ st]) (simp only: append.simps simp_thms)
qed

text \<open>
  C15. When flow control is enabled in the settings of its controller, a source on no path to a windowed
  node is admitted at most the rows the controller targets: the rows admitted by one drain that
  returns never exceed the credit. With flow control disabled the drain has no credit to keep to.
\<close>

theorem drain_within_credit:
  assumes r: "run_source E whole i st = Some r" and i: "i < length (rn_boxes st)"
    and len: "length (rn_carry st) = length (rn_boxes st)" "length (rn_staged st) = length (rn_boxes st)"
    and c: "rn_controllers st ! i = Some c" "flow_enabled (settings c)" "\<not> whole ! i"
  shows "chunk_rows (seen (admitted_by i) (rn_log (snd r))) \<le> chunk_rows (seen (admitted_by i) (rn_log st)) + target_rows c"
proof -
  have "sized (length (rn_boxes st)) (view st)" using len by (simp add: sized_def)
  then show ?thesis using r c drain_credit [OF _ i] by (auto simp: run_source_def split: option.splits dest: drain_credit [OF _ i])
qed

text \<open>
  C16. The drain of a source ends: when the source delivers finitely many batches before it ends or
  fails and every link of the node leads to a sink or to a processor holding its components, the
  drain returns, with a credit or without one, and never panics.
\<close>

theorem drain_ends:
  assumes m: "runs_dry E i m" and s: "rn_boxes st ! i = Box_Source s" and i: "i < length (rn_boxes st)" "i < length (rn_carry st)"
    and acc: "accepting (rn_boxes st) (bn_downstream (rv_nodes E ! i))" and c: "bn_component (rv_nodes E ! i) \<noteq> None"
  shows "\<exists>cancelled st'. run_source E whole i st = Some (cancelled, st')"
proof -
  obtain component where "bn_component (rv_nodes E ! i) = Some component" using c by blast
  then show ?thesis using drain_returns [OF m s i acc] by (simp add: run_source_def)
qed

definition sample_state :: "(nat, nat, nat, nat record_batch list) runner_state" where
  "sample_state = start_state run_sample sample_boxes [None, None]"

lemma sample_state_ok:
  "rn_boxes sample_state = sample_boxes" "length (rn_carry sample_state) = 2" "length (rn_staged sample_state) = 2" "rn_log sample_state = []"
  "rn_controllers sample_state ! 0 = Some (new_controller (default_settings\<lparr>fixed_rows := Some 2\<rparr>))"
  by (simp_all add: sample_state_def start_state_def size_of_run_def run_sample_def Let_def sample_boxes_def for_source_def)

lemma sample_node:
  "bn_component (rv_nodes run_sample ! 0) = Some ''c''" "accepting (rn_boxes sample_state) (bn_downstream (rv_nodes run_sample ! 0))"
  "rn_boxes sample_state ! 0 = Box_Source 1" "0 < length (rn_boxes sample_state)" "0 < length (rn_carry sample_state)"
  by (simp_all add: sample_state_ok sample_boxes_def accepting_def run_sample_def)

theorem drain_ends_witness: "\<exists>cancelled st'. run_source run_sample [False, False] 0 sample_state = Some (cancelled, st')"
  using drain_ends [OF sample_run_ok(7) sample_node(3-5,2)] sample_node(1) by blast

lemma sample_drain: "\<exists>r. run_source run_sample [False, False] 0 sample_state = Some r"
  using drain_returns [OF sample_run_ok(7) sample_node(3-5,2)] sample_node(1) by (simp only: run_source_def option.case)

theorem drain_within_credit_witness:
  "\<exists>r. run_source run_sample [False, False] 0 sample_state = Some r \<and> chunk_rows (seen (admitted_by 0) (rn_log (snd r))) \<le> 2"
proof -
  obtain r where r: "run_source run_sample [False, False] 0 sample_state = Some r" using sample_drain by blast
  have "chunk_rows (seen (admitted_by 0) (rn_log (snd r))) \<le> chunk_rows (seen (admitted_by 0) (rn_log sample_state)) +
      target_rows (new_controller (default_settings\<lparr>fixed_rows := Some 2\<rparr>))"
    by (rule drain_within_credit [OF r]) (simp_all add: sample_state_ok sample_boxes_def sample_controller)
  then show ?thesis using r by (simp add: sample_state_ok sample_controller chunk_rows_def)
qed

end
