(* ===== verification/Spec2Isabelle.thy ===== *)
theory Spec2Isabelle
  imports Snapshot_Format Tick_Properties Dag_Properties Retry_Properties Window_Properties Session_Properties Row_Ranges
    Inspector_Buffer Sampling Numeric_Roundtrip Numeric_Text Wire_Properties Gtid_Text Holes_Properties
    Flow_Search Flow_Config Connector_Retry Healing_Properties Framing_Properties Pgoutput_Properties
    Raft_State_Properties Window_System_Properties Config_Text_Properties Kdl_Properties
    Service_Config_Properties Service_Builder_Properties Dataset_Invariant Runner_Properties
begin

text \<open>
  A verification library for saci, a batch processor that moves Arrow record batches from sources
  through pipelines of systems to sinks, alone or as a cluster. The sources are under
  \<^verbatim>\<open>src/crates\<close>; paths below are relative to it.

  \<^bold>\<open>How the parts interact.\<close> A service runs pipelines. The scheduler
  (\<^verbatim>\<open>saci-core/src/scheduler.rs\<close>) orders pipelines into stages and ticks them; inside a pipeline
  \<^verbatim>\<open>pipeline/dag.rs\<close> orders its systems by the fields they read and write, and a sliced system is
  run over ranges of rows (\<^verbatim>\<open>pipeline/execution.rs\<close>). Systems fail and are retried (\<^verbatim>\<open>retry.rs\<close>);
  windowed systems assign rows to windows by timestamp (\<^verbatim>\<open>window_spec.rs\<close>, \<^verbatim>\<open>windows\<close>). In a
  cluster a master batch is registered with a replicated state machine
  (\<^verbatim>\<open>saci-service/src/distributed/consensus\<close>) and instances claim ranges of its rows, renew their
  leases, checkpoint stages and acknowledge; the partition store is the client side of that
  protocol, the snapshot container carries the state to a new replica, and the transport frames
  the messages of Raft. Connectors bring rows in and out: modelled here are the wire protocol
  between two services, the numeric codec of PostgreSQL, and the GTID sets and the cursor of
  MariaDB. The inspector and the sampler observe.

  \<^bold>\<open>Shared theories.\<close>
  \<^item> \<open>Prelude\<close>: integer types, \<^verbatim>\<open>SaciError\<close> with its texts, results as sums, byte layouts.
  \<^item> \<open>Texts\<close>: the string functions of the standard library, with the facts that make a printed
    number parse back.
  \<^item> \<open>Ordered_Table\<close>: the locale \<open>ordered_table\<close> is what redb documents of a table; sorted
    association lists interpret it, and hold the rows of the model. The clients reason by its laws.

  \<^bold>\<open>The consensus state machine\<close> (\<^verbatim>\<open>state_machine/\<close>).
  \<open>Consensus_Types\<close> has the records, commands and responses; \<open>Keys\<close> the byte keys of the tables
  and the packed index value; \<open>Sm_Batch\<close>, \<open>Sm_Claim\<close>, \<open>Sm_Checkpoint\<close> one definition per handler;
  \<open>Sm_Queries\<close> the scans for work; \<open>Snapshot_IO\<close> dump and restore; \<open>State_Machine\<close> the dispatcher
  \<open>apply_command\<close>, the reachable states and the invariant \<open>sm_inv\<close> (tables in order, the index
  agrees with the claims, active claims of a batch are disjoint). A command that returns an error
  leaves the database as the handler's transactions left it. Lemmas: \<open>Sm_Invariant\<close> (every command
  and every restore keeps the invariant), \<open>Sm_Lifecycle\<close> (a command changes a claim only as the
  abstract relation \<open>claim_transition\<close> allows), \<open>Sm_Scan\<close> (the scan finds the first free rows), and
  the properties in \<open>Sm_Properties\<close>, \<open>Sm_Lease_Properties\<close>, \<open>Sm_Batch_Properties\<close>,
  \<open>Sm_Snapshot_Properties\<close>.

  \<^bold>\<open>Around it.\<close> \<open>Snapshot_Format\<close>: header, CRC-32, chunks, building and installing
  (\<^verbatim>\<open>consensus/snapshot.rs\<close>). \<open>Store\<close>, \<open>Store_Properties\<close>: the client operations and the claim
  loop of \<^verbatim>\<open>consensus/store.rs\<close>; the backend that proposes a command is a parameter, and the
  single-node backend, which applies it at once, instantiates it. The loop makes at most
  \<open>MAX_CONFLICT_RETRIES\<close> (eight) attempts, so it recurses on that number.

  \<^bold>\<open>The Raft stores.\<close> \<open>Raft_Log\<close>, \<open>Raft_Log_Properties\<close>: the log store of
  \<^verbatim>\<open>consensus/storage/log_store.rs\<close> over its two tables refines an abstract log (a vote, a purge point
  and a gap-free list of entries), and the startup check leaves no hole between the applied watermark
  and the log. \<open>Raft_State\<close>, \<open>Raft_State_Properties\<close>: applying committed entries, the watermarks, opening
  and snapshots (\<^verbatim>\<open>state_machine_store.rs\<close>, \<^verbatim>\<open>driver.rs\<close>); a history of batches and crashes applies
  every entry after its predecessors. Codecs and log ids of \<^verbatim>\<open>openraft\<close> are parameters.

  \<^bold>\<open>The core.\<close> \<open>Scheduler\<close> with \<open>Scheduler_Properties\<close> and \<open>Tick_Properties\<close>; \<open>Dag\<close> with
  \<open>Dag_Properties\<close>; \<open>Retry\<close> with \<open>Retry_Properties\<close>; \<open>Windows\<close> with \<open>Window_Properties\<close>;
  \<open>Sessions\<close> with \<open>Session_Properties\<close>; \<open>Window_System\<close> with \<open>Window_System_Properties\<close>, the run of a
  windowed aggregation (\<^verbatim>\<open>windows/system.rs\<close>, \<^verbatim>\<open>aggregate.rs\<close>, \<^verbatim>\<open>sliding.rs\<close>), a group-by that
  accounts for every row with a time; \<open>Connector_Retry\<close>, the wrappers of sources and sinks
  (\<^verbatim>\<open>io/retry.rs\<close>), equal to the retry driver; \<open>Row_Ranges\<close>. Kahn's loop and the level loop run with as much
  fuel as there are nodes, which is enough because each round places at least one; that is part
  of the lemmas \<open>kahn_correct\<close> and \<open>level_loop_correct\<close>. The retry drivers are a loop whose measure
  is the number of attempts left, hence total; sleeping and the random jitter are outputs and
  inputs. Sorting and casting of columns are kernels of Arrow, with what they document as
  hypotheses and list functions as the witness.

  \<^bold>\<open>Connectors and observation.\<close>
  \<^item> \<open>Wire\<close>, \<open>Wire_Properties\<close>: the frames of \<^verbatim>\<open>saci-connector-saci/src/wire.rs\<close> and of the Raft
    transport; decoding inverts encoding, encoding fails exactly on an overlong length, the
    streaming and the copying encoder of a data frame agree.
  \<^item> \<open>Numeric\<close>, \<open>Numeric_Properties\<close>, \<open>Numeric_Roundtrip\<close>, \<open>Numeric_Text\<close>:
    \<^verbatim>\<open>saci-connector-postgresql/src/numeric.rs\<close>; a value is decoded exactly or refused, and an
    encoded one decodes back.
  \<^item> \<open>Gtid\<close>, \<open>Gtid_Properties\<close>, \<open>Gtid_Text\<close>: \<^verbatim>\<open>saci-connector-mariadb/src/source/gtid.rs\<close>; the interval
    lists stand for sets of transactions, insertion is union, the subset test and the count are
    those of the sets, and the canonical text parses back.
  \<^item> \<open>Holes\<close>, \<open>Holes_Properties\<close>: \<^verbatim>\<open>saci-connector-mariadb/src/source/sequence.rs\<close>; which rows are
    released past a gap of an \<^verbatim>\<open>AUTO_INCREMENT\<close> cursor, and on what evidence.
  \<^item> \<open>Pgoutput\<close>, \<open>Pgoutput_Properties\<close>: \<^verbatim>\<open>saci-connector-postgresql/src/source/pgoutput.rs\<close>; the
    decoder accepts exactly the encodings of well-formed messages.
  \<^item> \<open>Framing\<close>, \<open>Framing_Properties\<close>: \<^verbatim>\<open>saci-connector-http/src/framing.rs\<close> and the drain loops of
    its reader; frames do not depend on the chunks they arrive in. The locales \<open>framing\<close> and
    \<open>exact_framing\<close> state what the reader needs of a framer, and both framers interpret them.
  \<^item> \<open>Healing\<close>, \<open>Healing_Properties\<close>: \<^verbatim>\<open>saci-service/src/service/heal.rs\<close>, its block in
    \<^verbatim>\<open>config.rs\<close>; rebuilds are bounded, and a broken sink is replaced when its deadline passes.
  \<^item> \<open>Inspector_Buffer\<close>: \<^verbatim>\<open>saci-service/src/inspector/buffer.rs\<close>. \<open>Sampling\<close>:
    \<^verbatim>\<open>saci-service/src/service/sampling.rs\<close>.

  \<^bold>\<open>Flow control\<close> (\<^verbatim>\<open>saci-service/src/service/flow.rs\<close>, its block in \<^verbatim>\<open>service/config.rs\<close>).
  \<open>Floats\<close> is the \<^verbatim>\<open>f64\<close> arithmetic the controller uses, rationals rounded to 53 bits, with the
  bound on the error. \<open>Flow\<close> is the controller, one definition per method and the parts of
  \<open>observe\<close>, and the configuration block. \<open>Flow_Properties\<close> keeps the sizes in range over any run
  and says on what evidence they move; \<open>Flow_Search\<close> shows the experiment never freezes while a
  growth step at the floor is a whole row, and no rest is longer than sixteen epochs;
  \<open>Flow_Config\<close> says what a validated block resolves to, and that the declared range holds for
  every pass.

  \<^bold>\<open>From the configuration to a workflow.\<close>
  \<^item> \<open>Config_Text\<close>, \<open>Config_Text_Properties\<close>, \<open>Kdl_Mapping\<close>, \<open>Kdl_Properties\<close>:
    \<^verbatim>\<open>saci-config/src/lib.rs\<close>. The text is substituted (the recursion through declared variables ends
    because a name on the stack is refused, so the number of names left is the measure), then the nodes of
    the parsed document become values. The parser and the environment are arguments.
  \<^item> \<open>Service_Config\<close>, \<open>Service_Config_Properties\<close>: the records of \<^verbatim>\<open>service/config.rs\<close> and \<^verbatim>\<open>validate\<close>, one
    definition per numbered rule, in its order; validation is equivalent to the declarative
    \<open>workflow_ok\<close> and \<open>service_ok\<close>. The topological order reuses the scheduler's \<open>kahn\<close>.
  \<^item> \<open>Workflow_Graph\<close>, \<open>Service_Builder\<close>, \<open>Service_Builder_Properties\<close>: \<^verbatim>\<open>service/validation.rs\<close>,
    \<^verbatim>\<open>builder.rs\<close> and the tables of \<^verbatim>\<open>factories.rs\<close>. A built node is its shape: the schema a connector
    reports, or the components and the template of a runtime. \<open>None\<close> is a panic; a validated workflow
    has none. Factories, hosts and features are the fields of \<open>build_env\<close>.

  \<^bold>\<open>The data set\<close> (\<^verbatim>\<open>saci-core/src/dataset\<close>, \<^verbatim>\<open>schema.rs\<close>). \<open>Dataset\<close> has one definition per method;
  \<open>Dataset_Properties\<close> abstracts a data set to the batch each component holds (\<open>contents\<close>) and shows what
  the operations do to it; \<open>Dataset_Invariant\<close> has the step relation of the operations and the
  invariant \<open>dataset_ok\<close> of what they reach. \<open>kernels_ok\<close> is what Arrow documents of concatenation and
  filtering; \<open>reference_kernels\<close> satisfies it.

  \<^bold>\<open>A run of a service\<close> (\<^verbatim>\<open>saci-service/src/service/standalone.rs\<close>, \<^verbatim>\<open>windowing.rs\<close>). \<open>Runner\<close>: which
  nodes lead to a windowed one (one backward pass answers reachability when every link leads forward) and
  the watermark tracker of a node; then a whole run in the batch modes over the built nodes, draining
  sources under the credit of their \<open>controller\<close>, carrying the tails of cut arrivals, merging into the data
  sets of processors, writing sinks, feeding the controllers, pacing and every exit; connectors, runtimes,
  the clock and the cancellation token are fields of \<open>run_env\<close>, and each call that leaves the runner is
  an event. The drain and the loop of the passes are partial functions: \<open>None\<close> is a panic or no end, and
  \<open>drain_ends\<close> says when a drain ends. \<open>Runner_Steps\<close> sees a state as a view (kinds, carried, staged,
  events) and shows that the nodes make steps on views; \<open>Runner_Properties\<close> has the invariants of the steps
  and the properties: the order of the finishing events, no row lost between a source and its sink but
  the carried tail, the credit as a bound.

  \<^bold>\<open>Conventions.\<close> Machine integers are words or integers with the wrap written out; the release
  profile has no overflow checks, so arithmetic wraps. Errors are values of a sum with the texts of
  the source. A clock reading, a random number and an answer of an external service are arguments
  of the operation that uses them. Strings are lists of characters whose code points are below 256,
  or their UTF-8 bytes where the code handles bytes.

  \<^bold>\<open>What the findings rest on.\<close> Some lemmas state behaviour that differs from a comment or that the
  code does not seem to intend: \<open>restore_pends_every_batch\<close>, \<open>ack_unpends_partly_claimed_batch\<close>,
  \<open>register_size_limit\<close>, \<open>sliding_window_before_timestamp\<close>, \<open>negative_watermark_drops_nothing\<close>,
  \<open>row_ranges_overflow\<close>, \<open>null_key_collides\<close>, \<open>numeric_minimum_refused\<close>,
  \<open>small_growth_sticks\<close>, \<open>session_of_next_run_is_late\<close>, \<open>sliding_context_off\<close>,
  \<open>empty_partition_drops_side_output\<close>, \<open>replayed_batch_diverges\<close>, \<open>event_cap_counts_field_name\<close>,
  \<open>compact_short_fails\<close>, \<open>cancelled_run_drops_the_tail\<close>, \<open>shrunk_batch_offered\<close>.

  \<^bold>\<open>Not modelled.\<close> Election, replication and the network of Raft (openraft with adapters). Of the service: the
  dead letter queue and its store, the lifecycle supervisor, the stream mode and the distributed runner
  (both drive the same nodes from concurrent tasks, which needs a model of the task scheduler first),
  HTTP, plugins and WebAssembly hosts. Of the connectors: the clients of databases, brokers and sockets,
  which are calls of their libraries, with the schema history and the offsets of MariaDB. Arrow's kernels,
  the window accumulator (a generated component), deserialization by serde, transformers, macros and the
  web interface. Within a modelled file: conversions of foreign errors, logging and metrics, \<^verbatim>\<open>Debug\<close>
  output, and the SQL a connector sends. A failure of redb itself (an I/O error of a transaction) is not
  a branch of the handlers.
\<close>

end
